(* ===== verification/Prelude.thy ===== *)
theory Prelude
  imports Main
    "HOL-Library.Word"
    "HOL-Library.Char_ord"
    "HOL-Library.List_Lexorder"
    "HOL-Library.Monad_Syntax"
    "HOL-Library.Sublist"
begin

text \<open>
  Shared vocabulary of the development: the machine integers of the C++ sources as words,
  the ordered associative container \<open>std::map\<close> as a strictly sorted association list with the
  contract its clients rely on, checked iterator dereferences in the option monad, and the list
  lemmas that several components use.
\<close>

unbundle bit_operations_syntax

section \<open>Machine integers\<close>

type_synonym u8 = "8 word"
type_synonym u16 = "16 word"
type_synonym u32 = "32 word"
type_synonym u64 = "64 word"

text \<open>\<open>time_t\<close> is a signed 64-bit count of seconds. It is kept as an \<open>int\<close>; an addition that
  leaves the range of the type is undefined in C++ and is \<open>None\<close> here.\<close>

type_synonym time_t = int

definition time_max :: time_t where
  "time_max = 2 ^ 63 - 1"

definition time_add :: "time_t \<Rightarrow> time_t \<Rightarrow> time_t option" where
  "time_add a b = (if - (2 ^ 63) \<le> a + b \<and> a + b \<le> time_max then Some (a + b) else None)"

lemma time_add_Some [simp]:
  "time_add a b = Some c \<longleftrightarrow> c = a + b \<and> - (2 ^ 63) \<le> a + b \<and> a + b \<le> time_max"
  by (auto simp: time_add_def)

lemma sint_small_int: "- (2 ^ 31) \<le> i \<Longrightarrow> i < 2 ^ 31 \<Longrightarrow> sint (of_int i :: u32) = i"
  by (simp add: signed_of_int signed_take_bit_int_eq_self)

lemma sint_small: "n < 2 ^ 31 \<Longrightarrow> sint (of_nat n :: u32) = int n"
  using sint_small_int [of "int n"] by simp

lemma unat_push_one: "n < LENGTH('a) \<Longrightarrow> unat (push_bit n 1 :: 'a::len word) = 2 ^ n"
proof -
  assume n: "n < LENGTH('a)"
  have "unat (of_nat (2 ^ n) :: 'a word) = 2 ^ n"
    using power_strict_increasing [OF n, of "2 :: nat"] by (simp only: unat_of_nat) simp
  then show ?thesis by simp
qed

text \<open>The position of the highest bit of a positive number.\<close>

fun log2_floor :: "nat \<Rightarrow> nat" where
  "log2_floor n = (if n \<le> 1 then 0 else Suc (log2_floor (n div 2)))"

declare log2_floor.simps [simp del]

lemma log2_floor_bounds: "0 < n \<Longrightarrow> 2 ^ log2_floor n \<le> n \<and> n < 2 ^ Suc (log2_floor n)"
proof (induction n rule: log2_floor.induct)
  case (1 n)
  show ?case
  proof (cases "n \<le> 1")
    case True
    with 1 show ?thesis by (simp add: log2_floor.simps [of n])
  next
    case False
    then have "2 ^ log2_floor (n div 2) \<le> n div 2 \<and> n div 2 < 2 ^ Suc (log2_floor (n div 2))"
      using 1 by simp
    with False show ?thesis by (auto simp: log2_floor.simps [of n])
  qed
qed

section \<open>Collections of facts\<close>

named_theorems omap_simps \<open>lookups in an updated ordered map\<close>
named_theorems keeps \<open>operations that keep an invariant\<close>

section \<open>Checked steps\<close>

text \<open>A step whose precondition the C++ code asserts, or whose violation is undefined behaviour,
  is a guard in the option monad: \<open>None\<close> is the failed assertion or the undefined access.\<close>

definition guard :: "bool \<Rightarrow> unit option" where
  "guard b = (if b then Some () else None)"

lemma guard_True [simp]: "guard True = Some ()"
  by (simp add: guard_def)

lemma guard_Some [simp]: "guard b = Some u \<longleftrightarrow> b"
  by (simp add: guard_def)

lemma bind_guard [simp]: "(guard b \<bind> f) = (if b then f () else None)"
  by (simp add: guard_def)

section \<open>Ordered maps\<close>

text \<open>\<open>std::map\<close> is an association list sorted strictly by key: \<open>map_of\<close> is \<open>find\<close>, the list
  order is the iteration order, \<open>length\<close> is \<open>size()\<close>. \<open>om_update\<close> is the assignment
  \<open>m[k] = v\<close>, \<open>om_emplace\<close> leaves an existing entry alone as \<open>emplace\<close> does, and \<open>om_delete\<close> is
  \<open>erase\<close>.\<close>

type_synonym ('k, 'v) omap = "('k \<times> 'v) list"

definition om_ok :: "('k::linorder, 'v) omap \<Rightarrow> bool" where
  "om_ok m \<longleftrightarrow> sorted_wrt (<) (map fst m)"

definition om_update :: "'k::linorder \<Rightarrow> 'v \<Rightarrow> ('k, 'v) omap \<Rightarrow> ('k, 'v) omap" where
  "om_update k v m = filter (\<lambda>p. fst p < k) m @ (k, v) # filter (\<lambda>p. k < fst p) m"

definition om_delete :: "'k \<Rightarrow> ('k, 'v) omap \<Rightarrow> ('k, 'v) omap" where
  "om_delete k m = filter (\<lambda>p. fst p \<noteq> k) m"

definition om_emplace :: "'k::linorder \<Rightarrow> 'v \<Rightarrow> ('k, 'v) omap \<Rightarrow> ('k, 'v) omap" where
  "om_emplace k v m = (case map_of m k of None \<Rightarrow> om_update k v m | Some _ \<Rightarrow> m)"

lemma om_ok_Nil [simp]: "om_ok []"
  by (simp add: om_ok_def)

lemma om_ok_Cons: "om_ok (p # m) \<longleftrightarrow> (\<forall>q \<in> set m. fst p < fst q) \<and> om_ok m"
  by (auto simp: om_ok_def)

lemma om_ok_distinct: "om_ok m \<Longrightarrow> distinct (map fst m)"
  by (simp add: om_ok_def strict_sorted_iff)

lemma om_ok_filter [keeps]: "om_ok m \<Longrightarrow> om_ok (filter P m)"
  by (induction m) (auto simp: om_ok_Cons)

lemma om_ok_update [keeps]: "om_ok m \<Longrightarrow> om_ok (om_update k v m)"
  by (auto simp: om_ok_def om_update_def sorted_wrt_append sorted_wrt_map sorted_wrt_filter
      intro: less_trans)

lemma om_ok_delete [keeps]: "om_ok m \<Longrightarrow> om_ok (om_delete k m)"
  by (simp add: om_delete_def om_ok_filter)

lemma om_ok_emplace [keeps]: "om_ok m \<Longrightarrow> om_ok (om_emplace k v m)"
  by (simp add: om_emplace_def om_ok_update split: option.split)

lemma map_of_filter_fst: "map_of (filter (\<lambda>p. P (fst p)) m) k = (if P k then map_of m k else None)"
  by (induction m) auto

lemma map_of_filter_le: "map_of (filter (\<lambda>p. P (fst p)) m) \<subseteq>\<^sub>m map_of m"
  by (auto simp: map_le_def map_of_filter_fst)

lemma map_of_om_update [omap_simps, simp]:
  "map_of (om_update k v m) = (map_of m)(k \<mapsto> v)"
proof
  fix x
  show "map_of (om_update k v m) x = ((map_of m)(k \<mapsto> v)) x"
    by (cases x k rule: linorder_cases)
      (auto simp: om_update_def map_add_def map_of_filter_fst [where P = "\<lambda>x. x < k"]
        map_of_filter_fst [where P = "\<lambda>x. k < x"] split: option.split)
qed

lemma map_of_om_delete [omap_simps, simp]: "map_of (om_delete k m) = (map_of m)(k := None)"
  by (rule ext) (simp add: om_delete_def map_of_filter_fst [where P = "\<lambda>x. x \<noteq> k"])

lemma map_of_om_emplace [omap_simps]:
  "map_of (om_emplace k v m) = (case map_of m k of None \<Rightarrow> (map_of m)(k \<mapsto> v) | Some _ \<Rightarrow> map_of m)"
  by (simp add: om_emplace_def split: option.split)

lemma length_om_update:
  assumes "map_of m k = None"
  shows "length (om_update k v m) = Suc (length m)"
proof -
  have "length (filter (\<lambda>p. fst p < k) m) + length (filter (\<lambda>p. k < fst p) m) = length m"
    using assms by (induction m) (auto simp: map_of_eq_None_iff split: if_splits)
  then show ?thesis by (simp add: om_update_def)
qed

lemma takeWhile_sorted: "om_ok m \<Longrightarrow> takeWhile (\<lambda>p. fst p < x) m = filter (\<lambda>p. fst p < x) m"
  by (induction m) (auto simp: om_ok_Cons filter_empty_conv eq_commute [of "[]"])

lemma om_split: "om_ok m \<Longrightarrow> filter (\<lambda>p. fst p < k) m @ filter (\<lambda>p. k < fst p) m = om_delete k m"
proof (induction m)
  case (Cons p m)
  show ?case
  proof (cases "fst p < k")
    case True
    with Cons show ?thesis by (auto simp: om_ok_Cons om_delete_def)
  next
    case False
    with Cons.prems have "\<forall>q \<in> set m. k < fst q" by (auto simp: om_ok_Cons)
    then have "filter (\<lambda>p. fst p < k) m = []" "filter (\<lambda>p. k < fst p) m = m" "filter (\<lambda>p. fst p \<noteq> k) m = m"
      by (auto simp: filter_empty_conv filter_id_conv)
    with False show ?thesis by (auto simp: om_delete_def)
  qed
qed (simp add: om_delete_def)

lemma om_delete_update: "om_ok m \<Longrightarrow> om_delete k (om_update k v m) = om_delete k m"
proof -
  assume ok: "om_ok m"
  have "om_delete k (om_update k v m)
      = om_delete k (filter (\<lambda>p. fst p < k) m @ filter (\<lambda>p. k < fst p) m)"
    by (simp add: om_delete_def om_update_def)
  also have "\<dots> = om_delete k (om_delete k m)" using ok by (simp only: om_split)
  finally show ?thesis by (simp add: om_delete_def)
qed

lemma om_delete_length: "map_of m k \<noteq> None \<Longrightarrow> length (om_delete k m) < length m"
  by (auto simp: om_delete_def map_of_eq_None_iff intro!: length_filter_less)

lemma om_delete_sole: "dom (map_of m) = {k} \<Longrightarrow> om_delete k m = []"
  by (auto simp: om_delete_def dom_map_of_conv_image_fst filter_empty_conv)

lemma length_om_delete:
  assumes "om_ok m" and "map_of m k \<noteq> None"
  shows "Suc (length (om_delete k m)) = length m"
proof -
  have "distinct (map fst m)" using assms(1) by (rule om_ok_distinct)
  moreover from assms(2) have "k \<in> fst ` set m" by (simp add: map_of_eq_None_iff)
  ultimately show ?thesis
  proof (induction m)
    case (Cons p m)
    show ?case
    proof (cases "fst p = k")
      case True
      with Cons.prems(1) have "k \<notin> fst ` set m" by simp
      then have "\<forall>q \<in> set m. fst q \<noteq> k" by blast
      then have "filter (\<lambda>q. fst q \<noteq> k) m = m" by (simp add: filter_id_conv)
      with True show ?thesis by (simp add: om_delete_def)
    next
      case False
      with Cons show ?thesis by (auto simp: om_delete_def)
    qed
  qed simp
qed

text \<open>The contract that the clients of \<open>std::map\<close> rely on, and what follows from it alone.\<close>

locale map_contract =
  fixes lookup :: "'m \<Rightarrow> 'k \<Rightarrow> 'v option"
    and upd :: "'k \<Rightarrow> 'v \<Rightarrow> 'm \<Rightarrow> 'm"
    and del :: "'k \<Rightarrow> 'm \<Rightarrow> 'm"
    and ok :: "'m \<Rightarrow> bool"
  assumes lookup_upd: "lookup (upd k v m) = (lookup m)(k \<mapsto> v)"
    and lookup_del: "lookup (del k m) = (lookup m)(k := None)"
    and ok_upd: "ok m \<Longrightarrow> ok (upd k v m)"
    and ok_del: "ok m \<Longrightarrow> ok (del k m)"
begin

lemma upd_frame: "k' \<noteq> k \<Longrightarrow> lookup (upd k v m) k' = lookup m k'"
  by (simp add: lookup_upd)

lemma del_frame: "k' \<noteq> k \<Longrightarrow> lookup (del k m) k' = lookup m k'"
  by (simp add: lookup_del)

lemma last_write_wins: "lookup (upd k v (upd k w m)) = lookup (upd k v m)"
  by (simp add: lookup_upd)

lemma fold_upd: "lookup (fold (\<lambda>(k, v). upd k v) kvs m) = lookup m ++ map_of (rev kvs)"
  by (induction kvs arbitrary: m) (auto simp: lookup_upd)

lemma fold_upd_ok: "ok m \<Longrightarrow> ok (fold (\<lambda>(k, v). upd k v) kvs m)"
  by (induction kvs arbitrary: m) (auto simp: ok_upd)

end

interpretation om: map_contract map_of om_update om_delete om_ok
  by unfold_locales (simp_all add: om_ok_update om_ok_delete)

section \<open>The contract of a cache\<close>

text \<open>A cache may forget, but it must not invent: after a \<open>put\<close> every lookup gives what a store
  that never forgets would give, or nothing. Operations are partial (\<open>None\<close> is undefined
  behaviour), and the contract includes that they do not fail under the invariant.\<close>

datatype ('k, 'v) cache_op = Put 'k 'v | Del 'k

fun store_run :: "('k, 'v) cache_op list \<Rightarrow> ('k \<rightharpoonup> 'v) \<Rightarrow> ('k \<rightharpoonup> 'v)" where
  "store_run [] m = m"
| "store_run (Put k v # ops) m = store_run ops (m(k \<mapsto> v))"
| "store_run (Del k # ops) m = store_run ops (m(k := None))"

fun cache_run ::
  "('k \<Rightarrow> 'v \<Rightarrow> 's \<Rightarrow> 's option) \<Rightarrow> ('k \<Rightarrow> 's \<Rightarrow> 's option) \<Rightarrow> ('k, 'v) cache_op list \<Rightarrow> 's \<Rightarrow> 's option" where
  "cache_run put del [] s = Some s"
| "cache_run put del (Put k v # ops) s = put k v s \<bind> cache_run put del ops"
| "cache_run put del (Del k # ops) s = del k s \<bind> cache_run put del ops"

locale cache_contract =
  fixes lookup :: "'s \<Rightarrow> 'k \<Rightarrow> 'v option"
    and put :: "'k \<Rightarrow> 'v \<Rightarrow> 's \<Rightarrow> 's option"
    and del :: "'k \<Rightarrow> 's \<Rightarrow> 's option"
    and inv :: "'s \<Rightarrow> bool"
  assumes put_ok: "inv s \<Longrightarrow> \<exists>s'. put k v s = Some s' \<and> inv s' \<and> lookup s' \<subseteq>\<^sub>m (lookup s)(k \<mapsto> v)"
    and del_ok: "inv s \<Longrightarrow> \<exists>s'. del k s = Some s' \<and> inv s' \<and> lookup s' \<subseteq>\<^sub>m (lookup s)(k := None)"
begin

lemma never_invents:
  "inv s \<Longrightarrow> lookup s \<subseteq>\<^sub>m m \<Longrightarrow>
    \<exists>s'. cache_run put del ops s = Some s' \<and> inv s' \<and> lookup s' \<subseteq>\<^sub>m store_run ops m"
proof (induction ops arbitrary: s m)
  case (Cons op ops)
  show ?case
  proof (cases op)
    case (Put k v)
    from put_ok [OF Cons.prems(1), of k v] obtain s1
      where s1: "put k v s = Some s1" "inv s1" "lookup s1 \<subseteq>\<^sub>m (lookup s)(k \<mapsto> v)" by blast
    from s1(3) Cons.prems(2) have "lookup s1 \<subseteq>\<^sub>m m(k \<mapsto> v)"
      by (meson map_le_trans map_le_upd)
    from Cons.IH [OF s1(2) this] s1(1) Put show ?thesis by (simp add: fun_upd_def)
  next
    case (Del k)
    from del_ok [OF Cons.prems(1), of k] obtain s1
      where s1: "del k s = Some s1" "inv s1" "lookup s1 \<subseteq>\<^sub>m (lookup s)(k := None)" by blast
    from s1(3) Cons.prems(2) have "lookup s1 \<subseteq>\<^sub>m m(k := None)"
      by (auto simp: map_le_def dom_def split: if_splits)
    from Cons.IH [OF s1(2) this] s1(1) Del show ?thesis by (simp add: fun_upd_def)
  qed
qed simp

end

section \<open>Strings and prefixes\<close>

text \<open>\<open>std::equal(p.begin(), p.end(), s.begin())\<close> under the length test that guards it at
  every call: the first argument is a prefix of the second.\<close>

definition starts_with :: "string \<Rightarrow> string \<Rightarrow> bool" where
  "starts_with p s \<longleftrightarrow> length p \<le> length s \<and> take (length p) s = p"

lemma starts_with_prefix [simp]: "starts_with p s \<longleftrightarrow> prefix p s"
  by (auto simp: starts_with_def prefix_def) (metis append_take_drop_id)

lemma prefix_le: "prefix p k \<Longrightarrow> p \<le> (k :: string)"
proof (induction p arbitrary: k)
  case (Cons c p)
  then show ?case by (cases k) auto
qed simp

lemma prefix_between: "prefix p k \<Longrightarrow> p \<le> x \<Longrightarrow> x \<le> k \<Longrightarrow> prefix p (x :: string)"
proof (induction p arbitrary: k x)
  case (Cons c p)
  from Cons.prems(1) obtain k' where k: "k = c # k'" "prefix p k'" by (auto simp: prefix_def)
  from Cons.prems(2) obtain d x' where x: "x = d # x'" by (cases x) auto
  from Cons.prems k x have "d = c" by (auto simp: Cons_le_Cons)
  with Cons.IH [OF k(2), of x'] Cons.prems k x show ?case by auto
qed simp

section \<open>Numbers as text\<close>

definition digit :: "nat \<Rightarrow> char" where
  "digit n = char_of (n + 48)"

definition is_digit :: "char \<Rightarrow> bool" where
  "is_digit c \<longleftrightarrow> 48 \<le> (of_char c :: nat) \<and> (of_char c :: nat) \<le> 57"

definition is_space :: "char \<Rightarrow> bool" where
  "is_space c \<longleftrightarrow> (of_char c :: nat) \<in> {9, 10, 11, 12, 13, 32}"

text \<open>\<open>std::to_string\<close> of an unsigned number.\<close>

fun to_string :: "nat \<Rightarrow> string" where
  "to_string n = (if n < 10 then [digit n] else to_string (n div 10) @ [digit (n mod 10)])"

declare to_string.simps [simp del]

definition digits_value :: "string \<Rightarrow> nat" where
  "digits_value s = foldl (\<lambda>v c. 10 * v + (of_char c - 48)) 0 s"

text \<open>\<open>strtoull(s, &ptr, 10)\<close>: white space, an optional sign, the longest run of digits; a value
  that is too large gives \<open>ULLONG_MAX\<close>, a minus sign negates in the unsigned type.\<close>

definition strtoull :: "string \<Rightarrow> u64" where
  "strtoull s =
     (let s = dropWhile is_space s;
          neg = (case s of c # _ \<Rightarrow> c = CHR ''-'' | [] \<Rightarrow> False);
          s = (case s of c # r \<Rightarrow> if c = CHR ''-'' \<or> c = CHR ''+'' then r else s | [] \<Rightarrow> s);
          v = digits_value (takeWhile is_digit s) in
      if 2 ^ 64 \<le> v then - 1 else if neg then - of_nat v else of_nat v)"

lemma of_char_digit_nat [simp]: "n < 10 \<Longrightarrow> of_char (digit n) = n + (48 :: nat)"
  by (simp add: digit_def)

lemma is_digit_digit [simp]: "n < 10 \<Longrightarrow> is_digit (digit n)"
  by (simp add: is_digit_def)

lemma digits_value_snoc: "digits_value (s @ [c]) = 10 * digits_value s + (of_char c - 48)"
  by (simp add: digits_value_def)

lemma to_string_digits: "\<forall>c \<in> set (to_string n). is_digit c"
  by (induction n rule: to_string.induct) (subst to_string.simps, auto)

lemma to_string_value: "digits_value (to_string n) = n"
proof (induction n rule: to_string.induct)
  case (1 n)
  show ?case
  proof (cases "n < 10")
    case True
    then show ?thesis by (simp add: to_string.simps [of n] digits_value_def)
  next
    case False
    with 1 show ?thesis by (simp add: to_string.simps [of n] digits_value_snoc)
  qed
qed

lemma to_string_nonempty [simp]: "to_string n \<noteq> []"
  by (simp add: to_string.simps [of n])

lemma to_string_inject: "to_string m = to_string n \<longleftrightarrow> m = n"
  by (metis to_string_value)

lemma strtoull_to_string:
  assumes "n < 2 ^ 64"
  shows "strtoull (to_string n) = of_nat n"
proof -
  obtain c r where s: "to_string n = c # r" by (cases "to_string n") auto
  then have c: "is_digit c" using to_string_digits [of n] by simp
  then have "\<not> is_space c" "c \<noteq> CHR ''-''" "c \<noteq> CHR ''+''" by (auto simp: is_digit_def is_space_def)
  moreover have "takeWhile is_digit (to_string n) = to_string n"
    using to_string_digits by (simp add: takeWhile_eq_all_conv)
  ultimately show ?thesis using assms to_string_value [of n] by (simp add: strtoull_def s Let_def)
qed

text \<open>\<open>std::to_string\<close> and \<open>std::stoll\<close> of signed 64-bit numbers; \<open>None\<close> is the exception that
  \<open>stoll\<close> throws when there is no number or it is out of range.\<close>

definition to_string_int :: "int \<Rightarrow> string" where
  "to_string_int i = (if i < 0 then CHR ''-'' # to_string (nat (- i)) else to_string (nat i))"

definition stoll :: "string \<Rightarrow> int option" where
  "stoll s =
     (let s = dropWhile is_space s;
          neg = (case s of c # _ \<Rightarrow> c = CHR ''-'' | [] \<Rightarrow> False);
          s = (case s of c # r \<Rightarrow> if c = CHR ''-'' \<or> c = CHR ''+'' then r else s | [] \<Rightarrow> s);
          ds = takeWhile is_digit s;
          v = (if neg then - int (digits_value ds) else int (digits_value ds)) in
      if ds = [] \<or> v < - (2 ^ 63) \<or> time_max < v then None else Some v)"

lemma stoll_to_string_int:
  assumes "- (2 ^ 63) \<le> i" and "i \<le> time_max"
  shows "stoll (to_string_int i) = Some i"
proof -
  let ?s = "to_string (nat \<bar>i\<bar>)"
  obtain c r where s: "?s = c # r" by (cases ?s) auto
  then have c: "is_digit c" using to_string_digits [of "nat \<bar>i\<bar>"] by simp
  then have "\<not> is_space c" "c \<noteq> CHR ''-''" "c \<noteq> CHR ''+''" by (auto simp: is_digit_def is_space_def)
  moreover have t: "takeWhile is_digit (c # r) = c # r"
    using to_string_digits [of "nat \<bar>i\<bar>"] s by (simp only: takeWhile_eq_all_conv)
  moreover have "digits_value (c # r) = nat \<bar>i\<bar>" using to_string_value [of "nat \<bar>i\<bar>"] s by simp
  moreover have "\<not> is_space CHR ''-''" by (simp add: is_space_def)
  ultimately show ?thesis using assms s
    by (cases "i < 0") (auto simp: to_string_int_def stoll_def Let_def)
qed

section \<open>Lists\<close>

lemma pair_list_cases [case_names Nil Cons]:
  "(l = [] \<Longrightarrow> P) \<Longrightarrow> (\<And>k v l'. l = (k, v) # l' \<Longrightarrow> P) \<Longrightarrow> P"
  by (cases l) (auto simp: split_paired_all)

lemma pair_list_rev_cases [case_names Nil snoc]:
  "(l = [] \<Longrightarrow> P) \<Longrightarrow> (\<And>l' k v. l = l' @ [(k, v)] \<Longrightarrow> P) \<Longrightarrow> P"
  by (cases l rule: rev_cases) (auto simp: split_paired_all)

lemma split_list_distinct:
  assumes "map_of l k = Some v"
  obtains xs ys where "l = xs @ (k, v) # ys" and "k \<notin> fst ` set xs"
proof -
  have "\<exists>xs ys. l = xs @ (k, v) # ys \<and> k \<notin> fst ` set xs"
    using assms
  proof (induction l)
    case (Cons p l)
    show ?case
    proof (cases "fst p = k")
      case True
      with Cons.prems show ?thesis by (cases p) (auto intro: exI [of _ "[]"])
    next
      case False
      with Cons.prems obtain xs ys where "l = xs @ (k, v) # ys" and "k \<notin> fst ` set xs"
        using Cons.IH by auto
      with False have "p # l = (p # xs) @ (k, v) # ys" and "k \<notin> fst ` set (p # xs)" by auto
      then show ?thesis by blast
    qed
  qed simp
  with that show thesis by blast
qed

lemma filter_neq_fresh: "k \<notin> fst ` set l \<Longrightarrow> filter (\<lambda>p. fst p \<noteq> k) l = l"
  by (rule filter_True) auto

end
