(* ===== verification/LruCache.thy ===== *)
theory LruCache
  imports Prelude
begin

text \<open>
  \<open>olp::utils::LruCache\<close> (include/olp/core/utils/LruCache.h): an intrusive doubly linked list
  threaded through the buckets of a \<open>std::map\<close>. An iterator into the map is \<open>Some\<close> key, the end
  iterator is \<open>None\<close>. Every dereference is checked: an operation returns \<open>None\<close> when it would
  follow the end iterator or an erased bucket, or fail an \<open>assert\<close>. The eviction callback is
  an output: each operation also returns the calls it makes, in order.

  The theory relates the linked structure to the list of entries from the most to the least
  recently used one (\<open>lru_rel\<close>), proves that every operation succeeds and acts on that list as
  its abstract counterpart does, and derives the contract that the cache's clients use.
\<close>

section \<open>State\<close>

record ('k, 'v) bucket =
  bnext :: "'k option"
  bprevious :: "'k option"
  bvalue :: 'v

record ('k, 'v) lru =
  eviction_callback :: bool
  cache_cost_func :: "'v \<Rightarrow> u64"
  lru_map :: "('k, ('k, 'v) bucket) omap"
  lru_first :: "'k option"
  lru_last :: "'k option"
  lru_max_size :: u64
  lru_size :: u64

definition LruCache_new :: "u64 \<Rightarrow> ('v \<Rightarrow> u64) \<Rightarrow> ('k, 'v) lru" where
  "LruCache_new maxSize costFunc =
     \<lparr>eviction_callback = False, cache_cost_func = costFunc, lru_map = [], lru_first = None,
      lru_last = None, lru_max_size = maxSize, lru_size = 0\<rparr>"

definition SetEvictionCallback :: "bool \<Rightarrow> ('k, 'v) lru \<Rightarrow> ('k, 'v) lru" where
  "SetEvictionCallback func c = c\<lparr>eviction_callback := func\<rparr>"

section \<open>Operations\<close>

definition deref :: "'k option \<Rightarrow> ('k, 'v) lru \<Rightarrow> ('k, 'v) bucket option" where
  "deref it c = do { k \<leftarrow> it; map_of (lru_map c) k }"

definition setNext :: "'k::linorder option \<Rightarrow> 'k option \<Rightarrow> ('k, 'v) lru \<Rightarrow> ('k, 'v) lru option" where
  "setNext it n c = do {
     k \<leftarrow> it;
     b \<leftarrow> map_of (lru_map c) k;
     Some (c\<lparr>lru_map := om_update k (b\<lparr>bnext := n\<rparr>) (lru_map c)\<rparr>) }"

definition setPrevious :: "'k::linorder option \<Rightarrow> 'k option \<Rightarrow> ('k, 'v) lru \<Rightarrow> ('k, 'v) lru option" where
  "setPrevious it p c = do {
     k \<leftarrow> it;
     b \<leftarrow> map_of (lru_map c) k;
     Some (c\<lparr>lru_map := om_update k (b\<lparr>bprevious := p\<rparr>) (lru_map c)\<rparr>) }"

text \<open>\<open>Promote(it)\<close>: unlink the bucket and make it the head.\<close>

definition Promote :: "'k::linorder \<Rightarrow> ('k, 'v) lru \<Rightarrow> ('k, 'v) lru option" where
  "Promote k c =
     (if lru_first c = Some k then Some c
      else do {
        b \<leftarrow> deref (Some k) c;
        c \<leftarrow> setNext (bprevious b) (bnext b) c;
        b \<leftarrow> deref (Some k) c;
        c \<leftarrow> (if bnext b \<noteq> None then setPrevious (bnext b) (bprevious b) c
              else Some (c\<lparr>lru_last := bprevious b\<rparr>));
        c \<leftarrow> setPrevious (Some k) None c;
        c \<leftarrow> setNext (Some k) (lru_first c) c;
        c \<leftarrow> setPrevious (lru_first c) (Some k) c;
        Some (c\<lparr>lru_first := Some k\<rparr>) })"

text \<open>\<open>Erase(it, doEvictionCallback)\<close>; the second component lists the callback's calls.\<close>

definition Erase_internal ::
  "'k::linorder \<Rightarrow> bool \<Rightarrow> ('k, 'v) lru \<Rightarrow> (('k, 'v) lru \<times> ('k \<times> 'v) list) option" where
  "Erase_internal k doEvictionCallback c = do {
     b \<leftarrow> deref (Some k) c;
     let cost = cache_cost_func c (bvalue b);
     c \<leftarrow> (if bnext b = None then Some (c\<lparr>lru_last := bprevious b\<rparr>)
           else setPrevious (bnext b) (bprevious b) c);
     b \<leftarrow> deref (Some k) c;
     c \<leftarrow> (if bprevious b = None then Some (c\<lparr>lru_first := bnext b\<rparr>)
           else setNext (bprevious b) (bnext b) c);
     b \<leftarrow> deref (Some k) c;
     Some (c\<lparr>lru_map := om_delete k (lru_map c), lru_size := lru_size c - cost\<rparr>,
           if doEvictionCallback \<and> eviction_callback c then [(k, bvalue b)] else []) }"

definition PopLast ::
  "('k::linorder, 'v) lru \<Rightarrow> (('k, 'v) lru \<times> ('k \<times> 'v) list) option" where
  "PopLast c = do {
     k \<leftarrow> lru_last c;
     b \<leftarrow> deref (Some k) c;
     guard (bnext b = None);
     Erase_internal k True c }"

text \<open>\<open>evict()\<close>: the loop pops the tail while the cache is too large. \<open>None\<close> also stands for a
  loop that does not end; \<open>evict_rel\<close> below shows that neither happens.\<close>

partial_function (option) evict ::
  "('k::linorder, 'v) lru \<Rightarrow> (('k, 'v) lru \<times> ('k \<times> 'v) list) option" where
  "evict c =
     (if lru_max_size c < lru_size c
      then do {
        (c, ev) \<leftarrow> PopLast c;
        (c, evs) \<leftarrow> evict c;
        Some (c, ev @ evs) }
      else Some (c, []))"

definition AddInternal ::
  "'k::linorder \<Rightarrow> u64 \<Rightarrow> u64 option \<Rightarrow> ('k, 'v) lru
    \<Rightarrow> (('k, 'v) lru \<times> ('k \<times> 'v) list) option" where
  "AddInternal k cost oldCost c = do {
     c \<leftarrow> (case oldCost of
             None \<Rightarrow> do {
               c \<leftarrow> (if length (lru_map c) = 1
                     then do {
                       guard (lru_last c = None \<and> lru_first c = None);
                       Some (c\<lparr>lru_last := Some k, lru_first := Some k\<rparr>) }
                     else do {
                       c \<leftarrow> setNext (Some k) (lru_first c) c;
                       c \<leftarrow> setPrevious (lru_first c) (Some k) c;
                       Some (c\<lparr>lru_first := Some k\<rparr>) });
               Some (c\<lparr>lru_size := lru_size c + cost\<rparr>) }
           | Some old \<Rightarrow> Promote k (c\<lparr>lru_size := lru_size c + (cost - old)\<rparr>));
     evict c }"

text \<open>\<open>Insert\<close> and \<open>InsertOrAssign\<close> return the new cache, the evicted entries, the returned
  iterator and the returned flag.\<close>

definition Insert ::
  "'k::linorder \<Rightarrow> 'v \<Rightarrow> ('k, 'v) lru
    \<Rightarrow> (('k, 'v) lru \<times> ('k \<times> 'v) list \<times> 'k option \<times> bool) option" where
  "Insert k v c =
     (let valueCost = cache_cost_func c v in
      if lru_max_size c < valueCost then Some (c, [], None, False)
      else case map_of (lru_map c) k of
        None \<Rightarrow> do {
          let b = \<lparr>bnext = None, bprevious = None, bvalue = v\<rparr>;
          (c, ev) \<leftarrow> AddInternal k valueCost None (c\<lparr>lru_map := om_update k b (lru_map c)\<rparr>);
          Some (c, ev, Some k, True) }
      | Some _ \<Rightarrow> do {
          c \<leftarrow> Promote k c;
          Some (c, [], Some k, False) })"

definition InsertOrAssign ::
  "'k::linorder \<Rightarrow> 'v \<Rightarrow> ('k, 'v) lru
    \<Rightarrow> (('k, 'v) lru \<times> ('k \<times> 'v) list \<times> 'k option \<times> bool) option" where
  "InsertOrAssign k v c =
     (case map_of (lru_map c) k of
        Some b \<Rightarrow> do {
          let oldCost = cache_cost_func c (bvalue b);
          let newCost = cache_cost_func c v;
          (c, ev) \<leftarrow> AddInternal k newCost (Some oldCost)
                       (c\<lparr>lru_map := om_update k (b\<lparr>bvalue := v\<rparr>) (lru_map c)\<rparr>);
          Some (c, ev, Some k, False) }
      | None \<Rightarrow>
          (let newCost = cache_cost_func c v in
           if lru_max_size c < newCost then Some (c, [], None, False)
           else do {
             let b = \<lparr>bnext = None, bprevious = None, bvalue = v\<rparr>;
             (c, ev) \<leftarrow> AddInternal k newCost None (c\<lparr>lru_map := om_update k b (lru_map c)\<rparr>);
             Some (c, ev, Some k, True) }))"

definition Erase :: "'k::linorder \<Rightarrow> ('k, 'v) lru \<Rightarrow> (('k, 'v) lru \<times> bool) option" where
  "Erase k c =
     (case map_of (lru_map c) k of
        None \<Rightarrow> Some (c, False)
      | Some _ \<Rightarrow> do { (c, _) \<leftarrow> Erase_internal k False c; Some (c, True) })"

text \<open>\<open>Erase(const_iterator&)\<close>: the iterator is advanced first, then its old position is erased.\<close>

definition it_next :: "'k option \<Rightarrow> ('k, 'v) lru \<Rightarrow> 'k option option" where
  "it_next it c = map_option bnext (deref it c)"

definition it_previous :: "'k option \<Rightarrow> ('k, 'v) lru \<Rightarrow> 'k option option" where
  "it_previous it c = map_option bprevious (deref it c)"

definition Erase_it :: "'k::linorder option \<Rightarrow> ('k, 'v) lru \<Rightarrow> (('k, 'v) lru \<times> 'k option) option" where
  "Erase_it it c = do {
     n \<leftarrow> it_next it c;
     k \<leftarrow> it;
     (c, _) \<leftarrow> Erase k c;
     Some (c, n) }"

definition Resize :: "u64 \<Rightarrow> ('k::linorder, 'v) lru \<Rightarrow> (('k, 'v) lru \<times> ('k \<times> 'v) list) option" where
  "Resize maxSize c = evict (c\<lparr>lru_max_size := maxSize\<rparr>)"

definition Find :: "'k::linorder \<Rightarrow> ('k, 'v) lru \<Rightarrow> (('k, 'v) lru \<times> 'k option) option" where
  "Find k c =
     (case map_of (lru_map c) k of
        None \<Rightarrow> Some (c, None)
      | Some _ \<Rightarrow> do { c \<leftarrow> Promote k c; Some (c, Some k) })"

definition FindNoPromote :: "'k \<Rightarrow> ('k, 'v) lru \<Rightarrow> 'k option" where
  "FindNoPromote k c = (case map_of (lru_map c) k of None \<Rightarrow> None | Some _ \<Rightarrow> Some k)"

definition it_value :: "'k option \<Rightarrow> ('k, 'v) lru \<Rightarrow> 'v option" where
  "it_value it c = map_option bvalue (deref it c)"

definition Find_or :: "'k::linorder \<Rightarrow> 'v \<Rightarrow> ('k, 'v) lru \<Rightarrow> (('k, 'v) lru \<times> 'v) option" where
  "Find_or k nullValue c = do {
     (c, it) \<leftarrow> Find k c;
     v \<leftarrow> (if it = None then Some nullValue else it_value it c);
     Some (c, v) }"

definition Clear :: "('k, 'v) lru \<Rightarrow> ('k, 'v) lru" where
  "Clear c = c\<lparr>lru_map := [], lru_first := None, lru_last := None, lru_size := 0\<rparr>"

text \<open>\<open>for (it = begin(); it != end(); ++it)\<close> and its mirror image from \<open>rbegin()\<close>: the visited
  entries.\<close>

partial_function (option) iterate :: "'k option \<Rightarrow> ('k, 'v) lru \<Rightarrow> ('k \<times> 'v) list option" where
  "iterate it c =
     (case it of None \<Rightarrow> Some []
      | Some k \<Rightarrow> do {
          v \<leftarrow> it_value (Some k) c;
          n \<leftarrow> it_next (Some k) c;
          rest \<leftarrow> iterate n c;
          Some ((k, v) # rest) })"

partial_function (option) iterate_back :: "'k option \<Rightarrow> ('k, 'v) lru \<Rightarrow> ('k \<times> 'v) list option" where
  "iterate_back it c =
     (case it of None \<Rightarrow> Some []
      | Some k \<Rightarrow> do {
          v \<leftarrow> it_value (Some k) c;
          p \<leftarrow> it_previous (Some k) c;
          rest \<leftarrow> iterate_back p c;
          Some ((k, v) # rest) })"

declare evict.simps [code] iterate.simps [code] iterate_back.simps [code]

section \<open>The list a cache represents\<close>

text \<open>\<open>lseg m p l n\<close>: the buckets of \<open>m\<close> at the keys of \<open>l\<close> form a doubly linked segment whose
  first element points back to \<open>p\<close> and whose last one points forward to \<open>n\<close>.\<close>

fun hd_key :: "('k \<times> 'v) list \<Rightarrow> 'k option \<Rightarrow> 'k option" where
  "hd_key [] n = n"
| "hd_key (p # l) n = Some (fst p)"

fun last_key :: "'k option \<Rightarrow> ('k \<times> 'v) list \<Rightarrow> 'k option" where
  "last_key p [] = p"
| "last_key p (x # l) = last_key (Some (fst x)) l"

fun lseg :: "('k \<rightharpoonup> ('k, 'v) bucket) \<Rightarrow> 'k option \<Rightarrow> ('k \<times> 'v) list \<Rightarrow> 'k option \<Rightarrow> bool" where
  "lseg m p [] n = True"
| "lseg m p ((k, v) # l) n =
     (m k = Some \<lparr>bnext = hd_key l n, bprevious = p, bvalue = v\<rparr> \<and> lseg m (Some k) l n)"

definition cost_sum :: "('v \<Rightarrow> u64) \<Rightarrow> ('k \<times> 'v) list \<Rightarrow> u64" where
  "cost_sum f l = (\<Sum>p\<leftarrow>l. f (snd p))"

definition lru_rel :: "('k::linorder, 'v) lru \<Rightarrow> ('k \<times> 'v) list \<Rightarrow> bool" where
  "lru_rel c l \<longleftrightarrow>
     om_ok (lru_map c) \<and> distinct (map fst l) \<and>
     dom (map_of (lru_map c)) = fst ` set l \<and>
     lseg (map_of (lru_map c)) None l None \<and>
     lru_first c = hd_key l None \<and> lru_last c = last_key None l \<and>
     lru_size c = cost_sum (cache_cost_func c) l"

text \<open>What no operation on entries changes.\<close>

definition same_config :: "('k, 'v) lru \<Rightarrow> ('k, 'v) lru \<Rightarrow> bool" where
  "same_config c c' \<longleftrightarrow>
     eviction_callback c' = eviction_callback c \<and> cache_cost_func c' = cache_cost_func c \<and>
     lru_max_size c' = lru_max_size c"

lemma same_config_refl [simp]: "same_config c c"
  by (simp add: same_config_def)

lemma same_config_trans: "same_config a b \<Longrightarrow> same_config b c \<Longrightarrow> same_config a c"
  by (simp add: same_config_def)

lemma hd_key_append [simp]: "hd_key (l @ l') n = hd_key l (hd_key l' n)"
  by (cases l) auto

lemma last_key_append [simp]: "last_key p (l @ l') = last_key (last_key p l) l'"
  by (induction l arbitrary: p) auto

lemma hd_key_None [simp]: "hd_key l None = None \<longleftrightarrow> l = []"
  by (cases l) auto

lemma last_key_Some: "\<exists>k. last_key (Some x) l = Some k"
  by (induction l arbitrary: x) auto

lemma last_key_None [simp]: "last_key None l = None \<longleftrightarrow> l = []"
proof (cases l)
  case (Cons a l')
  with last_key_Some [of "fst a" l'] show ?thesis by auto
qed simp

lemma lseg_append [simp]:
  "lseg m p (l @ l') n \<longleftrightarrow> lseg m p l (hd_key l' n) \<and> lseg m (last_key p l) l' n"
  by (induction m p l n rule: lseg.induct) auto

lemma lseg_frame [simp]: "k \<notin> fst ` set l \<Longrightarrow> lseg (m(k := x)) p l n = lseg m p l n"
  by (induction m p l n rule: lseg.induct) auto

lemma lseg_value: "lseg m p l n \<Longrightarrow> map_of l k = Some v \<Longrightarrow> map_option bvalue (m k) = Some v"
  by (induction m p l n rule: lseg.induct) (auto split: if_splits)

lemma cost_sum_simps [simp]:
  "cost_sum f [] = 0"
  "cost_sum f (p # l) = f (snd p) + cost_sum f l"
  "cost_sum f (l @ l') = cost_sum f l + cost_sum f l'"
  by (simp_all add: cost_sum_def)

lemma lru_rel_lookup: "lru_rel c l \<Longrightarrow> map_option bvalue (map_of (lru_map c) k) = map_of l k"
proof (cases "map_of l k")
  case None
  assume "lru_rel c l"
  with None have "k \<notin> dom (map_of (lru_map c))"
    by (auto simp: lru_rel_def map_of_eq_None_iff simp del: map_of_eq_None_iff)
  with None show ?thesis by (simp add: domIff)
next
  case (Some v)
  assume "lru_rel c l"
  with Some show ?thesis by (auto simp: lru_rel_def dest: lseg_value)
qed

lemma lru_rel_None [simp]: "lru_rel c l \<Longrightarrow> map_of l k = None \<Longrightarrow> map_of (lru_map c) k = None"
  using lru_rel_lookup [of c l k] by simp

lemma lru_rel_length: "lru_rel c l \<Longrightarrow> length (lru_map c) = length l"
proof -
  assume r: "lru_rel c l"
  then have "distinct (map fst (lru_map c))" by (simp add: lru_rel_def om_ok_distinct)
  then have "length (lru_map c) = card (fst ` set (lru_map c))"
    by (metis distinct_card length_map set_map)
  also have "\<dots> = card (fst ` set l)"
    using r by (simp add: lru_rel_def dom_map_of_conv_image_fst)
  also have "\<dots> = length l"
    using r by (metis distinct_card length_map lru_rel_def set_map)
  finally show ?thesis .
qed

lemma lru_rel_new [simp]: "lru_rel (LruCache_new mx f) []"
  by (simp add: lru_rel_def LruCache_new_def)

lemma lru_rel_Clear [simp]: "lru_rel (Clear c) []"
  by (simp add: lru_rel_def Clear_def)

section \<open>Relinking\<close>

lemmas link_defs = setNext_def setPrevious_def deref_def

text \<open>Moving an entry that is not the head to the front.\<close>

lemmas relink_simps = link_defs lru_rel_def same_config_def keeps add.left_commute

lemma Promote_mid:
  assumes r: "lru_rel c (xs @ (kp, vp) # (k, v) # ys)"
  shows "\<exists>c'. Promote k c = Some c' \<and> same_config c c' \<and>
    lru_rel c' ((k, v) # xs @ (kp, vp) # ys)"
  using r
  by (cases xs rule: pair_list_cases; cases ys rule: pair_list_cases)
    (auto simp: Promote_def relink_simps)

lemma Promote_rel:
  assumes r: "lru_rel c l" and k: "map_of l k = Some v"
  shows "\<exists>c'. Promote k c = Some c' \<and> same_config c c' \<and> lru_rel c' ((k, v) # om_delete k l)"
proof -
  from k obtain xs ys where l: "l = xs @ (k, v) # ys" and "k \<notin> fst ` set xs"
    by (rule split_list_distinct)
  moreover have "k \<notin> fst ` set ys" using r l by (auto simp: lru_rel_def)
  ultimately have d: "om_delete k l = xs @ ys" by (simp add: om_delete_def filter_neq_fresh)
  show ?thesis
  proof (cases xs rule: pair_list_rev_cases)
    case Nil
    with r l d show ?thesis by (simp add: Promote_def lru_rel_def)
  next
    case (snoc xs' kp vp)
    with r l d show ?thesis using Promote_mid [of c xs' kp vp k v ys] by simp
  qed
qed

lemma Erase_internal_rel:
  assumes r: "lru_rel c (xs @ (k, v) # ys)"
  shows "\<exists>c'. Erase_internal k cb c = Some (c', if cb \<and> eviction_callback c then [(k, v)] else [])
    \<and> same_config c c' \<and> lru_rel c' (xs @ ys)"
  using r
  by (cases xs rule: pair_list_rev_cases; cases ys rule: pair_list_cases)
    (auto simp: Erase_internal_def relink_simps Let_def om_delete_sole)

lemma PopLast_rel:
  assumes r: "lru_rel c (xs @ [(k, v)])"
  shows "\<exists>c'. PopLast c = Some (c', if eviction_callback c then [(k, v)] else [])
    \<and> same_config c c' \<and> lru_rel c' xs"
  using r Erase_internal_rel [of c xs k v "[]" True]
  by (auto simp: PopLast_def lru_rel_def deref_def)

section \<open>Eviction\<close>

text \<open>The entries that remain when the tail is dropped until the summed cost fits.\<close>

function al_evict :: "('v \<Rightarrow> u64) \<Rightarrow> u64 \<Rightarrow> ('k \<times> 'v) list \<Rightarrow> ('k \<times> 'v) list" where
  "al_evict f mx l = (if mx < cost_sum f l then al_evict f mx (butlast l) else l)"
  by pat_completeness auto
termination
proof (relation "measure (\<lambda>(f, mx, l). length l)")
  fix f :: "'v \<Rightarrow> u64" and mx and l :: "('k \<times> 'v) list"
  assume "mx < cost_sum f l"
  then have "l \<noteq> []" by auto
  then show "((f, mx, butlast l), f, mx, l) \<in> measure (\<lambda>(f, mx, l). length l)" by simp
qed simp

declare al_evict.simps [simp del]

definition evicted :: "('k \<times> 'v) list \<Rightarrow> ('k \<times> 'v) list \<Rightarrow> ('k \<times> 'v) list" where
  "evicted l l' = rev (drop (length l') l)"

lemma al_evict_prefix: "prefix (al_evict f mx l) l"
proof (induction f mx l rule: al_evict.induct)
  case (1 f mx l)
  show ?case
  proof (cases "mx < cost_sum f l")
    case True
    with "1.IH" have "prefix (al_evict f mx (butlast l)) (butlast l)" by simp
    moreover have "prefix (butlast l) l" by (rule prefixeq_butlast)
    ultimately have "prefix (al_evict f mx (butlast l)) l" by (rule prefix_order.order_trans)
    with True show ?thesis by (simp add: al_evict.simps [of f mx l])
  next
    case False
    then show ?thesis by (simp add: al_evict.simps [of f mx l])
  qed
qed

lemma al_evict_fits: "cost_sum f (al_evict f mx l) \<le> mx"
  by (induction f mx l rule: al_evict.induct) (subst al_evict.simps, simp add: not_less)

lemma al_evict_snoc:
  "mx < cost_sum f (l @ [p]) \<Longrightarrow> al_evict f mx (l @ [p]) = al_evict f mx l"
  by (subst al_evict.simps) simp

lemma al_evict_id: "cost_sum f l \<le> mx \<Longrightarrow> al_evict f mx l = l"
  by (subst al_evict.simps) (simp add: leD)

lemma evict_stop: "lru_size c \<le> lru_max_size c \<Longrightarrow> evict c = Some (c, [])"
  by (subst evict.simps) (simp add: leD)

lemma evict_step:
  "lru_max_size c < lru_size c \<Longrightarrow> PopLast c = Some (c1, ev) \<Longrightarrow> evict c1 = Some (c2, evs) \<Longrightarrow>
    evict c = Some (c2, ev @ evs)"
  by (subst evict.simps) simp

lemma al_evict_longest:
  "length (al_evict f mx l) < n \<Longrightarrow> n \<le> length l \<Longrightarrow> mx < cost_sum f (take n l)"
proof (induction l rule: rev_induct)
  case (snoc p l)
  show ?case
  proof (cases "mx < cost_sum f (l @ [p])")
    case True
    show ?thesis
    proof (cases "n = length (l @ [p])")
      case True
      with \<open>mx < cost_sum f (l @ [p])\<close> show ?thesis by simp
    next
      case False
      with snoc True show ?thesis by (simp add: al_evict_snoc)
    qed
  next
    case False
    with snoc.prems show ?thesis by (simp add: al_evict_id)
  qed
qed simp

lemma evict_rel:
  "lru_rel c l \<Longrightarrow>
    \<exists>c'. evict c = Some (c', if eviction_callback c
                             then evicted l (al_evict (cache_cost_func c) (lru_max_size c) l) else [])
      \<and> same_config c c' \<and> lru_rel c' (al_evict (cache_cost_func c) (lru_max_size c) l)"
proof (induction l arbitrary: c rule: rev_induct)
  case Nil
  then have "lru_size c \<le> lru_max_size c" by (simp add: lru_rel_def)
  with Nil show ?case by (simp add: evict_stop al_evict_id evicted_def)
next
  case (snoc p l)
  let ?f = "cache_cost_func c" and ?mx = "lru_max_size c"
  have size: "lru_size c = cost_sum ?f (l @ [p])" using snoc.prems by (simp add: lru_rel_def)
  show ?case
  proof (cases "?mx < lru_size c")
    case True
    obtain k v where p: "p = (k, v)" by (cases p)
    from snoc.prems p obtain c1
      where c1: "PopLast c = Some (c1, if eviction_callback c then [(k, v)] else [])"
        "same_config c c1" "lru_rel c1 l"
      using PopLast_rel [of c l k v] by auto
    have conf: "eviction_callback c1 = eviction_callback c" "cache_cost_func c1 = ?f"
      "lru_max_size c1 = ?mx"
      using c1(2) by (simp_all add: same_config_def)
    let ?l = "al_evict ?f ?mx l"
    from snoc.IH [OF c1(3)] conf obtain c2
      where c2: "evict c1 = Some (c2, if eviction_callback c then evicted l ?l else [])"
        "same_config c1 c2" "lru_rel c2 ?l"
      by auto
    have e: "al_evict ?f ?mx (l @ [p]) = ?l"
      using True size by (simp add: al_evict_snoc)
    have "length ?l \<le> length l" using al_evict_prefix by (rule prefix_length_le)
    then have v: "evicted (l @ [p]) ?l = p # evicted l ?l" by (simp add: evicted_def)
    have "evict c = Some (c2, if eviction_callback c then evicted (l @ [p]) ?l else [])"
      using evict_step [OF True c1(1) c2(1)] p v by simp
    with c2(3) e same_config_trans [OF c1(2) c2(2)] show ?thesis by auto
  next
    case False
    then have "lru_size c \<le> ?mx" by simp
    moreover from this have "al_evict ?f ?mx (l @ [p]) = l @ [p]" using size by (simp add: al_evict_id)
    ultimately show ?thesis using snoc.prems by (simp add: evict_stop evicted_def)
  qed
qed

section \<open>Refinement: every operation acts on the list\<close>

lemma exI_image: "P x \<Longrightarrow> \<exists>y. f x = f y \<and> P y"
  by blast

lemma AddInternal_new:
  assumes r: "lru_rel c l" and k: "map_of l k = None"
  shows "\<exists>c1. AddInternal k (cache_cost_func c v) None
      (c\<lparr>lru_map := om_update k \<lparr>bnext = None, bprevious = None, bvalue = v\<rparr> (lru_map c)\<rparr>) = evict c1
    \<and> same_config c c1 \<and> lru_rel c1 ((k, v) # l)"
proof -
  have len: "length (om_update k b (lru_map c)) = 1 \<longleftrightarrow> l = []" for b
    using r k lru_rel_length [OF r] by (simp add: length_om_update)
  show ?thesis
  proof (cases l rule: pair_list_cases)
    case Nil
    with r len show ?thesis
      by (simp add: AddInternal_def lru_rel_def)
        (rule exI_image [where f = evict], simp add: relink_simps)
  next
    case (Cons ka va l')
    with k have "ka \<noteq> k" and "k \<notin> fst ` set l'" by (auto simp: map_of_eq_None_iff split: if_splits)
    with Cons r len show ?thesis
      by (simp add: AddInternal_def link_defs lru_rel_def)
        (rule exI_image [where f = evict], auto simp: relink_simps add.commute)
  qed
qed

lemma AddInternal_assign:
  assumes r: "lru_rel c l" and k: "map_of l k = Some w" and b: "map_of (lru_map c) k = Some b"
  shows "\<exists>c1. AddInternal k (cache_cost_func c v) (Some (cache_cost_func c w))
      (c\<lparr>lru_map := om_update k (b\<lparr>bvalue := v\<rparr>) (lru_map c)\<rparr>) = evict c1
    \<and> same_config c c1 \<and> lru_rel c1 ((k, v) # om_delete k l)"
proof -
  let ?c = "c\<lparr>lru_map := om_update k (b\<lparr>bvalue := v\<rparr>) (lru_map c),
    lru_size := lru_size c + (cache_cost_func c v - cache_cost_func c w)\<rparr>"
  from k obtain xs ys where l: "l = xs @ (k, w) # ys" and x: "k \<notin> fst ` set xs"
    by (rule split_list_distinct)
  have y: "k \<notin> fst ` set ys" using r l by (auto simp: lru_rel_def)
  have r': "lru_rel ?c (xs @ (k, v) # ys)"
    using r b l x y by (auto simp: lru_rel_def keeps)
  have k': "map_of (xs @ (k, v) # ys) k = Some v"
    using x by (simp add: map_add_Some_iff map_of_eq_None_iff)
  from Promote_rel [OF r' k'] obtain c1 where "Promote k ?c = Some c1" "same_config ?c c1"
    "lru_rel c1 ((k, v) # om_delete k (xs @ (k, v) # ys))"
    by auto
  moreover have "om_delete k (xs @ (k, v) # ys) = om_delete k l"
    by (simp add: om_delete_def l)
  ultimately show ?thesis by (auto simp: AddInternal_def same_config_def)
qed

text \<open>The abstract operations on the list of entries.\<close>

definition al_insert :: "('v \<Rightarrow> u64) \<Rightarrow> u64 \<Rightarrow> 'k \<Rightarrow> 'v \<Rightarrow> ('k \<times> 'v) list \<Rightarrow> ('k \<times> 'v) list" where
  "al_insert f mx k v l =
     (case map_of l k of
        None \<Rightarrow> if mx < f v then l else al_evict f mx ((k, v) # l)
      | Some _ \<Rightarrow> al_evict f mx ((k, v) # om_delete k l))"

definition al_promote :: "'k \<Rightarrow> ('k \<times> 'v) list \<Rightarrow> ('k \<times> 'v) list" where
  "al_promote k l = (case map_of l k of None \<Rightarrow> l | Some v \<Rightarrow> (k, v) # om_delete k l)"

lemma om_delete_fresh: "map_of l k = None \<Longrightarrow> om_delete k l = l"
  by (simp add: om_delete_def filter_neq_fresh map_of_eq_None_iff)

definition refused :: "('k, 'v) lru \<Rightarrow> 'k \<Rightarrow> 'v \<Rightarrow> ('k \<times> 'v) list \<Rightarrow> bool" where
  "refused c k v l \<longleftrightarrow> map_of l k = None \<and> lru_max_size c < cache_cost_func c v"

lemma InsertOrAssign_rel:
  assumes r: "lru_rel c l"
  shows "\<exists>c' ev. InsertOrAssign k v c =
      Some (c', ev, if refused c k v l then None else Some k, map_of l k = None \<and> \<not> refused c k v l)
    \<and> same_config c c'
    \<and> lru_rel c' (al_insert (cache_cost_func c) (lru_max_size c) k v l)
    \<and> ev = (if eviction_callback c \<and> \<not> refused c k v l
            then evicted ((k, v) # om_delete k l) (al_insert (cache_cost_func c) (lru_max_size c) k v l)
            else [])"
proof (cases "map_of l k")
  case None
  show ?thesis
  proof (cases "lru_max_size c < cache_cost_func c v")
    case True
    with None r show ?thesis by (simp add: InsertOrAssign_def al_insert_def refused_def)
  next
    case False
    from AddInternal_new [OF r None, of v] obtain c1
      where c1: "AddInternal k (cache_cost_func c v) None
          (c\<lparr>lru_map := om_update k \<lparr>bnext = None, bprevious = None, bvalue = v\<rparr> (lru_map c)\<rparr>) = evict c1"
        "same_config c c1" "lru_rel c1 ((k, v) # l)"
      by blast
    from evict_rel [OF c1(3)] None False r c1 show ?thesis
      by (auto simp: InsertOrAssign_def al_insert_def refused_def Let_def same_config_def om_delete_fresh)
  qed
next
  case (Some w)
  then obtain b where b: "map_of (lru_map c) k = Some b" "bvalue b = w"
    using lru_rel_lookup [OF r, of k] by auto
  from AddInternal_assign [OF r Some b(1), of v] obtain c1
    where c1: "AddInternal k (cache_cost_func c v) (Some (cache_cost_func c w))
        (c\<lparr>lru_map := om_update k (b\<lparr>bvalue := v\<rparr>) (lru_map c)\<rparr>) = evict c1"
      "same_config c c1" "lru_rel c1 ((k, v) # om_delete k l)"
    by blast
  from evict_rel [OF c1(3)] Some b c1 show ?thesis
    by (auto simp: InsertOrAssign_def al_insert_def refused_def Let_def same_config_def)
qed

lemma Insert_rel:
  assumes r: "lru_rel c l"
  shows "\<exists>c' ev. Insert k v c =
      Some (c', ev, if lru_max_size c < cache_cost_func c v then None else Some k,
            map_of l k = None \<and> \<not> lru_max_size c < cache_cost_func c v)
    \<and> same_config c c'
    \<and> lru_rel c' (if lru_max_size c < cache_cost_func c v then l
                  else if map_of l k = None then al_insert (cache_cost_func c) (lru_max_size c) k v l
                  else al_promote k l)"
proof (cases "lru_max_size c < cache_cost_func c v")
  case True
  with r show ?thesis by (simp add: Insert_def)
next
  case False
  show ?thesis
  proof (cases "map_of l k")
    case None
    from AddInternal_new [OF r None, of v] obtain c1
      where c1: "AddInternal k (cache_cost_func c v) None
          (c\<lparr>lru_map := om_update k \<lparr>bnext = None, bprevious = None, bvalue = v\<rparr> (lru_map c)\<rparr>) = evict c1"
        "same_config c c1" "lru_rel c1 ((k, v) # l)"
      by blast
    from evict_rel [OF c1(3)] None False r c1 show ?thesis
      by (auto simp: Insert_def al_insert_def Let_def same_config_def)
  next
    case (Some w)
    then obtain b where b: "map_of (lru_map c) k = Some b"
      using lru_rel_lookup [OF r, of k] by auto
    from Promote_rel [OF r Some] Some b False show ?thesis
      by (auto simp: Insert_def al_promote_def Let_def)
  qed
qed

lemma Erase_rel:
  assumes r: "lru_rel c l"
  shows "\<exists>c'. Erase k c = Some (c', map_of l k \<noteq> None) \<and> same_config c c' \<and> lru_rel c' (om_delete k l)"
proof (cases "map_of l k")
  case None
  with r show ?thesis by (simp add: Erase_def om_delete_fresh)
next
  case (Some v)
  then obtain b where b: "map_of (lru_map c) k = Some b"
    using lru_rel_lookup [OF r, of k] by auto
  from Some obtain xs ys where l: "l = xs @ (k, v) # ys" "k \<notin> fst ` set xs"
    by (rule split_list_distinct)
  moreover have "k \<notin> fst ` set ys" using r l by (auto simp: lru_rel_def)
  ultimately have "om_delete k l = xs @ ys" by (simp add: om_delete_def filter_neq_fresh)
  with Erase_internal_rel [of c xs k v ys False] r l b Some show ?thesis
    by (auto simp: Erase_def)
qed

lemma Find_rel:
  assumes r: "lru_rel c l"
  shows "\<exists>c'. Find k c = Some (c', if map_of l k = None then None else Some k) \<and> same_config c c'
    \<and> lru_rel c' (al_promote k l)"
proof (cases "map_of l k")
  case None
  with r show ?thesis by (simp add: Find_def al_promote_def)
next
  case (Some v)
  then obtain b where "map_of (lru_map c) k = Some b"
    using lru_rel_lookup [OF r, of k] by auto
  with Promote_rel [OF r Some] Some show ?thesis by (auto simp: Find_def al_promote_def)
qed

lemma FindNoPromote_rel [simp]:
  "lru_rel c l \<Longrightarrow> FindNoPromote k c = (if map_of l k = None then None else Some k)"
  by (cases "map_of l k") (use lru_rel_lookup [of c l k] in \<open>auto simp: FindNoPromote_def\<close>)

lemma it_value_rel [simp]: "lru_rel c l \<Longrightarrow> it_value (Some k) c = map_of l k"
  by (simp add: it_value_def deref_def lru_rel_lookup)

lemma it_value_mid: "lru_rel c (xs @ (k, v) # ys) \<Longrightarrow> it_value (Some k) c = Some v"
  by (simp add: it_value_def deref_def lru_rel_def)

lemma Find_or_rel:
  assumes r: "lru_rel c l"
  shows "\<exists>c'. Find_or k v0 c = Some (c', case map_of l k of None \<Rightarrow> v0 | Some v \<Rightarrow> v)
    \<and> same_config c c' \<and> lru_rel c' (al_promote k l)"
proof -
  have "map_of (al_promote k l) k = map_of l k"
    by (simp add: al_promote_def split: option.split)
  with Find_rel [OF r, of k] show ?thesis
    by (auto simp: Find_or_def split: option.split)
qed

lemma Resize_rel:
  assumes r: "lru_rel c l"
  shows "\<exists>c' ev. Resize mx c = Some (c', ev) \<and> lru_max_size c' = mx
    \<and> eviction_callback c' = eviction_callback c \<and> cache_cost_func c' = cache_cost_func c
    \<and> lru_rel c' (al_evict (cache_cost_func c) mx l)
    \<and> ev = (if eviction_callback c then evicted l (al_evict (cache_cost_func c) mx l) else [])"
proof -
  have "lru_rel (c\<lparr>lru_max_size := mx\<rparr>) l" using r by (simp add: lru_rel_def)
  from evict_rel [OF this] show ?thesis by (auto simp: Resize_def same_config_def)
qed

section \<open>Iteration\<close>

lemma iterate_lseg:
  "lseg (map_of (lru_map c)) p l None \<Longrightarrow> iterate (hd_key l None) c = Some l"
proof (induction "map_of (lru_map c)" p l "None :: 'a option" rule: lseg.induct)
  case (1 p)
  show ?case by (subst iterate.simps) simp
next
  case (2 p k v l)
  then show ?case
    by (subst iterate.simps) (simp add: it_value_def it_next_def deref_def)
qed

lemma iterate_back_lseg:
  "lseg (map_of (lru_map c)) None l n \<Longrightarrow> iterate_back (last_key None l) c = Some (rev l)"
proof (induction l arbitrary: n rule: rev_induct)
  case Nil
  show ?case by (subst iterate_back.simps) simp
next
  case (snoc p l)
  obtain k v where p: "p = (k, v)" by (cases p)
  from snoc.prems p have l: "lseg (map_of (lru_map c)) None l (Some k)"
    and k: "map_of (lru_map c) k = Some \<lparr>bnext = n, bprevious = last_key None l, bvalue = v\<rparr>"
    by simp_all
  from snoc.IH [OF l] k p show ?case
    by (subst iterate_back.simps) (simp add: it_value_def it_previous_def deref_def)
qed

lemma iterate_rel:
  assumes "lru_rel c l"
  shows "iterate (lru_first c) c = Some l" and "iterate_back (lru_last c) c = Some (rev l)"
  using assms by (auto simp: lru_rel_def intro: iterate_lseg iterate_back_lseg)

lemma it_next_rel:
  "lru_rel c (xs @ (k, v) # ys) \<Longrightarrow> it_next (Some k) c = Some (hd_key ys None)"
  by (simp add: lru_rel_def it_next_def deref_def)

lemma it_previous_rel:
  "lru_rel c (xs @ (k, v) # ys) \<Longrightarrow> it_previous (Some k) c = Some (last_key None xs)"
  by (simp add: lru_rel_def it_previous_def deref_def)

lemma Erase_it_rel:
  assumes r: "lru_rel c (xs @ (k, v) # ys)"
  shows "\<exists>c'. Erase_it (Some k) c = Some (c', hd_key ys None) \<and> same_config c c' \<and> lru_rel c' (xs @ ys)"
proof -
  have "om_delete k (xs @ (k, v) # ys) = xs @ ys"
    using r by (auto simp: lru_rel_def om_delete_def filter_neq_fresh)
  with Erase_rel [OF r, of k] it_next_rel [OF r] show ?thesis
    by (auto simp: Erase_it_def)
qed

section \<open>Runs\<close>

datatype ('k, 'v) lru_op =
    OpInsert 'k 'v
  | OpInsertOrAssign 'k 'v
  | OpErase 'k
  | OpFind 'k
  | OpResize u64
  | OpClear

fun lru_step :: "('k::linorder, 'v) lru_op \<Rightarrow> ('k, 'v) lru \<Rightarrow> ('k, 'v) lru option" where
  "lru_step (OpInsert k v) c = map_option fst (Insert k v c)"
| "lru_step (OpInsertOrAssign k v) c = map_option fst (InsertOrAssign k v c)"
| "lru_step (OpErase k) c = map_option fst (Erase k c)"
| "lru_step (OpFind k) c = map_option fst (Find k c)"
| "lru_step (OpResize mx) c = map_option fst (Resize mx c)"
| "lru_step OpClear c = Some (Clear c)"

fun lru_run :: "('k::linorder, 'v) lru_op list \<Rightarrow> ('k, 'v) lru \<Rightarrow> ('k, 'v) lru option" where
  "lru_run [] c = Some c"
| "lru_run (op # ops) c = lru_step op c \<bind> lru_run ops"

text \<open>The same on the capacity and the list of entries.\<close>

fun al_step :: "('v \<Rightarrow> u64) \<Rightarrow> ('k, 'v) lru_op \<Rightarrow> u64 \<times> ('k \<times> 'v) list \<Rightarrow> u64 \<times> ('k \<times> 'v) list" where
  "al_step f (OpInsert k v) (mx, l) =
     (mx, if mx < f v then l else if map_of l k = None then al_insert f mx k v l else al_promote k l)"
| "al_step f (OpInsertOrAssign k v) (mx, l) = (mx, al_insert f mx k v l)"
| "al_step f (OpErase k) (mx, l) = (mx, om_delete k l)"
| "al_step f (OpFind k) (mx, l) = (mx, al_promote k l)"
| "al_step f (OpResize n) (mx, l) = (n, al_evict f n l)"
| "al_step f OpClear (mx, l) = (mx, [])"

lemma lru_step_rel:
  assumes "lru_rel c l"
  shows "\<exists>c'. lru_step op c = Some c' \<and> cache_cost_func c' = cache_cost_func c \<and>
    (\<forall>mx' l'. al_step (cache_cost_func c) op (lru_max_size c, l) = (mx', l') \<longrightarrow>
       lru_max_size c' = mx' \<and> lru_rel c' l')"
proof (cases op)
  case (OpInsert k v)
  with Insert_rel [OF assms, of k v] show ?thesis by (auto simp: same_config_def split: if_splits)
next
  case (OpInsertOrAssign k v)
  with InsertOrAssign_rel [OF assms, of k v] show ?thesis
    by (auto simp: same_config_def)
next
  case (OpErase k)
  with Erase_rel [OF assms, of k] show ?thesis by (auto simp: same_config_def)
next
  case (OpFind k)
  with Find_rel [OF assms, of k] show ?thesis by (auto simp: same_config_def)
next
  case (OpResize mx)
  with Resize_rel [OF assms, of mx] show ?thesis by auto
next
  case OpClear
  then show ?thesis by (simp add: Clear_def lru_rel_def)
qed


lemma lru_run_rel:
  assumes "lru_rel c l"
  shows "\<exists>c'. lru_run ops c = Some c' \<and> cache_cost_func c' = cache_cost_func c \<and>
    (\<forall>mx' l'. fold (al_step (cache_cost_func c)) ops (lru_max_size c, l) = (mx', l') \<longrightarrow>
       lru_max_size c' = mx' \<and> lru_rel c' l')"
  using assms
proof (induction ops arbitrary: c l)
  case (Cons op ops)
  obtain mx1 l1 where s: "al_step (cache_cost_func c) op (lru_max_size c, l) = (mx1, l1)"
    by (cases "al_step (cache_cost_func c) op (lru_max_size c, l)")
  with lru_step_rel [OF Cons.prems, of op] obtain c1
    where c1: "lru_step op c = Some c1" "cache_cost_func c1 = cache_cost_func c"
      "lru_max_size c1 = mx1" "lru_rel c1 l1"
    by auto
  from Cons.IH [OF c1(4)] c1 s show ?case by auto
qed simp

lemma lru_new_config [simp]:
  "cache_cost_func (LruCache_new mx f) = f" "lru_max_size (LruCache_new mx f) = mx"
  by (simp_all add: LruCache_new_def)

lemma lru_run_new:
  "\<exists>c. lru_run ops (LruCache_new mx f) = Some c \<and> cache_cost_func c = f
     \<and> lru_max_size c = fst (fold (al_step f) ops (mx, []))
     \<and> lru_rel c (snd (fold (al_step f) ops (mx, [])))"
  using lru_run_rel [OF lru_rel_new, of ops mx f]
  by (cases "fold (al_step f) ops (mx, [])") auto

section \<open>Capacity\<close>

text \<open>The cost of the entries as a number, and the bound under which the 64-bit sum is exact.\<close>

definition nat_cost :: "('v \<Rightarrow> u64) \<Rightarrow> ('k \<times> 'v) list \<Rightarrow> nat" where
  "nat_cost f l = (\<Sum>p\<leftarrow>l. unat (f (snd p)))"

lemma nat_cost_simps [simp]:
  "nat_cost f [] = 0"
  "nat_cost f (p # l) = unat (f (snd p)) + nat_cost f l"
  "nat_cost f (l @ l') = nat_cost f l + nat_cost f l'"
  by (simp_all add: nat_cost_def)

lemma unat_cost_sum: "nat_cost f l < 2 ^ 64 \<Longrightarrow> unat (cost_sum f l) = nat_cost f l"
  by (induction l) (simp_all add: unat_word_ariths)

lemma nat_cost_filter: "nat_cost f (filter P l) \<le> nat_cost f l"
  by (induction l) auto

lemma nat_cost_delete: "nat_cost f (om_delete k l) \<le> nat_cost f l"
  by (simp add: om_delete_def nat_cost_filter)

lemma nat_cost_prefix: "prefix l' l \<Longrightarrow> nat_cost f l' \<le> nat_cost f l"
  by (auto simp: prefix_def)

lemma nat_cost_promote: "map_of l k = Some v \<Longrightarrow> unat (f v) + nat_cost f (om_delete k l) \<le> nat_cost f l"
proof (induction l)
  case (Cons p l)
  then show ?case using nat_cost_delete [of f k l]
    by (cases p) (auto simp: om_delete_def split: if_splits)
qed simp

lemma al_evict_fits_nat:
  assumes "nat_cost f l < 2 ^ 64"
  shows "nat_cost f (al_evict f mx l) \<le> unat mx"
proof -
  have "nat_cost f (al_evict f mx l) \<le> nat_cost f l" using al_evict_prefix by (rule nat_cost_prefix)
  with assms have "unat (cost_sum f (al_evict f mx l)) = nat_cost f (al_evict f mx l)"
    by (intro unat_cost_sum) simp
  moreover have "unat (cost_sum f (al_evict f mx l)) \<le> unat mx"
    using al_evict_fits [of f mx l] by (simp add: word_le_nat_alt)
  ultimately show ?thesis by simp
qed

lemma al_evict_longest_nat:
  assumes "nat_cost f l < 2 ^ 64" and "length (al_evict f mx l) < n" and "n \<le> length l"
  shows "unat mx < nat_cost f (take n l)"
proof -
  have "nat_cost f (take n l) \<le> nat_cost f l" using take_is_prefix by (rule nat_cost_prefix)
  with assms(1) have "unat (cost_sum f (take n l)) = nat_cost f (take n l)"
    by (intro unat_cost_sum) simp
  with al_evict_longest [OF assms(2,3)] show ?thesis by (simp add: word_less_nat_alt)
qed

fun op_bounded :: "('k, 'v) lru_op \<Rightarrow> bool" where
  "op_bounded (OpResize mx) \<longleftrightarrow> unat mx < 2 ^ 63"
| "op_bounded _ \<longleftrightarrow> True"

definition fits :: "('v \<Rightarrow> u64) \<Rightarrow> u64 \<times> ('k \<times> 'v) list \<Rightarrow> bool" where
  "fits f s \<longleftrightarrow> unat (fst s) < 2 ^ 63 \<and> nat_cost f (snd s) \<le> unat (fst s)"

lemma fits_insert:
  assumes "fits f (mx, l)" and "\<And>v. unat (f v) < 2 ^ 63"
  shows "fits f (mx, al_insert f mx k v l)"
proof -
  have "nat_cost f ((k, v) # om_delete k l) < 2 ^ 64"
    using assms(1) assms(2) [of v] nat_cost_delete [of f k l] by (simp add: fits_def)
  from al_evict_fits_nat [OF this, of mx] have "fits f (mx, al_evict f mx ((k, v) # om_delete k l))"
    using assms(1) by (simp add: fits_def)
  with assms(1) show ?thesis
    by (auto simp: al_insert_def om_delete_fresh split: option.split)
qed

lemma fits_promote: "fits f (mx, l) \<Longrightarrow> fits f (mx, al_promote k l)"
  by (auto simp: fits_def al_promote_def split: option.split dest: nat_cost_promote [of _ _ _ f])

lemma al_step_fits:
  assumes "fits f s" and "op_bounded op" and "\<And>v. unat (f v) < 2 ^ 63"
  shows "fits f (al_step f op s)"
proof -
  obtain mx l where s: "s = (mx, l)" by (cases s)
  have ins: "fits f (mx, al_insert f mx k v l)" and pro: "fits f (mx, al_promote k l)" for k v
    using assms(1) s fits_insert [of f mx l k v] assms(3) fits_promote [of f mx l k] by auto
  show ?thesis
  proof (cases op)
    case OpClear
    with assms(1) s show ?thesis by (simp add: fits_def)
  next
    case (OpErase k)
    with assms(1) s nat_cost_delete [of f k l] show ?thesis by (simp add: fits_def)
  next
    case (OpResize n)
    with assms s al_evict_fits_nat [of f l n] show ?thesis by (simp add: fits_def)
  qed (use assms(1) s ins pro in auto)
qed

lemma al_run_fits:
  assumes "\<And>v. unat (f v) < 2 ^ 63"
  shows "fits f s \<Longrightarrow> \<forall>op \<in> set ops. op_bounded op \<Longrightarrow> fits f (fold (al_step f) ops s)"
proof (induction ops arbitrary: s)
  case (Cons op ops)
  then have "fits f (al_step f op s)" by (intro al_step_fits assms) auto
  with Cons show ?case by simp
qed simp

section \<open>The cache contract\<close>

definition lru_lookup :: "('k, 'v) lru \<Rightarrow> 'k \<Rightarrow> 'v option" where
  "lru_lookup c k = map_option bvalue (map_of (lru_map c) k)"

definition lru_put :: "'k::linorder \<Rightarrow> 'v \<Rightarrow> ('k, 'v) lru \<Rightarrow> ('k, 'v) lru option" where
  "lru_put k v c = map_option fst (InsertOrAssign k v c)"

definition lru_del :: "'k::linorder \<Rightarrow> ('k, 'v) lru \<Rightarrow> ('k, 'v) lru option" where
  "lru_del k c = map_option fst (Erase k c)"

definition lru_inv :: "('k::linorder, 'v) lru \<Rightarrow> bool" where
  "lru_inv c \<longleftrightarrow> (\<exists>l. lru_rel c l)"

lemma lru_lookup_rel [simp]: "lru_rel c l \<Longrightarrow> lru_lookup c = map_of l"
  by (rule ext) (simp add: lru_lookup_def lru_rel_lookup)

lemma map_of_prefix: "prefix l' l \<Longrightarrow> map_of l' \<subseteq>\<^sub>m map_of l"
  by (auto simp: prefix_def map_le_def map_add_Some_iff)

lemma al_insert_le: "map_of (al_insert f mx k v l) \<subseteq>\<^sub>m (map_of l)(k \<mapsto> v)"
proof -
  have "map_of (al_evict f mx ((k, v) # om_delete k l)) \<subseteq>\<^sub>m map_of ((k, v) # om_delete k l)"
    using al_evict_prefix by (rule map_of_prefix)
  moreover have "map_of ((k, v) # om_delete k l) = (map_of l)(k \<mapsto> v)" by simp
  moreover have "map_of l k = None \<Longrightarrow> map_of l \<subseteq>\<^sub>m (map_of l)(k \<mapsto> v)"
    by (auto simp: map_le_def)
  ultimately show ?thesis
    by (auto simp: al_insert_def om_delete_fresh split: option.split)
qed

lemma al_insert_set: "set (al_insert f mx k v l) \<subseteq> insert (k, v) (set l)"
proof -
  have "set (al_evict f mx ((k, v) # om_delete k l)) \<subseteq> set ((k, v) # om_delete k l)"
    by (rule set_mono_prefix) (rule al_evict_prefix)
  moreover have "set ((k, v) # om_delete k l) \<subseteq> insert (k, v) (set l)" by (auto simp: om_delete_def)
  moreover have "map_of l k = None \<Longrightarrow> om_delete k l = l" by (rule om_delete_fresh)
  ultimately show ?thesis by (fastforce simp: al_insert_def split: option.splits if_splits)
qed

interpretation lruc: cache_contract lru_lookup lru_put lru_del lru_inv
proof unfold_locales
  fix c :: "('a, 'b) lru" and k v
  assume "lru_inv c"
  then obtain l where r: "lru_rel c l" by (auto simp: lru_inv_def)
  from InsertOrAssign_rel [OF r, of k v]
  show "\<exists>c'. lru_put k v c = Some c' \<and> lru_inv c' \<and> lru_lookup c' \<subseteq>\<^sub>m (lru_lookup c)(k \<mapsto> v)"
    using al_insert_le [of "cache_cost_func c" "lru_max_size c" k v l] r
    by (auto simp: lru_put_def lru_inv_def)
next
  fix c :: "('a, 'b) lru" and k
  assume "lru_inv c"
  then obtain l where r: "lru_rel c l" by (auto simp: lru_inv_def)
  from Erase_rel [OF r, of k] r
  show "\<exists>c'. lru_del k c = Some c' \<and> lru_inv c' \<and> lru_lookup c' \<subseteq>\<^sub>m (lru_lookup c)(k := None)"
    by (auto simp: lru_del_def lru_inv_def)
qed

section \<open>Properties\<close>

text \<open>C2. Total correctness of every history: from a new cache, any sequence of operations runs
  without a failed assertion or an access through an invalid iterator, and walking the cache
  from \<open>begin()\<close> (or backwards from \<open>rbegin()\<close>) visits exactly the entries that the list of
  entries ordered from the most to the least recently used one holds after the same operations.\<close>

theorem lru_run_refines:
  "\<exists>c. lru_run ops (LruCache_new mx f) = Some c
     \<and> lru_max_size c = fst (fold (al_step f) ops (mx, []))
     \<and> iterate (lru_first c) c = Some (snd (fold (al_step f) ops (mx, [])))
     \<and> iterate_back (lru_last c) c = Some (rev (snd (fold (al_step f) ops (mx, []))))"
  using lru_run_new [of ops mx f] iterate_rel by blast

text \<open>Capacity: as long as no single cost and no capacity reaches \<open>2^63\<close>, the total cost of
  the entries never exceeds the capacity after any history, and \<open>size_\<close> is that total cost.\<close>

lemma lru_capacity:
  assumes "\<And>v. unat (f v) < 2 ^ 63" and "unat mx < 2 ^ 63" and "\<forall>op \<in> set ops. op_bounded op"
    and run: "lru_run ops (LruCache_new mx f) = Some c"
  shows "\<exists>l. iterate (lru_first c) c = Some l \<and> nat_cost f l \<le> unat (lru_max_size c)
    \<and> unat (lru_size c) = nat_cost f l"
proof -
  obtain mx' l' where f: "fold (al_step f) ops (mx, []) = (mx', l')"
    by (cases "fold (al_step f) ops (mx, [])")
  with run lru_run_new [of ops mx f]
  have c: "lru_max_size c = mx'" "lru_rel c l'" "cache_cost_func c = f" by auto
  have "fits f (mx, [])" using assms(2) by (simp add: fits_def)
  with al_run_fits [where f = f and s = "(mx, [])" and ops = ops] assms(1,3) f have "fits f (mx', l')" by simp
  then have "nat_cost f l' \<le> unat mx'" and "nat_cost f l' < 2 ^ 64" by (simp_all add: fits_def)
  with c iterate_rel(1) [OF c(2)] unat_cost_sum [of f l'] show ?thesis
    by (auto simp: lru_rel_def)
qed

lemma lru_capacity_witness:
  "\<exists>c l. lru_run [OpInsertOrAssign 1 ''a'', OpInsertOrAssign 2 ''b'', OpInsertOrAssign 3 ''c'']
       (LruCache_new 2 (\<lambda>_. 1)) = Some (c :: (nat, string) lru)
     \<and> iterate (lru_first c) c = Some l \<and> nat_cost (\<lambda>_. 1) l \<le> unat (lru_max_size c)
     \<and> unat (lru_size c) = nat_cost (\<lambda>_. 1) l"
proof -
  let ?ops = "[OpInsertOrAssign 1 ''a'', OpInsertOrAssign 2 ''b'', OpInsertOrAssign 3 ''c'']
    :: (nat, string) lru_op list"
  let ?f = "\<lambda>_ :: string. 1 :: u64"
  obtain c where c: "lru_run ?ops (LruCache_new 2 ?f) = Some c"
    using lru_run_new [of ?ops 2 ?f] by blast
  have "\<exists>l. iterate (lru_first c) c = Some l \<and> nat_cost ?f l \<le> unat (lru_max_size c)
    \<and> unat (lru_size c) = nat_cost ?f l"
    by (rule lru_capacity [OF _ _ _ c]) simp_all
  with c show ?thesis by blast
qed

text \<open>Eviction follows the LRU principle: assigning a value that fits puts its entry at the
  front, keeps the longest run of the most recently used entries that fits beside it, and hands
  the dropped ones to the eviction callback, least recently used first.\<close>

lemma insert_evicts_least_recent:
  assumes r: "lru_rel c l" and cb: "eviction_callback c"
    and cost: "unat (cache_cost_func c v) \<le> unat (lru_max_size c)"
    and nowrap: "nat_cost (cache_cost_func c) ((k, v) # om_delete k l) < 2 ^ 64"
  shows "\<exists>c' ins kept. InsertOrAssign k v c = Some (c', evicted ((k, v) # om_delete k l) kept, Some k, ins)
    \<and> iterate (lru_first c') c' = Some kept
    \<and> (\<exists>rest. kept = (k, v) # rest)
    \<and> prefix kept ((k, v) # om_delete k l)
    \<and> nat_cost (cache_cost_func c) kept \<le> unat (lru_max_size c)
    \<and> (\<forall>n. length kept < n \<and> n \<le> length ((k, v) # om_delete k l) \<longrightarrow>
         unat (lru_max_size c) < nat_cost (cache_cost_func c) (take n ((k, v) # om_delete k l)))"
proof -
  let ?f = "cache_cost_func c" and ?mx = "lru_max_size c" and ?l = "(k, v) # om_delete k l"
  let ?kept = "al_evict ?f ?mx ?l"
  have "\<not> ?mx < ?f v" using cost by (simp add: word_less_nat_alt)
  then have e: "al_insert ?f ?mx k v l = ?kept" and n: "\<not> refused c k v l"
    by (simp_all add: al_insert_def om_delete_fresh refused_def split: option.split)
  from InsertOrAssign_rel [OF r, of k v] e n cb obtain c' ins
    where c': "InsertOrAssign k v c = Some (c', evicted ?l ?kept, Some k, ins)" "lru_rel c' ?kept"
    by auto
  have p: "prefix ?kept ?l" by (rule al_evict_prefix)
  have "length ?kept \<noteq> 0"
  proof
    assume "length ?kept = 0"
    with al_evict_longest_nat [OF nowrap, of ?mx 1] have "unat ?mx < nat_cost ?f (take 1 ?l)" by simp
    with cost show False by simp
  qed
  with p have "\<exists>rest. ?kept = (k, v) # rest" by (auto simp: prefix_Cons)
  with c' p iterate_rel(1) [OF c'(2)] al_evict_fits_nat [OF nowrap] al_evict_longest_nat [OF nowrap]
  show ?thesis by blast
qed

lemma insert_evicts_least_recent_witness:
  "\<exists>c :: (nat, string) lru. \<exists>c' ins kept.
     InsertOrAssign 1 ''b'' c = Some (c', evicted [(1, ''b'')] kept, Some 1, ins)
     \<and> iterate (lru_first c') c' = Some kept"
proof -
  let ?c = "SetEvictionCallback True (LruCache_new 5 (\<lambda>_. 2)) :: (nat, string) lru"
  have c: "cache_cost_func ?c = (\<lambda>_. 2)" "lru_max_size ?c = 5" "eviction_callback ?c"
    and r: "lru_rel ?c []"
    by (simp_all add: SetEvictionCallback_def LruCache_new_def lru_rel_def)
  have "\<exists>c' ins kept. InsertOrAssign 1 ''b'' ?c = Some (c', evicted ((1, ''b'') # om_delete 1 []) kept, Some 1, ins)
    \<and> iterate (lru_first c') c' = Some kept"
    using insert_evicts_least_recent [OF r, of "''b''" 1] c by (auto simp: om_delete_def)
  then show ?thesis unfolding om_delete_def by auto
qed

text \<open>The cache never invents: after any history of assignments and erasures every lookup
  returns the value last assigned to the key since it was erased, or nothing.\<close>

lemma lru_never_invents:
  "\<exists>c. cache_run lru_put lru_del ops (LruCache_new mx f) = Some c
     \<and> lru_lookup c \<subseteq>\<^sub>m store_run ops Map.empty"
proof -
  let ?c = "LruCache_new mx f"
  have "lru_inv ?c" unfolding lru_inv_def using lru_rel_new by blast
  moreover have "lru_lookup ?c \<subseteq>\<^sub>m Map.empty" by (simp add: lru_lookup_def LruCache_new_def map_le_def dom_def)
  ultimately show ?thesis using lruc.never_invents [of ?c Map.empty ops] by blast
qed

text \<open>Assigning to an existing key does not check the new cost against the capacity: a value
  that is too large evicts every entry, its own included, and the call still returns an iterator
  for the key although no such entry is left.\<close>

lemma oversized_assign_dangles:
  assumes r: "lru_rel c l" and k: "map_of l k = Some w"
    and cost: "unat (lru_max_size c) < unat (cache_cost_func c v)"
    and nowrap: "nat_cost (cache_cost_func c) ((k, v) # om_delete k l) < 2 ^ 64"
  shows "\<exists>c' ev. InsertOrAssign k v c = Some (c', ev, Some k, False) \<and> lru_map c' = []"
proof -
  let ?l = "(k, v) # om_delete k l"
  let ?kept = "al_evict (cache_cost_func c) (lru_max_size c) ?l"
  have "?kept = []"
  proof (rule ccontr)
    assume "?kept \<noteq> []"
    with al_evict_prefix [of "cache_cost_func c" "lru_max_size c" ?l]
    obtain rest where "?kept = (k, v) # rest" by (auto simp: prefix_Cons)
    with al_evict_fits_nat [OF nowrap, of "lru_max_size c"] cost show False by simp
  qed
  with InsertOrAssign_rel [OF r, of k v] k obtain c' ev
    where "InsertOrAssign k v c = Some (c', ev, Some k, False)" "lru_rel c' []"
    by (auto simp: al_insert_def refused_def)
  then show ?thesis by (auto simp: lru_rel_def dom_map_of_conv_image_fst)
qed

lemma oversized_assign_dangles_witness:
  "\<exists>c :: (nat, u64) lru. lru_max_size c = 5
     \<and> (\<exists>c' ev. InsertOrAssign 1 9 c = Some (c', ev, Some 1, False) \<and> lru_map c' = [])"
proof -
  let ?c = "\<lparr>eviction_callback = False, cache_cost_func = id,
    lru_map = [(1, \<lparr>bnext = None, bprevious = None, bvalue = 3\<rparr>)], lru_first = Some 1,
    lru_last = Some 1, lru_max_size = 5, lru_size = 3\<rparr> :: (nat, u64) lru"
  have "lru_rel ?c [(1, 3)]" by (simp add: lru_rel_def om_ok_def)
  then have "\<exists>c' ev. InsertOrAssign 1 9 ?c = Some (c', ev, Some 1, False) \<and> lru_map c' = []"
    by (rule oversized_assign_dangles) (simp_all add: om_delete_def)
  then show ?thesis by (intro exI [of _ ?c]) simp
qed

end
