(* ===== verification/InMemoryCache.thy ===== *)
theory InMemoryCache
  imports LruCache
begin

text \<open>
  \<open>olp::cache::InMemoryCache\<close> (src/cache/InMemoryCache.h and .cpp): an LRU cache of items with
  an expiry time beside a \<open>std::map\<close> from expiry times to the items that were inserted with
  them. The clock is an argument: an operation that calls the time provider takes the value of
  each call. \<open>olp::porting::any\<close> is an option, whose \<open>None\<close> is the empty \<open>any\<close>. The mutex makes
  every public operation one atomic step.

  The theory proves that no history makes \<open>Get\<close> return a value that was overwritten, removed or
  has expired, what \<open>PurgeExpired\<close> and \<open>RemoveKeysWithPrefix\<close> remove, and where the registry
  of expiry times disagrees with the items.
\<close>

section \<open>State\<close>

record 'a item_tuple =
  tuple_key :: string
  tuple_expiry :: time_t
  tuple_item :: "'a option"
  tuple_size :: u64

record 'a in_memory_cache =
  item_tuples :: "(string, 'a item_tuple) lru"
  item_expiries :: "(time_t, 'a item_tuple list) omap"

definition kExpiryMax :: time_t where
  "kExpiryMax = time_max"

definition HasExpiry :: "time_t \<Rightarrow> bool" where
  "HasExpiry expiry_seconds \<longleftrightarrow> expiry_seconds \<noteq> kExpiryMax"

definition IsPrefix :: "string \<Rightarrow> string \<Rightarrow> bool" where
  "IsPrefix key pre \<longleftrightarrow> starts_with pre key"

definition DefaultCacheCost :: "'a item_tuple \<Rightarrow> u64" where
  "DefaultCacheCost value = (if tuple_size value = 0 then 1 else tuple_size value)"

definition InMemoryCache_new :: "u64 \<Rightarrow> ('a item_tuple \<Rightarrow> u64) \<Rightarrow> 'a in_memory_cache" where
  "InMemoryCache_new max_size cache_cost =
     \<lparr>item_tuples = SetEvictionCallback True (LruCache_new max_size cache_cost),
      item_expiries = []\<rparr>"

section \<open>Operations\<close>

text \<open>The access \<open>item_expiries_[t]\<close>, which creates an empty vector when there is none.\<close>

definition expiries_at :: "time_t \<Rightarrow> 'a in_memory_cache \<Rightarrow> 'a in_memory_cache \<times> 'a item_tuple list" where
  "expiries_at t s =
     (case map_of (item_expiries s) t of
        None \<Rightarrow> (s\<lparr>item_expiries := om_update t [] (item_expiries s)\<rparr>, [])
      | Some items \<Rightarrow> (s, items))"

primrec erase_first :: "string \<Rightarrow> 'a item_tuple list \<Rightarrow> 'a item_tuple list" where
  "erase_first key [] = []"
| "erase_first key (t # ts) = (if tuple_key t = key then ts else t # erase_first key ts)"

text \<open>\<open>OnEviction\<close>. The vector is copied before the evicted item is erased from it, so the
  erasure is lost: \<open>item\<close> is not used afterwards.\<close>

definition OnEviction :: "string \<Rightarrow> 'a item_tuple \<Rightarrow> 'a in_memory_cache \<Rightarrow> 'a in_memory_cache" where
  "OnEviction key value s =
     (let expiry = tuple_expiry value in
      if HasExpiry expiry then
        (let (s, item) = expiries_at expiry s;
             item = erase_first key item;
             (s, registered) = expiries_at expiry s in
         if registered = [] then s\<lparr>item_expiries := om_delete expiry (item_expiries s)\<rparr> else s)
      else s)"

text \<open>The loop of \<open>PurgeExpired(time_t)\<close> over the registered items.\<close>

fun erase_items ::
  "'a item_tuple list \<Rightarrow> (string, 'a item_tuple) lru \<Rightarrow> ((string, 'a item_tuple) lru \<times> bool) option" where
  "erase_items [] c = Some (c, True)"
| "erase_items (t # ts) c = do {
     (c, r) \<leftarrow> Erase (tuple_key t) c;
     (c, rs) \<leftarrow> erase_items ts c;
     Some (c, r \<and> rs) }"

definition PurgeExpired_at :: "time_t \<Rightarrow> 'a in_memory_cache \<Rightarrow> ('a in_memory_cache \<times> bool) option" where
  "PurgeExpired_at expire_time s =
     (let (s, items) = expiries_at expire_time s in do {
        (c, ret) \<leftarrow> erase_items items (item_tuples s);
        Some (s\<lparr>item_tuples := c, item_expiries := om_delete expire_time (item_expiries s)\<rparr>, ret) })"

fun purge_all :: "time_t list \<Rightarrow> 'a in_memory_cache \<Rightarrow> ('a in_memory_cache \<times> bool) option" where
  "purge_all [] s = Some (s, True)"
| "purge_all (t # ts) s = do {
     (s, r) \<leftarrow> PurgeExpired_at t s;
     (s, rs) \<leftarrow> purge_all ts s;
     Some (s, r \<and> rs) }"

definition PurgeExpired :: "time_t \<Rightarrow> 'a in_memory_cache \<Rightarrow> ('a in_memory_cache \<times> bool) option" where
  "PurgeExpired time_now s =
     (let expired_keys = map fst (takeWhile (\<lambda>item. fst item < time_now) (item_expiries s)) in
      purge_all expired_keys s)"

text \<open>\<open>item_expiries_[t].push_back(item_tuple)\<close>.\<close>

definition register_expiry :: "time_t \<Rightarrow> 'a item_tuple \<Rightarrow> 'a in_memory_cache \<Rightarrow> 'a in_memory_cache" where
  "register_expiry t item_tuple s =
     (let (s, items) = expiries_at t s in
      s\<lparr>item_expiries := om_update t (items @ [item_tuple]) (item_expiries s)\<rparr>)"

text \<open>\<open>Put\<close> reads the clock in \<open>PurgeExpired\<close> (\<open>now\<close>) and again to form the expiry time
  (\<open>now'\<close>).\<close>

definition InMemoryCache_Put ::
  "string \<Rightarrow> 'a option \<Rightarrow> time_t \<Rightarrow> u64 \<Rightarrow> time_t \<Rightarrow> time_t \<Rightarrow> 'a in_memory_cache
    \<Rightarrow> ('a in_memory_cache \<times> bool) option" where
  "InMemoryCache_Put key item expire_seconds sz now now' s = do {
     (s, _) \<leftarrow> PurgeExpired now s;
     let expires = HasExpiry expire_seconds;
     if expires \<and> expire_seconds \<le> 0 then Some (s, False)
     else do {
       expire_seconds \<leftarrow> (if expires then time_add expire_seconds now' else Some expire_seconds);
       let item_tuple = \<lparr>tuple_key = key, tuple_expiry = expire_seconds, tuple_item = item,
                         tuple_size = sz\<rparr>;
       (c, evs, _, inserted) \<leftarrow> InsertOrAssign key item_tuple (item_tuples s);
       let s = fold (\<lambda>(k, v). OnEviction k v) evs (s\<lparr>item_tuples := c\<rparr>);
       let s = (if inserted \<and> expires then register_expiry expire_seconds item_tuple s else s);
       Some (s, inserted) } }"

definition InMemoryCache_Get ::
  "string \<Rightarrow> time_t \<Rightarrow> 'a in_memory_cache \<Rightarrow> ('a in_memory_cache \<times> 'a option) option" where
  "InMemoryCache_Get key now s = do {
     (c, it) \<leftarrow> Find key (item_tuples s);
     let s = s\<lparr>item_tuples := c\<rparr>;
     if it \<noteq> None then do {
       value \<leftarrow> it_value it c;
       if tuple_expiry value < now then do {
         (s, _) \<leftarrow> PurgeExpired_at (tuple_expiry value) s;
         Some (s, None) }
       else Some (s, tuple_item value) }
     else Some (s, None) }"

definition InMemoryCache_Size :: "'a in_memory_cache \<Rightarrow> u64" where
  "InMemoryCache_Size s = lru_size (item_tuples s)"

definition InMemoryCache_Clear :: "'a in_memory_cache \<Rightarrow> 'a in_memory_cache" where
  "InMemoryCache_Clear s = s\<lparr>item_expiries := [], item_tuples := Clear (item_tuples s)\<rparr>"

definition InMemoryCache_Remove ::
  "string \<Rightarrow> 'a in_memory_cache \<Rightarrow> ('a in_memory_cache \<times> bool) option" where
  "InMemoryCache_Remove key s = do {
     (c, r) \<leftarrow> Erase key (item_tuples s);
     Some (s\<lparr>item_tuples := c\<rparr>, r) }"

text \<open>The loop of \<open>RemoveKeysWithPrefix\<close>; a null filter is the filter that is always false.\<close>

partial_function (option) remove_loop ::
  "string \<Rightarrow> (string \<Rightarrow> bool) \<Rightarrow> string option \<Rightarrow> (string, 'v) lru \<Rightarrow> (string, 'v) lru option" where
  "remove_loop pre flt it c =
     (case it of
        None \<Rightarrow> Some c
      | Some key \<Rightarrow>
          if IsPrefix key pre \<and> \<not> flt key
          then do { (c, it) \<leftarrow> Erase_it it c; remove_loop pre flt it c }
          else do { it \<leftarrow> it_next it c; remove_loop pre flt it c })"

declare remove_loop.simps [code]

definition RemoveKeysWithPrefix ::
  "string \<Rightarrow> (string \<Rightarrow> bool) \<Rightarrow> 'a in_memory_cache \<Rightarrow> 'a in_memory_cache option" where
  "RemoveKeysWithPrefix key_prefix flt s = do {
     c \<leftarrow> remove_loop key_prefix flt (lru_first (item_tuples s)) (item_tuples s);
     Some (s\<lparr>item_tuples := c\<rparr>) }"

definition InMemoryCache_Contains :: "string \<Rightarrow> time_t \<Rightarrow> 'a in_memory_cache \<Rightarrow> bool option" where
  "InMemoryCache_Contains key now s = do {
     let it = FindNoPromote key (item_tuples s);
     if it \<noteq> None then do {
       value \<leftarrow> it_value it (item_tuples s);
       Some (now < tuple_expiry value) }
     else Some False }"

section \<open>Invariant and refinement\<close>

text \<open>\<open>imc_rel s l\<close>: the items of \<open>s\<close>, most recently used first, are \<open>l\<close>; every item is stored
  under its own key, the registry is an ordered map of lists of tuples.\<close>

definition imc_rel :: "'a in_memory_cache \<Rightarrow> (string \<times> 'a item_tuple) list \<Rightarrow> bool" where
  "imc_rel s l \<longleftrightarrow> lru_rel (item_tuples s) l \<and> om_ok (item_expiries s)
     \<and> (\<forall>(k, t) \<in> set l. tuple_key t = k)"

lemma imc_rel_new [simp]: "imc_rel (InMemoryCache_new mx f) []"
  by (simp add: imc_rel_def InMemoryCache_new_def SetEvictionCallback_def LruCache_new_def lru_rel_def)

lemma imc_rel_Clear [simp]: "imc_rel (InMemoryCache_Clear s) []"
  by (simp add: imc_rel_def InMemoryCache_Clear_def)

lemma om_ok_expiries_at [simp]:
  "om_ok (item_expiries s) \<Longrightarrow> om_ok (item_expiries (fst (expiries_at t s)))"
  by (simp add: expiries_at_def keeps split: option.split)

lemma item_tuples_expiries_at [simp]: "item_tuples (fst (expiries_at t s)) = item_tuples s"
  by (simp add: expiries_at_def split: option.split)

lemma OnEviction_item_tuples [simp]: "item_tuples (OnEviction k v s) = item_tuples s"
  by (simp add: OnEviction_def Let_def expiries_at_def split: option.split)

lemma OnEviction_ok [simp]: "om_ok (item_expiries s) \<Longrightarrow> om_ok (item_expiries (OnEviction k v s))"
  by (simp add: OnEviction_def Let_def expiries_at_def keeps split: option.split)

lemma fold_OnEviction [simp]:
  "item_tuples (fold (\<lambda>(k, v). OnEviction k v) evs s) = item_tuples s"
  "om_ok (item_expiries s) \<Longrightarrow> om_ok (item_expiries (fold (\<lambda>(k, v). OnEviction k v) evs s))"
  by (induction evs arbitrary: s) (auto split: prod.split)

lemma register_expiry_simps [simp]:
  "item_tuples (register_expiry t v s) = item_tuples s"
  "om_ok (item_expiries s) \<Longrightarrow> om_ok (item_expiries (register_expiry t v s))"
  by (simp_all add: register_expiry_def expiries_at_def keeps split: option.split)

text \<open>The keys registered under the expiry times that satisfy \<open>P\<close>.\<close>

definition keys_at :: "time_t \<Rightarrow> 'a in_memory_cache \<Rightarrow> string set" where
  "keys_at e s = (case map_of (item_expiries s) e of None \<Rightarrow> {} | Some ts \<Rightarrow> tuple_key ` set ts)"

definition registered :: "(time_t \<Rightarrow> bool) \<Rightarrow> 'a in_memory_cache \<Rightarrow> string set" where
  "registered P s = (\<Union>e \<in> Collect P. keys_at e s)"

lemma erase_items_rel:
  "lru_rel c l \<Longrightarrow> \<exists>c' r. erase_items ts c = Some (c', r) \<and> same_config c c'
    \<and> lru_rel c' (filter (\<lambda>p. fst p \<notin> tuple_key ` set ts) l)"
proof (induction ts arbitrary: c l)
  case (Cons t ts)
  from Erase_rel [OF Cons.prems, of "tuple_key t"] obtain c1
    where c1: "Erase (tuple_key t) c = Some (c1, map_of l (tuple_key t) \<noteq> None)" "same_config c c1"
      "lru_rel c1 (om_delete (tuple_key t) l)" by blast
  have "filter (\<lambda>p. fst p \<notin> tuple_key ` set ts) (om_delete (tuple_key t) l)
      = filter (\<lambda>p. fst p \<notin> tuple_key ` set (t # ts)) l"
    by (simp add: om_delete_def conj_commute)
  with Cons.IH [OF c1(3)] c1 show ?case by (auto intro: same_config_trans)
qed auto

lemma PurgeExpired_at_rel:
  assumes "imc_rel s l"
  shows "\<exists>s' r. PurgeExpired_at t s = Some (s', r)
    \<and> imc_rel s' (filter (\<lambda>p. fst p \<notin> registered (\<lambda>e. e = t) s) l)
    \<and> map_of (item_expiries s') = (map_of (item_expiries s))(t := None)
    \<and> same_config (item_tuples s) (item_tuples s')"
proof -
  let ?items = "snd (expiries_at t s)"
  have keys: "tuple_key ` set ?items = registered (\<lambda>e. e = t) s"
    by (auto simp: registered_def keys_at_def expiries_at_def split: option.split)
  have "lru_rel (item_tuples s) l" using assms by (simp add: imc_rel_def)
  from erase_items_rel [OF this, of ?items] keys obtain c r
    where c: "erase_items ?items (item_tuples s) = Some (c, r)" "same_config (item_tuples s) c"
      "lru_rel c (filter (\<lambda>p. fst p \<notin> registered (\<lambda>e. e = t) s) l)" by auto
  from assms have "om_ok (item_expiries s)" by (simp add: imc_rel_def)
  then have "om_ok (om_delete t (item_expiries (fst (expiries_at t s))))" by (simp add: keeps)
  with assms c show ?thesis
    by (auto simp: PurgeExpired_at_def case_prod_beta imc_rel_def expiries_at_def split: option.split)
qed

lemma purge_all_rel:
  "imc_rel s l \<Longrightarrow> \<exists>s' r. purge_all ts s = Some (s', r)
    \<and> imc_rel s' (filter (\<lambda>p. fst p \<notin> registered (\<lambda>e. e \<in> set ts) s) l)
    \<and> map_of (item_expiries s') = (\<lambda>e. if e \<in> set ts then None else map_of (item_expiries s) e)
    \<and> same_config (item_tuples s) (item_tuples s')"
proof (induction ts arbitrary: s l)
  case Nil
  then show ?case by (auto simp: registered_def)
next
  case (Cons t ts)
  from PurgeExpired_at_rel [OF Cons.prems, of t] obtain s1 r1
    where s1: "PurgeExpired_at t s = Some (s1, r1)"
      "imc_rel s1 (filter (\<lambda>p. fst p \<notin> registered (\<lambda>e. e = t) s) l)"
      "map_of (item_expiries s1) = (map_of (item_expiries s))(t := None)"
      "same_config (item_tuples s) (item_tuples s1)" by blast
  have "registered (\<lambda>e. e = t) s \<union> registered (\<lambda>e. e \<in> set ts) s1
      = registered (\<lambda>e. e \<in> set (t # ts)) s"
    by (auto simp: registered_def keys_at_def s1(3) split: if_splits)
  then have "filter (\<lambda>p. fst p \<notin> registered (\<lambda>e. e \<in> set ts) s1)
        (filter (\<lambda>p. fst p \<notin> registered (\<lambda>e. e = t) s) l)
      = filter (\<lambda>p. fst p \<notin> registered (\<lambda>e. e \<in> set (t # ts)) s) l"
    by (auto intro!: filter_cong)
  with Cons.IH [OF s1(2)] s1 show ?case
    by (auto simp: fun_eq_iff dest: same_config_trans [OF s1(4)])
qed

lemma registered_cong:
  "(\<And>e. e \<in> dom (map_of (item_expiries s)) \<Longrightarrow> P e = Q e) \<Longrightarrow> registered P s = registered Q s"
proof -
  assume PQ: "\<And>e. e \<in> dom (map_of (item_expiries s)) \<Longrightarrow> P e = Q e"
  have dk: "k \<in> keys_at e s \<Longrightarrow> e \<in> dom (map_of (item_expiries s))" for e k
    by (auto simp: keys_at_def split: option.splits)
  show ?thesis
  proof (rule set_eqI)
    fix k
    have "P e \<and> k \<in> keys_at e s \<longleftrightarrow> Q e \<and> k \<in> keys_at e s" for e
      using PQ [of e] dk [of k e] by blast
    then show "k \<in> registered P s \<longleftrightarrow> k \<in> registered Q s" by (simp add: registered_def Bex_def)
  qed
qed

lemma PurgeExpired_rel:
  assumes "imc_rel s l"
  shows "\<exists>s' r. PurgeExpired now s = Some (s', r)
    \<and> imc_rel s' (filter (\<lambda>p. fst p \<notin> registered (\<lambda>e. e < now) s) l)
    \<and> map_of (item_expiries s') = (\<lambda>e. if e < now then None else map_of (item_expiries s) e)
    \<and> same_config (item_tuples s) (item_tuples s')"
proof -
  let ?ts = "map fst (takeWhile (\<lambda>item. fst item < now) (item_expiries s))"
  from assms have "om_ok (item_expiries s)" by (simp add: imc_rel_def)
  then have ts: "e \<in> set ?ts \<longleftrightarrow> e < now \<and> e \<in> dom (map_of (item_expiries s))" for e
    by (auto simp: takeWhile_sorted dom_map_of_conv_image_fst)
  then have "registered (\<lambda>e. e \<in> set ?ts) s = registered (\<lambda>e. e < now) s"
    by (intro registered_cong) simp
  moreover have "(\<lambda>e. if e \<in> set ?ts then None else map_of (item_expiries s) e)
      = (\<lambda>e. if e < now then None else map_of (item_expiries s) e)"
    by (rule ext) (simp only: ts, auto)
  ultimately show ?thesis using purge_all_rel [OF assms, of ?ts]
    unfolding PurgeExpired_def Let_def by simp
qed

lemma OnEviction_noop:
  assumes "om_ok (item_expiries s)" and "[] \<notin> snd ` set (item_expiries s)"
  shows "OnEviction k v s = s"
proof -
  have "map_of (item_expiries s) e = Some ts \<Longrightarrow> ts \<noteq> []" for e ts
    using assms(2) by (force dest: map_of_SomeD)
  then show ?thesis using assms(1)
    by (auto simp: OnEviction_def Let_def expiries_at_def om_delete_update om_delete_fresh
        split: option.split)
qed

section \<open>Histories\<close>

datatype 'a imc_op =
    IPut string "'a option" time_t u64 time_t time_t
  | IGet string time_t
  | IRemove string
  | IRemovePrefix string "string \<Rightarrow> bool"
  | IClear

fun imc_step :: "'a imc_op \<Rightarrow> 'a in_memory_cache \<Rightarrow> 'a in_memory_cache option" where
  "imc_step (IPut k v e sz now now') s = map_option fst (InMemoryCache_Put k v e sz now now' s)"
| "imc_step (IGet k now) s = map_option fst (InMemoryCache_Get k now s)"
| "imc_step (IRemove k) s = map_option fst (InMemoryCache_Remove k s)"
| "imc_step (IRemovePrefix p flt) s = RemoveKeysWithPrefix p flt s"
| "imc_step IClear s = Some (InMemoryCache_Clear s)"

fun imc_run :: "'a imc_op list \<Rightarrow> 'a in_memory_cache \<Rightarrow> 'a in_memory_cache option" where
  "imc_run [] s = Some s"
| "imc_run (op # ops) s = imc_step op s \<bind> imc_run ops"

text \<open>The store that never forgets: what a key was last given, and until when.\<close>

definition the_tuple :: "string \<Rightarrow> 'a option \<Rightarrow> time_t \<Rightarrow> u64 \<Rightarrow> time_t \<Rightarrow> 'a item_tuple" where
  "the_tuple k v e sz now' =
     \<lparr>tuple_key = k, tuple_expiry = (if HasExpiry e then e + now' else e), tuple_item = v,
      tuple_size = sz\<rparr>"

fun imc_spec :: "'a imc_op \<Rightarrow> (string \<rightharpoonup> 'a item_tuple) \<Rightarrow> (string \<rightharpoonup> 'a item_tuple)" where
  "imc_spec (IPut k v e sz now now') m =
     (if HasExpiry e \<and> e \<le> 0 then m else m(k \<mapsto> the_tuple k v e sz now'))"
| "imc_spec (IGet k now) m = m"
| "imc_spec (IRemove k) m = m(k := None)"
| "imc_spec (IRemovePrefix p flt) m = (\<lambda>k. if prefix p k \<and> \<not> flt k then None else m k)"
| "imc_spec IClear m = Map.empty"

text \<open>No expiry time overflows \<open>time_t\<close>, which would be undefined behaviour.\<close>

fun times_ok :: "'a imc_op \<Rightarrow> bool" where
  "times_ok (IPut k v e sz now now') \<longleftrightarrow> (HasExpiry e \<and> 0 < e \<longrightarrow> time_add e now' \<noteq> None)"
| "times_ok _ \<longleftrightarrow> True"

lemma Put_rel:
  assumes r: "imc_rel s l" and ok: "times_ok (IPut k v e sz now now')"
  shows "\<exists>s' b l'. InMemoryCache_Put k v e sz now now' s = Some (s', b) \<and> imc_rel s' l'
    \<and> map_of l' \<subseteq>\<^sub>m imc_spec (IPut k v e sz now now') (map_of l)"
proof -
  let ?l = "filter (\<lambda>p. fst p \<notin> registered (\<lambda>e. e < now) s) l"
  have le: "map_of ?l \<subseteq>\<^sub>m map_of l"
    by (rule map_of_filter_le)
  from PurgeExpired_rel [OF r, of now] obtain s1 r1
    where s1: "PurgeExpired now s = Some (s1, r1)" "imc_rel s1 ?l" by blast
  show ?thesis
  proof (cases "HasExpiry e \<and> e \<le> 0")
    case True
    with s1 le show ?thesis by (auto simp: InMemoryCache_Put_def)
  next
    case False
    let ?t = "the_tuple k v e sz now'" and ?c = "item_tuples s1"
    let ?l' = "al_insert (cache_cost_func ?c) (lru_max_size ?c) k ?t ?l"
    from s1(2) have "lru_rel ?c ?l" and ok1: "om_ok (item_expiries s1)" by (auto simp: imc_rel_def)
    from InsertOrAssign_rel [OF this(1), of k ?t] obtain c evs it ins
      where c: "InsertOrAssign k ?t ?c = Some (c, evs, it, ins)" "lru_rel c ?l'" by blast
    have "map_of ?l' \<subseteq>\<^sub>m (map_of ?l)(k \<mapsto> ?t)" by (rule al_insert_le)
    with le have le': "map_of ?l' \<subseteq>\<^sub>m (map_of l)(k \<mapsto> ?t)" by (meson map_le_trans map_le_upd)
    have keys: "\<forall>(k, t) \<in> set ?l'. tuple_key t = k"
      using al_insert_set [of "cache_cost_func ?c" "lru_max_size ?c" k ?t ?l] s1(2)
      by (auto simp: imc_rel_def the_tuple_def)
    let ?s = "fold (\<lambda>(k, v). OnEviction k v) evs (s1\<lparr>item_tuples := c\<rparr>)"
    let ?s' = "if ins \<and> HasExpiry e then register_expiry (tuple_expiry ?t) ?t ?s else ?s"
    have "InMemoryCache_Put k v e sz now now' s = Some (?s', ins)"
    proof (cases "HasExpiry e")
      case True
      with False ok have "time_add e now' = Some (e + now')" by auto
      with True False s1(1) c(1) show ?thesis
        by (simp add: InMemoryCache_Put_def the_tuple_def del: time_add_Some)
    next
      case noexp: False
      with s1(1) c(1) show ?thesis by (simp add: InMemoryCache_Put_def the_tuple_def)
    qed
    moreover have "imc_rel ?s' ?l'" using c(2) keys ok1 by (auto simp: imc_rel_def)
    ultimately show ?thesis using False le' by auto
  qed
qed

lemma Get_rel:
  assumes r: "imc_rel s l"
  shows "\<exists>s' l'. InMemoryCache_Get k now s =
      Some (s', case map_of l k of None \<Rightarrow> None
                | Some t \<Rightarrow> if tuple_expiry t < now then None else tuple_item t)
    \<and> imc_rel s' l' \<and> map_of l' \<subseteq>\<^sub>m map_of l"
proof -
  from r have rl: "lru_rel (item_tuples s) l" and ok: "om_ok (item_expiries s)"
    and keys: "\<forall>(k, t) \<in> set l. tuple_key t = k" by (simp_all add: imc_rel_def)
  from Find_rel [OF rl, of k] obtain c
    where c: "Find k (item_tuples s) = Some (c, if map_of l k = None then None else Some k)"
      "lru_rel c (al_promote k l)" by blast
  let ?s = "s\<lparr>item_tuples := c\<rparr>" and ?l = "al_promote k l"
  have m: "map_of ?l = map_of l" by (auto simp: al_promote_def split: option.split)
  have "set ?l \<subseteq> set l" by (auto simp: al_promote_def om_delete_def dest: map_of_SomeD split: option.splits)
  with c(2) ok keys have s: "imc_rel ?s ?l" by (auto simp: imc_rel_def)
  show ?thesis
  proof (cases "map_of l k")
    case None
    with c s m show ?thesis by (auto simp: InMemoryCache_Get_def)
  next
    case (Some t)
    show ?thesis
    proof (cases "tuple_expiry t < now")
      case True
      let ?e = "tuple_expiry t"
      from PurgeExpired_at_rel [OF s, of ?e] obtain s1 r1 where
        "PurgeExpired_at ?e ?s = Some (s1, r1)"
        "imc_rel s1 (filter (\<lambda>p. fst p \<notin> registered (\<lambda>e. e = ?e) ?s) ?l)" by blast
      moreover have "map_of (filter (\<lambda>p. fst p \<notin> registered (\<lambda>e. e = ?e) ?s) ?l) \<subseteq>\<^sub>m map_of l"
        unfolding m [symmetric] by (rule map_of_filter_le)
      ultimately show ?thesis using Some True c m by (auto simp: InMemoryCache_Get_def)
    next
      case False
      with Some c m s show ?thesis by (auto simp: InMemoryCache_Get_def)
    qed
  qed
qed

lemma Remove_rel:
  assumes "imc_rel s l"
  shows "\<exists>s'. InMemoryCache_Remove k s = Some (s', map_of l k \<noteq> None) \<and> imc_rel s' (om_delete k l)"
proof -
  have "lru_rel (item_tuples s) l" using assms by (simp add: imc_rel_def)
  from Erase_rel [OF this, of k] assms show ?thesis
    by (auto simp: InMemoryCache_Remove_def imc_rel_def om_delete_def)
qed

lemma remove_loop_rel:
  "lru_rel c (xs @ ys) \<Longrightarrow>
    \<exists>c'. remove_loop p flt (hd_key ys None) c = Some c' \<and> same_config c c'
      \<and> lru_rel c' (xs @ filter (\<lambda>e. \<not> (prefix p (fst e) \<and> \<not> flt (fst e))) ys)"
proof (induction ys arbitrary: c xs)
  case Nil
  then show ?case by (subst remove_loop.simps) simp
next
  case (Cons e ys)
  obtain k v where e: "e = (k, v)" by (cases e)
  show ?case
  proof (cases "prefix p k \<and> \<not> flt k")
    case True
    from Erase_it_rel [of c xs k v ys] Cons.prems e obtain c1
      where c1: "Erase_it (Some k) c = Some (c1, hd_key ys None)" "same_config c c1" "lru_rel c1 (xs @ ys)"
      by auto
    from Cons.IH [OF c1(3)] c1 True e show ?thesis
      by (subst remove_loop.simps) (auto simp: IsPrefix_def dest: same_config_trans [OF c1(2)])
  next
    case False
    from Cons.prems e have "lru_rel c ((xs @ [(k, v)]) @ ys)" by simp
    from Cons.IH [OF this] it_next_rel [of c xs k v ys] Cons.prems e False show ?thesis
      by (subst remove_loop.simps) (auto simp: IsPrefix_def)
  qed
qed

lemma RemoveKeysWithPrefix_rel:
  assumes "imc_rel s l"
  shows "\<exists>s'. RemoveKeysWithPrefix p flt s = Some s'
    \<and> imc_rel s' (filter (\<lambda>e. \<not> (prefix p (fst e) \<and> \<not> flt (fst e))) l)"
proof -
  have r: "lru_rel (item_tuples s) ([] @ l)" using assms by (simp add: imc_rel_def)
  then have "lru_first (item_tuples s) = hd_key l None" by (simp add: lru_rel_def)
  with remove_loop_rel [OF r, of p flt] assms show ?thesis
    by (auto simp: RemoveKeysWithPrefix_def imc_rel_def)
qed

lemma imc_spec_mono: "m \<subseteq>\<^sub>m m' \<Longrightarrow> imc_spec op m \<subseteq>\<^sub>m imc_spec op m'"
  by (cases op) (auto simp: map_le_def dom_def split: if_splits)

lemma imc_step_rel:
  assumes r: "imc_rel s l" and "times_ok op"
  shows "\<exists>s' l'. imc_step op s = Some s' \<and> imc_rel s' l' \<and> map_of l' \<subseteq>\<^sub>m imc_spec op (map_of l)"
proof (cases op)
  case (IPut k v e sz now now')
  with assms Put_rel [OF r, of k v e sz now now'] show ?thesis by fastforce
next
  case (IGet k now)
  with Get_rel [OF r, of k now] show ?thesis by auto
next
  case (IRemove k)
  from Remove_rel [OF r, of k] obtain s'
    where "InMemoryCache_Remove k s = Some (s', map_of l k \<noteq> None)" "imc_rel s' (om_delete k l)" by blast
  with IRemove show ?thesis by (intro exI [of _ s'] exI [of _ "om_delete k l"]) simp
next
  case (IRemovePrefix p flt)
  have "map_of (filter (\<lambda>e. \<not> (prefix p (fst e) \<and> \<not> flt (fst e))) l) =
      (\<lambda>k. if prefix p k \<and> \<not> flt k then None else map_of l k)"
    by (rule ext, subst map_of_filter_fst) auto
  with IRemovePrefix RemoveKeysWithPrefix_rel [OF r, of p flt] show ?thesis by fastforce
next
  case IClear
  then show ?thesis using imc_rel_Clear by fastforce
qed

lemma imc_run_rel:
  "imc_rel s l \<Longrightarrow> map_of l \<subseteq>\<^sub>m m \<Longrightarrow> \<forall>op \<in> set ops. times_ok op \<Longrightarrow>
    \<exists>s' l'. imc_run ops s = Some s' \<and> imc_rel s' l' \<and> map_of l' \<subseteq>\<^sub>m fold imc_spec ops m"
proof (induction ops arbitrary: s l m)
  case (Cons op ops)
  then have "times_ok op" by simp
  from imc_step_rel [OF Cons.prems(1) this] obtain s1 l1
    where s1: "imc_step op s = Some s1" "imc_rel s1 l1" "map_of l1 \<subseteq>\<^sub>m imc_spec op (map_of l)" by blast
  have "map_of l1 \<subseteq>\<^sub>m imc_spec op m"
    using s1(3) imc_spec_mono [OF Cons.prems(2)] by (rule map_le_trans)
  from Cons.IH [OF s1(2) this] Cons.prems s1(1) show ?case by simp
qed auto

section \<open>Properties\<close>

text \<open>\<open>Get\<close> is sound and total: after any history of operations whose expiry times do not
  overflow, \<open>Get\<close> returns nothing, or the value the key was last given by \<open>Put\<close> (and not
  removed since), and then that value has not expired at the time of the call.\<close>

lemma imc_get_sound:
  assumes "\<forall>op \<in> set ops. times_ok op"
  shows "\<exists>s s' r. imc_run ops (InMemoryCache_new mx f) = Some s \<and> InMemoryCache_Get k now s = Some (s', r)
    \<and> (r = None \<or> (\<exists>t. fold imc_spec ops Map.empty k = Some t \<and> r = tuple_item t \<and> now \<le> tuple_expiry t))"
proof -
  have "map_of ([] :: (string \<times> 'a item_tuple) list) \<subseteq>\<^sub>m Map.empty" by simp
  from imc_run_rel [OF imc_rel_new this assms] obtain s l
    where s: "imc_run ops (InMemoryCache_new mx f) = Some s" "imc_rel s l"
      "map_of l \<subseteq>\<^sub>m fold imc_spec ops Map.empty" by blast
  from s(3) have "map_of l k = Some t \<Longrightarrow> fold imc_spec ops Map.empty k = Some t" for t
    by (metis domI map_le_def)
  with s(1) Get_rel [OF s(2), of k now] show ?thesis
    by (auto split: option.splits if_splits)
qed

lemma imc_get_sound_witness:
  "\<exists>s s' r. imc_run [IPut ''k'' (Some ''v'') 10 1 0 0, IRemove ''j''] (InMemoryCache_new 5 DefaultCacheCost) = Some s
    \<and> InMemoryCache_Get ''k'' 10 s = Some (s', r)
    \<and> (r = None \<or> r = Some ''v'')"
proof -
  let ?ops = "[IPut ''k'' (Some ''v'') 10 1 0 0, IRemove ''j''] :: string imc_op list"
  have "\<forall>op \<in> set ?ops. times_ok op" by (simp add: time_max_def)
  from imc_get_sound [OF this, of 5 DefaultCacheCost "''k''" 10] show ?thesis
    by (auto simp: HasExpiry_def kExpiryMax_def time_max_def the_tuple_def)
qed

text \<open>\<open>RemoveKeysWithPrefix\<close> visits every entry although it erases while iterating: exactly
  the entries with the prefix that the filter does not protect are gone, and the others keep
  their order.\<close>

lemma remove_prefix_exact:
  assumes "imc_rel s l"
  shows "\<exists>s'. RemoveKeysWithPrefix p flt s = Some s' \<and> item_expiries s' = item_expiries s
    \<and> iterate (lru_first (item_tuples s')) (item_tuples s')
        = Some (filter (\<lambda>e. \<not> (prefix p (fst e) \<and> \<not> flt (fst e))) l)"
proof -
  from RemoveKeysWithPrefix_rel [OF assms, of p flt] obtain s'
    where s': "RemoveKeysWithPrefix p flt s = Some s'"
      "imc_rel s' (filter (\<lambda>e. \<not> (prefix p (fst e) \<and> \<not> flt (fst e))) l)" by blast
  moreover from s'(1) have "item_expiries s' = item_expiries s"
    by (auto simp: RemoveKeysWithPrefix_def split: bind_splits)
  ultimately show ?thesis using iterate_rel(1) by (auto simp: imc_rel_def)
qed

lemma remove_prefix_exact_witness:
  "\<exists>s l s'. imc_run [IPut ''ka'' (Some True) 10 1 0 0, IPut ''b'' None 10 1 0 0] (InMemoryCache_new 5 DefaultCacheCost) = Some s
     \<and> RemoveKeysWithPrefix ''k'' (\<lambda>_. False) s = Some s'
     \<and> iterate (lru_first (item_tuples s')) (item_tuples s') = Some (filter (\<lambda>e. \<not> prefix ''k'' (fst e)) l)"
proof -
  let ?ops = "[IPut ''ka'' (Some True) 10 1 0 0, IPut ''b'' None 10 1 0 0]"
  have "\<forall>op \<in> set ?ops. times_ok op" by (simp add: time_max_def)
  with imc_run_rel [of "InMemoryCache_new 5 DefaultCacheCost" "[]" Map.empty ?ops] obtain s l
    where "imc_run ?ops (InMemoryCache_new 5 DefaultCacheCost) = Some s" "imc_rel s l" by auto
  with remove_prefix_exact [of s l "''k''" "\<lambda>_. False"] show ?thesis by auto
qed

text \<open>A purge at time \<open>now\<close> removes every registered item whose time is before \<open>now\<close> and
  all such times from the registry; items whose key is not registered under such a time stay.\<close>

lemma purge_removes_expired:
  assumes "imc_rel s l"
  shows "\<exists>s' r. PurgeExpired now s = Some (s', r)
    \<and> (\<forall>e. map_of (item_expiries s') e = (if e < now then None else map_of (item_expiries s) e))
    \<and> iterate (lru_first (item_tuples s')) (item_tuples s')
        = Some (filter (\<lambda>p. fst p \<notin> registered (\<lambda>e. e < now) s) l)"
  using PurgeExpired_rel [OF assms, of now] iterate_rel(1) unfolding imc_rel_def by fastforce

lemma purge_removes_expired_witness:
  "\<exists>s s' r. imc_run [IPut ''k'' (Some True) 10 1 0 0] (InMemoryCache_new 5 DefaultCacheCost) = Some s
     \<and> PurgeExpired 11 s = Some (s', r)"
proof -
  let ?ops = "[IPut ''k'' (Some True) 10 1 0 0]"
  have "\<forall>op \<in> set ?ops. times_ok op" by (simp add: time_max_def)
  with imc_run_rel [of "InMemoryCache_new 5 DefaultCacheCost" "[]" Map.empty ?ops] obtain s l
    where "imc_run ?ops (InMemoryCache_new 5 DefaultCacheCost) = Some s" "imc_rel s l" by auto
  with purge_removes_expired [of s l 11] show ?thesis by blast
qed

text \<open>Evicting an item leaves its registration behind: \<open>OnEviction\<close> edits a copy of the
  registered vector, so on every registry without empty vectors it changes nothing.\<close>

lemma eviction_keeps_registration:
  assumes "om_ok (item_expiries s)" and "[] \<notin> snd ` set (item_expiries s)"
  shows "OnEviction k v s = s"
  using assms by (rule OnEviction_noop)

lemma eviction_keeps_registration_witness:
  "OnEviction ''k'' \<lparr>tuple_key = ''k'', tuple_expiry = 7, tuple_item = Some True, tuple_size = 1\<rparr>
     \<lparr>item_tuples = LruCache_new 5 DefaultCacheCost,
      item_expiries = [(7, [\<lparr>tuple_key = ''k'', tuple_expiry = 7, tuple_item = Some True, tuple_size = 1\<rparr>])]\<rparr>
   = \<lparr>item_tuples = LruCache_new 5 DefaultCacheCost,
      item_expiries = [(7, [\<lparr>tuple_key = ''k'', tuple_expiry = 7, tuple_item = Some True, tuple_size = 1\<rparr>])]\<rparr>"
  by (rule eviction_keeps_registration) (simp_all add: om_ok_def)

text \<open>A stale registration deletes a later value early: a key is put with an expiry of ten
  seconds, removed and put again without expiry; a \<open>Put\<close> of another key eleven seconds after
  the first one then drops it, although it never expires.\<close>

lemma stale_registration_drops_value:
  "(let ops = [IPut ''k'' (Some 1) 10 1 0 0, IRemove ''k'', IPut ''k'' (Some 2) kExpiryMax 1 5 5,
        IPut ''j'' (Some (3 :: nat)) kExpiryMax 1 11 11] in
    map_option snd (imc_run ops (InMemoryCache_new 100 DefaultCacheCost) \<bind> InMemoryCache_Get ''k'' 11) = Some None
    \<and> fold imc_spec ops Map.empty ''k'' = Some (the_tuple ''k'' (Some 2) kExpiryMax 1 5))"
  by code_simp

text \<open>At the very second of its expiry an item can still be read while \<open>Contains\<close> already
  denies it.\<close>

lemma contains_get_disagree:
  assumes r: "imc_rel s l" and t: "map_of l k = Some t" and now: "tuple_expiry t = now"
    and some: "tuple_item t = Some v"
  shows "InMemoryCache_Contains k now s = Some False
    \<and> (\<exists>s'. InMemoryCache_Get k now s = Some (s', Some v))"
proof -
  have "lru_rel (item_tuples s) l" using r by (simp add: imc_rel_def)
  with t now have "InMemoryCache_Contains k now s = Some False" by (simp add: InMemoryCache_Contains_def)
  moreover from Get_rel [OF r, of k now] t now some have "\<exists>s'. InMemoryCache_Get k now s = Some (s', Some v)"
    by auto
  ultimately show ?thesis ..
qed

lemma contains_get_disagree_witness:
  "\<exists>s :: bool in_memory_cache. InMemoryCache_Contains ''k'' 7 s = Some False
     \<and> (\<exists>s'. InMemoryCache_Get ''k'' 7 s = Some (s', Some True))"
proof -
  let ?t = "\<lparr>tuple_key = ''k'', tuple_expiry = 7, tuple_item = Some True, tuple_size = 1\<rparr>"
  let ?s = "\<lparr>item_tuples = \<lparr>eviction_callback = True, cache_cost_func = DefaultCacheCost,
      lru_map = [(''k'', \<lparr>bnext = None, bprevious = None, bvalue = ?t\<rparr>)], lru_first = Some ''k'',
      lru_last = Some ''k'', lru_max_size = 5, lru_size = 1\<rparr>, item_expiries = [(7, [?t])]\<rparr>"
  have "imc_rel ?s [(''k'', ?t)]"
    by (simp add: imc_rel_def lru_rel_def om_ok_def DefaultCacheCost_def)
  from contains_get_disagree [OF this, of "''k''" ?t 7 True] show ?thesis by auto
qed

end
