(* ===== verification/ProtectedKeyList.thy ===== *)
theory ProtectedKeyList
  imports Prelude
begin

text \<open>
  \<open>olp::cache::ProtectedKeyList\<close> (src/cache/ProtectedKeyList.h and .cpp): the keys and key
  prefixes that the cache must not evict, in a \<open>std::set\<close> whose comparator treats a string and
  its prefix as equivalent. The set is the list of its elements in iteration order, an iterator
  is the element it points to (\<open>None\<close> is the end). Strings are compared bytewise as unsigned
  characters, as \<open>std::string\<close> does.

  The comparator is not an ordering of all strings. The theory shows that it is one on the sets
  that occur, where no element is a prefix of another (\<open>pk_ok\<close>), that every operation keeps
  this, and that the list of stored prefixes then answers \<open>IsProtected\<close> exactly.
\<close>

section \<open>Model\<close>

record protected_key_list =
  protected_data :: "string list"
  size_written :: u64
  dirty :: bool

definition ProtectedKeyList_new :: protected_key_list where
  "ProtectedKeyList_new = \<lparr>protected_data = [], size_written = 0, dirty = False\<rparr>"

definition CustomCompare :: "string \<Rightarrow> string \<Rightarrow> bool" where
  "CustomCompare lhs rhs =
     (if length rhs < length lhs \<and> starts_with rhs lhs then False
      else if length lhs < length rhs \<and> starts_with lhs rhs then False
      else lhs < rhs)"

definition IsPrefix :: "string \<Rightarrow> string \<Rightarrow> bool" where
  "IsPrefix pre key \<longleftrightarrow> length pre < length key \<and> starts_with pre key"

definition IsEqualOrPrefix :: "string \<Rightarrow> string \<Rightarrow> bool" where
  "IsEqualOrPrefix pre key \<longleftrightarrow> length pre \<le> length key \<and> starts_with pre key"

text \<open>\<open>std::set\<close>: the elements before and from \<open>lower_bound\<close>, and insertion, which returns the
  iterator to the new or to the equivalent element.\<close>

definition before_bound :: "string \<Rightarrow> string list \<Rightarrow> string list" where
  "before_bound key d = takeWhile (\<lambda>e. CustomCompare e key) d"

definition lower_bound :: "string \<Rightarrow> string list \<Rightarrow> string list" where
  "lower_bound key d = dropWhile (\<lambda>e. CustomCompare e key) d"

definition set_insert :: "string \<Rightarrow> string list \<Rightarrow> string list \<times> string option" where
  "set_insert key d =
     (case find (\<lambda>e. \<not> CustomCompare e key \<and> \<not> CustomCompare key e) d of
        Some e \<Rightarrow> (d, Some e)
      | None \<Rightarrow> (before_bound key d @ key # lower_bound key d, Some key))"

fun iter :: "string list \<Rightarrow> string option" where
  "iter [] = None"
| "iter (e # d) = Some e"

text \<open>\<open>Protect\<close>: the loop over the keys; the third component lists the calls of
  \<open>change_key_to_protected\<close>.\<close>

fun Protect ::
  "string list \<Rightarrow> protected_key_list \<Rightarrow> protected_key_list \<times> bool \<times> string list" where
  "Protect [] s = (s, False, [])"
| "Protect (key # keys) s =
     (let before = before_bound key (protected_data s);
          hint = lower_bound key (protected_data s) in
      if (case hint of [] \<Rightarrow> False | h # _ \<Rightarrow> IsPrefix h key) then Protect keys s
      else
        (let hint = dropWhile (IsPrefix key) hint;
             (d, res) = set_insert key (before @ hint) in
         if res \<noteq> iter hint then
           (let (s', _, calls) = Protect keys (s\<lparr>protected_data := d, dirty := True\<rparr>) in
            (s', True, key # calls))
         else Protect keys (s\<lparr>protected_data := d\<rparr>)))"

fun Release_loop :: "string list \<Rightarrow> bool \<Rightarrow> protected_key_list \<Rightarrow> protected_key_list \<times> bool" where
  "Release_loop [] result s = (s, result)"
| "Release_loop (key # keys) result s =
     (let before = before_bound key (protected_data s);
          hint = lower_bound key (protected_data s) in
      if (case hint of [] \<Rightarrow> False | h # _ \<Rightarrow> IsPrefix h key) then (s, False)
      else
        (let erased = takeWhile (IsEqualOrPrefix key) hint in
         if erased = [] then Release_loop keys result s
         else Release_loop keys True
                (s\<lparr>protected_data := before @ dropWhile (IsEqualOrPrefix key) hint, dirty := True\<rparr>)))"

definition Release :: "string list \<Rightarrow> protected_key_list \<Rightarrow> protected_key_list \<times> bool" where
  "Release keys s = Release_loop keys False s"

definition IsProtected :: "string \<Rightarrow> protected_key_list \<Rightarrow> bool" where
  "IsProtected key s =
     (if protected_data s = [] then False
      else case lower_bound key (protected_data s) of
        [] \<Rightarrow> False
      | it # _ \<Rightarrow> if length key < length it then False else IsEqualOrPrefix it key)"

text \<open>\<open>std::getline(stream, str, '\0')\<close> until the stream fails.\<close>

abbreviation nul :: char where
  "nul \<equiv> char_of (0 :: nat)"

function getlines :: "string \<Rightarrow> string list" where
  "getlines [] = []"
| "getlines (c # cs) =
     takeWhile (\<lambda>x. x \<noteq> nul) (c # cs) # getlines (drop 1 (dropWhile (\<lambda>x. x \<noteq> nul) (c # cs)))"
  by pat_completeness auto
termination
proof (relation "measure length")
  fix c :: char and cs
  have "length (dropWhile (\<lambda>x. x \<noteq> nul) (c # cs)) \<le> length (c # cs)" by (rule length_dropWhile_le)
  then show "(drop 1 (dropWhile (\<lambda>x. x \<noteq> nul) (c # cs)), c # cs) \<in> measure length" by simp
qed simp

definition Deserialize :: "string option \<Rightarrow> protected_key_list \<Rightarrow> protected_key_list \<times> bool" where
  "Deserialize value s =
     (case value of
        None \<Rightarrow> (s, False)
      | Some bytes \<Rightarrow>
          (s\<lparr>protected_data := fold (\<lambda>str d. fst (set_insert str d)) (getlines bytes) (protected_data s),
             dirty := False, size_written := of_nat (length bytes)\<rparr>, True))"

text \<open>\<open>Serialize\<close>: the size is summed in an \<open>int\<close>, which wraps at 32 bits; \<open>key.back()\<close> of an
  empty key is undefined (\<open>None\<close>).\<close>

fun write_keys :: "string list \<Rightarrow> string option" where
  "write_keys [] = Some []"
| "write_keys (key # keys) =
     (if key = [] then None
      else map_option (\<lambda>rest. key @ (if last key \<noteq> nul then [nul] else []) @ rest) (write_keys keys))"

definition Serialize :: "protected_key_list \<Rightarrow> (protected_key_list \<times> string) option" where
  "Serialize s = do {
     let sz = sum_list (map (\<lambda>key. of_nat (length key + 1) :: u32) (protected_data s));
     value \<leftarrow> (if 0 < sint sz then write_keys (protected_data s) else Some []);
     Some (s\<lparr>dirty := False, size_written := of_nat (length value)\<rparr>, value) }"

section \<open>The comparator on prefix-free sets\<close>

lemma prefix_length_eq: "prefix a b \<Longrightarrow> length a = length b \<Longrightarrow> a = b"
  by (auto simp: prefix_def)

lemma strict_prefix_length: "prefix a b \<and> length a < length b \<longleftrightarrow> strict_prefix a b"
  by (auto simp: strict_prefix_def dest: prefix_length_eq prefix_length_le le_neq_implies_less)

lemma CustomCompare_iff: "CustomCompare l r \<longleftrightarrow> l < r \<and> \<not> prefix l r"
proof (cases "prefix l r \<or> prefix r l")
  case True
  then show ?thesis
    using prefix_le [of r l] prefix_length_eq [of l r]
    by (auto simp: CustomCompare_def not_less dest: prefix_length_le order.antisym)
next
  case False
  then show ?thesis by (auto simp: CustomCompare_def)
qed

definition pk_ok :: "string list \<Rightarrow> bool" where
  "pk_ok d \<longleftrightarrow> sorted_wrt CustomCompare d"

lemma pk_ok_Nil [simp]: "pk_ok []"
  by (simp add: pk_ok_def)

lemma pk_ok_Cons: "pk_ok (e # d) \<longleftrightarrow> (\<forall>x \<in> set d. CustomCompare e x) \<and> pk_ok d"
  by (simp add: pk_ok_def)

lemma pk_ok_append:
  "pk_ok (d @ d') \<longleftrightarrow> pk_ok d \<and> pk_ok d' \<and> (\<forall>x \<in> set d. \<forall>y \<in> set d'. CustomCompare x y)"
  by (auto simp: pk_ok_def sorted_wrt_append)

lemma pk_ok_filter: "pk_ok d \<Longrightarrow> pk_ok (filter P d)"
  by (simp add: pk_ok_def sorted_wrt_filter)

lemma bound_split: "before_bound key d @ lower_bound key d = d"
  by (simp add: before_bound_def lower_bound_def)

lemma before_bound_less: "e \<in> set (before_bound key d) \<Longrightarrow> CustomCompare e key"
  by (auto simp: before_bound_def dest: set_takeWhileD)

text \<open>The comparator partitions a prefix-free set: nothing from the bound on is below the key.\<close>

lemma partitioned:
  assumes "CustomCompare a b" and "CustomCompare b key"
  shows "CustomCompare a key"
proof -
  from assms have lt: "a < b" "b < key" and np: "\<not> prefix a b" by (simp_all add: CustomCompare_iff)
  have "\<not> prefix a key" using prefix_between [of a key b] lt np less_imp_le by blast
  with lt show ?thesis by (auto simp: CustomCompare_iff)
qed

lemma lower_bound_not_less: "pk_ok d \<Longrightarrow> e \<in> set (lower_bound key d) \<Longrightarrow> \<not> CustomCompare e key"
  by (induction d) (auto simp: lower_bound_def pk_ok_Cons split: if_splits dest: partitioned)

lemma pk_ok_bounds: "pk_ok d \<Longrightarrow> pk_ok (before_bound key d) \<and> pk_ok (lower_bound key d)"
  using pk_ok_append [of "before_bound key d" "lower_bound key d"] by (simp add: bound_split)

text \<open>A stored prefix of the key is the element at the bound.\<close>

lemma prefix_at_bound:
  assumes "pk_ok d" and "p \<in> set d" and "prefix p key"
  shows "\<exists>rest. lower_bound key d = p # rest"
proof -
  have "\<not> CustomCompare p key" using assms(3) by (simp add: CustomCompare_iff)
  then have "p \<notin> set (before_bound key d)" using before_bound_less by blast
  with assms(2) bound_split [of key d] have p: "p \<in> set (lower_bound key d)" by (metis Un_iff set_append)
  then obtain h rest where l: "lower_bound key d = h # rest" by (cases "lower_bound key d") auto
  have "h = p"
  proof (rule ccontr)
    assume "h \<noteq> p"
    with p l pk_ok_bounds [OF assms(1), of key] have hp: "CustomCompare h p" by (auto simp: pk_ok_Cons)
    have "\<not> CustomCompare h key" using lower_bound_not_less [OF assms(1), of h key] l by simp
    moreover have "h < key" using hp prefix_le [OF assms(3)] by (auto simp: CustomCompare_iff)
    ultimately have "prefix h key" by (auto simp: CustomCompare_iff)
    with assms(3) have "prefix h p \<or> prefix p h" using prefix_same_cases by blast
    with hp show False using prefix_le [of p h] by (auto simp: CustomCompare_iff)
  qed
  with l show ?thesis by blast
qed

lemma IsPrefix_iff [simp]: "IsPrefix h key \<longleftrightarrow> strict_prefix h key"
  using strict_prefix_length [of h key] by (auto simp: IsPrefix_def)

lemma IsEqualOrPrefix_iff [simp]: "IsEqualOrPrefix h key \<longleftrightarrow> prefix h key"
  by (auto simp: IsEqualOrPrefix_def prefix_length_le)

lemma hint_prefix_iff:
  assumes "pk_ok d"
  shows "(case lower_bound key d of [] \<Rightarrow> False | h # _ \<Rightarrow> IsPrefix h key)
    \<longleftrightarrow> (\<exists>p \<in> set d. strict_prefix p key)"
proof
  assume "case lower_bound key d of [] \<Rightarrow> False | h # _ \<Rightarrow> IsPrefix h key"
  then obtain h rest where "lower_bound key d = h # rest" "strict_prefix h key"
    by (auto split: list.splits)
  moreover from this have "h \<in> set d" using bound_split [of key d] by (metis in_set_conv_decomp)
  ultimately show "\<exists>p \<in> set d. strict_prefix p key" by blast
next
  assume "\<exists>p \<in> set d. strict_prefix p key"
  then obtain p where p: "p \<in> set d" "strict_prefix p key" by blast
  from p(2) have "prefix p key" by (rule prefix_order.less_imp_le)
  from prefix_at_bound [OF assms p(1) this] p(2)
  show "case lower_bound key d of [] \<Rightarrow> False | h # _ \<Rightarrow> IsPrefix h key" by auto
qed

text \<open>The elements that extend the key are a run that starts at the bound.\<close>

lemma drop_extensions:
  assumes "pk_ok r" and "\<forall>e \<in> set r. \<not> CustomCompare e key"
  shows "dropWhile (prefix key) r = filter (\<lambda>e. \<not> prefix key e) r"
  using assms
proof (induction r)
  case (Cons h r)
  show ?case
  proof (cases "prefix key h")
    case False
    have "\<not> prefix key e" if "e \<in> set r" for e
    proof
      assume e: "prefix key e"
      from Cons.prems that have he: "h < e" "\<not> prefix h e" by (auto simp: pk_ok_Cons CustomCompare_iff)
      show False
      proof (cases "h < key")
        case True
        with Cons.prems(2) have "prefix h key" by (simp add: CustomCompare_iff)
        with e he show False by (meson prefix_order.trans)
      next
        case False
        with e he prefix_between [of key e h] \<open>\<not> prefix key h\<close> show False
          by (simp add: not_less less_imp_le)
      qed
    qed
    with False show ?thesis by (simp add: filter_True)
  qed (use Cons in \<open>auto simp: pk_ok_Cons\<close>)
qed simp

lemma related_iff:
  "\<not> CustomCompare e key \<and> \<not> CustomCompare key e \<longleftrightarrow> prefix e key \<or> prefix key e"
  using prefix_le [of e key] prefix_le [of key e]
  by (auto simp: CustomCompare_iff not_less dest: order.antisym)

lemma set_insert_ok:
  assumes "pk_ok d"
  shows "pk_ok (fst (set_insert key d))"
    and "(\<exists>e \<in> set d. prefix e key \<or> prefix key e) \<Longrightarrow>
      \<exists>e. set_insert key d = (d, Some e) \<and> e \<in> set d \<and> (prefix e key \<or> prefix key e)"
    and "\<not> (\<exists>e \<in> set d. prefix e key \<or> prefix key e) \<Longrightarrow>
      set (fst (set_insert key d)) = insert key (set d) \<and> snd (set_insert key d) = Some key"
proof -
  let ?rel = "\<lambda>e. \<not> CustomCompare e key \<and> \<not> CustomCompare key e"
  have none: "set_insert key d = (before_bound key d @ key # lower_bound key d, Some key)"
    if "find ?rel d = None"
    using that by (simp add: set_insert_def)
  have gt: "CustomCompare key e" if "find ?rel d = None" "e \<in> set (lower_bound key d)" for e
  proof -
    have "e \<in> set d" using that(2) bound_split [of key d] by (metis Un_iff set_append)
    with that lower_bound_not_less [OF assms that(2)] show ?thesis by (auto simp: find_None_iff)
  qed
  show "pk_ok (fst (set_insert key d))"
  proof (cases "find ?rel d")
    case None
    have "pk_ok (before_bound key d @ key # lower_bound key d)"
      using gt [OF None] assms pk_ok_append [of "before_bound key d" "lower_bound key d"]
      by (auto simp: pk_ok_append pk_ok_Cons bound_split dest: before_bound_less)
    with none [OF None] show ?thesis by simp
  next
    case (Some e)
    with assms show ?thesis by (simp add: set_insert_def)
  qed
  show "\<exists>e. set_insert key d = (d, Some e) \<and> e \<in> set d \<and> (prefix e key \<or> prefix key e)"
    if "\<exists>e \<in> set d. prefix e key \<or> prefix key e"
  proof -
    from that have "find ?rel d \<noteq> None" by (auto simp: find_None_iff related_iff)
    then obtain e where e: "find ?rel d = Some e" by blast
    then have "e \<in> set d" "?rel e" by (auto simp: find_Some_iff)
    with e related_iff [of e key] show ?thesis by (simp add: set_insert_def)
  qed
  show "set (fst (set_insert key d)) = insert key (set d) \<and> snd (set_insert key d) = Some key"
    if "\<not> (\<exists>e \<in> set d. prefix e key \<or> prefix key e)"
  proof -
    from that have "find ?rel d = None" by (auto simp: find_None_iff related_iff)
    from none [OF this] have e: "set_insert key d = (before_bound key d @ key # lower_bound key d, Some key)" .
    have "set (before_bound key d) \<union> set (lower_bound key d) = set d"
      using bound_split [of key d] by (metis set_append)
    with e show ?thesis by auto
  qed
qed

section \<open>Protecting and releasing\<close>

text \<open>The effect of protecting and of releasing one key on the set of stored prefixes.\<close>

definition protect_key :: "string \<Rightarrow> string set \<Rightarrow> string set" where
  "protect_key key P =
     (if \<exists>p \<in> P. prefix p key then P else insert key {p \<in> P. \<not> prefix key p})"

definition covered :: "string set \<Rightarrow> string \<Rightarrow> bool" where
  "covered P key \<longleftrightarrow> (\<exists>p \<in> P. prefix p key)"

lemma covered_protect: "covered (protect_key key P) k \<longleftrightarrow> covered P k \<or> prefix key k"
proof (cases "covered P key")
  case True
  then obtain p where p: "p \<in> P" "prefix p key" by (auto simp: covered_def)
  then have "prefix key k \<Longrightarrow> covered P k" unfolding covered_def by (blast intro: prefix_order.trans)
  with True show ?thesis by (auto simp: protect_key_def covered_def)
next
  case False
  then have e: "protect_key key P = insert key {p \<in> P. \<not> prefix key p}"
    by (simp add: protect_key_def covered_def)
  have "prefix key p \<Longrightarrow> prefix p k \<Longrightarrow> prefix key k" for p by (rule prefix_order.trans)
  then show ?thesis unfolding e covered_def by blast
qed

lemma iter_in: "iter d = Some x \<Longrightarrow> x \<in> set d"
  by (cases d) auto

text \<open>One round of \<open>Protect\<close> for a key without a stored proper prefix: the data after it, and
  whether the key is reported, first for a stored and then for a new key.\<close>

definition protect_round_ok :: "string \<Rightarrow> string list \<Rightarrow> bool" where
  "protect_round_ok key d \<longleftrightarrow>
     (let hint = dropWhile (IsPrefix key) (lower_bound key d);
          (d', res) = set_insert key (before_bound key d @ hint) in
      pk_ok d' \<and> set d' = protect_key key (set d) \<and> (res \<noteq> iter hint \<longleftrightarrow> \<not> covered (set d) key))"

lemma IsPrefix_fun: "IsPrefix key = strict_prefix key"
  by (rule ext) simp

lemma bound_set: "set d = set (before_bound key d) \<union> set (lower_bound key d)"
  using bound_split [of key d] by (metis set_append)

lemma before_not_extension: "x \<in> set (before_bound key d) \<Longrightarrow> \<not> prefix key x"
  using before_bound_less [of x key d] prefix_le [of key x] by (auto simp: CustomCompare_iff)

lemma protect_stored:
  assumes ok: "pk_ok d" and nh: "\<not> (\<exists>p \<in> set d. strict_prefix p key)" and key: "key \<in> set d"
  shows "protect_round_ok key d"
proof -
  let ?r = "lower_bound key d"
  from prefix_at_bound [OF ok key, of key] obtain rest where r: "?r = key # rest" by auto
  then have dw: "dropWhile (IsPrefix key) ?r = ?r" by (simp add: IsPrefix_fun)
  from set_insert_ok(2) [OF ok, of key] key obtain x
    where x: "set_insert key d = (d, Some x)" "x \<in> set d" "prefix x key \<or> prefix key x" by blast
  have "x = key"
  proof (rule ccontr)
    assume "x \<noteq> key"
    with x nh have kx: "prefix key x" by (auto simp: strict_prefix_def)
    then have "x \<in> set ?r" using x(2) bound_set [of d key] before_not_extension by auto
    with r \<open>x \<noteq> key\<close> pk_ok_bounds [OF ok, of key] have "CustomCompare key x" by (auto simp: pk_ok_Cons)
    with kx show False by (simp add: CustomCompare_iff)
  qed
  with x r key ok show ?thesis
    unfolding protect_round_ok_def Let_def dw bound_split by (auto simp: protect_key_def covered_def)
qed

lemma protect_fresh:
  assumes ok: "pk_ok d" and nh: "\<not> (\<exists>p \<in> set d. strict_prefix p key)" and key: "key \<notin> set d"
  shows "protect_round_ok key d"
proof -
  let ?b = "before_bound key d" and ?r = "lower_bound key d"
  let ?hint = "dropWhile (IsPrefix key) ?r" and ?d = "filter (\<lambda>x. \<not> prefix key x) d"
  have ok_r: "pk_ok ?r" using pk_ok_bounds [OF ok, of key] by simp
  have nl: "\<forall>x \<in> set ?r. \<not> CustomCompare x key" using lower_bound_not_less [OF ok] by blast
  have "?hint = dropWhile (prefix key) ?r"
    using key bound_set [of d key] by (intro dropWhile_cong) (auto simp: strict_prefix_def)
  then have f: "?hint = filter (\<lambda>x. \<not> prefix key x) ?r" using drop_extensions [OF ok_r nl] by simp
  have "filter (\<lambda>x. \<not> prefix key x) ?b = ?b" by (rule filter_True) (blast dest: before_not_extension)
  with f have d': "?b @ ?hint = ?d" by (metis bound_split filter_append)
  have ok': "pk_ok ?d" using ok by (rule pk_ok_filter)
  have nc: "\<not> prefix p key" if "p \<in> set d" for p using that key nh by (auto simp: strict_prefix_def)
  then have "\<not> (\<exists>x \<in> set ?d. prefix x key \<or> prefix key x)" by simp
  from set_insert_ok(3) [OF ok' this] have ins: "set (fst (set_insert key ?d)) = insert key (set ?d)"
    "snd (set_insert key ?d) = Some key" by blast+
  have "key \<notin> set ?hint" using f by simp
  then have "iter ?hint \<noteq> Some key" using iter_in by metis
  with ins set_insert_ok(1) [OF ok', of key] nc show ?thesis
    unfolding protect_round_ok_def Let_def d'
    by (auto simp: case_prod_beta protect_key_def covered_def)
qed

lemma protect_round:
  "pk_ok d \<Longrightarrow> \<not> (\<exists>p \<in> set d. strict_prefix p key) \<Longrightarrow> protect_round_ok key d"
  using protect_stored protect_fresh by blast

text \<open>The keys that \<open>Protect\<close> reports: those not covered when their turn comes.\<close>

fun reported :: "string list \<Rightarrow> string set \<Rightarrow> string list" where
  "reported [] P = []"
| "reported (key # keys) P =
     (if covered P key then reported keys P else key # reported keys (protect_key key P))"

lemma protect_key_covered: "covered P key \<Longrightarrow> protect_key key P = P"
  by (simp add: protect_key_def covered_def)

lemma Protect_rel:
  "pk_ok (protected_data s) \<Longrightarrow>
    \<exists>s'. Protect keys s = (s', reported keys (set (protected_data s)) \<noteq> [], reported keys (set (protected_data s)))
      \<and> pk_ok (protected_data s')
      \<and> set (protected_data s') = fold protect_key keys (set (protected_data s))
      \<and> dirty s' = (dirty s \<or> reported keys (set (protected_data s)) \<noteq> [])
      \<and> size_written s' = size_written s"
proof (induction keys arbitrary: s)
  case (Cons key keys)
  let ?d = "protected_data s"
  show ?case
  proof (cases "\<exists>p \<in> set ?d. strict_prefix p key")
    case True
    then have c: "covered (set ?d) key" by (auto simp: covered_def strict_prefix_def)
    from Cons.IH [OF Cons.prems] True c hint_prefix_iff [OF Cons.prems, of key] show ?thesis
      by (auto simp: Let_def protect_key_covered simp del: IsPrefix_iff)
  next
    case False
    let ?hint = "dropWhile (IsPrefix key) (lower_bound key ?d)"
    obtain d' res where i: "set_insert key (before_bound key ?d @ ?hint) = (d', res)" by fastforce
    with protect_round [OF Cons.prems False]
    have r: "pk_ok d'" "set d' = protect_key key (set ?d)" "res \<noteq> iter ?hint \<longleftrightarrow> \<not> covered (set ?d) key"
      by (simp_all add: protect_round_ok_def)
    have h: "\<not> (case lower_bound key ?d of [] \<Rightarrow> False | h # _ \<Rightarrow> IsPrefix h key)"
      using False hint_prefix_iff [OF Cons.prems, of key] by blast
    from Cons.IH [of "s\<lparr>protected_data := d', dirty := True\<rparr>"] Cons.IH [of "s\<lparr>protected_data := d'\<rparr>"] r
    show ?thesis using h i
      by (cases "covered (set ?d) key") (auto simp: Let_def protect_key_covered simp del: IsPrefix_iff)
  qed
qed auto

fun release_keys :: "string list \<Rightarrow> bool \<Rightarrow> string set \<Rightarrow> string set \<times> bool" where
  "release_keys [] r P = (P, r)"
| "release_keys (key # keys) r P =
     (if \<exists>p \<in> P. strict_prefix p key then (P, False)
      else release_keys keys (r \<or> (\<exists>p \<in> P. prefix key p)) {p \<in> P. \<not> prefix key p})"

lemma IsEqualOrPrefix_fun: "IsEqualOrPrefix key = prefix key"
  by (rule ext) simp

lemma takeWhile_Nil_iff: "takeWhile P r = [] \<longleftrightarrow> dropWhile P r = r"
  by (metis append_Nil append_self_conv2 takeWhile_dropWhile_id)

lemma release_round:
  assumes ok: "pk_ok d"
  shows "before_bound key d @ dropWhile (IsEqualOrPrefix key) (lower_bound key d)
      = filter (\<lambda>x. \<not> prefix key x) d"
    and "takeWhile (IsEqualOrPrefix key) (lower_bound key d) = [] \<longleftrightarrow> \<not> (\<exists>p \<in> set d. prefix key p)"
proof -
  let ?b = "before_bound key d" and ?r = "lower_bound key d"
  have "\<forall>x \<in> set ?r. \<not> CustomCompare x key" using lower_bound_not_less [OF ok] by blast
  with pk_ok_bounds [OF ok, of key] drop_extensions
  have f: "dropWhile (IsEqualOrPrefix key) ?r = filter (\<lambda>x. \<not> prefix key x) ?r"
    unfolding IsEqualOrPrefix_fun by blast
  have "filter (\<lambda>x. \<not> prefix key x) ?b = ?b" by (rule filter_True) (blast dest: before_not_extension)
  with f show "?b @ dropWhile (IsEqualOrPrefix key) ?r = filter (\<lambda>x. \<not> prefix key x) d"
    by (metis bound_split filter_append)
  have "takeWhile (IsEqualOrPrefix key) ?r = [] \<longleftrightarrow> (\<forall>x \<in> set ?r. \<not> prefix key x)"
    unfolding takeWhile_Nil_iff f by (simp add: filter_id_conv)
  with bound_set [of d key] before_not_extension
  show "takeWhile (IsEqualOrPrefix key) ?r = [] \<longleftrightarrow> \<not> (\<exists>p \<in> set d. prefix key p)" by blast
qed

lemma Release_loop_rel:
  "pk_ok (protected_data s) \<Longrightarrow>
    \<exists>s'. Release_loop keys r s = (s', snd (release_keys keys r (set (protected_data s))))
      \<and> pk_ok (protected_data s')
      \<and> set (protected_data s') = fst (release_keys keys r (set (protected_data s)))"
proof (induction keys arbitrary: r s)
  case (Cons key keys)
  let ?d = "protected_data s" and ?f = "\<lambda>x. \<not> prefix key x"
  show ?case
  proof (cases "\<exists>p \<in> set ?d. strict_prefix p key")
    case True
    with Cons.prems hint_prefix_iff [OF Cons.prems, of key] show ?thesis
      by (auto simp: Let_def simp del: IsPrefix_iff)
  next
    case False
    with hint_prefix_iff [OF Cons.prems, of key]
    have h: "\<not> (case lower_bound key ?d of [] \<Rightarrow> False | h # _ \<Rightarrow> IsPrefix h key)" by blast
    note round = release_round [OF Cons.prems, of key]
    show ?thesis
    proof (cases "\<exists>p \<in> set ?d. prefix key p")
      case True
      with round h have "Release_loop (key # keys) r s
          = Release_loop keys True (s\<lparr>protected_data := filter ?f ?d, dirty := True\<rparr>)"
        by (simp add: Let_def del: IsPrefix_iff IsEqualOrPrefix_iff)
      moreover have "release_keys (key # keys) r (set ?d) = release_keys keys True (set (filter ?f ?d))"
        using True False by simp
      ultimately show ?thesis
        using Cons.IH [of "s\<lparr>protected_data := filter ?f ?d, dirty := True\<rparr>" True] Cons.prems
        by (simp add: pk_ok_filter)
    next
      case none: False
      with round h have "Release_loop (key # keys) r s = Release_loop keys r s"
        by (simp add: Let_def del: IsPrefix_iff IsEqualOrPrefix_iff)
      moreover have "{p \<in> set ?d. ?f p} = set ?d" using none by auto
      then have "release_keys (key # keys) r (set ?d) = release_keys keys r (set ?d)"
        using none False by simp
      ultimately show ?thesis using Cons.IH [OF Cons.prems, of r] by simp
    qed
  qed
qed simp

lemma IsProtected_covered:
  assumes "pk_ok (protected_data s)"
  shows "IsProtected key s \<longleftrightarrow> covered (set (protected_data s)) key"
proof
  let ?d = "protected_data s"
  assume "IsProtected key s"
  then obtain h rest where "lower_bound key ?d = h # rest" "prefix h key"
    by (auto simp: IsProtected_def split: if_splits list.splits)
  with bound_set [of ?d key] show "covered (set ?d) key" by (auto simp: covered_def)
next
  let ?d = "protected_data s"
  assume "covered (set ?d) key"
  then obtain p where p: "p \<in> set ?d" "prefix p key" by (auto simp: covered_def)
  from prefix_at_bound [OF assms p] obtain rest where "lower_bound key ?d = p # rest" by blast
  with p show "IsProtected key s" by (auto simp: IsProtected_def dest: prefix_length_le)
qed

section \<open>Serialization\<close>

definition storable :: "string \<Rightarrow> bool" where
  "storable key \<longleftrightarrow> key \<noteq> [] \<and> nul \<notin> set key"

lemma write_keys_storable:
  "\<forall>key \<in> set d. storable key \<Longrightarrow> write_keys d = Some (concat (map (\<lambda>k. k @ [nul]) d))"
proof (induction d)
  case (Cons key d)
  then have "key \<noteq> []" "last key \<noteq> nul" by (auto simp: storable_def) (metis last_in_set)
  with Cons show ?case by simp
qed simp

lemma getlines_line: "nul \<notin> set k \<Longrightarrow> getlines (k @ nul # rest) = k # getlines rest"
proof -
  assume k: "nul \<notin> set k"
  have t: "takeWhile (\<lambda>x. x \<noteq> nul) (k @ nul # rest) = k"
    and d: "dropWhile (\<lambda>x. x \<noteq> nul) (k @ nul # rest) = nul # rest"
    using k by (induction k) auto
  obtain c cs where "k @ nul # rest = c # cs" by (cases k) auto
  with t d show ?thesis by (metis drop_0 drop_Suc_Cons getlines.simps(2) One_nat_def)
qed

lemma getlines_concat:
  "\<forall>key \<in> set d. storable key \<Longrightarrow> getlines (concat (map (\<lambda>k. k @ [nul]) d)) = d"
  by (induction d) (auto simp: storable_def getlines_line)

lemma set_insert_snoc: "pk_ok (d @ [k]) \<Longrightarrow> fst (set_insert k d) = d @ [k]"
proof -
  assume "pk_ok (d @ [k])"
  then have lt: "CustomCompare e k" if "e \<in> set d" for e using that by (auto simp: pk_ok_append)
  then have "find (\<lambda>e. \<not> CustomCompare e k \<and> \<not> CustomCompare k e) d = None" by (auto simp: find_None_iff)
  moreover have "before_bound k d = d" "lower_bound k d = []"
    using lt by (simp_all add: before_bound_def lower_bound_def)
  ultimately show ?thesis by (simp add: set_insert_def)
qed

lemma fold_set_insert: "pk_ok (acc @ d) \<Longrightarrow> fold (\<lambda>str d. fst (set_insert str d)) d acc = acc @ d"
proof (induction d arbitrary: acc)
  case (Cons k d)
  then have "pk_ok (acc @ [k])" by (auto simp: pk_ok_append pk_ok_Cons)
  with Cons show ?case by (simp add: set_insert_snoc)
qed simp

lemma fold_set_insert_ok: "pk_ok acc \<Longrightarrow> pk_ok (fold (\<lambda>str d. fst (set_insert str d)) d acc)"
  by (induction d arbitrary: acc) (auto simp: set_insert_ok)

definition written_size :: "string list \<Rightarrow> nat" where
  "written_size d = (\<Sum>key\<leftarrow>d. length key + 1)"

lemma word_written_size: "sum_list (map (\<lambda>key. of_nat (length key + 1) :: u32) d) = of_nat (written_size d)"
  by (induction d) (simp_all add: written_size_def)

section \<open>Properties\<close>

text \<open>C30. \<open>Protect\<close> and \<open>IsProtected\<close> implement a set of prefixes: after protecting a list of keys
  a key is protected exactly when it was before or one of the keys is a prefix of it; the
  callback gets the keys that were not protected when their turn came, and the result says
  whether there was any. The stored list stays sorted and free of prefixes of one another.\<close>

theorem protect_exact:
  assumes ok: "pk_ok (protected_data s)"
  shows "\<exists>s' calls. Protect keys s = (s', calls \<noteq> [], calls) \<and> pk_ok (protected_data s')
    \<and> calls = reported keys (set (protected_data s))
    \<and> (\<forall>k. IsProtected k s' \<longleftrightarrow> IsProtected k s \<or> (\<exists>key \<in> set keys. prefix key k))"
proof -
  have *: "covered (fold protect_key keys P) k \<longleftrightarrow> covered P k \<or> (\<exists>key \<in> set keys. prefix key k)" for P k
    by (induction keys arbitrary: P) (auto simp: covered_protect)
  from Protect_rel [OF ok, of keys] * show ?thesis by (auto simp: IsProtected_covered ok)
qed

theorem protect_exact_witness:
  "\<exists>s' calls. Protect [''ab'', ''a'', ''ac''] ProtectedKeyList_new = (s', calls \<noteq> [], calls)
     \<and> (\<forall>k. IsProtected k s' \<longleftrightarrow> IsProtected k ProtectedKeyList_new \<or> (\<exists>key \<in> {''ab'', ''a'', ''ac''}. prefix key k))"
  using protect_exact [of ProtectedKeyList_new "[''ab'', ''a'', ''ac'']"]
  by (auto simp: ProtectedKeyList_new_def)

text \<open>\<open>Release\<close> removes the stored prefixes that extend a released key, and stops with
  \<open>false\<close> at the first key that is covered only by a shorter stored prefix; afterwards a key is
  protected exactly when one of the remaining prefixes covers it.\<close>

lemma release_exact:
  assumes ok: "pk_ok (protected_data s)"
  shows "\<exists>s'. Release keys s = (s', snd (release_keys keys False (set (protected_data s))))
    \<and> pk_ok (protected_data s')
    \<and> (\<forall>k. IsProtected k s' \<longleftrightarrow>
         (\<exists>p \<in> fst (release_keys keys False (set (protected_data s))). prefix p k))"
  using Release_loop_rel [OF ok, of keys False]
  by (auto simp: Release_def IsProtected_covered covered_def)

lemma release_exact_witness:
  "\<exists>s'. Release [''a'', ''bcd''] \<lparr>protected_data = [''ab'', ''ac'', ''bc''], size_written = 0, dirty = False\<rparr> = (s', False)
     \<and> (\<forall>k. IsProtected k s' \<longleftrightarrow> prefix ''bc'' k)"
proof -
  let ?s = "\<lparr>protected_data = [''ab'', ''ac'', ''bc''], size_written = 0, dirty = False\<rparr>"
  have "pk_ok (protected_data ?s)" by (simp add: pk_ok_def) code_simp
  moreover have "{p \<in> {''ab'', ''ac'', ''bc''}. \<not> prefix ''a'' p} = {''bc''}" by auto
  then have "release_keys [''a'', ''bcd''] False {''ab'', ''ac'', ''bc''} = ({''bc''}, False)"
    by (simp add: strict_prefix_def del: Collect_conj_eq)
  ultimately show ?thesis using release_exact [of ?s "[''a'', ''bcd'']"] by auto
qed

text \<open>Round trip through the stored form: with no empty key, no NUL inside a key and fewer
  than \<open>2^31\<close> bytes in total, \<open>Serialize\<close> succeeds, records the number of bytes it wrote, and
  \<open>Deserialize\<close> of these bytes restores the same list of prefixes.\<close>

lemma serialize_roundtrip:
  assumes ok: "pk_ok (protected_data s)" and st: "\<forall>key \<in> set (protected_data s). storable key"
    and small: "written_size (protected_data s) < 2 ^ 31"
  shows "\<exists>s' bytes. Serialize s = Some (s', bytes) \<and> \<not> dirty s'
    \<and> size_written s' = of_nat (written_size (protected_data s))
    \<and> protected_data (fst (Deserialize (Some bytes) ProtectedKeyList_new)) = protected_data s"
proof -
  let ?d = "protected_data s" and ?bytes = "concat (map (\<lambda>k. k @ [nul]) (protected_data s))"
  have len: "length ?bytes = written_size ?d"
    by (simp add: length_concat written_size_def comp_def)
  have w: "(if 0 < sint (sum_list (map (\<lambda>key. of_nat (length key + 1) :: u32) ?d)) then write_keys ?d
            else Some []) = Some ?bytes"
    unfolding word_written_size sint_small [OF small] write_keys_storable [OF st]
    by (auto simp: written_size_def)
  have "protected_data (fst (Deserialize (Some ?bytes) ProtectedKeyList_new)) = ?d"
    using ok by (simp add: Deserialize_def getlines_concat [OF st] ProtectedKeyList_new_def fold_set_insert)
  with w len show ?thesis by (simp add: Serialize_def)
qed

lemma serialize_roundtrip_witness:
  "\<exists>s' bytes. Serialize \<lparr>protected_data = [''ab'', ''c''], size_written = 0, dirty = True\<rparr> = Some (s', bytes)
     \<and> protected_data (fst (Deserialize (Some bytes) ProtectedKeyList_new)) = [''ab'', ''c'']"
proof -
  let ?s = "\<lparr>protected_data = [''ab'', ''c''], size_written = 0, dirty = True\<rparr>"
  have "pk_ok (protected_data ?s)" by (simp add: pk_ok_def) code_simp
  moreover have "\<forall>key \<in> set (protected_data ?s). storable key" by code_simp
  moreover have "written_size (protected_data ?s) < 2 ^ 31" by (simp add: written_size_def)
  ultimately show ?thesis using serialize_roundtrip [of ?s] by auto
qed

end
