(* ===== verification/DiskCache.thy ===== *)
theory DiskCache
  imports Prelude
begin

text \<open>
  \<open>olp::cache::DiskCache\<close> (src/cache/DiskCache.h and .cpp), the layer over the LevelDB library.
  LevelDB is not part of the sources: it is the parameter \<open>L\<close> of the operations, a record of the
  calls the code makes on an open database of type \<open>'db\<close>. \<open>ldb_laws\<close> names what the code relies
  on: an iterator visits the entries in the bytewise order of their keys, a successful write or
  deletion changes the entries as the batch says, a failed one leaves them as they are.

  Opening depends on the file system and on the results of LevelDB's own recovery; these are
  the fields of \<open>open_env\<close>. Log messages and error texts are left out, an error is its code.
\<close>

section \<open>LevelDB\<close>

datatype ldb_status = Ok | LNotFound | Corruption | NotSupported | LInvalidArgument | LIOError

datatype batch_op = BPut string string | BDelete string

record 'db ldb_ops =
  ldb_entries :: "'db \<Rightarrow> (string \<times> string) list"
  ldb_write :: "batch_op list \<Rightarrow> 'db \<Rightarrow> 'db \<times> ldb_status"
  ldb_put :: "string \<Rightarrow> string \<Rightarrow> 'db \<Rightarrow> 'db \<times> ldb_status"
  ldb_delete :: "string \<Rightarrow> 'db \<Rightarrow> 'db \<times> ldb_status"
  ldb_approximate_size :: "'db \<Rightarrow> u64"

fun apply_op :: "batch_op \<Rightarrow> (string, string) omap \<Rightarrow> (string, string) omap" where
  "apply_op (BPut k v) m = om_update k v m"
| "apply_op (BDelete k) m = om_delete k m"

definition apply_batch :: "batch_op list \<Rightarrow> (string, string) omap \<Rightarrow> (string, string) omap" where
  "apply_batch ops m = fold apply_op ops m"

definition ldb_laws :: "'db ldb_ops \<Rightarrow> bool" where
  "ldb_laws L \<longleftrightarrow>
     (\<forall>db. om_ok (ldb_entries L db)) \<and>
     (\<forall>ops db db' st. ldb_write L ops db = (db', st) \<longrightarrow>
        ldb_entries L db' = (if st = Ok then apply_batch ops (ldb_entries L db) else ldb_entries L db)) \<and>
     (\<forall>k v db db' st. ldb_put L k v db = (db', st) \<longrightarrow>
        ldb_entries L db' = (if st = Ok then om_update k v (ldb_entries L db) else ldb_entries L db)) \<and>
     (\<forall>k db db' st. ldb_delete L k db = (db', st) \<longrightarrow>
        ldb_entries L db' = (if st = Ok then om_delete k (ldb_entries L db) else ldb_entries L db))"

text \<open>An iterator is the list of entries from its position on: \<open>Seek\<close> moves it to the first key
  that is not below the target.\<close>

definition Seek :: "string \<Rightarrow> (string \<times> string) list \<Rightarrow> (string \<times> string) list" where
  "Seek target entries = dropWhile (\<lambda>e. fst e < target) entries"

section \<open>Error codes\<close>

datatype ErrorCode =
    Unknown | Cancelled | InvalidArgument | RequestTimeout | InternalFailure | ServiceUnavailable
  | AccessDenied | BadRequest | PreconditionFailed | NotFound | SlowDown | NetworkConnection
  | CacheIO | NoSpaceLeft | Offline | NoContent

definition GetApiError :: "ldb_status \<Rightarrow> ErrorCode" where
  "GetApiError status =
     (let code = Unknown;
          code = (if status = LNotFound then NotFound else code);
          code = (if status = LInvalidArgument then InvalidArgument else code);
          code = (if status = Corruption \<or> status = LIOError then CacheIO else code);
          code = (if status = NotSupported then BadRequest else code) in
      code)"

section \<open>State and opening\<close>

datatype OpenResult = Fail | Corrupted | IOError | Repaired | Success | Postponed

record StorageSettings =
  ss_max_disk_storage :: u64
  ss_enforce_immediate_flush :: bool

record 'db disk_cache =
  disk_cache_path :: string
  database :: "'db option"
  max_size :: u64
  check_crc :: bool
  enforce_immediate_flush :: bool
  size_limited :: bool
  error :: "ErrorCode option"

definition kSizeMax :: u64 where
  "kSizeMax = - 1"

definition DiskCache_new :: "'db disk_cache" where
  "DiskCache_new =
     \<lparr>disk_cache_path = [], database = None, max_size = kSizeMax, check_crc = False,
      enforce_immediate_flush = False, size_limited = False, error = None\<rparr>"

definition DiskCache_Close :: "'db disk_cache \<Rightarrow> 'db disk_cache" where
  "DiskCache_Close c = c\<lparr>database := None\<rparr>"

text \<open>\<open>Clear\<close> closes the database and removes its directory; the argument is the result of the
  removal.\<close>

definition DiskCache_Clear :: "bool \<Rightarrow> 'db disk_cache \<Rightarrow> 'db disk_cache \<times> bool" where
  "DiskCache_Clear removed c =
     (let c = DiskCache_Close c in
      if disk_cache_path c \<noteq> [] then (c, removed) else (c, True))"

text \<open>What the file system and LevelDB answer while a cache is opened: the results of the
  successive \<open>DB::Open\<close> calls, of the creation of an empty database, of \<open>RepairDB\<close> and
  \<open>DestroyDB\<close>, and whether level 0 holds fewer than four files.\<close>

record 'db open_env =
  dir_exists :: bool
  dir_created :: bool
  unexpected_dirs :: bool
  first_open :: "'db + ldb_status"
  init_status :: ldb_status
  second_open :: "'db + ldb_status"
  repair_status :: ldb_status
  destroy_status :: ldb_status
  repaired_open :: "'db + ldb_status"
  compaction_finished :: "'db \<Rightarrow> bool"

fun status_of :: "'db + ldb_status \<Rightarrow> ldb_status" where
  "status_of (Inl db) = Ok"
| "status_of (Inr st) = st"

definition RepairCache :: "'db open_env \<Rightarrow> bool" where
  "RepairCache env = (if repair_status env = Ok then True else destroy_status env = Ok)"

text \<open>The last part of \<open>Open\<close>, after the attempts to create or to repair.\<close>

definition finish_open :: "'db open_env \<Rightarrow> bool \<Rightarrow> 'db + ldb_status \<Rightarrow> 'db disk_cache \<Rightarrow> 'db disk_cache \<times> OpenResult" where
  "finish_open env is_read_only db c =
     (case db of
        Inr st \<Rightarrow> (c\<lparr>error := Some (GetApiError st)\<rparr>, Fail)
      | Inl db \<Rightarrow>
          (let c = c\<lparr>error := None\<rparr> in
           if is_read_only \<and> \<not> compaction_finished env db then (c, Corrupted)
           else (c\<lparr>database := Some db\<rparr>, Success)))"

definition DiskCache_Open ::
  "'db open_env \<Rightarrow> string \<Rightarrow> StorageSettings \<Rightarrow> u8 \<Rightarrow> bool \<Rightarrow> 'db disk_cache \<Rightarrow> 'db disk_cache \<times> OpenResult" where
  "DiskCache_Open env data_path settings options repair_if_broken c =
     (let c = c\<lparr>disk_cache_path := data_path\<rparr>;
          is_read_only = (options AND 1 = 1) in
      if \<not> dir_exists env \<and> \<not> dir_created env then (c, Fail)
      else if unexpected_dirs env then (c, Fail)
      else
        (let c = c\<lparr>enforce_immediate_flush := ss_enforce_immediate_flush settings,
                   max_size := ss_max_disk_storage settings,
                   size_limited := (is_read_only \<or> ss_max_disk_storage settings \<noteq> kSizeMax),
                   check_crc := (options AND 2 \<noteq> 0)\<rparr>;
             db = first_open env in
         if status_of db = LInvalidArgument \<and> is_read_only \<and> \<not> repair_if_broken then (c, Postponed)
         else if status_of db = LInvalidArgument \<and> is_read_only \<and> init_status env \<noteq> Ok then (c, Fail)
         else
           (let db = (if status_of db = LInvalidArgument \<and> is_read_only then second_open env else db) in
            if status_of db = Corruption \<or> status_of db = LIOError then
              (if is_read_only \<or> \<not> repair_if_broken
               then (c, if status_of db = LIOError then IOError else Corrupted)
               else if RepairCache env
               then (case repaired_open env of
                       Inl d \<Rightarrow> (c\<lparr>database := Some d\<rparr>, Repaired)
                     | Inr st \<Rightarrow> finish_open env is_read_only (Inr st) c)
               else finish_open env is_read_only db c)
            else finish_open env is_read_only db c)))"

section \<open>Reading and writing\<close>

definition DiskCache_Put :: "'db ldb_ops \<Rightarrow> string \<Rightarrow> string \<Rightarrow> 'db disk_cache \<Rightarrow> 'db disk_cache \<times> bool" where
  "DiskCache_Put L key value c =
     (case database c of
        None \<Rightarrow> (c, False)
      | Some db \<Rightarrow> (let (db, status) = ldb_put L key value db in (c\<lparr>database := Some db\<rparr>, status = Ok)))"

definition DiskCache_Get :: "'db ldb_ops \<Rightarrow> string \<Rightarrow> 'db disk_cache \<Rightarrow> ErrorCode + string" where
  "DiskCache_Get L key c =
     (case database c of
        None \<Rightarrow> Inl PreconditionFailed
      | Some db \<Rightarrow>
          (case Seek key (ldb_entries L db) of
             (k, v) # _ \<Rightarrow> if k = key \<and> v \<noteq> [] then Inr v else Inl NotFound
           | [] \<Rightarrow> Inl NotFound))"

definition DiskCache_Contains :: "'db ldb_ops \<Rightarrow> string \<Rightarrow> 'db disk_cache \<Rightarrow> bool" where
  "DiskCache_Contains L key c =
     (case database c of
        None \<Rightarrow> False
      | Some db \<Rightarrow> (case Seek key (ldb_entries L db) of (k, v) # _ \<Rightarrow> k = key | [] \<Rightarrow> False))"

text \<open>\<open>Remove\<close> returns the outcome and the removed size.\<close>

definition DiskCache_Remove ::
  "'db ldb_ops \<Rightarrow> string \<Rightarrow> 'db disk_cache \<Rightarrow> 'db disk_cache \<times> (ErrorCode + unit) \<times> u64" where
  "DiskCache_Remove L key c =
     (case database c of
        None \<Rightarrow> (c, Inl PreconditionFailed, 0)
      | Some db \<Rightarrow>
          (let data_size = (case Seek key (ldb_entries L db) of
                              (k, v) # _ \<Rightarrow> if k = key then of_nat (length key) + of_nat (length v) else 0
                            | [] \<Rightarrow> 0);
               (db, status) = ldb_delete L key db;
               c = c\<lparr>database := Some db\<rparr> in
           if status = Ok then (c, Inr (), data_size) else (c, Inl (GetApiError status), 0)))"

definition DiskCache_NewIterator :: "'db ldb_ops \<Rightarrow> 'db disk_cache \<Rightarrow> (string \<times> string) list option" where
  "DiskCache_NewIterator L c = map_option (ldb_entries L) (database c)"

text \<open>\<open>ApplyBatch\<close>; the compaction that it may start in the background does not change the
  entries.\<close>

definition ApplyBatch ::
  "'db ldb_ops \<Rightarrow> batch_op list \<Rightarrow> 'db disk_cache \<Rightarrow> 'db disk_cache \<times> (ErrorCode + unit)" where
  "ApplyBatch L batch c =
     (case database c of
        None \<Rightarrow> (c, Inl PreconditionFailed)
      | Some db \<Rightarrow>
          (let (db, status) = ldb_write L batch db; c = c\<lparr>database := Some db\<rparr> in
           if status \<noteq> Ok then (c, Inl (GetApiError status)) else (c, Inr ())))"

fun prefix_batch ::
  "string \<Rightarrow> (string \<Rightarrow> bool) \<Rightarrow> (string \<times> string) list \<Rightarrow> batch_op list \<times> u64" where
  "prefix_batch pre flt [] = ([], 0)"
| "prefix_batch pre flt ((key, value) # it) =
     (if pre = [] \<or> starts_with pre key then
        (let (batch, data_size) = prefix_batch pre flt it in
         if flt key then (batch, data_size)
         else (BDelete key # batch, of_nat (length value) + of_nat (length key) + data_size))
      else ([], 0))"

definition DiskCache_RemoveKeysWithPrefix ::
  "'db ldb_ops \<Rightarrow> string \<Rightarrow> (string \<Rightarrow> bool) \<Rightarrow> 'db disk_cache
    \<Rightarrow> 'db disk_cache \<times> (ErrorCode + unit) \<times> u64" where
  "DiskCache_RemoveKeysWithPrefix L pre flt c =
     (case DiskCache_NewIterator L c of
        None \<Rightarrow> (c, Inl PreconditionFailed, 0)
      | Some it \<Rightarrow>
          (let it = (if pre = [] then it else Seek pre it);
               (batch, data_size) = prefix_batch pre flt it;
               (c, result) = ApplyBatch L batch c in
           case result of Inl e \<Rightarrow> (c, Inl e, 0) | Inr u \<Rightarrow> (c, Inr u, data_size)))"

definition DiskCache_Size :: "'db ldb_ops \<Rightarrow> 'db disk_cache \<Rightarrow> u64" where
  "DiskCache_Size L c = (case database c of None \<Rightarrow> 0 | Some db \<Rightarrow> ldb_approximate_size L db)"

section \<open>Lookup\<close>

definition disk_entries :: "'db ldb_ops \<Rightarrow> 'db disk_cache \<Rightarrow> (string, string) omap" where
  "disk_entries L c = (case database c of None \<Rightarrow> [] | Some db \<Rightarrow> ldb_entries L db)"

abbreviation disk_map :: "'db ldb_ops \<Rightarrow> 'db disk_cache \<Rightarrow> string \<rightharpoonup> string" where
  "disk_map L c \<equiv> map_of (disk_entries L c)"

lemma Seek_head:
  assumes "om_ok m"
  shows "(case Seek key m of (k, v) # _ \<Rightarrow> if k = key then Some v else None | [] \<Rightarrow> None) = map_of m key"
  using assms
proof (induction m)
  case (Cons e m)
  obtain k v where e: "e = (k, v)" by (cases e)
  show ?case
  proof (cases k key rule: linorder_cases)
    case less
    then have "k \<noteq> key" by auto
    with less Cons e show ?thesis by (auto simp: Seek_def om_ok_Cons)
  next
    case equal
    with e show ?thesis by (simp add: Seek_def)
  next
    case greater
    with Cons.prems e have "map_of m key = None" by (auto simp: om_ok_Cons map_of_eq_None_iff)
    moreover have "\<not> k < key" "k \<noteq> key" using greater by auto
    ultimately show ?thesis using e by (simp add: Seek_def)
  qed
qed (simp add: Seek_def)

lemma ldb_laws_ok [simp]: "ldb_laws L \<Longrightarrow> om_ok (ldb_entries L db)"
  by (simp add: ldb_laws_def)

lemma disk_entries_ok [simp]: "ldb_laws L \<Longrightarrow> om_ok (disk_entries L c)"
  by (simp add: disk_entries_def split: option.split)

lemma DiskCache_Get_map:
  assumes "ldb_laws L" and "database c \<noteq> None"
  shows "DiskCache_Get L key c =
    (case disk_map L c key of Some v \<Rightarrow> if v \<noteq> [] then Inr v else Inl NotFound | None \<Rightarrow> Inl NotFound)"
proof -
  from assms(2) obtain db where db: "database c = Some db" by blast
  show ?thesis
    using Seek_head [OF ldb_laws_ok [OF assms(1), of db], of key] db
    by (auto simp: DiskCache_Get_def disk_entries_def split: list.splits option.splits if_splits)
qed

lemma DiskCache_Contains_map:
  assumes "ldb_laws L"
  shows "DiskCache_Contains L key c \<longleftrightarrow> disk_map L c key \<noteq> None"
proof (cases "database c")
  case (Some db)
  then show ?thesis
    using Seek_head [OF ldb_laws_ok [OF assms, of db], of key]
    by (auto simp: DiskCache_Contains_def disk_entries_def split: list.splits if_splits dest: sym)
qed (simp add: DiskCache_Contains_def disk_entries_def)

section \<open>Writing\<close>

lemma ApplyBatch_entries:
  assumes "ldb_laws L" and "database c \<noteq> None" and "ApplyBatch L batch c = (c', r)"
  shows "database c' \<noteq> None"
    and "disk_entries L c' = (case r of Inr _ \<Rightarrow> apply_batch batch (disk_entries L c) | Inl _ \<Rightarrow> disk_entries L c)"
proof -
  from assms(2) obtain db where db: "database c = Some db" by blast
  obtain db' st where w: "ldb_write L batch db = (db', st)" by fastforce
  have "ldb_entries L db' = (if st = Ok then apply_batch batch (ldb_entries L db) else ldb_entries L db)"
    using assms(1) w unfolding ldb_laws_def by blast
  with assms(3) db w show "database c' \<noteq> None"
    and "disk_entries L c' = (case r of Inr _ \<Rightarrow> apply_batch batch (disk_entries L c) | Inl _ \<Rightarrow> disk_entries L c)"
    by (auto simp: ApplyBatch_def disk_entries_def Let_def split: if_splits)
qed

lemma DiskCache_Remove_entries:
  assumes "ldb_laws L" and "database c \<noteq> None" and "DiskCache_Remove L key c = (c', r, n)"
  shows "database c' \<noteq> None"
    and "disk_entries L c' = (case r of Inr _ \<Rightarrow> om_delete key (disk_entries L c) | Inl _ \<Rightarrow> disk_entries L c)"
proof -
  from assms(2) obtain db where db: "database c = Some db" by blast
  obtain db' st where w: "ldb_delete L key db = (db', st)" by fastforce
  have "ldb_entries L db' = (if st = Ok then om_delete key (ldb_entries L db) else ldb_entries L db)"
    using assms(1) w unfolding ldb_laws_def by blast
  with assms(3) db w show "database c' \<noteq> None"
    and "disk_entries L c' = (case r of Inr _ \<Rightarrow> om_delete key (disk_entries L c) | Inl _ \<Rightarrow> disk_entries L c)"
    by (auto simp: DiskCache_Remove_def disk_entries_def Let_def split: if_splits)
qed

lemma apply_batch_simps [simp]:
  "apply_batch [] m = m"
  "apply_batch (op # ops) m = apply_batch ops (apply_op op m)"
  "apply_batch (ops @ ops') m = apply_batch ops' (apply_batch ops m)"
  by (simp_all add: apply_batch_def)

definition entry_size :: "string \<times> string \<Rightarrow> nat" where
  "entry_size e = length (fst e) + length (snd e)"

text \<open>The entries with a prefix are a contiguous run, which the iteration visits completely.\<close>

lemma prefix_run:
  assumes "om_ok m"
  shows "takeWhile (\<lambda>e. prefix pre (fst e)) (Seek pre m) = filter (\<lambda>e. prefix pre (fst e)) m"
  using assms
proof (induction m)
  case (Cons e m)
  show ?case
  proof (cases "fst e < pre")
    case True
    then have "\<not> prefix pre (fst e)" using prefix_le [of pre "fst e"] by auto
    with True Cons show ?thesis by (simp add: Seek_def om_ok_Cons)
  next
    case False
    then have s: "Seek pre (e # m) = e # m" by (simp add: Seek_def)
    show ?thesis
    proof (cases "prefix pre (fst e)")
      case True
      have "Seek pre m = m"
        using False Cons.prems by (cases m) (auto simp: Seek_def om_ok_Cons)
      with True s Cons show ?thesis by (simp add: om_ok_Cons)
    next
      case no: False
      have "\<not> prefix pre (fst x)" if "x \<in> set m" for x
      proof
        assume "prefix pre (fst x)"
        moreover have "pre \<le> fst e" "fst e \<le> fst x" using False Cons.prems that by (auto simp: om_ok_Cons)
        ultimately show False using prefix_between [of pre "fst x" "fst e"] no by blast
      qed
      with no s show ?thesis by simp
    qed
  qed
qed (simp add: Seek_def)

lemma prefix_batch_takeWhile:
  "prefix_batch pre flt it =
    (let es = filter (\<lambda>e. \<not> flt (fst e)) (takeWhile (\<lambda>e. prefix pre (fst e)) it) in
     (map (\<lambda>e. BDelete (fst e)) es, of_nat (sum_list (map entry_size es))))"
  by (induction pre flt it rule: prefix_batch.induct) (auto simp: Let_def entry_size_def)

lemma apply_deletes:
  "apply_batch (map (\<lambda>e. BDelete (fst e)) es) m = filter (\<lambda>e. fst e \<notin> fst ` set es) m"
proof (induction es arbitrary: m)
  case (Cons x es)
  then show ?case by (simp add: om_delete_def conj_commute)
qed simp

lemma remove_prefix_entries:
  assumes L: "ldb_laws L" and db: "database c \<noteq> None"
    and r: "DiskCache_RemoveKeysWithPrefix L pre flt c = (c', res, n)"
  defines "gone \<equiv> filter (\<lambda>e. prefix pre (fst e) \<and> \<not> flt (fst e)) (disk_entries L c)"
  shows "database c' \<noteq> None"
    and "res = Inr () \<Longrightarrow> disk_entries L c' = filter (\<lambda>e. \<not> (prefix pre (fst e) \<and> \<not> flt (fst e))) (disk_entries L c)
       \<and> n = of_nat (sum_list (map entry_size gone))"
    and "res = Inl e \<Longrightarrow> disk_entries L c' = disk_entries L c \<and> n = 0"
proof -
  let ?m = "disk_entries L c"
  from db obtain d where d: "database c = Some d" by blast
  have it: "takeWhile (\<lambda>e. prefix pre (fst e)) (if pre = [] then ?m else Seek pre ?m) = filter (\<lambda>e. prefix pre (fst e)) ?m"
    using prefix_run [OF disk_entries_ok [OF L], of pre c] by (auto simp: takeWhile_eq_all_conv)
  have batch: "prefix_batch pre flt (if pre = [] then ?m else Seek pre ?m)
      = (map (\<lambda>e. BDelete (fst e)) gone, of_nat (sum_list (map entry_size gone)))"
    unfolding prefix_batch_takeWhile it by (simp add: Let_def gone_def conj_commute)
  obtain c1 r1 where a: "ApplyBatch L (map (\<lambda>e. BDelete (fst e)) gone) c = (c1, r1)" by fastforce
  note e = ApplyBatch_entries [OF L db a]
  have c': "c' = c1" "res = r1" "n = (case r1 of Inl _ \<Rightarrow> 0 | Inr _ \<Rightarrow> of_nat (sum_list (map entry_size gone)))"
    using r batch a d
    by (auto simp: DiskCache_RemoveKeysWithPrefix_def DiskCache_NewIterator_def disk_entries_def Let_def split: sum.splits if_splits)
  show "database c' \<noteq> None" using e(1) c'(1) by simp
  have "filter (\<lambda>e. fst e \<notin> fst ` set gone) ?m = filter (\<lambda>e. \<not> (prefix pre (fst e) \<and> \<not> flt (fst e))) ?m"
    by (rule filter_cong) (auto simp: gone_def)
  then show "res = Inr () \<Longrightarrow> disk_entries L c' = filter (\<lambda>e. \<not> (prefix pre (fst e) \<and> \<not> flt (fst e))) ?m
       \<and> n = of_nat (sum_list (map entry_size gone))"
    using e(2) c' by (simp add: apply_deletes)
  show "res = Inl e \<Longrightarrow> disk_entries L c' = ?m \<and> n = 0" using e(2) c' by simp
qed

section \<open>A database in memory\<close>

text \<open>The laws are satisfiable: an ordered map whose writes always succeed.\<close>

definition mem_ldb :: "(string, string) omap ldb_ops" where
  "mem_ldb = \<lparr>ldb_entries = (\<lambda>m. if om_ok m then m else []),
     ldb_write = (\<lambda>ops m. (apply_batch ops (if om_ok m then m else []), Ok)),
     ldb_put = (\<lambda>k v m. (om_update k v (if om_ok m then m else []), Ok)),
     ldb_delete = (\<lambda>k m. (om_delete k (if om_ok m then m else []), Ok)),
     ldb_approximate_size = (\<lambda>m. of_nat (sum_list (map entry_size m)))\<rparr>"

lemma apply_batch_ok: "om_ok m \<Longrightarrow> om_ok (apply_batch ops m)"
proof (induction ops arbitrary: m)
  case (Cons op ops)
  then show ?case by (cases op) (simp_all add: keeps)
qed simp

lemma mem_ldb_laws [simp]: "ldb_laws mem_ldb"
  by (auto simp: ldb_laws_def mem_ldb_def apply_batch_ok keeps)

end
