(* ===== verification/DefaultCache.thy ===== *)
theory DefaultCache
  imports InMemoryCache ProtectedKeyList DiskCache
begin

text \<open>
  \<open>olp::cache::DefaultCacheImpl\<close> (src/cache/DefaultCacheImpl.h and .cpp): the two-level cache that
  combines the memory cache, a mutable disk cache with its LRU list of keys, a protected
  (read-only) disk cache and the list of protected keys.

  Every operation takes LevelDB (\<open>L\<close>) as a parameter and the time \<open>now\<close>, which is the same for
  all clock readings of one operation. \<open>None\<close> stands for undefined behaviour or an escaping
  exception (a bad \<open>any_cast\<close>, \<open>std::stoll\<close> on a value that is not a number, an overflow of
  \<open>time_t\<close>, an access through a null iterator). The lock makes each public operation one atomic
  step. Log output is left out.
\<close>

section \<open>State\<close>

text \<open>What the memory cache holds: raw bytes (from \<open>Write\<close> and \<open>Read\<close>) or an object of the user
  (from \<open>Put\<close> and \<open>Get\<close> with encoder and decoder).\<close>

datatype 'a cached = Bytes string | Object 'a

datatype EvictionPolicy = kNone | kLeastRecentlyUsed

datatype CacheType = kMutable | kProtected

datatype StorageOpenResult = StorageSuccess | OpenDiskPathFailure | ProtectedCacheCorrupted | NotReady

record CacheSettings =
  disk_path_mutable :: "string option"
  disk_path_protected :: "string option"
  max_disk_storage :: u64
  max_memory_cache_size :: u64
  cs_enforce_immediate_flush :: bool
  eviction_policy :: EvictionPolicy
  openOptions :: u8

record ValueProperties =
  vp_size :: u64
  vp_expiry :: time_t

record ('a, 'db) default_cache =
  settings :: CacheSettings
  is_open :: bool
  memory_cache :: "'a cached in_memory_cache option"
  mutable_cache :: "'db disk_cache option"
  mutable_cache_lru :: "(string, ValueProperties) lru option"
  protected_cache :: "'db disk_cache option"
  mutable_cache_data_size :: u64
  protected_keys :: protected_key_list
  eviction_portion :: u64

definition kDefaultExpiry :: time_t where
  "kDefaultExpiry = time_max"

definition kExpirySuffix :: string where
  "kExpirySuffix = ''::expiry''"

definition kProtectedKeys :: string where
  "kProtectedKeys = ''internal::protected::protected_data''"

definition kInternalKeysPrefix :: string where
  "kInternalKeysPrefix = ''internal::''"

definition kExpiryValueSize :: u64 where
  "kExpiryValueSize = 10"

definition kMaxDiskSize :: u64 where
  "kMaxDiskSize = - 1"

definition DefaultCacheImpl_new :: "CacheSettings \<Rightarrow> ('a, 'db) default_cache" where
  "DefaultCacheImpl_new st =
     \<lparr>settings = st, is_open = False, memory_cache = None, mutable_cache = None,
      mutable_cache_lru = None, protected_cache = None, mutable_cache_data_size = 0,
      protected_keys = ProtectedKeyList_new, eviction_portion = 1024 * 1024\<rparr>"

section \<open>Keys and expiry times\<close>

abbreviation len :: "string \<Rightarrow> u64" where
  "len s \<equiv> of_nat (length s)"

definition CreateExpiryKey :: "string \<Rightarrow> string" where
  "CreateExpiryKey key = key @ kExpirySuffix"

fun contains :: "string \<Rightarrow> string \<Rightarrow> bool" where
  "contains part [] = (part = [])"
| "contains part (c # cs) = (starts_with part (c # cs) \<or> contains part cs)"

definition IsExpiryKey :: "string \<Rightarrow> bool" where
  "IsExpiryKey key = contains kExpirySuffix key"

definition IsExpiryValid :: "time_t \<Rightarrow> bool" where
  "IsExpiryValid expiry \<longleftrightarrow> expiry < kDefaultExpiry"

definition IsInternalKey :: "string \<Rightarrow> bool" where
  "IsInternalKey key = starts_with kInternalKeysPrefix key"

definition GetRemainingExpiryTime ::
  "'db ldb_ops \<Rightarrow> time_t \<Rightarrow> string \<Rightarrow> 'db disk_cache \<Rightarrow> time_t option" where
  "GetRemainingExpiryTime L now key disk =
     (case DiskCache_Get L (CreateExpiryKey key) disk of
        Inl _ \<Rightarrow> Some kDefaultExpiry
      | Inr expiry_value \<Rightarrow> do { expiry \<leftarrow> stoll expiry_value; time_add expiry (- now) })"

definition PurgeDiskItem ::
  "'db ldb_ops \<Rightarrow> string \<Rightarrow> 'db disk_cache \<Rightarrow> 'db disk_cache \<times> (ErrorCode + unit) \<times> u64" where
  "PurgeDiskItem L key disk =
     (let (disk, _, data_size) = DiskCache_Remove L key disk;
          (disk, result, data_size') = DiskCache_Remove L (CreateExpiryKey key) disk in
      (disk, result, data_size + data_size'))"

text \<open>\<open>StoreExpiry\<close>: the batch entry and its size.\<close>

definition StoreExpiry :: "string \<Rightarrow> time_t \<Rightarrow> batch_op \<times> u64" where
  "StoreExpiry key expiry =
     (let expiry_key = CreateExpiryKey key; time_str = to_string_int expiry in
      (BPut expiry_key time_str, len expiry_key + len time_str))"

definition ToStorageOpenResult :: "OpenResult \<Rightarrow> StorageOpenResult" where
  "ToStorageOpenResult input =
     (case input of
        Fail \<Rightarrow> OpenDiskPathFailure
      | Corrupted \<Rightarrow> ProtectedCacheCorrupted
      | IOError \<Rightarrow> ProtectedCacheCorrupted
      | Repaired \<Rightarrow> StorageSuccess
      | Success \<Rightarrow> StorageSuccess
      | Postponed \<Rightarrow> StorageSuccess)"

definition GetExpiryForMemoryCache :: "string \<Rightarrow> time_t \<Rightarrow> ('a, 'db) default_cache \<Rightarrow> time_t" where
  "GetExpiryForMemoryCache key expiry s =
     (if IsProtected key (protected_keys s) then kDefaultExpiry else expiry)"

section \<open>The LRU list of the mutable cache\<close>

definition default_props :: ValueProperties where
  "default_props = \<lparr>vp_size = 0, vp_expiry = kDefaultExpiry\<rparr>"

definition AddKeyLru :: "string \<Rightarrow> string \<Rightarrow> ('a, 'db) default_cache \<Rightarrow> ('a, 'db) default_cache option" where
  "AddKeyLru key value s =
     (case mutable_cache_lru s of
        Some lru \<Rightarrow>
          if \<not> IsProtected key (protected_keys s) \<and> \<not> IsInternalKey key then do {
            let expiration_key = IsExpiryKey key;
            let key = (if expiration_key then take (length key - length kExpirySuffix) key else key);
            let it = FindNoPromote key lru;
            props \<leftarrow> (if it \<noteq> None then it_value it lru else Some default_props);
            props \<leftarrow> (if expiration_key then map_option (\<lambda>e. props\<lparr>vp_expiry := e\<rparr>) (stoll value)
                      else Some (props\<lparr>vp_size := len value\<rparr>));
            (lru, _) \<leftarrow> InsertOrAssign key props lru;
            Some (s\<lparr>mutable_cache_lru := Some lru\<rparr>) }
          else Some s
      | None \<Rightarrow> Some s)"

fun add_keys_lru :: "(string \<times> string) list \<Rightarrow> ('a, 'db) default_cache \<Rightarrow> ('a, 'db) default_cache option" where
  "add_keys_lru [] s = Some s"
| "add_keys_lru ((key, value) # it) s = do {
     s \<leftarrow> AddKeyLru key value (s\<lparr>mutable_cache_data_size := mutable_cache_data_size s + (len key + len value)\<rparr>);
     add_keys_lru it s }"

text \<open>\<open>InitializeLru\<close>; a database that is not open gives a null iterator.\<close>

definition InitializeLru :: "'db ldb_ops \<Rightarrow> ('a, 'db) default_cache \<Rightarrow> ('a, 'db) default_cache option" where
  "InitializeLru L s =
     (case mutable_cache s of
        None \<Rightarrow> Some s
      | Some disk \<Rightarrow> do {
          let s = s\<lparr>mutable_cache_data_size := 0,
                    mutable_cache_lru := Some (LruCache_new (max_disk_storage (settings s)) (\<lambda>_. 1))\<rparr>;
          it \<leftarrow> DiskCache_NewIterator L disk;
          add_keys_lru it s })"

definition RemoveKeyLru :: "string \<Rightarrow> ('a, 'db) default_cache \<Rightarrow> (('a, 'db) default_cache \<times> bool) option" where
  "RemoveKeyLru key s =
     (case mutable_cache_lru s of
        Some lru \<Rightarrow> do { (lru, r) \<leftarrow> Erase key lru; Some (s\<lparr>mutable_cache_lru := Some lru\<rparr>, r) }
      | None \<Rightarrow> Some (s, False))"

text \<open>The loop is the one of \<open>InMemoryCache::RemoveKeysWithPrefix\<close> without a filter.\<close>

definition RemoveKeysWithPrefixLru :: "string \<Rightarrow> ('a, 'db) default_cache \<Rightarrow> ('a, 'db) default_cache option" where
  "RemoveKeysWithPrefixLru key s =
     (case mutable_cache_lru s of
        Some lru \<Rightarrow> do {
          lru \<leftarrow> remove_loop key (\<lambda>_. False) (lru_first lru) lru;
          Some (s\<lparr>mutable_cache_lru := Some lru\<rparr>) }
      | None \<Rightarrow> Some s)"

definition PromoteKeyLru :: "string \<Rightarrow> ('a, 'db) default_cache \<Rightarrow> (('a, 'db) default_cache \<times> bool) option" where
  "PromoteKeyLru key s =
     (case mutable_cache_lru s of
        Some lru \<Rightarrow> do {
          (lru, it) \<leftarrow> Find key lru;
          Some (s\<lparr>mutable_cache_lru := Some lru\<rparr>, it \<noteq> None \<or> IsProtected key (protected_keys s)) }
      | None \<Rightarrow> Some (s, True))"

section \<open>Eviction\<close>

text \<open>Single precision: rounding to 24 significant bits, to the nearest and to even on ties. The
  constants \<open>0.9f\<close> and \<open>0.85f\<close> are \<open>15099494 / 2^24\<close> and \<open>14260634 / 2^24\<close>; a product by them
  is kept scaled by \<open>2^24\<close>. The rounded limit is the result of \<open>llroundl\<close> wherever that is
  specified (below \<open>2^63\<close>).\<close>

function bit_len :: "int \<Rightarrow> nat" where
  "bit_len n = (if n \<le> 0 then 0 else Suc (bit_len (n div 2)))"
  by pat_completeness auto
termination by (relation "measure nat") auto

declare bit_len.simps [simp del]

definition float24 :: "int \<Rightarrow> int" where
  "float24 n =
     (let s = bit_len n - 24; q = n div 2 ^ s; r = n mod 2 ^ s in
      (if 2 ^ s < 2 * r \<or> 2 ^ s = 2 * r \<and> odd q then q + 1 else q) * 2 ^ s)"

definition below_max_threshold :: "u64 \<Rightarrow> u64 \<Rightarrow> bool" where
  "below_max_threshold data_size max_disk \<longleftrightarrow>
     float24 (uint data_size) * 2 ^ 24 < float24 (float24 (uint max_disk) * 15099494)"

definition min_threshold :: "u64 \<Rightarrow> u64" where
  "min_threshold max_disk = word_of_int ((float24 (float24 (uint max_disk) * 14260634) + 2 ^ 23) div 2 ^ 24)"

text \<open>Removing a key from the memory cache, if there is one.\<close>

definition memory_remove :: "string \<Rightarrow> ('a, 'db) default_cache \<Rightarrow> ('a, 'db) default_cache option" where
  "memory_remove key s =
     (case memory_cache s of
        None \<Rightarrow> Some s
      | Some mem \<Rightarrow> do { (mem, _) \<leftarrow> InMemoryCache_Remove key mem; Some (s\<lparr>memory_cache := Some mem\<rparr>) })"

text \<open>\<open>EvictExpiredDataPortion\<close>: the loop from the most recently used entry on; it returns the
  batch and the n_evicted size.\<close>

partial_function (option) evict_expired_loop ::
  "time_t \<Rightarrow> u64 \<Rightarrow> string option \<Rightarrow> u64 \<Rightarrow> ('a, 'db) default_cache
    \<Rightarrow> (('a, 'db) default_cache \<times> batch_op list \<times> u64) option" where
  "evict_expired_loop now target it n_evicted s =
     (case (it, mutable_cache_lru s) of
        (Some key, Some lru) \<Rightarrow>
          if n_evicted < target then do {
            properties \<leftarrow> it_value it lru;
            if \<not> vp_expiry properties - now \<le> 0 then do {
              it \<leftarrow> it_next it lru;
              evict_expired_loop now target it n_evicted s }
            else do {
              let expiry_key = CreateExpiryKey key;
              let n_evicted = n_evicted + (len key + vp_size properties) + (len expiry_key + kExpiryValueSize);
              s \<leftarrow> memory_remove key s;
              (lru, it) \<leftarrow> Erase_it it lru;
              (s, batch, n_evicted) \<leftarrow> evict_expired_loop now target it n_evicted (s\<lparr>mutable_cache_lru := Some lru\<rparr>);
              Some (s, BDelete key # BDelete expiry_key # batch, n_evicted) } }
          else Some (s, [], n_evicted)
      | _ \<Rightarrow> Some (s, [], n_evicted))"

declare evict_expired_loop.simps [code]

definition EvictExpiredDataPortion ::
  "time_t \<Rightarrow> u64 \<Rightarrow> ('a, 'db) default_cache \<Rightarrow> (('a, 'db) default_cache \<times> batch_op list \<times> u64) option" where
  "EvictExpiredDataPortion now target s = do {
     lru \<leftarrow> mutable_cache_lru s;
     evict_expired_loop now target (lru_first lru) 0 s }"

text \<open>\<open>EvictDataPortion\<close>: the loop takes the least recently used entry in every round.\<close>

partial_function (option) evict_data_loop ::
  "u64 \<Rightarrow> u64 \<Rightarrow> ('a, 'db) default_cache \<Rightarrow> (('a, 'db) default_cache \<times> batch_op list \<times> u64) option" where
  "evict_data_loop target n_evicted s = do {
     lru \<leftarrow> mutable_cache_lru s;
     case lru_last lru of
       None \<Rightarrow> Some (s, [], n_evicted)
     | Some key \<Rightarrow>
         if n_evicted < target then do {
           properties \<leftarrow> it_value (Some key) lru;
           let n_evicted = n_evicted + (len key + vp_size properties);
           let expiry_key = CreateExpiryKey key;
           let has_expiry = IsExpiryValid (vp_expiry properties);
           let n_evicted = (if has_expiry then n_evicted + (len expiry_key + kExpiryValueSize) else n_evicted);
           s \<leftarrow> memory_remove key s;
           (lru, _) \<leftarrow> Erase key lru;
           (s, batch, n_evicted) \<leftarrow> evict_data_loop target n_evicted (s\<lparr>mutable_cache_lru := Some lru\<rparr>);
           Some (s, BDelete key # (if has_expiry then [BDelete expiry_key] else []) @ batch, n_evicted) }
         else Some (s, [], n_evicted) }"

declare evict_data_loop.simps [code]

definition EvictDataPortion ::
  "u64 \<Rightarrow> ('a, 'db) default_cache \<Rightarrow> (('a, 'db) default_cache \<times> batch_op list \<times> u64) option" where
  "EvictDataPortion target s = evict_data_loop target 0 s"

text \<open>\<open>call_evict_method\<close>: portions are n_evicted and applied until a portion comes out too small,
  enough is n_evicted, or a batch cannot be applied. \<open>left_to_evict\<close> is a signed number kept as a
  word; it returns the state, the n_evicted size and what is left.\<close>

partial_function (option) call_evict_method ::
  "'db ldb_ops \<Rightarrow>
   (u64 \<Rightarrow> ('a, 'db) default_cache \<Rightarrow> (('a, 'db) default_cache \<times> batch_op list \<times> u64) option) \<Rightarrow>
   u64 \<Rightarrow> u64 \<Rightarrow> ('a, 'db) default_cache \<Rightarrow> (('a, 'db) default_cache \<times> u64 \<times> u64) option" where
  "call_evict_method L evict_method left_to_evict n_evicted s = do {
     let target = (if left_to_evict < eviction_portion s then left_to_evict else eviction_portion s);
     (s, batch, sz) \<leftarrow> evict_method target s;
     disk \<leftarrow> mutable_cache s;
     let (disk, apply_result) = ApplyBatch L batch disk;
     let s = s\<lparr>mutable_cache := Some disk\<rparr>;
     case apply_result of
       Inl _ \<Rightarrow> Some (s, n_evicted, left_to_evict)
     | Inr _ \<Rightarrow>
         (let n_evicted = n_evicted + sz; left_to_evict = left_to_evict - sz in
          if target \<le> sz \<and> 0 < sint left_to_evict
          then call_evict_method L evict_method left_to_evict n_evicted s
          else Some (s, n_evicted, left_to_evict)) }"

declare call_evict_method.simps [code]

definition MaybeEvictData ::
  "'db ldb_ops \<Rightarrow> time_t \<Rightarrow> ('a, 'db) default_cache \<Rightarrow> (('a, 'db) default_cache \<times> u64) option" where
  "MaybeEvictData L now s =
     (if mutable_cache s = None \<or> mutable_cache_lru s = None then Some (s, 0)
      else if below_max_threshold (mutable_cache_data_size s) (max_disk_storage (settings s)) then Some (s, 0)
      else do {
        let left_to_evict = mutable_cache_data_size s - min_threshold (max_disk_storage (settings s));
        (s, n_evicted, left_to_evict) \<leftarrow> call_evict_method L (EvictExpiredDataPortion now) left_to_evict 0 s;
        (if 0 < sint left_to_evict then do {
           (s, n_evicted, _) \<leftarrow> call_evict_method L EvictDataPortion left_to_evict n_evicted s;
           Some (s, n_evicted) }
         else Some (s, n_evicted)) })"

text \<open>\<open>MaybeUpdatedProtectedKeys\<close>: the batch entries and the change of the data size.\<close>

definition MaybeUpdatedProtectedKeys ::
  "('a, 'db) default_cache \<Rightarrow> (('a, 'db) default_cache \<times> batch_op list \<times> u64) option" where
  "MaybeUpdatedProtectedKeys s =
     (if dirty (protected_keys s) then do {
        let prev_size = size_written (protected_keys s);
        (pk, value) \<leftarrow> Serialize (protected_keys s);
        let s = s\<lparr>protected_keys := pk\<rparr>;
        let key_size = (if 0 < prev_size then 0 else len kProtectedKeys);
        if value \<noteq> [] then Some (s, [BPut kProtectedKeys value], key_size + size_written pk - prev_size)
        else if 0 < prev_size then Some (s, [BDelete kProtectedKeys], - (prev_size + len kProtectedKeys))
        else Some (s, [], 0) }
      else Some (s, [], 0))"

section \<open>Writing to the mutable cache\<close>

text \<open>The end of \<open>PutMutableCache\<close>: the key enters the LRU list unless it is protected.\<close>

definition put_lru ::
  "string \<Rightarrow> u64 \<Rightarrow> time_t \<Rightarrow> ('a, 'db) default_cache \<Rightarrow> (('a, 'db) default_cache \<times> (ErrorCode + unit)) option" where
  "put_lru key item_size expiry s =
     (case mutable_cache_lru s of
        Some lru \<Rightarrow>
          if \<not> IsProtected key (protected_keys s) then do {
            (lru, _, it, inserted) \<leftarrow> InsertOrAssign key \<lparr>vp_size = item_size, vp_expiry = expiry\<rparr> lru;
            let s = s\<lparr>mutable_cache_lru := Some lru\<rparr>;
            if it = None \<and> \<not> inserted then Some (s, Inl CacheIO) else Some (s, Inr ()) }
          else Some (s, Inr ())
      | None \<Rightarrow> Some (s, Inr ()))"

definition PutMutableCache ::
  "'db ldb_ops \<Rightarrow> time_t \<Rightarrow> string \<Rightarrow> string \<Rightarrow> time_t \<Rightarrow> ('a, 'db) default_cache
    \<Rightarrow> (('a, 'db) default_cache \<times> (ErrorCode + unit)) option" where
  "PutMutableCache L now key value expiry s =
     (if mutable_cache s = None then Some (s, Inr ())
      else
        (let item_size = len value;
             expected_size = mutable_cache_data_size s + item_size + len key + len key
                             + len kExpirySuffix + kExpiryValueSize in
         if mutable_cache_lru s = None \<and> max_disk_storage (settings s) < expected_size
         then Some (s, Inl CacheIO)
         else do {
           (expiry, expiry_batch, added_data_size) \<leftarrow>
             (if IsExpiryValid expiry then do {
                expiry \<leftarrow> time_add expiry now;
                let (op, sz) = StoreExpiry key expiry;
                Some (expiry, [op], len key + item_size + sz) }
              else Some (expiry, [], len key + item_size));
           (s, removed_data_size) \<leftarrow> MaybeEvictData L now s;
           (s, protected_batch, updated_data_size) \<leftarrow> MaybeUpdatedProtectedKeys s;
           disk \<leftarrow> mutable_cache s;
           let (disk, result) = ApplyBatch L (BPut key value # expiry_batch @ protected_batch) disk;
           let s = s\<lparr>mutable_cache := Some disk\<rparr>;
           case result of
             Inl e \<Rightarrow> Some (s, Inl e)
           | Inr _ \<Rightarrow>
               put_lru key item_size expiry
                 (s\<lparr>mutable_cache_data_size :=
                      mutable_cache_data_size s + added_data_size - removed_data_size + updated_data_size\<rparr>) }))"

section \<open>Reading from the disk caches\<close>

text \<open>\<open>GetFromDiskCache\<close>: the outcome with the value and its remaining time.\<close>

definition GetFromDiskCache ::
  "'db ldb_ops \<Rightarrow> time_t \<Rightarrow> string \<Rightarrow> ('a, 'db) default_cache
    \<Rightarrow> (('a, 'db) default_cache \<times> (ErrorCode + string \<times> time_t)) option" where
  "GetFromDiskCache L now key s = do {
     from_protected \<leftarrow>
       (case protected_cache s of
          None \<Rightarrow> Some None
        | Some disk \<Rightarrow>
            (case DiskCache_Get L key disk of
               Inl _ \<Rightarrow> Some None
             | Inr value \<Rightarrow> do {
                 expiry \<leftarrow> GetRemainingExpiryTime L now key disk;
                 Some (if 0 < expiry then Some (value, expiry) else None) }));
     case from_protected of
       Some (value, expiry) \<Rightarrow> Some (s, Inr (value, expiry))
     | None \<Rightarrow>
         (case mutable_cache s of
            None \<Rightarrow> Some (s, Inl NotFound)
          | Some disk \<Rightarrow> do {
              expiry \<leftarrow> GetRemainingExpiryTime L now key disk;
              if 0 < expiry \<or> IsProtected key (protected_keys s) then do {
                (s, found) \<leftarrow> (if IsInternalKey key then Some (s, True) else PromoteKeyLru key s);
                if \<not> found then Some (s, Inl NotFound)
                else
                  (case DiskCache_Get L key disk of
                     Inl e \<Rightarrow> Some (s, Inl e)
                   | Inr value \<Rightarrow> Some (s, Inr (value, expiry))) }
              else do {
                let (disk, _, removed_data_size) = PurgeDiskItem L key disk;
                let s = s\<lparr>mutable_cache := Some disk,
                          mutable_cache_data_size := mutable_cache_data_size s - removed_data_size\<rparr>;
                (s, _) \<leftarrow> RemoveKeyLru key s;
                Some (s, Inl NotFound) } }) }"

section \<open>Opening and closing\<close>

text \<open>The answers of the environment while the caches are opened: for the mutable cache, for the
  protected cache and for its second attempt in read-only mode, and whether the directory of
  the protected cache can only be read.\<close>

record 'db setup_env =
  mutable_env :: "'db open_env"
  protected_env :: "'db open_env"
  protected_retry_env :: "'db open_env"
  protected_dir_read_only :: bool
  clear_removed :: bool

definition SetupMutableCache ::
  "'db ldb_ops \<Rightarrow> 'db setup_env \<Rightarrow> ('a, 'db) default_cache \<Rightarrow> (('a, 'db) default_cache \<times> StorageOpenResult) option" where
  "SetupMutableCache L env s = do {
     path \<leftarrow> disk_path_mutable (settings s);
     let st = \<lparr>ss_max_disk_storage = max_disk_storage (settings s),
               ss_enforce_immediate_flush = cs_enforce_immediate_flush (settings s)\<rparr>;
     let (disk, status) = DiskCache_Open (mutable_env env) path st (openOptions (settings s)) True DiskCache_new;
     if status = Fail then Some (s\<lparr>mutable_cache := None\<rparr>, OpenDiskPathFailure)
     else do {
       let s = s\<lparr>mutable_cache := Some disk\<rparr>;
       let s = (case DiskCache_Get L kProtectedKeys disk of
                  Inl _ \<Rightarrow> s
                | Inr value \<Rightarrow> s\<lparr>protected_keys := fst (Deserialize (Some value) (protected_keys s))\<rparr>);
       s \<leftarrow> (if max_disk_storage (settings s) \<noteq> kMaxDiskSize \<and> eviction_policy (settings s) = kLeastRecentlyUsed
             then InitializeLru L s
             else Some (s\<lparr>mutable_cache_data_size := DiskCache_Size L disk\<rparr>));
       Some (s, StorageSuccess) } }"

definition SetupProtectedCache ::
  "'db setup_env \<Rightarrow> ('a, 'db) default_cache \<Rightarrow> (('a, 'db) default_cache \<times> StorageOpenResult) option" where
  "SetupProtectedCache env s = do {
     path \<leftarrow> disk_path_protected (settings s);
     let st = \<lparr>ss_max_disk_storage = 0, ss_enforce_immediate_flush = True\<rparr>;
     let open_mode = openOptions (settings s);
     let is_read_only = (open_mode AND 1 = 1);
     let (open_mode, is_read_only) =
       (if \<not> is_read_only \<and> protected_dir_read_only env then (open_mode OR 1, True) else (open_mode, is_read_only));
     let (disk, status) = DiskCache_Open (protected_env env) path st open_mode False DiskCache_new;
     let (disk, status) =
       (if status = IOError \<and> \<not> is_read_only
        then DiskCache_Open (protected_retry_env env) path st (open_mode OR 1) False disk
        else (disk, status));
     if status \<noteq> Success then Some (s\<lparr>protected_cache := None\<rparr>, ToStorageOpenResult status)
     else Some (s\<lparr>protected_cache := Some disk\<rparr>, StorageSuccess) }"

definition SetupStorage ::
  "'db ldb_ops \<Rightarrow> 'db setup_env \<Rightarrow> ('a, 'db) default_cache \<Rightarrow> (('a, 'db) default_cache \<times> StorageOpenResult) option" where
  "SetupStorage L env s = do {
     let s = s\<lparr>memory_cache := None, mutable_cache := None, mutable_cache_lru := None,
               protected_cache := None, protected_keys := ProtectedKeyList_new,
               mutable_cache_data_size := 0\<rparr>;
     let s = (if 0 < max_memory_cache_size (settings s)
              then s\<lparr>memory_cache := Some (InMemoryCache_new (max_memory_cache_size (settings s)) DefaultCacheCost)\<rparr>
              else s);
     (s, result) \<leftarrow> (if disk_path_mutable (settings s) \<noteq> None then SetupMutableCache L env s
                     else Some (s, StorageSuccess));
     if result \<noteq> StorageSuccess then Some (s, result)
     else if disk_path_protected (settings s) \<noteq> None then SetupProtectedCache env s
     else Some (s, result) }"

definition DefaultCache_Open ::
  "'db ldb_ops \<Rightarrow> 'db setup_env \<Rightarrow> ('a, 'db) default_cache \<Rightarrow> (('a, 'db) default_cache \<times> StorageOpenResult) option" where
  "DefaultCache_Open L env s = SetupStorage L env (s\<lparr>is_open := True\<rparr>)"

definition memory_clear :: "('a, 'db) default_cache \<Rightarrow> ('a, 'db) default_cache" where
  "memory_clear s = s\<lparr>memory_cache := map_option InMemoryCache_Clear (memory_cache s)\<rparr>"

definition DefaultCache_Open_type ::
  "'db ldb_ops \<Rightarrow> 'db setup_env \<Rightarrow> CacheType \<Rightarrow> ('a, 'db) default_cache
    \<Rightarrow> (('a, 'db) default_cache \<times> StorageOpenResult) option" where
  "DefaultCache_Open_type L env type s =
     (if \<not> is_open s then Some (s, NotReady)
      else if type = kMutable then
        (if mutable_cache s \<noteq> None then Some (s, StorageSuccess)
         else if disk_path_mutable (settings s) = None then Some (s, OpenDiskPathFailure)
         else SetupMutableCache L env (memory_clear s))
      else
        (if protected_cache s \<noteq> None then Some (s, StorageSuccess)
         else if disk_path_protected (settings s) = None then Some (s, OpenDiskPathFailure)
         else SetupProtectedCache env (memory_clear s)))"

definition DestroyCache ::
  "'db ldb_ops \<Rightarrow> CacheType \<Rightarrow> ('a, 'db) default_cache \<Rightarrow> (('a, 'db) default_cache \<times> 'db disk_cache option) option" where
  "DestroyCache L type s =
     (if type = kMutable then do {
        (s, disk) \<leftarrow>
          (case mutable_cache s of
             Some disk \<Rightarrow>
               if dirty (protected_keys s) then do {
                 (s, batch, _) \<leftarrow> MaybeUpdatedProtectedKeys s;
                 Some (s, Some (fst (ApplyBatch L batch disk))) }
               else Some (s, Some disk)
           | None \<Rightarrow> Some (s, None));
        Some (s\<lparr>mutable_cache := None, mutable_cache_lru := None, protected_keys := ProtectedKeyList_new,
                mutable_cache_data_size := 0\<rparr>, disk) }
      else Some (s\<lparr>protected_cache := None\<rparr>, None))"

definition DefaultCache_Close ::
  "'db ldb_ops \<Rightarrow> ('a, 'db) default_cache \<Rightarrow> (('a, 'db) default_cache \<times> 'db disk_cache option) option" where
  "DefaultCache_Close L s =
     (if \<not> is_open s then Some (s, None)
      else do {
        let s = s\<lparr>memory_cache := None\<rparr>;
        (s, disk) \<leftarrow> DestroyCache L kMutable s;
        (s, _) \<leftarrow> DestroyCache L kProtected s;
        Some (s\<lparr>is_open := False\<rparr>, disk) })"

definition DefaultCache_Close_type ::
  "'db ldb_ops \<Rightarrow> CacheType \<Rightarrow> ('a, 'db) default_cache \<Rightarrow> (('a, 'db) default_cache \<times> bool) option" where
  "DefaultCache_Close_type L type s =
     (if \<not> is_open s then Some (s, False)
      else do { (s, _) \<leftarrow> DestroyCache L type s; Some (s, True) })"

definition DefaultCache_Clear ::
  "'db ldb_ops \<Rightarrow> 'db setup_env \<Rightarrow> ('a, 'db) default_cache \<Rightarrow> (('a, 'db) default_cache \<times> bool) option" where
  "DefaultCache_Clear L env s =
     (if \<not> is_open s then Some (s, False)
      else do {
        let s = memory_clear s;
        let s = s\<lparr>mutable_cache_lru := map_option LruCache.Clear (mutable_cache_lru s)\<rparr>;
        let (s, ok) =
          (case mutable_cache s of
             None \<Rightarrow> (s, True)
           | Some disk \<Rightarrow>
               (let (disk, r) = DiskCache_Clear (clear_removed env) disk in
                (s\<lparr>mutable_cache := Some disk, mutable_cache_data_size := 0\<rparr>, r)));
        if \<not> ok then Some (s, False)
        else do { (s, r) \<leftarrow> SetupStorage L env s; Some (s, r = StorageSuccess) } })"

section \<open>Public operations\<close>

definition memory_put ::
  "time_t \<Rightarrow> string \<Rightarrow> 'a cached option \<Rightarrow> time_t \<Rightarrow> u64 \<Rightarrow> ('a, 'db) default_cache \<Rightarrow> ('a, 'db) default_cache option" where
  "memory_put now key item expiry sz s =
     (case memory_cache s of
        None \<Rightarrow> Some s
      | Some mem \<Rightarrow> do {
          (mem, _) \<leftarrow> InMemoryCache_Put key item (GetExpiryForMemoryCache key expiry s) sz now now mem;
          Some (s\<lparr>memory_cache := Some mem\<rparr>) })"

text \<open>The lookup in the memory cache that starts \<open>Read\<close> and \<open>Get\<close>; a hit promotes the key.\<close>

definition memory_get ::
  "time_t \<Rightarrow> string \<Rightarrow> ('a, 'db) default_cache \<Rightarrow> (('a, 'db) default_cache \<times> 'a cached option) option" where
  "memory_get now key s =
     (case memory_cache s of
        None \<Rightarrow> Some (s, None)
      | Some mem \<Rightarrow> do {
          (mem, value) \<leftarrow> InMemoryCache_Get key now mem;
          let s = s\<lparr>memory_cache := Some mem\<rparr>;
          if value \<noteq> None then do { (s, _) \<leftarrow> PromoteKeyLru key s; Some (s, value) }
          else Some (s, None) })"

definition Read ::
  "'db ldb_ops \<Rightarrow> time_t \<Rightarrow> string \<Rightarrow> ('a, 'db) default_cache
    \<Rightarrow> (('a, 'db) default_cache \<times> (ErrorCode + string)) option" where
  "Read L now key s =
     (if \<not> is_open s then Some (s, Inl PreconditionFailed)
      else do {
        (s, hit) \<leftarrow> memory_get now key s;
        case hit of
          Some (Bytes value) \<Rightarrow> Some (s, Inr value)
        | Some (Object _) \<Rightarrow> None
        | None \<Rightarrow> do {
            (s, result) \<leftarrow> GetFromDiskCache L now key s;
            case result of
              Inr (value, expiry) \<Rightarrow> do {
                s \<leftarrow> memory_put now key (Some (Bytes value)) expiry (len value) s;
                Some (s, Inr value) }
            | Inl _ \<Rightarrow> Some (s, Inl NotFound) } })"

definition Write ::
  "'db ldb_ops \<Rightarrow> time_t \<Rightarrow> string \<Rightarrow> string option \<Rightarrow> time_t \<Rightarrow> ('a, 'db) default_cache
    \<Rightarrow> (('a, 'db) default_cache \<times> (ErrorCode + unit)) option" where
  "Write L now key value expiry s =
     (case value of
        None \<Rightarrow> Some (s, Inl InvalidArgument)
      | Some v \<Rightarrow>
          if \<not> is_open s then Some (s, Inl PreconditionFailed)
          else do {
            s \<leftarrow> memory_put now key (Some (Bytes v)) expiry (len v) s;
            PutMutableCache L now key v expiry s })"

definition DefaultCache_Put_any ::
  "'db ldb_ops \<Rightarrow> time_t \<Rightarrow> string \<Rightarrow> 'a option \<Rightarrow> string \<Rightarrow> time_t \<Rightarrow> ('a, 'db) default_cache
    \<Rightarrow> (('a, 'db) default_cache \<times> bool) option" where
  "DefaultCache_Put_any L now key value encoded expiry s =
     (if \<not> is_open s then Some (s, False)
      else do {
        s \<leftarrow> memory_put now key (map_option Object value) expiry (len encoded) s;
        (s, r) \<leftarrow> PutMutableCache L now key encoded expiry s;
        Some (s, r = Inr ()) })"

definition DefaultCache_Put ::
  "'db ldb_ops \<Rightarrow> time_t \<Rightarrow> string \<Rightarrow> string option \<Rightarrow> time_t \<Rightarrow> ('a, 'db) default_cache
    \<Rightarrow> (('a, 'db) default_cache \<times> bool) option" where
  "DefaultCache_Put L now key value expiry s = do {
     (s, r) \<leftarrow> Write L now key value expiry s;
     Some (s, r = Inr ()) }"

definition DefaultCache_Get_any ::
  "'db ldb_ops \<Rightarrow> time_t \<Rightarrow> string \<Rightarrow> (string \<Rightarrow> 'a option) \<Rightarrow> ('a, 'db) default_cache
    \<Rightarrow> (('a, 'db) default_cache \<times> 'a cached option) option" where
  "DefaultCache_Get_any L now key decoder s =
     (if \<not> is_open s then Some (s, None)
      else do {
        (s, hit) \<leftarrow> memory_get now key s;
        if hit \<noteq> None then Some (s, hit)
        else do {
          (s, result) \<leftarrow> GetFromDiskCache L now key s;
          case result of
            Inr (value, expiry) \<Rightarrow> do {
              let decoded = map_option Object (decoder value);
              s \<leftarrow> memory_put now key decoded expiry (len value) s;
              Some (s, decoded) }
          | Inl _ \<Rightarrow> Some (s, None) } })"

definition DefaultCache_Get ::
  "'db ldb_ops \<Rightarrow> time_t \<Rightarrow> string \<Rightarrow> ('a, 'db) default_cache \<Rightarrow> (('a, 'db) default_cache \<times> string option) option" where
  "DefaultCache_Get L now key s = do {
     (s, r) \<leftarrow> Read L now key s;
     Some (s, case r of Inr v \<Rightarrow> Some v | Inl _ \<Rightarrow> None) }"

definition Delete ::
  "'db ldb_ops \<Rightarrow> string \<Rightarrow> ('a, 'db) default_cache \<Rightarrow> (('a, 'db) default_cache \<times> (ErrorCode + unit)) option" where
  "Delete L key s =
     (if \<not> is_open s then Some (s, Inl PreconditionFailed)
      else if IsProtected key (protected_keys s) then Some (s, Inl PreconditionFailed)
      else do {
        s \<leftarrow> memory_remove key s;
        (s, _) \<leftarrow> RemoveKeyLru key s;
        case mutable_cache s of
          None \<Rightarrow> Some (s, Inr ())
        | Some disk \<Rightarrow>
            (let (disk, result, removed_data_size) = PurgeDiskItem L key disk in
             Some (s\<lparr>mutable_cache := Some disk,
                     mutable_cache_data_size := mutable_cache_data_size s - removed_data_size\<rparr>, result)) })"

definition DefaultCache_Remove ::
  "'db ldb_ops \<Rightarrow> string \<Rightarrow> ('a, 'db) default_cache \<Rightarrow> (('a, 'db) default_cache \<times> bool) option" where
  "DefaultCache_Remove L key s = do { (s, r) \<leftarrow> Delete L key s; Some (s, r = Inr ()) }"

definition DeleteByPrefix ::
  "'db ldb_ops \<Rightarrow> string \<Rightarrow> ('a, 'db) default_cache \<Rightarrow> (('a, 'db) default_cache \<times> (ErrorCode + unit)) option" where
  "DeleteByPrefix L pre s =
     (if \<not> is_open s then Some (s, Inl PreconditionFailed)
      else do {
        let flt = (\<lambda>cache_key. IsProtected cache_key (protected_keys s));
        s \<leftarrow> (case memory_cache s of
                None \<Rightarrow> Some s
              | Some mem \<Rightarrow> do {
                  mem \<leftarrow> InMemoryCache.RemoveKeysWithPrefix pre flt mem;
                  Some (s\<lparr>memory_cache := Some mem\<rparr>) });
        s \<leftarrow> RemoveKeysWithPrefixLru pre s;
        case mutable_cache s of
          None \<Rightarrow> Some (s, Inr ())
        | Some disk \<Rightarrow>
            (let (disk, result, removed_data_size) = DiskCache_RemoveKeysWithPrefix L pre flt disk in
             Some (s\<lparr>mutable_cache := Some disk,
                     mutable_cache_data_size := mutable_cache_data_size s - removed_data_size\<rparr>, result)) })"

definition DefaultCache_Contains ::
  "'db ldb_ops \<Rightarrow> time_t \<Rightarrow> string \<Rightarrow> ('a, 'db) default_cache \<Rightarrow> bool option" where
  "DefaultCache_Contains L now key s =
     (if \<not> is_open s then Some False
      else
        (let in_memory = (case memory_cache s of
                            Some mem \<Rightarrow> if protected_cache s = None \<and> mutable_cache s = None
                                        then InMemoryCache_Contains key now mem else Some False
                          | None \<Rightarrow> Some False);
             not_protected =
               (case mutable_cache_lru s of
                  Some lru \<Rightarrow>
                    (let it = FindNoPromote key lru in
                     if it \<noteq> None then do {
                       props \<leftarrow> it_value it lru;
                       if \<not> IsExpiryValid (vp_expiry props) then Some True
                       else do { e \<leftarrow> time_add (vp_expiry props) (- now); Some (0 < e) } }
                     else if IsProtected key (protected_keys s)
                     then Some (case mutable_cache s of None \<Rightarrow> False | Some disk \<Rightarrow> DiskCache_Contains L key disk)
                     else in_memory)
                | None \<Rightarrow>
                    (case mutable_cache s of
                       Some disk \<Rightarrow>
                         if DiskCache_Contains L key disk then do {
                           e \<leftarrow> GetRemainingExpiryTime L now key disk;
                           Some (0 < e \<or> IsProtected key (protected_keys s)) }
                         else in_memory
                     | None \<Rightarrow> in_memory)) in
         case protected_cache s of
           Some disk \<Rightarrow>
             if DiskCache_Contains L key disk
             then map_option (\<lambda>e. 0 < e) (GetRemainingExpiryTime L now key disk)
             else not_protected
         | None \<Rightarrow> not_protected))"

text \<open>The callback of \<open>Protect\<close> for one newly protected key.\<close>

fun protect_callbacks :: "string list \<Rightarrow> ('a, 'db) default_cache \<Rightarrow> ('a, 'db) default_cache option" where
  "protect_callbacks [] s = Some s"
| "protect_callbacks (key # keys) s = do {
     (s, removed) \<leftarrow> RemoveKeyLru key s;
     s \<leftarrow> (if \<not> removed then RemoveKeysWithPrefixLru key s else Some s);
     protect_callbacks keys s }"

definition DefaultCache_Protect ::
  "string list \<Rightarrow> ('a, 'db) default_cache \<Rightarrow> (('a, 'db) default_cache \<times> bool) option" where
  "DefaultCache_Protect keys s =
     (if mutable_cache s = None then Some (s, False)
      else do {
        let (pk, result, calls) = Protect keys (protected_keys s);
        s \<leftarrow> protect_callbacks calls (s\<lparr>protected_keys := pk\<rparr>);
        Some (if result then memory_clear s else s, result) })"

fun add_released :: "string \<Rightarrow> (string \<times> string) list \<Rightarrow> ('a, 'db) default_cache \<Rightarrow> ('a, 'db) default_cache option" where
  "add_released key [] s = Some s"
| "add_released key ((cached_key, value) # it) s =
     (if starts_with key cached_key then do { s \<leftarrow> AddKeyLru cached_key value s; add_released key it s }
      else Some s)"

fun release_loop :: "'db ldb_ops \<Rightarrow> string list \<Rightarrow> ('a, 'db) default_cache \<Rightarrow> ('a, 'db) default_cache option" where
  "release_loop L [] s = Some s"
| "release_loop L (key # keys) s = do {
     s \<leftarrow> (case memory_cache s of
             None \<Rightarrow> Some s
           | Some mem \<Rightarrow> do {
               (mem, removed) \<leftarrow> InMemoryCache_Remove key mem;
               mem \<leftarrow> (if \<not> removed then InMemoryCache.RemoveKeysWithPrefix key (\<lambda>_. False) mem else Some mem);
               Some (s\<lparr>memory_cache := Some mem\<rparr>) });
     s \<leftarrow> (case (mutable_cache s, mutable_cache_lru s) of
             (Some disk, Some _) \<Rightarrow> do {
               it \<leftarrow> DiskCache_NewIterator L disk;
               add_released key (Seek key it) s }
           | _ \<Rightarrow> Some s);
     release_loop L keys s }"

definition DefaultCache_Release ::
  "'db ldb_ops \<Rightarrow> string list \<Rightarrow> ('a, 'db) default_cache \<Rightarrow> (('a, 'db) default_cache \<times> bool) option" where
  "DefaultCache_Release L keys s =
     (if mutable_cache s = None then Some (s, False)
      else
        (let (pk, result) = Release keys (protected_keys s);
             s = s\<lparr>protected_keys := pk\<rparr> in
         if \<not> result then Some (s, False)
         else do { s \<leftarrow> release_loop L keys s; Some (s, True) }))"

definition DefaultCache_IsProtected :: "string \<Rightarrow> ('a, 'db) default_cache \<Rightarrow> bool" where
  "DefaultCache_IsProtected key s = IsProtected key (protected_keys s)"

definition DefaultCache_Size :: "'db ldb_ops \<Rightarrow> CacheType \<Rightarrow> ('a, 'db) default_cache \<Rightarrow> u64" where
  "DefaultCache_Size L type s =
     (if type = kMutable then mutable_cache_data_size s
      else case protected_cache s of None \<Rightarrow> 0 | Some disk \<Rightarrow> DiskCache_Size L disk)"

definition DefaultCache_Resize ::
  "'db ldb_ops \<Rightarrow> time_t \<Rightarrow> u64 \<Rightarrow> ('a, 'db) default_cache \<Rightarrow> (('a, 'db) default_cache \<times> u64) option" where
  "DefaultCache_Resize L now new_size s =
     (if \<not> is_open s \<or> mutable_cache s = None \<or> mutable_cache_lru s = None then Some (s, 0)
      else if max_disk_storage (settings s) \<le> new_size
      then Some (s\<lparr>settings := (settings s)\<lparr>max_disk_storage := new_size\<rparr>\<rparr>, 0)
      else do {
        (s, n_evicted) \<leftarrow> MaybeEvictData L now (s\<lparr>settings := (settings s)\<lparr>max_disk_storage := new_size\<rparr>\<rparr>);
        Some (s\<lparr>mutable_cache_data_size := mutable_cache_data_size s - n_evicted\<rparr>, n_evicted) })"

definition DefaultCache_Promote :: "string \<Rightarrow> ('a, 'db) default_cache \<Rightarrow> ('a, 'db) default_cache option" where
  "DefaultCache_Promote key s =
     (case mutable_cache_lru s of
        None \<Rightarrow> Some s
      | Some lru \<Rightarrow> do { (lru, _) \<leftarrow> Find key lru; Some (s\<lparr>mutable_cache_lru := Some lru\<rparr>) })"

definition SetEvictionPortion :: "u64 \<Rightarrow> ('a, 'db) default_cache \<Rightarrow> ('a, 'db) default_cache" where
  "SetEvictionPortion sz s = s\<lparr>eviction_portion := sz\<rparr>"

section \<open>Invariant\<close>

definition mem_ok :: "'a cached in_memory_cache option \<Rightarrow> bool" where
  "mem_ok m \<longleftrightarrow> (\<forall>mem. m = Some mem \<longrightarrow> (\<exists>l. imc_rel mem l))"

definition lru_ok :: "('a, 'db) default_cache \<Rightarrow> (string \<times> ValueProperties) list \<Rightarrow> bool" where
  "lru_ok s l \<longleftrightarrow> (\<exists>lru. mutable_cache_lru s = Some lru \<and> lru_rel lru l)"

text \<open>The memory cache and the LRU list are well formed, no key in the LRU list is protected, the
  list of protected keys is prefix-free and the mutable database is open.\<close>

definition dc_inv :: "('a, 'db) default_cache \<Rightarrow> bool" where
  "dc_inv s \<longleftrightarrow> mem_ok (memory_cache s) \<and> pk_ok (protected_data (protected_keys s))
     \<and> (\<forall>disk. mutable_cache s = Some disk \<longrightarrow> database disk \<noteq> None)
     \<and> (\<forall>lru. mutable_cache_lru s = Some lru \<longrightarrow>
          (\<exists>l. lru_rel lru l \<and> (\<forall>k \<in> fst ` set l. \<not> IsProtected k (protected_keys s))))"

definition disk_at :: "'db ldb_ops \<Rightarrow> ('a, 'db) default_cache \<Rightarrow> string \<Rightarrow> string option" where
  "disk_at L s k = (case mutable_cache s of None \<Rightarrow> None | Some disk \<Rightarrow> disk_map L disk k)"

lemma memory_remove_ok:
  assumes "mem_ok (memory_cache s)"
  shows "\<exists>m. memory_remove key s = Some (s\<lparr>memory_cache := m\<rparr>) \<and> mem_ok m"
proof (cases "memory_cache s")
  case None
  then have "s = s\<lparr>memory_cache := None\<rparr>" by simp
  with None show ?thesis by (intro exI [of _ None]) (simp add: memory_remove_def mem_ok_def)
next
  case (Some mem)
  with assms obtain l where "imc_rel mem l" by (auto simp: mem_ok_def)
  from Remove_rel [OF this, of key] Some show ?thesis by (auto simp: memory_remove_def mem_ok_def)
qed

section \<open>Eviction\<close>

text \<open>A batch that deletes only some keys and their expiry entries.\<close>

definition deletes :: "string set \<Rightarrow> batch_op list \<Rightarrow> bool" where
  "deletes K batch \<longleftrightarrow> (\<forall>op \<in> set batch. \<exists>k \<in> K. op = BDelete k \<or> op = BDelete (CreateExpiryKey k))"

lemma deletes_simps [simp]:
  "deletes K []"
  "deletes K (op # batch) \<longleftrightarrow> (\<exists>k \<in> K. op = BDelete k \<or> op = BDelete (CreateExpiryKey k)) \<and> deletes K batch"
  by (auto simp: deletes_def)

lemma deletes_mono: "deletes K batch \<Longrightarrow> K \<subseteq> K' \<Longrightarrow> deletes K' batch"
  by (auto simp: deletes_def)

lemma apply_deletes_frame:
  assumes "deletes K batch" and "k \<notin> K" and "\<forall>j \<in> K. k \<noteq> CreateExpiryKey j"
  shows "map_of (apply_batch batch m) k = map_of m k"
  using assms
proof (induction batch arbitrary: m)
  case (Cons op batch)
  then have "map_of (apply_op op m) k = map_of m k" by auto
  with Cons show ?case by simp
qed simp

text \<open>What one portion of eviction does to the state: some entries are gone from the list, the
  batch deletes only entries of the list, and if something was counted, the list is shorter.\<close>

definition evicts ::
  "(string \<times> ValueProperties) list \<Rightarrow> u64 \<Rightarrow> ('a, 'db) default_cache \<Rightarrow> ('a, 'db) default_cache
    \<Rightarrow> batch_op list \<Rightarrow> u64 \<Rightarrow> bool" where
  "evicts l n s s' batch n' \<longleftrightarrow>
     (\<exists>m lru' l'. s' = s\<lparr>memory_cache := m, mutable_cache_lru := Some lru'\<rparr> \<and> mem_ok m
       \<and> lru_rel lru' l' \<and> set l' \<subseteq> set l \<and> deletes (fst ` set l) batch
       \<and> (length l' < length l \<or> n' = n \<and> l' = l))"

lemma evicts_stop:
  "lru_ok s l \<Longrightarrow> mem_ok (memory_cache s) \<Longrightarrow> evicts l n s s [] n"
proof -
  assume "lru_ok s l" and m: "mem_ok (memory_cache s)"
  then obtain lru where lru: "mutable_cache_lru s = Some lru" "lru_rel lru l" by (auto simp: lru_ok_def)
  then have "s = s\<lparr>memory_cache := memory_cache s, mutable_cache_lru := Some lru\<rparr>" by simp
  with m lru(2) show ?thesis
    unfolding evicts_def by (intro exI [of _ "memory_cache s"] exI [of _ lru] exI [of _ l]) simp
qed

lemma evicts_step:
  assumes m: "memory_remove k s = Some (s\<lparr>memory_cache := m\<rparr>)"
    and e: "evicts l1 n1 (s\<lparr>memory_cache := m, mutable_cache_lru := Some lru1\<rparr>) s' batch n'"
    and l: "set l1 \<subseteq> set l" "length l1 < length l" "k \<in> fst ` set l"
  shows "evicts l n s s' (BDelete k # BDelete (CreateExpiryKey k) # batch) n'"
    and "evicts l n s s' (BDelete k # batch) n'"
proof -
  from e obtain m' lru' l' where
    s': "s' = s\<lparr>memory_cache := m, mutable_cache_lru := Some lru1\<rparr>\<lparr>memory_cache := m', mutable_cache_lru := Some lru'\<rparr>"
      "mem_ok m'" "lru_rel lru' l'" "set l' \<subseteq> set l1" "deletes (fst ` set l1) batch"
      "length l' < length l1 \<or> n' = n1 \<and> l' = l1"
    unfolding evicts_def by blast
  have "s' = s\<lparr>memory_cache := m', mutable_cache_lru := Some lru'\<rparr>" using s'(1) by simp
  moreover have "deletes (fst ` set l) batch" by (rule deletes_mono [OF s'(5) image_mono [OF l(1)]])
  moreover have "length l' < length l" using s'(6) l(2) by auto
  moreover have "set l' \<subseteq> set l" using s'(4) l(1) by (rule subset_trans)
  ultimately show "evicts l n s s' (BDelete k # BDelete (CreateExpiryKey k) # batch) n'"
    and "evicts l n s s' (BDelete k # batch) n'"
    unfolding evicts_def using s'(2,3) l(3) by (intro exI [of _ m'] exI [of _ lru'] exI [of _ l']; simp; blast)+
qed

lemma evict_expired_loop_rel:
  assumes "mutable_cache_lru s = Some lru" and "lru_rel lru (xs @ ys)" and "mem_ok (memory_cache s)"
  shows "\<exists>s' batch n'. evict_expired_loop now target (hd_key ys None) n s = Some (s', batch, n')
    \<and> evicts (xs @ ys) n s s' batch n'"
  using assms
proof (induction ys arbitrary: xs s lru n)
  case Nil
  then have "evicts (xs @ []) n s s [] n" by (intro evicts_stop) (auto simp: lru_ok_def)
  then show ?case by (subst evict_expired_loop.simps) simp
next
  case (Cons e ys)
  obtain k p where e: "e = (k, p)" by (cases e)
  have val: "it_value (Some k) lru = Some p" using it_value_mid [of lru xs k p ys] Cons.prems(2) e by simp
  have stop: "evicts (xs @ e # ys) n s s [] n" using Cons.prems by (intro evicts_stop) (auto simp: lru_ok_def)
  consider (stop) "\<not> n < target" | (skip) "n < target" "\<not> vp_expiry p - now \<le> 0"
    | (expired) "n < target" "vp_expiry p - now \<le> 0" by blast
  then show ?case
  proof cases
    case stop
    with \<open>evicts (xs @ e # ys) n s s [] n\<close> Cons.prems(1) e show ?thesis
      by (subst evict_expired_loop.simps) simp
  next
    case skip
    have nxt: "it_next (Some k) lru = Some (hd_key ys None)"
      using it_next_rel [of lru xs k p ys] Cons.prems(2) e by simp
    have "evict_expired_loop now target (hd_key (e # ys) None) n s = evict_expired_loop now target (hd_key ys None) n s"
      using Cons.prems(1) e skip val nxt by (subst evict_expired_loop.simps) simp
    moreover have "lru_rel lru ((xs @ [e]) @ ys)" using Cons.prems(2) by simp
    ultimately show ?thesis using Cons.IH [OF Cons.prems(1) _ Cons.prems(3), of "xs @ [e]" n] by simp
  next
    case expired
    from memory_remove_ok [OF Cons.prems(3), of k] obtain m
      where m: "memory_remove k s = Some (s\<lparr>memory_cache := m\<rparr>)" "mem_ok m" by blast
    from Erase_it_rel [of lru xs k p ys] Cons.prems(2) e obtain lru1
      where l1: "Erase_it (Some k) lru = Some (lru1, hd_key ys None)" "lru_rel lru1 (xs @ ys)" by auto
    let ?n = "n + (len k + vp_size p) + (len (CreateExpiryKey k) + kExpiryValueSize)"
    let ?s = "s\<lparr>memory_cache := m, mutable_cache_lru := Some lru1\<rparr>"
    from Cons.IH [of ?s lru1 xs ?n] l1(2) m(2) obtain s' batch n'
      where r: "evict_expired_loop now target (hd_key ys None) ?n ?s = Some (s', batch, n')"
        "evicts (xs @ ys) ?n ?s s' batch n'" by auto
    have "evict_expired_loop now target (hd_key (e # ys) None) n s
        = Some (s', BDelete k # BDelete (CreateExpiryKey k) # batch, n')"
      using Cons.prems(1) e expired val m(1) l1(1) r(1) by (subst evict_expired_loop.simps) simp
    moreover have "evicts (xs @ e # ys) n s s' (BDelete k # BDelete (CreateExpiryKey k) # batch) n'"
      by (rule evicts_step(1) [OF m(1) r(2)]) (auto simp: e)
    ultimately show ?thesis by blast
  qed
qed

lemma evict_data_loop_rel:
  assumes "lru_ok s l" and "mem_ok (memory_cache s)"
  shows "\<exists>s' batch n'. evict_data_loop target n s = Some (s', batch, n') \<and> evicts l n s s' batch n'"
  using assms
proof (induction l arbitrary: s n rule: rev_induct)
  case Nil
  then obtain lru where "mutable_cache_lru s = Some lru" "lru_last lru = None"
    by (auto simp: lru_ok_def lru_rel_def)
  with evicts_stop [OF Nil, of n] show ?case by (subst evict_data_loop.simps) simp
next
  case (snoc e l)
  obtain k p where e: "e = (k, p)" by (cases e)
  from snoc.prems(1) obtain lru where lru: "mutable_cache_lru s = Some lru" "lru_rel lru (l @ (k, p) # [])"
    by (auto simp: lru_ok_def e)
  then have last: "lru_last lru = Some k" and val: "it_value (Some k) lru = Some p"
    using it_value_mid [OF lru(2)] by (auto simp: lru_rel_def)
  show ?case
  proof (cases "n < target")
    case False
    with evicts_stop [OF snoc.prems, of n] lru last show ?thesis
      by (subst evict_data_loop.simps) simp
  next
    case True
    from memory_remove_ok [OF snoc.prems(2), of k] obtain m
      where m: "memory_remove k s = Some (s\<lparr>memory_cache := m\<rparr>)" "mem_ok m" by blast
    have "om_delete k (l @ [(k, p)]) = l"
      using lru(2) by (auto simp: lru_rel_def om_delete_def filter_neq_fresh)
    with Erase_rel [OF lru(2), of k] obtain lru1 r1
      where l1: "Erase k lru = Some (lru1, r1)" "lru_rel lru1 l" by auto
    let ?h = "IsExpiryValid (vp_expiry p)"
    let ?n = "if ?h then n + (len k + vp_size p) + (len (CreateExpiryKey k) + kExpiryValueSize) else n + (len k + vp_size p)"
    let ?s = "s\<lparr>memory_cache := m, mutable_cache_lru := Some lru1\<rparr>"
    have "lru_ok ?s l" using l1(2) by (simp add: lru_ok_def)
    from snoc.IH [OF this, of ?n] m(2) obtain s' batch n'
      where r: "evict_data_loop target ?n ?s = Some (s', batch, n')" "evicts l ?n ?s s' batch n'" by auto
    have "evict_data_loop target n s
        = Some (s', BDelete k # (if ?h then [BDelete (CreateExpiryKey k)] else []) @ batch, n')"
      using lru(1) last val True m(1) l1(1) r(1) by (subst evict_data_loop.simps) (simp add: Let_def)
    moreover have "evicts (l @ [e]) n s s' (BDelete k # (if ?h then [BDelete (CreateExpiryKey k)] else []) @ batch) n'"
      using evicts_step [OF m(1) r(2), of "l @ [e]" n] e by auto
    ultimately show ?thesis by blast
  qed
qed

text \<open>The contract of an eviction method, and the loop that calls it: with a positive portion it
  returns, and it touches the database only at the evicted keys.\<close>

definition keeps_others ::
  "'db ldb_ops \<Rightarrow> string set \<Rightarrow> 'db disk_cache \<Rightarrow> 'db disk_cache \<Rightarrow> bool" where
  "keeps_others L K disk disk' \<longleftrightarrow>
     (\<forall>k. k \<notin> K \<and> (\<forall>j \<in> K. k \<noteq> CreateExpiryKey j) \<longrightarrow> disk_map L disk' k = disk_map L disk k)"

lemma keeps_others_trans:
  assumes "keeps_others L K a b" and "keeps_others L K' b c" and "K' \<subseteq> K"
  shows "keeps_others L K a c"
  unfolding keeps_others_def
proof (intro allI impI, elim conjE)
  fix k
  assume k: "k \<notin> K" "\<forall>j \<in> K. k \<noteq> CreateExpiryKey j"
  then have "k \<notin> K'" "\<forall>j \<in> K'. k \<noteq> CreateExpiryKey j" using assms(3) by auto
  with k assms(1,2) show "disk_map L c k = disk_map L a k" by (simp add: keeps_others_def)
qed

definition evicted_to ::
  "'db ldb_ops \<Rightarrow> (string \<times> ValueProperties) list \<Rightarrow> ('a, 'db) default_cache \<Rightarrow> ('a, 'db) default_cache \<Rightarrow> bool" where
  "evicted_to L l s s' \<longleftrightarrow>
     (\<exists>m lru' l' disk disk'.
        s' = s\<lparr>memory_cache := m, mutable_cache_lru := Some lru', mutable_cache := Some disk'\<rparr>
        \<and> mem_ok m \<and> lru_rel lru' l' \<and> set l' \<subseteq> set l
        \<and> mutable_cache s = Some disk \<and> database disk' \<noteq> None \<and> keeps_others L (fst ` set l) disk disk')"

locale eviction_method =
  fixes M :: "u64 \<Rightarrow> ('a, 'db) default_cache \<Rightarrow> (('a, 'db) default_cache \<times> batch_op list \<times> u64) option"
  assumes portion: "lru_ok s l \<Longrightarrow> mem_ok (memory_cache s) \<Longrightarrow>
    \<exists>s' batch n. M target s = Some (s', batch, n) \<and> evicts l 0 s s' batch n"
begin

lemma call_evict:
  assumes L: "ldb_laws L"
  shows "lru_ok s l \<Longrightarrow> mem_ok (memory_cache s) \<Longrightarrow> mutable_cache s = Some disk \<Longrightarrow> database disk \<noteq> None \<Longrightarrow>
    0 < eviction_portion s \<Longrightarrow>
    \<exists>s' e left'. call_evict_method L M lft e0 s = Some (s', e, left') \<and> evicted_to L l s s'"
proof (induction l arbitrary: s disk lft e0 rule: measure_induct_rule [of length])
  case (less l)
  let ?target = "if lft < eviction_portion s then lft else eviction_portion s"
  from portion [OF less.prems(1,2), of ?target] obtain s1 batch n
    where M: "M ?target s = Some (s1, batch, n)" "evicts l 0 s s1 batch n" by blast
  from M(2) obtain m lru1 l1
    where s1: "s1 = s\<lparr>memory_cache := m, mutable_cache_lru := Some lru1\<rparr>" "mem_ok m" "lru_rel lru1 l1"
      "set l1 \<subseteq> set l" "deletes (fst ` set l) batch" "length l1 < length l \<or> n = 0 \<and> l1 = l"
    unfolding evicts_def by blast
  obtain disk1 r where a: "ApplyBatch L batch disk = (disk1, r)" by fastforce
  note entries = ApplyBatch_entries [OF L less.prems(4) a]
  have keep: "keeps_others L (fst ` set l) disk disk1"
    unfolding keeps_others_def using apply_deletes_frame [OF s1(5)] entries(2) by (auto split: sum.split)
  let ?s = "s\<lparr>memory_cache := m, mutable_cache_lru := Some lru1, mutable_cache := Some disk1\<rparr>"
  have fin: "evicted_to L l s ?s"
    unfolding evicted_to_def using s1(2-4) less.prems(3) entries(1) keep by blast
  have step: "call_evict_method L M lft e0 s =
      (case r of Inl _ \<Rightarrow> Some (?s, e0, lft)
       | Inr _ \<Rightarrow> if ?target \<le> n \<and> 0 < sint (lft - n) then call_evict_method L M (lft - n) (e0 + n) ?s
                 else Some (?s, e0 + n, lft - n))"
    using M(1) s1(1) less.prems(3) a by (subst call_evict_method.simps) (simp add: Let_def split: sum.split)
  show ?case
  proof (cases "r = Inr () \<and> ?target \<le> n \<and> 0 < sint (lft - n)")
    case False
    then show ?thesis using step fin by (cases r) auto
  next
    case True
    have "n \<noteq> 0"
    proof
      assume "n = 0"
      with True have "?target = 0" "0 < sint lft" by auto
      with less.prems(5) show False by (auto split: if_splits)
    qed
    with s1(6) have shorter: "length l1 < length l" by blast
    have "lru_ok ?s l1" using s1(3) by (simp add: lru_ok_def)
    from less.IH [OF shorter this, of disk1 "lft - n" "e0 + n"] s1(2) entries(1) less.prems(5) obtain s' e left'
      where r': "call_evict_method L M (lft - n) (e0 + n) ?s = Some (s', e, left')" "evicted_to L l1 ?s s'" by auto
    from r'(2) obtain m2 lru2 l2 disk2
      where s2: "s' = ?s\<lparr>memory_cache := m2, mutable_cache_lru := Some lru2, mutable_cache := Some disk2\<rparr>"
        "mem_ok m2" "lru_rel lru2 l2" "set l2 \<subseteq> set l1" "database disk2 \<noteq> None"
        "keeps_others L (fst ` set l1) disk1 disk2"
      unfolding evicted_to_def by auto
    have "fst ` set l1 \<subseteq> fst ` set l" using s1(4) by (rule image_mono)
    then have "keeps_others L (fst ` set l) disk disk2"
      by (rule keeps_others_trans [OF keep s2(6)])
    moreover have "s' = s\<lparr>memory_cache := m2, mutable_cache_lru := Some lru2, mutable_cache := Some disk2\<rparr>"
      using s2(1) by simp
    ultimately have "evicted_to L l s s'"
      unfolding evicted_to_def using s2(2-5) s1(4) less.prems(3) by blast
    with step True r'(1) show ?thesis by auto
  qed
qed

end

interpretation expired_portion: eviction_method "EvictExpiredDataPortion now"
proof unfold_locales
  fix s :: "('a, 'b) default_cache" and l target
  assume s: "lru_ok s l" "mem_ok (memory_cache s)"
  then obtain lru where lru: "mutable_cache_lru s = Some lru" "lru_rel lru ([] @ l)" by (auto simp: lru_ok_def)
  then have "lru_first lru = hd_key l None" by (simp add: lru_rel_def)
  with lru evict_expired_loop_rel [OF lru s(2), of now target 0]
  show "\<exists>s' batch n. EvictExpiredDataPortion now target s = Some (s', batch, n) \<and> evicts l 0 s s' batch n"
    by (simp add: EvictExpiredDataPortion_def)
qed

interpretation data_portion: eviction_method EvictDataPortion
  by unfold_locales (simp add: EvictDataPortion_def evict_data_loop_rel)

lemma evicted_to_trans:
  assumes "evicted_to L l s s1" and "evicted_to L l1 s1 s2" and "lru_ok s1 l1" and "set l1 \<subseteq> set l"
  shows "evicted_to L l s s2"
proof -
  from assms(1) obtain m1 lru1 l1' disk disk1
    where s1: "s1 = s\<lparr>memory_cache := m1, mutable_cache_lru := Some lru1, mutable_cache := Some disk1\<rparr>"
      "mutable_cache s = Some disk" "keeps_others L (fst ` set l) disk disk1"
    unfolding evicted_to_def by auto
  from assms(2) obtain m2 lru2 l2 disk1' disk2
    where s2: "s2 = s1\<lparr>memory_cache := m2, mutable_cache_lru := Some lru2, mutable_cache := Some disk2\<rparr>"
      "mem_ok m2" "lru_rel lru2 l2" "set l2 \<subseteq> set l1" "mutable_cache s1 = Some disk1'" "database disk2 \<noteq> None"
      "keeps_others L (fst ` set l1) disk1' disk2"
    unfolding evicted_to_def by auto
  have "disk1' = disk1" using s1(1) s2(5) by simp
  have "fst ` set l1 \<subseteq> fst ` set l" using assms(4) by (rule image_mono)
  then have "keeps_others L (fst ` set l) disk disk2"
    by (rule keeps_others_trans [OF s1(3) s2(7) [unfolded \<open>disk1' = disk1\<close>]])
  moreover have "s2 = s\<lparr>memory_cache := m2, mutable_cache_lru := Some lru2, mutable_cache := Some disk2\<rparr>"
    using s1(1) s2(1) by simp
  ultimately show ?thesis
    unfolding evicted_to_def using s1(2) s2(2,3,4,6) assms(4) by blast
qed

lemma evicted_to_lru: "evicted_to L l s s' \<Longrightarrow> \<exists>l'. lru_ok s' l' \<and> set l' \<subseteq> set l"
  unfolding evicted_to_def lru_ok_def by auto

lemma MaybeEvictData_rel:
  assumes L: "ldb_laws L" and lru: "lru_ok s l" and m: "mem_ok (memory_cache s)"
    and disk: "mutable_cache s = Some disk" "database disk \<noteq> None" and p: "0 < eviction_portion s"
  shows "\<exists>s' n. MaybeEvictData L now s = Some (s', n) \<and> (s' = s \<or> evicted_to L l s s')"
proof (cases "below_max_threshold (mutable_cache_data_size s) (max_disk_storage (settings s))")
  case True
  with lru disk show ?thesis by (auto simp: MaybeEvictData_def lru_ok_def)
next
  case False
  let ?left = "mutable_cache_data_size s - min_threshold (max_disk_storage (settings s))"
  from expired_portion.call_evict [OF L lru m disk p, of now ?left 0] obtain s1 e1 left1
    where 1: "call_evict_method L (EvictExpiredDataPortion now) ?left 0 s = Some (s1, e1, left1)"
      "evicted_to L l s s1" by blast
  from lru have some: "mutable_cache_lru s \<noteq> None" by (auto simp: lru_ok_def)
  show ?thesis
  proof (cases "0 < sint left1")
    case False
    then show ?thesis using 1 \<open>\<not> below_max_threshold _ _\<close> disk some by (simp add: MaybeEvictData_def)
  next
    case True
    from evicted_to_lru [OF 1(2)] obtain l1 where l1: "lru_ok s1 l1" "set l1 \<subseteq> set l" by blast
    from 1(2) obtain disk1 where d1: "mutable_cache s1 = Some disk1" "database disk1 \<noteq> None"
      "mem_ok (memory_cache s1)" "eviction_portion s1 = eviction_portion s"
      unfolding evicted_to_def by auto
    from data_portion.call_evict [OF L l1(1) d1(3) d1(1,2), of left1 e1] p d1(4) obtain s2 e2 left2
      where 2: "call_evict_method L EvictDataPortion left1 e1 s1 = Some (s2, e2, left2)" "evicted_to L l1 s1 s2" by auto
    have "evicted_to L l s s2" by (rule evicted_to_trans [OF 1(2) 2(2) l1])
    with 1 2 True \<open>\<not> below_max_threshold _ _\<close> disk some show ?thesis by (simp add: MaybeEvictData_def)
  qed
qed

section \<open>Protected entries stay\<close>

text \<open>\<open>safe_key s k\<close>: \<open>k\<close> is protected, and it is not the expiry entry of an unprotected key.
  \<open>shields L k s s'\<close>: a step keeps the invariant, the entry of \<open>k\<close> on disk and the protected
  keys.\<close>

definition safe_key :: "('a, 'db) default_cache \<Rightarrow> string \<Rightarrow> bool" where
  "safe_key s k \<longleftrightarrow> IsProtected k (protected_keys s)
     \<and> (\<forall>j. k = CreateExpiryKey j \<longrightarrow> IsProtected j (protected_keys s))"

definition shields :: "'db ldb_ops \<Rightarrow> string \<Rightarrow> ('a, 'db) default_cache \<Rightarrow> ('a, 'db) default_cache \<Rightarrow> bool" where
  "shields L k s s' \<longleftrightarrow> dc_inv s' \<and> disk_at L s' k = disk_at L s k
     \<and> protected_data (protected_keys s') = protected_data (protected_keys s)
     \<and> eviction_portion s' = eviction_portion s"

lemma IsProtected_data:
  "protected_data a = protected_data b \<Longrightarrow> IsProtected k a = IsProtected k b"
  by (simp add: IsProtected_def)

lemma shields_refl: "dc_inv s \<Longrightarrow> shields L k s s"
  by (simp add: shields_def)

lemma shields_trans: "shields L k s s1 \<Longrightarrow> shields L k s1 s2 \<Longrightarrow> shields L k s s2"
  by (simp add: shields_def)

lemma shields_safe: "shields L k s s' \<Longrightarrow> safe_key s k \<Longrightarrow> safe_key s' k"
  using IsProtected_data [of "protected_keys s'" "protected_keys s"]
  by (simp add: shields_def safe_key_def)

lemma shields_inv: "shields L k s s' \<Longrightarrow> dc_inv s'"
  by (simp add: shields_def)

lemma shields_memory: "dc_inv s \<Longrightarrow> mem_ok m \<Longrightarrow> shields L k s (s\<lparr>memory_cache := m\<rparr>)"
  by (simp add: shields_def dc_inv_def disk_at_def)

lemma shields_data_size: "dc_inv s \<Longrightarrow> shields L k s (s\<lparr>mutable_cache_data_size := n\<rparr>)"
  by (simp add: shields_def dc_inv_def disk_at_def)

lemma shields_lru:
  assumes "dc_inv s" and "mutable_cache_lru s = Some lru" and "lru_rel lru l" and "lru_rel lru' l'"
    and "\<And>x. x \<in> fst ` set l' \<Longrightarrow> x \<in> fst ` set l \<or> \<not> IsProtected x (protected_keys s)"
  shows "shields L k s (s\<lparr>mutable_cache_lru := Some lru'\<rparr>)"
proof -
  from assms(1,2) obtain l0 where l0: "lru_rel lru l0" "\<forall>x \<in> fst ` set l0. \<not> IsProtected x (protected_keys s)"
    by (auto simp: dc_inv_def)
  have "fst ` set l = fst ` set l0" using assms(3) l0(1) by (auto simp: lru_rel_def)
  with assms(4,5) l0(2) have "\<exists>l'. lru_rel lru' l' \<and> (\<forall>x \<in> fst ` set l'. \<not> IsProtected x (protected_keys s))" by blast
  with assms(1) show ?thesis by (simp add: shields_def dc_inv_def disk_at_def)
qed

lemma shields_disk:
  assumes "dc_inv s" and "mutable_cache s = Some disk" and "database disk' \<noteq> None"
    and "disk_map L disk' k = disk_map L disk k"
  shows "shields L k s (s\<lparr>mutable_cache := Some disk'\<rparr>)"
  using assms by (simp add: shields_def dc_inv_def disk_at_def)

lemma dc_inv_lru:
  "dc_inv s \<Longrightarrow> mutable_cache_lru s = Some lru \<Longrightarrow> \<exists>l. lru_rel lru l \<and> lru_ok s l \<and> (\<forall>k \<in> fst ` set l. \<not> IsProtected k (protected_keys s))"
  by (auto simp: dc_inv_def lru_ok_def)

lemma RemoveKeyLru_shields:
  assumes "dc_inv s"
  shows "\<exists>s' b. RemoveKeyLru key s = Some (s', b) \<and> shields L k s s'"
proof (cases "mutable_cache_lru s")
  case None
  then show ?thesis by (auto simp: RemoveKeyLru_def shields_refl assms)
next
  case (Some lru)
  from dc_inv_lru [OF assms Some] obtain l where l: "lru_rel lru l" by blast
  from Erase_rel [OF l, of key] obtain lru' b where e: "Erase key lru = Some (lru', b)" "lru_rel lru' (om_delete key l)" by blast
  have "shields L k s (s\<lparr>mutable_cache_lru := Some lru'\<rparr>)"
    by (rule shields_lru [OF assms Some l e(2)]) (auto simp: om_delete_def)
  with Some e(1) show ?thesis by (simp add: RemoveKeyLru_def)
qed

lemma RemoveKeysWithPrefixLru_shields:
  assumes "dc_inv s"
  shows "\<exists>s'. RemoveKeysWithPrefixLru key s = Some s' \<and> shields L k s s'"
proof (cases "mutable_cache_lru s")
  case None
  then show ?thesis by (simp add: RemoveKeysWithPrefixLru_def shields_refl assms)
next
  case (Some lru)
  from dc_inv_lru [OF assms Some] obtain l where l: "lru_rel lru ([] @ l)" by auto
  then have first: "lru_first lru = hd_key l None" by (simp add: lru_rel_def)
  from remove_loop_rel [OF l, of key "\<lambda>_. False"] obtain lru'
    where e: "remove_loop key (\<lambda>_. False) (lru_first lru) lru = Some lru'"
      "lru_rel lru' (filter (\<lambda>e. \<not> (prefix key (fst e) \<and> \<not> False)) l)" by (auto simp: first)
  have "shields L k s (s\<lparr>mutable_cache_lru := Some lru'\<rparr>)"
    by (rule shields_lru [OF assms Some _ e(2)]) (use l in auto)
  with Some e(1) show ?thesis by (simp add: RemoveKeysWithPrefixLru_def)
qed

lemma PromoteKeyLru_shields:
  assumes "dc_inv s"
  shows "\<exists>s' b. PromoteKeyLru key s = Some (s', b) \<and> shields L k s s'"
proof (cases "mutable_cache_lru s")
  case None
  then show ?thesis by (auto simp: PromoteKeyLru_def shields_refl assms)
next
  case (Some lru)
  from dc_inv_lru [OF assms Some] obtain l where l: "lru_rel lru l" by blast
  from Find_rel [OF l, of key] obtain lru' it where e: "Find key lru = Some (lru', it)" "lru_rel lru' (al_promote key l)" by blast
  have "shields L k s (s\<lparr>mutable_cache_lru := Some lru'\<rparr>)"
    by (rule shields_lru [OF assms Some l e(2)])
      (auto simp: al_promote_def om_delete_def split: option.splits dest!: map_of_SomeD intro: rev_image_eqI)
  with Some e(1) show ?thesis by (simp add: PromoteKeyLru_def)
qed

lemma memory_put_shields:
  assumes inv: "dc_inv s" and r: "memory_put now key item expiry sz s = Some s'"
  shows "shields L k s s'"
proof (cases "memory_cache s")
  case None
  with r inv show ?thesis by (simp add: memory_put_def shields_refl)
next
  case (Some mem)
  let ?e = "GetExpiryForMemoryCache key expiry s"
  from inv Some obtain l where l: "imc_rel mem l" by (auto simp: dc_inv_def mem_ok_def)
  from r Some obtain mem' b where p: "InMemoryCache_Put key item ?e sz now now mem = Some (mem', b)"
    "s' = s\<lparr>memory_cache := Some mem'\<rparr>" by (auto simp: memory_put_def split: bind_splits)
  have "times_ok (IPut key item ?e sz now now)"
    using p(1) PurgeExpired_rel [OF l, of now] by (auto simp: InMemoryCache_Put_def split: bind_splits if_splits)
  from Put_rel [OF l this] p(1) have "mem_ok (Some mem')" by (auto simp: mem_ok_def)
  with p(2) shields_memory [OF inv] show ?thesis by simp
qed

lemma memory_get_shields:
  assumes inv: "dc_inv s"
  shows "\<exists>s' v. memory_get now key s = Some (s', v) \<and> shields L k s s'"
proof (cases "memory_cache s")
  case None
  then show ?thesis by (simp add: memory_get_def shields_refl inv)
next
  case (Some mem)
  from inv Some obtain l where l: "imc_rel mem l" by (auto simp: dc_inv_def mem_ok_def)
  from Get_rel [OF l, of key now] obtain mem' v l' where g: "InMemoryCache_Get key now mem = Some (mem', v)" "imc_rel mem' l'" by blast
  let ?s = "s\<lparr>memory_cache := Some mem'\<rparr>"
  have 1: "shields L k s ?s" using g(2) by (intro shields_memory [OF inv]) (auto simp: mem_ok_def)
  from PromoteKeyLru_shields [OF shields_inv [OF 1], of key L k] obtain s2 b
    where 2: "PromoteKeyLru key ?s = Some (s2, b)" "shields L k ?s s2" by blast
  from 1 2 shields_trans [OF 1 2(2)] Some g(1) show ?thesis by (cases "v = None") (auto simp: memory_get_def)
qed

lemma memory_remove_shields:
  "dc_inv s \<Longrightarrow> \<exists>s'. memory_remove key s = Some s' \<and> shields L k s s'"
  using memory_remove_ok [of s key] shields_memory [of s] by (auto simp: dc_inv_def)

lemma Purge_entry:
  assumes L: "ldb_laws L" and db: "database disk \<noteq> None" and r: "PurgeDiskItem L key disk = (disk', res, n)"
    and k: "k \<noteq> key" "k \<noteq> CreateExpiryKey key"
  shows "database disk' \<noteq> None" and "disk_map L disk' k = disk_map L disk k"
proof -
  obtain d1 r1 n1 where 1: "DiskCache_Remove L key disk = (d1, r1, n1)" by (metis prod_cases3)
  obtain d2 r2 n2 where 2: "DiskCache_Remove L (CreateExpiryKey key) d1 = (d2, r2, n2)" by (metis prod_cases3)
  have "disk' = d2" using r 1 2 by (simp add: PurgeDiskItem_def)
  note e1 = DiskCache_Remove_entries [OF L db 1]
  note e2 = DiskCache_Remove_entries [OF L e1(1) 2]
  show "database disk' \<noteq> None" and "disk_map L disk' k = disk_map L disk k"
    using e1 e2 k \<open>disk' = d2\<close> by (auto split: sum.splits)
qed

lemma shields_purge:
  assumes L: "ldb_laws L" and inv: "dc_inv s" and k: "safe_key s k" and key: "\<not> IsProtected key (protected_keys s)"
    and disk: "mutable_cache s = Some disk" and r: "PurgeDiskItem L key disk = (disk', res, n)"
  shows "shields L k s (s\<lparr>mutable_cache := Some disk', mutable_cache_data_size := x\<rparr>)"
proof -
  have "k \<noteq> key" "k \<noteq> CreateExpiryKey key" using k key by (auto simp: safe_key_def)
  moreover have "database disk \<noteq> None" using inv disk by (simp add: dc_inv_def)
  ultimately have "shields L k s (s\<lparr>mutable_cache := Some disk'\<rparr>)"
    using Purge_entry [OF L _ r] by (intro shields_disk [OF inv disk]) auto
  with shields_data_size [OF shields_inv [OF this]] show ?thesis
    by (metis (no_types, lifting) shields_trans)
qed

lemma GetFromDiskCache_shields:
  assumes L: "ldb_laws L" and inv: "dc_inv s" and k: "safe_key s k"
    and r: "GetFromDiskCache L now key s = Some (s', res)"
  shows "shields L k s s'"
proof (cases "mutable_cache s")
  case None
  with r inv show ?thesis
    by (auto simp: GetFromDiskCache_def shields_refl split: bind_splits option.splits sum.splits if_splits)
next
  case (Some disk)
  obtain disk1 r1 n1 where p: "PurgeDiskItem L key disk = (disk1, r1, n1)" by (metis prod_cases3)
  let ?s = "s\<lparr>mutable_cache := Some disk1, mutable_cache_data_size := mutable_cache_data_size s - n1\<rparr>"
  from PromoteKeyLru_shields [OF inv, of key L k] obtain s1 b
    where 1: "PromoteKeyLru key s = Some (s1, b)" "shields L k s s1" by blast
  consider (same) "s' = s" | (promoted) "s' = s1"
    | (purged) b' where "\<not> IsProtected key (protected_keys s)" "RemoveKeyLru key ?s = Some (s', b')"
    using r Some p 1(1)
    by (auto simp: GetFromDiskCache_def split: bind_splits option.splits sum.splits if_splits prod.splits)
  then show ?thesis
  proof cases
    case purged
    have 2: "shields L k s ?s" by (rule shields_purge [OF L inv k purged(1) Some p])
    from RemoveKeyLru_shields [OF shields_inv [OF 2], of key L k] purged(2) have "shields L k ?s s'" by auto
    with 2 show ?thesis by (rule shields_trans)
  qed (use inv 1(2) in \<open>auto simp: shields_refl\<close>)
qed

lemma evicted_shields:
  assumes inv: "dc_inv s" and k: "safe_key s k" and lru: "lru_ok s l"
    and free: "\<forall>x \<in> fst ` set l. \<not> IsProtected x (protected_keys s)" and e: "evicted_to L l s s'"
  shows "shields L k s s'"
proof -
  from e obtain m lru' l' disk disk'
    where s': "s' = s\<lparr>memory_cache := m, mutable_cache_lru := Some lru', mutable_cache := Some disk'\<rparr>"
      "mem_ok m" "lru_rel lru' l'" "set l' \<subseteq> set l" "mutable_cache s = Some disk" "database disk' \<noteq> None"
      "keeps_others L (fst ` set l) disk disk'"
    unfolding evicted_to_def by blast
  have "k \<notin> fst ` set l" "\<forall>j \<in> fst ` set l. k \<noteq> CreateExpiryKey j" using k free by (auto simp: safe_key_def)
  with s'(7) have d: "disk_map L disk' k = disk_map L disk k" by (simp add: keeps_others_def)
  have "\<forall>x \<in> fst ` set l'. \<not> IsProtected x (protected_keys s)" using free s'(4) by blast
  with s' d inv show ?thesis by (auto simp: shields_def dc_inv_def disk_at_def)
qed

lemma MaybeEvictData_shields:
  assumes L: "ldb_laws L" and inv: "dc_inv s" and k: "safe_key s k" and p: "0 < eviction_portion s"
  shows "\<exists>s' n. MaybeEvictData L now s = Some (s', n) \<and> shields L k s s'"
proof (cases "mutable_cache s = None \<or> mutable_cache_lru s = None")
  case True
  then show ?thesis by (simp add: MaybeEvictData_def shields_refl inv)
next
  case False
  then obtain disk lru where disk: "mutable_cache s = Some disk" and lru: "mutable_cache_lru s = Some lru" by auto
  from dc_inv_lru [OF inv lru] obtain l
    where l: "lru_ok s l" "\<forall>x \<in> fst ` set l. \<not> IsProtected x (protected_keys s)" by blast
  have "mem_ok (memory_cache s)" "database disk \<noteq> None" using inv disk by (auto simp: dc_inv_def)
  from MaybeEvictData_rel [OF L l(1) this(1) disk this(2) p, of now] show ?thesis
    using evicted_shields [OF inv k l] shields_refl [OF inv] by blast
qed

lemma MaybeUpdatedProtectedKeys_shields:
  assumes inv: "dc_inv s" and r: "MaybeUpdatedProtectedKeys s = Some (s', batch, n)"
  shows "shields L k s s'" and "mutable_cache s' = mutable_cache s" and "mutable_cache_lru s' = mutable_cache_lru s"
    and "\<forall>op \<in> set batch. \<exists>v. op = BPut kProtectedKeys v \<or> op = BDelete kProtectedKeys"
proof -
  have "\<exists>pk. s' = s\<lparr>protected_keys := pk\<rparr> \<and> protected_data pk = protected_data (protected_keys s)
    \<and> (\<forall>op \<in> set batch. \<exists>v. op = BPut kProtectedKeys v \<or> op = BDelete kProtectedKeys)"
  proof (cases "dirty (protected_keys s)")
    case False
    with r show ?thesis by (auto simp: MaybeUpdatedProtectedKeys_def intro!: exI [of _ "protected_keys s"])
  next
    case True
    with r show ?thesis
      by (auto simp: MaybeUpdatedProtectedKeys_def Serialize_def Let_def split: bind_splits if_splits)
  qed
  then obtain pk where s': "s' = s\<lparr>protected_keys := pk\<rparr>" "protected_data pk = protected_data (protected_keys s)"
    "\<forall>op \<in> set batch. \<exists>v. op = BPut kProtectedKeys v \<or> op = BDelete kProtectedKeys" by blast
  have "IsProtected x pk = IsProtected x (protected_keys s)" for x using s'(2) by (rule IsProtected_data)
  with s' inv show "shields L k s s'" by (auto simp: shields_def dc_inv_def disk_at_def)
  show "mutable_cache s' = mutable_cache s" "mutable_cache_lru s' = mutable_cache_lru s"
    "\<forall>op \<in> set batch. \<exists>v. op = BPut kProtectedKeys v \<or> op = BDelete kProtectedKeys" using s' by auto
qed

primrec op_key :: "batch_op \<Rightarrow> string" where
  "op_key (BPut key value) = key"
| "op_key (BDelete key) = key"

lemma apply_batch_frame:
  "om_ok m \<Longrightarrow> k \<notin> op_key ` set batch \<Longrightarrow> map_of (apply_batch batch m) k = map_of m k"
proof (induction batch arbitrary: m)
  case (Cons op batch)
  then have "map_of (apply_op op m) k = map_of m k" "om_ok (apply_op op m)" by (cases op; auto simp: keeps)+
  with Cons show ?case by simp
qed simp

lemma shields_batch:
  assumes L: "ldb_laws L" and inv: "dc_inv s" and disk: "mutable_cache s = Some disk"
    and a: "ApplyBatch L batch disk = (disk', r)" and k: "k \<notin> op_key ` set batch"
  shows "shields L k s (s\<lparr>mutable_cache := Some disk'\<rparr>)"
proof (rule shields_disk [OF inv disk])
  have db: "database disk \<noteq> None" using inv disk by (simp add: dc_inv_def)
  note e = ApplyBatch_entries [OF L db a]
  show "database disk' \<noteq> None" by (rule e(1))
  show "disk_map L disk' k = disk_map L disk k"
    using e(2) apply_batch_frame [OF disk_entries_ok [OF L] k] by (auto split: sum.splits)
qed

lemma shields_insert:
  assumes inv: "dc_inv s" and lru: "mutable_cache_lru s = Some lru" and key: "\<not> IsProtected key (protected_keys s)"
    and i: "InsertOrAssign key v lru = Some (lru', rest)"
  shows "shields L k s (s\<lparr>mutable_cache_lru := Some lru'\<rparr>)"
proof -
  from dc_inv_lru [OF inv lru] obtain l where l: "lru_rel lru l" by blast
  from InsertOrAssign_rel [OF l, of key v] i
  have "lru_rel lru' (al_insert (cache_cost_func lru) (lru_max_size lru) key v l)" by auto
  then show ?thesis
    by (rule shields_lru [OF inv lru l]) (use al_insert_set key in fastforce)
qed

lemma put_lru_shields:
  assumes inv: "dc_inv s" and r: "put_lru key n e s = Some (s', res)"
  shows "shields L k s s'"
proof (cases "mutable_cache_lru s")
  case None
  with r inv show ?thesis by (simp add: put_lru_def shields_refl)
next
  case (Some lru)
  show ?thesis
  proof (cases "IsProtected key (protected_keys s)")
    case True
    with r inv Some show ?thesis by (simp add: put_lru_def shields_refl)
  next
    case False
    obtain lru' rest where i: "InsertOrAssign key \<lparr>vp_size = n, vp_expiry = e\<rparr> lru = Some (lru', rest)"
      using r Some False by (auto simp: put_lru_def split: bind_splits)
    with r Some False have "s' = s\<lparr>mutable_cache_lru := Some lru'\<rparr>"
      by (cases rest) (auto simp: put_lru_def Let_def split: if_splits)
    with shields_insert [OF inv Some False i] show ?thesis by simp
  qed
qed

text \<open>The two ways \<open>PutMutableCache\<close> ends on an open database: the cache is full, or the batch is
  built, eviction runs and the batch is applied.\<close>

lemma PutMutableCache_cases:
  assumes r: "PutMutableCache L now key value expiry s = Some (s', res)" and m: "mutable_cache s \<noteq> None"
  obtains (full) "s' = s" "res = Inl CacheIO"
  | (stored) exp eb n0 s1 n1 s2 pb n2 disk disk' res' where
      "if IsExpiryValid expiry then time_add expiry now = Some exp \<and> eb = [BPut (CreateExpiryKey key) (to_string_int exp)]
       else exp = expiry \<and> eb = []"
      "MaybeEvictData L now s = Some (s1, n1)" "MaybeUpdatedProtectedKeys s1 = Some (s2, pb, n2)"
      "mutable_cache s2 = Some disk" "ApplyBatch L (BPut key value # eb @ pb) disk = (disk', res')"
      "case res' of Inl e \<Rightarrow> s' = s2\<lparr>mutable_cache := Some disk'\<rparr> \<and> res = Inl e
       | Inr _ \<Rightarrow> put_lru key (len value) exp (s2\<lparr>mutable_cache := Some disk', mutable_cache_data_size := n0\<rparr>) = Some (s', res)"
proof (cases "mutable_cache_lru s = None \<and> max_disk_storage (settings s)
    < mutable_cache_data_size s + len value + len key + len key + len kExpirySuffix + kExpiryValueSize")
  case True
  with r m full show thesis by (simp add: PutMutableCache_def Let_def)
next
  case False
  let ?e = "if IsExpiryValid expiry then do {
                expiry \<leftarrow> time_add expiry now;
                let (op, sz) = StoreExpiry key expiry;
                Some (expiry, [op], len key + len value + sz) }
              else Some (expiry, [], len key + len value)"
  obtain exp eb n0 where e: "?e = Some (exp, eb, n0)"
    using r False m by (cases "IsExpiryValid expiry"; cases "time_add expiry now")
      (auto simp: PutMutableCache_def StoreExpiry_def Let_def split: if_splits)
  obtain s1 n1 where 1: "MaybeEvictData L now s = Some (s1, n1)"
    using r False m e unfolding PutMutableCache_def by (cases "MaybeEvictData L now s") (auto simp: Let_def)
  have r0: "MaybeUpdatedProtectedKeys s1
      \<bind> (\<lambda>(s, pb, n2). mutable_cache s \<bind> (\<lambda>disk. (case ApplyBatch L (BPut key value # eb @ pb) disk of
        (disk, result) \<Rightarrow> (case result of
             Inl e \<Rightarrow> Some (s\<lparr>mutable_cache := Some disk\<rparr>, Inl e)
           | Inr _ \<Rightarrow> put_lru key (len value) exp
                 (s\<lparr>mutable_cache := Some disk, mutable_cache_data_size :=
                      mutable_cache_data_size s + n0 - n1 + n2\<rparr>))))) = Some (s', res)"
    using r False m e 1 unfolding PutMutableCache_def
    by (simp add: Let_def split: if_splits)
  from r0 obtain s2 pb n2 where 2: "MaybeUpdatedProtectedKeys s1 = Some (s2, pb, n2)"
    by (cases "MaybeUpdatedProtectedKeys s1") auto
  from r0 2 obtain disk where disk: "mutable_cache s2 = Some disk" by (cases "mutable_cache s2") auto
  obtain disk' res' where a: "ApplyBatch L (BPut key value # eb @ pb) disk = (disk', res')" by fastforce
  show thesis
  proof (rule stored [OF _ 1 2 disk a])
    show "if IsExpiryValid expiry then time_add expiry now = Some exp \<and> eb = [BPut (CreateExpiryKey key) (to_string_int exp)]
       else exp = expiry \<and> eb = []"
      using e by (auto simp: StoreExpiry_def Let_def split: if_splits bind_splits)
    show "case res' of Inl e \<Rightarrow> s' = s2\<lparr>mutable_cache := Some disk'\<rparr> \<and> res = Inl e
       | Inr _ \<Rightarrow> put_lru key (len value) exp (s2\<lparr>mutable_cache := Some disk',
           mutable_cache_data_size := mutable_cache_data_size s2 + n0 - n1 + n2\<rparr>) = Some (s', res)"
      using r0 2 disk a by (auto split: sum.splits)
  qed
qed

lemma PutMutableCache_shields:
  assumes L: "ldb_laws L" and inv: "dc_inv s" and k: "safe_key s k" and p: "0 < eviction_portion s"
    and other: "k \<noteq> key" "k \<noteq> CreateExpiryKey key" "k \<noteq> kProtectedKeys"
    and r: "PutMutableCache L now key value expiry s = Some (s', res)"
  shows "shields L k s s'"
proof (cases "mutable_cache s = None")
  case True
  with r inv show ?thesis by (simp add: PutMutableCache_def shields_refl)
next
  case False
  from r False show ?thesis
  proof (cases rule: PutMutableCache_cases)
    case full
    with inv show ?thesis by (simp add: shields_refl)
  next
    case (stored exp eb n0 s1 n1 s2 pb n2 disk disk' res')
    from MaybeEvictData_shields [OF L inv k p, of now] stored(2) have 1: "shields L k s s1" by auto
    note u = MaybeUpdatedProtectedKeys_shields [OF shields_inv [OF 1] stored(3)]
    have 12: "shields L k s s2" by (rule shields_trans [OF 1 u(1)])
    have "op_key ` set pb \<subseteq> {kProtectedKeys}" using u(4) by auto
    with stored(1) other have "k \<notin> op_key ` set (BPut key value # eb @ pb)" by (auto split: if_splits)
    note b = shields_trans [OF 12 shields_batch [OF L shields_inv [OF 12] stored(4,5) this]]
    have d: "shields L k s (s2\<lparr>mutable_cache := Some disk', mutable_cache_data_size := n\<rparr>)" for n
      by (rule shields_trans [OF b shields_data_size [OF shields_inv [OF b], of _ _ n]])
    show ?thesis
    proof (cases res')
      case (Inl e)
      with stored(6) b show ?thesis by simp
    next
      case (Inr u)
      with stored(6) have "put_lru key (len value) exp (s2\<lparr>mutable_cache := Some disk', mutable_cache_data_size := n0\<rparr>) = Some (s', res)"
        by simp
      from shields_trans [OF d put_lru_shields [OF shields_inv [OF d] this]] show ?thesis .
    qed
  qed
qed

text \<open>The common shape of \<open>Read\<close> and of \<open>Get\<close> with a decoder: a lookup in memory, then on disk,
  then the value found on disk enters the memory cache.\<close>

lemma lookup_shields:
  assumes L: "ldb_laws L" and inv: "dc_inv s" and k: "safe_key s k"
    and m: "memory_get now key s = Some (s1, hit)"
    and r: "s' = s1 \<or> (\<exists>s2 res. GetFromDiskCache L now key s1 = Some (s2, res)
        \<and> (s' = s2 \<or> (\<exists>item e n. memory_put now key item e n s2 = Some s')))"
  shows "shields L k s s'"
proof -
  from memory_get_shields [OF inv, of now key L k] m have 1: "shields L k s s1" by auto
  note inv1 = shields_inv [OF 1] and k1 = shields_safe [OF 1 k]
  from r show ?thesis
  proof (elim disjE exE conjE)
    fix s2 res
    assume "GetFromDiskCache L now key s1 = Some (s2, res)"
    then have "shields L k s1 s2" by (rule GetFromDiskCache_shields [OF L inv1 k1])
    then have 2: "shields L k s s2" by (rule shields_trans [OF 1])
    { assume "s' = s2" with 2 show ?thesis by simp }
    fix item e n
    assume "memory_put now key item e n s2 = Some s'"
    then have "shields L k s2 s'" by (rule memory_put_shields [OF shields_inv [OF 2]])
    then show ?thesis by (rule shields_trans [OF 2])
  qed (use 1 in simp)
qed

lemma Read_shields:
  assumes L: "ldb_laws L" and inv: "dc_inv s" and k: "safe_key s k" and r: "Read L now key s = Some (s', res)"
  shows "shields L k s s'"
proof (cases "is_open s")
  case False
  with r inv show ?thesis by (simp add: Read_def shields_refl)
next
  case True
  with r obtain s1 hit where m: "memory_get now key s = Some (s1, hit)" by (auto simp: Read_def split: bind_splits)
  show ?thesis
    by (rule lookup_shields [OF L inv k m])
      (use r True m in \<open>auto simp: Read_def split: bind_splits option.splits sum.splits cached.splits\<close>)
qed

lemma Get_any_shields:
  assumes L: "ldb_laws L" and inv: "dc_inv s" and k: "safe_key s k"
    and r: "DefaultCache_Get_any L now key decoder s = Some (s', res)"
  shows "shields L k s s'"
proof (cases "is_open s")
  case False
  with r inv show ?thesis by (simp add: DefaultCache_Get_any_def shields_refl)
next
  case True
  with r obtain s1 hit where m: "memory_get now key s = Some (s1, hit)"
    by (auto simp: DefaultCache_Get_any_def split: bind_splits)
  show ?thesis
    by (rule lookup_shields [OF L inv k m])
      (use r True m in \<open>auto simp: DefaultCache_Get_any_def Let_def split: bind_splits sum.splits if_splits\<close>)
qed

lemma store_shields:
  assumes L: "ldb_laws L" and inv: "dc_inv s" and k: "safe_key s k" and p: "0 < eviction_portion s"
    and other: "k \<noteq> key" "k \<noteq> CreateExpiryKey key" "k \<noteq> kProtectedKeys"
    and m: "memory_put now key item expiry n s = Some s1"
    and r: "PutMutableCache L now key value expiry s1 = Some (s', res)"
  shows "shields L k s s'"
proof -
  have 1: "shields L k s s1" by (rule memory_put_shields [OF inv m])
  have "0 < eviction_portion s1" using 1 p by (simp add: shields_def)
  from PutMutableCache_shields [OF L shields_inv [OF 1] shields_safe [OF 1 k] this other r]
  show ?thesis by (rule shields_trans [OF 1])
qed

lemma Delete_shields:
  assumes L: "ldb_laws L" and inv: "dc_inv s" and k: "safe_key s k"
  shows "\<exists>s' res. Delete L key s = Some (s', res) \<and> shields L k s s'"
proof (cases "is_open s \<and> \<not> IsProtected key (protected_keys s)")
  case False
  then show ?thesis by (auto simp: Delete_def shields_refl inv)
next
  case True
  from memory_remove_shields [OF inv, of key L k] obtain s1
    where 1: "memory_remove key s = Some s1" "shields L k s s1" by blast
  from RemoveKeyLru_shields [OF shields_inv [OF 1(2)], of key L k] obtain s2 b
    where 2: "RemoveKeyLru key s1 = Some (s2, b)" "shields L k s1 s2" by blast
  have 12: "shields L k s s2" by (rule shields_trans [OF 1(2) 2(2)])
  show ?thesis
  proof (cases "mutable_cache s2")
    case None
    with True 1 2 12 show ?thesis by (simp add: Delete_def)
  next
    case (Some disk)
    obtain disk' res n where p: "PurgeDiskItem L key disk = (disk', res, n)" by (metis prod_cases3)
    have "\<not> IsProtected key (protected_keys s2)"
      using True 12 IsProtected_data [of "protected_keys s2" "protected_keys s"] by (simp add: shields_def)
    from shields_purge [OF L shields_inv [OF 12] shields_safe [OF 12 k] this Some p]
    have "shields L k s (s2\<lparr>mutable_cache := Some disk', mutable_cache_data_size := mutable_cache_data_size s2 - n\<rparr>)"
      by (rule shields_trans [OF 12])
    with True 1 2 Some p show ?thesis by (simp add: Delete_def)
  qed
qed

lemma memory_prefix_shields:
  assumes inv: "dc_inv s"
  shows "\<exists>s'. (case memory_cache s of None \<Rightarrow> Some s
      | Some mem \<Rightarrow> InMemoryCache.RemoveKeysWithPrefix pre flt mem \<bind> (\<lambda>mem. Some (s\<lparr>memory_cache := Some mem\<rparr>))) = Some s'
    \<and> shields L k s s'"
proof (cases "memory_cache s")
  case None
  then show ?thesis by (simp add: shields_refl inv)
next
  case (Some mem)
  with inv obtain l where "imc_rel mem l" by (auto simp: dc_inv_def mem_ok_def)
  from RemoveKeysWithPrefix_rel [OF this, of pre flt] obtain mem'
    where m: "InMemoryCache.RemoveKeysWithPrefix pre flt mem = Some mem'" "mem_ok (Some mem')" by (auto simp: mem_ok_def)
  from shields_memory [OF inv m(2), of L k] m(1) Some show ?thesis by simp
qed

lemma DeleteByPrefix_shields:
  assumes L: "ldb_laws L" and inv: "dc_inv s" and k: "safe_key s k"
  shows "\<exists>s' res. DeleteByPrefix L pre s = Some (s', res) \<and> shields L k s s'"
proof (cases "is_open s")
  case False
  then show ?thesis by (auto simp: DeleteByPrefix_def shields_refl inv)
next
  case True
  let ?flt = "\<lambda>key. IsProtected key (protected_keys s)"
  from memory_prefix_shields [OF inv, of pre ?flt L k] obtain s1
    where 1: "(case memory_cache s of None \<Rightarrow> Some s
      | Some mem \<Rightarrow> InMemoryCache.RemoveKeysWithPrefix pre ?flt mem \<bind> (\<lambda>mem. Some (s\<lparr>memory_cache := Some mem\<rparr>))) = Some s1"
      "shields L k s s1" by blast
  from RemoveKeysWithPrefixLru_shields [OF shields_inv [OF 1(2)], of pre L k] obtain s2
    where 2: "RemoveKeysWithPrefixLru pre s1 = Some s2" "shields L k s1 s2" by blast
  have 12: "shields L k s s2" by (rule shields_trans [OF 1(2) 2(2)])
  show ?thesis
  proof (cases "mutable_cache s2")
    case None
    with True 1 2 12 show ?thesis by (simp add: DeleteByPrefix_def)
  next
    case (Some disk)
    obtain disk' res n where p: "DiskCache_RemoveKeysWithPrefix L pre ?flt disk = (disk', res, n)" by (metis prod_cases3)
    have db: "database disk \<noteq> None" using shields_inv [OF 12] Some by (simp add: dc_inv_def)
    note e = remove_prefix_entries [OF L db p]
    have "disk_map L disk' k = disk_map L disk k"
    proof (cases res)
      case (Inr u)
      with k show ?thesis using e(2)
          map_of_filter_fst [where P = "\<lambda>x. prefix pre x \<longrightarrow> IsProtected x (protected_keys s)" and m = "disk_entries L disk"]
        by (simp add: safe_key_def)
    qed (use e(3) in simp)
    from shields_disk [OF shields_inv [OF 12] Some e(1) this]
    have 3: "shields L k s (s2\<lparr>mutable_cache := Some disk'\<rparr>)" by (rule shields_trans [OF 12])
    from shields_trans [OF 3 shields_data_size [OF shields_inv [OF 3], of _ _ "mutable_cache_data_size s2 - n"]]
    show ?thesis using True 1 2 Some p by (simp add: DeleteByPrefix_def)
  qed
qed

lemma Resize_shields:
  assumes L: "ldb_laws L" and inv: "dc_inv s" and k: "safe_key s k" and p: "0 < eviction_portion s"
  shows "\<exists>s' n. DefaultCache_Resize L now new_size s = Some (s', n) \<and> shields L k s s'"
proof -
  let ?s = "s\<lparr>settings := (settings s)\<lparr>max_disk_storage := new_size\<rparr>\<rparr>"
  have 1: "shields L k s ?s" using inv by (simp add: shields_def dc_inv_def disk_at_def)
  from MaybeEvictData_shields [OF L shields_inv [OF 1] shields_safe [OF 1 k], of now] p obtain s2 n
    where 2: "MaybeEvictData L now ?s = Some (s2, n)" "shields L k ?s s2" by auto
  have 12: "shields L k s s2" by (rule shields_trans [OF 1 2(2)])
  have "shields L k s (s2\<lparr>mutable_cache_data_size := mutable_cache_data_size s2 - n\<rparr>)"
    by (rule shields_trans [OF 12 shields_data_size [OF shields_inv [OF 12]]])
  with 1 2(1) show ?thesis by (auto simp: DefaultCache_Resize_def shields_refl inv)
qed

lemma Promote_shields:
  assumes "dc_inv s"
  shows "\<exists>s'. DefaultCache_Promote key s = Some s' \<and> shields L k s s'"
  using PromoteKeyLru_shields [OF assms, of key L k]
  by (cases "mutable_cache_lru s") (auto simp: DefaultCache_Promote_def PromoteKeyLru_def split: bind_splits)

subsection \<open>Runs\<close>

text \<open>The operations that a client of an open cache uses. Each carries the time at which it
  runs.\<close>

datatype 'a dc_op =
    DRead time_t string
  | DGet time_t string "string \<Rightarrow> 'a option"
  | DWrite time_t string "string option" time_t
  | DPut time_t string "'a option" string time_t
  | DDelete string
  | DDeleteByPrefix string
  | DResize time_t u64
  | DPromote string

fun dc_step :: "'db ldb_ops \<Rightarrow> 'a dc_op \<Rightarrow> ('a, 'db) default_cache \<Rightarrow> ('a, 'db) default_cache option" where
  "dc_step L (DRead now key) s = map_option fst (Read L now key s)"
| "dc_step L (DGet now key decoder) s = map_option fst (DefaultCache_Get_any L now key decoder s)"
| "dc_step L (DWrite now key value expiry) s = map_option fst (Write L now key value expiry s)"
| "dc_step L (DPut now key value encoded expiry) s =
     map_option fst (DefaultCache_Put_any L now key value encoded expiry s)"
| "dc_step L (DDelete key) s = map_option fst (Delete L key s)"
| "dc_step L (DDeleteByPrefix pre) s = map_option fst (DeleteByPrefix L pre s)"
| "dc_step L (DResize now n) s = map_option fst (DefaultCache_Resize L now n s)"
| "dc_step L (DPromote key) s = DefaultCache_Promote key s"

fun dc_run :: "'db ldb_ops \<Rightarrow> 'a dc_op list \<Rightarrow> ('a, 'db) default_cache \<Rightarrow> ('a, 'db) default_cache option" where
  "dc_run L [] s = Some s"
| "dc_run L (op # ops) s = dc_step L op s \<bind> dc_run L ops"

text \<open>The entries that an operation may overwrite on purpose.\<close>

fun written_keys :: "'a dc_op \<Rightarrow> string set" where
  "written_keys (DWrite now key value expiry) = {key, CreateExpiryKey key}"
| "written_keys (DPut now key value encoded expiry) = {key, CreateExpiryKey key}"
| "written_keys _ = {}"

lemma dc_step_shields:
  assumes L: "ldb_laws L" and inv: "dc_inv s" and k: "safe_key s k" and p: "0 < eviction_portion s"
    and other: "k \<notin> written_keys op" "k \<noteq> kProtectedKeys" and r: "dc_step L op s = Some s'"
  shows "shields L k s s'"
proof (cases op)
  case (DWrite now key val expiry)
  with other have k': "k \<noteq> key" "k \<noteq> CreateExpiryKey key" by auto
  from r DWrite obtain res where w: "Write L now key val expiry s = Some (s', res)" by auto
  show ?thesis
  proof (cases "val = None \<or> \<not> is_open s")
    case True
    with w inv show ?thesis by (auto simp: Write_def shields_refl split: option.splits)
  next
    case False
    then obtain v where "val = Some v" by auto
    with w False obtain s1 where "memory_put now key (Some (Bytes v)) expiry (len v) s = Some s1"
      "PutMutableCache L now key v expiry s1 = Some (s', res)" by (auto simp: Write_def split: bind_splits)
    then show ?thesis by (rule store_shields [OF L inv k p k' other(2)])
  qed
next
  case (DPut now key val encoded expiry)
  with other have k': "k \<noteq> key" "k \<noteq> CreateExpiryKey key" by auto
  from r DPut obtain res where w: "DefaultCache_Put_any L now key val encoded expiry s = Some (s', res)" by auto
  show ?thesis
  proof (cases "is_open s")
    case False
    with w inv show ?thesis by (simp add: DefaultCache_Put_any_def shields_refl)
  next
    case True
    with w obtain s1 res' where "memory_put now key (map_option Object val) expiry (len encoded) s = Some s1"
      "PutMutableCache L now key encoded expiry s1 = Some (s', res')" by (auto simp: DefaultCache_Put_any_def split: bind_splits)
    then show ?thesis by (rule store_shields [OF L inv k p k' other(2)])
  qed
next
  case (DDelete key)
  with r Delete_shields [OF L inv k, of key] show ?thesis by auto
next
  case (DDeleteByPrefix pre)
  with r DeleteByPrefix_shields [OF L inv k, of pre] show ?thesis by auto
next
  case (DResize now n)
  with r Resize_shields [OF L inv k p, of now n] show ?thesis by auto
next
  case (DPromote key)
  with r Promote_shields [OF inv, of key L k] show ?thesis by auto
qed (use r Read_shields [OF L inv k] Get_any_shields [OF L inv k] in auto)

lemma dc_run_shields:
  assumes L: "ldb_laws L"
  shows "dc_inv s \<Longrightarrow> safe_key s k \<Longrightarrow> 0 < eviction_portion s \<Longrightarrow> k \<noteq> kProtectedKeys
    \<Longrightarrow> \<forall>op \<in> set ops. k \<notin> written_keys op \<Longrightarrow> dc_run L ops s = Some s' \<Longrightarrow> shields L k s s'"
proof (induction ops arbitrary: s)
  case (Cons op ops)
  then obtain s1 where 1: "dc_step L op s = Some s1" "dc_run L ops s1 = Some s'" by (auto split: bind_splits)
  have step: "shields L k s s1"
    using Cons.prems by (intro dc_step_shields [OF L _ _ _ _ _ 1(1)]) auto
  have "0 < eviction_portion s1" using step Cons.prems(3) by (simp add: shields_def)
  with Cons.prems 1(2) have "shields L k s1 s'"
    by (intro Cons.IH shields_inv [OF step] shields_safe [OF step]) auto
  with step show ?case by (rule shields_trans)
qed (simp add: shields_refl)

end
