(* ===== verification/CacheGuarantees.thy ===== *)
theory CacheGuarantees
  imports DefaultCache
begin

text \<open>
  What the two-level cache guarantees to its clients, on top of the per-operation lemmas of
  \<open>DiskCache\<close> and \<open>DefaultCache\<close>: deletion by prefix, survival of protected entries, termination and
  frame of eviction, the state after opening, the round trip through the disk; and where the code
  does not keep them.
\<close>

section \<open>Opening\<close>

lemma IsProtected_prefix:
  assumes "pk_ok (protected_data pk)" and "IsProtected j pk" and "prefix j k"
  shows "IsProtected k pk"
  using assms by (auto simp: IsProtected_covered covered_def intro: prefix_order.trans)

lemma AddKeyLru_inv:
  assumes inv: "dc_inv s" and v: "IsExpiryKey key \<longrightarrow> stoll val \<noteq> None"
  shows "\<exists>lru. AddKeyLru key val s = Some (s\<lparr>mutable_cache_lru := lru\<rparr>) \<and> dc_inv (s\<lparr>mutable_cache_lru := lru\<rparr>)"
proof (cases "mutable_cache_lru s = None \<or> IsProtected key (protected_keys s) \<or> IsInternalKey key")
  case True
  then have "AddKeyLru key val s = Some (s\<lparr>mutable_cache_lru := mutable_cache_lru s\<rparr>)"
    by (auto simp: AddKeyLru_def split: option.split)
  with inv show ?thesis by (intro exI [of _ "mutable_cache_lru s"]) simp
next
  case False
  then obtain lru where lru: "mutable_cache_lru s = Some lru" by auto
  let ?key = "if IsExpiryKey key then take (length key - length kExpirySuffix) key else key"
  from dc_inv_lru [OF inv lru] obtain l where l: "lru_rel lru l" by blast
  have free: "\<not> IsProtected ?key (protected_keys s)"
    using False IsProtected_prefix [of "protected_keys s" ?key key] inv by (auto simp: dc_inv_def take_is_prefix)
  have "\<exists>props. (if FindNoPromote ?key lru \<noteq> None then it_value (FindNoPromote ?key lru) lru else Some default_props) = Some props"
    by (auto simp: FindNoPromote_def it_value_def deref_def split: option.splits)
  then obtain props where p: "(if FindNoPromote ?key lru \<noteq> None then it_value (FindNoPromote ?key lru) lru else Some default_props) = Some props"
    by blast
  obtain props' where p': "(if IsExpiryKey key then map_option (\<lambda>e. props\<lparr>vp_expiry := e\<rparr>) (stoll val)
      else Some (props\<lparr>vp_size := len val\<rparr>)) = Some props'" using v by (cases "IsExpiryKey key"; cases "stoll val") auto
  from InsertOrAssign_rel [OF l, of ?key props'] obtain lru' rest
    where i: "InsertOrAssign ?key props' lru = Some (lru', rest)" by blast
  have "AddKeyLru key val s = Some (s\<lparr>mutable_cache_lru := Some lru'\<rparr>)"
    using lru False i p p' by (simp add: AddKeyLru_def Let_def)
  moreover have "dc_inv (s\<lparr>mutable_cache_lru := Some lru'\<rparr>)"
    using shields_insert [OF inv lru free i, of undefined undefined] by (simp add: shields_def)
  ultimately show ?thesis by blast
qed

lemma add_keys_lru_inv:
  "dc_inv s \<Longrightarrow> \<forall>(key, val) \<in> set es. IsExpiryKey key \<longrightarrow> stoll val \<noteq> None \<Longrightarrow>
    \<exists>lru. add_keys_lru es s = Some (s\<lparr>mutable_cache_lru := lru,
        mutable_cache_data_size := mutable_cache_data_size s + of_nat (sum_list (map entry_size es))\<rparr>)
      \<and> dc_inv (s\<lparr>mutable_cache_lru := lru\<rparr>)"
proof (induction es arbitrary: s)
  case Nil
  then show ?case by (intro exI [of _ "mutable_cache_lru s"]) simp
next
  case (Cons e es)
  obtain key val where e: "e = (key, val)" by (cases e)
  let ?s = "s\<lparr>mutable_cache_data_size := mutable_cache_data_size s + (len key + len val)\<rparr>"
  have "dc_inv ?s" using Cons.prems(1) by (simp add: dc_inv_def)
  from AddKeyLru_inv [OF this, of key val] Cons.prems(2) e obtain lru
    where 1: "AddKeyLru key val ?s = Some (?s\<lparr>mutable_cache_lru := lru\<rparr>)" "dc_inv (?s\<lparr>mutable_cache_lru := lru\<rparr>)" by auto
  from Cons.IH [OF 1(2)] Cons.prems(2) obtain lru'
    where 2: "add_keys_lru es (?s\<lparr>mutable_cache_lru := lru\<rparr>) = Some (s\<lparr>mutable_cache_lru := lru',
        mutable_cache_data_size := mutable_cache_data_size s + (len key + len val) + of_nat (sum_list (map entry_size es))\<rparr>)"
      "dc_inv (s\<lparr>mutable_cache_lru := lru'\<rparr>)" by (auto simp: dc_inv_def)
  have "of_nat (sum_list (map entry_size (e # es))) = len key + len val + of_nat (sum_list (map entry_size es))"
    by (simp add: e entry_size_def)
  with e 1 2 show ?case by (intro exI [of _ lru']) (simp add: add.assoc)
qed

section \<open>What eviction keeps of the LRU list\<close>

lemma Erase_config: "Erase k c = Some (c', r) \<Longrightarrow> same_config c c'"
  by (auto simp: Erase_def Erase_internal_def deref_def setNext_def setPrevious_def same_config_def bind_eq_Some_conv
      split: option.splits if_split_asm)

lemma Erase_it_config: "Erase_it it c = Some (c', r) \<Longrightarrow> same_config c c'"
  by (auto simp: Erase_it_def bind_eq_Some_conv dest: Erase_config)

definition keeps_config :: "('a, 'db) default_cache \<Rightarrow> ('a, 'db) default_cache \<Rightarrow> bool" where
  "keeps_config s s' \<longleftrightarrow> (\<forall>lru'. mutable_cache_lru s' = Some lru' \<longrightarrow> (\<exists>lru. mutable_cache_lru s = Some lru \<and> same_config lru lru'))"

lemma keeps_config_refl [simp]: "mutable_cache_lru s' = mutable_cache_lru s \<Longrightarrow> keeps_config s s'"
  by (simp add: keeps_config_def)

lemma keeps_config_trans: "keeps_config s t \<Longrightarrow> keeps_config t u \<Longrightarrow> keeps_config s u"
  unfolding keeps_config_def by (metis same_config_trans)

lemma memory_remove_lru: "memory_remove k s = Some s' \<Longrightarrow> mutable_cache_lru s' = mutable_cache_lru s"
  by (auto simp: memory_remove_def bind_eq_Some_conv split: option.split_asm)

lemma erased_config:
  assumes "mutable_cache_lru s = Some lru" and "memory_remove k s = Some s1" and "same_config lru lru1"
    and "keeps_config (s1\<lparr>mutable_cache_lru := Some lru1\<rparr>) s'"
  shows "keeps_config s s'"
proof -
  have "keeps_config s (s1\<lparr>mutable_cache_lru := Some lru1\<rparr>)" using assms(1,3) by (simp add: keeps_config_def)
  then show ?thesis using assms(4) by (rule keeps_config_trans)
qed

lemma evict_expired_config: "evict_expired_loop now target it n s = Some r \<Longrightarrow> keeps_config s (fst r)"
proof (induction rule: evict_expired_loop.raw_induct [rotated, consumes 1])
  case (1 loop now target it n s r)
  show ?case
  proof (cases it)
    case None
    then show ?thesis using 1(2) by auto
  next
    case it: (Some k)
    show ?thesis
    proof (cases "mutable_cache_lru s")
      case None
      then show ?thesis using 1(2) it by auto
    next
      case (Some lru)
      show ?thesis using 1(2) it Some
        by (auto simp: bind_eq_Some_conv Let_def split: if_split_asm
            dest!: "1"(1) Erase_it_config intro: erased_config)
    qed
  qed
qed

lemma evict_data_config: "evict_data_loop target n s = Some r \<Longrightarrow> keeps_config s (fst r)"
proof (induction rule: evict_data_loop.raw_induct [rotated, consumes 1])
  case (1 loop target n s r)
  then obtain lru where lru: "mutable_cache_lru s = Some lru" by (auto simp: bind_eq_Some_conv)
  show ?case using 1(2) lru
    by (auto simp: bind_eq_Some_conv Let_def split: if_split_asm option.split_asm
        dest!: "1"(1) Erase_config intro: erased_config)
qed

lemma call_evict_config:
  assumes "call_evict_method L portion todo n s = Some r" and "\<And>target s r. portion target s = Some r \<Longrightarrow> keeps_config s (fst r)"
  shows "keeps_config s (fst r)"
proof -
  have "(\<forall>target s r. portion target s = Some r \<longrightarrow> keeps_config s (fst r)) \<longrightarrow> keeps_config s (fst r)"
    using assms(1)
  proof (induction rule: call_evict_method.raw_induct [rotated, consumes 1])
    case (1 loop L portion todo n s r)
    show ?case
    proof
      assume m: "\<forall>target s r. portion target s = Some r \<longrightarrow> keeps_config s (fst r)"
      from 1(2) obtain s1 batch sz disk where
        s1: "portion (if todo < eviction_portion s then todo else eviction_portion s) s = Some (s1, batch, sz)"
        and disk: "mutable_cache s1 = Some disk" by (auto simp: bind_eq_Some_conv Let_def)
      obtain disk' res where a: "ApplyBatch L batch disk = (disk', res)" by fastforce
      have k: "keeps_config s (s1\<lparr>mutable_cache := Some disk'\<rparr>)" using m s1 by (fastforce simp: keeps_config_def)
      show "keeps_config s (fst r)"
      proof (cases "\<exists>todo n. loop L portion todo n (s1\<lparr>mutable_cache := Some disk'\<rparr>) = Some r")
        case True
        then have "keeps_config (s1\<lparr>mutable_cache := Some disk'\<rparr>) (fst r)" using 1(1) m by blast
        then show ?thesis by (rule keeps_config_trans [OF k])
      next
        case False
        then show ?thesis using 1(2) s1 disk a k by (auto simp: Let_def split: sum.split_asm if_split_asm)
      qed
    qed
  qed
  with assms(2) show ?thesis by blast
qed

lemma MaybeEvictData_config: "MaybeEvictData L now s = Some (s', n) \<Longrightarrow> keeps_config s s'"
proof -
  assume r: "MaybeEvictData L now s = Some (s', n)"
  have ex: "call_evict_method L (EvictExpiredDataPortion now) todo n s = Some r \<Longrightarrow> keeps_config s (fst r)" for todo n s r
    by (rule call_evict_config) (auto simp: EvictExpiredDataPortion_def bind_eq_Some_conv dest!: evict_expired_config)
  have da: "call_evict_method L EvictDataPortion todo n s = Some r \<Longrightarrow> keeps_config s (fst r)" for todo n s r
    by (rule call_evict_config) (auto simp: EvictDataPortion_def dest!: evict_data_config)
  show ?thesis using r
    by (auto simp: MaybeEvictData_def Let_def bind_eq_Some_conv split: if_split_asm dest!: ex da intro: keeps_config_trans)
qed

text \<open>A write that succeeds leaves its key in the LRU list, when the list counts entries and has room for one.\<close>

lemma al_insert_kept:
  assumes "f = (\<lambda>_. 1)" and "0 < mx"
  shows "map_of (al_insert f mx k v l) k = Some v"
proof -
  have evict: "\<exists>r. al_evict f mx ((k, v) # l) = (k, v) # r" for l
  proof (induction l rule: rev_induct)
    case Nil
    have "cost_sum f [(k, v)] \<le> mx" using assms inc_le [of 0 mx] by simp
    then show ?case by (simp add: al_evict_id)
  next
    case (snoc p l)
    show ?case
    proof (cases "mx < cost_sum f (((k, v) # l) @ [p])")
      case True
      then show ?thesis using snoc al_evict_snoc [OF True] by simp
    next
      case False
      then have "cost_sum f ((k, v) # l @ [p]) \<le> mx" by simp
      then show ?thesis using al_evict_id by metis
    qed
  qed
  have "\<not> mx < f v" using assms inc_le [of 0 mx] by (simp add: not_less)
  then show ?thesis using evict [of l] evict [of "om_delete k l"]
    by (auto simp: al_insert_def split: option.split)
qed

definition lists_entries :: "('a, 'db) default_cache \<Rightarrow> bool" where
  "lists_entries s \<longleftrightarrow> (\<forall>lru. mutable_cache_lru s = Some lru \<longrightarrow> cache_cost_func lru = (\<lambda>_. 1) \<and> 0 < lru_max_size lru)"

lemma put_lru_listed:
  assumes "put_lru key n e s = Some (s', Inr ())" and "lists_entries s" and "\<forall>lru. mutable_cache_lru s = Some lru \<longrightarrow> (\<exists>l. lru_rel lru l)"
  shows "\<exists>s2. PromoteKeyLru key s' = Some (s2, True)"
proof (cases "mutable_cache_lru s")
  case None
  then show ?thesis using assms(1) by (simp add: put_lru_def PromoteKeyLru_def)
next
  case (Some lru)
  then obtain l where l: "lru_rel lru l" using assms(3) by blast
  show ?thesis
  proof (cases "IsProtected key (protected_keys s)")
    case True
    then have "s' = s" using Some assms(1) by (simp add: put_lru_def)
    then show ?thesis using Find_rel [OF l, of key] Some True by (auto simp: PromoteKeyLru_def)
  next
    case False
    from InsertOrAssign_rel [OF l, of key "\<lparr>vp_size = n, vp_expiry = e\<rparr>"] obtain lru' ev where
      i: "InsertOrAssign key \<lparr>vp_size = n, vp_expiry = e\<rparr> lru = Some (lru', ev,
          if refused lru key \<lparr>vp_size = n, vp_expiry = e\<rparr> l then None else Some key,
          map_of l key = None \<and> \<not> refused lru key \<lparr>vp_size = n, vp_expiry = e\<rparr> l)"
        "lru_rel lru' (al_insert (cache_cost_func lru) (lru_max_size lru) key \<lparr>vp_size = n, vp_expiry = e\<rparr> l)" by blast
    have "s' = s\<lparr>mutable_cache_lru := Some lru'\<rparr>"
      using assms(1) Some False i(1) by (auto simp: put_lru_def Let_def split: if_split_asm)
    moreover have "map_of (al_insert (cache_cost_func lru) (lru_max_size lru) key \<lparr>vp_size = n, vp_expiry = e\<rparr> l) key \<noteq> None"
      using al_insert_kept [of "cache_cost_func lru" "lru_max_size lru" key "\<lparr>vp_size = n, vp_expiry = e\<rparr>" l] assms(2) Some
      by (simp add: lists_entries_def)
    ultimately show ?thesis using Find_rel [OF i(2), of key] by (auto simp: PromoteKeyLru_def)
  qed
qed

section \<open>Reading back\<close>

lemma PutMutableCache_entries:
  assumes L: "ldb_laws L" and inv: "dc_inv s" and p: "0 < eviction_portion s" and m: "mutable_cache s \<noteq> None"
    and key: "key \<noteq> kProtectedKeys" "CreateExpiryKey key \<noteq> kProtectedKeys"
    and r: "PutMutableCache L now key val expiry s = Some (s', Inr ())" and e: "IsExpiryValid expiry"
    and fresh: "lists_entries s"
  shows "\<exists>disk. mutable_cache s' = Some disk \<and> database disk \<noteq> None \<and> disk_map L disk key = Some val
    \<and> disk_map L disk (CreateExpiryKey key) = Some (to_string_int (expiry + now))
    \<and> - (2 ^ 63) \<le> expiry + now \<and> expiry + now \<le> time_max \<and> protected_cache s' = protected_cache s
    \<and> (\<exists>s2. PromoteKeyLru key s' = Some (s2, True))"
  using r m
proof (cases rule: PutMutableCache_cases)
  case (stored exp eb n0 s1 n1 s2 pb n2 disk disk' res')
  obtain disk0 where "mutable_cache s = Some disk0" using m by blast
  have s1: "protected_cache s1 = protected_cache s \<and> dc_inv s1"
  proof (cases "mutable_cache_lru s")
    case None
    with stored(2) inv show ?thesis by (simp add: MaybeEvictData_def)
  next
    case (Some lru)
    from dc_inv_lru [OF inv Some] obtain l where l: "lru_ok s l" "\<forall>x \<in> fst ` set l. \<not> IsProtected x (protected_keys s)" by blast
    have "mem_ok (memory_cache s)" "database disk0 \<noteq> None" using inv \<open>mutable_cache s = Some disk0\<close> by (auto simp: dc_inv_def)
    from MaybeEvictData_rel [OF L l(1) this(1) \<open>mutable_cache s = Some disk0\<close> this(2) p, of now] stored(2)
    have ev: "s1 = s \<or> evicted_to L l s s1" by auto
    then have "protected_cache s1 = protected_cache s" unfolding evicted_to_def by auto
    moreover have "dc_inv s1"
    proof (cases "s1 = s")
      case False
      with ev have "evicted_to L l s s1" by simp
      then show ?thesis using inv l(2) unfolding evicted_to_def dc_inv_def by fastforce
    qed (use inv in simp)
    ultimately show ?thesis by simp
  qed
  note u = MaybeUpdatedProtectedKeys_shields [OF conjunct2 [OF s1] stored(3)]
  have s2: "protected_cache s2 = protected_cache s1"
    using stored(3) by (auto simp: MaybeUpdatedProtectedKeys_def Let_def split: bind_splits if_splits)
  from stored(6) have res': "res' = Inr ()"
    and l: "put_lru key (len val) exp (s2\<lparr>mutable_cache := Some disk', mutable_cache_data_size := n0\<rparr>) = Some (s', Inr ())"
    by (auto split: sum.splits)
  have s': "mutable_cache s' = Some disk'" "protected_cache s' = protected_cache s2"
    using l by (auto simp: put_lru_def Let_def split: option.splits if_splits bind_splits)
  have lru2: "mutable_cache_lru s2 = mutable_cache_lru s1"
    using stored(3) by (auto simp: MaybeUpdatedProtectedKeys_def Let_def split: bind_splits if_splits)
  have "lists_entries s1" using fresh MaybeEvictData_config [OF stored(2)]
    unfolding lists_entries_def keeps_config_def same_config_def by metis
  then have "lists_entries (s2\<lparr>mutable_cache := Some disk', mutable_cache_data_size := n0\<rparr>)"
    using lru2 by (simp add: lists_entries_def)
  moreover have "\<forall>lru. mutable_cache_lru s2 = Some lru \<longrightarrow> (\<exists>l. lru_rel lru l)"
    using shields_inv [OF u(1)] by (auto simp: dc_inv_def)
  ultimately have known: "\<exists>s2. PromoteKeyLru key s' = Some (s2, True)" using put_lru_listed [OF l] by simp
  have db: "database disk \<noteq> None" using shields_inv [OF u(1)] stored(4) by (auto simp: dc_inv_def)
  note a = ApplyBatch_entries [OF L db stored(5)]
  have eb: "eb = [BPut (CreateExpiryKey key) (to_string_int exp)]" "exp = expiry + now"
    "- (2 ^ 63) \<le> expiry + now" "expiry + now \<le> time_max" using stored(1) e by auto
  let ?m = "om_update (CreateExpiryKey key) (to_string_int exp) (om_update key val (disk_entries L disk))"
  have ok: "om_ok ?m" using L by (simp add: keeps)
  have "op_key ` set pb \<subseteq> {kProtectedKeys}" using u(4) by auto
  then have k: "key \<notin> op_key ` set pb" "CreateExpiryKey key \<notin> op_key ` set pb" using key by auto
  have "map_of (apply_batch pb ?m) key = map_of ?m key" by (rule apply_batch_frame [OF ok k(1)])
  moreover have "map_of (apply_batch pb ?m) (CreateExpiryKey key) = map_of ?m (CreateExpiryKey key)"
    by (rule apply_batch_frame [OF ok k(2)])
  moreover have "key \<noteq> CreateExpiryKey key" by (simp add: CreateExpiryKey_def kExpirySuffix_def)
  ultimately show ?thesis using a s' s1 s2 eb res' L known by (simp add: keeps)
qed simp

section \<open>What opening lists\<close>

text \<open>The effect of one entry of the database on the list, seen as a map.\<close>

definition list_step :: "protected_key_list \<Rightarrow> string \<times> string \<Rightarrow> (string \<Rightarrow> ValueProperties option) \<Rightarrow> string \<Rightarrow> ValueProperties option" where
  "list_step pk e m =
     (case e of (key, val) \<Rightarrow>
        if IsProtected key pk \<or> IsInternalKey key then m
        else
          (let k = (if IsExpiryKey key then take (length key - length kExpirySuffix) key else key);
               props = (case m k of Some p \<Rightarrow> p | None \<Rightarrow> default_props) in
           m(k \<mapsto> if IsExpiryKey key then props\<lparr>vp_expiry := the (stoll val)\<rparr> else props\<lparr>vp_size := len val\<rparr>)))"

definition counting_list :: "(string, ValueProperties) lru \<Rightarrow> (string \<times> ValueProperties) list \<Rightarrow> bool" where
  "counting_list lru l \<longleftrightarrow> lru_rel lru l \<and> cache_cost_func lru = (\<lambda>_. 1)"

lemma cost_sum_one: "cost_sum (\<lambda>_. 1) l = of_nat (length l)"
  by (induction l) (simp_all add: add.commute)

lemma al_insert_room:
  assumes "length l < unat mx"
  shows "al_insert (\<lambda>_. 1) mx k v l = (k, v) # om_delete k l"
proof -
  have le: "length ((k, v) # om_delete k l) \<le> unat mx"
    using le_less_trans [OF length_filter_le assms] by (simp add: om_delete_def Suc_leI)
  have "unat (word_of_nat n :: 64 word) \<le> n" for n by (simp add: unat_of_nat)
  from this le have "cost_sum (\<lambda>_. 1) ((k, v) # om_delete k l) \<le> mx" unfolding cost_sum_one word_le_nat_alt
    by (rule order_trans)
  moreover have "\<not> mx < 1" using assms by (metis gr_implies_not0 unat_0 word_less_1)
  ultimately show ?thesis
    by (auto simp: al_insert_def al_evict_id om_delete_fresh split: option.split)
qed

lemma AddKeyLru_lists:
  assumes lru: "mutable_cache_lru s = Some lru" and l: "counting_list lru l" and room: "length l < unat (lru_max_size lru)"
    and v: "IsExpiryKey key \<longrightarrow> stoll val \<noteq> None"
  shows "\<exists>lru' l'. AddKeyLru key val s = Some (s\<lparr>mutable_cache_lru := Some lru'\<rparr>) \<and> counting_list lru' l'
    \<and> lru_max_size lru' = lru_max_size lru \<and> map_of l' = list_step (protected_keys s) (key, val) (map_of l) \<and> length l' \<le> Suc (length l)"
proof (cases "IsProtected key (protected_keys s) \<or> IsInternalKey key")
  case True
  then have "AddKeyLru key val s = Some (s\<lparr>mutable_cache_lru := Some lru\<rparr>)" using lru by (auto simp: AddKeyLru_def)
  then show ?thesis using True l by (intro exI [of _ lru] exI [of _ l]) (auto simp: list_step_def)
next
  case False
  let ?k = "if IsExpiryKey key then take (length key - length kExpirySuffix) key else key"
  let ?props = "case map_of l ?k of Some p \<Rightarrow> p | None \<Rightarrow> default_props"
  let ?new = "if IsExpiryKey key then ?props\<lparr>vp_expiry := the (stoll val)\<rparr> else ?props\<lparr>vp_size := len val\<rparr>"
  have r: "lru_rel lru l" and c: "cache_cost_func lru = (\<lambda>_. 1)" using l by (simp_all add: counting_list_def)
  have p: "(if FindNoPromote ?k lru \<noteq> None then it_value (FindNoPromote ?k lru) lru else Some default_props) = Some ?props"
    using r by (auto split: option.split)
  have p': "(if IsExpiryKey key then map_option (\<lambda>e. ?props\<lparr>vp_expiry := e\<rparr>) (stoll val) else Some (?props\<lparr>vp_size := len val\<rparr>)) = Some ?new"
    using v by auto
  from InsertOrAssign_rel [OF r, of ?k ?new] obtain lru' rest where
    i: "InsertOrAssign ?k ?new lru = Some (lru', rest)" "same_config lru lru'"
      "lru_rel lru' (al_insert (cache_cost_func lru) (lru_max_size lru) ?k ?new l)" by blast
  have "AddKeyLru key val s = Some (s\<lparr>mutable_cache_lru := Some lru'\<rparr>)"
    using lru False i(1) p p' by (simp add: AddKeyLru_def Let_def)
  moreover have "counting_list lru' ((?k, ?new) # om_delete ?k l)" "lru_max_size lru' = lru_max_size lru"
    using i(2,3) c al_insert_room [OF room, of ?k ?new] by (simp_all add: counting_list_def same_config_def)
  moreover have "map_of ((?k, ?new) # om_delete ?k l) = list_step (protected_keys s) (key, val) (map_of l)"
    using False by (simp add: list_step_def Let_def fun_eq_iff)
  moreover have "length ((?k, ?new) # om_delete ?k l) \<le> Suc (length l)" by (simp add: om_delete_def)
  ultimately show ?thesis by blast
qed

lemma add_keys_lru_lists:
  "mutable_cache_lru s = Some lru \<Longrightarrow> counting_list lru l \<Longrightarrow> length l + length es \<le> unat (lru_max_size lru)
    \<Longrightarrow> \<forall>(key, val) \<in> set es. IsExpiryKey key \<longrightarrow> stoll val \<noteq> None
    \<Longrightarrow> \<exists>s' lru' l'. add_keys_lru es s = Some s' \<and> mutable_cache_lru s' = Some lru' \<and> counting_list lru' l'
      \<and> map_of l' = fold (list_step (protected_keys s)) es (map_of l)"
proof (induction es arbitrary: s lru l)
  case (Cons e es)
  obtain key val where e: "e = (key, val)" by (cases e)
  let ?s = "s\<lparr>mutable_cache_data_size := mutable_cache_data_size s + (len key + len val)\<rparr>"
  from AddKeyLru_lists [of ?s lru l key val] Cons.prems e obtain lru1 l1 where
    1: "AddKeyLru key val ?s = Some (?s\<lparr>mutable_cache_lru := Some lru1\<rparr>)" "counting_list lru1 l1"
      "lru_max_size lru1 = lru_max_size lru" "map_of l1 = list_step (protected_keys s) (key, val) (map_of l)" "length l1 \<le> Suc (length l)"
    by auto
  from Cons.IH [of "?s\<lparr>mutable_cache_lru := Some lru1\<rparr>" lru1 l1] 1 Cons.prems e show ?case by auto
qed auto

lemma it_value_none: "it_value None c = None"
  by (simp add: it_value_def deref_def)

text \<open>What the list holds for a key: the size of its value and its expiry time, each unless the entry is protected or
internal.\<close>

definition listed_entry :: "protected_key_list \<Rightarrow> (string \<Rightarrow> string option) \<Rightarrow> string \<Rightarrow> ValueProperties option" where
  "listed_entry pk m k =
     (let counted = (\<lambda>key. if IsProtected key pk \<or> IsInternalKey key then None else m key);
          value = (if IsExpiryKey k then None else counted k);
          expiry = counted (CreateExpiryKey k) in
      if value = None \<and> expiry = None then None
      else Some \<lparr>vp_size = (case value of None \<Rightarrow> 0 | Some v \<Rightarrow> len v),
                 vp_expiry = (case expiry of None \<Rightarrow> kDefaultExpiry | Some e \<Rightarrow> the (stoll e))\<rparr>)"

lemma IsExpiryKey_Create [simp]: "IsExpiryKey (CreateExpiryKey k)"
proof -
  have "starts_with kExpirySuffix kExpirySuffix" by code_simp
  moreover have "contains p (ys @ p)" if "starts_with p p" for p ys
    using that by (induction ys) (cases p; auto)+
  ultimately show ?thesis by (simp add: IsExpiryKey_def CreateExpiryKey_def)
qed

lemma CreateExpiryKey_inj [simp]: "CreateExpiryKey i = CreateExpiryKey j \<longleftrightarrow> i = j"
  by (simp add: CreateExpiryKey_def)

definition listed_props :: "protected_key_list \<Rightarrow> (string \<Rightarrow> string option) \<Rightarrow> string \<Rightarrow> ValueProperties" where
  "listed_props pk m k = (case listed_entry pk m k of Some p \<Rightarrow> p | None \<Rightarrow> default_props)"

lemma listed_expiry:
  assumes "m (CreateExpiryKey j) = None"
  shows "listed_entry pk (m(CreateExpiryKey j \<mapsto> v)) k =
    (if k = j \<and> \<not> IsProtected (CreateExpiryKey j) pk \<and> \<not> IsInternalKey (CreateExpiryKey j)
     then Some ((listed_props pk m j)\<lparr>vp_expiry := the (stoll v)\<rparr>) else listed_entry pk m k)"
proof (cases "k = j")
  case True
  moreover have "j \<noteq> CreateExpiryKey j" by (simp add: CreateExpiryKey_def kExpirySuffix_def)
  ultimately show ?thesis using assms
    by (simp add: listed_entry_def listed_props_def Let_def default_props_def split: option.split)
next
  case False
  then show ?thesis by (cases "k = CreateExpiryKey j") (simp_all add: listed_entry_def Let_def)
qed

lemma listed_value:
  assumes "m key = None" and "\<not> IsExpiryKey key"
  shows "listed_entry pk (m(key \<mapsto> v)) k =
    (if k = key \<and> \<not> IsProtected key pk \<and> \<not> IsInternalKey key
     then Some ((listed_props pk m key)\<lparr>vp_size := len v\<rparr>) else listed_entry pk m k)"
proof -
  have "CreateExpiryKey k \<noteq> key" for k using assms(2) by auto
  then show ?thesis using assms
    by (cases "k = key") (simp_all add: listed_entry_def listed_props_def Let_def default_props_def split: option.split)
qed

lemma list_fold_entry:
  assumes "distinct (map fst es)" and "\<forall>(key, val) \<in> set es. IsExpiryKey key \<longrightarrow> (\<exists>j. key = CreateExpiryKey j)"
  shows "fold (list_step pk) es Map.empty = listed_entry pk (map_of es)"
  using assms
proof (induction es rule: rev_induct)
  case Nil
  then show ?case by (simp add: listed_entry_def fun_eq_iff)
next
  case (snoc e es)
  obtain key val where e: "e = (key, val)" by (cases e)
  have fresh: "map_of es key = None" using snoc.prems(1) e by (simp add: map_of_eq_None_iff)
  have IH: "fold (list_step pk) es Map.empty = listed_entry pk (map_of es)" using snoc by auto
  have m: "map_of (es @ [e]) = (map_of es)(key \<mapsto> val)" using fresh by (auto simp: e map_add_def fun_eq_iff split: option.split)
  have "list_step pk (key, val) (listed_entry pk (map_of es)) = listed_entry pk ((map_of es)(key \<mapsto> val))"
  proof (cases "IsExpiryKey key")
    case True
    then obtain j where j: "key = CreateExpiryKey j" using snoc.prems(2) e by auto
    have "take (length key - length kExpirySuffix) key = j" by (simp add: j CreateExpiryKey_def)
    then show ?thesis using True listed_expiry [of "map_of es" j pk val] fresh unfolding listed_props_def
      by (simp add: list_step_def Let_def fun_eq_iff j)
  next
    case False
    then show ?thesis using listed_value [of "map_of es" key pk val] fresh False unfolding listed_props_def
      by (simp add: list_step_def Let_def fun_eq_iff)
  qed
  then show ?case unfolding m by (simp add: IH e fun_upd_def)
qed

section \<open>Properties\<close>

text \<open>A small cache on the database in memory: a protected entry \<open>p\<close>, an entry \<open>a\<close> in the LRU list,
  and a disk limit of 40 bytes.\<close>

definition small_settings :: CacheSettings where
  "small_settings = \<lparr>disk_path_mutable = Some ''m'', disk_path_protected = None, max_disk_storage = 40,
     max_memory_cache_size = 0, cs_enforce_immediate_flush = False, eviction_policy = kLeastRecentlyUsed, openOptions = 0\<rparr>"

definition small_cache :: "(string, string) omap \<Rightarrow> string list \<Rightarrow> (unit, (string, string) omap) default_cache" where
  "small_cache db keys =
     \<lparr>settings = small_settings, is_open = True, memory_cache = None,
      mutable_cache = Some (DiskCache_new\<lparr>database := Some db\<rparr>), mutable_cache_lru = Some (LruCache_new 40 (\<lambda>_. 1)),
      protected_cache = None, mutable_cache_data_size = 0,
      protected_keys = \<lparr>protected_data = keys, size_written = 0, dirty = False\<rparr>, eviction_portion = 1024\<rparr>"

lemma small_cache_inv: "om_ok db \<Longrightarrow> pk_ok keys \<Longrightarrow> dc_inv (small_cache db keys)"
  by (auto simp: dc_inv_def small_cache_def mem_ok_def LruCache_new_def lru_rel_def)

text \<open>Deleting by prefix on disk: when the batch is written, exactly the entries whose key has the
  prefix and passes the filter are gone, and the reported size is the sum of their key and value
  lengths (as a 64-bit number); when it is not written, nothing is gone and the size is 0.\<close>

lemma disk_remove_prefix_exact:
  assumes "ldb_laws L" and "database c \<noteq> None"
    and "DiskCache_RemoveKeysWithPrefix L pre flt c = (c', res, n)"
  shows "(\<forall>k. disk_map L c' k =
      (if res = Inr () \<and> prefix pre k \<and> \<not> flt k then None else disk_map L c k))
    \<and> n = (if res = Inr () then of_nat (sum_list (map entry_size
          (filter (\<lambda>e. prefix pre (fst e) \<and> \<not> flt (fst e)) (disk_entries L c)))) else 0)"
proof (cases res)
  case (Inl e)
  with remove_prefix_entries(3) [OF assms] show ?thesis by simp
next
  case (Inr u)
  with remove_prefix_entries(2) [OF assms]
    map_of_filter_fst [where P = "\<lambda>x. prefix pre x \<longrightarrow> flt x" and m = "disk_entries L c"]
  show ?thesis by simp
qed

lemma disk_remove_prefix_exact_witness:
  "\<forall>k. disk_map mem_ldb (fst (DiskCache_RemoveKeysWithPrefix mem_ldb ''a'' (\<lambda>k. k = ''ab'')
       (DiskCache_new\<lparr>database := Some [(''a'', ''1''), (''ab'', ''2''), (''b'', ''3'')]\<rparr>))) k =
     (if prefix ''a'' k \<and> k \<noteq> ''ab'' then None
      else disk_map mem_ldb (DiskCache_new\<lparr>database := Some [(''a'', ''1''), (''ab'', ''2''), (''b'', ''3'')]\<rparr>) k)"
proof -
  let ?c = "DiskCache_new\<lparr>database := Some [(''a'', ''1''), (''ab'', ''2''), (''b'', ''3'')]\<rparr>"
  obtain c' res n where r: "DiskCache_RemoveKeysWithPrefix mem_ldb ''a'' (\<lambda>k. k = ''ab'') ?c = (c', res, n)"
    by (metis prod_cases3)
  moreover have "fst (snd (DiskCache_RemoveKeysWithPrefix mem_ldb ''a'' (\<lambda>k. k = ''ab'') ?c)) = Inr ()" by code_simp
  ultimately show ?thesis using disk_remove_prefix_exact [OF mem_ldb_laws _ r] by simp
qed

text \<open>C1. A protected entry on disk survives every sequence of reads, writes of other keys, deletions, deletions by
prefix, resizes and promotions, with all the evictions they cause: the entry is unchanged and the key is still protected. The
cache satisfies the invariant, which \<open>InitializeLru\<close> establishes: no key in its LRU list is protected. Protecting a
prefix that is itself a cached key can break it (\<open>protect_prefix_incomplete\<close> below): the keys under that prefix that stay in the
list are not covered, and eviction does delete them. The entry must not be the expiry time of an
unprotected key, nor the list of protected keys itself.\<close>

theorem protected_entry_survives:
  assumes "ldb_laws L" and "dc_inv s" and "safe_key s k" and "0 < eviction_portion s" and "k \<noteq> kProtectedKeys"
    and "\<forall>op \<in> set ops. k \<notin> written_keys op" and "dc_run L ops s = Some s'"
  shows "disk_at L s' k = disk_at L s k \<and> IsProtected k (protected_keys s')"
proof -
  have "shields L k s s'" by (rule dc_run_shields [OF assms])
  with assms(3) show ?thesis using IsProtected_data [of "protected_keys s'" "protected_keys s" k]
    by (simp add: shields_def safe_key_def)
qed

definition survival_run :: "unit dc_op list" where
  "survival_run = [DWrite 100 ''b'' (Some ''0123456789'') 50, DWrite 101 ''c'' (Some ''0123456789'') time_max,
     DWrite 102 ''d'' (Some ''0123456789'') 5, DRead 103 ''p'', DDelete ''p'', DDeleteByPrefix []]"

theorem protected_entry_survives_witness:
  "map_option (\<lambda>s. disk_at mem_ldb s ''p'') (dc_run mem_ldb survival_run (small_cache [(''p'', ''1'')] [''p'']))
     = Some (Some ''1'')"
proof -
  let ?s = "small_cache [(''p'', ''1'')] [''p'']"
  have "dc_run mem_ldb survival_run ?s \<noteq> None" by code_simp
  then obtain s' where r: "dc_run mem_ldb survival_run ?s = Some s'" by blast
  have inv: "dc_inv ?s" by (rule small_cache_inv) (simp_all add: pk_ok_def om_ok_def)
  have p: "IsProtected ''p'' (protected_keys ?s)" by code_simp
  have safe: "safe_key ?s ''p''"
    using p by (auto simp: safe_key_def CreateExpiryKey_def kExpirySuffix_def append_eq_Cons_conv)
  have "disk_at mem_ldb s' ''p'' = disk_at mem_ldb ?s ''p''"
    using protected_entry_survives [OF mem_ldb_laws inv safe _ _ _ r]
    by (simp add: small_cache_def kProtectedKeys_def survival_run_def CreateExpiryKey_def kExpirySuffix_def)
  moreover have "disk_at mem_ldb ?s ''p'' = Some ''1''" by code_simp
  ultimately show ?thesis using r by simp
qed

text \<open>C10. Eviction always returns, keeps the invariant, and touches on disk only entries of the LRU
  list and their expiry times: every other entry, in particular every protected one, is kept.\<close>

theorem eviction_returns:
  assumes L: "ldb_laws L" and inv: "dc_inv s" and p: "0 < eviction_portion s"
  shows "\<exists>s' n. MaybeEvictData L now s = Some (s', n) \<and> dc_inv s'
    \<and> (\<forall>k. (\<forall>lru j. mutable_cache_lru s = Some lru \<longrightarrow> FindNoPromote j lru \<noteq> None \<longrightarrow> k \<noteq> j \<and> k \<noteq> CreateExpiryKey j)
        \<longrightarrow> disk_at L s' k = disk_at L s k)"
proof (cases "mutable_cache s = None \<or> mutable_cache_lru s = None")
  case True
  with inv show ?thesis by (auto simp: MaybeEvictData_def)
next
  case False
  then obtain disk lru where disk: "mutable_cache s = Some disk" and lru: "mutable_cache_lru s = Some lru" by auto
  from dc_inv_lru [OF inv lru] obtain l where l: "lru_rel lru l" "lru_ok s l"
    "\<forall>x \<in> fst ` set l. \<not> IsProtected x (protected_keys s)" by blast
  have "mem_ok (memory_cache s)" "database disk \<noteq> None" using inv disk by (auto simp: dc_inv_def)
  from MaybeEvictData_rel [OF L l(2) this(1) disk this(2) p, of now] obtain s' n
    where r: "MaybeEvictData L now s = Some (s', n)" "s' = s \<or> evicted_to L l s s'" by blast
  have found: "FindNoPromote j lru \<noteq> None" if "j \<in> fst ` set l" for j
    using FindNoPromote_rel [OF l(1), of j] that by (simp add: map_of_eq_None_iff)
  from r(2) have "dc_inv s' \<and> (\<forall>k. (\<forall>j \<in> fst ` set l. k \<noteq> j \<and> k \<noteq> CreateExpiryKey j) \<longrightarrow> disk_at L s' k = disk_at L s k)"
  proof
    assume e: "evicted_to L l s s'"
    from e have "dc_inv s'" using inv l(3) unfolding evicted_to_def dc_inv_def by fastforce
    moreover from e have "\<forall>k. (\<forall>j \<in> fst ` set l. k \<noteq> j \<and> k \<noteq> CreateExpiryKey j) \<longrightarrow> disk_at L s' k = disk_at L s k"
      unfolding evicted_to_def keeps_others_def disk_at_def by auto
    ultimately show ?thesis by blast
  qed (use inv in simp)
  then have d: "dc_inv s'"
    and f: "(\<forall>j \<in> fst ` set l. k \<noteq> j \<and> k \<noteq> CreateExpiryKey j) \<Longrightarrow> disk_at L s' k = disk_at L s k" for k by simp_all
  have "disk_at L s' k = disk_at L s k"
    if "\<forall>lru j. mutable_cache_lru s = Some lru \<longrightarrow> FindNoPromote j lru \<noteq> None \<longrightarrow> k \<noteq> j \<and> k \<noteq> CreateExpiryKey j" for k
    using that lru found by (intro f ballI) simp
  with r(1) d show ?thesis by simp
qed

theorem eviction_returns_witness:
  "\<exists>s' n. MaybeEvictData mem_ldb 7 (small_cache [(''p'', ''1'')] [''p'']) = Some (s', n) \<and> disk_at mem_ldb s' ''p'' = Some ''1''"
proof -
  let ?s = "small_cache [(''p'', ''1'')] [''p'']"
  have inv: "dc_inv ?s" by (rule small_cache_inv) (simp_all add: pk_ok_def om_ok_def)
  have "disk_at mem_ldb ?s ''p'' = Some ''1''" by code_simp
  moreover have "mutable_cache_lru ?s = Some lru \<longrightarrow> FindNoPromote j lru = None" for lru j
    by (auto simp: small_cache_def LruCache_new_def FindNoPromote_def)
  moreover have "0 < eviction_portion ?s" by (simp add: small_cache_def)
  ultimately show ?thesis using eviction_returns [OF mem_ldb_laws inv, of 7] by auto
qed

text \<open>C12. Building the LRU list when the cache is opened. When the database has no more entries than the limit, every stored
expiry time is a number and every key that contains the expiry suffix ends with it, the list holds exactly the keys whose value
or expiry time is stored under a key that is neither protected nor internal, each with the size of its value and its expiry
time. The size of the cache is that of all entries, nothing else changes, and the invariant holds.\<close>

theorem initialize_lru_ok:
  assumes "ldb_laws L" and "mem_ok (memory_cache s)" and "pk_ok (protected_data (protected_keys s))"
    and "mutable_cache s = Some disk" and "database disk \<noteq> None"
    and "length (disk_entries L disk) \<le> unat (max_disk_storage (settings s))"
    and "\<forall>(key, val) \<in> set (disk_entries L disk). IsExpiryKey key \<longrightarrow> stoll val \<noteq> None \<and> (\<exists>j. key = CreateExpiryKey j)"
  shows "\<exists>s' lru. InitializeLru L s = Some s' \<and> dc_inv s'
    \<and> s' = s\<lparr>mutable_cache_lru := Some lru, mutable_cache_data_size := of_nat (sum_list (map entry_size (disk_entries L disk)))\<rparr>
    \<and> (\<forall>k. (FindNoPromote k lru = None) = (listed_entry (protected_keys s) (disk_map L disk) k = None))
    \<and> (\<forall>k. it_value (FindNoPromote k lru) lru = listed_entry (protected_keys s) (disk_map L disk) k)"
proof -
  let ?lru = "LruCache_new (max_disk_storage (settings s)) (\<lambda>_. 1)"
  let ?s = "s\<lparr>mutable_cache_data_size := 0, mutable_cache_lru := Some ?lru\<rparr>"
  from assms(5) obtain db where db: "database disk = Some db" by blast
  have new: "lru_rel ?lru []" by (simp add: LruCache_new_def lru_rel_def)
  then have "\<exists>l. lru_rel ?lru l \<and> (\<forall>k \<in> fst ` set l. \<not> IsProtected k (protected_keys s))" by (intro exI [of _ "[]"]) simp
  then have inv: "dc_inv ?s" using assms(2-5) by (simp add: dc_inv_def)
  have nums: "\<forall>(key, val) \<in> set (disk_entries L disk). IsExpiryKey key \<longrightarrow> stoll val \<noteq> None"
    and own: "\<forall>(key, val) \<in> set (disk_entries L disk). IsExpiryKey key \<longrightarrow> (\<exists>j. key = CreateExpiryKey j)" using assms(7) by auto
  from add_keys_lru_inv [OF inv nums] obtain o1 where
    1: "add_keys_lru (disk_entries L disk) ?s = Some (s\<lparr>mutable_cache_lru := o1,
        mutable_cache_data_size := of_nat (sum_list (map entry_size (disk_entries L disk)))\<rparr>)"
      "dc_inv (s\<lparr>mutable_cache_lru := o1\<rparr>)" by (auto simp: dc_inv_def)
  have "counting_list ?lru []" using new by (simp add: counting_list_def LruCache_new_def)
  from add_keys_lru_lists [OF _ this, of ?s "disk_entries L disk"] nums assms(6) 1(1) obtain lru l where
    2: "o1 = Some lru" "counting_list lru l" "map_of l = fold (list_step (protected_keys s)) (disk_entries L disk) Map.empty"
    by (auto simp: LruCache_new_def)
  have "om_ok (disk_entries L disk)" using assms(1) by (simp add: keeps)
  then have "distinct (map fst (disk_entries L disk))" by (rule om_ok_distinct)
  from list_fold_entry [OF this own] 2(3) have m: "map_of l k = listed_entry (protected_keys s) (disk_map L disk) k" for k by simp
  have "(FindNoPromote k lru = None) = (listed_entry (protected_keys s) (disk_map L disk) k = None)"
    "it_value (FindNoPromote k lru) lru = listed_entry (protected_keys s) (disk_map L disk) k" for k
  proof -
    from 2(2) have rel: "lru_rel lru l" by (simp add: counting_list_def)
    show "(FindNoPromote k lru = None) = (listed_entry (protected_keys s) (disk_map L disk) k = None)"
      unfolding FindNoPromote_rel [OF rel] m [symmetric] by simp
    show "it_value (FindNoPromote k lru) lru = listed_entry (protected_keys s) (disk_map L disk) k"
      unfolding FindNoPromote_rel [OF rel] m [symmetric] by (simp add: it_value_none it_value_rel [OF rel])
  qed
  moreover have "InitializeLru L s = Some (s\<lparr>mutable_cache_lru := Some lru,
      mutable_cache_data_size := of_nat (sum_list (map entry_size (disk_entries L disk)))\<rparr>)"
    using assms(4) db 1(1) 2(1) by (auto simp: InitializeLru_def DiskCache_NewIterator_def disk_entries_def)
  moreover have "dc_inv (s\<lparr>mutable_cache_lru := Some lru,
      mutable_cache_data_size := of_nat (sum_list (map entry_size (disk_entries L disk)))\<rparr>)"
    using 1(2) 2(1) by (auto simp: dc_inv_def)
  ultimately show ?thesis by blast
qed

theorem initialize_lru_ok_witness:
  "\<exists>s' lru. InitializeLru mem_ldb (small_cache [(''a'', ''xy''), (''a::expiry'', ''777''), (''p'', ''1'')] [''p'']) = Some s'
    \<and> mutable_cache_data_size s' = 17 \<and> mutable_cache_lru s' = Some lru \<and> FindNoPromote ''p'' lru = None
    \<and> it_value (FindNoPromote ''a'' lru) lru = Some \<lparr>vp_size = 2, vp_expiry = 777\<rparr>"
proof -
  let ?m = "[(''a'', ''xy''), (''a::expiry'', ''777''), (''p'', ''1'')]"
  let ?d = "DiskCache_new\<lparr>database := Some ?m\<rparr>"
  let ?s = "small_cache ?m [''p'']"
  have e: "disk_entries mem_ldb ?d = ?m" by code_simp
  have "stoll ''777'' \<noteq> None" "\<not> IsExpiryKey ''a''" "\<not> IsExpiryKey ''p''" "''a::expiry'' = CreateExpiryKey ''a''" by code_simp+
  then have ok: "\<forall>(key, val) \<in> set (disk_entries mem_ldb ?d). IsExpiryKey key \<longrightarrow> stoll val \<noteq> None \<and> (\<exists>j. key = CreateExpiryKey j)"
    unfolding e by auto
  from initialize_lru_ok [OF mem_ldb_laws _ _ _ _ _ ok, of ?s] obtain s' lru where
    r: "InitializeLru mem_ldb ?s = Some s'"
      "s' = ?s\<lparr>mutable_cache_lru := Some lru, mutable_cache_data_size := of_nat (sum_list (map entry_size (disk_entries mem_ldb ?d)))\<rparr>"
      "\<And>k. (FindNoPromote k lru = None) = (listed_entry (protected_keys ?s) (disk_map mem_ldb ?d) k = None)"
      "\<And>k. it_value (FindNoPromote k lru) lru = listed_entry (protected_keys ?s) (disk_map mem_ldb ?d) k"
    by (fastforce simp: small_cache_def small_settings_def mem_ok_def pk_ok_def e)
  have "listed_entry (protected_keys ?s) (map_of ?m) ''p'' = None"
    "listed_entry (protected_keys ?s) (map_of ?m) ''a'' = Some \<lparr>vp_size = 2, vp_expiry = 777\<rparr>" by code_simp+
  then show ?thesis using r e by (auto simp: entry_size_def)
qed

text \<open>C11. Round trip through the disk: a non-empty value that was written to the mutable cache with an expiry time is found
there before that time, with the remaining time, and its key is known to the LRU list, or is protected. No protected cache is
open, which would be asked first; neither the key nor that of its expiry time is the key of the list of protected keys; and the
LRU list, if there is one, counts entries and has room for one, as \<open>InitializeLru\<close> makes it for a limit above zero.\<close>

theorem disk_write_read:
  assumes L: "ldb_laws L" and inv: "dc_inv s" and p: "0 < eviction_portion s" and m: "mutable_cache s \<noteq> None"
    and prot: "protected_cache s = None" and fresh: "lists_entries s"
    and key: "key \<noteq> kProtectedKeys" "CreateExpiryKey key \<noteq> kProtectedKeys"
    and w: "PutMutableCache L now key val expiry s = Some (s', Inr ())" and e: "IsExpiryValid expiry"
    and v: "val \<noteq> []" and t: "now' < expiry + now" "expiry + now - now' \<le> time_max"
  shows "\<exists>s2. GetFromDiskCache L now' key s' = Some (s2, Inr (val, expiry + now - now'))"
proof -
  from PutMutableCache_entries [OF L inv p m key w e fresh] obtain disk
    where d: "mutable_cache s' = Some disk" "database disk \<noteq> None" "disk_map L disk key = Some val"
      "disk_map L disk (CreateExpiryKey key) = Some (to_string_int (expiry + now))"
      "- (2 ^ 63) \<le> expiry + now" "expiry + now \<le> time_max" "protected_cache s' = None"
      and known: "\<exists>s2. PromoteKeyLru key s' = Some (s2, True)" using prot by auto
  have st: "stoll (to_string_int (expiry + now)) = Some (expiry + now)"
    using d(5,6) by (intro stoll_to_string_int) (simp_all add: time_max_def)
  then have ne: "to_string_int (expiry + now) \<noteq> []" by (auto simp: stoll_def)
  have ta: "time_add (expiry + now) (- now') = Some (expiry + now - now')" using t by simp
  have g: "GetRemainingExpiryTime L now' key disk = Some (expiry + now - now')"
    using d st ne ta unfolding GetRemainingExpiryTime_def by (simp add: DiskCache_Get_map [OF L d(2)])
  show ?thesis using d g v t known
    by (auto simp: GetFromDiskCache_def DiskCache_Get_map [OF L d(2)])
qed

theorem disk_write_read_witness:
  "\<exists>s' s2. PutMutableCache mem_ldb 100 ''k'' ''v1'' 50 (small_cache [] []) = Some (s', Inr ())
     \<and> GetFromDiskCache mem_ldb 149 ''k'' s' = Some (s2, Inr (''v1'', 1))"
proof -
  let ?s = "small_cache [] []"
  have inv: "dc_inv ?s" by (rule small_cache_inv) (simp_all add: om_ok_def)
  have "map_option snd (PutMutableCache mem_ldb 100 ''k'' ''v1'' 50 ?s) = Some (Inr ())" by code_simp
  then obtain s' where w: "PutMutableCache mem_ldb 100 ''k'' ''v1'' 50 ?s = Some (s', Inr ())" by auto
  have "\<exists>s2. GetFromDiskCache mem_ldb 149 ''k'' s' = Some (s2, Inr (''v1'', 50 + 100 - 149))"
    by (rule disk_write_read [OF mem_ldb_laws inv _ _ _ _ _ _ w])
      (simp_all add: small_cache_def kProtectedKeys_def CreateExpiryKey_def kExpirySuffix_def IsExpiryValid_def
        kDefaultExpiry_def time_max_def lists_entries_def LruCache_new_def)
  with w show ?thesis by auto
qed

section \<open>Where the guarantees fail\<close>

text \<open>Protecting a prefix leaves keys below it in the LRU list: when the prefix itself is a cached
  key, only that key is taken out of the list. The key below it is then protected and still a
  candidate for eviction, which deletes it.\<close>

lemma protect_prefix_incomplete:
  "(do {
      (s, _) \<leftarrow> Write mem_ldb 1 ''a'' (Some ''1'') time_max (small_cache [] []);
      (s, _) \<leftarrow> Write mem_ldb 1 ''ab'' (Some ''0123456789'') time_max s;
      (s, _) \<leftarrow> DefaultCache_Protect [''a''] s;
      (s, _) \<leftarrow> Write mem_ldb 1 ''x'' (Some ''0123456789012345678901234'') time_max s;
      (s', _) \<leftarrow> Write mem_ldb 1 ''y'' (Some ''0'') time_max s;
      Some (IsProtected ''ab'' (protected_keys s), disk_at mem_ldb s ''ab'', disk_at mem_ldb s' ''ab'') })
   = Some (True, Some ''0123456789'', None)"
  by code_simp

text \<open>Overwriting an entry without an expiry time keeps the expiry entry of the earlier write: the
  new value, written to stay, is purged when the old time has passed.\<close>

lemma stale_expiry_purges:
  "(do {
      (s, _) \<leftarrow> Write mem_ldb 100 ''k'' (Some ''old'') 10 (small_cache [] []);
      (s, _) \<leftarrow> Write mem_ldb 101 ''k'' (Some ''new'') time_max s;
      (_, r1) \<leftarrow> Read mem_ldb 105 ''k'' s;
      (s, r2) \<leftarrow> Read mem_ldb 111 ''k'' s;
      Some (r1, r2, disk_at mem_ldb s ''k'') })
   = Some (Inr ''new'', Inl NotFound, None)"
  by code_simp

end
