(* ===== verification/TileKey.thy ===== *)
theory TileKey
  imports Prelude
begin

text \<open>
  \<open>olp::geo::TileKey\<close>, \<open>QuadKey64Helper\<close> and the level sets (include/olp/core/geo/tiling/TileKey.h
  and src/geo/tiling/TileKey.cpp). Rows, columns and levels are 32-bit words, quad keys 64-bit
  words. A shift by the width of the type or more is undefined in C++ (here it gives 0); the
  theorems are about keys and arguments for which no such shift occurs.

  The centre of the theory is \<open>bit_ToQuadKey64\<close>: which bits the table driven Morton code sets.
  The round trips, the parent and child relations and the sub-key arithmetic are bitwise
  consequences of it.
\<close>

section \<open>Tile keys\<close>

record TileKey =
  row :: u32
  column :: u32
  level :: u32

definition LevelCount :: u32 where
  "LevelCount = 32"

definition TileKey_invalid :: TileKey where
  "TileKey_invalid = \<lparr>row = 0, column = 0, level = LevelCount\<rparr>"

definition FromRowColumnLevel :: "u32 \<Rightarrow> u32 \<Rightarrow> u32 \<Rightarrow> TileKey" where
  "FromRowColumnLevel r c l = \<lparr>row = r, column = c, level = l\<rparr>"

definition IsValid :: "TileKey \<Rightarrow> bool" where
  "IsValid t \<longleftrightarrow> level t < LevelCount \<and> row t < push_bit (unat (level t)) 1
     \<and> column t < push_bit (unat (level t)) 1"

definition TileKey_less :: "TileKey \<Rightarrow> TileKey \<Rightarrow> bool" where
  "TileKey_less a b =
     (if level a \<noteq> level b then level a < level b
      else if row a \<noteq> row b then row a < row b
      else column a < column b)"

section \<open>Quad keys\<close>

definition kMortonTable256 :: "u64 list" where
  "kMortonTable256 = [
     0x0000, 0x0001, 0x0004, 0x0005, 0x0010, 0x0011, 0x0014, 0x0015, 0x0040, 0x0041, 0x0044, 0x0045,
     0x0050, 0x0051, 0x0054, 0x0055, 0x0100, 0x0101, 0x0104, 0x0105, 0x0110, 0x0111, 0x0114, 0x0115,
     0x0140, 0x0141, 0x0144, 0x0145, 0x0150, 0x0151, 0x0154, 0x0155, 0x0400, 0x0401, 0x0404, 0x0405,
     0x0410, 0x0411, 0x0414, 0x0415, 0x0440, 0x0441, 0x0444, 0x0445, 0x0450, 0x0451, 0x0454, 0x0455,
     0x0500, 0x0501, 0x0504, 0x0505, 0x0510, 0x0511, 0x0514, 0x0515, 0x0540, 0x0541, 0x0544, 0x0545,
     0x0550, 0x0551, 0x0554, 0x0555, 0x1000, 0x1001, 0x1004, 0x1005, 0x1010, 0x1011, 0x1014, 0x1015,
     0x1040, 0x1041, 0x1044, 0x1045, 0x1050, 0x1051, 0x1054, 0x1055, 0x1100, 0x1101, 0x1104, 0x1105,
     0x1110, 0x1111, 0x1114, 0x1115, 0x1140, 0x1141, 0x1144, 0x1145, 0x1150, 0x1151, 0x1154, 0x1155,
     0x1400, 0x1401, 0x1404, 0x1405, 0x1410, 0x1411, 0x1414, 0x1415, 0x1440, 0x1441, 0x1444, 0x1445,
     0x1450, 0x1451, 0x1454, 0x1455, 0x1500, 0x1501, 0x1504, 0x1505, 0x1510, 0x1511, 0x1514, 0x1515,
     0x1540, 0x1541, 0x1544, 0x1545, 0x1550, 0x1551, 0x1554, 0x1555, 0x4000, 0x4001, 0x4004, 0x4005,
     0x4010, 0x4011, 0x4014, 0x4015, 0x4040, 0x4041, 0x4044, 0x4045, 0x4050, 0x4051, 0x4054, 0x4055,
     0x4100, 0x4101, 0x4104, 0x4105, 0x4110, 0x4111, 0x4114, 0x4115, 0x4140, 0x4141, 0x4144, 0x4145,
     0x4150, 0x4151, 0x4154, 0x4155, 0x4400, 0x4401, 0x4404, 0x4405, 0x4410, 0x4411, 0x4414, 0x4415,
     0x4440, 0x4441, 0x4444, 0x4445, 0x4450, 0x4451, 0x4454, 0x4455, 0x4500, 0x4501, 0x4504, 0x4505,
     0x4510, 0x4511, 0x4514, 0x4515, 0x4540, 0x4541, 0x4544, 0x4545, 0x4550, 0x4551, 0x4554, 0x4555,
     0x5000, 0x5001, 0x5004, 0x5005, 0x5010, 0x5011, 0x5014, 0x5015, 0x5040, 0x5041, 0x5044, 0x5045,
     0x5050, 0x5051, 0x5054, 0x5055, 0x5100, 0x5101, 0x5104, 0x5105, 0x5110, 0x5111, 0x5114, 0x5115,
     0x5140, 0x5141, 0x5144, 0x5145, 0x5150, 0x5151, 0x5154, 0x5155, 0x5400, 0x5401, 0x5404, 0x5405,
     0x5410, 0x5411, 0x5414, 0x5415, 0x5440, 0x5441, 0x5444, 0x5445, 0x5450, 0x5451, 0x5454, 0x5455,
     0x5500, 0x5501, 0x5504, 0x5505, 0x5510, 0x5511, 0x5514, 0x5515, 0x5540, 0x5541, 0x5544, 0x5545,
     0x5550, 0x5551, 0x5554, 0x5555]"

definition ToQuadKey64 :: "TileKey \<Rightarrow> u64" where
  "ToQuadKey64 t =
     push_bit (unat (2 * level t)) 1
     OR push_bit 49 (kMortonTable256 ! unat (drop_bit 24 (row t) AND 0xFF))
     OR push_bit 33 (kMortonTable256 ! unat (drop_bit 16 (row t) AND 0xFF))
     OR push_bit 17 (kMortonTable256 ! unat (drop_bit 8 (row t) AND 0xFF))
     OR push_bit 1 (kMortonTable256 ! unat (row t AND 0xFF))
     OR push_bit 48 (kMortonTable256 ! unat (drop_bit 24 (column t) AND 0xFF))
     OR push_bit 32 (kMortonTable256 ! unat (drop_bit 16 (column t) AND 0xFF))
     OR push_bit 16 (kMortonTable256 ! unat (drop_bit 8 (column t) AND 0xFF))
     OR (kMortonTable256 ! unat (column t AND 0xFF))"

function FromQuadKey64_loop :: "u64 \<Rightarrow> TileKey \<Rightarrow> TileKey" where
  "FromQuadKey64_loop quad_key result =
     (if 1 < quad_key then
        (let msk = push_bit (unat (level result)) 1;
             result = (if quad_key AND 0x1 \<noteq> 0 then result\<lparr>column := column result OR msk\<rparr> else result);
             result = (if quad_key AND 0x2 \<noteq> 0 then result\<lparr>row := row result OR msk\<rparr> else result) in
         FromQuadKey64_loop (drop_bit 2 quad_key) (result\<lparr>level := level result + 1\<rparr>))
      else result)"
  by pat_completeness auto
termination
  by (relation "measure (\<lambda>(q, _). unat q)")
    (auto simp: drop_bit_eq_div word_less_nat_alt unat_div)

declare FromQuadKey64_loop.simps [simp del]

definition FromQuadKey64 :: "u64 \<Rightarrow> TileKey" where
  "FromQuadKey64 quad_key = FromQuadKey64_loop quad_key (FromRowColumnLevel 0 0 0)"

definition ToQuadKey :: "TileKey \<Rightarrow> string" where
  "ToQuadKey t =
     (if \<not> IsValid t then []
      else if level t = 0 then ''-''
      else
        (let morton_key = ToQuadKey64 t in
         rev (map (\<lambda>index. digit (unat ((morton_key div push_bit (2 * index) 1) mod 4))) [0..<unat (level t)])))"

text \<open>The loop of \<open>FromQuadKey\<close> reads the string from its end; \<open>d & 1\<close> and \<open>d & 2\<close> are the two
  low bits of the difference to \<open>'0'\<close>.\<close>

fun FromQuadKey_loop :: "nat \<Rightarrow> string \<Rightarrow> TileKey \<Rightarrow> TileKey" where
  "FromQuadKey_loop index [] result = result"
| "FromQuadKey_loop index (ch # rest) result =
     (let msk = push_bit index 1;
          d = of_char ch - (48 :: int);
          result = (if bit d 0 then result\<lparr>column := column result OR msk\<rparr> else result);
          result = (if bit d 1 then result\<lparr>row := row result OR msk\<rparr> else result) in
      FromQuadKey_loop (Suc index) rest result)"

definition FromQuadKey :: "string \<Rightarrow> TileKey" where
  "FromQuadKey quad_key =
     (if quad_key = [] then TileKey_invalid
      else if quad_key = ''-'' then FromRowColumnLevel 0 0 0
      else FromQuadKey_loop 0 (rev quad_key)
             ((FromRowColumnLevel 0 0 0)\<lparr>level := of_nat (length quad_key)\<rparr>))"

definition Parent :: "TileKey \<Rightarrow> TileKey" where
  "Parent t =
     (if 0 < level t then FromRowColumnLevel (drop_bit 1 (row t)) (drop_bit 1 (column t)) (level t - 1)
      else TileKey_invalid)"

text \<open>\<open>ChangedLevelBy(int delta)\<close>: the new level is computed in unsigned arithmetic and read as
  a signed integer.\<close>

definition ChangedLevelBy :: "int \<Rightarrow> TileKey \<Rightarrow> TileKey" where
  "ChangedLevelBy delta t =
     (if delta = 0 then t
      else
        (let lev = sint (level t + of_int delta);
             lev = (if lev < 0 then 0 else lev);
             t = t\<lparr>level := of_int lev\<rparr> in
         if 0 \<le> delta
         then t\<lparr>row := push_bit (nat delta) (row t), column := push_bit (nat delta) (column t)\<rparr>
         else t\<lparr>row := drop_bit (nat (- delta)) (row t), column := drop_bit (nat (- delta)) (column t)\<rparr>))"

definition ChangedLevelTo :: "u32 \<Rightarrow> TileKey \<Rightarrow> TileKey" where
  "ChangedLevelTo lev t = ChangedLevelBy (sint (lev - level t)) t"

definition IsChildOf :: "TileKey \<Rightarrow> TileKey \<Rightarrow> bool" where
  "IsChildOf tile_key t =
     (if level t \<le> level tile_key then False
      else ChangedLevelTo (level tile_key) t = tile_key)"

definition IsParentOf :: "TileKey \<Rightarrow> TileKey \<Rightarrow> bool" where
  "IsParentOf tile_key t = IsChildOf t tile_key"

definition GetChild :: "u8 \<Rightarrow> TileKey \<Rightarrow> TileKey" where
  "GetChild index t =
     (let result = ChangedLevelBy 1 t in
      result\<lparr>column := column result OR ucast (index AND 1), row := row result OR ucast (drop_bit 1 index)\<rparr>)"

datatype TileKeyQuadrant = SW | SE | NW | NE | Invalid

definition quadrant_of :: "u32 \<Rightarrow> TileKeyQuadrant option" where
  "quadrant_of n =
     (if n = 0 then Some SW else if n = 1 then Some SE else if n = 2 then Some NW
      else if n = 3 then Some NE else if n = 4 then Some Invalid else None)"

definition RelationshipToParent :: "TileKey \<Rightarrow> TileKeyQuadrant option" where
  "RelationshipToParent t =
     (if level t = 0 then Some Invalid
      else
        (let sw_tile = GetChild 0 (Parent t) in
         quadrant_of ((row t - row sw_tile) * 2 + column t - column sw_tile)))"

definition NextRow :: "TileKey \<Rightarrow> TileKey" where
  "NextRow t = FromRowColumnLevel (row t + 1) (column t) (level t)"

definition NextColumn :: "TileKey \<Rightarrow> TileKey" where
  "NextColumn t = FromRowColumnLevel (row t) (column t + 1) (level t)"

definition PreviousRow :: "TileKey \<Rightarrow> TileKey" where
  "PreviousRow t = FromRowColumnLevel (row t - 1) (column t) (level t)"

definition PreviousColumn :: "TileKey \<Rightarrow> TileKey" where
  "PreviousColumn t = FromRowColumnLevel (row t) (column t - 1) (level t)"

definition HasNextRow :: "TileKey \<Rightarrow> bool" where
  "HasNextRow t \<longleftrightarrow> row t < push_bit (unat (level t)) 1 - 1"

definition HasNextColumn :: "TileKey \<Rightarrow> bool" where
  "HasNextColumn t \<longleftrightarrow> column t < push_bit (unat (level t)) 1 - 1"

definition HasPreviousRow :: "TileKey \<Rightarrow> bool" where
  "HasPreviousRow t \<longleftrightarrow> 0 < row t"

definition HasPreviousColumn :: "TileKey \<Rightarrow> bool" where
  "HasPreviousColumn t \<longleftrightarrow> 0 < column t"

section \<open>Sub-keys\<close>

definition QuadKey64_Parent :: "u64 \<Rightarrow> u64" where
  "QuadKey64_Parent key = drop_bit 2 key"

definition QuadKey64_Child :: "u64 \<Rightarrow> u64" where
  "QuadKey64_Child key = push_bit 2 key"

definition GetSubkey :: "nat \<Rightarrow> u64 \<Rightarrow> u64" where
  "GetSubkey delta key =
     (let msb = push_bit (delta * 2) 1; msk = msb - 1 in (key AND msk) OR msb)"

text \<open>The loop of \<open>AddedSubkey\<close>: \<open>mask << 2\<close> wraps to 0 when the mask reaches the top, and then
  the loop does not end; fuel is not needed because \<open>None\<close> is the value of such a run.\<close>

partial_function (option) AddedSubkey_loop :: "u64 \<Rightarrow> u64 \<Rightarrow> u64 \<Rightarrow> (u64 \<times> u64) option" where
  "AddedSubkey_loop sub msk result =
     (if push_bit 2 msk \<le> sub then AddedSubkey_loop sub (push_bit 2 msk) (push_bit 2 result)
      else Some (msk, result))"

declare AddedSubkey_loop.simps [code]

definition AddedSubkey :: "u64 \<Rightarrow> u64 \<Rightarrow> u64 option" where
  "AddedSubkey sub key =
     map_option (\<lambda>(msk, result). result OR (sub AND (msk - 1))) (AddedSubkey_loop sub 1 key)"

definition GetSubkey64 :: "nat \<Rightarrow> TileKey \<Rightarrow> u64" where
  "GetSubkey64 delta t = GetSubkey delta (ToQuadKey64 t)"

definition AddedSubkey64 :: "u64 \<Rightarrow> TileKey \<Rightarrow> TileKey option" where
  "AddedSubkey64 sub t = map_option FromQuadKey64 (AddedSubkey sub (ToQuadKey64 t))"

definition AddedSubkey_str :: "string \<Rightarrow> TileKey \<Rightarrow> TileKey" where
  "AddedSubkey_str sub_quad_key t =
     (let sub_quad = FromQuadKey (if sub_quad_key = [] then ''-'' else sub_quad_key);
          child = ChangedLevelBy (sint (level sub_quad)) t in
      FromRowColumnLevel (row child + row sub_quad) (column child + column sub_quad) (level child))"

definition ToHereTile :: "TileKey \<Rightarrow> string" where
  "ToHereTile t = to_string (unat (ToQuadKey64 t))"

definition FromHereTile :: "string \<Rightarrow> TileKey" where
  "FromHereTile key = (if key = [] then TileKey_invalid else FromQuadKey64 (strtoull key))"

definition AddedSubHereTile :: "string \<Rightarrow> TileKey \<Rightarrow> TileKey" where
  "AddedSubHereTile sub_here_tile t =
     (let sub_quad = FromHereTile sub_here_tile;
          child = ChangedLevelBy (sint (level sub_quad)) t in
      FromRowColumnLevel (row child + row sub_quad) (column child + column sub_quad) (level child))"

section \<open>Sets of levels\<close>

text \<open>\<open>std::bitset<32>\<close> is a 32-bit word, \<open>unsigned long\<close> has 64 bits. \<open>std::log2\<close> of a number
  below \<open>2^32\<close>, truncated to an integer, is the position of its highest bit.\<close>

definition kLookupTable :: "u32 list" where
  "kLookupTable = [
     0, 1, 28, 2, 29, 14, 24, 3, 30, 22, 20, 15, 25, 17, 4, 8,
     31, 27, 13, 23, 21, 19, 16, 7, 26, 12, 18, 6, 11, 5, 10, 9]"

definition GetMinTileKeyLevel :: "u32 \<Rightarrow> u32 option" where
  "GetMinTileKeyLevel levels =
     (if levels = 0 then None
      else
        (let level_bits = ucast levels :: u64;
             hash = ucast ((level_bits AND - level_bits) * 0x077CB531) :: u32 in
         Some (kLookupTable ! unat (drop_bit 27 hash))))"

definition GetMaxTileKeyLevel :: "u32 \<Rightarrow> u32 option" where
  "GetMaxTileKeyLevel levels =
     (if levels = 0 then None else Some (of_nat (log2_floor (unat levels))))"

fun nearest_loop :: "u32 \<Rightarrow> int \<Rightarrow> int list \<Rightarrow> int" where
  "nearest_loop levels lev [] = lev"
| "nearest_loop levels lev (distance # ds) =
     (if lev + distance < 32 \<and> bit levels (nat (lev + distance)) then lev + distance
      else if distance \<le> lev \<and> bit levels (nat (lev - distance)) then lev - distance
      else nearest_loop levels lev ds)"

definition GetNearestAvailableTileKeyLevel :: "u32 \<Rightarrow> u32 \<Rightarrow> u32 option" where
  "GetNearestAvailableTileKeyLevel levels reference_level = do {
     min_level \<leftarrow> GetMinTileKeyLevel levels;
     max_level \<leftarrow> GetMaxTileKeyLevel levels;
     let lev = uint (max (min reference_level max_level) min_level);
     let max_distance = max \<bar>lev - uint min_level\<bar> \<bar>lev - uint max_level\<bar>;
     Some (of_int (nearest_loop levels lev [0..max_distance])) }"

section \<open>The bits of a quad key\<close>

text \<open>The table spreads the eight bits of its index to the even positions.\<close>

fun spread :: "nat \<Rightarrow> int \<Rightarrow> int" where
  "spread 0 n = 0"
| "spread (Suc k) n = n mod 2 + 4 * spread k (n div 2)"

lemma bit_spread: "bit (spread k n) i \<longleftrightarrow> even i \<and> i div 2 < k \<and> bit n (i div 2)"
proof (induction k arbitrary: n i)
  case (Suc k)
  have half: "(n mod 2 + 4 * x) div 2 = 2 * x" for x :: int by presburger
  consider "i = 0" | "i = 1" | j where "i = Suc (Suc j)"
    by (metis One_nat_def not0_implies_Suc)
  then show ?case
  proof cases
    case (3 j)
    with Suc [of "n div 2" j] show ?thesis by (simp add: bit_Suc half)
  qed (simp_all add: bit_0 bit_Suc half)
qed simp

lemma table_spread: "kMortonTable256 = map (\<lambda>n. word_of_int (spread 8 n)) [0..255]"
proof -
  have "map (spread 8) [0..255] = map uint kMortonTable256" by code_simp
  then have "map (word_of_int :: int \<Rightarrow> u64) (map (spread 8) [0..255]) = map word_of_int (map uint kMortonTable256)"
    by (rule arg_cong)
  then show ?thesis by (simp add: comp_def)
qed

lemma table_nth: "n < 256 \<Longrightarrow> kMortonTable256 ! n = word_of_int (spread 8 (int n))"
  using nth_upto [of 0 n 255] by (simp add: table_spread)

lemma bit_table:
  fixes x :: u32
  shows "bit (kMortonTable256 ! unat (drop_bit s x AND 0xFF)) i
    \<longleftrightarrow> i < 16 \<and> even i \<and> bit x (s + i div 2)"
proof -
  let ?n = "unat (drop_bit s x AND 0xFF)"
  have "?n < 256" using word_and_le1 [of "drop_bit s x" "0xFF"] by (simp add: word_le_nat_alt)
  then have "kMortonTable256 ! ?n = word_of_int (spread 8 (int ?n))" by (rule table_nth)
  then have A: "bit (kMortonTable256 ! ?n) i \<longleftrightarrow> i < 64 \<and> even i \<and> i div 2 < 8 \<and> bit (int ?n) (i div 2)"
    by (simp only: bit_word_of_int_iff bit_spread) simp
  have B: "bit (int ?n) j \<longleftrightarrow> j < 8 \<and> bit x (s + j)" for j
  proof -
    have m: "(0xFF :: u32) = mask 8" by (simp add: mask_eq_exp_minus_1)
    show ?thesis unfolding m
      by (auto simp: bit_unsigned_iff bit_and_iff bit_mask_iff bit_drop_bit_eq)
  qed
  show ?thesis unfolding A B by auto
qed

lemma half_cancel: "2 * s \<le> i \<Longrightarrow> s + (i - 2 * s) div 2 = i div 2"
  for i s :: nat
  by presburger

text \<open>A byte of the column lands on the even, a byte of the row on the odd positions.\<close>

lemma bit_column_byte:
  fixes x :: u32
  shows "bit (push_bit (2 * s) (kMortonTable256 ! unat (drop_bit s x AND 0xFF))) i
    \<longleftrightarrow> i < 64 \<and> even i \<and> s \<le> i div 2 \<and> i div 2 < s + 8 \<and> bit x (i div 2)"
proof (cases "2 * s \<le> i")
  case True
  have "i - 2 * s < 16 \<longleftrightarrow> i div 2 < s + 8" using True by presburger
  with True show ?thesis unfolding bit_push_bit_iff bit_table half_cancel [OF True] by auto
next
  case False
  then show ?thesis by (auto simp: bit_push_bit_iff)
qed

lemma bit_row_byte:
  fixes x :: u32
  shows "bit (push_bit (2 * s + 1) (kMortonTable256 ! unat (drop_bit s x AND 0xFF))) i
    \<longleftrightarrow> i < 64 \<and> odd i \<and> s \<le> i div 2 \<and> i div 2 < s + 8 \<and> bit x (i div 2)"
proof (cases "2 * s + 1 \<le> i")
  case True
  then obtain j where i: "i = Suc j" "2 * s \<le> j" by (cases i) auto
  have d: "i - (2 * s + 1) = j - 2 * s" and e: "even (j - 2 * s) \<longleftrightarrow> odd i"
    using i by simp_all
  have "j - 2 * s < 16 \<longleftrightarrow> j div 2 < s + 8" using i by presburger
  moreover have "odd i \<Longrightarrow> i div 2 = j div 2" using i by presburger
  moreover have "s \<le> j div 2" using i by presburger
  ultimately show ?thesis using True unfolding bit_push_bit_iff d bit_table half_cancel [OF i(2)] e
    by auto
next
  case False
  have "odd i \<Longrightarrow> \<not> s \<le> i div 2" using False by presburger
  with False show ?thesis unfolding bit_push_bit_iff by auto
qed

lemma bit_row_low:
  fixes x :: u32
  shows "bit (push_bit 1 (kMortonTable256 ! unat (x AND 0xFF))) i
    \<longleftrightarrow> i < 64 \<and> odd i \<and> i div 2 < 8 \<and> bit x (i div 2)"
  using bit_row_byte [of 0 x i] by simp

lemmas bit_bytes =
  bit_column_byte [of 24, simplified] bit_column_byte [of 16, simplified] bit_column_byte [of 8, simplified]
  bit_column_byte [of 0, simplified] bit_row_byte [of 24, simplified] bit_row_byte [of 16, simplified]
  bit_row_byte [of 8, simplified] bit_row_low

text \<open>The bits of the quad key: the marker above the level, the column at the even and the row
  at the odd positions.\<close>

lemma bit_ToQuadKey64:
  assumes "unat (level t) < 32" and "i < 64"
  shows "bit (ToQuadKey64 t) i \<longleftrightarrow>
    i = 2 * unat (level t) \<or> (if even i then bit (column t) (i div 2) else bit (row t) (i div 2))"
proof -
  have lv: "unat (2 * level t) = 2 * unat (level t)"
    using assms(1) by (simp add: unat_word_ariths)
  have top: "bit (push_bit (2 * unat (level t)) (1 :: u64)) i \<longleftrightarrow> i = 2 * unat (level t)"
    using assms by (auto simp: bit_exp_iff)
  have e: "bit (ToQuadKey64 t) i \<longleftrightarrow> i = 2 * unat (level t)
      \<or> (\<exists>s \<in> {24, 16, 8, 0}. odd i \<and> s \<le> i div 2 \<and> i div 2 < s + 8 \<and> bit (row t) (i div 2))
      \<or> (\<exists>s \<in> {24, 16, 8, 0}. even i \<and> s \<le> i div 2 \<and> i div 2 < s + 8 \<and> bit (column t) (i div 2))"
    unfolding ToQuadKey64_def lv bit_or_iff bit_bytes top using assms(2) by (simp add: conj_disj_distribL)
  have "i div 2 < 32" using assms(2) by simp
  then have "\<exists>s \<in> {24, 16, 8, 0}. s \<le> i div 2 \<and> i div 2 < s + 8" by auto
  with e show ?thesis by auto
qed

section \<open>Valid keys\<close>

lemma less_exp_bits:
  fixes x :: u32
  assumes "n < 32"
  shows "x < push_bit n 1 \<longleftrightarrow> (\<forall>i. bit x i \<longrightarrow> i < n)"
proof -
  have "unat (push_bit n 1 :: u32) = 2 ^ n" using assms by (intro unat_push_one) simp
  then have "x < push_bit n 1 \<longleftrightarrow> take_bit n (unat x) = unat x"
    by (simp only: word_less_nat_alt take_bit_nat_eq_self_iff)
  also have "\<dots> \<longleftrightarrow> (\<forall>i. bit (unat x) i \<longrightarrow> i < n)"
    by (auto simp: bit_eq_iff bit_take_bit_iff)
  also have "\<dots> \<longleftrightarrow> (\<forall>i. bit x i \<longrightarrow> i < n)"
    by (auto simp: bit_unsigned_iff dest: bit_imp_le_length)
  finally show ?thesis .
qed

lemma IsValid_bits:
  "IsValid t \<longleftrightarrow> unat (level t) < 32 \<and> (\<forall>i. bit (row t) i \<longrightarrow> i < unat (level t))
     \<and> (\<forall>i. bit (column t) i \<longrightarrow> i < unat (level t))"
proof -
  have "level t < LevelCount \<longleftrightarrow> unat (level t) < 32" by (simp add: LevelCount_def word_less_nat_alt)
  then show ?thesis unfolding IsValid_def using less_exp_bits by blast
qed

lemma TileKey_eqI:
  "level a = level b \<Longrightarrow> (\<And>i. i < 32 \<Longrightarrow> bit (row a) i = bit (row b) i) \<Longrightarrow>
    (\<And>i. i < 32 \<Longrightarrow> bit (column a) i = bit (column b) i) \<Longrightarrow> a = (b :: TileKey)"
  by (cases a; cases b) (auto intro: bit_word_eqI)

section \<open>Decoding\<close>

lemma and_bit_tests: "q AND 1 \<noteq> 0 \<longleftrightarrow> bit q 0" "q AND 2 \<noteq> 0 \<longleftrightarrow> bit q 1" for q :: u64
  using bit_iff_and_push_bit_not_eq_0 [of q 0] bit_iff_and_push_bit_not_eq_0 [of q 1] by simp_all

text \<open>What \<open>n\<close> rounds of the decoding loop put into the key.\<close>

definition decoded :: "nat \<Rightarrow> u64 \<Rightarrow> nat \<Rightarrow> TileKey \<Rightarrow> TileKey \<Rightarrow> bool" where
  "decoded n q l t t' \<longleftrightarrow> level t' = of_nat (l + n)
     \<and> (\<forall>i < 32. bit (column t') i \<longleftrightarrow> bit (column t) i \<or> l \<le> i \<and> i < l + n \<and> bit q (2 * (i - l)))
     \<and> (\<forall>i < 32. bit (row t') i \<longleftrightarrow> bit (row t) i \<or> l \<le> i \<and> i < l + n \<and> bit q (2 * (i - l) + 1))"

lemma decoded_step:
  assumes d: "decoded n (drop_bit 2 q) (Suc l) t1 t'"
    and c: "\<And>i. i < 32 \<Longrightarrow> bit (column t1) i \<longleftrightarrow> bit (column t) i \<or> i = l \<and> bit q 0"
    and r: "\<And>i. i < 32 \<Longrightarrow> bit (row t1) i \<longleftrightarrow> bit (row t) i \<or> i = l \<and> bit q 1"
  shows "decoded (Suc n) q l t t'"
  unfolding decoded_def
proof (intro conjI allI impI)
  show "level t' = of_nat (l + Suc n)" using d by (simp add: decoded_def)
  fix i :: nat
  assume i: "i < 32"
  consider (lt) "i < l" | (eq) "i = l" | (gt) j where "i = Suc l + j"
    by (metis less_imp_Suc_add linorder_neqE_nat add_Suc)
  then show "bit (column t') i \<longleftrightarrow> bit (column t) i \<or> l \<le> i \<and> i < l + Suc n \<and> bit q (2 * (i - l))"
    using d c [OF i] i by cases (auto simp: decoded_def bit_drop_bit_eq)
  consider (lt) "i < l" | (eq) "i = l" | (gt) j where "i = Suc l + j"
    by (metis less_imp_Suc_add linorder_neqE_nat add_Suc)
  then show "bit (row t') i \<longleftrightarrow> bit (row t) i \<or> l \<le> i \<and> i < l + Suc n \<and> bit q (2 * (i - l) + 1)"
    using d r [OF i] i by cases (auto simp: decoded_def bit_drop_bit_eq)
qed

lemma decode_loop:
  "drop_bit (2 * n) q = 1 \<Longrightarrow> level t = of_nat l \<Longrightarrow> l + n \<le> 32 \<Longrightarrow> decoded n q l t (FromQuadKey64_loop q t)"
proof (induction n arbitrary: q t l)
  case 0
  then show ?case by (subst FromQuadKey64_loop.simps) (auto simp: decoded_def)
next
  case (Suc n)
  let ?m = "push_bit l 1 :: u32"
  define t1 where "t1 = t\<lparr>column := (if bit q 0 then column t OR ?m else column t),
    row := (if bit q 1 then row t OR ?m else row t), level := level t + 1\<rparr>"
  have l: "unat (level t) = l" using Suc.prems(2,3) by (simp add: unat_of_nat)
  have q1: "1 < q"
  proof (rule ccontr)
    assume "\<not> 1 < q"
    then have "unat q = 0 \<or> unat q = 1" by (auto simp: word_less_nat_alt)
    then have "q = 0 \<or> q = 1" by (auto simp: word_unat_eq_iff)
    then have "drop_bit (2 * Suc n) q = 0" by (auto simp: drop_bit_Suc)
    with Suc.prems(1) show False by simp
  qed
  then have step: "FromQuadKey64_loop q t = FromQuadKey64_loop (drop_bit 2 q) t1"
    by (subst FromQuadKey64_loop.simps) (simp add: Let_def and_bit_tests l t1_def)
  have "drop_bit (2 * n) (drop_bit 2 q) = 1" using Suc.prems(1) by (simp add: drop_bit_drop_bit)
  from Suc.IH [OF this, of t1 "Suc l"] Suc.prems
  have "decoded n (drop_bit 2 q) (Suc l) t1 (FromQuadKey64_loop (drop_bit 2 q) t1)"
    by (simp add: t1_def)
  then have "decoded (Suc n) q l t (FromQuadKey64_loop (drop_bit 2 q) t1)"
    by (rule decoded_step) (auto simp: t1_def bit_or_iff bit_exp_iff)
  then show ?case by (simp only: step)
qed

text \<open>A quad key of level \<open>n\<close>: its marker bit is at position \<open>2 * n\<close>.\<close>

definition quad_level :: "u64 \<Rightarrow> nat \<Rightarrow> bool" where
  "quad_level q n \<longleftrightarrow> n < 32 \<and> drop_bit (2 * n) q = 1"

lemma quad_level_bits:
  "quad_level q n \<longleftrightarrow> n < 32 \<and> bit q (2 * n) \<and> (\<forall>i. 2 * n < i \<longrightarrow> \<not> bit q i)"
proof -
  have "drop_bit (2 * n) q = 1 \<longleftrightarrow> (\<forall>i. bit q (2 * n + i) \<longleftrightarrow> i = 0)"
  proof
    assume "drop_bit (2 * n) q = 1"
    then show "\<forall>i. bit q (2 * n + i) \<longleftrightarrow> i = 0" by (metis bit_drop_bit_eq bit_1_iff comp_apply)
  next
    assume a: "\<forall>i. bit q (2 * n + i) \<longleftrightarrow> i = 0"
    show "drop_bit (2 * n) q = 1"
      by (rule bit_word_eqI) (simp only: bit_drop_bit_eq comp_apply a bit_1_iff)
  qed
  also have "\<dots> \<longleftrightarrow> bit q (2 * n) \<and> (\<forall>i. 2 * n < i \<longrightarrow> \<not> bit q i)"
    by (metis add.right_neutral less_add_same_cancel1 less_imp_add_positive not_gr_zero)
  finally show ?thesis by (auto simp: quad_level_def)
qed

lemma decoded_FromQuadKey64:
  assumes "quad_level q n"
  shows "level (FromQuadKey64 q) = of_nat n"
    and "bit (column (FromQuadKey64 q)) i \<longleftrightarrow> i < n \<and> bit q (2 * i)"
    and "bit (row (FromQuadKey64 q)) i \<longleftrightarrow> i < n \<and> bit q (2 * i + 1)"
proof -
  let ?z = "FromRowColumnLevel 0 0 0"
  have "decoded n q 0 ?z (FromQuadKey64_loop q ?z)"
    using assms decode_loop [of n q ?z 0] by (simp add: quad_level_def FromRowColumnLevel_def)
  then have d: "decoded n q 0 ?z (FromQuadKey64 q)" by (simp add: FromQuadKey64_def)
  have n: "n < 32" using assms by (simp add: quad_level_def)
  show "level (FromQuadKey64 q) = of_nat n" using d by (simp add: decoded_def)
  have "\<not> bit x i" if "\<not> i < 32" for x :: u32 using that bit_imp_le_length [of x i] by auto
  then show "bit (column (FromQuadKey64 q)) i \<longleftrightarrow> i < n \<and> bit q (2 * i)"
    and "bit (row (FromQuadKey64 q)) i \<longleftrightarrow> i < n \<and> bit q (2 * i + 1)"
    using d n by (cases "i < 32", auto simp: decoded_def FromRowColumnLevel_def)+
qed

lemma level_ToQuadKey64:
  assumes "IsValid t"
  shows "quad_level (ToQuadKey64 t) (unat (level t))"
proof -
  let ?n = "unat (level t)"
  have v: "?n < 32" "\<And>i. bit (row t) i \<Longrightarrow> i < ?n" "\<And>i. bit (column t) i \<Longrightarrow> i < ?n"
    using assms by (auto simp: IsValid_bits)
  have "\<not> bit (ToQuadKey64 t) i" if i: "2 * ?n < i" for i
  proof (cases "i < 64")
    case True
    have "\<not> i div 2 < ?n" using i by simp
    with v i True bit_ToQuadKey64 [OF v(1) True] show ?thesis by auto
  qed (auto dest: bit_imp_le_length)
  moreover have "bit (ToQuadKey64 t) (2 * ?n)" using v(1) bit_ToQuadKey64 [of t "2 * ?n"] by simp
  ultimately show ?thesis using v(1) by (simp add: quad_level_bits)
qed

lemma FromQuadKey64_ToQuadKey64:
  assumes "IsValid t"
  shows "FromQuadKey64 (ToQuadKey64 t) = t"
proof -
  let ?n = "unat (level t)"
  have v: "?n < 32" "\<And>i. bit (row t) i \<Longrightarrow> i < ?n" "\<And>i. bit (column t) i \<Longrightarrow> i < ?n"
    using assms by (auto simp: IsValid_bits)
  note d = decoded_FromQuadKey64 [OF level_ToQuadKey64 [OF assms]]
  have "bit (ToQuadKey64 t) (2 * i) \<longleftrightarrow> bit (column t) i"
    and "bit (ToQuadKey64 t) (2 * i + 1) \<longleftrightarrow> bit (row t) i" if "i < ?n" for i
    using that v(1) bit_ToQuadKey64 [OF v(1), of "2 * i"] bit_ToQuadKey64 [OF v(1), of "2 * i + 1"]
    by auto
  then show ?thesis using d v by (intro TileKey_eqI) auto
qed

lemma quad_eqI:
  assumes "quad_level q n" and "quad_level q' n" and "\<And>i. i < 2 * n \<Longrightarrow> bit q i = bit q' i"
  shows "q = q'"
proof (rule bit_word_eqI)
  fix i
  show "bit q i = bit q' i"
    using assms by (cases i "2 * n" rule: linorder_cases) (auto simp: quad_level_bits)
qed

lemma FromQuadKey64_valid:
  assumes "quad_level q n"
  shows "IsValid (FromQuadKey64 q)" and "unat (level (FromQuadKey64 q)) = n"
proof -
  have "n < 32" using assms by (simp add: quad_level_def)
  then show n: "unat (level (FromQuadKey64 q)) = n"
    using decoded_FromQuadKey64(1) [OF assms] by (simp add: unat_of_nat)
  show "IsValid (FromQuadKey64 q)"
    using decoded_FromQuadKey64(2,3) [OF assms] \<open>n < 32\<close> by (auto simp: IsValid_bits n)
qed

lemma ToQuadKey64_FromQuadKey64:
  assumes "quad_level q n"
  shows "ToQuadKey64 (FromQuadKey64 q) = q"
proof (rule quad_eqI)
  note v = FromQuadKey64_valid [OF assms]
  show "quad_level (ToQuadKey64 (FromQuadKey64 q)) n" using level_ToQuadKey64 [OF v(1)] v(2) by simp
  show "quad_level q n" by (rule assms)
  fix i :: nat
  assume i: "i < 2 * n"
  have "n < 32" using assms by (simp add: quad_level_def)
  with i v(2) bit_ToQuadKey64 [of "FromQuadKey64 q" i] decoded_FromQuadKey64(2,3) [OF assms, of "i div 2"]
  show "bit (ToQuadKey64 (FromQuadKey64 q)) i = bit q i" by auto
qed

section \<open>Levels up and down\<close>

lemma level_sum:
  assumes "0 \<le> int (unat (l :: u32)) + d" and "int (unat l) + d < 32"
  shows "sint (l + of_int d) = int (unat l) + d"
proof -
  have "l + of_int d = of_nat (nat (int (unat l) + d))"
    using assms(1) by simp
  moreover have "nat (int (unat l) + d) < 2 ^ 31" using assms by simp
  ultimately show ?thesis using sint_small [of "nat (int (unat l) + d)"] assms(1) by simp
qed

lemma ChangedLevelBy_up:
  assumes "unat (level t) + d < 32"
  shows "ChangedLevelBy (int d) t =
    \<lparr>row = push_bit d (row t), column = push_bit d (column t), level = level t + of_nat d\<rparr>"
proof (cases "d = 0")
  case False
  have "sint (level t + of_int (int d)) = int (unat (level t)) + int d"
    using assms by (intro level_sum) linarith+
  moreover have "\<not> int (unat (level t)) + int d < 0" by linarith
  ultimately show ?thesis using False by (cases t) (simp add: ChangedLevelBy_def Let_def)
qed (simp add: ChangedLevelBy_def)

lemma ChangedLevelBy_down:
  assumes "unat (level t) < 32" and "d \<le> unat (level t)"
  shows "ChangedLevelBy (- int d) t =
    \<lparr>row = drop_bit d (row t), column = drop_bit d (column t), level = level t - of_nat d\<rparr>"
proof (cases "d = 0")
  case False
  have "sint (level t + of_int (- int d)) = int (unat (level t)) + - int d"
    using assms by (intro level_sum) linarith+
  moreover have "int d \<le> int (unat (level t))" using assms(2) by linarith
  ultimately show ?thesis using False by (cases t) (simp add: ChangedLevelBy_def Let_def)
qed (simp add: ChangedLevelBy_def)

lemma unat_up: "unat (l :: u32) + d < 32 \<Longrightarrow> unat (l + of_nat d) = unat l + d"
  by (simp add: unat_word_ariths unat_of_nat)

lemma unat_down:
  assumes "unat (l :: u32) < 32" and "d \<le> unat l"
  shows "unat (l - of_nat d) = unat l - d"
proof -
  have "of_nat d \<le> l" using assms by (simp add: word_le_nat_alt unat_of_nat)
  then show ?thesis using assms by (simp add: unat_sub unat_of_nat)
qed

text \<open>Moving to an ancestor and to the first descendant are shifts of the quad key.\<close>

lemma quad_up:
  assumes v: "IsValid t" and d: "unat (level t) + d < 32"
  shows "IsValid (ChangedLevelBy (int d) t)"
    and "ToQuadKey64 (ChangedLevelBy (int d) t) = push_bit (2 * d) (ToQuadKey64 t)"
proof -
  let ?t = "ChangedLevelBy (int d) t" and ?n = "unat (level t)"
  have lv: "unat (level ?t) = ?n + d" using d by (simp add: ChangedLevelBy_up unat_up)
  have b: "bit (row ?t) i \<longleftrightarrow> d \<le> i \<and> i < 32 \<and> bit (row t) (i - d)"
    "bit (column ?t) i \<longleftrightarrow> d \<le> i \<and> i < 32 \<and> bit (column t) (i - d)" for i
    using d by (auto simp: ChangedLevelBy_up bit_push_bit_iff)
  show v': "IsValid ?t" using v d unfolding IsValid_bits lv b by fastforce
  show "ToQuadKey64 ?t = push_bit (2 * d) (ToQuadKey64 t)"
  proof (rule quad_eqI)
    show "quad_level (ToQuadKey64 ?t) (?n + d)" using level_ToQuadKey64 [OF v'] lv by simp
    show "quad_level (push_bit (2 * d) (ToQuadKey64 t)) (?n + d)"
      using level_ToQuadKey64 [OF v] d by (auto simp: quad_level_bits bit_push_bit_iff)
    fix i :: nat
    assume i: "i < 2 * (?n + d)"
    then have "i < 64" "i div 2 < 32" using d by auto
    then have l: "bit (ToQuadKey64 ?t) i \<longleftrightarrow>
        d \<le> i div 2 \<and> (if even i then bit (column t) (i div 2 - d) else bit (row t) (i div 2 - d))"
      using i d lv bit_ToQuadKey64 [of ?t i] b by auto
    show "bit (ToQuadKey64 ?t) i = bit (push_bit (2 * d) (ToQuadKey64 t)) i"
    proof (cases "2 * d \<le> i")
      case True
      then have "d \<le> i div 2" "(i - 2 * d) div 2 = i div 2 - d" "even (i - 2 * d) \<longleftrightarrow> even i" by auto
      with True \<open>i < 64\<close> d i bit_ToQuadKey64 [of t "i - 2 * d"] show ?thesis
        unfolding l bit_push_bit_iff by auto
    next
      case False
      then have "\<not> d \<le> i div 2" by auto
      with False show ?thesis unfolding l bit_push_bit_iff by auto
    qed
  qed
qed

lemma quad_down:
  assumes v: "IsValid t" and d: "d \<le> unat (level t)"
  shows "IsValid (ChangedLevelBy (- int d) t)"
    and "ToQuadKey64 (ChangedLevelBy (- int d) t) = drop_bit (2 * d) (ToQuadKey64 t)"
proof -
  let ?t = "ChangedLevelBy (- int d) t" and ?n = "unat (level t)"
  have n: "?n < 32" using v by (simp add: IsValid_bits)
  have lv: "unat (level ?t) = ?n - d" using n d by (simp add: ChangedLevelBy_down unat_down)
  have b: "bit (row ?t) i \<longleftrightarrow> bit (row t) (d + i)" "bit (column ?t) i \<longleftrightarrow> bit (column t) (d + i)" for i
    using n d by (auto simp: ChangedLevelBy_down bit_drop_bit_eq)
  show v': "IsValid ?t" using v d unfolding IsValid_bits lv b by fastforce
  show "ToQuadKey64 ?t = drop_bit (2 * d) (ToQuadKey64 t)"
  proof (rule quad_eqI)
    show "quad_level (ToQuadKey64 ?t) (?n - d)" using level_ToQuadKey64 [OF v'] lv by simp
    have "2 * d + 2 * (?n - d) = 2 * ?n" using d by simp
    then show "quad_level (drop_bit (2 * d) (ToQuadKey64 t)) (?n - d)"
      using level_ToQuadKey64 [OF v] d by (auto simp: quad_level_bits bit_drop_bit_eq)
    fix i :: nat
    assume i: "i < 2 * (?n - d)"
    then have "2 * d + i < 64" "(2 * d + i) div 2 = d + i div 2" using d n by auto
    then show "bit (ToQuadKey64 ?t) i = bit (drop_bit (2 * d) (ToQuadKey64 t)) i"
      using i d n lv bit_ToQuadKey64 [of ?t i] bit_ToQuadKey64 [of t "2 * d + i"] b
      by (auto simp: bit_drop_bit_eq)
  qed
qed

lemma Parent_down: "0 < level t \<Longrightarrow> unat (level t) < 32 \<Longrightarrow> Parent t = ChangedLevelBy (- 1) t"
  using ChangedLevelBy_down [of t 1]
  by (simp add: Parent_def FromRowColumnLevel_def word_less_nat_alt)

lemma small_index_bits: "unat (i :: u8) < 4 \<Longrightarrow> bit i j \<Longrightarrow> j < 2"
proof -
  assume "unat i < 4" and j: "bit i j"
  then have "take_bit 2 (unat i) = unat i" by (simp add: take_bit_nat_eq_self_iff)
  moreover have "bit (unat i) j" using j by (simp add: bit_unsigned_iff)
  ultimately show "j < 2" by (metis bit_take_bit_iff)
qed

lemma GetChild_bits:
  assumes n: "unat (level t) < 31" and i: "unat i < 4"
  shows "level (GetChild i t) = level t + 1" and "unat (level (GetChild i t)) = Suc (unat (level t))"
    and "bit (row (GetChild i t)) j \<longleftrightarrow> 0 < j \<and> j < 32 \<and> bit (row t) (j - 1) \<or> j = 0 \<and> bit i 1"
    and "bit (column (GetChild i t)) j \<longleftrightarrow> 0 < j \<and> j < 32 \<and> bit (column t) (j - 1) \<or> j = 0 \<and> bit i 0"
proof -
  have c: "GetChild i t = \<lparr>row = push_bit 1 (row t) OR ucast (drop_bit 1 i),
      column = push_bit 1 (column t) OR ucast (i AND 1), level = level t + 1\<rparr>"
    using ChangedLevelBy_up [of t 1] n by (simp add: GetChild_def Let_def)
  then show l: "level (GetChild i t) = level t + 1" by simp
  show "unat (level (GetChild i t)) = Suc (unat (level t))" using n unat_up [of "level t" 1] l by simp
  have "bit (ucast (drop_bit 1 i) :: u32) j \<longleftrightarrow> j = 0 \<and> bit i 1"
    and "bit (ucast (i AND 1) :: u32) j \<longleftrightarrow> j = 0 \<and> bit i 0"
    using small_index_bits [OF i, of "Suc j"]
    by (auto simp: bit_unsigned_iff bit_drop_bit_eq bit_and_iff bit_1_iff)
  then show "bit (row (GetChild i t)) j \<longleftrightarrow> 0 < j \<and> j < 32 \<and> bit (row t) (j - 1) \<or> j = 0 \<and> bit i 1"
    and "bit (column (GetChild i t)) j \<longleftrightarrow> 0 < j \<and> j < 32 \<and> bit (column t) (j - 1) \<or> j = 0 \<and> bit i 0"
    unfolding c TileKey.select_convs bit_or_iff bit_push_bit_iff by auto
qed

lemma quad_GetChild:
  assumes v: "IsValid t" and n: "unat (level t) < 31" and i: "unat i < 4"
  shows "IsValid (GetChild i t)"
    and "ToQuadKey64 (GetChild i t) = push_bit 2 (ToQuadKey64 t) OR ucast i"
proof -
  let ?c = "GetChild i t" and ?n = "unat (level t)"
  note lv = GetChild_bits(2) [OF n i] and b = GetChild_bits(3,4) [OF n i] and ib = small_index_bits [OF i]
  show v': "IsValid ?c"
    unfolding IsValid_bits lv using v n b by (fastforce simp: IsValid_bits)
  show "ToQuadKey64 ?c = push_bit 2 (ToQuadKey64 t) OR ucast i"
  proof (rule quad_eqI)
    show "quad_level (ToQuadKey64 ?c) (Suc ?n)" using level_ToQuadKey64 [OF v'] lv by simp
    show "quad_level (push_bit 2 (ToQuadKey64 t) OR ucast i) (Suc ?n)"
      using level_ToQuadKey64 [OF v] n
      by (auto simp: quad_level_bits bit_push_bit_iff bit_or_iff bit_unsigned_iff dest: ib)
    fix k :: nat
    assume k: "k < 2 * Suc ?n"
    then have "k < 64" using n by simp
    with k n lv have l: "bit (ToQuadKey64 ?c) k \<longleftrightarrow>
        (if even k then bit (column ?c) (k div 2) else bit (row ?c) (k div 2))"
      using bit_ToQuadKey64 [of ?c k] by auto
    consider "k = 0" | "k = 1" | j where "k = Suc (Suc j)" by (metis One_nat_def not0_implies_Suc)
    then show "bit (ToQuadKey64 ?c) k = bit (push_bit 2 (ToQuadKey64 t) OR ucast i) k"
    proof cases
      case 1
      then show ?thesis unfolding l by (simp add: b bit_or_iff bit_push_bit_iff bit_unsigned_iff)
    next
      case 2
      then show ?thesis unfolding l by (simp add: b bit_or_iff bit_push_bit_iff bit_unsigned_iff)
    next
      case (3 j)
      have "\<not> bit i k" using ib [of k] 3 by auto
      moreover have "bit (ToQuadKey64 t) j \<longleftrightarrow> (if even j then bit (column t) (j div 2) else bit (row t) (j div 2))"
        using 3 k n bit_ToQuadKey64 [of t j] by auto
      moreover have "k div 2 = Suc (j div 2)" "Suc (j div 2) < 32" "even k \<longleftrightarrow> even j" using 3 \<open>k < 64\<close> by auto
      ultimately show ?thesis using 3 \<open>k < 64\<close>
        unfolding l by (simp add: b bit_or_iff bit_push_bit_iff bit_unsigned_iff)
    qed
  qed
qed

lemma Parent_GetChild:
  assumes n: "unat (level t) < 31" and i: "unat i < 4" and v: "IsValid t"
  shows "Parent (GetChild i t) = t"
proof (rule TileKey_eqI)
  note c = GetChild_bits [OF n i]
  have p: "Parent (GetChild i t) = \<lparr>row = drop_bit 1 (row (GetChild i t)),
      column = drop_bit 1 (column (GetChild i t)), level = level (GetChild i t) - 1\<rparr>"
    using c(2) by (simp add: Parent_def FromRowColumnLevel_def word_less_nat_alt)
  show "level (Parent (GetChild i t)) = level t" unfolding p using c(1) by simp
  fix j :: nat
  assume "j < 32"
  have "bit (row t) j \<Longrightarrow> Suc j < 32" "bit (column t) j \<Longrightarrow> Suc j < 32"
    using v n by (fastforce simp: IsValid_bits)+
  then show "bit (row (Parent (GetChild i t))) j = bit (row t) j"
    and "bit (column (Parent (GetChild i t))) j = bit (column t) j"
    unfolding p TileKey.select_convs bit_drop_bit_eq comp_apply c by auto
qed

lemma Relationship_GetChild:
  assumes n: "unat (level t) < 31" and i: "unat i < 4" and v: "IsValid t"
  shows "RelationshipToParent (GetChild i t) = quadrant_of (ucast i)"
proof -
  have up: "ChangedLevelBy 1 t = \<lparr>row = push_bit 1 (row t), column = push_bit 1 (column t), level = level t + 1\<rparr>"
    using ChangedLevelBy_up [of t 1] n by simp
  have "level (GetChild i t) \<noteq> 0" using GetChild_bits(2) [OF n i] by force
  then have "RelationshipToParent (GetChild i t) =
      quadrant_of ((row (GetChild i t) - row (GetChild 0 t)) * 2 + column (GetChild i t) - column (GetChild 0 t))"
    using Parent_GetChild [OF n i v] by (simp add: RelationshipToParent_def Let_def)
  moreover have "unat i = 0 \<or> unat i = 1 \<or> unat i = 2 \<or> unat i = 3" using i by auto
  then have "i = 0 \<or> i = 1 \<or> i = 2 \<or> i = 3" by (auto simp: word_unat_eq_iff)
  ultimately show ?thesis
    by (elim disjE) (simp_all add: GetChild_def up or_one_eq)
qed

lemma small_difference:
  "b < 32 \<Longrightarrow> a \<le> b \<Longrightarrow> sint (of_int (int a - int b) :: u32) = int a - int b"
  by (rule sint_small_int) simp_all

lemma ChangedLevelTo_down:
  assumes "unat (level t) < 32" and "unat l \<le> unat (level t)"
  shows "ChangedLevelTo l t = ChangedLevelBy (- int (unat (level t) - unat l)) t"
proof -
  have "l - level t = of_int (int (unat l) - int (unat (level t)))" by simp
  moreover have "sint (of_int (int (unat l) - int (unat (level t))) :: u32) = int (unat l) - int (unat (level t))"
    using assms by (rule small_difference)
  ultimately have "sint (l - level t) = int (unat l) - int (unat (level t))" by (rule ssubst)
  with assms(2) show ?thesis by (simp add: ChangedLevelTo_def of_nat_diff)
qed

lemma IsChildOf_quad:
  assumes v: "IsValid t" and p: "IsValid p"
  shows "IsChildOf p t \<longleftrightarrow> unat (level p) < unat (level t)
    \<and> drop_bit (2 * (unat (level t) - unat (level p))) (ToQuadKey64 t) = ToQuadKey64 p"
proof (cases "level t \<le> level p")
  case True
  then show ?thesis by (simp add: IsChildOf_def word_le_nat_alt)
next
  case False
  let ?d = "unat (level t) - unat (level p)"
  from False have lt: "unat (level p) < unat (level t)" by (simp add: word_le_nat_alt)
  then have to: "ChangedLevelTo (level p) t = ChangedLevelBy (- int ?d) t"
    using v by (intro ChangedLevelTo_down) (simp_all add: IsValid_bits)
  note d = quad_down [OF v, of ?d]
  have "ChangedLevelBy (- int ?d) t = p \<longleftrightarrow> ToQuadKey64 (ChangedLevelBy (- int ?d) t) = ToQuadKey64 p"
    using FromQuadKey64_ToQuadKey64 [OF d(1)] FromQuadKey64_ToQuadKey64 [OF p] by auto
  with lt False to d(2) show ?thesis by (simp add: IsChildOf_def)
qed

section \<open>Sub-keys\<close>

lemma bit_GetSubkey: "d < 32 \<Longrightarrow> bit (GetSubkey d q) j \<longleftrightarrow> j = 2 * d \<or> j < 2 * d \<and> bit q j"
proof -
  assume d: "d < 32"
  have "push_bit (d * 2) 1 - 1 = (mask (d * 2) :: u64)" by (simp add: mask_eq_exp_minus_1)
  with d show ?thesis
    by (auto simp: GetSubkey_def Let_def bit_or_iff bit_and_iff bit_mask_iff bit_exp_iff
        dest: bit_imp_le_length)
qed

lemma quad_level_bounds:
  assumes "quad_level q n"
  shows "4 ^ n \<le> unat q" and "unat q < 4 ^ Suc n"
proof -
  have "(2 :: nat) ^ (2 * n) = 4 ^ n" by (simp add: power_mult)
  moreover have "unat (drop_bit (2 * n) q) = 1" using assms by (simp add: quad_level_def)
  then have "drop_bit (2 * n) (unat q) = 1" by (simp only: unat_drop_bit_eq)
  ultimately have "unat q div 4 ^ n = 1" by (simp only: drop_bit_eq_div)
  then show "4 ^ n \<le> unat q" and "unat q < 4 ^ Suc n"
    using div_less [of "unat q" "4 ^ n"] dividend_less_div_times [of "4 ^ n" "unat q"]
    by (auto simp: not_less intro: ccontr)
qed

lemma unat_marker: "n < 32 \<Longrightarrow> unat (push_bit (2 * n) 1 :: u64) = 4 ^ n"
  using unat_push_one [of "2 * n", where 'a = 64] by (simp add: power_mult)

lemma marker_step: "push_bit 2 (push_bit (2 * k) 1) = (push_bit (2 * Suc k) 1 :: u64)"
  by (simp only: push_bit_push_bit mult_Suc_right)

lemma added_subkey_loop:
  assumes sub: "quad_level sub d" and d: "d < 31" and k: "k \<le> d"
  shows "AddedSubkey_loop sub (push_bit (2 * k) 1) r
    = Some (push_bit (2 * d) 1, push_bit (2 * (d - k)) r)"
  using k
proof (induction "d - k" arbitrary: k r)
  case 0
  then have "k = d" by simp
  have "unat sub < unat (push_bit (2 * Suc d) 1 :: u64)"
    using d quad_level_bounds(2) [OF sub] by (subst unat_marker) simp_all
  then have "\<not> push_bit 2 (push_bit (2 * d) 1) \<le> sub" by (simp only: marker_step word_le_nat_alt not_le)
  then show ?case using \<open>k = d\<close> by (subst AddedSubkey_loop.simps) simp
next
  case (Suc x)
  then have k: "Suc k \<le> d" "x = d - Suc k" by simp_all
  have "(4 :: nat) ^ Suc k \<le> 4 ^ d" using k(1) by (rule power_increasing) simp
  then have "unat (push_bit (2 * Suc k) 1 :: u64) \<le> unat sub"
    using k(1) d quad_level_bounds(1) [OF sub] by (subst unat_marker) simp_all
  then have le: "push_bit (2 * Suc k) 1 \<le> sub" by (simp only: word_le_nat_alt)
  have e': "push_bit (2 * (d - Suc k)) (push_bit 2 r) = push_bit (2 * (d - k)) r"
  proof -
    have "2 * (d - Suc k) + 2 = 2 * (d - k)" using k(1) by simp
    then show ?thesis by (simp only: push_bit_push_bit)
  qed
  show ?case
    using Suc.hyps(1) [OF k(2) k(1), of "push_bit 2 r"] le
    by (subst AddedSubkey_loop.simps) (simp only: marker_step e' if_True)
qed

text \<open>Splitting a key into an ancestor and a sub-key and putting them together again.\<close>

lemma AddedSubkey_GetSubkey:
  assumes q: "quad_level q n" and d: "d \<le> n" and d31: "d < 31"
  shows "AddedSubkey (GetSubkey d q) (drop_bit (2 * d) q) = Some q"
proof -
  let ?s = "GetSubkey d q"
  have s: "bit ?s j \<longleftrightarrow> j = 2 * d \<or> j < 2 * d \<and> bit q j" for j using d31 by (intro bit_GetSubkey) simp
  have "quad_level ?s d" using d31 by (auto simp: quad_level_bits s)
  from added_subkey_loop [OF this d31, of 0]
  have "AddedSubkey ?s (drop_bit (2 * d) q)
      = Some (push_bit (2 * d) (drop_bit (2 * d) q) OR (?s AND (push_bit (2 * d) 1 - 1)))"
    by (simp add: AddedSubkey_def)
  moreover have "push_bit (2 * d) (drop_bit (2 * d) q) OR (?s AND (push_bit (2 * d) 1 - 1)) = q"
  proof (rule bit_word_eqI)
    fix j
    assume "j < LENGTH(64)"
    moreover have "push_bit (2 * d) 1 - 1 = (mask (2 * d) :: u64)" by (simp add: mask_eq_exp_minus_1)
    ultimately show "bit (push_bit (2 * d) (drop_bit (2 * d) q) OR (?s AND (push_bit (2 * d) 1 - 1))) j = bit q j"
      by (cases "j < 2 * d") (auto simp: bit_or_iff bit_and_iff bit_push_bit_iff bit_drop_bit_eq bit_mask_iff s)
  qed
  ultimately show ?thesis by simp
qed

text \<open>A mask of 0 stays 0 and never exceeds the sub-key: such a run does not end.\<close>

lemma added_subkey_mask: "AddedSubkey_loop sub m r = Some y \<Longrightarrow> m \<noteq> 0"
  by (rule AddedSubkey_loop.raw_induct [where P = "\<lambda>sub m r y. m \<noteq> 0", rotated])
    (fastforce split: if_splits)+

lemma added_subkey_stuck: "AddedSubkey_loop sub 0 r = None"
  using added_subkey_mask [of sub 0 r] by (cases "AddedSubkey_loop sub 0 r") auto

lemma added_subkey_hang:
  assumes "2 ^ 62 \<le> unat sub" and "k \<le> 31"
  shows "AddedSubkey_loop sub (push_bit (2 * k) 1) r = None"
  using assms(2)
proof (induction "31 - k" arbitrary: k r)
  case 0
  then have "push_bit 2 (push_bit (2 * k) 1) = (0 :: u64)" by simp
  then show ?case by (subst AddedSubkey_loop.simps) (simp only: word_zero_le if_True added_subkey_stuck)
next
  case (Suc x)
  then have k: "Suc k \<le> 31" "x = 31 - Suc k" by simp_all
  have "(4 :: nat) ^ Suc k \<le> 4 ^ 31" using k(1) by (rule power_increasing) simp
  also have "(4 :: nat) ^ 31 = 2 ^ 62" by simp
  finally have "unat (push_bit (2 * Suc k) 1 :: u64) \<le> unat sub"
    using k(1) assms(1) by (subst unat_marker) simp_all
  then have le: "push_bit (2 * Suc k) 1 \<le> sub" by (simp only: word_le_nat_alt)
  show ?case using Suc.hyps(1) [OF k(2) k(1)] le
    by (subst AddedSubkey_loop.simps) (simp only: marker_step if_True)
qed

section \<open>Quad key strings\<close>

lemma of_char_digit: "v < 4 \<Longrightarrow> of_char (digit v) - (48 :: int) = int v"
proof -
  assume "v < 4"
  then have "of_char (digit v) = v + 48" by (simp add: digit_def)
  then show ?thesis by (metis add_diff_cancel_right' of_nat_add of_nat_numeral of_nat_of_char)
qed

lemma FromQuadKey_loop_bits:
  "level (FromQuadKey_loop k cs t) = level t
   \<and> (\<forall>j < 32. bit (column (FromQuadKey_loop k cs t)) j \<longleftrightarrow>
       bit (column t) j \<or> k \<le> j \<and> j < k + length cs \<and> bit (of_char (cs ! (j - k)) - (48 :: int)) 0)
   \<and> (\<forall>j < 32. bit (row (FromQuadKey_loop k cs t)) j \<longleftrightarrow>
       bit (row t) j \<or> k \<le> j \<and> j < k + length cs \<and> bit (of_char (cs ! (j - k)) - (48 :: int)) 1)"
proof (induction cs arbitrary: k t)
  case (Cons c cs)
  let ?d = "of_char c - (48 :: int)" and ?m = "push_bit k 1 :: u32"
  define t1 where "t1 = t\<lparr>column := if bit ?d 0 then column t OR ?m else column t,
    row := if bit ?d 1 then row t OR ?m else row t\<rparr>"
  have step: "FromQuadKey_loop k (c # cs) t = FromQuadKey_loop (Suc k) cs t1"
    by (simp add: t1_def Let_def)
  have m: "bit ?m j \<longleftrightarrow> j = k" if "j < 32" for j using that by (simp add: bit_exp_iff)
  have nth: "k \<le> j \<and> j < k + length (c # cs) \<and> bit (of_char ((c # cs) ! (j - k)) - (48 :: int)) b \<longleftrightarrow>
      j = k \<and> bit ?d b \<or> Suc k \<le> j \<and> j < Suc k + length cs \<and> bit (of_char (cs ! (j - Suc k)) - (48 :: int)) b"
    for j b
  proof (cases "k < j")
    case True
    then have "j - k = Suc (j - Suc k)" by simp
    then have "(c # cs) ! (j - k) = cs ! (j - Suc k)" by (simp only: nth_Cons_Suc)
    with True show ?thesis by auto
  qed auto
  show ?case
    unfolding step nth using Cons.IH [of "Suc k" t1] m
    by (auto simp: t1_def bit_or_iff)
qed auto

lemma FromQuadKey_ToQuadKey:
  assumes v: "IsValid t"
  shows "FromQuadKey (ToQuadKey t) = t"
proof (cases "level t = 0")
  case True
  then have "row t = 0" "column t = 0" using v by (auto simp: IsValid_def)
  with True v show ?thesis by (cases t) (simp add: ToQuadKey_def FromQuadKey_def FromRowColumnLevel_def)
next
  case False
  let ?n = "unat (level t)" and ?q = "ToQuadKey64 t"
  let ?v = "\<lambda>i. unat ((?q div push_bit (2 * i) 1) mod 4)"
  have n: "0 < ?n" "?n < 32" using False v by (auto simp: IsValid_bits unat_gt_0)
  let ?cs = "map (\<lambda>i. digit (?v i)) [0..<?n]"
  have key: "ToQuadKey t = rev ?cs" using False v by (simp add: ToQuadKey_def Let_def)
  have v4: "?v i < 4" for i by (simp add: unat_mod)
  have q: "?q div push_bit (2 * i) 1 mod 4 = take_bit 2 (drop_bit (2 * i) ?q)" for i
    by (simp add: drop_bit_eq_div take_bit_eq_mod)
  have bits: "bit (int (?v i)) j \<longleftrightarrow> j < 2 \<and> bit ?q (2 * i + j)" for i j
    unfolding q by (auto simp: bit_unsigned_iff bit_take_bit_iff bit_drop_bit_eq)
  have "?cs ! 0 \<noteq> CHR ''-'' "
  proof
    assume "?cs ! 0 = CHR ''-''"
    then have "of_char (digit (?v 0)) - (48 :: int) = -3" using n by simp
    then have "int (?v 0) = -3" using of_char_digit [OF v4 [of 0]] by (simp only:)
    then show False by linarith
  qed
  then have "?cs \<noteq> ''-''" by (metis nth_Cons_0)
  then have "ToQuadKey t \<noteq> ''-''" unfolding key rev_singleton_conv .
  moreover have "ToQuadKey t \<noteq> []" using key n by simp
  moreover have "length (ToQuadKey t) = ?n" using key by simp
  ultimately have f: "FromQuadKey (ToQuadKey t) = FromQuadKey_loop 0 ?cs \<lparr>row = 0, column = 0, level = level t\<rparr>"
    using key by (simp add: FromQuadKey_def FromRowColumnLevel_def)
  have d: "of_char (?cs ! i) - (48 :: int) = int (?v i)" if "i < ?n" for i
    using that of_char_digit [OF v4] by simp
  have qb: "bit ?q (2 * i) \<longleftrightarrow> bit (column t) i" "bit ?q (2 * i + 1) \<longleftrightarrow> bit (row t) i" if "i < ?n" for i
    using that n bit_ToQuadKey64 [OF n(2), of "2 * i"] bit_ToQuadKey64 [OF n(2), of "2 * i + 1"] by auto
  show ?thesis
  proof (rule TileKey_eqI)
    note b = FromQuadKey_loop_bits [of 0 ?cs "\<lparr>row = 0, column = 0, level = level t\<rparr>"]
    show "level (FromQuadKey (ToQuadKey t)) = level t" unfolding f using b by simp
    fix i :: nat
    assume i: "i < 32"
    have "bit (row t) i \<Longrightarrow> i < ?n" "bit (column t) i \<Longrightarrow> i < ?n" using v by (auto simp: IsValid_bits)
    moreover have "bit (of_char (?cs ! i) - (48 :: int)) 0 \<longleftrightarrow> bit (column t) i"
      "bit (of_char (?cs ! i) - (48 :: int)) 1 \<longleftrightarrow> bit (row t) i" if "i < ?n"
      unfolding d [OF that] bits using qb [OF that] by simp_all
    moreover have "bit (row (FromQuadKey (ToQuadKey t))) i \<longleftrightarrow> i < ?n \<and> bit (of_char (?cs ! i) - (48 :: int)) 1"
      "bit (column (FromQuadKey (ToQuadKey t))) i \<longleftrightarrow> i < ?n \<and> bit (of_char (?cs ! i) - (48 :: int)) 0"
      unfolding f using b i by (simp_all del: nth_map)
    ultimately show "bit (row (FromQuadKey (ToQuadKey t))) i = bit (row t) i"
      and "bit (column (FromQuadKey (ToQuadKey t))) i = bit (column t) i" by blast+
  qed
qed

section \<open>The lowest, the highest and the nearest level\<close>

lemma odd_isolated: "odd v \<Longrightarrow> v AND - v = 1" for v :: u64
proof -
  assume o: "odd v"
  then have "v mod 2 = 1" by (simp only: odd_iff_mod_2_eq_one)
  then have "v div 2 * 2 + 1 = v" using div_mult_mod_eq [of v 2] by (simp only:)
  then have "v - 1 = 2 * (v div 2)" by (metis add_diff_cancel_right' mult.commute)
  then have "v - 1 = unset_bit 0 v" by (simp only: unset_bit_0)
  with o show ?thesis
    by (intro bit_word_eqI) (auto simp: bit_and_iff bit_minus_iff bit_unset_bit_iff bit_1_iff bit_0)
qed

lemma lowest_isolated:
  fixes w :: u64
  assumes "bit w k" and "\<forall>j < k. \<not> bit w j"
  shows "w AND - w = push_bit k 1"
proof -
  have "take_bit k w = 0" by (rule bit_word_eqI) (use assms(2) in \<open>simp add: bit_take_bit_iff\<close>)
  then have w: "w = push_bit k (drop_bit k w)" by (metis add.right_neutral bits_ident)
  have "odd (drop_bit k w)" using assms(1) by (simp add: bit_iff_odd_drop_bit)
  then have "drop_bit k w AND - drop_bit k w = 1" by (rule odd_isolated)
  then have "push_bit k (drop_bit k w AND - drop_bit k w) = push_bit k 1" by simp
  moreover have "push_bit k (drop_bit k w AND - drop_bit k w) = w AND - w"
    using w by (metis push_bit_and push_bit_minus)
  ultimately show ?thesis by simp
qed

lemma de_bruijn:
  "\<forall>k \<in> set [0..<32]. kLookupTable ! unat (drop_bit 27 (ucast (push_bit k 1 * (0x077CB531 :: u64)) :: u32)) = of_nat k"
  by code_simp

lemma GetMin_bit:
  assumes "bit levels k" and "\<forall>j < k. \<not> bit levels j"
  shows "GetMinTileKeyLevel levels = Some (of_nat k)"
proof -
  have k: "k < 32" using bit_imp_le_length [OF assms(1)] by simp
  have "levels \<noteq> 0" using assms(1) by auto
  moreover have "(ucast levels :: u64) AND - ucast levels = push_bit k 1"
    using assms k by (intro lowest_isolated) (simp_all add: bit_unsigned_iff)
  moreover have "kLookupTable ! unat (drop_bit 27 (ucast (push_bit k 1 * (0x077CB531 :: u64)) :: u32)) = of_nat k"
    using de_bruijn k by simp
  ultimately show ?thesis unfolding GetMinTileKeyLevel_def Let_def by simp
qed

lemma GetMax_bit:
  assumes "levels \<noteq> 0"
  shows "\<exists>k. GetMaxTileKeyLevel levels = Some (of_nat k) \<and> bit levels k \<and> (\<forall>j. bit levels j \<longrightarrow> j \<le> k)"
proof -
  let ?k = "log2_floor (unat levels)"
  have b: "2 ^ ?k \<le> unat levels" "unat levels < 2 ^ Suc ?k"
    using log2_floor_bounds [of "unat levels"] assms by (simp_all add: unat_gt_0)
  then have "unat levels div 2 ^ ?k = 1"
    by (metis One_nat_def div_nat_eqI mult.commute mult_1 power_Suc Suc_1 mult_Suc_right numeral_2_eq_2)
  then have "bit (unat levels) ?k" by (simp add: bit_iff_odd)
  then have "bit levels ?k" by (simp add: bit_unsigned_iff)
  moreover have "j \<le> ?k" if "bit levels j" for j
  proof (rule ccontr)
    assume "\<not> j \<le> ?k"
    then have "(2 :: nat) ^ Suc ?k \<le> 2 ^ j" by (intro power_increasing) simp_all
    with b(2) have "unat levels div 2 ^ j = 0" by simp
    moreover have "bit (unat levels) j" using that by (simp add: bit_unsigned_iff)
    ultimately show False by (simp add: bit_iff_odd)
  qed
  ultimately show ?thesis using assms by (auto simp: GetMaxTileKeyLevel_def)
qed

lemma nearest_loop_found:
  assumes "\<exists>d \<in> set ds. lev + d < 32 \<and> bit levels (nat (lev + d)) \<or> d \<le> lev \<and> bit levels (nat (lev - d))"
    and "sorted ds" and "\<forall>d \<in> set ds. 0 \<le> d" and "0 \<le> lev"
  shows "\<exists>d \<in> set ds. (nearest_loop levels lev ds = lev + d \<or> nearest_loop levels lev ds = lev - d)
    \<and> 0 \<le> nearest_loop levels lev ds \<and> nearest_loop levels lev ds < 32
    \<and> bit levels (nat (nearest_loop levels lev ds))
    \<and> (\<forall>e \<in> set ds. e < d \<longrightarrow> \<not> (lev + e < 32 \<and> bit levels (nat (lev + e)) \<or> e \<le> lev \<and> bit levels (nat (lev - e))))"
  using assms
proof (induction ds)
  case (Cons d ds)
  let ?hit = "\<lambda>d. lev + d < 32 \<and> bit levels (nat (lev + d)) \<or> d \<le> lev \<and> bit levels (nat (lev - d))"
  show ?case
  proof (cases "?hit d")
    case True
    then show ?thesis using Cons.prems
      by (intro bexI [of _ d]) (auto dest: bit_imp_le_length)
  next
    case False
    then have "\<exists>d \<in> set ds. ?hit d" using Cons.prems by auto
    with Cons False show ?thesis by auto
  qed
qed simp

lemma uint_clamp: "uint (max (min a b) c) = max (min (uint a) (uint b)) (uint c)" for a b c :: u32
  by (simp add: max_def min_def word_le_def)

lemma nearest_level:
  assumes bm: "bit levels m" "\<forall>j < m. \<not> bit levels j" and bM: "bit levels M" "\<forall>j. bit levels j \<longrightarrow> j \<le> M"
    and lev: "lev = max (min ref (int M)) (int m)"
  defines "r \<equiv> nearest_loop levels lev [0..max \<bar>lev - int m\<bar> \<bar>lev - int M\<bar>]"
  shows "0 \<le> r \<and> r < 32 \<and> bit levels (nat r) \<and> (\<forall>l. bit levels l \<longrightarrow> \<bar>r - ref\<bar> \<le> \<bar>int l - ref\<bar>)"
proof -
  let ?D = "max \<bar>lev - int m\<bar> \<bar>lev - int M\<bar>"
  let ?hit = "\<lambda>d. lev + d < 32 \<and> bit levels (nat (lev + d)) \<or> d \<le> lev \<and> bit levels (nat (lev - d))"
  have mM: "int m \<le> int M" "int M < 32" using bM(2) bm(1) bit_imp_le_length [OF bM(1)] by auto
  then have lm: "int m \<le> lev" "lev \<le> int M" "0 \<le> lev" using lev by auto
  have "?hit (lev - int m)" using bm(1) lm by simp
  moreover have "lev - int m \<in> set [0..?D]" using lm by simp
  ultimately have ex: "\<exists>d \<in> set [0..?D]. ?hit d" by blast
  have "sorted [0..?D]" "\<forall>d \<in> set [0..?D]. 0 \<le> d" by simp_all
  from nearest_loop_found [OF ex this lm(3), folded r_def] obtain d
    where "d \<in> set [0..?D]" and d': "r = lev + d \<or> r = lev - d" "0 \<le> r" "r < 32" "bit levels (nat r)"
      "\<forall>e \<in> set [0..?D]. e < d \<longrightarrow> \<not> ?hit e"
    by (elim bexE conjE) (rule that)
  then have "0 \<le> d" by simp
  note d = this d'
  have near: "\<bar>r - lev\<bar> \<le> \<bar>int l - lev\<bar>" if l: "bit levels l" for l
  proof -
    have "int m \<le> int l" "int l \<le> int M" using l bm(2) bM(2) by (auto simp: not_less [symmetric])
    then have "\<bar>int l - lev\<bar> \<in> set [0..?D]" using lm by auto
    moreover have "?hit \<bar>int l - lev\<bar>" using l mM \<open>int l \<le> int M\<close> lm by (auto simp: abs_if)
    ultimately have "d \<le> \<bar>int l - lev\<bar>" using d(6) by (meson not_less)
    with d(1,2) show ?thesis by auto
  qed
  have rl: "int m \<le> r" "r \<le> int M" using d(3,5) bm(2) bM(2) by (auto simp: not_less [symmetric])
  have "\<bar>r - ref\<bar> \<le> \<bar>int l - ref\<bar>" if l: "bit levels l" for l
  proof -
    have "int m \<le> int l" "int l \<le> int M" using l bm(2) bM(2) by (auto simp: not_less [symmetric])
    with near [OF l] near [OF bm(1)] near [OF bM(1)] rl lev mM show ?thesis by linarith
  qed
  with d show ?thesis by blast
qed

section \<open>Properties\<close>

text \<open>C31. The 64-bit quad key is a faithful encoding: decoding the encoding of a valid key gives
  the key back, and every word whose marker bit is at an even position below 64 is the encoding
  of the valid key that it decodes to.\<close>

theorem quad_key_roundtrip:
  "(IsValid t \<longrightarrow> FromQuadKey64 (ToQuadKey64 t) = t)
   \<and> (quad_level q n \<longrightarrow> IsValid (FromQuadKey64 q) \<and> unat (level (FromQuadKey64 q)) = n
        \<and> ToQuadKey64 (FromQuadKey64 q) = q)"
  using FromQuadKey64_ToQuadKey64 FromQuadKey64_valid ToQuadKey64_FromQuadKey64 by blast

theorem quad_key_roundtrip_witness:
  "FromQuadKey64 (ToQuadKey64 \<lparr>row = 3275, column = 8085, level = 14\<rparr>) = \<lparr>row = 3275, column = 8085, level = 14\<rparr>
   \<and> ToQuadKey64 (FromQuadKey64 377894440) = 377894440"
proof -
  let ?t = "\<lparr>row = 3275, column = 8085, level = 14\<rparr>"
  have "IsValid ?t" by code_simp
  moreover have "quad_level 377894440 14" unfolding quad_level_def by code_simp
  ultimately show ?thesis using quad_key_roundtrip [of ?t 377894440 14] by blast
qed

text \<open>Text round trips: the quad key string and the decimal HERE tile id of a valid key are
  parsed back to the same key.\<close>

lemma tile_text_roundtrip:
  assumes "IsValid t"
  shows "FromQuadKey (ToQuadKey t) = t \<and> FromHereTile (ToHereTile t) = t"
proof
  show "FromQuadKey (ToQuadKey t) = t" using assms by (rule FromQuadKey_ToQuadKey)
  have "strtoull (ToHereTile t) = ToQuadKey64 t"
    using strtoull_to_string [of "unat (ToQuadKey64 t)"] unsigned_less [of "ToQuadKey64 t", where ?'a = nat]
    by (simp add: ToHereTile_def)
  then show "FromHereTile (ToHereTile t) = t"
    using assms by (simp add: FromHereTile_def ToHereTile_def FromQuadKey64_ToQuadKey64)
qed

lemma tile_text_roundtrip_witness:
  "FromQuadKey (ToQuadKey \<lparr>row = 5, column = 3, level = 3\<rparr>) = \<lparr>row = 5, column = 3, level = 3\<rparr>
   \<and> ToQuadKey \<lparr>row = 5, column = 3, level = 3\<rparr> = ''213''"
proof -
  have "IsValid \<lparr>row = 5, column = 3, level = 3\<rparr>" by code_simp
  then have "FromQuadKey (ToQuadKey \<lparr>row = 5, column = 3, level = 3\<rparr>) = \<lparr>row = 5, column = 3, level = 3\<rparr>"
    by (rule tile_text_roundtrip [THEN conjunct1])
  moreover have "ToQuadKey \<lparr>row = 5, column = 3, level = 3\<rparr> = ''213''" by code_simp
  ultimately show ?thesis by (rule conjI)
qed

text \<open>The hierarchy: the four children of a valid key below the last level are valid, have it
  as their parent and report their quadrant; \<open>IsChildOf\<close> holds exactly for the keys whose quad
  key starts with the quad key of the ancestor.\<close>

lemma tile_hierarchy:
  assumes "IsValid t"
  shows "(unat (level t) < 31 \<and> unat i < 4 \<longrightarrow>
      IsValid (GetChild i t) \<and> Parent (GetChild i t) = t
      \<and> RelationshipToParent (GetChild i t) = quadrant_of (ucast i)
      \<and> ToQuadKey64 (GetChild i t) = QuadKey64_Child (ToQuadKey64 t) OR ucast i)
    \<and> (IsValid p \<longrightarrow> (IsChildOf p t \<longleftrightarrow> unat (level p) < unat (level t)
      \<and> drop_bit (2 * (unat (level t) - unat (level p))) (ToQuadKey64 t) = ToQuadKey64 p))"
  using quad_GetChild [OF assms] Parent_GetChild [OF _ _ assms] Relationship_GetChild [OF _ _ assms]
    IsChildOf_quad [OF assms]
  by (simp_all add: QuadKey64_Child_def)

lemma tile_hierarchy_witness:
  "Parent (GetChild 2 \<lparr>row = 5, column = 3, level = 3\<rparr>) = \<lparr>row = 5, column = 3, level = 3\<rparr>
   \<and> RelationshipToParent (GetChild 2 \<lparr>row = 5, column = 3, level = 3\<rparr>) = Some NW"
proof -
  have "IsValid \<lparr>row = 5, column = 3, level = 3\<rparr>" by code_simp
  from tile_hierarchy [OF this, of 2] show ?thesis by (simp add: quadrant_of_def)
qed

text \<open>Sub-keys: a valid key is put together again from its ancestor \<open>d\<close> levels up and its
  sub-key of \<open>d\<close> levels, for every \<open>d\<close> up to 30.\<close>

lemma subkey_roundtrip:
  assumes v: "IsValid t" and d: "d \<le> unat (level t)" and "d < 31"
  shows "AddedSubkey64 (GetSubkey64 d t) (ChangedLevelBy (- int d) t) = Some t"
proof -
  have "AddedSubkey (GetSubkey d (ToQuadKey64 t)) (drop_bit (2 * d) (ToQuadKey64 t)) = Some (ToQuadKey64 t)"
    by (rule AddedSubkey_GetSubkey [OF level_ToQuadKey64 [OF v] d assms(3)])
  then show ?thesis
    unfolding AddedSubkey64_def GetSubkey64_def quad_down(2) [OF v d]
    by (simp add: FromQuadKey64_ToQuadKey64 [OF v])
qed

lemma subkey_roundtrip_witness:
  "AddedSubkey64 (GetSubkey64 2 \<lparr>row = 5, column = 3, level = 3\<rparr>) (ChangedLevelBy (- 2) \<lparr>row = 5, column = 3, level = 3\<rparr>)
   = Some \<lparr>row = 5, column = 3, level = 3\<rparr>"
proof -
  have "IsValid \<lparr>row = 5, column = 3, level = 3\<rparr>" by code_simp
  from subkey_roundtrip [OF this, of 2] show ?thesis by simp
qed

text \<open>A sub-key of level 31, the deepest level, sends \<open>AddedSubkey\<close> into an endless loop: the
  mask is shifted out of the word, becomes 0 and is never above the sub-key.\<close>

lemma deepest_subkey_hangs:
  assumes "quad_level sub 31"
  shows "AddedSubkey64 sub t = None"
proof -
  have "(4 :: nat) ^ 31 = 2 ^ 62" by simp
  then have "2 ^ 62 \<le> unat sub" using quad_level_bounds(1) [OF assms] by (simp only:)
  from added_subkey_hang [OF this, of 0] show ?thesis by (simp add: AddedSubkey64_def AddedSubkey_def)
qed

lemma deepest_subkey_hangs_witness:
  "AddedSubkey64 (GetSubkey64 31 \<lparr>row = 1, column = 2, level = 31\<rparr>) \<lparr>row = 0, column = 0, level = 0\<rparr> = None"
proof (rule deepest_subkey_hangs)
  have "bit (GetSubkey64 31 \<lparr>row = 1, column = 2, level = 31\<rparr>) j \<longleftrightarrow> j = 62 \<or>
      j < 62 \<and> bit (ToQuadKey64 \<lparr>row = 1, column = 2, level = 31\<rparr>) j" for j
    unfolding GetSubkey64_def by (subst bit_GetSubkey) simp_all
  then show "quad_level (GetSubkey64 31 \<lparr>row = 1, column = 2, level = 31\<rparr>) 31"
    by (simp add: quad_level_bits)
qed

text \<open>\<open>GetNearestAvailableTileKeyLevel\<close> on a non-empty set of levels returns a level of the
  set, and no level of the set is nearer to the reference level.\<close>

lemma nearest_level_correct:
  assumes "levels \<noteq> 0"
  shows "\<exists>l. GetNearestAvailableTileKeyLevel levels ref = Some l \<and> bit levels (unat l)
    \<and> (\<forall>k. bit levels k \<longrightarrow> \<bar>uint l - uint ref\<bar> \<le> \<bar>int k - uint ref\<bar>)"
proof -
  have "\<exists>k. bit levels k" using assms by (metis bit_eqI bit_0_eq bot_apply bot_bool_def)
  then obtain m where m: "bit levels m" "\<forall>j < m. \<not> bit levels j" by (metis exists_least_iff)
  from GetMax_bit [OF assms] obtain M
    where M: "GetMaxTileKeyLevel levels = Some (of_nat M)" "bit levels M" "\<forall>j. bit levels j \<longrightarrow> j \<le> M" by blast
  have "M < 32" "m < 32" using bit_imp_le_length [OF M(2)] bit_imp_le_length [OF m(1)] by simp_all
  then have u: "uint (of_nat M :: u32) = int M" "uint (of_nat m :: u32) = int m"
    by (simp_all add: uint_nat unat_of_nat)
  let ?lev = "max (min (uint ref) (int M)) (int m)"
  define r where "r = nearest_loop levels ?lev [0..max \<bar>?lev - int m\<bar> \<bar>?lev - int M\<bar>]"
  have r: "0 \<le> r" "r < 32" "bit levels (nat r)" "\<forall>l. bit levels l \<longrightarrow> \<bar>r - uint ref\<bar> \<le> \<bar>int l - uint ref\<bar>"
    using nearest_level [OF m M(2,3) refl, of "uint ref"] unfolding r_def by blast+
  have "GetNearestAvailableTileKeyLevel levels ref = Some (of_int r)"
    unfolding GetNearestAvailableTileKeyLevel_def GetMin_bit [OF m] M(1) bind.simps Let_def uint_clamp u r_def ..
  moreover have "uint (of_int r :: u32) = r" using r(1,2) by (simp add: uint_word_of_int)
  moreover from this have "unat (of_int r :: u32) = nat r" by (simp only: unat_eq_nat_uint)
  ultimately show ?thesis using r(3,4) by (intro exI [of _ "of_int r"]) (simp only: simp_thms)
qed

lemma nearest_level_correct_witness:
  "\<exists>l. GetNearestAvailableTileKeyLevel 0x81 6 = Some l \<and> bit (0x81 :: u32) (unat l)"
  using nearest_level_correct [of "0x81" 6] by auto

end
