(* ===== verification/QuadTree.thy ===== *)
theory QuadTree
  imports TileKey "HOL-Library.Multiset"
begin

text \<open>
  \<open>QuadTreeIndex\<close> (olp-cpp-sdk-dataservice-read/src/repositories/QuadTreeIndex.cpp and .h) with
  \<open>BlobDataReader\<close> and \<open>BlobDataWriter\<close>: the index of a quad tree as one block of bytes.

  The block is modelled byte by byte, in the layout of the three structures on a little-endian
  machine with natural alignment: a header of 16 bytes (root key at 0, version at 8, depth at 10,
  number of parents at 11, number of sub-keys at 12), entries of 8 bytes (key at 0, offset at 4),
  parent entries of 16 bytes (key at 0, offset at 8), then the data. An index is its raw data or
  nothing. A JSON document is the tree the parser of the JSON library gives; an exception of that
  library is \<open>None\<close>. The central theorem is \<open>quad_tree_find\<close>: a lookup in the block is a
  lookup in the map of the given entries.
\<close>

section \<open>Bytes\<close>

definition le_bytes :: "nat \<Rightarrow> u64 \<Rightarrow> u8 list" where
  "le_bytes n w = map (\<lambda>i. ucast (drop_bit (8 * i) w)) [0..<n]"

fun le_value :: "u8 list \<Rightarrow> u64" where
  "le_value [] = 0"
| "le_value (b # bs) = ucast b OR push_bit 8 (le_value bs)"

definition string_bytes :: "string \<Rightarrow> u8 list" where
  "string_bytes s = map (\<lambda>c. of_nat (of_char c)) s"

definition bytes_string :: "u8 list \<Rightarrow> string" where
  "bytes_string bs = map (\<lambda>b. char_of (unat b)) bs"

text \<open>Copying bytes to a place in the block, and reading a number from it.\<close>

definition poke :: "nat \<Rightarrow> u8 list \<Rightarrow> u8 list \<Rightarrow> u8 list" where
  "poke off bs buf = take off buf @ bs @ drop (off + length bs) buf"

definition peek :: "nat \<Rightarrow> nat \<Rightarrow> u8 list \<Rightarrow> u64" where
  "peek n off buf = le_value (take n (drop off buf))"

text \<open>The writer returns whether there was room, the block and the next offset; the reader whether
  there was a value, the next offset and the value, which stays \<open>v\<close> when there was none.\<close>

definition write_bytes :: "u8 list \<Rightarrow> u8 list \<Rightarrow> nat \<Rightarrow> bool \<times> u8 list \<times> nat" where
  "write_bytes bs buf off =
     (if length buf < off + length bs then (False, buf, off) else (True, poke off bs buf, off + length bs))"

definition Write_word :: "u64 \<Rightarrow> u8 list \<Rightarrow> nat \<Rightarrow> bool \<times> u8 list \<times> nat" where
  "Write_word w = write_bytes (le_bytes 8 w)"

definition Write_string :: "string \<Rightarrow> u8 list \<Rightarrow> nat \<Rightarrow> bool \<times> u8 list \<times> nat" where
  "Write_string s = write_bytes (string_bytes s @ [0])"

definition Read_word :: "u8 list \<Rightarrow> nat \<Rightarrow> u64 \<Rightarrow> bool \<times> nat \<times> u64" where
  "Read_word buf off v = (if length buf < off + 8 then (False, off, v) else (True, off + 8, peek 8 off buf))"

definition Read_string :: "u8 list \<Rightarrow> nat \<Rightarrow> string \<Rightarrow> bool \<times> nat \<times> string" where
  "Read_string buf off v =
     (let rest = drop off buf; s = takeWhile (\<lambda>b. b \<noteq> 0) rest in
      if 0 \<in> set rest then (True, off + length s + 1, bytes_string s) else (False, off, v))"

definition Skip_string :: "u8 list \<Rightarrow> nat \<Rightarrow> bool \<times> nat" where
  "Skip_string buf off =
     (let rest = drop off buf; s = takeWhile (\<lambda>b. b \<noteq> 0) rest in
      if 0 \<in> set rest then (True, off + length s + 1) else (False, off))"

section \<open>Index data\<close>

record IndexData =
  tile_key :: TileKey
  data_handle :: string
  additional_metadata :: string
  crc :: string
  checksum :: string
  data_version :: u64
  data_size :: u64
  compressed_data_size :: u64

definition IndexData_new :: IndexData where
  "IndexData_new =
     \<lparr>tile_key = TileKey_invalid, data_handle = [], additional_metadata = [], crc = [], checksum = [],
      data_version = - 1, data_size = - 1, compressed_data_size = - 1\<rparr>"

definition WriteIndexData :: "IndexData \<Rightarrow> u8 list \<Rightarrow> nat \<Rightarrow> bool \<times> u8 list \<times> nat" where
  "WriteIndexData d buf off =
     (let (ok1, buf, off) = Write_word (data_version d) buf off;
          (ok2, buf, off) = Write_word (data_size d) buf off;
          (ok3, buf, off) = Write_word (compressed_data_size d) buf off;
          (ok4, buf, off) = Write_string (data_handle d) buf off;
          (ok5, buf, off) = Write_string (checksum d) buf off;
          (ok6, buf, off) = Write_string (additional_metadata d) buf off;
          (ok7, buf, off) = Write_string (crc d) buf off in
      (ok1 \<and> ok2 \<and> ok3 \<and> ok4 \<and> ok5 \<and> ok6 \<and> ok7, buf, off))"

definition kDataHandle :: int where "kDataHandle = 2"

definition kAdditionalMetadata :: int where "kAdditionalMetadata = 4"

definition kCrc :: int where "kCrc = 8"

definition kChecksum :: int where "kChecksum = 16"

definition kAll :: int where "kAll = kDataHandle OR kAdditionalMetadata OR kCrc OR kChecksum"

definition read_field :: "int \<Rightarrow> int \<Rightarrow> u8 list \<Rightarrow> nat \<Rightarrow> string \<Rightarrow> bool \<times> nat \<times> string" where
  "read_field wanted field buf off v =
     (if 0 < (wanted AND field) then Read_string buf off v
      else (let (ok, off) = Skip_string buf off in (ok, off, v)))"

definition ReadIndexData :: "u8 list \<Rightarrow> IndexData \<Rightarrow> nat \<Rightarrow> nat \<Rightarrow> int \<Rightarrow> bool \<times> IndexData" where
  "ReadIndexData buf d off limit wanted =
     (let (ok1, off, v) = Read_word buf off (data_version d); d = d\<lparr>data_version := v\<rparr>;
          (ok2, off, v) = Read_word buf off (data_size d); d = d\<lparr>data_size := v\<rparr>;
          (ok3, off, v) = Read_word buf off (compressed_data_size d); d = d\<lparr>compressed_data_size := v\<rparr>;
          (ok4, off, v) = read_field wanted kDataHandle buf off (data_handle d); d = d\<lparr>data_handle := v\<rparr>;
          (ok5, off, v) = read_field wanted kChecksum buf off (checksum d); d = d\<lparr>checksum := v\<rparr>;
          (ok6, off, v) = read_field wanted kAdditionalMetadata buf off (additional_metadata d);
          d = d\<lparr>additional_metadata := v\<rparr>;
          success = (ok1 \<and> ok2 \<and> ok3 \<and> ok4 \<and> ok5 \<and> ok6) in
      if off < limit then
        (let (ok7, off, v) = read_field wanted kCrc buf off (crc d) in (success \<and> ok7, d\<lparr>crc := v\<rparr>))
      else (success, d))"

section \<open>The block\<close>

definition root_tilekey :: "u8 list \<Rightarrow> u64" where
  "root_tilekey buf = peek 8 0 buf"

definition parent_count :: "u8 list \<Rightarrow> nat" where
  "parent_count buf = unat (peek 1 11 buf)"

definition subkey_count :: "u8 list \<Rightarrow> nat" where
  "subkey_count buf = unat (peek 2 12 buf)"

definition sub_quadkey :: "u8 list \<Rightarrow> nat \<Rightarrow> u64" where
  "sub_quadkey buf i = peek 2 (16 + 8 * i) buf"

definition sub_offset :: "u8 list \<Rightarrow> nat \<Rightarrow> nat" where
  "sub_offset buf i = unat (peek 4 (16 + 8 * i + 4) buf)"

definition ParentEntryBegin :: "u8 list \<Rightarrow> nat" where
  "ParentEntryBegin buf = 16 + 8 * subkey_count buf"

definition parent_key :: "u8 list \<Rightarrow> nat \<Rightarrow> u64" where
  "parent_key buf j = peek 8 (ParentEntryBegin buf + 16 * j) buf"

definition parent_offset :: "u8 list \<Rightarrow> nat \<Rightarrow> nat" where
  "parent_offset buf j = unat (peek 4 (ParentEntryBegin buf + 16 * j + 8) buf)"

definition DataBegin :: "u8 list \<Rightarrow> nat" where
  "DataBegin buf = ParentEntryBegin buf + 16 * parent_count buf"

section \<open>Creation\<close>

definition index_data_size :: "IndexData \<Rightarrow> nat" where
  "index_data_size d =
     length (data_handle d) + 1 + length (checksum d) + 1 + length (crc d) + 1 + length (additional_metadata d) + 1 + 8 + 8 + 8"

definition entry_key :: "TileKey \<Rightarrow> TileKey \<Rightarrow> u64" where
  "entry_key root t = GetSubkey (unat (level t - level root)) (ToQuadKey64 t)"

text \<open>The two loops that write an entry and its data; \<open>pos\<close> is the pointer to the next entry. A failed
  write ends them.\<close>

fun write_subs :: "TileKey \<Rightarrow> IndexData list \<Rightarrow> nat \<Rightarrow> u8 list \<Rightarrow> nat \<Rightarrow> (nat \<times> u8 list \<times> nat) option" where
  "write_subs root [] pos buf off = Some (pos, buf, off)"
| "write_subs root (d # ds) pos buf off =
     (let buf = poke pos (le_bytes 2 (entry_key root (tile_key d))) buf;
          buf = poke (pos + 4) (le_bytes 4 (of_nat off)) buf;
          (ok, buf, off) = WriteIndexData d buf off in
      if ok then write_subs root ds (pos + 8) buf off else None)"

fun write_parents :: "IndexData list \<Rightarrow> nat \<Rightarrow> u8 list \<Rightarrow> nat \<Rightarrow> u8 list option" where
  "write_parents [] pos buf off = Some buf"
| "write_parents (d # ds) pos buf off =
     (let buf = poke pos (le_bytes 8 (ToQuadKey64 (tile_key d))) buf;
          buf = poke (pos + 8) (le_bytes 4 (of_nat off)) buf;
          (ok, buf, off) = WriteIndexData d buf off in
      if ok then write_parents ds (pos + 16) buf off else None)"

definition CreateBlob :: "TileKey \<Rightarrow> int \<Rightarrow> IndexData list \<Rightarrow> IndexData list \<Rightarrow> u8 list option" where
  "CreateBlob root depth parents subs =
     (let subs = sort_key (\<lambda>d. ToQuadKey64 (tile_key d)) subs;
          parents = sort_key (\<lambda>d. ToQuadKey64 (tile_key d)) parents;
          additional_data_size = sum_list (map index_data_size subs) + sum_list (map index_data_size parents);
          size = 16 + length subs * 8 + length parents * 16 + additional_data_size;
          buf = replicate size 0;
          buf = poke 0 (le_bytes 8 (ToQuadKey64 root)) buf;
          buf = poke 8 (le_bytes 2 0) buf;
          buf = poke 10 (le_bytes 1 (of_int depth)) buf;
          buf = poke 12 (le_bytes 2 (of_nat (length subs))) buf;
          buf = poke 11 (le_bytes 1 (of_nat (length parents))) buf in
      case write_subs root subs 16 buf (DataBegin buf) of
        None \<Rightarrow> None
      | Some (pos, buf, off) \<Rightarrow> write_parents parents pos buf off)"

text \<open>The index of a cached block; an empty one gives no index.\<close>

definition QuadTreeIndex_of_data :: "u8 list option \<Rightarrow> u8 list option" where
  "QuadTreeIndex_of_data data = (if data = None \<or> data = Some [] then None else data)"

definition GetRootTile :: "u8 list option \<Rightarrow> TileKey" where
  "GetRootTile index = (case index of None \<Rightarrow> TileKey_invalid | Some buf \<Rightarrow> FromQuadKey64 (root_tilekey buf))"

section \<open>The index of a JSON document\<close>

text \<open>The values of the JSON library: an integer literal is \<open>JUint64\<close> only when it does not fit 64 signed
  bits. A string handed on through \<open>c_str\<close> ends at its first zero character.\<close>

datatype json =
  JNull | JBool bool | JInt64 int | JUint64 nat | JDouble | JString string | JArray "json list" | JObject "(string \<times> json) list"

definition c_str :: "string \<Rightarrow> string" where
  "c_str s = takeWhile (\<lambda>c. c \<noteq> CHR 0x00) s"

definition string_field :: "(string \<times> json) list \<Rightarrow> string \<Rightarrow> string option" where
  "string_field obj key = (case map_of obj key of Some (JString s) \<Rightarrow> Some (c_str s) | _ \<Rightarrow> None)"

text \<open>\<open>to_number\<close> throws when the number does not fit.\<close>

definition int64_field :: "(string \<times> json) list \<Rightarrow> string \<Rightarrow> u64 \<Rightarrow> u64 option" where
  "int64_field obj key v =
     (case map_of obj key of
        Some (JInt64 n) \<Rightarrow> Some (of_int n)
      | Some (JUint64 n) \<Rightarrow> if n < 2 ^ 63 then Some (of_nat n) else None
      | _ \<Rightarrow> Some v)"

definition uint64_field :: "(string \<times> json) list \<Rightarrow> string \<Rightarrow> u64 \<Rightarrow> u64 option" where
  "uint64_field obj key v =
     (case map_of obj key of
        Some (JInt64 n) \<Rightarrow> if 0 \<le> n then Some (of_int n) else None
      | Some (JUint64 n) \<Rightarrow> Some (of_nat n)
      | _ \<Rightarrow> Some v)"

definition ParseCommonIndexData :: "(string \<times> json) list \<Rightarrow> IndexData option" where
  "ParseCommonIndexData obj =
     (let d = IndexData_new;
          d = (case string_field obj ''additionalMetadata'' of Some s \<Rightarrow> d\<lparr>additional_metadata := s\<rparr> | None \<Rightarrow> d);
          d = (case string_field obj ''checksum'' of Some s \<Rightarrow> d\<lparr>checksum := s\<rparr> | None \<Rightarrow> d);
          d = (case string_field obj ''crc'' of Some s \<Rightarrow> d\<lparr>crc := s\<rparr> | None \<Rightarrow> d) in
      case int64_field obj ''dataSize'' (data_size d) of
        None \<Rightarrow> None
      | Some n \<Rightarrow>
          (case int64_field obj ''compressedDataSize'' (compressed_data_size d) of
             None \<Rightarrow> None
           | Some m \<Rightarrow>
               (case uint64_field obj ''version'' (data_version d) of
                  None \<Rightarrow> None
                | Some v \<Rightarrow> Some (d\<lparr>data_size := n, compressed_data_size := m, data_version := v\<rparr>))))"

text \<open>One loop for parents and sub-quads: they differ in the name of the key field and in how it becomes
  a tile. An element without the two strings is skipped, one that is no object throws.\<close>

fun parse_quads :: "string \<Rightarrow> (string \<Rightarrow> TileKey) \<Rightarrow> json list \<Rightarrow> IndexData list option" where
  "parse_quads key_name to_tile [] = Some []"
| "parse_quads key_name to_tile (JObject obj # quads) =
     (case (string_field obj ''dataHandle'', string_field obj key_name) of
        (Some handle, Some key) \<Rightarrow>
          (case ParseCommonIndexData obj of
             None \<Rightarrow> None
           | Some d \<Rightarrow> map_option (\<lambda>ds. d\<lparr>data_handle := handle, tile_key := to_tile key\<rparr> # ds) (parse_quads key_name to_tile quads))
      | _ \<Rightarrow> parse_quads key_name to_tile quads)"
| "parse_quads key_name to_tile (_ # quads) = None"

definition quads_of :: "(string \<times> json) list \<Rightarrow> string \<Rightarrow> json list" where
  "quads_of obj key = (case map_of obj key of Some (JArray quads) \<Rightarrow> quads | _ \<Rightarrow> [])"

definition QuadTreeIndex_of_json :: "TileKey \<Rightarrow> int \<Rightarrow> json \<Rightarrow> u8 list option option" where
  "QuadTreeIndex_of_json root depth parsed_value =
     (case parsed_value of
        JObject obj \<Rightarrow>
          if map_of obj ''parentQuads'' = None \<and> map_of obj ''subQuads'' = None then Some None
          else
            (case parse_quads ''partition'' FromHereTile (quads_of obj ''parentQuads'') of
               None \<Rightarrow> None
             | Some parents \<Rightarrow>
                 map_option (CreateBlob root depth parents)
                   (parse_quads ''subQuadKey'' (\<lambda>key. AddedSubHereTile key root) (quads_of obj ''subQuads'')))
      | _ \<Rightarrow> Some None)"

section \<open>Lookup\<close>

text \<open>\<open>std::lower_bound\<close> over the keys of entries \<open>first\<close> to \<open>first + len\<close>.\<close>

fun lower_bound :: "(nat \<Rightarrow> u64) \<Rightarrow> u64 \<Rightarrow> nat \<Rightarrow> nat \<Rightarrow> nat" where
  "lower_bound key v first len =
     (if len = 0 then first
      else (let half = len div 2; middle = first + half in
            if key middle < v then lower_bound key v (middle + 1) (len - half - 1)
            else lower_bound key v first half))"

declare lower_bound.simps [simp del]

text \<open>\<open>FindNearestParent\<close> goes through the entries from the last to the first. Outer \<open>None\<close>: the call of
  \<open>AddedSubkey64\<close> does not return.\<close>

fun nearest_sub :: "u8 list \<Rightarrow> TileKey \<Rightarrow> TileKey \<Rightarrow> nat \<Rightarrow> nat \<Rightarrow> IndexData option option option" where
  "nearest_sub buf root t 0 limit = Some None"
| "nearest_sub buf root t (Suc i) limit =
     (case AddedSubkey64 (sub_quadkey buf i) root of
        None \<Rightarrow> None
      | Some key \<Rightarrow>
          if IsChildOf key t then
            (let (ok, d) = ReadIndexData buf (IndexData_new\<lparr>tile_key := key\<rparr>) (sub_offset buf i) limit kAll in
             Some (Some (if ok then Some d else None)))
          else nearest_sub buf root t i (sub_offset buf i))"

fun nearest_parent :: "u8 list \<Rightarrow> TileKey \<Rightarrow> nat \<Rightarrow> nat \<Rightarrow> IndexData option" where
  "nearest_parent buf t 0 limit = None"
| "nearest_parent buf t (Suc j) limit =
     (let key = FromQuadKey64 (parent_key buf j) in
      if IsChildOf key t then
        (let (ok, d) = ReadIndexData buf (IndexData_new\<lparr>tile_key := key\<rparr>) (parent_offset buf j) limit kAll in
         if ok then Some d else None)
      else nearest_parent buf t j (parent_offset buf j))"

definition size32 :: "u8 list \<Rightarrow> nat" where
  "size32 buf = unat (of_nat (length buf) :: u32)"

definition FindNearestParent :: "u8 list \<Rightarrow> TileKey \<Rightarrow> IndexData option option" where
  "FindNearestParent buf t =
     (let root = FromQuadKey64 (root_tilekey buf);
          parents = nearest_parent buf t (parent_count buf) (size32 buf) in
      if level root \<le> level t then
        (let limit = (if parent_count buf = 0 then size32 buf else parent_offset buf 0) in
         case nearest_sub buf root t (subkey_count buf) limit of
           None \<Rightarrow> None
         | Some (Some r) \<Rightarrow> Some r
         | Some None \<Rightarrow> Some parents)
      else Some parents)"

definition Find :: "u8 list option \<Rightarrow> TileKey \<Rightarrow> bool \<Rightarrow> IndexData option option" where
  "Find index t aggregated_search =
     (case index of
        None \<Rightarrow> Some None
      | Some buf \<Rightarrow>
          (let root = FromQuadKey64 (root_tilekey buf) in
           if level root \<le> level t then
             (let sub = GetSubkey64 (unat (level t - level root)) t AND mask 16;
                  n = subkey_count buf;
                  entry = lower_bound (sub_quadkey buf) sub 0 n in
              if entry = n \<or> sub_quadkey buf entry \<noteq> sub
              then (if aggregated_search then FindNearestParent buf t else Some None)
              else
                (let limit = (if entry + 1 = n then (if parent_count buf = 0 then size32 buf else parent_offset buf 0)
                              else sub_offset buf (entry + 1));
                     (ok, d) = ReadIndexData buf IndexData_new (sub_offset buf entry) limit kAll in
                 Some (if ok then Some (d\<lparr>tile_key := t\<rparr>) else None)))
           else
             (let key = ToQuadKey64 t;
                  n = parent_count buf;
                  entry = lower_bound (parent_key buf) key 0 n in
              if entry = n \<or> parent_key buf entry \<noteq> key
              then (if aggregated_search then FindNearestParent buf t else Some None)
              else
                (let limit = (if entry + 1 = n then length buf else parent_offset buf (entry + 1));
                     (ok, d) = ReadIndexData buf IndexData_new (parent_offset buf entry) limit kAll in
                 Some (if ok then Some (d\<lparr>tile_key := t\<rparr>) else None)))))"

text \<open>\<open>GetIndexData\<close>: the parents and then the sub-quads, each from the last to the first.\<close>

fun parent_data :: "u8 list \<Rightarrow> int \<Rightarrow> nat \<Rightarrow> nat \<Rightarrow> IndexData list" where
  "parent_data buf wanted 0 limit = []"
| "parent_data buf wanted (Suc j) limit =
     (let (ok, d) = ReadIndexData buf (IndexData_new\<lparr>tile_key := FromQuadKey64 (parent_key buf j)\<rparr>) (parent_offset buf j) limit wanted;
          rest = parent_data buf wanted j (parent_offset buf j) in
      if ok then d # rest else rest)"

fun sub_data :: "u8 list \<Rightarrow> int \<Rightarrow> nat \<Rightarrow> nat \<Rightarrow> IndexData list option" where
  "sub_data buf wanted 0 limit = Some []"
| "sub_data buf wanted (Suc i) limit =
     (case AddedSubkey64 (sub_quadkey buf i) (FromQuadKey64 (root_tilekey buf)) of
        None \<Rightarrow> None
      | Some key \<Rightarrow>
          (let (ok, d) = ReadIndexData buf (IndexData_new\<lparr>tile_key := key\<rparr>) (sub_offset buf i) limit wanted in
           map_option (\<lambda>rest. if ok then d # rest else rest) (sub_data buf wanted i (sub_offset buf i))))"

definition GetIndexData :: "u8 list option \<Rightarrow> int \<Rightarrow> IndexData list option" where
  "GetIndexData index wanted =
     (case index of
        None \<Rightarrow> Some []
      | Some buf \<Rightarrow>
          (let limit = (if parent_count buf = 0 then size32 buf else parent_offset buf 0) in
           map_option (\<lambda>subs. parent_data buf wanted (parent_count buf) (size32 buf) @ subs)
             (sub_data buf wanted (subkey_count buf) limit)))"


section \<open>Bytes and numbers\<close>

lemma length_le_bytes [simp]: "length (le_bytes n w) = n"
  by (simp add: le_bytes_def)

lemma length_string_bytes [simp]: "length (string_bytes s) = length s"
  by (simp add: string_bytes_def)

lemma le_bytes_Suc: "le_bytes (Suc n) w = ucast w # le_bytes n (drop_bit 8 w)"
proof -
  have "[0..<Suc n] = 0 # map Suc [0..<n]" by (rule upt_rec [THEN trans]) (simp add: map_Suc_upt)
  then show ?thesis by (simp add: le_bytes_def drop_bit_drop_bit algebra_simps)
qed

lemma le_value_le_bytes: "le_value (le_bytes n w) = take_bit (8 * n) w"
proof (induction n arbitrary: w)
  case 0
  then show ?case by (simp add: le_bytes_def)
next
  case (Suc n)
  have "ucast (ucast w :: u8) OR push_bit 8 (take_bit (8 * n) (drop_bit 8 w)) = take_bit (8 * Suc n) w"
    by (rule bit_word_eqI) (auto simp: bit_simps)
  with Suc show ?case by (simp add: le_bytes_Suc)
qed

lemma bytes_string_bytes [simp]: "bytes_string (string_bytes s) = s"
proof -
  have "char_of (unat (of_nat (of_char c) :: u8)) = c" for c :: char by (simp add: unat_of_nat)
  then show ?thesis by (simp add: bytes_string_def string_bytes_def comp_def)
qed

definition no_nul :: "string \<Rightarrow> bool" where
  "no_nul s \<longleftrightarrow> CHR 0x00 \<notin> set s"

lemma string_bytes_no_nul: "no_nul s \<Longrightarrow> 0 \<notin> set (string_bytes s)"
proof
  assume n: "no_nul s" and "0 \<in> set (string_bytes s)"
  then obtain c where c: "c \<in> set s" "of_nat (of_char c) = (0 :: u8)" by (auto simp: string_bytes_def)
  have "unat (of_nat (of_char c) :: u8) = of_char c"
    by (simp add: unat_of_nat)
  with c(2) have "of_char c = (0 :: nat)" by simp
  then have "c = char_of (0 :: nat)" by (metis char_of_char)
  also have "\<dots> = CHR 0x00" by (simp add: char_of_def)
  finally show False using c(1) n by (simp add: no_nul_def)
qed

section \<open>Writing\<close>

lemma poke_mid: "length A = off \<Longrightarrow> length Z = length bs \<Longrightarrow> poke off bs (A @ Z @ B) = A @ bs @ B"
  by (simp add: poke_def)

lemma poke_fill:
  "length A = off \<Longrightarrow> length bs \<le> k \<Longrightarrow> poke off bs (A @ replicate k 0 @ B) = (A @ bs) @ replicate (k - length bs) 0 @ B"
  by (simp add: poke_def)

lemma write_bytes_fill:
  "length A = off \<Longrightarrow> length bs \<le> k \<Longrightarrow>
    write_bytes bs (A @ replicate k 0 @ B) off = (True, (A @ bs) @ replicate (k - length bs) 0 @ B, off + length bs)"
  by (simp add: write_bytes_def poke_fill)

definition enc :: "IndexData \<Rightarrow> u8 list" where
  "enc d = le_bytes 8 (data_version d) @ le_bytes 8 (data_size d) @ le_bytes 8 (compressed_data_size d)
     @ string_bytes (data_handle d) @ [0] @ string_bytes (checksum d) @ [0]
     @ string_bytes (additional_metadata d) @ [0] @ string_bytes (crc d) @ [0]"

lemma length_enc [simp]: "length (enc d) = index_data_size d"
  by (simp add: enc_def index_data_size_def)

lemma WriteIndexData_fill:
  assumes "length A = off"
  shows "WriteIndexData d (A @ replicate (index_data_size d) 0 @ B) off = (True, A @ enc d @ B, off + index_data_size d)"
proof -
  have "WriteIndexData d (A @ replicate k 0 @ B) off = (True, (A @ enc d) @ replicate (k - index_data_size d) 0 @ B, off + index_data_size d)"
    if k: "index_data_size d \<le> k" for k
    using assms k unfolding WriteIndexData_def Write_word_def Write_string_def
    by (simp add: write_bytes_fill index_data_size_def Let_def enc_def del: append_assoc)
  from this [of "index_data_size d"] show ?thesis by simp
qed

text \<open>Where the data of the entries begin, and the entries.\<close>

fun offsets :: "nat \<Rightarrow> IndexData list \<Rightarrow> nat list" where
  "offsets off [] = []"
| "offsets off (d # ds) = off # offsets (off + index_data_size d) ds"

abbreviation data_total :: "IndexData list \<Rightarrow> nat" where
  "data_total ds \<equiv> sum_list (map index_data_size ds)"

definition sub_bytes :: "TileKey \<Rightarrow> nat \<times> IndexData \<Rightarrow> u8 list" where
  "sub_bytes root = (\<lambda>(off, d). le_bytes 2 (entry_key root (tile_key d)) @ [0, 0] @ le_bytes 4 (of_nat off))"

definition parent_bytes :: "nat \<times> IndexData \<Rightarrow> u8 list" where
  "parent_bytes = (\<lambda>(off, d). le_bytes 8 (ToQuadKey64 (tile_key d)) @ le_bytes 4 (of_nat off) @ [0, 0, 0, 0])"

definition header :: "u64 \<Rightarrow> int \<Rightarrow> nat \<Rightarrow> nat \<Rightarrow> u8 list" where
  "header root depth np ns = le_bytes 8 root @ le_bytes 2 0 @ le_bytes 1 (of_int depth) @ le_bytes 1 (of_nat np) @ le_bytes 2 (of_nat ns) @ [0, 0]"

lemma length_offsets [simp]: "length (offsets off ds) = length ds"
  by (induction ds arbitrary: off) simp_all

lemma length_parts [simp]: "length (sub_bytes root e) = 8" "length (parent_bytes e) = 16" "length (header r d np ns) = 16"
  by (simp_all add: sub_bytes_def parent_bytes_def header_def split_def)

lemma poke_sub:
  assumes "length A = pos"
  shows "poke (pos + 4) (le_bytes 4 o4) (poke pos (le_bytes 2 k) (A @ replicate (8 + n) 0 @ B))
    = (A @ le_bytes 2 k @ [0, 0] @ le_bytes 4 o4) @ replicate n 0 @ B"
proof -
  have "replicate (8 + n) (0 :: u8) = replicate 2 0 @ [0, 0] @ replicate 4 0 @ replicate n 0"
    by (simp add: eval_nat_numeral)
  then have "poke pos (le_bytes 2 k) (A @ replicate (8 + n) 0 @ B)
      = A @ le_bytes 2 k @ [0, 0] @ replicate 4 0 @ replicate n 0 @ B"
    using poke_mid [OF assms, of "replicate 2 0" "le_bytes 2 k" "[0, 0] @ replicate 4 0 @ replicate n 0 @ B"] by simp
  also have "poke (pos + 4) (le_bytes 4 o4) \<dots> = (A @ le_bytes 2 k @ [0, 0] @ le_bytes 4 o4) @ replicate n 0 @ B"
    using poke_mid [of "A @ le_bytes 2 k @ [0, 0]" "pos + 4" "replicate 4 0" "le_bytes 4 o4" "replicate n 0 @ B"] assms by simp
  finally show ?thesis .
qed

lemma poke_parent:
  assumes "length A = pos"
  shows "poke (pos + 8) (le_bytes 4 o4) (poke pos (le_bytes 8 k) (A @ replicate (16 + n) 0 @ B))
    = (A @ le_bytes 8 k @ le_bytes 4 o4 @ [0, 0, 0, 0]) @ replicate n 0 @ B"
proof -
  have "replicate (16 + n) (0 :: u8) = replicate 8 0 @ replicate 4 0 @ [0, 0, 0, 0] @ replicate n 0"
    by (simp add: eval_nat_numeral)
  then have "poke pos (le_bytes 8 k) (A @ replicate (16 + n) 0 @ B)
      = A @ le_bytes 8 k @ replicate 4 0 @ [0, 0, 0, 0] @ replicate n 0 @ B"
    using poke_mid [OF assms, of "replicate 8 0" "le_bytes 8 k" "replicate 4 0 @ [0, 0, 0, 0] @ replicate n 0 @ B"] by simp
  also have "poke (pos + 8) (le_bytes 4 o4) \<dots> = (A @ le_bytes 8 k @ le_bytes 4 o4 @ [0, 0, 0, 0]) @ replicate n 0 @ B"
    using poke_mid [of "A @ le_bytes 8 k" "pos + 8" "replicate 4 0" "le_bytes 4 o4" "[0, 0, 0, 0] @ replicate n 0 @ B"] assms by simp
  finally show ?thesis .
qed

lemma write_subs_fill:
  assumes "length A = pos" and "length (A @ replicate (8 * length ds) 0 @ M) = off"
  shows "write_subs root ds pos (A @ replicate (8 * length ds) 0 @ M @ replicate (data_total ds) 0 @ R) off
    = Some (pos + 8 * length ds, A @ concat (map (sub_bytes root) (zip (offsets off ds) ds)) @ M @ concat (map enc ds) @ R, off + data_total ds)"
  using assms
proof (induction ds arbitrary: A M pos off)
  case (Cons d ds)
  let ?key = "entry_key root (tile_key d)"
  let ?A = "A @ sub_bytes root (off, d)" and ?Z = "replicate (8 * length ds) (0 :: u8)"
  have "poke (pos + 4) (le_bytes 4 (of_nat off)) (poke pos (le_bytes 2 ?key)
      (A @ replicate (8 + 8 * length ds) 0 @ M @ replicate (index_data_size d) 0 @ replicate (data_total ds) 0 @ R))
    = (?A @ ?Z @ M) @ replicate (index_data_size d) 0 @ replicate (data_total ds) 0 @ R"
    using poke_sub [OF Cons.prems(1)] by (simp add: sub_bytes_def)
  moreover have "WriteIndexData d ((?A @ ?Z @ M) @ replicate (index_data_size d) 0 @ replicate (data_total ds) 0 @ R) off
      = (True, (?A @ ?Z @ M) @ enc d @ replicate (data_total ds) 0 @ R, off + index_data_size d)"
    using Cons.prems by (intro WriteIndexData_fill) simp
  moreover have "write_subs root ds (pos + 8) (?A @ ?Z @ (M @ enc d) @ replicate (data_total ds) 0 @ R) (off + index_data_size d)
      = Some (pos + 8 + 8 * length ds, ?A @ concat (map (sub_bytes root) (zip (offsets (off + index_data_size d) ds) ds))
          @ (M @ enc d) @ concat (map enc ds) @ R, off + index_data_size d + data_total ds)"
    using Cons.prems by (intro Cons.IH) simp_all
  ultimately show ?case by (simp add: replicate_add Let_def)
qed simp

lemma write_parents_fill:
  assumes "length A = pos" and "length (A @ replicate (16 * length ds) 0 @ M) = off"
  shows "write_parents ds pos (A @ replicate (16 * length ds) 0 @ M @ replicate (data_total ds) 0 @ R) off
    = Some (A @ concat (map parent_bytes (zip (offsets off ds) ds)) @ M @ concat (map enc ds) @ R)"
  using assms
proof (induction ds arbitrary: A M pos off)
  case (Cons d ds)
  let ?key = "ToQuadKey64 (tile_key d)"
  let ?A = "A @ parent_bytes (off, d)" and ?Z = "replicate (16 * length ds) (0 :: u8)"
  have "poke (pos + 8) (le_bytes 4 (of_nat off)) (poke pos (le_bytes 8 ?key)
      (A @ replicate (16 + 16 * length ds) 0 @ M @ replicate (index_data_size d) 0 @ replicate (data_total ds) 0 @ R))
    = (?A @ ?Z @ M) @ replicate (index_data_size d) 0 @ replicate (data_total ds) 0 @ R"
    using poke_parent [OF Cons.prems(1)] by (simp add: parent_bytes_def)
  moreover have "WriteIndexData d ((?A @ ?Z @ M) @ replicate (index_data_size d) 0 @ replicate (data_total ds) 0 @ R) off
      = (True, (?A @ ?Z @ M) @ enc d @ replicate (data_total ds) 0 @ R, off + index_data_size d)"
    using Cons.prems by (intro WriteIndexData_fill) simp
  moreover have "write_parents ds (pos + 16) (?A @ ?Z @ (M @ enc d) @ replicate (data_total ds) 0 @ R) (off + index_data_size d)
      = Some (?A @ concat (map parent_bytes (zip (offsets (off + index_data_size d) ds) ds)) @ (M @ enc d) @ concat (map enc ds) @ R)"
    using Cons.prems by (intro Cons.IH) simp_all
  ultimately show ?case by (simp add: replicate_add Let_def)
qed simp

lemma header_pokes:
  "poke 11 (le_bytes 1 np) (poke 12 (le_bytes 2 ns) (poke 10 (le_bytes 1 dp) (poke 8 (le_bytes 2 0) (poke 0 (le_bytes 8 r) (replicate (16 + n) 0)))))
   = le_bytes 8 r @ le_bytes 2 0 @ le_bytes 1 dp @ le_bytes 1 np @ le_bytes 2 ns @ [0, 0] @ replicate n 0"
  by (simp add: poke_def le_bytes_def upt_rec eval_nat_numeral)

section \<open>Reading\<close>

lemma peek_mid: "length A = off \<Longrightarrow> n \<le> 8 \<Longrightarrow> peek n off (A @ le_bytes n w @ B) = take_bit (8 * n) w"
  by (simp add: peek_def le_value_le_bytes)

lemma take_bit_of_nat_u64: "n < 2 ^ k \<Longrightarrow> k \<le> 64 \<Longrightarrow> unat (take_bit k (of_nat n :: u64)) = n"
proof -
  assume n: "n < 2 ^ k" and k: "k \<le> 64"
  then have "(2 :: nat) ^ k \<le> 2 ^ 64" by (intro power_increasing) simp_all
  with n have "n < 2 ^ 64" by linarith
  with n show ?thesis by (simp add: take_bit_nat_eq_self unsigned_take_bit_eq unat_of_nat)
qed

definition blob :: "TileKey \<Rightarrow> int \<Rightarrow> IndexData list \<Rightarrow> IndexData list \<Rightarrow> u8 list" where
  "blob root depth ps ss =
     (let off = 16 + 8 * length ss + 16 * length ps in
      header (ToQuadKey64 root) depth (length ps) (length ss)
      @ concat (map (sub_bytes root) (zip (offsets off ss) ss))
      @ concat (map parent_bytes (zip (offsets (off + data_total ss) ps) ps))
      @ concat (map enc ss) @ concat (map enc ps))"

lemma header_reads:
  assumes "np < 2 ^ 8" and "ns < 2 ^ 16"
  shows "root_tilekey (header r depth np ns @ B) = r" and "parent_count (header r depth np ns @ B) = np"
    and "subkey_count (header r depth np ns @ B) = ns"
proof -
  have h: "header r depth np ns = le_bytes 8 r @ le_bytes 2 0 @ le_bytes 1 (of_int depth) @ le_bytes 1 (of_nat np) @ le_bytes 2 (of_nat ns) @ [0, 0]"
    by (simp add: header_def)
  show "root_tilekey (header r depth np ns @ B) = r"
    using peek_mid [of "[]" 0 8 r] unfolding root_tilekey_def h by (simp add: take_bit_word_eq_self)
  have "peek 1 11 (header r depth np ns @ B) = take_bit 8 (of_nat np)"
    using peek_mid [of "le_bytes 8 r @ le_bytes 2 0 @ le_bytes 1 (of_int depth)" 11 1 "of_nat np" "le_bytes 2 (of_nat ns) @ [0, 0] @ B"]
    unfolding h by simp
  then show "parent_count (header r depth np ns @ B) = np" using assms(1) by (simp add: parent_count_def take_bit_of_nat_u64)
  have "peek 2 12 (header r depth np ns @ B) = take_bit 16 (of_nat ns)"
    using peek_mid [of "le_bytes 8 r @ le_bytes 2 0 @ le_bytes 1 (of_int depth) @ le_bytes 1 (of_nat np)" 12 2 "of_nat ns" "[0, 0] @ B"]
    unfolding h by simp
  then show "subkey_count (header r depth np ns @ B) = ns" using assms(2) by (simp add: subkey_count_def take_bit_of_nat_u64)
qed

lemma CreateBlob_blob:
  assumes np: "length parents < 2 ^ 8" and ns: "length subs < 2 ^ 16"
  shows "CreateBlob root depth parents subs
    = Some (blob root depth (sort_key (\<lambda>d. ToQuadKey64 (tile_key d)) parents) (sort_key (\<lambda>d. ToQuadKey64 (tile_key d)) subs))"
proof -
  define ss where "ss = sort_key (\<lambda>d. ToQuadKey64 (tile_key d)) subs"
  define ps where "ps = sort_key (\<lambda>d. ToQuadKey64 (tile_key d)) parents"
  have l: "length ss < 2 ^ 16" "length ps < 2 ^ 8" using np ns by (simp_all add: ss_def ps_def)
  let ?h = "header (ToQuadKey64 root) depth (length ps) (length ss)"
  let ?rest = "replicate (8 * length ss) 0 @ replicate (16 * length ps) 0 @ replicate (data_total ss) 0 @ replicate (data_total ps) 0"
  let ?off = "16 + 8 * length ss + 16 * length ps"
  have size: "16 + length ss * 8 + length ps * 16 + (data_total ss + data_total ps)
      = 16 + (8 * length ss + (16 * length ps + (data_total ss + data_total ps)))" by simp
  have buf: "poke 11 (le_bytes 1 (of_nat (length ps))) (poke 12 (le_bytes 2 (of_nat (length ss))) (poke 10 (le_bytes 1 (of_int depth))
      (poke 8 (le_bytes 2 0) (poke 0 (le_bytes 8 (ToQuadKey64 root))
        (replicate (16 + length ss * 8 + length ps * 16 + (data_total ss + data_total ps)) 0))))) = ?h @ ?rest"
    unfolding size header_pokes by (simp add: header_def replicate_add)
  have start: "DataBegin (?h @ ?rest) = ?off"
    using header_reads [OF l(2,1), of "ToQuadKey64 root" depth ?rest] by (simp add: DataBegin_def ParentEntryBegin_def)
  let ?E = "concat (map (sub_bytes root) (zip (offsets ?off ss) ss))"
  have 1: "write_subs root ss 16 (?h @ ?rest) ?off = Some (16 + 8 * length ss,
      ?h @ ?E @ replicate (16 * length ps) 0 @ concat (map enc ss) @ replicate (data_total ps) 0, ?off + data_total ss)"
    by (rule write_subs_fill) simp_all
  have "length ?E = 8 * length ss" by (simp add: length_concat comp_def sum_list_triv)
  then have 2: "write_parents ps (16 + 8 * length ss) ((?h @ ?E) @ replicate (16 * length ps) 0 @ concat (map enc ss) @ replicate (data_total ps) 0 @ []) (?off + data_total ss)
      = Some ((?h @ ?E) @ concat (map parent_bytes (zip (offsets (?off + data_total ss) ps) ps)) @ concat (map enc ss) @ concat (map enc ps) @ [])"
    by (intro write_parents_fill) (simp_all add: length_concat comp_def)
  have "length subs = length ss" "length parents = length ps" by (simp_all add: ss_def ps_def)
  then show ?thesis
    unfolding CreateBlob_def Let_def ss_def [symmetric] ps_def [symmetric] buf start 1
    using 2 by (simp add: blob_def Let_def)
qed

lemma offsets_nth: "i < length ds \<Longrightarrow> offsets off ds ! i = off + data_total (take i ds)"
  by (induction ds arbitrary: off i) (auto simp: nth_Cons split: nat.split)

lemma data_total_take: "data_total (take i ds) \<le> data_total ds"
  by (metis append_take_drop_id le_add1 map_append sum_list_append)

lemma concat_split:
  assumes "\<And>b. b \<in> set bs \<Longrightarrow> length b = k" and "i < length bs"
  obtains P S where "concat bs = P @ bs ! i @ S" "length P = k * i"
proof
  show "concat bs = concat (take i bs) @ bs ! i @ concat (drop (Suc i) bs)"
    using id_take_nth_drop [OF assms(2)] by (metis append_Cons concat.simps(2) concat_append)
  have "map length (take i bs) = replicate i k"
    using assms by (intro nth_equalityI) (auto simp: nth_mem)
  then show "length (concat (take i bs)) = k * i" by (simp add: length_concat sum_list_replicate)
qed

lemma data_at:
  assumes "i < length ds" and "length A = off"
  shows "drop (off + data_total (take i ds)) (A @ concat (map enc ds) @ B) = enc (ds ! i) @ concat (map enc (drop (Suc i) ds)) @ B"
proof -
  have "concat (map enc ds) = concat (map enc (take i ds)) @ enc (ds ! i) @ concat (map enc (drop (Suc i) ds))"
    using id_take_nth_drop [OF assms(1)] by (metis append_Cons concat.simps(2) concat_append map_append list.map(2))
  moreover have "length (concat (map enc (take i ds))) = data_total (take i ds)" by (simp add: length_concat comp_def)
  ultimately show ?thesis using assms(2) by simp
qed

text \<open>A reader that stands before bytes an index data was written to.\<close>

lemma drop_step: "drop off buf = X @ R \<Longrightarrow> drop (off + length X) buf = R"
  by (metis add.commute append_eq_conv_conj drop_drop)

lemma Read_word_at:
  assumes "drop off buf = le_bytes 8 w @ R"
  shows "Read_word buf off v = (True, off + 8, w)" and "drop (off + 8) buf = R"
proof -
  have "length (drop off buf) \<ge> 8" using assms by simp
  then have "off + 8 \<le> length buf" by simp
  moreover have "peek 8 off buf = w" using assms by (simp add: peek_def le_value_le_bytes take_bit_word_eq_self)
  ultimately show "Read_word buf off v = (True, off + 8, w)" by (simp add: Read_word_def)
  show "drop (off + 8) buf = R" using drop_step [OF assms] by simp
qed

lemma takeWhile_string: "no_nul s \<Longrightarrow> takeWhile (\<lambda>b. b \<noteq> 0) (string_bytes s @ 0 # R) = string_bytes s"
  using string_bytes_no_nul [of s] by (metis (mono_tags, lifting) takeWhile_tail takeWhile_eq_all_conv takeWhile_append2)

lemma Read_string_at:
  assumes "drop off buf = string_bytes s @ [0] @ R" and "no_nul s"
  shows "Read_string buf off v = (True, off + length s + 1, s)" and "drop (off + length s + 1) buf = R"
  using assms drop_step [of off buf "string_bytes s @ [0]" R]
  by (simp_all add: Read_string_def Let_def takeWhile_string)

lemma read_all:
  "read_field kAll kDataHandle = Read_string" "read_field kAll kChecksum = Read_string"
  "read_field kAll kAdditionalMetadata = Read_string" "read_field kAll kCrc = Read_string"
  by (auto simp: fun_eq_iff read_field_def kAll_def kDataHandle_def kAdditionalMetadata_def kCrc_def kChecksum_def)

definition plain :: "IndexData \<Rightarrow> bool" where
  "plain d \<longleftrightarrow> no_nul (data_handle d) \<and> no_nul (checksum d) \<and> no_nul (additional_metadata d) \<and> no_nul (crc d)"

lemma ReadIndexData_at:
  assumes at: "drop off buf = enc d @ R" and p: "plain d" and limit: "limit = off + index_data_size d"
  shows "ReadIndexData buf d0 off limit kAll = (True, d\<lparr>tile_key := tile_key d0\<rparr>)"
proof -
  note 1 = Read_word_at [OF at [unfolded enc_def append_assoc]]
  note 2 = Read_word_at [OF 1(2)]
  note 3 = Read_word_at [OF 2(2)]
  note 4 = Read_string_at [OF 3(2)]
  have n: "no_nul (data_handle d)" "no_nul (checksum d)" "no_nul (additional_metadata d)" "no_nul (crc d)"
    using p by (simp_all add: plain_def)
  note 5 = Read_string_at [OF 4(2) [OF n(1)]]
  note 6 = Read_string_at [OF 5(2) [OF n(2)]]
  note 7 = Read_string_at [OF 6(2) [OF n(3)]]
  have "off + 8 + 8 + 8 + length (data_handle d) + 1 + length (checksum d) + 1 + length (additional_metadata d) + 1 < limit"
    by (simp add: limit index_data_size_def)
  then have "ReadIndexData buf d0 off limit kAll = (True, d0\<lparr>data_version := data_version d, data_size := data_size d,
      compressed_data_size := compressed_data_size d, data_handle := data_handle d, checksum := checksum d,
      additional_metadata := additional_metadata d, crc := crc d\<rparr>)"
    by (simp only: ReadIndexData_def Let_def prod.case read_all 1(1) 2(1) 3(1) 4(1) [OF n(1)] 5(1) [OF n(2)] 6(1) [OF n(3)]
        7(1) [OF n(4)] if_True simp_thms)
  then show ?thesis by (cases d, cases d0) simp
qed

text \<open>The entries of a block.\<close>

lemma peek_at: "drop off buf = le_bytes n w @ R \<Longrightarrow> n \<le> 8 \<Longrightarrow> peek n off buf = take_bit (8 * n) w"
  by (simp add: peek_def le_value_le_bytes)

lemma drop_block:
  assumes "length H = h" and "\<And>b. b \<in> set bs \<Longrightarrow> length b = k" and "i < length bs"
  shows "\<exists>S. drop (h + k * i) (H @ concat bs @ B) = bs ! i @ S"
proof -
  obtain P S where "concat bs = P @ bs ! i @ S" "length P = k * i" by (rule concat_split [OF assms(2,3)])
  with assms(1) show ?thesis by simp
qed

lemma offset_word: "n < 2 ^ 32 \<Longrightarrow> unat (take_bit (8 * 4) (of_nat n :: u64)) = n"
  using take_bit_of_nat_u64 [of n 32] by simp

definition blob_ok :: "TileKey \<Rightarrow> IndexData list \<Rightarrow> IndexData list \<Rightarrow> bool" where
  "blob_ok root ps ss \<longleftrightarrow> length ps < 2 ^ 8 \<and> length ss < 2 ^ 16
     \<and> 16 + 8 * length ss + 16 * length ps + data_total ss + data_total ps < 2 ^ 32 \<and> (\<forall>d \<in> set ps \<union> set ss. plain d)"

definition sub_start :: "IndexData list \<Rightarrow> IndexData list \<Rightarrow> nat \<Rightarrow> nat" where
  "sub_start ps ss i = 16 + 8 * length ss + 16 * length ps + data_total (take i ss)"

definition parent_start :: "IndexData list \<Rightarrow> IndexData list \<Rightarrow> nat \<Rightarrow> nat" where
  "parent_start ps ss j = 16 + 8 * length ss + 16 * length ps + data_total ss + data_total (take j ps)"

lemma size32_length: "length buf < 2 ^ 32 \<Longrightarrow> size32 buf = length buf"
  by (simp add: size32_def unat_of_nat)

lemma blob_header:
  assumes "blob_ok root ps ss"
  shows "root_tilekey (blob root depth ps ss) = ToQuadKey64 root" and "parent_count (blob root depth ps ss) = length ps"
    and "subkey_count (blob root depth ps ss) = length ss"
    and "length (blob root depth ps ss) = 16 + 8 * length ss + 16 * length ps + data_total ss + data_total ps"
    and "size32 (blob root depth ps ss) = length (blob root depth ps ss)"
proof -
  show l: "length (blob root depth ps ss) = 16 + 8 * length ss + 16 * length ps + data_total ss + data_total ps"
    by (simp add: blob_def Let_def length_concat comp_def sum_list_triv)
  then have "length (blob root depth ps ss) < 2 ^ 32" using assms by (simp only: blob_ok_def)
  then show "size32 (blob root depth ps ss) = length (blob root depth ps ss)" by (rule size32_length)
qed (use assms in \<open>simp_all add: blob_def blob_ok_def Let_def header_reads\<close>)

lemma blob_sub:
  assumes ok: "blob_ok root ps ss" and i: "i < length ss"
  shows "sub_quadkey (blob root depth ps ss) i = take_bit 16 (entry_key root (tile_key (ss ! i)))"
    and "sub_offset (blob root depth ps ss) i = sub_start ps ss i"
proof -
  let ?off = "16 + 8 * length ss + 16 * length ps"
  let ?bs = "map (sub_bytes root) (zip (offsets ?off ss) ss)"
  have "\<exists>S. drop (16 + 8 * i) (blob root depth ps ss) = ?bs ! i @ S"
    unfolding blob_def Let_def by (rule drop_block) (use i in auto)
  then obtain S where "drop (16 + 8 * i) (blob root depth ps ss) = sub_bytes root (offsets ?off ss ! i, ss ! i) @ S" using i by auto
  then have at: "drop (16 + 8 * i) (blob root depth ps ss)
      = le_bytes 2 (entry_key root (tile_key (ss ! i))) @ [0, 0] @ le_bytes 4 (of_nat (offsets ?off ss ! i)) @ S"
    by (simp add: sub_bytes_def)
  from peek_at [OF this] show "sub_quadkey (blob root depth ps ss) i = take_bit 16 (entry_key root (tile_key (ss ! i)))"
    by (simp add: sub_quadkey_def)
  have "drop (16 + 8 * i + 4) (blob root depth ps ss) = le_bytes 4 (of_nat (offsets ?off ss ! i)) @ S"
    using drop_step [of "16 + 8 * i" _ "le_bytes 2 (entry_key root (tile_key (ss ! i))) @ [0, 0]"] at by simp
  from peek_at [OF this] have "sub_offset (blob root depth ps ss) i = unat (take_bit (8 * 4) (of_nat (offsets ?off ss ! i) :: u64))"
    by (simp add: sub_offset_def)
  moreover have "offsets ?off ss ! i = sub_start ps ss i" using i by (simp add: offsets_nth sub_start_def)
  moreover have "sub_start ps ss i < 2 ^ 32" using ok data_total_take [of i ss] by (simp add: blob_ok_def sub_start_def)
  ultimately show "sub_offset (blob root depth ps ss) i = sub_start ps ss i" by (simp only: offset_word)
qed

lemma blob_parent:
  assumes ok: "blob_ok root ps ss" and j: "j < length ps"
  shows "parent_key (blob root depth ps ss) j = ToQuadKey64 (tile_key (ps ! j))"
    and "parent_offset (blob root depth ps ss) j = parent_start ps ss j"
proof -
  let ?off = "16 + 8 * length ss + 16 * length ps"
  let ?bs = "map parent_bytes (zip (offsets (?off + data_total ss) ps) ps)"
  let ?H = "header (ToQuadKey64 root) depth (length ps) (length ss) @ concat (map (sub_bytes root) (zip (offsets ?off ss) ss))"
  have "\<exists>S. drop (16 + 8 * length ss + 16 * j) (?H @ concat ?bs @ concat (map enc ss) @ concat (map enc ps)) = ?bs ! j @ S"
    by (rule drop_block) (use j in \<open>auto simp: length_concat comp_def sum_list_triv\<close>)
  then obtain S where "drop (16 + 8 * length ss + 16 * j) (blob root depth ps ss)
      = parent_bytes (offsets (?off + data_total ss) ps ! j, ps ! j) @ S" using j by (auto simp: blob_def Let_def)
  then have at: "drop (16 + 8 * length ss + 16 * j) (blob root depth ps ss)
      = le_bytes 8 (ToQuadKey64 (tile_key (ps ! j))) @ le_bytes 4 (of_nat (offsets (?off + data_total ss) ps ! j)) @ [0, 0, 0, 0] @ S"
    by (simp add: parent_bytes_def)
  have pb: "ParentEntryBegin (blob root depth ps ss) = 16 + 8 * length ss" using blob_header [OF ok] by (simp add: ParentEntryBegin_def)
  from peek_at [OF at] show "parent_key (blob root depth ps ss) j = ToQuadKey64 (tile_key (ps ! j))"
    by (simp add: parent_key_def pb take_bit_word_eq_self)
  have "drop (16 + 8 * length ss + 16 * j + 8) (blob root depth ps ss) = le_bytes 4 (of_nat (offsets (?off + data_total ss) ps ! j)) @ [0, 0, 0, 0] @ S"
    using drop_step [OF at] by simp
  from peek_at [OF this]
  have "parent_offset (blob root depth ps ss) j = unat (take_bit (8 * 4) (of_nat (offsets (?off + data_total ss) ps ! j) :: u64))"
    by (simp add: parent_offset_def pb)
  moreover have "offsets (?off + data_total ss) ps ! j = parent_start ps ss j" using j by (simp add: offsets_nth parent_start_def)
  moreover have "parent_start ps ss j < 2 ^ 32" using ok data_total_take [of j ps] by (simp add: blob_ok_def parent_start_def)
  ultimately show "parent_offset (blob root depth ps ss) j = parent_start ps ss j" by (simp only: offset_word)
qed

lemma blob_data:
  shows "i < length ss \<Longrightarrow> \<exists>R. drop (sub_start ps ss i) (blob root depth ps ss) = enc (ss ! i) @ R"
    and "j < length ps \<Longrightarrow> \<exists>R. drop (parent_start ps ss j) (blob root depth ps ss) = enc (ps ! j) @ R"
proof -
  let ?off = "16 + 8 * length ss + 16 * length ps"
  let ?A = "header (ToQuadKey64 root) depth (length ps) (length ss) @ concat (map (sub_bytes root) (zip (offsets ?off ss) ss))
    @ concat (map parent_bytes (zip (offsets (?off + data_total ss) ps) ps))"
  have A: "length ?A = ?off" by (simp add: length_concat comp_def sum_list_triv)
  have b: "blob root depth ps ss = ?A @ concat (map enc ss) @ concat (map enc ps)" by (simp add: blob_def Let_def)
  show "\<exists>R. drop (sub_start ps ss i) (blob root depth ps ss) = enc (ss ! i) @ R" if "i < length ss"
    using data_at [OF that A, of "concat (map enc ps)"] unfolding b sub_start_def by blast
  show "\<exists>R. drop (parent_start ps ss j) (blob root depth ps ss) = enc (ps ! j) @ R" if "j < length ps"
    using data_at [OF that, of "?A @ concat (map enc ss)" "?off + data_total ss" "[]"] A
    unfolding b parent_start_def by (auto simp: length_concat comp_def)
qed

lemma start_next:
  "i < length ss \<Longrightarrow> sub_start ps ss (Suc i) = sub_start ps ss i + index_data_size (ss ! i)"
  "j < length ps \<Longrightarrow> parent_start ps ss (Suc j) = parent_start ps ss j + index_data_size (ps ! j)"
  "sub_start ps ss (length ss) = parent_start ps ss 0"
  by (simp_all add: sub_start_def parent_start_def take_Suc_conv_app_nth)

section \<open>Searching\<close>

definition ascending :: "(nat \<Rightarrow> u64) \<Rightarrow> nat \<Rightarrow> bool" where
  "ascending key n \<longleftrightarrow> (\<forall>i j. i < j \<longrightarrow> j < n \<longrightarrow> key i < key j)"

lemma lower_bound_spec:
  "ascending key n \<Longrightarrow> first + len \<le> n \<Longrightarrow>
    first \<le> lower_bound key v first len \<and> lower_bound key v first len \<le> first + len
    \<and> (\<forall>i. first \<le> i \<longrightarrow> i < lower_bound key v first len \<longrightarrow> key i < v)
    \<and> (\<forall>i. lower_bound key v first len \<le> i \<longrightarrow> i < first + len \<longrightarrow> v \<le> key i)"
proof (induction key v first len rule: lower_bound.induct)
  case (1 key v first len)
  show ?case
  proof (cases "len = 0")
    case True
    then show ?thesis by (simp add: lower_bound.simps)
  next
    case False
    define half where "half = len div 2"
    define middle where "middle = first + half"
    have h: "half < len" "middle < n" using False 1(4) by (auto simp: half_def middle_def)
    show ?thesis
    proof (cases "key middle < v")
      case True
      have lb: "lower_bound key v first len = lower_bound key v (middle + 1) (len - half - 1)"
        using False True by (subst lower_bound.simps) (simp add: Let_def half_def middle_def)
      let ?r = "lower_bound key v (middle + 1) (len - half - 1)"
      have low: "key i < v" if "i \<le> middle" for i
        using that True 1(3) h(2) unfolding ascending_def by (metis le_neq_implies_less order.strict_trans)
      have e: "middle + 1 + (len - half - 1) = first + len" using h(1) by (simp add: middle_def)
      note ih = 1(1) [OF False half_def middle_def True 1(3), unfolded e, OF 1(4)]
      have "key i < v" if "i < ?r" for i
        using low ih that by (cases "i \<le> middle") auto
      with ih show ?thesis unfolding lb by (auto simp: middle_def)
    next
      case F: False
      have lb: "lower_bound key v first len = lower_bound key v first half"
        using False F by (subst lower_bound.simps) (simp add: Let_def half_def middle_def)
      let ?r = "lower_bound key v first half"
      have high: "v \<le> key i" if "middle \<le> i" "i < first + len" for i
      proof (cases "i = middle")
        case False
        with that have "key middle < key i" using 1(3,4) by (simp add: ascending_def)
        with F show ?thesis by simp
      qed (use F in simp)
      have "first + half \<le> n" using h(1) 1(4) by simp
      note ih = 1(2) [OF False half_def middle_def F 1(3) this]
      have "v \<le> key i" if "?r \<le> i" "i < first + len" for i
        using high ih that by (cases "middle \<le> i") (auto simp: middle_def)
      with ih h(1) show ?thesis unfolding lb by auto
    qed
  qed
qed

lemma lower_bound_found: "ascending key n \<Longrightarrow> i < n \<Longrightarrow> lower_bound key (key i) 0 n = i"
  using lower_bound_spec [of key n 0 n "key i"] unfolding ascending_def
  by (metis add_0 le_0_eq less_irrefl linorder_not_le nat_le_linear order_less_le)

lemma lower_bound_missing:
  assumes "ascending key n" and "\<And>i. i < n \<Longrightarrow> key i \<noteq> v"
  shows "lower_bound key v 0 n = n \<or> key (lower_bound key v 0 n) \<noteq> v"
  using lower_bound_spec [OF assms(1), of 0 n v] assms(2) by (metis add_0 le_neq_implies_less order_refl)

section \<open>Keys below a root\<close>

definition below :: "TileKey \<Rightarrow> TileKey \<Rightarrow> bool" where
  "below root t \<longleftrightarrow> IsValid t \<and> (t = root \<or> IsChildOf root t) \<and> unat (level t) \<le> unat (level root) + 7"

lemma below_quad:
  assumes "IsValid root" and "below root t"
  shows "IsValid t" and "level root \<le> level t" and "unat (level t - level root) \<le> 7"
    and "drop_bit (2 * unat (level t - level root)) (ToQuadKey64 t) = ToQuadKey64 root"
proof -
  show "IsValid t" using assms(2) by (simp add: below_def)
  show le: "level root \<le> level t"
    using assms IsChildOf_quad [of t root] by (auto simp: below_def word_le_nat_alt)
  then have d: "unat (level t - level root) = unat (level t) - unat (level root)" by (simp add: unat_sub)
  with assms(2) show "unat (level t - level root) \<le> 7" by (auto simp: below_def)
  show "drop_bit (2 * unat (level t - level root)) (ToQuadKey64 t) = ToQuadKey64 root"
    using assms IsChildOf_quad [of t root] unfolding d by (auto simp: below_def)
qed

lemma unat_GetSubkey:
  assumes "d < 32"
  shows "unat (GetSubkey d q) = 4 ^ d + unat q mod 4 ^ d"
proof -
  have "GetSubkey d q = push_bit (2 * d) 1 OR take_bit (2 * d) q"
    by (rule bit_word_eqI) (use assms in \<open>auto simp: bit_GetSubkey bit_simps\<close>)
  also have "\<dots> = push_bit (2 * d) 1 + take_bit (2 * d) q"
    by (rule disjunctive_add [symmetric]) (auto simp: bit_simps)
  finally have s: "GetSubkey d q = push_bit (2 * d) 1 + take_bit (2 * d) q" .
  have t: "unat (take_bit (2 * d) q) = unat q mod 4 ^ d"
  proof -
    have "(2 :: nat) ^ (2 * d) = 4 ^ d" by (simp add: power_mult)
    then show ?thesis unfolding unsigned_take_bit_eq by (simp only: take_bit_eq_mod)
  qed
  have "(4 :: nat) ^ d \<le> 4 ^ 31" using assms by (intro power_increasing) simp_all
  moreover have "unat q mod 4 ^ d < 4 ^ d" by simp
  moreover have "unat (push_bit (2 * d) 1 :: u64) + unat (take_bit (2 * d) q) = 4 ^ d + unat q mod 4 ^ d"
    by (simp only: unat_marker [OF assms] t)
  ultimately have "unat (push_bit (2 * d) 1 :: u64) + unat (take_bit (2 * d) q) < 2 * 4 ^ 31" by linarith
  then have "unat (push_bit (2 * d) 1 :: u64) + unat (take_bit (2 * d) q) < 2 ^ 64" by simp
  then show ?thesis unfolding s using unat_marker [OF assms] t by (simp add: unat_add_lem [THEN iffD1])
qed

lemma sub_parts:
  assumes "drop_bit (2 * d) q = r"
  shows "unat q = unat r * 4 ^ d + unat q mod 4 ^ d"
proof -
  have "(2 :: nat) ^ (2 * d) = 4 ^ d" by (simp add: power_mult)
  then have "unat r = unat q div 4 ^ d" unfolding assms [symmetric] unat_drop_bit_eq by (simp only: drop_bit_eq_div)
  then show ?thesis by (simp only: div_mult_mod_eq)
qed

lemma entry_key_small:
  assumes "IsValid root" and "below root t"
  shows "unat (entry_key root t) < 2 ^ 16" and "take_bit 16 (entry_key root t) = entry_key root t"
proof -
  let ?d = "unat (level t - level root)"
  have d: "?d \<le> 7" by (rule below_quad(3) [OF assms])
  then have "(4 :: nat) ^ ?d \<le> 4 ^ 7" by (intro power_increasing) simp_all
  moreover have "unat (ToQuadKey64 t) mod 4 ^ ?d < 4 ^ ?d" by simp
  moreover have "unat (entry_key root t) = 4 ^ ?d + unat (ToQuadKey64 t) mod 4 ^ ?d"
    using d by (simp add: entry_key_def unat_GetSubkey)
  ultimately have "unat (entry_key root t) < 2 * 4 ^ 7" by linarith
  then show s: "unat (entry_key root t) < 2 ^ 16" by simp
  then show "take_bit 16 (entry_key root t) = entry_key root t"
    by (metis take_bit_nat_eq_self unsigned_take_bit_eq word_unat_eq_iff)
qed

text \<open>The sub-keys are ordered like the keys.\<close>

lemma sub_less:
  fixes r :: nat
  assumes "0 < r" and "x < 4 ^ d" and "x' < 4 ^ d'" and "r * 4 ^ d + x < r * 4 ^ d' + x'"
  shows "4 ^ d + x < 4 ^ d' + (x' :: nat)"
proof (cases d d' rule: linorder_cases)
  case less
  then have "4 * 4 ^ d \<le> (4 :: nat) ^ d'" using power_increasing [of "Suc d" d' "4 :: nat"] by simp
  with assms(2) show ?thesis by simp
next
  case equal
  with assms(4) show ?thesis by simp
next
  case greater
  then have "4 * 4 ^ d' \<le> (4 :: nat) ^ d" using power_increasing [of "Suc d'" d "4 :: nat"] by simp
  then have "r * (4 * 4 ^ d') \<le> r * 4 ^ d" by (rule mult_le_mono2)
  then have "4 * (r * 4 ^ d') \<le> r * 4 ^ d" by (simp only: mult.left_commute)
  moreover have "x' < r * 4 ^ d'" using assms(1,3) by (metis le_eq_less_or_eq less_le_trans mult_le_mono1 nat_mult_1 Suc_leI One_nat_def)
  ultimately have False using assms(4) by linarith
  then show ?thesis ..
qed

lemma entry_key_less:
  assumes "IsValid root" and "below root t" and "below root t'" and "ToQuadKey64 t < ToQuadKey64 t'"
  shows "entry_key root t < entry_key root t'"
proof -
  note b = below_quad [OF assms(1,2)] and b' = below_quad [OF assms(1,3)]
  let ?d = "unat (level t - level root)" and ?d' = "unat (level t' - level root)"
  have "(0 :: nat) < 4 ^ unat (level root)" by simp
  then have r: "0 < unat (ToQuadKey64 root)"
    using quad_level_bounds(1) [OF level_ToQuadKey64 [OF assms(1)]] by (rule less_le_trans)
  have d: "?d < 32" "?d' < 32" using b(3) b'(3) by simp_all
  have "unat (ToQuadKey64 t) < unat (ToQuadKey64 t')" using assms(4) by (simp add: word_less_nat_alt)
  then have "4 ^ ?d + unat (ToQuadKey64 t) mod 4 ^ ?d < 4 ^ ?d' + unat (ToQuadKey64 t') mod 4 ^ ?d'"
    using sub_parts [OF b(4)] sub_parts [OF b'(4)] by (intro sub_less [OF r]) simp_all
  then show ?thesis using d by (simp add: entry_key_def word_less_nat_alt unat_GetSubkey)
qed

lemma quad_inject: "IsValid t \<Longrightarrow> IsValid t' \<Longrightarrow> ToQuadKey64 t = ToQuadKey64 t' \<Longrightarrow> t = t'"
  using FromQuadKey64_ToQuadKey64 by metis

lemma entry_key_inject:
  assumes "IsValid root" and "below root t" and "below root t'" and "entry_key root t = entry_key root t'"
  shows "t = t'"
proof (rule quad_inject)
  show "ToQuadKey64 t = ToQuadKey64 t'"
    using entry_key_less [OF assms(1,2,3)] entry_key_less [OF assms(1,3,2)] assms(4) by (metis less_irrefl linorder_less_linear)
qed (use assms in \<open>simp_all add: below_def\<close>)

section \<open>Lookup in a block\<close>

abbreviation tile_entries :: "IndexData list \<Rightarrow> (TileKey \<times> IndexData) list" where
  "tile_entries ds \<equiv> map (\<lambda>d. (tile_key d, d)) ds"

text \<open>The keys of the entries ascend.\<close>

definition sorted_tiles :: "IndexData list \<Rightarrow> bool" where
  "sorted_tiles ds \<longleftrightarrow> ascending (\<lambda>i. ToQuadKey64 (tile_key (ds ! i))) (length ds)"

lemma sorted_tiles_map_of:
  assumes "sorted_tiles ds" and "i < length ds"
  shows "map_of (tile_entries ds) (tile_key (ds ! i)) = Some (ds ! i)"
proof -
  have "tile_key (ds ! i) \<noteq> tile_key (ds ! j)" if "i \<noteq> j" "i < length ds" "j < length ds" for i j
    using that assms(1) unfolding sorted_tiles_def ascending_def by (metis less_irrefl linorder_neqE_nat)
  then have "distinct (map tile_key ds)" by (simp add: distinct_conv_nth)
  then show ?thesis using assms(2) by (intro map_of_is_SomeI) (auto simp: comp_def)
qed

lemma tile_entries_None: "(\<And>i. i < length ds \<Longrightarrow> tile_key (ds ! i) \<noteq> t) \<Longrightarrow> map_of (tile_entries ds) t = None"
  by (fastforce simp: map_of_eq_None_iff in_set_conv_nth)

lemma find_sub:
  assumes ok: "blob_ok root ps ss" and root: "IsValid root" and ss: "\<forall>d \<in> set ss. below root (tile_key d)"
    and sorted: "sorted_tiles ss" and t: "below root t"
  shows "Find (Some (blob root depth ps ss)) t False = Some (map_of (tile_entries ss) t)"
proof -
  let ?b = "blob root depth ps ss" and ?n = "length ss"
  note h = blob_header [OF ok, of depth]
  have r: "FromQuadKey64 (root_tilekey ?b) = root" by (simp add: h(1) FromQuadKey64_ToQuadKey64 [OF root])
  have sub: "GetSubkey64 (unat (level t - level root)) t AND mask 16 = entry_key root t"
    using entry_key_small(2) [OF root t] by (simp add: GetSubkey64_def entry_key_def flip: take_bit_eq_mask)
  have key: "sub_quadkey ?b i = entry_key root (tile_key (ss ! i))" if "i < ?n" for i
    using blob_sub(1) [OF ok that] entry_key_small(2) [OF root] ss that by simp
  have asc: "ascending (sub_quadkey ?b) ?n"
    using sorted ss entry_key_less [OF root] unfolding ascending_def sorted_tiles_def by (simp add: key)
  have lev: "level root \<le> level t" by (rule below_quad(2) [OF root t])
  show ?thesis
  proof (cases "\<exists>i < ?n. tile_key (ss ! i) = t")
    case True
    then obtain i where i: "i < ?n" "tile_key (ss ! i) = t" by blast
    have e: "lower_bound (sub_quadkey ?b) (entry_key root t) 0 ?n = i"
      using lower_bound_found [OF asc i(1)] key [OF i(1)] i(2) by simp
    have limit: "(if i + 1 = ?n then (if parent_count ?b = 0 then size32 ?b else parent_offset ?b 0) else sub_offset ?b (i + 1))
        = sub_start ps ss i + index_data_size (ss ! i)"
    proof (cases "i + 1 = ?n")
      case last: True
      have "length ?b = parent_start ps ss 0" if "ps = []" using h(4) that by (simp add: parent_start_def)
      with last h start_next(1) [OF i(1), of ps] start_next(3) [of ps ss] blob_parent(2) [OF ok, of 0 depth] show ?thesis by auto
    next
      case False
      with i(1) have "Suc i < ?n" by simp
      with blob_sub(2) [OF ok, of "Suc i" depth] start_next(1) [OF i(1), of ps] False show ?thesis by simp
    qed
    obtain R where "drop (sub_start ps ss i) ?b = enc (ss ! i) @ R" using blob_data(1) [OF i(1)] by blast
    from ReadIndexData_at [OF this _ refl] have "ReadIndexData ?b IndexData_new (sub_start ps ss i) (sub_start ps ss i + index_data_size (ss ! i)) kAll
        = (True, (ss ! i)\<lparr>tile_key := tile_key IndexData_new\<rparr>)" using ok i(1) by (simp add: blob_ok_def)
    moreover have "(ss ! i)\<lparr>tile_key := t\<rparr> = ss ! i" using i(2) by (cases "ss ! i") simp
    moreover have "map_of (tile_entries ss) t = Some (ss ! i)" using sorted_tiles_map_of [OF sorted i(1)] i(2) by simp
    ultimately show ?thesis
      unfolding Find_def option.case Let_def r h(3) sub if_P [OF lev] e limit blob_sub(2) [OF ok i(1)] key [OF i(1)]
      using i by simp
  next
    case False
    then have "sub_quadkey ?b i \<noteq> entry_key root t" if "i < ?n" for i
      using entry_key_inject [OF root _ t] ss that by (auto simp: key)
    from lower_bound_missing [OF asc this] have "lower_bound (sub_quadkey ?b) (entry_key root t) 0 ?n = ?n
        \<or> sub_quadkey ?b (lower_bound (sub_quadkey ?b) (entry_key root t) 0 ?n) \<noteq> entry_key root t" .
    moreover have "map_of (tile_entries ss) t = None" using False by (intro tile_entries_None) auto
    ultimately show ?thesis unfolding Find_def option.case Let_def r h(3) sub if_P [OF lev] by simp
  qed
qed

lemma find_parent:
  assumes ok: "blob_ok root ps ss" and root: "IsValid root" and ps: "\<forall>d \<in> set ps. IsValid (tile_key d)"
    and sorted: "sorted_tiles ps" and t: "IsValid t" "level t < level root"
  shows "Find (Some (blob root depth ps ss)) t False = Some (map_of (tile_entries ps) t)"
proof -
  let ?b = "blob root depth ps ss" and ?n = "length ps"
  note h = blob_header [OF ok, of depth]
  have r: "FromQuadKey64 (root_tilekey ?b) = root" by (simp add: h(1) FromQuadKey64_ToQuadKey64 [OF root])
  have key: "parent_key ?b j = ToQuadKey64 (tile_key (ps ! j))" if "j < ?n" for j
    by (rule blob_parent(1) [OF ok that])
  have asc: "ascending (parent_key ?b) ?n"
    using sorted unfolding ascending_def sorted_tiles_def by (simp add: key)
  have lev: "\<not> level root \<le> level t" using t(2) by simp
  show ?thesis
  proof (cases "\<exists>j < ?n. tile_key (ps ! j) = t")
    case True
    then obtain j where j: "j < ?n" "tile_key (ps ! j) = t" by blast
    have e: "lower_bound (parent_key ?b) (ToQuadKey64 t) 0 ?n = j"
      using lower_bound_found [OF asc j(1)] key [OF j(1)] j(2) by simp
    have limit: "(if j + 1 = ?n then length ?b else parent_offset ?b (j + 1)) = parent_start ps ss j + index_data_size (ps ! j)"
    proof (cases "j + 1 = ?n")
      case last: True
      have "length ?b = parent_start ps ss ?n" by (simp add: h(4) parent_start_def)
      with last start_next(2) [OF j(1), of ss] show ?thesis by simp
    next
      case False
      with j(1) have "Suc j < ?n" by simp
      with blob_parent(2) [OF ok, of "Suc j" depth] start_next(2) [OF j(1), of ss] False show ?thesis by simp
    qed
    obtain R where "drop (parent_start ps ss j) ?b = enc (ps ! j) @ R" using blob_data(2) [OF j(1)] by blast
    from ReadIndexData_at [OF this _ refl] have "ReadIndexData ?b IndexData_new (parent_start ps ss j) (parent_start ps ss j + index_data_size (ps ! j)) kAll
        = (True, (ps ! j)\<lparr>tile_key := tile_key IndexData_new\<rparr>)" using ok j(1) by (simp add: blob_ok_def)
    moreover have "(ps ! j)\<lparr>tile_key := t\<rparr> = ps ! j" using j(2) by (cases "ps ! j") simp
    moreover have "map_of (tile_entries ps) t = Some (ps ! j)" using sorted_tiles_map_of [OF sorted j(1)] j(2) by simp
    ultimately show ?thesis
      unfolding Find_def option.case Let_def r h(2) if_not_P [OF lev] e limit blob_parent(2) [OF ok j(1)] key [OF j(1)]
      using j by simp
  next
    case False
    then have "parent_key ?b j \<noteq> ToQuadKey64 t" if "j < ?n" for j
      using quad_inject [OF _ t(1)] ps that by (auto simp: key)
    from lower_bound_missing [OF asc this] have "lower_bound (parent_key ?b) (ToQuadKey64 t) 0 ?n = ?n
        \<or> parent_key ?b (lower_bound (parent_key ?b) (ToQuadKey64 t) 0 ?n) \<noteq> ToQuadKey64 t" .
    moreover have "map_of (tile_entries ps) t = None" using False by (intro tile_entries_None) auto
    ultimately show ?thesis unfolding Find_def option.case Let_def r h(2) if_not_P [OF lev] by simp
  qed
qed

section \<open>Properties\<close>

text \<open>Entries that an index can hold: valid tiles, parents above the root and sub-quads at most seven
  levels below it (so that their sub-keys fit 16 bits), no tile twice, texts without a zero
  character, counts that fit the header and offsets that fit 32 bits.\<close>

definition indexable :: "TileKey \<Rightarrow> IndexData list \<Rightarrow> IndexData list \<Rightarrow> bool" where
  "indexable root parents subs \<longleftrightarrow> IsValid root \<and> blob_ok root parents subs
     \<and> (\<forall>d \<in> set subs. below root (tile_key d))
     \<and> (\<forall>d \<in> set parents. IsValid (tile_key d) \<and> level (tile_key d) < level root)
     \<and> distinct (map tile_key subs) \<and> distinct (map tile_key parents)"

lemma sort_tiles:
  assumes "\<forall>d \<in> set ds. IsValid (tile_key d)" and "distinct (map tile_key ds)"
  shows "sorted_tiles (sort_key (\<lambda>d. ToQuadKey64 (tile_key d)) ds)"
proof -
  let ?q = "\<lambda>d. ToQuadKey64 (tile_key d)"
  have "inj_on ?q (set ds)"
    using assms quad_inject unfolding inj_on_def distinct_map by blast
  then have "distinct (map ?q ds)" using assms(2) by (simp add: distinct_map)
  then have "distinct (map ?q (sort_key ?q ds))" by (simp add: distinct_map)
  moreover have "sorted (map ?q (sort_key ?q ds))" by simp
  ultimately have "sorted_wrt (<) (map ?q (sort_key ?q ds))" by (simp add: strict_sorted_iff)
  then show ?thesis by (auto simp: sorted_tiles_def ascending_def sorted_wrt_iff_nth_less)
qed

lemma data_total_sort: "data_total (sort_key f ds) = data_total ds"
  by (metis mset_map mset_sort sum_mset_sum_list)

lemma blob_ok_sort: "blob_ok root (sort_key f ps) (sort_key g ss) \<longleftrightarrow> blob_ok root ps ss"
  by (simp add: blob_ok_def data_total_sort)

lemma map_of_sort:
  assumes "distinct (map tile_key ds)"
  shows "map_of (tile_entries (sort_key f ds)) = map_of (tile_entries ds)"
  using assms by (subst map_of_inject_set) (simp_all add: comp_def distinct_map)

text \<open>C13. The block of bytes that an index is kept in implements a map: for every tile at most seven
  levels below the root or above it, a plain lookup in the created block finds exactly the data
  given for that tile, with all its fields, and nothing when there were none.\<close>

theorem quad_tree_find:
  assumes "indexable root parents subs" and "below root t \<or> IsValid t \<and> level t < level root"
  shows "\<exists>block. CreateBlob root depth parents subs = Some block
    \<and> Find (Some block) t False = Some (map_of (tile_entries (subs @ parents)) t)"
proof -
  let ?q = "\<lambda>d. ToQuadKey64 (tile_key d)"
  let ?ps = "sort_key ?q parents" and ?ss = "sort_key ?q subs"
  note a = assms(1) [unfolded indexable_def]
  have c: "CreateBlob root depth parents subs = Some (blob root depth ?ps ?ss)"
    using a by (intro CreateBlob_blob) (auto simp: blob_ok_def)
  have ok: "blob_ok root ?ps ?ss" using a by (simp add: blob_ok_sort)
  have ss: "sorted_tiles ?ss" "\<forall>d \<in> set ?ss. below root (tile_key d)"
    using a by (auto simp: below_def intro!: sort_tiles)
  have ps: "sorted_tiles ?ps" "\<forall>d \<in> set ?ps. IsValid (tile_key d)" using a by (auto intro!: sort_tiles)
  have lev: "level root \<le> level t" if "below root t" for t using below_quad(2) a that by blast
  have "map_of (tile_entries parents) t = None" if "below root t"
    using a lev [OF that] by (intro tile_entries_None) (auto simp: not_le [symmetric] dest: nth_mem)
  moreover have "map_of (tile_entries subs) t = None" if "level t < level root"
    using a that lev by (intro tile_entries_None) (metis linorder_not_le nth_mem)
  moreover have m: "map_of (tile_entries ?ss) = map_of (tile_entries subs)" "map_of (tile_entries ?ps) = map_of (tile_entries parents)"
    using a by (simp_all add: map_of_sort)
  ultimately have "Find (Some (blob root depth ?ps ?ss)) t False = Some (map_of (tile_entries (subs @ parents)) t)"
    using assms(2) find_sub [OF ok _ ss(2,1), of t depth] find_parent [OF ok _ ps(2,1), of t depth] a
    by (auto simp: map_add_def split: option.split)
  with c show ?thesis by blast
qed

definition demo_root :: TileKey where
  "demo_root = FromRowColumnLevel 1 2 3"

definition demo_sub :: IndexData where
  "demo_sub = IndexData_new\<lparr>tile_key := FromRowColumnLevel 3 5 4, data_handle := ''h1'', data_version := 7\<rparr>"

definition demo_parent :: IndexData where
  "demo_parent = IndexData_new\<lparr>tile_key := FromRowColumnLevel 0 0 1, data_handle := ''h2'', checksum := ''c''\<rparr>"

lemma demo_indexable: "indexable demo_root [demo_parent] [demo_sub]"
proof -
  have "below demo_root (tile_key demo_sub)" by code_simp
  moreover have "IsValid demo_root \<and> IsValid (tile_key demo_parent) \<and> level (tile_key demo_parent) < level demo_root" by code_simp
  moreover have "blob_ok demo_root [demo_parent] [demo_sub]"
    by (simp add: blob_ok_def plain_def no_nul_def index_data_size_def demo_parent_def demo_sub_def IndexData_new_def)
  ultimately show ?thesis by (simp add: indexable_def)
qed

theorem quad_tree_find_witness:
  "\<exists>block. CreateBlob demo_root 4 [demo_parent] [demo_sub] = Some block
    \<and> Find (Some block) (tile_key demo_sub) False = Some (Some demo_sub)"
proof -
  have "below demo_root (tile_key demo_sub)" by code_simp
  with quad_tree_find [OF demo_indexable, of "tile_key demo_sub" 4] show ?thesis by simp
qed

text \<open>A sub-quad eight levels below the root has a sub-key of 17 bits: the stored key keeps the low 16,
  and the list of all data gives it for another tile.\<close>

definition deep_sub :: IndexData where
  "deep_sub = IndexData_new\<lparr>tile_key := FromRowColumnLevel 0 1 8, data_handle := ''h''\<rparr>"

lemma deep_sub_key_truncated:
  "GetIndexData (CreateBlob (FromRowColumnLevel 0 0 0) 8 [] [deep_sub]) kAll
     = Some [deep_sub\<lparr>tile_key := FromRowColumnLevel 0 0 0\<rparr>]"
  by code_simp

end
