(* ===== verification/TileSlices.thy ===== *)
theory TileSlices
  imports TileKey
begin

text \<open>
  How a prefetch request is cut into quad tree requests of at most five levels, and how the tiles that
  come back are filtered (\<open>PrefetchTilesRepository::GetSlicedTiles\<close>, \<open>SplitSubtree\<close>, \<open>FilterTilesByLevel\<close>,
  \<open>FilterTilesByList\<close> and their variants for keys, in
  olp-cpp-sdk-dataservice-read/src/repositories/PrefetchTilesRepository.cpp).

  \<open>None\<close> is the value of a run with undefined behaviour: \<open>ChildrenAtLevel\<close> shifts a 32-bit integer.
\<close>

section \<open>Tile keys as keys of maps\<close>

text \<open>The order of \<open>std::map<geo::TileKey, ...>\<close> is \<open>operator<\<close>: level, row, column.\<close>

instantiation TileKey_ext :: (linorder) linorder
begin

definition less_TileKey_ext :: "'a TileKey_scheme \<Rightarrow> 'a TileKey_scheme \<Rightarrow> bool" where
  "less_TileKey_ext a b \<longleftrightarrow> (level a, row a, column a) \<noteq> (level b, row b, column b)
       \<and> (if level a \<noteq> level b then level a < level b
          else if row a \<noteq> row b then row a < row b
          else column a < column b)
     \<or> (level a, row a, column a) = (level b, row b, column b) \<and> TileKey.more a < TileKey.more b"

definition less_eq_TileKey_ext :: "'a TileKey_scheme \<Rightarrow> 'a TileKey_scheme \<Rightarrow> bool" where
  "less_eq_TileKey_ext a b \<longleftrightarrow> a = b \<or> a < b"

instance
proof
  fix a b c :: "'a TileKey_scheme"
  show "a \<le> a" by (simp add: less_eq_TileKey_ext_def)
  show "a < b \<longleftrightarrow> a \<le> b \<and> \<not> b \<le> a"
    by (auto simp: less_eq_TileKey_ext_def less_TileKey_ext_def)
  show "a \<le> b \<Longrightarrow> b \<le> c \<Longrightarrow> a \<le> c"
    by (auto simp: less_eq_TileKey_ext_def less_TileKey_ext_def split: if_splits)
  show "a \<le> b \<Longrightarrow> b \<le> a \<Longrightarrow> a = b"
    by (auto simp: less_eq_TileKey_ext_def less_TileKey_ext_def split: if_splits)
  show "a \<le> b \<or> b \<le> a"
    by (cases a; cases b) (auto simp: less_eq_TileKey_ext_def less_TileKey_ext_def)
qed

end

lemma less_TileKey: "a < b \<longleftrightarrow> TileKey_less a b" for a b :: TileKey
  by (auto simp: less_TileKey_ext_def TileKey_less_def)

section \<open>Slices\<close>

type_synonym RootTilesForRequest = "(TileKey, u32) omap"

definition kMaxQuadTreeIndexDepth :: u32 where
  "kMaxQuadTreeIndexDepth = 4"

text \<open>\<open>1u << (level << 1u)\<close>: a shift by 32 or more is undefined.\<close>

definition ChildrenAtLevel :: "u32 \<Rightarrow> u32 option" where
  "ChildrenAtLevel lev =
     (let s = push_bit 1 lev in if s < 32 then Some (push_bit (unat s) 1) else None)"

text \<open>The children whose quad keys are \<open>keys\<close>; the map leaves an entry that exists alone.\<close>

fun insert_children :: "TileKey \<Rightarrow> u32 \<Rightarrow> u64 list \<Rightarrow> RootTilesForRequest \<Rightarrow> RootTilesForRequest" where
  "insert_children tile_key min_level [] root_tiles = root_tiles"
| "insert_children tile_key min_level (key # keys) root_tiles =
     (let child = FromQuadKey64 key in
      if (\<not> IsParentOf child tile_key \<and> \<not> IsParentOf tile_key child \<and> child \<noteq> tile_key)
         \<or> level child + kMaxQuadTreeIndexDepth < min_level
      then insert_children tile_key min_level keys root_tiles
      else insert_children tile_key min_level keys (om_emplace child kMaxQuadTreeIndexDepth root_tiles))"

text \<open>The loop \<open>for (key = begin; key < end; ++key)\<close>.\<close>

definition keys_from :: "u64 \<Rightarrow> u64 \<Rightarrow> u64 list" where
  "keys_from begin_key end_key = map of_nat [unat begin_key..<unat end_key]"

text \<open>The loop of \<open>SplitSubtree\<close>: the map and the depth that is left.\<close>

function split_loop ::
  "TileKey \<Rightarrow> TileKey \<Rightarrow> u32 \<Rightarrow> u32 \<Rightarrow> RootTilesForRequest \<Rightarrow> (RootTilesForRequest \<times> u32) option" where
  "split_loop root tile_key min_level depth root_tiles =
     (if kMaxQuadTreeIndexDepth < depth then do {
        let lev = depth - kMaxQuadTreeIndexDepth;
        childCount \<leftarrow> ChildrenAtLevel lev;
        let firstChild = ChangedLevelTo (level root + lev) root;
        let beginTileKey = ToQuadKey64 firstChild;
        let endTileKey = beginTileKey + ucast childCount;
        split_loop root tile_key min_level (depth - (kMaxQuadTreeIndexDepth + 1))
          (insert_children tile_key min_level (keys_from beginTileKey endTileKey) root_tiles) }
      else Some (root_tiles, depth))"
  by pat_completeness auto
termination
proof (relation "measure (\<lambda>(_, _, _, depth, _). unat depth)")
  fix root tile_key :: TileKey and min_level depth lev childCount :: u32 and root_tiles :: RootTilesForRequest
  assume "kMaxQuadTreeIndexDepth < depth"
  then have "unat (depth - (kMaxQuadTreeIndexDepth + 1)) < unat depth"
    by (simp add: kMaxQuadTreeIndexDepth_def word_less_nat_alt unat_sub_if')
  then show "((root, tile_key, min_level, depth - (kMaxQuadTreeIndexDepth + 1), x), root, tile_key, min_level, depth, root_tiles)
      \<in> measure (\<lambda>(_, _, _, depth, _). unat depth)" for x by simp
qed simp

declare split_loop.simps [simp del]

definition SplitSubtree :: "TileKey \<Rightarrow> u32 \<Rightarrow> TileKey \<Rightarrow> u32 \<Rightarrow> RootTilesForRequest \<Rightarrow> RootTilesForRequest option" where
  "SplitSubtree root depth tile_key min_level root_tiles =
     (if depth \<le> kMaxQuadTreeIndexDepth then Some root_tiles
      else do {
        (root_tiles, depth) \<leftarrow> split_loop root tile_key min_level depth root_tiles;
        if level root + depth < min_level then Some (om_delete root root_tiles)
        else Some (om_update root depth root_tiles) })"

text \<open>The levels of one tile: the first level of its quad trees and the last level.\<close>

definition slice_levels :: "u32 \<Rightarrow> u32 \<Rightarrow> TileKey \<Rightarrow> u32 \<times> u32" where
  "slice_levels min_level max_level tile_key =
     (let min_level = (if level tile_key < min_level then level tile_key else min_level);
          max_level = (if max_level = LevelCount then min_level else max max_level min_level);
          extra_levels = (max_level + 1 - min_level) mod (kMaxQuadTreeIndexDepth + 1);
          levels_up = kMaxQuadTreeIndexDepth + 1 - extra_levels;
          min_level = (if extra_levels \<noteq> 0 then if levels_up < min_level then min_level - levels_up else 0
                       else min_level) in
      (min_level, max_level))"

definition slice_tile :: "u32 \<Rightarrow> u32 \<Rightarrow> TileKey \<Rightarrow> RootTilesForRequest \<Rightarrow> RootTilesForRequest option" where
  "slice_tile min_level max_level tile_key root_tiles =
     (let (first_level, last_level) = slice_levels min_level max_level tile_key;
          root_tile = ChangedLevelTo first_level tile_key;
          depth = (case map_of root_tiles root_tile of
                     None \<Rightarrow> last_level - first_level
                   | Some d \<Rightarrow> max d (last_level - first_level));
          root_tiles = om_update root_tile depth root_tiles in
      if kMaxQuadTreeIndexDepth < depth then SplitSubtree root_tile depth tile_key min_level root_tiles
      else Some root_tiles)"

fun slice_tiles :: "TileKey list \<Rightarrow> u32 \<Rightarrow> u32 \<Rightarrow> RootTilesForRequest \<Rightarrow> RootTilesForRequest option" where
  "slice_tiles [] min_level max_level root_tiles = Some root_tiles"
| "slice_tiles (tile_key # tile_keys) min_level max_level root_tiles = do {
     root_tiles \<leftarrow> slice_tile min_level max_level tile_key root_tiles;
     slice_tiles tile_keys min_level max_level root_tiles }"

definition GetSlicedTiles :: "TileKey list \<Rightarrow> u32 \<Rightarrow> u32 \<Rightarrow> RootTilesForRequest option" where
  "GetSlicedTiles tile_keys min_level max_level = slice_tiles tile_keys min_level max_level []"

section \<open>Filters\<close>

type_synonym SubQuadsResult = "(TileKey, string) omap"

record PrefetchTilesRequest =
  request_tile_keys :: "TileKey list"
  request_min_level :: u32
  request_max_level :: u32
  data_aggregation_enabled :: bool

definition skip_tile :: "PrefetchTilesRequest \<Rightarrow> TileKey \<Rightarrow> bool" where
  "skip_tile request t =
     (if level t < request_min_level request \<or> request_max_level request < level t then True
      else \<not> (\<exists>root_key \<in> set (request_tile_keys request). root_key = t \<or> IsParentOf t root_key \<or> IsParentOf root_key t))"

definition FilterTilesByLevel :: "PrefetchTilesRequest \<Rightarrow> SubQuadsResult \<Rightarrow> SubQuadsResult" where
  "FilterTilesByLevel request tiles = filter (\<lambda>tile. \<not> skip_tile request (fst tile)) tiles"

definition FilterTileKeysByLevel :: "PrefetchTilesRequest \<Rightarrow> SubQuadsResult \<Rightarrow> TileKey list" where
  "FilterTileKeysByLevel request tiles = map fst (filter (\<lambda>tile. \<not> skip_tile request (fst tile)) tiles)"

text \<open>\<open>auto& new_tile = result[tile]\<close> creates an empty handle; a handle that is found is moved and its entry erased.\<close>

fun move_listed :: "TileKey list \<Rightarrow> SubQuadsResult \<Rightarrow> SubQuadsResult \<Rightarrow> SubQuadsResult" where
  "move_listed [] tiles result = result"
| "move_listed (tile # keys) tiles result =
     (let result = om_emplace tile [] result in
      case map_of tiles tile of
        Some handle \<Rightarrow> move_listed keys (om_delete tile tiles) (om_update tile handle result)
      | None \<Rightarrow> move_listed keys tiles result)"

text \<open>The loop \<open>while (aggregated_tile.IsValid() && !append_tile(aggregated_tile))\<close>: the tile it ends with.\<close>

function find_aggregated :: "(TileKey \<Rightarrow> bool) \<Rightarrow> TileKey \<Rightarrow> TileKey" where
  "find_aggregated available t = (if IsValid t \<and> \<not> available t then find_aggregated available (Parent t) else t)"
  by pat_completeness auto
termination
proof (relation "measure (\<lambda>(_, t). if IsValid t then Suc (unat (level t)) else 0)")
  fix available :: "TileKey \<Rightarrow> bool" and t :: TileKey
  assume "IsValid t \<and> \<not> available t"
  moreover have "unat (level (Parent t)) < unat (level t)" if "0 < level t"
    using that by (simp add: Parent_def FromRowColumnLevel_def word_less_nat_alt unat_sub_if')
  moreover have "\<not> IsValid (Parent t)" if "\<not> 0 < level t"
    using that by (simp add: Parent_def TileKey_invalid_def IsValid_def LevelCount_def)
  ultimately show "((available, Parent t), available, t) \<in> measure (\<lambda>(_, t). if IsValid t then Suc (unat (level t)) else 0)"
    by auto
qed simp

declare find_aggregated.simps [simp del]

text \<open>\<open>append_tile\<close> moves the handle of a tile that is available into the result; a tile that is in the result already also
  ends the search.\<close>

fun move_aggregated :: "TileKey list \<Rightarrow> SubQuadsResult \<Rightarrow> SubQuadsResult \<Rightarrow> SubQuadsResult" where
  "move_aggregated [] tiles result = result"
| "move_aggregated (tile # keys) tiles result =
     (let t = find_aggregated (\<lambda>key. map_of tiles key \<noteq> None \<or> map_of result key \<noteq> None) tile in
      if IsValid t then
        (case map_of tiles t of
           Some handle \<Rightarrow> move_aggregated keys tiles (om_emplace t handle result)
         | None \<Rightarrow> move_aggregated keys tiles result)
      else move_aggregated keys tiles (om_update tile [] result))"

definition FilterTilesByList :: "PrefetchTilesRequest \<Rightarrow> SubQuadsResult \<Rightarrow> SubQuadsResult" where
  "FilterTilesByList request tiles =
     (if \<not> data_aggregation_enabled request then move_listed (request_tile_keys request) tiles []
      else move_aggregated (request_tile_keys request) tiles [])"

fun aggregated_keys :: "TileKey list \<Rightarrow> SubQuadsResult \<Rightarrow> TileKey list \<Rightarrow> TileKey list" where
  "aggregated_keys [] tiles result = result"
| "aggregated_keys (tile # keys) tiles result =
     (let t = find_aggregated (\<lambda>key. map_of tiles key \<noteq> None \<or> key \<in> set result) tile in
      if IsValid t then
        (if map_of tiles t \<noteq> None then aggregated_keys keys tiles (result @ [t]) else aggregated_keys keys tiles result)
      else aggregated_keys keys tiles (result @ [tile]))"

definition FilterTileKeysByList :: "PrefetchTilesRequest \<Rightarrow> SubQuadsResult \<Rightarrow> TileKey list" where
  "FilterTileKeysByList request tiles =
     (if \<not> data_aggregation_enabled request then request_tile_keys request
      else aggregated_keys (request_tile_keys request) tiles [])"

section \<open>Ancestors\<close>

text \<open>\<open>R\<close> is \<open>X\<close> or one of its ancestors, and two tiles of which one covers the other.\<close>

definition covers :: "TileKey \<Rightarrow> TileKey \<Rightarrow> bool" where
  "covers R X \<longleftrightarrow> X = R \<or> IsChildOf R X"

definition related :: "TileKey \<Rightarrow> TileKey \<Rightarrow> bool" where
  "related T R \<longleftrightarrow> covers T R \<or> covers R T"

abbreviation lev :: "TileKey \<Rightarrow> nat" where
  "lev t \<equiv> unat (level t)"

lemma lev_valid: "IsValid t \<Longrightarrow> lev t < 32"
  by (simp add: IsValid_bits)

lemma valid_eqI: "IsValid a \<Longrightarrow> IsValid b \<Longrightarrow> ToQuadKey64 a = ToQuadKey64 b \<Longrightarrow> a = b"
  using FromQuadKey64_ToQuadKey64 by metis

lemma covers_quad:
  assumes "IsValid R" and "IsValid X"
  shows "covers R X \<longleftrightarrow> lev R \<le> lev X \<and> drop_bit (2 * (lev X - lev R)) (ToQuadKey64 X) = ToQuadKey64 R"
proof (cases "lev R = lev X")
  case True
  then show ?thesis using IsChildOf_quad [OF assms(2,1)] valid_eqI [OF assms] by (auto simp: covers_def)
next
  case False
  then have "X \<noteq> R" by auto
  then show ?thesis using IsChildOf_quad [OF assms(2,1)] False by (auto simp: covers_def)
qed

lemma covers_level: "IsValid R \<Longrightarrow> IsValid X \<Longrightarrow> covers R X \<Longrightarrow> lev R \<le> lev X"
  by (simp add: covers_quad)

lemma covers_between:
  assumes "IsValid A" and "IsValid B" and "IsValid X" and "covers B X" and "lev A \<le> lev B"
  shows "covers A B \<longleftrightarrow> covers A X"
proof -
  from assms(4) have B: "lev B \<le> lev X" "ToQuadKey64 B = drop_bit (2 * (lev X - lev B)) (ToQuadKey64 X)"
    using covers_quad [OF assms(2,3)] by auto
  have "2 * (lev B - lev A) + 2 * (lev X - lev B) = 2 * (lev X - lev A)" using assms(5) B(1) by simp
  then have "drop_bit (2 * (lev B - lev A)) (ToQuadKey64 B) = drop_bit (2 * (lev X - lev A)) (ToQuadKey64 X)"
    by (simp only: B(2) drop_bit_drop_bit)
  then show ?thesis using assms(5) B(1) covers_quad [OF assms(1,2)] covers_quad [OF assms(1,3)] by auto
qed

lemma covers_same_level: "IsValid A \<Longrightarrow> IsValid B \<Longrightarrow> IsValid X \<Longrightarrow> covers A X \<Longrightarrow> covers B X \<Longrightarrow> lev A = lev B \<Longrightarrow> A = B"
  by (rule valid_eqI) (simp_all add: covers_quad)

lemma ancestor:
  assumes "IsValid X" and "unat n \<le> lev X"
  shows "IsValid (ChangedLevelTo n X)" and "lev (ChangedLevelTo n X) = unat n" and "covers (ChangedLevelTo n X) X"
proof -
  let ?d = "lev X - unat n"
  have c: "ChangedLevelTo n X = ChangedLevelBy (- int ?d) X"
    using assms lev_valid by (intro ChangedLevelTo_down) auto
  have d: "?d \<le> lev X" by simp
  show v: "IsValid (ChangedLevelTo n X)" unfolding c by (rule quad_down(1) [OF assms(1) d])
  have "lev (ChangedLevelTo n X) = lev X - ?d"
    unfolding c using lev_valid [OF assms(1)] d by (simp add: ChangedLevelBy_down unat_down)
  then show l: "lev (ChangedLevelTo n X) = unat n" using assms(2) by simp
  have "ToQuadKey64 (ChangedLevelTo n X) = drop_bit (2 * ?d) (ToQuadKey64 X)"
    unfolding c by (rule quad_down(2) [OF assms(1) d])
  then show "covers (ChangedLevelTo n X) X" using assms(2) by (simp add: covers_quad [OF v assms(1)] l)
qed

lemma unrelated_code: "\<not> IsParentOf R T \<and> \<not> IsParentOf T R \<and> R \<noteq> T \<longleftrightarrow> \<not> related T R"
  by (auto simp: related_def covers_def IsParentOf_def)

section \<open>The children of one level\<close>

lemma insert_children_map:
  "map_of (insert_children T min_level keys m) R =
    (case map_of m R of Some d \<Rightarrow> Some d
     | None \<Rightarrow> if R \<in> FromQuadKey64 ` set keys \<and> related T R \<and> \<not> level R + kMaxQuadTreeIndexDepth < min_level
               then Some kMaxQuadTreeIndexDepth else None)"
proof (induction keys arbitrary: m)
  case (Cons key keys)
  then show ?case
    unfolding insert_children.simps Let_def unrelated_code
    by (auto simp: om_emplace_def split: option.splits)
qed (auto split: option.splits)

lemma insert_children_ok: "om_ok m \<Longrightarrow> om_ok (insert_children T min_level keys m)"
  by (induction keys arbitrary: m) (simp_all add: Let_def om_ok_emplace)

lemma ChildrenAtLevel_small:
  assumes "unat k < 16"
  shows "ChildrenAtLevel k = Some (push_bit (2 * unat k) 1)" and "unat (push_bit (2 * unat k) 1 :: u32) = 4 ^ unat k"
proof -
  have "unat (push_bit 1 k) = 2 * unat k" using assms by (simp add: unat_word_ariths push_bit_eq_mult)
  with assms show "ChildrenAtLevel k = Some (push_bit (2 * unat k) 1)"
    by (simp add: ChildrenAtLevel_def Let_def word_less_nat_alt)
  have "(2 :: nat) ^ (2 * unat k) < 2 ^ 32" using assms by (intro power_strict_increasing) simp_all
  then have "(4 :: nat) ^ unat k < 2 ^ 32" by (simp add: power_mult)
  moreover have "push_bit (2 * unat k) 1 = (of_nat (4 ^ unat k) :: u32)" by (simp add: push_bit_eq_mult power_mult)
  ultimately show "unat (push_bit (2 * unat k) 1 :: u32) = 4 ^ unat k" by (simp only: unat_of_nat) simp
qed

lemma unat_ucast_u32: "unat (ucast (w :: u32) :: u64) = unat w"
  using unsigned_less [of w, where ?'a = nat] by (simp add: unsigned_ucast_eq take_bit_nat_eq_self)

text \<open>Sixteen levels down the shift is undefined.\<close>

lemma ChildrenAtLevel_undefined: "16 \<le> unat k \<Longrightarrow> unat k < 2 ^ 31 \<Longrightarrow> ChildrenAtLevel k = None"
  by (simp add: ChildrenAtLevel_def Let_def word_less_nat_alt unat_word_ariths push_bit_eq_mult)

lemma first_child:
  assumes "IsValid root" and "lev root + unat k < 32"
  shows "ToQuadKey64 (ChangedLevelTo (level root + k) root) = push_bit (2 * unat k) (ToQuadKey64 root)"
proof -
  have "level root + k - level root = k" by simp
  moreover have "sint k = int (unat k)" using assms(2) sint_small [of "unat k"] by simp
  ultimately have "ChangedLevelTo (level root + k) root = ChangedLevelBy (int (unat k)) root"
    by (simp add: ChangedLevelTo_def)
  then show ?thesis using quad_up(2) [OF assms] by simp
qed

lemma unat_quad_up:
  assumes "quad_level q l" and "l + k < 32"
  shows "unat (push_bit (2 * k) q) = unat q * 4 ^ k" and "unat q * 4 ^ k + 4 ^ k \<le> 2 ^ 63"
proof -
  have "unat q div 4 ^ l = unat (drop_bit (2 * l) q)" by (simp add: unat_drop_bit_eq drop_bit_eq_div [of _ "unat q"] power_mult)
  also have "\<dots> = 1" using assms(1) by (simp add: quad_level_def)
  finally have b: "unat q < 2 * 4 ^ l" using dividend_less_div_times [of "4 ^ l" "unat q"] by simp
  then have "(unat q + 1) * 4 ^ k \<le> 2 * 4 ^ l * 4 ^ k" by (intro mult_right_mono) simp_all
  also have "\<dots> = 2 * 4 ^ (l + k)" by (simp add: power_add)
  also have "\<dots> \<le> 2 * 4 ^ 31" using assms(2) by (intro mult_left_mono power_increasing) simp_all
  also have "\<dots> = 2 ^ 63" by simp
  finally show le: "unat q * 4 ^ k + 4 ^ k \<le> 2 ^ 63" by simp
  have "push_bit (2 * k) q = of_nat (unat q * 4 ^ k)" by (simp add: push_bit_eq_mult power_mult)
  moreover have "unat q * 4 ^ k < 2 ^ 64" using le by simp
  ultimately show "unat (push_bit (2 * k) q) = unat q * 4 ^ k" by (simp only: unat_of_nat) simp
qed

lemma quad_levelI:
  assumes "drop_bit (2 * k) q = q0" and "quad_level q0 l" and "l + k < 32"
  shows "quad_level q (l + k)"
proof -
  have "drop_bit (2 * (l + k)) q = drop_bit (2 * l) (drop_bit (2 * k) q)" by (simp add: drop_bit_drop_bit distrib_left add.commute)
  then show ?thesis using assms by (simp add: quad_level_def)
qed

lemma div_range:
  assumes "0 < (c :: nat)"
  shows "q * c \<le> m \<and> m < q * c + c \<longleftrightarrow> m div c = q"
proof
  assume "q * c \<le> m \<and> m < q * c + c"
  then show "m div c = q" by (intro div_nat_eqI) (simp_all add: mult.commute)
next
  assume "m div c = q"
  then have "m = q * c + m mod c" using div_mult_mod_eq [of m c] by simp
  then show "q * c \<le> m \<and> m < q * c + c" using mod_less_divisor [OF assms, of m] by linarith
qed

text \<open>The keys from the first child on, as many as there are children, are the keys of the tiles of that level
  below the root.\<close>

lemma children_keys:
  assumes "IsValid root" and "lev root + k < 32" and "unat n = 4 ^ k"
    and "first = push_bit (2 * k) (ToQuadKey64 root)"
  shows "R \<in> FromQuadKey64 ` set (keys_from first (first + n)) \<longleftrightarrow> IsValid R \<and> lev R = lev root + k \<and> covers root R"
proof -
  let ?q = "ToQuadKey64 root" and ?l = "lev root"
  have ql: "quad_level ?q ?l" using level_ToQuadKey64 [OF assms(1)] .
  note u = unat_quad_up [OF ql assms(2)]
  have "unat (first + n) = unat ?q * 4 ^ k + 4 ^ k"
    using u assms(3,4) by (simp add: unat_word_ariths)
  moreover have "key \<in> set (keys_from first (first + n)) \<longleftrightarrow> unat first \<le> unat key \<and> unat key < unat (first + n)" for key
    by (force simp: keys_from_def image_iff unat_of_nat dest: order.strict_trans2 [OF _ less_imp_le [OF unsigned_less]]
        intro!: bexI [of _ "unat key"])
  moreover have "unat ?q * 4 ^ k \<le> m \<and> m < unat ?q * 4 ^ k + 4 ^ k \<longleftrightarrow> m div 4 ^ k = unat ?q" for m :: nat
    by (rule div_range) simp
  moreover have "unat (drop_bit (2 * k) key) = unat key div 4 ^ k" for key :: u64
    by (simp add: unat_drop_bit_eq drop_bit_eq_div [of _ "unat key"] power_mult)
  ultimately have keys: "key \<in> set (keys_from first (first + n)) \<longleftrightarrow> drop_bit (2 * k) key = ?q" for key
    unfolding assms(4) by (simp add: word_unat_eq_iff u(1))
  show ?thesis
  proof
    assume "R \<in> FromQuadKey64 ` set (keys_from first (first + n))"
    then obtain key where key: "R = FromQuadKey64 key" "drop_bit (2 * k) key = ?q" using keys by auto
    note q = quad_levelI [OF key(2) ql assms(2)]
    show "IsValid R \<and> lev R = ?l + k \<and> covers root R"
      using FromQuadKey64_valid [OF q] ToQuadKey64_FromQuadKey64 [OF q] key assms(1) by (simp add: covers_quad)
  next
    assume R: "IsValid R \<and> lev R = ?l + k \<and> covers root R"
    then have "drop_bit (2 * k) (ToQuadKey64 R) = ?q" using covers_quad [OF assms(1), of R] by simp
    then show "R \<in> FromQuadKey64 ` set (keys_from first (first + n))"
      using keys R FromQuadKey64_ToQuadKey64 by (metis image_eqI)
  qed
qed

section \<open>The slices of a tile\<close>

lemma kMax [simp]: "unat kMaxQuadTreeIndexDepth = 4" "unat (kMaxQuadTreeIndexDepth + 1) = 5"
  by (simp_all add: kMaxQuadTreeIndexDepth_def)

text \<open>The children that the loop adds for a tree of \<open>D + 1\<close> levels from level \<open>l\<close> on.\<close>

definition split_child :: "TileKey \<Rightarrow> TileKey \<Rightarrow> nat \<Rightarrow> nat \<Rightarrow> TileKey \<Rightarrow> bool" where
  "split_child root T mn D R \<longleftrightarrow> IsValid R \<and> covers root R \<and> related T R \<and> lev root < lev R \<and> lev R + 4 \<le> lev root + D
     \<and> (lev root + D - lev R) mod 5 = 4 \<and> mn \<le> lev R + 4"

lemma mod_5_step:
  assumes "4 < (D :: nat)"
  shows "l < n \<and> n + 4 \<le> l + D \<and> (l + D - n) mod 5 = 4 \<longleftrightarrow>
    l < n \<and> n + 4 \<le> l + (D - 5) \<and> (l + (D - 5) - n) mod 5 = 4 \<or> n = l + (D - 4)"
proof (cases "n + 9 \<le> l + D")
  case True
  then have "l + D - n = (l + (D - 5) - n) + 5" using assms by simp
  then have "(l + D - n) mod 5 = (l + (D - 5) - n) mod 5" by (simp only: mod_add_self2)
  moreover have "n + 4 \<le> l + D" "n + 4 \<le> l + (D - 5)" "n \<noteq> l + (D - 4)" using True assms by simp_all
  ultimately show ?thesis by simp
next
  case False
  have "(l + D - n) mod 5 = 4 \<longleftrightarrow> l + D - n = 4" if "n + 4 \<le> l + D"
    using False that by (intro iffI) (simp_all add: mod_if split: if_splits)
  then show ?thesis using False assms by auto
qed

lemma split_child_step:
  assumes "4 < D"
  shows "split_child root T mn D R \<longleftrightarrow>
    split_child root T mn (D - 5) R \<or> IsValid R \<and> covers root R \<and> related T R \<and> lev R = lev root + (D - 4) \<and> mn \<le> lev R + 4"
  using mod_5_step [OF assms, of "lev root" "lev R"] unfolding split_child_def by blast

lemma small_level: "IsValid R \<Longrightarrow> \<not> level R + kMaxQuadTreeIndexDepth < mn \<longleftrightarrow> unat mn \<le> lev R + 4"
  using lev_valid [of R] by (simp add: kMaxQuadTreeIndexDepth_def not_less word_le_nat_alt unat_word_ariths)

lemma split_loop_map:
  assumes "IsValid root"
  shows "lev root + unat D < 32 \<Longrightarrow> unat D < 20 \<Longrightarrow> om_ok m \<Longrightarrow>
    \<exists>m' d'. split_loop root T mn D m = Some (m', d') \<and> unat d' = unat D mod 5 \<and> om_ok m'
    \<and> (\<forall>R. map_of m' R = (case map_of m R of Some d \<Rightarrow> Some d
          | None \<Rightarrow> if split_child root T (unat mn) (unat D) R then Some kMaxQuadTreeIndexDepth else None))"
proof (induction "unat D" arbitrary: D m rule: less_induct)
  case less
  show ?case
  proof (cases "kMaxQuadTreeIndexDepth < D")
    case False
    then have "unat D \<le> 4" by (simp add: word_less_nat_alt)
    moreover from this have "\<not> split_child root T (unat mn) (unat D) R" for R by (auto simp: split_child_def)
    ultimately show ?thesis using False less.prems
      by (subst split_loop.simps) (auto split: option.splits)
  next
    case True
    let ?k = "D - kMaxQuadTreeIndexDepth" and ?D = "D - (kMaxQuadTreeIndexDepth + 1)"
    have D: "4 < unat D" using True by (simp add: word_less_nat_alt)
    then have s: "unat ?k = unat D - 4" "unat ?D = unat D - 5"
      by (simp_all add: unat_sub_if')
    have k: "unat ?k < 16" and l: "lev root + unat ?k < 32" using less.prems s by simp_all
    let ?first = "ToQuadKey64 (ChangedLevelTo (level root + ?k) root)"
    let ?n = "ucast (push_bit (2 * unat ?k) 1 :: u32) :: u64"
    define m1 where "m1 = insert_children T mn (keys_from ?first (?first + ?n)) m"
    have "unat ?n = 4 ^ unat ?k" 
      using ChildrenAtLevel_small(2) [OF k] unat_ucast_u32 [of "push_bit (2 * unat ?k) 1"] by (rule trans [rotated])
    from children_keys [OF assms l this first_child [OF assms l]]
    have m: "map_of m1 R = (case map_of m R of Some d \<Rightarrow> Some d
        | None \<Rightarrow> if (IsValid R \<and> lev R = lev root + unat ?k \<and> covers root R) \<and> related T R \<and> unat mn \<le> lev R + 4
            then Some kMaxQuadTreeIndexDepth else None)" for R
      using small_level [of R mn] by (auto simp: m1_def insert_children_map split: option.splits)
    have "unat ?D < unat D" "lev root + unat ?D < 32" "unat ?D < 20" "om_ok m1"
      using s D less.prems by (simp_all add: m1_def insert_children_ok)
    from less.hyps [OF this] obtain m' d' where IH: "split_loop root T mn ?D m1 = Some (m', d')" "unat d' = unat ?D mod 5" "om_ok m'"
      "\<And>R. map_of m' R = (case map_of m1 R of Some d \<Rightarrow> Some d
          | None \<Rightarrow> if split_child root T (unat mn) (unat ?D) R then Some kMaxQuadTreeIndexDepth else None)" by blast
    have "split_loop root T mn D m = Some (m', d')"
      using True IH(1) ChildrenAtLevel_small(1) [OF k] by (subst split_loop.simps) (simp add: Let_def m1_def)
    moreover have "unat d' = unat D mod 5" using IH(2) s(2) D by (simp add: mod_if [of "unat D"])
    moreover have "map_of m' R = (case map_of m R of Some d \<Rightarrow> Some d
          | None \<Rightarrow> if split_child root T (unat mn) (unat D) R then Some kMaxQuadTreeIndexDepth else None)" for R
      using split_child_step [OF D, of root T "unat mn" R] unfolding IH(4) m s by (auto split: option.splits)
    ultimately show ?thesis using IH(3) by blast
  qed
qed

lemma slice_levels_spec:
  assumes "IsValid T" and "unat mn \<le> unat mx" and "unat mx < 32" and "unat mx < min (lev T) (unat mn) + 20"
  shows "\<exists>f. slice_levels mn mx T = (f, mx) \<and> unat f \<le> lev T \<and> unat f \<le> unat mn \<and> unat mx < unat f + 20
    \<and> (f = 0 \<or> (unat mx + 1 - unat f) mod 5 = 0)"
proof -
  define b where "b = (if level T < mn then level T else mn)"
  have b: "unat b = min (lev T) (unat mn)" by (auto simp: b_def word_less_nat_alt)
  define e where "e = (mx + 1 - b) mod (kMaxQuadTreeIndexDepth + 1)"
  have e: "unat e = (unat mx + 1 - unat b) mod 5"
  proof -
    have "unat (mx + 1) = unat mx + 1" using assms(3) by (simp add: unat_word_ariths)
    then have "unat (mx + 1 - b) = unat mx + 1 - unat b" using b assms(2) by (simp add: unat_sub_if')
    then show ?thesis by (simp add: e_def unat_mod_distrib)
  qed
  define u where "u = kMaxQuadTreeIndexDepth + 1 - e"
  have u: "unat u = 5 - unat e" using e by (simp add: u_def unat_sub_if' less_imp_le)
  define f where "f = (if e \<noteq> 0 then if u < b then b - u else 0 else b)"
  have "mx \<noteq> LevelCount" "max mx b = mx" using assms(2,3) b by (auto simp: LevelCount_def max_def word_le_nat_alt word_unat_eq_iff)
  then have "slice_levels mn mx T = (f, mx)"
    unfolding slice_levels_def Let_def b_def [symmetric] by (simp add: e_def u_def f_def)
  moreover have "unat f = (if unat e \<noteq> 0 then unat b - unat u else unat b)"
    by (auto simp: f_def word_less_nat_alt unat_sub_if' unat_eq_zero)
  moreover have "unat f = 0 \<or> (unat mx + 1 - unat f) mod 5 = 0" and "unat mx < unat f + 20"
  proof -
    let ?n = "unat mx + 1 - unat b"
    have n: "?n \<le> 20" "unat b \<le> unat mx" using assms(2,4) b by simp_all
    have m: "?n = 5 * (?n div 5) + unat e" unfolding e by simp
    have "unat e < 5" using e by simp
    consider "unat e = 0" "unat f = unat b" | "unat e \<noteq> 0" "unat u < unat b" "unat f = unat b - unat u" | "unat e \<noteq> 0" "unat b \<le> unat u" "unat f = 0"
      using calculation(2) by (metis diff_is_0_eq not_le)
    then show "unat f = 0 \<or> (unat mx + 1 - unat f) mod 5 = 0"
    proof cases
      case 2
      moreover have "unat mx + 1 = unat b + (5 * (?n div 5) + unat e)" using m n(2) by linarith
      ultimately have "unat mx + 1 - unat f = 5 * (?n div 5 + 1)" using u \<open>unat e < 5\<close> by simp
      then show ?thesis by simp
    qed (use e in simp_all)
    then show "unat mx < unat f + 20"
    proof (cases "unat e = 0")
      case True
      then show ?thesis using calculation(2) n by simp
    next
      case False
      have "unat b \<le> unat f + (5 - unat e)" using calculation(2) False u by simp
      moreover have "unat mx + 1 = unat b + (5 * (?n div 5) + unat e)" using m n(2) by linarith
      moreover have "?n div 5 \<le> 3" using False m n by linarith
      ultimately show ?thesis using \<open>unat e < 5\<close> by linarith
    qed
  qed
  moreover have "unat f \<le> unat b" using calculation(2) by simp
  ultimately show ?thesis using b by (auto simp: unat_eq_zero)
qed

text \<open>The slices that a tile needs.\<close>

definition sliced :: "nat \<Rightarrow> nat \<Rightarrow> TileKey \<Rightarrow> TileKey \<Rightarrow> bool" where
  "sliced mn mx T R \<longleftrightarrow> IsValid R \<and> related T R \<and> lev R \<le> mx \<and> (lev R = 0 \<or> (mx - lev R) mod 5 = 4)
     \<and> mn \<le> lev R + (mx - lev R) mod 5"

lemma first_slice:
  assumes "f \<le> mn" and "f = 0 \<or> (mx + 1 - f) mod 5 = (0 :: nat)" and "mn \<le> mx" and "n \<le> mx"
    and "n = 0 \<or> (mx - n) mod 5 = 4" and "mn \<le> n + (mx - n) mod 5"
  shows "n = f \<or> f < n \<and> n + 4 \<le> mx \<and> (mx - n) mod 5 = 4"
proof -
  have r: "x mod 5 < 5" for x :: nat by simp
  consider "n < f" | "n = f" | "f < n" by linarith
  then show ?thesis
  proof cases
    case 1
    then have "(mx + 1 - f) mod 5 = 0" using assms(2) by auto
    then have "5 dvd mx + 1 - f" by (rule mod_0_imp_dvd)
    then obtain a where a: "mx + 1 - f = 5 * a" ..
    have f: "mx + 1 = 5 * a + f" using a assms(1,3) by simp
    from assms(5) show ?thesis
    proof
      assume "n = 0"
      then have "f \<le> mx mod 5" using assms(1,6) by simp
      moreover have "mx = 5 * a + (f - 1)" using f 1 by simp
      then have "mx mod 5 = (f - 1) mod 5" by simp
      ultimately show ?thesis using 1 mod_less_eq_dividend [of "f - 1" 5] by simp
    next
      assume m: "(mx - n) mod 5 = 4"
      have "mx - n = 5 * a + (f - 1 - n)" using f 1 by simp
      then have "(f - 1 - n) mod 5 = 4" using m by simp
      then have "4 \<le> f - 1 - n" using mod_less_eq_dividend [of "f - 1 - n" 5] by simp
      then show ?thesis using assms(1,6) 1 m by simp
    qed
  next
    case 3
    then have m: "(mx - n) mod 5 = 4" using assms(5) by simp
    then have "4 \<le> mx - n" using mod_less_eq_dividend [of "mx - n" 5] by simp
    then show ?thesis using 3 m by simp
  qed simp
qed

text \<open>The map holds exactly the slices of the tiles that were processed.\<close>

definition slices_of :: "u32 \<Rightarrow> u32 \<Rightarrow> TileKey set \<Rightarrow> RootTilesForRequest \<Rightarrow> bool" where
  "slices_of mn mx S m \<longleftrightarrow> om_ok m \<and> (\<forall>R d. map_of m R = Some d \<longleftrightarrow>
     (\<exists>T \<in> S. sliced (unat mn) (unat mx) T R) \<and> unat d = (unat mx - lev R) mod 5)"

lemma sliced_split:
  assumes "IsValid T" and "IsValid root" and "covers root T" and "lev root \<le> mn" and "mn \<le> mx"
    and "lev root = 0 \<or> (mx + 1 - lev root) mod 5 = 0"
  shows "sliced mn mx T R \<longleftrightarrow> split_child root T mn (mx - lev root) R \<or> R = root \<and> mn \<le> lev root + (mx - lev root) mod 5"
proof
  assume s: "sliced mn mx T R"
  then have v: "IsValid R" "related T R" and l: "lev R \<le> mx" "lev R = 0 \<or> (mx - lev R) mod 5 = 4" "mn \<le> lev R + (mx - lev R) mod 5"
    unfolding sliced_def by blast+
  have n: "lev R = lev root \<or> lev root < lev R \<and> lev R + 4 \<le> mx \<and> (mx - lev R) mod 5 = 4"
    by (rule first_slice [OF assms(4,6,5) l])
  then have "lev root \<le> lev R" by linarith
  then have c: "covers root R"
    using v assms(1-3) covers_between [OF assms(2) v(1) assms(1)] covers_between [OF assms(2) assms(1) v(1)] covers_level [OF assms(2,1,3)]
    by (auto simp: related_def)
  from n show "split_child root T mn (mx - lev root) R \<or> R = root \<and> mn \<le> lev root + (mx - lev root) mod 5"
  proof
    assume "lev R = lev root"
    moreover from this have "R = root" using covers_same_level [OF assms(2) v(1) v(1) c] by (simp add: covers_def)
    ultimately show ?thesis using s by (simp add: sliced_def)
  next
    assume a: "lev root < lev R \<and> lev R + 4 \<le> mx \<and> (mx - lev R) mod 5 = 4"
    moreover from this have "mn \<le> lev R + 4" using s by (simp add: sliced_def)
    ultimately show ?thesis using v c assms(4,5) by (simp add: split_child_def)
  qed
next
  assume "split_child root T mn (mx - lev root) R \<or> R = root \<and> mn \<le> lev root + (mx - lev root) mod 5"
  then show "sliced mn mx T R"
  proof
    assume "split_child root T mn (mx - lev root) R"
    then show ?thesis using assms(4,5) by (auto simp: split_child_def sliced_def)
  next
    assume r: "R = root \<and> mn \<le> lev root + (mx - lev root) mod 5"
    have "(mx - lev root) mod 5 = 4" if "lev root \<noteq> 0"
    proof -
      have "(mx - lev root + 1) mod 5 = 0" using that assms(4-6) by (simp add: Suc_diff_le)
      then show ?thesis by (metis One_nat_def add.commute add_diff_cancel_left' mod_Suc numeral_nat(3) old.nat.distinct(1) plus_1_eq_Suc)
    qed
    then show ?thesis using r assms by (auto simp: sliced_def related_def)
  qed
qed

lemma slice_tile_spec:
  assumes "slices_of mn mx S m" and "IsValid T" and "unat mn \<le> unat mx" and "unat mx < 32"
    and "unat mx < min (lev T) (unat mn) + 20"
  shows "\<exists>m'. slice_tile mn mx T m = Some m' \<and> slices_of mn mx (insert T S) m'"
proof -
  from slice_levels_spec [OF assms(2-5)] obtain f where f: "slice_levels mn mx T = (f, mx)" "unat f \<le> lev T" "unat f \<le> unat mn"
    "unat mx < unat f + 20" "f = 0 \<or> (unat mx + 1 - unat f) mod 5 = 0"
    by (elim exE conjE) (rule that)
  define root where "root = ChangedLevelTo f T"
  have root: "IsValid root" "lev root = unat f" "covers root T" using ancestor [OF assms(2) f(2)] by (simp_all add: root_def)
  define D where "D = mx - f"
  have D: "unat D = unat mx - unat f" using f(3) assms(3) by (simp add: D_def unat_sub_if')
  have okm: "om_ok m" and mS: "\<And>R d. map_of m R = Some d \<longleftrightarrow>
     (\<exists>T \<in> S. sliced (unat mn) (unat mx) T R) \<and> unat d = (unat mx - lev R) mod 5"
    using assms(1) by (auto simp: slices_of_def)
  have sl: "sliced (unat mn) (unat mx) T R \<longleftrightarrow> split_child root T (unat mn) (unat D) R
      \<or> R = root \<and> unat mn \<le> lev root + (unat mx - lev root) mod 5" for R
  proof -
    have "lev root \<le> unat mn" "lev root = 0 \<or> (unat mx + 1 - lev root) mod 5 = 0" using f(3,5) root(2) by auto
    from sliced_split [OF assms(2) root(1,3) this(1) assms(3) this(2), of R] show ?thesis by (simp only: root(2) D)
  qed
  define dep where "dep = (case map_of m root of None \<Rightarrow> D | Some d \<Rightarrow> max d D)"
  have dep: "dep = D"
  proof -
    have "max d D = D" if "map_of m root = Some d" for d
      using that mS [of root d] root(2) D by (simp add: max_def word_le_nat_alt)
    then show ?thesis by (auto simp: dep_def split: option.split)
  qed
  have tile: "slice_tile mn mx T m = (if kMaxQuadTreeIndexDepth < D then SplitSubtree root D T mn (om_update root D m)
      else Some (om_update root D m))"
    unfolding slice_tile_def f(1) prod.case Let_def root_def [symmetric] D_def [symmetric] dep_def [symmetric] dep ..
  show ?thesis
  proof (cases "kMaxQuadTreeIndexDepth < D")
    case False
    then have small: "unat D \<le> 4" by (simp add: word_less_nat_alt)
    then have "sliced (unat mn) (unat mx) T R \<longleftrightarrow> R = root" for R
      unfolding sl using D root(2) assms(3) f(3) by (auto simp: split_child_def)
    moreover have "slice_tile mn mx T m = Some (om_update root D m)"
      using False by (simp add: tile)
    moreover have "unat d = (unat mx - lev root) mod 5 \<longleftrightarrow> d = D" for d
      using small D root(2) by (simp add: word_unat_eq_iff)
    ultimately show ?thesis using okm mS by (auto simp: slices_of_def om_ok_update)
  next
    case True
    have b: "lev root + unat D < 32" "unat D < 20" using root(2) D f(3,4) assms(3,4) by simp_all
    from split_loop_map [OF root(1) b om_ok_update [OF okm], of T mn root D] obtain m' d' where
      loop: "split_loop root T mn D (om_update root D m) = Some (m', d')" "unat d' = unat D mod 5" "om_ok m'"
        "\<And>R. map_of m' R = (case map_of (om_update root D m) R of Some d \<Rightarrow> Some d
          | None \<Rightarrow> if split_child root T (unat mn) (unat D) R then Some kMaxQuadTreeIndexDepth else None)" by blast
    define m2 where "m2 = (if level root + d' < mn then om_delete root m' else om_update root d' m')"
    have run: "slice_tile mn mx T m = Some m2"
      using True loop(1) not_le [of D kMaxQuadTreeIndexDepth] by (simp add: tile SplitSubtree_def m2_def)
    have d': "unat d' = (unat mx - lev root) mod 5" using loop(2) D root(2) by simp
    moreover have "unat (level root + d') = lev root + unat d'" using lev_valid [OF root(1)] d' by (simp add: unat_word_ariths)
    ultimately have er: "level root + d' < mn \<longleftrightarrow> \<not> unat mn \<le> lev root + (unat mx - lev root) mod 5"
      by (simp add: word_less_nat_alt not_le)
    have nr: "\<not> split_child root T (unat mn) (unat D) root" by (simp add: split_child_def)
    have "map_of m2 R = Some d \<longleftrightarrow> (\<exists>T' \<in> insert T S. sliced (unat mn) (unat mx) T' R) \<and> unat d = (unat mx - lev R) mod 5" for R d
    proof (cases "R = root")
      case True
      show ?thesis
      proof (cases "level root + d' < mn")
        case True
        then have "\<not> sliced (unat mn) (unat mx) T' root" for T' using er by (simp add: sliced_def)
        then show ?thesis using True \<open>R = root\<close> by (simp add: m2_def)
      next
        case False
        then show ?thesis using \<open>R = root\<close> er sl [of root] d' by (auto simp: m2_def word_unat_eq_iff)
      qed
    next
      case False
      then have "map_of m2 R = (case map_of m R of Some d \<Rightarrow> Some d
          | None \<Rightarrow> if split_child root T (unat mn) (unat D) R then Some kMaxQuadTreeIndexDepth else None)"
        by (simp add: m2_def loop(4))
      moreover have "split_child root T (unat mn) (unat D) R \<Longrightarrow> (unat mx - lev R) mod 5 = 4"
        using root(2) D f(3) assms(3) by (auto simp: split_child_def)
      moreover have "kMaxQuadTreeIndexDepth = d \<longleftrightarrow> unat d = 4" by (auto simp: word_unat_eq_iff)
      moreover have "\<not> (\<exists>T' \<in> S. sliced (unat mn) (unat mx) T' R)" if "map_of m R = None"
        using that mS [of R "of_nat ((unat mx - lev R) mod 5)"] by (simp add: unat_of_nat)
      moreover have "(\<exists>T' \<in> S. sliced (unat mn) (unat mx) T' R) \<and> (d0 = d \<longleftrightarrow> unat d = (unat mx - lev R) mod 5)"
        if "map_of m R = Some d0" for d0
        using that mS [of R d0] by (auto simp: word_unat_eq_iff)
      ultimately show ?thesis using False sl [of R] by (cases "map_of m R") auto
    qed
    moreover have "om_ok m2" using loop(3) by (simp add: m2_def om_ok_update om_ok_delete)
    ultimately have "slices_of mn mx (insert T S) m2" by (simp add: slices_of_def)
    with run show ?thesis by blast
  qed
qed

lemma slice_tiles_spec:
  assumes "unat mn \<le> unat mx" and "unat mx < 32"
  shows "slices_of mn mx S m \<Longrightarrow> \<forall>T \<in> set Ts. IsValid T \<and> unat mx < min (lev T) (unat mn) + 20 \<Longrightarrow>
    \<exists>m'. slice_tiles Ts mn mx m = Some m' \<and> slices_of mn mx (S \<union> set Ts) m'"
proof (induction Ts arbitrary: S m)
  case (Cons T Ts)
  then obtain m1 where "slice_tile mn mx T m = Some m1" "slices_of mn mx (insert T S) m1"
    using slice_tile_spec [OF Cons.prems(1) _ assms] by fastforce
  moreover from Cons.IH [OF this(2)] Cons.prems(2) obtain m2 where
    "slice_tiles Ts mn mx m1 = Some m2" "slices_of mn mx (insert T S \<union> set Ts) m2" by auto
  ultimately show ?case by auto
qed simp

section \<open>Every tile in exactly one slice\<close>

lemma covers_trans: "IsValid A \<Longrightarrow> IsValid B \<Longrightarrow> IsValid X \<Longrightarrow> covers A B \<Longrightarrow> covers B X \<Longrightarrow> covers A X"
  using covers_between covers_level by blast

lemma related_up:
  assumes "IsValid T" and "IsValid R" and "IsValid X" and "related T X" and "covers R X"
  shows "related T R"
proof -
  from assms(4) have "covers T X \<or> covers R T"
    using covers_trans [OF assms(2,3,1,5)] by (auto simp: related_def)
  then show ?thesis
  proof
    assume "covers T X"
    then show ?thesis using covers_between [OF assms(1,2,3,5)] covers_between [OF assms(2,1,3)] assms(5)
      by (meson le_cases related_def)
  qed (simp add: related_def)
qed

lemma slice_level:
  assumes "n \<le> (mx :: nat)"
  shows "\<exists>r \<le> n. (r = 0 \<or> (mx - r) mod 5 = 4) \<and> n \<le> r + (mx - r) mod 5"
proof -
  define b where "b = (mx - n) mod 5"
  have b: "mx - n = 5 * ((mx - n) div 5) + b" "b < 5" by (simp_all add: b_def)
  show ?thesis
  proof (cases "4 - b \<le> n")
    case True
    then have "mx - (n - (4 - b)) = 5 * ((mx - n) div 5) + 4" using b assms by linarith
    then have "(mx - (n - (4 - b))) mod 5 = 4" by simp
    then show ?thesis using True b(2) by (intro exI [of _ "n - (4 - b)"]) simp
  next
    case False
    then have "mx = 5 * ((mx - n) div 5) + (n + b)" "n + b < 5" using b assms by linarith+
    then have "mx mod 5 = n + b" by (metis mod_less mod_mult_self4)
    then show ?thesis by (intro exI [of _ 0]) simp
  qed
qed

lemma slice_level_unique:
  assumes "r < r'" and "n \<le> r + (mx - r) mod 5" and "r' \<le> n" and "r' \<le> (mx :: nat)"
  shows "(mx - r') mod 5 \<noteq> 4"
proof -
  define d where "d = (mx - r) mod 5"
  have d: "mx - r = 5 * ((mx - r) div 5) + d" "d < 5" "r' \<le> r + d" using assms by (simp_all add: d_def)
  then have "mx - r' = 5 * ((mx - r) div 5) + (d - (r' - r))" using assms(1,4) by linarith
  then have "(mx - r') mod 5 = (d - (r' - r)) mod 5" by (metis mod_mult_self4)
  then show ?thesis using assms(1) d(2) by simp
qed

lemma slices_partition:
  assumes "slices_of mn mx S m" and "T \<in> S" and "IsValid T" and "IsValid X" and "related T X"
    and "unat mn \<le> lev X" and "lev X \<le> unat mx"
  shows "\<exists>!R. \<exists>d. map_of m R = Some d \<and> covers R X \<and> lev X \<le> lev R + unat d"
proof -
  have m: "map_of m R = Some d \<longleftrightarrow> (\<exists>T \<in> S. sliced (unat mn) (unat mx) T R) \<and> unat d = (unat mx - lev R) mod 5" for R d
    using assms(1) by (auto simp: slices_of_def)
  from slice_level [OF assms(7)] obtain r where r: "r \<le> lev X" "r = 0 \<or> (unat mx - r) mod 5 = 4" "lev X \<le> r + (unat mx - r) mod 5"
    by blast
  have "r < 2 ^ 32" using r(1) lev_valid [OF assms(4)] by simp
  then have u: "unat (of_nat r :: u32) = r" by (simp add: unat_of_nat)
  define R where "R = ChangedLevelTo (of_nat r) X"
  have R: "IsValid R" "lev R = r" "covers R X" using ancestor [of X "of_nat r"] assms(4) r(1) u by (simp_all add: R_def)
  have "sliced (unat mn) (unat mx) T R"
    using R r assms related_up [OF assms(3) R(1) assms(4,5) R(3)] by (simp add: sliced_def)
  then have ex: "map_of m R = Some (of_nat ((unat mx - r) mod 5)) \<and> covers R X
      \<and> lev X \<le> lev R + unat (of_nat ((unat mx - r) mod 5) :: u32)"
    using m [of R] R r(3) assms(2) by (auto simp: unat_of_nat)
  have "R1 = R2" if a: "\<exists>d. map_of m R1 = Some d \<and> covers R1 X \<and> lev X \<le> lev R1 + unat d"
    and b: "\<exists>d. map_of m R2 = Some d \<and> covers R2 X \<and> lev X \<le> lev R2 + unat d" for R1 R2
  proof -
    from a have 1: "IsValid R1" "covers R1 X" "lev R1 \<le> unat mx" "lev R1 = 0 \<or> (unat mx - lev R1) mod 5 = 4"
      "lev X \<le> lev R1 + (unat mx - lev R1) mod 5" by (auto simp: m sliced_def)
    from b have 2: "IsValid R2" "covers R2 X" "lev R2 \<le> unat mx" "lev R2 = 0 \<or> (unat mx - lev R2) mod 5 = 4"
      "lev X \<le> lev R2 + (unat mx - lev R2) mod 5" by (auto simp: m sliced_def)
    have l: "lev R1 \<le> lev X" "lev R2 \<le> lev X" using covers_level 1 2 assms(4) by blast+
    have "lev R1 = lev R2"
      using slice_level_unique [of "lev R1" "lev R2" "lev X" "unat mx"] slice_level_unique [of "lev R2" "lev R1" "lev X" "unat mx"] 1 2 l
      by (cases "lev R1" "lev R2" rule: linorder_cases) auto
    then show ?thesis using covers_same_level 1(1,2) 2(1,2) assms(4) by blast
  qed
  then show ?thesis using ex by (intro ex_ex1I) blast+
qed

text \<open>C39. A prefetch request is cut into quad tree requests that fit the service and cover every tile once: for valid
tiles and levels \<open>min\<close> to \<open>max\<close>, less than twenty levels below the first level needed, \<open>GetSlicedTiles\<close> is defined,
and every tile between these levels that is related to a requested tile (an ancestor, a descendant or the tile itself) lies
in exactly one slice. Every slice has at most five levels, reaches a level of the request, does not go beyond
\<open>max\<close>, and has a root that is related to a requested tile.\<close>

theorem sliced_tiles_partition:
  assumes "\<forall>T \<in> set tiles. IsValid T \<and> unat mx < min (lev T) (unat mn) + 20"
    and "unat mn \<le> unat mx" and "unat mx < 32"
  shows "\<exists>m. GetSlicedTiles tiles mn mx = Some m
    \<and> (\<forall>T \<in> set tiles. \<forall>X. IsValid X \<and> related T X \<and> unat mn \<le> lev X \<and> lev X \<le> unat mx
         \<longrightarrow> (\<exists>!R. \<exists>d. map_of m R = Some d \<and> covers R X \<and> lev X \<le> lev R + unat d))
    \<and> (\<forall>R d. map_of m R = Some d \<longrightarrow> IsValid R \<and> unat d \<le> 4 \<and> unat mn \<le> lev R + unat d \<and> lev R + unat d \<le> unat mx
         \<and> (\<exists>T \<in> set tiles. related T R))"
proof -
  have "slices_of mn mx {} []" by (simp add: slices_of_def)
  from slice_tiles_spec [OF assms(2,3) this assms(1)] obtain m where
    run: "GetSlicedTiles tiles mn mx = Some m" and m: "slices_of mn mx (set tiles) m"
    by (auto simp: GetSlicedTiles_def)
  have "IsValid R \<and> unat d \<le> 4 \<and> unat mn \<le> lev R + unat d \<and> lev R + unat d \<le> unat mx \<and> (\<exists>T \<in> set tiles. related T R)"
    if "map_of m R = Some d" for R d
  proof -
    from that m obtain T where T: "T \<in> set tiles" "sliced (unat mn) (unat mx) T R" "unat d = (unat mx - lev R) mod 5"
      by (auto simp: slices_of_def)
    have "(unat mx - lev R) mod 5 \<le> unat mx - lev R" "(unat mx - lev R) mod 5 < 5" by simp_all
    then show ?thesis using T by (auto simp: sliced_def)
  qed
  moreover have "\<exists>!R. \<exists>d. map_of m R = Some d \<and> covers R X \<and> lev X \<le> lev R + unat d"
    if "T \<in> set tiles" "IsValid X \<and> related T X \<and> unat mn \<le> lev X \<and> lev X \<le> unat mx" for T X
    using slices_partition [OF m that(1), of X] assms(1) that by blast
  ultimately show ?thesis using run by blast
qed

theorem sliced_tiles_partition_witness:
  "\<exists>m R d. GetSlicedTiles [\<lparr>row = 1, column = 2, level = 2\<rparr>] 2 8 = Some m \<and> map_of m R = Some d
     \<and> covers R \<lparr>row = 12, column = 17, level = 5\<rparr> \<and> 5 \<le> lev R + unat d"
proof -
  let ?T = "\<lparr>row = 1, column = 2, level = 2\<rparr>" and ?X = "\<lparr>row = 12, column = 17, level = 5\<rparr>"
  have v: "IsValid ?T" "IsValid ?X" "related ?T ?X" unfolding related_def covers_def by code_simp+
  from v have "\<forall>T \<in> set [?T]. IsValid T \<and> unat (8 :: u32) < min (lev T) (unat (2 :: u32)) + 20" by simp
  moreover have "unat (2 :: u32) \<le> unat (8 :: u32)" "unat (8 :: u32) < 32" by simp_all
  ultimately obtain m where run: "GetSlicedTiles [?T] 2 8 = Some m"
    and a: "\<forall>T \<in> set [?T]. \<forall>X. IsValid X \<and> related T X \<and> unat (2 :: u32) \<le> lev X \<and> lev X \<le> unat (8 :: u32)
      \<longrightarrow> (\<exists>!R. \<exists>d. map_of m R = Some d \<and> covers R X \<and> lev X \<le> lev R + unat d)"
    using sliced_tiles_partition [of "[?T]" 8 2] by blast
  have "\<exists>!R. \<exists>d. map_of m R = Some d \<and> covers R ?X \<and> lev ?X \<le> lev R + unat d"
    using v by (intro a [rule_format]) simp_all
  with run show ?thesis by auto
qed

section \<open>The filters\<close>

lemma FilterTilesByLevel_map:
  "map_of (FilterTilesByLevel request tiles) t = (if skip_tile request t then None else map_of tiles t)"
  unfolding FilterTilesByLevel_def by (simp add: map_of_filter_fst [where P = "\<lambda>t. \<not> skip_tile request t"])

lemma FilterTileKeysByLevel_keys: "FilterTileKeysByLevel request tiles = map fst (FilterTilesByLevel request tiles)"
  by (simp add: FilterTileKeysByLevel_def FilterTilesByLevel_def)

lemma move_listed_map:
  "map_of (move_listed keys tiles result) t =
    (if t \<in> set keys then
       (case map_of tiles t of Some handle \<Rightarrow> Some handle
        | None \<Rightarrow> case map_of result t of Some handle \<Rightarrow> Some handle | None \<Rightarrow> Some [])
     else map_of result t)"
  by (induction keys tiles result rule: move_listed.induct)
    (auto simp: Let_def om_emplace_def split: option.splits)

lemma find_aggregated_spec:
  assumes "IsValid t"
  shows "let a = find_aggregated P t in
    (IsValid a \<and> covers a t \<and> P a \<and> (\<forall>b. IsValid b \<and> covers b t \<and> lev a < lev b \<longrightarrow> \<not> P b))
    \<or> (\<not> IsValid a \<and> (\<forall>b. IsValid b \<and> covers b t \<longrightarrow> \<not> P b))"
  using assms
proof (induction P t rule: find_aggregated.induct)
  case (1 P t)
  show ?case
  proof (cases "P t")
    case True
    have "\<not> lev t < lev b" if "IsValid b" "covers b t" for b using covers_level [OF that(1) 1(2) that(2)] by simp
    then show ?thesis using True 1(2) by (subst find_aggregated.simps) (auto simp: covers_def Let_def)
  next
    case False
    then have step: "find_aggregated P t = find_aggregated P (Parent t)"
      using 1(2) by (subst find_aggregated.simps) simp
    show ?thesis
    proof (cases "0 < level t")
      case True
      then have p: "Parent t = ChangedLevelBy (- int 1) t" using Parent_down lev_valid [OF 1(2)] by simp
      have l: "1 \<le> lev t" using True by (simp add: word_less_nat_alt)
      have v: "IsValid (Parent t)" and q: "ToQuadKey64 (Parent t) = drop_bit (2 * 1) (ToQuadKey64 t)"
        unfolding p using quad_down [OF 1(2) l] by simp_all
      have lp: "lev (Parent t) = lev t - 1" using True by (simp add: Parent_def FromRowColumnLevel_def word_less_nat_alt unat_sub_if')
      then have c: "covers (Parent t) t" using q l by (simp add: covers_quad [OF v 1(2)])
      have up: "covers b t \<longleftrightarrow> b = t \<or> covers b (Parent t)" if b: "IsValid b" for b
      proof (cases "lev b \<le> lev (Parent t)")
        case True
        then show ?thesis using covers_between [OF b v 1(2) c] l lp by auto
      next
        case False
        have "\<not> covers b (Parent t)" using False covers_level [OF b v] by blast
        moreover have "covers b t \<Longrightarrow> b = t"
          using False lp covers_level [OF b 1(2)] covers_same_level [OF b 1(2) 1(2)] by (force simp: covers_def)
        ultimately show ?thesis by (auto simp: covers_def)
      qed
      show ?thesis using 1(1) [OF _ v] 1(2) False up unfolding step Let_def by metis
    next
      case t0: False
      then have "Parent t = TileKey_invalid" by (simp add: Parent_def)
      then have "find_aggregated P t = TileKey_invalid" "\<not> IsValid TileKey_invalid"
        unfolding step by (subst find_aggregated.simps) (simp_all add: TileKey_invalid_def IsValid_def LevelCount_def)
      moreover have "b = t" if "IsValid b" "covers b t" for b
        using t0 covers_level [OF that(1) 1(2) that(2)] covers_same_level [OF that(1) 1(2) 1(2) that(2)]
        by (simp add: covers_def word_less_nat_alt)
      ultimately show ?thesis using False by (auto simp: Let_def)
    qed
  qed
qed

text \<open>The nearest tile above \<open>k\<close> (or \<open>k\<close> itself) that is available.\<close>

definition nearest_tile :: "SubQuadsResult \<Rightarrow> TileKey \<Rightarrow> TileKey \<Rightarrow> bool" where
  "nearest_tile tiles k t \<longleftrightarrow> IsValid t \<and> covers t k \<and> map_of tiles t \<noteq> None
     \<and> (\<forall>b. IsValid b \<and> covers b k \<and> lev t < lev b \<longrightarrow> map_of tiles b = None)"

lemma nearest_tile_unique:
  assumes "IsValid k" and "nearest_tile tiles k t" and "nearest_tile tiles k t'"
  shows "t = t'"
proof -
  have "\<not> lev t < lev t'" "\<not> lev t' < lev t" using assms(2,3) by (auto simp: nearest_tile_def)
  then show ?thesis
    using covers_same_level [of t t' k] assms by (simp add: nearest_tile_def)
qed

lemma move_aggregated_map:
  assumes "\<forall>k \<in> set keys. IsValid k \<and> (\<exists>b. IsValid b \<and> covers b k \<and> map_of tiles b \<noteq> None)"
    and "map_of result \<subseteq>\<^sub>m map_of tiles"
  shows "map_of (move_aggregated keys tiles result) t =
    (if map_of result t \<noteq> None \<or> (\<exists>k \<in> set keys. nearest_tile tiles k t) then map_of tiles t else None)"
  using assms
proof (induction keys arbitrary: result)
  case Nil
  then show ?case by (auto simp: map_le_def dom_def)
next
  case (Cons k keys)
  have v: "IsValid k" and ex: "\<exists>b. IsValid b \<and> covers b k \<and> map_of tiles b \<noteq> None" using Cons.prems(1) by auto
  have av: "map_of tiles key \<noteq> None \<or> map_of result key \<noteq> None \<longleftrightarrow> map_of tiles key \<noteq> None" for key
    using Cons.prems(2) by (auto simp: map_le_def dom_def)
  define a where "a = find_aggregated (\<lambda>key. map_of tiles key \<noteq> None \<or> map_of result key \<noteq> None) k"
  have "nearest_tile tiles k a"
    using find_aggregated_spec [OF v, of "\<lambda>key. map_of tiles key \<noteq> None"] ex
    unfolding nearest_tile_def a_def av Let_def by blast
  then obtain h where a: "IsValid a" "map_of tiles a = Some h" "nearest_tile tiles k a" by (auto simp: nearest_tile_def)
  then have step: "move_aggregated (k # keys) tiles result = move_aggregated keys tiles (om_emplace a h result)"
    unfolding move_aggregated.simps a_def [symmetric] Let_def by simp
  have ra: "map_of result a = None \<or> map_of result a = Some h"
    using Cons.prems(2) a(2) by (cases "map_of result a") (auto simp: map_le_def dom_def)
  have "map_of (om_emplace a h result) \<subseteq>\<^sub>m map_of tiles"
    using Cons.prems(2) a(2) by (auto simp: om_emplace_def map_le_def dom_def split: option.splits)
  from Cons.IH [OF _ this] Cons.prems(1)
  have "map_of (move_aggregated (k # keys) tiles result) t =
      (if map_of (om_emplace a h result) t \<noteq> None \<or> (\<exists>k \<in> set keys. nearest_tile tiles k t) then map_of tiles t else None)"
    unfolding step by auto
  moreover have "map_of (om_emplace a h result) t \<noteq> None \<longleftrightarrow> map_of result t \<noteq> None \<or> t = a"
    using ra by (auto simp: om_emplace_def split: option.splits)
  moreover have "t = a \<longleftrightarrow> nearest_tile tiles k t" using nearest_tile_unique [OF v _ a(3)] a(3) by blast
  ultimately show ?case by auto
qed

text \<open>C40. The filter by the list of requested tiles. Without aggregation the result holds exactly the requested tiles, with
their handles, or an empty handle for a tile that was not found. With aggregation, when every requested tile has an
available tile above it, the result holds exactly the nearest available tile of each requested tile, with its handle.\<close>

theorem filter_by_list_exact:
  assumes "\<forall>k \<in> set (request_tile_keys request). IsValid k"
  shows "(\<not> data_aggregation_enabled request \<longrightarrow>
      map_of (FilterTilesByList request tiles) t =
        (if t \<in> set (request_tile_keys request)
         then Some (case map_of tiles t of Some handle \<Rightarrow> handle | None \<Rightarrow> []) else None))
    \<and> (data_aggregation_enabled request
        \<and> (\<forall>k \<in> set (request_tile_keys request). \<exists>b. IsValid b \<and> covers b k \<and> map_of tiles b \<noteq> None) \<longrightarrow>
      map_of (FilterTilesByList request tiles) t =
        (if \<exists>k \<in> set (request_tile_keys request). nearest_tile tiles k t then map_of tiles t else None))"
  using move_aggregated_map [of "request_tile_keys request" tiles "[]" t] assms
  by (auto simp: FilterTilesByList_def move_listed_map split: option.splits)

definition aggregated_request :: PrefetchTilesRequest where
  "aggregated_request = \<lparr>request_tile_keys = [\<lparr>row = 5, column = 3, level = 3\<rparr>, \<lparr>row = 4, column = 2, level = 3\<rparr>],
     request_min_level = 3, request_max_level = 3, data_aggregation_enabled = True\<rparr>"

theorem filter_by_list_exact_witness:
  "map_of (FilterTilesByList aggregated_request [(\<lparr>row = 2, column = 1, level = 2\<rparr>, ''data'')]) \<lparr>row = 2, column = 1, level = 2\<rparr>
     = Some ''data''"
proof -
  let ?b = "\<lparr>row = 2, column = 1, level = 2\<rparr>" and ?tiles = "[(\<lparr>row = 2, column = 1, level = 2\<rparr>, ''data'')]"
  have k: "IsValid \<lparr>row = 5, column = 3, level = 3\<rparr>" "IsValid \<lparr>row = 4, column = 2, level = 3\<rparr>" "IsValid ?b"
    "covers ?b \<lparr>row = 5, column = 3, level = 3\<rparr>" "covers ?b \<lparr>row = 4, column = 2, level = 3\<rparr>"
    unfolding covers_def by code_simp+
  then have "nearest_tile ?tiles \<lparr>row = 5, column = 3, level = 3\<rparr> ?b" by (auto simp: nearest_tile_def)
  moreover have "\<forall>k \<in> set (request_tile_keys aggregated_request). IsValid k"
    "\<forall>k \<in> set (request_tile_keys aggregated_request). \<exists>b. IsValid b \<and> covers b k \<and> map_of ?tiles b \<noteq> None"
    using k by (auto simp: aggregated_request_def intro!: exI [of _ ?b])
  ultimately show ?thesis
    using filter_by_list_exact [of aggregated_request ?tiles ?b] by (simp add: aggregated_request_def)
qed

text \<open>A requested tile below a requested tile that is not found is not reported as not found: the search for an aggregated
tile stops at the empty entry that was made for the tile above it. In the other order both are reported.\<close>

lemma missing_child_not_reported:
  "FilterTilesByList \<lparr>request_tile_keys = [\<lparr>row = 2, column = 1, level = 2\<rparr>, \<lparr>row = 5, column = 3, level = 3\<rparr>],
     request_min_level = 2, request_max_level = 3, data_aggregation_enabled = True\<rparr> [] = [(\<lparr>row = 2, column = 1, level = 2\<rparr>, [])]"
  "FilterTilesByList \<lparr>request_tile_keys = [\<lparr>row = 5, column = 3, level = 3\<rparr>, \<lparr>row = 2, column = 1, level = 2\<rparr>],
     request_min_level = 2, request_max_level = 3, data_aggregation_enabled = True\<rparr> []
     = [(\<lparr>row = 2, column = 1, level = 2\<rparr>, []), (\<lparr>row = 5, column = 3, level = 3\<rparr>, [])]"
  by code_simp+

text \<open>A request that spans more levels shifts a 32-bit one by 32 or more.\<close>

lemma deep_request_undefined:
  "GetSlicedTiles [\<lparr>row = 0, column = 0, level = 0\<rparr>] 0 24 = None"
proof -
  have "split_loop \<lparr>row = 0, column = 0, level = 0\<rparr> t 0 24 m = None" for t m
    by (subst split_loop.simps) (simp add: kMaxQuadTreeIndexDepth_def ChildrenAtLevel_def Let_def push_bit_eq_mult)
  then show ?thesis
    by (simp add: GetSlicedTiles_def slice_tile_def slice_levels_def LevelCount_def kMaxQuadTreeIndexDepth_def
        ChangedLevelTo_def ChangedLevelBy_def SplitSubtree_def Let_def)
qed

end
