(* ===== verification/Crypto.thy ===== *)
theory Crypto
  imports Prelude
begin

unbundle bit_operations_syntax

text \<open>
  SHA-256 and HMAC-SHA-256 of the authentication library (olp-cpp-sdk-authentication/src/Crypto.cpp).
  The first section is the code: macros, message schedule, transformation of one chunk, padding of
  the last chunks, digest. The second section states FIPS 180-4 and FIPS 198-1 on their own terms
  (padding of the whole message, recursive message schedule, rotations of the word library), and the
  rest shows that the two agree on every message and key.
\<close>

section \<open>The code\<close>

definition ROTR :: "u32 \<Rightarrow> nat \<Rightarrow> u32" where
  "ROTR x n = drop_bit n x OR push_bit (32 - n) x"

definition SHA256_CH :: "u32 \<Rightarrow> u32 \<Rightarrow> u32 \<Rightarrow> u32" where
  "SHA256_CH x y z = (x AND y) XOR (NOT x AND z)"

definition SHA256_MAJ :: "u32 \<Rightarrow> u32 \<Rightarrow> u32 \<Rightarrow> u32" where
  "SHA256_MAJ x y z = (x AND y) XOR (x AND z) XOR (y AND z)"

definition SHA256_SUM0 :: "u32 \<Rightarrow> u32" where
  "SHA256_SUM0 x = ROTR x 2 XOR ROTR x 13 XOR ROTR x 22"

definition SHA256_SUM1 :: "u32 \<Rightarrow> u32" where
  "SHA256_SUM1 x = ROTR x 6 XOR ROTR x 11 XOR ROTR x 25"

definition SHA256_SIGMA0 :: "u32 \<Rightarrow> u32" where
  "SHA256_SIGMA0 x = ROTR x 7 XOR ROTR x 18 XOR drop_bit 3 x"

definition SHA256_SIGMA1 :: "u32 \<Rightarrow> u32" where
  "SHA256_SIGMA1 x = ROTR x 17 XOR ROTR x 19 XOR drop_bit 10 x"

definition SHA256_K :: "u32 list" where
  "SHA256_K = concat [
     [0x428a2f98, 0x71374491, 0xb5c0fbcf, 0xe9b5dba5, 0x3956c25b, 0x59f111f1],
     [0x923f82a4, 0xab1c5ed5, 0xd807aa98, 0x12835b01, 0x243185be, 0x550c7dc3],
     [0x72be5d74, 0x80deb1fe, 0x9bdc06a7, 0xc19bf174, 0xe49b69c1, 0xefbe4786],
     [0x0fc19dc6, 0x240ca1cc, 0x2de92c6f, 0x4a7484aa, 0x5cb0a9dc, 0x76f988da],
     [0x983e5152, 0xa831c66d, 0xb00327c8, 0xbf597fc7, 0xc6e00bf3, 0xd5a79147],
     [0x06ca6351, 0x14292967, 0x27b70a85, 0x2e1b2138, 0x4d2c6dfc, 0x53380d13],
     [0x650a7354, 0x766a0abb, 0x81c2c92e, 0x92722c85, 0xa2bfe8a1, 0xa81a664b],
     [0xc24b8b70, 0xc76c51a3, 0xd192e819, 0xd6990624, 0xf40e3585, 0x106aa070],
     [0x19a4c116, 0x1e376c08, 0x2748774c, 0x34b0bcb5, 0x391c0cb3, 0x4ed8aa4a],
     [0x5b9cca4f, 0x682e6ff3, 0x748f82ee, 0x78a5636f, 0x84c87814, 0x8cc70208],
     [0x90befffa, 0xa4506ceb, 0xbef9a3f7, 0xc67178f2]]"

definition Sha256Init :: "u32 list" where
  "Sha256Init = [0x6a09e667, 0xbb67ae85, 0x3c6ef372, 0xa54ff53a, 0x510e527f, 0x9b05688c, 0x1f83d9ab, 0x5be0cd19]"

text \<open>The two loops that fill the message schedule \<open>w\<close>. A byte is promoted to \<open>int\<close>, shifted and
  stored in 32 bits.\<close>

definition load_word :: "u8 list \<Rightarrow> nat \<Rightarrow> u32" where
  "load_word chunk i =
     push_bit 24 (ucast (chunk ! i)) OR push_bit 16 (ucast (chunk ! (i + 1)))
     OR push_bit 8 (ucast (chunk ! (i + 2))) OR ucast (chunk ! (i + 3))"

fun fill_schedule :: "nat \<Rightarrow> u32 list \<Rightarrow> u32 list" where
  "fill_schedule 0 w = w"
| "fill_schedule (Suc n) w =
     (let i = length w in
      fill_schedule n (w @ [SHA256_SIGMA1 (w ! (i - 2)) + w ! (i - 7) + SHA256_SIGMA0 (w ! (i - 15)) + w ! (i - 16)]))"

definition message_schedule :: "u8 list \<Rightarrow> nat \<Rightarrow> u32 list" where
  "message_schedule chunk start_index =
     fill_schedule 48 (map (\<lambda>i. load_word chunk (start_index + 4 * i)) [0..<16])"

text \<open>One round on \<open>working_var\<close>, and the loop over \<open>K\<close> and \<open>w\<close>.\<close>

definition sha_round :: "u32 \<Rightarrow> u32 \<Rightarrow> u32 list \<Rightarrow> u32 list" where
  "sha_round k w v =
     (let t1 = v ! 7 + SHA256_SUM1 (v ! 4) + SHA256_CH (v ! 4) (v ! 5) (v ! 6) + k + w;
          t2 = SHA256_SUM0 (v ! 0) + SHA256_MAJ (v ! 0) (v ! 1) (v ! 2);
          v = v[7 := v ! 6];
          v = v[6 := v ! 5];
          v = v[5 := v ! 4];
          v = v[4 := v ! 3 + t1];
          v = v[3 := v ! 2];
          v = v[2 := v ! 1];
          v = v[1 := v ! 0] in
      v[0 := t1 + t2])"

definition Sha256Transform :: "u8 list \<Rightarrow> nat \<Rightarrow> u32 list \<Rightarrow> u32 list" where
  "Sha256Transform current_chunk start_index hash_value =
     (let w = message_schedule current_chunk start_index;
          working_var = fold (\<lambda>(k, w). sha_round k w) (zip SHA256_K w) hash_value in
      map (\<lambda>(h, v). h + v) (zip hash_value working_var))"

text \<open>The chunks that end the message: the rest of the source with the marker, zeros and the length in
  bits; two chunks when there is no room for the length.\<close>

definition length_bytes :: "u64 \<Rightarrow> u8 list" where
  "length_bytes srcLength = map (\<lambda>i. ucast (drop_bit ((i - 1) * 8) srcLength AND 0xff)) [8, 7, 6, 5, 4, 3, 2, 1]"

definition last_chunks :: "u8 list \<Rightarrow> u8 list list" where
  "last_chunks src =
     (let len = length src;
          chunks_count = len div 64;
          last_chunk_size = len mod 64;
          rest = drop (chunks_count * 64) src;
          (last_chunk, chunks_to_process) =
            (if last_chunk_size < 56 then (rest @ [0x80], [])
             else ([], [rest @ [0x80] @ replicate (64 - length (rest @ [0x80])) 0]));
          last_chunk = last_chunk @ replicate (56 - length last_chunk) 0;
          srcLength = of_nat len * 8 in
      chunks_to_process @ [last_chunk @ length_bytes srcLength])"

text \<open>The digest, big-endian.\<close>

definition store_word :: "u32 \<Rightarrow> u8 list" where
  "store_word v =
     (let v3 = ucast v; v = drop_bit 8 v; v2 = ucast v; v = drop_bit 8 v; v1 = ucast v; v = drop_bit 8 v in
      [ucast v, v1, v2, v3])"

definition ComputeSha256 :: "u8 list \<Rightarrow> u8 list" where
  "ComputeSha256 src =
     (let hash_value = fold (\<lambda>i. Sha256Transform src (i * 64)) [0..<length src div 64] Sha256Init;
          hash_value = fold (\<lambda>chunk. Sha256Transform chunk 0) (last_chunks src) hash_value in
      concat (map store_word hash_value))"

definition ToUnsignedCharVector :: "string \<Rightarrow> u8 list" where
  "ToUnsignedCharVector src = map of_char src"

definition ComputeHmacSha256 :: "string \<Rightarrow> string \<Rightarrow> u8 list" where
  "ComputeHmacSha256 key message =
     (let keyVec = ToUnsignedCharVector key;
          k0 = (if length key \<le> 64 then keyVec else ComputeSha256 keyVec);
          key_length = (if length key \<le> 64 then length key else length (ComputeSha256 keyVec));
          k0 = k0 @ replicate (64 - key_length) 0;
          k0XORipad_msg = map (\<lambda>i. k0 ! i XOR 0x36) [0..<64] @ ToUnsignedCharVector message;
          hk0XORipad_msg = ComputeSha256 k0XORipad_msg;
          s8 = map (\<lambda>i. k0 ! i XOR 0x5c) [0..<64] @ hk0XORipad_msg in
      ComputeSha256 s8)"

section \<open>FIPS 180-4 and FIPS 198-1\<close>

text \<open>The message is padded with a one bit, zeros up to 448 modulo 512 bits, and its length in bits as
  a 64-bit number; here in bytes.\<close>

definition fips_pad :: "u8 list \<Rightarrow> u8 list" where
  "fips_pad m =
     m @ [0x80] @ replicate ((119 - length m mod 64) mod 64) 0
     @ map (\<lambda>i. of_nat (8 * length m div 256 ^ (7 - i))) [0..<8]"

definition fips_word :: "u8 list \<Rightarrow> u32" where
  "fips_word bs = fold (\<lambda>b acc. acc * 256 + ucast b) bs 0"

fun fips_blocks :: "u8 list \<Rightarrow> u8 list list" where
  "fips_blocks [] = []"
| "fips_blocks (b # bs) = take 64 (b # bs) # fips_blocks (drop 63 bs)"

definition rotr :: "nat \<Rightarrow> u32 \<Rightarrow> u32" where
  "rotr n x = word_rotr n x"

function fips_W :: "u8 list \<Rightarrow> nat \<Rightarrow> u32" where
  "fips_W block t =
     (if t < 16 then fips_word (take 4 (drop (4 * t) block))
      else (rotr 17 (fips_W block (t - 2)) XOR rotr 19 (fips_W block (t - 2)) XOR drop_bit 10 (fips_W block (t - 2)))
           + fips_W block (t - 7)
           + (rotr 7 (fips_W block (t - 15)) XOR rotr 18 (fips_W block (t - 15)) XOR drop_bit 3 (fips_W block (t - 15)))
           + fips_W block (t - 16))"
  by pat_completeness auto
termination by (relation "measure snd") auto

declare fips_W.simps [simp del]

type_synonym sha_state = "u32 \<times> u32 \<times> u32 \<times> u32 \<times> u32 \<times> u32 \<times> u32 \<times> u32"

definition fips_round :: "u32 \<Rightarrow> u32 \<Rightarrow> sha_state \<Rightarrow> sha_state" where
  "fips_round k w = (\<lambda>(a, b, c, d, e, f, g, h).
     let t1 = h + (rotr 6 e XOR rotr 11 e XOR rotr 25 e) + ((e AND f) XOR (NOT e AND g)) + k + w;
         t2 = (rotr 2 a XOR rotr 13 a XOR rotr 22 a) + ((a AND b) XOR (a AND c) XOR (b AND c)) in
     (t1 + t2, a, b, c, d + t1, e, f, g))"

text \<open>The constants of section 4.2.2: the first 32 bits of the fractional parts of the cube roots of the first 64 primes.
\<open>cube_root x k r\<close> finds the last \<open>k\<close> bits of the integer cube root of \<open>x\<close>.\<close>

fun cube_root :: "nat \<Rightarrow> nat \<Rightarrow> nat \<Rightarrow> nat" where
  "cube_root x 0 r = r"
| "cube_root x (Suc k) r = cube_root x k (if (r + 2 ^ k) ^ 3 \<le> x then r + 2 ^ k else r)"

definition fips_primes :: "nat list" where
  "fips_primes = [2, 3, 5, 7, 11, 13, 17, 19, 23, 29, 31, 37, 41, 43, 47, 53,
     59, 61, 67, 71, 73, 79, 83, 89, 97, 101, 103, 107, 109, 113, 127, 131,
     137, 139, 149, 151, 157, 163, 167, 173, 179, 181, 191, 193, 197, 199, 211, 223,
     227, 229, 233, 239, 241, 251, 257, 263, 269, 271, 277, 281, 283, 293, 307, 311]"

definition fips_K :: "nat \<Rightarrow> u32" where
  "fips_K t = word_of_nat (cube_root (fips_primes ! t * 2 ^ 96) 35 0)"

definition fips_compress :: "u8 list \<Rightarrow> sha_state \<Rightarrow> sha_state" where
  "fips_compress block = (\<lambda>(a, b, c, d, e, f, g, h).
     case fold (\<lambda>t. fips_round (fips_K t) (fips_W block t)) [0..<64] (a, b, c, d, e, f, g, h) of
       (a', b', c', d', e', f', g', h') \<Rightarrow> (a + a', b + b', c + c', d + d', e + e', f + f', g + g', h + h'))"

definition fips_initial :: sha_state where
  "fips_initial = (0x6a09e667, 0xbb67ae85, 0x3c6ef372, 0xa54ff53a, 0x510e527f, 0x9b05688c, 0x1f83d9ab, 0x5be0cd19)"

definition words_of :: "sha_state \<Rightarrow> u32 list" where
  "words_of = (\<lambda>(a, b, c, d, e, f, g, h). [a, b, c, d, e, f, g, h])"

text \<open>The bytes of a word, most significant first.\<close>

definition fips_bytes :: "u32 \<Rightarrow> u8 list" where
  "fips_bytes x = map (\<lambda>i. of_nat (unat x div 256 ^ (3 - i))) [0..<4]"

definition fips_sha256 :: "u8 list \<Rightarrow> u8 list" where
  "fips_sha256 m = concat (map fips_bytes (words_of (fold fips_compress (fips_blocks (fips_pad m)) fips_initial)))"

definition fips_hmac :: "u8 list \<Rightarrow> u8 list \<Rightarrow> u8 list" where
  "fips_hmac key text =
     (let k = (if length key \<le> 64 then key else fips_sha256 key);
          k0 = k @ replicate (64 - length k) 0 in
      fips_sha256 (map (\<lambda>b. b XOR 0x5c) k0 @ fips_sha256 (map (\<lambda>b. b XOR 0x36) k0 @ text)))"

section \<open>Words\<close>

lemma ROTR_rotr:
  assumes "0 < n" and "n < 32"
  shows "ROTR x n = rotr n x"
proof (rule bit_word_eqI)
  fix i assume i: "i < LENGTH(32)"
  show "bit (ROTR x n) i = bit (rotr n x) i"
  proof (cases "i + n < 32")
    case True
    then show ?thesis using i assms by (auto simp: ROTR_def rotr_def bit_simps add.commute)
  next
    case False
    then have "(i + n) mod 32 = i + n - 32" using i assms by (simp add: mod_if)
    moreover have "\<not> bit x (n + i)" using False by (auto dest: bit_imp_le_length)
    ultimately show ?thesis using i assms False by (auto simp: ROTR_def rotr_def bit_simps)
  qed
qed

lemmas rotations = ROTR_rotr [of 2] ROTR_rotr [of 13] ROTR_rotr [of 22] ROTR_rotr [of 6] ROTR_rotr [of 11]
  ROTR_rotr [of 25] ROTR_rotr [of 7] ROTR_rotr [of 18] ROTR_rotr [of 17] ROTR_rotr [of 19]

lemmas sha_functions = SHA256_CH_def SHA256_MAJ_def SHA256_SUM0_def SHA256_SUM1_def SHA256_SIGMA0_def SHA256_SIGMA1_def

lemma bit_byte: "bit (ucast (b::u8) :: u32) n \<Longrightarrow> n < 8"
  by (auto simp: bit_simps dest: bit_imp_le_length)

lemma bytes_to_word:
  "push_bit 24 (ucast (a::u8)) OR push_bit 16 (ucast (b::u8)) OR push_bit 8 (ucast (c::u8)) OR ucast (d::u8)
   = (((ucast a * 256 + ucast b) * 256 + ucast c) * 256 + ucast d :: u32)"
proof -
  have 1: "push_bit 8 (ucast c) OR ucast d = (push_bit 8 (ucast c) + ucast d :: u32)"
    by (rule disjunctive_add [symmetric]) (auto simp: bit_push_bit_iff dest: bit_byte)
  have 2: "push_bit 16 (ucast b) OR (push_bit 8 (ucast c) OR ucast d) = (push_bit 16 (ucast b) + (push_bit 8 (ucast c) OR ucast d) :: u32)"
    by (rule disjunctive_add [symmetric]) (auto simp: bit_push_bit_iff bit_or_iff dest: bit_byte)
  have 3: "push_bit 24 (ucast a) OR (push_bit 16 (ucast b) OR (push_bit 8 (ucast c) OR ucast d))
    = (push_bit 24 (ucast a) + (push_bit 16 (ucast b) OR (push_bit 8 (ucast c) OR ucast d)) :: u32)"
    by (rule disjunctive_add [symmetric]) (auto simp: bit_push_bit_iff bit_or_iff dest: bit_byte)
  show ?thesis unfolding or.assoc unfolding 3 unfolding 2 unfolding 1 by (simp add: push_bit_eq_mult algebra_simps)
qed

lemma take4:
  assumes "i + 4 \<le> length xs"
  shows "take 4 (drop i xs) = [xs ! i, xs ! (i + 1), xs ! (i + 2), xs ! (i + 3)]"
  using assms by (intro nth_equalityI) (auto simp: less_Suc_eq numeral_eq_Suc add.commute)

lemma load_word_fips: "i + 4 \<le> length chunk \<Longrightarrow> load_word chunk i = fips_word (take 4 (drop i chunk))"
  by (simp add: take4 load_word_def fips_word_def bytes_to_word)

lemma store_word_fips: "store_word v = fips_bytes v"
proof -
  have "ucast (drop_bit n v) = (of_nat (unat v div 2 ^ n) :: u8)" for n
    by (rule bit_word_eqI) (simp add: bit_simps flip: drop_bit_eq_div)
  from this [of 0] this [of 8] this [of 16] this [of 24] show ?thesis
    by (simp add: store_word_def fips_bytes_def upt_rec Let_def)
qed

lemma length_bytes_fips:
  "length_bytes (of_nat n * 8) = map (\<lambda>i. of_nat (8 * n div 256 ^ (7 - i))) [0..<8]"
proof -
  have "ucast (drop_bit k (of_nat m :: u64) AND 0xff) = (of_nat (m div 2 ^ k) :: u8)" if "k + 8 \<le> 64" for k m
  proof (rule bit_word_eqI)
    fix i assume "i < LENGTH(8)"
    moreover have "bit (0xff :: u64) i" if "i < 8" using that
      by (auto simp: less_Suc_eq numeral_eq_Suc)
    ultimately show "bit (ucast (drop_bit k (of_nat m :: u64) AND 0xff) :: u8) i = bit (of_nat (m div 2 ^ k) :: u8) i"
      using that by (simp add: bit_simps flip: drop_bit_eq_div)
  qed
  from this [of 0 "8 * n"] this [of 8 "8 * n"] this [of 16 "8 * n"] this [of 24 "8 * n"] this [of 32 "8 * n"]
    this [of 40 "8 * n"] this [of 48 "8 * n"] this [of 56 "8 * n"]
  show ?thesis by (simp add: length_bytes_def upt_rec mult.commute)
qed

section \<open>One chunk\<close>

lemma fill_schedule_fips:
  "16 \<le> i \<Longrightarrow> fill_schedule n (map (fips_W block) [0..<i]) = map (fips_W block) [0..<i + n]"
proof (induction n arbitrary: i)
  case (Suc n)
  let ?w = "map (fips_W block) [0..<i]"
  have "SHA256_SIGMA1 (?w ! (i - 2)) + ?w ! (i - 7) + SHA256_SIGMA0 (?w ! (i - 15)) + ?w ! (i - 16) = fips_W block i"
    using Suc.prems by (simp add: sha_functions rotations fips_W.simps [of block i])
  then have "fill_schedule (Suc n) ?w = fill_schedule n (map (fips_W block) [0..<Suc i])" by (simp add: Let_def)
  also have "\<dots> = map (fips_W block) [0..<Suc i + n]" using Suc.prems by (intro Suc.IH) simp
  finally show ?case by (simp only: add_Suc add_Suc_right)
qed simp

lemma message_schedule_fips:
  assumes "start + 64 \<le> length chunk"
  shows "message_schedule chunk start = map (fips_W (take 64 (drop start chunk))) [0..<64]"
proof -
  let ?b = "take 64 (drop start chunk)"
  have "load_word chunk (start + 4 * i) = fips_W ?b i" if "i < 16" for i
  proof -
    have "take 4 (drop (4 * i) ?b) = take 4 (drop (start + 4 * i) chunk)"
      using that by (simp add: drop_take min_def add.commute)
    with assms that show ?thesis by (simp add: load_word_fips fips_W.simps)
  qed
  then have "map (\<lambda>i. load_word chunk (start + 4 * i)) [0..<16] = map (fips_W ?b) [0..<16]" by simp
  then show ?thesis unfolding message_schedule_def using fill_schedule_fips [of 16 48 ?b] by (simp only: le_refl) simp
qed

lemma sha_state_cases:
  fixes s :: sha_state
  obtains a b c d e f g h where "s = (a, b, c, d, e, f, g, h)"
  by (metis prod_cases7 surj_pair)

lemma sha_round_fips: "sha_round k w (words_of s) = words_of (fips_round k w s)"
proof -
  obtain a b c d e f g h where "s = (a, b, c, d, e, f, g, h)" by (rule sha_state_cases)
  then show ?thesis by (simp add: sha_round_def fips_round_def words_of_def sha_functions rotations Let_def)
qed

lemma sha_rounds_fips:
  "fold (\<lambda>(k, w). sha_round k w) (map (\<lambda>t. (K t, W t)) ts) (words_of s)
    = words_of (fold (\<lambda>t. fips_round (K t) (W t)) ts s)"
  by (induction ts arbitrary: s) (simp_all add: sha_round_fips)

lemma length_K [simp]: "length SHA256_K = 64"
  by (simp add: SHA256_K_def)

lemma cube_root_bounds:
  "r ^ 3 \<le> x \<Longrightarrow> x < (r + 2 ^ k) ^ 3 \<Longrightarrow> cube_root x k r ^ 3 \<le> x \<and> x < (cube_root x k r + 1) ^ 3"
proof (induction x k r rule: cube_root.induct)
  case (2 x k r)
  then show ?case by (cases "(r + 2 ^ k) ^ 3 \<le> x") (simp_all add: add.assoc mult_2)
qed simp

lemma cube_root_eq:
  assumes "q ^ 3 \<le> x" and "x < (q + 1) ^ 3" and "x < (2 ^ k) ^ 3"
  shows "cube_root x k 0 = q"
proof -
  let ?r = "cube_root x k 0"
  have b: "?r ^ 3 \<le> x" "x < (?r + 1) ^ 3" using cube_root_bounds [of 0 x k] assms(3) by simp_all
  have "?r ^ 3 < (q + 1) ^ 3" "q ^ 3 < (?r + 1) ^ 3" using b assms(1,2) by (simp_all only: le_less_trans)
  then have "?r < q + 1" "q < ?r + 1" by (simp_all only: power_less_imp_less_base [of _ 3] zero_le)
  then show ?thesis by simp
qed

definition prime_roots :: "nat list" where
  "prime_roots =
    [0x1428a2f98, 0x171374491, 0x1b5c0fbcf, 0x1e9b5dba5, 0x23956c25b, 0x259f111f1, 0x2923f82a4, 0x2ab1c5ed5,
     0x2d807aa98, 0x312835b01, 0x3243185be, 0x3550c7dc3, 0x372be5d74, 0x380deb1fe, 0x39bdc06a7, 0x3c19bf174,
     0x3e49b69c1, 0x3efbe4786, 0x40fc19dc6, 0x4240ca1cc, 0x42de92c6f, 0x44a7484aa, 0x45cb0a9dc, 0x476f988da,
     0x4983e5152, 0x4a831c66d, 0x4b00327c8, 0x4bf597fc7, 0x4c6e00bf3, 0x4d5a79147, 0x506ca6351, 0x514292967,
     0x527b70a85, 0x52e1b2138, 0x54d2c6dfc, 0x553380d13, 0x5650a7354, 0x5766a0abb, 0x581c2c92e, 0x592722c85,
     0x5a2bfe8a1, 0x5a81a664b, 0x5c24b8b70, 0x5c76c51a3, 0x5d192e819, 0x5d6990624, 0x5f40e3585, 0x6106aa070,
     0x619a4c116, 0x61e376c08, 0x62748774c, 0x634b0bcb5, 0x6391c0cb3, 0x64ed8aa4a, 0x65b9cca4f, 0x6682e6ff3,
     0x6748f82ee, 0x678a5636f, 0x684c87814, 0x68cc70208, 0x690befffa, 0x6a4506ceb, 0x6bef9a3f7, 0x6c67178f2]"

lemma prime_roots_ok: "list_all2 (\<lambda>p q. q ^ 3 \<le> p * 2 ^ 96 \<and> p * 2 ^ 96 < (q + 1) ^ 3 \<and> p * 2 ^ 96 < (2 ^ 35) ^ 3) fips_primes prime_roots"
  by (simp add: fips_primes_def prime_roots_def)

lemma SHA256_K_roots: "SHA256_K = map word_of_nat prime_roots"
  by (simp add: SHA256_K_def prime_roots_def)

lemma fips_K_SHA256_K: "t < 64 \<Longrightarrow> fips_K t = SHA256_K ! t"
proof -
  assume t: "t < 64"
  have l: "length fips_primes = 64" "length prime_roots = 64" by (simp_all add: fips_primes_def prime_roots_def)
  from list_all2_nthD [OF prime_roots_ok, of t] t l have "cube_root (fips_primes ! t * 2 ^ 96) 35 0 = prime_roots ! t"
    by (intro cube_root_eq) simp_all
  with t l show ?thesis by (simp add: fips_K_def SHA256_K_roots)
qed

lemma fips_rounds_K:
  "fold (\<lambda>t. fips_round (fips_K t) (fips_W block t)) [0..<64] s = fold (\<lambda>t. fips_round (SHA256_K ! t) (fips_W block t)) [0..<64] s"
  by (rule fold_cong) (simp_all add: fips_K_SHA256_K)

lemma zip_K: "zip SHA256_K (map W [0..<64]) = map (\<lambda>t. (SHA256_K ! t, W t)) [0..<64]"
  by (rule nth_equalityI) simp_all

lemma Sha256Transform_fips:
  assumes "start + 64 \<le> length chunk"
  shows "Sha256Transform chunk start (words_of s) = words_of (fips_compress (take 64 (drop start chunk)) s)"
proof -
  let ?b = "take 64 (drop start chunk)"
  obtain a b c d e f g h where s: "s = (a, b, c, d, e, f, g, h)" by (rule sha_state_cases)
  obtain a' b' c' d' e' f' g' h' where s': "fold (\<lambda>t. fips_round (SHA256_K ! t) (fips_W ?b t)) [0..<64] s
      = (a', b', c', d', e', f', g', h')" by (rule sha_state_cases)
  show ?thesis
    unfolding Sha256Transform_def message_schedule_fips [OF assms] zip_K Let_def sha_rounds_fips s'
    using s' by (simp add: fips_compress_def fips_rounds_K words_of_def s)
qed

section \<open>The whole message\<close>

lemma fips_blocks_step: "bs \<noteq> [] \<Longrightarrow> fips_blocks bs = take 64 bs # fips_blocks (drop 64 bs)"
  by (cases bs) simp_all

lemma fips_blocks_cons: "length b = 64 \<Longrightarrow> fips_blocks (b @ bs) = b # fips_blocks bs"
  by (subst fips_blocks_step) auto

lemma fips_blocks_concat: "\<forall>b \<in> set bs. length b = 64 \<Longrightarrow> fips_blocks (concat bs @ cs) = bs @ fips_blocks cs"
  by (induction bs) (simp_all add: fips_blocks_cons)

definition chunks_of :: "u8 list \<Rightarrow> u8 list list" where
  "chunks_of src = map (\<lambda>i. take 64 (drop (i * 64) src)) [0..<length src div 64]"

lemma concat_chunks: "n * 64 \<le> length src \<Longrightarrow> concat (map (\<lambda>i. take 64 (drop (i * 64) src)) [0..<n]) = take (n * 64) src"
proof (induction n)
  case (Suc n)
  have "take (Suc n * 64) src = take (n * 64) src @ take 64 (drop (n * 64) src)"
    by (simp add: take_add [symmetric] add.commute)
  with Suc show ?case by simp
qed simp

lemma last_chunks_split:
  assumes P: "length P = n * 64" and R: "length R < 64"
  shows "P @ concat (last_chunks (P @ R)) = fips_pad (P @ R) \<and> (\<forall>b \<in> set (last_chunks (P @ R)). length b = 64)"
proof -
  have d: "length (P @ R) div 64 = n" "length (P @ R) mod 64 = length R" using P R by (simp_all add: mult.commute)
  have r: "drop (n * 64) (P @ R) = R" using P by simp
  have l: "length (length_bytes x) = 8" for x by (simp add: length_bytes_def)
  note l8 = length_bytes_fips [of "length (P @ R)", symmetric]
  show ?thesis
  proof (cases "length R < 56")
    case True
    then have z: "(119 - length R) mod 64 = 55 - length R" by (simp add: mod_if)
    from True show ?thesis
      unfolding last_chunks_def fips_pad_def Let_def d r l8 z by (simp add: l)
  next
    case False
    with R have z: "(119 - length R) mod 64 = (63 - length R) + 56" by (simp add: mod_if)
    from False R show ?thesis
      unfolding last_chunks_def fips_pad_def Let_def d r l8 z replicate_add by (simp add: l)
  qed
qed

lemma last_chunks_fips:
  "concat (chunks_of m) @ concat (last_chunks m) = fips_pad m \<and> (\<forall>b \<in> set (last_chunks m). length b = 64)"
proof -
  let ?n = "length m div 64"
  have c: "concat (chunks_of m) = take (?n * 64) m" unfolding chunks_of_def by (rule concat_chunks) simp
  have "length (take (?n * 64) m) = ?n * 64" unfolding length_take by (rule min_absorb2) simp
  moreover have "length (drop (?n * 64) m) < 64" unfolding length_drop minus_div_mult_eq_mod by (rule mod_less_divisor) simp
  ultimately show ?thesis unfolding c by (rule last_chunks_split [of "take (?n * 64) m" _ "drop (?n * 64) m", unfolded append_take_drop_id])
qed

lemma fold_compress:
  assumes "\<forall>i \<in> set is. i * 64 + 64 \<le> length src"
  shows "fold (\<lambda>i. Sha256Transform src (i * 64)) is (words_of s)
    = words_of (fold fips_compress (map (\<lambda>i. take 64 (drop (i * 64) src)) is) s)"
  using assms by (induction "is" arbitrary: s) (simp_all add: Sha256Transform_fips)

lemma fold_last:
  "\<forall>b \<in> set bs. length b = 64 \<Longrightarrow>
    fold (\<lambda>chunk. Sha256Transform chunk 0) bs (words_of s) = words_of (fold fips_compress bs s)"
  by (induction bs arbitrary: s) (simp_all add: Sha256Transform_fips)

lemma ComputeSha256_fips: "ComputeSha256 src = fips_sha256 src"
proof -
  have all: "\<forall>i \<in> set [0..<length src div 64]. i * 64 + 64 \<le> length src" by auto
  have len: "\<forall>b \<in> set (chunks_of src @ last_chunks src). length b = 64"
    using last_chunks_fips [of src] all by (auto simp: chunks_of_def)
  have "fips_blocks (fips_pad src) = fips_blocks (concat (chunks_of src @ last_chunks src) @ [])"
    using last_chunks_fips [of src] by simp
  also have "\<dots> = chunks_of src @ last_chunks src" by (subst fips_blocks_concat [OF len]) simp
  finally have blocks: "fips_blocks (fips_pad src) = chunks_of src @ last_chunks src" .
  have init: "Sha256Init = words_of fips_initial" by (simp add: Sha256Init_def fips_initial_def words_of_def)
  have last: "\<forall>b \<in> set (last_chunks src). length b = 64" using last_chunks_fips [of src] by simp
  show ?thesis
    unfolding ComputeSha256_def fips_sha256_def Let_def blocks init fold_compress [OF all] fold_last [OF last]
    by (simp add: chunks_of_def store_word_fips cong: map_cong)
qed

section \<open>Properties\<close>

lemma length_sha256: "length (ComputeSha256 src) = 32"
proof -
  have "length (words_of s) = 8" for s by (cases s) (auto simp: words_of_def)
  then have "sum_list (map (length \<circ> fips_bytes) (words_of s)) = 32" for s
    by (simp add: fips_bytes_def o_def sum_list_replicate map_replicate_const)
  then show ?thesis by (simp add: ComputeSha256_fips fips_sha256_def length_concat)
qed

text \<open>C32. The digest that the code computes is the SHA-256 digest of FIPS 180-4, for every message, and
  it has 32 bytes. In particular the two ways the code ends a message, with one or with two
  additional chunks, are the padding of the standard, and the length field wraps as the
  64-bit field of the standard.\<close>

theorem sha256_is_fips: "ComputeSha256 src = fips_sha256 src \<and> length (ComputeSha256 src) = 32"
  by (rule conjI [OF ComputeSha256_fips length_sha256])

text \<open>C33. The code that signs requests is HMAC of FIPS 198-1 over SHA-256, for every key (shorter than a
  block, a block, or longer) and every message.\<close>

theorem hmac_is_fips:
  "ComputeHmacSha256 key message = fips_hmac (ToUnsignedCharVector key) (ToUnsignedCharVector message)"
proof -
  define k where "k = (if length key \<le> 64 then ToUnsignedCharVector key else ComputeSha256 (ToUnsignedCharVector key))"
  define k0 where "k0 = k @ replicate (64 - length k) 0"
  have "length k \<le> 64" by (simp add: k_def ToUnsignedCharVector_def length_sha256)
  then have l: "length k0 = 64" by (simp add: k0_def)
  have m: "map (\<lambda>i. k0 ! i XOR x) [0..<64] = map (\<lambda>b. b XOR x) k0" for x
    by (rule nth_equalityI) (simp_all add: l)
  have c: "ComputeHmacSha256 key message =
      ComputeSha256 (map (\<lambda>i. k0 ! i XOR 0x5c) [0..<64]
        @ ComputeSha256 (map (\<lambda>i. k0 ! i XOR 0x36) [0..<64] @ ToUnsignedCharVector message))"
    by (simp add: ComputeHmacSha256_def Let_def k_def k0_def ToUnsignedCharVector_def)
  have f: "fips_hmac (ToUnsignedCharVector key) (ToUnsignedCharVector message) =
      fips_sha256 (map (\<lambda>b. b XOR 0x5c) k0 @ fips_sha256 (map (\<lambda>b. b XOR 0x36) k0 @ ToUnsignedCharVector message))"
    by (simp add: fips_hmac_def Let_def k_def k0_def ToUnsignedCharVector_def flip: ComputeSha256_fips)
  show ?thesis unfolding c f m ComputeSha256_fips ..
qed

end
