(* ===== verification/Hrn.thy ===== *)
theory Hrn
  imports Prelude
begin

text \<open>
  \<open>olp::client::HRN\<close> (olp-cpp-sdk-core/src/client/HRN.cpp) with its \<open>Tokenizer\<close>: HERE resource names of
  the form \<open>hrn:partition:service:region:account:resource\<close>. Log output is left out.
\<close>

section \<open>Tokenizer\<close>

text \<open>\<open>None\<close> is \<open>std::string::npos\<close>.\<close>

record tokenizer =
  tok_str :: string
  tok_pos :: "nat option"
  tok_sep :: char

definition Tokenizer_new :: "string \<Rightarrow> char \<Rightarrow> tokenizer" where
  "Tokenizer_new input separator = \<lparr>tok_str = input, tok_pos = Some 0, tok_sep = separator\<rparr>"

definition HasNext :: "tokenizer \<Rightarrow> bool" where
  "HasNext t \<longleftrightarrow> tok_str t \<noteq> [] \<and> tok_pos t \<noteq> None"

text \<open>\<open>find_first_of\<close> a character from a position on.\<close>

definition find_first_of :: "string \<Rightarrow> char \<Rightarrow> nat \<Rightarrow> nat option" where
  "find_first_of s c pos =
     (let n = length (takeWhile (\<lambda>x. x \<noteq> c) (drop pos s)) in
      if pos + n < length s then Some (pos + n) else None)"

definition Next :: "tokenizer \<Rightarrow> tokenizer \<times> string" where
  "Next t =
     (case tok_pos t of
        None \<Rightarrow> (t, [])
      | Some start \<Rightarrow>
          (case find_first_of (tok_str t) (tok_sep t) start of
             None \<Rightarrow> (t\<lparr>tok_pos := None\<rparr>, drop start (tok_str t))
           | Some separator_position \<Rightarrow>
               (t\<lparr>tok_pos := Some (separator_position + 1)\<rparr>,
                take (separator_position - start) (drop start (tok_str t)))))"

definition Tail :: "tokenizer \<Rightarrow> tokenizer \<times> string" where
  "Tail t =
     (case tok_pos t of
        None \<Rightarrow> (t, [])
      | Some start \<Rightarrow> (t\<lparr>tok_pos := None\<rparr>, drop start (tok_str t)))"

section \<open>Resource names\<close>

datatype ServiceType = UnknownService | Data | Schema | Pipeline

record hrn =
  hrn_partition :: string
  hrn_service :: ServiceType
  hrn_region :: string
  hrn_account :: string
  hrn_catalog_id :: string
  hrn_layer_id :: string
  hrn_group_id :: string
  hrn_schema_name :: string
  hrn_version :: string
  hrn_pipeline_id :: string

definition HRN_default :: hrn where
  "HRN_default =
     \<lparr>hrn_partition = [], hrn_service = UnknownService, hrn_region = [], hrn_account = [], hrn_catalog_id = [],
      hrn_layer_id = [], hrn_group_id = [], hrn_schema_name = [], hrn_version = [], hrn_pipeline_id = []\<rparr>"

definition kHrnTag :: string where "kHrnTag = ''hrn:''"

definition kDataTag :: string where "kDataTag = ''data''"

definition kSchemaTag :: string where "kSchemaTag = ''schema''"

definition kPipelineTag :: string where "kPipelineTag = ''pipeline''"

definition kSeparator :: char where "kSeparator = CHR '':''"

definition ToString :: "hrn \<Rightarrow> string" where
  "ToString h =
     (case hrn_service h of
        Data \<Rightarrow>
          kHrnTag @ hrn_partition h @ [kSeparator] @ kDataTag @ [kSeparator] @ hrn_region h @ [kSeparator]
          @ hrn_account h @ [kSeparator] @ hrn_catalog_id h
          @ (if hrn_layer_id h \<noteq> [] then [kSeparator] @ hrn_layer_id h else [])
      | Schema \<Rightarrow>
          kHrnTag @ hrn_partition h @ [kSeparator] @ kSchemaTag @ [kSeparator] @ hrn_region h @ [kSeparator]
          @ hrn_account h @ [kSeparator] @ hrn_group_id h @ [kSeparator] @ hrn_schema_name h @ [kSeparator] @ hrn_version h
      | Pipeline \<Rightarrow>
          kHrnTag @ hrn_partition h @ [kSeparator] @ kPipelineTag @ [kSeparator] @ hrn_region h @ [kSeparator]
          @ hrn_account h @ [kSeparator] @ hrn_pipeline_id h
      | UnknownService \<Rightarrow>
          kHrnTag @ hrn_partition h @ [kSeparator] @ [kSeparator] @ hrn_region h @ [kSeparator] @ hrn_account h @ [kSeparator])"

definition ToCatalogHRNString :: "hrn \<Rightarrow> string" where
  "ToCatalogHRNString h =
     (if hrn_service h \<noteq> Data then []
      else kHrnTag @ hrn_partition h @ [kSeparator] @ kDataTag @ [kSeparator] @ hrn_region h @ [kSeparator]
           @ hrn_account h @ [kSeparator] @ hrn_catalog_id h)"

text \<open>\<open>if (tokenizer.HasNext()) { field = tokenizer.Next(); }\<close>, and the same with \<open>Tail\<close>; an unset
  field keeps its default, the empty string.\<close>

definition next_field :: "tokenizer \<Rightarrow> tokenizer \<times> string" where
  "next_field t = (if HasNext t then Next t else (t, []))"

definition tail_field :: "tokenizer \<Rightarrow> tokenizer \<times> string" where
  "tail_field t = (if HasNext t then Tail t else (t, []))"

definition HRN_of_string :: "string \<Rightarrow> hrn" where
  "HRN_of_string input =
     (let t = Tokenizer_new input kSeparator in
      if \<not> HasNext t then HRN_default
      else
        (let (t, protocol) = Next t in
         if protocol \<noteq> ''hrn'' then HRN_default
         else
           (let (t, partition) = next_field t;
                h = HRN_default\<lparr>hrn_partition := partition\<rparr>;
                (t, service) =
                  (if HasNext t then
                     (let (t, service_str) = Next t in
                      (t, if service_str = kDataTag then Some Data
                          else if service_str = kSchemaTag then Some Schema
                          else if service_str = kPipelineTag then Some Pipeline
                          else None))
                   else (t, Some UnknownService)) in
            case service of
              None \<Rightarrow> h
            | Some service \<Rightarrow>
                (let h = h\<lparr>hrn_service := service\<rparr>;
                     (t, region) = next_field t;
                     (t, account) = next_field t;
                     h = h\<lparr>hrn_region := region, hrn_account := account\<rparr> in
                 case service of
                   Data \<Rightarrow>
                     (let (t, catalog) = next_field t; (t, layer) = tail_field t in
                      h\<lparr>hrn_catalog_id := catalog, hrn_layer_id := layer\<rparr>)
                 | Schema \<Rightarrow>
                     (let (t, group) = next_field t; (t, name) = next_field t; (t, version) = tail_field t in
                      h\<lparr>hrn_group_id := group, hrn_schema_name := name, hrn_version := version\<rparr>)
                 | Pipeline \<Rightarrow>
                     (let (t, pipeline) = tail_field t in h\<lparr>hrn_pipeline_id := pipeline\<rparr>)
                 | UnknownService \<Rightarrow> h))))"

definition hrn_eq :: "hrn \<Rightarrow> hrn \<Rightarrow> bool" where
  "hrn_eq h rhs =
     (if hrn_partition h \<noteq> hrn_partition rhs \<or> hrn_service h \<noteq> hrn_service rhs \<or> hrn_region h \<noteq> hrn_region rhs
         \<or> hrn_account h \<noteq> hrn_account rhs then False
      else case hrn_service h of
        Data \<Rightarrow> hrn_catalog_id h = hrn_catalog_id rhs \<and> hrn_layer_id h = hrn_layer_id rhs
      | Schema \<Rightarrow> hrn_group_id h = hrn_group_id rhs \<and> hrn_schema_name h = hrn_schema_name rhs \<and> hrn_version h = hrn_version rhs
      | Pipeline \<Rightarrow> hrn_pipeline_id h = hrn_pipeline_id rhs
      | UnknownService \<Rightarrow> False)"

definition IsNull :: "hrn \<Rightarrow> bool" where
  "IsNull h =
     (case hrn_service h of
        Data \<Rightarrow> hrn_partition h = [] \<or> hrn_catalog_id h = []
      | Schema \<Rightarrow> hrn_partition h = [] \<or> hrn_group_id h = [] \<or> hrn_schema_name h = [] \<or> hrn_version h = []
      | Pipeline \<Rightarrow> hrn_partition h = [] \<or> hrn_pipeline_id h = []
      | UnknownService \<Rightarrow> True)"

section \<open>Tokens\<close>

text \<open>A tokenizer in the middle of its string: the rest from the position on.\<close>

definition at_rest :: "tokenizer \<Rightarrow> string \<Rightarrow> bool" where
  "at_rest t rest \<longleftrightarrow> tok_sep t = kSeparator \<and>
     (\<exists>n. tok_pos t = Some n \<and> n \<le> length (tok_str t) \<and> drop n (tok_str t) = rest \<and> tok_str t \<noteq> [])"

definition exhausted :: "tokenizer \<Rightarrow> bool" where
  "exhausted t \<longleftrightarrow> tok_pos t = None"

lemma at_rest_HasNext [simp]: "at_rest t rest \<Longrightarrow> HasNext t"
  by (auto simp: at_rest_def HasNext_def)

lemma exhausted_fields [simp]:
  "exhausted t \<Longrightarrow> \<not> HasNext t" "exhausted t \<Longrightarrow> next_field t = (t, [])" "exhausted t \<Longrightarrow> tail_field t = (t, [])"
  by (auto simp: exhausted_def HasNext_def next_field_def tail_field_def)

lemma drop_length: "drop n xs = ys \<Longrightarrow> n \<le> length xs \<Longrightarrow> length xs = n + length ys"
  by auto

lemma Next_sep:
  assumes "at_rest t (a @ kSeparator # rest)" and "kSeparator \<notin> set a"
  shows "\<exists>t'. Next t = (t', a) \<and> at_rest t' rest"
proof -
  from assms(1) obtain n where n: "tok_pos t = Some n" "n \<le> length (tok_str t)" "drop n (tok_str t) = a @ kSeparator # rest"
    "tok_sep t = kSeparator" "tok_str t \<noteq> []" by (auto simp: at_rest_def)
  have tw: "takeWhile (\<lambda>x. x \<noteq> kSeparator) (a @ kSeparator # rest) = a"
    using assms(2) by (subst takeWhile_append2) auto
  have len: "length (tok_str t) = n + length a + 1 + length rest"
    using drop_length [OF n(3,2)] by simp
  have "drop (n + length a + 1) (tok_str t) = drop (length a + 1) (drop n (tok_str t))" by (simp add: add.commute)
  then have "drop (n + length a + 1) (tok_str t) = rest" by (simp add: n(3))
  then show ?thesis
    using n tw len by (auto simp: Next_def find_first_of_def Let_def at_rest_def)
qed

lemma Next_end:
  assumes "at_rest t a" and "kSeparator \<notin> set a"
  shows "\<exists>t'. Next t = (t', a) \<and> exhausted t'"
proof -
  from assms(1) obtain n where n: "tok_pos t = Some n" "n \<le> length (tok_str t)" "drop n (tok_str t) = a"
    "tok_sep t = kSeparator" by (auto simp: at_rest_def)
  have tw: "takeWhile (\<lambda>x. x \<noteq> kSeparator) a = a" using assms(2) by (auto simp: takeWhile_eq_all_conv)
  have len: "length (tok_str t) = n + length a" by (rule drop_length [OF n(3,2)])
  show ?thesis unfolding Next_def find_first_of_def Let_def n(1,4) option.case n(3) tw len by (simp add: exhausted_def n(3))
qed

lemma Tail_rest: "at_rest t rest \<Longrightarrow> \<exists>t'. Tail t = (t', rest) \<and> exhausted t'"
  by (auto simp: Tail_def at_rest_def exhausted_def)

lemma next_field_sep:
  "at_rest t (a @ kSeparator # rest) \<Longrightarrow> kSeparator \<notin> set a \<Longrightarrow> \<exists>t'. next_field t = (t', a) \<and> at_rest t' rest"
  using Next_sep by (simp add: next_field_def)

lemma next_field_end:
  "at_rest t a \<Longrightarrow> kSeparator \<notin> set a \<Longrightarrow> \<exists>t'. next_field t = (t', a) \<and> exhausted t'"
  using Next_end by (simp add: next_field_def)

lemma tail_field_rest: "at_rest t rest \<Longrightarrow> \<exists>t'. tail_field t = (t', rest) \<and> exhausted t'"
  using Tail_rest by (simp add: tail_field_def)

text \<open>The part that all services share.\<close>

lemma parse_prefix:
  assumes "kSeparator \<notin> set p" and "kSeparator \<notin> set r" and "kSeparator \<notin> set a"
    and "(service, tag) \<in> {(Data, kDataTag), (Schema, kSchemaTag), (Pipeline, kPipelineTag)}"
  shows "\<exists>t. at_rest t rest \<and> HRN_of_string (kHrnTag @ p @ kSeparator # tag @ kSeparator # r @ kSeparator # a @ kSeparator # rest) =
     (let h = HRN_default\<lparr>hrn_partition := p, hrn_service := service, hrn_region := r, hrn_account := a\<rparr> in
      case service of
        Data \<Rightarrow> (let (t, catalog) = next_field t; (t, layer) = tail_field t in h\<lparr>hrn_catalog_id := catalog, hrn_layer_id := layer\<rparr>)
      | Schema \<Rightarrow> (let (t, group) = next_field t; (t, name) = next_field t; (t, version) = tail_field t in
                     h\<lparr>hrn_group_id := group, hrn_schema_name := name, hrn_version := version\<rparr>)
      | Pipeline \<Rightarrow> (let (t, pipeline) = tail_field t in h\<lparr>hrn_pipeline_id := pipeline\<rparr>)
      | UnknownService \<Rightarrow> h)"
proof -
  let ?s = "p @ kSeparator # tag @ kSeparator # r @ kSeparator # a @ kSeparator # rest"
  let ?t = "Tokenizer_new (kHrnTag @ ?s) kSeparator"
  have tag: "kSeparator \<notin> set tag" "tag = kDataTag \<longleftrightarrow> service = Data" "tag = kSchemaTag \<longleftrightarrow> service = Schema"
    "tag = kPipelineTag \<longleftrightarrow> service = Pipeline" "service \<noteq> UnknownService"
    using assms(4) by (auto simp: kDataTag_def kSchemaTag_def kPipelineTag_def kSeparator_def)
  have "at_rest ?t (''hrn'' @ kSeparator # ?s)"
    by (simp add: at_rest_def Tokenizer_new_def kHrnTag_def kSeparator_def)
  then obtain t0 where 0: "Next ?t = (t0, ''hrn'')" "at_rest t0 ?s"
    using Next_sep [of ?t "''hrn''" ?s] by (auto simp: kSeparator_def)
  from next_field_sep [OF 0(2) assms(1)] obtain t1 where 1: "next_field t0 = (t1, p)"
    "at_rest t1 (tag @ kSeparator # r @ kSeparator # a @ kSeparator # rest)" by blast
  from Next_sep [OF 1(2) tag(1)] obtain t2 where 2: "Next t1 = (t2, tag)" "at_rest t2 (r @ kSeparator # a @ kSeparator # rest)" by blast
  from next_field_sep [OF 2(2) assms(2)] obtain t3 where 3: "next_field t2 = (t3, r)" "at_rest t3 (a @ kSeparator # rest)" by blast
  from next_field_sep [OF 3(2) assms(3)] obtain t4 where 4: "next_field t3 = (t4, a)" "at_rest t4 rest" by blast
  have "HasNext ?t" by (simp add: HasNext_def Tokenizer_new_def kHrnTag_def)
  moreover have "HasNext t1" using 1(2) by simp
  ultimately have "HRN_of_string (kHrnTag @ ?s) =
     (let h = HRN_default\<lparr>hrn_partition := p, hrn_service := service, hrn_region := r, hrn_account := a\<rparr> in
      case service of
        Data \<Rightarrow> (let (t, catalog) = next_field t4; (t, layer) = tail_field t in h\<lparr>hrn_catalog_id := catalog, hrn_layer_id := layer\<rparr>)
      | Schema \<Rightarrow> (let (t, group) = next_field t4; (t, name) = next_field t; (t, version) = tail_field t in
                     h\<lparr>hrn_group_id := group, hrn_schema_name := name, hrn_version := version\<rparr>)
      | Pipeline \<Rightarrow> (let (t, pipeline) = tail_field t4 in h\<lparr>hrn_pipeline_id := pipeline\<rparr>)
      | UnknownService \<Rightarrow> h)"
    using 0(1) 1(1) 2(1) 3(1) 4(1) tag by (cases service) (simp_all add: HRN_of_string_def Let_def)
  with 4(2) show ?thesis by blast
qed

text \<open>A name as the constructor leaves it: only the fields of its service are set, and no field but the
  last contains the separator.\<close>

definition hrn_ok :: "hrn \<Rightarrow> bool" where
  "hrn_ok h \<longleftrightarrow> kSeparator \<notin> set (hrn_partition h) \<and> kSeparator \<notin> set (hrn_region h) \<and> kSeparator \<notin> set (hrn_account h) \<and>
     (case hrn_service h of
        Data \<Rightarrow> kSeparator \<notin> set (hrn_catalog_id h)
          \<and> hrn_group_id h = [] \<and> hrn_schema_name h = [] \<and> hrn_version h = [] \<and> hrn_pipeline_id h = []
      | Schema \<Rightarrow> kSeparator \<notin> set (hrn_group_id h) \<and> kSeparator \<notin> set (hrn_schema_name h)
          \<and> hrn_catalog_id h = [] \<and> hrn_layer_id h = [] \<and> hrn_pipeline_id h = []
      | Pipeline \<Rightarrow> hrn_catalog_id h = [] \<and> hrn_layer_id h = [] \<and> hrn_group_id h = [] \<and> hrn_schema_name h = [] \<and> hrn_version h = []
      | UnknownService \<Rightarrow> False)"

lemma HRN_roundtrip:
  assumes ok: "hrn_ok h"
  shows "HRN_of_string (ToString h) = h"
proof (cases "hrn_service h")
  case UnknownService
  with ok show ?thesis by (simp add: hrn_ok_def)
next
  case Data
  note ok' = ok [unfolded hrn_ok_def Data, simplified]
  show ?thesis
  proof (cases "hrn_layer_id h = []")
    case True
    obtain t where t: "at_rest t (hrn_catalog_id h)" "HRN_of_string (ToString h) =
      (let (t, catalog) = next_field t; (t, layer) = tail_field t in
       HRN_default\<lparr>hrn_partition := hrn_partition h, hrn_service := Data, hrn_region := hrn_region h, hrn_account := hrn_account h,
         hrn_catalog_id := catalog, hrn_layer_id := layer\<rparr>)"
      using parse_prefix [of "hrn_partition h" "hrn_region h" "hrn_account h" Data kDataTag "hrn_catalog_id h"] ok' Data True
      by (auto simp: ToString_def Let_def)
    from next_field_end [OF t(1)] ok' obtain t' where "next_field t = (t', hrn_catalog_id h)" "exhausted t'" by blast
    with t(2) True Data ok' show ?thesis by (simp add: HRN_default_def)
  next
    case False
    obtain t where t: "at_rest t (hrn_catalog_id h @ kSeparator # hrn_layer_id h)" "HRN_of_string (ToString h) =
      (let (t, catalog) = next_field t; (t, layer) = tail_field t in
       HRN_default\<lparr>hrn_partition := hrn_partition h, hrn_service := Data, hrn_region := hrn_region h, hrn_account := hrn_account h,
         hrn_catalog_id := catalog, hrn_layer_id := layer\<rparr>)"
      using parse_prefix [of "hrn_partition h" "hrn_region h" "hrn_account h" Data kDataTag "hrn_catalog_id h @ kSeparator # hrn_layer_id h"]
        ok' Data False by (auto simp: ToString_def Let_def)
    from next_field_sep [OF t(1)] ok' obtain t' where n: "next_field t = (t', hrn_catalog_id h)" "at_rest t' (hrn_layer_id h)" by blast
    from tail_field_rest [OF n(2)] obtain t'' where "tail_field t' = (t'', hrn_layer_id h)" by blast
    with t(2) n(1) Data ok' show ?thesis by (simp add: HRN_default_def)
  qed
next
  case Schema
  note ok' = ok [unfolded hrn_ok_def Schema, simplified]
  obtain t where t: "at_rest t (hrn_group_id h @ kSeparator # hrn_schema_name h @ kSeparator # hrn_version h)" "HRN_of_string (ToString h) =
    (let (t, group) = next_field t; (t, name) = next_field t; (t, version) = tail_field t in
     HRN_default\<lparr>hrn_partition := hrn_partition h, hrn_service := Schema, hrn_region := hrn_region h, hrn_account := hrn_account h,
       hrn_group_id := group, hrn_schema_name := name, hrn_version := version\<rparr>)"
    using parse_prefix [of "hrn_partition h" "hrn_region h" "hrn_account h" Schema kSchemaTag
        "hrn_group_id h @ kSeparator # hrn_schema_name h @ kSeparator # hrn_version h"] ok' Schema
    by (auto simp: ToString_def Let_def)
  from next_field_sep [OF t(1)] ok' obtain t1 where 1: "next_field t = (t1, hrn_group_id h)"
    "at_rest t1 (hrn_schema_name h @ kSeparator # hrn_version h)" by blast
  from next_field_sep [OF 1(2)] ok' obtain t2 where 2: "next_field t1 = (t2, hrn_schema_name h)" "at_rest t2 (hrn_version h)" by blast
  from tail_field_rest [OF 2(2)] obtain t3 where "tail_field t2 = (t3, hrn_version h)" by blast
  with t(2) 1(1) 2(1) Schema ok' show ?thesis by (simp add: HRN_default_def)
next
  case Pipeline
  note ok' = ok [unfolded hrn_ok_def Pipeline, simplified]
  obtain t where t: "at_rest t (hrn_pipeline_id h)" "HRN_of_string (ToString h) =
    (let (t, pipeline) = tail_field t in
     HRN_default\<lparr>hrn_partition := hrn_partition h, hrn_service := Pipeline, hrn_region := hrn_region h, hrn_account := hrn_account h,
       hrn_pipeline_id := pipeline\<rparr>)"
    using parse_prefix [of "hrn_partition h" "hrn_region h" "hrn_account h" Pipeline kPipelineTag "hrn_pipeline_id h"] ok' Pipeline
    by (auto simp: ToString_def Let_def)
  from tail_field_rest [OF t(1)] obtain t' where "tail_field t = (t', hrn_pipeline_id h)" by blast
  with t(2) Pipeline ok' show ?thesis by (simp add: HRN_default_def)
qed

lemma hrn_eqD:
  assumes "hrn_eq a b"
  shows "hrn_partition a = hrn_partition b" "hrn_service a = hrn_service b" "hrn_region a = hrn_region b"
    "hrn_account a = hrn_account b"
    "case hrn_service a of
        Data \<Rightarrow> hrn_catalog_id a = hrn_catalog_id b \<and> hrn_layer_id a = hrn_layer_id b
      | Schema \<Rightarrow> hrn_group_id a = hrn_group_id b \<and> hrn_schema_name a = hrn_schema_name b \<and> hrn_version a = hrn_version b
      | Pipeline \<Rightarrow> hrn_pipeline_id a = hrn_pipeline_id b
      | UnknownService \<Rightarrow> False"
  using assms unfolding hrn_eq_def by (simp_all only: split: if_splits) simp_all

lemma hrn_eq_same:
  assumes "hrn_ok a" "hrn_ok b" "hrn_eq a b"
  shows "a = b"
proof -
  note d = hrn_eqD [OF assms(3)]
  note ok = assms(1) [unfolded hrn_ok_def, THEN conjunct2, THEN conjunct2, THEN conjunct2]
    assms(2) [unfolded hrn_ok_def, THEN conjunct2, THEN conjunct2, THEN conjunct2]
  show ?thesis
  proof (cases "hrn_service b")
    case Data
    with ok d(5) show ?thesis by (intro hrn.equality d) (simp_all add: d(2))
  next
    case Schema
    with ok d(5) show ?thesis by (intro hrn.equality d) (simp_all add: d(2))
  next
    case Pipeline
    with ok d(5) show ?thesis by (intro hrn.equality d) (simp_all add: d(2))
  qed (use ok d(2) in simp)
qed

section \<open>Properties\<close>

text \<open>C37. Printing and parsing: a resource name of a known service, whose fields (but the last) hold no
  separator, is restored from its string.\<close>

theorem hrn_string_roundtrip:
  assumes "hrn_ok h"
  shows "HRN_of_string (ToString h) = h"
  using assms by (rule HRN_roundtrip)

definition sample_hrn :: hrn where
  "sample_hrn = HRN_default\<lparr>hrn_partition := ''here'', hrn_service := Data, hrn_region := ''eu'', hrn_account := ''org'',
     hrn_catalog_id := ''cat'', hrn_layer_id := ''a:b''\<rparr>"

theorem hrn_string_roundtrip_witness: "HRN_of_string ''hrn:here:data:eu:org:cat:a:b'' = sample_hrn"
proof -
  have "ToString sample_hrn = ''hrn:here:data:eu:org:cat:a:b''" by code_simp
  moreover have "hrn_ok sample_hrn" by code_simp
  ultimately show ?thesis using hrn_string_roundtrip [of sample_hrn] by simp
qed

text \<open>Equality of such resource names is equality of their strings. Outside the known services the
  comparison is not reflexive: a name of an unknown service differs from itself.\<close>

lemma hrn_equality:
  "(hrn_ok a \<and> hrn_ok b \<longrightarrow> (hrn_eq a b \<longleftrightarrow> ToString a = ToString b)) \<and> (hrn_service a = UnknownService \<longrightarrow> \<not> hrn_eq a a)"
proof -
  have "a = b" if "hrn_ok a" "hrn_ok b" "hrn_eq a b" using that by (rule hrn_eq_same)
  moreover have "a = b" if "hrn_ok a" "hrn_ok b" "ToString a = ToString b"
    by (rule box_equals [OF arg_cong [OF that(3), of HRN_of_string] HRN_roundtrip [OF that(1)] HRN_roundtrip [OF that(2)]])
  moreover have "hrn_eq a a" if "hrn_ok a"
    using that by (cases "hrn_service a") (auto simp: hrn_ok_def hrn_eq_def)
  ultimately show ?thesis by (auto simp: hrn_eq_def)
qed

lemma hrn_equality_witness:
  "hrn_eq sample_hrn sample_hrn \<and> \<not> hrn_eq HRN_default HRN_default"
proof -
  have "hrn_ok sample_hrn" by code_simp
  moreover have "hrn_service HRN_default = UnknownService" by (simp add: HRN_default_def)
  ultimately show ?thesis using hrn_equality [of sample_hrn sample_hrn] hrn_equality [of HRN_default HRN_default] by simp
qed

end
