(* ===== verification/PendingUrl.thy ===== *)
theory PendingUrl
  imports Prelude "HOL-Library.Multiset"
begin

text \<open>
  Merging of identical requests: \<open>PendingUrlRequest\<close> and \<open>PendingUrlRequests\<close>
  (olp-cpp-sdk-core/src/client/PendingUrlRequests.h and .cpp) with the part of \<open>CancellationContext\<close>
  and \<open>Condition\<close> they use.

  A request object lives in a heap (a list, the index is the address) because several owners share
  it; the two maps hold addresses. The order of the unordered maps is not specified; here they are
  kept sorted. A callback is a value of type \<open>'cb\<close>; the calls an operation makes, of callbacks and
  of \<open>Network::Cancel\<close>, are its list of events. Every operation runs under the mutex and is one
  step. The copies of the response and the rewinding of its stream are left out.
\<close>

section \<open>One request\<close>

record HttpResponse =
  hr_status :: int
  hr_body :: string
  hr_uploaded :: u64
  hr_downloaded :: u64

datatype 'cb event = Call 'cb HttpResponse | NetworkCancel u64

record 'cb url_request =
  http_request_id :: u64
  signaled :: bool
  is_cancelled :: bool
  sub_operation_cancel_token :: "u64 option"
  callbacks :: "(nat, 'cb) omap"
  cancelled_callbacks :: "'cb list"

definition kInvalidRequestId :: u64 where
  "kInvalidRequestId = 0"

definition kCancelledStatus :: int where
  "kCancelledStatus = -5"

definition PendingUrlRequest_new :: "'cb url_request" where
  "PendingUrlRequest_new =
     \<lparr>http_request_id = kInvalidRequestId, signaled = False, is_cancelled = False,
      sub_operation_cancel_token = None, callbacks = [], cancelled_callbacks = []\<rparr>"

definition GetCancelledResponse :: HttpResponse where
  "GetCancelledResponse =
     \<lparr>hr_status = kCancelledStatus, hr_body = ''Operation cancelled'', hr_uploaded = 0, hr_downloaded = 0\<rparr>"

text \<open>\<open>CancellationContext::CancelOperation\<close>; the token, if set, cancels a network request.\<close>

definition CancelOperation :: "'cb url_request \<Rightarrow> 'cb url_request \<times> 'cb event list" where
  "CancelOperation r =
     (if is_cancelled r then (r, [])
      else (r\<lparr>sub_operation_cancel_token := None, is_cancelled := True\<rparr>,
            case sub_operation_cancel_token r of None \<Rightarrow> [] | Some rid \<Rightarrow> [NetworkCancel rid]))"

definition Append_callback :: "'cb \<Rightarrow> 'cb url_request \<Rightarrow> 'cb url_request \<times> nat" where
  "Append_callback callback r =
     (let callback_id = length (callbacks r) in
      (r\<lparr>callbacks := om_emplace callback_id callback (callbacks r)\<rparr>, callback_id))"

definition Cancel_callback :: "nat \<Rightarrow> 'cb url_request \<Rightarrow> 'cb url_request \<times> bool \<times> 'cb event list" where
  "Cancel_callback callback_id r =
     (case map_of (callbacks r) callback_id of
        None \<Rightarrow> (r, False, [])
      | Some callback \<Rightarrow>
          (let r = r\<lparr>cancelled_callbacks := cancelled_callbacks r @ [callback],
                     callbacks := om_delete callback_id (callbacks r)\<rparr> in
           if callbacks r = [] then (let (r, events) = CancelOperation r in (r, True, events))
           else (r, True, [])))"

definition OnCompleted :: "HttpResponse \<Rightarrow> 'cb url_request \<Rightarrow> 'cb url_request \<times> 'cb event list" where
  "OnCompleted response r =
     (let cbs = map snd (callbacks r);
          cancelled_cbs = cancelled_callbacks r;
          r' = r\<lparr>callbacks := [], cancelled_callbacks := [], http_request_id := kInvalidRequestId, signaled := True\<rparr>;
          response_out = (if \<not> is_cancelled r then response else GetCancelledResponse) in
      if length cbs = 1 \<and> cancelled_cbs = [] then (r', [Call (hd cbs) response_out])
      else if length cancelled_cbs = 1 \<and> cbs = [] then (r', [Call (hd cancelled_cbs) response_out])
      else
        (let response_out' = (if cancelled_cbs \<noteq> [] \<and> hr_status response_out \<noteq> kCancelledStatus
                              then GetCancelledResponse else response_out) in
         (r', map (\<lambda>callback. Call callback response_out) cbs
              @ map (\<lambda>callback. Call callback response_out') cancelled_cbs)))"

section \<open>All requests\<close>

record 'cb url_requests =
  heap :: "'cb url_request list"
  pending_requests :: "(string, nat) omap"
  cancelled_requests :: "(string, nat) omap"

definition PendingUrlRequests_new :: "'cb url_requests" where
  "PendingUrlRequests_new = \<lparr>heap = [], pending_requests = [], cancelled_requests = []\<rparr>"

definition PendingUrlRequests_Size :: "'cb url_requests \<Rightarrow> nat" where
  "PendingUrlRequests_Size s = length (pending_requests s) + length (cancelled_requests s)"

text \<open>\<open>operator[]\<close>: the request of a URL, created if there is none.\<close>

definition get_request :: "string \<Rightarrow> 'cb url_requests \<Rightarrow> 'cb url_requests \<times> nat" where
  "get_request url s =
     (case map_of (pending_requests s) url of
        Some a \<Rightarrow> (s, a)
      | None \<Rightarrow>
          (let a = length (heap s) in
           (s\<lparr>heap := heap s @ [PendingUrlRequest_new], pending_requests := om_emplace url a (pending_requests s)\<rparr>, a)))"

definition Append_request :: "string \<Rightarrow> 'cb \<Rightarrow> 'cb url_requests \<Rightarrow> 'cb url_requests \<times> nat \<times> nat" where
  "Append_request url callback s =
     (let (s, out) = get_request url s;
          (r, callback_id) = Append_callback callback (heap s ! out) in
      (s\<lparr>heap := (heap s)[out := r]\<rparr>, callback_id, out))"

definition Cancel_request :: "string \<Rightarrow> nat \<Rightarrow> 'cb url_requests \<Rightarrow> 'cb url_requests \<times> bool \<times> 'cb event list" where
  "Cancel_request url callback_id s =
     (case map_of (pending_requests s) url of
        None \<Rightarrow> (s, True, [])
      | Some a \<Rightarrow>
          (let (r, ret, events) = Cancel_callback callback_id (heap s ! a);
               s = s\<lparr>heap := (heap s)[a := r]\<rparr>;
               s = (if is_cancelled r
                    then s\<lparr>cancelled_requests := om_emplace url a (cancelled_requests s),
                           pending_requests := om_delete url (pending_requests s)\<rparr>
                    else s) in
           (s, ret, events)))"

fun cancel_each :: "nat list \<Rightarrow> 'cb url_request list \<Rightarrow> 'cb url_request list \<times> 'cb event list" where
  "cancel_each [] h = (h, [])"
| "cancel_each (a # as) h =
     (let (r, events) = CancelOperation (h ! a); (h, events') = cancel_each as (h[a := r]) in (h, events @ events'))"

definition CancelAll :: "'cb url_requests \<Rightarrow> 'cb url_requests \<times> 'cb event list" where
  "CancelAll s =
     (let (h, events) = cancel_each (map snd (pending_requests s)) (heap s) in (s\<lparr>heap := h\<rparr>, events))"

text \<open>\<open>CancelAllAndWait\<close>: \<open>triggered a\<close> says whether the wait for the request at \<open>a\<close> ends by its
  completion; the completions themselves are steps of their own.\<close>

definition CancelAllAndWait :: "(nat \<Rightarrow> bool) \<Rightarrow> 'cb url_requests \<Rightarrow> 'cb url_requests \<times> bool \<times> 'cb event list" where
  "CancelAllAndWait triggered s =
     (let addresses = map snd (pending_requests s) @ map snd (cancelled_requests s);
          (h, events) = cancel_each addresses (heap s) in
      (s\<lparr>heap := h\<rparr>, list_all triggered addresses, events))"

definition OnRequestCompleted ::
  "u64 \<Rightarrow> string \<Rightarrow> HttpResponse \<Rightarrow> 'cb url_requests \<Rightarrow> 'cb url_requests \<times> 'cb event list" where
  "OnRequestCompleted request_id url response s =
     (let (s, request_ptr) =
        (case map_of (pending_requests s) url of
           Some a \<Rightarrow>
             if request_id = http_request_id (heap s ! a)
             then (s\<lparr>pending_requests := om_delete url (pending_requests s)\<rparr>, Some a)
             else (case map_of (cancelled_requests s) url of
                     Some a \<Rightarrow>
                       if request_id = http_request_id (heap s ! a)
                       then (s\<lparr>cancelled_requests := om_delete url (cancelled_requests s)\<rparr>, Some a) else (s, None)
                   | None \<Rightarrow> (s, None))
         | None \<Rightarrow>
             (case map_of (cancelled_requests s) url of
                Some a \<Rightarrow>
                  if request_id = http_request_id (heap s ! a)
                  then (s\<lparr>cancelled_requests := om_delete url (cancelled_requests s)\<rparr>, Some a) else (s, None)
              | None \<Rightarrow> (s, None))) in
      case request_ptr of
        None \<Rightarrow> (s, [])
      | Some a \<Rightarrow> (let (r, events) = OnCompleted response (heap s ! a) in (s\<lparr>heap := (heap s)[a := r]\<rparr>, events)))"

text \<open>A network call that was sent: \<open>ExecuteOrCancelled\<close> stores its id and the token that cancels
  it, unless the request is cancelled.\<close>

definition request_sent :: "u64 \<Rightarrow> 'cb url_request \<Rightarrow> 'cb url_request" where
  "request_sent rid r =
     (if is_cancelled r then r else r\<lparr>http_request_id := rid, sub_operation_cancel_token := Some rid\<rparr>)"

section \<open>Callbacks of one request\<close>

text \<open>The callbacks a request holds, and those an event list calls.\<close>

definition held_by :: "'cb url_request \<Rightarrow> 'cb multiset" where
  "held_by r = mset (map snd (callbacks r)) + mset (cancelled_callbacks r)"

fun called :: "'cb event list \<Rightarrow> 'cb multiset" where
  "called [] = {#}"
| "called (Call cb response # es) = add_mset cb (called es)"
| "called (NetworkCancel rid # es) = called es"

lemma called_append [simp]: "called (es @ es') = called es + called es'"
  by (induction es rule: called.induct) auto

lemma called_calls [simp]: "called (map (\<lambda>cb. Call cb (f cb)) cbs) = mset cbs"
  by (induction cbs) auto

lemma called_CancelOperation [simp]: "called (snd (CancelOperation r)) = {#}"
  by (auto simp: CancelOperation_def split: option.splits)

lemma held_CancelOperation [simp]: "held_by (fst (CancelOperation r)) = held_by r"
  by (simp add: CancelOperation_def held_by_def)

lemma mset_om_update: "map_of m k = None \<Longrightarrow> mset (om_update k v m) = add_mset (k, v) (mset m)"
proof -
  assume "map_of m k = None"
  then have "\<forall>p \<in> set m. fst p \<noteq> k" by (auto simp: map_of_eq_None_iff)
  then have "mset (filter (\<lambda>p. fst p < k) m) + mset (filter (\<lambda>p. k < fst p) m) = mset m"
    by (induction m) (auto simp: neq_iff)
  then show ?thesis by (simp add: om_update_def)
qed

lemma mset_om_delete:
  assumes "om_ok m" and "map_of m k = Some v"
  shows "mset m = add_mset (k, v) (mset (om_delete k m))"
  using assms
proof (induction m)
  case (Cons p m)
  show ?case
  proof (cases "fst p = k")
    case True
    with Cons.prems have "\<forall>q \<in> set m. fst q \<noteq> k" by (auto simp: om_ok_Cons)
    then have "om_delete k m = m" by (auto simp: om_delete_def filter_id_conv)
    with True Cons.prems show ?thesis by (cases p) (auto simp: om_delete_def)
  next
    case False
    with Cons show ?thesis by (auto simp: om_delete_def om_ok_Cons)
  qed
qed simp

lemma held_Append:
  assumes "map_of (callbacks r) (length (callbacks r)) = None"
  shows "held_by (fst (Append_callback cb r)) = add_mset cb (held_by r)"
  using mset_om_update [OF assms, of cb, THEN arg_cong [of _ _ "image_mset snd"]] assms
  by (simp add: Append_callback_def held_by_def om_emplace_def Let_def)

lemma held_Cancel:
  assumes "om_ok (callbacks r)" and "Cancel_callback cid r = (r', ret, es)"
  shows "held_by r' = held_by r" and "called es = {#}" and "om_ok (callbacks r')"
proof -
  have "held_by r' = held_by r \<and> called es = {#} \<and> om_ok (callbacks r')"
  proof (cases "map_of (callbacks r) cid")
    case None
    with assms show ?thesis by (simp add: Cancel_callback_def)
  next
    case (Some cb)
    let ?r = "r\<lparr>cancelled_callbacks := cancelled_callbacks r @ [cb], callbacks := om_delete cid (callbacks r)\<rparr>"
    have "held_by ?r = held_by r"
      using mset_om_delete [OF assms(1) Some, THEN arg_cong [of _ _ "image_mset snd"]] by (simp add: held_by_def)
    moreover have "om_ok (callbacks ?r)" using assms(1) by (simp add: keeps)
    moreover have "(r', es) = (if callbacks ?r = [] then CancelOperation ?r else (?r, []))"
      using assms(2) Some by (auto simp: Cancel_callback_def Let_def split: prod.splits if_splits)
    ultimately show ?thesis
      using held_CancelOperation [of ?r] called_CancelOperation [of ?r]
      by (cases "CancelOperation ?r") (auto simp: CancelOperation_def split: if_splits)
  qed
  then show "held_by r' = held_by r" and "called es = {#}" and "om_ok (callbacks r')" by auto
qed

text \<open>What completion calls: every active callback with the response (or the cancelled response), then
  every cancelled one; only a single cancelled callback that is alone gets the first response.\<close>

lemma OnCompleted_events:
  fixes response r
  defines "out \<equiv> (if \<not> is_cancelled r then response else GetCancelledResponse)"
  defines "out' \<equiv> (if callbacks r = [] \<and> length (cancelled_callbacks r) = 1 \<or> hr_status out = kCancelledStatus
    then out else GetCancelledResponse)"
  shows "snd (OnCompleted response r) =
    map (\<lambda>cb. Call cb out) (map snd (callbacks r)) @ map (\<lambda>cb. Call cb out') (cancelled_callbacks r)"
proof -
  define cbs where "cbs = map snd (callbacks r)"
  define ccbs where "ccbs = cancelled_callbacks r"
  have e: "callbacks r = [] \<longleftrightarrow> cbs = []" by (simp add: cbs_def)
  have "snd (OnCompleted response r) =
      (if length cbs = 1 \<and> ccbs = [] then [Call (hd cbs) out]
       else if length ccbs = 1 \<and> cbs = [] then [Call (hd ccbs) out]
       else map (\<lambda>cb. Call cb out) cbs
         @ map (\<lambda>cb. Call cb (if ccbs \<noteq> [] \<and> hr_status out \<noteq> kCancelledStatus then GetCancelledResponse else out)) ccbs)"
    by (simp add: OnCompleted_def Let_def cbs_def ccbs_def out_def)
  also have "\<dots> = map (\<lambda>cb. Call cb out) cbs @ map (\<lambda>cb. Call cb out') ccbs"
    unfolding out'_def e ccbs_def [symmetric] by (cases cbs; cases ccbs) auto
  finally show ?thesis by (simp only: cbs_def ccbs_def)
qed

lemma called_OnCompleted: "called (snd (OnCompleted response r)) = held_by r"
  unfolding OnCompleted_events called_append called_calls held_by_def ..

lemma held_OnCompleted [simp]: "held_by (fst (OnCompleted response r)) = {#}"
  by (simp add: OnCompleted_def held_by_def Let_def)

section \<open>Steps and runs\<close>

datatype 'cb url_op =
    OAppend string 'cb
  | OSent string u64
  | OCancel string nat
  | OCancelAll
  | OCompleted u64 string HttpResponse

definition sent_request :: "string \<Rightarrow> u64 \<Rightarrow> 'cb url_requests \<Rightarrow> 'cb url_requests" where
  "sent_request url rid s =
     (case map_of (pending_requests s) url of
        None \<Rightarrow> s
      | Some a \<Rightarrow> s\<lparr>heap := (heap s)[a := request_sent rid (heap s ! a)]\<rparr>)"

fun url_step :: "'cb url_op \<Rightarrow> 'cb url_requests \<Rightarrow> 'cb url_requests \<times> 'cb event list" where
  "url_step (OAppend url cb) s = (fst (Append_request url cb s), [])"
| "url_step (OSent url rid) s = (sent_request url rid s, [])"
| "url_step (OCancel url cid) s = (let (s, ret, es) = Cancel_request url cid s in (s, es))"
| "url_step OCancelAll s = CancelAll s"
| "url_step (OCompleted rid url response) s = OnRequestCompleted rid url response s"

fun url_run :: "'cb url_op list \<Rightarrow> 'cb url_requests \<Rightarrow> 'cb url_requests \<times> 'cb event list" where
  "url_run [] s = (s, [])"
| "url_run (op # ops) s = (let (s, es) = url_step op s; (s, es') = url_run ops s in (s, es @ es'))"

fun appended :: "'cb url_op \<Rightarrow> 'cb multiset" where
  "appended (OAppend url cb) = {#cb#}"
| "appended _ = {#}"

text \<open>The steps at which the code keeps every callback: the next callback id is free, and a request
  that is cancelled as a whole finds no earlier cancelled request of the same URL.\<close>

fun url_safe :: "'cb url_op \<Rightarrow> 'cb url_requests \<Rightarrow> bool" where
  "url_safe (OAppend url cb) s =
     (case map_of (pending_requests s) url of
        None \<Rightarrow> True
      | Some a \<Rightarrow> map_of (callbacks (heap s ! a)) (length (callbacks (heap s ! a))) = None)"
| "url_safe (OCancel url cid) s =
     (case map_of (pending_requests s) url of
        None \<Rightarrow> True
      | Some a \<Rightarrow> is_cancelled (fst (Cancel_callback cid (heap s ! a))) \<longrightarrow> map_of (cancelled_requests s) url = None)"
| "url_safe _ s = True"

fun url_run_safe :: "'cb url_op list \<Rightarrow> 'cb url_requests \<Rightarrow> bool" where
  "url_run_safe [] s = True"
| "url_run_safe (op # ops) s = (url_safe op s \<and> url_run_safe ops (fst (url_step op s)))"

section \<open>Invariant\<close>

definition addresses :: "'cb url_requests \<Rightarrow> nat list" where
  "addresses s = map snd (pending_requests s) @ map snd (cancelled_requests s)"

text \<open>The maps are ordered, hold distinct valid addresses, and the callbacks of every request are an
  ordered map.\<close>

definition url_inv :: "'cb url_requests \<Rightarrow> bool" where
  "url_inv s \<longleftrightarrow> om_ok (pending_requests s) \<and> om_ok (cancelled_requests s) \<and> distinct (addresses s)
     \<and> (\<forall>a \<in> set (addresses s). a < length (heap s)) \<and> (\<forall>r \<in> set (heap s). om_ok (callbacks r))"

definition held :: "'cb url_requests \<Rightarrow> 'cb multiset" where
  "held s = (\<Sum>a \<in> set (addresses s). held_by (heap s ! a))"

lemma held_update:
  assumes "a \<in> set (addresses s)" and "a < length (heap s)"
  shows "held (s\<lparr>heap := (heap s)[a := r]\<rparr>) + held_by (heap s ! a) = held s + held_by r"
proof -
  have "(\<Sum>x \<in> set (addresses s) - {a}. held_by ((heap s)[a := r] ! x)) = (\<Sum>x \<in> set (addresses s) - {a}. held_by (heap s ! x))"
    by (rule sum.cong) auto
  then show ?thesis
    using assms by (simp add: held_def addresses_def sum.remove [of _ a])
qed

lemma in_addresses:
  "map_of (pending_requests s) url = Some a \<Longrightarrow> a \<in> set (addresses s)"
  "map_of (cancelled_requests s) url = Some a \<Longrightarrow> a \<in> set (addresses s)"
  by (force simp: addresses_def dest: map_of_SomeD)+

lemma url_inv_addr: "url_inv s \<Longrightarrow> a \<in> set (addresses s) \<Longrightarrow> a < length (heap s) \<and> om_ok (callbacks (heap s ! a))"
  by (auto simp: url_inv_def)

lemma url_inv_update:
  "url_inv s \<Longrightarrow> om_ok (callbacks r) \<Longrightarrow> url_inv (s\<lparr>heap := (heap s)[a := r]\<rparr>)"
  using set_update_subset_insert [of "heap s" a r] by (auto simp: url_inv_def addresses_def)

lemma same_held:
  assumes "url_inv s" and "a \<in> set (addresses s)" and "held_by r = held_by (heap s ! a)"
  shows "held (s\<lparr>heap := (heap s)[a := r]\<rparr>) = held s"
  using held_update [OF assms(2), of r] url_inv_addr [OF assms(1,2)] assms(3) by simp

lemma cancel_each_keeps:
  "url_inv s \<Longrightarrow> set as \<subseteq> set (addresses s) \<Longrightarrow> cancel_each as (heap s) = (h, es) \<Longrightarrow>
    url_inv (s\<lparr>heap := h\<rparr>) \<and> held (s\<lparr>heap := h\<rparr>) = held s \<and> called es = {#}"
proof (induction as arbitrary: s h es)
  case (Cons a as)
  obtain r es1 where c: "CancelOperation (heap s ! a) = (r, es1)" by fastforce
  obtain h' es2 where h': "cancel_each as ((heap s)[a := r]) = (h', es2)" by fastforce
  have res: "h = h'" "es = es1 @ es2" using Cons.prems(3) c h' by simp_all
  let ?s = "s\<lparr>heap := (heap s)[a := r]\<rparr>"
  have a: "a \<in> set (addresses s)" using Cons.prems(2) by simp
  have r: "held_by r = held_by (heap s ! a)" "called es1 = {#}"
    using held_CancelOperation [of "heap s ! a"] called_CancelOperation [of "heap s ! a"] c by simp_all
  have "callbacks r = callbacks (heap s ! a)" using c by (auto simp: CancelOperation_def split: if_splits)
  then have inv: "url_inv ?s"
    using Cons.prems(1) url_inv_addr [OF Cons.prems(1) a] by (intro url_inv_update) simp_all
  have "set as \<subseteq> set (addresses ?s)" using Cons.prems(2) by (simp add: addresses_def)
  from Cons.IH [OF inv this, of h' es2] h' have "url_inv (?s\<lparr>heap := h'\<rparr>)" "held (?s\<lparr>heap := h'\<rparr>) = held ?s" "called es2 = {#}"
    by simp_all
  with same_held [OF Cons.prems(1) a r(1)] r(2) res show ?case by simp
qed auto

text \<open>Removing an address from the maps takes its callbacks out.\<close>

lemma distinct_om_delete:
  assumes "om_ok m" and "map_of m k = Some a" and "distinct (map snd m)"
  shows "set (map snd (om_delete k m)) = set (map snd m) - {a}" and "distinct (map snd (om_delete k m))"
proof -
  have m: "mset (map snd m) = add_mset a (mset (map snd (om_delete k m)))"
    using mset_om_delete [OF assms(1,2), THEN arg_cong [of _ _ "image_mset snd"]] by simp
  then have "distinct (a # map snd (om_delete k m))"
    using assms(3) by (metis mset.simps(2) mset_eq_imp_distinct_iff)
  moreover have "set (map snd m) = set (a # map snd (om_delete k m))"
    using m by (intro mset_eq_setD) simp
  ultimately show "set (map snd (om_delete k m)) = set (map snd m) - {a}" and "distinct (map snd (om_delete k m))" by auto
qed

lemma sum_remove_held:
  assumes "a \<in> A" and "finite A"
  shows "(\<Sum>x \<in> A - {a}. f x) + f a = (\<Sum>x \<in> A. (f x :: 'a multiset))"
  using sum.remove [OF assms(2,1), of f] by (simp add: add.commute)

text \<open>Every safe step keeps the invariant and accounts for every callback.\<close>

definition accounts :: "'cb multiset \<Rightarrow> 'cb url_requests \<Rightarrow> 'cb url_requests \<times> 'cb event list \<Rightarrow> bool" where
  "accounts new s res \<longleftrightarrow> url_inv (fst res) \<and> called (snd res) + held (fst res) = held s + new"

lemma get_request_inv:
  assumes inv: "url_inv s" and g: "get_request url s = (s', a)"
  shows "url_inv s' \<and> held s' = held s \<and> a \<in> set (addresses s')"
proof (cases "map_of (pending_requests s) url")
  case (Some b)
  with assms in_addresses(1) [OF Some] show ?thesis by (simp add: get_request_def)
next
  case None
  let ?a = "length (heap s)"
  from None g have s': "s' = s\<lparr>heap := heap s @ [PendingUrlRequest_new], pending_requests := om_update url ?a (pending_requests s)\<rparr>"
    "a = ?a" by (auto simp: get_request_def om_emplace_def Let_def)
  have m: "mset (addresses s') = add_mset ?a (mset (addresses s))"
    using mset_om_update [OF None, of ?a, THEN arg_cong [of _ _ "image_mset snd"]] by (simp add: addresses_def s')
  then have set: "set (addresses s') = insert ?a (set (addresses s))"
    by (metis mset.simps(2) mset_eq_setD list.simps(15))
  have new: "?a \<notin> set (addresses s)" using inv by (auto simp: url_inv_def)
  have "distinct (?a # addresses s)" using new inv by (simp add: url_inv_def)
  then have "distinct (addresses s')" using m by (metis mset.simps(2) mset_eq_imp_distinct_iff)
  then have "url_inv s'"
    using inv set by (auto simp: url_inv_def s' keeps PendingUrlRequest_new_def less_Suc_eq)
  moreover have "held s' = held s"
  proof -
    have "(\<Sum>x \<in> set (addresses s). held_by (heap s' ! x)) = held s"
      unfolding held_def using inv by (intro sum.cong) (auto simp: s' url_inv_def nth_append)
    then show ?thesis
      unfolding held_def set using new by (simp add: s' nth_append held_by_def PendingUrlRequest_new_def)
  qed
  ultimately show ?thesis using set s'(2) by simp
qed

lemma Append_accounts:
  assumes inv: "url_inv s" and safe: "url_safe (OAppend url cb) s"
  shows "accounts {#cb#} s (url_step (OAppend url cb) s)"
proof -
  obtain s1 a where g: "get_request url s = (s1, a)" by fastforce
  obtain r cid where r: "Append_callback cb (heap s1 ! a) = (r, cid)" by fastforce
  from get_request_inv [OF inv g] have s1: "url_inv s1" "held s1 = held s" "a \<in> set (addresses s1)" by auto
  from url_inv_addr [OF s1(1,3)] have a: "a < length (heap s1)" "om_ok (callbacks (heap s1 ! a))" by auto
  have "map_of (callbacks (heap s1 ! a)) (length (callbacks (heap s1 ! a))) = None"
    using safe g by (auto simp: get_request_def Let_def nth_append PendingUrlRequest_new_def split: option.splits)
  from held_Append [OF this, of cb] r have h: "held_by r = add_mset cb (held_by (heap s1 ! a))" by simp
  have "om_ok (callbacks r)" using r a(2) by (auto simp: Append_callback_def Let_def keeps)
  with s1 have "url_inv (s1\<lparr>heap := (heap s1)[a := r]\<rparr>)" by (intro url_inv_update)
  moreover have "held (s1\<lparr>heap := (heap s1)[a := r]\<rparr>) = add_mset cb (held s)"
    using held_update [OF s1(3) a(1), of r] h s1(2) by simp
  moreover have "url_step (OAppend url cb) s = (s1\<lparr>heap := (heap s1)[a := r]\<rparr>, [])"
    using g r by (simp add: Append_request_def)
  ultimately show ?thesis by (simp add: accounts_def)
qed

lemma Sent_accounts:
  assumes inv: "url_inv s"
  shows "accounts {#} s (url_step (OSent url rid) s)"
proof (cases "map_of (pending_requests s) url")
  case None
  with inv show ?thesis by (simp add: accounts_def sent_request_def)
next
  case (Some a)
  let ?r = "request_sent rid (heap s ! a)"
  note a = in_addresses(1) [OF Some]
  have "held_by ?r = held_by (heap s ! a)" "callbacks ?r = callbacks (heap s ! a)" by (simp_all add: request_sent_def held_by_def)
  with same_held [OF inv a, of ?r] url_inv_update [OF inv, of ?r a] url_inv_addr [OF inv a] Some
  show ?thesis by (simp add: accounts_def sent_request_def)
qed

lemma addresses_moved:
  assumes inv: "url_inv s" and p: "map_of (pending_requests s) url = Some a" and c: "map_of (cancelled_requests s) url = None"
  defines "s' \<equiv> s\<lparr>cancelled_requests := om_emplace url a (cancelled_requests s), pending_requests := om_delete url (pending_requests s)\<rparr>"
  shows "url_inv s' \<and> held s' = held s"
proof -
  have "mset (map snd (pending_requests s)) = add_mset a (mset (map snd (om_delete url (pending_requests s))))"
    using mset_om_delete [OF _ p, THEN arg_cong [of _ _ "image_mset snd"]] inv by (simp add: url_inv_def)
  moreover have "mset (map snd (om_emplace url a (cancelled_requests s))) = add_mset a (mset (map snd (cancelled_requests s)))"
    using mset_om_update [OF c, of a, THEN arg_cong [of _ _ "image_mset snd"]] c by (simp add: om_emplace_def)
  ultimately have m: "mset (addresses s') = mset (addresses s)" by (simp add: addresses_def s'_def)
  then have "set (addresses s') = set (addresses s)" "distinct (addresses s') = distinct (addresses s)"
    by (rule mset_eq_setD, rule mset_eq_imp_distinct_iff)
  with inv show ?thesis by (simp add: url_inv_def held_def s'_def keeps)
qed

lemma Cancel_accounts:
  assumes inv: "url_inv s" and safe: "url_safe (OCancel url cid) s"
  shows "accounts {#} s (url_step (OCancel url cid) s)"
proof (cases "map_of (pending_requests s) url")
  case None
  with inv show ?thesis by (simp add: accounts_def Cancel_request_def)
next
  case (Some a)
  note a = in_addresses(1) [OF Some]
  obtain r ret es where r: "Cancel_callback cid (heap s ! a) = (r, ret, es)" by (metis prod_cases3)
  note h = held_Cancel [OF conjunct2 [OF url_inv_addr [OF inv a]] r]
  let ?s = "s\<lparr>heap := (heap s)[a := r]\<rparr>"
  have 1: "url_inv ?s" "held ?s = held s" using url_inv_update [OF inv h(3)] same_held [OF inv a h(1)] by simp_all
  show ?thesis
  proof (cases "is_cancelled r")
    case True
    with safe Some r have "map_of (cancelled_requests ?s) url = None" by simp
    from addresses_moved [OF 1(1) _ this, of a] Some 1 True r h(2) show ?thesis
      by (simp add: accounts_def Cancel_request_def)
  next
    case False
    with Some 1 r h(2) show ?thesis by (simp add: accounts_def Cancel_request_def)
  qed
qed

lemma CancelAll_accounts:
  assumes "url_inv s"
  shows "accounts {#} s (url_step OCancelAll s)"
proof -
  obtain h es where c: "cancel_each (map snd (pending_requests s)) (heap s) = (h, es)" by fastforce
  have "set (map snd (pending_requests s)) \<subseteq> set (addresses s)" by (auto simp: addresses_def)
  from cancel_each_keeps [OF assms this c] c show ?thesis by (simp add: accounts_def CancelAll_def)
qed

lemma Completed_at:
  assumes inv: "url_inv s" and a: "a \<in> set (addresses s)"
    and s': "set (addresses s') = set (addresses s) - {a}" "distinct (addresses s')" "om_ok (pending_requests s')"
      "om_ok (cancelled_requests s')" "heap s' = heap s" and c: "OnCompleted response (heap s ! a) = (r, es)"
  shows "accounts {#} s (s'\<lparr>heap := (heap s')[a := r]\<rparr>, es)"
proof -
  have "called es = held_by (heap s ! a)" using called_OnCompleted [of response "heap s ! a"] c by simp
  moreover have "callbacks r = []" using c by (auto simp: OnCompleted_def Let_def split: if_splits)
  moreover have "url_inv s'" using inv s' by (auto simp: url_inv_def)
  moreover have "held (s'\<lparr>heap := (heap s')[a := r]\<rparr>) = (\<Sum>x \<in> set (addresses s) - {a}. held_by (heap s ! x))"
    unfolding held_def using s'(1,5) by (intro sum.cong) (auto simp: addresses_def)
  moreover have "held s = held_by (heap s ! a) + (\<Sum>x \<in> set (addresses s) - {a}. held_by (heap s ! x))"
    unfolding held_def using a by (simp add: sum.remove)
  ultimately show ?thesis using url_inv_update [of s' r a] by (simp add: accounts_def)
qed

lemma Completed_accounts:
  assumes inv: "url_inv s"
  shows "accounts {#} s (url_step (OCompleted rid url response) s)"
proof -
  define r where "r a = fst (OnCompleted response (heap s ! a))" for a
  define es where "es a = snd (OnCompleted response (heap s ! a))" for a
  have p: "OnCompleted response (heap s ! a) = (r a, es a)" for a by (simp add: r_def es_def)
  have d: "distinct (map snd (pending_requests s))" "distinct (map snd (cancelled_requests s))"
    "snd ` set (pending_requests s) \<inter> snd ` set (cancelled_requests s) = {}"
    "om_ok (pending_requests s)" "om_ok (cancelled_requests s)"
    using inv by (auto simp: url_inv_def addresses_def)
  have pending: "accounts {#} s (s\<lparr>pending_requests := om_delete url (pending_requests s), heap := (heap s)[a := r a]\<rparr>, es a)"
    if "map_of (pending_requests s) url = Some a" for a
  proof -
    have "set (addresses (s\<lparr>pending_requests := om_delete url (pending_requests s)\<rparr>)) = set (addresses s) - {a}"
      using distinct_om_delete [OF d(4) that d(1)] d(3) map_of_SomeD [OF that] by (force simp: addresses_def)
    moreover have "distinct (addresses (s\<lparr>pending_requests := om_delete url (pending_requests s)\<rparr>))"
      using distinct_om_delete [OF d(4) that d(1)] d by (auto simp: addresses_def)
    ultimately show ?thesis
      using Completed_at [OF inv in_addresses(1) [OF that], of "s\<lparr>pending_requests := om_delete url (pending_requests s)\<rparr>", OF _ _ _ _ _ p] d
      by (simp add: keeps)
  qed
  have cancelled: "accounts {#} s (s\<lparr>cancelled_requests := om_delete url (cancelled_requests s), heap := (heap s)[a := r a]\<rparr>, es a)"
    if "map_of (cancelled_requests s) url = Some a" for a
  proof -
    have "set (addresses (s\<lparr>cancelled_requests := om_delete url (cancelled_requests s)\<rparr>)) = set (addresses s) - {a}"
      using distinct_om_delete [OF d(5) that d(2)] d(3) map_of_SomeD [OF that] by (force simp: addresses_def)
    moreover have "distinct (addresses (s\<lparr>cancelled_requests := om_delete url (cancelled_requests s)\<rparr>))"
      using distinct_om_delete [OF d(5) that d(2)] d by (auto simp: addresses_def)
    ultimately show ?thesis
      using Completed_at [OF inv in_addresses(2) [OF that], of "s\<lparr>cancelled_requests := om_delete url (cancelled_requests s)\<rparr>", OF _ _ _ _ _ p] d
      by (simp add: keeps)
  qed
  have "accounts {#} s (s, [])" using inv by (simp add: accounts_def)
  with pending cancelled show ?thesis
    by (auto simp: OnRequestCompleted_def Let_def p split: option.splits if_splits)
qed

lemma url_step_accounts: "url_inv s \<Longrightarrow> url_safe op s \<Longrightarrow> accounts (appended op) s (url_step op s)"
  by (cases op) (simp_all only: appended.simps Append_accounts Sent_accounts Cancel_accounts CancelAll_accounts Completed_accounts)

lemma url_run_accounts:
  "url_inv s \<Longrightarrow> url_run_safe ops s \<Longrightarrow> accounts (\<Sum>op \<leftarrow> ops. appended op) s (url_run ops s)"
proof (induction ops arbitrary: s)
  case (Cons op ops)
  obtain s1 es1 where 1: "url_step op s = (s1, es1)" by fastforce
  obtain s2 es2 where 2: "url_run ops s1 = (s2, es2)" by fastforce
  have a: "accounts (appended op) s (s1, es1)" using url_step_accounts [of s op] Cons.prems 1 by simp
  then have "accounts (\<Sum>op \<leftarrow> ops. appended op) s1 (s2, es2)"
    using Cons.IH [of s1] Cons.prems(2) 1 2 by (simp add: accounts_def)
  with a 1 2 show ?case by (auto simp: accounts_def add.assoc)
qed (simp add: accounts_def)

lemma url_inv_new [simp]: "url_inv PendingUrlRequests_new" "held PendingUrlRequests_new = {#}"
  by (simp_all add: url_inv_def PendingUrlRequests_new_def addresses_def held_def)

section \<open>Properties\<close>

text \<open>C3. No callback is lost or called twice: in every run from the start in which no callback id is
  reused and no cancelled request meets an earlier cancelled request of its URL, the callbacks
  that were called and those still waiting are together exactly the appended ones.\<close>

theorem every_callback_once:
  assumes "url_run_safe ops PendingUrlRequests_new"
  shows "called (snd (url_run ops PendingUrlRequests_new)) + held (fst (url_run ops PendingUrlRequests_new))
    = (\<Sum>op \<leftarrow> ops. appended op)"
  using url_run_accounts [OF url_inv_new(1) assms] by (simp add: accounts_def)

definition ok_response :: HttpResponse where
  "ok_response = \<lparr>hr_status = 200, hr_body = ''ok'', hr_uploaded = 1, hr_downloaded = 2\<rparr>"

definition merged_run :: "nat url_op list" where
  "merged_run = [OAppend ''u'' 1, OSent ''u'' 7, OAppend ''u'' 2, OAppend ''v'' 3, OCancel ''u'' 0, OCompleted 7 ''u'' ok_response]"

theorem every_callback_once_witness:
  "called (snd (url_run merged_run PendingUrlRequests_new)) + held (fst (url_run merged_run PendingUrlRequests_new)) = {#1, 2, 3#}
   \<and> snd (url_run merged_run PendingUrlRequests_new) = [Call 2 ok_response, Call 1 GetCancelledResponse]"
proof -
  have "url_run_safe merged_run PendingUrlRequests_new" by code_simp
  moreover have "snd (url_run merged_run PendingUrlRequests_new) = [Call 2 ok_response, Call 1 GetCancelledResponse]" by code_simp
  moreover have "(\<Sum>op \<leftarrow> merged_run. appended op) = {#1, 2, 3#}" by (simp add: merged_run_def)
  ultimately show ?thesis using every_callback_once [of merged_run] by simp
qed

text \<open>The id of a new callback is the number of callbacks, which after a cancellation is the id of
  a callback that is still there: the new callback is dropped and never called.\<close>

lemma append_after_cancel_loses_callback:
  "snd (url_run [OAppend ''u'' (1::nat), OSent ''u'' 7, OAppend ''u'' 2, OCancel ''u'' 0, OAppend ''u'' 3, OCompleted 7 ''u'' ok_response]
      PendingUrlRequests_new) = [Call 2 ok_response, Call 1 GetCancelledResponse]
   \<and> held (fst (url_run [OAppend ''u'' (1::nat), OSent ''u'' 7, OAppend ''u'' 2, OCancel ''u'' 0, OAppend ''u'' 3, OCompleted 7 ''u'' ok_response]
      PendingUrlRequests_new)) = {#}"
  by (rule conjI; code_simp)

text \<open>A second request for a URL that is cancelled while the first cancelled one has not completed is
  in neither map: its completion finds no request and its callback is never called.\<close>

lemma second_cancelled_request_lost:
  "snd (url_run [OAppend ''u'' (1::nat), OSent ''u'' 7, OCancel ''u'' 0, OAppend ''u'' 2, OSent ''u'' 8, OCancel ''u'' 0,
      OCompleted 8 ''u'' ok_response, OCompleted 7 ''u'' ok_response] PendingUrlRequests_new)
    = [NetworkCancel 7, NetworkCancel 8, Call 1 GetCancelledResponse]"
  by code_simp

end
