(* ===== verification/Url.thy ===== *)
theory Url
  imports Prelude
begin

text \<open>
  \<open>olp::utils::Url\<close> (olp-cpp-sdk-core/src/utils/Url.cpp): percent encoding, decoding and construction of
  a URL with query parameters. Strings are sequences of bytes; \<open>Decode\<close> uses a 32-bit index, so its
  model is for inputs below \<open>2^32\<close> characters. \<open>ParseHostAndRest\<close> is a regular expression of the
  standard library and is not modelled.
\<close>

section \<open>The code\<close>

definition byte :: "char \<Rightarrow> nat" where
  "byte c = of_char c"

definition IsHexDigit :: "char \<Rightarrow> bool" where
  "IsHexDigit c \<longleftrightarrow> (48 \<le> byte c \<and> byte c \<le> 57) \<or> (65 \<le> byte c \<and> byte c \<le> 70) \<or> (97 \<le> byte c \<and> byte c \<le> 102)"

definition hex_value :: "char \<Rightarrow> nat" where
  "hex_value c =
     (if 97 \<le> byte c then byte c - 87 else if 65 \<le> byte c then byte c - 55 else byte c - 48)"

text \<open>\<open>HexToInt\<close> on two hexadecimal digits.\<close>

definition HexToInt :: "char \<Rightarrow> char \<Rightarrow> nat" where
  "HexToInt hi lo = 16 * hex_value hi + hex_value lo"

text \<open>\<open>Decode\<close> from the read position on. The test \<open>read_idx < in.size() - 2\<close> together with the two
  tests for hexadecimal digits asks for two more characters that are hexadecimal digits; with a
  single character the subtraction wraps, but the terminating null is not a digit.\<close>

fun Decode :: "string \<Rightarrow> string" where
  "Decode [] = []"
| "Decode (c # h # l # rest) =
     (if c = CHR ''%'' \<and> IsHexDigit h \<and> IsHexDigit l then char_of (HexToInt h l) # Decode rest
      else (if c = CHR ''+'' then CHR '' '' else c) # Decode (h # l # rest))"
| "Decode (c # rest) = (if c = CHR ''+'' then CHR '' '' else c) # Decode rest"

text \<open>The comparisons are on \<open>char\<close>; with a signed type a byte from 128 on is negative and hence below
  \<open>a\<close>, with an unsigned type it is above \<open>z\<close>: either way it is encoded.\<close>

definition unreserved :: "char \<Rightarrow> bool" where
  "unreserved c \<longleftrightarrow>
     (97 \<le> byte c \<and> byte c \<le> 122) \<or> (65 \<le> byte c \<and> byte c \<le> 90) \<or> (48 \<le> byte c \<and> byte c \<le> 57)
     \<or> c = CHR ''.'' \<or> c = CHR ''-'' \<or> c = CHR ''~'' \<or> c = CHR ''_''"

text \<open>A digit of the conversion \<open>%.2X\<close>.\<close>

definition hex_digit :: "nat \<Rightarrow> char" where
  "hex_digit n = char_of (if n < 10 then 48 + n else 55 + n)"

definition Encode :: "string \<Rightarrow> string" where
  "Encode s =
     concat (map (\<lambda>c. if unreserved c then [c] else [CHR ''%'', hex_digit (byte c div 16), hex_digit (byte c mod 16)]) s)"

text \<open>The multimap of query parameters is its sequence of entries.\<close>

fun query_string :: "bool \<Rightarrow> (string \<times> string) list \<Rightarrow> string" where
  "query_string first_param [] = []"
| "query_string first_param ((key, val) # params) =
     (if first_param then ''?'' else ''&'') @ Encode key @ ''='' @ Encode val @ query_string False params"

definition Construct :: "string \<Rightarrow> string \<Rightarrow> (string \<times> string) list \<Rightarrow> string" where
  "Construct base path query_params = base @ path @ query_string True query_params"

section \<open>Characters\<close>

lemma byte_less [simp]: "byte c < 256"
  using nat_of_char_less_256 [of c] by (simp add: byte_def)

lemma byte_char_of [simp]: "n < 256 \<Longrightarrow> byte (char_of n) = n"
  by (simp add: byte_def)

lemma char_of_byte [simp]: "char_of (byte c) = c"
  by (simp add: byte_def)

lemma hex_digit_value [simp]: "n < 16 \<Longrightarrow> hex_value (hex_digit n) = n"
  by (simp add: hex_value_def hex_digit_def)

lemma hex_digit_is_hex [simp]: "n < 16 \<Longrightarrow> IsHexDigit (hex_digit n)"
  by (simp add: IsHexDigit_def hex_digit_def)

lemma hex_digit_unreserved: "n < 16 \<Longrightarrow> unreserved (hex_digit n)"
  by (auto simp: unreserved_def hex_digit_def)

lemma byte_div [simp]: "byte c div 16 < 16"
  by (rule less_mult_imp_div_less) simp

lemma HexToInt_byte [simp]: "HexToInt (hex_digit (byte c div 16)) (hex_digit (byte c mod 16)) = byte c"
  by (simp add: HexToInt_def)

lemma unreserved_plain [simp]: "unreserved c \<Longrightarrow> c \<noteq> CHR ''%'' \<and> c \<noteq> CHR ''+'' \<and> c \<noteq> CHR ''&'' \<and> c \<noteq> CHR ''=''"
  by (auto simp: unreserved_def byte_def)

section \<open>Round trip\<close>

lemma Decode_plain: "c \<noteq> CHR ''%'' \<Longrightarrow> c \<noteq> CHR ''+'' \<Longrightarrow> Decode (c # s) = c # Decode s"
  by (cases "c # s" rule: Decode.cases) auto

lemma Encode_Nil [simp]: "Encode [] = []"
  by (simp add: Encode_def)

lemma Encode_Cons:
  "Encode (c # s) = (if unreserved c then [c] else [CHR ''%'', hex_digit (byte c div 16), hex_digit (byte c mod 16)]) @ Encode s"
  by (simp add: Encode_def)

lemma Decode_Encode: "Decode (Encode s) = s"
proof (induction s)
  case (Cons c s)
  then show ?case by (simp add: Encode_Cons Decode_plain)
qed simp

lemma Encode_safe: "c \<in> set (Encode s) \<Longrightarrow> unreserved c \<or> c = CHR ''%''"
proof (induction s)
  case (Cons x s)
  then show ?case by (auto simp: Encode_Cons hex_digit_unreserved split: if_splits)
qed simp

section \<open>Query strings\<close>

text \<open>How a server reads a query: fields between \<open>&\<close>, each split at the first \<open>=\<close>, both sides
  decoded.\<close>

fun split_at :: "char \<Rightarrow> string \<Rightarrow> string list" where
  "split_at c [] = [[]]"
| "split_at c (x # xs) =
     (if x = c then [] # split_at c xs
      else case split_at c xs of [] \<Rightarrow> [[x]] | p # ps \<Rightarrow> (x # p) # ps)"

definition read_field :: "string \<Rightarrow> string \<times> string" where
  "read_field f = (Decode (takeWhile (\<lambda>c. c \<noteq> CHR ''='') f), Decode (tl (dropWhile (\<lambda>c. c \<noteq> CHR ''='') f)))"

definition read_query :: "string \<Rightarrow> (string \<times> string) list" where
  "read_query q = (case q of [] \<Rightarrow> [] | _ # fields \<Rightarrow> map read_field (split_at (CHR ''&'') fields))"

lemma split_at_ne [simp]: "split_at c s \<noteq> []"
  by (induction s) (auto split: list.split)

lemma split_at_none: "c \<notin> set a \<Longrightarrow> split_at c a = [a]"
  by (induction a) auto

lemma split_at_sep: "c \<notin> set a \<Longrightarrow> split_at c (a @ c # s) = a # split_at c s"
  by (induction a) auto

definition field :: "string \<times> string \<Rightarrow> string" where
  "field p = Encode (fst p) @ ''='' @ Encode (snd p)"

lemma Encode_no_sep: "CHR ''&'' \<notin> set (Encode s)" "CHR ''='' \<notin> set (Encode s)"
proof -
  have "\<not> unreserved (CHR ''&'')" "\<not> unreserved (CHR ''='')" using unreserved_plain by blast+
  then show "CHR ''&'' \<notin> set (Encode s)" "CHR ''='' \<notin> set (Encode s)"
    using Encode_safe [of "CHR ''&''" s] Encode_safe [of "CHR ''=''" s] by auto
qed

lemma read_field_field: "read_field (field p) = p"
proof -
  have "takeWhile (\<lambda>c. c \<noteq> CHR ''='') (Encode (fst p) @ CHR ''='' # Encode (snd p)) = Encode (fst p)"
    "dropWhile (\<lambda>c. c \<noteq> CHR ''='') (Encode (fst p) @ CHR ''='' # Encode (snd p)) = CHR ''='' # Encode (snd p)"
    using Encode_no_sep(2) [of "fst p"] by (subst takeWhile_append2 dropWhile_append2; auto)+
  then show ?thesis by (simp add: read_field_def field_def Decode_Encode)
qed

lemma field_no_sep: "CHR ''&'' \<notin> set (field p)"
  by (simp add: field_def Encode_no_sep)

lemma query_string_fields:
  "split_at (CHR ''&'') (field p @ query_string False ps) = map field (p # ps)"
proof (induction ps arbitrary: p)
  case Nil
  then show ?case by (simp add: split_at_none field_no_sep)
next
  case (Cons q ps)
  have "query_string False (q # ps) = CHR ''&'' # field q @ query_string False ps"
    by (cases q) (simp add: field_def)
  with Cons show ?case by (simp add: split_at_sep field_no_sep)
qed

text \<open>Percent encoding is undone by decoding, for every sequence of bytes, and the encoding uses
  only unreserved characters and the percent sign.\<close>

lemma url_encode_roundtrip:
  "Decode (Encode s) = s \<and> (\<forall>c. c \<in> set (Encode s) \<longrightarrow> unreserved c \<or> c = CHR ''%'')"
  using Decode_Encode Encode_safe by blast

lemma url_encode_roundtrip_witness: "Decode (Encode ''a&b=100%'') = ''a&b=100%'' \<and> unreserved (hd (Encode ''a&b''))"
proof -
  have "hd (Encode ''a&b'') \<in> set (Encode ''a&b'')" by code_simp
  moreover have "hd (Encode ''a&b'') \<noteq> CHR ''%''" by code_simp
  ultimately show ?thesis
    using url_encode_roundtrip [of "''a&b''"] url_encode_roundtrip [of "''a&b=100%''"] by blast
qed

text \<open>Construction keeps the query parameters apart: what follows base and path reads back as
  exactly the given parameters, in their order, whatever characters they contain.\<close>

lemma url_query_roundtrip:
  "\<exists>q. Construct base path params = base @ path @ q \<and> read_query q = params"
proof (cases params)
  case Nil
  then show ?thesis by (simp add: Construct_def read_query_def)
next
  case (Cons p ps)
  have "query_string True params = CHR ''?'' # field p @ query_string False ps"
    using Cons by (cases p) (simp add: field_def)
  then have "read_query (query_string True params) = map read_field (map field params)"
    using query_string_fields [of p ps] Cons by (simp add: read_query_def)
  then show ?thesis by (auto simp: Construct_def o_def read_field_field)
qed

end
