(* ===== verification/OlpClient.thy ===== *)
theory OlpClient
  imports PendingUrl Url DiskCache
begin

text \<open>
  The HTTP client (olp-cpp-sdk-core/src/client/OlpClient.cpp) with its retry settings
  (RetrySettings.cpp, BackdownStrategy.h) and the classification of status codes
  (http/HttpStatusCode.h).

  The network is a parameter: what it answers to the i-th attempt of a synchronous call is
  \<open>env i\<close>; in the asynchronous call every answer is a step. The clock is not modelled, waiting times
  are. Times are in milliseconds, as mathematical integers. Log output, proxy and timeout settings
  that are only handed to the network are left out.
\<close>

section \<open>Status codes\<close>

definition kErrIO :: int where "kErrIO = -1"

definition kErrAuthorization :: int where "kErrAuthorization = -2"

definition kErrInvalidUrl :: int where "kErrInvalidUrl = -3"

definition kErrOffline :: int where "kErrOffline = -4"

definition kErrCancelled :: int where "kErrCancelled = -5"

definition kErrAuthentication :: int where "kErrAuthentication = -6"

definition kErrTimeout :: int where "kErrTimeout = -7"

definition kErrNetworkOverload :: int where "kErrNetworkOverload = -8"

definition kErrUnknown :: int where "kErrUnknown = -9"

lemmas error_codes = kErrIO_def kErrAuthorization_def kErrInvalidUrl_def kErrOffline_def kErrCancelled_def
  kErrAuthentication_def kErrTimeout_def kErrNetworkOverload_def kErrUnknown_def

definition IsRetryable :: "int \<Rightarrow> bool" where
  "IsRetryable http_code =
     (if http_code < 0 then False else http_code \<in> {500, 503, 429, 509, 408, 419, 440, 504, 598, 599})"

definition GetErrorCode :: "int \<Rightarrow> ErrorCode" where
  "GetErrorCode http_code =
     (if http_code < 0 then
        if http_code = kErrOffline then Offline
        else if http_code = kErrIO then NetworkConnection
        else if http_code = kErrTimeout then RequestTimeout
        else if http_code = kErrCancelled then Cancelled
        else if http_code = kErrAuthorization \<or> http_code = kErrAuthentication then AccessDenied
        else if http_code = kErrInvalidUrl then ServiceUnavailable
        else if http_code = kErrNetworkOverload then SlowDown
        else Unknown
      else if http_code = 400 then BadRequest
      else if http_code = 401 \<or> http_code = 403 then AccessDenied
      else if http_code = 404 then NotFound
      else if http_code = 412 then PreconditionFailed
      else if http_code = 429 \<or> http_code = 509 then SlowDown
      else if http_code = 500 then InternalFailure
      else if http_code = 503 then ServiceUnavailable
      else if http_code \<in> {408, 419, 440, 504, 598, 599} then RequestTimeout
      else Unknown)"

definition StatusSuccess :: "int \<Rightarrow> bool" where
  "StatusSuccess status \<longleftrightarrow> 0 \<le> status \<and> status < 400"

section \<open>Retry settings\<close>

record RetrySettings =
  max_attempts :: int
  retry_timeout :: int
  initial_backdown_period :: int
  backdown_strategy :: "(int \<Rightarrow> nat \<Rightarrow> int) option"
  retry_condition :: "HttpResponse \<Rightarrow> bool"

definition DefaultRetryCondition :: "HttpResponse \<Rightarrow> bool" where
  "DefaultRetryCondition response =
     (let status = hr_status response in
      if 500 \<le> status \<and> status \<le> 599 \<or> status = 429 then True
      else if status = kErrIO \<or> status = kErrOffline \<or> status = kErrTimeout \<or> status = kErrNetworkOverload then True
      else False)"

text \<open>The strategies draw a random number \<open>rnd\<close> between 0 and a bound. In the first, the bound is a
  product of 64-bit numbers that becomes a signed number; a shift by 64 or more and an interval
  with a negative end are undefined (\<open>None\<close>). In the second, the exponent is limited and the
  product of two numbers below \<open>2^31\<close> and \<open>2^31\<close> fits.\<close>

definition ExponentialBackdownStrategy :: "nat \<Rightarrow> int \<Rightarrow> nat \<Rightarrow> int option" where
  "ExponentialBackdownStrategy rnd initial retry_count =
     (if 64 \<le> retry_count then None
      else
        (let exponential_wait_time = sint (word_of_int initial * push_bit retry_count 1 :: u64) in
         if exponential_wait_time < 0 then None else Some (int rnd mod (exponential_wait_time + 1))))"

definition EqualJitterBackdownStrategy :: "int \<Rightarrow> nat \<Rightarrow> int \<Rightarrow> nat \<Rightarrow> int" where
  "EqualJitterBackdownStrategy cap rnd initial retry_count =
     (let retry_count = min retry_count 30;
          exponential_wait_time = initial * 2 ^ retry_count;
          temp = min cap exponential_wait_time in
      temp div 2 + int rnd mod (temp div 2 + 1))"

definition CalculateNextWaitTime :: "RetrySettings \<Rightarrow> nat \<Rightarrow> int" where
  "CalculateNextWaitTime settings current_try =
     (case backdown_strategy settings of
        Some strategy \<Rightarrow> strategy (initial_backdown_period settings) current_try
      | None \<Rightarrow> 0)"

section \<open>Building a request\<close>

datatype HttpVerb = GET | POST | HEAD | PUT | DEL | PATCH | OPTIONS

record NetworkRequest =
  nr_url :: string
  nr_verb :: HttpVerb
  nr_headers :: "(string \<times> string) list"
  nr_body :: "string option"

definition GetHttpVerb :: "string \<Rightarrow> HttpVerb" where
  "GetHttpVerb verb =
     (if verb = ''GET'' then GET
      else if verb = ''PUT'' then PUT
      else if verb = ''POST'' then POST
      else if verb = ''DELETE'' then DEL
      else if verb = ''OPTIONS'' then OPTIONS
      else if verb = ''HEAD'' then HEAD
      else if verb = ''PATCH'' then PATCH
      else GET)"

definition tolower :: "char \<Rightarrow> char" where
  "tolower c = (if 65 \<le> byte c \<and> byte c \<le> 90 then char_of (byte c + 32) else c)"

definition CaseInsensitiveCompare :: "string \<Rightarrow> string \<Rightarrow> bool" where
  "CaseInsensitiveCompare str1 str2 \<longleftrightarrow>
     length str1 = length str2 \<and> list_all2 (\<lambda>c1 c2. c1 = c2 \<or> tolower c1 = tolower c2) str1 str2"

definition kUserAgentHeader :: string where "kUserAgentHeader = ''User-Agent''"

definition kContentTypeHeader :: string where "kContentTypeHeader = ''Content-Type''"

definition kAuthorizationHeader :: string where "kAuthorizationHeader = ''Authorization''"

definition kBearer :: string where "kBearer = ''Bearer''"

definition WithHeader :: "string \<Rightarrow> string \<Rightarrow> NetworkRequest \<Rightarrow> NetworkRequest" where
  "WithHeader name val r = r\<lparr>nr_headers := nr_headers r @ [(name, val)]\<rparr>"

fun add_headers :: "(string \<times> string) list \<Rightarrow> NetworkRequest \<Rightarrow> NetworkRequest" where
  "add_headers [] r = r"
| "add_headers ((name, val) # headers) r = add_headers headers (WithHeader name val r)"

text \<open>The loop over the header parameters: it collects the user agents and adds the other headers.\<close>

fun merge_headers :: "(string \<times> string) list \<Rightarrow> string \<Rightarrow> NetworkRequest \<Rightarrow> string \<times> NetworkRequest" where
  "merge_headers [] custom_user_agent r = (custom_user_agent, r)"
| "merge_headers ((name, val) # headers) custom_user_agent r =
     (if CaseInsensitiveCompare name kUserAgentHeader
      then merge_headers headers (custom_user_agent @ val @ '' '') r
      else merge_headers headers custom_user_agent (WithHeader name val r))"

record client =
  base_url :: string
  default_headers :: "(string \<times> string) list"
  has_network :: bool
  retry_settings :: RetrySettings
  sdk_user_agent :: string
  authentication :: "(string option \<times> ((int \<times> ErrorCode) \<times> string + string) option) option"

definition ValidateBaseUrl :: "client \<Rightarrow> bool" where
  "ValidateBaseUrl c \<longleftrightarrow> base_url c = [] \<or> sublist ''http://'' (base_url c) \<or> sublist ''https://'' (base_url c)"

definition CreateRequest ::
  "client \<Rightarrow> string \<Rightarrow> string \<Rightarrow> (string \<times> string) list \<Rightarrow> (string \<times> string) list \<Rightarrow> string option \<Rightarrow> string \<Rightarrow> NetworkRequest" where
  "CreateRequest c path verb query_params header_params post_body content_type =
     (let r = \<lparr>nr_url = Construct (base_url c) path query_params, nr_verb = GetHttpVerb verb, nr_headers = [], nr_body = None\<rparr>;
          r = add_headers (default_headers c) r;
          (custom_user_agent, r) = merge_headers header_params [] r;
          r = WithHeader kUserAgentHeader (custom_user_agent @ sdk_user_agent c) r;
          r = (if content_type \<noteq> [] then WithHeader kContentTypeHeader content_type r else r) in
      r\<lparr>nr_body := post_body\<rparr>)"

text \<open>\<open>AddBearer\<close>: the providers are their answers, the API key and a token or an error (an HTTP status,
  an error code and a message). It returns an error or the request.\<close>

definition AddBearer :: "client \<Rightarrow> bool \<Rightarrow> NetworkRequest \<Rightarrow> (int \<times> ErrorCode) \<times> string + NetworkRequest" where
  "AddBearer c query_empty r =
     (case authentication c of
        None \<Rightarrow> Inr r
      | Some (Some api_key, _) \<Rightarrow>
          Inr (r\<lparr>nr_url := nr_url r @ (if query_empty then ''?'' else ''&'') @ ''apiKey='' @ api_key\<rparr>)
      | Some (None, Some (Inl e)) \<Rightarrow> Inl e
      | Some (None, Some (Inr token)) \<Rightarrow>
          if token = [] then Inl ((kErrAuthorization, GetErrorCode kErrAuthorization), ''Invalid bearer token.'')
          else Inr (WithHeader kAuthorizationHeader (kBearer @ '' '' @ token) r)
      | Some (None, None) \<Rightarrow> Inr r)"

text \<open>The value of an enumerator of \<open>olp::client::ErrorCode\<close>, and the status that a failed
  authentication is reported with.\<close>

definition error_code_value :: "ErrorCode \<Rightarrow> int" where
  "error_code_value e =
     (case e of Unknown \<Rightarrow> 0 | Cancelled \<Rightarrow> 1 | InvalidArgument \<Rightarrow> 2 | RequestTimeout \<Rightarrow> 3 | InternalFailure \<Rightarrow> 4
      | ServiceUnavailable \<Rightarrow> 5 | AccessDenied \<Rightarrow> 6 | BadRequest \<Rightarrow> 7 | PreconditionFailed \<Rightarrow> 8 | NotFound \<Rightarrow> 9
      | SlowDown \<Rightarrow> 10 | NetworkConnection \<Rightarrow> 11 | CacheIO \<Rightarrow> 12 | NoSpaceLeft \<Rightarrow> 13 | Offline \<Rightarrow> 14 | NoContent \<Rightarrow> 15)"

definition auth_error_status :: "int \<times> ErrorCode \<Rightarrow> int" where
  "auth_error_status e = (if fst e = kErrUnknown then error_code_value (snd e) else fst e)"

definition ErrorCodeToString :: "int \<Rightarrow> string" where
  "ErrorCodeToString code =
     (if code = 0 then ''Success'' else if code = kErrIO then ''Input/Output error''
      else if code = kErrAuthorization then ''Authorization error'' else if code = kErrInvalidUrl then ''Invalid URL''
      else if code = kErrOffline then ''Offline'' else if code = kErrCancelled then ''Cancelled''
      else if code = kErrAuthentication then ''Authentication error'' else if code = kErrTimeout then ''Timeout''
      else if code = kErrNetworkOverload then ''Network overload'' else ''Unknown error'')"

text \<open>A response made by the client: a status and a text as its body.\<close>

definition plain_response :: "int \<Rightarrow> string \<Rightarrow> HttpResponse" where
  "plain_response status body = \<lparr>hr_status = status, hr_body = body, hr_uploaded = 0, hr_downloaded = 0\<rparr>"

definition outcome_response :: "int \<Rightarrow> HttpResponse" where
  "outcome_response code = plain_response code (ErrorCodeToString code)"

definition kCancelledErrorResponse :: HttpResponse where
  "kCancelledErrorResponse = plain_response kErrCancelled ''Operation Cancelled.''"

definition kTimeoutErrorResponse :: HttpResponse where
  "kTimeoutErrorResponse = plain_response kErrTimeout ''Network request timed out.''"

section \<open>The synchronous call\<close>

text \<open>What happens during one attempt: the answer of \<open>Network::Send\<close> (an error code or a request id),
  whether the response or a cancellation arrives before the timeout, the response with its error text, and
  whether the context is cancelled by then. \<open>cancel_before\<close> is a cancellation by the user before the
  attempt, \<open>cancel_in_sleep k\<close> one that is seen after \<open>k\<close> portions of the sleep.\<close>

record attempt =
  send_outcome :: "int + u64"
  condition_triggered :: bool
  network_response :: HttpResponse
  network_error :: string
  cancelled_meanwhile :: bool
  cancel_before :: bool
  cancel_in_sleep :: "nat \<Rightarrow> bool"

text \<open>\<open>SendRequest\<close> returns the response and whether the context is cancelled afterwards.\<close>

definition SendRequest :: "attempt \<Rightarrow> bool \<Rightarrow> HttpResponse \<times> bool" where
  "SendRequest e cancelled =
     (if cancelled then (outcome_response kErrCancelled, True)
      else case send_outcome e of
        Inl code \<Rightarrow> (outcome_response code, False)
      | Inr rid \<Rightarrow>
          (let cancelled = \<not> condition_triggered e \<or> cancelled_meanwhile e in
           if cancelled
           then (if condition_triggered e then kCancelledErrorResponse else kTimeoutErrorResponse, True)
           else
             (if hr_status (network_response e) < 0
              then ((network_response e)\<lparr>hr_body := network_error e\<rparr>, False)
              else (network_response e, False))))"

text \<open>The sleep in portions of at most a second; it returns the time slept and whether a
  cancellation was seen.\<close>

function periodic_sleep :: "(nat \<Rightarrow> bool) \<Rightarrow> nat \<Rightarrow> int \<Rightarrow> int \<times> bool" where
  "periodic_sleep cancels k duration =
     (if 0 < duration \<and> \<not> cancels k then
        (let sleep_ms = min 1000 duration;
             (slept, cancelled) = periodic_sleep cancels (k + 1) (duration - sleep_ms) in
         (sleep_ms + slept, cancelled))
      else (0, cancels k))"
  by pat_completeness auto
termination by (relation "measure (\<lambda>(_, _, d). nat d)") auto

declare periodic_sleep.simps [simp del]

record call_result =
  cr_response :: HttpResponse
  cr_sends :: nat
  cr_slept :: int

definition add_statistics :: "HttpResponse \<Rightarrow> u64 \<times> u64 \<Rightarrow> HttpResponse" where
  "add_statistics r acc = r\<lparr>hr_uploaded := fst acc, hr_downloaded := snd acc\<rparr>"

definition statistics :: "HttpResponse \<Rightarrow> u64 \<times> u64" where
  "statistics r = (hr_uploaded r, hr_downloaded r)"

function retry_loop ::
  "RetrySettings \<Rightarrow> (nat \<Rightarrow> attempt) \<Rightarrow> nat \<Rightarrow> int \<Rightarrow> int \<Rightarrow> HttpResponse \<Rightarrow> u64 \<times> u64 \<Rightarrow> bool \<Rightarrow> int \<Rightarrow> call_result" where
  "retry_loop rs env i backdown_period accumulated_wait_time response stats cancelled slept =
     (let max_wait_time = retry_timeout rs * 1000;
          cancelled = (cancelled \<or> cancel_before (env i)) in
      if int i \<le> max_attempts rs \<and> \<not> cancelled \<and> accumulated_wait_time < max_wait_time then
        if StatusSuccess (hr_status response) then \<lparr>cr_response = response, cr_sends = i, cr_slept = slept\<rparr>
        else if \<not> retry_condition rs response then \<lparr>cr_response = response, cr_sends = i, cr_slept = slept\<rparr>
        else
          (let duration_to_sleep = min backdown_period (max_wait_time - accumulated_wait_time);
               accumulated_wait_time = accumulated_wait_time + duration_to_sleep;
               (slept_now, cancelled) = periodic_sleep (cancel_in_sleep (env i)) 0 duration_to_sleep;
               backdown_period = CalculateNextWaitTime rs i;
               (response, cancelled) = SendRequest (env i) cancelled;
               stats = (fst stats + hr_uploaded response, snd stats + hr_downloaded response) in
           retry_loop rs env (i + 1) backdown_period accumulated_wait_time response stats cancelled (slept + slept_now))
      else \<lparr>cr_response = add_statistics response stats, cr_sends = i, cr_slept = slept\<rparr>)"
  by pat_completeness auto
termination by (relation "measure (\<lambda>(rs, _, i, _). nat (max_attempts rs + 1 - int i))") auto

declare retry_loop.simps [simp del]

text \<open>The call from the first attempt on, and the whole call: errors found before anything is sent
  are responses with no attempt.\<close>

definition send_with_retries :: "RetrySettings \<Rightarrow> (nat \<Rightarrow> attempt) \<Rightarrow> bool \<Rightarrow> call_result" where
  "send_with_retries rs env cancelled =
     (let (response, cancelled) = SendRequest (env 0) (cancelled \<or> cancel_before (env 0)) in
      retry_loop rs env 1 (initial_backdown_period rs) (initial_backdown_period rs) response (statistics response) cancelled 0)"

definition CallApi ::
  "client \<Rightarrow> (NetworkRequest \<Rightarrow> nat \<Rightarrow> attempt) \<Rightarrow> string \<Rightarrow> string \<Rightarrow> (string \<times> string) list \<Rightarrow> (string \<times> string) list
    \<Rightarrow> string option \<Rightarrow> string \<Rightarrow> bool \<Rightarrow> call_result" where
  "CallApi c env path verb query_params header_params post_body content_type cancelled =
     (let failed = (\<lambda>status body. \<lparr>cr_response = plain_response status body, cr_sends = 0, cr_slept = 0\<rparr>) in
      if \<not> has_network c then failed kErrOffline ''Network request handler is empty.''
      else if \<not> ValidateBaseUrl c then failed kErrInvalidUrl ''Base URI does not contain a protocol''
      else case AddBearer c (query_params = []) (CreateRequest c path verb query_params header_params post_body content_type) of
        Inl (e, message) \<Rightarrow> failed (auth_error_status e) message
      | Inr request \<Rightarrow> send_with_retries (retry_settings c) (env request) cancelled)"

section \<open>The asynchronous call\<close>

record RequestSettings =
  current_try :: int
  accumulated_wait_time :: int
  current_backdown_period :: int
  max_wait_time :: int

definition GetRequestSettings :: "RetrySettings \<Rightarrow> RequestSettings" where
  "GetRequestSettings rs =
     \<lparr>current_try = 0, accumulated_wait_time = 0, current_backdown_period = initial_backdown_period rs,
      max_wait_time = retry_timeout rs * 1000\<rparr>"

definition CheckRetryCondition :: "RequestSettings \<Rightarrow> RetrySettings \<Rightarrow> HttpResponse \<Rightarrow> bool" where
  "CheckRetryCondition request rs response \<longleftrightarrow>
     max_attempts rs < current_try request \<or> \<not> retry_condition rs response
     \<or> max_wait_time request \<le> accumulated_wait_time request"

text \<open>Where a call is: a network request is under way, the thread of the last response sleeps before
  the next attempt (\<open>nested\<close> when that sleep is inside the \<open>ExecuteOrCancelled\<close> of an attempt that
  could not be sent), the callbacks were called, or the last response was discarded.\<close>

datatype phase = InFlight | Sleeping int bool | Finished | Discarded

record async_call =
  ac_url :: string
  ac_addr :: nat
  ac_merge :: bool
  ac_settings :: RequestSettings
  ac_phase :: phase

type_synonym 'cb async_state = "async_call \<times> 'cb url_requests"

text \<open>\<open>GetRetryCallback\<close>: what the callback does with a response, up to the sleep.\<close>

definition retry_callback ::
  "RetrySettings \<Rightarrow> bool \<Rightarrow> u64 \<Rightarrow> HttpResponse \<Rightarrow> 'cb async_state \<Rightarrow> 'cb async_state \<times> 'cb event list" where
  "retry_callback rs nested request_id response = (\<lambda>(call, s).
     let settings = (ac_settings call)\<lparr>current_try := current_try (ac_settings call) + 1\<rparr> in
     if CheckRetryCondition settings rs response then
       let call = call\<lparr>ac_settings := settings\<rparr> in
       if http_request_id (heap s ! ac_addr call) \<noteq> request_id then ((call\<lparr>ac_phase := Discarded\<rparr>, s), [])
       else if ac_merge call then
         let (s, events) = OnRequestCompleted request_id (ac_url call) response s in
         ((call\<lparr>ac_phase := Finished\<rparr>, s), events)
       else
         let (r, events) = OnCompleted response (heap s ! ac_addr call) in
         ((call\<lparr>ac_phase := Finished\<rparr>, s\<lparr>heap := (heap s)[ac_addr call := r]\<rparr>), events)
     else
       let actual_wait_time = min (current_backdown_period settings) (max_wait_time settings - accumulated_wait_time settings);
           settings = settings\<lparr>accumulated_wait_time := accumulated_wait_time settings + actual_wait_time,
             current_backdown_period := CalculateNextWaitTime rs (nat (current_try settings))\<rparr> in
       ((call\<lparr>ac_settings := settings, ac_phase := Sleeping actual_wait_time nested\<rparr>, s), []))"

definition reset_token :: "nat \<Rightarrow> 'cb url_requests \<Rightarrow> 'cb url_requests" where
  "reset_token a s = s\<lparr>heap := (heap s)[a := (heap s ! a)\<lparr>sub_operation_cancel_token := None\<rparr>]\<rparr>"

text \<open>\<open>ExecuteSingleRequest\<close>: \<open>outcome\<close> is the answer of \<open>Network::Send\<close>. The token of the context is
  assigned when the outermost \<open>ExecuteOrCancelled\<close> returns: after an attempt that could not be sent
  this is the empty token, also when a nested attempt has set one.\<close>

definition ExecuteSingleRequest ::
  "RetrySettings \<Rightarrow> bool \<Rightarrow> int + u64 \<Rightarrow> 'cb async_state \<Rightarrow> 'cb async_state \<times> 'cb event list" where
  "ExecuteSingleRequest rs nested outcome = (\<lambda>(call, s).
     let a = ac_addr call in
     if is_cancelled (heap s ! a) then
       retry_callback rs nested kInvalidRequestId kCancelledErrorResponse (call, s)
     else case outcome of
       Inl code \<Rightarrow>
         (let ((call, s), events) = retry_callback rs True kInvalidRequestId (outcome_response code) (call, s) in
          ((call, reset_token a s), events))
     | Inr rid \<Rightarrow>
         (let s = s\<lparr>heap := (heap s)[a := request_sent rid (heap s ! a)]\<rparr> in
          ((call\<lparr>ac_phase := InFlight\<rparr>, if nested then reset_token a s else s), [])))"

text \<open>\<open>CallApi\<close> with a callback: the state afterwards, the events, and the call if a network request was
  to be sent (none when it failed before, or joined a request that is under way).\<close>

definition CallApi_async ::
  "client \<Rightarrow> string \<Rightarrow> string \<Rightarrow> (string \<times> string) list \<Rightarrow> (string \<times> string) list \<Rightarrow> string option \<Rightarrow> string \<Rightarrow> 'cb
    \<Rightarrow> int + u64 \<Rightarrow> 'cb url_requests \<Rightarrow> 'cb url_requests \<times> async_call option \<times> 'cb event list" where
  "CallApi_async c path verb query_params header_params post_body content_type callback outcome s =
     (if \<not> has_network c then (s, None, [Call callback (plain_response kErrOffline ''Network layer offline or missing.'')])
      else if \<not> ValidateBaseUrl c then (s, None, [Call callback (plain_response kErrInvalidUrl ''Base URI does not contain a protocol'')])
      else case AddBearer c (query_params = []) (CreateRequest c path verb query_params header_params post_body content_type) of
        Inl (e, message) \<Rightarrow> (s, None, [Call callback (plain_response (auth_error_status e) message)])
      | Inr request \<Rightarrow>
          (let merge = (post_body = None \<or> post_body = Some []);
               url = nr_url request;
               (s, a) =
                 (if merge then let (s, callback_id, a) = Append_request url callback s in (s, a)
                  else (s\<lparr>heap := heap s @ [fst (Append_callback callback PendingUrlRequest_new)]\<rparr>, length (heap s))) in
           if merge \<and> http_request_id (heap s ! a) \<noteq> kInvalidRequestId then (s, None, [])
           else
             (let call = \<lparr>ac_url = url, ac_addr = a, ac_merge = merge,
                          ac_settings = GetRequestSettings (retry_settings c), ac_phase = InFlight\<rparr>;
                  ((call, s), events) = ExecuteSingleRequest (retry_settings c) False outcome (call, s) in
              (s, Some call, events))))"

text \<open>The later steps of a call: a response of the network, the end of a sleep with the answer to the
  next attempt, and a cancellation by the user.\<close>

datatype net_step = Response u64 HttpResponse | WakeUp "int + u64" | UserCancel nat

fun async_step :: "RetrySettings \<Rightarrow> net_step \<Rightarrow> 'cb async_state \<Rightarrow> 'cb async_state \<times> 'cb event list" where
  "async_step rs (Response rid response) (call, s) =
     (if ac_phase call = InFlight then retry_callback rs False rid response (call, s) else ((call, s), []))"
| "async_step rs (WakeUp outcome) (call, s) =
     (case ac_phase call of
        Sleeping wait nested \<Rightarrow> ExecuteSingleRequest rs nested outcome (call, s)
      | _ \<Rightarrow> ((call, s), []))"
| "async_step rs (UserCancel cid) (call, s) =
     (if ac_merge call then let (s, ret, events) = Cancel_request (ac_url call) cid s in ((call, s), events)
      else let (r, ret, events) = Cancel_callback cid (heap s ! ac_addr call) in
           ((call, s\<lparr>heap := (heap s)[ac_addr call := r]\<rparr>), events))"

fun async_run :: "RetrySettings \<Rightarrow> net_step list \<Rightarrow> 'cb async_state \<Rightarrow> 'cb async_state \<times> 'cb event list" where
  "async_run rs [] st = (st, [])"
| "async_run rs (step # steps) st =
     (let (st, events) = async_step rs step st; (st, events') = async_run rs steps st in (st, events @ events'))"

section \<open>Waiting and attempts\<close>

lemma periodic_sleep_bounds:
  "0 \<le> fst (periodic_sleep cancels k d) \<and> fst (periodic_sleep cancels k d) \<le> max 0 d
    \<and> (snd (periodic_sleep cancels k d) \<longrightarrow> (\<exists>k. cancels k))"
proof (induction cancels k d rule: periodic_sleep.induct)
  case (1 cancels k d)
  show ?case
  proof (cases "0 < d \<and> \<not> cancels k")
    case True
    with 1 [OF True refl] show ?thesis
      by (subst (1 2 3) periodic_sleep.simps) (auto simp: split_def Let_def)
  next
    case False
    then show ?thesis by (auto simp: periodic_sleep.simps)
  qed
qed

lemma periodic_sleep_full:
  assumes "\<forall>k. \<not> cancels k"
  shows "periodic_sleep cancels k d = (max 0 d, False)"
proof (induction "nat d" arbitrary: k d rule: less_induct)
  case less
  show ?case
  proof (cases "0 < d")
    case True
    then have "periodic_sleep cancels (k + 1) (d - min 1000 d) = (max 0 (d - min 1000 d), False)" by (intro less) simp
    with True assms show ?thesis by (subst periodic_sleep.simps) (auto simp: Let_def)
  next
    case False
    with assms show ?thesis by (auto simp: periodic_sleep.simps)
  qed
qed

definition patient :: "RetrySettings \<Rightarrow> bool" where
  "patient rs \<longleftrightarrow> (\<forall>n. 0 \<le> CalculateNextWaitTime rs n)"

text \<open>One round of the loop, with its outcome named.\<close>

lemma retry_loop_round:
  assumes "int i \<le> max_attempts rs" and "\<not> c" and "\<not> cancel_before (env i)" and "acc < retry_timeout rs * 1000"
    and "\<not> StatusSuccess (hr_status response)" and "retry_condition rs response"
    and "periodic_sleep (cancel_in_sleep (env i)) 0 (min backdown (retry_timeout rs * 1000 - acc)) = (slept_now, c')"
    and "SendRequest (env i) c' = (response', c'')"
  shows "retry_loop rs env i backdown acc response stats c slept =
    retry_loop rs env (i + 1) (CalculateNextWaitTime rs i) (acc + min backdown (retry_timeout rs * 1000 - acc)) response'
      (fst stats + hr_uploaded response', snd stats + hr_downloaded response') c'' (slept + slept_now)"
  using assms by (subst retry_loop.simps) (simp add: Let_def)

definition goes_on :: "RetrySettings \<Rightarrow> (nat \<Rightarrow> attempt) \<Rightarrow> nat \<Rightarrow> int \<Rightarrow> HttpResponse \<Rightarrow> bool \<Rightarrow> bool" where
  "goes_on rs env i acc response c \<longleftrightarrow> int i \<le> max_attempts rs \<and> \<not> c \<and> \<not> cancel_before (env i)
     \<and> acc < retry_timeout rs * 1000 \<and> \<not> StatusSuccess (hr_status response) \<and> retry_condition rs response"

lemma retry_loop_stops:
  assumes "\<not> goes_on rs env i acc response c"
  shows "cr_sends (retry_loop rs env i backdown acc response stats c slept) = i"
    and "cr_slept (retry_loop rs env i backdown acc response stats c slept) = slept"
    and "hr_status (cr_response (retry_loop rs env i backdown acc response stats c slept)) = hr_status response"
    and "hr_body (cr_response (retry_loop rs env i backdown acc response stats c slept)) = hr_body response"
proof -
  let ?r = "retry_loop rs env i backdown acc response stats c slept"
  have "cr_sends ?r = i \<and> cr_slept ?r = slept \<and> hr_status (cr_response ?r) = hr_status response
    \<and> hr_body (cr_response ?r) = hr_body response"
  proof (cases "int i \<le> max_attempts rs \<and> \<not> (c \<or> cancel_before (env i)) \<and> acc < retry_timeout rs * 1000")
    case True
    with assms have "StatusSuccess (hr_status response) \<or> \<not> retry_condition rs response" by (auto simp: goes_on_def)
    then show ?thesis by (subst (1 2 3 4) retry_loop.simps) (auto simp: Let_def add_statistics_def)
  next
    case False
    then have "?r = \<lparr>cr_response = add_statistics response stats, cr_sends = i, cr_slept = slept\<rparr>"
      unfolding retry_loop.simps [of rs env i] Let_def by (rule if_not_P)
    then show ?thesis by (simp add: add_statistics_def)
  qed
  then show "cr_sends ?r = i" and "cr_slept ?r = slept" and "hr_status (cr_response ?r) = hr_status response"
    and "hr_body (cr_response ?r) = hr_body response" by auto
qed

lemma retry_loop_induct [case_names stop go]:
  assumes stop: "\<And>i backdown acc response stats c slept. \<not> goes_on rs env i acc response c \<Longrightarrow> P i backdown acc response stats c slept"
    and go: "\<And>i backdown acc response stats c slept slept_now c' response' c''.
      goes_on rs env i acc response c \<Longrightarrow>
      periodic_sleep (cancel_in_sleep (env i)) 0 (min backdown (retry_timeout rs * 1000 - acc)) = (slept_now, c') \<Longrightarrow>
      SendRequest (env i) c' = (response', c'') \<Longrightarrow>
      P (i + 1) (CalculateNextWaitTime rs i) (acc + min backdown (retry_timeout rs * 1000 - acc)) response'
        (fst stats + hr_uploaded response', snd stats + hr_downloaded response') c'' (slept + slept_now) \<Longrightarrow>
      P i backdown acc response stats c slept"
  shows "P i backdown acc response stats c slept"
proof (induction "nat (max_attempts rs + 1 - int i)" arbitrary: i backdown acc response stats c slept rule: less_induct)
  case less
  show ?case
  proof (cases "goes_on rs env i acc response c")
    case True
    obtain slept_now c' where p: "periodic_sleep (cancel_in_sleep (env i)) 0 (min backdown (retry_timeout rs * 1000 - acc)) = (slept_now, c')"
      by fastforce
    obtain response' c'' where s: "SendRequest (env i) c' = (response', c'')" by fastforce
    have "nat (max_attempts rs + 1 - int (i + 1)) < nat (max_attempts rs + 1 - int i)" using True by (simp add: goes_on_def)
    from less [OF this] show ?thesis by (rule go [OF True p s])
  qed (rule stop)
qed

lemma retry_loop_goes:
  assumes "goes_on rs env i acc response c"
    and "periodic_sleep (cancel_in_sleep (env i)) 0 (min backdown (retry_timeout rs * 1000 - acc)) = (slept_now, c')"
    and "SendRequest (env i) c' = (response', c'')"
  shows "retry_loop rs env i backdown acc response stats c slept =
    retry_loop rs env (i + 1) (CalculateNextWaitTime rs i) (acc + min backdown (retry_timeout rs * 1000 - acc)) response'
      (fst stats + hr_uploaded response', snd stats + hr_downloaded response') c'' (slept + slept_now)"
  using assms by (intro retry_loop_round) (simp_all add: goes_on_def)

lemma retry_loop_bounds:
  assumes "patient rs"
  shows "0 \<le> backdown \<Longrightarrow>
    (let r = retry_loop rs env i backdown acc response stats c slept in
     cr_sends r \<le> max i (nat (max_attempts rs) + 1) \<and> slept \<le> cr_slept r
     \<and> cr_slept r \<le> slept + max 0 (retry_timeout rs * 1000 - acc))"
proof (induction i backdown acc response stats c slept rule: retry_loop_induct [of rs env])
  case (stop i backdown acc response stats c slept)
  then show ?case by (simp add: retry_loop_stops)
next
  case (go i backdown acc response stats c slept slept_now c' response' c'')
  let ?d = "min backdown (retry_timeout rs * 1000 - acc)"
  have "0 \<le> slept_now" "slept_now \<le> max 0 ?d"
    using periodic_sleep_bounds [of "cancel_in_sleep (env i)" 0 ?d] go(2) by auto
  moreover have "0 \<le> CalculateNextWaitTime rs i" using assms by (simp add: patient_def)
  moreover have "int i \<le> max_attempts rs" "acc < retry_timeout rs * 1000" using go(1) by (auto simp: goes_on_def)
  ultimately show ?case
    using go(4,5) by (auto simp: retry_loop_goes [OF go(1-3)] Let_def)
qed

text \<open>A run without cancellation: every attempt ends by an answer of the network.\<close>

definition answer :: "attempt \<Rightarrow> HttpResponse" where
  "answer e = fst (SendRequest e False)"

definition quiet :: "attempt \<Rightarrow> bool" where
  "quiet e \<longleftrightarrow> condition_triggered e \<and> \<not> cancelled_meanwhile e \<and> \<not> cancel_before e \<and> (\<forall>k. \<not> cancel_in_sleep e k)"

lemma quiet_SendRequest: "quiet e \<Longrightarrow> SendRequest e False = (answer e, False)"
  by (auto simp: quiet_def answer_def SendRequest_def Let_def split: sum.split)

definition retried :: "RetrySettings \<Rightarrow> HttpResponse \<Rightarrow> bool" where
  "retried rs r \<longleftrightarrow> \<not> StatusSuccess (hr_status r) \<and> retry_condition rs r"

text \<open>The schedule of the settings: the wait before each retry, the time that the first \<open>n\<close> retries have taken from the
budget (which the initial wait is counted against once more, before anything is sent), and whether the answer to attempt
\<open>k\<close> leads to another one.\<close>

definition scheduled_wait :: "RetrySettings \<Rightarrow> nat \<Rightarrow> int" where
  "scheduled_wait rs k = (if k = 0 then initial_backdown_period rs else CalculateNextWaitTime rs k)"

definition scheduled_time :: "RetrySettings \<Rightarrow> nat \<Rightarrow> int" where
  "scheduled_time rs n = initial_backdown_period rs + (\<Sum>k<n. scheduled_wait rs k)"

definition tried_again :: "RetrySettings \<Rightarrow> (nat \<Rightarrow> attempt) \<Rightarrow> nat \<Rightarrow> bool" where
  "tried_again rs env k \<longleftrightarrow> retried rs (answer (env k)) \<and> int (Suc k) \<le> max_attempts rs
     \<and> scheduled_time rs k < retry_timeout rs * 1000"

definition scheduled_sleep :: "RetrySettings \<Rightarrow> nat \<Rightarrow> int" where
  "scheduled_sleep rs n = min (max (retry_timeout rs * 1000) (initial_backdown_period rs)) (scheduled_time rs n) - initial_backdown_period rs"

lemma scheduled_time_ge:
  assumes "patient rs" and "0 \<le> initial_backdown_period rs"
  shows "initial_backdown_period rs \<le> scheduled_time rs n"
  using assms by (auto simp: scheduled_time_def scheduled_wait_def patient_def intro!: sum_nonneg)

lemma scheduled_sleep_Suc:
  assumes "patient rs" and "0 \<le> initial_backdown_period rs" and "scheduled_time rs n < retry_timeout rs * 1000"
  shows "scheduled_sleep rs (Suc n) = scheduled_sleep rs n
      + min (scheduled_wait rs n) (retry_timeout rs * 1000 - (initial_backdown_period rs + scheduled_sleep rs n))"
  using assms(3) scheduled_time_ge [OF assms(1,2), of n] by (simp add: scheduled_sleep_def scheduled_time_def)

lemma scheduled_sleep_budget:
  "initial_backdown_period rs + scheduled_sleep rs n < retry_timeout rs * 1000 \<longleftrightarrow> scheduled_time rs n < retry_timeout rs * 1000"
  by (auto simp: scheduled_sleep_def)

lemma retry_loop_exact:
  assumes p: "patient rs" "0 \<le> initial_backdown_period rs" and q: "\<And>i. quiet (env i)"
  shows "\<not> c \<Longrightarrow> i = Suc j \<Longrightarrow> response = answer (env j) \<Longrightarrow> slept = scheduled_sleep rs j \<Longrightarrow>
    acc = initial_backdown_period rs + slept \<Longrightarrow> backdown = scheduled_wait rs j \<Longrightarrow> \<forall>k < j. tried_again rs env k \<Longrightarrow>
    (\<exists>n r. r = retry_loop rs env i backdown acc response stats c slept \<and> cr_sends r = Suc n
     \<and> (\<forall>k < n. tried_again rs env k) \<and> \<not> tried_again rs env n \<and> cr_slept r = scheduled_sleep rs n
     \<and> hr_status (cr_response r) = hr_status (answer (env n)) \<and> hr_body (cr_response r) = hr_body (answer (env n)))"
proof (induction i backdown acc response stats c slept arbitrary: j rule: retry_loop_induct [of rs env])
  case (stop i backdown acc response stats c slept)
  have "\<not> cancel_before (env i)" using q by (simp add: quiet_def)
  with stop have "\<not> tried_again rs env j" unfolding tried_again_def
    by (auto simp: goes_on_def retried_def scheduled_sleep_budget)
  with stop show ?case by (intro exI [of _ j]) (simp add: retry_loop_stops)
next
  case (go i backdown acc response stats c slept slept_now c' response' c'')
  let ?d = "min backdown (retry_timeout rs * 1000 - acc)"
  have again: "tried_again rs env j" using go(1,6,7,8,9) scheduled_sleep_budget [of rs j]
    by (simp add: goes_on_def tried_again_def retried_def)
  have "\<forall>k. \<not> cancel_in_sleep (env i) k" using q [of i] by (simp add: quiet_def)
  then have "slept_now = max 0 ?d" "\<not> c'" using periodic_sleep_full go(2) by auto
  moreover have "acc < retry_timeout rs * 1000" using go(1) by (simp add: goes_on_def)
  moreover have "0 \<le> scheduled_wait rs j" using p by (simp add: scheduled_wait_def patient_def)
  ultimately have s: "slept_now = ?d" "\<not> c'" using go(10) by auto
  then have r: "response' = answer (env i)" "\<not> c''" using go(3) quiet_SendRequest [OF q [of i]] by auto
  have "\<forall>k < Suc j. tried_again rs env k" using go(11) again less_Suc_eq by auto
  moreover have "slept + slept_now = scheduled_sleep rs (Suc j)"
    using scheduled_sleep_Suc [OF p, of j] again go(8,9,10) s(1) by (simp add: tried_again_def)
  moreover have "CalculateNextWaitTime rs i = scheduled_wait rs (Suc j)" using go(6) by (simp add: scheduled_wait_def)
  ultimately show ?case unfolding retry_loop_goes [OF go(1-3)]
    using go(4) [of "Suc j"] r s go(6,9) by simp
qed

section \<open>Headers\<close>

lemma add_headers_nr: "add_headers hs r = r\<lparr>nr_headers := nr_headers r @ hs\<rparr>"
  by (induction hs r rule: add_headers.induct) (simp_all add: WithHeader_def)

lemma merge_headers_nr:
  "merge_headers hs ua r =
    (ua @ concat (map (\<lambda>h. snd h @ '' '') (filter (\<lambda>h. CaseInsensitiveCompare (fst h) kUserAgentHeader) hs)),
     r\<lparr>nr_headers := nr_headers r @ filter (\<lambda>h. \<not> CaseInsensitiveCompare (fst h) kUserAgentHeader) hs\<rparr>)"
  by (induction hs ua r rule: merge_headers.induct) (simp_all add: WithHeader_def)

section \<open>Bounds of the asynchronous call\<close>

definition within_budget :: "RetrySettings \<Rightarrow> async_call \<Rightarrow> bool" where
  "within_budget rs call \<longleftrightarrow> (let st = ac_settings call in
     0 \<le> current_try st \<and> current_try st \<le> max 0 (max_attempts rs) + 1 \<and> 0 \<le> current_backdown_period st
     \<and> max_wait_time st = retry_timeout rs * 1000
     \<and> 0 \<le> accumulated_wait_time st \<and> accumulated_wait_time st \<le> max 0 (retry_timeout rs * 1000)
     \<and> (ac_phase call = InFlight \<or> (\<exists>wait nested. ac_phase call = Sleeping wait nested) \<longrightarrow> current_try st \<le> max 0 (max_attempts rs)))"

lemma retry_callback_budget:
  assumes "patient rs" and "within_budget rs call" and "current_try (ac_settings call) \<le> max 0 (max_attempts rs)"
  shows "within_budget rs (fst (fst (retry_callback rs nested rid response (call, s))))"
proof (cases "CheckRetryCondition ((ac_settings call)\<lparr>current_try := current_try (ac_settings call) + 1\<rparr>) rs response")
  case True
  with assms show ?thesis
    by (auto simp: retry_callback_def within_budget_def Let_def split: prod.split)
next
  case False
  then have "current_try (ac_settings call) + 1 \<le> max_attempts rs"
    "accumulated_wait_time (ac_settings call) < max_wait_time (ac_settings call)" by (auto simp: CheckRetryCondition_def)
  with False assms show ?thesis
    by (auto simp: retry_callback_def within_budget_def Let_def patient_def)
qed

lemma Execute_budget:
  assumes "patient rs" and "within_budget rs call" and "current_try (ac_settings call) \<le> max 0 (max_attempts rs)"
  shows "within_budget rs (fst (fst (ExecuteSingleRequest rs nested outcome (call, s))))"
proof (cases "is_cancelled (heap s ! ac_addr call)")
  case True
  with retry_callback_budget [OF assms] show ?thesis by (simp add: ExecuteSingleRequest_def)
next
  case False
  show ?thesis
  proof (cases outcome)
    case (Inl code)
    with False retry_callback_budget [OF assms] show ?thesis by (simp add: ExecuteSingleRequest_def Let_def split_def)
  next
    case (Inr rid)
    have "within_budget rs (call\<lparr>ac_phase := InFlight\<rparr>)" using assms(2,3) by (simp add: within_budget_def Let_def)
    with False Inr show ?thesis by (simp add: ExecuteSingleRequest_def Let_def)
  qed
qed

lemma async_step_budget:
  assumes "patient rs" and b: "within_budget rs (fst st)"
  shows "within_budget rs (fst (fst (async_step rs step st)))"
proof -
  obtain call s where st: "st = (call, s)" by fastforce
  show ?thesis
  proof (cases step)
    case (Response rid response)
    show ?thesis
    proof (cases "ac_phase call = InFlight")
      case True
      with b st have "current_try (ac_settings call) \<le> max 0 (max_attempts rs)" by (simp add: within_budget_def Let_def)
      with retry_callback_budget [OF assms(1)] b st Response True show ?thesis by simp
    qed (use b st Response in simp)
  next
    case (WakeUp outcome)
    show ?thesis
    proof (cases "\<exists>wait nested. ac_phase call = Sleeping wait nested")
      case True
      then obtain wait nested where ph: "ac_phase call = Sleeping wait nested" by blast
      with b st have "current_try (ac_settings call) \<le> max 0 (max_attempts rs)" by (simp add: within_budget_def Let_def)
      with Execute_budget [OF assms(1)] b st WakeUp ph show ?thesis by simp
    qed (use b st WakeUp in \<open>auto split: phase.split\<close>)
  next
    case (UserCancel cid)
    with b st show ?thesis by (auto split: prod.split)
  qed
qed

lemma async_run_budget:
  "patient rs \<Longrightarrow> within_budget rs (fst st) \<Longrightarrow> within_budget rs (fst (fst (async_run rs steps st)))"
proof (induction steps arbitrary: st)
  case (Cons step steps)
  from async_step_budget [OF Cons.prems] have "within_budget rs (fst (fst (async_step rs step st)))" .
  from Cons.IH [OF Cons.prems(1) this] show ?case by (simp add: Let_def split_def)
qed simp

section \<open>Properties\<close>

definition demo_retry :: RetrySettings where
  "demo_retry = \<lparr>max_attempts = 3, retry_timeout = 60, initial_backdown_period = 200, backdown_strategy = Some (\<lambda>p n. p),
     retry_condition = DefaultRetryCondition\<rparr>"

definition demo_client :: client where
  "demo_client = \<lparr>base_url = ''https://a'', default_headers = [], has_network = True, retry_settings = demo_retry,
     sdk_user_agent = ''SDK'', authentication = None\<rparr>"

definition answers :: "int list \<Rightarrow> nat \<Rightarrow> attempt" where
  "answers statuses i = \<lparr>send_outcome = Inr 1, condition_triggered = True,
     network_response = \<lparr>hr_status = statuses ! min i (length statuses - 1), hr_body = [], hr_uploaded = 10, hr_downloaded = 20\<rparr>,
     network_error = [], cancelled_meanwhile = False, cancel_before = False, cancel_in_sleep = (\<lambda>k. False)\<rparr>"

lemma demo_patient: "patient demo_retry"
  by (simp add: patient_def CalculateNextWaitTime_def demo_retry_def)

lemma answers_quiet: "quiet (answers statuses i)"
  by (simp add: quiet_def answers_def)

text \<open>C15. A synchronous call always returns; it sends at most one request more than the allowed number of
  retries and sleeps no longer than its time budget, whatever the network answers and whenever it is
  cancelled.\<close>

theorem call_api_bounded:
  assumes "patient (retry_settings c)" and "0 \<le> initial_backdown_period (retry_settings c)"
  shows "cr_sends (CallApi c env path verb query headers body content_type cancelled) \<le> nat (max_attempts (retry_settings c)) + 1
    \<and> 0 \<le> cr_slept (CallApi c env path verb query headers body content_type cancelled)
    \<and> cr_slept (CallApi c env path verb query headers body content_type cancelled)
       \<le> max 0 (retry_timeout (retry_settings c) * 1000 - initial_backdown_period (retry_settings c))"
proof -
  have "let r = send_with_retries (retry_settings c) e cancelled in
      cr_sends r \<le> nat (max_attempts (retry_settings c)) + 1 \<and> 0 \<le> cr_slept r
      \<and> cr_slept r \<le> max 0 (retry_timeout (retry_settings c) * 1000 - initial_backdown_period (retry_settings c))" for e
  proof -
    obtain response c' where s: "SendRequest (e 0) (cancelled \<or> cancel_before (e 0)) = (response, c')" by fastforce
    from retry_loop_bounds [OF assms, of e 1 "initial_backdown_period (retry_settings c)" response "statistics response" c' 0] s
    show ?thesis by (simp add: send_with_retries_def Let_def)
  qed
  then show ?thesis by (auto simp: CallApi_def Let_def split: sum.split)
qed

theorem call_api_bounded_witness:
  "cr_sends (CallApi demo_client (\<lambda>_. answers [503]) ''/p'' ''GET'' [] [] None [] False) \<le> 4"
proof -
  have "patient (retry_settings demo_client)" "0 \<le> initial_backdown_period (retry_settings demo_client)"
    "nat (max_attempts (retry_settings demo_client)) = 3"
    by (simp_all add: demo_client_def demo_patient) (simp_all add: demo_retry_def)
  then show ?thesis using call_api_bounded [of demo_client "\<lambda>_. answers [503]" "''/p''" "''GET''" "[]" "[]" None "[]" False] by simp
qed

text \<open>C16. Without cancellation or timeout of an attempt, a synchronous call retries exactly as the settings say. An attempt is
followed by another one if and only if its answer is no success and is to be retried, fewer than the allowed retries were
made, and the waits so far, the initial one counted once more, are below the timeout. The call returns the answer to its
first attempt that is not followed by another one, and has slept for the sum of the scheduled waits, cut off where the budget
ends.\<close>

theorem sync_retry_exact:
  assumes "patient rs" and "0 \<le> initial_backdown_period rs" and "\<And>i. quiet (env i)"
  shows "\<exists>n r. r = send_with_retries rs env False \<and> cr_sends r = Suc n
    \<and> (\<forall>k < n. tried_again rs env k) \<and> \<not> tried_again rs env n \<and> cr_slept r = scheduled_sleep rs n
    \<and> hr_status (cr_response r) = hr_status (answer (env n)) \<and> hr_body (cr_response r) = hr_body (answer (env n))"
proof -
  have "SendRequest (env 0) False = (answer (env 0), False)" using assms(3) by (rule quiet_SendRequest)
  moreover have "\<not> cancel_before (env 0)" using assms(3) [of 0] by (simp add: quiet_def)
  ultimately have r: "send_with_retries rs env False = retry_loop rs env 1 (initial_backdown_period rs) (initial_backdown_period rs)
      (answer (env 0)) (statistics (answer (env 0))) False 0" by (simp add: send_with_retries_def)
  have "scheduled_sleep rs 0 = 0" "scheduled_wait rs 0 = initial_backdown_period rs"
    by (simp_all add: scheduled_sleep_def scheduled_time_def scheduled_wait_def)
  then show ?thesis unfolding r by (intro retry_loop_exact [OF assms, where j = 0]) simp_all
qed

theorem sync_retry_exact_witness:
  "\<exists>r. r = send_with_retries demo_retry (answers [503, 503, 200]) False \<and> cr_sends r = 3 \<and> cr_slept r = 400
    \<and> hr_status (cr_response r) = 200"
proof -
  have "0 \<le> initial_backdown_period demo_retry" by (simp add: demo_retry_def)
  from sync_retry_exact [where env = "answers [503, 503, 200]", OF demo_patient this answers_quiet]
  obtain n r where r: "r = send_with_retries demo_retry (answers [503, 503, 200]) False" "cr_sends r = Suc n"
    "\<forall>k < n. tried_again demo_retry (answers [503, 503, 200]) k" "\<not> tried_again demo_retry (answers [503, 503, 200]) n"
    "cr_slept r = scheduled_sleep demo_retry n"
    "hr_status (cr_response r) = hr_status (answer (answers [503, 503, 200] n))" by metis
  have go: "tried_again demo_retry (answers [503, 503, 200]) 0" "tried_again demo_retry (answers [503, 503, 200]) 1"
    "\<not> tried_again demo_retry (answers [503, 503, 200]) 2" by code_simp+
  have "n \<noteq> 0" "n \<noteq> 1" "\<not> 2 < n" using r(3,4) go by metis+
  then have "n = 2" by linarith
  moreover have "scheduled_sleep demo_retry 2 = 400" "hr_status (answer (answers [503, 503, 200] 2)) = 200" by code_simp+
  ultimately show ?thesis using r by auto
qed

text \<open>The headers of a request: the default headers, then the given headers other than user agents in
  their order, then one user agent that joins the given ones and ends with that of the SDK, then
  the content type. User agents among the default headers are not joined.\<close>

lemma create_request_headers:
  "nr_headers (CreateRequest c path verb query headers body content_type) =
     default_headers c
     @ filter (\<lambda>h. \<not> CaseInsensitiveCompare (fst h) kUserAgentHeader) headers
     @ [(kUserAgentHeader, concat (map (\<lambda>h. snd h @ '' '') (filter (\<lambda>h. CaseInsensitiveCompare (fst h) kUserAgentHeader) headers))
          @ sdk_user_agent c)]
     @ (if content_type = [] then [] else [(kContentTypeHeader, content_type)])
   \<and> nr_body (CreateRequest c path verb query headers body content_type) = body"
  by (simp add: CreateRequest_def Let_def add_headers_nr merge_headers_nr WithHeader_def)

text \<open>C17. An asynchronous call stays within its budget in every state it can reach: it is tried at most
  once more than the allowed number of retries, and its waiting times add up to no more than the
  timeout.\<close>

theorem async_call_bounded:
  assumes "patient rs" and "0 \<le> initial_backdown_period rs"
    and "call = \<lparr>ac_url = url, ac_addr = a, ac_merge = merge, ac_settings = GetRequestSettings rs, ac_phase = InFlight\<rparr>"
    and "async_run rs steps (call, s) = ((call', s'), events)"
  shows "current_try (ac_settings call') \<le> max 0 (max_attempts rs) + 1
    \<and> accumulated_wait_time (ac_settings call') \<le> max 0 (retry_timeout rs * 1000)"
proof -
  have "within_budget rs call" using assms(2,3) by (simp add: within_budget_def GetRequestSettings_def)
  with async_run_budget [OF assms(1), of "(call, s)" steps] assms(4) show ?thesis by (simp add: within_budget_def Let_def)
qed

definition failing :: HttpResponse where
  "failing = plain_response 503 []"

definition demo_call :: async_call where
  "demo_call = \<lparr>ac_url = ''https://a/p'', ac_addr = 0, ac_merge = True, ac_settings = GetRequestSettings demo_retry, ac_phase = InFlight\<rparr>"

theorem async_call_bounded_witness:
  "current_try (ac_settings (fst (fst (async_run demo_retry [Response 7 failing, WakeUp (Inr 8), Response 8 ok_response]
     (demo_call, fst (url_run [OAppend ''https://a/p'' (1::nat), OSent ''https://a/p'' 7] PendingUrlRequests_new)))))) \<le> 4"
proof -
  let ?st = "(demo_call, fst (url_run [OAppend ''https://a/p'' (1::nat), OSent ''https://a/p'' 7] PendingUrlRequests_new))"
  let ?steps = "[Response 7 failing, WakeUp (Inr 8), Response 8 ok_response]"
  obtain call' s' events where r: "async_run demo_retry ?steps ?st = ((call', s'), events)" by (metis surj_pair)
  have "0 \<le> initial_backdown_period demo_retry" "max_attempts demo_retry = 3" by (simp_all add: demo_retry_def)
  with async_call_bounded [OF demo_patient _ demo_call_def r] show ?thesis unfolding r fst_conv by simp
qed

section \<open>Where the client falls short\<close>

text \<open>A call that is cancelled while it waits before a retry never calls its callback: the cancelled
  attempt answers with the invalid request id, the request still carries the id of the first
  attempt, and the response is discarded as a wrong one. The same happens when the retried request
  cannot be sent.\<close>

lemma cancel_in_backoff_loses_callback:
  "(let (s, call, es) = CallApi_async demo_client ''/p'' ''GET'' [] [] None [] (1::nat) (Inr 7) PendingUrlRequests_new;
        ((call', s'), es') = async_run demo_retry [Response 7 failing, UserCancel 0, WakeUp (Inr 8)] (the call, s) in
    (es @ es', ac_phase call')) = ([NetworkCancel 7], Discarded)
   \<and> (let (s, call, es) = CallApi_async demo_client ''/p'' ''GET'' [] [] None [] (1::nat) (Inr 7) PendingUrlRequests_new;
        ((call', s'), es') = async_run demo_retry [Response 7 failing, WakeUp (Inl kErrAuthentication)] (the call, s) in
    (es @ es', ac_phase call')) = ([], Discarded)"
  by (rule conjI; code_simp)

text \<open>A failed authentication whose HTTP status is unknown is reported with the number of its error
  code as status, which the client itself counts as a success.\<close>

lemma auth_error_looks_successful:
  assumes "has_network c" and "ValidateBaseUrl c" and "authentication c = Some (None, Some (Inl ((kErrUnknown, e), message)))"
  shows "StatusSuccess (hr_status (cr_response (CallApi c env path verb query headers body content_type cancelled)))"
  using assms
  by (cases e) (simp_all add: CallApi_def AddBearer_def auth_error_status_def error_code_value_def StatusSuccess_def plain_response_def Let_def)

lemma auth_error_looks_successful_witness:
  "StatusSuccess (hr_status (cr_response (CallApi
     (demo_client\<lparr>authentication := Some (None, Some (Inl ((kErrUnknown, AccessDenied), [])))\<rparr>) (\<lambda>_. answers [200]) ''/p'' ''GET'' [] [] None [] False)))"
proof -
  have "ValidateBaseUrl (demo_client\<lparr>authentication := Some (None, Some (Inl ((kErrUnknown, AccessDenied), [])))\<rparr>)"
    by (simp add: ValidateBaseUrl_def demo_client_def)
  then show ?thesis
    by (intro auth_error_looks_successful [where e = AccessDenied and message = "[]"]) (simp_all add: demo_client_def)
qed

text \<open>The statistics of the attempts before a successful retry are lost, unless it was the last allowed
  attempt.\<close>

lemma retry_statistics_lost:
  "hr_downloaded (cr_response (send_with_retries demo_retry (answers [503, 200]) False)) = 20
   \<and> hr_downloaded (cr_response (send_with_retries demo_retry (answers [503, 503, 503, 200]) False)) = 80"
  by (rule conjI; code_simp)

text \<open>The two notions of a temporary error differ in both directions.\<close>

lemma retry_predicates_differ:
  "DefaultRetryCondition (plain_response 502 []) \<and> \<not> IsRetryable 502
   \<and> \<not> DefaultRetryCondition (plain_response 408 []) \<and> IsRetryable 408"
  by code_simp

text \<open>The jittered strategy stays between half its bound and its bound.\<close>

lemma equal_jitter_bounds:
  assumes "0 \<le> cap" and "0 \<le> p"
  shows "min cap (p * 2 ^ min n 30) div 2 \<le> EqualJitterBackdownStrategy cap rnd p n
    \<and> EqualJitterBackdownStrategy cap rnd p n \<le> min cap (p * 2 ^ min n 30)"
proof -
  define t where "t = min cap (p * 2 ^ min n 30)"
  have "0 \<le> t" using assms by (simp add: t_def)
  then have "0 \<le> int rnd mod (t div 2 + 1)" "int rnd mod (t div 2 + 1) \<le> t div 2"
    using pos_mod_bound [of "t div 2 + 1" "int rnd"] by (simp_all add: pos_imp_zdiv_nonneg_iff)
  then have "t div 2 \<le> t div 2 + int rnd mod (t div 2 + 1) \<and> t div 2 + int rnd mod (t div 2 + 1) \<le> t" by linarith
  then show ?thesis unfolding EqualJitterBackdownStrategy_def Let_def t_def .
qed

end
