(* ===== verification/TaskContext.thy ===== *)
theory TaskContext
  imports DiskCache
begin

text \<open>
  \<open>olp::client::TaskContext\<close> (olp-cpp-sdk-core/include/olp/core/client/TaskContext.h) with the parts of
  \<open>CancellationContext\<close> and \<open>Condition\<close> it uses: one task, executed and cancelled by any number of
  threads.

  A thread is its program counter with its local variables; a step is one access to the shared
  state (an atomic operation or a critical section). The task's function may register a
  cancellable sub-operation and returns any response; a wait may time out. A response is an error
  code or a result. The trace lists what the outside sees: the function being run, its response,
  the callback being called, a sub-operation being cancelled.
\<close>

section \<open>State and threads\<close>

datatype State = PENDING | IN_PROGRESS | COMPLETED

text \<open>\<open>tc_function\<close> and \<open>tc_callback\<close> say whether the two function objects are still there;
  \<open>tc_cancelled\<close> and \<open>tc_token\<close> are the context, \<open>tc_signaled\<close> the condition.\<close>

record task =
  tc_state :: State
  tc_function :: bool
  tc_callback :: bool
  tc_cancelled :: bool
  tc_token :: "nat option"
  tc_signaled :: bool

definition TaskContext_Create :: task where
  "TaskContext_Create =
     \<lparr>tc_state = PENDING, tc_function = True, tc_callback = True, tc_cancelled = False, tc_token = None, tc_signaled = False\<rparr>"

datatype 'r task_event = Ran | Returned "ErrorCode + 'r" | Called "ErrorCode + 'r" | SubCancelled nat

text \<open>\<open>X\<close> is a call of \<open>Execute\<close>, \<open>B\<close> one of \<open>BlockingCancel\<close>, \<open>T\<close> a cancellation through the token.\<close>

datatype 'r pc =
    XCall | XMove | XCheck bool bool | XRun bool | XReturned bool "ErrorCode + 'r" | XReset bool "ErrorCode + 'r"
  | XCallback bool "ErrorCode + 'r" | XNotify | XStore | XEnd
  | BCall | BCheck | BCancel | BClear | BWait | BEnd bool
  | TCall | TEnd

definition cancel_context :: "task \<Rightarrow> task" where
  "cancel_context s = (if tc_cancelled s then s else s\<lparr>tc_token := None, tc_cancelled := True\<rparr>)"

definition cancel_events :: "task \<Rightarrow> 'r task_event list" where
  "cancel_events s = (if tc_cancelled s then [] else case tc_token s of None \<Rightarrow> [] | Some n \<Rightarrow> [SubCancelled n])"

section \<open>Steps\<close>

inductive thread_step :: "task \<Rightarrow> 'r pc \<Rightarrow> 'r task_event list \<Rightarrow> task \<Rightarrow> 'r pc \<Rightarrow> bool" where
  exec_begin: "tc_state s = PENDING \<Longrightarrow> thread_step s XCall [] (s\<lparr>tc_state := IN_PROGRESS\<rparr>) XMove"
| exec_refused: "tc_state s \<noteq> PENDING \<Longrightarrow> thread_step s XCall [] s XEnd"
| exec_move: "thread_step s XMove [] (s\<lparr>tc_function := False, tc_callback := False\<rparr>) (XCheck (tc_function s) (tc_callback s))"
| exec_skip: "\<not> f \<or> tc_cancelled s \<Longrightarrow> thread_step s (XCheck f cb) [] s (XReset cb (Inl Cancelled))"
| exec_run: "f \<Longrightarrow> \<not> tc_cancelled s \<Longrightarrow> thread_step s (XCheck f cb) [Ran] s (XRun cb)"
| fun_token: "\<not> tc_cancelled s \<Longrightarrow> thread_step s (XRun cb) [] (s\<lparr>tc_token := Some n\<rparr>) (XRun cb)"
| fun_return: "thread_step s (XRun cb) [Returned r] s (XReturned cb r)"
| exec_keep: "\<not> tc_cancelled s \<or> r = Inl RequestTimeout \<Longrightarrow> thread_step s (XReturned cb r) [] s (XReset cb r)"
| exec_drop: "tc_cancelled s \<Longrightarrow> r \<noteq> Inl RequestTimeout \<Longrightarrow> thread_step s (XReturned cb r) [] s (XReset cb (Inl Cancelled))"
| exec_reset: "thread_step s (XReset cb r) [] (if tc_cancelled s then s else s\<lparr>tc_token := None\<rparr>) (XCallback cb r)"
| exec_callback: "thread_step s (XCallback cb r) (if cb then [Called r] else []) s XNotify"
| exec_notify: "thread_step s XNotify [] (s\<lparr>tc_signaled := True\<rparr>) XStore"
| exec_store: "thread_step s XStore [] (s\<lparr>tc_state := COMPLETED\<rparr>) XEnd"
| cancel_late: "tc_state s = COMPLETED \<Longrightarrow> thread_step s BCall [] s (BEnd True)"
| cancel_begin: "tc_state s \<noteq> COMPLETED \<Longrightarrow> thread_step s BCall [] s BCheck"
| cancel_again: "tc_cancelled s \<Longrightarrow> thread_step s BCheck [] s BClear"
| cancel_first: "\<not> tc_cancelled s \<Longrightarrow> thread_step s BCheck [] s BCancel"
| cancel_operation: "thread_step s BCancel (cancel_events s) (cancel_context s) BClear"
| cancel_clear: "thread_step s BClear [] (s\<lparr>tc_function := False\<rparr>) BWait"
| wait_signaled: "tc_signaled s \<Longrightarrow> thread_step s BWait [] (s\<lparr>tc_signaled := False\<rparr>) (BEnd True)"
| wait_timeout: "\<not> tc_signaled s \<Longrightarrow> thread_step s BWait [] (s\<lparr>tc_signaled := False\<rparr>) (BEnd False)"
| token_cancel: "thread_step s TCall (cancel_events s) (cancel_context s) TEnd"

text \<open>The interleavings of a number of threads: the state, the threads and the trace so far.\<close>

inductive reach :: "'r pc list \<Rightarrow> task \<Rightarrow> 'r pc list \<Rightarrow> 'r task_event list \<Rightarrow> bool" for callers where
  start: "set callers \<subseteq> {XCall, BCall, TCall} \<Longrightarrow> reach callers TaskContext_Create callers []"
| step: "reach callers s ths tr \<Longrightarrow> i < length ths \<Longrightarrow> thread_step s (ths ! i) es s' p
    \<Longrightarrow> reach callers s' (ths[i := p]) (tr @ es)"

inductive_cases store_step [elim!]: "thread_step s XStore es s' p"
inductive_cases wait_step [elim!]: "thread_step s BWait es s' p"

section \<open>Invariant\<close>

fun runs :: "'r task_event list \<Rightarrow> nat" where
  "runs [] = 0"
| "runs (e # es) = (if e = Ran then 1 else 0) + runs es"

fun calls :: "'r task_event list \<Rightarrow> nat" where
  "calls [] = 0"
| "calls (e # es) = (case e of Called r \<Rightarrow> 1 | _ \<Rightarrow> 0) + calls es"

lemma runs_append [simp]: "runs (es @ es') = runs es + runs es'"
  by (induction es) auto

lemma calls_append [simp]: "calls (es @ es') = calls es + calls es'"
  by (induction es) auto

text \<open>The program counters between winning the exchange of the state and setting it to completed.\<close>

fun active :: "'r pc \<Rightarrow> bool" where
  "active XMove = True" | "active (XCheck f cb) = True" | "active (XRun cb) = True" | "active (XReturned cb r) = True"
| "active (XReset cb r) = True" | "active (XCallback cb r) = True" | "active XNotify = True" | "active XStore = True"
| "active _ = False"

definition honest :: "'r task_event list \<Rightarrow> ErrorCode + 'r \<Rightarrow> bool" where
  "honest tr r \<longleftrightarrow> r = Inl Cancelled \<or> Returned r \<in> set tr"

fun pc_ok :: "task \<Rightarrow> 'r task_event list \<Rightarrow> 'r pc \<Rightarrow> bool" where
  "pc_ok s tr XMove = (tc_callback s \<and> runs tr = 0 \<and> calls tr = 0)"
| "pc_ok s tr (XCheck f cb) = (cb \<and> runs tr = 0 \<and> calls tr = 0)"
| "pc_ok s tr (XRun cb) = (cb \<and> runs tr \<le> 1 \<and> calls tr = 0)"
| "pc_ok s tr (XReturned cb r) = (cb \<and> runs tr \<le> 1 \<and> calls tr = 0 \<and> Returned r \<in> set tr)"
| "pc_ok s tr (XReset cb r) = (cb \<and> runs tr \<le> 1 \<and> calls tr = 0 \<and> honest tr r)"
| "pc_ok s tr (XCallback cb r) = (cb \<and> runs tr \<le> 1 \<and> calls tr = 0 \<and> honest tr r \<and> tc_token s = None)"
| "pc_ok s tr XNotify = (runs tr \<le> 1 \<and> calls tr = 1 \<and> tc_token s = None)"
| "pc_ok s tr XStore = (runs tr \<le> 1 \<and> calls tr = 1 \<and> tc_token s = None)"
| "pc_ok s tr _ = True"

definition sole_active :: "'r pc list \<Rightarrow> nat \<Rightarrow> bool" where
  "sole_active ths i \<longleftrightarrow> i < length ths \<and> active (ths ! i) \<and> (\<forall>j < length ths. j \<noteq> i \<longrightarrow> \<not> active (ths ! j))"

definition none_active :: "'r pc list \<Rightarrow> bool" where
  "none_active ths \<longleftrightarrow> (\<forall>p \<in> set ths. \<not> active p)"

definition state_inv :: "task \<Rightarrow> 'r pc list \<Rightarrow> 'r task_event list \<Rightarrow> bool" where
  "state_inv s ths tr =
     (case tc_state s of
        PENDING \<Rightarrow> none_active ths \<and> tc_callback s \<and> runs tr = 0 \<and> calls tr = 0
      | IN_PROGRESS \<Rightarrow> (\<exists>i. sole_active ths i \<and> pc_ok s tr (ths ! i))
      | COMPLETED \<Rightarrow> none_active ths \<and> runs tr \<le> 1 \<and> calls tr = 1 \<and> tc_token s = None)"

definition trace_inv :: "task \<Rightarrow> 'r pc list \<Rightarrow> 'r task_event list \<Rightarrow> bool" where
  "trace_inv s ths tr \<longleftrightarrow> (tc_cancelled s \<longrightarrow> tc_token s = None)
     \<and> (tc_signaled s \<or> BEnd True \<in> set ths \<longrightarrow> calls tr = 1)
     \<and> (\<forall>r. Called r \<in> set tr \<longrightarrow> honest tr r)"

lemma cancel_context_simps [simp]:
  "tc_state (cancel_context s) = tc_state s" "tc_callback (cancel_context s) = tc_callback s"
  "tc_signaled (cancel_context s) = tc_signaled s" "tc_cancelled (cancel_context s)"
  "tc_cancelled s \<longrightarrow> tc_token s = None \<Longrightarrow> tc_token (cancel_context s) = None"
  by (simp_all add: cancel_context_def)

lemma cancel_events_simps [simp]:
  "runs (cancel_events s) = 0" "calls (cancel_events s) = 0"
  "Called r \<notin> set (cancel_events s)"
  by (simp_all add: cancel_events_def split: option.split)

lemma honest_append: "honest tr r \<Longrightarrow> honest (tr @ es) r"
  by (auto simp: honest_def)

lemma honest_cancelled [simp]: "honest tr (Inl Cancelled)"
  by (simp add: honest_def)

text \<open>A thread that is not executing the task changes nothing an executing thread relies on; the only
  way to become active is to win the exchange of the state.\<close>

lemma passive_step:
  assumes "thread_step s p es s' p'" and "\<not> active p" and "tc_cancelled s \<longrightarrow> tc_token s = None"
  shows "tc_state s = PENDING \<and> p' = XMove \<and> s' = s\<lparr>tc_state := IN_PROGRESS\<rparr> \<and> es = []
    \<or> \<not> active p' \<and> tc_state s' = tc_state s \<and> tc_callback s' = tc_callback s \<and> runs es = 0 \<and> calls es = 0
      \<and> (tc_token s = None \<longrightarrow> tc_token s' = None) \<and> (tc_cancelled s' \<longrightarrow> tc_token s' = None)
      \<and> (tc_signaled s' \<longrightarrow> tc_signaled s) \<and> (p' = BEnd True \<longrightarrow> tc_signaled s \<or> tc_state s = COMPLETED)
      \<and> (\<forall>r. Called r \<notin> set es)"
  using assms by (cases rule: thread_step.cases) (auto simp: cancel_context_def)

text \<open>A step of the executing thread.\<close>

lemma active_step:
  assumes "thread_step s p es s' p'" and "active p" and "pc_ok s tr p" and "tc_cancelled s \<longrightarrow> tc_token s = None"
  shows "(tc_cancelled s' \<longrightarrow> tc_token s' = None) \<and> (tc_signaled s' \<longrightarrow> tc_signaled s \<or> calls (tr @ es) = 1)
    \<and> (\<forall>r. Called r \<in> set es \<longrightarrow> honest tr r) \<and> p' \<noteq> BEnd True \<and> (calls tr = 1 \<longrightarrow> calls es = 0)
    \<and> (active p' \<and> tc_state s' = tc_state s \<and> pc_ok s' (tr @ es) p'
       \<or> \<not> active p' \<and> tc_state s' = COMPLETED \<and> runs (tr @ es) \<le> 1 \<and> calls (tr @ es) = 1 \<and> tc_token s' = None)"
  using assms by (cases rule: thread_step.cases) (auto simp: honest_def)

lemma pc_ok_frame:
  "pc_ok s tr p \<Longrightarrow> tc_callback s' = tc_callback s \<Longrightarrow> (tc_token s = None \<longrightarrow> tc_token s' = None)
    \<Longrightarrow> runs es = 0 \<Longrightarrow> calls es = 0 \<Longrightarrow> pc_ok s' (tr @ es) p"
  by (cases p) (auto intro: honest_append)

lemma sole_active_other:
  "sole_active ths i \<Longrightarrow> j < length ths \<Longrightarrow> \<not> active (ths ! j) \<Longrightarrow> \<not> active p \<Longrightarrow> sole_active (ths[j := p]) i"
  unfolding sole_active_def by (metis length_list_update nth_list_update_eq nth_list_update_neq)

lemma sole_active_same: "sole_active ths i \<Longrightarrow> active p \<Longrightarrow> sole_active (ths[i := p]) i"
  unfolding sole_active_def by (metis length_list_update nth_list_update_eq nth_list_update_neq)

lemma sole_active_stop: "sole_active ths i \<Longrightarrow> \<not> active p \<Longrightarrow> none_active (ths[i := p])"
  unfolding none_active_def
proof
  fix q
  assume i: "sole_active ths i" "\<not> active p" and q: "q \<in> set (ths[i := p])"
  then obtain j where "j < length ths" "q = ths[i := p] ! j" by (auto simp: in_set_conv_nth)
  with i show "\<not> active q" by (cases "j = i") (auto simp: sole_active_def)
qed

lemma sole_active_start: "none_active ths \<Longrightarrow> i < length ths \<Longrightarrow> active p \<Longrightarrow> sole_active (ths[i := p]) i"
  unfolding sole_active_def none_active_def by (metis length_list_update nth_list_update_eq nth_list_update_neq nth_mem)

lemma none_active_update: "none_active ths \<Longrightarrow> \<not> active p \<Longrightarrow> none_active (ths[i := p])"
  by (auto simp: none_active_def dest: set_update_subset_insert [THEN subsetD])

lemma step_inv:
  assumes inv: "state_inv s ths tr" "trace_inv s ths tr" and i: "i < length ths" and st: "thread_step s (ths ! i) es s' p"
  shows "state_inv s' (ths[i := p]) (tr @ es) \<and> trace_inv s' (ths[i := p]) (tr @ es)"
proof (cases "active (ths ! i)")
  case True
  with i inv(1) have sole: "sole_active ths i" and ok: "pc_ok s tr (ths ! i)" and ip: "tc_state s = IN_PROGRESS"
    by (auto simp: state_inv_def none_active_def sole_active_def split: State.splits)
  have tok: "tc_cancelled s \<longrightarrow> tc_token s = None" using inv(2) by (simp add: trace_inv_def)
  note a = active_step [OF st True ok tok]
  have "state_inv s' (ths[i := p]) (tr @ es)"
  proof (cases "active p")
    case True
    with a ip have "tc_state s' = IN_PROGRESS" "pc_ok s' (tr @ es) (ths[i := p] ! i)" using i by auto
    with sole_active_same [OF sole True] show ?thesis by (auto simp: state_inv_def)
  next
    case False
    with a sole_active_stop [OF sole False] show ?thesis by (auto simp: state_inv_def)
  qed
  moreover have "trace_inv s' (ths[i := p]) (tr @ es)"
    using a inv(2) i by (auto simp: trace_inv_def honest_append dest: set_update_subset_insert [THEN subsetD])
  ultimately show ?thesis ..
next
  case False
  have tok: "tc_cancelled s \<longrightarrow> tc_token s = None" using inv(2) by (simp add: trace_inv_def)
  from passive_step [OF st False tok] show ?thesis
  proof
    assume b: "tc_state s = PENDING \<and> p = XMove \<and> s' = s\<lparr>tc_state := IN_PROGRESS\<rparr> \<and> es = []"
    with inv(1) have "none_active ths" "tc_callback s" "runs tr = 0" "calls tr = 0" by (simp_all add: state_inv_def)
    with b sole_active_start [OF this(1) i, of XMove] i have "state_inv s' (ths[i := p]) (tr @ es)"
      by (auto simp: state_inv_def)
    moreover have "trace_inv s' (ths[i := p]) (tr @ es)"
      using b inv(2) by (auto simp: trace_inv_def dest: set_update_subset_insert [THEN subsetD])
    ultimately show ?thesis ..
  next
    assume b: "\<not> active p \<and> tc_state s' = tc_state s \<and> tc_callback s' = tc_callback s \<and> runs es = 0 \<and> calls es = 0
      \<and> (tc_token s = None \<longrightarrow> tc_token s' = None) \<and> (tc_cancelled s' \<longrightarrow> tc_token s' = None)
      \<and> (tc_signaled s' \<longrightarrow> tc_signaled s) \<and> (p = BEnd True \<longrightarrow> tc_signaled s \<or> tc_state s = COMPLETED)
      \<and> (\<forall>r. Called r \<notin> set es)"
    have "state_inv s' (ths[i := p]) (tr @ es)"
    proof (cases "tc_state s")
      case IN_PROGRESS
      with inv(1) obtain j where j: "sole_active ths j" "pc_ok s tr (ths ! j)" by (auto simp: state_inv_def)
      with False have "j \<noteq> i" by (auto simp: sole_active_def)
      with b have "sole_active (ths[i := p]) j" "pc_ok s' (tr @ es) (ths[i := p] ! j)"
        using sole_active_other [OF j(1) i False] pc_ok_frame [OF j(2)] by auto
      with b IN_PROGRESS show ?thesis by (auto simp: state_inv_def)
    qed (use b inv(1) in \<open>auto simp: state_inv_def intro: none_active_update\<close>)
    moreover have "calls tr = 1" if "tc_state s = COMPLETED" using that inv(1) by (simp add: state_inv_def)
    then have "trace_inv s' (ths[i := p]) (tr @ es)"
      using b inv(2) by (auto simp: trace_inv_def honest_append dest: set_update_subset_insert [THEN subsetD])
    ultimately show ?thesis ..
  qed
qed

lemma reach_inv: "reach callers s ths tr \<Longrightarrow> state_inv s ths tr \<and> trace_inv s ths tr"
proof (induction rule: reach.induct)
  case start
  then show ?case by (auto simp: state_inv_def trace_inv_def TaskContext_Create_def none_active_def)
next
  case (step s ths tr i es s' p)
  then show ?case using step_inv by blast
qed

section \<open>Completion\<close>

text \<open>How many steps an executing thread still takes when its function returns at once.\<close>

fun steps_left :: "'r pc \<Rightarrow> nat" where
  "steps_left XMove = 8" | "steps_left (XCheck f cb) = 7" | "steps_left (XRun cb) = 6" | "steps_left (XReturned cb r) = 5"
| "steps_left (XReset cb r) = 4" | "steps_left (XCallback cb r) = 3" | "steps_left XNotify = 2" | "steps_left XStore = 1"
| "steps_left _ = 0"

lemma active_progress:
  assumes "active p"
  shows "\<exists>es s' p'. thread_step s p es s' p' \<and> (active p' \<and> steps_left p' < steps_left p \<or> p' = XEnd \<and> tc_state s' = COMPLETED)"
proof (cases p)
  case (XCheck f cb)
  then show ?thesis using exec_skip [of f s cb] exec_run [of f s cb] by (cases "\<not> f \<or> tc_cancelled s") fastforce+
next
  case (XReturned cb r)
  then show ?thesis using exec_keep [of s r cb] exec_drop [of s r cb] by (cases "tc_cancelled s \<and> r \<noteq> Inl RequestTimeout") fastforce+
next
  case (XCallback cb r)
  then show ?thesis using exec_callback [of s cb r] by fastforce
qed (use assms in \<open>fastforce intro: exec_move fun_return exec_reset exec_notify exec_store\<close>)+

lemma active_completes:
  "reach callers s ths tr \<Longrightarrow> i < length ths \<Longrightarrow> active (ths ! i) \<Longrightarrow>
    \<exists>s' es. reach callers s' (ths[i := XEnd]) (tr @ es) \<and> tc_state s' = COMPLETED"
proof (induction "steps_left (ths ! i)" arbitrary: s ths tr rule: less_induct)
  case less
  obtain es s' p' where st: "thread_step s (ths ! i) es s' p'"
    and p': "active p' \<and> steps_left p' < steps_left (ths ! i) \<or> p' = XEnd \<and> tc_state s' = COMPLETED"
    using active_progress [OF less.prems(3), of s] by blast
  have re: "reach callers s' (ths[i := p']) (tr @ es)" by (rule reach.step [OF less.prems(1,2) st])
  show ?case
  proof (cases "active p'")
    case True
    with p' less.prems(2) have lt: "steps_left (ths[i := p'] ! i) < steps_left (ths ! i)" and
      ac: "active (ths[i := p'] ! i)" and l: "i < length (ths[i := p'])" by auto
    from less.hyps [OF lt re l ac] show ?thesis by (metis append_assoc list_update_overwrite)
  next
    case False
    with p' re show ?thesis by auto
  qed
qed

section \<open>Schedules\<close>

text \<open>The steps as a function, for a task whose function returns the response \<open>r\<close> at once, and the run
  of a schedule, a list of thread numbers.\<close>

fun thread_next :: "ErrorCode + 'r \<Rightarrow> task \<Rightarrow> 'r pc \<Rightarrow> ('r task_event list \<times> task \<times> 'r pc) option" where
  "thread_next r s XCall = Some (if tc_state s = PENDING then ([], s\<lparr>tc_state := IN_PROGRESS\<rparr>, XMove) else ([], s, XEnd))"
| "thread_next r s XMove = Some ([], s\<lparr>tc_function := False, tc_callback := False\<rparr>, XCheck (tc_function s) (tc_callback s))"
| "thread_next r s (XCheck f cb) = Some (if f \<and> \<not> tc_cancelled s then ([Ran], s, XRun cb) else ([], s, XReset cb (Inl Cancelled)))"
| "thread_next r s (XRun cb) = Some ([Returned r], s, XReturned cb r)"
| "thread_next r s (XReturned cb r') =
     Some ([], s, XReset cb (if \<not> tc_cancelled s \<or> r' = Inl RequestTimeout then r' else Inl Cancelled))"
| "thread_next r s (XReset cb r') = Some ([], if tc_cancelled s then s else s\<lparr>tc_token := None\<rparr>, XCallback cb r')"
| "thread_next r s (XCallback cb r') = Some (if cb then [Called r'] else [], s, XNotify)"
| "thread_next r s XNotify = Some ([], s\<lparr>tc_signaled := True\<rparr>, XStore)"
| "thread_next r s XStore = Some ([], s\<lparr>tc_state := COMPLETED\<rparr>, XEnd)"
| "thread_next r s BCall = Some ([], s, if tc_state s = COMPLETED then BEnd True else BCheck)"
| "thread_next r s BCheck = Some ([], s, if tc_cancelled s then BClear else BCancel)"
| "thread_next r s BCancel = Some (cancel_events s, cancel_context s, BClear)"
| "thread_next r s BClear = Some ([], s\<lparr>tc_function := False\<rparr>, BWait)"
| "thread_next r s BWait = Some ([], s\<lparr>tc_signaled := False\<rparr>, BEnd (tc_signaled s))"
| "thread_next r s TCall = Some (cancel_events s, cancel_context s, TEnd)"
| "thread_next r s _ = None"

fun schedule ::
  "ErrorCode + 'r \<Rightarrow> nat list \<Rightarrow> task \<times> 'r pc list \<times> 'r task_event list \<Rightarrow> (task \<times> 'r pc list \<times> 'r task_event list) option" where
  "schedule r [] config = Some config"
| "schedule r (i # is) (s, ths, tr) =
     (if i < length ths then
        (case thread_next r s (ths ! i) of
           None \<Rightarrow> None
         | Some (es, s', p) \<Rightarrow> schedule r is (s', ths[i := p], tr @ es))
      else None)"

lemma thread_next_step:
  assumes "thread_next r s p = Some (es, s', p')"
  shows "thread_step s p es s' p'"
proof (cases p)
  case (XReset cb r')
  with assms exec_reset [of s cb r'] show ?thesis by auto
next
  case (XCallback cb r')
  with assms exec_callback [of s cb r'] show ?thesis by auto
next
  case BWait
  with assms wait_signaled [of s] wait_timeout [of s] show ?thesis by (cases "tc_signaled s") auto
qed (use assms in \<open>auto intro: thread_step.intros split: if_splits\<close>)

lemma schedule_reach:
  "schedule r is (s, ths, tr) = Some (s', ths', tr') \<Longrightarrow> reach callers s ths tr \<Longrightarrow> reach callers s' ths' tr'"
proof (induction "is" arbitrary: s ths tr)
  case (Cons i "is")
  from Cons.prems(1) obtain es s1 p where i: "i < length ths" and n: "thread_next r s (ths ! i) = Some (es, s1, p)"
    and sch: "schedule r is (s1, ths[i := p], tr @ es) = Some (s', ths', tr')"
    by (auto split: if_splits option.splits)
  show ?case by (rule Cons.IH [OF sch reach.step [OF Cons.prems(2) i thread_next_step [OF n]]])
qed simp

section \<open>Properties\<close>

text \<open>C4. However the calls interleave, the function is run at most once and the callback is called at
  most once, with the function's own response or the cancellation error; it has been called when
  the task is completed and when a blocking cancellation has returned true. A cancellation that
  comes after completion finds no sub-operation.\<close>

theorem task_runs_once:
  assumes "reach callers s ths tr"
  shows "runs tr \<le> 1 \<and> calls tr \<le> 1
    \<and> (tc_state s = COMPLETED \<longrightarrow> calls tr = 1 \<and> tc_token s = None)
    \<and> (BEnd True \<in> set ths \<longrightarrow> calls tr = 1)
    \<and> (\<forall>r. Called r \<in> set tr \<longrightarrow> r = Inl Cancelled \<or> Returned r \<in> set tr)"
proof -
  have inv: "state_inv s ths tr" "trace_inv s ths tr" using reach_inv [OF assms] by auto
  have "runs tr \<le> 1 \<and> calls tr \<le> 1" if "pc_ok s tr p" "active p" for p using that by (cases p) auto
  with inv(1) have "runs tr \<le> 1" "calls tr \<le> 1" "tc_state s = COMPLETED \<longrightarrow> calls tr = 1 \<and> tc_token s = None"
    by (auto simp: state_inv_def sole_active_def split: State.splits)
  with inv(2) show ?thesis by (auto simp: trace_inv_def honest_def)
qed

text \<open>A run with a late cancellation: the function has returned, the cancellation comes before its
  response is looked at.\<close>

definition late_cancel :: "nat list" where
  "late_cancel = [0, 0, 0, 1, 0, 1, 1, 1, 0, 0, 0, 0, 0, 1]"

theorem task_runs_once_witness:
  "\<exists>s tr. reach [XCall, BCall] s [XEnd, BEnd True] tr \<and> tr = [Ran, Returned (Inr (5::nat)), Called (Inl Cancelled)] \<and> calls tr \<le> 1"
proof -
  obtain s where s: "schedule (Inr 5) late_cancel (TaskContext_Create, [XCall, BCall], []) =
      Some (s, [XEnd, BEnd True], [Ran, Returned (Inr (5::nat)), Called (Inl Cancelled)])"
    by (auto simp: late_cancel_def TaskContext_Create_def cancel_context_def cancel_events_def)
  have "reach [XCall, BCall] TaskContext_Create [XCall, BCall] ([] :: nat task_event list)" by (rule start) simp
  from schedule_reach [OF s this] have "reach [XCall, BCall] s [XEnd, BEnd True] [Ran, Returned (Inr (5::nat)), Called (Inl Cancelled)]" .
  with task_runs_once [OF this] show ?thesis by blast
qed

text \<open>C18. An execution that has begun can always be brought to its end by its own thread, whatever the
  other threads have done before: then the task is completed, and its callback has been called
  exactly once.\<close>

theorem task_completes:
  assumes "reach callers s ths tr" and "i < length ths" and "active (ths ! i)"
  shows "\<exists>s' es. reach callers s' (ths[i := XEnd]) (tr @ es) \<and> tc_state s' = COMPLETED \<and> calls (tr @ es) = 1"
proof -
  from active_completes [OF assms] obtain s' es where r: "reach callers s' (ths[i := XEnd]) (tr @ es)" "tc_state s' = COMPLETED"
    by blast
  with reach_inv [OF r(1)] show ?thesis by (auto simp: state_inv_def)
qed

theorem task_completes_witness:
  "\<exists>s' es. reach [XCall, BCall] s' [XEnd, BClear] es \<and> tc_state s' = COMPLETED \<and> calls (es :: nat task_event list) = 1"
proof -
  obtain s where s: "schedule (Inr 5) [0, 1, 1, 1] (TaskContext_Create, [XCall, BCall], []) = Some (s, [XMove, BClear], [] :: nat task_event list)"
    by (auto simp: TaskContext_Create_def cancel_context_def cancel_events_def)
  have "reach [XCall, BCall] TaskContext_Create [XCall, BCall] ([] :: nat task_event list)" by (rule start) simp
  from schedule_reach [OF s this] have "reach [XCall, BCall] s [XMove, BClear] ([] :: nat task_event list)" .
  from task_completes [OF this, of 0] show ?thesis by simp
qed

text \<open>Of two blocking cancellations only one gets the signal: the first one to wake up resets it, and
  the other one can only time out although the task is completed.\<close>

lemma second_blocking_cancel_times_out:
  "\<exists>s tr. reach [XCall, BCall, BCall] s [XEnd, BEnd True, BWait] (tr :: nat task_event list)
     \<and> tc_state s = COMPLETED \<and> \<not> tc_signaled s"
proof -
  obtain s tr where s: "schedule (Inr 5) [0, 1, 1, 1, 1, 2, 2, 2, 0, 0, 0, 0, 0, 1, 0]
      (TaskContext_Create, [XCall, BCall, BCall], []) = Some (s, [XEnd, BEnd True, BWait], tr :: nat task_event list)"
    and c: "tc_state s = COMPLETED" "\<not> tc_signaled s"
    by (auto simp: TaskContext_Create_def cancel_context_def cancel_events_def)
  have "reach [XCall, BCall, BCall] TaskContext_Create [XCall, BCall, BCall] ([] :: nat task_event list)" by (rule start) simp
  from schedule_reach [OF s this] c show ?thesis by blast
qed

end
