(* ===== verification/PartitionsSax.thy ===== *)
theory PartitionsSax
  imports Prelude
begin

text \<open>
  \<open>PartitionsSaxHandler\<close> (olp-cpp-sdk-dataservice-read/src/repositories/PartitionsSaxHandler.cpp and .h):
  the state machine that turns the events of the JSON parser into partitions, one callback per
  partition.

  The events are those of the parser's handler interface; a text comes in parts, each with the
  number of bytes so far. The result of an event is the next state of the handler, the partitions
  handed to the callback, and whether the parser may go on. A partition that was moved to the
  callback leaves empty strings and optional members that still hold a value, as the standard
  defines for an optional and as the common implementations do for a string. Characters are signed.
\<close>

section \<open>State\<close>

record Partition =
  p_checksum :: "string option"
  p_compressed_data_size :: "u64 option"
  p_data_handle :: string
  p_data_size :: "u64 option"
  p_crc :: "string option"
  p_partition :: string
  p_version :: "u64 option"

definition Partition_new :: Partition where
  "Partition_new =
     \<lparr>p_checksum = None, p_compressed_data_size = None, p_data_handle = [], p_data_size = None, p_crc = None,
      p_partition = [], p_version = None\<rparr>"

definition moved_from :: "Partition \<Rightarrow> Partition" where
  "moved_from p =
     p\<lparr>p_checksum := map_option (\<lambda>_. []) (p_checksum p), p_data_handle := [],
       p_crc := map_option (\<lambda>_. []) (p_crc p), p_partition := []\<rparr>"

datatype SaxState =
    kWaitForRootObject | kWaitForRootPartitions | kWaitPartitionsArray | kWaitForNextPartition | kWaitForRootObjectEnd
  | kProcessingAttribute | kParsingVersion | kParsingPartitionName | kParsingDataHandle | kParsingChecksum
  | kParsingDataSize | kParsingCompressedDataSize | kParsingCrc | kParsingIgnoreAttribute | kParsingComplete

record sax_handler =
  sax_state :: SaxState
  sax_partition :: Partition
  sax_key :: string
  sax_value :: string
  continue_parsing :: bool

definition PartitionsSaxHandler_new :: sax_handler where
  "PartitionsSaxHandler_new =
     \<lparr>sax_state = kWaitForRootObject, sax_partition = Partition_new, sax_key = [], sax_value = [], continue_parsing = True\<rparr>"

definition Abort :: "sax_handler \<Rightarrow> sax_handler" where
  "Abort h = h\<lparr>continue_parsing := False\<rparr>"

section \<open>Names of attributes\<close>

definition signed_char :: "char \<Rightarrow> int" where
  "signed_char c = (let n = of_char c in if 128 \<le> n then n - 256 else n)"

fun HashStringToInt :: "string \<Rightarrow> u64" where
  "HashStringToInt [] = 0"
| "HashStringToInt (c # str) = (if c = CHR 0x00 then 0 else 101 * HashStringToInt str + of_int (signed_char c))"

definition ProcessNextAttribute :: "string \<Rightarrow> SaxState" where
  "ProcessNextAttribute name =
     (let hash = HashStringToInt name in
      if hash = HashStringToInt ''dataHandle'' then kParsingDataHandle
      else if hash = HashStringToInt ''partition'' then kParsingPartitionName
      else if hash = HashStringToInt ''checksum'' then kParsingChecksum
      else if hash = HashStringToInt ''dataSize'' then kParsingDataSize
      else if hash = HashStringToInt ''compressedDataSize'' then kParsingCompressedDataSize
      else if hash = HashStringToInt ''version'' then kParsingVersion
      else if hash = HashStringToInt ''crc'' then kParsingCrc
      else kParsingIgnoreAttribute)"

section \<open>Events\<close>

datatype sax_event =
    DocumentBegin | DocumentEnd | ArrayBegin | ArrayEnd | ObjectBegin | ObjectEnd
  | StringPart string nat | StringEnd string nat | KeyPart string nat | KeyEnd string nat
  | NumberPart | Int64 u64 | Uint64 u64 | Double | Bool bool | Null | Comment

type_synonym sax_result = "sax_handler \<times> Partition list \<times> bool"

text \<open>\<open>CanContinue\<close> and \<open>NotSupported\<close>: the result without a partition.\<close>

definition CanContinue :: "sax_handler \<Rightarrow> sax_result" where
  "CanContinue h = (h, [], continue_parsing h)"

definition NotSupported :: "sax_handler \<Rightarrow> sax_result" where
  "NotSupported h = (h, [], False)"

definition goto :: "SaxState \<Rightarrow> sax_handler \<Rightarrow> sax_handler" where
  "goto st h = h\<lparr>sax_state := st\<rparr>"

definition set_partition :: "(Partition \<Rightarrow> Partition) \<Rightarrow> sax_handler \<Rightarrow> sax_handler" where
  "set_partition f h = h\<lparr>sax_partition := f (sax_partition h)\<rparr>"

definition on_object_begin :: "sax_handler \<Rightarrow> sax_result" where
  "on_object_begin h =
     (if sax_state h = kWaitForRootObject then CanContinue (goto kWaitForRootPartitions h)
      else if sax_state h \<noteq> kWaitForNextPartition then NotSupported h
      else CanContinue (goto kProcessingAttribute h))"

definition sax_String :: "string \<Rightarrow> sax_handler \<Rightarrow> sax_result" where
  "sax_String str h =
     (case sax_state h of
        kProcessingAttribute \<Rightarrow> CanContinue (goto (ProcessNextAttribute str) h)
      | kWaitForRootPartitions \<Rightarrow>
          if HashStringToInt ''partitions'' = HashStringToInt str then CanContinue (goto kWaitPartitionsArray h)
          else NotSupported h
      | kParsingPartitionName \<Rightarrow> CanContinue (goto kProcessingAttribute (set_partition (\<lambda>p. p\<lparr>p_partition := str\<rparr>) h))
      | kParsingDataHandle \<Rightarrow> CanContinue (goto kProcessingAttribute (set_partition (\<lambda>p. p\<lparr>p_data_handle := str\<rparr>) h))
      | kParsingChecksum \<Rightarrow> CanContinue (goto kProcessingAttribute (set_partition (\<lambda>p. p\<lparr>p_checksum := Some str\<rparr>) h))
      | kParsingCrc \<Rightarrow> CanContinue (goto kProcessingAttribute (set_partition (\<lambda>p. p\<lparr>p_crc := Some str\<rparr>) h))
      | kParsingIgnoreAttribute \<Rightarrow> CanContinue (goto kProcessingAttribute h)
      | _ \<Rightarrow> (h, [], False))"

definition on_int64 :: "u64 \<Rightarrow> sax_handler \<Rightarrow> sax_result" where
  "on_int64 n h =
     (if sax_state h = kParsingVersion then CanContinue (goto kProcessingAttribute (set_partition (\<lambda>p. p\<lparr>p_version := Some n\<rparr>) h))
      else if sax_state h = kParsingDataSize
      then CanContinue (goto kProcessingAttribute (set_partition (\<lambda>p. p\<lparr>p_data_size := Some n\<rparr>) h))
      else if sax_state h = kParsingCompressedDataSize
      then CanContinue (goto kProcessingAttribute (set_partition (\<lambda>p. p\<lparr>p_compressed_data_size := Some n\<rparr>) h))
      else NotSupported h)"

definition on_object_end :: "sax_handler \<Rightarrow> sax_result" where
  "on_object_end h =
     (if sax_state h = kWaitForRootObjectEnd then CanContinue (goto kParsingComplete h)
      else if sax_state h \<noteq> kProcessingAttribute then NotSupported h
      else if p_data_handle (sax_partition h) = [] \<or> p_partition (sax_partition h) = [] then NotSupported h
      else (goto kWaitForNextPartition (set_partition moved_from h), [sax_partition h], continue_parsing h))"

definition on_array_begin :: "sax_handler \<Rightarrow> sax_result" where
  "on_array_begin h =
     (if sax_state h \<noteq> kWaitPartitionsArray then NotSupported h else CanContinue (goto kWaitForNextPartition h))"

definition on_array_end :: "sax_handler \<Rightarrow> sax_result" where
  "on_array_end h =
     (if sax_state h \<noteq> kWaitForNextPartition then NotSupported h else CanContinue (goto kWaitForRootObjectEnd h))"

definition collect :: "string \<Rightarrow> nat \<Rightarrow> string \<Rightarrow> string" where
  "collect str len old = (if length str = len then str else old @ str)"

fun on_event :: "sax_event \<Rightarrow> sax_handler \<Rightarrow> sax_result" where
  "on_event DocumentBegin h = (h, [], continue_parsing h)"
| "on_event DocumentEnd h = (h, [], continue_parsing h)"
| "on_event ArrayBegin h = on_array_begin h"
| "on_event ArrayEnd h = on_array_end h"
| "on_event ObjectBegin h = on_object_begin h"
| "on_event ObjectEnd h = on_object_end h"
| "on_event (StringPart str len) h = CanContinue (h\<lparr>sax_value := collect str len (sax_value h)\<rparr>)"
| "on_event (StringEnd str len) h = (let v = collect str len (sax_value h) in sax_String v (h\<lparr>sax_value := v\<rparr>))"
| "on_event (KeyPart str len) h = CanContinue (h\<lparr>sax_key := collect str len (sax_key h)\<rparr>)"
| "on_event (KeyEnd str len) h = (let v = collect str len (sax_key h) in sax_String v (h\<lparr>sax_key := v\<rparr>))"
| "on_event NumberPart h = CanContinue h"
| "on_event (Int64 n) h = on_int64 n h"
| "on_event (Uint64 n) h = on_int64 n h"
| "on_event Double h = NotSupported h"
| "on_event (Bool b) h = NotSupported h"
| "on_event Null h = NotSupported h"
| "on_event Comment h = CanContinue h"

text \<open>The parser delivers events until one is refused.\<close>

fun sax_run :: "sax_event list \<Rightarrow> sax_handler \<Rightarrow> sax_result" where
  "sax_run [] h = (h, [], True)"
| "sax_run (e # es) h =
     (let (h, ps, go) = on_event e h in
      if go then (let (h, ps', go) = sax_run es h in (h, ps @ ps', go)) else (h, ps, False))"

section \<open>The documents\<close>

text \<open>A text in parts, as the parser delivers it: the parts and the bytes so far; \<open>n\<close> were delivered
  before.\<close>

fun parts :: "(string \<Rightarrow> nat \<Rightarrow> sax_event) \<Rightarrow> (string \<Rightarrow> nat \<Rightarrow> sax_event) \<Rightarrow> nat \<Rightarrow> string list \<Rightarrow> string \<Rightarrow> sax_event list" where
  "parts part fin n [] s = [fin s (n + length s)]"
| "parts part fin n (t # ts) s = part t (n + length t) # parts part fin (n + length t) ts s"

datatype attr_value = Text "string list" string | Number u64 | Unsigned u64

type_synonym attr = "(string list \<times> string) \<times> attr_value"

definition attr_name :: "attr \<Rightarrow> string" where
  "attr_name a = concat (fst (fst a)) @ snd (fst a)"

fun value_events :: "attr_value \<Rightarrow> sax_event list" where
  "value_events (Text ss s) = parts StringPart StringEnd 0 ss s"
| "value_events (Number n) = [NumberPart, Int64 n]"
| "value_events (Unsigned n) = [Uint64 n]"

definition attr_events :: "attr \<Rightarrow> sax_event list" where
  "attr_events a = parts KeyPart KeyEnd 0 (fst (fst a)) (snd (fst a)) @ value_events (snd a)"

definition object_events :: "attr list \<Rightarrow> sax_event list" where
  "object_events attrs = [ObjectBegin] @ concat (map attr_events attrs) @ [ObjectEnd]"

definition document_events :: "string list \<Rightarrow> string \<Rightarrow> attr list list \<Rightarrow> sax_event list" where
  "document_events root_parts root_last objects =
     [DocumentBegin, ObjectBegin] @ parts KeyPart KeyEnd 0 root_parts root_last @ [ArrayBegin]
     @ concat (map object_events objects) @ [ArrayEnd, ObjectEnd, DocumentEnd]"

text \<open>What an attribute means: a change of the partition, if its value has the kind its name asks for.\<close>

fun text_of :: "attr_value \<Rightarrow> string option" where
  "text_of (Text ss s) = Some (concat ss @ s)"
| "text_of _ = None"

fun number_of :: "attr_value \<Rightarrow> u64 option" where
  "number_of (Number n) = Some n"
| "number_of (Unsigned n) = Some n"
| "number_of _ = None"

definition attr_effect :: "attr \<Rightarrow> (Partition \<Rightarrow> Partition) option" where
  "attr_effect a =
     (case ProcessNextAttribute (attr_name a) of
        kParsingPartitionName \<Rightarrow> map_option (\<lambda>s p. p\<lparr>p_partition := s\<rparr>) (text_of (snd a))
      | kParsingDataHandle \<Rightarrow> map_option (\<lambda>s p. p\<lparr>p_data_handle := s\<rparr>) (text_of (snd a))
      | kParsingChecksum \<Rightarrow> map_option (\<lambda>s p. p\<lparr>p_checksum := Some s\<rparr>) (text_of (snd a))
      | kParsingCrc \<Rightarrow> map_option (\<lambda>s p. p\<lparr>p_crc := Some s\<rparr>) (text_of (snd a))
      | kParsingVersion \<Rightarrow> map_option (\<lambda>n p. p\<lparr>p_version := Some n\<rparr>) (number_of (snd a))
      | kParsingDataSize \<Rightarrow> map_option (\<lambda>n p. p\<lparr>p_data_size := Some n\<rparr>) (number_of (snd a))
      | kParsingCompressedDataSize \<Rightarrow> map_option (\<lambda>n p. p\<lparr>p_compressed_data_size := Some n\<rparr>) (number_of (snd a))
      | _ \<Rightarrow> map_option (\<lambda>s p. p) (text_of (snd a)))"

fun attrs_effect :: "attr list \<Rightarrow> Partition \<Rightarrow> Partition" where
  "attrs_effect [] p = p"
| "attrs_effect (a # as) p = attrs_effect as (the (attr_effect a) p)"

text \<open>An object the handler accepts when it starts from the partition \<open>p\<close>, and the partitions of a list of
  objects: each starts from what the one before has left.\<close>

definition acceptable :: "attr list \<Rightarrow> Partition \<Rightarrow> bool" where
  "acceptable attrs p \<longleftrightarrow> (\<forall>a \<in> set attrs. attr_effect a \<noteq> None)
     \<and> p_data_handle (attrs_effect attrs p) \<noteq> [] \<and> p_partition (attrs_effect attrs p) \<noteq> []"

fun all_acceptable :: "attr list list \<Rightarrow> Partition \<Rightarrow> bool" where
  "all_acceptable [] p = True"
| "all_acceptable (attrs # objects) p =
     (acceptable attrs p \<and> all_acceptable objects (moved_from (attrs_effect attrs p)))"

fun partitions_from :: "attr list list \<Rightarrow> Partition \<Rightarrow> Partition list" where
  "partitions_from [] p = []"
| "partitions_from (attrs # objects) p =
     attrs_effect attrs p # partitions_from objects (moved_from (attrs_effect attrs p))"
section \<open>Runs\<close>

text \<open>The handler is at a state with a partition and may go on; a stretch of events brings it from one
  place to another and hands out partitions.\<close>

definition sax_at :: "SaxState \<Rightarrow> Partition \<Rightarrow> sax_handler \<Rightarrow> bool" where
  "sax_at st p h \<longleftrightarrow> sax_state h = st \<and> sax_partition h = p \<and> continue_parsing h"

definition reaches :: "sax_handler \<Rightarrow> sax_event list \<Rightarrow> Partition list \<Rightarrow> sax_handler \<Rightarrow> bool" where
  "reaches h evs ps h' \<longleftrightarrow> (\<forall>es. sax_run (evs @ es) h = (let (k, qs, go) = sax_run es h' in (k, ps @ qs, go)))"

lemma reaches_Nil: "reaches h [] [] h"
  by (simp add: reaches_def split_def)

lemma reaches_event: "on_event e h = (h', ps, True) \<Longrightarrow> reaches h [e] ps h'"
  by (simp add: reaches_def split_def)

lemma reaches_trans: "reaches h e1 p1 h' \<Longrightarrow> reaches h' e2 p2 h'' \<Longrightarrow> reaches h (e1 @ e2) (p1 @ p2) h''"
  by (simp add: reaches_def split_def Let_def)

lemma reaches_run: "reaches h evs ps h' \<Longrightarrow> sax_run evs h = (h', ps, True)"
  by (drule reaches_def [THEN iffD1, THEN spec [of _ "[]"]]) simp

text \<open>A text in parts is the whole text.\<close>

lemma reaches_string_from:
  assumes "\<And>k. sax_at st p k \<Longrightarrow> \<exists>k'. sax_String full k = (k', [], True) \<and> sax_at st' p' k'"
  shows "sax_at st p h \<Longrightarrow> n = 0 \<or> sax_value h = v \<Longrightarrow> n = length v \<Longrightarrow> full = v @ concat ss @ s \<Longrightarrow>
    \<exists>h'. reaches h (parts StringPart StringEnd n ss s) [] h' \<and> sax_at st' p' h'"
proof (induction ss arbitrary: h n v)
  case Nil
  then have "collect s (n + length s) (sax_value h) = full" by (auto simp: collect_def)
  moreover have "sax_at st p (h\<lparr>sax_value := full\<rparr>)" using Nil.prems(1) by (simp add: sax_at_def)
  from assms [OF this] obtain k' where "sax_String full (h\<lparr>sax_value := full\<rparr>) = (k', [], True)" "sax_at st' p' k'" by blast
  ultimately have "on_event (StringEnd s (n + length s)) h = (k', [], True)" "sax_at st' p' k'" by (simp_all add: Let_def)
  from reaches_event [OF this(1)] this(2) show ?case by auto
next
  case (Cons t ss)
  let ?h = "h\<lparr>sax_value := v @ t\<rparr>"
  have "collect t (n + length t) (sax_value h) = v @ t" using Cons.prems(2,3) by (auto simp: collect_def)
  then have e: "on_event (StringPart t (n + length t)) h = (?h, [], True)"
    using Cons.prems(1) by (simp add: CanContinue_def sax_at_def)
  have "sax_at st p ?h" "sax_value ?h = v @ t" using Cons.prems(1) by (simp_all add: sax_at_def)
  then obtain h' where "reaches ?h (parts StringPart StringEnd (n + length t) ss s) [] h'" "sax_at st' p' h'"
    using Cons.IH [of ?h "n + length t" "v @ t"] Cons.prems(3,4) by auto
  with reaches_trans [OF reaches_event [OF e] this(1)] show ?case by auto
qed

lemma reaches_key_from:
  assumes "\<And>k. sax_at st p k \<Longrightarrow> \<exists>k'. sax_String full k = (k', [], True) \<and> sax_at st' p' k'"
  shows "sax_at st p h \<Longrightarrow> n = 0 \<or> sax_key h = v \<Longrightarrow> n = length v \<Longrightarrow> full = v @ concat ss @ s \<Longrightarrow>
    \<exists>h'. reaches h (parts KeyPart KeyEnd n ss s) [] h' \<and> sax_at st' p' h'"
proof (induction ss arbitrary: h n v)
  case Nil
  then have "collect s (n + length s) (sax_key h) = full" by (auto simp: collect_def)
  moreover have "sax_at st p (h\<lparr>sax_key := full\<rparr>)" using Nil.prems(1) by (simp add: sax_at_def)
  from assms [OF this] obtain k' where "sax_String full (h\<lparr>sax_key := full\<rparr>) = (k', [], True)" "sax_at st' p' k'" by blast
  ultimately have "on_event (KeyEnd s (n + length s)) h = (k', [], True)" "sax_at st' p' k'" by (simp_all add: Let_def)
  from reaches_event [OF this(1)] this(2) show ?case by auto
next
  case (Cons t ss)
  let ?h = "h\<lparr>sax_key := v @ t\<rparr>"
  have "collect t (n + length t) (sax_key h) = v @ t" using Cons.prems(2,3) by (auto simp: collect_def)
  then have e: "on_event (KeyPart t (n + length t)) h = (?h, [], True)"
    using Cons.prems(1) by (simp add: CanContinue_def sax_at_def)
  have "sax_at st p ?h" "sax_key ?h = v @ t" using Cons.prems(1) by (simp_all add: sax_at_def)
  then obtain h' where "reaches ?h (parts KeyPart KeyEnd (n + length t) ss s) [] h'" "sax_at st' p' h'"
    using Cons.IH [of ?h "n + length t" "v @ t"] Cons.prems(3,4) by auto
  with reaches_trans [OF reaches_event [OF e] this(1)] show ?case by auto
qed

lemmas reaches_string = reaches_string_from [where n = 0 and v = "[]", simplified]
lemmas reaches_key = reaches_key_from [where n = 0 and v = "[]", simplified]

lemma attr_key:
  assumes "sax_at kProcessingAttribute p h"
  shows "\<exists>h'. reaches h (parts KeyPart KeyEnd 0 (fst (fst a)) (snd (fst a))) [] h' \<and> sax_at (ProcessNextAttribute (attr_name a)) p h'"
  by (rule reaches_key [OF _ assms]) (auto simp: sax_at_def sax_String_def CanContinue_def goto_def attr_name_def)

lemma ProcessNextAttribute_cases:
  "ProcessNextAttribute name \<in> {kParsingDataHandle, kParsingPartitionName, kParsingChecksum, kParsingDataSize,
     kParsingCompressedDataSize, kParsingVersion, kParsingCrc, kParsingIgnoreAttribute}"
  by (simp add: ProcessNextAttribute_def Let_def)

lemma attr_value_step:
  assumes "sax_at (ProcessNextAttribute (attr_name a)) p h" and "attr_effect a = Some f"
  shows "\<exists>h'. reaches h (value_events (snd a)) [] h' \<and> sax_at kProcessingAttribute (f p) h'"
proof (cases "snd a")
  case (Text ss s)
  have "\<exists>k'. sax_String (concat ss @ s) k = (k', [], True) \<and> sax_at kProcessingAttribute (f p) k'"
    if "sax_at (ProcessNextAttribute (attr_name a)) p k" for k
    using that assms(2) ProcessNextAttribute_cases [of "attr_name a"] Text
    by (auto simp: sax_at_def sax_String_def CanContinue_def goto_def set_partition_def attr_effect_def)
  from reaches_string [OF this assms(1)] Text show ?thesis by auto
next
  case (Number n)
  then have e: "on_event (Int64 n) h = (goto kProcessingAttribute (set_partition f h), [], True)"
    using assms ProcessNextAttribute_cases [of "attr_name a"]
    by (auto simp: sax_at_def on_int64_def CanContinue_def goto_def set_partition_def attr_effect_def)
  have "on_event NumberPart h = (h, [], True)" using assms(1) by (simp add: CanContinue_def sax_at_def)
  from reaches_trans [OF reaches_event [OF this] reaches_event [OF e]] Number assms(1) show ?thesis
    by (auto simp: sax_at_def goto_def set_partition_def)
next
  case (Unsigned n)
  then have e: "on_event (Uint64 n) h = (goto kProcessingAttribute (set_partition f h), [], True)"
    using assms ProcessNextAttribute_cases [of "attr_name a"]
    by (auto simp: sax_at_def on_int64_def CanContinue_def goto_def set_partition_def attr_effect_def)
  from reaches_event [OF e] Unsigned assms(1) show ?thesis by (auto simp: sax_at_def goto_def set_partition_def)
qed

lemma attrs_step:
  "sax_at kProcessingAttribute p h \<Longrightarrow> \<forall>a \<in> set attrs. attr_effect a \<noteq> None \<Longrightarrow>
    \<exists>h'. reaches h (concat (map attr_events attrs)) [] h' \<and> sax_at kProcessingAttribute (attrs_effect attrs p) h'"
proof (induction attrs arbitrary: h p)
  case Nil
  then show ?case using reaches_Nil by auto
next
  case (Cons a attrs)
  then obtain f where f: "attr_effect a = Some f" by auto
  obtain h1 where 1: "reaches h (parts KeyPart KeyEnd 0 (fst (fst a)) (snd (fst a))) [] h1"
    "sax_at (ProcessNextAttribute (attr_name a)) p h1" using attr_key [OF Cons.prems(1)] by blast
  obtain h2 where 2: "reaches h1 (value_events (snd a)) [] h2" "sax_at kProcessingAttribute (f p) h2"
    using attr_value_step [OF 1(2) f] by blast
  obtain h3 where 3: "reaches h2 (concat (map attr_events attrs)) [] h3" "sax_at kProcessingAttribute (attrs_effect attrs (f p)) h3"
    using Cons.IH [OF 2(2)] Cons.prems(2) by auto
  from reaches_trans [OF reaches_trans [OF 1(1) 2(1)] 3(1)] 3(2) f show ?case by (auto simp: attr_events_def [of a])
qed

lemma object_step:
  assumes "sax_at kWaitForNextPartition p h" and "acceptable attrs p"
  shows "\<exists>h'. reaches h (object_events attrs) [attrs_effect attrs p] h'
    \<and> sax_at kWaitForNextPartition (moved_from (attrs_effect attrs p)) h'"
proof -
  have b: "on_event ObjectBegin h = (goto kProcessingAttribute h, [], True)" "sax_at kProcessingAttribute p (goto kProcessingAttribute h)"
    using assms(1) by (simp_all add: sax_at_def on_object_begin_def CanContinue_def goto_def)
  obtain h1 where 1: "reaches (goto kProcessingAttribute h) (concat (map attr_events attrs)) [] h1"
    "sax_at kProcessingAttribute (attrs_effect attrs p) h1"
    using attrs_step [OF b(2)] assms(2) by (auto simp: acceptable_def)
  then have e: "on_event ObjectEnd h1 = (goto kWaitForNextPartition (set_partition moved_from h1), [attrs_effect attrs p], True)"
    using assms(2) by (simp add: sax_at_def on_object_end_def acceptable_def)
  from reaches_trans [OF reaches_event [OF b(1)] reaches_trans [OF 1(1) reaches_event [OF e]]] 1(2) show ?thesis
    by (auto simp: object_events_def sax_at_def goto_def set_partition_def)
qed

lemma objects_step:
  "sax_at kWaitForNextPartition p h \<Longrightarrow> all_acceptable objects p \<Longrightarrow>
    \<exists>h' p'. reaches h (concat (map object_events objects)) (partitions_from objects p) h' \<and> sax_at kWaitForNextPartition p' h'"
proof (induction objects arbitrary: h p)
  case Nil
  then show ?case using reaches_Nil by auto
next
  case (Cons attrs objects)
  then obtain h1 where 1: "reaches h (object_events attrs) [attrs_effect attrs p] h1"
    "sax_at kWaitForNextPartition (moved_from (attrs_effect attrs p)) h1" using object_step by fastforce
  obtain h2 p' where 2: "reaches h1 (concat (map object_events objects)) (partitions_from objects (moved_from (attrs_effect attrs p))) h2"
    "sax_at kWaitForNextPartition p' h2" using Cons.IH [OF 1(2)] Cons.prems(2) by auto
  from reaches_trans [OF 1(1) 2(1)] 2(2) show ?case by auto
qed

lemma document_run:
  assumes "concat root_parts @ root_last = ''partitions''" and "all_acceptable objects Partition_new"
  shows "\<exists>h. sax_run (document_events root_parts root_last objects) PartitionsSaxHandler_new
    = (h, partitions_from objects Partition_new, True) \<and> sax_state h = kParsingComplete"
proof -
  let ?h0 = "PartitionsSaxHandler_new"
  let ?h1 = "goto kWaitForRootPartitions ?h0"
  have 0: "on_event DocumentBegin ?h0 = (?h0, [], True)" "on_event ObjectBegin ?h0 = (?h1, [], True)"
    "sax_at kWaitForRootPartitions Partition_new ?h1"
    by (simp_all add: PartitionsSaxHandler_new_def on_object_begin_def CanContinue_def goto_def sax_at_def)
  have "\<exists>h'. reaches ?h1 (parts KeyPart KeyEnd 0 root_parts root_last) [] h' \<and> sax_at kWaitPartitionsArray Partition_new h'"
    by (rule reaches_key [OF _ 0(3)]) (use assms(1) in \<open>auto simp: sax_at_def sax_String_def CanContinue_def goto_def\<close>)
  then obtain h2 where 1: "reaches ?h1 (parts KeyPart KeyEnd 0 root_parts root_last) [] h2" "sax_at kWaitPartitionsArray Partition_new h2" by blast
  let ?h3 = "goto kWaitForNextPartition h2"
  from 1(2) have 2: "on_event ArrayBegin h2 = (?h3, [], True)" "sax_at kWaitForNextPartition Partition_new ?h3"
    by (simp_all add: on_array_begin_def CanContinue_def goto_def sax_at_def)
  obtain h4 p' where 3: "reaches ?h3 (concat (map object_events objects)) (partitions_from objects Partition_new) h4"
    "sax_at kWaitForNextPartition p' h4" using objects_step [OF 2(2) assms(2)] by blast
  let ?h5 = "goto kWaitForRootObjectEnd h4"
  let ?h6 = "goto kParsingComplete ?h5"
  from 3(2) have 4: "on_event ArrayEnd h4 = (?h5, [], True)" "on_event ObjectEnd ?h5 = (?h6, [], True)" "on_event DocumentEnd ?h6 = (?h6, [], True)"
    by (simp_all add: on_array_end_def on_object_end_def CanContinue_def goto_def sax_at_def)
  note r = reaches_trans [OF reaches_event [OF 0(1)] reaches_trans [OF reaches_event [OF 0(2)] reaches_trans [OF 1(1)
    reaches_trans [OF reaches_event [OF 2(1)] reaches_trans [OF 3(1) reaches_trans [OF reaches_event [OF 4(1)]
    reaches_trans [OF reaches_event [OF 4(2)] reaches_event [OF 4(3)]]]]]]]]
  from reaches_run [OF r] show ?thesis by (simp add: document_events_def goto_def)
qed


section \<open>Objects that name every attribute\<close>

definition known_attributes :: "SaxState set" where
  "known_attributes = {kParsingDataHandle, kParsingPartitionName, kParsingChecksum, kParsingDataSize,
     kParsingCompressedDataSize, kParsingVersion, kParsingCrc}"

definition written :: "attr list \<Rightarrow> SaxState set" where
  "written attrs = (\<lambda>a. ProcessNextAttribute (attr_name a)) ` set attrs"

text \<open>What a partition holds for an attribute, and two partitions that agree on the attributes of a set.\<close>

fun attr_of :: "SaxState \<Rightarrow> Partition \<Rightarrow> string option \<times> u64 option" where
  "attr_of kParsingDataHandle p = (Some (p_data_handle p), None)"
| "attr_of kParsingPartitionName p = (Some (p_partition p), None)"
| "attr_of kParsingChecksum p = (p_checksum p, None)"
| "attr_of kParsingCrc p = (p_crc p, None)"
| "attr_of kParsingDataSize p = (None, p_data_size p)"
| "attr_of kParsingCompressedDataSize p = (None, p_compressed_data_size p)"
| "attr_of kParsingVersion p = (None, p_version p)"
| "attr_of _ p = (None, None)"

definition agree :: "SaxState set \<Rightarrow> Partition \<Rightarrow> Partition \<Rightarrow> bool" where
  "agree S p q \<longleftrightarrow> (\<forall>st \<in> S. attr_of st p = attr_of st q)"

lemma agree_effect:
  assumes "agree S p q" and f: "attr_effect a = Some f"
  shows "agree (insert (ProcessNextAttribute (attr_name a)) S) (f p) (f q)"
proof -
  have "attr_of st (f p) = attr_of st (f q)" if "st = ProcessNextAttribute (attr_name a) \<or> attr_of st p = attr_of st q" for st
    using that f ProcessNextAttribute_cases [of "attr_name a"]
    by (elim insertE emptyE; cases st; auto simp: attr_effect_def)
  with assms(1) show ?thesis by (auto simp: agree_def)
qed

lemma agree_effects:
  "agree S p q \<Longrightarrow> \<forall>a \<in> set attrs. attr_effect a \<noteq> None \<Longrightarrow> agree (S \<union> written attrs) (attrs_effect attrs p) (attrs_effect attrs q)"
proof (induction attrs arbitrary: S p q)
  case (Cons a attrs)
  then obtain f where f: "attr_effect a = Some f" by auto
  from Cons.IH [OF agree_effect [OF Cons.prems(1) f]] Cons.prems(2) f show ?case by (simp add: written_def)
qed (simp add: written_def)

lemma effects_complete:
  assumes "known_attributes \<subseteq> written attrs" and "\<forall>a \<in> set attrs. attr_effect a \<noteq> None"
  shows "attrs_effect attrs p = attrs_effect attrs q"
proof -
  have "agree ({} \<union> written attrs) (attrs_effect attrs p) (attrs_effect attrs q)"
    by (rule agree_effects [OF _ assms(2)]) (simp add: agree_def)
  with assms(1) show ?thesis
    by (intro Partition.equality) (auto simp: agree_def known_attributes_def)
qed

definition complete :: "attr list \<Rightarrow> bool" where
  "complete attrs \<longleftrightarrow> known_attributes \<subseteq> written attrs \<and> acceptable attrs Partition_new"

lemma complete_objects:
  "\<forall>attrs \<in> set objects. complete attrs \<Longrightarrow>
    all_acceptable objects p \<and> partitions_from objects p = map (\<lambda>attrs. attrs_effect attrs Partition_new) objects"
proof (induction objects arbitrary: p)
  case (Cons attrs objects)
  then have "attrs_effect attrs p = attrs_effect attrs Partition_new"
    by (intro effects_complete) (auto simp: complete_def acceptable_def)
  with Cons show ?case by (simp add: complete_def acceptable_def)
qed simp

section \<open>Properties\<close>

text \<open>The hashes of the names and the states they lead to.\<close>

lemma attribute_hashes:
  "HashStringToInt ''dataHandle'' = 962072488752333902"
  "HashStringToInt ''partition'' = 1203155768433776986"
  "HashStringToInt ''checksum'' = 11811693094647951"
  "HashStringToInt ''dataSize'' = 10959184813352421"
  "HashStringToInt ''compressedDataSize'' = 16212553933292740822"
  "HashStringToInt ''version'' = 117944883721674"
  "HashStringToInt ''crc'' = 1021512"
  "HashStringToInt ''partitions'' = 16296497684877970905"
  "HashStringToInt ''layer'' = 11968190341"
  by (simp_all add: signed_char_def Let_def)

lemma attribute_states:
  "ProcessNextAttribute ''dataHandle'' = kParsingDataHandle"
  "ProcessNextAttribute ''partition'' = kParsingPartitionName"
  "ProcessNextAttribute ''checksum'' = kParsingChecksum"
  "ProcessNextAttribute ''dataSize'' = kParsingDataSize"
  "ProcessNextAttribute ''compressedDataSize'' = kParsingCompressedDataSize"
  "ProcessNextAttribute ''version'' = kParsingVersion"
  "ProcessNextAttribute ''crc'' = kParsingCrc"
  "ProcessNextAttribute ''layer'' = kParsingIgnoreAttribute"
  by (simp_all add: ProcessNextAttribute_def attribute_hashes del: HashStringToInt.simps)

declare HashStringToInt.simps [simp del]


text \<open>C14. A document whose objects name all attributes is turned into exactly the partitions it lists, in
  their order, however the parser cuts the texts into parts, and the handler ends in its final
  state.\<close>

theorem sax_partitions_exact:
  assumes "concat root_parts @ root_last = ''partitions''" and "\<forall>attrs \<in> set objects. complete attrs"
  shows "\<exists>h. sax_run (document_events root_parts root_last objects) PartitionsSaxHandler_new
      = (h, map (\<lambda>attrs. attrs_effect attrs Partition_new) objects, True) \<and> sax_state h = kParsingComplete"
  using document_run [OF assms(1)] complete_objects [OF assms(2)] by metis

definition demo_object :: "attr list" where
  "demo_object =
     [(([''par''], ''tition''), Text [] ''23''), (([], ''version''), Number 4), (([], ''dataSize''), Unsigned 10),
      (([], ''compressedDataSize''), Number 5), (([], ''dataHandle''), Text [''a'', ''b''] ''c''),
      (([], ''checksum''), Text [] ''x''), (([], ''crc''), Text [] []), (([], ''layer''), Text [] ''ignored'')]"

theorem sax_partitions_exact_witness:
  "\<exists>h. sax_run (document_events [''parti''] ''tions'' [demo_object]) PartitionsSaxHandler_new
     = (h, [\<lparr>p_checksum = Some ''x'', p_compressed_data_size = Some 5, p_data_handle = ''abc'', p_data_size = Some 10,
             p_crc = Some [], p_partition = ''23'', p_version = Some 4\<rparr>], True) \<and> sax_state h = kParsingComplete"
proof -
  have "known_attributes \<subseteq> written demo_object"
    by (simp add: known_attributes_def written_def demo_object_def attr_name_def attribute_states)
  moreover have "acceptable demo_object Partition_new"
    by (simp add: acceptable_def demo_object_def attr_effect_def attr_name_def attribute_states Partition_new_def)
  moreover have "attrs_effect demo_object Partition_new =
      \<lparr>p_checksum = Some ''x'', p_compressed_data_size = Some 5, p_data_handle = ''abc'', p_data_size = Some 10,
       p_crc = Some [], p_partition = ''23'', p_version = Some 4\<rparr>"
    by (simp add: demo_object_def attr_effect_def attr_name_def attribute_states Partition_new_def)
  ultimately show ?thesis using sax_partitions_exact [of "[''parti'']" "''tions''" "[demo_object]"] by (simp add: complete_def)
qed

text \<open>The handler does not reset the partition it has moved to the callback: an object that leaves out
  its version or its sizes gets those of the object before, and an empty checksum instead of none.\<close>

lemma sax_stale_attributes:
  "fst (snd (sax_run (document_events [] ''partitions'' [demo_object, [(([], ''partition''), Text [] ''24''), (([], ''dataHandle''), Text [] ''d'')]])
      PartitionsSaxHandler_new)) ! 1
   = \<lparr>p_checksum = Some [], p_compressed_data_size = Some 5, p_data_handle = ''d'', p_data_size = Some 10,
      p_crc = Some [], p_partition = ''24'', p_version = Some 4\<rparr>"
proof -
  let ?objects = "[demo_object, [(([], ''partition''), Text [] ''24''), (([], ''dataHandle''), Text [] ''d'')]]"
  have "all_acceptable ?objects Partition_new"
    by (simp add: acceptable_def demo_object_def attr_effect_def attr_name_def attribute_states Partition_new_def moved_from_def)
  then obtain h where "sax_run (document_events [] ''partitions'' ?objects) PartitionsSaxHandler_new
      = (h, partitions_from ?objects Partition_new, True)"
    using document_run [of "[]" "''partitions''" ?objects] by auto
  then show ?thesis
    by (simp add: demo_object_def attr_effect_def attr_name_def attribute_states Partition_new_def moved_from_def)
qed

text \<open>Attribute names are compared by their hash: a name that is not ASCII can be taken for another one.\<close>

lemma hash_collision: "ProcessNextAttribute [CHR 0xFE, CHR ''s'', CHR ''c''] = kParsingCrc"
proof -
  have "HashStringToInt [CHR 0xFE, CHR ''s'', CHR ''c''] = HashStringToInt ''crc''"
    by (simp add: attribute_hashes HashStringToInt.simps signed_char_def)
  then show ?thesis by (simp add: ProcessNextAttribute_def attribute_hashes)
qed

text \<open>An unknown attribute is skipped only when its value is a text.\<close>

lemma unknown_number_refused: "snd (snd (sax_run (KeyEnd ''layer'' 5 # NumberPart # Int64 n # evs)
    (goto kProcessingAttribute PartitionsSaxHandler_new))) = False"
  by (simp add: Let_def sax_String_def on_int64_def CanContinue_def NotSupported_def goto_def PartitionsSaxHandler_new_def
      collect_def attribute_states)

end
