(* ===== verification/JsonModels.thy ===== *)
theory JsonModels
  imports PartitionsSax
begin

text \<open>
  The models of the read service as JSON: the parsers of
  olp-cpp-sdk-dataservice-read/src/generated/parser and the serializers of generated/serializer for
  catalogs, partitions, versions, messages, indexes and service addresses, over the generic ones of
  \<open>ParserWrapper.h\<close>, \<open>SerializerWrapper.h\<close> and \<open>JsonParser.h\<close>.

  A document is a value of Boost.JSON: an object is the list of its members, a number is a signed or
  unsigned integer of 64 bits or a double. The doubles and their conversions are a parameter
  (\<open>numbers\<close>), as is the text of a document. An access to a value of another kind, which is
  undefined, and a conversion that throws are \<open>None\<close>.
\<close>

section \<open>Values\<close>

datatype 'd json =
    JNull | JBool bool | JInt64 u64 | JUint64 u64 | JDouble 'd | JString string
  | JArray "'d json list" | JObject "(string \<times> 'd json) list"

text \<open>The conversions of doubles: exactly to an integer, truncated to an integer (undefined out of range),
  and from the two kinds of integers.\<close>

record 'd numbers =
  exact_int64 :: "'d \<Rightarrow> u64 option"
  trunc_int64 :: "'d \<Rightarrow> u64 option"
  of_int64 :: "u64 \<Rightarrow> 'd"
  of_uint64 :: "u64 \<Rightarrow> 'd"

definition to_number_int64 :: "'d numbers \<Rightarrow> 'd json \<Rightarrow> u64 option" where
  "to_number_int64 N v =
     (case v of
        JInt64 n \<Rightarrow> Some n
      | JUint64 n \<Rightarrow> if unat n < 2 ^ 63 then Some n else None
      | JDouble d \<Rightarrow> exact_int64 N d
      | _ \<Rightarrow> None)"

definition to_number_double :: "'d numbers \<Rightarrow> 'd json \<Rightarrow> 'd option" where
  "to_number_double N v =
     (case v of
        JInt64 n \<Rightarrow> Some (of_int64 N n)
      | JUint64 n \<Rightarrow> Some (of_uint64 N n)
      | JDouble d \<Rightarrow> Some d
      | _ \<Rightarrow> None)"

section \<open>Generic parsers\<close>

definition from_json_string :: "'d json \<Rightarrow> string option" where
  "from_json_string v = (case v of JString s \<Rightarrow> Some s | _ \<Rightarrow> None)"

definition from_json_int32 :: "'d numbers \<Rightarrow> 'd json \<Rightarrow> u32 option" where
  "from_json_int32 N v = map_option ucast (to_number_int64 N v)"

definition from_json_int64 :: "'d numbers \<Rightarrow> 'd json \<Rightarrow> u64 option" where
  "from_json_int64 N v = to_number_int64 N v"

definition from_json_double :: "'d numbers \<Rightarrow> 'd json \<Rightarrow> 'd option" where
  "from_json_double N v = to_number_double N v"

definition from_json_bool :: "'d json \<Rightarrow> bool option" where
  "from_json_bool v = (case v of JBool b \<Rightarrow> Some b | _ \<Rightarrow> None)"

definition from_json_optional :: "('d json \<Rightarrow> 'a option) \<Rightarrow> 'd json \<Rightarrow> 'a option option" where
  "from_json_optional p v = map_option Some (p v)"

fun from_json_members :: "('d json \<Rightarrow> 'a option) \<Rightarrow> (string \<times> 'd json) list \<Rightarrow> (string, 'a) omap \<Rightarrow> (string, 'a) omap option" where
  "from_json_members p [] results = Some results"
| "from_json_members p ((key, v) # ms) results = do { x \<leftarrow> p v; from_json_members p ms (om_update key x results) }"

definition from_json_map :: "('d json \<Rightarrow> 'a option) \<Rightarrow> 'd json \<Rightarrow> (string, 'a) omap option" where
  "from_json_map p v = (case v of JObject ms \<Rightarrow> from_json_members p ms [] | _ \<Rightarrow> None)"

fun from_json_items :: "('d json \<Rightarrow> 'a option) \<Rightarrow> 'd json list \<Rightarrow> 'a list option" where
  "from_json_items p [] = Some []"
| "from_json_items p (v # vs) = do { x \<leftarrow> p v; xs \<leftarrow> from_json_items p vs; Some (x # xs) }"

definition from_json_vector :: "('d json \<Rightarrow> 'a option) \<Rightarrow> 'd json \<Rightarrow> 'a list option" where
  "from_json_vector p v = (case v of JArray vs \<Rightarrow> from_json_items p vs | _ \<Rightarrow> None)"

text \<open>\<open>parse<T>(value, name)\<close>: a member that is missing is the value \<open>T()\<close>.\<close>

definition parse_field :: "'a \<Rightarrow> ('d json \<Rightarrow> 'a option) \<Rightarrow> 'd json \<Rightarrow> string \<Rightarrow> 'a option" where
  "parse_field dflt p v name =
     (case v of JObject ms \<Rightarrow> (case map_of ms name of None \<Rightarrow> Some dflt | Some w \<Rightarrow> p w) | _ \<Rightarrow> None)"

text \<open>\<open>parse<T>(json)\<close>: the text is parsed by Boost.JSON; \<open>T{}\<close> when it is not a document or neither an object
  nor an array.\<close>

definition parse_text :: "(string \<Rightarrow> 'd json option) \<Rightarrow> 'a \<Rightarrow> ('d json \<Rightarrow> 'a option) \<Rightarrow> string \<Rightarrow> 'a option" where
  "parse_text boost_parse dflt p text =
     (case boost_parse text of
        Some (JObject ms) \<Rightarrow> p (JObject ms)
      | Some (JArray vs) \<Rightarrow> p (JArray vs)
      | _ \<Rightarrow> Some dflt)"

text \<open>\<open>parse_result\<close>: the same for a response, with the error for what is not an object or an array.\<close>

definition parse_result :: "(string \<Rightarrow> 'd json option) \<Rightarrow> ('d json \<Rightarrow> 'a option) \<Rightarrow> string \<Rightarrow> (unit + 'a) option" where
  "parse_result boost_parse p text =
     (case boost_parse text of
        Some (JObject ms) \<Rightarrow> map_option Inr (p (JObject ms))
      | Some (JArray vs) \<Rightarrow> map_option Inr (p (JArray vs))
      | _ \<Rightarrow> Some (Inl ()))"

definition from_json_throughput :: "'d numbers \<Rightarrow> 'd json \<Rightarrow> u64 option" where
  "from_json_throughput N v = do { d \<leftarrow> from_json_double N v; trunc_int64 N d }"

section \<open>Generic serializers\<close>

definition to_json_string :: "string \<Rightarrow> 'd json" where
  "to_json_string x = JString x"

definition to_json_int32 :: "u32 \<Rightarrow> 'd json" where
  "to_json_int32 x = JInt64 (scast x)"

definition to_json_int64 :: "u64 \<Rightarrow> 'd json" where
  "to_json_int64 x = JInt64 x"

definition to_json_bool :: "bool \<Rightarrow> 'd json" where
  "to_json_bool x = JBool x"

definition to_json_optional :: "('a \<Rightarrow> 'd json) \<Rightarrow> 'a option \<Rightarrow> 'd json" where
  "to_json_optional f x = (case x of None \<Rightarrow> JNull | Some y \<Rightarrow> f y)"

text \<open>\<open>emplace\<close> leaves a member that is already there.\<close>

definition emplace :: "string \<Rightarrow> 'd json \<Rightarrow> (string \<times> 'd json) list \<Rightarrow> (string \<times> 'd json) list" where
  "emplace key v ms = (if map_of ms key = None then ms @ [(key, v)] else ms)"

definition to_json_map :: "('a \<Rightarrow> 'd json) \<Rightarrow> (string, 'a) omap \<Rightarrow> 'd json" where
  "to_json_map f m = JObject (fold (\<lambda>(k, x). emplace k (f x)) m [])"

definition to_json_vector :: "('a \<Rightarrow> 'd json) \<Rightarrow> 'a list \<Rightarrow> 'd json" where
  "to_json_vector f xs = JArray (map f xs)"

definition serialize :: "string \<Rightarrow> 'd json \<Rightarrow> (string \<times> 'd json) list \<Rightarrow> (string \<times> 'd json) list" where
  "serialize key v ms = (if v = JNull then ms else emplace key v ms)"

text \<open>The calls of \<open>serialize\<close> on one object, in their order.\<close>

definition members :: "(string \<times> 'd json) list \<Rightarrow> (string \<times> 'd json) list" where
  "members kvs = fold (\<lambda>(k, v). serialize k v) kvs []"

section \<open>Types of documents\<close>

text \<open>What a member must be for its parser to be defined; a member may be missing and others may be
  there.\<close>

datatype ty = TString | TInt | TNumber | TBool | TArray ty | TMap ty | TObject "(string \<times> ty) list"

fun has_type :: "'d numbers \<Rightarrow> ty \<Rightarrow> 'd json \<Rightarrow> bool" where
  "has_type N TString v \<longleftrightarrow> (case v of JString s \<Rightarrow> True | _ \<Rightarrow> False)"
| "has_type N TInt v \<longleftrightarrow> (case v of JInt64 n \<Rightarrow> True | JUint64 n \<Rightarrow> unat n < 2 ^ 63 | _ \<Rightarrow> False)"
| "has_type N TNumber v \<longleftrightarrow>
     (case v of JInt64 n \<Rightarrow> trunc_int64 N (of_int64 N n) \<noteq> None | JDouble d \<Rightarrow> trunc_int64 N d \<noteq> None | _ \<Rightarrow> False)"
| "has_type N TBool v \<longleftrightarrow> (case v of JBool b \<Rightarrow> True | _ \<Rightarrow> False)"
| "has_type N (TArray t) v \<longleftrightarrow> (case v of JArray vs \<Rightarrow> list_all (has_type N t) vs | _ \<Rightarrow> False)"
| "has_type N (TMap t) v \<longleftrightarrow> (case v of JObject ms \<Rightarrow> list_all (\<lambda>m. has_type N t (snd m)) ms | _ \<Rightarrow> False)"
| "has_type N (TObject fs) v \<longleftrightarrow>
     (case v of
        JObject ms \<Rightarrow> list_all (\<lambda>f. case map_of ms (fst f) of None \<Rightarrow> True | Some w \<Rightarrow> has_type N (snd f) w) fs
      | _ \<Rightarrow> False)"

section \<open>The models\<close>

record Coverage =
  cov_admin_areas :: "string list"

definition Coverage_new :: Coverage where
  "Coverage_new =
     \<lparr>cov_admin_areas = []\<rparr>"

definition to_json_Coverage :: "Coverage \<Rightarrow> 'd json" where
  "to_json_Coverage x = JObject (members
     [(''adminAreas'', to_json_vector to_json_string (cov_admin_areas x))])"

definition from_json_Coverage :: "'d numbers \<Rightarrow> 'd json \<Rightarrow> Coverage option" where
  "from_json_Coverage N value = do {
     x1 \<leftarrow> parse_field [] (from_json_vector from_json_string) value ''adminAreas'';
     Some \<lparr>cov_admin_areas = x1\<rparr> }"

definition ty_Coverage :: ty where
  "ty_Coverage = TObject
     [(''adminAreas'', TArray TString)]"

record IndexDefinition =
  idef_name :: string
  idef_type :: string
  idef_duration :: u64
  idef_zoomLevel :: u64

definition IndexDefinition_new :: IndexDefinition where
  "IndexDefinition_new =
     \<lparr>idef_name = [], idef_type = [], idef_duration = 0, idef_zoomLevel = 0\<rparr>"

definition to_json_IndexDefinition :: "IndexDefinition \<Rightarrow> 'd json" where
  "to_json_IndexDefinition x = JObject (members
     [(''name'', to_json_string (idef_name x)), (''type'', to_json_string (idef_type x)),
     (''duration'', to_json_int64 (idef_duration x)), (''zoomLevel'', to_json_int64 (idef_zoomLevel x))])"

definition from_json_IndexDefinition :: "'d numbers \<Rightarrow> 'd json \<Rightarrow> IndexDefinition option" where
  "from_json_IndexDefinition N value = do {
     x1 \<leftarrow> parse_field [] from_json_string value ''name'';
     x2 \<leftarrow> parse_field [] from_json_string value ''type'';
     x3 \<leftarrow> parse_field 0 (from_json_int64 N) value ''duration'';
     x4 \<leftarrow> parse_field 0 (from_json_int64 N) value ''zoomLevel'';
     Some \<lparr>idef_name = x1, idef_type = x2, idef_duration = x3, idef_zoomLevel = x4\<rparr> }"

definition ty_IndexDefinition :: ty where
  "ty_IndexDefinition = TObject
     [(''name'', TString), (''type'', TString), (''duration'', TInt), (''zoomLevel'', TInt)]"

record IndexProperties =
  iprop_ttl :: string
  iprop_index_definitions :: "IndexDefinition list"

definition IndexProperties_new :: IndexProperties where
  "IndexProperties_new =
     \<lparr>iprop_ttl = [], iprop_index_definitions = []\<rparr>"

definition to_json_IndexProperties :: "IndexProperties \<Rightarrow> 'd json" where
  "to_json_IndexProperties x = JObject (members
     [(''ttl'', to_json_string (iprop_ttl x)),
     (''indexDefinitions'', to_json_vector to_json_IndexDefinition (iprop_index_definitions x))])"

definition from_json_IndexProperties :: "'d numbers \<Rightarrow> 'd json \<Rightarrow> IndexProperties option" where
  "from_json_IndexProperties N value = do {
     x1 \<leftarrow> parse_field [] from_json_string value ''ttl'';
     x2 \<leftarrow> parse_field [] (from_json_vector (from_json_IndexDefinition N)) value ''indexDefinitions'';
     Some \<lparr>iprop_ttl = x1, iprop_index_definitions = x2\<rparr> }"

definition ty_IndexProperties :: ty where
  "ty_IndexProperties = TObject
     [(''ttl'', TString), (''indexDefinitions'', TArray ty_IndexDefinition)]"

record Creator =
  creator_id :: string

definition Creator_new :: Creator where
  "Creator_new =
     \<lparr>creator_id = []\<rparr>"

definition to_json_Creator :: "Creator \<Rightarrow> 'd json" where
  "to_json_Creator x = JObject (members
     [(''id'', to_json_string (creator_id x))])"

definition from_json_Creator :: "'d numbers \<Rightarrow> 'd json \<Rightarrow> Creator option" where
  "from_json_Creator N value = do {
     x1 \<leftarrow> parse_field [] from_json_string value ''id'';
     Some \<lparr>creator_id = x1\<rparr> }"

definition ty_Creator :: ty where
  "ty_Creator = TObject
     [(''id'', TString)]"

record Owner =
  owner_creator :: Creator
  owner_organisation :: Creator

definition Owner_new :: Owner where
  "Owner_new =
     \<lparr>owner_creator = Creator_new, owner_organisation = Creator_new\<rparr>"

definition to_json_Owner :: "Owner \<Rightarrow> 'd json" where
  "to_json_Owner x = JObject (members
     [(''creator'', to_json_Creator (owner_creator x)),
     (''organisation'', to_json_Creator (owner_organisation x))])"

definition from_json_Owner :: "'d numbers \<Rightarrow> 'd json \<Rightarrow> Owner option" where
  "from_json_Owner N value = do {
     x1 \<leftarrow> parse_field Creator_new (from_json_Creator N) value ''creator'';
     x2 \<leftarrow> parse_field Creator_new (from_json_Creator N) value ''organisation'';
     Some \<lparr>owner_creator = x1, owner_organisation = x2\<rparr> }"

definition ty_Owner :: ty where
  "ty_Owner = TObject
     [(''creator'', ty_Creator), (''organisation'', ty_Creator)]"

record Partitioning =
  ping_scheme :: string
  ping_tile_levels :: "u64 list"

definition Partitioning_new :: Partitioning where
  "Partitioning_new =
     \<lparr>ping_scheme = [], ping_tile_levels = []\<rparr>"

definition to_json_Partitioning :: "Partitioning \<Rightarrow> 'd json" where
  "to_json_Partitioning x = JObject (members
     [(''scheme'', to_json_string (ping_scheme x)),
     (''tileLevels'', to_json_vector to_json_int64 (ping_tile_levels x))])"

definition from_json_Partitioning :: "'d numbers \<Rightarrow> 'd json \<Rightarrow> Partitioning option" where
  "from_json_Partitioning N value = do {
     x1 \<leftarrow> parse_field [] from_json_string value ''scheme'';
     x2 \<leftarrow> parse_field [] (from_json_vector (from_json_int64 N)) value ''tileLevels'';
     Some \<lparr>ping_scheme = x1, ping_tile_levels = x2\<rparr> }"

definition ty_Partitioning :: ty where
  "ty_Partitioning = TObject
     [(''scheme'', TString), (''tileLevels'', TArray TInt)]"

record Schema =
  schema_hrn :: string

definition Schema_new :: Schema where
  "Schema_new =
     \<lparr>schema_hrn = []\<rparr>"

definition to_json_Schema :: "Schema \<Rightarrow> 'd json" where
  "to_json_Schema x = JObject (members
     [(''hrn'', to_json_string (schema_hrn x))])"

definition from_json_Schema :: "'d numbers \<Rightarrow> 'd json \<Rightarrow> Schema option" where
  "from_json_Schema N value = do {
     x1 \<leftarrow> parse_field [] from_json_string value ''hrn'';
     Some \<lparr>schema_hrn = x1\<rparr> }"

definition ty_Schema :: ty where
  "ty_Schema = TObject
     [(''hrn'', TString)]"

record StreamProperties =
  sprop_data_in_throughput_mbps :: u64
  sprop_data_out_throughput_mbps :: u64

definition StreamProperties_new :: StreamProperties where
  "StreamProperties_new =
     \<lparr>sprop_data_in_throughput_mbps = 0, sprop_data_out_throughput_mbps = 0\<rparr>"

definition to_json_StreamProperties :: "StreamProperties \<Rightarrow> 'd json" where
  "to_json_StreamProperties x = JObject (members
     [(''dataInThroughputMbps'', to_json_int64 (sprop_data_in_throughput_mbps x)),
     (''dataOutThroughputMbps'', to_json_int64 (sprop_data_out_throughput_mbps x))])"

definition from_json_StreamProperties :: "'d numbers \<Rightarrow> 'd json \<Rightarrow> StreamProperties option" where
  "from_json_StreamProperties N value = do {
     x1 \<leftarrow> parse_field 0 (from_json_throughput N) value ''dataInThroughputMbps'';
     x2 \<leftarrow> parse_field 0 (from_json_throughput N) value ''dataOutThroughputMbps'';
     Some \<lparr>sprop_data_in_throughput_mbps = x1, sprop_data_out_throughput_mbps = x2\<rparr> }"

definition ty_StreamProperties :: ty where
  "ty_StreamProperties = TObject
     [(''dataInThroughputMbps'', TNumber), (''dataOutThroughputMbps'', TNumber)]"

record Encryption =
  enc_algorithm :: string

definition Encryption_new :: Encryption where
  "Encryption_new =
     \<lparr>enc_algorithm = []\<rparr>"

definition to_json_Encryption :: "Encryption \<Rightarrow> 'd json" where
  "to_json_Encryption x = JObject (members
     [(''algorithm'', to_json_string (enc_algorithm x))])"

definition from_json_Encryption :: "'d numbers \<Rightarrow> 'd json \<Rightarrow> Encryption option" where
  "from_json_Encryption N value = do {
     x1 \<leftarrow> parse_field [] from_json_string value ''algorithm'';
     Some \<lparr>enc_algorithm = x1\<rparr> }"

definition ty_Encryption :: ty where
  "ty_Encryption = TObject
     [(''algorithm'', TString)]"

record Volume =
  vol_volume_type :: string
  vol_max_memory_policy :: string
  vol_package_type :: string
  vol_encryption :: Encryption

definition Volume_new :: Volume where
  "Volume_new =
     \<lparr>vol_volume_type = [], vol_max_memory_policy = [], vol_package_type = [],
     vol_encryption = Encryption_new\<rparr>"

definition to_json_Volume :: "Volume \<Rightarrow> 'd json" where
  "to_json_Volume x = JObject (members
     [(''volumeType'', to_json_string (vol_volume_type x)),
     (''maxMemoryPolicy'', to_json_string (vol_max_memory_policy x)),
     (''packageType'', to_json_string (vol_package_type x)),
     (''encryption'', to_json_Encryption (vol_encryption x))])"

definition from_json_Volume :: "'d numbers \<Rightarrow> 'd json \<Rightarrow> Volume option" where
  "from_json_Volume N value = do {
     x1 \<leftarrow> parse_field [] from_json_string value ''volumeType'';
     x2 \<leftarrow> parse_field [] from_json_string value ''maxMemoryPolicy'';
     x3 \<leftarrow> parse_field [] from_json_string value ''packageType'';
     x4 \<leftarrow> parse_field Encryption_new (from_json_Encryption N) value ''encryption'';
     Some \<lparr>vol_volume_type = x1, vol_max_memory_policy = x2, vol_package_type = x3,
       vol_encryption = x4\<rparr> }"

definition ty_Volume :: ty where
  "ty_Volume = TObject
     [(''volumeType'', TString), (''maxMemoryPolicy'', TString), (''packageType'', TString),
     (''encryption'', ty_Encryption)]"

record Layer =
  layer_id :: string
  layer_name :: string
  layer_summary :: string
  layer_description :: string
  layer_owner :: Owner
  layer_coverage :: Coverage
  layer_schema :: Schema
  layer_content_type :: string
  layer_content_encoding :: string
  layer_partitioning :: Partitioning
  layer_layer_type :: string
  layer_digest :: string
  layer_tags :: "string list"
  layer_billing_tags :: "string list"
  layer_ttl :: "u64 option"
  layer_index_properties :: IndexProperties
  layer_stream_properties :: StreamProperties
  layer_volume :: Volume

definition Layer_new :: Layer where
  "Layer_new =
     \<lparr>layer_id = [], layer_name = [], layer_summary = [], layer_description = [],
     layer_owner = Owner_new, layer_coverage = Coverage_new, layer_schema = Schema_new,
     layer_content_type = [], layer_content_encoding = [], layer_partitioning = Partitioning_new,
     layer_layer_type = [], layer_digest = [], layer_tags = [], layer_billing_tags = [], layer_ttl = None,
     layer_index_properties = IndexProperties_new, layer_stream_properties = StreamProperties_new,
     layer_volume = Volume_new\<rparr>"

definition to_json_Layer :: "Layer \<Rightarrow> 'd json" where
  "to_json_Layer x = JObject (members
     [(''id'', to_json_string (layer_id x)), (''name'', to_json_string (layer_name x)),
     (''summary'', to_json_string (layer_summary x)),
     (''description'', to_json_string (layer_description x)), (''owner'', to_json_Owner (layer_owner x)),
     (''coverage'', to_json_Coverage (layer_coverage x)), (''schema'', to_json_Schema (layer_schema x)),
     (''contentType'', to_json_string (layer_content_type x)),
     (''contentEncoding'', to_json_string (layer_content_encoding x)),
     (''partitioning'', to_json_Partitioning (layer_partitioning x)),
     (''layerType'', to_json_string (layer_layer_type x)), (''digest'', to_json_string (layer_digest x)),
     (''tags'', to_json_vector to_json_string (layer_tags x)),
     (''billingTags'', to_json_vector to_json_string (layer_billing_tags x)),
     (''ttl'', to_json_optional to_json_int64 (layer_ttl x)),
     (''indexProperties'', to_json_IndexProperties (layer_index_properties x)),
     (''streamProperties'', to_json_StreamProperties (layer_stream_properties x)),
     (''volume'', to_json_Volume (layer_volume x))])"

definition from_json_Layer :: "'d numbers \<Rightarrow> 'd json \<Rightarrow> Layer option" where
  "from_json_Layer N value = do {
     x1 \<leftarrow> parse_field [] from_json_string value ''id'';
     x2 \<leftarrow> parse_field [] from_json_string value ''name'';
     x3 \<leftarrow> parse_field [] from_json_string value ''summary'';
     x4 \<leftarrow> parse_field [] from_json_string value ''description'';
     x5 \<leftarrow> parse_field Owner_new (from_json_Owner N) value ''owner'';
     x6 \<leftarrow> parse_field Coverage_new (from_json_Coverage N) value ''coverage'';
     x7 \<leftarrow> parse_field Schema_new (from_json_Schema N) value ''schema'';
     x8 \<leftarrow> parse_field [] from_json_string value ''contentType'';
     x9 \<leftarrow> parse_field [] from_json_string value ''contentEncoding'';
     x10 \<leftarrow> parse_field Partitioning_new (from_json_Partitioning N) value ''partitioning'';
     x11 \<leftarrow> parse_field [] from_json_string value ''layerType'';
     x12 \<leftarrow> parse_field [] from_json_string value ''digest'';
     x13 \<leftarrow> parse_field [] (from_json_vector from_json_string) value ''tags'';
     x14 \<leftarrow> parse_field [] (from_json_vector from_json_string) value ''billingTags'';
     x15 \<leftarrow> parse_field None (from_json_optional (from_json_int64 N)) value ''ttl'';
     x16 \<leftarrow> parse_field IndexProperties_new (from_json_IndexProperties N) value ''indexProperties'';
     x17 \<leftarrow> parse_field StreamProperties_new (from_json_StreamProperties N) value ''streamProperties'';
     x18 \<leftarrow> parse_field Volume_new (from_json_Volume N) value ''volume'';
     Some \<lparr>layer_id = x1, layer_name = x2, layer_summary = x3, layer_description = x4, layer_owner = x5,
       layer_coverage = x6, layer_schema = x7, layer_content_type = x8, layer_content_encoding = x9,
       layer_partitioning = x10, layer_layer_type = x11, layer_digest = x12, layer_tags = x13,
       layer_billing_tags = x14, layer_ttl = x15, layer_index_properties = x16,
       layer_stream_properties = x17, layer_volume = x18\<rparr> }"

definition ty_Layer :: ty where
  "ty_Layer = TObject
     [(''id'', TString), (''name'', TString), (''summary'', TString), (''description'', TString),
     (''owner'', ty_Owner), (''coverage'', ty_Coverage), (''schema'', ty_Schema),
     (''contentType'', TString), (''contentEncoding'', TString), (''partitioning'', ty_Partitioning),
     (''layerType'', TString), (''digest'', TString), (''tags'', TArray TString),
     (''billingTags'', TArray TString), (''ttl'', TInt), (''indexProperties'', ty_IndexProperties),
     (''streamProperties'', ty_StreamProperties), (''volume'', ty_Volume)]"

record Notifications =
  notif_enabled :: bool

definition Notifications_new :: Notifications where
  "Notifications_new =
     \<lparr>notif_enabled = False\<rparr>"

definition to_json_Notifications :: "Notifications \<Rightarrow> 'd json" where
  "to_json_Notifications x = JObject (members
     [(''enabled'', to_json_bool (notif_enabled x))])"

definition from_json_Notifications :: "'d numbers \<Rightarrow> 'd json \<Rightarrow> Notifications option" where
  "from_json_Notifications N value = do {
     x1 \<leftarrow> parse_field False from_json_bool value ''enabled'';
     Some \<lparr>notif_enabled = x1\<rparr> }"

definition ty_Notifications :: ty where
  "ty_Notifications = TObject
     [(''enabled'', TBool)]"

record Catalog =
  cat_id :: string
  cat_hrn :: string
  cat_name :: string
  cat_summary :: string
  cat_description :: string
  cat_coverage :: Coverage
  cat_owner :: Owner
  cat_tags :: "string list"
  cat_billing_tags :: "string list"
  cat_created :: string
  cat_layers :: "Layer list"
  cat_version :: u64
  cat_notifications :: Notifications

definition Catalog_new :: Catalog where
  "Catalog_new =
     \<lparr>cat_id = [], cat_hrn = [], cat_name = [], cat_summary = [], cat_description = [],
     cat_coverage = Coverage_new, cat_owner = Owner_new, cat_tags = [], cat_billing_tags = [],
     cat_created = [], cat_layers = [], cat_version = 0, cat_notifications = Notifications_new\<rparr>"

definition to_json_Catalog :: "Catalog \<Rightarrow> 'd json" where
  "to_json_Catalog x = JObject (members
     [(''id'', to_json_string (cat_id x)), (''hrn'', to_json_string (cat_hrn x)),
     (''name'', to_json_string (cat_name x)), (''summary'', to_json_string (cat_summary x)),
     (''description'', to_json_string (cat_description x)),
     (''coverage'', to_json_Coverage (cat_coverage x)), (''owner'', to_json_Owner (cat_owner x)),
     (''tags'', to_json_vector to_json_string (cat_tags x)),
     (''billingTags'', to_json_vector to_json_string (cat_billing_tags x)),
     (''created'', to_json_string (cat_created x)),
     (''layers'', to_json_vector to_json_Layer (cat_layers x)),
     (''version'', to_json_int64 (cat_version x)),
     (''notifications'', to_json_Notifications (cat_notifications x))])"

definition from_json_Catalog :: "'d numbers \<Rightarrow> 'd json \<Rightarrow> Catalog option" where
  "from_json_Catalog N value = do {
     x1 \<leftarrow> parse_field [] from_json_string value ''id'';
     x2 \<leftarrow> parse_field [] from_json_string value ''hrn'';
     x3 \<leftarrow> parse_field [] from_json_string value ''name'';
     x4 \<leftarrow> parse_field [] from_json_string value ''summary'';
     x5 \<leftarrow> parse_field [] from_json_string value ''description'';
     x6 \<leftarrow> parse_field Coverage_new (from_json_Coverage N) value ''coverage'';
     x7 \<leftarrow> parse_field Owner_new (from_json_Owner N) value ''owner'';
     x8 \<leftarrow> parse_field [] (from_json_vector from_json_string) value ''tags'';
     x9 \<leftarrow> parse_field [] (from_json_vector from_json_string) value ''billingTags'';
     x10 \<leftarrow> parse_field [] from_json_string value ''created'';
     x11 \<leftarrow> parse_field [] (from_json_vector (from_json_Layer N)) value ''layers'';
     x12 \<leftarrow> parse_field 0 (from_json_int64 N) value ''version'';
     x13 \<leftarrow> parse_field Notifications_new (from_json_Notifications N) value ''notifications'';
     Some \<lparr>cat_id = x1, cat_hrn = x2, cat_name = x3, cat_summary = x4, cat_description = x5,
       cat_coverage = x6, cat_owner = x7, cat_tags = x8, cat_billing_tags = x9, cat_created = x10,
       cat_layers = x11, cat_version = x12, cat_notifications = x13\<rparr> }"

definition ty_Catalog :: ty where
  "ty_Catalog = TObject
     [(''id'', TString), (''hrn'', TString), (''name'', TString), (''summary'', TString),
     (''description'', TString), (''coverage'', ty_Coverage), (''owner'', ty_Owner),
     (''tags'', TArray TString), (''billingTags'', TArray TString), (''created'', TString),
     (''layers'', TArray ty_Layer), (''version'', TInt), (''notifications'', ty_Notifications)]"

definition to_json_Partition :: "Partition \<Rightarrow> 'd json" where
  "to_json_Partition x = JObject (members
     [(''checksum'', to_json_optional to_json_string (p_checksum x)),
     (''compressedDataSize'', to_json_optional to_json_int64 (p_compressed_data_size x)),
     (''dataHandle'', to_json_string (p_data_handle x)),
     (''dataSize'', to_json_optional to_json_int64 (p_data_size x)),
     (''crc'', to_json_optional to_json_string (p_crc x)), (''partition'', to_json_string (p_partition x)),
     (''version'', to_json_optional to_json_int64 (p_version x))])"

definition from_json_Partition :: "'d numbers \<Rightarrow> 'd json \<Rightarrow> Partition option" where
  "from_json_Partition N value = do {
     x1 \<leftarrow> parse_field None (from_json_optional from_json_string) value ''checksum'';
     x2 \<leftarrow> parse_field None (from_json_optional (from_json_int64 N)) value ''compressedDataSize'';
     x3 \<leftarrow> parse_field [] from_json_string value ''dataHandle'';
     x4 \<leftarrow> parse_field None (from_json_optional (from_json_int64 N)) value ''dataSize'';
     x5 \<leftarrow> parse_field None (from_json_optional from_json_string) value ''crc'';
     x6 \<leftarrow> parse_field [] from_json_string value ''partition'';
     x7 \<leftarrow> parse_field None (from_json_optional (from_json_int64 N)) value ''version'';
     Some \<lparr>p_checksum = x1, p_compressed_data_size = x2, p_data_handle = x3, p_data_size = x4,
       p_crc = x5, p_partition = x6, p_version = x7\<rparr> }"

definition ty_Partition :: ty where
  "ty_Partition = TObject
     [(''checksum'', TString), (''compressedDataSize'', TInt), (''dataHandle'', TString),
     (''dataSize'', TInt), (''crc'', TString), (''partition'', TString), (''version'', TInt)]"

record Partitions =
  ps_partitions :: "Partition list"

definition Partitions_new :: Partitions where
  "Partitions_new =
     \<lparr>ps_partitions = []\<rparr>"

definition to_json_Partitions :: "Partitions \<Rightarrow> 'd json" where
  "to_json_Partitions x = JObject (members
     [(''partitions'', to_json_vector to_json_Partition (ps_partitions x))])"

definition from_json_Partitions :: "'d numbers \<Rightarrow> 'd json \<Rightarrow> Partitions option" where
  "from_json_Partitions N value = do {
     x1 \<leftarrow> parse_field [] (from_json_vector (from_json_Partition N)) value ''partitions'';
     Some \<lparr>ps_partitions = x1\<rparr> }"

definition ty_Partitions :: ty where
  "ty_Partitions = TObject
     [(''partitions'', TArray ty_Partition)]"

record LayerVersion =
  lv_layer :: string
  lv_version :: u64
  lv_timestamp :: u64

definition LayerVersion_new :: LayerVersion where
  "LayerVersion_new =
     \<lparr>lv_layer = [], lv_version = 0, lv_timestamp = 0\<rparr>"

definition to_json_LayerVersion :: "LayerVersion \<Rightarrow> 'd json" where
  "to_json_LayerVersion x = JObject (members
     [(''layer'', to_json_string (lv_layer x)), (''version'', to_json_int64 (lv_version x)),
     (''timestamp'', to_json_int64 (lv_timestamp x))])"

definition from_json_LayerVersion :: "'d numbers \<Rightarrow> 'd json \<Rightarrow> LayerVersion option" where
  "from_json_LayerVersion N value = do {
     x1 \<leftarrow> parse_field [] from_json_string value ''layer'';
     x2 \<leftarrow> parse_field 0 (from_json_int64 N) value ''version'';
     x3 \<leftarrow> parse_field 0 (from_json_int64 N) value ''timestamp'';
     Some \<lparr>lv_layer = x1, lv_version = x2, lv_timestamp = x3\<rparr> }"

definition ty_LayerVersion :: ty where
  "ty_LayerVersion = TObject
     [(''layer'', TString), (''version'', TInt), (''timestamp'', TInt)]"

record LayerVersions =
  lvs_layer_versions :: "LayerVersion list"
  lvs_version :: u64

definition LayerVersions_new :: LayerVersions where
  "LayerVersions_new =
     \<lparr>lvs_layer_versions = [], lvs_version = 0\<rparr>"

definition to_json_LayerVersions :: "LayerVersions \<Rightarrow> 'd json" where
  "to_json_LayerVersions x = JObject (members
     [(''layerVersions'', to_json_vector to_json_LayerVersion (lvs_layer_versions x)),
     (''version'', to_json_int64 (lvs_version x))])"

definition from_json_LayerVersions :: "'d numbers \<Rightarrow> 'd json \<Rightarrow> LayerVersions option" where
  "from_json_LayerVersions N value = do {
     x1 \<leftarrow> parse_field [] (from_json_vector (from_json_LayerVersion N)) value ''layerVersions'';
     x2 \<leftarrow> parse_field 0 (from_json_int64 N) value ''version'';
     Some \<lparr>lvs_layer_versions = x1, lvs_version = x2\<rparr> }"

definition ty_LayerVersions :: ty where
  "ty_LayerVersions = TObject
     [(''layerVersions'', TArray ty_LayerVersion), (''version'', TInt)]"

record VersionResponse =
  vr_version :: u64

definition VersionResponse_new :: VersionResponse where
  "VersionResponse_new =
     \<lparr>vr_version = 0\<rparr>"

definition to_json_VersionResponse :: "VersionResponse \<Rightarrow> 'd json" where
  "to_json_VersionResponse x = JObject (members
     [(''version'', to_json_int64 (vr_version x))])"

definition from_json_VersionResponse :: "'d numbers \<Rightarrow> 'd json \<Rightarrow> VersionResponse option" where
  "from_json_VersionResponse N value = do {
     x1 \<leftarrow> parse_field 0 (from_json_int64 N) value ''version'';
     Some \<lparr>vr_version = x1\<rparr> }"

definition ty_VersionResponse :: ty where
  "ty_VersionResponse = TObject
     [(''version'', TInt)]"

record Api =
  api_api :: string
  api_version :: string
  api_baseUrl :: string
  api_parameters :: "(string, string) omap"

definition Api_new :: Api where
  "Api_new =
     \<lparr>api_api = [], api_version = [], api_baseUrl = [], api_parameters = []\<rparr>"

definition to_json_Api :: "Api \<Rightarrow> 'd json" where
  "to_json_Api x = JObject (members
     [(''api'', to_json_string (api_api x)), (''version'', to_json_string (api_version x)),
     (''baseURL'', to_json_string (api_baseUrl x)),
     (''parameters'', to_json_map to_json_string (api_parameters x))])"

definition from_json_Api :: "'d numbers \<Rightarrow> 'd json \<Rightarrow> Api option" where
  "from_json_Api N value = do {
     x1 \<leftarrow> parse_field [] from_json_string value ''api'';
     x2 \<leftarrow> parse_field [] from_json_string value ''version'';
     x3 \<leftarrow> parse_field [] from_json_string value ''baseURL'';
     x4 \<leftarrow> parse_field [] (from_json_map from_json_string) value ''parameters'';
     Some \<lparr>api_api = x1, api_version = x2, api_baseUrl = x3, api_parameters = x4\<rparr> }"

definition ty_Api :: ty where
  "ty_Api = TObject
     [(''api'', TString), (''version'', TString), (''baseURL'', TString), (''parameters'', TMap TString)]"

record VersionDependency =
  vd_hrn :: string
  vd_version :: u64
  vd_direct :: bool

definition VersionDependency_new :: VersionDependency where
  "VersionDependency_new =
     \<lparr>vd_hrn = [], vd_version = 0, vd_direct = False\<rparr>"

definition to_json_VersionDependency :: "VersionDependency \<Rightarrow> 'd json" where
  "to_json_VersionDependency x = JObject (members
     [(''hrn'', to_json_string (vd_hrn x)), (''version'', to_json_int64 (vd_version x)),
     (''direct'', to_json_bool (vd_direct x))])"

definition from_json_VersionDependency :: "'d numbers \<Rightarrow> 'd json \<Rightarrow> VersionDependency option" where
  "from_json_VersionDependency N value = do {
     x1 \<leftarrow> parse_field [] from_json_string value ''hrn'';
     x2 \<leftarrow> parse_field 0 (from_json_int64 N) value ''version'';
     x3 \<leftarrow> parse_field False from_json_bool value ''direct'';
     Some \<lparr>vd_hrn = x1, vd_version = x2, vd_direct = x3\<rparr> }"

definition ty_VersionDependency :: ty where
  "ty_VersionDependency = TObject
     [(''hrn'', TString), (''version'', TInt), (''direct'', TBool)]"

record VersionInfo =
  vi_dependencies :: "VersionDependency list"
  vi_timestamp :: u64
  vi_version :: u64
  vi_partition_counts :: "(string, u64) omap"

definition VersionInfo_new :: VersionInfo where
  "VersionInfo_new =
     \<lparr>vi_dependencies = [], vi_timestamp = 0, vi_version = 0, vi_partition_counts = []\<rparr>"

definition to_json_VersionInfo :: "VersionInfo \<Rightarrow> 'd json" where
  "to_json_VersionInfo x = JObject (members
     [(''dependencies'', to_json_vector to_json_VersionDependency (vi_dependencies x)),
     (''timestamp'', to_json_int64 (vi_timestamp x)), (''version'', to_json_int64 (vi_version x)),
     (''partitionCounts'', to_json_map to_json_int64 (vi_partition_counts x))])"

definition from_json_VersionInfo :: "'d numbers \<Rightarrow> 'd json \<Rightarrow> VersionInfo option" where
  "from_json_VersionInfo N value = do {
     x1 \<leftarrow> parse_field [] (from_json_vector (from_json_VersionDependency N)) value ''dependencies'';
     x2 \<leftarrow> parse_field 0 (from_json_int64 N) value ''timestamp'';
     x3 \<leftarrow> parse_field 0 (from_json_int64 N) value ''version'';
     x4 \<leftarrow> parse_field [] (from_json_map (from_json_int64 N)) value ''partitionCounts'';
     Some \<lparr>vi_dependencies = x1, vi_timestamp = x2, vi_version = x3, vi_partition_counts = x4\<rparr> }"

definition ty_VersionInfo :: ty where
  "ty_VersionInfo = TObject
     [(''dependencies'', TArray ty_VersionDependency), (''timestamp'', TInt), (''version'', TInt),
     (''partitionCounts'', TMap TInt)]"

record VersionInfos =
  vis_versions :: "VersionInfo list"

definition VersionInfos_new :: VersionInfos where
  "VersionInfos_new =
     \<lparr>vis_versions = []\<rparr>"

definition to_json_VersionInfos :: "VersionInfos \<Rightarrow> 'd json" where
  "to_json_VersionInfos x = JObject (members
     [(''versions'', to_json_vector to_json_VersionInfo (vis_versions x))])"

definition from_json_VersionInfos :: "'d numbers \<Rightarrow> 'd json \<Rightarrow> VersionInfos option" where
  "from_json_VersionInfos N value = do {
     x1 \<leftarrow> parse_field [] (from_json_vector (from_json_VersionInfo N)) value ''versions'';
     Some \<lparr>vis_versions = x1\<rparr> }"

definition ty_VersionInfos :: ty where
  "ty_VersionInfos = TObject
     [(''versions'', TArray ty_VersionInfo)]"

record StreamOffset =
  so_partition :: u32
  so_offset :: u64

definition StreamOffset_new :: StreamOffset where
  "StreamOffset_new =
     \<lparr>so_partition = 0, so_offset = 0\<rparr>"

definition to_json_StreamOffset :: "StreamOffset \<Rightarrow> 'd json" where
  "to_json_StreamOffset x = JObject (members
     [(''partition'', to_json_int32 (so_partition x)), (''offset'', to_json_int64 (so_offset x))])"

definition from_json_StreamOffset :: "'d numbers \<Rightarrow> 'd json \<Rightarrow> StreamOffset option" where
  "from_json_StreamOffset N value = do {
     x1 \<leftarrow> parse_field 0 (from_json_int32 N) value ''partition'';
     x2 \<leftarrow> parse_field 0 (from_json_int64 N) value ''offset'';
     Some \<lparr>so_partition = x1, so_offset = x2\<rparr> }"

definition ty_StreamOffset :: ty where
  "ty_StreamOffset = TObject
     [(''partition'', TInt), (''offset'', TInt)]"

record StreamOffsets =
  sos_offsets :: "StreamOffset list"

definition StreamOffsets_new :: StreamOffsets where
  "StreamOffsets_new =
     \<lparr>sos_offsets = []\<rparr>"

definition to_json_StreamOffsets :: "StreamOffsets \<Rightarrow> 'd json" where
  "to_json_StreamOffsets x = JObject (members
     [(''offsets'', to_json_vector to_json_StreamOffset (sos_offsets x))])"

record Metadata =
  md_partition :: string
  md_checksum :: "string option"
  md_compressed_data_size :: "u64 option"
  md_data_size :: "u64 option"
  md_data :: "string option"
  md_data_handle :: "string option"
  md_timestamp :: "u64 option"

definition Metadata_new :: Metadata where
  "Metadata_new =
     \<lparr>md_partition = [], md_checksum = None, md_compressed_data_size = None, md_data_size = None,
     md_data = None, md_data_handle = None, md_timestamp = None\<rparr>"

definition from_json_Metadata :: "'d numbers \<Rightarrow> 'd json \<Rightarrow> Metadata option" where
  "from_json_Metadata N value = do {
     x1 \<leftarrow> parse_field [] from_json_string value ''partition'';
     x2 \<leftarrow> parse_field None (from_json_optional from_json_string) value ''checksum'';
     x3 \<leftarrow> parse_field None (from_json_optional (from_json_int64 N)) value ''compressedDataSize'';
     x4 \<leftarrow> parse_field None (from_json_optional (from_json_int64 N)) value ''dataSize'';
     x5 \<leftarrow> parse_field None (from_json_optional from_json_string) value ''data'';
     x6 \<leftarrow> parse_field None (from_json_optional from_json_string) value ''dataHandle'';
     x7 \<leftarrow> parse_field None (from_json_optional (from_json_int64 N)) value ''timestamp'';
     Some \<lparr>md_partition = x1, md_checksum = x2, md_compressed_data_size = x3, md_data_size = x4,
       md_data = x5, md_data_handle = x6, md_timestamp = x7\<rparr> }"

definition ty_Metadata :: ty where
  "ty_Metadata = TObject
     [(''partition'', TString), (''checksum'', TString), (''compressedDataSize'', TInt),
     (''dataSize'', TInt), (''data'', TString), (''dataHandle'', TString), (''timestamp'', TInt)]"

record Message =
  msg_meta_data :: Metadata
  msg_offset :: StreamOffset

definition Message_new :: Message where
  "Message_new =
     \<lparr>msg_meta_data = Metadata_new, msg_offset = StreamOffset_new\<rparr>"

definition from_json_Message :: "'d numbers \<Rightarrow> 'd json \<Rightarrow> Message option" where
  "from_json_Message N value = do {
     x1 \<leftarrow> parse_field Metadata_new (from_json_Metadata N) value ''metaData'';
     x2 \<leftarrow> parse_field StreamOffset_new (from_json_StreamOffset N) value ''offset'';
     Some \<lparr>msg_meta_data = x1, msg_offset = x2\<rparr> }"

definition ty_Message :: ty where
  "ty_Message = TObject
     [(''metaData'', ty_Metadata), (''offset'', ty_StreamOffset)]"

record Messages =
  msgs_messages :: "Message list"

definition Messages_new :: Messages where
  "Messages_new =
     \<lparr>msgs_messages = []\<rparr>"

definition from_json_Messages :: "'d numbers \<Rightarrow> 'd json \<Rightarrow> Messages option" where
  "from_json_Messages N value = do {
     x1 \<leftarrow> parse_field [] (from_json_vector (from_json_Message N)) value ''messages'';
     Some \<lparr>msgs_messages = x1\<rparr> }"

definition ty_Messages :: ty where
  "ty_Messages = TObject
     [(''messages'', TArray ty_Message)]"

record ParentQuad =
  pq_additional_metadata :: "string option"
  pq_checksum :: "string option"
  pq_compressed_data_size :: "u64 option"
  pq_data_handle :: string
  pq_data_size :: "u64 option"
  pq_partition :: string
  pq_version :: u64

definition ParentQuad_new :: ParentQuad where
  "ParentQuad_new =
     \<lparr>pq_additional_metadata = None, pq_checksum = None, pq_compressed_data_size = None,
     pq_data_handle = [], pq_data_size = None, pq_partition = [], pq_version = 0\<rparr>"

definition from_json_ParentQuad :: "'d numbers \<Rightarrow> 'd json \<Rightarrow> ParentQuad option" where
  "from_json_ParentQuad N value = do {
     x1 \<leftarrow> parse_field None (from_json_optional from_json_string) value ''additionalMetadata'';
     x2 \<leftarrow> parse_field None (from_json_optional from_json_string) value ''checksum'';
     x3 \<leftarrow> parse_field None (from_json_optional (from_json_int64 N)) value ''compressedDataSize'';
     x4 \<leftarrow> parse_field [] from_json_string value ''dataHandle'';
     x5 \<leftarrow> parse_field None (from_json_optional (from_json_int64 N)) value ''dataSize'';
     x6 \<leftarrow> parse_field [] from_json_string value ''partition'';
     x7 \<leftarrow> parse_field 0 (from_json_int64 N) value ''version'';
     Some \<lparr>pq_additional_metadata = x1, pq_checksum = x2, pq_compressed_data_size = x3,
       pq_data_handle = x4, pq_data_size = x5, pq_partition = x6, pq_version = x7\<rparr> }"

definition ty_ParentQuad :: ty where
  "ty_ParentQuad = TObject
     [(''additionalMetadata'', TString), (''checksum'', TString), (''compressedDataSize'', TInt),
     (''dataHandle'', TString), (''dataSize'', TInt), (''partition'', TString), (''version'', TInt)]"

record SubQuad =
  sq_additional_metadata :: "string option"
  sq_checksum :: "string option"
  sq_compressed_data_size :: "u64 option"
  sq_data_handle :: string
  sq_data_size :: "u64 option"
  sq_sub_quad_key :: string
  sq_version :: u64

definition SubQuad_new :: SubQuad where
  "SubQuad_new =
     \<lparr>sq_additional_metadata = None, sq_checksum = None, sq_compressed_data_size = None,
     sq_data_handle = [], sq_data_size = None, sq_sub_quad_key = [], sq_version = 0\<rparr>"

definition from_json_SubQuad :: "'d numbers \<Rightarrow> 'd json \<Rightarrow> SubQuad option" where
  "from_json_SubQuad N value = do {
     x1 \<leftarrow> parse_field None (from_json_optional from_json_string) value ''additionalMetadata'';
     x2 \<leftarrow> parse_field None (from_json_optional from_json_string) value ''checksum'';
     x3 \<leftarrow> parse_field None (from_json_optional (from_json_int64 N)) value ''compressedDataSize'';
     x4 \<leftarrow> parse_field [] from_json_string value ''dataHandle'';
     x5 \<leftarrow> parse_field None (from_json_optional (from_json_int64 N)) value ''dataSize'';
     x6 \<leftarrow> parse_field [] from_json_string value ''subQuadKey'';
     x7 \<leftarrow> parse_field 0 (from_json_int64 N) value ''version'';
     Some \<lparr>sq_additional_metadata = x1, sq_checksum = x2, sq_compressed_data_size = x3,
       sq_data_handle = x4, sq_data_size = x5, sq_sub_quad_key = x6, sq_version = x7\<rparr> }"

definition ty_SubQuad :: ty where
  "ty_SubQuad = TObject
     [(''additionalMetadata'', TString), (''checksum'', TString), (''compressedDataSize'', TInt),
     (''dataHandle'', TString), (''dataSize'', TInt), (''subQuadKey'', TString), (''version'', TInt)]"

record Index =
  ix_parent_quads :: "ParentQuad list"
  ix_sub_quads :: "SubQuad list"

definition Index_new :: Index where
  "Index_new =
     \<lparr>ix_parent_quads = [], ix_sub_quads = []\<rparr>"

definition from_json_Index :: "'d numbers \<Rightarrow> 'd json \<Rightarrow> Index option" where
  "from_json_Index N value = do {
     x1 \<leftarrow> parse_field [] (from_json_vector (from_json_ParentQuad N)) value ''parentQuads'';
     x2 \<leftarrow> parse_field [] (from_json_vector (from_json_SubQuad N)) value ''subQuads'';
     Some \<lparr>ix_parent_quads = x1, ix_sub_quads = x2\<rparr> }"

definition ty_Index :: ty where
  "ty_Index = TObject
     [(''parentQuads'', TArray ty_ParentQuad), (''subQuads'', TArray ty_SubQuad)]"

record SubscribeResponse =
  sr_node_base_url :: string
  sr_subscription_id :: string

definition SubscribeResponse_new :: SubscribeResponse where
  "SubscribeResponse_new =
     \<lparr>sr_node_base_url = [], sr_subscription_id = []\<rparr>"

definition from_json_SubscribeResponse :: "'d numbers \<Rightarrow> 'd json \<Rightarrow> SubscribeResponse option" where
  "from_json_SubscribeResponse N value = do {
     x1 \<leftarrow> parse_field [] from_json_string value ''nodeBaseURL'';
     x2 \<leftarrow> parse_field [] from_json_string value ''subscriptionId'';
     Some \<lparr>sr_node_base_url = x1, sr_subscription_id = x2\<rparr> }"

definition ty_SubscribeResponse :: ty where
  "ty_SubscribeResponse = TObject
     [(''nodeBaseURL'', TString), (''subscriptionId'', TString)]"

record CatalogVersion =
  cv_hrn :: string
  cv_version :: u64

definition CatalogVersion_new :: CatalogVersion where
  "CatalogVersion_new =
     \<lparr>cv_hrn = [], cv_version = 0\<rparr>"

definition to_json_CatalogVersion :: "CatalogVersion \<Rightarrow> 'd json" where
  "to_json_CatalogVersion x = JObject (members
     [(''hrn'', to_json_string (cv_hrn x)), (''version'', to_json_int64 (cv_version x))])"

definition from_json_CatalogVersion :: "'d numbers \<Rightarrow> 'd json \<Rightarrow> CatalogVersion option" where
  "from_json_CatalogVersion N value = do {
     x1 \<leftarrow> parse_field [] from_json_string value ''hrn'';
     x2 \<leftarrow> parse_field 0 (from_json_int64 N) value ''version'';
     Some \<lparr>cv_hrn = x1, cv_version = x2\<rparr> }"

definition ty_CatalogVersion :: ty where
  "ty_CatalogVersion = TObject
     [(''hrn'', TString), (''version'', TInt)]"

record VersionsResponseEntry =
  vre_version :: u64
  vre_catalog_versions :: "CatalogVersion list"

definition VersionsResponseEntry_new :: VersionsResponseEntry where
  "VersionsResponseEntry_new =
     \<lparr>vre_version = 0, vre_catalog_versions = []\<rparr>"

definition from_json_VersionsResponseEntry :: "'d numbers \<Rightarrow> 'd json \<Rightarrow> VersionsResponseEntry option" where
  "from_json_VersionsResponseEntry N value = do {
     x1 \<leftarrow> parse_field 0 (from_json_int64 N) value ''version'';
     x2 \<leftarrow> parse_field [] (from_json_vector (from_json_CatalogVersion N)) value ''sharedDependencies'';
     Some \<lparr>vre_version = x1, vre_catalog_versions = x2\<rparr> }"

definition ty_VersionsResponseEntry :: ty where
  "ty_VersionsResponseEntry = TObject
     [(''version'', TInt), (''sharedDependencies'', TArray ty_CatalogVersion)]"

record VersionsResponse =
  vsr_entries :: "VersionsResponseEntry list"

definition VersionsResponse_new :: VersionsResponse where
  "VersionsResponse_new =
     \<lparr>vsr_entries = []\<rparr>"

definition from_json_VersionsResponse :: "'d numbers \<Rightarrow> 'd json \<Rightarrow> VersionsResponse option" where
  "from_json_VersionsResponse N value = do {
     x1 \<leftarrow> parse_field [] (from_json_vector (from_json_VersionsResponseEntry N)) value ''versions'';
     Some \<lparr>vsr_entries = x1\<rparr> }"

definition ty_VersionsResponse :: ty where
  "ty_VersionsResponse = TObject
     [(''versions'', TArray ty_VersionsResponseEntry)]"

section \<open>Lemmas on the generic functions\<close>

lemma not_null [simp]:
  "to_json_string s \<noteq> JNull" "to_json_int32 i \<noteq> JNull" "to_json_int64 n \<noteq> JNull" "to_json_bool b \<noteq> JNull"
  "to_json_map f m \<noteq> JNull" "to_json_vector f xs \<noteq> JNull"
  by (simp_all add: to_json_string_def to_json_int32_def to_json_int64_def to_json_bool_def to_json_map_def to_json_vector_def)

lemma roundtrip_base [simp]:
  "from_json_string (to_json_string s) = Some s" "from_json_int64 N (to_json_int64 n) = Some n"
  "from_json_bool (to_json_bool b) = Some b"
  by (simp_all add: from_json_string_def to_json_string_def from_json_int64_def to_json_int64_def from_json_bool_def
      to_json_bool_def to_number_int64_def)

lemma roundtrip_int32 [simp]: "from_json_int32 N (to_json_int32 i) = Some i"
proof -
  have "ucast (scast i :: u64) = i" by (rule bit_word_eqI) (simp add: bit_ucast_iff bit_signed_iff)
  then show ?thesis by (simp add: from_json_int32_def to_json_int32_def to_number_int64_def)
qed

lemma roundtrip_vector [simp]:
  assumes "\<And>x. x \<in> set xs \<Longrightarrow> p (f x) = Some x"
  shows "from_json_vector p (to_json_vector f xs) = Some xs"
proof -
  have "from_json_items p (map f xs) = Some xs" using assms by (induction xs) auto
  then show ?thesis by (simp add: from_json_vector_def to_json_vector_def)
qed

lemma fold_emplace: "distinct (map fst (acc @ kvs)) \<Longrightarrow> fold (\<lambda>(k, v). emplace k v) kvs acc = acc @ kvs"
proof (induction kvs arbitrary: acc)
  case (Cons kv kvs)
  then have "map_of acc (fst kv) = None" by (auto simp: map_of_eq_None_iff)
  with Cons.IH [of "acc @ [kv]"] Cons.prems show ?case by (simp add: split_def emplace_def)
qed simp

lemma om_update_last: "\<forall>q \<in> set m. fst q < k \<Longrightarrow> om_update k v m = m @ [(k, v)]"
proof -
  assume a: "\<forall>q \<in> set m. fst q < k"
  then have "filter (\<lambda>p. fst p < k) m = m" by simp
  moreover have "filter (\<lambda>p. k < fst p) m = []" using a by (auto simp: filter_empty_conv)
  ultimately show ?thesis by (simp add: om_update_def)
qed

lemma from_json_members_sorted:
  "om_ok (acc @ m) \<Longrightarrow> (\<And>k x. (k, x) \<in> set m \<Longrightarrow> p (f x) = Some x) \<Longrightarrow>
    from_json_members p (map (\<lambda>(k, x). (k, f x)) m) acc = Some (acc @ m)"
proof (induction m arbitrary: acc)
  case (Cons kx m)
  then have "om_update (fst kx) (snd kx) acc = acc @ [kx]"
    by (subst om_update_last) (auto simp: om_ok_def sorted_wrt_append)
  moreover have "p (f (snd kx)) = Some (snd kx)" using Cons.prems(2) [of "fst kx" "snd kx"] by simp
  moreover have "from_json_members p (map (\<lambda>(k, x). (k, f x)) m) (acc @ [kx]) = Some ((acc @ [kx]) @ m)"
    using Cons.prems by (intro Cons.IH) auto
  ultimately show ?case by (simp add: split_def)
qed simp

lemma roundtrip_map:
  assumes "om_ok m" and "\<And>x. p (f x) = Some x"
  shows "from_json_map p (to_json_map f m) = Some m"
proof -
  have "distinct (map fst ([] @ map (\<lambda>(k, x). (k, f x)) m))" using om_ok_distinct [OF assms(1)] by (simp add: split_def comp_def)
  from fold_emplace [OF this] have "fold (\<lambda>(k, x). emplace k (f x)) m [] = map (\<lambda>(k, x). (k, f x)) m"
    by (simp add: fold_map comp_def split_def)
  with from_json_members_sorted [of "[]" m p f] assms show ?thesis by (simp add: from_json_map_def to_json_map_def)
qed

lemma serialized_members:
  assumes "distinct (map fst kvs)"
  shows "map_of (members kvs) k = (case map_of kvs k of None \<Rightarrow> None | Some v \<Rightarrow> if v = JNull then None else Some v)"
proof -
  have "map_of (fold (\<lambda>(k, v). serialize k v) kvs acc) k
      = (case map_of acc k of Some v \<Rightarrow> Some v
         | None \<Rightarrow> (case map_of kvs k of None \<Rightarrow> None | Some v \<Rightarrow> if v = JNull then None else Some v))"
    if "distinct (map fst kvs)" "fst ` set kvs \<inter> fst ` set acc = {}" for acc
    using that
  proof (induction kvs arbitrary: acc)
    case (Cons kv kvs)
    have n: "map_of acc (fst kv) = None" using Cons.prems(2) by (auto simp: map_of_eq_None_iff)
    let ?acc = "serialize (fst kv) (snd kv) acc"
    have acc: "?acc = (if snd kv = JNull then acc else acc @ [kv])" by (simp add: serialize_def emplace_def n)
    have "fst ` set kvs \<inter> fst ` set ?acc = {}" using Cons.prems by (auto simp: acc)
    from Cons.IH [OF _ this] Cons.prems(1) have IH: "map_of (fold (\<lambda>(k, v). serialize k v) kvs ?acc) k
        = (case map_of ?acc k of Some v \<Rightarrow> Some v
           | None \<Rightarrow> (case map_of kvs k of None \<Rightarrow> None | Some v \<Rightarrow> if v = JNull then None else Some v))" by simp
    have "map_of kvs (fst kv) = None" using Cons.prems(1) by (simp add: map_of_eq_None_iff)
    with IH n show ?case by (cases "k = fst kv") (simp_all add: acc split_def map_add_def split: option.split)
  qed (simp split: option.split)
  from this [of "[]"] assms show ?thesis by (simp add: members_def)
qed

lemma parse_field_object [simp]:
  "distinct (map fst kvs) \<Longrightarrow> parse_field d p (JObject (members kvs)) name =
    (case map_of kvs name of None \<Rightarrow> Some d | Some v \<Rightarrow> if v = JNull then Some d else p v)"
  by (simp add: parse_field_def serialized_members split: option.split)

lemma parse_optional [simp]:
  "(\<And>y. f y \<noteq> JNull) \<Longrightarrow> (\<And>y. p (f y) = Some y) \<Longrightarrow>
    (if to_json_optional f x = JNull then Some None else from_json_optional p (to_json_optional f x)) = Some x"
  by (simp add: to_json_optional_def from_json_optional_def split: option.split)

text \<open>A parser is defined on the documents of a type.\<close>

definition defined_on :: "'d numbers \<Rightarrow> ty \<Rightarrow> ('d json \<Rightarrow> 'a option) \<Rightarrow> bool" where
  "defined_on N t p \<longleftrightarrow> (\<forall>v. has_type N t v \<longrightarrow> p v \<noteq> None)"

named_theorems typed \<open>parsers that are defined on their type\<close>

lemma typed_base [typed]:
  "defined_on N TString from_json_string" "defined_on N TInt (from_json_int64 N)" "defined_on N TInt (from_json_int32 N)"
  "defined_on N TBool from_json_bool" "defined_on N TNumber (from_json_throughput N)"
  by (auto simp: defined_on_def from_json_string_def from_json_int64_def from_json_int32_def from_json_bool_def
      from_json_throughput_def from_json_double_def to_number_int64_def to_number_double_def split: json.splits)

lemma typed_optional [typed]: "defined_on N t p \<Longrightarrow> defined_on N t (from_json_optional p)"
  by (simp add: defined_on_def from_json_optional_def)

lemma typed_vector [typed]:
  assumes "defined_on N t p"
  shows "defined_on N (TArray t) (from_json_vector p)"
proof -
  have "list_all (has_type N t) vs \<Longrightarrow> from_json_items p vs \<noteq> None" for vs
    using assms by (induction vs) (auto simp: defined_on_def)
  then show ?thesis by (auto simp: defined_on_def from_json_vector_def split: json.splits)
qed

lemma typed_map [typed]:
  assumes "defined_on N t p"
  shows "defined_on N (TMap t) (from_json_map p)"
proof -
  have "list_all (\<lambda>m. has_type N t (snd m)) ms \<Longrightarrow> from_json_members p ms acc \<noteq> None" for ms acc
    using assms by (induction ms arbitrary: acc) (auto simp: defined_on_def)
  then show ?thesis by (auto simp: defined_on_def from_json_map_def split: json.splits)
qed

lemma typed_field:
  assumes "has_type N (TObject fs) v" and "map_of fs name = Some t" and "defined_on N t p"
  shows "parse_field d p v name \<noteq> None"
proof -
  obtain ms where v: "v = JObject ms" using assms(1) by (cases v) auto
  have "\<forall>f \<in> set fs. case map_of ms (fst f) of None \<Rightarrow> True | Some w \<Rightarrow> has_type N (snd f) w"
    using assms(1) by (simp add: v list_all_iff)
  from bspec [OF this map_of_SomeD [OF assms(2)]]
  have "case map_of ms name of None \<Rightarrow> True | Some w \<Rightarrow> has_type N t w" by (simp only: fst_conv snd_conv)
  with assms(3) show ?thesis by (auto simp: parse_field_def v defined_on_def split: option.splits)
qed

lemma bind_defined: "a \<noteq> None \<Longrightarrow> (\<And>x. a = Some x \<Longrightarrow> f x \<noteq> None) \<Longrightarrow> (a \<bind> f) \<noteq> None"
  by (cases a) auto

section \<open>Round trips and types of the models\<close>

definition throughput_exact :: "'d numbers \<Rightarrow> u64 \<Rightarrow> bool" where
  "throughput_exact N n \<longleftrightarrow> trunc_int64 N (of_int64 N n) = Some n"

lemma roundtrip_throughput: "throughput_exact N n \<Longrightarrow> from_json_throughput N (to_json_int64 n) = Some n"
  by (simp add: throughput_exact_def from_json_throughput_def from_json_double_def to_json_int64_def to_number_double_def)

lemma not_null_Coverage [simp]: "to_json_Coverage x \<noteq> JNull"
  by (simp add: to_json_Coverage_def)

lemma roundtrip_Coverage [simp]: "from_json_Coverage N (to_json_Coverage x) = Some x"
  by (simp add: from_json_Coverage_def to_json_Coverage_def)

lemma typed_Coverage [typed]: "defined_on N ty_Coverage (from_json_Coverage N)"
  unfolding defined_on_def from_json_Coverage_def ty_Coverage_def
  by (intro allI impI bind_defined; (rule typed_field, assumption, simp, intro typed)?; simp?)

lemma not_null_IndexDefinition [simp]: "to_json_IndexDefinition x \<noteq> JNull"
  by (simp add: to_json_IndexDefinition_def)

lemma roundtrip_IndexDefinition [simp]: "from_json_IndexDefinition N (to_json_IndexDefinition x) = Some x"
  by (simp add: from_json_IndexDefinition_def to_json_IndexDefinition_def)

lemma typed_IndexDefinition [typed]: "defined_on N ty_IndexDefinition (from_json_IndexDefinition N)"
  unfolding defined_on_def from_json_IndexDefinition_def ty_IndexDefinition_def
  by (intro allI impI bind_defined; (rule typed_field, assumption, simp, intro typed)?; simp?)

lemma not_null_IndexProperties [simp]: "to_json_IndexProperties x \<noteq> JNull"
  by (simp add: to_json_IndexProperties_def)

lemma roundtrip_IndexProperties [simp]: "from_json_IndexProperties N (to_json_IndexProperties x) = Some x"
  by (simp add: from_json_IndexProperties_def to_json_IndexProperties_def)

lemma typed_IndexProperties [typed]: "defined_on N ty_IndexProperties (from_json_IndexProperties N)"
  unfolding defined_on_def from_json_IndexProperties_def ty_IndexProperties_def
  by (intro allI impI bind_defined; (rule typed_field, assumption, simp, intro typed)?; simp?)

lemma not_null_Creator [simp]: "to_json_Creator x \<noteq> JNull"
  by (simp add: to_json_Creator_def)

lemma roundtrip_Creator [simp]: "from_json_Creator N (to_json_Creator x) = Some x"
  by (simp add: from_json_Creator_def to_json_Creator_def)

lemma typed_Creator [typed]: "defined_on N ty_Creator (from_json_Creator N)"
  unfolding defined_on_def from_json_Creator_def ty_Creator_def
  by (intro allI impI bind_defined; (rule typed_field, assumption, simp, intro typed)?; simp?)

lemma not_null_Owner [simp]: "to_json_Owner x \<noteq> JNull"
  by (simp add: to_json_Owner_def)

lemma roundtrip_Owner [simp]: "from_json_Owner N (to_json_Owner x) = Some x"
  by (simp add: from_json_Owner_def to_json_Owner_def)

lemma typed_Owner [typed]: "defined_on N ty_Owner (from_json_Owner N)"
  unfolding defined_on_def from_json_Owner_def ty_Owner_def
  by (intro allI impI bind_defined; (rule typed_field, assumption, simp, intro typed)?; simp?)

lemma not_null_Partitioning [simp]: "to_json_Partitioning x \<noteq> JNull"
  by (simp add: to_json_Partitioning_def)

lemma roundtrip_Partitioning [simp]: "from_json_Partitioning N (to_json_Partitioning x) = Some x"
  by (simp add: from_json_Partitioning_def to_json_Partitioning_def)

lemma typed_Partitioning [typed]: "defined_on N ty_Partitioning (from_json_Partitioning N)"
  unfolding defined_on_def from_json_Partitioning_def ty_Partitioning_def
  by (intro allI impI bind_defined; (rule typed_field, assumption, simp, intro typed)?; simp?)

lemma not_null_Schema [simp]: "to_json_Schema x \<noteq> JNull"
  by (simp add: to_json_Schema_def)

lemma roundtrip_Schema [simp]: "from_json_Schema N (to_json_Schema x) = Some x"
  by (simp add: from_json_Schema_def to_json_Schema_def)

lemma typed_Schema [typed]: "defined_on N ty_Schema (from_json_Schema N)"
  unfolding defined_on_def from_json_Schema_def ty_Schema_def
  by (intro allI impI bind_defined; (rule typed_field, assumption, simp, intro typed)?; simp?)

lemma not_null_StreamProperties [simp]: "to_json_StreamProperties x \<noteq> JNull"
  by (simp add: to_json_StreamProperties_def)

lemma roundtrip_StreamProperties: "throughput_exact N (sprop_data_in_throughput_mbps x) \<Longrightarrow> throughput_exact N (sprop_data_out_throughput_mbps x) \<Longrightarrow>
    from_json_StreamProperties N (to_json_StreamProperties x) = Some x"
  by (simp add: from_json_StreamProperties_def to_json_StreamProperties_def roundtrip_throughput)

lemma typed_StreamProperties [typed]: "defined_on N ty_StreamProperties (from_json_StreamProperties N)"
  unfolding defined_on_def from_json_StreamProperties_def ty_StreamProperties_def
  by (intro allI impI bind_defined; (rule typed_field, assumption, simp, intro typed)?; simp?)

lemma not_null_Encryption [simp]: "to_json_Encryption x \<noteq> JNull"
  by (simp add: to_json_Encryption_def)

lemma roundtrip_Encryption [simp]: "from_json_Encryption N (to_json_Encryption x) = Some x"
  by (simp add: from_json_Encryption_def to_json_Encryption_def)

lemma typed_Encryption [typed]: "defined_on N ty_Encryption (from_json_Encryption N)"
  unfolding defined_on_def from_json_Encryption_def ty_Encryption_def
  by (intro allI impI bind_defined; (rule typed_field, assumption, simp, intro typed)?; simp?)

lemma not_null_Volume [simp]: "to_json_Volume x \<noteq> JNull"
  by (simp add: to_json_Volume_def)

lemma roundtrip_Volume [simp]: "from_json_Volume N (to_json_Volume x) = Some x"
  by (simp add: from_json_Volume_def to_json_Volume_def)

lemma typed_Volume [typed]: "defined_on N ty_Volume (from_json_Volume N)"
  unfolding defined_on_def from_json_Volume_def ty_Volume_def
  by (intro allI impI bind_defined; (rule typed_field, assumption, simp, intro typed)?; simp?)

definition layer_exact :: "'d numbers \<Rightarrow> Layer \<Rightarrow> bool" where
  "layer_exact N x \<longleftrightarrow> throughput_exact N (sprop_data_in_throughput_mbps (layer_stream_properties x))
     \<and> throughput_exact N (sprop_data_out_throughput_mbps (layer_stream_properties x))"

lemma not_null_Layer [simp]: "to_json_Layer x \<noteq> JNull"
  by (simp add: to_json_Layer_def)

lemma roundtrip_Layer: "layer_exact N x \<Longrightarrow> from_json_Layer N (to_json_Layer x) = Some x"
  by (simp add: from_json_Layer_def to_json_Layer_def layer_exact_def roundtrip_StreamProperties)

lemma typed_Layer [typed]: "defined_on N ty_Layer (from_json_Layer N)"
  unfolding defined_on_def from_json_Layer_def ty_Layer_def
  by (intro allI impI bind_defined; (rule typed_field, assumption, simp, intro typed)?; simp?)

lemma not_null_Notifications [simp]: "to_json_Notifications x \<noteq> JNull"
  by (simp add: to_json_Notifications_def)

lemma roundtrip_Notifications [simp]: "from_json_Notifications N (to_json_Notifications x) = Some x"
  by (simp add: from_json_Notifications_def to_json_Notifications_def)

lemma typed_Notifications [typed]: "defined_on N ty_Notifications (from_json_Notifications N)"
  unfolding defined_on_def from_json_Notifications_def ty_Notifications_def
  by (intro allI impI bind_defined; (rule typed_field, assumption, simp, intro typed)?; simp?)

lemma not_null_Catalog [simp]: "to_json_Catalog x \<noteq> JNull"
  by (simp add: to_json_Catalog_def)

lemma roundtrip_Catalog: "list_all (layer_exact N) (cat_layers x) \<Longrightarrow> from_json_Catalog N (to_json_Catalog x) = Some x"
  by (simp add: from_json_Catalog_def to_json_Catalog_def list_all_iff roundtrip_Layer)

lemma typed_Catalog [typed]: "defined_on N ty_Catalog (from_json_Catalog N)"
  unfolding defined_on_def from_json_Catalog_def ty_Catalog_def
  by (intro allI impI bind_defined; (rule typed_field, assumption, simp, intro typed)?; simp?)

lemma not_null_Partition [simp]: "to_json_Partition x \<noteq> JNull"
  by (simp add: to_json_Partition_def)

lemma roundtrip_Partition [simp]: "from_json_Partition N (to_json_Partition x) = Some x"
  by (simp add: from_json_Partition_def to_json_Partition_def)

lemma typed_Partition [typed]: "defined_on N ty_Partition (from_json_Partition N)"
  unfolding defined_on_def from_json_Partition_def ty_Partition_def
  by (intro allI impI bind_defined; (rule typed_field, assumption, simp, intro typed)?; simp?)

lemma not_null_Partitions [simp]: "to_json_Partitions x \<noteq> JNull"
  by (simp add: to_json_Partitions_def)

lemma roundtrip_Partitions [simp]: "from_json_Partitions N (to_json_Partitions x) = Some x"
  by (simp add: from_json_Partitions_def to_json_Partitions_def)

lemma typed_Partitions [typed]: "defined_on N ty_Partitions (from_json_Partitions N)"
  unfolding defined_on_def from_json_Partitions_def ty_Partitions_def
  by (intro allI impI bind_defined; (rule typed_field, assumption, simp, intro typed)?; simp?)

lemma not_null_LayerVersion [simp]: "to_json_LayerVersion x \<noteq> JNull"
  by (simp add: to_json_LayerVersion_def)

lemma roundtrip_LayerVersion [simp]: "from_json_LayerVersion N (to_json_LayerVersion x) = Some x"
  by (simp add: from_json_LayerVersion_def to_json_LayerVersion_def)

lemma typed_LayerVersion [typed]: "defined_on N ty_LayerVersion (from_json_LayerVersion N)"
  unfolding defined_on_def from_json_LayerVersion_def ty_LayerVersion_def
  by (intro allI impI bind_defined; (rule typed_field, assumption, simp, intro typed)?; simp?)

lemma not_null_LayerVersions [simp]: "to_json_LayerVersions x \<noteq> JNull"
  by (simp add: to_json_LayerVersions_def)

lemma roundtrip_LayerVersions [simp]: "from_json_LayerVersions N (to_json_LayerVersions x) = Some x"
  by (simp add: from_json_LayerVersions_def to_json_LayerVersions_def)

lemma typed_LayerVersions [typed]: "defined_on N ty_LayerVersions (from_json_LayerVersions N)"
  unfolding defined_on_def from_json_LayerVersions_def ty_LayerVersions_def
  by (intro allI impI bind_defined; (rule typed_field, assumption, simp, intro typed)?; simp?)

lemma not_null_VersionResponse [simp]: "to_json_VersionResponse x \<noteq> JNull"
  by (simp add: to_json_VersionResponse_def)

lemma roundtrip_VersionResponse [simp]: "from_json_VersionResponse N (to_json_VersionResponse x) = Some x"
  by (simp add: from_json_VersionResponse_def to_json_VersionResponse_def)

lemma typed_VersionResponse [typed]: "defined_on N ty_VersionResponse (from_json_VersionResponse N)"
  unfolding defined_on_def from_json_VersionResponse_def ty_VersionResponse_def
  by (intro allI impI bind_defined; (rule typed_field, assumption, simp, intro typed)?; simp?)

lemma not_null_Api [simp]: "to_json_Api x \<noteq> JNull"
  by (simp add: to_json_Api_def)

lemma roundtrip_Api: "om_ok (api_parameters x) \<Longrightarrow> from_json_Api N (to_json_Api x) = Some x"
  by (simp add: from_json_Api_def to_json_Api_def roundtrip_map)

lemma typed_Api [typed]: "defined_on N ty_Api (from_json_Api N)"
  unfolding defined_on_def from_json_Api_def ty_Api_def
  by (intro allI impI bind_defined; (rule typed_field, assumption, simp, intro typed)?; simp?)

lemma not_null_VersionDependency [simp]: "to_json_VersionDependency x \<noteq> JNull"
  by (simp add: to_json_VersionDependency_def)

lemma roundtrip_VersionDependency [simp]: "from_json_VersionDependency N (to_json_VersionDependency x) = Some x"
  by (simp add: from_json_VersionDependency_def to_json_VersionDependency_def)

lemma typed_VersionDependency [typed]: "defined_on N ty_VersionDependency (from_json_VersionDependency N)"
  unfolding defined_on_def from_json_VersionDependency_def ty_VersionDependency_def
  by (intro allI impI bind_defined; (rule typed_field, assumption, simp, intro typed)?; simp?)

lemma not_null_VersionInfo [simp]: "to_json_VersionInfo x \<noteq> JNull"
  by (simp add: to_json_VersionInfo_def)

lemma roundtrip_VersionInfo: "om_ok (vi_partition_counts x) \<Longrightarrow> from_json_VersionInfo N (to_json_VersionInfo x) = Some x"
  by (simp add: from_json_VersionInfo_def to_json_VersionInfo_def roundtrip_map)

lemma typed_VersionInfo [typed]: "defined_on N ty_VersionInfo (from_json_VersionInfo N)"
  unfolding defined_on_def from_json_VersionInfo_def ty_VersionInfo_def
  by (intro allI impI bind_defined; (rule typed_field, assumption, simp, intro typed)?; simp?)

lemma not_null_VersionInfos [simp]: "to_json_VersionInfos x \<noteq> JNull"
  by (simp add: to_json_VersionInfos_def)

lemma roundtrip_VersionInfos: "list_all (\<lambda>i. om_ok (vi_partition_counts i)) (vis_versions x) \<Longrightarrow>
    from_json_VersionInfos N (to_json_VersionInfos x) = Some x"
  by (simp add: from_json_VersionInfos_def to_json_VersionInfos_def list_all_iff roundtrip_VersionInfo)

lemma typed_VersionInfos [typed]: "defined_on N ty_VersionInfos (from_json_VersionInfos N)"
  unfolding defined_on_def from_json_VersionInfos_def ty_VersionInfos_def
  by (intro allI impI bind_defined; (rule typed_field, assumption, simp, intro typed)?; simp?)

lemma not_null_StreamOffset [simp]: "to_json_StreamOffset x \<noteq> JNull"
  by (simp add: to_json_StreamOffset_def)

lemma roundtrip_StreamOffset [simp]: "from_json_StreamOffset N (to_json_StreamOffset x) = Some x"
  by (simp add: from_json_StreamOffset_def to_json_StreamOffset_def)

lemma typed_StreamOffset [typed]: "defined_on N ty_StreamOffset (from_json_StreamOffset N)"
  unfolding defined_on_def from_json_StreamOffset_def ty_StreamOffset_def
  by (intro allI impI bind_defined; (rule typed_field, assumption, simp, intro typed)?; simp?)

lemma typed_Metadata [typed]: "defined_on N ty_Metadata (from_json_Metadata N)"
  unfolding defined_on_def from_json_Metadata_def ty_Metadata_def
  by (intro allI impI bind_defined; (rule typed_field, assumption, simp, intro typed)?; simp?)

lemma typed_Message [typed]: "defined_on N ty_Message (from_json_Message N)"
  unfolding defined_on_def from_json_Message_def ty_Message_def
  by (intro allI impI bind_defined; (rule typed_field, assumption, simp, intro typed)?; simp?)

lemma typed_Messages [typed]: "defined_on N ty_Messages (from_json_Messages N)"
  unfolding defined_on_def from_json_Messages_def ty_Messages_def
  by (intro allI impI bind_defined; (rule typed_field, assumption, simp, intro typed)?; simp?)

lemma typed_ParentQuad [typed]: "defined_on N ty_ParentQuad (from_json_ParentQuad N)"
  unfolding defined_on_def from_json_ParentQuad_def ty_ParentQuad_def
  by (intro allI impI bind_defined; (rule typed_field, assumption, simp, intro typed)?; simp?)

lemma typed_SubQuad [typed]: "defined_on N ty_SubQuad (from_json_SubQuad N)"
  unfolding defined_on_def from_json_SubQuad_def ty_SubQuad_def
  by (intro allI impI bind_defined; (rule typed_field, assumption, simp, intro typed)?; simp?)

lemma typed_Index [typed]: "defined_on N ty_Index (from_json_Index N)"
  unfolding defined_on_def from_json_Index_def ty_Index_def
  by (intro allI impI bind_defined; (rule typed_field, assumption, simp, intro typed)?; simp?)

lemma typed_SubscribeResponse [typed]: "defined_on N ty_SubscribeResponse (from_json_SubscribeResponse N)"
  unfolding defined_on_def from_json_SubscribeResponse_def ty_SubscribeResponse_def
  by (intro allI impI bind_defined; (rule typed_field, assumption, simp, intro typed)?; simp?)

lemma not_null_CatalogVersion [simp]: "to_json_CatalogVersion x \<noteq> JNull"
  by (simp add: to_json_CatalogVersion_def)

lemma roundtrip_CatalogVersion [simp]: "from_json_CatalogVersion N (to_json_CatalogVersion x) = Some x"
  by (simp add: from_json_CatalogVersion_def to_json_CatalogVersion_def)

lemma typed_CatalogVersion [typed]: "defined_on N ty_CatalogVersion (from_json_CatalogVersion N)"
  unfolding defined_on_def from_json_CatalogVersion_def ty_CatalogVersion_def
  by (intro allI impI bind_defined; (rule typed_field, assumption, simp, intro typed)?; simp?)

lemma typed_VersionsResponseEntry [typed]: "defined_on N ty_VersionsResponseEntry (from_json_VersionsResponseEntry N)"
  unfolding defined_on_def from_json_VersionsResponseEntry_def ty_VersionsResponseEntry_def
  by (intro allI impI bind_defined; (rule typed_field, assumption, simp, intro typed)?; simp?)

lemma typed_VersionsResponse [typed]: "defined_on N ty_VersionsResponse (from_json_VersionsResponse N)"
  unfolding defined_on_def from_json_VersionsResponse_def ty_VersionsResponse_def
  by (intro allI impI bind_defined; (rule typed_field, assumption, simp, intro typed)?; simp?)

section \<open>Properties\<close>

text \<open>A response document whose members have the types of the tables is parsed: no parser
  meets a value of another kind or a number that does not fit, whatever members are missing or
  added.\<close>

lemma typed_documents_parse:
  "(has_type N ty_Partitions v \<longrightarrow> from_json_Partitions N v \<noteq> None)
   \<and> (has_type N ty_Catalog v \<longrightarrow> from_json_Catalog N v \<noteq> None)
   \<and> (has_type N ty_LayerVersions v \<longrightarrow> from_json_LayerVersions N v \<noteq> None)
   \<and> (has_type N ty_VersionResponse v \<longrightarrow> from_json_VersionResponse N v \<noteq> None)
   \<and> (has_type N ty_VersionInfos v \<longrightarrow> from_json_VersionInfos N v \<noteq> None)
   \<and> (has_type N ty_VersionsResponse v \<longrightarrow> from_json_VersionsResponse N v \<noteq> None)
   \<and> (has_type N ty_Messages v \<longrightarrow> from_json_Messages N v \<noteq> None)
   \<and> (has_type N ty_Index v \<longrightarrow> from_json_Index N v \<noteq> None)
   \<and> (has_type N ty_Api v \<longrightarrow> from_json_Api N v \<noteq> None)
   \<and> (has_type N ty_SubscribeResponse v \<longrightarrow> from_json_SubscribeResponse N v \<noteq> None)"
  using typed_Partitions [of N, unfolded defined_on_def, THEN spec, of v] typed_Catalog [of N, unfolded defined_on_def, THEN spec, of v]
    typed_LayerVersions [of N, unfolded defined_on_def, THEN spec, of v] typed_VersionResponse [of N, unfolded defined_on_def, THEN spec, of v]
    typed_VersionInfos [of N, unfolded defined_on_def, THEN spec, of v] typed_VersionsResponse [of N, unfolded defined_on_def, THEN spec, of v]
    typed_Messages [of N, unfolded defined_on_def, THEN spec, of v] typed_Index [of N, unfolded defined_on_def, THEN spec, of v]
    typed_Api [of N, unfolded defined_on_def, THEN spec, of v] typed_SubscribeResponse [of N, unfolded defined_on_def, THEN spec, of v]
  by (intro conjI)

text \<open>Doubles that happen to be integers, for the examples.\<close>

definition int_numbers :: "int numbers" where
  "int_numbers =
     \<lparr>exact_int64 = (\<lambda>d. if - (2 ^ 63) \<le> d \<and> d < 2 ^ 63 then Some (of_int d) else None),
      trunc_int64 = (\<lambda>d. if - (2 ^ 63) \<le> d \<and> d < 2 ^ 63 then Some (of_int d) else None),
      of_int64 = sint, of_uint64 = uint\<rparr>"

definition demo_document :: "int json" where
  "demo_document = JObject [(''partitions'', JArray [JObject [(''partition'', JString ''1''), (''version'', JInt64 4),
     (''new'', JNull)], JObject []])]"

lemma typed_documents_parse_witness: "from_json_Partitions int_numbers demo_document \<noteq> None"
proof -
  have "has_type int_numbers ty_Partitions demo_document"
    by (simp add: ty_Partitions_def ty_Partition_def demo_document_def)
  with typed_documents_parse [of int_numbers demo_document] show ?thesis by blast
qed

lemma parse_text_document:
  "boost_parse (boost_text v) = Some v \<Longrightarrow> (\<exists>ms. v = JObject ms) \<or> (\<exists>vs. v = JArray vs) \<Longrightarrow>
    parse_text boost_parse d p (boost_text v) = p v"
  by (auto simp: parse_text_def)

text \<open>C19. What the SDK caches as a document is read back unchanged: partitions, lists of partition names, layer
  versions, catalog versions and catalogs, provided the text of Boost.JSON is read back as the same
  document and, for catalogs, the throughputs are exact as doubles (they are below $2^{53}$).\<close>

theorem documents_roundtrip:
  assumes "\<And>v. v \<in> {to_json_Partition p, to_json_vector to_json_string ids, to_json_LayerVersions lv, to_json_VersionResponse vr,
      to_json_Catalog c} \<Longrightarrow> boost_parse (boost_text v) = Some v"
    and "list_all (layer_exact N) (cat_layers c)"
  shows "parse_text boost_parse Partition_new (from_json_Partition N) (boost_text (to_json_Partition p)) = Some p
    \<and> parse_text boost_parse [] (from_json_vector from_json_string) (boost_text (to_json_vector to_json_string ids)) = Some ids
    \<and> parse_text boost_parse LayerVersions_new (from_json_LayerVersions N) (boost_text (to_json_LayerVersions lv)) = Some lv
    \<and> parse_text boost_parse VersionResponse_new (from_json_VersionResponse N) (boost_text (to_json_VersionResponse vr)) = Some vr
    \<and> parse_text boost_parse Catalog_new (from_json_Catalog N) (boost_text (to_json_Catalog c)) = Some c"
proof -
  have docs: "\<exists>ms. to_json_Partition p = JObject ms" "\<exists>vs. to_json_vector to_json_string ids = JArray vs"
    "\<exists>ms. to_json_LayerVersions lv = JObject ms" "\<exists>ms. to_json_VersionResponse vr = JObject ms"
    "\<exists>ms. to_json_Catalog c = JObject ms"
    by (simp_all add: to_json_Partition_def to_json_vector_def to_json_LayerVersions_def to_json_VersionResponse_def
        to_json_Catalog_def)
  show ?thesis
    by (simp add: parse_text_document assms(1) docs roundtrip_Catalog [OF assms(2)])
qed

definition demo_Catalog :: Catalog where
  "demo_Catalog = Catalog_new\<lparr>cat_id := ''c'', cat_layers := [Layer_new\<lparr>layer_id := ''l'', layer_ttl := Some 5,
     layer_stream_properties := \<lparr>sprop_data_in_throughput_mbps = 10, sprop_data_out_throughput_mbps = 20\<rparr>\<rparr>]\<rparr>"

theorem documents_roundtrip_witness:
  "parse_text (\<lambda>t. if t = ''catalog'' then Some (to_json_Catalog demo_Catalog) else if t = ''partition'' then Some (to_json_Partition Partition_new)
      else if t = ''ids'' then Some (to_json_vector to_json_string [''7'']) else if t = ''layers'' then Some (to_json_LayerVersions LayerVersions_new)
      else Some (to_json_VersionResponse VersionResponse_new)) Catalog_new (from_json_Catalog int_numbers) ''catalog'' = Some demo_Catalog"
proof -
  let ?parse = "\<lambda>t. if t = ''catalog'' then Some (to_json_Catalog demo_Catalog) else if t = ''partition'' then Some (to_json_Partition Partition_new)
      else if t = ''ids'' then Some (to_json_vector to_json_string [''7'']) else if t = ''layers'' then Some (to_json_LayerVersions LayerVersions_new)
      else Some (to_json_VersionResponse VersionResponse_new) :: int json option"
  let ?text = "\<lambda>v :: int json. if v = to_json_Catalog demo_Catalog then ''catalog'' else if v = to_json_Partition Partition_new then ''partition''
      else if v = to_json_vector to_json_string [''7''] then ''ids'' else if v = to_json_LayerVersions LayerVersions_new then ''layers''
      else ''version''"
  have "list_all (layer_exact int_numbers) (cat_layers demo_Catalog)"
    by (simp add: demo_Catalog_def layer_exact_def throughput_exact_def int_numbers_def)
  moreover have "?parse (?text v) = Some v"
    if "v \<in> {to_json_Partition Partition_new, to_json_vector to_json_string [''7''], to_json_LayerVersions LayerVersions_new,
      to_json_VersionResponse VersionResponse_new, to_json_Catalog demo_Catalog}" for v
    using that by auto
  ultimately show ?thesis
    using documents_roundtrip [of Partition_new "[''7'']" LayerVersions_new VersionResponse_new demo_Catalog ?parse ?text int_numbers] by simp
qed

text \<open>A document that is an array where an object is expected passes the check of the kind and is accessed as
  an object all the same; so is a member that is \<open>null\<close>, also when it is optional.\<close>

lemma array_document_undefined: "boost_parse text = Some (JArray vs) \<Longrightarrow>
    parse_result boost_parse (from_json_VersionResponse N) text = None"
  by (simp add: parse_result_def from_json_VersionResponse_def parse_field_def)

lemma null_member_undefined: "from_json_Partition N (JObject [(''checksum'', JNull)]) = None"
  by (simp add: from_json_Partition_def parse_field_def from_json_optional_def from_json_string_def)

end
