(* ===== verification/TaskScheduler.thy ===== *)
theory TaskScheduler
  imports Prelude "HOL-Library.Multiset"
begin

text \<open>
  The task scheduler of the SDK: the FIFO aware priority queue (\<open>PriorityQueueExtended\<close>,
  olp-cpp-sdk-core/src/thread/PriorityQueueExtended.h) over the heap operations of the standard
  library, the closable blocking queue (\<open>SyncQueue\<close>, include/olp/core/thread/SyncQueue.h and .inl)
  over any container, and the pool of threads that pulls from it (\<open>ThreadPoolTaskScheduler\<close>,
  src/thread/ThreadPoolTaskScheduler.cpp).

  The queue refines a list ordered by priority in which equal priorities keep their order of
  arrival. The pool is a transition function over events: one event is what a thread does while it
  holds the mutex, a notification, or a spurious wake-up.
\<close>

section \<open>Heaps in an array\<close>

text \<open>\<open>std::push_heap\<close> and \<open>std::pop_heap\<close> on a sequence, for a comparison \<open>lt\<close>: the parent of index
  \<open>j\<close> is \<open>(j - 1) div 2\<close> and no element is less than its child.\<close>

definition par :: "nat \<Rightarrow> nat" where
  "par j = (j - 1) div 2"

definition swap :: "nat \<Rightarrow> nat \<Rightarrow> 'a list \<Rightarrow> 'a list" where
  "swap i j xs = xs[i := xs ! j, j := xs ! i]"

function sift_up :: "('a \<Rightarrow> 'a \<Rightarrow> bool) \<Rightarrow> nat \<Rightarrow> 'a list \<Rightarrow> 'a list" where
  "sift_up lt i xs =
     (if i = 0 then xs
      else if lt (xs ! par i) (xs ! i) then sift_up lt (par i) (swap (par i) i xs)
      else xs)"
  by pat_completeness auto
termination by (relation "measure (\<lambda>(lt, i, xs). i)") (auto simp: par_def)

definition larger_child :: "('a \<Rightarrow> 'a \<Rightarrow> bool) \<Rightarrow> nat \<Rightarrow> nat \<Rightarrow> 'a list \<Rightarrow> nat" where
  "larger_child lt n i xs =
     (if 2 * i + 2 < n \<and> lt (xs ! (2 * i + 1)) (xs ! (2 * i + 2)) then 2 * i + 2 else 2 * i + 1)"

function sift_down :: "('a \<Rightarrow> 'a \<Rightarrow> bool) \<Rightarrow> nat \<Rightarrow> nat \<Rightarrow> 'a list \<Rightarrow> 'a list" where
  "sift_down lt n i xs =
     (if n \<le> 2 * i + 1 then xs
      else let c = larger_child lt n i xs in
        if lt (xs ! i) (xs ! c) then sift_down lt n c (swap i c xs) else xs)"
  by pat_completeness auto
termination by (relation "measure (\<lambda>(lt, n, i, xs). n - i)") (auto simp: larger_child_def)

declare sift_up.simps [simp del] sift_down.simps [simp del]

definition push_heap :: "('a \<Rightarrow> 'a \<Rightarrow> bool) \<Rightarrow> 'a list \<Rightarrow> 'a list" where
  "push_heap lt xs = sift_up lt (length xs - 1) xs"

definition pop_heap :: "('a \<Rightarrow> 'a \<Rightarrow> bool) \<Rightarrow> 'a list \<Rightarrow> 'a list" where
  "pop_heap lt xs = sift_down lt (length xs - 1) 0 (swap 0 (length xs - 1) xs)"

section \<open>PriorityQueueExtended\<close>

record 'a DistinguishableObject =
  id_of :: u32
  obj :: 'a

record 'a PriorityQueue =
  container :: "'a DistinguishableObject list"
  next_id :: u32

definition Compare :: "('a \<Rightarrow> 'a \<Rightarrow> bool) \<Rightarrow> 'a DistinguishableObject \<Rightarrow> 'a DistinguishableObject \<Rightarrow> bool" where
  "Compare compare lhs rhs \<longleftrightarrow>
     compare (obj lhs) (obj rhs) \<or> (\<not> compare (obj rhs) (obj lhs) \<and> id_of rhs < id_of lhs)"

definition PriorityQueue_new :: "'a PriorityQueue" where
  "PriorityQueue_new = \<lparr>container = [], next_id = 0\<rparr>"

definition GetNextId :: "'a PriorityQueue \<Rightarrow> u32 \<times> 'a PriorityQueue" where
  "GetNextId q =
     (let q = (if container q = [] then q\<lparr>next_id := 0\<rparr> else q) in (next_id q, q\<lparr>next_id := next_id q + 1\<rparr>))"

definition Empty :: "'a PriorityQueue \<Rightarrow> bool" where
  "Empty q \<longleftrightarrow> container q = []"

definition Push :: "('a \<Rightarrow> 'a \<Rightarrow> bool) \<Rightarrow> 'a \<Rightarrow> 'a PriorityQueue \<Rightarrow> 'a PriorityQueue" where
  "Push compare v q =
     (let (n, q) = GetNextId q in
      q\<lparr>container := push_heap (Compare compare) (container q @ [\<lparr>id_of = n, obj = v\<rparr>])\<rparr>)"

definition Front :: "'a PriorityQueue \<Rightarrow> 'a" where
  "Front q = obj (container q ! 0)"

definition Pop :: "('a \<Rightarrow> 'a \<Rightarrow> bool) \<Rightarrow> 'a PriorityQueue \<Rightarrow> 'a PriorityQueue" where
  "Pop compare q =
     (if container q = [] then q else q\<lparr>container := butlast (pop_heap (Compare compare) (container q))\<rparr>)"

section \<open>The heap laws\<close>

lemma par_less: "0 < j \<Longrightarrow> par j < j"
  by (simp add: par_def)

lemma par_eq: "0 < j \<Longrightarrow> par j = i \<longleftrightarrow> j = 2 * i + 1 \<or> j = 2 * i + 2"
  unfolding par_def by presburger

lemma length_swap [simp]: "length (swap i j xs) = length xs"
  by (simp add: swap_def)

lemma nth_swap:
  "i < length xs \<Longrightarrow> j < length xs \<Longrightarrow> swap i j xs ! k = (if k = j then xs ! i else if k = i then xs ! j else xs ! k)"
  by (auto simp: swap_def nth_list_update)

lemma mset_swap_list: "i < length xs \<Longrightarrow> j < length xs \<Longrightarrow> mset (swap i j xs) = mset xs"
  by (simp add: swap_def mset_swap)

lemma sift_up_mset: "i < length xs \<Longrightarrow> mset (sift_up lt i xs) = mset xs \<and> length (sift_up lt i xs) = length xs"
proof (induction lt i xs rule: sift_up.induct)
  case (1 lt i xs)
  then show ?case using par_less [of i] by (auto simp: sift_up.simps [of lt i] mset_swap_list)
qed

lemma larger_child_bounds:
  "\<not> n \<le> 2 * i + 1 \<Longrightarrow> larger_child lt n i xs < n \<and> i < larger_child lt n i xs \<and> par (larger_child lt n i xs) = i"
  by (simp add: larger_child_def par_def)

lemma sift_down_mset:
  "n \<le> length xs \<Longrightarrow> mset (sift_down lt n i xs) = mset xs \<and> length (sift_down lt n i xs) = length xs
    \<and> drop n (sift_down lt n i xs) = drop n xs"
proof (induction lt n i xs rule: sift_down.induct)
  case (1 lt n i xs)
  show ?case
  proof (cases "n \<le> 2 * i + 1")
    case False
    note b = larger_child_bounds [OF this, of lt xs]
    then have "drop n (swap i (larger_child lt n i xs) xs) = drop n xs" by (simp add: swap_def)
    with 1 False b show ?thesis by (auto simp: sift_down.simps [of lt n i] Let_def mset_swap_list)
  qed (simp add: sift_down.simps)
qed

definition heap_to :: "('a \<Rightarrow> 'a \<Rightarrow> bool) \<Rightarrow> nat \<Rightarrow> 'a list \<Rightarrow> bool" where
  "heap_to lt n xs \<longleftrightarrow> (\<forall>j. 0 < j \<and> j < n \<longrightarrow> \<not> lt (xs ! par j) (xs ! j))"

text \<open>What a comparison must satisfy: a strict weak order.\<close>

locale strict_weak_order =
  fixes lt :: "'a \<Rightarrow> 'a \<Rightarrow> bool"
  assumes asym: "lt x y \<Longrightarrow> \<not> lt y x"
    and negtrans: "\<not> lt x y \<Longrightarrow> \<not> lt y z \<Longrightarrow> \<not> lt x z"
begin

lemma irrefl [simp]: "\<not> lt x x"
  using asym by blast

lemma sift_up_heap:
  "i < n \<Longrightarrow> n = length xs \<Longrightarrow> (\<And>j. 0 < j \<Longrightarrow> j < n \<Longrightarrow> j \<noteq> i \<Longrightarrow> \<not> lt (xs ! par j) (xs ! j)) \<Longrightarrow>
    (\<And>j. 0 < i \<Longrightarrow> 0 < j \<Longrightarrow> j < n \<Longrightarrow> par j = i \<Longrightarrow> \<not> lt (xs ! par i) (xs ! j)) \<Longrightarrow>
    heap_to lt n (sift_up lt i xs)"
proof (induction i arbitrary: xs rule: less_induct)
  case (less i xs)
  show ?case
  proof (cases "0 < i \<and> lt (xs ! par i) (xs ! i)")
    case False
    then have "\<not> lt (xs ! par j) (xs ! j)" if "0 < j" "j < n" for j
      using less.prems(3) [OF that] that by auto
    with False show ?thesis by (auto simp: heap_to_def sift_up.simps [of _ i])
  next
    case True
    then have p: "par i < i" by (simp add: par_less)
    let ?ys = "swap (par i) i xs"
    have nth: "?ys ! k = (if k = i then xs ! par i else if k = par i then xs ! i else xs ! k)" for k
      using less.prems(1,2) p by (simp add: nth_swap)
    have A: "\<not> lt (?ys ! par j) (?ys ! j)" if "0 < j" "j < n" "j \<noteq> par i" for j
    proof -
      consider "j = i" | "j \<noteq> i" "par j = par i" | "par j = i" | "j \<noteq> i" "par j \<noteq> par i" "par j \<noteq> i" by blast
      then show ?thesis
      proof cases
        case 2
        then have "\<not> lt (xs ! par i) (xs ! j)" using less.prems(3) [of j] that by simp
        then have "\<not> lt (xs ! i) (xs ! j)" using negtrans [OF asym] True by blast
        with 2 p that(3) show ?thesis by (simp add: nth)
      next
        case 3
        then have "j \<noteq> i" using par_less [OF that(1)] by auto
        with 3 less.prems(4) [of j] True that p show ?thesis by (simp add: nth)
      qed (use True p that less.prems(3) [of j] in \<open>auto simp: nth dest: asym\<close>)
    qed
    have B: "\<not> lt (?ys ! par (par i)) (?ys ! j)" if "0 < par i" "0 < j" "j < n" "par j = par i" for j
    proof -
      have q: "par (par i) < par i" using that(1) by (simp add: par_less)
      have up: "\<not> lt (xs ! par (par i)) (xs ! par i)" using less.prems(1,3) that(1) p by simp
      show ?thesis
      proof (cases "j = i")
        case False
        with that less.prems(3) [of j] have "\<not> lt (xs ! par i) (xs ! j)" by simp
        from negtrans [OF up this] False that q p show ?thesis using par_less [OF that(2)] by (simp add: nth)
      qed (use up p q in \<open>simp add: nth\<close>)
    qed
    have "heap_to lt n (sift_up lt (par i) ?ys)"
      using p less.prems(1,2) A B by (intro less.IH) auto
    with True show ?thesis by (simp add: sift_up.simps [of _ i])
  qed
qed

lemma sift_down_heap:
  "n \<le> length xs \<Longrightarrow> (\<And>j. 0 < j \<Longrightarrow> j < n \<Longrightarrow> par j \<noteq> i \<Longrightarrow> \<not> lt (xs ! par j) (xs ! j)) \<Longrightarrow>
    (\<And>j. 0 < i \<Longrightarrow> 0 < j \<Longrightarrow> j < n \<Longrightarrow> par j = i \<Longrightarrow> \<not> lt (xs ! par i) (xs ! j)) \<Longrightarrow>
    heap_to lt n (sift_down lt n i xs)"
proof (induction "n - i" arbitrary: i xs rule: less_induct)
  case (less i xs)
  show ?case
  proof (cases "n \<le> 2 * i + 1")
    case True
    then have "par j \<noteq> i" if "0 < j" "j < n" for j using that par_eq [of j i] by auto
    with True less.prems(2) show ?thesis by (auto simp: heap_to_def sift_down.simps [of _ n i])
  next
    case False
    define c where "c = larger_child lt n i xs"
    note c = larger_child_bounds [OF False, of lt xs, folded c_def]
    have most: "\<not> lt (xs ! c) (xs ! j)" if "0 < j" "j < n" "par j = i" for j
      using that par_eq [of j i] by (auto simp: c_def larger_child_def dest: asym)
    show ?thesis
    proof (cases "lt (xs ! i) (xs ! c)")
      case stop: False
      have "\<not> lt (xs ! par j) (xs ! j)" if "0 < j" "j < n" for j
        using less.prems(2) [OF that] negtrans [OF stop most] that by (cases "par j = i") auto
      with False stop show ?thesis by (simp add: heap_to_def sift_down.simps [of _ n i] Let_def flip: c_def)
    next
      case True
      let ?ys = "swap i c xs"
      have nth: "?ys ! k = (if k = c then xs ! i else if k = i then xs ! c else xs ! k)" for k
        using less.prems(1) c by (simp add: nth_swap)
      have A: "\<not> lt (?ys ! par j) (?ys ! j)" if "0 < j" "j < n" "par j \<noteq> c" for j
      proof -
        consider "j = c" | "j \<noteq> c" "par j = i" | "j = i" | "j \<noteq> c" "j \<noteq> i" "par j \<noteq> i" by blast
        then show ?thesis
        proof cases
          case 1
          with c asym [OF True] show ?thesis by (simp add: nth)
        next
          case 2
          then have "j \<noteq> i" using par_less [OF that(1)] by auto
          with 2 most [of j] that c show ?thesis by (simp add: nth)
        next
          case 3
          then have "\<not> lt (xs ! par i) (xs ! c)" using less.prems(3) [of c] c that by simp
          moreover have "par i \<noteq> i" using par_less [of i] 3 that by simp
          ultimately show ?thesis using 3 that c by (simp add: nth)
        qed (use that less.prems(2) [of j] in \<open>simp add: nth\<close>)
      qed
      have B: "\<not> lt (?ys ! par c) (?ys ! j)" if "0 < c" "0 < j" "j < n" "par j = c" for j
      proof -
        have "j \<noteq> c" "j \<noteq> i" using par_less [OF that(2)] that(4) c by auto
        with less.prems(2) [of j] that c show ?thesis by (simp add: nth)
      qed
      have "heap_to lt n (sift_down lt n c ?ys)"
        using c less.prems(1) A B by (intro less.hyps) auto
      with False True show ?thesis by (simp add: sift_down.simps [of _ n i] Let_def flip: c_def)
    qed
  qed
qed

lemma push_heap_heap:
  assumes "heap_to lt (length xs) xs"
  shows "heap_to lt (Suc (length xs)) (push_heap lt (xs @ [x]))"
  unfolding push_heap_def length_append_singleton diff_Suc_1
proof (rule sift_up_heap)
  fix j assume j: "0 < j" "j < Suc (length xs)" "j \<noteq> length xs"
  then have "par j < length xs" using par_less [of j] by simp
  with assms j show "\<not> lt ((xs @ [x]) ! par j) ((xs @ [x]) ! j)" by (auto simp: heap_to_def nth_append)
next
  fix j assume "0 < j" "j < Suc (length xs)" "par j = length xs"
  then show "\<not> lt ((xs @ [x]) ! par (length xs)) ((xs @ [x]) ! j)" using par_less [of j] by simp
qed simp_all

lemma pop_heap_heap:
  assumes "heap_to lt (length xs) xs" and "xs \<noteq> []"
  shows "heap_to lt (length xs - 1) (pop_heap lt xs)"
  unfolding pop_heap_def
proof (rule sift_down_heap)
  fix j assume j: "0 < j" "j < length xs - 1" "par j \<noteq> 0"
  then have "par j < length xs - 1" using par_less [of j] by simp
  with assms j show "\<not> lt (swap 0 (length xs - 1) xs ! par j) (swap 0 (length xs - 1) xs ! j)"
    by (auto simp: heap_to_def nth_swap)
qed simp_all

lemma heap_top: "heap_to lt n xs \<Longrightarrow> j < n \<Longrightarrow> \<not> lt (xs ! 0) (xs ! j)"
proof (induction j rule: less_induct)
  case (less j)
  show ?case
  proof (cases "j = 0")
    case True
    then show ?thesis using asym by blast
  next
    case False
    then have "\<not> lt (xs ! 0) (xs ! par j)" "\<not> lt (xs ! par j) (xs ! j)"
      using less par_less [of j] by (auto simp: heap_to_def)
    then show ?thesis by (rule negtrans)
  qed
qed

end

lemma push_heap_mset: "mset (push_heap lt (xs @ [x])) = add_mset x (mset xs)"
  by (simp add: push_heap_def sift_up_mset)

lemma pop_heap_mset:
  assumes "xs \<noteq> []"
  shows "mset (butlast (pop_heap lt xs)) = mset xs - {#xs ! 0#}" "length (pop_heap lt xs) = length xs"
    "last (pop_heap lt xs) = xs ! 0"
proof -
  let ?m = "length xs - 1"
  let ?zs = "pop_heap lt xs"
  have ms: "mset ?zs = mset xs" and len: "length ?zs = length xs" and dr: "drop ?m ?zs = drop ?m (swap 0 ?m xs)"
    using assms sift_down_mset [of ?m "swap 0 ?m xs" lt 0] by (auto simp: pop_heap_def mset_swap_list)
  have "?zs ! ?m = swap 0 ?m xs ! ?m"
    using arg_cong [OF dr, of hd] assms len by (simp add: hd_drop_conv_nth)
  then have lst: "last ?zs = xs ! 0" using assms len by (simp add: last_conv_nth nth_swap flip: length_greater_0_conv)
  moreover have "?zs \<noteq> []" using assms len by auto
  ultimately have "mset ?zs = add_mset (xs ! 0) (mset (butlast ?zs))"
    by (metis append_butlast_last_id mset.simps(2) mset_append union_mset_add_mset_right mset.simps(1) add.right_neutral)
  then have "mset xs = add_mset (xs ! 0) (mset (butlast ?zs))" by (simp only: ms)
  then show "mset (butlast ?zs) = mset xs - {#xs ! 0#}" by simp
  show "length ?zs = length xs" "last ?zs = xs ! 0" by (fact len lst)+
qed

section \<open>Refinement of a FIFO priority queue\<close>

text \<open>The specification: a list in the order of service. An element is queued behind all elements
  that are not less than it.\<close>

definition fifo_push :: "('a \<Rightarrow> 'a \<Rightarrow> bool) \<Rightarrow> 'a \<Rightarrow> 'a list \<Rightarrow> 'a list" where
  "fifo_push compare v q = takeWhile (\<lambda>y. \<not> compare y v) q @ v # dropWhile (\<lambda>y. \<not> compare y v) q"

datatype 'a pq_op = PushOp 'a | PopOp | FrontOp

fun pq_apply :: "('a \<Rightarrow> 'a \<Rightarrow> bool) \<Rightarrow> 'a pq_op \<Rightarrow> 'a PriorityQueue \<Rightarrow> 'a PriorityQueue \<times> 'a option" where
  "pq_apply compare (PushOp v) q = (Push compare v q, None)"
| "pq_apply compare PopOp q = (Pop compare q, None)"
| "pq_apply compare FrontOp q = (q, if Empty q then None else Some (Front q))"

fun fifo_apply :: "('a \<Rightarrow> 'a \<Rightarrow> bool) \<Rightarrow> 'a pq_op \<Rightarrow> 'a list \<Rightarrow> 'a list \<times> 'a option" where
  "fifo_apply compare (PushOp v) q = (fifo_push compare v q, None)"
| "fifo_apply compare PopOp q = (tl q, None)"
| "fifo_apply compare FrontOp q = (q, if q = [] then None else Some (hd q))"

fun run_ops :: "('o \<Rightarrow> 's \<Rightarrow> 's \<times> 'r) \<Rightarrow> 'o list \<Rightarrow> 's \<Rightarrow> 'r list" where
  "run_ops f [] s = []"
| "run_ops f (x # xs) s = (let (s', r) = f x s in r # run_ops f xs s')"

definition pushes :: "'a pq_op list \<Rightarrow> nat" where
  "pushes xops = length (filter (\<lambda>x. case x of PushOp v \<Rightarrow> True | _ \<Rightarrow> False) xops)"

text \<open>The relation: the container is a heap of the objects of the list, numbered so that among equals the
  earlier one has the smaller number, and at most \<open>k\<close> numbers are taken.\<close>

definition pq_rel :: "('a \<Rightarrow> 'a \<Rightarrow> bool) \<Rightarrow> nat \<Rightarrow> 'a PriorityQueue \<Rightarrow> 'a list \<Rightarrow> bool" where
  "pq_rel compare k q xs \<longleftrightarrow> (\<exists>ds. map obj ds = xs \<and> mset ds = mset (container q)
     \<and> sorted_wrt (\<lambda>a b. Compare compare b a) ds
     \<and> heap_to (Compare compare) (length (container q)) (container q)
     \<and> (ds = [] \<or> unat (next_id q) \<le> k) \<and> (\<forall>d \<in> set ds. id_of d < next_id q))"

lemma sorted_insert_between:
  assumes "sorted_wrt R ds" and "\<And>y. y \<in> set ds \<Longrightarrow> P y \<Longrightarrow> R y d" and "\<And>y. y \<in> set ds \<Longrightarrow> \<not> P y \<Longrightarrow> R d y"
    and "\<And>y z. y \<in> set ds \<Longrightarrow> z \<in> set ds \<Longrightarrow> R y z \<Longrightarrow> P z \<Longrightarrow> P y"
  shows "sorted_wrt R (takeWhile P ds @ d # dropWhile P ds)"
  using assms
proof (induction ds)
  case (Cons a ds)
  show ?case
  proof (cases "P a")
    case True
    have "sorted_wrt R (takeWhile P ds @ d # dropWhile P ds)" using Cons.prems by (intro Cons.IH) auto
    moreover have "\<forall>b \<in> set (takeWhile P ds @ d # dropWhile P ds). R a b"
      using Cons.prems(1,2) True by (auto dest: set_takeWhileD set_dropWhileD)
    ultimately show ?thesis using True by auto
  next
    case False
    with Cons.prems(3) [OF _ ] Cons.prems(4) [of a] Cons.prems(1) have "\<forall>y \<in> set (a # ds). R d y" by auto
    with Cons.prems(1) False show ?thesis by auto
  qed
qed simp

context strict_weak_order
begin

lemma Compare_negtrans:
  assumes "\<not> Compare lt x y" and "\<not> Compare lt y z"
  shows "\<not> Compare lt x z"
proof -
  have n: "\<not> lt (obj x) (obj y)" "\<not> lt (obj y) (obj z)" using assms by (auto simp: Compare_def)
  have "lt (obj z) (obj x) \<or> \<not> id_of z < id_of x"
  proof (rule ccontr)
    assume no: "\<not> (lt (obj z) (obj x) \<or> \<not> id_of z < id_of x)"
    then have "\<not> lt (obj y) (obj x)" "\<not> lt (obj z) (obj y)"
      using negtrans [OF n(2), of "obj x"] negtrans [OF _ n(1), of "obj z"] by auto
    with assms n have "\<not> id_of y < id_of x" "\<not> id_of z < id_of y" by (auto simp: Compare_def)
    with no show False by auto
  qed
  with negtrans [OF n] show ?thesis by (auto simp: Compare_def)
qed

lemma Compare_order: "strict_weak_order (Compare lt)"
proof
  show "\<not> Compare lt y x" if "Compare lt x y" for x y
    using that asym by (auto simp: Compare_def)
qed (rule Compare_negtrans)

lemmas Compare_push = strict_weak_order.push_heap_heap [OF Compare_order]
lemmas Compare_pop = strict_weak_order.pop_heap_heap [OF Compare_order]
lemmas Compare_top = strict_weak_order.heap_top [OF Compare_order]

lemma rel_push:
  assumes "pq_rel lt k q xs" and "Suc k < 2 ^ 32"
  shows "pq_rel lt (Suc k) (Push lt v q) (fifo_push lt v xs)"
proof -
  from assms(1) obtain ds where ds: "map obj ds = xs" "mset ds = mset (container q)"
    "sorted_wrt (\<lambda>a b. Compare lt b a) ds" "heap_to (Compare lt) (length (container q)) (container q)"
    "ds = [] \<or> unat (next_id q) \<le> k" "\<forall>d \<in> set ds. id_of d < next_id q"
    by (auto simp: pq_rel_def)
  define n where "n = fst (GetNextId q)"
  define d where "d = \<lparr>id_of = n, obj = v\<rparr>"
  have e: "ds = [] \<longleftrightarrow> container q = []" using ds(2) by auto
  have n: "n = (if ds = [] then 0 else next_id q)" by (simp add: n_def GetNextId_def Let_def e)
  then have small: "unat n \<le> k" and ids: "\<forall>y \<in> set ds. id_of y < n" using ds(5,6) by auto
  have "unat (n + 1) = Suc (unat n)" using small assms(2) by (simp add: unat_word_ariths)
  then have next_id: "unat (n + 1) \<le> Suc k" and above: "n < n + 1" using small by (simp_all add: word_less_nat_alt)
  let ?P = "\<lambda>y. \<not> lt (obj y) v"
  let ?ds = "takeWhile ?P ds @ d # dropWhile ?P ds"
  have q: "container (Push lt v q) = push_heap (Compare lt) (container q @ [d])" "next_id (Push lt v q) = n + 1"
    by (simp_all add: Push_def n_def d_def GetNextId_def Let_def)
  have "sorted_wrt (\<lambda>a b. Compare lt b a) ?ds"
  proof (rule sorted_insert_between [OF ds(3)])
    show "Compare lt d y" if "y \<in> set ds" "?P y" for y using that ids by (auto simp: d_def Compare_def)
    show "Compare lt y d" if "\<not> ?P y" for y using that by (auto simp: d_def Compare_def)
    show "?P y" if "Compare lt z y" "?P z" for y z
      using that asym negtrans [of "obj y" "obj z" v] by (auto simp: Compare_def)
  qed
  moreover have "map obj ?ds = fifo_push lt v xs"
    by (simp add: fifo_push_def takeWhile_map dropWhile_map comp_def d_def flip: ds(1))
  moreover have "mset ?ds = mset (container (Push lt v q))"
    by (simp add: q push_heap_mset flip: ds(2)) (metis mset_append takeWhile_dropWhile_id)
  moreover have "\<forall>y \<in> set ?ds. id_of y < n + 1"
    using ids above by (auto simp: d_def dest!: set_takeWhileD set_dropWhileD intro: less_trans)
  moreover have "length (container (Push lt v q)) = Suc (length (container q))"
    by (metis (no_types) q(1) push_heap_mset size_mset size_add_mset mset_append)
  ultimately show ?thesis
    using next_id Compare_push [OF ds(4)] unfolding pq_rel_def by (intro exI [of _ ?ds]) (simp add: q)
qed

lemma rel_front:
  assumes "pq_rel lt k q xs" and "xs \<noteq> []"
  shows "Front q = hd xs \<and> pq_rel lt k (Pop lt q) (tl xs)"
proof -
  from assms(1) obtain ds where ds: "map obj ds = xs" "mset ds = mset (container q)"
    "sorted_wrt (\<lambda>a b. Compare lt b a) ds" "heap_to (Compare lt) (length (container q)) (container q)"
    "ds = [] \<or> unat (next_id q) \<le> k" "\<forall>d \<in> set ds. id_of d < next_id q"
    by (auto simp: pq_rel_def)
  with assms(2) obtain a as where as: "ds = a # as" by (cases ds) auto
  with ds(2) have ne: "container q \<noteq> []" by auto
  then have "container q ! 0 \<in> set (container q)" "a \<in> set (container q)"
    using as mset_eq_setD [OF ds(2)] by auto
  then obtain j where "j < length (container q)" "container q ! j = a" by (auto simp: in_set_conv_nth)
  then have "\<not> Compare lt (container q ! 0) a" using Compare_top [OF ds(4)] by auto
  moreover have "container q ! 0 \<in> set (a # as)" using mset_eq_setD [OF ds(2)] as ne by simp
  ultimately have top: "container q ! 0 = a" using ds(3) as by auto
  have "mset as = mset (butlast (pop_heap (Compare lt) (container q)))"
    using pop_heap_mset(1) [OF ne, of "Compare lt"] top as by (simp flip: ds(2))
  moreover have "heap_to (Compare lt) (length (container q) - 1) (butlast (pop_heap (Compare lt) (container q)))"
    using Compare_pop [OF ds(4) ne] pop_heap_mset(2) [OF ne, of "Compare lt"] par_less
    by (auto simp: heap_to_def nth_butlast less_trans [OF par_less])
  ultimately have "pq_rel lt k (Pop lt q) (tl xs)"
    using ds as pop_heap_mset(2) [OF ne, of "Compare lt"] unfolding pq_rel_def
    by (intro exI [of _ as]) (auto simp: Pop_def ne)
  with top as ds(1) show ?thesis by (auto simp: Front_def)
qed

lemma rel_empty: "pq_rel lt k q xs \<Longrightarrow> Empty q \<longleftrightarrow> xs = []"
  by (auto simp: pq_rel_def Empty_def)

lemma rel_run:
  "pq_rel lt k q xs \<Longrightarrow> k + pushes xops < 2 ^ 32 \<Longrightarrow> run_ops (pq_apply lt) xops q = run_ops (fifo_apply lt) xops xs"
proof (induction xops arbitrary: k q xs)
  case (Cons x xops)
  let ?k = "k + pushes [x]"
  have "snd (pq_apply lt x q) = snd (fifo_apply lt x xs) \<and> pq_rel lt ?k (fst (pq_apply lt x q)) (fst (fifo_apply lt x xs))"
    using rel_push [OF Cons.prems(1)] rel_front [OF Cons.prems(1)] rel_empty [OF Cons.prems(1)] Cons.prems
    by (cases x; cases "xs = []") (auto simp: pushes_def Pop_def Empty_def)
  with Cons.IH [of ?k "fst (pq_apply lt x q)" "fst (fifo_apply lt x xs)"] Cons.prems show ?case
    by (simp add: split_def Let_def pushes_def split: if_splits)
qed simp

text \<open>Without a bound on the pushes the queue still is a heap of what was pushed.\<close>

lemma heap_push_pop:
  assumes "heap_to (Compare lt) (length (container q)) (container q)"
  shows "heap_to (Compare lt) (length (container (Push lt v q))) (container (Push lt v q))"
    and "image_mset obj (mset (container (Push lt v q))) = add_mset v (image_mset obj (mset (container q)))"
    and "container q \<noteq> [] \<Longrightarrow> heap_to (Compare lt) (length (container (Pop lt q))) (container (Pop lt q))"
    and "container q \<noteq> [] \<Longrightarrow> add_mset (Front q) (image_mset obj (mset (container (Pop lt q)))) = image_mset obj (mset (container q))"
    and "d \<in> set (container q) \<Longrightarrow> \<not> lt (Front q) (obj d)"
proof -
  obtain n where n: "container (Push lt v q) = push_heap (Compare lt) (container q @ [\<lparr>id_of = n, obj = v\<rparr>])"
    by (cases "container q = []") (simp_all add: Push_def GetNextId_def Let_def)
  have "length (container (Push lt v q)) = Suc (length (container q))"
    by (metis n push_heap_mset size_mset size_add_mset)
  then show "heap_to (Compare lt) (length (container (Push lt v q))) (container (Push lt v q))"
    using Compare_push [OF assms] n by simp
  show "image_mset obj (mset (container (Push lt v q))) = add_mset v (image_mset obj (mset (container q)))"
    by (simp add: n push_heap_mset)
  show "heap_to (Compare lt) (length (container (Pop lt q))) (container (Pop lt q))" if ne: "container q \<noteq> []"
    using Compare_pop [OF assms ne] pop_heap_mset(2) [OF ne, of "Compare lt"]
    by (auto simp: heap_to_def Pop_def nth_butlast less_trans [OF par_less])
  show "add_mset (Front q) (image_mset obj (mset (container (Pop lt q)))) = image_mset obj (mset (container q))"
    if ne: "container q \<noteq> []"
    using pop_heap_mset(1) [OF ne, of "Compare lt"] ne by (simp add: Pop_def Front_def image_mset_Diff)
  show "\<not> lt (Front q) (obj d)" if "d \<in> set (container q)"
    using that Compare_top [OF assms] by (auto simp: in_set_conv_nth Front_def Compare_def)
qed

end

section \<open>SyncQueue\<close>

text \<open>The container a queue is made of: the operations the template calls.\<close>

record ('c, 'a) container_ops =
  c_new :: 'c
  c_empty :: "'c \<Rightarrow> bool"
  c_push :: "'a \<Rightarrow> 'c \<Rightarrow> 'c"
  c_front :: "'c \<Rightarrow> 'a"
  c_pop :: "'c \<Rightarrow> 'c"

record 'c SyncQueue =
  sq_queue :: 'c
  sq_closed :: bool

definition SyncQueue_new :: "('c, 'a) container_ops \<Rightarrow> 'c SyncQueue" where
  "SyncQueue_new C = \<lparr>sq_queue = c_new C, sq_closed = False\<rparr>"

text \<open>What the operations do while they hold the mutex. \<open>SyncQueue_Push\<close> also tells whether the waiting
  threads are notified; \<open>pull_ready\<close> is the condition of the wait.\<close>

definition SyncQueue_Close :: "('c, 'a) container_ops \<Rightarrow> 'c SyncQueue \<Rightarrow> 'c SyncQueue" where
  "SyncQueue_Close C s = s\<lparr>sq_closed := True, sq_queue := c_new C\<rparr>"

definition pull_ready :: "('c, 'a) container_ops \<Rightarrow> 'c SyncQueue \<Rightarrow> bool" where
  "pull_ready C s \<longleftrightarrow> \<not> c_empty C (sq_queue s) \<or> sq_closed s"

definition SyncQueue_Pull :: "('c, 'a) container_ops \<Rightarrow> 'c SyncQueue \<Rightarrow> 'c SyncQueue \<times> 'a option" where
  "SyncQueue_Pull C s =
     (if sq_closed s then (s, None)
      else (s\<lparr>sq_queue := c_pop C (sq_queue s)\<rparr>, Some (c_front C (sq_queue s))))"

definition SyncQueue_Push :: "('c, 'a) container_ops \<Rightarrow> 'a \<Rightarrow> 'c SyncQueue \<Rightarrow> 'c SyncQueue \<times> bool" where
  "SyncQueue_Push C x s =
     (if sq_closed s then (s, False) else (s\<lparr>sq_queue := c_push C x (sq_queue s)\<rparr>, True))"

section \<open>ThreadPoolTaskScheduler\<close>

record 'f PrioritizedTask =
  task_function :: 'f
  task_priority :: u32

definition ComparePrioritizedTask :: "'f PrioritizedTask \<Rightarrow> 'f PrioritizedTask \<Rightarrow> bool" where
  "ComparePrioritizedTask lhs rhs \<longleftrightarrow> task_priority lhs < task_priority rhs"

definition pq_ops :: "('f PrioritizedTask PriorityQueue, 'f PrioritizedTask) container_ops" where
  "pq_ops = \<lparr>c_new = PriorityQueue_new, c_empty = Empty, c_push = Push ComparePrioritizedTask, c_front = Front,
     c_pop = Pop ComparePrioritizedTask\<rparr>"

text \<open>\<open>SyncQueueFifo\<close>: the container is a \<open>std::queue\<close>.\<close>

definition fifo_ops :: "('a list, 'a) container_ops" where
  "fifo_ops = \<lparr>c_new = [], c_empty = (\<lambda>q. q = []), c_push = (\<lambda>x q. q @ [x]), c_front = hd, c_pop = tl\<rparr>"

text \<open>A thread of the pool is about to take the mutex and look at the queue, waits for the condition, runs a
  task, or has returned.\<close>

datatype 'a worker = Ready | Asleep | Running 'a | Exited

text \<open>\<open>notify_one\<close> and \<open>notify_all\<close> happen after the mutex is released; until then they are counted. The last
  two members record the tasks that were accepted and those that were started, in order.\<close>

record ('c, 'a) pool =
  pool_queue :: "'c SyncQueue"
  pool_threads :: "'a worker list"
  notify_one_due :: nat
  notify_all_due :: nat
  accepted :: "'a list"
  started :: "'a list"

definition ThreadPool_new :: "('c, 'a) container_ops \<Rightarrow> nat \<Rightarrow> ('c, 'a) pool" where
  "ThreadPool_new C thread_count =
     \<lparr>pool_queue = SyncQueue_new C, pool_threads = replicate thread_count Ready, notify_one_due = 0,
      notify_all_due = 0, accepted = [], started = []\<rparr>"

datatype 'a pool_event =
    EnqueueTask 'a | NotifyOne nat | Pull nat | Return nat | SpuriousWakeUp nat | Close | NotifyAll

definition set_worker :: "nat \<Rightarrow> 'a worker \<Rightarrow> ('c, 'a) pool \<Rightarrow> ('c, 'a) pool" where
  "set_worker i w s = s\<lparr>pool_threads := (pool_threads s)[i := w]\<rparr>"

definition worker_is :: "nat \<Rightarrow> 'a worker \<Rightarrow> ('c, 'a) pool \<Rightarrow> bool" where
  "worker_is i w s \<longleftrightarrow> i < length (pool_threads s) \<and> pool_threads s ! i = w"

text \<open>One pass of the loop of a thread up to the call of the task.\<close>

definition executor_pull :: "('c, 'a) container_ops \<Rightarrow> nat \<Rightarrow> ('c, 'a) pool \<Rightarrow> ('c, 'a) pool" where
  "executor_pull C i s =
     (if \<not> pull_ready C (pool_queue s) then set_worker i Asleep s
      else case SyncQueue_Pull C (pool_queue s) of
        (q, None) \<Rightarrow> set_worker i Exited (s\<lparr>pool_queue := q\<rparr>)
      | (q, Some task) \<Rightarrow> set_worker i (Running task) (s\<lparr>pool_queue := q, started := started s @ [task]\<rparr>))"

text \<open>An event that cannot happen in a state is \<open>None\<close>. A notification wakes one waiting thread if there
  is one.\<close>

fun pool_step :: "('c, 'a) container_ops \<Rightarrow> 'a pool_event \<Rightarrow> ('c, 'a) pool \<Rightarrow> ('c, 'a) pool option" where
  "pool_step C (EnqueueTask task) s =
     (case SyncQueue_Push C task (pool_queue s) of
        (q, False) \<Rightarrow> Some s
      | (q, True) \<Rightarrow> Some (s\<lparr>pool_queue := q, notify_one_due := notify_one_due s + 1, accepted := accepted s @ [task]\<rparr>))"
| "pool_step C (NotifyOne i) s =
     (if notify_one_due s = 0 then None
      else if Asleep \<notin> set (pool_threads s) then Some (s\<lparr>notify_one_due := notify_one_due s - 1\<rparr>)
      else if worker_is i Asleep s then Some (set_worker i Ready (s\<lparr>notify_one_due := notify_one_due s - 1\<rparr>))
      else None)"
| "pool_step C (Pull i) s = (if worker_is i Ready s then Some (executor_pull C i s) else None)"
| "pool_step C (Return i) s =
     (if i < length (pool_threads s) then
        case pool_threads s ! i of Running task \<Rightarrow> Some (set_worker i Ready s) | _ \<Rightarrow> None
      else None)"
| "pool_step C (SpuriousWakeUp i) s = (if worker_is i Asleep s then Some (set_worker i Ready s) else None)"
| "pool_step C Close s =
     Some (s\<lparr>pool_queue := SyncQueue_Close C (pool_queue s), notify_all_due := notify_all_due s + 1\<rparr>)"
| "pool_step C NotifyAll s =
     (if notify_all_due s = 0 then None
      else Some (s\<lparr>notify_all_due := notify_all_due s - 1,
        pool_threads := map (\<lambda>w. if w = Asleep then Ready else w) (pool_threads s)\<rparr>))"

fun pool_run :: "('c, 'a) container_ops \<Rightarrow> 'a pool_event list \<Rightarrow> ('c, 'a) pool \<Rightarrow> ('c, 'a) pool option" where
  "pool_run C [] s = Some s"
| "pool_run C (e # es) s = pool_step C e s \<bind> pool_run C es"

section \<open>The contract of a container\<close>

lemma sum_list_map_update:
  "i < length xs \<Longrightarrow> sum_list (map f (xs[i := w])) + f (xs ! i) = sum_list (map f xs) + (f w :: nat)"
  by (induction xs arbitrary: i) (auto split: nat.splits)

definition weight_ready :: "'a worker \<Rightarrow> nat" where
  "weight_ready w = (case w of Ready \<Rightarrow> 1 | _ \<Rightarrow> 0)"

definition weight_run :: "'a worker \<Rightarrow> nat" where
  "weight_run w = (case w of Ready \<Rightarrow> 1 | Running task \<Rightarrow> 2 | _ \<Rightarrow> 0)"

lemma weight_run_bound: "sum_list (map weight_run ws) \<le> 2 * length ws"
proof (induction ws)
  case (Cons w ws)
  then show ?case by (cases w) (simp_all add: weight_run_def)
qed simp

fun internal :: "'a pool_event \<Rightarrow> bool" where
  "internal (NotifyOne i) = True"
| "internal (Pull i) = True"
| "internal (Return i) = True"
| "internal NotifyAll = True"
| "internal _ = False"

locale sync_container =
  fixes C :: "('c, 'a) container_ops"
    and valid :: "'c \<Rightarrow> bool"
    and content :: "'c \<Rightarrow> 'a multiset"
    and ahead :: "'a \<Rightarrow> 'a \<Rightarrow> bool"
  assumes new: "valid (c_new C)" "content (c_new C) = {#}"
    and push: "valid q \<Longrightarrow> valid (c_push C x q)" "valid q \<Longrightarrow> content (c_push C x q) = add_mset x (content q)"
    and empty: "valid q \<Longrightarrow> c_empty C q \<longleftrightarrow> content q = {#}"
    and pop: "valid q \<Longrightarrow> content q \<noteq> {#} \<Longrightarrow> valid (c_pop C q)"
      "valid q \<Longrightarrow> content q \<noteq> {#} \<Longrightarrow> content q = add_mset (c_front C q) (content (c_pop C q))"
    and front: "valid q \<Longrightarrow> y \<in># content q \<Longrightarrow> \<not> ahead y (c_front C q)"
begin

definition queued :: "('c, 'a) pool \<Rightarrow> 'a multiset" where
  "queued s = content (sq_queue (pool_queue s))"

definition closed :: "('c, 'a) pool \<Rightarrow> bool" where
  "closed s \<longleftrightarrow> sq_closed (pool_queue s)"

definition awake :: "('c, 'a) pool \<Rightarrow> nat" where
  "awake s = sum_list (map weight_ready (pool_threads s))"

text \<open>What holds in every reachable state: no task is lost or invented, and when a thread sleeps there is a
  notification on its way or a thread awake for every task in the queue.\<close>

definition pool_ok :: "('c, 'a) pool \<Rightarrow> bool" where
  "pool_ok s \<longleftrightarrow> valid (sq_queue (pool_queue s))
     \<and> (if closed s then queued s = {#} \<and> mset (started s) \<subseteq># mset (accepted s)
        else mset (started s) + queued s = mset (accepted s) \<and> Exited \<notin> set (pool_threads s)
          \<and> notify_all_due s = 0)
     \<and> (Asleep \<in> set (pool_threads s) \<longrightarrow>
          (if closed s then 0 < notify_all_due s else size (queued s) \<le> notify_one_due s + awake s))"

lemma pool_ok_new: "pool_ok (ThreadPool_new C n)"
  by (simp add: pool_ok_def ThreadPool_new_def SyncQueue_new_def closed_def queued_def new)

lemma awake_update:
  assumes "i < length (pool_threads s)"
  shows "awake (set_worker i w s) + weight_ready (pool_threads s ! i) = awake s + weight_ready w"
  using sum_list_map_update [OF assms, of weight_ready w] by (simp add: awake_def set_worker_def)

lemma set_worker_sel [simp]:
  "pool_queue (set_worker i w s) = pool_queue s" "pool_threads (set_worker i w s) = (pool_threads s)[i := w]"
  "notify_one_due (set_worker i w s) = notify_one_due s" "notify_all_due (set_worker i w s) = notify_all_due s"
  "accepted (set_worker i w s) = accepted s" "started (set_worker i w s) = started s"
  "queued (set_worker i w s) = queued s" "closed (set_worker i w s) = closed s"
  by (simp_all add: set_worker_def queued_def closed_def)

lemma pool_ok_pull:
  assumes ok: "pool_ok s" and i: "i < length (pool_threads s)" "pool_threads s ! i = Ready"
  shows "pool_ok (executor_pull C i s)"
proof -
  let ?q = "sq_queue (pool_queue s)"
  have v: "valid ?q" using ok by (simp add: pool_ok_def)
  have aw: "awake (set_worker i w s') + 1 = awake s" if "w \<noteq> Ready" "pool_threads s' = pool_threads s" for w and s' :: "('c, 'a) pool"
    using awake_update [of i s' w] i that by (cases w) (simp_all add: weight_ready_def awake_def)
  show ?thesis
  proof (cases "pull_ready C (pool_queue s)")
    case False
    then have none: "queued s = {#}" "\<not> closed s" using empty [OF v] by (auto simp: pull_ready_def queued_def closed_def)
    with ok i have "Exited \<notin> set ((pool_threads s)[i := Asleep])" by (auto simp: pool_ok_def dest: set_update_subset_insert [THEN subsetD])
    with ok none False show ?thesis by (simp add: executor_pull_def pool_ok_def)
  next
    case ready: True
    show ?thesis
    proof (cases "closed s")
      case True
      with ok ready show ?thesis
        by (auto simp: executor_pull_def SyncQueue_Pull_def pool_ok_def closed_def [symmetric] queued_def
            dest!: set_update_subset_insert [THEN subsetD])
    next
      case False
      then have ne: "content ?q \<noteq> {#}" using ready empty [OF v] by (auto simp: pull_ready_def closed_def)
      let ?s = "s\<lparr>pool_queue := (pool_queue s)\<lparr>sq_queue := c_pop C ?q\<rparr>, started := started s @ [c_front C ?q]\<rparr>"
      have e: "executor_pull C i s = set_worker i (Running (c_front C ?q)) ?s"
        using ready False by (simp add: executor_pull_def SyncQueue_Pull_def closed_def)
      have q: "queued s = add_mset (c_front C ?q) (queued ?s)" using pop(2) [OF v ne] by (simp add: queued_def)
      have "closed ?s = closed s" by (simp add: closed_def)
      with ok False q pop(1) [OF v ne] aw [of "Running (c_front C ?q)" ?s] show ?thesis
        unfolding e pool_ok_def
        by (auto dest!: set_update_subset_insert [THEN subsetD])
    qed
  qed
qed

lemma pool_ok_wake:
  assumes "pool_ok s" and "i < length (pool_threads s)" and "pool_threads s ! i = Asleep \<or> pool_threads s ! i = Running task"
  shows "pool_ok (set_worker i Ready s)" and "awake (set_worker i Ready s) = awake s + 1"
proof -
  show a: "awake (set_worker i Ready s) = awake s + 1"
    using awake_update [OF assms(2), of Ready] assms(3) by (auto simp: weight_ready_def)
  have "Asleep \<in> set (pool_threads s)" if "Asleep \<in> set ((pool_threads s)[i := Ready])"
    using that by (auto dest: set_update_subset_insert [THEN subsetD])
  moreover have "Exited \<in> set (pool_threads s)" if "Exited \<in> set ((pool_threads s)[i := Ready])"
    using that by (auto dest: set_update_subset_insert [THEN subsetD])
  ultimately show "pool_ok (set_worker i Ready s)" using assms(1) a by (auto simp: pool_ok_def)
qed

lemma pool_ok_step:
  assumes ok: "pool_ok s" and st: "pool_step C e s = Some s'"
  shows "pool_ok s'"
proof (cases e)
  case (EnqueueTask task)
  then show ?thesis
    using ok st push
    by (auto simp: SyncQueue_Push_def pool_ok_def closed_def queued_def awake_def subset_mset.add_increasing2 split: if_splits)
next
  case (NotifyOne i)
  let ?s = "s\<lparr>notify_one_due := notify_one_due s - 1\<rparr>"
  show ?thesis
  proof (cases "Asleep \<in> set (pool_threads s)")
    case False
    with NotifyOne st ok show ?thesis by (auto simp: pool_ok_def closed_def queued_def split: if_splits)
  next
    case True
    with NotifyOne st have i: "worker_is i Asleep s" "0 < notify_one_due s" "s' = set_worker i Ready ?s" by (auto split: if_splits)
    have a: "awake (set_worker i Ready ?s) = awake s + 1"
      using awake_update [of i ?s Ready] i(1) by (simp add: worker_is_def weight_ready_def awake_def)
    have "Exited \<in> set (pool_threads s)" if "Exited \<in> set ((pool_threads s)[i := Ready])"
      using that by (auto dest: set_update_subset_insert [THEN subsetD])
    moreover have "closed ?s = closed s" "queued ?s = queued s" by (simp_all add: closed_def queued_def)
    ultimately show ?thesis using ok True i(2) a unfolding i(3) by (auto simp: pool_ok_def)
  qed
next
  case (Pull i)
  with st ok show ?thesis by (auto simp: worker_is_def intro: pool_ok_pull split: if_splits)
next
  case (Return i)
  with st ok show ?thesis by (auto intro: pool_ok_wake(1) split: if_splits worker.splits)
next
  case (SpuriousWakeUp i)
  with st ok show ?thesis by (auto simp: worker_is_def intro: pool_ok_wake(1) split: if_splits)
next
  case Close
  with st have s': "s' = s\<lparr>pool_queue := SyncQueue_Close C (pool_queue s), notify_all_due := notify_all_due s + 1\<rparr>" by simp
  have "mset (started s) \<subseteq># mset (accepted s)" using ok by (auto simp: pool_ok_def split: if_splits dest: sym)
  then show ?thesis unfolding s' by (auto simp: pool_ok_def closed_def queued_def SyncQueue_Close_def new)
next
  case NotifyAll
  with st have s': "0 < notify_all_due s" "s' = s\<lparr>notify_all_due := notify_all_due s - 1,
      pool_threads := map (\<lambda>w. if w = Asleep then Ready else w) (pool_threads s)\<rparr>" by (auto split: if_splits)
  then have "closed s" using ok by (cases "closed s") (auto simp: pool_ok_def)
  with ok s' show ?thesis by (auto simp: pool_ok_def closed_def queued_def split: if_splits)
qed

lemma pool_ok_run: "pool_ok s \<Longrightarrow> pool_run C es s = Some s' \<Longrightarrow> pool_ok s'"
  by (induction es arbitrary: s) (auto simp: bind_eq_Some_conv intro: pool_ok_step)

lemma pool_threads_length: "pool_step C e s = Some s' \<Longrightarrow> length (pool_threads s') = length (pool_threads s)"
  by (cases e) (auto simp: executor_pull_def SyncQueue_Pull_def SyncQueue_Push_def split: if_splits worker.splits)

lemma pool_run_length: "pool_run C es s = Some s' \<Longrightarrow> length (pool_threads s') = length (pool_threads s)"
  by (induction es arbitrary: s) (auto simp: bind_eq_Some_conv dest: pool_threads_length)

text \<open>A thread that starts a task takes one that no task in the queue is ahead of.\<close>

lemma pull_best:
  assumes "pool_ok s" and "pool_step C (Pull i) s = Some s'" and "started s' = started s @ [task]" and "y \<in># queued s"
  shows "\<not> ahead y task \<and> task \<in># queued s"
proof -
  let ?q = "sq_queue (pool_queue s)"
  have v: "valid ?q" using assms(1) by (simp add: pool_ok_def)
  have t: "task = c_front C ?q"
    using assms(2,3) by (auto simp: executor_pull_def SyncQueue_Pull_def split: if_splits)
  have "content ?q \<noteq> {#}" using assms(4) by (auto simp: queued_def)
  from front [OF v, of y] pop(2) [OF v this] t assms(4) show ?thesis by (simp add: queued_def)
qed

text \<open>The events of the threads themselves, and a measure that each of them lowers.\<close>

definition pool_measure :: "('c, 'a) pool \<Rightarrow> nat" where
  "pool_measure s = 2 * size (queued s) + 2 * notify_one_due s + (length (pool_threads s) + 1) * notify_all_due s
     + sum_list (map weight_run (pool_threads s))"

lemma worker_measure:
  assumes "i < length (pool_threads s)"
  shows "sum_list (map weight_run ((pool_threads s)[i := w])) + weight_run (pool_threads s ! i)
    = sum_list (map weight_run (pool_threads s)) + weight_run w"
  by (rule sum_list_map_update [OF assms])

lemma measure_pull:
  assumes ok: "pool_ok s" and i: "i < length (pool_threads s)" "pool_threads s ! i = Ready"
  shows "pool_measure (executor_pull C i s) < pool_measure s"
proof -
  let ?q = "sq_queue (pool_queue s)"
  have v: "valid ?q" using ok by (simp add: pool_ok_def)
  have w: "sum_list (map weight_run ((pool_threads s)[i := u])) + 1 = sum_list (map weight_run (pool_threads s)) + weight_run u" for u
    using worker_measure [OF i(1), of u] i(2) by (simp add: weight_run_def)
  consider "\<not> pull_ready C (pool_queue s)" | "pull_ready C (pool_queue s)" "closed s" | "pull_ready C (pool_queue s)" "\<not> closed s" by blast
  then show ?thesis
  proof cases
    case 1
    with w [of Asleep] show ?thesis by (simp add: executor_pull_def pool_measure_def weight_run_def)
  next
    case 2
    with w [of Exited] show ?thesis
      by (simp add: executor_pull_def SyncQueue_Pull_def pool_measure_def weight_run_def closed_def queued_def)
  next
    case 3
    then have ne: "content ?q \<noteq> {#}" using empty [OF v] by (auto simp: pull_ready_def closed_def)
    have "size (content ?q) = Suc (size (content (c_pop C ?q)))" by (subst pop(2) [OF v ne]) simp
    with 3 w [of "Running (c_front C ?q)"] show ?thesis
      by (simp add: executor_pull_def SyncQueue_Pull_def pool_measure_def weight_run_def closed_def queued_def)
  qed
qed

lemma weight_wake_all: "sum_list (map weight_run (map (\<lambda>w. if w = Asleep then Ready else w) ws))
    \<le> sum_list (map weight_run ws) + length ws"
proof (induction ws)
  case (Cons w ws)
  have "weight_run (if w = Asleep then Ready else w) \<le> weight_run w + 1" by (cases w) (simp_all add: weight_run_def)
  with Cons show ?case by simp
qed simp

lemma measure_step:
  assumes ok: "pool_ok s" and st: "pool_step C e s = Some s'" and e: "internal e"
  shows "pool_measure s' < pool_measure s"
proof (cases e)
  case (NotifyOne i)
  have "sum_list (map weight_run ((pool_threads s)[i := Ready])) = sum_list (map weight_run (pool_threads s)) + 1"
    if "worker_is i Asleep s"
    using worker_measure [of i s Ready] that by (simp add: worker_is_def weight_run_def)
  with NotifyOne st show ?thesis by (auto simp: pool_measure_def queued_def split: if_splits)
next
  case (Pull i)
  with st ok show ?thesis by (auto simp: worker_is_def intro: measure_pull split: if_splits)
next
  case (Return i)
  with st obtain task where r: "i < length (pool_threads s)" "pool_threads s ! i = Running task" "s' = set_worker i Ready s"
    by (auto split: if_splits worker.splits)
  with worker_measure [OF r(1), of Ready] show ?thesis by (simp add: pool_measure_def weight_run_def)
next
  case NotifyAll
  with st have s': "0 < notify_all_due s" "s' = s\<lparr>notify_all_due := notify_all_due s - 1,
      pool_threads := map (\<lambda>w. if w = Asleep then Ready else w) (pool_threads s)\<rparr>" by (auto split: if_splits)
  obtain k where k: "notify_all_due s = Suc k" using s'(1) by (cases "notify_all_due s") auto
  have "(length (pool_threads s) + 1) * notify_all_due s = (length (pool_threads s) + 1) * k + (length (pool_threads s) + 1)"
    by (simp add: k)
  with weight_wake_all [of "pool_threads s"] show ?thesis unfolding s'(2) by (simp add: pool_measure_def queued_def k)
qed (use e in auto)

lemma measure_run:
  "pool_ok s \<Longrightarrow> list_all internal es \<Longrightarrow> pool_run C es s = Some s' \<Longrightarrow> length es + pool_measure s' \<le> pool_measure s"
proof (induction es arbitrary: s)
  case (Cons e es)
  then obtain s1 where 1: "pool_step C e s = Some s1" "pool_run C es s1 = Some s'" by (auto simp: bind_eq_Some_conv)
  from Cons.IH [OF pool_ok_step [OF Cons.prems(1) 1(1)] _ 1(2)] measure_step [OF Cons.prems(1) 1(1)] Cons.prems(2)
  show ?case by simp
qed simp

text \<open>Where no such event is possible, all work is done.\<close>

lemma quiescent:
  assumes ok: "pool_ok s" and stuck: "\<And>e. internal e \<Longrightarrow> pool_step C e s = None" and "pool_threads s \<noteq> []"
  shows "if closed s then set (pool_threads s) = {Exited}
    else set (pool_threads s) = {Asleep} \<and> mset (started s) = mset (accepted s)"
proof -
  have one: "notify_one_due s = 0"
  proof (rule ccontr)
    assume n: "notify_one_due s \<noteq> 0"
    obtain i where "Asleep \<in> set (pool_threads s) \<longrightarrow> worker_is i Asleep s" by (auto simp: worker_is_def in_set_conv_nth)
    with n stuck [of "NotifyOne i"] show False by (auto split: if_splits)
  qed
  have all: "notify_all_due s = 0" using stuck [of NotifyAll] by (auto split: if_splits)
  have "w \<noteq> Ready \<and> w \<noteq> Running t" if "w \<in> set (pool_threads s)" for w t
  proof -
    from that obtain i where i: "i < length (pool_threads s)" "pool_threads s ! i = w" by (auto simp: in_set_conv_nth)
    with stuck [of "Pull i"] stuck [of "Return i"] show ?thesis by (auto simp: worker_is_def split: worker.splits)
  qed
  then have ws: "w = Asleep \<or> w = Exited" if "w \<in> set (pool_threads s)" for w using that by (cases w) auto
  obtain w0 where w0: "w0 \<in> set (pool_threads s)" using assms(3) by (cases "pool_threads s") auto
  show ?thesis
  proof (cases "closed s")
    case True
    then have "Asleep \<notin> set (pool_threads s)" using ok all by (auto simp: pool_ok_def)
    with True ws w0 show ?thesis by auto
  next
    case False
    then have ex: "Exited \<notin> set (pool_threads s)" using ok by (auto simp: pool_ok_def)
    with ws w0 have as: "set (pool_threads s) = {Asleep}" by auto
    have "awake s = 0" using as by (auto simp: awake_def weight_ready_def)
    with ok False as one have "queued s = {#}" by (auto simp: pool_ok_def)
    with ok False as show ?thesis by (auto simp: pool_ok_def)
  qed
qed

end

section \<open>The containers of the code\<close>

interpretation task_order: strict_weak_order ComparePrioritizedTask
  by unfold_locales (auto simp: ComparePrioritizedTask_def)

definition pq_valid :: "'f PrioritizedTask PriorityQueue \<Rightarrow> bool" where
  "pq_valid q \<longleftrightarrow> heap_to (Compare ComparePrioritizedTask) (length (container q)) (container q)"

definition pq_content :: "'a PriorityQueue \<Rightarrow> 'a multiset" where
  "pq_content q = image_mset obj (mset (container q))"

interpretation pq: sync_container pq_ops pq_valid pq_content "\<lambda>x y. ComparePrioritizedTask y x"
proof
  fix q :: "'f PrioritizedTask PriorityQueue" and x y
  show "pq_valid (c_new pq_ops)" "pq_content (c_new pq_ops) = {#}"
    by (simp_all add: pq_ops_def PriorityQueue_new_def pq_valid_def pq_content_def heap_to_def)
  assume v: "pq_valid q"
  note h = task_order.heap_push_pop [OF v [unfolded pq_valid_def]]
  show "pq_valid (c_push pq_ops x q)" "pq_content (c_push pq_ops x q) = add_mset x (pq_content q)"
    using h(1,2) by (simp_all add: pq_ops_def pq_valid_def pq_content_def)
  show e: "c_empty pq_ops q \<longleftrightarrow> pq_content q = {#}" by (simp add: pq_ops_def Empty_def pq_content_def)
  show "pq_valid (c_pop pq_ops q)" "pq_content q = add_mset (c_front pq_ops q) (pq_content (c_pop pq_ops q))"
    if "pq_content q \<noteq> {#}"
    using h(3,4) that by (simp_all add: pq_ops_def pq_valid_def pq_content_def)
  show "\<not> ComparePrioritizedTask (c_front pq_ops q) y" if "y \<in># pq_content q"
    using h(5) that by (auto simp: pq_ops_def pq_content_def)
qed

interpretation fifo: sync_container fifo_ops "\<lambda>q. True" mset "\<lambda>x y. False"
  by unfold_locales (auto simp: fifo_ops_def neq_Nil_conv)

section \<open>Properties\<close>

text \<open>C7. The priority queue serves tasks by priority and, among equal priorities, in the order of their
  arrival: over any sequence of fewer than $2^{32}$ pushes, pops and looks at the front it gives the
  same answers as the list that keeps this order.\<close>

theorem task_queue_fifo:
  assumes "pushes xops < 2 ^ 32"
  shows "run_ops (pq_apply ComparePrioritizedTask) xops PriorityQueue_new = run_ops (fifo_apply ComparePrioritizedTask) xops []"
proof (rule task_order.rel_run)
  show "pq_rel ComparePrioritizedTask 0 PriorityQueue_new []"
    by (simp add: pq_rel_def PriorityQueue_new_def heap_to_def)
qed (use assms in simp)

theorem task_queue_fifo_witness:
  "run_ops (pq_apply ComparePrioritizedTask) [PushOp \<lparr>task_function = ''a'', task_priority = 500\<rparr>,
      PushOp \<lparr>task_function = ''b'', task_priority = 1000\<rparr>, PushOp \<lparr>task_function = ''c'', task_priority = 1000\<rparr>,
      PopOp, FrontOp] PriorityQueue_new
   = [None, None, None, None, Some \<lparr>task_function = ''c'', task_priority = 1000\<rparr>]"
  by (subst task_queue_fifo) (simp_all add: pushes_def fifo_push_def ComparePrioritizedTask_def)

definition demo_a :: "string PrioritizedTask" where
  "demo_a = \<lparr>task_function = ''a'', task_priority = 500\<rparr>"

definition demo_b :: "string PrioritizedTask" where
  "demo_b = \<lparr>task_function = ''b'', task_priority = 1000\<rparr>"

definition demo_pool :: "(string PrioritizedTask PriorityQueue, string PrioritizedTask) pool" where
  "demo_pool = \<lparr>pool_queue = \<lparr>sq_queue = \<lparr>container = [\<lparr>id_of = 1, obj = demo_b\<rparr>, \<lparr>id_of = 0, obj = demo_a\<rparr>], next_id = 2\<rparr>, sq_closed = False\<rparr>,
     pool_threads = [Ready], notify_one_due = 2, notify_all_due = 0, accepted = [demo_a, demo_b], started = []\<rparr>"

lemma demo_pool_run: "pool_run pq_ops [EnqueueTask demo_a, EnqueueTask demo_b] (ThreadPool_new pq_ops 1) = Some demo_pool"
  by code_simp

definition demo_done :: "(string PrioritizedTask PriorityQueue, string PrioritizedTask) pool" where
  "demo_done = \<lparr>pool_queue = \<lparr>sq_queue = \<lparr>container = [], next_id = 2\<rparr>, sq_closed = False\<rparr>,
     pool_threads = [Asleep], notify_one_due = 0, notify_all_due = 0, accepted = [demo_a, demo_b], started = [demo_b, demo_a]\<rparr>"

definition demo_steps :: "string PrioritizedTask pool_event list" where
  "demo_steps = [NotifyOne 0, Pull 0, NotifyOne 0, Return 0, Pull 0, Return 0, Pull 0]"

lemma demo_pool_steps: "pool_run pq_ops demo_steps demo_pool = Some demo_done"
  by code_simp

text \<open>C9. The pool loses no task and runs none twice: whatever the threads, the clients and the
  scheduler of the system do, the started and the queued tasks are those that were accepted; once
  the pool is closed nothing is queued and what was started had been accepted. A thread never starts
  a task while one of higher priority is queued.\<close>

theorem pool_exactly_once:
  assumes "pool_run pq_ops es (ThreadPool_new pq_ops n) = Some s"
  shows "(if sq_closed (pool_queue s) then pq_content (sq_queue (pool_queue s)) = {#} \<and> mset (started s) \<subseteq># mset (accepted s)
      else mset (started s) + pq_content (sq_queue (pool_queue s)) = mset (accepted s))
    \<and> (pool_step pq_ops (Pull i) s = Some s' \<and> started s' = started s @ [task]
        \<and> y \<in># pq_content (sq_queue (pool_queue s)) \<longrightarrow> task_priority y \<le> task_priority task)"
proof -
  have ok: "pq.pool_ok s" by (rule pq.pool_ok_run [OF pq.pool_ok_new assms])
  then have "if sq_closed (pool_queue s) then pq_content (sq_queue (pool_queue s)) = {#} \<and> mset (started s) \<subseteq># mset (accepted s)
      else mset (started s) + pq_content (sq_queue (pool_queue s)) = mset (accepted s)"
    by (simp add: pq.pool_ok_def pq.closed_def pq.queued_def split: if_splits)
  with pq.pull_best [OF ok, of i s' task y] show ?thesis by (auto simp: pq.queued_def ComparePrioritizedTask_def)
qed

theorem pool_exactly_once_witness:
  "mset (started demo_pool) + pq_content (sq_queue (pool_queue demo_pool)) = mset (accepted demo_pool)
    \<and> task_priority demo_a \<le> task_priority demo_b"
proof -
  have "\<exists>s'. pool_step pq_ops (Pull 0) demo_pool = Some s' \<and> started s' = started demo_pool @ [demo_b]"
    by (intro exI [of _ "the (pool_step pq_ops (Pull 0) demo_pool)"]) code_simp
  then obtain s' where "pool_step pq_ops (Pull 0) demo_pool = Some s' \<and> started s' = started demo_pool @ [demo_b]" by blast
  moreover have "demo_a \<in># pq_content (sq_queue (pool_queue demo_pool))" by (simp add: demo_pool_def pq_content_def)
  ultimately show ?thesis
    using pool_exactly_once [OF demo_pool_run, of 0 s' demo_b demo_a] by (simp add: demo_pool_def)
qed

text \<open>C8. No wake-up is lost and closing ends every thread: from every reachable state the threads
  and the pending notifications make only finitely many steps by themselves, and where none is left
  all threads sleep and every accepted task was started, or, when the pool is closed, all threads
  have returned.\<close>

theorem pool_drains:
  assumes "pool_run pq_ops es (ThreadPool_new pq_ops n) = Some s" and "0 < n"
    and "list_all internal steps" and "pool_run pq_ops steps s = Some s'"
  shows "length steps \<le> 2 * size (pq_content (sq_queue (pool_queue s))) + 2 * notify_one_due s + (n + 1) * notify_all_due s + 2 * n
    \<and> ((\<exists>e. internal e \<and> pool_step pq_ops e s' \<noteq> None)
      \<or> (if sq_closed (pool_queue s') then set (pool_threads s') = {Exited}
          else set (pool_threads s') = {Asleep} \<and> mset (started s') = mset (accepted s')))"
proof -
  have ok: "pq.pool_ok s" by (rule pq.pool_ok_run [OF pq.pool_ok_new assms(1)])
  have ok': "pq.pool_ok s'" by (rule pq.pool_ok_run [OF ok assms(4)])
  have len: "length (pool_threads s) = n"
    using pq.pool_run_length [OF assms(1)] by (simp add: ThreadPool_new_def)
  with pq.pool_run_length [OF assms(4)] assms(2) have "pool_threads s' \<noteq> []" by auto
  moreover have "sum_list (map weight_run (pool_threads s)) \<le> 2 * n"
    using weight_run_bound [of "pool_threads s"] len by simp
  ultimately show ?thesis
    using pq.quiescent [OF ok'] pq.measure_run [OF ok assms(3,4)] len
    by (auto simp: pq.closed_def pq.pool_measure_def pq.queued_def)
qed

theorem pool_drains_witness:
  "length demo_steps \<le> 10 \<and> mset (started demo_done) = mset (accepted demo_done)"
proof -
  have "list_all internal demo_steps" by (simp add: demo_steps_def)
  moreover have "pool_step pq_ops e demo_done = None" if "internal e" for e
    using that by (cases e) (auto simp: demo_done_def worker_is_def nth_Cons split: nat.splits)
  ultimately show ?thesis
    using pool_drains [OF demo_pool_run _ _ demo_pool_steps]
    by (auto simp: demo_pool_def demo_done_def pq_content_def)
qed

text \<open>Once the counter of the numbers has wrapped around while the queue was not empty, equal priorities are
  served in the wrong order.\<close>

lemma id_wrap_breaks_fifo:
  assumes "q = \<lparr>container = [\<lparr>id_of = - 2, obj = demo_a\<rparr>], next_id = - 1\<rparr>"
  shows "Front (Pop ComparePrioritizedTask (Push ComparePrioritizedTask (demo_a\<lparr>task_function := ''second''\<rparr>)
      (Push ComparePrioritizedTask (demo_a\<lparr>task_function := ''first''\<rparr>) q))) = demo_a"
    and "Front (Push ComparePrioritizedTask (demo_a\<lparr>task_function := ''second''\<rparr>)
      (Push ComparePrioritizedTask (demo_a\<lparr>task_function := ''first''\<rparr>) q)) = demo_a\<lparr>task_function := ''second''\<rparr>"
  unfolding assms by code_simp+

end
