(* ===== verification/NamedMutex.thy ===== *)
theory NamedMutex
  imports Prelude
begin

text \<open>
  \<open>NamedMutexStorage\<close> and \<open>NamedMutex\<close> (olp-cpp-sdk-dataservice-read/src/repositories/NamedMutex.h and
  .cpp): mutexes found by name, counted by their users, with an error their users share, and a
  \<open>lock\<close> that a cancellation of the request's context can interrupt.

  A thread has one \<open>NamedMutex\<close> object at a time. An event is what a thread does between two points
  where another one can interfere. The test of the wait's condition and falling asleep are one event,
  because every notification takes the same \<open>lock_mutex\<close>; the mutex itself can change hands in
  between, but its release is followed by a notification of its own.
\<close>

section \<open>Storage\<close>

record 'e RefCounterMutex =
  owner :: "nat option"
  use_count :: u32
  optional_error :: "'e option"

type_synonym 'e NamedMutexStorage = "string \<rightharpoonup> 'e RefCounterMutex"

definition RefCounterMutex_new :: "'e RefCounterMutex" where
  "RefCounterMutex_new = \<lparr>owner = None, use_count = 0, optional_error = None\<rparr>"

definition AcquireLock :: "string \<Rightarrow> 'e NamedMutexStorage \<Rightarrow> 'e NamedMutexStorage" where
  "AcquireLock resource m =
     (let ref_mutex = (case m resource of None \<Rightarrow> RefCounterMutex_new | Some x \<Rightarrow> x) in
      m(resource \<mapsto> ref_mutex\<lparr>use_count := use_count ref_mutex + 1\<rparr>))"

definition ReleaseLock :: "string \<Rightarrow> 'e NamedMutexStorage \<Rightarrow> 'e NamedMutexStorage" where
  "ReleaseLock resource m =
     (case m resource of
        None \<Rightarrow> m
      | Some ref_mutex \<Rightarrow>
          if use_count ref_mutex - 1 = 0 then m(resource := None)
          else m(resource \<mapsto> ref_mutex\<lparr>use_count := use_count ref_mutex - 1\<rparr>))"

definition SetError :: "string \<Rightarrow> 'e \<Rightarrow> 'e NamedMutexStorage \<Rightarrow> 'e NamedMutexStorage" where
  "SetError resource error m =
     (case m resource of None \<Rightarrow> m | Some ref_mutex \<Rightarrow> m(resource \<mapsto> ref_mutex\<lparr>optional_error := Some error\<rparr>))"

definition GetError :: "string \<Rightarrow> 'e NamedMutexStorage \<Rightarrow> 'e option" where
  "GetError resource m = (case m resource of None \<Rightarrow> None | Some ref_mutex \<Rightarrow> optional_error ref_mutex)"

text \<open>The operations on the mutex of an entry.\<close>

definition mutex_owner :: "string \<Rightarrow> 'e NamedMutexStorage \<Rightarrow> nat option" where
  "mutex_owner resource m = (case m resource of None \<Rightarrow> None | Some ref_mutex \<Rightarrow> owner ref_mutex)"

definition set_owner :: "string \<Rightarrow> nat option \<Rightarrow> 'e NamedMutexStorage \<Rightarrow> 'e NamedMutexStorage" where
  "set_owner resource w m = (case m resource of None \<Rightarrow> m | Some ref_mutex \<Rightarrow> m(resource \<mapsto> ref_mutex\<lparr>owner := w\<rparr>))"

section \<open>Threads\<close>

text \<open>Where a thread is: it has no object; it has one and is outside; inside \<open>lock\<close> with the result of
  \<open>ExecuteOrCancelled\<close>; about to test the condition; asleep; past the wait; past \<open>lock\<close>; between the
  release of the mutex and the notification.\<close>

datatype phase = Gone | Outside | Registered bool | Testing | Sleeping | Leaving | InSection | Notifying

text \<open>The object's members, and of its context whether it is cancelled, whether the token is the one that
  \<open>lock\<close> has set, and whether a cancellation is between the call of that token and its end.\<close>

record client =
  phase :: phase
  mutex_name :: string
  is_locked :: bool
  is_canceled :: bool
  context_cancelled :: bool
  token_set :: bool
  cancelling :: bool

definition client_new :: client where
  "client_new = \<lparr>phase = Gone, mutex_name = [], is_locked = False, is_canceled = False, context_cancelled = False,
     token_set = False, cancelling = False\<rparr>"

record 'e system =
  storage :: "'e NamedMutexStorage"
  clients :: "client list"

definition system_new :: "nat \<Rightarrow> 'e system" where
  "system_new n = \<lparr>storage = Map.empty, clients = replicate n client_new\<rparr>"

abbreviation client :: "nat \<Rightarrow> 'e system \<Rightarrow> client" where
  "client i s \<equiv> clients s ! i"

definition set_client :: "nat \<Rightarrow> client \<Rightarrow> 'e system \<Rightarrow> 'e system" where
  "set_client i c s = s\<lparr>clients := (clients s)[i := c]\<rparr>"

text \<open>\<open>Notify\<close>: every thread that sleeps on the condition of this name tests again.\<close>

definition Notify :: "string \<Rightarrow> 'e system \<Rightarrow> 'e system" where
  "Notify name s = s\<lparr>clients := map (\<lambda>c. if phase c = Sleeping \<and> mutex_name c = name then c\<lparr>phase := Testing\<rparr> else c) (clients s)\<rparr>"

definition NamedMutex_new :: "nat \<Rightarrow> string \<Rightarrow> bool \<Rightarrow> 'e system \<Rightarrow> 'e system" where
  "NamedMutex_new i name cancelled s =
     set_client i \<lparr>phase = Outside, mutex_name = name, is_locked = False, is_canceled = False, context_cancelled = cancelled,
        token_set = False, cancelling = False\<rparr> (s\<lparr>storage := AcquireLock name (storage s)\<rparr>)"

definition NamedMutex_destroy :: "nat \<Rightarrow> 'e system \<Rightarrow> 'e system" where
  "NamedMutex_destroy i s =
     set_client i ((client i s)\<lparr>phase := Gone\<rparr>) (s\<lparr>storage := ReleaseLock (mutex_name (client i s)) (storage s)\<rparr>)"

definition try_lock :: "nat \<Rightarrow> 'e system \<Rightarrow> bool \<times> 'e system" where
  "try_lock i s =
     (let c = client i s; free = (mutex_owner (mutex_name c) (storage s) = None) in
      (free, set_client i (c\<lparr>is_locked := free\<rparr>)
         (if free then s\<lparr>storage := set_owner (mutex_name c) (Some i) (storage s)\<rparr> else s)))"

definition goto_phase :: "phase \<Rightarrow> nat \<Rightarrow> 'e system \<Rightarrow> 'e system" where
  "goto_phase p i s = set_client i ((client i s)\<lparr>phase := p\<rparr>) s"

text \<open>The parts of \<open>lock\<close>.\<close>

definition lock_begin :: "nat \<Rightarrow> 'e system \<Rightarrow> 'e system" where
  "lock_begin i s =
     (let c = client i s in
      if context_cancelled c then set_client i (c\<lparr>phase := Registered False\<rparr>) s
      else set_client i (c\<lparr>phase := Registered True, token_set := True\<rparr>) s)"

definition lock_store :: "bool \<Rightarrow> nat \<Rightarrow> 'e system \<Rightarrow> 'e system" where
  "lock_store executed i s =
     set_client i ((client i s)\<lparr>is_canceled := \<not> executed, phase := (if executed then Testing else Leaving)\<rparr>) s"

definition lock_test :: "nat \<Rightarrow> 'e system \<Rightarrow> 'e system" where
  "lock_test i s =
     (if is_canceled (client i s) then goto_phase Leaving i s
      else let (locked, s) = try_lock i s in goto_phase (if locked then Leaving else Sleeping) i s)"

definition lock_end :: "nat \<Rightarrow> 'e system \<Rightarrow> 'e system" where
  "lock_end i s =
     (let c = client i s in
      set_client i (c\<lparr>phase := InSection, token_set := token_set c \<and> context_cancelled c\<rparr>) s)"

text \<open>\<open>unlock\<close> up to the notification, and the cancellation of the context up to and from it.\<close>

definition unlock :: "nat \<Rightarrow> 'e system \<Rightarrow> 'e system" where
  "unlock i s =
     (let c = client i s in
      if is_locked c then set_client i (c\<lparr>is_locked := False, phase := Notifying\<rparr>)
        (s\<lparr>storage := set_owner (mutex_name c) None (storage s)\<rparr>)
      else set_client i (c\<lparr>phase := Outside\<rparr>) s)"

definition cancel_begin :: "nat \<Rightarrow> 'e system \<Rightarrow> 'e system" where
  "cancel_begin i s =
     (let c = client i s in
      if token_set c then set_client i (c\<lparr>is_canceled := True, cancelling := True\<rparr>) s
      else set_client i (c\<lparr>context_cancelled := True\<rparr>) s)"

definition cancel_end :: "nat \<Rightarrow> 'e system \<Rightarrow> 'e system" where
  "cancel_end i s =
     (let s = Notify (mutex_name (client i s)) s in
      set_client i ((client i s)\<lparr>token_set := False, context_cancelled := True, cancelling := False\<rparr>) s)"

datatype 'e event =
    Construct nat string bool | Destroy nat | LockBegin nat | LockStore nat | LockTest nat | LockEnd nat | TryLock nat
  | Unlock nat | UnlockNotify nat | Cancel nat | CancelNotify nat | Spurious nat | StoreError nat 'e

fun thread_of :: "'e event \<Rightarrow> nat" where
  "thread_of (Construct i name cancelled) = i"
| "thread_of (Destroy i) = i"
| "thread_of (LockBegin i) = i"
| "thread_of (LockStore i) = i"
| "thread_of (LockTest i) = i"
| "thread_of (LockEnd i) = i"
| "thread_of (TryLock i) = i"
| "thread_of (Unlock i) = i"
| "thread_of (UnlockNotify i) = i"
| "thread_of (Cancel i) = i"
| "thread_of (CancelNotify i) = i"
| "thread_of (Spurious i) = i"
| "thread_of (StoreError i e) = i"

text \<open>When an event can happen. The context's mutex is held during a cancellation, so \<open>ExecuteOrCancelled\<close>
  waits for its end.\<close>

fun enabled :: "'e event \<Rightarrow> client \<Rightarrow> bool" where
  "enabled (Construct i name cancelled) c \<longleftrightarrow> phase c = Gone"
| "enabled (Destroy i) c \<longleftrightarrow> phase c = Outside"
| "enabled (LockBegin i) c \<longleftrightarrow> phase c = Outside \<and> \<not> cancelling c"
| "enabled (LockStore i) c \<longleftrightarrow> phase c \<in> {Registered True, Registered False}"
| "enabled (LockTest i) c \<longleftrightarrow> phase c = Testing"
| "enabled (LockEnd i) c \<longleftrightarrow> phase c = Leaving \<and> \<not> cancelling c"
| "enabled (TryLock i) c \<longleftrightarrow> phase c = Outside"
| "enabled (Unlock i) c \<longleftrightarrow> phase c = InSection"
| "enabled (UnlockNotify i) c \<longleftrightarrow> phase c = Notifying"
| "enabled (Cancel i) c \<longleftrightarrow> phase c \<noteq> Gone \<and> \<not> context_cancelled c \<and> \<not> cancelling c"
| "enabled (CancelNotify i) c \<longleftrightarrow> cancelling c"
| "enabled (Spurious i) c \<longleftrightarrow> phase c = Sleeping"
| "enabled (StoreError i e) c \<longleftrightarrow> phase c \<in> {InSection, Outside}"

fun perform :: "'e event \<Rightarrow> 'e system \<Rightarrow> 'e system" where
  "perform (Construct i name cancelled) s = NamedMutex_new i name cancelled s"
| "perform (Destroy i) s = NamedMutex_destroy i s"
| "perform (LockBegin i) s = lock_begin i s"
| "perform (LockStore i) s = lock_store (phase (client i s) = Registered True) i s"
| "perform (LockTest i) s = lock_test i s"
| "perform (LockEnd i) s = lock_end i s"
| "perform (TryLock i) s = (let (locked, s) = try_lock i s in if locked then goto_phase InSection i s else s)"
| "perform (Unlock i) s = unlock i s"
| "perform (UnlockNotify i) s = goto_phase Outside i (Notify (mutex_name (client i s)) s)"
| "perform (Cancel i) s = cancel_begin i s"
| "perform (CancelNotify i) s = cancel_end i s"
| "perform (Spurious i) s = goto_phase Testing i s"
| "perform (StoreError i e) s = s\<lparr>storage := SetError (mutex_name (client i s)) e (storage s)\<rparr>"

definition mutex_step :: "'e event \<Rightarrow> 'e system \<Rightarrow> 'e system option" where
  "mutex_step e s = (if thread_of e < length (clients s) \<and> enabled e (client (thread_of e) s) then Some (perform e s) else None)"

fun mutex_run :: "'e event list \<Rightarrow> 'e system \<Rightarrow> 'e system option" where
  "mutex_run [] s = Some s"
| "mutex_run (e # es) s = mutex_step e s \<bind> mutex_run es"

section \<open>Storage lemmas\<close>

definition users :: "string \<Rightarrow> 'e NamedMutexStorage \<Rightarrow> nat option" where
  "users r m = map_option (\<lambda>x. unat (use_count x)) (m r)"

lemma storage_owner [simp]:
  "mutex_owner r (set_owner r' w m) = (if r = r' \<and> m r \<noteq> None then w else mutex_owner r m)"
  "mutex_owner r (AcquireLock r' m) = mutex_owner r m"
  "mutex_owner r (SetError r' e m) = mutex_owner r m"
  by (auto simp: mutex_owner_def set_owner_def AcquireLock_def SetError_def RefCounterMutex_new_def Let_def split: option.splits)

lemma ReleaseLock_owner: "mutex_owner r (ReleaseLock r' m) = (if r = r' \<and> users r m = Some 1 then None else mutex_owner r m)"
proof -
  have "use_count x - 1 = 0 \<longleftrightarrow> unat (use_count x) = 1" for x :: "'e RefCounterMutex"
    by (metis eq_iff_diff_eq_0 unat_1 word_unat_eq_iff)
  then show ?thesis by (auto simp: mutex_owner_def ReleaseLock_def users_def split: option.splits)
qed

lemma storage_users [simp]:
  "users r (set_owner r' w m) = users r m"
  "users r (SetError r' e m) = users r m"
  by (auto simp: users_def set_owner_def SetError_def split: option.splits)

lemma AcquireLock_users:
  assumes "users r' m = None \<or> the (users r' m) < 2 ^ 32 - 1"
  shows "users r (AcquireLock r' m) =
    (if r = r' then Some (case users r m of None \<Rightarrow> 1 | Some n \<Rightarrow> n + 1) else users r m)"
proof -
  have "unat (w + 1) = unat w + 1" if "unat w < 2 ^ 32 - 1" for w :: u32
    using that by (simp add: unat_word_ariths)
  with assms show ?thesis
    by (auto simp: users_def AcquireLock_def RefCounterMutex_new_def Let_def split: option.splits)
qed

lemma ReleaseLock_users:
  assumes "users r' m = Some (Suc n)"
  shows "users r (ReleaseLock r' m) = (if r = r' then if n = 0 then None else Some n else users r m)"
proof -
  from assms obtain x where x: "m r' = Some x" "unat (use_count x) = Suc n" by (auto simp: users_def)
  then have "use_count x \<noteq> 0" by auto
  then have "unat (use_count x - 1) = n" using x(2) by (simp add: unat_minus_one)
  moreover have "use_count x - 1 = 0 \<longleftrightarrow> n = 0" using calculation by (metis unat_eq_zero)
  ultimately show ?thesis using x by (auto simp: users_def ReleaseLock_def)
qed

section \<open>The invariant\<close>

definition users_of :: "string \<Rightarrow> 'e system \<Rightarrow> nat set" where
  "users_of r s = {i. i < length (clients s) \<and> phase (client i s) \<noteq> Gone \<and> mutex_name (client i s) = r}"

definition client_ok :: "client \<Rightarrow> bool" where
  "client_ok c \<longleftrightarrow> (token_set c \<longrightarrow> phase c \<in> {Registered True, Testing, Sleeping, Leaving})
     \<and> (cancelling c \<longrightarrow> token_set c) \<and> (context_cancelled c \<longrightarrow> \<not> token_set c)
     \<and> (is_canceled c \<longrightarrow> context_cancelled c \<or> cancelling c)
     \<and> (phase c = Registered False \<longrightarrow> context_cancelled c)
     \<and> (phase c \<in> {Leaving, InSection} \<longrightarrow> is_locked c \<or> is_canceled c)
     \<and> (phase c = Sleeping \<longrightarrow> is_canceled c \<longrightarrow> cancelling c)
     \<and> (is_locked c \<longrightarrow> phase c \<in> {Leaving, InSection})"

definition counts_ok :: "'e system \<Rightarrow> bool" where
  "counts_ok s \<longleftrightarrow> (\<forall>r. users r (storage s) = (if users_of r s = {} then None else Some (card (users_of r s))))"

definition owners_ok :: "'e system \<Rightarrow> bool" where
  "owners_ok s \<longleftrightarrow> (\<forall>r i. mutex_owner r (storage s) = Some i \<longleftrightarrow>
     i < length (clients s) \<and> mutex_name (client i s) = r \<and> is_locked (client i s))"

definition sleepers_ok :: "'e system \<Rightarrow> bool" where
  "sleepers_ok s \<longleftrightarrow> (\<forall>i < length (clients s). phase (client i s) = Sleeping \<longrightarrow>
     mutex_owner (mutex_name (client i s)) (storage s) \<noteq> None
     \<or> (\<exists>j < length (clients s). phase (client j s) = Notifying \<and> mutex_name (client j s) = mutex_name (client i s)))"

definition mutex_ok :: "'e system \<Rightarrow> bool" where
  "mutex_ok s \<longleftrightarrow> (\<forall>c \<in> set (clients s). client_ok c) \<and> counts_ok s \<and> owners_ok s \<and> sleepers_ok s"

lemma client_set [simp]:
  "clients (set_client i c s) = (clients s)[i := c]" "storage (set_client i c s) = storage s"
  by (simp_all add: set_client_def)

lemma client_Notify [simp]:
  "storage (Notify r s) = storage s" "length (clients (Notify r s)) = length (clients s)"
  "i < length (clients s) \<Longrightarrow> client i (Notify r s) =
    (if phase (client i s) = Sleeping \<and> mutex_name (client i s) = r then (client i s)\<lparr>phase := Testing\<rparr> else client i s)"
  by (simp_all add: Notify_def)

lemma mutex_ok_new: "mutex_ok (system_new n)"
  by (auto simp: mutex_ok_def system_new_def client_new_def client_ok_def counts_ok_def owners_ok_def sleepers_ok_def
      users_def users_of_def mutex_owner_def)

text \<open>Every event keeps the facts about single threads.\<close>

definition clients_ok :: "'e system \<Rightarrow> bool" where
  "clients_ok s \<longleftrightarrow> (\<forall>c \<in> set (clients s). client_ok c)"

lemma clients_ok_set: "clients_ok s \<Longrightarrow> client_ok c \<Longrightarrow> clients_ok (set_client i c s)"
  by (auto simp: clients_ok_def dest: set_update_subset_insert [THEN subsetD])

lemma clients_ok_storage [simp]: "clients_ok (s\<lparr>storage := m\<rparr>) = clients_ok s"
  by (simp add: clients_ok_def)

lemma client_ok_wake: "client_ok c \<Longrightarrow> phase c = Sleeping \<Longrightarrow> client_ok (c\<lparr>phase := Testing\<rparr>)"
  by (simp add: client_ok_def)

lemma clients_ok_Notify: "clients_ok s \<Longrightarrow> clients_ok (Notify r s)"
  by (auto simp: clients_ok_def Notify_def intro: client_ok_wake)

lemma clients_ok_nth: "clients_ok s \<Longrightarrow> i < length (clients s) \<Longrightarrow> client_ok (client i s)"
  by (simp add: clients_ok_def)

text \<open>What an event leaves of its thread and of the storage; two events also notify.\<close>

fun client_after :: "'e event \<Rightarrow> bool \<Rightarrow> client \<Rightarrow> client" where
  "client_after (Construct i name cancelled) free c =
     \<lparr>phase = Outside, mutex_name = name, is_locked = False, is_canceled = False, context_cancelled = cancelled,
        token_set = False, cancelling = False\<rparr>"
| "client_after (Destroy i) free c = c\<lparr>phase := Gone\<rparr>"
| "client_after (LockBegin i) free c =
     (if context_cancelled c then c\<lparr>phase := Registered False\<rparr> else c\<lparr>phase := Registered True, token_set := True\<rparr>)"
| "client_after (LockStore i) free c =
     c\<lparr>is_canceled := phase c \<noteq> Registered True, phase := (if phase c = Registered True then Testing else Leaving)\<rparr>"
| "client_after (LockTest i) free c =
     (if is_canceled c then c\<lparr>phase := Leaving\<rparr>
      else if free then c\<lparr>is_locked := True, phase := Leaving\<rparr> else c\<lparr>is_locked := False, phase := Sleeping\<rparr>)"
| "client_after (LockEnd i) free c = c\<lparr>phase := InSection, token_set := token_set c \<and> context_cancelled c\<rparr>"
| "client_after (TryLock i) free c = (if free then c\<lparr>is_locked := True, phase := InSection\<rparr> else c\<lparr>is_locked := False\<rparr>)"
| "client_after (Unlock i) free c =
     (if is_locked c then c\<lparr>is_locked := False, phase := Notifying\<rparr> else c\<lparr>phase := Outside\<rparr>)"
| "client_after (UnlockNotify i) free c = c\<lparr>phase := Outside\<rparr>"
| "client_after (Cancel i) free c =
     (if token_set c then c\<lparr>is_canceled := True, cancelling := True\<rparr> else c\<lparr>context_cancelled := True\<rparr>)"
| "client_after (CancelNotify i) free c =
     c\<lparr>phase := (if phase c = Sleeping then Testing else phase c), token_set := False, context_cancelled := True, cancelling := False\<rparr>"
| "client_after (Spurious i) free c = c\<lparr>phase := Testing\<rparr>"
| "client_after (StoreError i e) free c = c"

fun takes :: "'e event \<Rightarrow> bool \<Rightarrow> client \<Rightarrow> bool" where
  "takes (LockTest i) free c = (free \<and> \<not> is_canceled c)"
| "takes (TryLock i) free c = free"
| "takes _ free c = False"

fun storage_after :: "'e event \<Rightarrow> bool \<Rightarrow> client \<Rightarrow> 'e NamedMutexStorage \<Rightarrow> 'e NamedMutexStorage" where
  "storage_after (Construct i name cancelled) free c m = AcquireLock name m"
| "storage_after (Destroy i) free c m = ReleaseLock (mutex_name c) m"
| "storage_after (Unlock i) free c m = (if is_locked c then set_owner (mutex_name c) None m else m)"
| "storage_after (StoreError i e) free c m = SetError (mutex_name c) e m"
| "storage_after e free c m = (if takes e free c then set_owner (mutex_name c) (Some (thread_of e)) m else m)"

fun notifies :: "'e event \<Rightarrow> bool" where
  "notifies (UnlockNotify i) = True"
| "notifies (CancelNotify i) = True"
| "notifies _ = False"

lemma perform_shape:
  assumes "thread_of e < length (clients s)"
  shows "perform e s = (let i = thread_of e; c = client i s; free = (mutex_owner (mutex_name c) (storage s) = None) in
    set_client i (client_after e free c)
      ((if notifies e then Notify (mutex_name c) s else s)\<lparr>storage := storage_after e free c (storage s)\<rparr>))"
  using assms
  by (cases e) (auto simp: Let_def NamedMutex_new_def NamedMutex_destroy_def lock_begin_def lock_store_def lock_test_def
      lock_end_def try_lock_def unlock_def cancel_begin_def cancel_end_def goto_phase_def set_client_def Notify_def)

declare perform.simps [simp del]

lemma client_ok_after:
  assumes "client_ok c" and "enabled e c"
  shows "client_ok (client_after e free c)"
  using assms by (cases e) (simp_all add: client_ok_def, auto)

lemma clients_ok_perform:
  assumes "clients_ok s" and "thread_of e < length (clients s)" and "enabled e (client (thread_of e) s)"
  shows "clients_ok (perform e s)"
  using assms unfolding perform_shape [OF assms(2)] Let_def
  by (intro clients_ok_set client_ok_after clients_ok_nth) (auto intro: clients_ok_Notify)

text \<open>The threads after an event.\<close>

lemma clients_after:
  assumes "thread_of e < length (clients s)"
  shows "length (clients (perform e s)) = length (clients s)"
    and "client (thread_of e) (perform e s) =
      client_after e (mutex_owner (mutex_name (client (thread_of e) s)) (storage s) = None) (client (thread_of e) s)"
    and "j < length (clients s) \<Longrightarrow> j \<noteq> thread_of e \<Longrightarrow> client j (perform e s) =
      (if notifies e \<and> phase (client j s) = Sleeping \<and> mutex_name (client j s) = mutex_name (client (thread_of e) s)
       then (client j s)\<lparr>phase := Testing\<rparr> else client j s)"
    and "storage (perform e s) =
      storage_after e (mutex_owner (mutex_name (client (thread_of e) s)) (storage s) = None) (client (thread_of e) s) (storage s)"
  using assms by (simp_all add: perform_shape Let_def)

fun constructs :: "'e event \<Rightarrow> bool" where
  "constructs (Construct i name cancelled) = True"
| "constructs _ = False"

fun destroys :: "'e event \<Rightarrow> bool" where
  "destroys (Destroy i) = True"
| "destroys _ = False"

fun new_name :: "'e event \<Rightarrow> string" where
  "new_name (Construct i name cancelled) = name"
| "new_name _ = []"

lemma after_name: "mutex_name (client_after e free c) = (if constructs e then new_name e else mutex_name c)"
  by (cases e) simp_all

lemma gone_idle: "client_ok c \<Longrightarrow> phase c = Gone \<Longrightarrow> \<not> cancelling c"
  by (auto simp: client_ok_def)

lemma after_gone: "client_ok c \<Longrightarrow> enabled e c \<Longrightarrow> phase (client_after e free c) = Gone \<longleftrightarrow> destroys e"
  by (cases e) (auto dest: gone_idle)

lemma before_gone: "client_ok c \<Longrightarrow> enabled e c \<Longrightarrow> constructs e \<longleftrightarrow> phase c = Gone"
  by (cases e) (auto dest: gone_idle)

lemma storage_users_after:
  "\<not> constructs e \<Longrightarrow> \<not> destroys e \<Longrightarrow> users r (storage_after e free c m) = users r m"
  "constructs e \<Longrightarrow> storage_after e free c m = AcquireLock (new_name e) m"
  "destroys e \<Longrightarrow> storage_after e free c m = ReleaseLock (mutex_name c) m"
  by (cases e; simp)+

lemma users_of_after:
  assumes ok: "client_ok (client (thread_of e) s)" and i: "thread_of e < length (clients s)"
    and en: "enabled e (client (thread_of e) s)"
  shows "users_of r (perform e s) =
    (if constructs e then if r = new_name e then insert (thread_of e) (users_of r s) else users_of r s
     else if destroys e then users_of r s - {thread_of e} else users_of r s)"
proof -
  have j: "j \<in> users_of r (perform e s) \<longleftrightarrow> j \<in> users_of r s" if "j \<noteq> thread_of e" for j
  proof (cases "j < length (clients s)")
    case True
    from clients_after(1,3) [OF i] that True show ?thesis by (simp add: users_of_def)
  qed (use clients_after(1) [OF i] in \<open>simp add: users_of_def\<close>)
  have nd: "\<not> constructs e" if "destroys e" using that by (cases e) simp_all
  have "thread_of e \<in> users_of r (perform e s) \<longleftrightarrow>
      (if constructs e then new_name e = r else \<not> destroys e \<and> thread_of e \<in> users_of r s)"
    using clients_after(1,2) [OF i] i before_gone [OF ok en] after_gone [OF ok en]
    by (auto simp: users_of_def after_name dest: nd)
  moreover have "thread_of e \<notin> users_of r s" if "constructs e"
    using that before_gone [OF ok en] by (simp add: users_of_def)
  ultimately show ?thesis
    using j nd by (intro set_eqI) (case_tac "x = thread_of e"; auto)
qed

lemma finite_users_of [simp]: "finite (users_of r s)" and card_users_of: "card (users_of r s) \<le> length (clients s)"
proof -
  have "users_of r s \<subseteq> {..<length (clients s)}" by (auto simp: users_of_def)
  then show "finite (users_of r s)" "card (users_of r s) \<le> length (clients s)"
    using finite_subset card_mono [of "{..<length (clients s)}"] by auto
qed

lemma counts_perform:
  assumes ok: "counts_ok s" "clients_ok s" and i: "thread_of e < length (clients s)" and en: "enabled e (client (thread_of e) s)"
    and n: "length (clients s) < 2 ^ 32"
  shows "counts_ok (perform e s)"
proof -
  let ?k = "thread_of e"
  note c = clients_ok_nth [OF ok(2) i]
  note after = clients_after(4) [OF i] users_of_after [OF c i en]
  note u = ok(1) [unfolded counts_ok_def, rule_format]
  consider "constructs e" | "destroys e" "\<not> constructs e" | "\<not> constructs e" "\<not> destroys e" by blast
  then show ?thesis
  proof cases
    case 1
    then have notin: "?k \<notin> users_of (new_name e) s" using before_gone [OF c en] by (simp add: users_of_def)
    have "insert ?k (users_of (new_name e) s) \<subseteq> {..<length (clients s)}" using i by (auto simp: users_of_def)
    from card_mono [OF _ this] notin n have "card (users_of (new_name e) s) < 2 ^ 32 - 1" by simp
    then have "users (new_name e) (storage s) = None \<or> the (users (new_name e) (storage s)) < 2 ^ 32 - 1" by (simp add: u)
    from AcquireLock_users [OF this] notin 1 show ?thesis
      by (simp add: counts_ok_def after storage_users_after u)
  next
    case 2
    let ?r = "mutex_name (client ?k s)"
    have k: "?k \<in> users_of ?r s" using i 2 before_gone [OF c en] by (simp add: users_of_def)
    then obtain m where m: "card (users_of ?r s) = Suc m" by (metis card_Suc_Diff1 finite_users_of)
    have "users ?r (storage s) = Some (Suc m)" using k m by (auto simp: u)
    note released = ReleaseLock_users [OF this]
    have "users r (ReleaseLock ?r (storage s))
        = (if users_of r s - {?k} = {} then None else Some (card (users_of r s - {?k})))" for r
    proof (cases "r = ?r")
      case True
      have c: "card (users_of r s - {?k}) = m" using True m k by simp
      then have "users_of r s - {?k} = {} \<longleftrightarrow> m = 0" by (metis card_eq_0_iff finite_Diff finite_users_of)
      with c True show ?thesis by (simp add: released)
    next
      case False
      then have "users_of r s - {?k} = users_of r s" by (auto simp: users_of_def)
      with False show ?thesis by (simp add: released u)
    qed
    with 2 show ?thesis by (simp add: counts_ok_def after storage_users_after)
  next
    case 3
    then show ?thesis by (simp add: counts_ok_def after storage_users_after u)
  qed
qed

text \<open>Who holds a mutex after an event.\<close>

fun releases :: "'e event \<Rightarrow> bool" where
  "releases (Unlock i) = True"
| "releases _ = False"

lemma after_locked:
  "client_ok c \<Longrightarrow> enabled e c \<Longrightarrow> is_locked (client_after e free c) \<longleftrightarrow> takes e free c \<or> (is_locked c \<and> \<not> releases e)"
  by (cases e) (auto simp: client_ok_def)

lemma takes_neither: "takes e free c \<Longrightarrow> free \<and> \<not> releases e \<and> \<not> constructs e \<and> \<not> destroys e"
  by (cases e) auto

lemma storage_owner_after:
  assumes "m (mutex_name c) \<noteq> None \<or> constructs e" and "destroys e \<Longrightarrow> users (mutex_name c) m = Some 1 \<Longrightarrow> mutex_owner (mutex_name c) m = None"
  shows "mutex_owner r (storage_after e free c m) =
    (if takes e free c \<and> r = mutex_name c then Some (thread_of e)
     else if releases e \<and> is_locked c \<and> r = mutex_name c then None else mutex_owner r m)"
  using assms by (cases e) (auto simp: ReleaseLock_owner)

lemma owners_perform:
  assumes ok: "counts_ok s" "clients_ok s" "owners_ok s" and i: "thread_of e < length (clients s)"
    and en: "enabled e (client (thread_of e) s)"
  shows "owners_ok (perform e s)"
    and "mutex_owner r (storage (perform e s)) =
      (if takes e (mutex_owner (mutex_name (client (thread_of e) s)) (storage s) = None) (client (thread_of e) s)
          \<and> r = mutex_name (client (thread_of e) s) then Some (thread_of e)
       else if releases e \<and> is_locked (client (thread_of e) s) \<and> r = mutex_name (client (thread_of e) s) then None
       else mutex_owner r (storage s))"
proof -
  let ?k = "thread_of e"
  let ?c = "client ?k s"
  let ?r = "mutex_name ?c"
  let ?free = "mutex_owner ?r (storage s) = None"
  note c = clients_ok_nth [OF ok(2) i]
  note u = ok(1) [unfolded counts_ok_def, rule_format]
  note w = ok(3) [unfolded owners_ok_def, rule_format]
  have known: "storage s ?r \<noteq> None \<or> constructs e"
  proof (cases "constructs e")
    case False
    then have "?k \<in> users_of ?r s" using i before_gone [OF c en] by (simp add: users_of_def)
    then have "users ?r (storage s) \<noteq> None" by (auto simp: u)
    then show ?thesis by (simp add: users_def)
  qed simp
  have alone: "?free" if "destroys e" "users ?r (storage s) = Some 1"
  proof (rule ccontr)
    assume "\<not> ?free"
    then obtain j where j: "mutex_owner ?r (storage s) = Some j" by blast
    have "phase ?c = Outside" using that(1) en by (cases e) simp_all
    moreover have "j < length (clients s)" "is_locked (client j s)" "mutex_name (client j s) = ?r" using j w by auto
    moreover have "phase (client j s) \<noteq> Gone \<and> phase (client j s) \<noteq> Outside"
      using calculation(2,3) clients_ok_nth [OF ok(2), of j] by (auto simp: client_ok_def)
    ultimately have "{j, ?k} \<subseteq> users_of ?r s" "j \<noteq> ?k" using i by (auto simp: users_of_def)
    with card_mono [OF finite_users_of this(1)] have "2 \<le> card (users_of ?r s)" by simp
    with that(2) show False by (auto simp: u split: if_splits)
  qed
  show own: "mutex_owner r (storage (perform e s)) =
      (if takes e ?free ?c \<and> r = ?r then Some ?k else if releases e \<and> is_locked ?c \<and> r = ?r then None
       else mutex_owner r (storage s))" for r
    unfolding clients_after(4) [OF i] by (rule storage_owner_after [OF known alone])
  have new: "\<not> is_locked ?c" if "constructs e" using that before_gone [OF c en] c by (auto simp: client_ok_def)
  show "owners_ok (perform e s)"
    unfolding owners_ok_def
  proof (intro allI)
    fix r j
    show "mutex_owner r (storage (perform e s)) = Some j \<longleftrightarrow>
      j < length (clients (perform e s)) \<and> mutex_name (client j (perform e s)) = r \<and> is_locked (client j (perform e s))"
    proof (cases "j = ?k")
      case True
      have "mutex_owner r (storage s) = Some ?k \<longleftrightarrow> ?r = r \<and> is_locked ?c" using w i by simp
      with True i show ?thesis using takes_neither [of e ?free ?c] new
        by (auto simp: own clients_after(1,2) [OF i] after_name after_locked [OF c en])
    next
      case False
      have "mutex_name (client j (perform e s)) = mutex_name (client j s) \<and> is_locked (client j (perform e s)) = is_locked (client j s)"
        if "j < length (clients s)" using that False clients_after(3) [OF i] by simp
      moreover have "mutex_owner ?r (storage s) = Some ?k" if "is_locked ?c" using that w i by simp
      ultimately show ?thesis using False w [of r j] takes_neither [of e ?free ?c]
        by (auto simp: own clients_after(1) [OF i])
    qed
  qed
qed

lemma sleep_after:
  "enabled e c \<Longrightarrow> phase (client_after e free c) = Sleeping \<Longrightarrow>
    \<not> takes e free c \<and> \<not> releases e \<and> \<not> constructs e \<and> (\<not> free \<or> phase c = Sleeping \<and> \<not> notifies e)"
  by (cases e) (auto split: if_splits)

lemma notifying_after:
  "enabled e c \<Longrightarrow> phase c = Notifying \<Longrightarrow> (phase (client_after e free c) = Notifying \<or> notifies e) \<and> \<not> constructs e"
  by (cases e) auto

lemma release_after: "releases e \<Longrightarrow> is_locked c \<Longrightarrow> phase (client_after e free c) = Notifying \<and> \<not> constructs e"
  by (cases e) simp_all

lemma sleepers_perform:
  assumes ok: "counts_ok s" "clients_ok s" "owners_ok s" "sleepers_ok s" and i: "thread_of e < length (clients s)"
    and en: "enabled e (client (thread_of e) s)"
  shows "sleepers_ok (perform e s)"
  unfolding sleepers_ok_def
proof (intro allI impI)
  let ?k = "thread_of e"
  let ?c = "client ?k s"
  let ?free = "mutex_owner (mutex_name ?c) (storage s) = None"
  fix j assume j: "j < length (clients (perform e s))" "phase (client j (perform e s)) = Sleeping"
  note own = owners_perform(2) [OF ok(1-3) i en]
  note len = clients_after(1) [OF i]
  let ?goal = "mutex_owner (mutex_name (client j (perform e s))) (storage (perform e s)) \<noteq> None
    \<or> (\<exists>m < length (clients (perform e s)). phase (client m (perform e s)) = Notifying
        \<and> mutex_name (client m (perform e s)) = mutex_name (client j (perform e s)))"
  show ?goal
  proof (cases "j = ?k \<and> \<not> ?free")
    case True
    then show ?thesis using sleep_after [OF en, of ?free] j(2) by (auto simp: own clients_after(2) [OF i] after_name)
  next
    case False
    have "phase (client j s) = Sleeping \<and> mutex_name (client j (perform e s)) = mutex_name (client j s)
      \<and> \<not> (notifies e \<and> mutex_name (client j s) = mutex_name ?c)"
    proof (cases "j = ?k")
      case True
      with False j(2) have "?free" "phase (client_after e True ?c) = Sleeping" by (simp_all add: clients_after(2) [OF i])
      with sleep_after [OF en, of True] True show ?thesis by (simp add: clients_after(2) [OF i] after_name)
    next
      case False
      with clients_after(3) [OF i, of j] j show ?thesis by (simp add: len split: if_splits)
    qed
    then have was: "phase (client j s) = Sleeping" "mutex_name (client j (perform e s)) = mutex_name (client j s)"
      "\<not> (notifies e \<and> mutex_name (client j s) = mutex_name ?c)" by blast+
    have old: "mutex_owner (mutex_name (client j s)) (storage s) \<noteq> None
        \<or> (\<exists>m < length (clients s). phase (client m s) = Notifying \<and> mutex_name (client m s) = mutex_name (client j s))"
      using ok(4) was(1) j(1) by (simp add: sleepers_ok_def len)
    show ?thesis
    proof (cases "releases e \<and> is_locked ?c \<and> mutex_name (client j s) = mutex_name ?c")
      case True
      with release_after [of e ?c ?free] clients_after(2) [OF i] i have
        "phase (client ?k (perform e s)) = Notifying" "mutex_name (client ?k (perform e s)) = mutex_name ?c"
        by (simp_all add: after_name)
      with i True was(2) show ?thesis by (auto simp: len)
    next
      case no: False
      from old show ?thesis
      proof
        assume "mutex_owner (mutex_name (client j s)) (storage s) \<noteq> None"
        with no show ?thesis by (auto simp: own was(2))
      next
        assume "\<exists>m < length (clients s). phase (client m s) = Notifying \<and> mutex_name (client m s) = mutex_name (client j s)"
        then obtain m where m: "m < length (clients s)" "phase (client m s) = Notifying" "mutex_name (client m s) = mutex_name (client j s)" by blast
        have "phase (client m (perform e s)) = Notifying \<and> mutex_name (client m (perform e s)) = mutex_name (client m s)"
        proof (cases "m = ?k")
          case True
          with notifying_after [OF en, of ?free] m was(3) show ?thesis by (auto simp: clients_after(2) [OF i] after_name)
        next
          case False
          with clients_after(3) [OF i m(1) False] m(2) show ?thesis by simp
        qed
        with m was(2) show ?thesis by (auto simp: len)
      qed
    qed
  qed
qed

lemma mutex_ok_step:
  assumes "mutex_ok s" and "length (clients s) < 2 ^ 32" and "mutex_step e s = Some s'"
  shows "mutex_ok s' \<and> length (clients s') = length (clients s)"
proof -
  from assms(3) have e: "thread_of e < length (clients s)" "enabled e (client (thread_of e) s)" "s' = perform e s"
    by (simp_all add: mutex_step_def split: if_splits)
  from assms(1) have ok: "clients_ok s" "counts_ok s" "owners_ok s" "sleepers_ok s" by (simp_all add: mutex_ok_def clients_ok_def)
  from clients_ok_perform [OF ok(1) e(1,2)] counts_perform [OF ok(2,1) e(1,2) assms(2)] owners_perform(1) [OF ok(2,1,3) e(1,2)]
    sleepers_perform [OF ok(2,1,3,4) e(1,2)] clients_after(1) [OF e(1)] e(3)
  show ?thesis by (simp add: mutex_ok_def clients_ok_def)
qed

lemma mutex_ok_run:
  "mutex_ok s \<Longrightarrow> length (clients s) < 2 ^ 32 \<Longrightarrow> mutex_run es s = Some s' \<Longrightarrow> mutex_ok s' \<and> length (clients s') = length (clients s)"
proof (induction es arbitrary: s)
  case (Cons e es)
  then show ?case using mutex_ok_step [OF Cons.prems(1,2)] by (force simp: bind_eq_Some_conv)
qed simp

section \<open>Properties\<close>

lemma reachable_ok:
  "mutex_run es (system_new n) = Some s \<Longrightarrow> n < 2 ^ 32 \<Longrightarrow> mutex_ok s \<and> length (clients s) = n"
  using mutex_ok_run [OF mutex_ok_new, of n es s] by (simp add: system_new_def)

lemma in_section:
  assumes "mutex_ok s" and "i < length (clients s)" and "phase (client i s) = InSection" and "\<not> context_cancelled (client i s)"
  shows "mutex_owner (mutex_name (client i s)) (storage s) = Some i"
proof -
  have "client_ok (client i s)" using assms(1,2) by (simp add: mutex_ok_def)
  then have "is_locked (client i s)" using assms(3,4) by (auto simp: client_ok_def)
  with assms(1,2) show ?thesis by (simp add: mutex_ok_def owners_ok_def)
qed

text \<open>C5. Mutual exclusion: two threads that are past \<open>lock\<close> on mutexes of the same name are one thread,
  unless one of their requests was cancelled; and the storage keeps the entry, counting exactly the
  objects of that name, as long as there is one.\<close>

theorem named_mutex_exclusion:
  assumes "mutex_run es (system_new n) = Some s" and "n < 2 ^ 32" and "i < n" and "j < n"
    and "phase (client i s) = InSection" and "phase (client j s) = InSection"
    and "mutex_name (client i s) = mutex_name (client j s)"
    and "\<not> context_cancelled (client i s)" and "\<not> context_cancelled (client j s)"
  shows "i = j \<and> (\<exists>x. storage s (mutex_name (client i s)) = Some x \<and> unat (use_count x) = card (users_of (mutex_name (client i s)) s))"
proof -
  have ok: "mutex_ok s" "length (clients s) = n" using reachable_ok [OF assms(1,2)] by simp_all
  have "mutex_owner (mutex_name (client i s)) (storage s) = Some i" "mutex_owner (mutex_name (client j s)) (storage s) = Some j"
    by (intro in_section [OF ok(1)]; use assms(3-9) ok(2) in simp)+
  then have "Some i = Some j" by (simp only: assms(7))
  then have "i = j" by simp
  moreover have "i \<in> users_of (mutex_name (client i s)) s" using assms(3,5) ok(2) by (simp add: users_of_def)
  then have "users (mutex_name (client i s)) (storage s) = Some (card (users_of (mutex_name (client i s)) s))"
    using ok(1) by (auto simp: mutex_ok_def counts_ok_def)
  ultimately show ?thesis by (auto simp: users_def)
qed

text \<open>C6. No notification is lost: while a thread sleeps in \<open>lock\<close>, a thread with the same name can go
  on to release the mutex or to notify; and when the sleeper itself has been marked as cancelled,
  the notification of its cancellation is still to come.\<close>

theorem named_mutex_progress:
  assumes "mutex_run es (system_new n) = Some s" and "n < 2 ^ 32" and "i < n" and "phase (client i s) = Sleeping"
  shows "(\<exists>j < n. mutex_name (client j s) = mutex_name (client i s)
      \<and> (\<exists>e \<in> {LockEnd j, CancelNotify j, Unlock j, UnlockNotify j}. mutex_step e s \<noteq> None))
    \<and> (is_canceled (client i s) \<longrightarrow> mutex_step (CancelNotify i) s \<noteq> None)"
proof -
  have ok: "mutex_ok s" "length (clients s) = n" using reachable_ok [OF assms(1,2)] by simp_all
  have c: "client_ok (client k s)" if "k < n" for k using ok that by (simp add: mutex_ok_def)
  have "mutex_owner (mutex_name (client i s)) (storage s) \<noteq> None
      \<or> (\<exists>j < n. phase (client j s) = Notifying \<and> mutex_name (client j s) = mutex_name (client i s))"
    using ok assms(3,4) by (simp add: mutex_ok_def sleepers_ok_def)
  then obtain j where j: "j < n" "mutex_name (client j s) = mutex_name (client i s)"
    "is_locked (client j s) \<or> phase (client j s) = Notifying"
    using ok by (auto simp: mutex_ok_def owners_ok_def)
  then have "phase (client j s) \<in> {Leaving, InSection, Notifying}" using c [of j] by (auto simp: client_ok_def)
  then have "\<exists>e \<in> {LockEnd j, CancelNotify j, Unlock j, UnlockNotify j}. mutex_step e s \<noteq> None"
    using j(1) ok(2) by (auto simp: mutex_step_def)
  moreover have "is_canceled (client i s) \<Longrightarrow> mutex_step (CancelNotify i) s \<noteq> None"
    using c [OF assms(3)] assms(3,4) ok(2) by (auto simp: mutex_step_def client_ok_def)
  ultimately show ?thesis using j(1,2) by blast
qed

definition demo_lock :: "nat \<Rightarrow> string event list" where
  "demo_lock i = [Construct i ''key'' False, LockBegin i, LockStore i, LockTest i]"

text \<open>A cancellation between the registration of the token and the reset of \<open>is_canceled_\<close> is
  overwritten: the thread of the cancelled request sleeps until the mutex is free.\<close>

lemma cancellation_overwritten:
  "map_option (\<lambda>s. (phase (client 1 s), context_cancelled (client 1 s), is_canceled (client 1 s), cancelling (client 1 s)))
     (mutex_run (demo_lock 0 @ [Construct 1 ''key'' False, LockBegin 1, Cancel 1, CancelNotify 1, LockStore 1, LockTest 1])
       (system_new 2))
   = Some (Sleeping, True, False, False)"
  by code_simp

definition demo_locked :: "string system" where
  "demo_locked = the (mutex_run (demo_lock 0 @ [LockEnd 0] @ demo_lock 1) (system_new 2))"

lemma demo_locked:
  "mutex_run (demo_lock 0 @ [LockEnd 0] @ demo_lock 1) (system_new 2) = Some demo_locked"
  "phase (client 0 demo_locked) = InSection" "phase (client 1 demo_locked) = Sleeping"
  "\<not> context_cancelled (client 0 demo_locked)"
proof -
  have "\<not> Option.is_none (mutex_run (demo_lock 0 @ [LockEnd 0] @ demo_lock 1) (system_new 2) :: string system option)" by code_simp
  then show "mutex_run (demo_lock 0 @ [LockEnd 0] @ demo_lock 1) (system_new 2) = Some demo_locked"
    by (simp add: demo_locked_def Option.is_none_def)
  show "phase (client 0 demo_locked) = InSection" "phase (client 1 demo_locked) = Sleeping"
    "\<not> context_cancelled (client 0 demo_locked)"
    unfolding demo_locked_def by code_simp+
qed

theorem named_mutex_exclusion_witness:
  "\<exists>x. storage demo_locked (mutex_name (client 0 demo_locked)) = Some x
    \<and> unat (use_count x) = card (users_of (mutex_name (client 0 demo_locked)) demo_locked)"
  using named_mutex_exclusion [OF demo_locked(1) _ _ _ demo_locked(2) demo_locked(2) refl demo_locked(4) demo_locked(4)] by simp

theorem named_mutex_progress_witness:
  "\<exists>j e. mutex_name (client j demo_locked) = mutex_name (client 1 demo_locked) \<and> mutex_step e demo_locked \<noteq> None"
  using named_mutex_progress [OF demo_locked(1) _ _ demo_locked(3)] by auto

text \<open>The error that a thread stores is there for all threads of the same name until the last of them is
  gone.\<close>

lemma error_kept:
  assumes "mutex_ok s" and "length (clients s) < 2 ^ 32" and "mutex_step e s = Some s'" and "GetError r (storage s) = Some x"
    and "users_of r s' \<noteq> {}" and "\<And>i y. e \<noteq> StoreError i y"
  shows "GetError r (storage s') = Some x"
proof -
  from assms(3) have e: "thread_of e < length (clients s)" "s' = perform e s" by (simp_all add: mutex_step_def split: if_splits)
  have "mutex_ok s'" using mutex_ok_step [OF assms(1-3)] by simp
  then have "users r (storage s') \<noteq> None" using assms(5) by (simp add: mutex_ok_def counts_ok_def)
  then have "storage s' r \<noteq> None" by (auto simp: users_def)
  with assms(4,6) show ?thesis unfolding e(2) clients_after(4) [OF e(1)]
    by (cases e) (auto simp: GetError_def AcquireLock_def ReleaseLock_def set_owner_def Let_def split: option.splits if_splits)
qed

lemma error_stored: "storage s r \<noteq> None \<Longrightarrow> GetError r (SetError r x (storage s)) = Some x"
  by (auto simp: GetError_def SetError_def)

end
