(* ===== verification/Rfc1123.thy ===== *)
theory Rfc1123
  imports Prelude
begin

text \<open>
  The parser of HTTP dates that corrects the clock of token requests
  (olp-cpp-sdk-authentication/src/Rfc1123Helper.cpp).

  The calendar of Boost.Date_Time is a parameter (\<open>calendar\<close>): the last day of a month and the seconds
  between the epoch and a date and time. Its documented behaviour is that of the Gregorian calendar,
  which is defined here and is a hypothesis of the theorems.
\<close>

section \<open>The calendar\<close>

record calendar =
  end_of_month_day :: "nat \<Rightarrow> nat \<Rightarrow> nat"
  seconds_since_epoch :: "nat \<Rightarrow> nat \<Rightarrow> nat \<Rightarrow> nat \<Rightarrow> nat \<Rightarrow> nat \<Rightarrow> int"

definition leap_year :: "nat \<Rightarrow> bool" where
  "leap_year y \<longleftrightarrow> 4 dvd y \<and> (\<not> 100 dvd y \<or> 400 dvd y)"

definition month_days :: "nat \<Rightarrow> nat \<Rightarrow> nat" where
  "month_days y m =
     (if m = 2 then if leap_year y then 29 else 28 else if m \<in> {4, 6, 9, 11} then 30 else 31)"

definition year_days :: "nat \<Rightarrow> nat" where
  "year_days y = (if leap_year y then 366 else 365)"

text \<open>Days from the first of January 1970, and seconds from the epoch.\<close>

definition day_number :: "nat \<Rightarrow> nat \<Rightarrow> nat \<Rightarrow> int" where
  "day_number y m d =
     (if 1970 \<le> y then int (sum_list (map year_days [1970..<y])) else - int (sum_list (map year_days [y..<1970])))
       + int (sum_list (map (month_days y) [1..<m])) + int d - 1"

definition gregorian_seconds :: "nat \<Rightarrow> nat \<Rightarrow> nat \<Rightarrow> nat \<Rightarrow> nat \<Rightarrow> nat \<Rightarrow> int" where
  "gregorian_seconds y m d hour minute second = day_number y m d * 86400 + int (hour * 3600 + minute * 60 + second)"

definition gregorian :: "calendar \<Rightarrow> bool" where
  "gregorian B \<longleftrightarrow> (\<forall>y m. 1400 \<le> y \<and> y \<le> 9999 \<and> 1 \<le> m \<and> m \<le> 12 \<longrightarrow> end_of_month_day B y m = month_days y m)
     \<and> (\<forall>y m d hh mm ss. 1400 \<le> y \<and> y \<le> 9999 \<and> 1 \<le> m \<and> m \<le> 12 \<and> 1 \<le> d \<and> d \<le> month_days y m
          \<longrightarrow> seconds_since_epoch B y m d hh mm ss = gregorian_seconds y m d hh mm ss)"

section \<open>Streams of tokens\<close>

text \<open>\<open>std::isspace\<close> (\<open>is_space\<close>) in the C locale, and \<open>stream >> token\<close>: the blanks are skipped and the characters up to
  the next blank are taken; the stream fails when there are none.\<close>

definition next_token :: "string \<Rightarrow> (string \<times> string) option" where
  "next_token stream =
     (let rest = dropWhile is_space stream in
      if rest = [] then None else Some (takeWhile (\<lambda>c. \<not> is_space c) rest, dropWhile (\<lambda>c. \<not> is_space c) rest))"

section \<open>The parser\<close>

definition trim_char :: "char \<Rightarrow> bool" where
  "trim_char c \<longleftrightarrow> c \<in> {CHR '' '', CHR 0x09, CHR 0x0D, CHR 0x0A}"

definition TrimDateHeaderValue :: "string \<Rightarrow> string" where
  "TrimDateHeaderValue value = rev (dropWhile trim_char (rev (dropWhile trim_char value)))"

definition int_max :: int where
  "int_max = 2 ^ 31 - 1"

fun parse_digits :: "string \<Rightarrow> int \<Rightarrow> int option" where
  "parse_digits [] value = Some value"
| "parse_digits (c # token) value =
     (let ch = (of_char c :: int) in
      if \<not> (48 \<le> ch \<and> ch \<le> 57) then None
      else let digit = ch - 48 in
        if (int_max - digit) div 10 < value then None
        else parse_digits token (value * 10 + digit))"

definition ParseUnsignedInteger :: "string \<Rightarrow> int option" where
  "ParseUnsignedInteger token = (if token = [] then None else parse_digits token 0)"

definition ParseMonthToken :: "string \<Rightarrow> nat option" where
  "ParseMonthToken token =
     (if token = ''Jan'' then Some 1 else if token = ''Feb'' then Some 2 else if token = ''Mar'' then Some 3
      else if token = ''Apr'' then Some 4 else if token = ''May'' then Some 5 else if token = ''Jun'' then Some 6
      else if token = ''Jul'' then Some 7 else if token = ''Aug'' then Some 8 else if token = ''Sep'' then Some 9
      else if token = ''Oct'' then Some 10 else if token = ''Nov'' then Some 11 else if token = ''Dec'' then Some 12
      else None)"

definition ParseClockToken :: "string \<Rightarrow> (nat \<times> nat \<times> nat) option" where
  "ParseClockToken token =
     (if length token \<noteq> 8 \<or> token ! 2 \<noteq> CHR '':'' \<or> token ! 5 \<noteq> CHR '':'' then None
      else do {
        parsed_hour \<leftarrow> ParseUnsignedInteger (take 2 token);
        parsed_minute \<leftarrow> ParseUnsignedInteger (take 2 (drop 3 token));
        parsed_second \<leftarrow> ParseUnsignedInteger (take 2 (drop 6 token));
        if 23 < parsed_hour \<or> 59 < parsed_minute \<or> 60 < parsed_second then None
        else Some (nat parsed_hour, nat parsed_minute, nat parsed_second) })"

text \<open>The parsers of one token: the value and the rest of the stream.\<close>

definition ParseWeekDay :: "string \<Rightarrow> string option" where
  "ParseWeekDay stream = do {
     (token, rest) \<leftarrow> next_token stream;
     if length token = 4 \<and> token ! 3 = CHR '','' then Some rest else None }"

definition ParseDay :: "string \<Rightarrow> (nat \<times> string) option" where
  "ParseDay stream = do {
     (token, rest) \<leftarrow> next_token stream;
     day \<leftarrow> ParseUnsignedInteger token;
     if day = 0 \<or> 31 < day then None else Some (nat day, rest) }"

definition ParseMonth :: "string \<Rightarrow> (nat \<times> string) option" where
  "ParseMonth stream = do {
     (token, rest) \<leftarrow> next_token stream;
     month \<leftarrow> ParseMonthToken token;
     Some (month, rest) }"

definition ParseYear :: "string \<Rightarrow> (nat \<times> string) option" where
  "ParseYear stream = do {
     (token, rest) \<leftarrow> next_token stream;
     year \<leftarrow> ParseUnsignedInteger token;
     if year < 1400 \<or> 9999 < year then None else Some (nat year, rest) }"

definition ParseTimeOfDay :: "string \<Rightarrow> ((nat \<times> nat \<times> nat) \<times> string) option" where
  "ParseTimeOfDay stream = do {
     (token, rest) \<leftarrow> next_token stream;
     clock \<leftarrow> ParseClockToken token;
     Some (clock, rest) }"

definition ParseTimeZone :: "string \<Rightarrow> string option" where
  "ParseTimeZone stream = do {
     (token, rest) \<leftarrow> next_token stream;
     if token = ''GMT'' then Some rest else None }"

definition HasNoTrailingTokens :: "string \<Rightarrow> bool" where
  "HasNoTrailingTokens stream \<longleftrightarrow> next_token stream = None"

text \<open>The fields in order.\<close>

definition parse_fields :: "string \<Rightarrow> ((nat \<times> nat \<times> nat \<times> nat \<times> nat \<times> nat) \<times> string) option" where
  "parse_fields stream = do {
     stream \<leftarrow> ParseWeekDay stream;
     (day, stream) \<leftarrow> ParseDay stream;
     (month, stream) \<leftarrow> ParseMonth stream;
     (year, stream) \<leftarrow> ParseYear stream;
     ((hour, minute, second), stream) \<leftarrow> ParseTimeOfDay stream;
     stream \<leftarrow> ParseTimeZone stream;
     Some ((year, month, day, hour, minute, second), stream) }"

definition ParseRfc1123GmtNoExceptions :: "calendar \<Rightarrow> string \<Rightarrow> time_t" where
  "ParseRfc1123GmtNoExceptions B value =
     (let trimmed_value = TrimDateHeaderValue value in
      if trimmed_value = [] then - 1
      else case parse_fields trimmed_value of
        None \<Rightarrow> - 1
      | Some ((year, month, day, hour, minute, second), stream) \<Rightarrow>
          if \<not> HasNoTrailingTokens stream then - 1
          else if end_of_month_day B year month < day then - 1
          else let seconds = seconds_since_epoch B year month day hour minute second in
            if seconds < 0 then - 1
            else if time_max < seconds then - 1
            else seconds)"

section \<open>Printing\<close>

definition two_digits :: "nat \<Rightarrow> string" where
  "two_digits n = [digit (n div 10), digit (n mod 10)]"

definition month_name :: "nat \<Rightarrow> string" where
  "month_name m = [''Jan'', ''Feb'', ''Mar'', ''Apr'', ''May'', ''Jun'', ''Jul'', ''Aug'', ''Sep'', ''Oct'', ''Nov'', ''Dec''] ! (m - 1)"

text \<open>The format of the date header: \<open>Sun, 06 Nov 1994 08:49:37 GMT\<close>.\<close>

definition rfc1123 :: "string \<Rightarrow> nat \<Rightarrow> nat \<Rightarrow> nat \<Rightarrow> nat \<Rightarrow> nat \<Rightarrow> nat \<Rightarrow> string" where
  "rfc1123 weekday y m d hh mm ss =
     weekday @ '', '' @ two_digits d @ '' '' @ month_name m @ '' '' @ to_string y @ '' ''
       @ two_digits hh @ '':'' @ two_digits mm @ '':'' @ two_digits ss @ '' GMT''"

definition valid_date :: "nat \<Rightarrow> nat \<Rightarrow> nat \<Rightarrow> bool" where
  "valid_date y m d \<longleftrightarrow> 1970 \<le> y \<and> y \<le> 9999 \<and> 1 \<le> m \<and> m \<le> 12 \<and> 1 \<le> d \<and> d \<le> month_days y m"

definition valid_time :: "nat \<Rightarrow> nat \<Rightarrow> nat \<Rightarrow> bool" where
  "valid_time hh mm ss \<longleftrightarrow> hh \<le> 23 \<and> mm \<le> 59 \<and> ss \<le> 60"

lemma parse_digits_append: "parse_digits (s @ t) v = parse_digits s v \<bind> parse_digits t"
  by (induction s v rule: parse_digits.induct) (auto simp: Let_def)

lemma of_char_digit_int [simp]: "n < 10 \<Longrightarrow> of_char (digit n) = (int n + 48)"
  using of_nat_of_char [of "digit n", where ?'a = int] by simp

lemma parse_one_digit [simp]:
  "n < 10 \<Longrightarrow> parse_digits (digit n # s) v = (if (int_max - int n) div 10 < v then None else parse_digits s (v * 10 + int n))"
  by (simp add: Let_def)

lemma parse_digits_to_string: "n < 2 ^ 30 \<Longrightarrow> parse_digits (to_string n) 0 = Some (int n)"
proof (induction n rule: to_string.induct)
  case (1 n)
  show ?case
  proof (cases "n < 10")
    case True
    then show ?thesis by (simp add: to_string.simps [of n] int_max_def del: parse_digits.simps(2))
  next
    case False
    then have "parse_digits (to_string (n div 10)) 0 = Some (int (n div 10))" using 1 by simp
    moreover have "int (n div 10) \<le> (int_max - int (n mod 10)) div 10"
      using \<open>n < 2 ^ 30\<close> by (simp add: int_max_def zdiv_int)
    ultimately show ?thesis using False
      by (simp add: to_string.simps [of n] parse_digits_append not_less del: parse_digits.simps(2)) presburger
  qed
qed

lemma ParseUnsignedInteger_to_string: "n < 2 ^ 30 \<Longrightarrow> ParseUnsignedInteger (to_string n) = Some (int n)"
  by (simp add: ParseUnsignedInteger_def parse_digits_to_string)

lemma ParseUnsignedInteger_two:
  assumes "n < 100"
  shows "ParseUnsignedInteger (two_digits n) = Some (int n)"
proof -
  have "n div 10 < 10" using assms by simp
  moreover have "int (n div 10) \<le> (int_max - int (n mod 10)) div 10" "0 \<le> (int_max - int (n div 10)) div 10"
    using assms by (simp_all add: int_max_def)
  moreover have "int (n div 10) * 10 + int (n mod 10) = int n" by presburger
  ultimately show ?thesis
    by (simp add: ParseUnsignedInteger_def two_digits_def not_less del: parse_digits.simps(2))
qed

lemma next_token_word:
  assumes "w \<noteq> []" and "\<forall>c \<in> set w. \<not> is_space c" and "rest = [] \<or> is_space (hd rest)"
  shows "next_token (w @ rest) = Some (w, rest)" and "is_space b \<Longrightarrow> next_token (b # w @ rest) = Some (w, rest)"
proof -
  have "dropWhile is_space (w @ rest) = w @ rest" using assms(1,2) by (cases w) auto
  moreover have "takeWhile (\<lambda>c. \<not> is_space c) (w @ rest) = w" "dropWhile (\<lambda>c. \<not> is_space c) (w @ rest) = rest"
    using assms(2,3) by (cases rest; simp)+
  ultimately show "next_token (w @ rest) = Some (w, rest)" "is_space b \<Longrightarrow> next_token (b # w @ rest) = Some (w, rest)"
    using assms(1) by (simp_all add: next_token_def Let_def)
qed

lemma is_digit_not_space: "is_digit c \<Longrightarrow> \<not> is_space c"
  by (auto simp: is_space_def is_digit_def)

lemma digit_not_space: "n < 10 \<Longrightarrow> \<not> is_space (digit n)"
  by (rule is_digit_not_space) simp

lemma two_digits_word: "n < 100 \<Longrightarrow> \<forall>c \<in> set (two_digits n). \<not> is_space c"
  by (auto simp: two_digits_def digit_not_space)

lemma to_string_word: "\<forall>c \<in> set (to_string n). \<not> is_space c"
  using to_string_digits is_digit_not_space by blast

lemma month_cases: "1 \<le> m \<Longrightarrow> m \<le> 12 \<Longrightarrow> m \<in> {1, 2, 3, 4, 5, 6, 7, 8, 9, 10, 11, 12 :: nat}"
  by (simp, presburger)

lemma month_name_word: "1 \<le> m \<Longrightarrow> m \<le> 12 \<Longrightarrow> month_name m \<noteq> [] \<and> (\<forall>c \<in> set (month_name m). \<not> is_space c)"
  by (drule (1) month_cases) (auto simp: month_name_def is_space_def)

lemma ParseMonthToken_month_name: "1 \<le> m \<Longrightarrow> m \<le> 12 \<Longrightarrow> ParseMonthToken (month_name m) = Some m"
  by (drule (1) month_cases) (auto simp: month_name_def ParseMonthToken_def)

lemma ParseWeekDay_word:
  assumes "length weekday = 3" and "\<forall>c \<in> set weekday. \<not> is_space c" and "rest = [] \<or> is_space (hd rest)"
  shows "ParseWeekDay (weekday @ CHR '','' # rest) = Some rest"
proof -
  have "next_token ((weekday @ '','') @ rest) = Some (weekday @ '','', rest)"
    by (rule next_token_word(1)) (use assms in \<open>auto simp: is_space_def\<close>)
  then show ?thesis using assms(1) by (simp add: ParseWeekDay_def nth_append)
qed

lemma space_is_space [simp]: "is_space CHR '' ''"
  by (simp add: is_space_def)

lemma ParseDay_word:
  assumes "1 \<le> d" and "d \<le> 31" and "rest = [] \<or> is_space (hd rest)"
  shows "ParseDay (CHR '' '' # two_digits d @ rest) = Some (d, rest)"
proof -
  have "next_token (CHR '' '' # two_digits d @ rest) = Some (two_digits d, rest)"
    by (rule next_token_word(2)) (use assms two_digits_word [of d] in \<open>simp_all add: two_digits_def\<close>)
  then show ?thesis using assms by (simp add: ParseDay_def ParseUnsignedInteger_two)
qed

lemma ParseMonth_word:
  assumes "1 \<le> m" and "m \<le> 12" and "rest = [] \<or> is_space (hd rest)"
  shows "ParseMonth (CHR '' '' # month_name m @ rest) = Some (m, rest)"
proof -
  have "next_token (CHR '' '' # month_name m @ rest) = Some (month_name m, rest)"
    by (rule next_token_word(2)) (use assms month_name_word [of m] in simp_all)
  then show ?thesis using assms by (simp add: ParseMonth_def ParseMonthToken_month_name)
qed

lemma ParseYear_word:
  assumes "1400 \<le> y" and "y \<le> 9999" and "rest = [] \<or> is_space (hd rest)"
  shows "ParseYear (CHR '' '' # to_string y @ rest) = Some (y, rest)"
proof -
  have "next_token (CHR '' '' # to_string y @ rest) = Some (to_string y, rest)"
    by (rule next_token_word(2)) (use assms to_string_word [of y] in simp_all)
  then show ?thesis using assms by (simp add: ParseYear_def ParseUnsignedInteger_to_string)
qed

lemma ParseClockToken_clock:
  assumes "valid_time hh mm ss"
  shows "ParseClockToken (two_digits hh @ '':'' @ two_digits mm @ '':'' @ two_digits ss) = Some (hh, mm, ss)"
proof -
  have l: "length (two_digits n) = 2" for n by (simp add: two_digits_def)
  have "ParseUnsignedInteger (two_digits n) = Some (int n)" if "n \<in> {hh, mm, ss}" for n
    by (rule ParseUnsignedInteger_two) (use that assms in \<open>auto simp: valid_time_def\<close>)
  moreover have "\<not> (23 < int hh \<or> 59 < int mm \<or> 60 < int ss)" using assms by (auto simp: valid_time_def)
  ultimately show ?thesis
    by (simp add: ParseClockToken_def l nth_append)
qed

lemma ParseTimeOfDay_word:
  assumes "valid_time hh mm ss" and "rest = [] \<or> is_space (hd rest)"
  shows "ParseTimeOfDay (CHR '' '' # (two_digits hh @ '':'' @ two_digits mm @ '':'' @ two_digits ss) @ rest)
    = Some ((hh, mm, ss), rest)"
proof -
  let ?w = "two_digits hh @ '':'' @ two_digits mm @ '':'' @ two_digits ss"
  have "\<forall>c \<in> set (two_digits n). \<not> is_space c" if "n \<in> {hh, mm, ss}" for n
    by (rule two_digits_word) (use that assms in \<open>auto simp: valid_time_def\<close>)
  then have "\<forall>c \<in> set ?w. \<not> is_space c" by (auto simp: is_space_def)
  then have "next_token (CHR '' '' # ?w @ rest) = Some (?w, rest)"
    by (intro next_token_word(2)) (use assms in simp_all)
  then show ?thesis using ParseClockToken_clock [OF assms(1)] by (simp add: ParseTimeOfDay_def)
qed

lemma ParseTimeZone_gmt: "ParseTimeZone '' GMT'' = Some []"
  by (simp add: ParseTimeZone_def next_token_def is_space_def)

lemma month_days_31: "month_days y m \<le> 31"
  by (simp add: month_days_def)

lemma parse_fields_rfc1123:
  assumes "length weekday = 3" and "\<forall>c \<in> set weekday. \<not> is_space c" and "valid_date y m d" and "valid_time hh mm ss"
  shows "parse_fields (rfc1123 weekday y m d hh mm ss) = Some ((y, m, d, hh, mm, ss), [])"
proof -
  have v: "1400 \<le> y" "y \<le> 9999" "1 \<le> m" "m \<le> 12" "1 \<le> d" "d \<le> 31"
    using assms(3) month_days_31 [of y m] by (auto simp: valid_date_def)
  have r: "rfc1123 weekday y m d hh mm ss = weekday @ CHR '','' # CHR '' '' # two_digits d @ CHR '' '' # month_name m @ CHR '' '' # to_string y
      @ CHR '' '' # (two_digits hh @ '':'' @ two_digits mm @ '':'' @ two_digits ss) @ '' GMT''"
    by (simp add: rfc1123_def)
  show ?thesis
    unfolding r parse_fields_def
    by (simp only: ParseWeekDay_word [OF assms(1,2)] ParseDay_word [OF v(5,6)] ParseMonth_word [OF v(3,4)] ParseYear_word [OF v(1,2)]
        ParseTimeOfDay_word [OF assms(4)] ParseTimeZone_gmt list.sel space_is_space simp_thms Option.bind.simps prod.case)
qed

lemma trim_char_space: "trim_char c \<Longrightarrow> is_space c"
  by (auto simp: trim_char_def is_space_def)

lemma dropWhile_all_append: "\<forall>c \<in> set pre. P c \<Longrightarrow> dropWhile P (pre @ s) = dropWhile P s"
  by (induction pre) auto

lemma TrimDateHeaderValue_padded:
  assumes "\<forall>c \<in> set pre. trim_char c" and "\<forall>c \<in> set post. trim_char c" and "s \<noteq> []" and "\<not> trim_char (hd s)" and "\<not> trim_char (last s)"
  shows "TrimDateHeaderValue (pre @ s @ post) = s"
proof -
  have "dropWhile trim_char (pre @ s @ post) = s @ post" using assms(1,3,4) by (cases s) (simp_all add: dropWhile_all_append)
  moreover have "dropWhile trim_char (rev post @ rev s) = rev s"
    using assms(2,3,5) by (cases s rule: rev_cases) (simp_all add: dropWhile_all_append)
  ultimately show ?thesis by (simp add: TrimDateHeaderValue_def)
qed

lemma sum_list_at_most: "(\<And>k. f k \<le> b) \<Longrightarrow> sum_list (map f [i..<n]) \<le> b * (n :: nat)" for f :: "nat \<Rightarrow> nat"
proof (induction n)
  case (Suc n)
  then show ?case using Suc.prems [of n] by (cases "i \<le> n") (simp_all add: add.commute [of b] add_le_mono)
qed simp

lemma day_number_bound:
  assumes "valid_date y m d"
  shows "0 \<le> day_number y m d" and "day_number y m d \<le> 3700000"
proof -
  have "sum_list (map year_days [1970..<y]) \<le> 366 * y" by (rule sum_list_at_most) (simp add: year_days_def)
  moreover have "sum_list (map (month_days y) [1..<m]) \<le> 31 * m" by (rule sum_list_at_most) (rule month_days_31)
  ultimately show "day_number y m d \<le> 3700000" using assms month_days_31 [of y m]
    by (simp add: day_number_def valid_date_def del: upt_rec_numeral)
  show "0 \<le> day_number y m d" using assms by (simp add: day_number_def valid_date_def del: upt_rec_numeral)
qed

lemma gregorian_seconds_bounds:
  assumes "valid_date y m d" and "valid_time hh mm ss"
  shows "0 \<le> gregorian_seconds y m d hh mm ss" and "gregorian_seconds y m d hh mm ss \<le> time_max"
  using day_number_bound [OF assms(1)] assms(2)
  by (simp_all add: gregorian_seconds_def valid_time_def time_max_def)

lemma gregorian_date:
  assumes "gregorian B" and "1400 \<le> y" and "y \<le> 9999" and "1 \<le> m" and "m \<le> 12" and "1 \<le> d"
  shows "end_of_month_day B y m = month_days y m"
    and "d \<le> month_days y m \<Longrightarrow> seconds_since_epoch B y m d hh mm ss = gregorian_seconds y m d hh mm ss"
  using assms by (auto simp: gregorian_def)

lemma rfc1123_ends:
  assumes "length weekday = 3" and "\<forall>c \<in> set weekday. \<not> is_space c"
  shows "rfc1123 weekday y m d hh mm ss \<noteq> []" and "\<not> trim_char (hd (rfc1123 weekday y m d hh mm ss))"
    and "\<not> trim_char (last (rfc1123 weekday y m d hh mm ss))"
proof -
  obtain c w where w: "weekday = c # w" using assms(1) by (cases weekday) auto
  then show "rfc1123 weekday y m d hh mm ss \<noteq> []" "\<not> trim_char (hd (rfc1123 weekday y m d hh mm ss))"
    using assms(2) trim_char_space by (auto simp: rfc1123_def)
  show "\<not> trim_char (last (rfc1123 weekday y m d hh mm ss))"
    by (simp add: rfc1123_def trim_char_def)
qed

text \<open>The proleptic Gregorian calendar, for the witnesses.\<close>

definition gregorian_calendar :: calendar where
  "gregorian_calendar = \<lparr>end_of_month_day = month_days, seconds_since_epoch = gregorian_seconds\<rparr>"

lemma gregorian_gregorian_calendar: "gregorian gregorian_calendar"
  by (simp add: gregorian_def gregorian_calendar_def)

text \<open>C38. The parser of HTTP dates inverts the printing of every valid date and time from 1970 to 9999: whatever the
three characters of the weekday are, and whatever blanks surround the header value, \<open>ParseRfc1123GmtNoExceptions\<close>
returns the seconds between the epoch and that date in the Gregorian calendar.\<close>

theorem rfc1123_roundtrip:
  assumes "gregorian B" and "valid_date y m d" and "valid_time hh mm ss"
    and "length weekday = 3" and "\<forall>c \<in> set weekday. \<not> is_space c"
    and "\<forall>c \<in> set pre. trim_char c" and "\<forall>c \<in> set post. trim_char c"
  shows "ParseRfc1123GmtNoExceptions B (pre @ rfc1123 weekday y m d hh mm ss @ post) = gregorian_seconds y m d hh mm ss"
proof -
  let ?s = "rfc1123 weekday y m d hh mm ss"
  have t: "TrimDateHeaderValue (pre @ ?s @ post) = ?s"
    by (rule TrimDateHeaderValue_padded [OF assms(6,7) rfc1123_ends [OF assms(4,5)]])
  have f: "parse_fields ?s = Some ((y, m, d, hh, mm, ss), [])"
    by (rule parse_fields_rfc1123 [OF assms(4,5,2,3)])
  have v: "1400 \<le> y" "y \<le> 9999" "1 \<le> m" "m \<le> 12" "1 \<le> d" "d \<le> month_days y m" using assms(2) by (auto simp: valid_date_def)
  have c: "end_of_month_day B y m = month_days y m" "seconds_since_epoch B y m d hh mm ss = gregorian_seconds y m d hh mm ss"
    using gregorian_date [OF assms(1) v(1-5)] v(6) by simp_all
  have e: "HasNoTrailingTokens []" by (simp add: HasNoTrailingTokens_def next_token_def)
  show ?thesis
    using gregorian_seconds_bounds [OF assms(2,3)] v(6) rfc1123_ends(1) [OF assms(4,5)]
    by (simp add: ParseRfc1123GmtNoExceptions_def t f c e)
qed

theorem rfc1123_roundtrip_witness:
  "ParseRfc1123GmtNoExceptions gregorian_calendar '' Sun, 06 Nov 1994 08:49:37 GMT '' = 784111777"
proof -
  have "[1..<11] = [1, 2, 3, 4, 5, 6, 7, 8, 9, 10 :: nat]" by code_simp
  then have "gregorian_seconds 1994 11 6 8 49 37 = 784111777"
    by (simp add: gregorian_seconds_def day_number_def year_days_def leap_year_def month_days_def)
  moreover have "'' '' @ rfc1123 ''Sun'' 1994 11 6 8 49 37 @ '' '' = '' Sun, 06 Nov 1994 08:49:37 GMT ''" by code_simp
  moreover have "valid_date 1994 11 6" "valid_time 8 49 37" by code_simp+
  ultimately show ?thesis
    using rfc1123_roundtrip [OF gregorian_gregorian_calendar, of 1994 11 6 8 49 37 "''Sun''" "'' ''" "'' ''"]
    by (simp add: is_space_def trim_char_def)
qed

text \<open>Each token parser keeps its value in the range of its field.\<close>

lemma parse_digits_nonneg: "parse_digits s v = Some r \<Longrightarrow> 0 \<le> v \<Longrightarrow> 0 \<le> r"
  by (induction s v rule: parse_digits.induct) (auto simp: Let_def split: if_splits)

lemma ParseUnsignedInteger_nonneg: "ParseUnsignedInteger s = Some r \<Longrightarrow> 0 \<le> r"
  by (auto simp: ParseUnsignedInteger_def split: if_splits intro: parse_digits_nonneg)

lemma ParseDay_range: "ParseDay s = Some (d, r) \<Longrightarrow> 1 \<le> d \<and> d \<le> 31"
  by (auto simp: ParseDay_def split: bind_splits if_splits dest!: ParseUnsignedInteger_nonneg)

lemma ParseMonth_range: "ParseMonth s = Some (m, r) \<Longrightarrow> 1 \<le> m \<and> m \<le> 12"
  by (auto simp: ParseMonth_def ParseMonthToken_def split: bind_splits if_splits)

lemma ParseYear_range: "ParseYear s = Some (y, r) \<Longrightarrow> 1400 \<le> y \<and> y \<le> 9999"
  by (auto simp: ParseYear_def split: bind_splits if_splits dest!: ParseUnsignedInteger_nonneg)

lemma ParseTimeOfDay_range: "ParseTimeOfDay s = Some ((hh, mm, ss), r) \<Longrightarrow> valid_time hh mm ss"
  by (auto simp: ParseTimeOfDay_def ParseClockToken_def valid_time_def split: bind_splits if_splits)

lemma parse_fields_ranges:
  assumes "parse_fields s = Some ((y, m, d, hh, mm, ss), rest)"
  shows "1400 \<le> y \<and> y \<le> 9999 \<and> 1 \<le> m \<and> m \<le> 12 \<and> 1 \<le> d \<and> d \<le> 31 \<and> valid_time hh mm ss"
  using assms
  by (auto simp: parse_fields_def split: bind_splits
      dest!: ParseDay_range ParseMonth_range ParseYear_range ParseTimeOfDay_range)

text \<open>Soundness: a header value that is not refused is a valid date and time since the epoch, and the result is its
time.\<close>

lemma rfc1123_sound:
  assumes "gregorian B" and "ParseRfc1123GmtNoExceptions B v \<noteq> - 1"
  shows "\<exists>y m d hh mm ss. valid_time hh mm ss \<and> 1400 \<le> y \<and> y \<le> 9999 \<and> 1 \<le> m \<and> m \<le> 12 \<and> 1 \<le> d \<and> d \<le> month_days y m
    \<and> ParseRfc1123GmtNoExceptions B v = gregorian_seconds y m d hh mm ss \<and> 0 \<le> gregorian_seconds y m d hh mm ss"
proof -
  obtain y m d hh mm ss rest where p: "parse_fields (TrimDateHeaderValue v) = Some ((y, m, d, hh, mm, ss), rest)"
    using assms(2) by (auto simp: ParseRfc1123GmtNoExceptions_def Let_def split: if_splits option.splits)
  from parse_fields_ranges [OF p] have r: "1400 \<le> y" "y \<le> 9999" "1 \<le> m" "m \<le> 12" "1 \<le> d" "valid_time hh mm ss" by auto
  let ?g = "gregorian_seconds y m d hh mm ss"
  have "d \<le> month_days y m \<and> ParseRfc1123GmtNoExceptions B v = ?g \<and> 0 \<le> ?g"
    using assms(2) p gregorian_date [OF assms(1) r(1-5)]
    by (auto simp: ParseRfc1123GmtNoExceptions_def Let_def split: if_splits)
  with r show ?thesis by blast
qed

end
