(* ===== verification/KeyGenerator.thy ===== *)
theory KeyGenerator
  imports TileKey
begin

text \<open>
  The keys under which the repositories store their values in the cache
  (\<open>olp::cache::KeyGenerator\<close>, olp-cpp-sdk-core/src/cache/KeyGenerator.cpp), and why they identify what
  is stored. A version of 64 bits is a word that is printed as a signed number.
\<close>

section \<open>Keys\<close>

definition kColons :: string where
  "kColons = ''::''"

definition kDataSuffix :: string where
  "kDataSuffix = ''Data''"

definition kPartitionSuffix :: string where
  "kPartitionSuffix = ''partition''"

definition to_string_int64 :: "u64 \<Rightarrow> string" where
  "to_string_int64 n = to_string_int (sint n)"

definition CreateApiKey :: "string \<Rightarrow> string \<Rightarrow> string \<Rightarrow> string" where
  "CreateApiKey hrn service version = hrn @ ''::'' @ service @ ''::'' @ version @ ''::api''"

definition CreateCatalogKey :: "string \<Rightarrow> string" where
  "CreateCatalogKey hrn = hrn @ ''::catalog''"

definition CreateLatestVersionKey :: "string \<Rightarrow> string" where
  "CreateLatestVersionKey hrn = hrn @ ''::latestVersion''"

definition CreatePartitionKey :: "string \<Rightarrow> string \<Rightarrow> string \<Rightarrow> u64 option \<Rightarrow> string" where
  "CreatePartitionKey hrn layer_id partition_id version =
     (let version_str = (case version of Some v \<Rightarrow> to_string_int64 v @ kColons | None \<Rightarrow> []) in
      hrn @ kColons @ layer_id @ kColons @ partition_id @ kColons @ version_str @ kPartitionSuffix)"

definition CreatePartitionsKey :: "string \<Rightarrow> string \<Rightarrow> u64 option \<Rightarrow> string" where
  "CreatePartitionsKey hrn layer_id version =
     hrn @ ''::'' @ layer_id @ ''::'' @ (case version of Some v \<Rightarrow> to_string_int64 v @ ''::'' | None \<Rightarrow> []) @ ''partitions''"

definition CreateLayerVersionsKey :: "string \<Rightarrow> u64 \<Rightarrow> string" where
  "CreateLayerVersionsKey hrn version = hrn @ ''::'' @ to_string_int64 version @ ''::layerVersions''"

definition CreateQuadTreeKey :: "string \<Rightarrow> string \<Rightarrow> TileKey \<Rightarrow> u64 option \<Rightarrow> u32 \<Rightarrow> string" where
  "CreateQuadTreeKey hrn layer_id root version depth =
     hrn @ ''::'' @ layer_id @ ''::'' @ ToHereTile root @ ''::''
       @ (case version of Some v \<Rightarrow> to_string_int64 v @ ''::'' | None \<Rightarrow> []) @ to_string_int (sint depth) @ ''::quadtree''"

definition CreateDataHandleKey :: "string \<Rightarrow> string \<Rightarrow> string \<Rightarrow> string" where
  "CreateDataHandleKey hrn layer_id data_handle =
     hrn @ kColons @ layer_id @ kColons @ data_handle @ kColons @ kDataSuffix"

section \<open>Items\<close>

text \<open>What the repositories of a catalog store.\<close>

datatype cache_item =
    ApiItem string string
  | CatalogItem
  | LatestVersionItem
  | PartitionItem string string "u64 option"
  | PartitionsItem string "u64 option"
  | LayerVersionsItem u64
  | QuadTreeItem string TileKey "u64 option" u32
  | DataItem string string

fun cache_key :: "string \<Rightarrow> cache_item \<Rightarrow> string" where
  "cache_key hrn (ApiItem service version) = CreateApiKey hrn service version"
| "cache_key hrn CatalogItem = CreateCatalogKey hrn"
| "cache_key hrn LatestVersionItem = CreateLatestVersionKey hrn"
| "cache_key hrn (PartitionItem layer_id partition_id version) = CreatePartitionKey hrn layer_id partition_id version"
| "cache_key hrn (PartitionsItem layer_id version) = CreatePartitionsKey hrn layer_id version"
| "cache_key hrn (LayerVersionsItem version) = CreateLayerVersionsKey hrn version"
| "cache_key hrn (QuadTreeItem layer_id root version depth) = CreateQuadTreeKey hrn layer_id root version depth"
| "cache_key hrn (DataItem layer_id data_handle) = CreateDataHandleKey hrn layer_id data_handle"

text \<open>The kind of an item is the last segment of its key.\<close>

fun item_kind :: "cache_item \<Rightarrow> string" where
  "item_kind (ApiItem _ _) = ''api''"
| "item_kind CatalogItem = ''catalog''"
| "item_kind LatestVersionItem = ''latestVersion''"
| "item_kind (PartitionItem _ _ _) = ''partition''"
| "item_kind (PartitionsItem _ _) = ''partitions''"
| "item_kind (LayerVersionsItem _) = ''layerVersions''"
| "item_kind (QuadTreeItem _ _ _ _) = ''quadtree''"
| "item_kind (DataItem _ _) = ''Data''"

text \<open>Identifiers without a colon, and valid tiles.\<close>

definition no_colon :: "string \<Rightarrow> bool" where
  "no_colon s \<longleftrightarrow> CHR '':'' \<notin> set s"

fun clean_item :: "cache_item \<Rightarrow> bool" where
  "clean_item (ApiItem service version) \<longleftrightarrow> no_colon service \<and> no_colon version"
| "clean_item (PartitionItem layer_id partition_id version) \<longleftrightarrow> no_colon layer_id \<and> no_colon partition_id"
| "clean_item (PartitionsItem layer_id version) \<longleftrightarrow> no_colon layer_id"
| "clean_item (QuadTreeItem layer_id root version depth) \<longleftrightarrow> no_colon layer_id \<and> IsValid root"
| "clean_item (DataItem layer_id data_handle) \<longleftrightarrow> no_colon layer_id \<and> no_colon data_handle"
| "clean_item _ \<longleftrightarrow> True"

section \<open>Segments\<close>

fun join :: "string list \<Rightarrow> string" where
  "join [] = []"
| "join (seg # segs) = ''::'' @ seg @ join segs"

fun version_segs :: "u64 option \<Rightarrow> string list" where
  "version_segs None = []"
| "version_segs (Some v) = [to_string_int64 v]"

fun item_segs :: "cache_item \<Rightarrow> string list" where
  "item_segs (ApiItem service version) = [service, version]"
| "item_segs CatalogItem = []"
| "item_segs LatestVersionItem = []"
| "item_segs (PartitionItem layer_id partition_id version) = [layer_id, partition_id] @ version_segs version"
| "item_segs (PartitionsItem layer_id version) = [layer_id] @ version_segs version"
| "item_segs (LayerVersionsItem version) = [to_string_int64 version]"
| "item_segs (QuadTreeItem layer_id root version depth) =
     [layer_id, ToHereTile root] @ version_segs version @ [to_string_int (sint depth)]"
| "item_segs (DataItem layer_id data_handle) = [layer_id, data_handle]"

lemma join_append: "join (xs @ ys) = join xs @ join ys"
  by (induction xs) simp_all

lemma cache_key_segs: "cache_key hrn it = hrn @ join (item_segs it @ [item_kind it])"
  by (cases it) (auto simp: CreateApiKey_def CreateCatalogKey_def CreateLatestVersionKey_def CreatePartitionKey_def
      CreatePartitionsKey_def CreateLayerVersionsKey_def CreateQuadTreeKey_def CreateDataHandleKey_def
      kColons_def kDataSuffix_def kPartitionSuffix_def split: option.split)

lemma no_colon_digits [simp]: "no_colon (to_string n)" "no_colon (to_string_int i)" "no_colon (to_string_int64 v)" "no_colon (ToHereTile t)"
proof -
  have d: "no_colon (to_string n)" for n
    using to_string_digits [of n] by (auto simp: no_colon_def is_digit_def)
  then show "no_colon (to_string n)" "no_colon (ToHereTile t)" by (simp_all add: ToHereTile_def)
  show i: "no_colon (to_string_int i)" for i using d by (simp add: to_string_int_def no_colon_def)
  show "no_colon (to_string_int64 v)" by (simp add: to_string_int64_def i)
qed

lemma kind_no_colon [simp]: "no_colon (item_kind it)"
  by (cases it) (simp_all add: no_colon_def)

lemma segs_no_colon: "clean_item it \<Longrightarrow> seg \<in> set (item_segs it) \<Longrightarrow> no_colon seg"
  by (cases it; cases "case it of PartitionItem _ _ v \<Rightarrow> v | PartitionsItem _ v \<Rightarrow> v | QuadTreeItem _ _ v _ \<Rightarrow> v | _ \<Rightarrow> None") auto

lemma join_start: "join segs = [] \<or> (\<exists>r. join segs = CHR '':'' # r)"
  by (cases segs) auto

lemma takeWhile_stop: "d \<notin> set x \<Longrightarrow> takeWhile (\<lambda>c. c \<noteq> d) (x @ d # r) = x"
  by (induction x) auto

lemma no_colon_append:
  assumes "no_colon s" and "no_colon s'" and "s @ join segs = s' @ join segs'"
  shows "s = s' \<and> join segs = join segs'"
proof -
  have t: "takeWhile (\<lambda>c. c \<noteq> CHR '':'') (x @ join xs) = x" if "no_colon x" for x xs
    using that join_start [of xs] by (auto simp: no_colon_def takeWhile_stop takeWhile_eq_all_conv)
  have "s = s'" using t [OF assms(1), of segs] t [OF assms(2), of segs'] assms(3) by simp
  then show ?thesis using assms(3) by simp
qed

lemma join_inject:
  "\<forall>s \<in> set xs. no_colon s \<Longrightarrow> \<forall>s \<in> set ys. no_colon s \<Longrightarrow> join xs = join ys \<Longrightarrow> xs = ys"
proof (induction xs arbitrary: ys)
  case Nil
  then show ?case by (cases ys) auto
next
  case (Cons x xs)
  then obtain y zs where y: "ys = y # zs" by (cases ys) auto
  with Cons.prems have "x @ join xs = y @ join zs" by simp
  moreover have "no_colon x" "no_colon y" using Cons.prems(1,2) y by simp_all
  ultimately have xy: "x = y" "join xs = join zs" using no_colon_append [of x y xs zs] by blast+
  have "xs = zs" by (rule Cons.IH) (use Cons.prems(1,2) y xy(2) in simp_all)
  then show ?case using xy(1) y by simp
qed

lemma to_string_int_inject: "to_string_int i = to_string_int j \<longleftrightarrow> i = j"
proof
  assume e: "to_string_int i = to_string_int j"
  have m: "CHR ''-'' \<notin> set (to_string n)" for n using to_string_digits [of n] by (auto simp: is_digit_def)
  have "i < 0 \<longleftrightarrow> j < 0"
    using e m [of "nat i"] m [of "nat j"] by (auto simp: to_string_int_def split: if_splits) (metis list.set_intros(1))+
  then show "i = j" using e by (auto simp: to_string_int_def to_string_inject split: if_splits)
qed simp

lemma to_string_int64_inject: "to_string_int64 v = to_string_int64 w \<longleftrightarrow> v = w"
  by (auto simp: to_string_int64_def to_string_int_inject intro: signed_word_eqI)

lemma ToHereTile_inject: "IsValid t \<Longrightarrow> IsValid u \<Longrightarrow> ToHereTile t = ToHereTile u \<longleftrightarrow> t = u"
  using FromQuadKey64_ToQuadKey64 by (metis ToHereTile_def to_string_inject word_unat_eq_iff)

lemma version_segs_inject: "version_segs v = version_segs w \<longleftrightarrow> v = w"
  by (cases v; cases w) (simp_all add: to_string_int64_inject)

lemma version_segs_append: "version_segs v @ [x] = version_segs w @ [y] \<longleftrightarrow> v = w \<and> x = y"
  by (cases v; cases w) (auto simp: to_string_int64_inject)

lemma item_segs_inject:
  assumes "clean_item a" and "clean_item b" and "item_kind a = item_kind b" and "item_segs a = item_segs b"
  shows "a = b"
  using assms
  by (cases a; cases b)
    (simp_all add: version_segs_inject version_segs_append to_string_int64_inject to_string_int_inject ToHereTile_inject
      signed_word_eqI)

lemma cache_key_inject:
  assumes "clean_item a" and "clean_item b"
  shows "cache_key hrn a = cache_key hrn b \<longleftrightarrow> a = b"
proof
  assume "cache_key hrn a = cache_key hrn b"
  then have "item_segs a @ [item_kind a] = item_segs b @ [item_kind b]"
    using join_inject [of "item_segs a @ [item_kind a]" "item_segs b @ [item_kind b]"] assms segs_no_colon
    by (auto simp: cache_key_segs)
  then show "a = b" using item_segs_inject [OF assms] by simp
qed simp

text \<open>The last segment decides the kind, for any identifiers and any catalogs.\<close>

lemma last_segment:
  assumes "no_colon x" and "no_colon y" and "p @ ''::'' @ x = q @ ''::'' @ y"
  shows "x = y"
proof -
  have t: "takeWhile (\<lambda>c. c \<noteq> CHR '':'') (rev (p @ ''::'' @ z)) = rev z" if "no_colon z" for p z
    using that by (auto simp: no_colon_def takeWhile_stop)
  have "rev x = rev y"
    using t [OF assms(1), of p] t [OF assms(2), of q] unfolding assms(3) by (rule trans [OF sym])
  then show ?thesis by simp
qed

lemma cache_key_kind: "cache_key hrn a = cache_key hrn' b \<Longrightarrow> item_kind a = item_kind b"
  using last_segment [of "item_kind a" "item_kind b" "hrn @ join (item_segs a)" "hrn' @ join (item_segs b)"]
  by (simp add: cache_key_segs join_append)

section \<open>Property\<close>

text \<open>C20. The keys of the cache identify what is stored: items of one catalog whose identifiers have no colon have equal
keys only when they are the same item, and items of different kinds never have the same key, whatever their identifiers
and catalogs are. No key is the expiry key of another one.\<close>

theorem cache_keys_identify_items:
  "(clean_item a \<and> clean_item b \<longrightarrow> (cache_key hrn a = cache_key hrn b \<longleftrightarrow> a = b))
   \<and> (item_kind a \<noteq> item_kind b \<longrightarrow> cache_key hrn a \<noteq> cache_key hrn' b)
   \<and> cache_key hrn a \<noteq> key @ ''::expiry''"
proof -
  have "item_kind a \<noteq> ''expiry''" by (cases a) simp_all
  moreover have "no_colon ''expiry''" by (simp add: no_colon_def)
  ultimately have "cache_key hrn a \<noteq> key @ ''::expiry''"
    using last_segment [of "item_kind a" "''expiry''" "hrn @ join (item_segs a)" key] by (auto simp: cache_key_segs join_append)
  then show ?thesis using cache_key_inject cache_key_kind by blast
qed

theorem cache_keys_identify_items_witness:
  "cache_key ''hrn:here:data::olp:c'' (PartitionItem ''layer'' ''5'' (Some 7))
     \<noteq> cache_key ''hrn:here:data::olp:c'' (PartitionItem ''layer'' ''5'' None)
   \<and> cache_key ''a'' (DataItem ''l'' ''h'') \<noteq> cache_key ''b'' (PartitionsItem ''l'' None)"
  using cache_keys_identify_items [of "PartitionItem ''layer'' ''5'' (Some 7)" "PartitionItem ''layer'' ''5'' None" "''hrn:here:data::olp:c''"]
    cache_keys_identify_items [of "DataItem ''l'' ''h''" "PartitionsItem ''l'' None" "''a''" "''b''"]
  by (simp add: no_colon_def)

text \<open>With a colon in an identifier two items can share a key: a partition of version 7 and a partition whose name ends in
\<open>::7\<close>.\<close>

lemma colon_collision:
  "CreatePartitionKey hrn layer ''5'' (Some 7) = CreatePartitionKey hrn layer ''5::7'' None"
proof -
  have "to_string_int64 7 = ''7''" by code_simp
  then show ?thesis by (simp add: CreatePartitionKey_def kColons_def)
qed

end
