(* ===== verification/CacheRepositories.thy ===== *)
theory CacheRepositories
  imports DefaultCache QuadTree KeyGenerator JsonModels
begin

text \<open>
  The repositories that keep data, partition metadata, quad trees, catalogs, versions and service addresses in
  the cache: \<open>DataCacheRepository\<close>, \<open>PartitionsCacheRepository\<close>, \<open>CatalogCacheRepository\<close> and
  \<open>ApiCacheRepository\<close> of olp-cpp-sdk-dataservice-read/src/repositories, with the \<open>ApiCacheRepository\<close> of the
  core library (olp-cpp-sdk-core/src/client/repository).

  The cache is used through the interface \<open>KeyValueCache\<close>: a record of operations on a state, at one moment in
  time. The default cache is an instance. \<open>None\<close> is a run that is undefined or throws (a bad \<open>any_cast\<close>, a
  document whose members have other types). The text of a JSON document is a parameter, as in \<open>JsonModels\<close>.
\<close>

section \<open>The interface of the cache\<close>

text \<open>The objects that are stored as \<open>porting::any\<close>; \<open>AnyUndefined\<close> stands for the result of a decoder whose
  run is undefined.\<close>

datatype any_value =
    AnyCatalog Catalog | AnyVersion VersionResponse | AnyLayerVersions LayerVersions | AnyString string | AnyUndefined

record 's kv_ops =
  kv_Put :: "string \<Rightarrow> any_value \<Rightarrow> string \<Rightarrow> time_t \<Rightarrow> 's \<Rightarrow> ('s \<times> bool) option"
  kv_Get :: "string \<Rightarrow> (string \<Rightarrow> any_value) \<Rightarrow> 's \<Rightarrow> ('s \<times> any_value cached option) option"
  kv_Get_bytes :: "string \<Rightarrow> 's \<Rightarrow> ('s \<times> string option) option"
  kv_Read :: "string \<Rightarrow> 's \<Rightarrow> ('s \<times> (ErrorCode + string)) option"
  kv_Write :: "string \<Rightarrow> string option \<Rightarrow> time_t \<Rightarrow> 's \<Rightarrow> ('s \<times> (ErrorCode + unit)) option"
  kv_Contains :: "string \<Rightarrow> 's \<Rightarrow> bool option"
  kv_DeleteByPrefix :: "string \<Rightarrow> 's \<Rightarrow> ('s \<times> (ErrorCode + unit)) option"
  kv_Protect :: "string list \<Rightarrow> 's \<Rightarrow> ('s \<times> bool) option"
  kv_Release :: "string list \<Rightarrow> 's \<Rightarrow> ('s \<times> bool) option"
  kv_Promote :: "string \<Rightarrow> 's \<Rightarrow> 's option"

definition kv_RemoveKeysWithPrefix :: "'s kv_ops \<Rightarrow> string \<Rightarrow> 's \<Rightarrow> ('s \<times> bool) option" where
  "kv_RemoveKeysWithPrefix K pre s = do { (s, r) \<leftarrow> kv_DeleteByPrefix K pre s; Some (s, r = Inr ()) }"

text \<open>The default cache at a moment.\<close>

definition default_kv :: "'db ldb_ops \<Rightarrow> time_t \<Rightarrow> (any_value, 'db) default_cache kv_ops" where
  "default_kv L now =
     \<lparr>kv_Put = \<lambda>key value encoded expiry. DefaultCache_Put_any L now key (Some value) encoded expiry,
      kv_Get = \<lambda>key decoder. DefaultCache_Get_any L now key (\<lambda>text. Some (decoder text)),
      kv_Get_bytes = DefaultCache_Get L now,
      kv_Read = Read L now,
      kv_Write = Write L now,
      kv_Contains = DefaultCache_Contains L now,
      kv_DeleteByPrefix = DeleteByPrefix L,
      kv_Protect = DefaultCache_Protect,
      kv_Release = DefaultCache_Release L,
      kv_Promote = DefaultCache_Promote\<rparr>"

text \<open>The JSON library: parser, printer, and the conversions of numbers.\<close>

record 'd json_lib =
  lib_parse :: "string \<Rightarrow> 'd JsonModels.json option"
  lib_text :: "'d JsonModels.json \<Rightarrow> string"
  lib_numbers :: "'d numbers"

definition any_of :: "('a \<Rightarrow> any_value) \<Rightarrow> 'a option \<Rightarrow> any_value" where
  "any_of f r = (case r of Some x \<Rightarrow> f x | None \<Rightarrow> AnyUndefined)"

text \<open>\<open>ConvertTime\<close>: the maximum of the chrono type becomes the maximum of \<open>time_t\<close>.\<close>

definition ConvertTime :: "int \<Rightarrow> time_t" where
  "ConvertTime t = (if t = 2 ^ 63 - 1 then time_max else t)"

section \<open>DataCacheRepository\<close>

record data_repo =
  dr_hrn :: string
  dr_default_expiry :: time_t

definition DataCacheRepository_new :: "string \<Rightarrow> int \<Rightarrow> data_repo" where
  "DataCacheRepository_new hrn expiry = \<lparr>dr_hrn = hrn, dr_default_expiry = ConvertTime expiry\<rparr>"

definition Data_Put ::
  "'s kv_ops \<Rightarrow> data_repo \<Rightarrow> string option \<Rightarrow> string \<Rightarrow> string \<Rightarrow> 's \<Rightarrow> ('s \<times> (ErrorCode + unit)) option" where
  "Data_Put K repo data layer handle s =
     kv_Write K (CreateDataHandleKey (dr_hrn repo) layer handle) data (dr_default_expiry repo) s"

definition Data_Get :: "'s kv_ops \<Rightarrow> data_repo \<Rightarrow> string \<Rightarrow> string \<Rightarrow> 's \<Rightarrow> ('s \<times> string option) option" where
  "Data_Get K repo layer handle s =
     kv_Get_bytes K (CreateDataHandleKey (dr_hrn repo) layer handle) s"

definition Data_IsCached :: "'s kv_ops \<Rightarrow> data_repo \<Rightarrow> string \<Rightarrow> string \<Rightarrow> 's \<Rightarrow> bool option" where
  "Data_IsCached K repo layer handle s =
     kv_Contains K (CreateDataHandleKey (dr_hrn repo) layer handle) s"

definition Data_Clear :: "'s kv_ops \<Rightarrow> data_repo \<Rightarrow> string \<Rightarrow> string \<Rightarrow> 's \<Rightarrow> ('s \<times> (ErrorCode + unit)) option" where
  "Data_Clear K repo layer handle s =
     kv_DeleteByPrefix K (CreateDataHandleKey (dr_hrn repo) layer handle) s"

definition Data_PromoteInCache :: "'s kv_ops \<Rightarrow> data_repo \<Rightarrow> string \<Rightarrow> string \<Rightarrow> 's \<Rightarrow> 's option" where
  "Data_PromoteInCache K repo layer handle s =
     kv_Promote K (CreateDataHandleKey (dr_hrn repo) layer handle) s"

section \<open>PartitionsCacheRepository\<close>

record partitions_repo =
  pr_catalog :: string
  pr_layer_id :: string
  pr_default_expiry :: time_t

definition kMaxDepth :: u32 where
  "kMaxDepth = 4"

definition PartitionsCacheRepository_new :: "string \<Rightarrow> string \<Rightarrow> int \<Rightarrow> partitions_repo" where
  "PartitionsCacheRepository_new catalog layer expiry =
     \<lparr>pr_catalog = catalog, pr_layer_id = layer, pr_default_expiry = ConvertTime expiry\<rparr>"

definition partition_key :: "partitions_repo \<Rightarrow> u64 option \<Rightarrow> string \<Rightarrow> string" where
  "partition_key repo version partition_id = CreatePartitionKey (pr_catalog repo) (pr_layer_id repo) partition_id version"

definition value_or :: "'a option \<Rightarrow> 'a \<Rightarrow> 'a" where
  "value_or x d = (case x of Some y \<Rightarrow> y | None \<Rightarrow> d)"

text \<open>The loop of \<open>Put\<close> over the partitions: the first write that fails ends it.\<close>

fun put_partitions ::
  "'s kv_ops \<Rightarrow> 'd json_lib \<Rightarrow> partitions_repo \<Rightarrow> Partition list \<Rightarrow> u64 option \<Rightarrow> time_t \<Rightarrow> 's
    \<Rightarrow> ('s \<times> (ErrorCode + unit)) option" where
  "put_partitions K J repo [] version expiry s = Some (s, Inr ())"
| "put_partitions K J repo (part # partitions) version expiry s = do {
     (s, put_result) \<leftarrow> kv_Write K (partition_key repo version (p_partition part))
        (Some (lib_text J (to_json_Partition part))) expiry s;
     case put_result of
       Inl e \<Rightarrow> Some (s, Inl e)
     | Inr _ \<Rightarrow> put_partitions K J repo partitions version expiry s }"

definition Partitions_Put ::
  "'s kv_ops \<Rightarrow> 'd json_lib \<Rightarrow> partitions_repo \<Rightarrow> Partitions \<Rightarrow> u64 option \<Rightarrow> time_t option \<Rightarrow> bool \<Rightarrow> 's
    \<Rightarrow> ('s \<times> (ErrorCode + unit)) option" where
  "Partitions_Put K J repo partitions version expiry layer_metadata s =
     (let partitions_list = ps_partitions partitions;
          expiry = value_or expiry (pr_default_expiry repo) in do {
        (s, r) \<leftarrow> put_partitions K J repo partitions_list version expiry s;
        case r of
          Inl e \<Rightarrow> Some (s, Inl e)
        | Inr _ \<Rightarrow>
            if layer_metadata then
              kv_Write K (CreatePartitionsKey (pr_catalog repo) (pr_layer_id repo) version)
                (Some (lib_text J (to_json_vector to_json_string (map p_partition partitions_list)))) expiry s
            else Some (s, Inr ()) })"

definition parse_partition :: "'d json_lib \<Rightarrow> string \<Rightarrow> Partition option" where
  "parse_partition J text = parse_text (lib_parse J) Partition_new (from_json_Partition (lib_numbers J)) text"

definition parse_ids :: "'d json_lib \<Rightarrow> string \<Rightarrow> string list option" where
  "parse_ids J text = parse_text (lib_parse J) [] (from_json_vector from_json_string) text"

fun get_partitions ::
  "'s kv_ops \<Rightarrow> 'd json_lib \<Rightarrow> partitions_repo \<Rightarrow> string list \<Rightarrow> u64 option \<Rightarrow> 's \<Rightarrow> ('s \<times> Partition list) option" where
  "get_partitions K J repo [] version s = Some (s, [])"
| "get_partitions K J repo (partition_id # partition_ids) version s = do {
     (s, read_response) \<leftarrow> kv_Read K (partition_key repo version partition_id) s;
     case read_response of
       Inr text \<Rightarrow> do {
         part \<leftarrow> parse_partition J text;
         (s, partitions) \<leftarrow> get_partitions K J repo partition_ids version s;
         Some (s, part # partitions) }
     | Inl _ \<Rightarrow> get_partitions K J repo partition_ids version s }"

definition Partitions_Get ::
  "'s kv_ops \<Rightarrow> 'd json_lib \<Rightarrow> partitions_repo \<Rightarrow> string list \<Rightarrow> u64 option \<Rightarrow> 's \<Rightarrow> ('s \<times> Partitions) option" where
  "Partitions_Get K J repo partition_ids version s = do {
     (s, cached_partitions) \<leftarrow> get_partitions K J repo partition_ids version s;
     Some (s, \<lparr>ps_partitions = cached_partitions\<rparr>) }"

text \<open>\<open>Get(request, version)\<close>; a request is its list of identifiers.\<close>

definition Partitions_Get_request ::
  "'s kv_ops \<Rightarrow> 'd json_lib \<Rightarrow> partitions_repo \<Rightarrow> string list \<Rightarrow> u64 option \<Rightarrow> 's \<Rightarrow> ('s \<times> Partitions option) option" where
  "Partitions_Get_request K J repo partition_ids version s =
     (if partition_ids = [] then do {
        (s, read_response) \<leftarrow> kv_Read K (CreatePartitionsKey (pr_catalog repo) (pr_layer_id repo) version) s;
        case read_response of
          Inr text \<Rightarrow> do {
            cached_ids \<leftarrow> parse_ids J text;
            (s, partitions) \<leftarrow> Partitions_Get K J repo cached_ids version s;
            Some (s, Some partitions) }
        | Inl _ \<Rightarrow> Some (s, None) }
      else do {
        (s, available_partitions) \<leftarrow> Partitions_Get K J repo partition_ids version s;
        if length (ps_partitions available_partitions) \<noteq> length partition_ids then Some (s, None)
        else Some (s, Some available_partitions) })"

definition LayerVersions_Put ::
  "'s kv_ops \<Rightarrow> 'd json_lib \<Rightarrow> partitions_repo \<Rightarrow> u64 \<Rightarrow> LayerVersions \<Rightarrow> 's \<Rightarrow> ('s \<times> bool) option" where
  "LayerVersions_Put K J repo catalog_version layer_versions s =
     kv_Put K (CreateLayerVersionsKey (pr_catalog repo) catalog_version) (AnyLayerVersions layer_versions)
       (lib_text J (to_json_LayerVersions layer_versions)) (pr_default_expiry repo) s"

definition parse_layer_versions :: "'d json_lib \<Rightarrow> string \<Rightarrow> LayerVersions option" where
  "parse_layer_versions J text = parse_text (lib_parse J) LayerVersions_new (from_json_LayerVersions (lib_numbers J)) text"

text \<open>\<open>any_cast\<close> of what the cache returned: an empty value is none, a value of another type throws.\<close>

definition LayerVersions_Get ::
  "'s kv_ops \<Rightarrow> 'd json_lib \<Rightarrow> partitions_repo \<Rightarrow> u64 \<Rightarrow> 's \<Rightarrow> ('s \<times> LayerVersions option) option" where
  "LayerVersions_Get K J repo catalog_version s = do {
     (s, cached) \<leftarrow> kv_Get K (CreateLayerVersionsKey (pr_catalog repo) catalog_version)
       (\<lambda>text. any_of AnyLayerVersions (parse_layer_versions J text)) s;
     case cached of
       None \<Rightarrow> Some (s, None)
     | Some (Object (AnyLayerVersions layer_versions)) \<Rightarrow> Some (s, Some layer_versions)
     | _ \<Rightarrow> None }"

definition quad_tree_key :: "partitions_repo \<Rightarrow> u64 option \<Rightarrow> u32 \<Rightarrow> TileKey \<Rightarrow> string" where
  "quad_tree_key repo version depth tile = CreateQuadTreeKey (pr_catalog repo) (pr_layer_id repo) tile version depth"

text \<open>An index is its block of bytes, none when it is null.\<close>

definition QuadTree_Put ::
  "'s kv_ops \<Rightarrow> partitions_repo \<Rightarrow> TileKey \<Rightarrow> u32 \<Rightarrow> u8 list option \<Rightarrow> u64 option \<Rightarrow> 's \<Rightarrow> ('s \<times> (ErrorCode + unit)) option" where
  "QuadTree_Put K repo tile depth quad_tree version s =
     (if quad_tree = None then Some (s, Inr ())
      else kv_Write K (quad_tree_key repo version depth tile) (map_option bytes_string quad_tree) (pr_default_expiry repo) s)"

definition QuadTree_Get ::
  "'s kv_ops \<Rightarrow> partitions_repo \<Rightarrow> TileKey \<Rightarrow> u32 \<Rightarrow> u64 option \<Rightarrow> 's \<Rightarrow> ('s \<times> u8 list option option) option" where
  "QuadTree_Get K repo tile depth version s = do {
     (s, read_response) \<leftarrow> kv_Read K (quad_tree_key repo version depth tile) s;
     case read_response of
       Inr data \<Rightarrow> Some (s, Some (QuadTreeIndex_of_data (Some (string_bytes data))))
     | Inl _ \<Rightarrow> Some (s, None) }"

definition Partitions_Clear :: "'s kv_ops \<Rightarrow> partitions_repo \<Rightarrow> 's \<Rightarrow> ('s \<times> bool) option" where
  "Partitions_Clear K repo s = kv_RemoveKeysWithPrefix K (pr_catalog repo @ ''::'' @ pr_layer_id repo @ ''::'') s"

fun clear_partitions ::
  "'s kv_ops \<Rightarrow> partitions_repo \<Rightarrow> Partition list \<Rightarrow> bool \<Rightarrow> 's \<Rightarrow> ('s \<times> bool) option" where
  "clear_partitions K repo [] passed s = Some (s, passed)"
| "clear_partitions K repo (part # partitions) passed s = do {
     (s, r1) \<leftarrow> kv_RemoveKeysWithPrefix K (pr_catalog repo @ ''::'' @ pr_layer_id repo @ ''::'' @ p_data_handle part) s;
     (s, r2) \<leftarrow> kv_RemoveKeysWithPrefix K (pr_catalog repo @ ''::'' @ pr_layer_id repo @ ''::'' @ p_partition part) s;
     clear_partitions K repo partitions (r2 \<and> r1 \<and> passed) s }"

definition ClearPartitions ::
  "'s kv_ops \<Rightarrow> 'd json_lib \<Rightarrow> partitions_repo \<Rightarrow> string list \<Rightarrow> u64 option \<Rightarrow> 's \<Rightarrow> ('s \<times> bool) option" where
  "ClearPartitions K J repo partition_ids version s = do {
     (s, cached_partitions) \<leftarrow> Partitions_Get K J repo partition_ids version s;
     clear_partitions K repo (ps_partitions cached_partitions) True s }"

definition ClearQuadTree ::
  "'s kv_ops \<Rightarrow> partitions_repo \<Rightarrow> TileKey \<Rightarrow> u32 \<Rightarrow> u64 option \<Rightarrow> 's \<Rightarrow> ('s \<times> (ErrorCode + unit)) option" where
  "ClearQuadTree K repo tile depth version s = kv_DeleteByPrefix K (quad_tree_key repo version depth tile) s"

text \<open>\<open>ClearPartitionMetadata\<close>: the response and the partition that was cached.\<close>

definition ClearPartitionMetadata ::
  "'s kv_ops \<Rightarrow> 'd json_lib \<Rightarrow> partitions_repo \<Rightarrow> string \<Rightarrow> u64 option \<Rightarrow> 's
    \<Rightarrow> ('s \<times> (ErrorCode + unit) \<times> Partition option) option" where
  "ClearPartitionMetadata K J repo partition_id catalog_version s =
     (let key = partition_key repo catalog_version partition_id in do {
        (s, read_response) \<leftarrow> kv_Read K key s;
        case read_response of
          Inl e \<Rightarrow> if e = NotFound then Some (s, Inr (), None) else Some (s, Inl e, None)
        | Inr text \<Rightarrow> do {
            out_partition \<leftarrow> parse_partition J text;
            (s, r) \<leftarrow> kv_DeleteByPrefix K key s;
            Some (s, r, Some out_partition) } })"

definition GetPartitionHandle ::
  "'s kv_ops \<Rightarrow> 'd json_lib \<Rightarrow> partitions_repo \<Rightarrow> string \<Rightarrow> u64 option \<Rightarrow> 's \<Rightarrow> ('s \<times> string option) option" where
  "GetPartitionHandle K J repo partition_id catalog_version s = do {
     (s, read_response) \<leftarrow> kv_Read K (partition_key repo catalog_version partition_id) s;
     case read_response of
       Inl _ \<Rightarrow> Some (s, None)
     | Inr text \<Rightarrow> do { part \<leftarrow> parse_partition J text; Some (s, Some (p_data_handle part)) } }"

text \<open>The loop of \<open>FindQuadTree\<close> from \<open>i = max_depth\<close> down to 0.\<close>

fun find_quad_tree ::
  "'s kv_ops \<Rightarrow> partitions_repo \<Rightarrow> TileKey \<Rightarrow> u64 option \<Rightarrow> nat \<Rightarrow> 's \<Rightarrow> ('s \<times> u8 list option option) option" where
  "find_quad_tree K repo key version i s = do {
     let root_tile_key = ChangedLevelBy (- int i) key;
     (s, cached_tree) \<leftarrow> QuadTree_Get K repo root_tile_key kMaxDepth version s;
     case cached_tree of
       Some tree \<Rightarrow> Some (s, Some tree)
     | None \<Rightarrow> (case i of 0 \<Rightarrow> Some (s, None) | Suc j \<Rightarrow> find_quad_tree K repo key version j s) }"

declare find_quad_tree.simps [simp del]

definition FindQuadTree ::
  "'s kv_ops \<Rightarrow> partitions_repo \<Rightarrow> TileKey \<Rightarrow> u64 option \<Rightarrow> 's \<Rightarrow> ('s \<times> u8 list option option) option" where
  "FindQuadTree K repo key version s = find_quad_tree K repo key version (unat (min (level key) kMaxDepth)) s"

definition ContainsTree :: "'s kv_ops \<Rightarrow> partitions_repo \<Rightarrow> TileKey \<Rightarrow> u32 \<Rightarrow> u64 option \<Rightarrow> 's \<Rightarrow> bool option" where
  "ContainsTree K repo key depth version s = kv_Contains K (quad_tree_key repo version depth key) s"

definition CreatePartitionKeys ::
  "'s kv_ops \<Rightarrow> 'd json_lib \<Rightarrow> partitions_repo \<Rightarrow> string \<Rightarrow> u64 option \<Rightarrow> 's \<Rightarrow> ('s \<times> string list) option" where
  "CreatePartitionKeys K J repo partition_id version s = do {
     (s, handle) \<leftarrow> GetPartitionHandle K J repo partition_id version s;
     case handle of
       Some h \<Rightarrow> Some (s, [partition_key repo version partition_id, CreateDataHandleKey (pr_catalog repo) (pr_layer_id repo) h])
     | None \<Rightarrow> Some (s, []) }"

fun create_keys ::
  "'s kv_ops \<Rightarrow> 'd json_lib \<Rightarrow> partitions_repo \<Rightarrow> string list \<Rightarrow> u64 option \<Rightarrow> 's \<Rightarrow> ('s \<times> string list) option" where
  "create_keys K J repo [] version s = Some (s, [])"
| "create_keys K J repo (partition_id # partition_ids) version s = do {
     (s, partition_keys) \<leftarrow> CreatePartitionKeys K J repo partition_id version s;
     (s, keys) \<leftarrow> create_keys K J repo partition_ids version s;
     Some (s, partition_keys @ keys) }"

definition Partitions_Protect ::
  "'s kv_ops \<Rightarrow> 'd json_lib \<Rightarrow> partitions_repo \<Rightarrow> string list \<Rightarrow> u64 option \<Rightarrow> 's \<Rightarrow> ('s \<times> bool) option" where
  "Partitions_Protect K J repo partition_ids version s = do {
     (s, keys) \<leftarrow> create_keys K J repo partition_ids version s;
     if keys = [] then Some (s, False) else kv_Protect K keys s }"

definition Partitions_Release ::
  "'s kv_ops \<Rightarrow> 'd json_lib \<Rightarrow> partitions_repo \<Rightarrow> string list \<Rightarrow> u64 option \<Rightarrow> 's \<Rightarrow> ('s \<times> bool) option" where
  "Partitions_Release K J repo partition_ids version s = do {
     (s, keys) \<leftarrow> create_keys K J repo partition_ids version s;
     if keys = [] then Some (s, False) else kv_Release K keys s }"

section \<open>CatalogCacheRepository\<close>

text \<open>The name of the catalog stands for \<open>hrn_.ToCatalogHRNString()\<close>.\<close>

definition Catalog_Put :: "'s kv_ops \<Rightarrow> 'd json_lib \<Rightarrow> data_repo \<Rightarrow> Catalog \<Rightarrow> 's \<Rightarrow> ('s \<times> bool) option" where
  "Catalog_Put K J repo catalog s =
     kv_Put K (CreateCatalogKey (dr_hrn repo)) (AnyCatalog catalog) (lib_text J (to_json_Catalog catalog)) (dr_default_expiry repo) s"

definition parse_catalog :: "'d json_lib \<Rightarrow> string \<Rightarrow> Catalog option" where
  "parse_catalog J text = parse_text (lib_parse J) Catalog_new (from_json_Catalog (lib_numbers J)) text"

definition Catalog_Get :: "'s kv_ops \<Rightarrow> 'd json_lib \<Rightarrow> data_repo \<Rightarrow> 's \<Rightarrow> ('s \<times> Catalog option) option" where
  "Catalog_Get K J repo s = do {
     (s, cached_catalog) \<leftarrow> kv_Get K (CreateCatalogKey (dr_hrn repo)) (\<lambda>text. any_of AnyCatalog (parse_catalog J text)) s;
     case cached_catalog of
       None \<Rightarrow> Some (s, None)
     | Some (Object (AnyCatalog catalog)) \<Rightarrow> Some (s, Some catalog)
     | _ \<Rightarrow> None }"

definition Catalog_PutVersion :: "'s kv_ops \<Rightarrow> 'd json_lib \<Rightarrow> data_repo \<Rightarrow> VersionResponse \<Rightarrow> 's \<Rightarrow> ('s \<times> bool) option" where
  "Catalog_PutVersion K J repo version s =
     kv_Put K (CreateLatestVersionKey (dr_hrn repo)) (AnyVersion version) (lib_text J (to_json_VersionResponse version))
       (dr_default_expiry repo) s"

definition parse_version :: "'d json_lib \<Rightarrow> string \<Rightarrow> VersionResponse option" where
  "parse_version J text = parse_text (lib_parse J) VersionResponse_new (from_json_VersionResponse (lib_numbers J)) text"

definition Catalog_GetVersion :: "'s kv_ops \<Rightarrow> 'd json_lib \<Rightarrow> data_repo \<Rightarrow> 's \<Rightarrow> ('s \<times> VersionResponse option) option" where
  "Catalog_GetVersion K J repo s = do {
     (s, cached_version) \<leftarrow> kv_Get K (CreateLatestVersionKey (dr_hrn repo)) (\<lambda>text. any_of AnyVersion (parse_version J text)) s;
     case cached_version of
       None \<Rightarrow> Some (s, None)
     | Some (Object (AnyVersion version)) \<Rightarrow> Some (s, Some version)
     | _ \<Rightarrow> None }"

definition Catalog_Clear :: "'s kv_ops \<Rightarrow> data_repo \<Rightarrow> 's \<Rightarrow> ('s \<times> bool) option" where
  "Catalog_Clear K repo s = kv_RemoveKeysWithPrefix K (dr_hrn repo) s"

section \<open>ApiCacheRepository\<close>

definition kLookupApiExpiryTime :: time_t where
  "kLookupApiExpiryTime = 3600"

text \<open>The repository of the core library; the one of the read service always uses the default expiry time.\<close>

definition Api_Put :: "'s kv_ops \<Rightarrow> string \<Rightarrow> string \<Rightarrow> string \<Rightarrow> string \<Rightarrow> time_t option \<Rightarrow> 's \<Rightarrow> 's option" where
  "Api_Put K hrn service version url expiry s =
     map_option fst (kv_Put K (CreateApiKey hrn service version) (AnyString url) url (value_or expiry kLookupApiExpiryTime) s)"

definition read_Api_Put :: "'s kv_ops \<Rightarrow> string \<Rightarrow> string \<Rightarrow> string \<Rightarrow> string \<Rightarrow> 's \<Rightarrow> 's option" where
  "read_Api_Put K hrn service version url s =
     map_option fst (kv_Put K (CreateApiKey hrn service version) (AnyString url) url kLookupApiExpiryTime s)"

definition Api_Get :: "'s kv_ops \<Rightarrow> string \<Rightarrow> string \<Rightarrow> string \<Rightarrow> 's \<Rightarrow> ('s \<times> string option) option" where
  "Api_Get K hrn service version s = do {
     (s, url) \<leftarrow> kv_Get K (CreateApiKey hrn service version) AnyString s;
     case url of
       None \<Rightarrow> Some (s, None)
     | Some (Object (AnyString u)) \<Rightarrow> Some (s, Some u)
     | _ \<Rightarrow> None }"

section \<open>The contract of a lossy cache\<close>

text \<open>\<open>holds s f\<close>: everything that the cache in state \<open>s\<close> can return is in the map \<open>f\<close>. A cache may forget at any
time, but it never returns what was overwritten or removed. Reading bytes where an object is stored is a bad cast.\<close>

locale lossy_cache =
  fixes K :: "'s kv_ops"
    and holds :: "'s \<Rightarrow> (string \<Rightarrow> any_value cached option) \<Rightarrow> bool"
    and time_ok :: "time_t \<Rightarrow> bool"
  assumes holds_mono: "holds s f \<Longrightarrow> f \<subseteq>\<^sub>m f' \<Longrightarrow> holds s f'"
    and read_law: "holds s f \<Longrightarrow> \<forall>v. f key \<noteq> Some (Object v) \<Longrightarrow>
      \<exists>s' r. kv_Read K key s = Some (s', r) \<and> holds s' f \<and> (\<forall>b. r = Inr b \<longrightarrow> f key = Some (Bytes b))"
    and get_bytes_law: "holds s f \<Longrightarrow> \<forall>v. f key \<noteq> Some (Object v) \<Longrightarrow>
      \<exists>s' r. kv_Get_bytes K key s = Some (s', r) \<and> holds s' f \<and> (\<forall>b. r = Some b \<longrightarrow> f key = Some (Bytes b))"
    and write_law: "holds s f \<Longrightarrow> time_ok expiry \<Longrightarrow>
      \<exists>s'. kv_Write K key (Some b) expiry s = Some (s', Inr ()) \<and> holds s' (f(key \<mapsto> Bytes b))"
    and put_law: "holds s f \<Longrightarrow> time_ok expiry \<Longrightarrow>
      \<exists>s'. kv_Put K key v encoded expiry s = Some (s', True) \<and> holds s' (f(key \<mapsto> Object v))"
    and get_law: "holds s f \<Longrightarrow>
      \<exists>s' r. kv_Get K key decoder s = Some (s', r) \<and> holds s' f \<and> (\<forall>c. r = Some c \<longrightarrow> f key = Some c)"
    and contains_law: "holds s f \<Longrightarrow> \<exists>r. kv_Contains K key s = Some r \<and> (r \<longrightarrow> f key \<noteq> None)"
    and delete_law: "holds s f \<Longrightarrow>
      \<exists>s'. kv_DeleteByPrefix K pre s = Some (s', Inr ()) \<and> holds s' (\<lambda>k. if prefix pre k then None else f k)"
    and promote_law: "holds s f \<Longrightarrow> \<exists>s'. kv_Promote K key s = Some s' \<and> holds s' f"
    and protect_law: "holds s f \<Longrightarrow> \<exists>s' r. kv_Protect K keys s = Some (s', r) \<and> holds s' f"
    and release_law: "holds s f \<Longrightarrow> \<exists>s' r. kv_Release K keys s = Some (s', r) \<and> holds s' f"

section \<open>The default cache without disk caches\<close>

definition memory_only :: "(any_value, 'db) default_cache \<Rightarrow> bool" where
  "memory_only s \<longleftrightarrow> is_open s \<and> mutable_cache s = None \<and> mutable_cache_lru s = None \<and> protected_cache s = None
     \<and> (\<forall>k. \<not> IsProtected k (protected_keys s))"

definition memory_holds :: "(any_value, 'db) default_cache \<Rightarrow> (string \<Rightarrow> any_value cached option) \<Rightarrow> bool" where
  "memory_holds s f \<longleftrightarrow> memory_only s \<and> (\<exists>mem l. memory_cache s = Some mem \<and> imc_rel mem l
     \<and> (\<forall>k t. map_of l k = Some t \<longrightarrow> (\<exists>c. tuple_item t = Some c \<and> f k = Some c)))"

definition memory_time_ok :: "time_t \<Rightarrow> time_t \<Rightarrow> bool" where
  "memory_time_ok now expiry \<longleftrightarrow> 0 < expiry \<and> (expiry \<noteq> time_max \<longrightarrow> time_add expiry now \<noteq> None)"

lemma memory_only_update [simp]: "memory_only (s\<lparr>memory_cache := m\<rparr>) = memory_only s"
  by (simp add: memory_only_def)

lemma memory_holdsI:
  assumes "memory_only s" and "memory_cache s = Some mem" and "imc_rel mem l"
    and "\<And>k t. map_of l k = Some t \<Longrightarrow> \<exists>c. tuple_item t = Some c \<and> f k = Some c"
  shows "memory_holds s f"
  using assms unfolding memory_holds_def by blast

lemma memory_holds_mono: "memory_holds s f \<Longrightarrow> f \<subseteq>\<^sub>m f' \<Longrightarrow> memory_holds s f'"
  by (fastforce simp: memory_holds_def map_le_def dom_def)

lemma memory_get_law:
  assumes "memory_holds s f"
  shows "\<exists>s' r. memory_get now key s = Some (s', r) \<and> memory_holds s' f \<and> (\<forall>c. r = Some c \<longrightarrow> f key = Some c)"
proof -
  from assms obtain mem l where m: "memory_only s" "memory_cache s = Some mem" "imc_rel mem l"
    "\<And>k t. map_of l k = Some t \<Longrightarrow> \<exists>c. tuple_item t = Some c \<and> f k = Some c" by (auto simp: memory_holds_def)
  define r where "r = (case map_of l key of None \<Rightarrow> None | Some t \<Rightarrow> if tuple_expiry t < now then None else tuple_item t)"
  from Get_rel [OF m(3), of key now] obtain mem' l' where g: "InMemoryCache_Get key now mem = Some (mem', r)"
    "imc_rel mem' l'" "map_of l' \<subseteq>\<^sub>m map_of l" unfolding r_def by blast
  let ?s = "s\<lparr>memory_cache := Some mem'\<rparr>"
  have "memory_get now key s = Some (?s, r)"
    using m(1,2) g(1) by (cases r) (simp_all add: memory_get_def memory_only_def PromoteKeyLru_def Let_def)
  moreover have "memory_holds ?s f"
  proof (rule memory_holdsI)
    show "\<exists>c. tuple_item t = Some c \<and> f k = Some c" if "map_of l' k = Some t" for k t
      using m(4) [of k t] g(3) that by (force simp: map_le_def dom_def)
  qed (use m(1) g(2) in simp_all)
  moreover have "\<forall>c. r = Some c \<longrightarrow> f key = Some c" using m(4) [of key] by (auto simp: r_def split: option.splits if_splits)
  ultimately show ?thesis by blast
qed

lemma memory_disk_miss: "memory_only s \<Longrightarrow> GetFromDiskCache L now key s = Some (s, Inl NotFound)"
  by (simp add: memory_only_def GetFromDiskCache_def)

lemma memory_put_law:
  assumes "memory_holds s f" and "memory_time_ok now expiry"
  shows "\<exists>s'. memory_put now key (Some c) expiry sz s = Some s' \<and> memory_holds s' (f(key \<mapsto> c))"
proof -
  from assms(1) obtain mem l where m: "memory_only s" "memory_cache s = Some mem" "imc_rel mem l"
    "\<And>k t. map_of l k = Some t \<Longrightarrow> \<exists>c. tuple_item t = Some c \<and> f k = Some c" by (auto simp: memory_holds_def)
  have e: "GetExpiryForMemoryCache key expiry s = expiry" using m(1) by (simp add: GetExpiryForMemoryCache_def memory_only_def)
  have "times_ok (IPut key (Some c) expiry sz now now)" using assms(2)
    by (auto simp: memory_time_ok_def HasExpiry_def kExpiryMax_def)
  from Put_rel [OF m(3) this] obtain mem' b l' where p: "InMemoryCache_Put key (Some c) expiry sz now now mem = Some (mem', b)"
    "imc_rel mem' l'" "map_of l' \<subseteq>\<^sub>m imc_spec (IPut key (Some c) expiry sz now now) (map_of l)" by blast
  have l': "map_of l' \<subseteq>\<^sub>m (map_of l)(key \<mapsto> the_tuple key (Some c) expiry sz now)"
    using p(3) assms(2) by (simp add: memory_time_ok_def)
  have "memory_holds (s\<lparr>memory_cache := Some mem'\<rparr>) (f(key \<mapsto> c))"
  proof (rule memory_holdsI)
    show "\<exists>x. tuple_item t = Some x \<and> (f(key \<mapsto> c)) k = Some x" if "map_of l' k = Some t" for k t
    proof -
      have "((map_of l)(key \<mapsto> the_tuple key (Some c) expiry sz now)) k = Some t"
        using l' that by (force simp: map_le_def dom_def)
      then show ?thesis using m(4) [of k t] by (auto simp: the_tuple_def split: if_splits)
    qed
  qed (use m(1) p(2) in simp_all)
  then show ?thesis using m(2) p(1) e by (simp add: memory_put_def)
qed

lemma memory_no_disk_put: "memory_only s \<Longrightarrow> PutMutableCache L now key v expiry s = Some (s, Inr ())"
  by (simp add: memory_only_def PutMutableCache_def)

lemma memory_holds_only: "memory_holds s f \<Longrightarrow> memory_only s"
  by (simp add: memory_holds_def)

lemma memory_delete_law:
  assumes "memory_holds s f"
  shows "\<exists>s'. DeleteByPrefix L pre s = Some (s', Inr ()) \<and> memory_holds s' (\<lambda>k. if prefix pre k then None else f k)"
proof -
  from assms obtain mem l where m: "memory_only s" "memory_cache s = Some mem" "imc_rel mem l"
    "\<And>k t. map_of l k = Some t \<Longrightarrow> \<exists>c. tuple_item t = Some c \<and> f k = Some c" by (auto simp: memory_holds_def)
  let ?flt = "\<lambda>k. IsProtected k (protected_keys s)"
  from RemoveKeysWithPrefix_rel [OF m(3), of pre ?flt] obtain mem' where
    d: "InMemoryCache.RemoveKeysWithPrefix pre ?flt mem = Some mem'"
      "imc_rel mem' (filter (\<lambda>e. \<not> (prefix pre (fst e) \<and> \<not> ?flt (fst e))) l)" by blast
  let ?s = "s\<lparr>memory_cache := Some mem'\<rparr>"
  have "map_of (filter (\<lambda>e. \<not> (prefix pre (fst e) \<and> \<not> ?flt (fst e))) l) k = (if prefix pre k then None else map_of l k)" for k
    using m(1) map_of_filter_fst [of "\<lambda>k. \<not> (prefix pre k \<and> \<not> ?flt k)" l k] by (simp add: memory_only_def)
  note l' = this
  have "memory_holds ?s (\<lambda>k. if prefix pre k then None else f k)"
  proof (rule memory_holdsI [OF _ _ d(2)])
    show "\<exists>c. tuple_item t = Some c \<and> (if prefix pre k then None else f k) = Some c"
      if "map_of (filter (\<lambda>e. \<not> (prefix pre (fst e) \<and> \<not> ?flt (fst e))) l) k = Some t" for k t
      using that m(4) [of k t] unfolding l' by (auto split: if_splits)
  qed (use m(1) in simp_all)
  moreover have "DeleteByPrefix L pre s = Some (?s, Inr ())"
    using m(1,2) d(1) by (simp add: DeleteByPrefix_def memory_only_def RemoveKeysWithPrefixLru_def)
  ultimately show ?thesis by blast
qed

text \<open>An item without a value is never stored: \<open>Put\<close> and \<open>Write\<close> give one.\<close>

lemma memory_contains:
  assumes "memory_holds s f"
  shows "\<exists>r. DefaultCache_Contains L now key s = Some r \<and> (r \<longrightarrow> f key \<noteq> None)"
proof -
  from assms obtain mem l where m: "memory_only s" "memory_cache s = Some mem" "imc_rel mem l"
    "\<And>k t. map_of l k = Some t \<Longrightarrow> \<exists>c. tuple_item t = Some c \<and> f k = Some c" by (auto simp: memory_holds_def)
  have "\<exists>r. InMemoryCache_Contains key now mem = Some r \<and> (r \<longrightarrow> map_of l key \<noteq> None)"
  proof -
    from m(3) have r: "lru_rel (item_tuples mem) l" by (simp add: imc_rel_def)
    note FindNoPromote_rel [OF r, of key] it_value_rel [OF r, of key]
    then show ?thesis by (auto simp: InMemoryCache_Contains_def Let_def split: option.splits)
  qed
  then show ?thesis using m(1,2) m(4) [of key] by (auto simp: DefaultCache_Contains_def memory_only_def)
qed

interpretation memory: lossy_cache "default_kv L now" memory_holds "memory_time_ok now"
proof
  fix s :: "(any_value, 'a) default_cache" and f f' :: "string \<Rightarrow> any_value cached option"
    and key pre b encoded :: string and v :: any_value and expiry :: time_t and decoder :: "string \<Rightarrow> any_value" and keys :: "string list"
  assume h: "memory_holds s f"
  note only = memory_holds_only [OF h]
  from memory_get_law [OF h, of now key] obtain s1 r1 where get: "memory_get now key s = Some (s1, r1)" "memory_holds s1 f"
    "\<forall>c. r1 = Some c \<longrightarrow> f key = Some c" by blast
  note miss = memory_disk_miss [OF memory_holds_only [OF get(2)]]
  have op: "is_open s" using only by (simp add: memory_only_def)
  show "f \<subseteq>\<^sub>m f' \<Longrightarrow> memory_holds s f'" using memory_holds_mono [OF h] .
  show read: "\<exists>s' r. kv_Read (default_kv L now) key s = Some (s', r) \<and> memory_holds s' f \<and> (\<forall>b. r = Inr b \<longrightarrow> f key = Some (Bytes b))"
    if "\<forall>v. f key \<noteq> Some (Object v)"
    using get that op by (cases r1) (auto simp: default_kv_def Read_def miss split: cached.splits)
  show "\<exists>s' r. kv_Get_bytes (default_kv L now) key s = Some (s', r) \<and> memory_holds s' f \<and> (\<forall>b. r = Some b \<longrightarrow> f key = Some (Bytes b))"
    if "\<forall>v. f key \<noteq> Some (Object v)"
    using read [OF that] by (auto simp: default_kv_def DefaultCache_Get_def split: sum.splits)
  show "\<exists>s' r. kv_Get (default_kv L now) key decoder s = Some (s', r) \<and> memory_holds s' f \<and> (\<forall>c. r = Some c \<longrightarrow> f key = Some c)"
    using get op by (cases r1) (auto simp: default_kv_def DefaultCache_Get_any_def miss)
  show "\<exists>s'. kv_Write (default_kv L now) key (Some b) expiry s = Some (s', Inr ()) \<and> memory_holds s' (f(key \<mapsto> Bytes b))"
    if "memory_time_ok now expiry"
  proof -
    from memory_put_law [OF h that, of key "Bytes b" "len b"] obtain s' where
      "memory_put now key (Some (Bytes b)) expiry (len b) s = Some s'" "memory_holds s' (f(key \<mapsto> Bytes b))" by blast
    then show ?thesis using op memory_no_disk_put [OF memory_holds_only, of s'] by (auto simp: default_kv_def Write_def)
  qed
  show "\<exists>s'. kv_Put (default_kv L now) key v encoded expiry s = Some (s', True) \<and> memory_holds s' (f(key \<mapsto> Object v))"
    if "memory_time_ok now expiry"
  proof -
    from memory_put_law [OF h that, of key "Object v" "len encoded"] obtain s' where
      "memory_put now key (Some (Object v)) expiry (len encoded) s = Some s'" "memory_holds s' (f(key \<mapsto> Object v))" by blast
    then show ?thesis using op memory_no_disk_put [OF memory_holds_only, of s'] by (auto simp: default_kv_def DefaultCache_Put_any_def)
  qed
  show "\<exists>r. kv_Contains (default_kv L now) key s = Some r \<and> (r \<longrightarrow> f key \<noteq> None)"
    using memory_contains [OF h] by (simp add: default_kv_def)
  show "\<exists>s'. kv_DeleteByPrefix (default_kv L now) pre s = Some (s', Inr ()) \<and> memory_holds s' (\<lambda>k. if prefix pre k then None else f k)"
    using memory_delete_law [OF h] by (simp add: default_kv_def)
  show "\<exists>s'. kv_Promote (default_kv L now) key s = Some s' \<and> memory_holds s' f"
    using only h by (simp add: default_kv_def DefaultCache_Promote_def memory_only_def)
  show "\<exists>s' r. kv_Protect (default_kv L now) keys s = Some (s', r) \<and> memory_holds s' f"
    using only h by (intro exI [of _ s] exI [of _ False]) (simp add: default_kv_def DefaultCache_Protect_def memory_only_def)
  show "\<exists>s' r. kv_Release (default_kv L now) keys s = Some (s', r) \<and> memory_holds s' f"
    using only h by (intro exI [of _ s] exI [of _ False]) (simp add: default_kv_def DefaultCache_Release_def memory_only_def)
qed

section \<open>What the repositories store\<close>

text \<open>The content of an item: raw bytes, a document, or an object.\<close>

datatype content = CBytes string | CPartition Partition | CIds "string list" | CObject any_value

fun enc_content :: "'d json_lib \<Rightarrow> content \<Rightarrow> any_value cached" where
  "enc_content J (CBytes b) = Bytes b"
| "enc_content J (CPartition p) = Bytes (lib_text J (to_json_Partition p))"
| "enc_content J (CIds ids) = Bytes (lib_text J (to_json_vector to_json_string ids))"
| "enc_content J (CObject v) = Object v"

text \<open>A document that the JSON library reads back as it was printed.\<close>

definition doc_ok :: "'d json_lib \<Rightarrow> 'd JsonModels.json \<Rightarrow> bool" where
  "doc_ok J v \<longleftrightarrow> lib_parse J (lib_text J v) = Some v"

fun kinded :: "'d json_lib \<Rightarrow> cache_item \<Rightarrow> content \<Rightarrow> bool" where
  "kinded J (DataItem _ _) (CBytes _) \<longleftrightarrow> True"
| "kinded J (QuadTreeItem _ _ _ _) (CBytes _) \<longleftrightarrow> True"
| "kinded J (PartitionItem _ i _) (CPartition p) \<longleftrightarrow> p_partition p = i \<and> doc_ok J (to_json_Partition p)"
| "kinded J (PartitionsItem _ _) (CIds ids) \<longleftrightarrow> doc_ok J (to_json_vector to_json_string ids) \<and> list_all no_colon ids"
| "kinded J CatalogItem (CObject (AnyCatalog _)) \<longleftrightarrow> True"
| "kinded J LatestVersionItem (CObject (AnyVersion _)) \<longleftrightarrow> True"
| "kinded J (LayerVersionsItem _) (CObject (AnyLayerVersions _)) \<longleftrightarrow> True"
| "kinded J (ApiItem _ _) (CObject (AnyString _)) \<longleftrightarrow> True"
| "kinded J _ _ \<longleftrightarrow> False"

text \<open>The items that are read as bytes.\<close>

fun bytes_item :: "cache_item \<Rightarrow> bool" where
  "bytes_item (DataItem _ _) \<longleftrightarrow> True"
| "bytes_item (QuadTreeItem _ _ _ _) \<longleftrightarrow> True"
| "bytes_item (PartitionItem _ _ _) \<longleftrightarrow> True"
| "bytes_item (PartitionsItem _ _) \<longleftrightarrow> True"
| "bytes_item _ \<longleftrightarrow> False"

text \<open>\<open>item_view\<close>: all that the cache can return are the contents \<open>g\<close> of items of the catalog.\<close>

definition item_view ::
  "('s \<Rightarrow> (string \<Rightarrow> any_value cached option) \<Rightarrow> bool) \<Rightarrow> string \<Rightarrow> 'd json_lib \<Rightarrow> 's \<Rightarrow> (cache_item \<Rightarrow> content option) \<Rightarrow> bool" where
  "item_view holds hrn J s g \<longleftrightarrow> (\<exists>f. holds s f \<and> (\<forall>k c. f k = Some c \<longrightarrow>
     (\<exists>it x. k = cache_key hrn it \<and> clean_item it \<and> kinded J it x \<and> g it = Some x \<and> c = enc_content J x)))"

definition drop_prefix :: "string \<Rightarrow> string \<Rightarrow> (cache_item \<Rightarrow> content option) \<Rightarrow> cache_item \<Rightarrow> content option" where
  "drop_prefix hrn pre g = (\<lambda>it. if prefix pre (cache_key hrn it) then None else g it)"

lemma bytes_content: "bytes_item it \<Longrightarrow> kinded J it x \<Longrightarrow> enc_content J x \<noteq> Object v"
  by (cases it; cases x) (auto elim: kinded.elims)

lemma parse_partition_text:
  assumes "doc_ok J (to_json_Partition p)"
  shows "parse_partition J (lib_text J (to_json_Partition p)) = Some p"
proof -
  have "\<exists>ms. to_json_Partition p = JsonModels.JObject ms" by (simp add: to_json_Partition_def)
  then have "parse_text (lib_parse J) Partition_new (from_json_Partition (lib_numbers J)) (lib_text J (to_json_Partition p))
      = from_json_Partition (lib_numbers J) (to_json_Partition p)"
    using assms unfolding doc_ok_def by (intro parse_text_document disjI1)
  then show ?thesis by (simp add: parse_partition_def)
qed

lemma parse_ids_text:
  fixes J :: "'d json_lib"
  assumes "doc_ok J (to_json_vector to_json_string ids)"
  shows "parse_ids J (lib_text J (to_json_vector to_json_string ids)) = Some ids"
proof -
  have "\<exists>vs. (to_json_vector to_json_string ids :: 'd JsonModels.json) = JsonModels.JArray vs" by (simp add: to_json_vector_def)
  then have "parse_text (lib_parse J) [] (from_json_vector from_json_string) (lib_text J (to_json_vector to_json_string ids))
      = from_json_vector from_json_string (to_json_vector to_json_string ids :: 'd JsonModels.json)"
    using assms unfolding doc_ok_def by (intro parse_text_document disjI2)
  then show ?thesis by (simp add: parse_ids_def)
qed

text \<open>The view of one item: the keys of two items differ, so a map below the view of the items is below it at the key of
an item, and stays below it when the item is given a content.\<close>

lemma view_item:
  assumes "item_view holds hrn J s g" and "clean_item it"
  obtains f where "holds s f" and "\<And>s'. holds s' f \<Longrightarrow> item_view holds hrn J s' g"
    and "\<And>c. f (cache_key hrn it) = Some c \<Longrightarrow> \<exists>x. g it = Some x \<and> kinded J it x \<and> enc_content J x = c"
    and "\<And>s' x. kinded J it x \<Longrightarrow> holds s' (f(cache_key hrn it \<mapsto> enc_content J x)) \<Longrightarrow> item_view holds hrn J s' (g(it \<mapsto> x))"
proof -
  from assms(1) obtain f where f: "holds s f" "\<forall>k c. f k = Some c \<longrightarrow>
     (\<exists>it x. k = cache_key hrn it \<and> clean_item it \<and> kinded J it x \<and> g it = Some x \<and> c = enc_content J x)"
    unfolding item_view_def by blast
  show thesis
  proof (rule that [OF f(1)])
    show "item_view holds hrn J s' g" if "holds s' f" for s' using that f(2) unfolding item_view_def by blast
    show "\<exists>x. g it = Some x \<and> kinded J it x \<and> enc_content J x = c" if "f (cache_key hrn it) = Some c" for c
      using f(2) that cache_key_inject assms(2) by blast
    show "item_view holds hrn J s' (g(it \<mapsto> x))" if x: "kinded J it x" "holds s' (f(cache_key hrn it \<mapsto> enc_content J x))" for s' x
    proof -
      have "\<exists>it' x'. k = cache_key hrn it' \<and> clean_item it' \<and> kinded J it' x' \<and> (g(it \<mapsto> x)) it' = Some x' \<and> c = enc_content J x'"
        if c: "(f(cache_key hrn it \<mapsto> enc_content J x)) k = Some c" for k c
      proof (cases "k = cache_key hrn it")
        case True
        then show ?thesis using c x(1) assms(2) by (intro exI [of _ it] exI [of _ x]) simp
      next
        case False
        with c have "f k = Some c" by simp
        with f(2) obtain it' x' where "k = cache_key hrn it'" "clean_item it'" "kinded J it' x'" "g it' = Some x'" "c = enc_content J x'"
          by blast
        moreover from this False have "it' \<noteq> it" by blast
        ultimately show ?thesis by (intro exI [of _ it'] exI [of _ x']) simp
      qed
      with x(2) show ?thesis unfolding item_view_def by blast
    qed
  qed
qed

lemma view_mono: "item_view holds hrn J s g \<Longrightarrow> (\<And>it x. g it = Some x \<Longrightarrow> g' it = Some x) \<Longrightarrow> item_view holds hrn J s g'"
  unfolding item_view_def by blast

lemma drop_prefix_view: "item_view holds hrn J s (drop_prefix hrn pre g) \<Longrightarrow> item_view holds hrn J s g"
  by (erule view_mono) (simp add: drop_prefix_def split: if_splits)

context lossy_cache
begin

lemma view_read:
  assumes "item_view holds hrn J s g" and "clean_item it" and "bytes_item it"
  shows "\<exists>s' r. kv_Read K (cache_key hrn it) s = Some (s', r) \<and> item_view holds hrn J s' g
    \<and> (\<forall>b. r = Inr b \<longrightarrow> (\<exists>x. g it = Some x \<and> kinded J it x \<and> enc_content J x = Bytes b))"
proof -
  obtain f where f: "holds s f" "\<And>s'. holds s' f \<Longrightarrow> item_view holds hrn J s' g"
    "\<And>c. f (cache_key hrn it) = Some c \<Longrightarrow> \<exists>x. g it = Some x \<and> kinded J it x \<and> enc_content J x = c"
    by (rule view_item [OF assms(1,2)], rule that)
  then have "\<forall>v. f (cache_key hrn it) \<noteq> Some (Object v)" using bytes_content [OF assms(3)] by metis
  from read_law [OF f(1) this] f(2,3) show ?thesis by metis
qed

lemma view_get_bytes:
  assumes "item_view holds hrn J s g" and "clean_item it" and "bytes_item it"
  shows "\<exists>s' r. kv_Get_bytes K (cache_key hrn it) s = Some (s', r) \<and> item_view holds hrn J s' g
    \<and> (\<forall>b. r = Some b \<longrightarrow> (\<exists>x. g it = Some x \<and> kinded J it x \<and> enc_content J x = Bytes b))"
proof -
  obtain f where f: "holds s f" "\<And>s'. holds s' f \<Longrightarrow> item_view holds hrn J s' g"
    "\<And>c. f (cache_key hrn it) = Some c \<Longrightarrow> \<exists>x. g it = Some x \<and> kinded J it x \<and> enc_content J x = c"
    by (rule view_item [OF assms(1,2)], rule that)
  then have "\<forall>v. f (cache_key hrn it) \<noteq> Some (Object v)" using bytes_content [OF assms(3)] by metis
  from get_bytes_law [OF f(1) this] f(2,3) show ?thesis by metis
qed

lemma view_get:
  assumes "item_view holds hrn J s g" and "clean_item it"
  shows "\<exists>s' r. kv_Get K (cache_key hrn it) decoder s = Some (s', r) \<and> item_view holds hrn J s' g
    \<and> (\<forall>c. r = Some c \<longrightarrow> (\<exists>x. g it = Some x \<and> kinded J it x \<and> enc_content J x = c))"
proof -
  obtain f where f: "holds s f" "\<And>s'. holds s' f \<Longrightarrow> item_view holds hrn J s' g"
    "\<And>c. f (cache_key hrn it) = Some c \<Longrightarrow> \<exists>x. g it = Some x \<and> kinded J it x \<and> enc_content J x = c"
    by (rule view_item [OF assms(1,2)], rule that)
  from get_law [OF f(1)] f(2,3) show ?thesis by metis
qed

lemma view_write:
  assumes "item_view holds hrn J s g" and "clean_item it" and "kinded J it x" and "enc_content J x = Bytes b" and "time_ok e"
  shows "\<exists>s'. kv_Write K (cache_key hrn it) (Some b) e s = Some (s', Inr ()) \<and> item_view holds hrn J s' (g(it \<mapsto> x))"
proof -
  obtain f where f: "holds s f"
    "\<And>s' x. kinded J it x \<Longrightarrow> holds s' (f(cache_key hrn it \<mapsto> enc_content J x)) \<Longrightarrow> item_view holds hrn J s' (g(it \<mapsto> x))"
    by (rule view_item [OF assms(1,2)], rule that)
  from write_law [OF f(1) assms(5)] f(2) [OF assms(3)] show ?thesis unfolding assms(4) by metis
qed

lemma view_put:
  assumes "item_view holds hrn J s g" and "clean_item it" and "kinded J it (CObject v)" and "time_ok e"
  shows "\<exists>s'. kv_Put K (cache_key hrn it) v encoded e s = Some (s', True) \<and> item_view holds hrn J s' (g(it \<mapsto> CObject v))"
proof -
  obtain f where f: "holds s f"
    "\<And>s' x. kinded J it x \<Longrightarrow> holds s' (f(cache_key hrn it \<mapsto> enc_content J x)) \<Longrightarrow> item_view holds hrn J s' (g(it \<mapsto> x))"
    by (rule view_item [OF assms(1,2)], rule that)
  from put_law [OF f(1) assms(4)] f(2) [OF assms(3)] show ?thesis by (metis enc_content.simps(4))
qed

lemma view_delete:
  assumes "item_view holds hrn J s g"
  shows "\<exists>s'. kv_DeleteByPrefix K pre s = Some (s', Inr ()) \<and> item_view holds hrn J s' (drop_prefix hrn pre g)"
proof -
  from assms obtain f where f: "holds s f" "\<forall>k c. f k = Some c \<longrightarrow>
     (\<exists>it x. k = cache_key hrn it \<and> clean_item it \<and> kinded J it x \<and> g it = Some x \<and> c = enc_content J x)"
    unfolding item_view_def by blast
  define f' where "f' = (\<lambda>k. if prefix pre k then None else f k)"
  from delete_law [OF f(1)] obtain s' where d: "kv_DeleteByPrefix K pre s = Some (s', Inr ())" "holds s' f'"
    unfolding f'_def by blast
  have "\<exists>it x. k = cache_key hrn it \<and> clean_item it \<and> kinded J it x \<and> drop_prefix hrn pre g it = Some x \<and> c = enc_content J x"
    if c: "f' k = Some c" for k c
  proof -
    have "f k = Some c" "\<not> prefix pre k" using c by (simp_all add: f'_def split: if_splits)
    moreover from this(1) f(2) obtain it x where
      "k = cache_key hrn it" "clean_item it" "kinded J it x" "g it = Some x" "c = enc_content J x" by blast
    ultimately show ?thesis by (intro exI [of _ it] exI [of _ x]) (simp add: drop_prefix_def)
  qed
  with d(2) have "item_view holds hrn J s' (drop_prefix hrn pre g)" unfolding item_view_def by blast
  with d(1) show ?thesis by blast
qed

end

end
