(* ===== verification/RepositoryGuarantees.thy ===== *)
theory RepositoryGuarantees
  imports CacheRepositories
begin

text \<open>
  What the repositories of one catalog promise when they share a cache: over any sequence of their operations the run is
  defined (no value is cast to the type of another), and everything that is read is what was last stored for the item.
  Everything is proved against the contract \<open>lossy_cache\<close> and applied to the default cache.
\<close>

section \<open>Operations of the repositories of one catalog\<close>

datatype repo_op =
    PutData string string string
  | GetData string string
  | CachedData string string
  | ClearData string string
  | PromoteData string string
  | PutPartitions string Partitions "u64 option" "time_t option" bool
  | GetPartitions string "string list" "u64 option"
  | GetRequest string "string list" "u64 option"
  | HandleOf string string "u64 option"
  | ClearMetadata string string "u64 option"
  | ClearListed string "string list" "u64 option"
  | ClearLayer string
  | ProtectPartitions string "string list" "u64 option"
  | ReleasePartitions string "string list" "u64 option"
  | PutTree string TileKey u32 "u8 list option" "u64 option"
  | GetTree string TileKey u32 "u64 option"
  | FindTree string TileKey "u64 option"
  | ClearTree string TileKey u32 "u64 option"
  | PutLayerVersions u64 LayerVersions
  | GetLayerVersions u64
  | PutCatalog Catalog
  | GetCatalog
  | PutVersion VersionResponse
  | GetVersion
  | ClearCatalog
  | PutApi string string string
  | GetApi string string

datatype repo_result =
    RVoid
  | RBool bool
  | RStatus "ErrorCode + unit"
  | RData "string option"
  | RPartitions "Partition list"
  | RRequest "Partition list option"
  | RCleared "ErrorCode + unit" "Partition option"
  | RTree "u8 list option option"
  | RLayerVersions "LayerVersions option"
  | RCatalog "Catalog option"
  | RVersion "VersionResponse option"

definition res :: "('r \<Rightarrow> repo_result) \<Rightarrow> ('s \<times> 'r) option \<Rightarrow> ('s \<times> repo_result) option" where
  "res f x = map_option (\<lambda>(s, r). (s, f r)) x"

fun repo_step ::
  "'s kv_ops \<Rightarrow> 'd json_lib \<Rightarrow> string \<Rightarrow> int \<Rightarrow> repo_op \<Rightarrow> 's \<Rightarrow> ('s \<times> repo_result) option" where
  "repo_step K J hrn e (PutData layer handle b) s = res RStatus (Data_Put K (DataCacheRepository_new hrn e) (Some b) layer handle s)"
| "repo_step K J hrn e (GetData layer handle) s = res RData (Data_Get K (DataCacheRepository_new hrn e) layer handle s)"
| "repo_step K J hrn e (CachedData layer handle) s =
     map_option (\<lambda>b. (s, RBool b)) (Data_IsCached K (DataCacheRepository_new hrn e) layer handle s)"
| "repo_step K J hrn e (ClearData layer handle) s = res RStatus (Data_Clear K (DataCacheRepository_new hrn e) layer handle s)"
| "repo_step K J hrn e (PromoteData layer handle) s =
     map_option (\<lambda>s. (s, RVoid)) (Data_PromoteInCache K (DataCacheRepository_new hrn e) layer handle s)"
| "repo_step K J hrn e (PutPartitions layer ps version exp meta) s =
     res RStatus (Partitions_Put K J (PartitionsCacheRepository_new hrn layer e) ps version exp meta s)"
| "repo_step K J hrn e (GetPartitions layer ids version) s =
     res (\<lambda>ps. RPartitions (ps_partitions ps)) (Partitions_Get K J (PartitionsCacheRepository_new hrn layer e) ids version s)"
| "repo_step K J hrn e (GetRequest layer ids version) s =
     res (\<lambda>r. RRequest (map_option ps_partitions r))
       (Partitions_Get_request K J (PartitionsCacheRepository_new hrn layer e) ids version s)"
| "repo_step K J hrn e (HandleOf layer i version) s =
     res RData (GetPartitionHandle K J (PartitionsCacheRepository_new hrn layer e) i version s)"
| "repo_step K J hrn e (ClearMetadata layer i version) s =
     res (\<lambda>(r, p). RCleared r p) (ClearPartitionMetadata K J (PartitionsCacheRepository_new hrn layer e) i version s)"
| "repo_step K J hrn e (ClearListed layer ids version) s =
     res RBool (ClearPartitions K J (PartitionsCacheRepository_new hrn layer e) ids version s)"
| "repo_step K J hrn e (ClearLayer layer) s = res RBool (Partitions_Clear K (PartitionsCacheRepository_new hrn layer e) s)"
| "repo_step K J hrn e (ProtectPartitions layer ids version) s =
     res RBool (Partitions_Protect K J (PartitionsCacheRepository_new hrn layer e) ids version s)"
| "repo_step K J hrn e (ReleasePartitions layer ids version) s =
     res RBool (Partitions_Release K J (PartitionsCacheRepository_new hrn layer e) ids version s)"
| "repo_step K J hrn e (PutTree layer tile depth tree version) s =
     res RStatus (QuadTree_Put K (PartitionsCacheRepository_new hrn layer e) tile depth tree version s)"
| "repo_step K J hrn e (GetTree layer tile depth version) s =
     res RTree (QuadTree_Get K (PartitionsCacheRepository_new hrn layer e) tile depth version s)"
| "repo_step K J hrn e (FindTree layer tile version) s =
     res RTree (FindQuadTree K (PartitionsCacheRepository_new hrn layer e) tile version s)"
| "repo_step K J hrn e (ClearTree layer tile depth version) s =
     res RStatus (ClearQuadTree K (PartitionsCacheRepository_new hrn layer e) tile depth version s)"
| "repo_step K J hrn e (PutLayerVersions v lvs) s =
     res RBool (LayerVersions_Put K J (PartitionsCacheRepository_new hrn [] e) v lvs s)"
| "repo_step K J hrn e (GetLayerVersions v) s =
     res RLayerVersions (LayerVersions_Get K J (PartitionsCacheRepository_new hrn [] e) v s)"
| "repo_step K J hrn e (PutCatalog c) s = res RBool (Catalog_Put K J (DataCacheRepository_new hrn e) c s)"
| "repo_step K J hrn e GetCatalog s = res RCatalog (Catalog_Get K J (DataCacheRepository_new hrn e) s)"
| "repo_step K J hrn e (PutVersion v) s = res RBool (Catalog_PutVersion K J (DataCacheRepository_new hrn e) v s)"
| "repo_step K J hrn e GetVersion s = res RVersion (Catalog_GetVersion K J (DataCacheRepository_new hrn e) s)"
| "repo_step K J hrn e ClearCatalog s = res RBool (Catalog_Clear K (DataCacheRepository_new hrn e) s)"
| "repo_step K J hrn e (PutApi service version url) s = map_option (\<lambda>s. (s, RVoid)) (read_Api_Put K hrn service version url s)"
| "repo_step K J hrn e (GetApi service version) s = res RData (Api_Get K hrn service version s)"

text \<open>A sequence of operations, each with its time, on a cache given for every time.\<close>

fun repo_run ::
  "(time_t \<Rightarrow> 's kv_ops) \<Rightarrow> 'd json_lib \<Rightarrow> string \<Rightarrow> int \<Rightarrow> (time_t \<times> repo_op) list \<Rightarrow> 's \<Rightarrow> ('s \<times> repo_result list) option" where
  "repo_run K J hrn e [] s = Some (s, [])"
| "repo_run K J hrn e ((now, op) # ops) s = do {
     (s, r) \<leftarrow> repo_step (K now) J hrn e op s;
     (s, rs) \<leftarrow> repo_run K J hrn e ops s;
     Some (s, r # rs) }"

section \<open>The specification\<close>

text \<open>The contents of the items after an operation: what was stored last, unless it was removed for certain.\<close>

fun put_items :: "string \<Rightarrow> u64 option \<Rightarrow> Partition list \<Rightarrow> (cache_item \<Rightarrow> content option) \<Rightarrow> cache_item \<Rightarrow> content option" where
  "put_items layer version [] g = g"
| "put_items layer version (p # ps) g = put_items layer version ps (g(PartitionItem layer (p_partition p) version \<mapsto> CPartition p))"

fun repo_next :: "string \<Rightarrow> repo_op \<Rightarrow> (cache_item \<Rightarrow> content option) \<Rightarrow> cache_item \<Rightarrow> content option" where
  "repo_next hrn (PutData layer handle b) g = g(DataItem layer handle \<mapsto> CBytes b)"
| "repo_next hrn (ClearData layer handle) g = g(DataItem layer handle := None)"
| "repo_next hrn (PutPartitions layer ps version exp meta) g =
     (let g = put_items layer version (ps_partitions ps) g in
      if meta then g(PartitionsItem layer version \<mapsto> CIds (map p_partition (ps_partitions ps))) else g)"
| "repo_next hrn (ClearLayer layer) g = drop_prefix hrn (hrn @ ''::'' @ layer @ ''::'') g"
| "repo_next hrn (PutTree layer tile depth tree version) g =
     (case tree of None \<Rightarrow> g | Some t \<Rightarrow> g(QuadTreeItem layer tile version depth \<mapsto> CBytes (bytes_string t)))"
| "repo_next hrn (ClearTree layer tile depth version) g = g(QuadTreeItem layer tile version depth := None)"
| "repo_next hrn (PutLayerVersions v lvs) g = g(LayerVersionsItem v \<mapsto> CObject (AnyLayerVersions lvs))"
| "repo_next hrn (PutCatalog c) g = g(CatalogItem \<mapsto> CObject (AnyCatalog c))"
| "repo_next hrn (PutVersion v) g = g(LatestVersionItem \<mapsto> CObject (AnyVersion v))"
| "repo_next hrn ClearCatalog g = Map.empty"
| "repo_next hrn (PutApi service version url) g = g(ApiItem service version \<mapsto> CObject (AnyString url))"
| "repo_next hrn _ g = g"

definition stored_partitions :: "(cache_item \<Rightarrow> content option) \<Rightarrow> string \<Rightarrow> u64 option \<Rightarrow> string list \<Rightarrow> Partition list \<Rightarrow> bool" where
  "stored_partitions g layer version ids ps \<longleftrightarrow> subseq (map p_partition ps) ids
     \<and> list_all (\<lambda>p. g (PartitionItem layer (p_partition p) version) = Some (CPartition p)) ps"

text \<open>What an operation may answer, given the contents before it.\<close>

fun repo_allowed :: "(cache_item \<Rightarrow> content option) \<Rightarrow> repo_op \<Rightarrow> repo_result \<Rightarrow> bool" where
  "repo_allowed g (PutData layer handle b) r \<longleftrightarrow> r = RStatus (Inr ())"
| "repo_allowed g (GetData layer handle) r \<longleftrightarrow>
     r = RData None \<or> (\<exists>b. g (DataItem layer handle) = Some (CBytes b) \<and> r = RData (Some b))"
| "repo_allowed g (CachedData layer handle) r \<longleftrightarrow> r = RBool False \<or> (g (DataItem layer handle) \<noteq> None \<and> r = RBool True)"
| "repo_allowed g (ClearData layer handle) r \<longleftrightarrow> r = RStatus (Inr ())"
| "repo_allowed g (PromoteData layer handle) r \<longleftrightarrow> r = RVoid"
| "repo_allowed g (PutPartitions layer ps version exp meta) r \<longleftrightarrow> r = RStatus (Inr ())"
| "repo_allowed g (GetPartitions layer ids version) r \<longleftrightarrow> (\<exists>ps. r = RPartitions ps \<and> stored_partitions g layer version ids ps)"
| "repo_allowed g (GetRequest layer ids version) r \<longleftrightarrow> r = RRequest None
     \<or> (\<exists>ps. r = RRequest (Some ps) \<and>
          (if ids = [] then \<exists>ids'. g (PartitionsItem layer version) = Some (CIds ids') \<and> stored_partitions g layer version ids' ps
           else map p_partition ps = ids \<and> stored_partitions g layer version ids ps))"
| "repo_allowed g (HandleOf layer i version) r \<longleftrightarrow> r = RData None
     \<or> (\<exists>p. g (PartitionItem layer i version) = Some (CPartition p) \<and> r = RData (Some (p_data_handle p)))"
| "repo_allowed g (ClearMetadata layer i version) r \<longleftrightarrow>
     (\<exists>st. r = RCleared st None)
     \<or> (\<exists>p. g (PartitionItem layer i version) = Some (CPartition p) \<and> r = RCleared (Inr ()) (Some p))"
| "repo_allowed g (ClearListed layer ids version) r \<longleftrightarrow> r = RBool True"
| "repo_allowed g (ClearLayer layer) r \<longleftrightarrow> r = RBool True"
| "repo_allowed g (ProtectPartitions layer ids version) r \<longleftrightarrow> (\<exists>b. r = RBool b)"
| "repo_allowed g (ReleasePartitions layer ids version) r \<longleftrightarrow> (\<exists>b. r = RBool b)"
| "repo_allowed g (PutTree layer tile depth tree version) r \<longleftrightarrow> r = RStatus (Inr ())"
| "repo_allowed g (GetTree layer tile depth version) r \<longleftrightarrow> r = RTree None
     \<or> (\<exists>b. g (QuadTreeItem layer tile version depth) = Some (CBytes b) \<and> r = RTree (Some (QuadTreeIndex_of_data (Some (string_bytes b)))))"
| "repo_allowed g (FindTree layer tile version) r \<longleftrightarrow> r = RTree None
     \<or> (\<exists>i b. i \<le> unat (min (level tile) kMaxDepth)
          \<and> g (QuadTreeItem layer (ChangedLevelBy (- int i) tile) version kMaxDepth) = Some (CBytes b)
          \<and> r = RTree (Some (QuadTreeIndex_of_data (Some (string_bytes b)))))"
| "repo_allowed g (ClearTree layer tile depth version) r \<longleftrightarrow> r = RStatus (Inr ())"
| "repo_allowed g (PutLayerVersions v lvs) r \<longleftrightarrow> r = RBool True"
| "repo_allowed g (GetLayerVersions v) r \<longleftrightarrow> r = RLayerVersions None
     \<or> (\<exists>lvs. g (LayerVersionsItem v) = Some (CObject (AnyLayerVersions lvs)) \<and> r = RLayerVersions (Some lvs))"
| "repo_allowed g (PutCatalog c) r \<longleftrightarrow> r = RBool True"
| "repo_allowed g GetCatalog r \<longleftrightarrow> r = RCatalog None
     \<or> (\<exists>c. g CatalogItem = Some (CObject (AnyCatalog c)) \<and> r = RCatalog (Some c))"
| "repo_allowed g (PutVersion v) r \<longleftrightarrow> r = RBool True"
| "repo_allowed g GetVersion r \<longleftrightarrow> r = RVersion None
     \<or> (\<exists>v. g LatestVersionItem = Some (CObject (AnyVersion v)) \<and> r = RVersion (Some v))"
| "repo_allowed g ClearCatalog r \<longleftrightarrow> r = RBool True"
| "repo_allowed g (PutApi service version url) r \<longleftrightarrow> r = RVoid"
| "repo_allowed g (GetApi service version) r \<longleftrightarrow> r = RData None
     \<or> (\<exists>u. g (ApiItem service version) = Some (CObject (AnyString u)) \<and> r = RData (Some u))"


text \<open>Operations whose identifiers have no colon, whose tiles are valid, whose documents the JSON library reads back as it
printed them, and whose expiry times the clock can reach.\<close>

fun repo_op_ok :: "'d json_lib \<Rightarrow> (time_t \<Rightarrow> bool) \<Rightarrow> time_t \<Rightarrow> repo_op \<Rightarrow> bool" where
  "repo_op_ok J t e (PutData layer handle b) \<longleftrightarrow> no_colon layer \<and> no_colon handle \<and> t e"
| "repo_op_ok J t e (GetData layer handle) \<longleftrightarrow> no_colon layer \<and> no_colon handle"
| "repo_op_ok J t e (CachedData layer handle) \<longleftrightarrow> no_colon layer \<and> no_colon handle"
| "repo_op_ok J t e (ClearData layer handle) \<longleftrightarrow> no_colon layer \<and> no_colon handle"
| "repo_op_ok J t e (PromoteData layer handle) \<longleftrightarrow> no_colon layer \<and> no_colon handle"
| "repo_op_ok J t e (PutPartitions layer ps version exp meta) \<longleftrightarrow> no_colon layer \<and> t (value_or exp e)
     \<and> list_all (\<lambda>p. no_colon (p_partition p) \<and> doc_ok J (to_json_Partition p)) (ps_partitions ps)
     \<and> doc_ok J (to_json_vector to_json_string (map p_partition (ps_partitions ps)))"
| "repo_op_ok J t e (GetPartitions layer ids version) \<longleftrightarrow> no_colon layer \<and> list_all no_colon ids"
| "repo_op_ok J t e (GetRequest layer ids version) \<longleftrightarrow> no_colon layer \<and> list_all no_colon ids"
| "repo_op_ok J t e (HandleOf layer i version) \<longleftrightarrow> no_colon layer \<and> no_colon i"
| "repo_op_ok J t e (ClearMetadata layer i version) \<longleftrightarrow> no_colon layer \<and> no_colon i"
| "repo_op_ok J t e (ClearListed layer ids version) \<longleftrightarrow> no_colon layer \<and> list_all no_colon ids"
| "repo_op_ok J t e (ProtectPartitions layer ids version) \<longleftrightarrow> no_colon layer \<and> list_all no_colon ids"
| "repo_op_ok J t e (ReleasePartitions layer ids version) \<longleftrightarrow> no_colon layer \<and> list_all no_colon ids"
| "repo_op_ok J t e (PutTree layer tile depth tree version) \<longleftrightarrow> no_colon layer \<and> IsValid tile \<and> t e"
| "repo_op_ok J t e (GetTree layer tile depth version) \<longleftrightarrow> no_colon layer \<and> IsValid tile"
| "repo_op_ok J t e (FindTree layer tile version) \<longleftrightarrow> no_colon layer \<and> IsValid tile"
| "repo_op_ok J t e (ClearTree layer tile depth version) \<longleftrightarrow> no_colon layer \<and> IsValid tile"
| "repo_op_ok J t e (PutLayerVersions v lvs) \<longleftrightarrow> t e"
| "repo_op_ok J t e (PutCatalog c) \<longleftrightarrow> t e"
| "repo_op_ok J t e (PutVersion v) \<longleftrightarrow> t e"
| "repo_op_ok J t e (PutApi service version url) \<longleftrightarrow> no_colon service \<and> no_colon version \<and> t kLookupApiExpiryTime"
| "repo_op_ok J t e (GetApi service version) \<longleftrightarrow> no_colon service \<and> no_colon version"
| "repo_op_ok J t e _ \<longleftrightarrow> True"

section \<open>Every operation against the specification\<close>

lemma stored_partitions_Nil [simp]: "stored_partitions g layer version ids []"
  by (simp add: stored_partitions_def)

lemma stored_partitions_skip: "stored_partitions g layer version ids ps \<Longrightarrow> stored_partitions g layer version (i # ids) ps"
  by (auto simp: stored_partitions_def)

lemma stored_partitions_take:
  "stored_partitions g layer version ids ps \<Longrightarrow> g (PartitionItem layer (p_partition p) version) = Some (CPartition p)
    \<Longrightarrow> stored_partitions g layer version (p_partition p # ids) (p # ps)"
  by (auto simp: stored_partitions_def)

lemma stored_partitions_length:
  assumes "stored_partitions g layer version ids ps" and "length ps = length ids"
  shows "map p_partition ps = ids"
  using assms subseq_same_length [of "map p_partition ps" ids] by (simp add: stored_partitions_def)

lemma kinded_partition: "kinded J (PartitionItem layer i version) x \<Longrightarrow> \<exists>p. x = CPartition p \<and> p_partition p = i \<and> doc_ok J (to_json_Partition p)"
  by (cases x) auto

lemma kinded_ids: "kinded J (PartitionsItem layer version) x \<Longrightarrow>
    \<exists>ids. x = CIds ids \<and> doc_ok J (to_json_vector to_json_string ids) \<and> list_all no_colon ids"
  by (cases x) auto

lemma kinded_bytes: "kinded J (DataItem layer h) x \<Longrightarrow> \<exists>b. x = CBytes b"
  "kinded J (QuadTreeItem layer tile version depth) x \<Longrightarrow> \<exists>b. x = CBytes b"
  by (cases x; simp)+

lemma kinded_objects:
  "kinded J CatalogItem x \<Longrightarrow> \<exists>c. x = CObject (AnyCatalog c)"
  "kinded J LatestVersionItem x \<Longrightarrow> \<exists>c. x = CObject (AnyVersion c)"
  "kinded J (LayerVersionsItem v) x \<Longrightarrow> \<exists>c. x = CObject (AnyLayerVersions c)"
  "kinded J (ApiItem service version) x \<Longrightarrow> \<exists>c. x = CObject (AnyString c)"
  by (elim kinded.elims; simp)+

lemma partition_key_item: "partition_key (PartitionsCacheRepository_new hrn layer e) version i = cache_key hrn (PartitionItem layer i version)"
  by (simp add: partition_key_def PartitionsCacheRepository_new_def)

lemma quad_tree_key_item: "quad_tree_key (PartitionsCacheRepository_new hrn layer e) version depth tile = cache_key hrn (QuadTreeItem layer tile version depth)"
  by (simp add: quad_tree_key_def PartitionsCacheRepository_new_def)

lemma repo_fields [simp]:
  "pr_catalog (PartitionsCacheRepository_new hrn layer e) = hrn"
  "pr_layer_id (PartitionsCacheRepository_new hrn layer e) = layer"
  "pr_default_expiry (PartitionsCacheRepository_new hrn layer e) = ConvertTime e"
  "dr_hrn (DataCacheRepository_new hrn e) = hrn"
  "dr_default_expiry (DataCacheRepository_new hrn e) = ConvertTime e"
  by (simp_all add: PartitionsCacheRepository_new_def DataCacheRepository_new_def)

lemma drop_own_key: "item_view holds hrn J s (drop_prefix hrn (cache_key hrn it) g) \<Longrightarrow> item_view holds hrn J s (g(it := None))"
  by (erule view_mono) (auto simp: drop_prefix_def split: if_splits)

lemma drop_catalog: "item_view holds hrn J s (drop_prefix hrn hrn g) \<Longrightarrow> item_view holds hrn J s Map.empty"
  by (erule view_mono) (simp add: drop_prefix_def cache_key_segs split: if_splits)

text \<open>The promise of one operation.\<close>

definition step_ok ::
  "('s \<Rightarrow> (string \<Rightarrow> any_value cached option) \<Rightarrow> bool) \<Rightarrow> string \<Rightarrow> 'd json_lib \<Rightarrow> ('s \<times> 'r) option
    \<Rightarrow> (cache_item \<Rightarrow> content option) \<Rightarrow> ('r \<Rightarrow> bool) \<Rightarrow> bool" where
  "step_ok holds hrn J x g P \<longleftrightarrow> (\<exists>s' r. x = Some (s', r) \<and> item_view holds hrn J s' g \<and> P r)"

lemma step_okI: "x = Some (s', r) \<Longrightarrow> item_view holds hrn J s' g \<Longrightarrow> P r \<Longrightarrow> step_ok holds hrn J x g P"
  by (auto simp: step_ok_def)

lemma step_ok_res: "step_ok holds hrn J x g (\<lambda>r. P (f r)) \<Longrightarrow> step_ok holds hrn J (res f x) g P"
  by (auto simp: step_ok_def res_def)

lemma step_ok_bind:
  assumes "step_ok holds hrn J x g P"
    and "\<And>s r. item_view holds hrn J s g \<Longrightarrow> P r \<Longrightarrow> step_ok holds hrn J (f (s, r)) g' Q"
  shows "step_ok holds hrn J (x \<bind> f) g' Q"
  using assms by (auto simp: step_ok_def)

lemma step_ok_conseq: "step_ok holds hrn J x g P \<Longrightarrow> (\<And>r. P r \<Longrightarrow> Q r) \<Longrightarrow> step_ok holds hrn J x g Q"
  by (auto simp: step_ok_def)

context lossy_cache
begin

lemma read_partition:
  assumes "item_view holds hrn J s g" and "no_colon layer" and "no_colon i"
  shows "step_ok holds hrn J (kv_Read K (partition_key (PartitionsCacheRepository_new hrn layer e) version i) s) g
    (\<lambda>r. \<forall>b. r = Inr b \<longrightarrow> (\<exists>p. g (PartitionItem layer i version) = Some (CPartition p) \<and> p_partition p = i \<and> parse_partition J b = Some p))"
proof -
  let ?it = "PartitionItem layer i version"
  have "clean_item ?it" "bytes_item ?it" using assms by simp_all
  from view_read [OF assms(1) this] obtain s' r where r: "kv_Read K (cache_key hrn ?it) s = Some (s', r)" "item_view holds hrn J s' g"
    "\<forall>b. r = Inr b \<longrightarrow> (\<exists>x. g ?it = Some x \<and> kinded J ?it x \<and> enc_content J x = Bytes b)" by blast
  show ?thesis unfolding partition_key_item
  proof (rule step_okI [OF r(1,2)], intro allI impI)
    fix b assume "r = Inr b"
    with r(3) obtain x where "g ?it = Some x" "kinded J ?it x" "enc_content J x = Bytes b" by blast
    with kinded_partition [of J layer i version x] parse_partition_text
    show "\<exists>p. g ?it = Some (CPartition p) \<and> p_partition p = i \<and> parse_partition J b = Some p" by auto
  qed
qed

lemma get_partitions_ok:
  assumes "item_view holds hrn J s g" and "no_colon layer" and "list_all no_colon ids"
  shows "step_ok holds hrn J (get_partitions K J (PartitionsCacheRepository_new hrn layer e) ids version s) g
    (stored_partitions g layer version ids)"
  using assms(1,3)
proof (induction ids arbitrary: s)
  case Nil
  then show ?case by (auto intro: step_okI)
next
  case (Cons i ids)
  then have i: "no_colon i" "list_all no_colon ids" by simp_all
  show ?case unfolding get_partitions.simps
  proof (rule step_ok_bind [OF read_partition [OF Cons.prems(1) assms(2) i(1)]])
    fix s1 r
    assume v: "item_view holds hrn J s1 g"
      and r: "\<forall>b. r = Inr b \<longrightarrow> (\<exists>p. g (PartitionItem layer i version) = Some (CPartition p) \<and> p_partition p = i \<and> parse_partition J b = Some p)"
    note IH = Cons.IH [OF v i(2)]
    show "step_ok holds hrn J (case (s1, r) of (s, Inl _) \<Rightarrow> get_partitions K J (PartitionsCacheRepository_new hrn layer e) ids version s
      | (s, Inr text) \<Rightarrow> do { part \<leftarrow> parse_partition J text;
          (s, partitions) \<leftarrow> get_partitions K J (PartitionsCacheRepository_new hrn layer e) ids version s; Some (s, part # partitions) })
      g (stored_partitions g layer version (i # ids))"
    proof (cases r)
      case (Inl err)
      then show ?thesis using IH by (auto elim: step_ok_conseq intro: stored_partitions_skip)
    next
      case (Inr b)
      with r obtain p where p: "g (PartitionItem layer i version) = Some (CPartition p)" "p_partition p = i" "parse_partition J b = Some p" by blast
      have "step_ok holds hrn J (get_partitions K J (PartitionsCacheRepository_new hrn layer e) ids version s1 \<bind> (\<lambda>(s, partitions). Some (s, p # partitions)))
        g (stored_partitions g layer version (i # ids))"
        by (rule step_ok_bind [OF IH]) (use p stored_partitions_take [of g layer version ids _ p] in \<open>auto intro: step_okI\<close>)
      then show ?thesis using Inr p(3) by simp
    qed
  qed
qed

lemma Partitions_Get_ok:
  assumes "item_view holds hrn J s g" and "no_colon layer" and "list_all no_colon ids"
  shows "step_ok holds hrn J (Partitions_Get K J (PartitionsCacheRepository_new hrn layer e) ids version s) g
    (\<lambda>ps. stored_partitions g layer version ids (ps_partitions ps))"
  unfolding Partitions_Get_def
  by (rule step_ok_bind [OF get_partitions_ok [OF assms]]) (auto intro: step_okI)

end

context lossy_cache
begin

lemma Partitions_Get_request_ok:
  assumes "item_view holds hrn J s g" and "no_colon layer" and "list_all no_colon ids"
  shows "step_ok holds hrn J (Partitions_Get_request K J (PartitionsCacheRepository_new hrn layer e) ids version s) g
    (\<lambda>r. repo_allowed g (GetRequest layer ids version) (RRequest (map_option ps_partitions r)))"
proof (cases "ids = []")
  case False
  have "step_ok holds hrn J (do { (s, available_partitions) \<leftarrow> Partitions_Get K J (PartitionsCacheRepository_new hrn layer e) ids version s;
        if length (ps_partitions available_partitions) \<noteq> length ids then Some (s, None) else Some (s, Some available_partitions) }) g
    (\<lambda>r. repo_allowed g (GetRequest layer ids version) (RRequest (map_option ps_partitions r)))"
    by (rule step_ok_bind [OF Partitions_Get_ok [OF assms]])
      (use False in \<open>auto intro: step_okI simp: stored_partitions_length\<close>)
  then show ?thesis using False by (simp add: Partitions_Get_request_def)
next
  case True
  let ?it = "PartitionsItem layer version" and ?repo = "PartitionsCacheRepository_new hrn layer e"
  have it: "clean_item ?it" "bytes_item ?it" using assms by simp_all
  from view_read [OF assms(1) it] obtain s1 r where r: "kv_Read K (cache_key hrn ?it) s = Some (s1, r)" "item_view holds hrn J s1 g"
    "\<forall>b. r = Inr b \<longrightarrow> (\<exists>x. g ?it = Some x \<and> kinded J ?it x \<and> enc_content J x = Bytes b)" by blast
  show ?thesis
  proof (cases r)
    case (Inl err)
    then show ?thesis using r(1,2) True by (auto simp: Partitions_Get_request_def intro: step_okI)
  next
    case (Inr b)
    with r(3) obtain x where x: "g ?it = Some x" "kinded J ?it x" "enc_content J x = Bytes b" by blast
    from kinded_ids [OF x(2)] obtain ids' where ids': "x = CIds ids'" "doc_ok J (to_json_vector to_json_string ids')" "list_all no_colon ids'"
      by blast
    have p: "parse_ids J b = Some ids'" using parse_ids_text [OF ids'(2)] x(3) ids'(1) by simp
    have "step_ok holds hrn J (do { (s, partitions) \<leftarrow> Partitions_Get K J ?repo ids' version s1; Some (s, Some partitions) }) g
      (\<lambda>r. repo_allowed g (GetRequest layer ids version) (RRequest (map_option ps_partitions r)))"
      by (rule step_ok_bind [OF Partitions_Get_ok [OF r(2) assms(2) ids'(3)]])
        (use True x(1) ids'(1) in \<open>auto intro: step_okI\<close>)
    then show ?thesis using True r(1) Inr p by (simp add: Partitions_Get_request_def)
  qed
qed

lemma GetPartitionHandle_ok:
  assumes "item_view holds hrn J s g" and "no_colon layer" and "no_colon i"
  shows "step_ok holds hrn J (GetPartitionHandle K J (PartitionsCacheRepository_new hrn layer e) i version s) g
    (\<lambda>r. repo_allowed g (HandleOf layer i version) (RData r))"
  unfolding GetPartitionHandle_def
proof (rule step_ok_bind [OF read_partition [OF assms]], goal_cases)
  case (1 s1 r)
  then show ?case by (cases r) (auto intro: step_okI)
qed

lemma create_keys_ok:
  assumes "item_view holds hrn J s g" and "no_colon layer" and "list_all no_colon ids"
  shows "step_ok holds hrn J (create_keys K J (PartitionsCacheRepository_new hrn layer e) ids version s) g (\<lambda>_. True)"
  using assms(1,3)
proof (induction ids arbitrary: s)
  case Nil
  then show ?case by (auto intro: step_okI)
next
  case (Cons i ids)
  then have i: "no_colon i" "list_all no_colon ids" by simp_all
  have "step_ok holds hrn J (CreatePartitionKeys K J (PartitionsCacheRepository_new hrn layer e) i version s) g (\<lambda>_. True)"
    unfolding CreatePartitionKeys_def
    by (rule step_ok_bind [OF GetPartitionHandle_ok [OF Cons.prems(1) assms(2) i(1)]])
      (auto intro: step_okI split: option.split)
  then show ?case unfolding create_keys.simps
  proof (rule step_ok_bind, goal_cases)
    case (1 s1 r)
    show ?case
      by (simp, rule step_ok_bind [OF Cons.IH [OF 1(1) i(2)]]) (auto intro: step_okI)
  qed
qed

lemma Partitions_Protect_ok:
  assumes "item_view holds hrn J s g" and "no_colon layer" and "list_all no_colon ids"
  shows "step_ok holds hrn J (Partitions_Protect K J (PartitionsCacheRepository_new hrn layer e) ids version s) g (\<lambda>_. True)"
    and "step_ok holds hrn J (Partitions_Release K J (PartitionsCacheRepository_new hrn layer e) ids version s) g (\<lambda>_. True)"
proof -
  have p: "step_ok holds hrn J (kv_Protect K keys s) g (\<lambda>_. True)" "step_ok holds hrn J (kv_Release K keys s) g (\<lambda>_. True)"
    if "item_view holds hrn J s g" for s keys
  proof -
    from that obtain f where f: "holds s f" "\<And>s'. holds s' f \<Longrightarrow> item_view holds hrn J s' g" unfolding item_view_def by blast
    from protect_law [OF f(1), of keys] obtain s1 r1 where "kv_Protect K keys s = Some (s1, r1)" "holds s1 f" by (elim exE conjE)
    then show "step_ok holds hrn J (kv_Protect K keys s) g (\<lambda>_. True)" using f(2) by (auto intro: step_okI)
    from release_law [OF f(1), of keys] obtain s2 r2 where "kv_Release K keys s = Some (s2, r2)" "holds s2 f" by (elim exE conjE)
    then show "step_ok holds hrn J (kv_Release K keys s) g (\<lambda>_. True)" using f(2) by (auto intro: step_okI)
  qed
  show "step_ok holds hrn J (Partitions_Protect K J (PartitionsCacheRepository_new hrn layer e) ids version s) g (\<lambda>_. True)"
    unfolding Partitions_Protect_def
    by (rule step_ok_bind [OF create_keys_ok [OF assms]]) (auto intro: step_okI p(1))
  show "step_ok holds hrn J (Partitions_Release K J (PartitionsCacheRepository_new hrn layer e) ids version s) g (\<lambda>_. True)"
    unfolding Partitions_Release_def
    by (rule step_ok_bind [OF create_keys_ok [OF assms]]) (auto intro: step_okI p(2))
qed

lemma remove_ok:
  assumes "item_view holds hrn J s g"
  shows "step_ok holds hrn J (kv_RemoveKeysWithPrefix K pre s) (drop_prefix hrn pre g) (\<lambda>b. b)"
  using view_delete [OF assms, of pre] by (auto simp: kv_RemoveKeysWithPrefix_def step_ok_def)

lemma remove_weak: "item_view holds hrn J s g \<Longrightarrow> step_ok holds hrn J (kv_RemoveKeysWithPrefix K pre s) g (\<lambda>b. b)"
  by (drule remove_ok) (fastforce simp: step_ok_def elim: drop_prefix_view)

lemma clear_partitions_ok:
  "item_view holds hrn J s g \<Longrightarrow> step_ok holds hrn J (clear_partitions K repo ps passed s) g (\<lambda>b. b = passed)"
proof (induction ps arbitrary: s passed)
  case Nil
  then show ?case by (auto intro: step_okI)
next
  case (Cons p ps)
  show ?case unfolding clear_partitions.simps
  proof (rule step_ok_bind [OF remove_weak [OF Cons.prems]], goal_cases)
    case (1 s1 r1)
    show ?case
    proof (simp, rule step_ok_bind [OF remove_weak [OF 1(1)]], goal_cases)
      case (1 s2 r2)
      then show ?case using Cons.IH [of s2 passed] \<open>r1\<close> by simp
    qed
  qed
qed

lemma ClearPartitions_ok:
  assumes "item_view holds hrn J s g" and "no_colon layer" and "list_all no_colon ids"
  shows "step_ok holds hrn J (ClearPartitions K J (PartitionsCacheRepository_new hrn layer e) ids version s) g (\<lambda>b. b)"
  unfolding ClearPartitions_def
  by (rule step_ok_bind [OF Partitions_Get_ok [OF assms]]) (auto intro: step_ok_conseq [OF clear_partitions_ok])

lemma ClearPartitionMetadata_ok:
  assumes "item_view holds hrn J s g" and "no_colon layer" and "no_colon i"
  shows "step_ok holds hrn J (ClearPartitionMetadata K J (PartitionsCacheRepository_new hrn layer e) i version s) g
    (\<lambda>(r, p). repo_allowed g (ClearMetadata layer i version) (RCleared r p))"
  unfolding ClearPartitionMetadata_def Let_def
proof (rule step_ok_bind [OF read_partition [OF assms]], goal_cases)
  case (1 s1 r)
  show ?case
  proof (cases r)
    case (Inl err)
    then show ?thesis using 1(1) by (auto intro: step_okI)
  next
    case (Inr b)
    with 1(2) obtain p where p: "g (PartitionItem layer i version) = Some (CPartition p)" "parse_partition J b = Some p" by blast
    obtain s' where "kv_DeleteByPrefix K (partition_key (PartitionsCacheRepository_new hrn layer e) version i) s1 = Some (s', Inr ())" "item_view holds hrn J s' g"
      using view_delete [OF 1(1), of "partition_key (PartitionsCacheRepository_new hrn layer e) version i"] by (elim exE conjE) (rule that, assumption, erule drop_prefix_view)
    then show ?thesis using Inr p by (auto intro: step_okI)
  qed
qed

lemma put_partitions_ok:
  assumes "item_view holds hrn J s g" and "no_colon layer" and "time_ok expiry"
    and "list_all (\<lambda>p. no_colon (p_partition p) \<and> doc_ok J (to_json_Partition p)) ps"
  shows "step_ok holds hrn J (put_partitions K J (PartitionsCacheRepository_new hrn layer e) ps version expiry s)
    (put_items layer version ps g) (\<lambda>r. r = Inr ())"
  using assms(1,4)
proof (induction ps arbitrary: s g)
  case Nil
  then show ?case by (auto intro: step_okI)
next
  case (Cons p ps)
  let ?it = "PartitionItem layer (p_partition p) version"
  have "clean_item ?it" "kinded J ?it (CPartition p)" using Cons.prems(2) assms(2) by simp_all
  from view_write [OF Cons.prems(1) this _ assms(3)] obtain s' where
    w: "kv_Write K (cache_key hrn ?it) (Some (lib_text J (to_json_Partition p))) expiry s = Some (s', Inr ())"
      "item_view holds hrn J s' (g(?it \<mapsto> CPartition p))" by auto
  have IH: "step_ok holds hrn J (put_partitions K J (PartitionsCacheRepository_new hrn layer e) ps version expiry s')
    (put_items layer version ps (g(?it \<mapsto> CPartition p))) (\<lambda>r. r = Inr ())"
    by (rule Cons.IH [OF w(2)]) (use Cons.prems(2) in simp)
  show ?case unfolding put_partitions.simps partition_key_item w(1) put_items.simps bind.bind_lunit prod.case sum.case by (rule IH)
qed

lemma Partitions_Put_ok:
  assumes "item_view holds hrn J s g" and "repo_op_ok J time_ok (ConvertTime e) (PutPartitions layer ps version exp meta)"
  shows "step_ok holds hrn J (Partitions_Put K J (PartitionsCacheRepository_new hrn layer e) ps version exp meta s)
    (repo_next hrn (PutPartitions layer ps version exp meta) g) (\<lambda>r. r = Inr ())"
proof -
  from assms(2) have ok: "no_colon layer" "time_ok (value_or exp (ConvertTime e))"
    "list_all (\<lambda>p. no_colon (p_partition p) \<and> doc_ok J (to_json_Partition p)) (ps_partitions ps)"
    "doc_ok J (to_json_vector to_json_string (map p_partition (ps_partitions ps)))" by simp_all
  let ?it = "PartitionsItem layer version" and ?x = "CIds (map p_partition (ps_partitions ps))"
  have it: "clean_item ?it" "kinded J ?it ?x" using ok by (simp_all add: list_all_iff)
  show ?thesis unfolding Partitions_Put_def Let_def repo_fields
  proof (rule step_ok_bind [OF put_partitions_ok [OF assms(1) ok(1,2,3)]], goal_cases)
    case (1 s1 r)
    from view_write [OF 1(1) it _ ok(2)] obtain s' where
      "kv_Write K (cache_key hrn ?it) (Some (lib_text J (to_json_vector to_json_string (map p_partition (ps_partitions ps)))))
        (value_or exp (ConvertTime e)) s1 = Some (s', Inr ())"
      "item_view holds hrn J s' ((put_items layer version (ps_partitions ps) g)(?it \<mapsto> ?x))" by auto
    then show ?case using 1 by (auto simp: Let_def intro: step_okI)
  qed
qed

end

context lossy_cache
begin

lemma Data_ok:
  assumes "item_view holds hrn J s g" and "no_colon layer" and "no_colon handle"
  shows "step_ok holds hrn J (Data_Get K (DataCacheRepository_new hrn e) layer handle s) g
      (\<lambda>r. repo_allowed g (GetData layer handle) (RData r))"
    and "time_ok (ConvertTime e) \<Longrightarrow> step_ok holds hrn J (Data_Put K (DataCacheRepository_new hrn e) (Some b) layer handle s)
      (g(DataItem layer handle \<mapsto> CBytes b)) (\<lambda>r. r = Inr ())"
    and "step_ok holds hrn J (Data_Clear K (DataCacheRepository_new hrn e) layer handle s) (g(DataItem layer handle := None)) (\<lambda>r. r = Inr ())"
    and "\<exists>r. Data_IsCached K (DataCacheRepository_new hrn e) layer handle s = Some r \<and> (r \<longrightarrow> g (DataItem layer handle) \<noteq> None)"
    and "\<exists>s'. Data_PromoteInCache K (DataCacheRepository_new hrn e) layer handle s = Some s' \<and> item_view holds hrn J s' g"
proof -
  let ?it = "DataItem layer handle"
  have it: "clean_item ?it" "bytes_item ?it" using assms by simp_all
  have key: "CreateDataHandleKey hrn layer handle = cache_key hrn ?it" by simp
  from view_get_bytes [OF assms(1) it] obtain s1 r1 where r: "kv_Get_bytes K (cache_key hrn ?it) s = Some (s1, r1)" "item_view holds hrn J s1 g"
    "\<forall>b. r1 = Some b \<longrightarrow> (\<exists>x. g ?it = Some x \<and> kinded J ?it x \<and> enc_content J x = Bytes b)" by (elim exE conjE)
  have "repo_allowed g (GetData layer handle) (RData r1)"
    using r(3) kinded_bytes(1) [of J layer handle] by (cases r1) fastforce+
  then show "step_ok holds hrn J (Data_Get K (DataCacheRepository_new hrn e) layer handle s) g
      (\<lambda>r. repo_allowed g (GetData layer handle) (RData r))"
    using r(1,2) unfolding Data_Get_def repo_fields key by (intro step_okI)
  show "step_ok holds hrn J (Data_Put K (DataCacheRepository_new hrn e) (Some b) layer handle s)
      (g(?it \<mapsto> CBytes b)) (\<lambda>r. r = Inr ())" if "time_ok (ConvertTime e)"
    using view_write [OF assms(1) it(1), of "CBytes b" b] that unfolding Data_Put_def repo_fields key by (auto intro: step_okI)
  show "step_ok holds hrn J (Data_Clear K (DataCacheRepository_new hrn e) layer handle s) (g(?it := None)) (\<lambda>r. r = Inr ())"
    using view_delete [OF assms(1), of "cache_key hrn ?it"] drop_own_key [of holds hrn J _ ?it g]
    unfolding Data_Clear_def repo_fields key by (auto intro: step_okI)
  obtain f where f: "holds s f" "\<And>s'. holds s' f \<Longrightarrow> item_view holds hrn J s' g"
    "\<And>c. f (cache_key hrn ?it) = Some c \<Longrightarrow> \<exists>x. g ?it = Some x \<and> kinded J ?it x \<and> enc_content J x = c"
    by (rule view_item [OF assms(1) it(1)], rule that)
  show "\<exists>r. Data_IsCached K (DataCacheRepository_new hrn e) layer handle s = Some r \<and> (r \<longrightarrow> g ?it \<noteq> None)"
    using contains_law [OF f(1), of "cache_key hrn ?it"] f(3) unfolding Data_IsCached_def repo_fields key by fastforce
  show "\<exists>s'. Data_PromoteInCache K (DataCacheRepository_new hrn e) layer handle s = Some s' \<and> item_view holds hrn J s' g"
    using promote_law [OF f(1), of "cache_key hrn ?it"] f(2) unfolding Data_PromoteInCache_def repo_fields key by blast
qed

lemma QuadTree_ok:
  assumes "item_view holds hrn J s g" and "no_colon layer" and "IsValid tile"
  shows "step_ok holds hrn J (QuadTree_Get K (PartitionsCacheRepository_new hrn layer e) tile depth version s) g
      (\<lambda>r. repo_allowed g (GetTree layer tile depth version) (RTree r))"
    and "time_ok (ConvertTime e) \<Longrightarrow> step_ok holds hrn J (QuadTree_Put K (PartitionsCacheRepository_new hrn layer e) tile depth tree version s)
      (repo_next hrn (PutTree layer tile depth tree version) g) (\<lambda>r. r = Inr ())"
    and "step_ok holds hrn J (ClearQuadTree K (PartitionsCacheRepository_new hrn layer e) tile depth version s)
      (g(QuadTreeItem layer tile version depth := None)) (\<lambda>r. r = Inr ())"
proof -
  let ?it = "QuadTreeItem layer tile version depth"
  have it: "clean_item ?it" "bytes_item ?it" using assms by simp_all
  from view_read [OF assms(1) it] obtain s1 r1 where r: "kv_Read K (cache_key hrn ?it) s = Some (s1, r1)" "item_view holds hrn J s1 g"
    "\<forall>b. r1 = Inr b \<longrightarrow> (\<exists>x. g ?it = Some x \<and> kinded J ?it x \<and> enc_content J x = Bytes b)" by (elim exE conjE)
  show "step_ok holds hrn J (QuadTree_Get K (PartitionsCacheRepository_new hrn layer e) tile depth version s) g
      (\<lambda>r. repo_allowed g (GetTree layer tile depth version) (RTree r))"
  proof (cases r1)
    case (Inl err)
    then show ?thesis using r(1,2) unfolding QuadTree_Get_def quad_tree_key_item by (auto intro: step_okI)
  next
    case (Inr b)
    with r(3) kinded_bytes(2) [of J layer tile version depth] have "g ?it = Some (CBytes b)" by fastforce
    then show ?thesis using r(1,2) Inr unfolding QuadTree_Get_def quad_tree_key_item by (auto intro: step_okI)
  qed
  show "step_ok holds hrn J (QuadTree_Put K (PartitionsCacheRepository_new hrn layer e) tile depth tree version s)
      (repo_next hrn (PutTree layer tile depth tree version) g) (\<lambda>r. r = Inr ())" if t: "time_ok (ConvertTime e)"
  proof (cases tree)
    case None
    then show ?thesis using assms(1) unfolding QuadTree_Put_def by (auto intro: step_okI)
  next
    case (Some bs)
    then show ?thesis using view_write [OF assms(1) it(1), of "CBytes (bytes_string bs)"] t
      unfolding QuadTree_Put_def quad_tree_key_item repo_fields by (auto intro: step_okI)
  qed
  show "step_ok holds hrn J (ClearQuadTree K (PartitionsCacheRepository_new hrn layer e) tile depth version s)
      (g(?it := None)) (\<lambda>r. r = Inr ())"
    using view_delete [OF assms(1), of "cache_key hrn ?it"] drop_own_key [of holds hrn J _ ?it g]
    unfolding ClearQuadTree_def quad_tree_key_item by (auto intro: step_okI)
qed

lemma find_quad_tree_ok:
  assumes "item_view holds hrn J s g" and "no_colon layer" and "IsValid tile" and "i \<le> unat (level tile)"
  shows "step_ok holds hrn J (find_quad_tree K (PartitionsCacheRepository_new hrn layer e) tile version i s) g
    (\<lambda>r. r = None \<or> (\<exists>j b. j \<le> i
          \<and> g (QuadTreeItem layer (ChangedLevelBy (- int j) tile) version kMaxDepth) = Some (CBytes b)
          \<and> r = Some (QuadTreeIndex_of_data (Some (string_bytes b)))))"
  using assms(1,4)
proof (induction i arbitrary: s)
  case 0
  show ?case unfolding find_quad_tree.simps [of K _ tile version 0] Let_def
  proof (rule step_ok_bind [OF QuadTree_ok(1) [OF 0(1) assms(2)]], goal_cases)
    case 1
    show ?case using quad_down(1) [OF assms(3), of 0] by simp
  next
    case (2 s1 r)
    then show ?case by (cases r) (auto intro: step_okI)
  qed
next
  case (Suc i)
  show ?case unfolding find_quad_tree.simps [of K _ tile version "Suc i"] Let_def
  proof (rule step_ok_bind [OF QuadTree_ok(1) [OF Suc.prems(1) assms(2)]], goal_cases)
    case 1
    show ?case using quad_down(1) [OF assms(3) Suc.prems(2)] .
  next
    case (2 s1 r)
    show ?case
    proof (cases r)
      case None
      have "step_ok holds hrn J (find_quad_tree K (PartitionsCacheRepository_new hrn layer e) tile version i s1) g
        (\<lambda>r. r = None \<or> (\<exists>j b. j \<le> Suc i
          \<and> g (QuadTreeItem layer (ChangedLevelBy (- int j) tile) version kMaxDepth) = Some (CBytes b)
          \<and> r = Some (QuadTreeIndex_of_data (Some (string_bytes b)))))"
        by (rule step_ok_conseq [OF Suc.IH [OF 2(1)]]) (use Suc.prems(2) in \<open>auto intro: le_SucI\<close>)
      then show ?thesis using None by simp
    next
      case (Some t)
      then show ?thesis using 2 by (auto intro!: step_okI exI [of _ "Suc i"])
    qed
  qed
qed

end

context lossy_cache
begin

lemma object_put_ok:
  assumes "item_view holds hrn J s g" and "clean_item it" and "kinded J it (CObject v)" and "time_ok e"
  shows "step_ok holds hrn J (kv_Put K (cache_key hrn it) v encoded e s) (g(it \<mapsto> CObject v)) (\<lambda>b. b)"
  using view_put [OF assms, of encoded] by (auto intro: step_okI)

lemma objects_ok:
  assumes "item_view holds hrn J s g"
  shows "step_ok holds hrn J (LayerVersions_Get K J (PartitionsCacheRepository_new hrn layer e) v s) g
      (\<lambda>r. repo_allowed g (GetLayerVersions v) (RLayerVersions r))"
    and "step_ok holds hrn J (Catalog_Get K J (DataCacheRepository_new hrn e) s) g (\<lambda>r. repo_allowed g GetCatalog (RCatalog r))"
    and "step_ok holds hrn J (Catalog_GetVersion K J (DataCacheRepository_new hrn e) s) g (\<lambda>r. repo_allowed g GetVersion (RVersion r))"
    and "no_colon service \<Longrightarrow> no_colon version \<Longrightarrow>
      step_ok holds hrn J (Api_Get K hrn service version s) g (\<lambda>r. repo_allowed g (GetApi service version) (RData r))"
proof -
  note kind = kinded_objects [where J = J]
  show "step_ok holds hrn J (LayerVersions_Get K J (PartitionsCacheRepository_new hrn layer e) v s) g
      (\<lambda>r. repo_allowed g (GetLayerVersions v) (RLayerVersions r))"
  proof -
    have it: "clean_item (LayerVersionsItem v)" by simp
    from view_get [OF assms it, of "(\<lambda>text. any_of AnyLayerVersions (parse_layer_versions J text))"] obtain s' r where r: "kv_Get K (cache_key hrn (LayerVersionsItem v)) (\<lambda>text. any_of AnyLayerVersions (parse_layer_versions J text)) s = Some (s', r)"
      "item_view holds hrn J s' g"
      "\<forall>c. r = Some c \<longrightarrow> (\<exists>x. g (LayerVersionsItem v) = Some x \<and> kinded J (LayerVersionsItem v) x \<and> enc_content J x = c)"
      by (elim exE conjE)
    then show ?thesis using kind(3) [of v] by (cases r) (fastforce simp: LayerVersions_Get_def intro: step_okI)+
  qed
  show "step_ok holds hrn J (Catalog_Get K J (DataCacheRepository_new hrn e) s) g (\<lambda>r. repo_allowed g GetCatalog (RCatalog r))"
  proof -
    have it: "clean_item CatalogItem" by simp
    from view_get [OF assms it, of "(\<lambda>text. any_of AnyCatalog (parse_catalog J text))"] obtain s' r where r: "kv_Get K (cache_key hrn CatalogItem) (\<lambda>text. any_of AnyCatalog (parse_catalog J text)) s = Some (s', r)"
      "item_view holds hrn J s' g"
      "\<forall>c. r = Some c \<longrightarrow> (\<exists>x. g CatalogItem = Some x \<and> kinded J CatalogItem x \<and> enc_content J x = c)"
      by (elim exE conjE)
    then show ?thesis using kind(1) by (cases r) (fastforce simp: Catalog_Get_def intro: step_okI)+
  qed
  show "step_ok holds hrn J (Catalog_GetVersion K J (DataCacheRepository_new hrn e) s) g (\<lambda>r. repo_allowed g GetVersion (RVersion r))"
  proof -
    have it: "clean_item LatestVersionItem" by simp
    from view_get [OF assms it, of "(\<lambda>text. any_of AnyVersion (parse_version J text))"] obtain s' r where r: "kv_Get K (cache_key hrn LatestVersionItem) (\<lambda>text. any_of AnyVersion (parse_version J text)) s = Some (s', r)"
      "item_view holds hrn J s' g"
      "\<forall>c. r = Some c \<longrightarrow> (\<exists>x. g LatestVersionItem = Some x \<and> kinded J LatestVersionItem x \<and> enc_content J x = c)"
      by (elim exE conjE)
    then show ?thesis using kind(2) by (cases r) (fastforce simp: Catalog_GetVersion_def intro: step_okI)+
  qed
  show "step_ok holds hrn J (Api_Get K hrn service version s) g (\<lambda>r. repo_allowed g (GetApi service version) (RData r))"
    if "no_colon service" "no_colon version"
  proof -
    have it: "clean_item (ApiItem service version)" using that by simp
    from view_get [OF assms it, of "AnyString"] obtain s' r where r: "kv_Get K (cache_key hrn (ApiItem service version)) AnyString s = Some (s', r)"
      "item_view holds hrn J s' g"
      "\<forall>c. r = Some c \<longrightarrow> (\<exists>x. g (ApiItem service version) = Some x \<and> kinded J (ApiItem service version) x \<and> enc_content J x = c)"
      by (elim exE conjE)
    then show ?thesis using kind(4) [of service version] by (cases r) (fastforce simp: Api_Get_def intro: step_okI)+
  qed
qed

lemma objects_put_ok:
  assumes "item_view holds hrn J s g"
  shows "time_ok (ConvertTime e) \<Longrightarrow> step_ok holds hrn J (LayerVersions_Put K J (PartitionsCacheRepository_new hrn layer e) v lvs s)
      (g(LayerVersionsItem v \<mapsto> CObject (AnyLayerVersions lvs))) (\<lambda>b. b)"
    and "time_ok (ConvertTime e) \<Longrightarrow> step_ok holds hrn J (Catalog_Put K J (DataCacheRepository_new hrn e) c s)
      (g(CatalogItem \<mapsto> CObject (AnyCatalog c))) (\<lambda>b. b)"
    and "time_ok (ConvertTime e) \<Longrightarrow> step_ok holds hrn J (Catalog_PutVersion K J (DataCacheRepository_new hrn e) ver s)
      (g(LatestVersionItem \<mapsto> CObject (AnyVersion ver))) (\<lambda>b. b)"
    and "no_colon service \<Longrightarrow> no_colon version \<Longrightarrow> time_ok kLookupApiExpiryTime \<Longrightarrow>
      \<exists>s'. read_Api_Put K hrn service version url s = Some s' \<and> item_view holds hrn J s' (g(ApiItem service version \<mapsto> CObject (AnyString url)))"
proof -
  note put = object_put_ok [OF assms]
  show "step_ok holds hrn J (LayerVersions_Put K J (PartitionsCacheRepository_new hrn layer e) v lvs s)
      (g(LayerVersionsItem v \<mapsto> CObject (AnyLayerVersions lvs))) (\<lambda>b. b)" if "time_ok (ConvertTime e)"
    using put [of "LayerVersionsItem v" "AnyLayerVersions lvs"] that by (simp add: LayerVersions_Put_def)
  show "step_ok holds hrn J (Catalog_Put K J (DataCacheRepository_new hrn e) c s)
      (g(CatalogItem \<mapsto> CObject (AnyCatalog c))) (\<lambda>b. b)" if "time_ok (ConvertTime e)"
    using put [of CatalogItem "AnyCatalog c"] that by (simp add: Catalog_Put_def)
  show "step_ok holds hrn J (Catalog_PutVersion K J (DataCacheRepository_new hrn e) ver s)
      (g(LatestVersionItem \<mapsto> CObject (AnyVersion ver))) (\<lambda>b. b)" if "time_ok (ConvertTime e)"
    using put [of LatestVersionItem "AnyVersion ver"] that by (simp add: Catalog_PutVersion_def)
  show "\<exists>s'. read_Api_Put K hrn service version url s = Some s' \<and> item_view holds hrn J s' (g(ApiItem service version \<mapsto> CObject (AnyString url)))"
    if "no_colon service" "no_colon version" "time_ok kLookupApiExpiryTime"
  proof -
    have "clean_item (ApiItem service version)" "kinded J (ApiItem service version) (CObject (AnyString url))" using that by simp_all
    from view_put [OF assms this that(3), of url] show ?thesis by (elim exE conjE) (simp add: read_Api_Put_def)
  qed
qed

lemma Clear_ok:
  assumes "item_view holds hrn J s g"
  shows "step_ok holds hrn J (Partitions_Clear K (PartitionsCacheRepository_new hrn layer e) s)
      (drop_prefix hrn (hrn @ ''::'' @ layer @ ''::'') g) (\<lambda>b. b)"
    and "step_ok holds hrn J (Catalog_Clear K (DataCacheRepository_new hrn e) s) Map.empty (\<lambda>b. b)"
proof -
  show "step_ok holds hrn J (Partitions_Clear K (PartitionsCacheRepository_new hrn layer e) s)
      (drop_prefix hrn (hrn @ ''::'' @ layer @ ''::'') g) (\<lambda>b. b)"
    unfolding Partitions_Clear_def repo_fields by (rule remove_ok [OF assms])
  obtain s' where "kv_RemoveKeysWithPrefix K hrn s = Some (s', True)" "item_view holds hrn J s' (drop_prefix hrn hrn g)"
    using remove_ok [OF assms, of hrn] by (auto simp: step_ok_def)
  then show "step_ok holds hrn J (Catalog_Clear K (DataCacheRepository_new hrn e) s) Map.empty (\<lambda>b. b)"
    unfolding Catalog_Clear_def repo_fields by (intro step_okI [OF _ drop_catalog]) simp_all
qed

lemma repo_step_ok:
  assumes v: "item_view holds hrn J s g" and ok: "repo_op_ok J time_ok (ConvertTime e) op"
  shows "step_ok holds hrn J (repo_step K J hrn e op s) (repo_next hrn op g) (repo_allowed g op)"
proof (cases op)
  case (PutData layer handle b)
  show ?thesis unfolding PutData repo_step.simps repo_next.simps
    by (rule step_ok_res, rule step_ok_conseq, rule Data_ok(2) [OF v]) (use ok PutData in simp_all)
next
  case (GetData layer handle)
  show ?thesis unfolding GetData repo_step.simps repo_next.simps
    by (rule step_ok_res, rule step_ok_conseq, rule Data_ok(1) [OF v]) (use ok GetData in simp_all)
next
  case (ClearData layer handle)
  show ?thesis unfolding ClearData repo_step.simps repo_next.simps
    by (rule step_ok_res, rule step_ok_conseq, rule Data_ok(3) [OF v]) (use ok ClearData in simp_all)
next
  case (PutPartitions layer ps version exp meta)
  show ?thesis unfolding PutPartitions repo_step.simps repo_next.simps
    by (rule step_ok_res, rule step_ok_conseq, rule Partitions_Put_ok [OF v, unfolded repo_next.simps]) (use ok PutPartitions in simp_all)
next
  case (GetPartitions layer ids version)
  show ?thesis unfolding GetPartitions repo_step.simps repo_next.simps
    by (rule step_ok_res, rule step_ok_conseq, rule Partitions_Get_ok [OF v]) (use ok GetPartitions in simp_all)
next
  case (GetRequest layer ids version)
  show ?thesis unfolding GetRequest repo_step.simps repo_next.simps
    by (rule step_ok_res, rule step_ok_conseq, rule Partitions_Get_request_ok [OF v]) (use ok GetRequest in simp_all)
next
  case (HandleOf layer i version)
  show ?thesis unfolding HandleOf repo_step.simps repo_next.simps
    by (rule step_ok_res, rule step_ok_conseq, rule GetPartitionHandle_ok [OF v]) (use ok HandleOf in simp_all)
next
  case (ClearMetadata layer i version)
  show ?thesis unfolding ClearMetadata repo_step.simps repo_next.simps
    by (rule step_ok_res, rule step_ok_conseq, rule ClearPartitionMetadata_ok [OF v]) (use ok ClearMetadata in \<open>auto split: prod.splits\<close>)
next
  case (ClearListed layer ids version)
  show ?thesis unfolding ClearListed repo_step.simps repo_next.simps
    by (rule step_ok_res, rule step_ok_conseq, rule ClearPartitions_ok [OF v]) (use ok ClearListed in simp_all)
next
  case (ClearLayer layer)
  show ?thesis unfolding ClearLayer repo_step.simps repo_next.simps
    by (rule step_ok_res, rule step_ok_conseq, rule Clear_ok(1) [OF v]) (use ok ClearLayer in simp_all)
next
  case (ProtectPartitions layer ids version)
  show ?thesis unfolding ProtectPartitions repo_step.simps repo_next.simps
    by (rule step_ok_res, rule step_ok_conseq, rule Partitions_Protect_ok(1) [OF v]) (use ok ProtectPartitions in simp_all)
next
  case (ReleasePartitions layer ids version)
  show ?thesis unfolding ReleasePartitions repo_step.simps repo_next.simps
    by (rule step_ok_res, rule step_ok_conseq, rule Partitions_Protect_ok(2) [OF v]) (use ok ReleasePartitions in simp_all)
next
  case (PutTree layer tile depth tree version)
  show ?thesis unfolding PutTree repo_step.simps repo_next.simps
    by (rule step_ok_res, rule step_ok_conseq, rule QuadTree_ok(2) [OF v, unfolded repo_next.simps]) (use ok PutTree in simp_all)
next
  case (GetTree layer tile depth version)
  show ?thesis unfolding GetTree repo_step.simps repo_next.simps
    by (rule step_ok_res, rule step_ok_conseq, rule QuadTree_ok(1) [OF v]) (use ok GetTree in simp_all)
next
  case (ClearTree layer tile depth version)
  show ?thesis unfolding ClearTree repo_step.simps repo_next.simps
    by (rule step_ok_res, rule step_ok_conseq, rule QuadTree_ok(3) [OF v]) (use ok ClearTree in simp_all)
next
  case (PutLayerVersions ver lvs)
  show ?thesis unfolding PutLayerVersions repo_step.simps repo_next.simps
    by (rule step_ok_res, rule step_ok_conseq, rule objects_put_ok(1) [OF v]) (use ok PutLayerVersions in simp_all)
next
  case (GetLayerVersions ver)
  show ?thesis unfolding GetLayerVersions repo_step.simps repo_next.simps
    by (rule step_ok_res, rule step_ok_conseq, rule objects_ok(1) [OF v]) (use ok GetLayerVersions in simp_all)
next
  case (PutCatalog c)
  show ?thesis unfolding PutCatalog repo_step.simps repo_next.simps
    by (rule step_ok_res, rule step_ok_conseq, rule objects_put_ok(2) [OF v]) (use ok PutCatalog in simp_all)
next
  case GetCatalog
  show ?thesis unfolding GetCatalog repo_step.simps repo_next.simps
    by (rule step_ok_res, rule step_ok_conseq, rule objects_ok(2) [OF v]) (use ok GetCatalog in simp_all)
next
  case (PutVersion ver)
  show ?thesis unfolding PutVersion repo_step.simps repo_next.simps
    by (rule step_ok_res, rule step_ok_conseq, rule objects_put_ok(3) [OF v]) (use ok PutVersion in simp_all)
next
  case GetVersion
  show ?thesis unfolding GetVersion repo_step.simps repo_next.simps
    by (rule step_ok_res, rule step_ok_conseq, rule objects_ok(3) [OF v]) (use ok GetVersion in simp_all)
next
  case ClearCatalog
  show ?thesis unfolding ClearCatalog repo_step.simps repo_next.simps
    by (rule step_ok_res, rule step_ok_conseq, rule Clear_ok(2) [OF v]) (use ok ClearCatalog in simp_all)
next
  case (GetApi service version)
  show ?thesis unfolding GetApi repo_step.simps repo_next.simps
    by (rule step_ok_res, rule step_ok_conseq, rule objects_ok(4) [OF v]) (use ok GetApi in simp_all)
next
  case (FindTree layer tile version)
  with ok have f: "no_colon layer" "IsValid tile" by simp_all
  have "unat (min (level tile) kMaxDepth) \<le> unat (level tile)" by (simp add: word_le_nat_alt [symmetric])
  from find_quad_tree_ok [OF v f this] show ?thesis unfolding FindTree repo_step.simps FindQuadTree_def
    by (intro step_ok_res) (auto elim!: step_ok_conseq)
next
  case (CachedData layer handle)
  with ok have "no_colon layer" "no_colon handle" by simp_all
  from Data_ok(4) [OF v this, of e] obtain r where
    "Data_IsCached K (DataCacheRepository_new hrn e) layer handle s = Some r" "r \<longrightarrow> g (DataItem layer handle) \<noteq> None" by (elim exE conjE)
  then show ?thesis unfolding CachedData by (intro step_okI [of _ s "RBool r"]) (use v in auto)
next
  case (PromoteData layer handle)
  with ok have "no_colon layer" "no_colon handle" by simp_all
  from Data_ok(5) [OF v this, of e] obtain s' where
    "Data_PromoteInCache K (DataCacheRepository_new hrn e) layer handle s = Some s'" "item_view holds hrn J s' g" by (elim exE conjE)
  then show ?thesis unfolding PromoteData by (intro step_okI [of _ s' RVoid]) simp_all
next
  case (PutApi service version url)
  with ok have "no_colon service" "no_colon version" "time_ok kLookupApiExpiryTime" by simp_all
  from objects_put_ok(4) [OF v this, of url] obtain s' where "read_Api_Put K hrn service version url s = Some s'"
    "item_view holds hrn J s' (g(ApiItem service version \<mapsto> CObject (AnyString url)))" by (elim exE conjE)
  then show ?thesis unfolding PutApi by (intro step_okI [of _ s' RVoid]) simp_all
qed

end

section \<open>Runs on the default cache\<close>



section \<open>Property\<close>


text \<open>A JSON library that knows some documents: the text of a document is its position.\<close>

definition table_lib :: "nat JsonModels.json list \<Rightarrow> nat json_lib" where
  "table_lib docs = \<lparr>lib_parse = \<lambda>text. if length text < length docs then Some (docs ! length text) else None,
     lib_text = \<lambda>v. replicate (length (takeWhile (\<lambda>d. d \<noteq> v) docs)) CHR ''.'',
     lib_numbers = \<lparr>exact_int64 = \<lambda>d. Some (of_nat d), trunc_int64 = \<lambda>d. Some (of_nat d), of_int64 = unat, of_uint64 = unat\<rparr>\<rparr>"


definition sample_partition :: "string \<Rightarrow> string \<Rightarrow> Partition" where
  "sample_partition i h = Partition_new\<lparr>p_data_handle := h, p_partition := i\<rparr>"

definition sample_lib :: "nat json_lib" where
  "sample_lib = table_lib [to_json_Partition (sample_partition ''1'' ''h''), to_json_Partition (sample_partition ''10'' ''k''),
     to_json_vector to_json_string [''1'', ''10'']]"

definition sample_settings :: CacheSettings where
  "sample_settings = \<lparr>disk_path_mutable = None, disk_path_protected = None, max_disk_storage = 0, max_memory_cache_size = 1000,
     cs_enforce_immediate_flush = False, eviction_policy = kLeastRecentlyUsed, openOptions = 0\<rparr>"

definition sample_put :: repo_op where
  "sample_put = PutPartitions ''l'' \<lparr>ps_partitions = [sample_partition ''1'' ''h'', sample_partition ''10'' ''k'']\<rparr> (Some 7) None True"


definition sample_env :: "(string, string) omap setup_env" where
  "sample_env = \<lparr>mutable_env = undefined, protected_env = undefined, protected_retry_env = undefined,
     protected_dir_read_only = False, clear_removed = True\<rparr>"

definition sample_run :: "(time_t \<times> repo_op) list \<Rightarrow> repo_result list option" where
  "sample_run ops = do {
     (s, _) \<leftarrow> DefaultCache_Open mem_ldb sample_env (DefaultCacheImpl_new sample_settings);
     (_, rs) \<leftarrow> repo_run (default_kv mem_ldb) sample_lib ''c'' (2 ^ 63 - 1) ops s;
     Some rs }"



section \<open>What the specification does not exclude\<close>

text \<open>Clearing the partition 1 also removes the partition 10: the prefix of the keys that are removed does not end with the
separator.\<close>

lemma clear_listed_removes_others:
  "sample_run [(0, sample_put), (1, ClearListed ''l'' [''1''] (Some 7)), (2, GetPartitions ''l'' [''10''] (Some 7))]
   = Some [RStatus (Inr ()), RBool True, RPartitions []]"
  by code_simp

text \<open>A request for the whole layer is answered from the stored list of names without the partitions that are no longer
cached, so the answer can be incomplete and does not show it.\<close>

lemma request_of_layer_incomplete:
  "sample_run [(0, sample_put), (1, ClearMetadata ''l'' ''1'' (Some 7)), (2, GetRequest ''l'' [] (Some 7))]
   = Some [RStatus (Inr ()), RCleared (Inr ()) (Some (sample_partition ''1'' ''h'')), RRequest (Some [sample_partition ''10'' ''k''])]"
  by code_simp

text \<open>A partition whose name begins with expiry looks like the expiry time of another key to the default cache.\<close>

lemma partition_named_expiry: "IsExpiryKey (cache_key ''c'' (PartitionItem ''l'' ''expiry'' None))"
  by code_simp

end
