(* ===== verification/ReadApi.thy ===== *)
theory ReadApi
  imports CacheRepositories OlpClient
begin

text \<open>
  How the read service reaches the network: the lookup of service addresses
  (olp-cpp-sdk-core/src/client/ApiLookupClientImpl.cpp with client/api/PlatformApi.cpp and ResourcesApi.cpp) and the
  requests of olp-cpp-sdk-dataservice-read/src/generated/api. A client is its base URL. The network is a parameter that
  answers a request, given all requests before it; what arrives before the answer of a streamed request is part of the
  answer. The messages of errors, the statistics of the network and the text of the log are left out.
\<close>

section \<open>Errors and answers\<close>

record ApiError =
  err_code :: ErrorCode
  err_status :: int

definition ApiError_code :: "ErrorCode \<Rightarrow> ApiError" where
  "ApiError_code c = \<lparr>err_code = c, err_status = (if c = Cancelled then kErrCancelled else kErrUnknown)\<rparr>"

definition ApiError_status :: "int \<Rightarrow> ApiError" where
  "ApiError_status s = \<lparr>err_code = GetErrorCode s, err_status = s\<rparr>"

record api_response = HttpResponse +
  ar_headers :: "(string \<times> string) list"
  ar_chunks :: "(u64 \<times> u8 list) list"

record api_request =
  rq_base :: string
  rq_path :: string
  rq_verb :: string
  rq_query :: "(string \<times> string) list"
  rq_headers :: "(string \<times> string) list"
  rq_body :: "string option"

text \<open>An insertion into a \<open>std::multimap\<close>: after the entries of the same key.\<close>

fun mm_emplace :: "string \<Rightarrow> string \<Rightarrow> (string \<times> string) list \<Rightarrow> (string \<times> string) list" where
  "mm_emplace k v [] = [(k, v)]"
| "mm_emplace k v (e # m) = (if fst e \<le> k then e # mm_emplace k v m else (k, v) # e # m)"

definition mm_emplace_opt :: "string \<Rightarrow> string option \<Rightarrow> (string \<times> string) list \<Rightarrow> (string \<times> string) list" where
  "mm_emplace_opt k v m = (case v of None \<Rightarrow> m | Some x \<Rightarrow> mm_emplace k x m)"

section \<open>The surroundings and the state\<close>

datatype FetchOptions = OnlineIfNotFound | OnlineOnly | CacheOnly | CacheWithUpdate

text \<open>What an operation is given: the cache at its time, the JSON library, the network, the steady clock in seconds, the
two texts of the name of the catalog, the answer of the provider of endpoints (none when there is no provider), the URL of
the lookup service, the settings, and the error another thread left in the named mutex of a key.\<close>

record ('s, 'd) read_env =
  env_kv :: "'s kv_ops"
  env_json :: "'d json_lib"
  env_net :: "api_request list \<Rightarrow> api_request \<Rightarrow> api_response"
  env_clock :: int
  env_hrn :: string
  env_hrn_string :: string
  env_endpoint :: "string option"
  env_lookup_url :: string
  env_expiry :: int
  env_shared_error :: "string \<Rightarrow> ApiError option"

record 's read_state =
  st_cache :: 's
  st_requests :: "api_request list"
  st_clients :: "string \<rightharpoonup> string \<times> int"
  st_errors :: "(string \<times> ApiError) list"

definition with_cache :: "('s \<Rightarrow> ('s \<times> 'r) option) \<Rightarrow> 's read_state \<Rightarrow> ('s read_state \<times> 'r) option" where
  "with_cache f s = map_option (\<lambda>(c, r). (s\<lparr>st_cache := c\<rparr>, r)) (f (st_cache s))"

definition with_cache_unit :: "('s \<Rightarrow> 's option) \<Rightarrow> 's read_state \<Rightarrow> 's read_state option" where
  "with_cache_unit f s = map_option (\<lambda>c. s\<lparr>st_cache := c\<rparr>) (f (st_cache s))"

definition call_api :: "('s, 'd) read_env \<Rightarrow> api_request \<Rightarrow> 's read_state \<Rightarrow> 's read_state \<times> api_response" where
  "call_api E r s = (s\<lparr>st_requests := st_requests s @ [r]\<rparr>, env_net E (st_requests s) r)"

text \<open>A request that accepts JSON, and the result of a response: an error for every status except 200, the error of the
parser for a text that is no document, \<open>None\<close> when parsing is undefined.\<close>

definition get_request :: "string \<Rightarrow> string \<Rightarrow> (string \<times> string) list \<Rightarrow> api_request" where
  "get_request base path query =
     \<lparr>rq_base = base, rq_path = path, rq_verb = ''GET'', rq_query = query, rq_headers = [(''Accept'', ''application/json'')], rq_body = None\<rparr>"

definition json_result :: "('s, 'd) read_env \<Rightarrow> ('d JsonModels.json \<Rightarrow> 'a option) \<Rightarrow> api_response \<Rightarrow> (ApiError + 'a) option" where
  "json_result E p response =
     (if hr_status response \<noteq> 200 then Some (Inl (ApiError_status (hr_status response)))
      else map_option (case_sum (\<lambda>_. Inl (ApiError_code Unknown)) Inr) (parse_result (lib_parse (env_json E)) p (hr_body response)))"

section \<open>Addresses of services\<close>

definition SimpleToUpper :: "char \<Rightarrow> char" where
  "SimpleToUpper c = (if 97 \<le> byte c \<and> byte c \<le> 122 then char_of (byte c - 32) else c)"

definition NetworkUtils_CaseInsensitiveCompare :: "string \<Rightarrow> string \<Rightarrow> nat \<Rightarrow> bool" where
  "NetworkUtils_CaseInsensitiveCompare str1 str2 offset \<longleftrightarrow>
     \<not> (length str1 < offset \<or> length str1 - offset \<noteq> length str2)
     \<and> list_all2 (\<lambda>a b. SimpleToUpper a = SimpleToUpper b) (drop offset str1) str2"

definition CaseInsensitiveStartsWith :: "string \<Rightarrow> string \<Rightarrow> nat \<Rightarrow> bool" where
  "CaseInsensitiveStartsWith str1 str2 offset \<longleftrightarrow>
     \<not> (length str1 < offset \<or> length str1 - offset < length str2)
     \<and> list_all2 (\<lambda>a b. SimpleToUpper a = SimpleToUpper b) (take (length str2) (drop offset str1)) str2"

text \<open>The loop of \<open>CaseInsensitiveFind\<close>; none is \<open>npos\<close>.\<close>

function case_insensitive_find :: "string \<Rightarrow> string \<Rightarrow> nat \<Rightarrow> nat option" where
  "case_insensitive_find str1 str2 offset =
     (if offset < length str1 \<and> offset \<le> length str1 - length str2 then
        if SimpleToUpper (str1 ! offset) = SimpleToUpper (str2 ! 0) \<and> CaseInsensitiveStartsWith str1 str2 offset then Some offset
        else case_insensitive_find str1 str2 (offset + 1)
      else None)"
  by pat_completeness auto
termination by (relation "measure (\<lambda>(s, _, i). length s - i)") auto

declare case_insensitive_find.simps [simp del]

definition CaseInsensitiveFind :: "string \<Rightarrow> string \<Rightarrow> nat \<Rightarrow> nat option" where
  "CaseInsensitiveFind str1 str2 offset =
     (if str2 \<noteq> [] \<and> length str2 \<le> length str1 then case_insensitive_find str1 str2 offset else None)"

text \<open>\<open>std::stoi\<close>: the value of \<open>std::stoll\<close> when it fits 32 bits, an exception otherwise.\<close>

definition stoi :: "string \<Rightarrow> int option" where
  "stoi s = (case stoll s of None \<Rightarrow> None | Some v \<Rightarrow> if v < - (2 ^ 31) \<or> 2 ^ 31 \<le> v then None else Some v)"

definition GetExpiry :: "(string \<times> string) list \<Rightarrow> time_t option option" where
  "GetExpiry headers =
     (case find (\<lambda>h. NetworkUtils_CaseInsensitiveCompare (fst h) ''cache-control'' 0) headers of
        None \<Rightarrow> Some None
      | Some h \<Rightarrow>
          (case CaseInsensitiveFind (snd h) ''max-age='' 0 of
             None \<Rightarrow> Some None
           | Some index \<Rightarrow> map_option Some (stoi (drop (index + 8) (snd h)))))"

definition apis_result :: "('s, 'd) read_env \<Rightarrow> api_response \<Rightarrow> (ApiError + Api list \<times> time_t option) option" where
  "apis_result E response =
     (if hr_status response \<noteq> 200 then Some (Inl (ApiError_status (hr_status response)))
      else do {
        expiry \<leftarrow> GetExpiry (ar_headers response);
        r \<leftarrow> json_result E (from_json_vector (from_json_Api (lib_numbers (env_json E)))) response;
        Some (map_sum id (\<lambda>apis. (apis, expiry)) r) })"

definition PlatformApi_GetApis ::
  "('s, 'd) read_env \<Rightarrow> string \<Rightarrow> 's read_state \<Rightarrow> ('s read_state \<times> (ApiError + Api list \<times> time_t option)) option" where
  "PlatformApi_GetApis E client s =
     (let (s, response) = call_api E (get_request client ''/platform/apis'' []) s in
      map_option (\<lambda>r. (s, r)) (apis_result E response))"

definition ResourcesApi_GetApis ::
  "('s, 'd) read_env \<Rightarrow> string \<Rightarrow> string \<Rightarrow> 's read_state \<Rightarrow> ('s read_state \<times> (ApiError + Api list \<times> time_t option)) option" where
  "ResourcesApi_GetApis E client hrn s =
     (let (s, response) = call_api E (get_request client (''/resources/'' @ hrn @ ''/apis'') []) s in
      map_option (\<lambda>r. (s, r)) (apis_result E response))"

definition kLookupApiDefaultExpiryTime :: time_t where "kLookupApiDefaultExpiryTime = 3600"

definition kLookupApiShortExpiryTime :: time_t where "kLookupApiShortExpiryTime = 300"

definition FindApi :: "Api list \<Rightarrow> string \<Rightarrow> string \<Rightarrow> string" where
  "FindApi apis service version =
     (case find (\<lambda>obj. api_api obj = service \<and> api_version obj = version) apis of None \<Rightarrow> [] | Some it \<Rightarrow> api_baseUrl it)"

definition GetStaticUrl :: "('s, 'd) read_env \<Rightarrow> string \<Rightarrow> string" where
  "GetStaticUrl E service =
     (case env_endpoint E of
        None \<Rightarrow> []
      | Some url \<Rightarrow>
          if url \<noteq> [] then
            (let url = (if service \<noteq> [] then (if service = ''blob'' then url @ ''/blobstore'' else url @ ''/'' @ service) else url) in
             url @ ''/catalogs/'' @ env_hrn E)
          else [])"

definition ClientCacheKey :: "string \<Rightarrow> string \<Rightarrow> string" where
  "ClientCacheKey service service_version = service @ service_version"

definition CreateAndCacheClient ::
  "('s, 'd) read_env \<Rightarrow> string \<Rightarrow> string \<Rightarrow> time_t option \<Rightarrow> 's read_state \<Rightarrow> 's read_state \<times> string" where
  "CreateAndCacheClient E url key expiration s =
     (let new_expiration = env_clock E + value_or expiration kLookupApiDefaultExpiryTime in
      (s\<lparr>st_clients := (st_clients s)(key \<mapsto> (url, new_expiration))\<rparr>, url))"

definition client_from_cache ::
  "('s, 'd) read_env \<Rightarrow> string \<Rightarrow> string \<Rightarrow> string \<Rightarrow> 's read_state \<Rightarrow> ('s read_state \<times> string option) option" where
  "client_from_cache E key service service_version s = do {
     (s, cached_url) \<leftarrow> with_cache (Api_Get (env_kv E) (env_hrn E) service service_version) s;
     case cached_url of
       None \<Rightarrow> Some (s, None)
     | Some url \<Rightarrow>
         (let (s, client) = CreateAndCacheClient E url key (Some kLookupApiShortExpiryTime) s in Some (s, Some client)) }"

definition GetCachedClient ::
  "('s, 'd) read_env \<Rightarrow> string \<Rightarrow> string \<Rightarrow> 's read_state \<Rightarrow> ('s read_state \<times> string option) option" where
  "GetCachedClient E service service_version s =
     (let key = ClientCacheKey service service_version in
      case st_clients s key of
        Some (client, expire_at) \<Rightarrow>
          if env_clock E < expire_at then Some (s, Some client) else client_from_cache E key service service_version s
      | None \<Rightarrow> client_from_cache E key service service_version s)"

fun PutToDiskCache ::
  "('s, 'd) read_env \<Rightarrow> Api list \<Rightarrow> time_t option \<Rightarrow> 's read_state \<Rightarrow> 's read_state option" where
  "PutToDiskCache E [] expiry s = Some s"
| "PutToDiskCache E (service_api # apis) expiry s = do {
     s \<leftarrow> with_cache_unit (Api_Put (env_kv E) (env_hrn E) (api_api service_api) (api_version service_api)
        (api_baseUrl service_api) expiry) s;
     PutToDiskCache E apis expiry s }"

text \<open>The request for the list of services and what is done with its answer.\<close>

definition lookup_online ::
  "('s, 'd) read_env \<Rightarrow> string \<Rightarrow> string \<Rightarrow> FetchOptions \<Rightarrow> 's read_state \<Rightarrow> ('s read_state \<times> (ApiError + string)) option" where
  "lookup_online E service service_version options s = do {
     (s, api_response) \<leftarrow> (if service = ''config'' then PlatformApi_GetApis E (env_lookup_url E) s
                          else ResourcesApi_GetApis E (env_lookup_url E) (env_hrn_string E) s);
     case api_response of
       Inl e \<Rightarrow> Some (s, Inl e)
     | Inr (apis, expiry) \<Rightarrow> do {
         s \<leftarrow> (if options \<noteq> OnlineOnly \<and> options \<noteq> CacheWithUpdate then PutToDiskCache E apis expiry s else Some s);
         let url = FindApi apis service service_version;
         if url = [] then Some (s, Inl (ApiError_code ServiceUnavailable))
         else (let (s, client) = CreateAndCacheClient E url (ClientCacheKey service service_version) expiry s in Some (s, Inr client)) } }"

definition LookupApi ::
  "('s, 'd) read_env \<Rightarrow> string \<Rightarrow> string \<Rightarrow> FetchOptions \<Rightarrow> 's read_state \<Rightarrow> ('s read_state \<times> (ApiError + string)) option" where
  "LookupApi E service service_version options s =
     (let result_client = GetStaticUrl E service in
      if result_client \<noteq> [] then Some (s, Inr result_client)
      else if options \<noteq> OnlineOnly \<and> options \<noteq> CacheWithUpdate then do {
        (s, client) \<leftarrow> GetCachedClient E service service_version s;
        case client of
          Some c \<Rightarrow> Some (s, Inr c)
        | None \<Rightarrow> if options = CacheOnly then Some (s, Inl (ApiError_code NotFound))
                  else lookup_online E service service_version options s }
      else lookup_online E service service_version options s)"

section \<open>The requests of the read service\<close>

fun ConcatStringArray :: "string list \<Rightarrow> string \<Rightarrow> string" where
  "ConcatStringArray [] delimiter = []"
| "ConcatStringArray [x] delimiter = x"
| "ConcatStringArray (x # xs) delimiter = x @ delimiter @ ConcatStringArray xs delimiter"

definition additional :: "string list \<Rightarrow> (string \<times> string) list \<Rightarrow> (string \<times> string) list" where
  "additional additional_fields query = (if additional_fields \<noteq> [] then mm_emplace ''additionalFields'' (ConcatStringArray additional_fields '','') query else query)"

definition ConfigApi_GetCatalog ::
  "('s, 'd) read_env \<Rightarrow> string \<Rightarrow> string \<Rightarrow> string option \<Rightarrow> 's read_state \<Rightarrow> ('s read_state \<times> (ApiError + Catalog)) option" where
  "ConfigApi_GetCatalog E client catalog_hrn billing_tag s =
     (let catalog_uri = (if catalog_hrn = [] then [] else ''/catalogs/'' @ catalog_hrn);
          (s, response) = call_api E (get_request client catalog_uri (mm_emplace_opt ''billingTag'' billing_tag [])) s in
      map_option (\<lambda>r. (s, r)) (json_result E (from_json_Catalog (lib_numbers (env_json E))) response))"

definition MetadataApi_GetLayerVersions ::
  "('s, 'd) read_env \<Rightarrow> string \<Rightarrow> u64 \<Rightarrow> string option \<Rightarrow> 's read_state \<Rightarrow> ('s read_state \<times> (ApiError + LayerVersions)) option" where
  "MetadataApi_GetLayerVersions E client version billing_tag s =
     (let query = mm_emplace_opt ''billingTag'' billing_tag [(''version'', to_string_int64 version)];
          (s, response) = call_api E (get_request client ''/layerVersions'' query) s in
      map_option (\<lambda>r. (s, r)) (json_result E (from_json_LayerVersions (lib_numbers (env_json E))) response))"

definition partitions_request :: "string \<Rightarrow> string \<Rightarrow> u64 option \<Rightarrow> string list \<Rightarrow> string option \<Rightarrow> string option \<Rightarrow> api_request" where
  "partitions_request client layer version additional_fields range_opt billing_tag =
     (let query = additional additional_fields [];
          query = mm_emplace_opt ''billingTag'' billing_tag query;
          query = mm_emplace_opt ''version'' (map_option to_string_int64 version) query;
          r = get_request client (''/layers/'' @ layer @ ''/partitions'') query in
      r\<lparr>rq_headers := mm_emplace_opt ''Range'' range_opt (rq_headers r)\<rparr>)"

definition MetadataApi_GetPartitions ::
  "('s, 'd) read_env \<Rightarrow> string \<Rightarrow> string \<Rightarrow> u64 option \<Rightarrow> string list \<Rightarrow> string option \<Rightarrow> string option \<Rightarrow> 's read_state
    \<Rightarrow> ('s read_state \<times> (ApiError + Partitions)) option" where
  "MetadataApi_GetPartitions E client layer version additional_fields range_opt billing_tag s =
     (let (s, response) = call_api E (partitions_request client layer version additional_fields range_opt billing_tag) s in
      map_option (\<lambda>r. (s, r)) (json_result E (from_json_Partitions (lib_numbers (env_json E))) response))"

text \<open>The streamed form: the chunks go to the callback of the caller.\<close>

definition MetadataApi_GetPartitionsStream ::
  "('s, 'd) read_env \<Rightarrow> string \<Rightarrow> string \<Rightarrow> u64 option \<Rightarrow> string list \<Rightarrow> string option \<Rightarrow> string option \<Rightarrow> 's read_state
    \<Rightarrow> 's read_state \<times> api_response" where
  "MetadataApi_GetPartitionsStream E client layer version additional_fields range_opt billing_tag s =
     call_api E (partitions_request client layer version additional_fields range_opt billing_tag) s"

definition MetadataApi_GetLatestCatalogVersion ::
  "('s, 'd) read_env \<Rightarrow> string \<Rightarrow> u64 \<Rightarrow> string option \<Rightarrow> 's read_state \<Rightarrow> ('s read_state \<times> (ApiError + VersionResponse)) option" where
  "MetadataApi_GetLatestCatalogVersion E client startVersion billing_tag s =
     (let query = mm_emplace_opt ''billingTag'' billing_tag [(''startVersion'', to_string_int64 startVersion)];
          (s, response) = call_api E (get_request client ''/versions/latest'' query) s in
      map_option (\<lambda>r. (s, r)) (json_result E (from_json_VersionResponse (lib_numbers (env_json E))) response))"

definition MetadataApi_ListVersions ::
  "('s, 'd) read_env \<Rightarrow> string \<Rightarrow> u64 \<Rightarrow> u64 \<Rightarrow> string option \<Rightarrow> 's read_state \<Rightarrow> ('s read_state \<times> (ApiError + VersionInfos)) option" where
  "MetadataApi_ListVersions E client start_version end_version billing_tag s =
     (let query = mm_emplace ''endVersion'' (to_string_int64 end_version) [(''startVersion'', to_string_int64 start_version)];
          query = mm_emplace_opt ''billingTag'' billing_tag query;
          (s, response) = call_api E (get_request client ''/versions'' query) s in
      map_option (\<lambda>r. (s, r)) (json_result E (from_json_VersionInfos (lib_numbers (env_json E))) response))"

definition to_json_CatalogVersions :: "CatalogVersion list \<Rightarrow> 'd JsonModels.json" where
  "to_json_CatalogVersions x = JsonModels.JObject [(''dependencies'', to_json_vector to_json_CatalogVersion x)]"

definition MetadataApi_GetCompatibleVersions ::
  "('s, 'd) read_env \<Rightarrow> string \<Rightarrow> CatalogVersion list \<Rightarrow> u32 \<Rightarrow> 's read_state \<Rightarrow> ('s read_state \<times> (ApiError + VersionsResponse)) option" where
  "MetadataApi_GetCompatibleVersions E client dependencies limit s =
     (let r = (get_request client ''/versions/compatibles'' [(''limit'', to_string_int (sint limit))])
            \<lparr>rq_verb := ''POST'', rq_body := Some (lib_text (env_json E) (to_json_CatalogVersions dependencies))\<rparr>;
          (s, response) = call_api E r s in
      map_option (\<lambda>r. (s, r)) (json_result E (from_json_VersionsResponse (lib_numbers (env_json E))) response))"

fun emplace_partitions :: "string list \<Rightarrow> (string \<times> string) list \<Rightarrow> (string \<times> string) list" where
  "emplace_partitions [] query = query"
| "emplace_partitions (p # ps) query = emplace_partitions ps (mm_emplace ''partition'' p query)"

definition by_id_request :: "string \<Rightarrow> string \<Rightarrow> string list \<Rightarrow> u64 option \<Rightarrow> string list \<Rightarrow> string option \<Rightarrow> api_request" where
  "by_id_request client layer partitions version additional_fields billing_tag =
     (let query = emplace_partitions partitions [];
          query = additional additional_fields query;
          query = mm_emplace_opt ''billingTag'' billing_tag query;
          query = mm_emplace_opt ''version'' (map_option to_string_int64 version) query in
      get_request client (''/layers/'' @ layer @ ''/partitions'') query)"

definition QueryApi_GetPartitionsbyId ::
  "('s, 'd) read_env \<Rightarrow> string \<Rightarrow> string \<Rightarrow> string list \<Rightarrow> u64 option \<Rightarrow> string list \<Rightarrow> string option \<Rightarrow> 's read_state
    \<Rightarrow> ('s read_state \<times> (ApiError + Partitions)) option" where
  "QueryApi_GetPartitionsbyId E client layer partitions version additional_fields billing_tag s =
     (let (s, response) = call_api E (by_id_request client layer partitions version additional_fields billing_tag) s in
      map_option (\<lambda>r. (s, r)) (json_result E (from_json_Partitions (lib_numbers (env_json E))) response))"

definition QueryApi_QuadTreeIndex ::
  "('s, 'd) read_env \<Rightarrow> string \<Rightarrow> string \<Rightarrow> string \<Rightarrow> u64 option \<Rightarrow> u32 \<Rightarrow> string list \<Rightarrow> string option \<Rightarrow> 's read_state
    \<Rightarrow> 's read_state \<times> api_response" where
  "QueryApi_QuadTreeIndex E client layer quad_key version depth additional_fields billing_tag s =
     (let query = mm_emplace_opt ''billingTag'' billing_tag (additional additional_fields []);
          path = ''/layers/'' @ layer @ (case version of Some v \<Rightarrow> ''/versions/'' @ to_string_int64 v | None \<Rightarrow> [])
            @ ''/quadkeys/'' @ quad_key @ ''/depths/'' @ to_string_int (sint depth) in
      call_api E (get_request client path query) s)"

definition QueryApi_QuadTreeIndexVolatile ::
  "('s, 'd) read_env \<Rightarrow> string \<Rightarrow> string \<Rightarrow> string \<Rightarrow> u32 \<Rightarrow> string list option \<Rightarrow> string option \<Rightarrow> 's read_state
    \<Rightarrow> ('s read_state \<times> (ApiError + Index)) option" where
  "QueryApi_QuadTreeIndexVolatile E client layer quad_key depth additional_fields billing_tag s =
     (let query = mm_emplace_opt ''additionalFields'' (map_option (\<lambda>fs. ConcatStringArray fs '','') additional_fields) [];
          query = mm_emplace_opt ''billingTag'' billing_tag query;
          path = ''/layers/'' @ layer @ ''/quadkeys/'' @ quad_key @ ''/depths/'' @ to_string_int (sint depth);
          (s, response) = call_api E (get_request client path query) s in
      map_option (\<lambda>r. (s, r)) (json_result E (from_json_Index (lib_numbers (env_json E))) response))"

text \<open>The callback of \<open>GetBlob\<close>: a chunk at offset zero starts again.\<close>

fun collect_chunks :: "(u64 \<times> u8 list) list \<Rightarrow> u8 list \<Rightarrow> u8 list" where
  "collect_chunks [] buffer = buffer"
| "collect_chunks ((offset, data) # chunks) buffer =
     collect_chunks chunks ((if offset = 0 then [] else buffer) @ data)"

definition blob_request :: "string \<Rightarrow> string \<Rightarrow> string \<Rightarrow> string option \<Rightarrow> string option \<Rightarrow> api_request" where
  "blob_request client layer handle billing_tag range_opt =
     (let r = get_request client (''/layers/'' @ layer @ ''/data/'' @ handle) (mm_emplace_opt ''billingTag'' billing_tag []) in
      r\<lparr>rq_headers := mm_emplace_opt ''Range'' range_opt (rq_headers r)\<rparr>)"

definition BlobApi_GetBlob ::
  "('s, 'd) read_env \<Rightarrow> string \<Rightarrow> string \<Rightarrow> Partition \<Rightarrow> string option \<Rightarrow> string option \<Rightarrow> 's read_state
    \<Rightarrow> 's read_state \<times> (ApiError + string)" where
  "BlobApi_GetBlob E client layer part billing_tag range_opt s =
     (let (s, response) = call_api E (blob_request client layer (p_data_handle part) billing_tag range_opt) s in
      (s, if hr_status response \<noteq> 200 then Inl (ApiError_status (hr_status response))
          else Inr (bytes_string (collect_chunks (ar_chunks response) []))))"

definition VolatileBlobApi_GetVolatileBlob ::
  "('s, 'd) read_env \<Rightarrow> string \<Rightarrow> string \<Rightarrow> string \<Rightarrow> string option \<Rightarrow> 's read_state \<Rightarrow> 's read_state \<times> (ApiError + string)" where
  "VolatileBlobApi_GetVolatileBlob E client layer handle billing_tag s =
     (let r = get_request client (''/layers/'' @ layer @ ''/data/'' @ handle) (mm_emplace_opt ''billingTag'' billing_tag []);
          (s, response) = call_api E r s in
      (s, if hr_status response \<noteq> 200 then Inl (ApiError_status (hr_status response)) else Inr (hr_body response)))"

end
