(* ===== verification/ReadRepositories.thy ===== *)
theory ReadRepositories
  imports ReadApi
begin

text \<open>
  The repositories of the read service, which answer from the cache or from the network:
  \<open>CatalogRepository\<close>, \<open>PartitionsRepository\<close> and \<open>DataRepository\<close> of
  olp-cpp-sdk-dataservice-read/src/repositories. The named mutex that merges equal requests is modelled in
  \<open>NamedMutex\<close>; here a thread is alone with what the others left, the shared error of the mutex.
\<close>

section \<open>CatalogRepository\<close>

definition catalog_repo :: "('s, 'd) read_env \<Rightarrow> data_repo" where
  "catalog_repo E = DataCacheRepository_new (env_hrn E) (env_expiry E)"

definition forbidden :: "ApiError \<Rightarrow> bool" where
  "forbidden e \<longleftrightarrow> err_status e = 403"

definition catalog_online ::
  "('s, 'd) read_env \<Rightarrow> FetchOptions \<Rightarrow> string option \<Rightarrow> 's read_state \<Rightarrow> ('s read_state \<times> (ApiError + Catalog)) option" where
  "catalog_online E fetch_options billing_tag s =
     (let catalog_str = (if env_endpoint E \<noteq> None then [] else env_hrn E) in do {
        (s, config_api) \<leftarrow> LookupApi E ''config'' ''v1'' fetch_options s;
        case config_api of
          Inl e \<Rightarrow> Some (s, Inl e)
        | Inr config_client \<Rightarrow> do {
            (s, catalog_response) \<leftarrow> ConfigApi_GetCatalog E config_client catalog_str billing_tag s;
            case catalog_response of
              Inr catalog \<Rightarrow>
                if fetch_options \<noteq> OnlineOnly then do {
                  (s, _) \<leftarrow> with_cache (Catalog_Put (env_kv E) (env_json E) (catalog_repo E) catalog) s;
                  Some (s, Inr catalog) }
                else Some (s, Inr catalog)
            | Inl e \<Rightarrow>
                if forbidden e then do {
                  (s, _) \<leftarrow> with_cache (Catalog_Clear (env_kv E) (catalog_repo E)) s;
                  Some (s, Inl e) }
                else Some (s, Inl e) } })"

definition GetCatalog ::
  "('s, 'd) read_env \<Rightarrow> FetchOptions \<Rightarrow> string option \<Rightarrow> 's read_state \<Rightarrow> ('s read_state \<times> (ApiError + Catalog)) option" where
  "GetCatalog E fetch_options billing_tag s =
     (if fetch_options \<noteq> OnlineOnly \<and> fetch_options \<noteq> CacheWithUpdate then do {
        (s, cached) \<leftarrow> with_cache (Catalog_Get (env_kv E) (env_json E) (catalog_repo E)) s;
        case cached of
          Some c \<Rightarrow> Some (s, Inr c)
        | None \<Rightarrow> if fetch_options = CacheOnly then Some (s, Inl (ApiError_code NotFound))
                  else catalog_online E fetch_options billing_tag s }
      else catalog_online E fetch_options billing_tag s)"

definition GetLatestVersionOnline ::
  "('s, 'd) read_env \<Rightarrow> string option \<Rightarrow> 's read_state \<Rightarrow> ('s read_state \<times> (ApiError + VersionResponse)) option" where
  "GetLatestVersionOnline E billing_tag s = do {
     (s, metadata_api) \<leftarrow> LookupApi E ''metadata'' ''v1'' OnlineIfNotFound s;
     case metadata_api of
       Inl e \<Rightarrow> Some (s, Inl e)
     | Inr client \<Rightarrow> MetadataApi_GetLatestCatalogVersion E client (- 1) billing_tag s }"

text \<open>The part of \<open>GetLatestVersion\<close> after the online answer.\<close>

definition latest_version_cached ::
  "('s, 'd) read_env \<Rightarrow> FetchOptions \<Rightarrow> u64 \<Rightarrow> ApiError + VersionResponse \<Rightarrow> 's read_state
    \<Rightarrow> ('s read_state \<times> (ApiError + VersionResponse)) option" where
  "latest_version_cached E fetch_option start_version version_response s = do {
     (s, cached_version) \<leftarrow> with_cache (Catalog_GetVersion (env_kv E) (env_json E) (catalog_repo E)) s;
     let version_response =
       (if fetch_option = CacheOnly \<and> 0 \<le> sint start_version
           \<and> (case cached_version of None \<Rightarrow> True | Some c \<Rightarrow> sint (vr_version c) < sint start_version)
        then Inr (VersionResponse_new\<lparr>vr_version := start_version\<rparr>) else version_response);
     case version_response of
       Inr v \<Rightarrow>
         if case cached_version of None \<Rightarrow> True | Some c \<Rightarrow> sint (vr_version c) < sint (vr_version v) then do {
           (s, _) \<leftarrow> with_cache (Catalog_PutVersion (env_kv E) (env_json E) (catalog_repo E) v) s;
           Some (s, Inr v) }
         else Some (s, Inr v)
     | Inl e \<Rightarrow>
         (case cached_version of Some c \<Rightarrow> Some (s, Inr c) | None \<Rightarrow> Some (s, Inl e)) }"

definition GetLatestVersion ::
  "('s, 'd) read_env \<Rightarrow> FetchOptions \<Rightarrow> u64 \<Rightarrow> string option \<Rightarrow> 's read_state
    \<Rightarrow> ('s read_state \<times> (ApiError + VersionResponse)) option" where
  "GetLatestVersion E fetch_option start_version billing_tag s =
     (if fetch_option \<noteq> CacheOnly then do {
        (s, version_response) \<leftarrow> GetLatestVersionOnline E billing_tag s;
        if fetch_option = OnlineOnly then Some (s, version_response)
        else case version_response of
          Inl e \<Rightarrow>
            if forbidden e then do {
              (s, _) \<leftarrow> with_cache (Catalog_Clear (env_kv E) (catalog_repo E)) s;
              Some (s, Inl e) }
            else latest_version_cached E fetch_option start_version version_response s
        | Inr v \<Rightarrow> latest_version_cached E fetch_option start_version version_response s }
      else latest_version_cached E fetch_option start_version (Inl (ApiError_code NotFound)) s)"

definition GetVersionsList ::
  "('s, 'd) read_env \<Rightarrow> u64 \<Rightarrow> u64 \<Rightarrow> string option \<Rightarrow> 's read_state \<Rightarrow> ('s read_state \<times> (ApiError + VersionInfos)) option" where
  "GetVersionsList E start_version end_version billing_tag s = do {
     (s, metadata_api) \<leftarrow> LookupApi E ''metadata'' ''v1'' OnlineOnly s;
     case metadata_api of
       Inl e \<Rightarrow> Some (s, Inl e)
     | Inr client \<Rightarrow> MetadataApi_ListVersions E client start_version end_version billing_tag s }"

definition GetCompatibleVersions ::
  "('s, 'd) read_env \<Rightarrow> CatalogVersion list \<Rightarrow> u32 \<Rightarrow> 's read_state \<Rightarrow> ('s read_state \<times> (ApiError + VersionsResponse)) option" where
  "GetCompatibleVersions E dependencies limit s = do {
     (s, metadata_api) \<leftarrow> LookupApi E ''metadata'' ''v1'' OnlineOnly s;
     case metadata_api of
       Inl e \<Rightarrow> Some (s, Inl e)
     | Inr client \<Rightarrow> MetadataApi_GetCompatibleVersions E client dependencies limit s }"

section \<open>PartitionsRepository: helpers\<close>

definition kAggregateQuadTreeDepth :: int where "kAggregateQuadTreeDepth = 4"

definition kQueryRequestLimit :: nat where "kQueryRequestLimit = 100"

text \<open>The division of a time to live by 1000 truncates towards zero.\<close>

definition TtlForLayer :: "Layer list \<Rightarrow> string \<Rightarrow> ApiError + time_t option" where
  "TtlForLayer layers layer =
     (case find (\<lambda>l. layer_id l = layer) layers of
        None \<Rightarrow> Inl (ApiError_code NotFound)
      | Some l \<Rightarrow> Inr (map_option (\<lambda>ttl. if 0 \<le> sint ttl then sint ttl div 1000 else - (- sint ttl div 1000)) (layer_ttl l)))"

definition partition_of_index :: "IndexData \<Rightarrow> Partition" where
  "partition_of_index d =
     (let p = Partition_new\<lparr>p_data_handle := data_handle d, p_partition := ToHereTile (tile_key d)\<rparr>;
          p = (if checksum d \<noteq> [] then p\<lparr>p_checksum := Some (checksum d)\<rparr> else p);
          p = (if crc d \<noteq> [] then p\<lparr>p_crc := Some (crc d)\<rparr> else p);
          p = (if data_size d \<noteq> - 1 then p\<lparr>p_data_size := Some (data_size d)\<rparr> else p) in
      if compressed_data_size d \<noteq> - 1 then p\<lparr>p_compressed_data_size := Some (compressed_data_size d)\<rparr> else p)"

text \<open>\<open>None\<close> is a lookup that is undefined.\<close>

definition FindPartition :: "u8 list option \<Rightarrow> TileKey \<Rightarrow> bool \<Rightarrow> Partition option option" where
  "FindPartition quad_tree tile aggregated = map_option (map_option partition_of_index) (Find quad_tree tile aggregated)"

definition index_has_fields :: "string list \<Rightarrow> IndexData \<Rightarrow> bool" where
  "index_has_fields additional_fields d \<longleftrightarrow>
     \<not> (''checksum'' \<in> set additional_fields \<and> checksum d = [])
     \<and> \<not> (''crc'' \<in> set additional_fields \<and> crc d = [])
     \<and> \<not> (''dataSize'' \<in> set additional_fields \<and> data_size d = - 1)
     \<and> \<not> (''compressedDataSize'' \<in> set additional_fields \<and> compressed_data_size d = - 1)"

definition CheckAdditionalFields :: "string list option \<Rightarrow> u8 list option \<Rightarrow> bool option" where
  "CheckAdditionalFields additional_fields cached_tree =
     (case additional_fields of
        None \<Rightarrow> Some True
      | Some fs \<Rightarrow> map_option (list_all (index_has_fields fs)) (GetIndexData cached_tree kAll))"

definition CreateNoContentPartitions :: "string list \<Rightarrow> Partitions" where
  "CreateNoContentPartitions partition_ids = \<lparr>ps_partitions = map (\<lambda>i. Partition_new\<lparr>p_partition := i\<rparr>) partition_ids\<rparr>"

definition HasNoContent :: "Partition \<Rightarrow> bool" where
  "HasNoContent p \<longleftrightarrow> p_data_handle p = [] \<and> p_data_size p = None \<and> p_compressed_data_size p = None
     \<and> p_checksum p = None \<and> p_crc p = None \<and> p_version p = None"

definition remove_no_content :: "Partitions \<Rightarrow> Partitions" where
  "remove_no_content ps = \<lparr>ps_partitions = filter (\<lambda>p. \<not> HasNoContent p) (ps_partitions ps)\<rparr>"

definition partitions_repo_of :: "('s, 'd) read_env \<Rightarrow> string \<Rightarrow> partitions_repo" where
  "partitions_repo_of E layer = PartitionsCacheRepository_new (env_hrn E) layer (env_expiry E)"

section \<open>PartitionsRepository: partitions\<close>

function QueryPartitionsInBatches_loop ::
  "('s, 'd) read_env \<Rightarrow> string \<Rightarrow> string \<Rightarrow> string list \<Rightarrow> u64 option \<Rightarrow> string list \<Rightarrow> string option \<Rightarrow> nat \<Rightarrow> Partition list
    \<Rightarrow> 's read_state \<Rightarrow> ('s read_state \<times> (ApiError + Partitions)) option" where
  "QueryPartitionsInBatches_loop E client layer partition_ids version additional_fields billing_tag i aggregated s =
     (if i < length partition_ids then do {
        (s, query_response) \<leftarrow> QueryApi_GetPartitionsbyId E client layer
           (take (min (length partition_ids) (i + kQueryRequestLimit) - i) (drop i partition_ids)) version additional_fields billing_tag s;
        case query_response of
          Inl e \<Rightarrow> Some (s, Inl e)
        | Inr partitions \<Rightarrow>
            QueryPartitionsInBatches_loop E client layer partition_ids version additional_fields billing_tag
              (i + kQueryRequestLimit) (aggregated @ ps_partitions partitions) s }
      else Some (s, Inr \<lparr>ps_partitions = aggregated\<rparr>))"
  by pat_completeness auto
termination
  by (relation "measure (\<lambda>(_, _, _, ids, _, _, _, i, _). length ids - i)") (auto simp: kQueryRequestLimit_def)

declare QueryPartitionsInBatches_loop.simps [simp del]

definition QueryPartitionsInBatches ::
  "('s, 'd) read_env \<Rightarrow> string \<Rightarrow> string \<Rightarrow> string list \<Rightarrow> u64 option \<Rightarrow> string list \<Rightarrow> string option
    \<Rightarrow> 's read_state \<Rightarrow> ('s read_state \<times> (ApiError + Partitions)) option" where
  "QueryPartitionsInBatches E client layer partition_ids version additional_fields billing_tag s =
     QueryPartitionsInBatches_loop E client layer partition_ids version additional_fields billing_tag 0 [] s"

record partitions_request =
  pq_ids :: "string list"
  pq_additional_fields :: "string list"
  pq_billing_tag :: "string option"
  pq_fetch :: FetchOptions

text \<open>The requests for the partitions of a layer, or for listed partitions.\<close>

definition query_partitions ::
  "('s, 'd) read_env \<Rightarrow> string \<Rightarrow> partitions_request \<Rightarrow> u64 option \<Rightarrow> 's read_state
    \<Rightarrow> ('s read_state \<times> bool \<times> (ApiError + Partitions)) option" where
  "query_partitions E layer request version s =
     (if pq_ids request = [] then do {
        (s, metadata_api) \<leftarrow> LookupApi E ''metadata'' ''v1'' (pq_fetch request) s;
        case metadata_api of
          Inl e \<Rightarrow> Some (s, False, Inl e)
        | Inr client \<Rightarrow> do {
            (s, r) \<leftarrow> MetadataApi_GetPartitions E client layer version (pq_additional_fields request) None (pq_billing_tag request) s;
            Some (s, True, r) } }
      else do {
        (s, query_api) \<leftarrow> LookupApi E ''query'' ''v1'' (pq_fetch request) s;
        case query_api of
          Inl e \<Rightarrow> Some (s, False, Inl e)
        | Inr client \<Rightarrow> do {
            (s, r) \<leftarrow> (if length (pq_ids request) \<le> kQueryRequestLimit
              then QueryApi_GetPartitionsbyId E client layer (pq_ids request) version (pq_additional_fields request) (pq_billing_tag request) s
              else QueryPartitionsInBatches E client layer (pq_ids request) version (pq_additional_fields request) (pq_billing_tag request) s);
            Some (s, True, r) } })"

text \<open>What is done with the answer; an error of the lookup is returned as it is (\<open>asked\<close> is false).\<close>

definition store_partitions ::
  "('s, 'd) read_env \<Rightarrow> string \<Rightarrow> partitions_request \<Rightarrow> u64 option \<Rightarrow> time_t option \<Rightarrow> bool \<Rightarrow> bool \<Rightarrow> ApiError + Partitions
    \<Rightarrow> 's read_state \<Rightarrow> ('s read_state \<times> (ApiError + Partitions)) option" where
  "store_partitions E layer request version expiry fail_on_cache_error asked response s =
     (if \<not> asked then Some (s, response)
      else case response of
        Inr partitions \<Rightarrow>
          if pq_fetch request \<noteq> OnlineOnly then do {
            (s, put_result) \<leftarrow> with_cache (Partitions_Put (env_kv E) (env_json E) (partitions_repo_of E layer)
               (if ps_partitions partitions \<noteq> [] then partitions else CreateNoContentPartitions (pq_ids request))
               version expiry (pq_ids request = [])) s;
            case put_result of
              Inl code \<Rightarrow> if fail_on_cache_error then Some (s, Inl (ApiError_code code)) else Some (s, Inr partitions)
            | Inr _ \<Rightarrow> Some (s, Inr partitions) }
          else Some (s, Inr partitions)
      | Inl e \<Rightarrow>
          if forbidden e then do {
            (s, _) \<leftarrow> with_cache (Partitions_Clear (env_kv E) (partitions_repo_of E layer)) s;
            Some (s, Inl e) }
          else Some (s, Inl e))"

definition partitions_online ::
  "('s, 'd) read_env \<Rightarrow> string \<Rightarrow> partitions_request \<Rightarrow> u64 option \<Rightarrow> time_t option \<Rightarrow> bool
    \<Rightarrow> 's read_state \<Rightarrow> ('s read_state \<times> (ApiError + Partitions)) option" where
  "partitions_online E layer request version expiry fail_on_cache_error s = do {
     (s, asked, response) \<leftarrow> query_partitions E layer request version s;
     store_partitions E layer request version expiry fail_on_cache_error asked response s }"

definition GetPartitionsExtendedResponse ::
  "('s, 'd) read_env \<Rightarrow> string \<Rightarrow> partitions_request \<Rightarrow> u64 option \<Rightarrow> time_t option \<Rightarrow> bool
    \<Rightarrow> 's read_state \<Rightarrow> ('s read_state \<times> (ApiError + Partitions)) option" where
  "GetPartitionsExtendedResponse E layer request version expiry fail_on_cache_error s =
     (if pq_fetch request \<noteq> OnlineOnly \<and> pq_fetch request \<noteq> CacheWithUpdate then do {
        (s, cached_partitions) \<leftarrow> with_cache (Partitions_Get_request (env_kv E) (env_json E) (partitions_repo_of E layer)
           (pq_ids request) version) s;
        case cached_partitions of
          Some ps \<Rightarrow> Some (s, Inr (remove_no_content ps))
        | None \<Rightarrow> if pq_fetch request = CacheOnly then Some (s, Inl (ApiError_code NotFound))
                  else partitions_online E layer request version expiry fail_on_cache_error s }
      else partitions_online E layer request version expiry fail_on_cache_error s)"

definition GetVolatilePartitions ::
  "('s, 'd) read_env \<Rightarrow> string \<Rightarrow> partitions_request \<Rightarrow> 's read_state \<Rightarrow> ('s read_state \<times> (ApiError + Partitions)) option" where
  "GetVolatilePartitions E layer request s = do {
     (s, catalog_response) \<leftarrow> GetCatalog E (pq_fetch request) (pq_billing_tag request) s;
     case catalog_response of
       Inl e \<Rightarrow> Some (s, Inl e)
     | Inr catalog \<Rightarrow>
         (case TtlForLayer (cat_layers catalog) layer of
            Inl e \<Rightarrow> Some (s, Inl e)
          | Inr expiry \<Rightarrow> GetPartitionsExtendedResponse E layer request None expiry False s) }"

definition partition_online ::
  "('s, 'd) read_env \<Rightarrow> string \<Rightarrow> string \<Rightarrow> u64 option \<Rightarrow> FetchOptions \<Rightarrow> string option
    \<Rightarrow> 's read_state \<Rightarrow> ('s read_state \<times> (ApiError + Partitions)) option" where
  "partition_online E layer partition_id version fetch_option billing_tag s =
     (let partitions = [partition_id]; repo = partitions_repo_of E layer in do {
        (s, query_api) \<leftarrow> LookupApi E ''query'' ''v1'' fetch_option s;
        case query_api of
          Inl e \<Rightarrow> Some (s, Inl e)
        | Inr client \<Rightarrow> do {
            (s, query_response) \<leftarrow> QueryApi_GetPartitionsbyId E client layer partitions version [] billing_tag s;
            case query_response of
              Inr ps \<Rightarrow>
                if fetch_option \<noteq> OnlineOnly then do {
                  (s, _) \<leftarrow> with_cache (Partitions_Put (env_kv E) (env_json E) repo
                     (if ps_partitions ps \<noteq> [] then ps else CreateNoContentPartitions partitions) version None False) s;
                  Some (s, Inr ps) }
                else Some (s, Inr ps)
            | Inl e \<Rightarrow>
                if forbidden e then do {
                  (s, _) \<leftarrow> with_cache (ClearPartitions (env_kv E) (env_json E) repo partitions version) s;
                  Some (s, Inl e) }
                else Some (s, Inl e) } })"

text \<open>The request of \<open>GetPartitionById\<close> and of \<open>DataRepository\<close>.\<close>

record data_request =
  dq_partition_id :: "string option"
  dq_data_handle :: "string option"
  dq_billing_tag :: "string option"
  dq_fetch :: FetchOptions

definition GetPartitionById ::
  "('s, 'd) read_env \<Rightarrow> string \<Rightarrow> data_request \<Rightarrow> u64 option \<Rightarrow> 's read_state
    \<Rightarrow> ('s read_state \<times> (ApiError + Partitions)) option" where
  "GetPartitionById E layer request version s =
     (case dq_partition_id request of
        None \<Rightarrow> Some (s, Inl (ApiError_code PreconditionFailed))
      | Some partition_id \<Rightarrow>
          if dq_fetch request \<noteq> OnlineOnly \<and> dq_fetch request \<noteq> CacheWithUpdate then do {
            (s, cached) \<leftarrow> with_cache (Partitions_Get (env_kv E) (env_json E) (partitions_repo_of E layer) [partition_id] version) s;
            if length (ps_partitions cached) = 1 then Some (s, Inr (remove_no_content cached))
            else if dq_fetch request = CacheOnly then Some (s, Inl (ApiError_code NotFound))
            else partition_online E layer partition_id version (dq_fetch request) (dq_billing_tag request) s }
          else partition_online E layer partition_id version (dq_fetch request) (dq_billing_tag request) s)"

definition PartitionFromSubQuad :: "SubQuad \<Rightarrow> string \<Rightarrow> Partition" where
  "PartitionFromSubQuad sub_quad part =
     Partition_new\<lparr>p_partition := part, p_data_handle := sq_data_handle sub_quad, p_version := Some (sq_version sub_quad),
       p_data_size := sq_data_size sub_quad, p_checksum := sq_checksum sub_quad,
       p_compressed_data_size := sq_compressed_data_size sub_quad\<rparr>"

section \<open>PartitionsRepository: tiles\<close>

record tile_request =
  tq_tile_key :: TileKey
  tq_billing_tag :: "string option"
  tq_fetch :: FetchOptions

definition default_additional_fields :: "string list" where
  "default_additional_fields = [''checksum'', ''crc'', ''dataSize'', ''compressedDataSize'']"

text \<open>The document of the answer is parsed by a parameter (a text that is no document is \<open>null\<close>).\<close>

definition quad_tree_online ::
  "('s, 'd) read_env \<Rightarrow> (string \<Rightarrow> QuadTree.json) \<Rightarrow> string \<Rightarrow> tile_request \<Rightarrow> u64 option
    \<Rightarrow> 's read_state \<Rightarrow> ('s read_state \<times> (ApiError + u8 list option)) option" where
  "quad_tree_online E parse_quad layer request version s =
     (let root_tile_key = ChangedLevelBy (- kAggregateQuadTreeDepth) (tq_tile_key request) in do {
        (s, query_api) \<leftarrow> LookupApi E ''query'' ''v1'' (tq_fetch request) s;
        case query_api of
          Inl e \<Rightarrow> Some (s, Inl e)
        | Inr client \<Rightarrow>
            (let (s, response) = QueryApi_QuadTreeIndex E client layer (ToHereTile root_tile_key) version
                   (of_int kAggregateQuadTreeDepth) default_additional_fields (tq_billing_tag request) s in
             if hr_status response \<noteq> 200 then Some (s, Inl (ApiError_status (hr_status response)))
             else do {
               tree \<leftarrow> QuadTreeIndex_of_json root_tile_key kAggregateQuadTreeDepth (parse_quad (hr_body response));
               if tree = None then Some (s, Inl (ApiError_code Unknown))
               else if tq_fetch request \<noteq> OnlineOnly then do {
                 (s, _) \<leftarrow> with_cache (QuadTree_Put (env_kv E) (partitions_repo_of E layer) root_tile_key
                    (of_int kAggregateQuadTreeDepth) tree version) s;
                 Some (s, Inr tree) }
               else Some (s, Inr tree) }) })"

definition GetQuadTreeIndexForTile ::
  "('s, 'd) read_env \<Rightarrow> (string \<Rightarrow> QuadTree.json) \<Rightarrow> string \<Rightarrow> tile_request \<Rightarrow> u64 option \<Rightarrow> string list
    \<Rightarrow> 's read_state \<Rightarrow> ('s read_state \<times> (ApiError + u8 list option)) option" where
  "GetQuadTreeIndexForTile E parse_quad layer request version required_fields s =
     (if tq_fetch request \<noteq> OnlineOnly \<and> tq_fetch request \<noteq> CacheWithUpdate then do {
        (s, found) \<leftarrow> with_cache (FindQuadTree (env_kv E) (partitions_repo_of E layer) (tq_tile_key request) version) s;
        case found of
          Some cached_tree \<Rightarrow> do {
            has_fields \<leftarrow> CheckAdditionalFields (Some required_fields) cached_tree;
            if has_fields then Some (s, Inr cached_tree)
            else quad_tree_online E parse_quad layer request version s }
        | None \<Rightarrow> if tq_fetch request = CacheOnly then Some (s, Inl (ApiError_code NotFound))
                  else quad_tree_online E parse_quad layer request version s }
      else quad_tree_online E parse_quad layer request version s)"

text \<open>The loop of \<open>GetAggregatedTile\<close>: the request keeps the last parent that was asked for.\<close>

lemma level_Parent: "0 < level t \<Longrightarrow> level (Parent t) = level t - 1"
  by (simp add: Parent_def FromRowColumnLevel_def)

lemma wrap_down:
  assumes "0 < (l :: int)" and "l < 2 ^ 32" and "2 ^ 31 \<le> (l - 5 + 2 ^ 31) mod 2 ^ 32"
  shows "5 \<le> l \<and> l - 5 < 2 ^ 31"
proof -
  have a: "(l - 5 + 2 ^ 31) mod 2 ^ 32 = l - 5 + 2 ^ 31" if "l < 5" using that assms(1) by (intro mod_pos_pos_trivial) simp_all
  have b: "(l - 5 + 2 ^ 31) mod 2 ^ 32 = l - 5 - 2 ^ 31" if "2 ^ 31 \<le> l - 5"
  proof -
    have "(l - 5 - 2 ^ 31) mod 2 ^ 32 = (l - 5 + 2 ^ 31) mod 2 ^ 32"
      using mod_add_self2 [of "l - 5 - 2 ^ 31" "2 ^ 32"] by simp
    moreover have "(l - 5 - 2 ^ 31) mod 2 ^ 32 = l - 5 - 2 ^ 31" using that assms(2) by (intro mod_pos_pos_trivial) simp_all
    ultimately show ?thesis by simp
  qed
  show ?thesis
  proof (rule conjI; rule ccontr)
    assume "\<not> 5 \<le> l"
    then show False using a assms(3) by simp
  next
    assume "\<not> l - 5 < 2 ^ 31"
    then show False using b assms(2,3) by simp
  qed
qed

lemma aggregated_root_decreases:
  assumes "(a :: u32) < level root"
  shows "unat (level (ChangedLevelBy (- kAggregateQuadTreeDepth) (Parent root))) < unat (level root)"
proof -
  let ?l = "level root" and ?w = "level root - 1 + of_int (- 4) :: u32"
  have pos: "0 < ?l" using assms by (simp add: word_less_nat_alt)
  have eq: "level (ChangedLevelBy (- kAggregateQuadTreeDepth) (Parent root)) = of_int (if sint ?w < 0 then 0 else sint ?w)"
    using level_Parent [OF pos] by (simp add: ChangedLevelBy_def Let_def kAggregateQuadTreeDepth_def)
  show ?thesis
  proof (cases "sint ?w < 0")
    case True
    then show ?thesis using pos unfolding eq by (simp add: unat_gt_0)
  next
    case False
    have l: "0 < uint ?l" "uint ?l < 2 ^ 32" using pos uint_lt2p [of ?l] by (simp_all add: word_less_def)
    have w: "?w = word_of_int (uint ?l - 5)" by simp
    have "sint ?w = (uint ?l - 5 + 2 ^ 31) mod 2 ^ 32 - 2 ^ 31" unfolding w by (subst int_word_sint) simp
    with False have "2 ^ 31 \<le> (uint ?l - 5 + 2 ^ 31) mod 2 ^ 32" by simp
    then have r: "5 \<le> uint ?l" "uint ?l - 5 < 2 ^ 31"
      using wrap_down [OF l] by simp_all
    have "uint ?w = (uint ?l - 5) mod 2 ^ 32" unfolding w by (subst uint_word_of_int) simp
    also have "\<dots> = uint ?l - 5" using r l by (intro mod_pos_pos_trivial) simp_all
    finally have "uint ?w = uint ?l - 5" .
    then show ?thesis using False unfolding eq by (simp add: unat_mono word_less_def)
  qed
qed

function aggregated_loop ::
  "('s, 'd) read_env \<Rightarrow> (string \<Rightarrow> QuadTree.json) \<Rightarrow> string \<Rightarrow> u64 option \<Rightarrow> u32 \<Rightarrow> TileKey \<Rightarrow> tile_request
    \<Rightarrow> 's read_state \<Rightarrow> ('s read_state \<times> tile_request) option" where
  "aggregated_loop E parse_quad layer version aggregated_level root request s =
     (if aggregated_level < level root then do {
        let parent = Parent root;
        let request = request\<lparr>tq_tile_key := parent\<rparr>;
        (s, _) \<leftarrow> GetQuadTreeIndexForTile E parse_quad layer request version [] s;
        aggregated_loop E parse_quad layer version aggregated_level (ChangedLevelBy (- kAggregateQuadTreeDepth) parent) request s }
      else Some (s, request))"
  by pat_completeness auto
termination
  by (relation "measure (\<lambda>(_, _, _, _, _, root, _). unat (level root))") (auto intro: aggregated_root_decreases)

declare aggregated_loop.simps [simp del]

definition found_partition :: "u8 list option \<Rightarrow> tile_request \<Rightarrow> bool \<Rightarrow> (ApiError + Partition) option" where
  "found_partition tree request aggregated = do {
     part \<leftarrow> FindPartition tree (tq_tile_key request) aggregated;
     Some (case part of None \<Rightarrow> Inl (ApiError_code NotFound) | Some p \<Rightarrow> Inr p) }"

definition GetAggregatedTile ::
  "('s, 'd) read_env \<Rightarrow> (string \<Rightarrow> QuadTree.json) \<Rightarrow> string \<Rightarrow> tile_request \<Rightarrow> u64 option
    \<Rightarrow> 's read_state \<Rightarrow> ('s read_state \<times> (ApiError + Partition)) option" where
  "GetAggregatedTile E parse_quad layer request version s = do {
     (s, quad_tree_response) \<leftarrow> GetQuadTreeIndexForTile E parse_quad layer request version [] s;
     case quad_tree_response of
       Inl e \<Rightarrow> Some (s, Inl e)
     | Inr tree \<Rightarrow> do {
         (s, request) \<leftarrow>
           (if tq_fetch request \<noteq> CacheOnly then do {
              index_data \<leftarrow> Find tree (tq_tile_key request) True;
              case index_data of
                Some d \<Rightarrow> aggregated_loop E parse_quad layer version (level (tile_key d)) (GetRootTile tree) request s
              | None \<Rightarrow> Some (s, request) }
            else Some (s, request));
         part \<leftarrow> found_partition tree request True;
         Some (s, part) } }"

definition GetTile ::
  "('s, 'd) read_env \<Rightarrow> (string \<Rightarrow> QuadTree.json) \<Rightarrow> string \<Rightarrow> tile_request \<Rightarrow> u64 option \<Rightarrow> string list
    \<Rightarrow> 's read_state \<Rightarrow> ('s read_state \<times> (ApiError + Partition)) option" where
  "GetTile E parse_quad layer request version required_fields s = do {
     (s, quad_tree_response) \<leftarrow> GetQuadTreeIndexForTile E parse_quad layer request version required_fields s;
     case quad_tree_response of
       Inl e \<Rightarrow> Some (s, Inl e)
     | Inr tree \<Rightarrow> do { part \<leftarrow> found_partition tree request False; Some (s, part) } }"

section \<open>DataRepository\<close>

definition kBlobService :: string where "kBlobService = ''blob''"

definition kVolatileBlobService :: string where "kVolatileBlobService = ''volatile-blob''"

definition set_error :: "string \<Rightarrow> ApiError \<Rightarrow> 's read_state \<Rightarrow> 's read_state" where
  "set_error key e s = s\<lparr>st_errors := st_errors s @ [(key, e)]\<rparr>"

text \<open>\<open>GetBlobData\<close> after the cache: the result is a pointer to the data. For a volatile layer the code builds a successful
response from the result of the request, which is the null pointer when the request failed; the error is dropped.\<close>

definition blob_online ::
  "('s, 'd) read_env \<Rightarrow> string \<Rightarrow> string \<Rightarrow> Partition \<Rightarrow> FetchOptions \<Rightarrow> string option \<Rightarrow> bool
    \<Rightarrow> 's read_state \<Rightarrow> ('s read_state \<times> (ApiError + string option)) option" where
  "blob_online E layer service part fetch_option billing_tag fail_on_cache_error s =
     (let handle = p_data_handle part; key = env_hrn_string E @ layer @ handle; repo = catalog_repo E in
      case env_shared_error E key of
        Some e \<Rightarrow> Some (s, Inl e)
      | None \<Rightarrow> do {
          (s, storage_api_lookup) \<leftarrow> LookupApi E service ''v1'' fetch_option s;
          case storage_api_lookup of
            Inl e \<Rightarrow> Some (set_error key e s, Inl e)
          | Inr client \<Rightarrow>
              (let (s, storage_response) =
                 (if service = kBlobService then
                    (case BlobApi_GetBlob E client layer part billing_tag None s of
                       (s, Inl e) \<Rightarrow> (s, Inl e)
                     | (s, Inr data) \<Rightarrow> (s, Inr (Some data)))
                  else
                    (case VolatileBlobApi_GetVolatileBlob E client layer handle billing_tag s of
                       (s, Inl e) \<Rightarrow> (s, Inr None)
                     | (s, Inr data) \<Rightarrow> (s, Inr (Some data)))) in
               case storage_response of
                 Inr data \<Rightarrow>
                   if fetch_option \<noteq> OnlineOnly then do {
                     (s, put_result) \<leftarrow> with_cache (Data_Put (env_kv E) repo data layer handle) s;
                     case put_result of
                       Inl code \<Rightarrow> if fail_on_cache_error then Some (s, Inl (ApiError_code code)) else Some (s, Inr data)
                     | Inr _ \<Rightarrow> Some (s, Inr data) }
                   else Some (s, Inr data)
               | Inl e \<Rightarrow>
                   if forbidden e then do {
                     (s, _) \<leftarrow> with_cache (Data_Clear (env_kv E) repo layer handle) s;
                     Some (set_error key e s, Inl e) }
                   else Some (set_error key e s, Inl e)) })"

definition GetBlobData ::
  "('s, 'd) read_env \<Rightarrow> string \<Rightarrow> string \<Rightarrow> Partition \<Rightarrow> FetchOptions \<Rightarrow> string option \<Rightarrow> bool
    \<Rightarrow> 's read_state \<Rightarrow> ('s read_state \<times> (ApiError + string option)) option" where
  "GetBlobData E layer service part fetch_option billing_tag fail_on_cache_error s =
     (if p_data_handle part = [] then Some (s, Inl (ApiError_code PreconditionFailed))
      else if fetch_option \<noteq> OnlineOnly \<and> fetch_option \<noteq> CacheWithUpdate then do {
        (s, cached_data) \<leftarrow> with_cache (Data_Get (env_kv E) (catalog_repo E) layer (p_data_handle part)) s;
        case cached_data of
          Some data \<Rightarrow> Some (s, Inr (Some data))
        | None \<Rightarrow> if fetch_option = CacheOnly then Some (s, Inl (ApiError_code NotFound))
                  else blob_online E layer service part fetch_option billing_tag fail_on_cache_error s }
      else blob_online E layer service part fetch_option billing_tag fail_on_cache_error s)"

definition GetVersionedTile ::
  "('s, 'd) read_env \<Rightarrow> (string \<Rightarrow> QuadTree.json) \<Rightarrow> string \<Rightarrow> tile_request \<Rightarrow> u64 \<Rightarrow> bool
    \<Rightarrow> 's read_state \<Rightarrow> ('s read_state \<times> (ApiError + string option)) option" where
  "GetVersionedTile E parse_quad layer request version propagate_all_cache_errors s = do {
     (s, response) \<leftarrow> GetTile E parse_quad layer request (Some version) [] s;
     case response of
       Inl e \<Rightarrow> Some (s, Inl e)
     | Inr part \<Rightarrow> GetBlobData E layer kBlobService part (tq_fetch request) (tq_billing_tag request) propagate_all_cache_errors s }"

text \<open>The common part of \<open>GetVersionedData\<close> and \<open>GetVolatileData\<close>: the partition of the request, then its data.\<close>

definition data_of_request ::
  "('s, 'd) read_env \<Rightarrow> string \<Rightarrow> string \<Rightarrow> data_request \<Rightarrow> u64 option \<Rightarrow> bool
    \<Rightarrow> 's read_state \<Rightarrow> ('s read_state \<times> (ApiError + string option)) option" where
  "data_of_request E layer service request version fail_on_cache_error s =
     (if dq_data_handle request \<noteq> None \<and> dq_partition_id request \<noteq> None then Some (s, Inl (ApiError_code PreconditionFailed))
      else case dq_data_handle request of
        Some handle \<Rightarrow> GetBlobData E layer service (Partition_new\<lparr>p_data_handle := handle\<rparr>) (dq_fetch request) (dq_billing_tag request)
          fail_on_cache_error s
      | None \<Rightarrow> do {
          (s, partitions_response) \<leftarrow> GetPartitionById E layer request version s;
          case partitions_response of
            Inl e \<Rightarrow> Some (s, Inl e)
          | Inr partitions \<Rightarrow>
              (case ps_partitions partitions of
                 [] \<Rightarrow> Some (s, Inl (ApiError_code NoContent))
               | part # _ \<Rightarrow> GetBlobData E layer service part (dq_fetch request) (dq_billing_tag request) fail_on_cache_error s) })"

definition GetVersionedData ::
  "('s, 'd) read_env \<Rightarrow> string \<Rightarrow> data_request \<Rightarrow> u64 \<Rightarrow> bool
    \<Rightarrow> 's read_state \<Rightarrow> ('s read_state \<times> (ApiError + string option)) option" where
  "GetVersionedData E layer request version fail_on_cache_error s =
     data_of_request E layer kBlobService request (Some version) fail_on_cache_error s"

definition GetVolatileData ::
  "('s, 'd) read_env \<Rightarrow> string \<Rightarrow> data_request \<Rightarrow> bool
    \<Rightarrow> 's read_state \<Rightarrow> ('s read_state \<times> (ApiError + string option)) option" where
  "GetVolatileData E layer request fail_on_cache_error s =
     data_of_request E layer kVolatileBlobService request None fail_on_cache_error s"

end
