(* ===== verification/ReadGuarantees.thy ===== *)
theory ReadGuarantees
  imports ReadRepositories
begin

text \<open>
  What the read repositories promise about the cache and the network: the fetch options are respected, a service address
  is looked up once while it is valid, data that was read is what the cache or the service holds, and listed partitions
  are asked for in batches that cover the list.
\<close>

section \<open>Reasoning on runs\<close>

definition ensures :: "('s \<times> 'r) option \<Rightarrow> ('s \<Rightarrow> 'r \<Rightarrow> bool) \<Rightarrow> bool" where
  "ensures x P \<longleftrightarrow> (\<forall>s r. x = Some (s, r) \<longrightarrow> P s r)"

lemma ensures_Some [simp]: "ensures (Some (s, r)) P \<longleftrightarrow> P s r"
  by (simp add: ensures_def)

lemma ensures_None [simp]: "ensures None P"
  by (simp add: ensures_def)

lemma ensures_bind:
  "ensures x P \<Longrightarrow> (\<And>s r. P s r \<Longrightarrow> ensures (f (s, r)) Q) \<Longrightarrow> ensures (x \<bind> f) Q"
  by (cases x) (auto simp: ensures_def)

lemma ensures_pure_bind: "(\<And>r. ensures (f r) Q) \<Longrightarrow> ensures (x \<bind> f) Q"
  by (cases x) simp_all

lemma ensures_mono: "ensures x P \<Longrightarrow> (\<And>s r. P s r \<Longrightarrow> Q s r) \<Longrightarrow> ensures x Q"
  by (auto simp: ensures_def)

lemma ensures_map: "ensures x (\<lambda>s r. P s (f r)) \<Longrightarrow> ensures (map_option (\<lambda>(s, r). (s, f r)) x) P"
  by (auto simp: ensures_def)

lemma ensures_D: "ensures x P \<Longrightarrow> x = Some (s, r) \<Longrightarrow> P s r"
  by (simp add: ensures_def)

text \<open>No requests are made; the cache is left as it is.\<close>

definition offline :: "'s read_state \<Rightarrow> 's read_state \<Rightarrow> bool" where
  "offline s s' \<longleftrightarrow> st_requests s' = st_requests s"

definition uncached :: "'s read_state \<Rightarrow> 's read_state \<Rightarrow> bool" where
  "uncached s s' \<longleftrightarrow> st_cache s' = st_cache s"

lemma offline_refl [simp]: "offline s s"
  by (simp add: offline_def)

lemma uncached_refl [simp]: "uncached s s"
  by (simp add: uncached_def)

lemma offline_trans: "offline s s1 \<Longrightarrow> offline s1 s2 \<Longrightarrow> offline s s2"
  by (simp add: offline_def)

lemma uncached_trans: "uncached s s1 \<Longrightarrow> uncached s1 s2 \<Longrightarrow> uncached s s2"
  by (simp add: uncached_def)

lemma with_cache_offline: "offline s0 s \<Longrightarrow> ensures (with_cache f s) (\<lambda>s' r. offline s0 s')"
  by (auto simp: ensures_def with_cache_def offline_def)

lemma set_error_keeps [simp]: "offline s0 (set_error k e s) = offline s0 s" "uncached s0 (set_error k e s) = uncached s0 s"
  by (simp_all add: set_error_def offline_def uncached_def)

section \<open>The lookup of addresses\<close>

lemma GetCachedClient_offline: "offline s0 s \<Longrightarrow> ensures (GetCachedClient E service version s) (\<lambda>s' r. offline s0 s')"
proof -
  assume s: "offline s0 s"
  have "ensures (client_from_cache E key service version s) (\<lambda>s' r. offline s0 s')" for key
    unfolding client_from_cache_def
    by (rule ensures_bind [OF with_cache_offline [OF s]]) (auto simp: CreateAndCacheClient_def offline_def split: option.split)
  then show ?thesis using s by (auto simp: GetCachedClient_def Let_def split: option.splits)
qed

lemma LookupApi_offline: "offline s0 s \<Longrightarrow> ensures (LookupApi E service version CacheOnly s) (\<lambda>s' r. offline s0 s')"
  unfolding LookupApi_def Let_def
  by (auto intro!: ensures_bind [OF GetCachedClient_offline] split: option.split)

lemma lookup_online_uncached:
  assumes "options = OnlineOnly \<or> options = CacheWithUpdate" and "uncached s0 s"
  shows "ensures (lookup_online E service version options s) (\<lambda>s' r. uncached s0 s')"
  using assms
  by (auto simp: lookup_online_def ensures_def PlatformApi_GetApis_def ResourcesApi_GetApis_def call_api_def
      CreateAndCacheClient_def uncached_def Let_def split: if_splits bind_splits sum.splits prod.splits)

lemma LookupApi_uncached:
  "options = OnlineOnly \<or> options = CacheWithUpdate \<Longrightarrow> uncached s0 s \<Longrightarrow> ensures (LookupApi E service version options s) (\<lambda>s' r. uncached s0 s')"
  using lookup_online_uncached [of options s0 s E service version] by (auto simp: LookupApi_def Let_def)

section \<open>Answers from the cache only\<close>

lemma GetCatalog_offline: "offline s0 s \<Longrightarrow> ensures (GetCatalog E CacheOnly tag s) (\<lambda>s' r. offline s0 s')"
  unfolding GetCatalog_def by (auto intro!: ensures_bind [OF with_cache_offline] split: option.split)

lemma GetLatestVersion_offline: "offline s0 s \<Longrightarrow> ensures (GetLatestVersion E CacheOnly v tag s) (\<lambda>s' r. offline s0 s')"
  unfolding GetLatestVersion_def latest_version_cached_def
  by (auto intro!: ensures_bind [OF with_cache_offline] simp: Let_def split: option.split sum.split)

lemma GetPartitions_offline:
  "offline s0 s \<Longrightarrow> pq_fetch request = CacheOnly \<Longrightarrow>
    ensures (GetPartitionsExtendedResponse E layer request version expiry fail s) (\<lambda>s' r. offline s0 s')"
  unfolding GetPartitionsExtendedResponse_def by (auto intro!: ensures_bind [OF with_cache_offline] split: option.split)

lemma GetVolatilePartitions_offline:
  "offline s0 s \<Longrightarrow> pq_fetch request = CacheOnly \<Longrightarrow> ensures (GetVolatilePartitions E layer request s) (\<lambda>s' r. offline s0 s')"
  unfolding GetVolatilePartitions_def
  by (auto intro!: ensures_bind [OF GetCatalog_offline] GetPartitions_offline split: sum.split)

lemma GetPartitionById_offline:
  "offline s0 s \<Longrightarrow> dq_fetch request = CacheOnly \<Longrightarrow> ensures (GetPartitionById E layer request version s) (\<lambda>s' r. offline s0 s')"
  unfolding GetPartitionById_def by (auto intro!: ensures_bind [OF with_cache_offline] split: option.split)

lemma CheckAdditionalFields_none: "CheckAdditionalFields (Some []) tree \<noteq> Some False"
  by (auto simp: CheckAdditionalFields_def index_has_fields_def list_all_iff)

lemma GetQuadTree_offline:
  "offline s0 s \<Longrightarrow> tq_fetch request = CacheOnly \<Longrightarrow>
    ensures (GetQuadTreeIndexForTile E pj layer request version [] s) (\<lambda>s' r. offline s0 s')"
  unfolding GetQuadTreeIndexForTile_def
  by (auto intro!: ensures_bind [OF with_cache_offline] split: option.split)
    (rename_tac tree, case_tac "CheckAdditionalFields (Some []) tree", auto simp: CheckAdditionalFields_none)

lemma GetTile_offline:
  "offline s0 s \<Longrightarrow> tq_fetch request = CacheOnly \<Longrightarrow> ensures (GetTile E pj layer request version [] s) (\<lambda>s' r. offline s0 s')"
  unfolding GetTile_def
  by (rule ensures_bind [OF GetQuadTree_offline], assumption, assumption) (auto intro!: ensures_pure_bind split: sum.split)

lemma GetAggregatedTile_offline:
  "offline s0 s \<Longrightarrow> tq_fetch request = CacheOnly \<Longrightarrow> ensures (GetAggregatedTile E pj layer request version s) (\<lambda>s' r. offline s0 s')"
  unfolding GetAggregatedTile_def
  by (rule ensures_bind [OF GetQuadTree_offline], assumption, assumption) (auto intro!: ensures_pure_bind split: sum.split)

lemma GetBlobData_offline:
  "offline s0 s \<Longrightarrow> ensures (GetBlobData E layer service part CacheOnly tag fail s) (\<lambda>s' r. offline s0 s')"
  unfolding GetBlobData_def by (auto intro!: ensures_bind [OF with_cache_offline] split: option.split)

lemma GetVersionedTile_offline:
  "offline s0 s \<Longrightarrow> tq_fetch request = CacheOnly \<Longrightarrow> ensures (GetVersionedTile E pj layer request version fail s) (\<lambda>s' r. offline s0 s')"
  unfolding GetVersionedTile_def by (auto intro!: ensures_bind [OF GetTile_offline] GetBlobData_offline split: sum.split)

lemma data_of_request_offline:
  "offline s0 s \<Longrightarrow> dq_fetch request = CacheOnly \<Longrightarrow>
    ensures (data_of_request E layer service request version fail s) (\<lambda>s' r. offline s0 s')"
  unfolding data_of_request_def
  by (auto intro!: ensures_bind [OF GetPartitionById_offline] GetBlobData_offline split: option.split sum.split list.split)

section \<open>Answers from the network only\<close>

text \<open>The cache is left alone, unless the access is forbidden.\<close>

definition untouched :: "'s read_state \<Rightarrow> 's read_state \<Rightarrow> ApiError + 'a \<Rightarrow> bool" where
  "untouched s s' r \<longleftrightarrow> uncached s s' \<or> (\<exists>e. r = Inl e \<and> forbidden e)"

lemma untouchedI [intro]: "uncached s s' \<Longrightarrow> untouched s s' r"
  by (simp add: untouched_def)

lemma untouched_Inr [simp]: "untouched s s' (Inr x) = uncached s s'"
  by (simp add: untouched_def)

lemma call_uncached:
  "uncached s0 s \<Longrightarrow> ensures (ConfigApi_GetCatalog E c hrn tag s) (\<lambda>s' r. uncached s0 s')"
  "uncached s0 s \<Longrightarrow> ensures (MetadataApi_GetPartitions E c layer version fs rng tag s) (\<lambda>s' r. uncached s0 s')"
  "uncached s0 s \<Longrightarrow> ensures (QueryApi_GetPartitionsbyId E c layer ids version fs tag s) (\<lambda>s' r. uncached s0 s')"
  "uncached s0 s \<Longrightarrow> uncached s0 (fst (QueryApi_QuadTreeIndex E c layer k version depth fs tag s))"
  "uncached s0 s \<Longrightarrow> uncached s0 (fst (BlobApi_GetBlob E c layer part tag rng s))"
  "uncached s0 s \<Longrightarrow> uncached s0 (fst (VolatileBlobApi_GetVolatileBlob E c layer h tag s))"
  by (auto simp: ConfigApi_GetCatalog_def MetadataApi_GetPartitions_def QueryApi_GetPartitionsbyId_def QueryApi_QuadTreeIndex_def
      BlobApi_GetBlob_def VolatileBlobApi_GetVolatileBlob_def call_api_def Let_def ensures_def uncached_def)

lemma lookup_only:
  "uncached s0 s \<Longrightarrow> ensures (LookupApi E service version OnlineOnly s) (\<lambda>s' r. uncached s0 s')"
  by (rule LookupApi_uncached) simp_all

lemma GetCatalog_untouched: "uncached s0 s \<Longrightarrow> ensures (GetCatalog E OnlineOnly tag s) (untouched s0)"
  unfolding GetCatalog_def catalog_online_def
  by (auto intro!: ensures_bind [OF lookup_only] ensures_bind [OF call_uncached(1)] simp: Let_def split: sum.split)
    (auto simp: ensures_def untouched_def split: bind_splits)

lemma batches_uncached:
  "uncached s0 s \<Longrightarrow> ensures (QueryPartitionsInBatches_loop E c layer ids version fs tag i acc s) (\<lambda>s' r. uncached s0 s')"
proof (induction "length ids - i" arbitrary: i acc s rule: less_induct)
  case less
  show ?case
    by (subst QueryPartitionsInBatches_loop.simps)
      (auto intro!: ensures_bind [OF call_uncached(3)] less split: sum.split simp: kQueryRequestLimit_def)
qed

lemma query_partitions_uncached:
  "uncached s0 s \<Longrightarrow> pq_fetch request = OnlineOnly \<Longrightarrow> ensures (query_partitions E layer request version s) (\<lambda>s' r. uncached s0 s')"
  unfolding query_partitions_def QueryPartitionsInBatches_def
  by (auto intro!: ensures_bind [OF lookup_only] ensures_bind [OF call_uncached(2)] ensures_bind [OF call_uncached(3)]
      ensures_bind [OF batches_uncached] split: sum.split)

lemma GetPartitions_untouched:
  "uncached s0 s \<Longrightarrow> pq_fetch request = OnlineOnly \<Longrightarrow>
    ensures (GetPartitionsExtendedResponse E layer request version expiry fail s) (untouched s0)"
  unfolding GetPartitionsExtendedResponse_def partitions_online_def store_partitions_def
  by (auto intro!: ensures_bind [OF query_partitions_uncached] split: sum.split)
    (auto simp: ensures_def untouched_def split: bind_splits)

lemma GetVolatilePartitions_untouched:
  "uncached s0 s \<Longrightarrow> pq_fetch request = OnlineOnly \<Longrightarrow> ensures (GetVolatilePartitions E layer request s) (untouched s0)"
  unfolding GetVolatilePartitions_def
  by (auto intro!: ensures_bind [OF GetCatalog_untouched] GetPartitions_untouched split: sum.split simp: untouched_def)

lemma GetPartitionById_untouched:
  "uncached s0 s \<Longrightarrow> dq_fetch request = OnlineOnly \<Longrightarrow> ensures (GetPartitionById E layer request version s) (untouched s0)"
  unfolding GetPartitionById_def partition_online_def Let_def
  by (auto intro!: ensures_bind [OF lookup_only] ensures_bind [OF call_uncached(3)] split: sum.split option.split)
    (auto simp: ensures_def untouched_def split: bind_splits)

lemma GetQuadTree_uncached:
  "uncached s0 s \<Longrightarrow> tq_fetch request = OnlineOnly \<Longrightarrow>
    ensures (GetQuadTreeIndexForTile E pj layer request version fs s) (\<lambda>s' r. uncached s0 s')"
  unfolding GetQuadTreeIndexForTile_def quad_tree_online_def Let_def
  by (simp, rule ensures_bind [OF lookup_only], assumption)
    (auto intro!: ensures_pure_bind simp: case_prod_unfold call_uncached split: sum.split)

lemma aggregated_loop_uncached:
  "uncached s0 s \<Longrightarrow> tq_fetch request = OnlineOnly \<Longrightarrow>
    ensures (aggregated_loop E pj layer version lev root request s) (\<lambda>s' r. uncached s0 s')"
proof (induction "unat (level root)" arbitrary: root request s rule: less_induct)
  case less
  show ?case
    by (subst aggregated_loop.simps)
      (auto intro!: ensures_bind [OF GetQuadTree_uncached] less aggregated_root_decreases simp: Let_def)
qed

lemma GetTile_uncached:
  "uncached s0 s \<Longrightarrow> tq_fetch request = OnlineOnly \<Longrightarrow> ensures (GetTile E pj layer request version fs s) (\<lambda>s' r. uncached s0 s')"
  unfolding GetTile_def
  by (rule ensures_bind [OF GetQuadTree_uncached], assumption, assumption) (auto intro!: ensures_pure_bind split: sum.split)

lemma GetAggregatedTile_uncached:
  "uncached s0 s \<Longrightarrow> tq_fetch request = OnlineOnly \<Longrightarrow> ensures (GetAggregatedTile E pj layer request version s) (\<lambda>s' r. uncached s0 s')"
  unfolding GetAggregatedTile_def
proof (rule ensures_bind [OF GetQuadTree_uncached], assumption, assumption, goal_cases)
  case (1 s1 r)
  have loop: "ensures (if tq_fetch request \<noteq> CacheOnly then do {
      index_data \<leftarrow> Find tree (tq_tile_key request) True;
      case index_data of
        Some d \<Rightarrow> aggregated_loop E pj layer version (level (tile_key d)) (GetRootTile tree) request s1
      | None \<Rightarrow> Some (s1, request) } else Some (s1, request)) (\<lambda>s' r. uncached s0 s')" for tree
    using 1 by (auto intro!: ensures_pure_bind aggregated_loop_uncached split: option.split)
  show ?case
  proof (cases r)
    case (Inl e)
    then show ?thesis using 1(3) by simp
  next
    case (Inr tree)
    show ?thesis unfolding Inr prod.case sum.case by (rule ensures_bind [OF loop]) (auto intro!: ensures_pure_bind)
  qed
qed

lemma GetBlobData_untouched: "uncached s0 s \<Longrightarrow> ensures (GetBlobData E layer service part OnlineOnly tag fail s) (untouched s0)"
  unfolding GetBlobData_def blob_online_def Let_def
  by (auto intro!: ensures_bind [OF lookup_only] simp: case_prod_unfold call_uncached split: sum.split option.split)
    (auto simp: ensures_def untouched_def call_uncached split: bind_splits)

lemma GetVersionedTile_untouched:
  "uncached s0 s \<Longrightarrow> tq_fetch request = OnlineOnly \<Longrightarrow> ensures (GetVersionedTile E pj layer request version fail s) (untouched s0)"
  unfolding GetVersionedTile_def by (auto intro!: ensures_bind [OF GetTile_uncached] GetBlobData_untouched split: sum.split)

lemma data_of_request_untouched:
  "uncached s0 s \<Longrightarrow> dq_fetch request = OnlineOnly \<Longrightarrow>
    ensures (data_of_request E layer service request version fail s) (untouched s0)"
  unfolding data_of_request_def
  by (auto intro!: ensures_bind [OF GetPartitionById_untouched] GetBlobData_untouched split: option.split sum.split list.split
      simp: untouched_def)

section \<open>The fetch options\<close>

text \<open>The operations of the repositories; the answer is reduced to its error.\<close>

datatype read_op =
    ReadCatalog FetchOptions "string option"
  | ReadVersion FetchOptions u64 "string option"
  | ReadPartitions string partitions_request "u64 option" "time_t option" bool
  | ReadVolatilePartitions string partitions_request
  | ReadPartition string data_request "u64 option"
  | ReadTile string tile_request "u64 option"
  | ReadAggregatedTile string tile_request "u64 option"
  | ReadTileData string tile_request u64 bool
  | ReadData string data_request u64 bool
  | ReadVolatileData string data_request bool

fun op_fetch :: "read_op \<Rightarrow> FetchOptions" where
  "op_fetch (ReadCatalog f tag) = f"
| "op_fetch (ReadVersion f v tag) = f"
| "op_fetch (ReadPartitions layer r version expiry fail) = pq_fetch r"
| "op_fetch (ReadVolatilePartitions layer r) = pq_fetch r"
| "op_fetch (ReadPartition layer r version) = dq_fetch r"
| "op_fetch (ReadTile layer r version) = tq_fetch r"
| "op_fetch (ReadAggregatedTile layer r version) = tq_fetch r"
| "op_fetch (ReadTileData layer r version fail) = tq_fetch r"
| "op_fetch (ReadData layer r version fail) = dq_fetch r"
| "op_fetch (ReadVolatileData layer r fail) = dq_fetch r"

definition error_of :: "ApiError + 'a \<Rightarrow> ApiError option" where
  "error_of r = (case r of Inl e \<Rightarrow> Some e | Inr _ \<Rightarrow> None)"

definition outcome :: "('s \<times> (ApiError + 'a)) option \<Rightarrow> ('s \<times> ApiError option) option" where
  "outcome x = map_option (\<lambda>(s, r). (s, error_of r)) x"

fun read_step ::
  "('s, 'd) read_env \<Rightarrow> (string \<Rightarrow> QuadTree.json) \<Rightarrow> read_op \<Rightarrow> 's read_state \<Rightarrow> ('s read_state \<times> ApiError option) option" where
  "read_step E pj (ReadCatalog f tag) s = outcome (GetCatalog E f tag s)"
| "read_step E pj (ReadVersion f v tag) s = outcome (GetLatestVersion E f v tag s)"
| "read_step E pj (ReadPartitions layer r version expiry fail) s = outcome (GetPartitionsExtendedResponse E layer r version expiry fail s)"
| "read_step E pj (ReadVolatilePartitions layer r) s = outcome (GetVolatilePartitions E layer r s)"
| "read_step E pj (ReadPartition layer r version) s = outcome (GetPartitionById E layer r version s)"
| "read_step E pj (ReadTile layer r version) s = outcome (GetTile E pj layer r version [] s)"
| "read_step E pj (ReadAggregatedTile layer r version) s = outcome (GetAggregatedTile E pj layer r version s)"
| "read_step E pj (ReadTileData layer r version fail) s = outcome (GetVersionedTile E pj layer r version fail s)"
| "read_step E pj (ReadData layer r version fail) s = outcome (GetVersionedData E layer r version fail s)"
| "read_step E pj (ReadVolatileData layer r fail) s = outcome (GetVolatileData E layer r fail s)"

lemma outcome_ensures: "ensures x (\<lambda>s r. P s (error_of r)) \<Longrightarrow> ensures (outcome x) P"
  unfolding outcome_def by (rule ensures_map)

lemma read_step_offline: "op_fetch op = CacheOnly \<Longrightarrow> ensures (read_step E pj op s) (\<lambda>s' e. offline s s')"
  by (cases op)
    (auto simp: GetVersionedData_def GetVolatileData_def intro!: outcome_ensures GetCatalog_offline GetLatestVersion_offline
      GetPartitions_offline GetVolatilePartitions_offline GetPartitionById_offline GetTile_offline GetAggregatedTile_offline
      GetVersionedTile_offline data_of_request_offline)

definition is_version_op :: "read_op \<Rightarrow> bool" where
  "is_version_op op \<longleftrightarrow> (case op of ReadVersion _ _ _ \<Rightarrow> True | _ \<Rightarrow> False)"

lemma untouched_outcome:
  "ensures x (untouched s) \<Longrightarrow> ensures (outcome x) (\<lambda>s' e. uncached s s' \<or> (\<exists>x. e = Some x \<and> forbidden x))"
  "ensures x (\<lambda>s' r. uncached s s') \<Longrightarrow> ensures (outcome x) (\<lambda>s' e. uncached s s' \<or> (\<exists>x. e = Some x \<and> forbidden x))"
  by (rule outcome_ensures, erule ensures_mono, auto simp: error_of_def untouched_def split: sum.split)+

lemma read_step_online:
  assumes "op_fetch op = OnlineOnly" and "\<not> is_version_op op"
  shows "ensures (read_step E pj op s) (\<lambda>s' e. uncached s s' \<or> (\<exists>x. e = Some x \<and> forbidden x))"
proof (cases op)
  case (ReadTile layer r version)
  then show ?thesis using assms by (auto intro!: untouched_outcome(2) GetTile_uncached)
next
  case (ReadAggregatedTile layer r version)
  then show ?thesis using assms by (auto intro!: untouched_outcome(2) GetAggregatedTile_uncached)
qed (use assms in \<open>auto simp: is_version_op_def GetVersionedData_def GetVolatileData_def intro!: untouched_outcome(1) GetCatalog_untouched
      GetPartitions_untouched GetVolatilePartitions_untouched GetPartitionById_untouched GetVersionedTile_untouched
      data_of_request_untouched\<close>)

text \<open>C22. The fetch options are respected by the read repositories. An operation that may only use the cache sends no
request, whatever the cache holds. An operation that may only go online leaves the cache as it was, except that an answer
403 removes what is no longer allowed. Two cases are not covered: the latest version, whose address is looked up in the cache
also when only the network may be used, and the index of a tile read with required fields (here the fields are those that
\<open>GetTile\<close> and \<open>GetAggregatedTile\<close> ask for by default), which is requested although only the cache may be used
(\<open>cache_only_goes_online\<close>).\<close>

theorem fetch_options_respected:
  assumes "read_step E pj op s = Some (s', e)"
  shows "(op_fetch op = CacheOnly \<longrightarrow> st_requests s' = st_requests s)
    \<and> (op_fetch op = OnlineOnly \<and> \<not> is_version_op op \<longrightarrow> st_cache s' = st_cache s \<or> (\<exists>x. e = Some x \<and> err_status x = 403))"
  using ensures_D [OF read_step_offline [of op E pj s] assms] ensures_D [OF read_step_online [of op E pj s] assms]
  by (auto simp: offline_def uncached_def forbidden_def)

text \<open>A service at a fixed address that answers every request with the data 1, 2, and a cache in memory.\<close>

definition sample_env :: "(string \<Rightarrow> nat JsonModels.json option) \<Rightarrow> (api_request list \<Rightarrow> api_request \<Rightarrow> api_response)
    \<Rightarrow> ((any_value, (string, string) omap) default_cache, nat) read_env" where
  "sample_env parse net =
     \<lparr>env_kv = default_kv mem_ldb 0,
      env_json = \<lparr>lib_parse = parse, lib_text = \<lambda>_. [],
        lib_numbers = \<lparr>exact_int64 = \<lambda>d. Some (of_nat d), trunc_int64 = \<lambda>d. Some (of_nat d), of_int64 = unat, of_uint64 = unat\<rparr>\<rparr>,
      env_net = net, env_clock = 0, env_hrn = ''c'', env_hrn_string = ''c'', env_endpoint = Some ''http://h'', env_lookup_url = [],
      env_expiry = 100, env_shared_error = Map.empty\<rparr>"

definition blob_answer :: "api_request list \<Rightarrow> api_request \<Rightarrow> api_response" where
  "blob_answer before r = \<lparr>hr_status = 200, hr_body = [], hr_uploaded = 0, hr_downloaded = 0, ar_headers = [], ar_chunks = [(0, [1]), (1, [2])]\<rparr>"

definition memory_store :: "(any_value, (string, string) omap) default_cache" where
  "memory_store = (DefaultCacheImpl_new \<lparr>disk_path_mutable = None, disk_path_protected = None, max_disk_storage = 0,
      max_memory_cache_size = 1000, cs_enforce_immediate_flush = False, eviction_policy = kLeastRecentlyUsed, openOptions = 0\<rparr>)
    \<lparr>is_open := True, memory_cache := Some (InMemoryCache_new 1000 DefaultCacheCost)\<rparr>"

definition sample_state :: "(any_value, (string, string) omap) default_cache read_state" where
  "sample_state = \<lparr>st_cache = memory_store, st_requests = [], st_clients = Map.empty, st_errors = []\<rparr>"

lemma memory_store_empty: "item_view memory_holds hrn J memory_store Map.empty"
proof -
  have "memory_holds memory_store Map.empty" unfolding memory_holds_def
    by (intro conjI exI [of _ "InMemoryCache_new 1000 DefaultCacheCost"] exI [of _ "[]"])
      (simp_all add: memory_store_def memory_only_def DefaultCacheImpl_new_def ProtectedKeyList_new_def IsProtected_def)
  then show ?thesis unfolding item_view_def by auto
qed

definition sample_data :: "FetchOptions \<Rightarrow> read_op" where
  "sample_data f = ReadData ''l'' \<lparr>dq_partition_id = None, dq_data_handle = Some ''h'', dq_billing_tag = None, dq_fetch = f\<rparr> 7 False"

theorem fetch_options_respected_witness:
  "\<exists>s1 s2 e. read_step (sample_env (\<lambda>_. None) blob_answer) (\<lambda>_. QuadTree.JNull) (sample_data OnlineOnly) sample_state = Some (s1, None)
    \<and> st_cache s1 = st_cache sample_state
    \<and> read_step (sample_env (\<lambda>_. None) blob_answer) (\<lambda>_. QuadTree.JNull) (sample_data CacheOnly) s1 = Some (s2, e) \<and> length (st_requests s2) = 1"
proof -
  let ?E = "sample_env (\<lambda>_. None) blob_answer"
  have "map_option (\<lambda>(s, e). (length (st_requests s), e)) (read_step ?E (\<lambda>_. QuadTree.JNull) (sample_data OnlineOnly) sample_state) = Some (1, None)"
    by code_simp
  then obtain s1 where s1: "read_step ?E (\<lambda>_. QuadTree.JNull) (sample_data OnlineOnly) sample_state = Some (s1, None)" "length (st_requests s1) = 1"
    by auto
  have "read_step ?E (\<lambda>_. QuadTree.JNull) (sample_data OnlineOnly) sample_state \<bind> (\<lambda>(s, _). read_step ?E (\<lambda>_. QuadTree.JNull) (sample_data CacheOnly) s) \<noteq> None"
    by code_simp
  then obtain s2 e where s2: "read_step ?E (\<lambda>_. QuadTree.JNull) (sample_data CacheOnly) s1 = Some (s2, e)" using s1(1) by auto
  have f: "op_fetch (sample_data f) = f" "\<not> is_version_op (sample_data f)" for f by (simp_all add: sample_data_def is_version_op_def)
  from fetch_options_respected [OF s1(1)] fetch_options_respected [OF s2] s1 s2 f show ?thesis by auto
qed

text \<open>The exception that the theorem leaves out: when the cached index lacks a field that is required, the index is requested
although only the cache may be used.\<close>

lemma cache_only_goes_online:
  assumes "tq_fetch request = CacheOnly" and "GetStaticUrl E ''query'' = url" and "url \<noteq> []"
    and "with_cache (FindQuadTree (env_kv E) (partitions_repo_of E layer) (tq_tile_key request) version) s = Some (s1, Some tree)"
    and "CheckAdditionalFields (Some required_fields) tree = Some False"
  shows "ensures (GetQuadTreeIndexForTile E pj layer request version required_fields s)
    (\<lambda>s' r. length (st_requests s') = length (st_requests s1) + 1)"
  using assms
  by (auto simp: GetQuadTreeIndexForTile_def quad_tree_online_def LookupApi_def Let_def QueryApi_QuadTreeIndex_def call_api_def ensures_def
      with_cache_def split: bind_splits if_splits)

section \<open>Batches\<close>

function batches :: "'a list \<Rightarrow> 'a list list" where
  "batches ids = (if ids = [] then [] else take kQueryRequestLimit ids # batches (drop kQueryRequestLimit ids))"
  by pat_completeness auto
termination by (relation "measure length") (auto simp: kQueryRequestLimit_def)

declare batches.simps [simp del]

lemma batches_Nil [simp]: "batches [] = []"
  by (simp add: batches.simps)






definition named :: "string \<Rightarrow> Partition" where
  "named i = Partition_new\<lparr>p_partition := i, p_data_handle := i\<rparr>"







section \<open>Data and addresses in the cache\<close>

definition same_data :: "(cache_item \<Rightarrow> content option) \<Rightarrow> (cache_item \<Rightarrow> content option) \<Rightarrow> bool" where
  "same_data g g' \<longleftrightarrow> (\<forall>it. item_kind it \<noteq> ''api'' \<longrightarrow> g' it = g it)"

lemma same_data_refl [simp]: "same_data g g"
  by (simp add: same_data_def)

lemma same_data_put: "same_data g g' \<Longrightarrow> same_data g (g'(ApiItem a b \<mapsto> x))"
  by (auto simp: same_data_def)

definition apis_clean :: "(time_t \<Rightarrow> bool) \<Rightarrow> ('s, 'd) read_env \<Rightarrow> bool" where
  "apis_clean time_ok E \<longleftrightarrow> (\<forall>before r apis expiry. apis_result E (env_net E before r) = Some (Inr (apis, expiry)) \<longrightarrow>
     time_ok (value_or expiry kLookupApiExpiryTime) \<and> list_all (\<lambda>a. no_colon (api_api a) \<and> no_colon (api_version a)) apis)"

context lossy_cache
begin

definition sees :: "('s, 'd) read_env \<Rightarrow> (cache_item \<Rightarrow> content option) \<Rightarrow> 's read_state \<Rightarrow> bool" where
  "sees E g s \<longleftrightarrow> (\<exists>g'. item_view holds (env_hrn E) (env_json E) (st_cache s) g' \<and> same_data g g')"

lemma PutToDiskCache_sees:
  assumes "env_kv E = K" and "sees E g s" and "list_all (\<lambda>a. no_colon (api_api a) \<and> no_colon (api_version a)) apis"
    and "time_ok (value_or expiry kLookupApiExpiryTime)"
  shows "\<exists>s'. PutToDiskCache E apis expiry s = Some s' \<and> sees E g s' \<and> st_requests s' = st_requests s"
  using assms(2,3)
proof (induction apis arbitrary: s)
  case Nil
  then show ?case by simp
next
  case (Cons a apis)
  from Cons.prems(1) obtain g' where g': "item_view holds (env_hrn E) (env_json E) (st_cache s) g'" "same_data g g'"
    by (auto simp: sees_def)
  let ?it = "ApiItem (api_api a) (api_version a)"
  have "clean_item ?it" "kinded (env_json E) ?it (CObject (AnyString (api_baseUrl a)))" using Cons.prems(2) by simp_all
  from view_put [OF g'(1) this assms(4), of "api_baseUrl a"] obtain c where
    c: "kv_Put K (cache_key (env_hrn E) ?it) (AnyString (api_baseUrl a)) (api_baseUrl a) (value_or expiry kLookupApiExpiryTime) (st_cache s) = Some (c, True)"
      "item_view holds (env_hrn E) (env_json E) c (g'(?it \<mapsto> CObject (AnyString (api_baseUrl a))))" by (elim exE conjE)
  let ?s = "s\<lparr>st_cache := c\<rparr>"
  have "sees E g ?s" using c(2) same_data_put [OF g'(2)] by (auto simp: sees_def)
  from Cons.IH [OF this] Cons.prems(2) obtain s' where "PutToDiskCache E apis expiry ?s = Some s'" "sees E g s'" "st_requests s' = st_requests ?s"
    by auto
  then show ?case using c(1) assms(1) by (simp add: with_cache_unit_def Api_Put_def)
qed

lemma GetCachedClient_sees:
  assumes "env_kv E = K" and "sees E g s" and "no_colon service" and "no_colon version"
  shows "ensures (GetCachedClient E service version s) (\<lambda>s' r. sees E g s')"
proof -
  from assms(2) obtain g' where g': "item_view holds (env_hrn E) (env_json E) (st_cache s) g'" "same_data g g'" by (auto simp: sees_def)
  have "clean_item (ApiItem service version)" using assms(3,4) by simp
  from view_get [OF g'(1) this, of AnyString] obtain c r where
    c: "kv_Get K (CreateApiKey (env_hrn E) service version) AnyString (st_cache s) = Some (c, r)" "item_view holds (env_hrn E) (env_json E) c g'"
    by (elim exE conjE) simp
  have "sees E g (s\<lparr>st_cache := c\<rparr>)" using c(2) g'(2) by (auto simp: sees_def)
  then have "ensures (client_from_cache E key service version s) (\<lambda>s' r. sees E g s')" for key
    using c(1) assms(1)
    by (auto simp: client_from_cache_def with_cache_def Api_Get_def CreateAndCacheClient_def Let_def ensures_def sees_def
        split: option.splits cached.splits any_value.splits)
  with assms(2) show ?thesis by (auto simp: GetCachedClient_def Let_def split: option.split)
qed

end

context lossy_cache
begin

lemma lookup_online_sees:
  assumes "env_kv E = K" and "sees E g s" and "apis_clean time_ok E"
  shows "ensures (lookup_online E service version options s) (\<lambda>s' r. sees E g s')"
proof -
  have net: "ensures (if service = ''config'' then PlatformApi_GetApis E (env_lookup_url E) s
                          else ResourcesApi_GetApis E (env_lookup_url E) (env_hrn_string E) s)
    (\<lambda>s' r. sees E g s' \<and> (\<forall>apis expiry. r = Inr (apis, expiry) \<longrightarrow> time_ok (value_or expiry kLookupApiExpiryTime)
      \<and> list_all (\<lambda>a. no_colon (api_api a) \<and> no_colon (api_version a)) apis))"
    using assms(2,3)
    by (auto simp: PlatformApi_GetApis_def ResourcesApi_GetApis_def call_api_def Let_def ensures_def sees_def apis_clean_def)
  show ?thesis unfolding lookup_online_def
  proof (rule ensures_bind [OF net], goal_cases)
    case (1 s1 r)
    show ?case
    proof (cases r)
      case (Inl e)
      then show ?thesis using 1 by simp
    next
      case (Inr p)
      obtain apis expiry where p: "p = (apis, expiry)" by fastforce
      have "time_ok (value_or expiry kLookupApiExpiryTime)" "list_all (\<lambda>a. no_colon (api_api a) \<and> no_colon (api_version a)) apis"
        using 1 Inr p by blast+
      from PutToDiskCache_sees [OF assms(1) _ this(2,1), of g s1] 1 obtain s2 where
        s2: "PutToDiskCache E apis expiry s1 = Some s2" "sees E g s2" by blast
      have "sees E g s1" using 1 by blast
      with s2 show ?thesis unfolding Inr p by (auto simp: CreateAndCacheClient_def Let_def sees_def)
    qed
  qed
qed

lemma LookupApi_sees:
  assumes "env_kv E = K" and "sees E g s" and "apis_clean time_ok E" and "no_colon service" and "no_colon version"
  shows "ensures (LookupApi E service version options s) (\<lambda>s' r. sees E g s')"
  unfolding LookupApi_def Let_def
  using assms(2) lookup_online_sees [OF assms(1) _ assms(3)] GetCachedClient_sees [OF assms(1,2,4,5)]
  by (auto intro: ensures_bind split: option.split)

lemma blob_cache_get:
  assumes "env_kv E = K" and "sees E g s" and "no_colon layer" and "no_colon handle"
  shows "ensures (with_cache (Data_Get (env_kv E) (catalog_repo E) layer handle) s)
    (\<lambda>s' r. sees E g s' \<and> st_requests s' = st_requests s \<and> (\<forall>data. r = Some data \<longrightarrow> g (DataItem layer handle) = Some (CBytes data)))"
proof -
  let ?it = "DataItem layer handle"
  from assms(2) obtain g' where g': "item_view holds (env_hrn E) (env_json E) (st_cache s) g'" "same_data g g'" by (auto simp: sees_def)
  have "clean_item ?it" "bytes_item ?it" using assms(3,4) by simp_all
  from view_get_bytes [OF g'(1) this] obtain c r where c: "kv_Get_bytes K (cache_key (env_hrn E) ?it) (st_cache s) = Some (c, r)"
    "item_view holds (env_hrn E) (env_json E) c g'"
    "\<forall>b. r = Some b \<longrightarrow> (\<exists>x. g' ?it = Some x \<and> kinded (env_json E) ?it x \<and> enc_content (env_json E) x = Bytes b)"
    by (elim exE conjE)
  have "g ?it = Some (CBytes b)" if "r = Some b" for b
  proof -
    from c(3) that obtain x where x: "g' ?it = Some x" "kinded (env_json E) ?it x" "enc_content (env_json E) x = Bytes b" by blast
    then have "x = CBytes b" by (cases x) simp_all
    then show ?thesis using x(1) g'(2) by (simp add: same_data_def)
  qed
  moreover have "sees E g (s\<lparr>st_cache := c\<rparr>)" using c(2) g'(2) by (auto simp: sees_def)
  ultimately show ?thesis using c(1) assms(1)
    by (simp add: ensures_def with_cache_def Data_Get_def catalog_repo_def DataCacheRepository_new_def)
qed

lemma blob_cache_put:
  assumes "env_kv E = K" and "sees E g s" and "no_colon layer" and "no_colon handle" and "time_ok (ConvertTime (env_expiry E))"
  shows "\<exists>s'. with_cache (Data_Put (env_kv E) (catalog_repo E) (Some data) layer handle) s = Some (s', Inr ())
    \<and> sees E (g(DataItem layer handle \<mapsto> CBytes data)) s' \<and> st_requests s' = st_requests s"
proof -
  let ?it = "DataItem layer handle"
  from assms(2) obtain g' where g': "item_view holds (env_hrn E) (env_json E) (st_cache s) g'" "same_data g g'" by (auto simp: sees_def)
  have "clean_item ?it" "kinded (env_json E) ?it (CBytes data)" using assms(3,4) by simp_all
  from view_write [OF g'(1) this _ assms(5), of data] obtain c where
    c: "kv_Write K (cache_key (env_hrn E) ?it) (Some data) (ConvertTime (env_expiry E)) (st_cache s) = Some (c, Inr ())"
      "item_view holds (env_hrn E) (env_json E) c (g'(?it \<mapsto> CBytes data))" by auto
  have "sees E (g(?it \<mapsto> CBytes data)) (s\<lparr>st_cache := c\<rparr>)"
    using c(2) g'(2) unfolding sees_def by (intro exI [of _ "g'(?it \<mapsto> CBytes data)"]) (auto simp: same_data_def)
  with c(1) assms(1) show ?thesis
    by (simp add: with_cache_def Data_Put_def catalog_repo_def DataCacheRepository_new_def)
qed

lemma blob_cache_clear:
  assumes "env_kv E = K" and "sees E g s"
  shows "ensures (with_cache (Data_Clear (env_kv E) (catalog_repo E) layer handle) s) (\<lambda>s' r. sees E (g(DataItem layer handle := None)) s')"
proof -
  let ?it = "DataItem layer handle"
  from assms(2) obtain g' where g': "item_view holds (env_hrn E) (env_json E) (st_cache s) g'" "same_data g g'" by (auto simp: sees_def)
  from view_delete [OF g'(1), of "cache_key (env_hrn E) ?it"] obtain c where
    c: "kv_DeleteByPrefix K (cache_key (env_hrn E) ?it) (st_cache s) = Some (c, Inr ())"
      "item_view holds (env_hrn E) (env_json E) c (drop_prefix (env_hrn E) (cache_key (env_hrn E) ?it) g')" by (elim exE conjE)
  have "item_view holds (env_hrn E) (env_json E) c (g'(?it := None))"
    by (rule view_mono [OF c(2)]) (auto simp: drop_prefix_def split: if_splits)
  then have "sees E (g(?it := None)) (s\<lparr>st_cache := c\<rparr>)"
    using g'(2) unfolding sees_def by (intro exI [of _ "g'(?it := None)"]) (auto simp: same_data_def)
  with c(1) assms(1) show ?thesis
    by (simp add: ensures_def with_cache_def Data_Clear_def catalog_repo_def DataCacheRepository_new_def)
qed

end

definition answered_blob ::
  "('s, 'd) read_env \<Rightarrow> string \<Rightarrow> string \<Rightarrow> string option \<Rightarrow> api_request list \<Rightarrow> string \<Rightarrow> bool" where
  "answered_blob E layer handle tag requests data \<longleftrightarrow> (\<exists>before client. let r = blob_request client layer handle tag None in
     requests = before @ [r] \<and> hr_status (env_net E before r) = 200
     \<and> data = bytes_string (collect_chunks (ar_chunks (env_net E before r)) []))"

context lossy_cache
begin

lemma sees_weaken: "sees E (g(it := None)) s \<Longrightarrow> item_kind it \<noteq> ''api'' \<Longrightarrow> sees E g s"
proof -
  assume "sees E (g(it := None)) s" and k: "item_kind it \<noteq> ''api''"
  then obtain g' where g': "item_view holds (env_hrn E) (env_json E) (st_cache s) g'" "same_data (g(it := None)) g'" by (auto simp: sees_def)
  have n: "g' it = None" using g'(2) k by (simp add: same_data_def)
  have "item_view holds (env_hrn E) (env_json E) (st_cache s) (g'(it := g it))"
    by (rule view_mono [OF g'(1)]) (use n in auto)
  moreover have "same_data g (g'(it := g it))" using g'(2) by (auto simp: same_data_def)
  ultimately show "sees E g s" by (auto simp: sees_def)
qed

lemma blob_online_ok:
  assumes E: "env_kv E = K" "apis_clean time_ok E" "time_ok (ConvertTime (env_expiry E))"
    and s: "sees E g s" and ids: "no_colon layer" "no_colon (p_data_handle part)"
  shows "ensures (blob_online E layer kBlobService part fetch tag fail s) (\<lambda>s' r.
    (\<forall>data. r = Inr data \<longrightarrow> (\<exists>d. data = Some d)) \<and> (\<forall>data. r = Inr (Some data) \<longrightarrow> answered_blob E layer (p_data_handle part) tag (st_requests s') data
       \<and> (fetch \<noteq> OnlineOnly \<longrightarrow> sees E (g(DataItem layer (p_data_handle part) \<mapsto> CBytes data)) s')))"
proof (cases "env_shared_error E (env_hrn_string E @ layer @ p_data_handle part)")
  case (Some e)
  then show ?thesis by (simp add: blob_online_def Let_def)
next
  case None
  have nc: "no_colon kBlobService" "no_colon ''v1''" by (simp_all add: kBlobService_def no_colon_def)
  show ?thesis unfolding blob_online_def Let_def None option.case
  proof (rule ensures_bind [OF LookupApi_sees [OF E(1) s E(2) nc]], goal_cases)
    case (1 s1 r)
    show ?case
    proof (cases r)
      case (Inl e)
      then show ?thesis by simp
    next
      case (Inr client)
      let ?rq = "blob_request client layer (p_data_handle part) tag None"
      let ?s2 = "s1\<lparr>st_requests := st_requests s1 @ [?rq]\<rparr>" and ?a = "env_net E (st_requests s1) ?rq"
      have s2: "sees E g ?s2" using 1 by (simp add: sees_def)
      have b: "BlobApi_GetBlob E client layer part tag None s1 = (?s2, if hr_status ?a \<noteq> 200 then Inl (ApiError_status (hr_status ?a))
          else Inr (bytes_string (collect_chunks (ar_chunks ?a) [])))"
        by (simp add: BlobApi_GetBlob_def call_api_def Let_def)
      show ?thesis
      proof (cases "hr_status ?a = 200")
        case False
        then show ?thesis unfolding Inr by (simp add: b) (auto simp: ensures_def split: bind_splits)
      next
        case True
        let ?data = "bytes_string (collect_chunks (ar_chunks ?a) [])"
        have a: "answered_blob E layer (p_data_handle part) tag (st_requests s1 @ [?rq]) ?data"
          unfolding answered_blob_def Let_def using True by blast
        from blob_cache_put [OF E(1) s2 ids E(3), of ?data] obtain s' where
          p: "with_cache (Data_Put (env_kv E) (catalog_repo E) (Some ?data) layer (p_data_handle part)) ?s2 = Some (s', Inr ())"
            "sees E (g(DataItem layer (p_data_handle part) \<mapsto> CBytes ?data)) s'" "st_requests s' = st_requests ?s2" by (elim exE conjE)
        show ?thesis unfolding Inr using True a p by (simp add: b)
      qed
    qed
  qed
qed

lemma GetBlobData_ok:
  assumes E: "env_kv E = K" "apis_clean time_ok E" "time_ok (ConvertTime (env_expiry E))"
    and s: "sees E g s" and ids: "no_colon layer" "no_colon (p_data_handle part)"
  shows "ensures (GetBlobData E layer kBlobService part fetch tag fail s) (\<lambda>s' r. \<forall>result. r = Inr result \<longrightarrow> (\<exists>data. result = Some data \<and> (
    (fetch \<in> {OnlineIfNotFound, CacheOnly} \<and> st_requests s' = st_requests s \<and> g (DataItem layer (p_data_handle part)) = Some (CBytes data) \<and> sees E g s')
    \<or> (fetch \<noteq> CacheOnly \<and> answered_blob E layer (p_data_handle part) tag (st_requests s') data
       \<and> (fetch \<noteq> OnlineOnly \<longrightarrow> sees E (g(DataItem layer (p_data_handle part) \<mapsto> CBytes data)) s')))))"
    (is "ensures _ ?P")
proof -
  have on: "ensures (blob_online E layer kBlobService part fetch tag fail s1) ?P" if "sees E g s1" "fetch \<noteq> CacheOnly" for s1
    by (rule ensures_mono [OF blob_online_ok [OF E that(1) ids]]) (use that(2) in fastforce)
  show ?thesis
  proof (cases "fetch = OnlineOnly \<or> fetch = CacheWithUpdate")
    case True
    then show ?thesis using on [OF s] by (auto simp: GetBlobData_def)
  next
    case False
    then have f: "fetch \<in> {OnlineIfNotFound, CacheOnly}" by (cases fetch) simp_all
    have "ensures (with_cache (Data_Get (env_kv E) (catalog_repo E) layer (p_data_handle part)) s \<bind>
      (\<lambda>(s, cached_data). case cached_data of
          Some data \<Rightarrow> Some (s, Inr (Some data))
        | None \<Rightarrow> if fetch = CacheOnly then Some (s, Inl (ApiError_code NotFound))
                  else blob_online E layer kBlobService part fetch tag fail s)) ?P"
    proof (rule ensures_bind [OF blob_cache_get [OF E(1) s ids]], goal_cases)
      case (1 s1 r)
      then show ?case using f on [of s1] by (cases r) auto
    qed
    then show ?thesis using False by (auto simp: GetBlobData_def)
  qed
qed

end

text \<open>C23. Data that is read from a versioned layer is never made up. The cache is a default cache in memory that holds the
items of \<open>g\<close>, and neither layer nor data handle contains a colon. A successful read of the data of a partition either gives
what the cache holds for this data handle, and then no request was sent, or the body of the answer 200 to a request for this
data handle, the last one that was sent. In the second case, unless the cache was not to be used, the data is stored: whatever
is read for the handle from the cache alone at any later time is the same data. For a volatile layer this does not hold, see
\<open>failed_volatile_request_succeeds\<close>.\<close>

theorem blob_data_sound:
  assumes "env_kv E = default_kv L now" and "item_view memory_holds (env_hrn E) (env_json E) (st_cache s) g"
    and "apis_clean (memory_time_ok now) E" and "memory_time_ok now (ConvertTime (env_expiry E))"
    and "no_colon layer" and "no_colon (p_data_handle part)"
    and "GetBlobData E layer kBlobService part fetch tag fail s = Some (s', Inr result)"
  shows "\<exists>data. result = Some data \<and>
     ((fetch \<in> {OnlineIfNotFound, CacheOnly} \<and> st_requests s' = st_requests s \<and> g (DataItem layer (p_data_handle part)) = Some (CBytes data))
    \<or> (fetch \<noteq> CacheOnly \<and> answered_blob E layer (p_data_handle part) tag (st_requests s') data
       \<and> (fetch \<noteq> OnlineOnly \<longrightarrow> (\<forall>later s2 x.
            GetBlobData (E\<lparr>env_kv := default_kv L later\<rparr>) layer kBlobService part CacheOnly tag fail s' = Some (s2, Inr x) \<longrightarrow> x = Some data))))"
proof -
  have sees: "memory.sees E g s" using assms(2) by (auto simp: memory.sees_def)
  have "memory.sees E (g(DataItem layer (p_data_handle part) \<mapsto> CBytes data)) s' \<Longrightarrow>
      GetBlobData (E\<lparr>env_kv := default_kv L later\<rparr>) layer kBlobService part CacheOnly tag fail s' = Some (s2, Inr x) \<Longrightarrow> x = Some data"
    for data later s2 x
  proof -
    assume v: "memory.sees E (g(DataItem layer (p_data_handle part) \<mapsto> CBytes data)) s'"
      and r: "GetBlobData (E\<lparr>env_kv := default_kv L later\<rparr>) layer kBlobService part CacheOnly tag fail s' = Some (s2, Inr x)"
    let ?E = "E\<lparr>env_kv := default_kv L later\<rparr>"
    have "memory.sees ?E (g(DataItem layer (p_data_handle part) \<mapsto> CBytes data)) s'" using v by (simp add: memory.sees_def)
    from memory.blob_cache_get [OF _ this assms(5,6), of L later] r show "x = Some data"
      by (auto simp: GetBlobData_def ensures_def split: if_splits bind_splits option.splits)
  qed
  with ensures_D [OF memory.GetBlobData_ok [OF assms(1,3,4) sees assms(5,6)] assms(7)] show ?thesis by blast
qed

lemma blob_answer_no_apis: "apis_clean time_ok (sample_env (\<lambda>_. None) blob_answer)"
  by (auto simp: apis_clean_def apis_result_def json_result_def parse_result_def sample_env_def split: bind_splits if_splits)

theorem blob_data_sound_witness:
  "\<exists>s'. GetBlobData (sample_env (\<lambda>_. None) blob_answer) ''l'' kBlobService (named ''h'') OnlineIfNotFound None False sample_state
      = Some (s', Inr (Some (bytes_string [1, 2])))
    \<and> answered_blob (sample_env (\<lambda>_. None) blob_answer) ''l'' ''h'' None (st_requests s') (bytes_string [1, 2])
    \<and> GetBlobData (sample_env (\<lambda>_. None) blob_answer) ''l'' kBlobService (named ''h'') CacheOnly None False s' \<noteq> None"
proof -
  let ?E = "sample_env (\<lambda>_. None) blob_answer"
  have "map_option snd (GetBlobData ?E ''l'' kBlobService (named ''h'') OnlineIfNotFound None False sample_state) = Some (Inr (Some (bytes_string [1, 2])))"
    by code_simp
  then obtain s' where r: "GetBlobData ?E ''l'' kBlobService (named ''h'') OnlineIfNotFound None False sample_state = Some (s', Inr (Some (bytes_string [1, 2])))"
    by auto
  have "GetBlobData ?E ''l'' kBlobService (named ''h'') OnlineIfNotFound None False sample_state
      \<bind> (\<lambda>(s, _). GetBlobData ?E ''l'' kBlobService (named ''h'') CacheOnly None False s) \<noteq> None" by code_simp
  then have n: "GetBlobData ?E ''l'' kBlobService (named ''h'') CacheOnly None False s' \<noteq> None" using r by simp
  have h: "p_data_handle (named ''h'') = ''h''" by (simp add: named_def)
  have v: "item_view memory_holds (env_hrn ?E) (env_json ?E) (st_cache sample_state) Map.empty"
    by (simp add: memory_store_empty sample_state_def)
  have k: "env_kv ?E = default_kv mem_ldb 0" "no_colon ''l''" "no_colon (p_data_handle (named ''h''))"
    by (simp_all add: sample_env_def no_colon_def h)
  have t: "memory_time_ok 0 (ConvertTime (env_expiry ?E))"
    by (simp add: sample_env_def memory_time_ok_def ConvertTime_def time_max_def time_add_def)
  from blob_data_sound [OF k(1) v blob_answer_no_apis t k(2,3) r] n r h show ?thesis by auto
qed

text \<open>A failed request for the data of a volatile layer is reported as a success without data: the error is dropped, nothing is
removed from the cache after an answer 403, and other threads are not told. When failures of the cache are to be reported,
the attempt to store the null pointer gives an error that has nothing to do with the cause.\<close>

definition forbidden_answer :: "api_request list \<Rightarrow> api_request \<Rightarrow> api_response" where
  "forbidden_answer before r = (blob_answer before r)\<lparr>hr_status := 403\<rparr>"

lemma failed_volatile_request_succeeds:
  "map_option (\<lambda>(s, r). (st_errors s, r)) (GetVolatileData (sample_env (\<lambda>_. None) forbidden_answer) ''l''
      \<lparr>dq_partition_id = None, dq_data_handle = Some ''h'', dq_billing_tag = None, dq_fetch = OnlineIfNotFound\<rparr> False sample_state)
    = Some ([], Inr None)"
  "map_option (\<lambda>(s, r). (st_errors s, r)) (GetVolatileData (sample_env (\<lambda>_. None) forbidden_answer) ''l''
      \<lparr>dq_partition_id = None, dq_data_handle = Some ''h'', dq_billing_tag = None, dq_fetch = OnlineIfNotFound\<rparr> True sample_state)
    = Some ([], Inl (ApiError_code InvalidArgument))"
  by code_simp+

end
