(* ===== verification/AuthResults.thy ===== *)
theory AuthResults
  imports JsonModels Url
begin

text \<open>
  What the authentication library (olp-cpp-sdk-authentication/src) makes of the answers of the account service: the results
  of sign-in, sign-up and sign-out (BaseResult.cpp, SignInResultImpl.cpp, SignInUserResultImpl.cpp, SignUpResultImpl.cpp),
  the table-driven reader of ResponseFromJsonBuilder.h with the application, account and authorization results
  (AuthenticationClientUtils.cpp), and the token of TokenResult.cpp.

  A document is the list of members of a JSON object. An access to a value of another kind, which is undefined or throws, a
  conversion that throws inside a \<open>noexcept\<close> constructor and a string made from a null pointer are \<open>None\<close>. A string read
  through \<open>c_str()\<close> ends at its first NUL. Members of a class without an initializer are \<open>None\<close> until they are set. The
  text of the log is left out.
\<close>

type_synonym 'd document = "(string \<times> 'd JsonModels.json) list"

text \<open>Boost.JSON is a parameter: its parser and printer, and its exact conversion of a double to 64 bits without sign.\<close>

record 'd auth_json =
  aj_parse :: "string \<Rightarrow> 'd JsonModels.json option"
  aj_text :: "'d JsonModels.json \<Rightarrow> string"
  aj_uint64 :: "'d \<Rightarrow> u64 option"

section \<open>Access to documents\<close>

definition c_string :: "string \<Rightarrow> string" where
  "c_string s = takeWhile (\<lambda>c. byte c \<noteq> 0) s"

definition to_number_uint64 :: "'d auth_json \<Rightarrow> 'd JsonModels.json \<Rightarrow> u64 option" where
  "to_number_uint64 J v =
     (case v of
        JInt64 n \<Rightarrow> if 0 \<le> sint n then Some n else None
      | JUint64 n \<Rightarrow> Some n
      | JDouble d \<Rightarrow> aj_uint64 J d
      | _ \<Rightarrow> None)"

definition contains_key :: "'d document \<Rightarrow> string \<Rightarrow> bool" where
  "contains_key document name \<longleftrightarrow> map_of document name \<noteq> None"

definition get_c_str :: "'d document \<Rightarrow> string \<Rightarrow> string option" where
  "get_c_str document name = (case map_of document name of Some (JString s) \<Rightarrow> Some (c_string s) | _ \<Rightarrow> None)"

definition get_uint64 :: "'d auth_json \<Rightarrow> 'd document \<Rightarrow> string \<Rightarrow> u64 option" where
  "get_uint64 J document name = (case map_of document name of Some v \<Rightarrow> to_number_uint64 J v | None \<Rightarrow> None)"

text \<open>A string member that may be missing.\<close>

definition read_c_str :: "'d document \<Rightarrow> string \<Rightarrow> string option" where
  "read_c_str document name = (if contains_key document name then get_c_str document name else Some [])"

text \<open>The document of a response: none unless its text is an object.\<close>

definition parse_document :: "'d auth_json \<Rightarrow> string \<Rightarrow> 'd document option" where
  "parse_document J text = (case aj_parse J text of Some (JObject document) \<Rightarrow> Some document | _ \<Rightarrow> None)"

section \<open>Results with an error description\<close>

record ErrorResponse =
  er_code :: u32
  er_message :: string
  er_error_id :: string

record ErrorField = ErrorResponse +
  ef_name :: string

record BaseResult =
  br_status :: int
  br_error :: ErrorResponse
  br_error_fields :: "ErrorField list"
  br_full_message :: string
  br_is_valid :: bool

definition HasError :: "'a BaseResult_scheme \<Rightarrow> bool" where
  "HasError r \<longleftrightarrow> br_status r \<noteq> 200"

text \<open>\<open>message.substr(0, message.find_first_of(".") + 1)\<close>: nothing when there is no full stop, because \<open>npos + 1\<close> is 0.\<close>

definition first_sentence :: "string \<Rightarrow> string" where
  "first_sentence message =
     (if CHR ''.'' \<in> set message then takeWhile (\<lambda>c. c \<noteq> CHR ''.'') message @ ''.'' else [])"

fun read_error_fields :: "'d auth_json \<Rightarrow> 'd JsonModels.json list \<Rightarrow> ErrorField list option" where
  "read_error_fields J [] = Some []"
| "read_error_fields J (JObject doc # elements) =
     (if contains_key doc ''message'' then do {
        name \<leftarrow> get_c_str doc ''name'';
        code \<leftarrow> get_uint64 J doc ''errorCode'';
        message \<leftarrow> get_c_str doc ''message'';
        rest \<leftarrow> read_error_fields J elements;
        Some (\<lparr>er_code = ucast code, er_message = message, er_error_id = [], ef_name = name\<rparr> # rest) }
      else read_error_fields J elements)"
| "read_error_fields J (_ # elements) = read_error_fields J elements"

definition BaseResult_new :: "'d auth_json \<Rightarrow> int \<Rightarrow> string \<Rightarrow> 'd document option \<Rightarrow> BaseResult option" where
  "BaseResult_new J status error json_document =
     (let r = \<lparr>br_status = status, br_error = \<lparr>er_code = 0, er_message = error, er_error_id = []\<rparr>, br_error_fields = [],
               br_full_message = [], br_is_valid = (json_document \<noteq> None)\<rparr> in
      case json_document of
        None \<Rightarrow> Some r
      | Some document \<Rightarrow>
          if \<not> HasError r \<or> \<not> contains_key document ''errorCode'' then Some r
          else do {
            error_id \<leftarrow> read_c_str document ''errorId'';
            code \<leftarrow> get_uint64 J document ''errorCode'';
            let r = r\<lparr>br_full_message := aj_text J (JObject document),
                      br_error := \<lparr>er_code = ucast code, er_message = error, er_error_id = error_id\<rparr>\<rparr>;
            if \<not> contains_key document ''message'' then Some r
            else do {
              message \<leftarrow> get_c_str document ''message'';
              if \<not> contains_key document ''errorFields'' then Some (r\<lparr>br_error := (br_error r)\<lparr>er_message := message\<rparr>\<rparr>)
              else do {
                let r = r\<lparr>br_error := (br_error r)\<lparr>er_message := first_sentence message\<rparr>\<rparr>;
                case map_of document ''errorFields'' of
                  Some (JArray elements) \<Rightarrow> map_option (\<lambda>fields. r\<lparr>br_error_fields := fields\<rparr>) (read_error_fields J elements)
                | _ \<Rightarrow> Some r } } })"

section \<open>Sign-in results\<close>

definition HasAccessToken :: "'d document \<Rightarrow> bool" where
  "HasAccessToken document \<longleftrightarrow> contains_key document ''accessToken'' \<or> contains_key document ''access_token''"

definition ParseAccessToken :: "'d document \<Rightarrow> string option" where
  "ParseAccessToken document =
     (if contains_key document ''accessToken'' then get_c_str document ''accessToken'' else get_c_str document ''access_token'')"

definition HasExpiresIn :: "'d document \<Rightarrow> bool" where
  "HasExpiresIn document \<longleftrightarrow> contains_key document ''expiresIn'' \<or> contains_key document ''expires_in''"

definition ParseExpiresIn :: "'d auth_json \<Rightarrow> 'd document \<Rightarrow> u64 option" where
  "ParseExpiresIn J document =
     (if contains_key document ''expiresIn'' then get_uint64 J document ''expiresIn'' else get_uint64 J document ''expires_in'')"

definition HasTokenType :: "'d document \<Rightarrow> bool" where
  "HasTokenType document \<longleftrightarrow> contains_key document ''tokenType'' \<or> contains_key document ''token_type''"

definition ParseTokenType :: "'d document \<Rightarrow> string option" where
  "ParseTokenType document =
     (if contains_key document ''tokenType'' then get_c_str document ''tokenType'' else get_c_str document ''token_type'')"

definition IsDocumentValid :: "'d document \<Rightarrow> bool" where
  "IsDocumentValid document \<longleftrightarrow> HasAccessToken document \<and> HasExpiresIn document \<and> HasTokenType document"

record SignInResult = BaseResult +
  si_is_valid :: bool
  si_access_token :: string
  si_token_type :: string
  si_expiry_time :: time_t
  si_expires_in :: int
  si_refresh_token :: string
  si_user_identifier :: string
  si_scope :: string

definition sign_in_of :: "BaseResult \<Rightarrow> bool \<Rightarrow> SignInResult" where
  "sign_in_of b valid =
     \<lparr>br_status = br_status b, br_error = br_error b, br_error_fields = br_error_fields b,
      br_full_message = br_full_message b, br_is_valid = br_is_valid b, si_is_valid = valid, si_access_token = [],
      si_token_type = [], si_expiry_time = 0, si_expires_in = 0, si_refresh_token = [], si_user_identifier = [], si_scope = []\<rparr>"

definition kServiceUnavailable :: string where "kServiceUnavailable = ''Service unavailable''"

text \<open>The constructor; \<open>now\<close> is \<open>std::time(nullptr)\<close>. The sum of the expiry time is one of 64-bit words.\<close>

definition SignInResultImpl_new :: "'d auth_json \<Rightarrow> time_t \<Rightarrow> int \<Rightarrow> string \<Rightarrow> 'd document option \<Rightarrow> SignInResult option" where
  "SignInResultImpl_new J now status error json_document = do {
     base \<leftarrow> BaseResult_new J status error json_document;
     let valid = (case json_document of None \<Rightarrow> False | Some document \<Rightarrow> IsDocumentValid document);
     let r = sign_in_of base valid;
     if HasError r then Some r
     else case (valid, json_document) of
       (True, Some document) \<Rightarrow> do {
         access_token \<leftarrow> ParseAccessToken document;
         token_type \<leftarrow> ParseTokenType document;
         refresh_token \<leftarrow> read_c_str document ''refreshToken'';
         expires_in \<leftarrow> ParseExpiresIn J document;
         user_identifier \<leftarrow> read_c_str document ''userId'';
         scope \<leftarrow> read_c_str document ''scope'';
         Some (r\<lparr>si_access_token := access_token, si_token_type := token_type, si_refresh_token := refresh_token,
                 si_expiry_time := sint (word_of_int now + expires_in), si_expires_in := sint expires_in,
                 si_user_identifier := user_identifier, si_scope := scope\<rparr>) }
     | _ \<Rightarrow> Some (r\<lparr>br_status := 503, br_error := (br_error r)\<lparr>er_message := kServiceUnavailable\<rparr>\<rparr>) }"

text \<open>The result of the default constructor.\<close>

definition SignInResult_default :: SignInResult where
  "SignInResult_default =
     sign_in_of \<lparr>br_status = 503, br_error = \<lparr>er_code = 0, er_message = kServiceUnavailable, er_error_id = []\<rparr>, br_error_fields = [],
                 br_full_message = [], br_is_valid = False\<rparr> False"

record SignInUserResult = SignInResult +
  su_term_acceptance_token :: string
  su_terms_of_service_url :: string
  su_terms_of_service_url_json :: string
  su_private_policy_url :: string
  su_private_policy_url_json :: string

definition sign_in_user_of :: "SignInResult \<Rightarrow> SignInUserResult" where
  "sign_in_user_of r = SignInResult.extend r
     \<lparr>su_term_acceptance_token = [], su_terms_of_service_url = [], su_terms_of_service_url_json = [],
      su_private_policy_url = [], su_private_policy_url_json = []\<rparr>"

definition SignInUserResultImpl_new :: "'d auth_json \<Rightarrow> time_t \<Rightarrow> int \<Rightarrow> string \<Rightarrow> 'd document option \<Rightarrow> SignInUserResult option" where
  "SignInUserResultImpl_new J now status error json_document = do {
     base \<leftarrow> SignInResultImpl_new J now status error json_document;
     let r = sign_in_user_of base;
     case json_document of
       None \<Rightarrow> Some r
     | Some document \<Rightarrow> do {
         term_acceptance_token \<leftarrow> read_c_str document ''termsReacceptanceToken'';
         let r = r\<lparr>su_term_acceptance_token := term_acceptance_token\<rparr>;
         case map_of document ''url'' of
           None \<Rightarrow> Some r
         | Some (JObject obj) \<Rightarrow> do {
             tos \<leftarrow> read_c_str obj ''tos'';
             tos_json \<leftarrow> read_c_str obj ''tosJSON'';
             pp \<leftarrow> read_c_str obj ''pp'';
             pp_json \<leftarrow> read_c_str obj ''ppJSON'';
             Some (r\<lparr>su_terms_of_service_url := tos, su_terms_of_service_url_json := tos_json,
                     su_private_policy_url := pp, su_private_policy_url_json := pp_json\<rparr>) }
         | Some _ \<Rightarrow> None } }"

definition SignInUserResult_default :: SignInUserResult where
  "SignInUserResult_default = sign_in_user_of SignInResult_default"

record SignUpResult = BaseResult +
  sr_user_identifier :: string

definition SignUpResultImpl_new :: "'d auth_json \<Rightarrow> int \<Rightarrow> string \<Rightarrow> 'd document option \<Rightarrow> SignUpResult option" where
  "SignUpResultImpl_new J status error json_document = do {
     b \<leftarrow> BaseResult_new J status error json_document;
     user_identifier \<leftarrow> (case json_document of None \<Rightarrow> Some [] | Some document \<Rightarrow> read_c_str document ''userId'');
     Some (BaseResult.extend b \<lparr>sr_user_identifier = user_identifier\<rparr>) }"

definition SignOutResultImpl_new :: "'d auth_json \<Rightarrow> int \<Rightarrow> string \<Rightarrow> 'd document option \<Rightarrow> BaseResult option" where
  "SignOutResultImpl_new J status error json_document = BaseResult_new J status error json_document"

section \<open>Tokens\<close>

record TokenResult =
  tr_access_token :: string
  tr_expiry_time :: time_t
  tr_expires_in :: int
  tr_scope :: "string option"

definition TokenResult_expiry :: "time_t \<Rightarrow> string \<Rightarrow> time_t \<Rightarrow> string option \<Rightarrow> TokenResult" where
  "TokenResult_expiry now access_token expiry_time scope =
     \<lparr>tr_access_token = access_token, tr_expiry_time = expiry_time,
      tr_expires_in = (if now < expiry_time then expiry_time - now else 0), tr_scope = scope\<rparr>"

definition TokenResult_new :: "time_t \<Rightarrow> string \<Rightarrow> int \<Rightarrow> string option \<Rightarrow> TokenResult" where
  "TokenResult_new now access_token expires_in scope =
     \<lparr>tr_access_token = access_token, tr_expiry_time = sint (word_of_int now + word_of_int expires_in :: u64),
      tr_expires_in = expires_in, tr_scope = scope\<rparr>"

section \<open>The reader of flat documents\<close>

text \<open>\<open>Value\<close> and \<open>Array\<close> for the kinds of members: a value of the wrong kind is logged and skipped, except for a string,
  where \<open>If\<close> gives an optional that holds a null pointer, of which a string is made. An \<open>int\<close> is cut from 64 bits.\<close>

definition Value_string :: "(string \<Rightarrow> 't \<Rightarrow> 't) \<Rightarrow> 'd JsonModels.json \<Rightarrow> 't \<Rightarrow> 't option" where
  "Value_string set_fn v t = (case v of JString s \<Rightarrow> Some (set_fn (c_string s) t) | _ \<Rightarrow> None)"

definition Value_bool :: "(bool \<Rightarrow> 't \<Rightarrow> 't) \<Rightarrow> 'd JsonModels.json \<Rightarrow> 't \<Rightarrow> 't option" where
  "Value_bool set_fn v t = (case v of JBool b \<Rightarrow> Some (set_fn b t) | _ \<Rightarrow> Some t)"

definition Value_int64 :: "(u64 \<Rightarrow> 't \<Rightarrow> 't) \<Rightarrow> 'd JsonModels.json \<Rightarrow> 't \<Rightarrow> 't option" where
  "Value_int64 set_fn v t = (case v of JInt64 n \<Rightarrow> Some (set_fn n t) | _ \<Rightarrow> Some t)"

fun array_strings :: "'d JsonModels.json list \<Rightarrow> string list option" where
  "array_strings [] = Some []"
| "array_strings (JString s # elements) = map_option (Cons (c_string s)) (array_strings elements)"
| "array_strings (_ # elements) = None"

definition Array_string :: "(string list \<Rightarrow> 't \<Rightarrow> 't) \<Rightarrow> 'd JsonModels.json \<Rightarrow> 't \<Rightarrow> 't option" where
  "Array_string set_fn v t =
     (case v of JArray elements \<Rightarrow> map_option (\<lambda>xs. set_fn xs t) (array_strings elements) | _ \<Rightarrow> Some t)"

text \<open>\<open>Finish\<close>: the members in their order; a field is removed once it was read.\<close>

fun Finish :: "(string \<times> ('d JsonModels.json \<Rightarrow> 't \<Rightarrow> 't option)) list \<Rightarrow> 'd document \<Rightarrow> 't \<Rightarrow> 't option" where
  "Finish builders [] t = Some t"
| "Finish builders ((key, v) # entries) t =
     (case map_of builders (c_string key) of
        Some set_fn \<Rightarrow> do { t \<leftarrow> set_fn v t; Finish (filter (\<lambda>f. fst f \<noteq> c_string key) builders) entries t }
      | None \<Rightarrow> Finish builders entries t)"

section \<open>The application and account results\<close>

record IntrospectAppResult =
  ir_client_id :: "string"
  ir_name :: "string"
  ir_description :: "string"
  ir_redirect_uris :: "string list"
  ir_allowed_scopes :: "string list"
  ir_token_endpoint_auth_method :: "string"
  ir_token_endpoint_auth_method_reason :: "string"
  ir_dob_required :: "bool option"
  ir_token_duration :: "u32 option"
  ir_referrers :: "string list"
  ir_status :: "string"
  ir_app_code_enabled :: "bool option"
  ir_created_time :: "u64 option"
  ir_realm :: "string"
  ir_type :: "string"
  ir_response_types :: "string list"
  ir_tier :: "string"
  ir_hrn :: "string"

definition IntrospectAppResult_default :: IntrospectAppResult where
  "IntrospectAppResult_default =
     \<lparr>ir_client_id = [],
      ir_name = [],
      ir_description = [],
      ir_redirect_uris = [],
      ir_allowed_scopes = [],
      ir_token_endpoint_auth_method = [],
      ir_token_endpoint_auth_method_reason = [],
      ir_dob_required = None,
      ir_token_duration = None,
      ir_referrers = [],
      ir_status = [],
      ir_app_code_enabled = None,
      ir_created_time = None,
      ir_realm = [],
      ir_type = [],
      ir_response_types = [],
      ir_tier = [],
      ir_hrn = []\<rparr>"

definition IntrospectAppResult_builders :: "(string \<times> ('d JsonModels.json \<Rightarrow> IntrospectAppResult \<Rightarrow> IntrospectAppResult option)) list" where
  "IntrospectAppResult_builders =
     [(''clientId'', Value_string (\<lambda>x t. t\<lparr>ir_client_id := x\<rparr>)),
      (''name'', Value_string (\<lambda>x t. t\<lparr>ir_name := x\<rparr>)),
      (''description'', Value_string (\<lambda>x t. t\<lparr>ir_description := x\<rparr>)),
      (''redirectUris'', Array_string (\<lambda>x t. t\<lparr>ir_redirect_uris := x\<rparr>)),
      (''allowedScopes'', Array_string (\<lambda>x t. t\<lparr>ir_allowed_scopes := x\<rparr>)),
      (''tokenEndpointAuthMethod'', Value_string (\<lambda>x t. t\<lparr>ir_token_endpoint_auth_method := x\<rparr>)),
      (''tokenEndpointAuthMethodReason'', Value_string (\<lambda>x t. t\<lparr>ir_token_endpoint_auth_method_reason := x\<rparr>)),
      (''dobRequired'', Value_bool (\<lambda>x t. t\<lparr>ir_dob_required := Some x\<rparr>)),
      (''tokenDuration'', Value_int64 (\<lambda>x t. t\<lparr>ir_token_duration := Some (ucast x)\<rparr>)),
      (''referrers'', Array_string (\<lambda>x t. t\<lparr>ir_referrers := x\<rparr>)),
      (''status'', Value_string (\<lambda>x t. t\<lparr>ir_status := x\<rparr>)),
      (''appCodeEnabled'', Value_bool (\<lambda>x t. t\<lparr>ir_app_code_enabled := Some x\<rparr>)),
      (''createdTime'', Value_int64 (\<lambda>x t. t\<lparr>ir_created_time := Some x\<rparr>)),
      (''realm'', Value_string (\<lambda>x t. t\<lparr>ir_realm := x\<rparr>)),
      (''type'', Value_string (\<lambda>x t. t\<lparr>ir_type := x\<rparr>)),
      (''responseTypes'', Array_string (\<lambda>x t. t\<lparr>ir_response_types := x\<rparr>)),
      (''tier'', Value_string (\<lambda>x t. t\<lparr>ir_tier := x\<rparr>)),
      (''hrn'', Value_string (\<lambda>x t. t\<lparr>ir_hrn := x\<rparr>))]"

definition GetIntrospectAppResult :: "'d document \<Rightarrow> IntrospectAppResult option" where
  "GetIntrospectAppResult document = Finish IntrospectAppResult_builders document IntrospectAppResult_default"

record UserAccountInfo =
  ua_user_id :: "string"
  ua_realm :: "string"
  ua_facebook_id :: "string"
  ua_firstname :: "string"
  ua_lastname :: "string"
  ua_email :: "string"
  ua_recovery_email :: "string"
  ua_dob :: "string"
  ua_country_code :: "string"
  ua_language :: "string"
  ua_email_verified :: "bool option"
  ua_phone_number :: "string"
  ua_phone_number_verified :: "bool option"
  ua_marketing_enabled :: "bool option"
  ua_created_time :: "u64 option"
  ua_updated_time :: "u64 option"
  ua_state :: "string"
  ua_hrn :: "string"
  ua_account_type :: "string"

definition UserAccountInfo_default :: UserAccountInfo where
  "UserAccountInfo_default =
     \<lparr>ua_user_id = [],
      ua_realm = [],
      ua_facebook_id = [],
      ua_firstname = [],
      ua_lastname = [],
      ua_email = [],
      ua_recovery_email = [],
      ua_dob = [],
      ua_country_code = [],
      ua_language = [],
      ua_email_verified = None,
      ua_phone_number = [],
      ua_phone_number_verified = None,
      ua_marketing_enabled = None,
      ua_created_time = None,
      ua_updated_time = None,
      ua_state = [],
      ua_hrn = [],
      ua_account_type = []\<rparr>"

definition UserAccountInfo_builders :: "(string \<times> ('d JsonModels.json \<Rightarrow> UserAccountInfo \<Rightarrow> UserAccountInfo option)) list" where
  "UserAccountInfo_builders =
     [(''userId'', Value_string (\<lambda>x t. t\<lparr>ua_user_id := x\<rparr>)),
      (''realm'', Value_string (\<lambda>x t. t\<lparr>ua_realm := x\<rparr>)),
      (''facebookId'', Value_string (\<lambda>x t. t\<lparr>ua_facebook_id := x\<rparr>)),
      (''firstname'', Value_string (\<lambda>x t. t\<lparr>ua_firstname := x\<rparr>)),
      (''lastname'', Value_string (\<lambda>x t. t\<lparr>ua_lastname := x\<rparr>)),
      (''email'', Value_string (\<lambda>x t. t\<lparr>ua_email := x\<rparr>)),
      (''recoveryEmail'', Value_string (\<lambda>x t. t\<lparr>ua_recovery_email := x\<rparr>)),
      (''dob'', Value_string (\<lambda>x t. t\<lparr>ua_dob := x\<rparr>)),
      (''countryCode'', Value_string (\<lambda>x t. t\<lparr>ua_country_code := x\<rparr>)),
      (''language'', Value_string (\<lambda>x t. t\<lparr>ua_language := x\<rparr>)),
      (''emailVerified'', Value_bool (\<lambda>x t. t\<lparr>ua_email_verified := Some x\<rparr>)),
      (''phoneNumber'', Value_string (\<lambda>x t. t\<lparr>ua_phone_number := x\<rparr>)),
      (''phoneNumberVerified'', Value_bool (\<lambda>x t. t\<lparr>ua_phone_number_verified := Some x\<rparr>)),
      (''marketingEnabled'', Value_bool (\<lambda>x t. t\<lparr>ua_marketing_enabled := Some x\<rparr>)),
      (''createdTime'', Value_int64 (\<lambda>x t. t\<lparr>ua_created_time := Some x\<rparr>)),
      (''updatedTime'', Value_int64 (\<lambda>x t. t\<lparr>ua_updated_time := Some x\<rparr>)),
      (''state'', Value_string (\<lambda>x t. t\<lparr>ua_state := x\<rparr>)),
      (''hrn'', Value_string (\<lambda>x t. t\<lparr>ua_hrn := x\<rparr>)),
      (''accountType'', Value_string (\<lambda>x t. t\<lparr>ua_account_type := x\<rparr>))]"

section \<open>Authorization results\<close>

datatype DecisionType = kAllow | kDeny

definition GetDecision :: "string \<Rightarrow> DecisionType" where
  "GetDecision str = (if str = ''allow'' then kAllow else kDeny)"

record Permission =
  pm_action :: string
  pm_resource :: string
  pm_decision :: DecisionType

record ActionResult =
  at_decision :: DecisionType
  at_permissions :: "Permission list"

record AuthorizeResult =
  az_policy_decision :: DecisionType
  az_client_id :: string
  az_actions_results :: "ActionResult list"

definition Permission_builders :: "(string \<times> ('d JsonModels.json \<Rightarrow> Permission \<Rightarrow> Permission option)) list" where
  "Permission_builders =
     [(''action'', Value_string (\<lambda>x t. t\<lparr>pm_action := x\<rparr>)),
      (''decision'', Value_string (\<lambda>x t. t\<lparr>pm_decision := GetDecision x\<rparr>)),
      (''resource'', Value_string (\<lambda>x t. t\<lparr>pm_resource := x\<rparr>))]"

fun read_permissions :: "'d JsonModels.json list \<Rightarrow> Permission list option" where
  "read_permissions [] = Some []"
| "read_permissions (JObject permission_element # elements) = do {
     permission \<leftarrow> Finish Permission_builders permission_element \<lparr>pm_action = [], pm_resource = [], pm_decision = kDeny\<rparr>;
     rest \<leftarrow> read_permissions elements;
     Some (permission # rest) }"
| "read_permissions (_ # elements) = None"

definition read_action :: "'d document \<Rightarrow> ActionResult option" where
  "read_action element =
     (if \<not> contains_key element ''decision'' then Some \<lparr>at_decision = kDeny, at_permissions = []\<rparr>
      else do {
        decision \<leftarrow> get_c_str element ''decision'';
        permissions \<leftarrow> (case map_of element ''permissions'' of Some (JArray array) \<Rightarrow> read_permissions array | _ \<Rightarrow> Some []);
        Some \<lparr>at_decision = GetDecision decision, at_permissions = permissions\<rparr> })"

fun GetDiagnostics :: "'d JsonModels.json list \<Rightarrow> ActionResult list option" where
  "GetDiagnostics [] = Some []"
| "GetDiagnostics (JObject element # array) = do {
     action \<leftarrow> read_action element;
     results \<leftarrow> GetDiagnostics array;
     Some (action # results) }"
| "GetDiagnostics (_ # array) = None"

definition GetAuthorizeResult :: "'d document \<Rightarrow> AuthorizeResult option" where
  "GetAuthorizeResult document = do {
     client_id \<leftarrow>
       (case map_of document ''identity'' of
          None \<Rightarrow> Some []
        | Some (JObject uris) \<Rightarrow>
            if contains_key uris ''clientId'' then get_c_str uris ''clientId''
            else read_c_str uris ''userId''
        | Some _ \<Rightarrow> None);
     decision \<leftarrow> (if contains_key document ''decision'' then map_option GetDecision (get_c_str document ''decision'') else Some kDeny);
     actions \<leftarrow> (case map_of document ''diagnostics'' of Some (JArray array) \<Rightarrow> GetDiagnostics array | _ \<Rightarrow> Some []);
     Some \<lparr>az_policy_decision = decision, az_client_id = client_id, az_actions_results = actions\<rparr> }"

end
