(* ===== verification/Authentication.thy ===== *)
theory Authentication
  imports AuthResults ReadApi LruCache Crypto Rfc1123
begin

text \<open>
  The authentication client: the OAuth header and the server time (olp-cpp-sdk-authentication/src/AuthenticationClientUtils.cpp),
  the sign-in, sign-up, sign-out and account requests (AuthenticationClientImpl.cpp), the token endpoint
  (TokenEndpointImpl.cpp), the token that refreshes itself (AutoRefreshingToken.cpp) and the provider of tokens
  (TokenProvider.cpp).

  The surroundings are parameters: what the HTTP client answers to a request, given all requests before it, and what the n-th
  look at the clocks, at the cancellation of the task and at the generator of identifiers shows. Tasks are their bodies: what
  the scheduler does with them is in the theories of the task context and the scheduler. The HTTP client is created without
  retries for every request of a retry loop; that it then sends at most one request is proved over its model. A retry condition
  sees the status, the text and the statistics of a response. Messages of errors are left out; an exception that leaves a task
  and undefined behaviour are \<open>None\<close>. Steady time is in nanoseconds, as a mathematical integer.
\<close>

section \<open>The surroundings and the state\<close>

record auth_request = api_request +
  rq_content_type :: string
  rq_bearer :: "string option"
  rq_retry :: bool

record 'd auth_env =
  ae_json :: "'d auth_json"
  ae_net :: "auth_request list \<Rightarrow> auth_request \<Rightarrow> api_response"
  ae_system :: "nat \<Rightarrow> time_t"
  ae_steady :: "nat \<Rightarrow> int"
  ae_cancelled :: "nat \<Rightarrow> bool"
  ae_uid :: "nat \<Rightarrow> string"
  ae_base64 :: "u8 list \<Rightarrow> string"
  ae_calendar :: calendar

record auth_state =
  as_requests :: "auth_request list"
  as_looks :: nat
  as_waits :: "int list"
  as_client_tokens :: "(string, SignInResult) lru"
  as_user_tokens :: "(string, SignInUserResult) lru"

definition look :: "(nat \<Rightarrow> 'a) \<Rightarrow> auth_state \<Rightarrow> auth_state \<times> 'a" where
  "look f s = (s\<lparr>as_looks := as_looks s + 1\<rparr>, f (as_looks s))"

definition call_auth_api :: "'d auth_env \<Rightarrow> auth_request \<Rightarrow> auth_state \<Rightarrow> auth_state \<times> api_response" where
  "call_auth_api E r s = (s\<lparr>as_requests := as_requests s @ [r]\<rparr>, ae_net E (as_requests s) r)"

record AuthenticationCredentials =
  ck_key :: string
  ck_secret :: string
  ck_endpoint_url :: string

record AuthenticationSettings =
  set_network :: bool
  set_token_endpoint_url :: string
  set_token_cache_limit :: u64
  set_use_system_time :: bool
  set_retry :: RetrySettings

text \<open>The client starts with two empty caches of the same limit, in which every result costs one.\<close>

definition AuthenticationClientImpl_new :: "AuthenticationSettings \<Rightarrow> auth_state" where
  "AuthenticationClientImpl_new config =
     \<lparr>as_requests = [], as_looks = 0, as_waits = [], as_client_tokens = LruCache_new (set_token_cache_limit config) (\<lambda>_. 1),
      as_user_tokens = LruCache_new (set_token_cache_limit config) (\<lambda>_. 1)\<rparr>"

section \<open>The OAuth header\<close>

definition GetTimestampFromHeaders :: "calendar \<Rightarrow> (string \<times> string) list \<Rightarrow> time_t option" where
  "GetTimestampFromHeaders B headers =
     (case find (\<lambda>h. NetworkUtils_CaseInsensitiveCompare (fst h) ''date'' 0) headers of
        None \<Rightarrow> None
      | Some h \<Rightarrow>
          (let timestamp = ParseRfc1123GmtNoExceptions B (snd h) in
           if timestamp \<noteq> - 1 then Some timestamp else None))"

definition cut_line :: "string \<Rightarrow> string" where
  "cut_line ret = takeWhile (\<lambda>c. byte c \<noteq> 10) ret"

definition Base64Encode :: "'d auth_env \<Rightarrow> u8 list \<Rightarrow> string" where
  "Base64Encode E digest = cut_line (ae_base64 E digest)"

definition oauth_query :: "string \<Rightarrow> string \<Rightarrow> string \<Rightarrow> string" where
  "oauth_query key nonce timestamp =
     ''oauth_consumer_key='' @ key @ ''&oauth_nonce='' @ nonce @ ''&oauth_signature_method=HMAC-SHA256&oauth_timestamp=''
     @ timestamp @ ''&oauth_version=1.0''"

definition signature_base :: "string \<Rightarrow> string \<Rightarrow> string \<Rightarrow> string \<Rightarrow> string" where
  "signature_base url key nonce timestamp = ''POST&'' @ Encode url @ ''&'' @ Encode (oauth_query key nonce timestamp)"

definition oauth_signature :: "'d auth_env \<Rightarrow> AuthenticationCredentials \<Rightarrow> string \<Rightarrow> string \<Rightarrow> string \<Rightarrow> string" where
  "oauth_signature E credentials url timestamp nonce =
     Base64Encode E (ComputeHmacSha256 (ck_secret credentials @ ''&'') (signature_base url (ck_key credentials) nonce timestamp))"

definition header_field :: "string \<Rightarrow> string \<Rightarrow> string" where
  "header_field name val = name @ ''=\"'' @ val @ ''\"''"

definition GenerateAuthorizationHeader ::
  "'d auth_env \<Rightarrow> AuthenticationCredentials \<Rightarrow> string \<Rightarrow> time_t \<Rightarrow> string \<Rightarrow> string" where
  "GenerateAuthorizationHeader E credentials url timestamp nonce =
     (let timestamp_str = to_string_int timestamp;
          signature = oauth_signature E credentials url timestamp_str nonce in
      ''OAuth '' @ header_field ''oauth_consumer_key'' (Encode (ck_key credentials))
      @ '','' @ header_field ''oauth_nonce'' (Encode nonce)
      @ '','' @ header_field ''oauth_signature_method'' ''HMAC-SHA256''
      @ '','' @ header_field ''oauth_timestamp'' (Encode timestamp_str)
      @ '','' @ header_field ''oauth_version'' ''1.0''
      @ '','' @ header_field ''oauth_signature'' (Encode signature))"

text \<open>\<open>ParseHostAndRest\<close>: the expression \<open>^(.*://[A-Za-z0-9-.]+(:[0-9]+)?)(.*)$\<close>, whose first part takes as much as it can: the
  last \<open>://\<close> that is followed by a character of a host. A dot of the expression is no end of a line.\<close>

definition host_char :: "char \<Rightarrow> bool" where
  "host_char c \<longleftrightarrow>
     65 \<le> byte c \<and> byte c \<le> 90 \<or> 97 \<le> byte c \<and> byte c \<le> 122 \<or> 48 \<le> byte c \<and> byte c \<le> 57 \<or> byte c = 45 \<or> byte c = 46"

definition digit_char :: "char \<Rightarrow> bool" where
  "digit_char c \<longleftrightarrow> 48 \<le> byte c \<and> byte c \<le> 57"

fun has_scheme :: "string \<Rightarrow> bool" where
  "has_scheme (a # b # c # d # _) \<longleftrightarrow> a = CHR '':'' \<and> b = CHR ''/'' \<and> c = CHR ''/'' \<and> host_char d"
| "has_scheme _ \<longleftrightarrow> False"

definition split_port :: "string \<Rightarrow> string \<times> string" where
  "split_port s =
     (case s of
        c # t \<Rightarrow>
          if c = CHR '':'' \<and> takeWhile digit_char t \<noteq> [] then (c # takeWhile digit_char t, dropWhile digit_char t) else ([], s)
      | [] \<Rightarrow> ([], []))"

definition split_host :: "string \<Rightarrow> string \<times> string" where
  "split_host s =
     (let (port, rest) = split_port (dropWhile host_char s) in (takeWhile host_char s @ port, rest))"

text \<open>The last place at which the rest of the text starts with \<open>://\<close> and a host.\<close>

fun split_scheme :: "string \<Rightarrow> (string \<times> string) option" where
  "split_scheme [] = None"
| "split_scheme (c # s) =
     (case split_scheme s of
        Some (scheme, rest) \<Rightarrow> Some (c # scheme, rest)
      | None \<Rightarrow> if has_scheme (c # s) then Some (''://'', drop 2 s) else None)"

definition ParseHostAndRest :: "string \<Rightarrow> (string \<times> string) option" where
  "ParseHostAndRest url =
     (if \<exists>c \<in> set url. byte c = 10 \<or> byte c = 13 then None
      else case split_scheme url of
        None \<Rightarrow> None
      | Some (scheme, s) \<Rightarrow> (let (host, rest) = split_host s in Some (scheme @ host, rest)))"

section \<open>Server time\<close>

record RequestTimer =
  rt_timer_start :: int
  rt_time :: time_t

definition RequestTimer_system :: "'d auth_env \<Rightarrow> auth_state \<Rightarrow> auth_state \<times> RequestTimer" where
  "RequestTimer_system E s = look (\<lambda>n. \<lparr>rt_timer_start = ae_steady E n, rt_time = ae_system E n\<rparr>) s"

definition RequestTimer_server :: "'d auth_env \<Rightarrow> time_t \<Rightarrow> auth_state \<Rightarrow> auth_state \<times> RequestTimer" where
  "RequestTimer_server E server_time s = look (\<lambda>n. \<lparr>rt_timer_start = ae_steady E n, rt_time = server_time\<rparr>) s"

definition GetRequestTime :: "'d auth_env \<Rightarrow> RequestTimer \<Rightarrow> auth_state \<Rightarrow> auth_state \<times> time_t" where
  "GetRequestTime E timer s = look (\<lambda>n. rt_time timer + (ae_steady E n - rt_timer_start timer) div 1000000000) s"

text \<open>The conversion of a negative timestamp throws.\<close>

definition ParseTimeResponse :: "'d auth_json \<Rightarrow> string \<Rightarrow> (ApiError + time_t) option" where
  "ParseTimeResponse J payload =
     (case parse_document J payload of
        None \<Rightarrow> Some (Inl (ApiError_code InternalFailure))
      | Some document \<Rightarrow>
          (case map_of document ''timestamp'' of
             Some (JsonModels.JUint64 n) \<Rightarrow> Some (Inr (sint n))
           | Some (JsonModels.JInt64 n) \<Rightarrow> if 0 \<le> sint n then Some (Inr (sint n)) else None
           | _ \<Rightarrow> Some (Inl (ApiError_code InternalFailure))))"

definition auth_get :: "string \<Rightarrow> string \<Rightarrow> auth_request" where
  "auth_get base path =
     \<lparr>rq_base = base, rq_path = path, rq_verb = ''GET'', rq_query = [], rq_headers = [], rq_body = None, rq_content_type = [],
      rq_bearer = None, rq_retry = False\<rparr>"

definition GetTimeFromServer :: "'d auth_env \<Rightarrow> string \<Rightarrow> auth_state \<Rightarrow> (auth_state \<times> (ApiError + time_t)) option" where
  "GetTimeFromServer E base s =
     (let (s, http_result) = call_auth_api E (auth_get base ''/timestamp'') s in
      if hr_status http_result \<noteq> 200 then Some (s, Inl (ApiError_status (hr_status http_result)))
      else map_option (Pair s) (ParseTimeResponse (ae_json E) (hr_body http_result)))"

definition CreateRequestTimer ::
  "'d auth_env \<Rightarrow> AuthenticationSettings \<Rightarrow> string \<Rightarrow> auth_state \<Rightarrow> (auth_state \<times> RequestTimer) option" where
  "CreateRequestTimer E config base s =
     (if set_use_system_time config then Some (RequestTimer_system E s)
      else do {
        (s, server_time) \<leftarrow> GetTimeFromServer E base s;
        Some (case server_time of Inl _ \<Rightarrow> RequestTimer_system E s | Inr t \<Rightarrow> RequestTimer_server E t s) })"

section \<open>Requests of sign-in\<close>

definition kApplicationJson :: string where "kApplicationJson = ''application/json''"

definition kOauthEndpoint :: string where "kOauthEndpoint = ''/oauth2/token''"

definition auth_post :: "string \<Rightarrow> string \<Rightarrow> string \<Rightarrow> string option \<Rightarrow> string \<Rightarrow> auth_request" where
  "auth_post base endpoint auth_header body content_type =
     \<lparr>rq_base = base, rq_path = endpoint, rq_verb = ''POST'', rq_query = [],
      rq_headers = [(kAuthorizationHeader, auth_header)], rq_body = body, rq_content_type = content_type,
      rq_bearer = None, rq_retry = False\<rparr>"

definition CallAuth ::
  "'d auth_env \<Rightarrow> AuthenticationSettings \<Rightarrow> string \<Rightarrow> string \<Rightarrow> AuthenticationCredentials \<Rightarrow> string option \<Rightarrow> time_t \<Rightarrow> string
    \<Rightarrow> auth_state \<Rightarrow> auth_state \<times> api_response" where
  "CallAuth E config base endpoint credentials body timestamp content_type s =
     (let url = (if ck_endpoint_url credentials \<noteq> [] then ck_endpoint_url credentials
                 else set_token_endpoint_url config @ endpoint);
          (s, nonce) = look (ae_uid E) s;
          auth_header = GenerateAuthorizationHeader E credentials url timestamp nonce in
      call_auth_api E (auth_post base endpoint auth_header body content_type) s)"

definition HasWrongTimestamp :: "'a BaseResult_scheme \<Rightarrow> bool" where
  "HasWrongTimestamp result \<longleftrightarrow> br_status result = 401 \<and> er_code (br_error result) = 401204"

text \<open>The wait between attempts; calling an empty strategy throws.\<close>

definition RetryDelay :: "RetrySettings \<Rightarrow> nat \<Rightarrow> auth_state \<Rightarrow> auth_state option" where
  "RetryDelay rs retry s =
     map_option (\<lambda>f. s\<lparr>as_waits := as_waits s @ [f (initial_backdown_period rs) retry]\<rparr>) (backdown_strategy rs)"

definition http_errors :: "(int \<times> string) list" where
  "http_errors =
     [(100, ''Continue''),
      (101, ''Switching Protocols''),
      (200, ''OK''),
      (201, ''Created''),
      (202, ''Accepted''),
      (203, ''Non-Authoritative Information''),
      (204, ''No Content''),
      (205, ''Reset Content''),
      (206, ''Partial Content''),
      (300, ''Multiple Choices''),
      (301, ''Moved Permanently''),
      (302, ''Found''),
      (303, ''See Other''),
      (304, ''Not Modified''),
      (305, ''Use Proxy''),
      (307, ''Temporary Redirect''),
      (400, ''Bad Request''),
      (401, ''Unauthorized''),
      (402, ''Payment Required''),
      (403, ''Forbidden''),
      (404, ''Not Found''),
      (405, ''Method Not Allowed''),
      (406, ''Not Acceptable''),
      (407, ''Proxy Authentication Required''),
      (408, ''Request Timeout''),
      (409, ''Conflict''),
      (410, ''Gone''),
      (411, ''Length Required''),
      (412, ''Precondition Failed''),
      (413, ''Request Entity Too Large''),
      (414, ''Request-URI Too Long''),
      (415, ''Unsupported Media Type''),
      (416, ''Requested Range Not Satisfiable''),
      (417, ''Expectation Failed''),
      (500, ''Internal Server Error''),
      (501, ''Not Implementation''),
      (502, ''Bad gateway''),
      (503, ''Service Unavailable''),
      (504, ''Gateway Timeout''),
      (505, ''HTTP Version Not Supported'')]"

definition HttpErrorToString :: "int \<Rightarrow> string" where
  "HttpErrorToString http_status = (case map_of http_errors http_status of Some text \<Rightarrow> text | None \<Rightarrow> ''Unknown Error'')"

definition ParseAuthResponse :: "'d auth_env \<Rightarrow> int \<Rightarrow> string \<Rightarrow> auth_state \<Rightarrow> (auth_state \<times> SignInResult) option" where
  "ParseAuthResponse E status auth_response s =
     (let (s, now) = look (ae_system E) s in
      map_option (Pair s)
        (SignInResultImpl_new (ae_json E) now status (HttpErrorToString status) (parse_document (ae_json E) auth_response)))"

definition ParseUserAuthResponse :: "'d auth_env \<Rightarrow> int \<Rightarrow> string \<Rightarrow> auth_state \<Rightarrow> (auth_state \<times> SignInUserResult) option" where
  "ParseUserAuthResponse E status auth_response s =
     (let (s, now) = look (ae_system E) s in
      map_option (Pair s)
        (SignInUserResultImpl_new (ae_json E) now status (HttpErrorToString status) (parse_document (ae_json E) auth_response)))"

definition FindInCache :: "string \<Rightarrow> auth_state \<Rightarrow> (auth_state \<times> SignInResult option) option" where
  "FindInCache key s = do {
     (cache, it) \<leftarrow> LruCache.Find key (as_client_tokens s);
     Some (s\<lparr>as_client_tokens := cache\<rparr>, it_value it cache) }"

definition FindInUserCache :: "string \<Rightarrow> auth_state \<Rightarrow> (auth_state \<times> SignInUserResult option) option" where
  "FindInUserCache key s = do {
     (cache, it) \<leftarrow> LruCache.Find key (as_user_tokens s);
     Some (s\<lparr>as_user_tokens := cache\<rparr>, it_value it cache) }"

definition StoreInCache :: "string \<Rightarrow> SignInResult \<Rightarrow> auth_state \<Rightarrow> auth_state option" where
  "StoreInCache key response s = do {
     (cache, _) \<leftarrow> LruCache.InsertOrAssign key response (as_client_tokens s);
     Some (s\<lparr>as_client_tokens := cache\<rparr>) }"

definition StoreInUserCache :: "string \<Rightarrow> SignInUserResult \<Rightarrow> auth_state \<Rightarrow> auth_state option" where
  "StoreInUserCache key response s = do {
     (cache, _) \<leftarrow> LruCache.InsertOrAssign key response (as_user_tokens s);
     Some (s\<lparr>as_user_tokens := cache\<rparr>) }"

text \<open>\<open>GetSignInResponse\<close>, over the lookup in the cache of the kind of result.\<close>

definition GetSignInResponse ::
  "'d auth_env \<Rightarrow> (auth_state \<Rightarrow> (auth_state \<times> 'r option) option) \<Rightarrow> int \<Rightarrow> auth_state
    \<Rightarrow> (auth_state \<times> (ApiError + 'r)) option" where
  "GetSignInResponse E find_in_cache status s =
     (let (s, cancelled) = (if status \<noteq> kErrTimeout then look (ae_cancelled E) s else (s, False)) in
      if cancelled then Some (s, Inl (ApiError_code Cancelled))
      else do {
        (s, result) \<leftarrow> find_in_cache s;
        Some (s, case result of Some r \<Rightarrow> Inr r | None \<Rightarrow> Inl (ApiError_status status)) })"

section \<open>Bodies of requests\<close>

definition string_member :: "string \<Rightarrow> string \<Rightarrow> (string \<times> 'd JsonModels.json) list" where
  "string_member name val = (if val \<noteq> [] then [(name, JsonModels.JString val)] else [])"

definition optional_member :: "string \<Rightarrow> string option \<Rightarrow> (string \<times> 'd JsonModels.json) list" where
  "optional_member name val = (case val of Some x \<Rightarrow> [(name, JsonModels.JString x)] | None \<Rightarrow> [])"

definition expiry_member :: "u32 \<Rightarrow> (string \<times> 'd JsonModels.json) list" where
  "expiry_member expires_in = (if 0 < expires_in then [(''expiresIn'', JsonModels.JUint64 (ucast expires_in))] else [])"

definition body_text :: "'d auth_json \<Rightarrow> (string \<times> 'd JsonModels.json) list \<Rightarrow> string option" where
  "body_text J object = Some (aj_text J (JsonModels.JObject object))"

record SignInProperties =
  sp_scope :: "string option"
  sp_device_id :: "string option"
  sp_expires_in :: int
  sp_custom_body :: "string option"

definition DeduceContentType :: "SignInProperties \<Rightarrow> string" where
  "DeduceContentType properties = (if sp_custom_body properties \<noteq> None then [] else kApplicationJson)"

definition GenerateClientBody :: "'d auth_json \<Rightarrow> SignInProperties \<Rightarrow> string option" where
  "GenerateClientBody J properties =
     (case sp_custom_body properties of
        Some content \<Rightarrow> Some content
      | None \<Rightarrow>
          body_text J ([(''grantType'', JsonModels.JString ''client_credentials'')] @ expiry_member (word_of_int (sp_expires_in properties))
            @ optional_member ''scope'' (sp_scope properties) @ optional_member ''deviceId'' (sp_device_id properties)))"

record UserProperties =
  up_email :: string
  up_password :: string
  up_expires_in :: u32

definition GenerateUserBody :: "'d auth_json \<Rightarrow> UserProperties \<Rightarrow> string option" where
  "GenerateUserBody J properties =
     body_text J ([(''grantType'', JsonModels.JString ''password'')] @ string_member ''email'' (up_email properties)
       @ string_member ''password'' (up_password properties) @ expiry_member (up_expires_in properties))"

datatype FederatedSignInType = FacebookSignIn | ArcgisSignIn

record FederatedProperties =
  fp_access_token :: string
  fp_country_code :: string
  fp_language :: string
  fp_email :: string
  fp_expires_in :: u32

definition GenerateFederatedBody :: "'d auth_json \<Rightarrow> FederatedSignInType \<Rightarrow> FederatedProperties \<Rightarrow> string option" where
  "GenerateFederatedBody J type properties =
     body_text J ([(''grantType'', JsonModels.JString (case type of FacebookSignIn \<Rightarrow> ''facebook'' | ArcgisSignIn \<Rightarrow> ''arcgis''))]
       @ string_member ''accessToken'' (fp_access_token properties) @ string_member ''countryCode'' (fp_country_code properties)
       @ string_member ''language'' (fp_language properties) @ string_member ''email'' (fp_email properties)
       @ expiry_member (fp_expires_in properties))"

record RefreshProperties =
  rp_access_token :: string
  rp_refresh_token :: string
  rp_expires_in :: u32

definition GenerateRefreshBody :: "'d auth_json \<Rightarrow> RefreshProperties \<Rightarrow> string option" where
  "GenerateRefreshBody J properties =
     body_text J ([(''grantType'', JsonModels.JString ''refresh_token'')] @ string_member ''accessToken'' (rp_access_token properties)
       @ string_member ''refreshToken'' (rp_refresh_token properties) @ expiry_member (rp_expires_in properties))"

record SignUpProperties =
  sg_email :: string
  sg_password :: string
  sg_date_of_birth :: string
  sg_first_name :: string
  sg_last_name :: string
  sg_country_code :: string
  sg_language :: string
  sg_marketing_enabled :: bool
  sg_phone_number :: string
  sg_realm :: string
  sg_invite_token :: string

definition GenerateSignUpBody :: "'d auth_json \<Rightarrow> SignUpProperties \<Rightarrow> string option" where
  "GenerateSignUpBody J properties =
     body_text J (string_member ''email'' (sg_email properties) @ string_member ''password'' (sg_password properties)
       @ string_member ''dob'' (sg_date_of_birth properties) @ string_member ''firstname'' (sg_first_name properties)
       @ string_member ''lastname'' (sg_last_name properties) @ string_member ''countryCode'' (sg_country_code properties)
       @ string_member ''language'' (sg_language properties)
       @ (if sg_marketing_enabled properties then [(''marketingEnabled'', JsonModels.JBool True)] else [])
       @ string_member ''phoneNumber'' (sg_phone_number properties) @ string_member ''realm'' (sg_realm properties)
       @ string_member ''inviteToken'' (sg_invite_token properties))"

definition GenerateAcceptTermBody :: "'d auth_json \<Rightarrow> string \<Rightarrow> string option" where
  "GenerateAcceptTermBody J reacceptance_token = body_text J [(''termsReacceptanceToken'', JsonModels.JString reacceptance_token)]"

record AppleSignInProperties =
  ap_access_token :: string
  ap_firstname :: string
  ap_lastname :: string
  ap_country_code :: string
  ap_language :: string
  ap_client_id :: string
  ap_realm :: string

definition GenerateAppleSignInBody :: "'d auth_json \<Rightarrow> AppleSignInProperties \<Rightarrow> string option" where
  "GenerateAppleSignInBody J sign_in_properties =
     body_text J ([(''grantType'', JsonModels.JString ''jwtIssNotHERE'')] @ string_member ''clientId'' (ap_client_id sign_in_properties)
       @ string_member ''realm'' (ap_realm sign_in_properties) @ string_member ''givenName'' (ap_firstname sign_in_properties)
       @ string_member ''familyName'' (ap_lastname sign_in_properties)
       @ string_member ''countryCode'' (ap_country_code sign_in_properties)
       @ string_member ''language'' (ap_language sign_in_properties))"

datatype DecisionOperatorType = kAnd | kOr

record AuthorizeRequest =
  zr_service_id :: string
  zr_contract_id :: "string option"
  zr_actions :: "(string \<times> string) list"
  zr_operator_type :: DecisionOperatorType
  zr_diagnostics :: bool

definition CreateKey :: "AuthorizeRequest \<Rightarrow> string" where
  "CreateKey r = zr_service_id r @ (case zr_contract_id r of Some c \<Rightarrow> ''['' @ c @ '']'' | None \<Rightarrow> [])"

definition GenerateAuthorizeBody :: "'d auth_json \<Rightarrow> AuthorizeRequest \<Rightarrow> string option" where
  "GenerateAuthorizeBody J properties =
     body_text J ([(''serviceId'', JsonModels.JString (zr_service_id properties)),
        (''actions'', JsonModels.JArray (map (\<lambda>a. JsonModels.JObject ((''action'', JsonModels.JString (fst a)) # string_member ''resource'' (snd a))) (zr_actions properties))),
        (''diagnostics'', JsonModels.JBool (zr_diagnostics properties))]
       @ (if zr_operator_type properties = kOr then [(''operator'', JsonModels.JString ''or'')] else []))"

section \<open>Signing in\<close>

definition retry_wanted :: "RetrySettings \<Rightarrow> api_response \<Rightarrow> bool" where
  "retry_wanted rs response = retry_condition rs (HttpResponse.truncate response)"

text \<open>What a sign-in sends: the host, the path, the body and its type.\<close>

record sign_in_call =
  sc_base :: string
  sc_endpoint :: string
  sc_credentials :: AuthenticationCredentials
  sc_body :: "string option"
  sc_content_type :: string

definition call_sign_in ::
  "'d auth_env \<Rightarrow> AuthenticationSettings \<Rightarrow> sign_in_call \<Rightarrow> RequestTimer \<Rightarrow> auth_state \<Rightarrow> auth_state \<times> api_response" where
  "call_sign_in E config c timer s =
     (let (s, time) = GetRequestTime E timer s in
      CallAuth E config (sc_base c) (sc_endpoint c) (sc_credentials c) (sc_body c) time (sc_content_type c) s)"

definition server_time_of :: "'d auth_env \<Rightarrow> 'a BaseResult_scheme \<Rightarrow> api_response \<Rightarrow> time_t option" where
  "server_time_of E result response =
     (if HasWrongTimestamp result then GetTimestampFromHeaders (ae_calendar E) (ar_headers response) else None)"

definition result_of :: "ApiError + SignInResult \<Rightarrow> SignInResult" where
  "result_of response = (case response of Inr r \<Rightarrow> r | Inl _ \<Rightarrow> SignInResult_default)"

text \<open>The retry loop of \<open>SignInClient\<close> with the attempts that are left and the number of the attempt.\<close>

fun sign_in_loop ::
  "'d auth_env \<Rightarrow> AuthenticationSettings \<Rightarrow> sign_in_call \<Rightarrow> nat \<Rightarrow> nat \<Rightarrow> RequestTimer \<Rightarrow> ApiError + SignInResult \<Rightarrow> auth_state
    \<Rightarrow> (auth_state \<times> (ApiError + SignInResult)) option" where
  "sign_in_loop E config c 0 retry timer response s = Some (s, response)"
| "sign_in_loop E config c (Suc n) retry timer response s =
     (let (s, cancelled) = look (ae_cancelled E) s in
      if cancelled then Some (s, Inl (ApiError_code Cancelled))
      else
        (let (s, auth_response) = call_sign_in E config c timer s;
             status = hr_status auth_response;
             key = ck_key (sc_credentials c) in do {
           (s, response) \<leftarrow>
             (if status < 0 then GetSignInResponse E (FindInCache key) status s
              else map_option (\<lambda>(s, r). (s, Inr r)) (ParseAuthResponse E status (hr_body auth_response) s));
           if retry_wanted (set_retry config) auth_response then do {
             s \<leftarrow> RetryDelay (set_retry config) retry s;
             sign_in_loop E config c n (retry + 1) timer response s }
           else case server_time_of E (result_of response) auth_response of
             Some t \<Rightarrow> (let (s, timer) = RequestTimer_server E t s in sign_in_loop E config c n (retry + 1) timer response s)
           | None \<Rightarrow>
               if status = 200 then map_option (\<lambda>s. (s, response)) (StoreInCache key (result_of response) s)
               else Some (s, response) }))"

definition sign_in_call_of :: "'d auth_env \<Rightarrow> AuthenticationSettings \<Rightarrow> AuthenticationCredentials \<Rightarrow> SignInProperties \<Rightarrow> sign_in_call" where
  "sign_in_call_of E config credentials properties =
     (let (host, endpoint) =
        (case ParseHostAndRest (ck_endpoint_url credentials) of
           Some host_and_rest \<Rightarrow> host_and_rest
         | None \<Rightarrow> (set_token_endpoint_url config, kOauthEndpoint)) in
      \<lparr>sc_base = host, sc_endpoint = endpoint, sc_credentials = credentials,
       sc_body = GenerateClientBody (ae_json E) properties, sc_content_type = DeduceContentType properties\<rparr>)"

text \<open>The guards of a task: no network, a cancelled context.\<close>

definition guarded ::
  "'d auth_env \<Rightarrow> AuthenticationSettings \<Rightarrow> (auth_state \<Rightarrow> (auth_state \<times> (ApiError + 'r)) option) \<Rightarrow> auth_state
    \<Rightarrow> (auth_state \<times> (ApiError + 'r)) option" where
  "guarded E config task s =
     (if \<not> set_network config then Some (s, Inl (ApiError_code NetworkConnection))
      else
        (let (s, cancelled) = look (ae_cancelled E) s in
         if cancelled then Some (s, Inl (ApiError_code Cancelled)) else task s))"

definition SignInClient ::
  "'d auth_env \<Rightarrow> AuthenticationSettings \<Rightarrow> AuthenticationCredentials \<Rightarrow> SignInProperties \<Rightarrow> auth_state
    \<Rightarrow> (auth_state \<times> (ApiError + SignInResult)) option" where
  "SignInClient E config credentials properties =
     guarded E config (\<lambda>s.
       let c = sign_in_call_of E config credentials properties in do {
         (s, timer) \<leftarrow> CreateRequestTimer E config (sc_base c) s;
         sign_in_loop E config c (nat (max_attempts (set_retry config))) 0 timer (Inl (ApiError_code Unknown)) s })"

text \<open>The loop of \<open>HandleUserRequest\<close>: a failed exchange ends it.\<close>

fun user_loop ::
  "'d auth_env \<Rightarrow> AuthenticationSettings \<Rightarrow> sign_in_call \<Rightarrow> nat \<Rightarrow> nat \<Rightarrow> RequestTimer \<Rightarrow> SignInUserResult \<Rightarrow> auth_state
    \<Rightarrow> (auth_state \<times> (ApiError + SignInUserResult)) option" where
  "user_loop E config c 0 retry timer response s = Some (s, Inr response)"
| "user_loop E config c (Suc n) retry timer response s =
     (let (s, cancelled) = look (ae_cancelled E) s in
      if cancelled then Some (s, Inl (ApiError_code Cancelled))
      else
        (let (s, auth_response) = call_sign_in E config c timer s;
             status = hr_status auth_response;
             key = ck_key (sc_credentials c) in
         if status < 0 then GetSignInResponse E (FindInUserCache key) status s
         else do {
           (s, response) \<leftarrow> ParseUserAuthResponse E status (hr_body auth_response) s;
           if retry_wanted (set_retry config) auth_response then do {
             s \<leftarrow> RetryDelay (set_retry config) retry s;
             user_loop E config c n (retry + 1) timer response s }
           else case server_time_of E response auth_response of
             Some t \<Rightarrow> (let (s, timer) = RequestTimer_server E t s in user_loop E config c n (retry + 1) timer response s)
           | None \<Rightarrow>
               if status = 200 then map_option (\<lambda>s. (s, Inr response)) (StoreInUserCache key response s)
               else Some (s, Inr response) }))"

definition HandleUserRequest ::
  "'d auth_env \<Rightarrow> AuthenticationSettings \<Rightarrow> AuthenticationCredentials \<Rightarrow> string \<Rightarrow> string option \<Rightarrow> auth_state
    \<Rightarrow> (auth_state \<times> (ApiError + SignInUserResult)) option" where
  "HandleUserRequest E config credentials endpoint request_body =
     guarded E config (\<lambda>s. do {
       (s, timer) \<leftarrow> CreateRequestTimer E config (set_token_endpoint_url config) s;
       user_loop E config
         \<lparr>sc_base = set_token_endpoint_url config, sc_endpoint = endpoint, sc_credentials = credentials,
          sc_body = request_body, sc_content_type = kApplicationJson\<rparr>
         (nat (max_attempts (set_retry config))) 0 timer SignInUserResult_default s })"

definition SignInHereUser ::
  "'d auth_env \<Rightarrow> AuthenticationSettings \<Rightarrow> AuthenticationCredentials \<Rightarrow> UserProperties \<Rightarrow> auth_state
    \<Rightarrow> (auth_state \<times> (ApiError + SignInUserResult)) option" where
  "SignInHereUser E config credentials properties =
     HandleUserRequest E config credentials kOauthEndpoint (GenerateUserBody (ae_json E) properties)"

definition SignInFederated_body ::
  "'d auth_env \<Rightarrow> AuthenticationSettings \<Rightarrow> AuthenticationCredentials \<Rightarrow> string \<Rightarrow> auth_state
    \<Rightarrow> (auth_state \<times> (ApiError + SignInUserResult)) option" where
  "SignInFederated_body E config credentials request_body =
     HandleUserRequest E config credentials kOauthEndpoint (Some request_body)"

definition SignInRefresh ::
  "'d auth_env \<Rightarrow> AuthenticationSettings \<Rightarrow> AuthenticationCredentials \<Rightarrow> RefreshProperties \<Rightarrow> auth_state
    \<Rightarrow> (auth_state \<times> (ApiError + SignInUserResult)) option" where
  "SignInRefresh E config credentials properties =
     HandleUserRequest E config credentials kOauthEndpoint (GenerateRefreshBody (ae_json E) properties)"

definition SignInFederated ::
  "'d auth_env \<Rightarrow> AuthenticationSettings \<Rightarrow> AuthenticationCredentials \<Rightarrow> FederatedSignInType \<Rightarrow> FederatedProperties \<Rightarrow> auth_state
    \<Rightarrow> (auth_state \<times> (ApiError + SignInUserResult)) option" where
  "SignInFederated E config credentials type properties =
     HandleUserRequest E config credentials kOauthEndpoint (GenerateFederatedBody (ae_json E) type properties)"

definition AcceptTerms ::
  "'d auth_env \<Rightarrow> AuthenticationSettings \<Rightarrow> AuthenticationCredentials \<Rightarrow> string \<Rightarrow> auth_state
    \<Rightarrow> (auth_state \<times> (ApiError + SignInUserResult)) option" where
  "AcceptTerms E config credentials reacceptance_token =
     HandleUserRequest E config credentials ''/terms'' (GenerateAcceptTermBody (ae_json E) reacceptance_token)"

definition SignInApple ::
  "'d auth_env \<Rightarrow> AuthenticationSettings \<Rightarrow> AppleSignInProperties \<Rightarrow> auth_state
    \<Rightarrow> (auth_state \<times> (ApiError + SignInUserResult)) option" where
  "SignInApple E config properties =
     guarded E config (\<lambda>s.
       let (s, auth_response) = call_auth_api E
             ((auth_post (set_token_endpoint_url config) kOauthEndpoint (ap_access_token properties)
               (GenerateAppleSignInBody (ae_json E) properties) kApplicationJson)\<lparr>rq_retry := True\<rparr>) s;
           status = hr_status auth_response in
       if status < 0 then GetSignInResponse E (FindInUserCache (ap_client_id properties)) status s
       else do {
         (s, response) \<leftarrow> ParseUserAuthResponse E status (hr_body auth_response) s;
         if status = 200 then map_option (\<lambda>s. (s, Inr response)) (StoreInUserCache (ap_client_id properties) response s)
         else Some (s, Inr response) })"

section \<open>Accounts\<close>

definition SignUpHereUser ::
  "'d auth_env \<Rightarrow> AuthenticationSettings \<Rightarrow> AuthenticationCredentials \<Rightarrow> SignUpProperties \<Rightarrow> auth_state
    \<Rightarrow> (auth_state \<times> (ApiError + SignUpResult)) option" where
  "SignUpHereUser E config credentials properties =
     guarded E config (\<lambda>s.
       let url = set_token_endpoint_url config @ ''/user'';
           (s, (now, nonce)) = look (\<lambda>n. (ae_system E n, ae_uid E n)) s;
           auth_header = GenerateAuthorizationHeader E credentials url now nonce;
           (s, signup_response) = call_auth_api E
             (auth_post (set_token_endpoint_url config) ''/user'' auth_header (GenerateSignUpBody (ae_json E) properties) kApplicationJson) s;
           status = hr_status signup_response in
       if status < 0 then Some (s, Inl (ApiError_status status))
       else map_option (\<lambda>r. (s, Inr r))
         (SignUpResultImpl_new (ae_json E) status (HttpErrorToString status) (parse_document (ae_json E) (hr_body signup_response))))"

definition with_bearer :: "string \<Rightarrow> bool \<Rightarrow> auth_request \<Rightarrow> auth_request" where
  "with_bearer access_token retry r = r\<lparr>rq_bearer := Some access_token, rq_retry := retry\<rparr>"

definition SignOut ::
  "'d auth_env \<Rightarrow> AuthenticationSettings \<Rightarrow> string \<Rightarrow> auth_state \<Rightarrow> (auth_state \<times> (ApiError + BaseResult)) option" where
  "SignOut E config access_token =
     guarded E config (\<lambda>s.
       let (s, signout_response) = call_auth_api E
             (with_bearer access_token False ((auth_get (set_token_endpoint_url config) ''/logout'')\<lparr>rq_verb := ''POST''\<rparr>)) s;
           status = hr_status signout_response in
       if status < 0 then Some (s, Inl (ApiError_status status))
       else map_option (\<lambda>r. (s, Inr r))
         (SignOutResultImpl_new (ae_json E) status (HttpErrorToString status) (parse_document (ae_json E) (hr_body signout_response))))"

text \<open>The error of a response with another status than 200: \<open>as_object\<close> throws on a document that is no object and
  \<open>as_string\<close> on a message that is no string.\<close>

definition http_error :: "'d auth_json \<Rightarrow> api_response \<Rightarrow> ApiError option" where
  "http_error J http_result =
     (case aj_parse J (hr_body http_result) of
        None \<Rightarrow> Some (ApiError_status (hr_status http_result))
      | Some (JsonModels.JObject document) \<Rightarrow>
          (case map_of document ''message'' of
             None \<Rightarrow> Some (ApiError_status (hr_status http_result))
           | Some (JsonModels.JString _) \<Rightarrow> Some (ApiError_status (hr_status http_result))
           | Some _ \<Rightarrow> None)
      | Some _ \<Rightarrow> None)"

definition IntrospectApp ::
  "'d auth_env \<Rightarrow> AuthenticationSettings \<Rightarrow> string \<Rightarrow> auth_state \<Rightarrow> (auth_state \<times> (ApiError + IntrospectAppResult)) option" where
  "IntrospectApp E config access_token s =
     (if \<not> set_network config then Some (s, Inl (ApiError_code NetworkConnection))
      else
        (let (s, http_result) = call_auth_api E (with_bearer access_token True (auth_get (set_token_endpoint_url config) ''/app/me'')) s in
         if hr_status http_result \<noteq> 200 then map_option (\<lambda>e. (s, Inl e)) (http_error (ae_json E) http_result)
         else case parse_document (ae_json E) (hr_body http_result) of
           None \<Rightarrow> Some (s, Inl (ApiError_status kErrUnknown))
         | Some document \<Rightarrow> map_option (\<lambda>r. (s, Inr r)) (GetIntrospectAppResult document)))"

text \<open>After a status of 200 a document that is no object still goes through \<open>as_object\<close> in the search for an error code.\<close>

definition Authorize ::
  "'d auth_env \<Rightarrow> AuthenticationSettings \<Rightarrow> string \<Rightarrow> AuthorizeRequest \<Rightarrow> auth_state \<Rightarrow> (auth_state \<times> (ApiError + AuthorizeResult)) option" where
  "Authorize E config access_token request s =
     (if \<not> set_network config then Some (s, Inl (ApiError_code NetworkConnection))
      else
        (let (s, http_result) = call_auth_api E
               (with_bearer access_token True ((auth_get (set_token_endpoint_url config) ''/decision/authorize'')
                 \<lparr>rq_verb := ''POST'', rq_body := GenerateAuthorizeBody (ae_json E) request, rq_content_type := kApplicationJson\<rparr>)) s in
         if hr_status http_result \<noteq> 200 then map_option (\<lambda>e. (s, Inl e)) (http_error (ae_json E) http_result)
         else case aj_parse (ae_json E) (hr_body http_result) of
           None \<Rightarrow> Some (s, Inl (ApiError_status kErrUnknown))
         | Some (JsonModels.JObject document) \<Rightarrow>
             (case map_of document ''errorCode'' of
                Some (JsonModels.JInt64 _) \<Rightarrow>
                  (case map_of document ''message'' of
                     None \<Rightarrow> Some (s, Inl (ApiError_status kErrUnknown))
                   | Some (JsonModels.JString _) \<Rightarrow> Some (s, Inl (ApiError_status kErrUnknown))
                   | Some _ \<Rightarrow> None)
              | _ \<Rightarrow> map_option (\<lambda>r. (s, Inr r)) (GetAuthorizeResult document))
         | Some _ \<Rightarrow> None))"

text \<open>\<open>GetUserAccountInfoResponse\<close>: here a document that is no object gives the error, and reading a message that is no string
  is undefined.\<close>

definition GetUserAccountInfoResponse :: "'d auth_json \<Rightarrow> api_response \<Rightarrow> (ApiError + UserAccountInfo) option" where
  "GetUserAccountInfoResponse J http_response =
     (if hr_status http_response \<noteq> 200 then
        (case parse_document J (hr_body http_response) of
           Some document \<Rightarrow>
             if contains_key document ''message'' \<and> get_c_str document ''message'' = None then None
             else Some (Inl (ApiError_status (hr_status http_response)))
         | None \<Rightarrow> Some (Inl (ApiError_status (hr_status http_response))))
      else case parse_document J (hr_body http_response) of
        None \<Rightarrow> Some (Inl (ApiError_status kErrUnknown))
      | Some document \<Rightarrow> map_option Inr (Finish UserAccountInfo_builders document UserAccountInfo_default))"

definition GetMyAccount ::
  "'d auth_env \<Rightarrow> AuthenticationSettings \<Rightarrow> string \<Rightarrow> auth_state \<Rightarrow> (auth_state \<times> (ApiError + UserAccountInfo)) option" where
  "GetMyAccount E config access_token s =
     (if \<not> set_network config then Some (s, Inl (ApiError_code NetworkConnection))
      else
        (let (s, http_result) = call_auth_api E (with_bearer access_token True (auth_get (set_token_endpoint_url config) ''/user/me'')) s in
         map_option (Pair s) (GetUserAccountInfoResponse (ae_json E) http_result)))"

section \<open>The token endpoint\<close>

definition GetBasePath :: "string \<Rightarrow> string" where
  "GetBasePath base_string =
     (case find (\<lambda>i. prefix kOauthEndpoint (drop i base_string)) [0..<length base_string] of
        None \<Rightarrow> base_string
      | Some i \<Rightarrow> take i base_string @ drop (i + length kOauthEndpoint) base_string)"

record Settings =
  ts_credentials :: AuthenticationCredentials
  ts_network :: bool
  ts_token_endpoint_url :: string
  ts_use_system_time :: bool
  ts_retry :: RetrySettings
  ts_scope :: "string option"

definition kHereAccountProductionTokenUrl :: string where
  "kHereAccountProductionTokenUrl = ''https://account.api.here.com/oauth2/token''"

definition Settings_new :: "AuthenticationCredentials \<Rightarrow> RetrySettings \<Rightarrow> Settings" where
  "Settings_new credentials retry =
     \<lparr>ts_credentials = credentials, ts_network = False,
      ts_token_endpoint_url =
        (if ck_endpoint_url credentials = [] then kHereAccountProductionTokenUrl else ck_endpoint_url credentials),
      ts_use_system_time = True, ts_retry = retry, ts_scope = None\<rparr>"

definition ConvertSettings :: "Settings \<Rightarrow> AuthenticationSettings" where
  "ConvertSettings config =
     \<lparr>set_network = ts_network config, set_token_endpoint_url = GetBasePath (ts_token_endpoint_url config),
      set_token_cache_limit = 100, set_use_system_time = ts_use_system_time config, set_retry = ts_retry config\<rparr>"

definition TokenEndpoint_GenerateClientBody :: "'d auth_json \<Rightarrow> int \<Rightarrow> string option \<Rightarrow> string option" where
  "TokenEndpoint_GenerateClientBody J expires_in scope =
     body_text J ([(''grantType'', JsonModels.JString ''client_credentials'')] @ expiry_member (word_of_int expires_in) @ optional_member ''scope'' scope)"

definition TokenEndpoint_CallAuth ::
  "'d auth_env \<Rightarrow> AuthenticationSettings \<Rightarrow> AuthenticationCredentials \<Rightarrow> string option \<Rightarrow> time_t \<Rightarrow> auth_state
    \<Rightarrow> auth_state \<times> api_response" where
  "TokenEndpoint_CallAuth E config credentials body timestamp s =
     (let url = set_token_endpoint_url config @ kOauthEndpoint;
          (s, nonce) = look (ae_uid E) s;
          auth_header = GenerateAuthorizationHeader E credentials url timestamp nonce in
      call_auth_api E (auth_post (set_token_endpoint_url config) kOauthEndpoint auth_header body kApplicationJson) s)"

fun token_loop ::
  "'d auth_env \<Rightarrow> AuthenticationSettings \<Rightarrow> AuthenticationCredentials \<Rightarrow> string option \<Rightarrow> nat \<Rightarrow> nat \<Rightarrow> RequestTimer \<Rightarrow> SignInResult
    \<Rightarrow> auth_state \<Rightarrow> (auth_state \<times> (ApiError + SignInResult)) option" where
  "token_loop E config credentials body 0 retry timer response s = Some (s, Inr response)"
| "token_loop E config credentials body (Suc n) retry timer response s =
     (let (s, cancelled) = look (ae_cancelled E) s in
      if cancelled then Some (s, Inl (ApiError_code Cancelled))
      else
        (let (s, time) = GetRequestTime E timer s;
             (s, auth_response) = TokenEndpoint_CallAuth E config credentials body time s;
             status = hr_status auth_response in
         if status < 0 then
           (let (s, cancelled) = (if status \<noteq> kErrTimeout then look (ae_cancelled E) s else (s, False)) in
            Some (s, Inl (if cancelled then ApiError_code Cancelled else ApiError_status status)))
         else do {
           (s, response) \<leftarrow> ParseAuthResponse E status (hr_body auth_response) s;
           if status = 200 then Some (s, Inr response)
           else if retry_wanted (set_retry config) auth_response then do {
             s \<leftarrow> RetryDelay (set_retry config) retry s;
             token_loop E config credentials body n (retry + 1) timer response s }
           else case server_time_of E response auth_response of
             Some t \<Rightarrow>
               (let (s, timer) = RequestTimer_server E t s in
                token_loop E config credentials body n (retry + 1) timer response s)
           | None \<Rightarrow> Some (s, Inr response) }))"

definition TokenEndpoint_SignInClient ::
  "'d auth_env \<Rightarrow> Settings \<Rightarrow> int \<Rightarrow> auth_state \<Rightarrow> (auth_state \<times> (ApiError + SignInResult)) option" where
  "TokenEndpoint_SignInClient E endpoint expires_in =
     (let config = ConvertSettings endpoint in
      guarded E config (\<lambda>s. do {
        (s, timer) \<leftarrow> CreateRequestTimer E config (set_token_endpoint_url config) s;
        token_loop E config (ts_credentials endpoint)
          (TokenEndpoint_GenerateClientBody (ae_json E) expires_in (ts_scope endpoint))
          (nat (max_attempts (set_retry config))) 0 timer SignInResult_default s }))"

text \<open>The token of a response: the time of its expiry is counted from now.\<close>

definition token_of :: "'d auth_env \<Rightarrow> auth_state \<times> (ApiError + SignInResult) \<Rightarrow> auth_state \<times> (ApiError + TokenResult)" where
  "token_of E r =
     (case r of
        (s, Inl e) \<Rightarrow> (s, Inl e)
      | (s, Inr result) \<Rightarrow>
          if si_access_token result = [] then (s, Inl (ApiError_status (br_status result)))
          else
            (let (s, now) = look (ae_system E) s in
             (s, Inr (TokenResult_new now (si_access_token result) (si_expires_in result)
                  (if si_scope result = [] then None else Some (si_scope result))))))"

definition RequestToken_context ::
  "'d auth_env \<Rightarrow> Settings \<Rightarrow> int \<Rightarrow> auth_state \<Rightarrow> (auth_state \<times> (ApiError + TokenResult)) option" where
  "RequestToken_context E endpoint expires_in s = map_option (token_of E) (TokenEndpoint_SignInClient E endpoint expires_in s)"

text \<open>With a callback the request goes through the client of the endpoint, which keeps the tokens it was given; with a future
  it is the same.\<close>

definition RequestToken ::
  "'d auth_env \<Rightarrow> Settings \<Rightarrow> int \<Rightarrow> auth_state \<Rightarrow> (auth_state \<times> (ApiError + TokenResult)) option" where
  "RequestToken E endpoint expires_in s =
     map_option (token_of E)
       (SignInClient E (ConvertSettings endpoint) (ts_credentials endpoint)
         \<lparr>sp_scope = ts_scope endpoint, sp_device_id = None, sp_expires_in = expires_in, sp_custom_body = None\<rparr> s)"

section \<open>The token that refreshes itself\<close>

record refreshing_token =
  at_current_token :: "ApiError + TokenResult"
  at_refresh_time :: int

definition AutoRefreshingToken_new :: refreshing_token where
  "AutoRefreshingToken_new = \<lparr>at_current_token = Inl (ApiError_code Unknown), at_refresh_time = 0\<rparr>"

definition seconds :: "int \<Rightarrow> int" where "seconds n = n * 1000000000"

definition ComputeRefreshTime :: "int \<Rightarrow> ApiError + TokenResult \<Rightarrow> int \<Rightarrow> int" where
  "ComputeRefreshTime now current_token minimum_validity =
     (case current_token of
        Inl _ \<Rightarrow> now
      | Inr token \<Rightarrow>
          (let expiry_time_chrono = now + seconds (tr_expires_in token) in
           if expiry_time_chrono \<le> now then now else expiry_time_chrono - seconds minimum_validity))"

definition ShouldRefreshNow :: "int \<Rightarrow> int \<Rightarrow> refreshing_token \<Rightarrow> bool" where
  "ShouldRefreshNow now minimum_validity t \<longleftrightarrow> minimum_validity \<le> 0 \<or> at_refresh_time t \<le> now"

text \<open>\<open>TryRefreshCurrentToken\<close> and \<open>GetToken\<close>, over the way the token is requested.\<close>

definition TryRefreshCurrentToken ::
  "'d auth_env \<Rightarrow> (auth_state \<Rightarrow> (auth_state \<times> (ApiError + TokenResult)) option) \<Rightarrow> int \<Rightarrow> auth_state
    \<Rightarrow> (auth_state \<times> refreshing_token) option" where
  "TryRefreshCurrentToken E request minimum_validity s = do {
     (s, response) \<leftarrow> request s;
     let (s, now) = look (ae_steady E) s;
     Some (s, \<lparr>at_current_token = response, at_refresh_time = ComputeRefreshTime now response minimum_validity\<rparr>) }"

definition GetToken ::
  "'d auth_env \<Rightarrow> (auth_state \<Rightarrow> (auth_state \<times> (ApiError + TokenResult)) option) \<Rightarrow> int \<Rightarrow> auth_state \<times> refreshing_token
    \<Rightarrow> ((auth_state \<times> refreshing_token) \<times> (ApiError + TokenResult)) option" where
  "GetToken E request minimum_validity st =
     (let (s, t) = st;
          (s, now) = look (ae_steady E) s in
      if ShouldRefreshNow now minimum_validity t
      then map_option (\<lambda>(s, t). ((s, t), at_current_token t)) (TryRefreshCurrentToken E request minimum_validity s)
      else Some ((s, t), at_current_token t))"

section \<open>The provider of tokens\<close>

record token_provider =
  tp_settings :: Settings
  tp_minimum_validity :: int

definition GetResponse ::
  "'d auth_env \<Rightarrow> token_provider \<Rightarrow> auth_state \<times> refreshing_token
    \<Rightarrow> ((auth_state \<times> refreshing_token) \<times> (ApiError + TokenResult)) option" where
  "GetResponse E p = GetToken E (RequestToken_context E (tp_settings p) 0) (tp_minimum_validity p)"

text \<open>The call of a provider gives the token and the time of its expiry.\<close>

definition provide ::
  "'d auth_env \<Rightarrow> token_provider \<Rightarrow> auth_state \<times> refreshing_token
    \<Rightarrow> ((auth_state \<times> refreshing_token) \<times> (ApiError + string \<times> time_t)) option" where
  "provide E p st =
     map_option (\<lambda>(st, response). (st, map_sum id (\<lambda>token. (tr_access_token token, tr_expiry_time token)) response)) (GetResponse E p st)"

definition GetHttpStatusCode ::
  "'d auth_env \<Rightarrow> token_provider \<Rightarrow> auth_state \<times> refreshing_token \<Rightarrow> ((auth_state \<times> refreshing_token) \<times> int) option" where
  "GetHttpStatusCode E p st =
     map_option (\<lambda>(st, response). (st, case response of Inr _ \<Rightarrow> 200 | Inl e \<Rightarrow> err_status e)) (GetResponse E p st)"

definition IsTokenResponseOK ::
  "'d auth_env \<Rightarrow> token_provider \<Rightarrow> auth_state \<times> refreshing_token \<Rightarrow> ((auth_state \<times> refreshing_token) \<times> bool) option" where
  "IsTokenResponseOK E p st = map_option (\<lambda>(st, response). (st, \<not> isl response)) (GetResponse E p st)"

section \<open>Credentials in a file\<close>

text \<open>The lines of a stream, and the parts between the matches of \<open>\s*=\s*\<close> in a line without blanks: an empty part at the end
  is not one.\<close>

definition stream_lines :: "string \<Rightarrow> string list" where
  "stream_lines stream = (let ls = split_at (CHR 0x0A) stream in if last ls = [] then butlast ls else ls)"

definition line_tokens :: "string \<Rightarrow> string list" where
  "line_tokens line =
     (let parts = split_at (CHR ''='') (filter (\<lambda>c. \<not> is_space c) line) in
      if 1 < length parts \<and> last parts = [] then butlast parts else parts)"

definition read_line :: "string \<Rightarrow> AuthenticationCredentials \<Rightarrow> AuthenticationCredentials" where
  "read_line line k =
     (case line_tokens line of
        [name, val] \<Rightarrow>
          if name = ''here.access.key.id'' then k\<lparr>ck_key := val\<rparr>
          else if name = ''here.access.key.secret'' then k\<lparr>ck_secret := val\<rparr>
          else if name = ''here.token.endpoint.url'' then k\<lparr>ck_endpoint_url := val\<rparr>
          else k
      | _ \<Rightarrow> k)"

definition ReadFromStream :: "string \<Rightarrow> AuthenticationCredentials option" where
  "ReadFromStream stream =
     (let k = fold read_line (stream_lines stream) \<lparr>ck_key = [], ck_secret = [], ck_endpoint_url = []\<rparr> in
      if ck_key k \<noteq> [] \<and> ck_secret k \<noteq> [] then Some k else None)"

end
