(* ===== verification/AuthGuarantees.thy ===== *)
theory AuthGuarantees
  imports Authentication
begin

text \<open>
  What the authentication client promises: its OAuth header carries the signature of RFC 5849, a retry loop stays within its
  attempts, a wrong local clock is corrected by the time of the server, and a token that refreshes itself is valid for as long
  as was asked for.
\<close>

section \<open>The OAuth header\<close>

text \<open>How a server reads the header: fields between commas, each a name and a quoted encoded value.\<close>

definition read_header_field :: "string \<Rightarrow> string \<times> string" where
  "read_header_field f =
     (takeWhile (\<lambda>c. c \<noteq> CHR ''='') f, Decode (takeWhile (\<lambda>c. c \<noteq> CHR 0x22) (drop 2 (dropWhile (\<lambda>c. c \<noteq> CHR ''='') f))))"

definition header_params :: "string \<Rightarrow> (string \<times> string) list" where
  "header_params text = map read_header_field (split_at (CHR '','') (drop 6 text))"

lemma Encode_no:
  assumes "\<not> unreserved c" and "c \<noteq> CHR ''%''"
  shows "c \<notin> set (Encode s)"
  using Encode_safe [of c s] assms by blast

lemma Encode_no_quote: "CHR 0x22 \<notin> set (Encode s)" "CHR '','' \<notin> set (Encode s)"
  by (rule Encode_no; simp add: unreserved_def byte_def)+

lemma dropWhile_stop: "c \<notin> set a \<Longrightarrow> dropWhile (\<lambda>x. x \<noteq> c) (a @ c # s) = c # s"
  by (induction a) auto

lemma read_header_field_encoded:
  assumes "CHR ''='' \<notin> set name"
  shows "read_header_field (header_field name (Encode val)) = (name, val)"
  using assms Encode_no_quote(1) [of val]
  by (simp add: read_header_field_def header_field_def takeWhile_stop dropWhile_stop Decode_Encode)

lemma header_field_no_comma:
  assumes "CHR '','' \<notin> set name" and "CHR '','' \<notin> set val"
  shows "CHR '','' \<notin> set (header_field name val)"
  using assms by (simp add: header_field_def)

lemma Encode_plain: "\<forall>c \<in> set s. unreserved c \<Longrightarrow> Encode s = s"
  by (induction s) (auto simp: Encode_Cons)

lemma split_at_fields:
  "CHR '','' \<notin> set f \<Longrightarrow> \<forall>g \<in> set gs. CHR '','' \<notin> set g \<Longrightarrow>
   split_at (CHR '','') (f @ concat (map (\<lambda>g. '','' @ g) gs)) = f # gs"
proof (induction gs arbitrary: f)
  case (Cons g gs)
  then show ?case using split_at_sep [of "CHR '',''" f "g @ concat (map (\<lambda>g. '','' @ g) gs)"] by simp
qed (simp add: split_at_none)

lemma header_params_fields:
  assumes "\<forall>(n, v) \<in> set ((n, v) # ps). CHR ''='' \<notin> set n \<and> CHR '','' \<notin> set n"
  shows "header_params (''OAuth '' @ header_field n (Encode v) @ concat (map (\<lambda>g. '','' @ g) (map (\<lambda>(n, v). header_field n (Encode v)) ps)))
     = (n, v) # ps"
proof -
  have nc: "CHR '','' \<notin> set (header_field m (Encode w))" if "CHR '','' \<notin> set m" for m w
    using that by (rule header_field_no_comma) (rule Encode_no_quote)
  have "map read_header_field (map (\<lambda>(n, v). header_field n (Encode v)) ps) = ps"
    using assms by (induction ps) (auto simp: read_header_field_encoded)
  moreover have "read_header_field (header_field n (Encode v)) = (n, v)" using assms by (simp add: read_header_field_encoded)
  moreover have "split_at (CHR '','') (header_field n (Encode v) @ concat (map (\<lambda>g. '','' @ g) (map (\<lambda>(n, v). header_field n (Encode v)) ps)))
      = header_field n (Encode v) # map (\<lambda>(n, v). header_field n (Encode v)) ps"
    using assms nc by (intro split_at_fields) auto
  moreover have "drop 6 (''OAuth '' @ x) = x" for x by simp
  ultimately show ?thesis unfolding header_params_def by (metis list.simps(9))
qed

lemma header_params_read:
  "header_params (GenerateAuthorizationHeader E credentials url timestamp nonce) =
     [(''oauth_consumer_key'', ck_key credentials), (''oauth_nonce'', nonce), (''oauth_signature_method'', ''HMAC-SHA256''),
      (''oauth_timestamp'', to_string_int timestamp), (''oauth_version'', ''1.0''),
      (''oauth_signature'', oauth_signature E credentials url (to_string_int timestamp) nonce)]"
proof -
  let ?ps = "[(''oauth_nonce'', nonce), (''oauth_signature_method'', ''HMAC-SHA256''),
      (''oauth_timestamp'', to_string_int timestamp), (''oauth_version'', ''1.0''),
      (''oauth_signature'', oauth_signature E credentials url (to_string_int timestamp) nonce)]"
  have m: "Encode ''HMAC-SHA256'' = ''HMAC-SHA256''" "Encode ''1.0'' = ''1.0''" by code_simp+
  have "GenerateAuthorizationHeader E credentials url timestamp nonce =
      ''OAuth '' @ header_field ''oauth_consumer_key'' (Encode (ck_key credentials))
      @ concat (map (\<lambda>g. '','' @ g) (map (\<lambda>(n, v). header_field n (Encode v)) ?ps))"
    by (simp add: GenerateAuthorizationHeader_def Let_def m)
  moreover have "\<forall>(n, v) \<in> set ((''oauth_consumer_key'', ck_key credentials) # ?ps). CHR ''='' \<notin> set n \<and> CHR '','' \<notin> set n"
    by simp
  ultimately show ?thesis using header_params_fields [of "''oauth_consumer_key''" "ck_key credentials" ?ps] by simp
qed

section \<open>RFC 5849\<close>

text \<open>The percent encoding of section 3.6, with the unreserved characters and the upper-case digits written out.\<close>

definition rfc_octet :: "char \<Rightarrow> string" where
  "rfc_octet c =
     (if 65 \<le> byte c \<and> byte c \<le> 90 \<or> 97 \<le> byte c \<and> byte c \<le> 122 \<or> 48 \<le> byte c \<and> byte c \<le> 57 \<or> c \<in> set ''-._~'' then [c]
      else [CHR ''%'', ''0123456789ABCDEF'' ! (byte c div 16), ''0123456789ABCDEF'' ! (byte c mod 16)])"

definition rfc_encode :: "string \<Rightarrow> string" where
  "rfc_encode s = concat (map rfc_octet s)"

text \<open>The base string URI of section 3.4.1.2: scheme and host in lower case, no user, no default port, no query and no
fragment, and at least a slash as its path.\<close>

definition rfc_digit :: "char \<Rightarrow> bool" where
  "rfc_digit c \<longleftrightarrow> c \<in> set ''0123456789''"

definition rfc_host :: "string \<Rightarrow> string \<Rightarrow> string" where
  "rfc_host scheme authority =
     (let host_port = rev (takeWhile (\<lambda>c. c \<noteq> CHR ''@'') (rev authority));
          port = rev (takeWhile rfc_digit (rev host_port));
          before = take (length host_port - length port) host_port in
      if before \<noteq> [] \<and> last before = CHR '':''
      then map tolower (butlast before)
        @ (if port = [] \<or> scheme = ''http'' \<and> port = ''80'' \<or> scheme = ''https'' \<and> port = ''443'' then [] else CHR '':'' # port)
      else map tolower host_port)"

definition rfc_base_uri :: "string \<Rightarrow> string" where
  "rfc_base_uri url =
     (let scheme = map tolower (takeWhile (\<lambda>c. c \<noteq> CHR '':'') url);
          rest = drop (length scheme + 3) url;
          authority = takeWhile (\<lambda>c. c \<notin> set ''/?#'') rest;
          path = takeWhile (\<lambda>c. c \<notin> set ''?#'') (drop (length authority) rest) in
      scheme @ ''://'' @ rfc_host scheme authority @ (if path = [] then ''/'' else path))"

text \<open>The parameters in the query of the address, decoded (section 3.4.1.3.1).\<close>

definition rfc_query :: "string \<Rightarrow> (string \<times> string) list" where
  "rfc_query url =
     (let query = drop 1 (dropWhile (\<lambda>c. c \<noteq> CHR ''?'') (takeWhile (\<lambda>c. c \<noteq> CHR ''#'') url)) in
      if query = [] then [] else map Url.read_field (split_at (CHR ''&'') query))"

text \<open>The normalized parameters of section 3.4.1.3.2, sorted by name and for one name by value, and the signature base string
of section 3.4.1.1 and the key of section 3.4.2, for a request whose body is not form-encoded.\<close>

definition rfc_normalized :: "(string \<times> string) list \<Rightarrow> string" where
  "rfc_normalized params =
     (let fields = map (\<lambda>(k, v). k @ ''='' @ v)
            (sort_key fst (sort_key snd (map (\<lambda>(k, v). (rfc_encode k, rfc_encode v)) params))) in
      concat (take 1 fields @ map (\<lambda>f. ''&'' @ f) (drop 1 fields)))"

definition rfc_base_string :: "string \<Rightarrow> string \<Rightarrow> (string \<times> string) list \<Rightarrow> string" where
  "rfc_base_string http_method url oauth_params =
     http_method @ ''&'' @ rfc_encode (rfc_base_uri url)
       @ ''&'' @ rfc_encode (rfc_normalized (rfc_query url @ oauth_params))"

definition rfc_key :: "string \<Rightarrow> string \<Rightarrow> string" where
  "rfc_key client_secret token_secret = rfc_encode client_secret @ ''&'' @ rfc_encode token_secret"

definition oauth_params :: "AuthenticationCredentials \<Rightarrow> string \<Rightarrow> string \<Rightarrow> (string \<times> string) list" where
  "oauth_params credentials timestamp nonce =
     [(''oauth_consumer_key'', ck_key credentials), (''oauth_signature_method'', ''HMAC-SHA256''), (''oauth_timestamp'', timestamp),
      (''oauth_nonce'', nonce), (''oauth_version'', ''1.0'')]"

lemma rfc_octet_eq:
  "rfc_octet c = (if unreserved c then [c] else [CHR ''%'', hex_digit (byte c div 16), hex_digit (byte c mod 16)])"
proof -
  have "list_all (\<lambda>n. ''0123456789ABCDEF'' ! n = hex_digit n) [0..<16]" by code_simp
  then have "''0123456789ABCDEF'' ! n = hex_digit n" if "n < 16" for n using that by (simp add: list_all_iff)
  then show ?thesis by (auto simp: rfc_octet_def unreserved_def)
qed

lemma rfc_encode_eq: "rfc_encode = Encode"
proof -
  have "rfc_octet = (\<lambda>c. if unreserved c then [c] else [CHR ''%'', hex_digit (byte c div 16), hex_digit (byte c mod 16)])"
    by (rule ext) (rule rfc_octet_eq)
  then show ?thesis unfolding rfc_encode_def [abs_def] Encode_def [abs_def] by (rule arg_cong)
qed

text \<open>An address as it is usually given: a scheme and a host in lower case, perhaps a port other than that of the scheme, and a
path, without a query.\<close>

definition host_char :: "char \<Rightarrow> bool" where
  "host_char c \<longleftrightarrow> c \<in> set ''abcdefghijklmnopqrstuvwxyz0123456789-.''"

definition plain_url :: "string \<Rightarrow> bool" where
  "plain_url url \<longleftrightarrow> (\<exists>scheme host port path. url = scheme @ ''://'' @ host @ port @ ''/'' @ path
     \<and> scheme \<in> {''http'', ''https''} \<and> host \<noteq> [] \<and> list_all host_char host \<and> list_all (\<lambda>c. c \<notin> set ''?#'') path
     \<and> (port = [] \<or> (\<exists>digits. port = CHR '':'' # digits \<and> digits \<noteq> [] \<and> list_all rfc_digit digits
          \<and> \<not> (scheme = ''http'' \<and> digits = ''80'') \<and> \<not> (scheme = ''https'' \<and> digits = ''443''))))"

lemma host_char_plain:
  assumes "host_char c"
  shows "tolower c = c" "c \<noteq> CHR ''@''" "c \<noteq> CHR '':''" "c \<notin> set ''/?#''"
proof -
  have "list_all (\<lambda>c. tolower c = c \<and> c \<noteq> CHR ''@'' \<and> c \<noteq> CHR '':'' \<and> c \<notin> set ''/?#'') ''abcdefghijklmnopqrstuvwxyz0123456789-.''"
    by code_simp
  then have "tolower c = c \<and> c \<noteq> CHR ''@'' \<and> c \<noteq> CHR '':'' \<and> c \<notin> set ''/?#''"
    using assms unfolding host_char_def list_all_iff by blast
  then show "tolower c = c" "c \<noteq> CHR ''@''" "c \<noteq> CHR '':''" "c \<notin> set ''/?#''" by auto
qed

lemma rfc_digit_plain: "rfc_digit c \<Longrightarrow> host_char c"
  by (auto simp: rfc_digit_def host_char_def)

lemma takeWhile_until: "list_all P xs \<Longrightarrow> \<not> P y \<Longrightarrow> takeWhile P (xs @ y # ys) = xs"
  by (simp add: list_all_iff takeWhile_tail)

lemma rfc_host_plain:
  assumes "list_all host_char host" "host \<noteq> []"
  shows "rfc_host scheme host = host"
    and "list_all rfc_digit digits \<Longrightarrow> digits \<noteq> [] \<Longrightarrow> \<not> (scheme = ''http'' \<and> digits = ''80'') \<Longrightarrow> \<not> (scheme = ''https'' \<and> digits = ''443'')
      \<Longrightarrow> rfc_host scheme (host @ CHR '':'' # digits) = host @ CHR '':'' # digits"
proof -
  have low: "map tolower host = host" using assms(1) by (induction host) (auto simp: host_char_plain)
  have at: "CHR ''@'' \<notin> set host" using assms(1) host_char_plain(2) by (auto simp: list_all_iff)
  have user: "rev (takeWhile (\<lambda>c. c \<noteq> CHR ''@'') (rev x)) = x" if "CHR ''@'' \<notin> set x" for x
  proof -
    have tw: "takeWhile (\<lambda>c. c \<noteq> CHR ''@'') (rev x) = rev x" using that by (intro iffD2 [OF takeWhile_eq_all_conv]) auto
    show ?thesis unfolding tw by (rule rev_rev_ident)
  qed
  define port where "port = rev (takeWhile rfc_digit (rev host))"
  define before where "before = take (length host - length port) host"
  have "before \<noteq> [] \<Longrightarrow> last before \<in> set host" unfolding before_def by (meson in_set_takeD last_in_set)
  then have "\<not> (before \<noteq> [] \<and> last before = CHR '':'')" using assms(1) host_char_plain(3) by (auto simp: list_all_iff)
  then show "rfc_host scheme host = host"
    unfolding rfc_host_def Let_def user [OF at] port_def [symmetric] before_def [symmetric] low by (rule if_not_P)
  assume d: "list_all rfc_digit digits" "digits \<noteq> []" "\<not> (scheme = ''http'' \<and> digits = ''80'')" "\<not> (scheme = ''https'' \<and> digits = ''443'')"
  have "CHR ''@'' \<notin> set (host @ CHR '':'' # digits)"
    using at d(1) rfc_digit_plain host_char_plain(2) by (auto simp: list_all_iff)
  note u = user [OF this]
  have "\<not> rfc_digit (CHR '':'')" by (simp add: rfc_digit_def)
  then have p: "rev (takeWhile rfc_digit (rev (host @ CHR '':'' # digits))) = digits"
    using takeWhile_until [of rfc_digit "rev digits" "CHR '':''" "rev host"] d(1) by (simp add: list_all_iff)
  show "rfc_host scheme (host @ CHR '':'' # digits) = host @ CHR '':'' # digits"
    unfolding rfc_host_def Let_def u p using d(2-4) by (simp add: low)
qed

lemma plain_url_base:
  assumes "plain_url url"
  shows "rfc_base_uri url = url" "rfc_query url = []"
proof -
  from assms obtain scheme host port path where u: "url = scheme @ ''://'' @ host @ port @ ''/'' @ path"
    "scheme \<in> {''http'', ''https''}" "host \<noteq> []" "list_all host_char host" "list_all (\<lambda>c. c \<notin> set ''?#'') path"
    and port: "port = [] \<or> (\<exists>digits. port = CHR '':'' # digits \<and> digits \<noteq> [] \<and> list_all rfc_digit digits
          \<and> \<not> (scheme = ''http'' \<and> digits = ''80'') \<and> \<not> (scheme = ''https'' \<and> digits = ''443''))"
    unfolding plain_url_def by blast
  have low: "map tolower scheme = scheme"
    using u(2) by (elim insertE emptyE; simp only:) (code_simp+)
  have sch: "takeWhile (\<lambda>c. c \<noteq> CHR '':'') url = scheme"
    unfolding u(1) append.simps using u(2) by (intro takeWhile_until) (auto simp: list_all_iff)
  have rest: "drop (length scheme + 3) url = (host @ port) @ CHR ''/'' # path" unfolding u(1) by simp
  have ports: "\<forall>c \<in> set port. c \<notin> set ''/?#'' \<and> c \<noteq> CHR ''?'' \<and> c \<noteq> CHR ''#''"
    using port rfc_digit_plain host_char_plain(4) by (fastforce simp: list_all_iff)
  have hosts: "\<forall>c \<in> set host. c \<notin> set ''/?#'' \<and> c \<noteq> CHR ''?'' \<and> c \<noteq> CHR ''#''"
    using u(4) host_char_plain(4) by (fastforce simp: list_all_iff)
  have auth: "takeWhile (\<lambda>c. c \<notin> set ''/?#'') ((host @ port) @ CHR ''/'' # path) = host @ port"
    using ports hosts by (intro takeWhile_until) (auto simp: list_all_iff)
  have path: "takeWhile (\<lambda>c. c \<notin> set ''?#'') (drop (length (host @ port)) ((host @ port) @ CHR ''/'' # path)) = CHR ''/'' # path"
    using u(5) by (simp add: takeWhile_eq_all_conv list_all_iff)
  have "rfc_host scheme (host @ port) = host @ port" using port rfc_host_plain [OF u(4,3), where scheme = scheme] by auto
  moreover have "CHR ''/'' # path \<noteq> []" by simp
  ultimately show "rfc_base_uri url = url"
    unfolding rfc_base_uri_def Let_def sch low rest auth path by (simp only: if_not_P u(1) append_assoc append_Cons append_Nil if_False)
  have no: "CHR ''#'' \<notin> set url" "CHR ''?'' \<notin> set url"
  proof -
    have "CHR ''#'' \<notin> set scheme" "CHR ''?'' \<notin> set scheme" using u(2) by auto
    moreover have "CHR ''#'' \<notin> set path" "CHR ''?'' \<notin> set path" using u(5) by (auto simp: list_all_iff)
    ultimately show "CHR ''#'' \<notin> set url" "CHR ''?'' \<notin> set url" unfolding u(1) using ports hosts by auto
  qed
  have tw: "takeWhile (\<lambda>c. c \<noteq> CHR ''#'') url = url" using no(1) by (intro iffD2 [OF takeWhile_eq_all_conv]) auto
  have dw: "dropWhile (\<lambda>c. c \<noteq> CHR ''?'') url = []" using no(2) by (intro iffD2 [OF dropWhile_eq_Nil_conv]) auto
  show "rfc_query url = []" unfolding rfc_query_def tw dw by simp
qed

lemma digits_unreserved: "\<forall>c \<in> set (to_string n). unreserved c"
proof (induction n rule: to_string.induct)
  case (1 n)
  have "unreserved (digit k)" if "k < 10" for k
  proof -
    have "k \<in> {0, 1, 2, 3, 4, 5, 6, 7, 8, 9}" using that by auto
    then show ?thesis by (auto simp: unreserved_def digit_def byte_def)
  qed
  with 1 show ?case by (subst to_string.simps) auto
qed

lemma timestamp_unreserved: "\<forall>c \<in> set (to_string_int t). unreserved c"
  using digits_unreserved by (auto simp: to_string_int_def unreserved_def)

lemma sort_distinct_keys:
  assumes "distinct (map fst xs)"
  shows "sort_key fst (sort_key snd xs) = sort_key fst xs"
proof (rule sort_key_inj_key_eq)
  show "mset (sort_key snd xs) = mset (sort_key fst xs)" by simp
  show "inj_on fst (set (sort_key snd xs))" using assms by (simp add: distinct_map)
  show "sorted (map fst (sort_key fst xs))" by simp
qed

lemma rfc_normalized_oauth:
  assumes "\<forall>c \<in> set (ck_key credentials). unreserved c" "\<forall>c \<in> set nonce. unreserved c" "\<forall>c \<in> set timestamp. unreserved c"
  shows "rfc_normalized (oauth_params credentials timestamp nonce) = oauth_query (ck_key credentials) nonce timestamp"
proof -
  have e: "Encode ''oauth_consumer_key'' = ''oauth_consumer_key''" "Encode ''oauth_signature_method'' = ''oauth_signature_method''"
    "Encode ''oauth_timestamp'' = ''oauth_timestamp''" "Encode ''oauth_nonce'' = ''oauth_nonce''" "Encode ''oauth_version'' = ''oauth_version''"
    "Encode ''HMAC-SHA256'' = ''HMAC-SHA256''" "Encode ''1.0'' = ''1.0''" by code_simp+
  have le: "''oauth_consumer_key'' \<le> ''oauth_nonce''" "\<not> ''oauth_signature_method'' \<le> ''oauth_nonce''" "\<not> ''oauth_timestamp'' \<le> ''oauth_nonce''"
    "''oauth_nonce'' \<le> ''oauth_version''" "''oauth_timestamp'' \<le> ''oauth_version''" "''oauth_signature_method'' \<le> ''oauth_timestamp''"
    "''oauth_consumer_key'' \<le> ''oauth_signature_method''" by code_simp+
  let ?ps = "[(''oauth_consumer_key'', ck_key credentials), (''oauth_signature_method'', ''HMAC-SHA256''), (''oauth_timestamp'', timestamp),
      (''oauth_nonce'', nonce), (''oauth_version'', ''1.0'')]"
  have ps: "map (\<lambda>(k, v). (rfc_encode k, rfc_encode v)) (oauth_params credentials timestamp nonce) = ?ps"
    by (simp add: oauth_params_def rfc_encode_eq e assms Encode_plain)
  have s: "sort_key fst (sort_key snd ?ps) = sort_key fst ?ps" by (rule sort_distinct_keys) simp
  show ?thesis unfolding rfc_normalized_def ps s by (simp add: oauth_query_def le)
qed

text \<open>C29. For a key, a secret and an identifier of unreserved characters and an address with a scheme and a host in lower case,
  no default port, a path and no query (\<open>plain_url\<close>), the header that signs a request reads back as the parameters of the
  protocol with the signature that RFC 5849 defines for a POST request to the address, whose body is not form-encoded: the
  HMAC-SHA256, keyed with the secrets, of the base string URI and the normalized parameters, whatever the time. For other
  addresses the code signs the address as it is given (\<open>untreated_address_signature\<close>).\<close>

theorem oauth_signature_rfc5849:
  assumes "\<forall>c \<in> set (ck_key credentials). unreserved c" "\<forall>c \<in> set (ck_secret credentials). unreserved c" "\<forall>c \<in> set nonce. unreserved c"
    and "plain_url url"
  shows "let params = oauth_params credentials (to_string_int timestamp) nonce in
     mset (header_params (GenerateAuthorizationHeader E credentials url timestamp nonce)) =
     mset (params @ [(''oauth_signature'',
       Base64Encode E (ComputeHmacSha256 (rfc_key (ck_secret credentials) []) (rfc_base_string ''POST'' url params)))])"
proof -
  have "rfc_key (ck_secret credentials) [] = ck_secret credentials @ ''&''"
    by (simp add: rfc_key_def rfc_encode_eq Encode_plain [OF assms(2)])
  moreover have "rfc_base_string ''POST'' url (oauth_params credentials (to_string_int timestamp) nonce)
      = signature_base url (ck_key credentials) nonce (to_string_int timestamp)"
    by (simp add: rfc_base_string_def signature_base_def plain_url_base [OF assms(4)] rfc_normalized_oauth [OF assms(1,3) timestamp_unreserved])
      (simp add: rfc_encode_eq)
  ultimately show ?thesis
    by (simp add: Let_def header_params_read oauth_signature_def) (simp add: oauth_params_def)
qed

section \<open>Steps of a task\<close>

text \<open>Everything between two states of the client: the requests sent, their number and their kind; and the caches of tokens stay
  intact.\<close>

definition sent :: "(auth_request \<Rightarrow> bool) \<Rightarrow> nat \<Rightarrow> auth_state \<Rightarrow> auth_state \<Rightarrow> bool" where
  "sent P n s s' \<longleftrightarrow> (\<exists>rs. as_requests s' = as_requests s @ rs \<and> length rs \<le> n \<and> (\<forall>r \<in> set rs. P r)) \<and> as_looks s \<le> as_looks s'"

definition tokens_ok :: "auth_state \<Rightarrow> bool" where
  "tokens_ok s \<longleftrightarrow> lru_inv (as_client_tokens s) \<and> lru_inv (as_user_tokens s)"

definition runs :: "('s \<times> 'r) option \<Rightarrow> ('s \<Rightarrow> 'r \<Rightarrow> bool) \<Rightarrow> bool" where
  "runs m Q \<longleftrightarrow> (case m of Some (s, r) \<Rightarrow> Q s r | None \<Rightarrow> False)"

definition step :: "(auth_request \<Rightarrow> bool) \<Rightarrow> nat \<Rightarrow> auth_state \<Rightarrow> auth_state \<Rightarrow> bool" where
  "step P n s s' \<longleftrightarrow> tokens_ok s' \<and> sent P n s s'"

lemma runs_Some [simp]: "runs (Some (s, r)) Q \<longleftrightarrow> Q s r"
  by (simp add: runs_def)

lemma runs_bind: "runs m (\<lambda>s r. runs (f (s, r)) Q) \<Longrightarrow> runs (m \<bind> f) Q"
  by (cases m) (auto simp: runs_def)

lemma runs_map: "runs m (\<lambda>s r. Q (fst (f (s, r))) (snd (f (s, r)))) \<Longrightarrow> runs (map_option f m) Q"
  by (cases m) (auto simp: runs_def split: prod.splits)

lemma runs_mono: "runs m Q \<Longrightarrow> (\<And>s r. Q s r \<Longrightarrow> Q' s r) \<Longrightarrow> runs m Q'"
  by (auto simp: runs_def split: option.splits)

lemma sent_refl: "sent P 0 s s"
  by (simp add: sent_def)

lemma sent_mono: "sent P n s s' \<Longrightarrow> n \<le> m \<Longrightarrow> sent P m s s'"
  by (fastforce simp: sent_def)

lemma sent_trans: "sent P n s s' \<Longrightarrow> sent P m s' s'' \<Longrightarrow> sent P (n + m) s s''"
  unfolding sent_def
proof (elim conjE exE, intro conjI)
  fix rs rs'
  assume "as_requests s' = as_requests s @ rs" "as_requests s'' = as_requests s' @ rs'" "length rs \<le> n" "length rs' \<le> m"
    "\<forall>r \<in> set rs. P r" "\<forall>r \<in> set rs'. P r"
  then show "\<exists>rs. as_requests s'' = as_requests s @ rs \<and> length rs \<le> n + m \<and> (\<forall>r \<in> set rs. P r)"
    by (intro exI [where x = "rs @ rs'"]) auto
qed simp

lemma step_trans: "step P n s s' \<Longrightarrow> step P m s' s'' \<Longrightarrow> step P (n + m) s s''"
  using sent_trans by (auto simp: step_def)

lemma step_then: "step P 0 s s' \<Longrightarrow> step P m s' s'' \<Longrightarrow> step P m s s''"
  using step_trans [of P 0] by simp

lemma step_Suc: "step P (Suc 0) s s' \<Longrightarrow> step P m s' s'' \<Longrightarrow> step P (Suc m) s s''"
  using step_trans [of P "Suc 0" s s' m s''] by simp

lemma step_mono: "step P n s s' \<Longrightarrow> n \<le> m \<Longrightarrow> step P m s s'"
  using sent_mono by (auto simp: step_def)

lemma step_refl: "tokens_ok s \<Longrightarrow> step P 0 s s"
  by (simp add: step_def sent_refl)

lemma step_tokens: "step P n s s' \<Longrightarrow> tokens_ok s'"
  by (simp add: step_def)

lemma look_step: "tokens_ok s \<Longrightarrow> look f s = (s', x) \<Longrightarrow> step P 0 s s'"
  by (auto simp: look_def step_def sent_def tokens_ok_def)

lemma Find_lookup:
  assumes "lru_inv c"
  shows "\<exists>c' it. LruCache.Find k c = Some (c', it) \<and> lru_inv c' \<and> lru_lookup c' = lru_lookup c \<and> it_value it c' = lru_lookup c k"
proof -
  obtain l where r: "lru_rel c l" using assms by (auto simp: lru_inv_def)
  obtain c' where c': "LruCache.Find k c = Some (c', if map_of l k = None then None else Some k)" "lru_rel c' (al_promote k l)"
    using Find_rel [OF r, of k] by blast
  have eq: "map_of (al_promote k l) = map_of l"
    by (rule ext) (auto simp: al_promote_def split: option.split)
  have "it_value (if map_of l k = None then None else Some k) c' = map_of l k"
    using c'(2) eq it_value_rel [OF c'(2), of k] by (cases "map_of l k") (auto simp: it_value_def deref_def [of None])
  then show ?thesis using c' r eq by (auto simp: lru_inv_def)
qed

lemma FindInCache_step:
  assumes "tokens_ok s"
  shows "runs (FindInCache key s) (\<lambda>s' r. step P 0 s s' \<and> r = lru_lookup (as_client_tokens s) key)"
proof -
  have "lru_inv (as_client_tokens s)" using assms by (simp add: tokens_ok_def)
  from Find_lookup [OF this, of key] assms show ?thesis
    by (auto simp: FindInCache_def step_def sent_def tokens_ok_def)
qed


lemma StoreInCache_step:
  assumes "tokens_ok s"
  shows "\<exists>s'. StoreInCache key r s = Some s' \<and> step P 0 s s'
    \<and> lru_lookup (as_client_tokens s') \<subseteq>\<^sub>m (lru_lookup (as_client_tokens s))(key \<mapsto> r)"
proof -
  have "lru_inv (as_client_tokens s)" using assms by (simp add: tokens_ok_def)
  from lruc.put_ok [OF this, of key r] assms show ?thesis
    by (auto simp: StoreInCache_def lru_put_def step_def sent_def tokens_ok_def)
qed


section \<open>Retry loops\<close>

text \<open>The documents of the account service: a member that is present has its type, numbers fit 64 bits without sign, and the time
is not negative. Members may be missing or added, and a text that is no document is an answer like any other.\<close>

definition string_member :: "'d document \<Rightarrow> string \<Rightarrow> bool" where
  "string_member document name \<longleftrightarrow> (\<forall>v. map_of document name = Some v \<longrightarrow> (\<exists>x. v = JsonModels.JString x))"

definition number_member :: "'d auth_json \<Rightarrow> 'd document \<Rightarrow> string \<Rightarrow> bool" where
  "number_member J document name \<longleftrightarrow> (\<forall>v. map_of document name = Some v \<longrightarrow> to_number_uint64 J v \<noteq> None)"

fun typed_field :: "'d auth_json \<Rightarrow> 'd JsonModels.json \<Rightarrow> bool" where
  "typed_field J (JsonModels.JObject document) \<longleftrightarrow>
     contains_key document ''message'' \<longrightarrow> contains_key document ''name'' \<and> contains_key document ''errorCode''
       \<and> string_member document ''message'' \<and> string_member document ''name'' \<and> number_member J document ''errorCode''"
| "typed_field J _ \<longleftrightarrow> True"

definition typed_answer :: "'d auth_json \<Rightarrow> 'd document \<Rightarrow> bool" where
  "typed_answer J document \<longleftrightarrow>
     list_all (string_member document) [''errorId'', ''message'', ''accessToken'', ''access_token'', ''tokenType'', ''token_type'',
       ''refreshToken'', ''userId'', ''scope'', ''termsReacceptanceToken'']
     \<and> list_all (number_member J document) [''errorCode'', ''expiresIn'', ''expires_in'']
     \<and> (\<forall>elements. map_of document ''errorFields'' = Some (JsonModels.JArray elements) \<longrightarrow> list_all (typed_field J) elements)
     \<and> (\<forall>v. map_of document ''url'' = Some v \<longrightarrow>
          (\<exists>obj. v = JsonModels.JObject obj \<and> list_all (string_member obj) [''tos'', ''tosJSON'', ''pp'', ''ppJSON'']))
     \<and> (\<forall>n. map_of document ''timestamp'' = Some (JsonModels.JInt64 n) \<longrightarrow> 0 \<le> sint n)"

text \<open>The service answers with such documents, or with texts that are none, and there is a strategy for the waits.\<close>

definition auth_defined :: "'d auth_env \<Rightarrow> AuthenticationSettings \<Rightarrow> bool" where
  "auth_defined E config \<longleftrightarrow>
     (\<forall>h r document. parse_document (ae_json E) (hr_body (ae_net E h r)) = Some document \<longrightarrow> typed_answer (ae_json E) document)
     \<and> backdown_strategy (set_retry config) \<noteq> None"

definition answered_text :: "'d auth_env \<Rightarrow> string \<Rightarrow> bool" where
  "answered_text E text \<longleftrightarrow> (\<exists>h r. text = hr_body (ae_net E h r))"

lemma auth_defined_typed:
  "auth_defined E config \<Longrightarrow> answered_text E text \<Longrightarrow> parse_document (ae_json E) text = Some document \<Longrightarrow> typed_answer (ae_json E) document"
  by (auto simp: auth_defined_def answered_text_def)

lemma read_string_member: "string_member document name \<Longrightarrow> \<exists>x. read_c_str document name = Some x"
  by (cases "map_of document name") (auto simp: string_member_def read_c_str_def get_c_str_def contains_key_def)

lemma get_string_member: "string_member document name \<Longrightarrow> contains_key document name \<Longrightarrow> \<exists>x. get_c_str document name = Some x"
  by (auto simp: string_member_def get_c_str_def contains_key_def)

lemma get_number_member: "number_member J document name \<Longrightarrow> contains_key document name \<Longrightarrow> \<exists>x. get_uint64 J document name = Some x"
  by (auto simp: number_member_def get_uint64_def contains_key_def)

lemma typed_fields_read: "list_all (typed_field J) elements \<Longrightarrow> \<exists>fields. read_error_fields J elements = Some fields"
proof (induction J elements rule: read_error_fields.induct)
  case (2 J doc elements)
  then show ?case
    using get_string_member [of doc "''name''"] get_string_member [of doc "''message''"] get_number_member [of J doc "''errorCode''"]
    by (cases "contains_key doc ''message''") (fastforce, simp)
qed simp_all

lemma typed_answer_base: "typed_answer J document \<Longrightarrow> \<exists>b. BaseResult_new J status msg (Some document) = Some b"
  using read_string_member [of document "''errorId''"] get_number_member [of J document "''errorCode''"]
    get_string_member [of document "''message''"] typed_fields_read [of J]
  by (fastforce simp: typed_answer_def BaseResult_new_def Let_def split: option.split JsonModels.json.split)

lemma typed_sign_in: "typed_answer J document \<Longrightarrow> \<exists>r. SignInResultImpl_new J now status msg (Some document) = Some r"
proof -
  assume t: "typed_answer J document"
  then have m: "string_member document ''accessToken''" "string_member document ''access_token''" "string_member document ''tokenType''"
      "string_member document ''token_type''" "string_member document ''refreshToken''" "string_member document ''userId''"
      "string_member document ''scope''" "number_member J document ''expiresIn''" "number_member J document ''expires_in''"
    by (simp_all add: typed_answer_def)
  obtain b where b: "BaseResult_new J status msg (Some document) = Some b" using typed_answer_base [OF t] by blast
  show ?thesis
  proof (cases "IsDocumentValid document")
    case False
    with b show ?thesis by (simp add: SignInResultImpl_new_def Let_def)
  next
    case True
    have "\<exists>a. ParseAccessToken document = Some a"
      using True get_string_member [OF m(1)] get_string_member [OF m(2)]
      by (auto simp: IsDocumentValid_def HasAccessToken_def ParseAccessToken_def)
    moreover have "\<exists>a. ParseTokenType document = Some a"
      using True get_string_member [OF m(3)] get_string_member [OF m(4)]
      by (auto simp: IsDocumentValid_def HasTokenType_def ParseTokenType_def)
    moreover have "\<exists>a. ParseExpiresIn J document = Some a"
      using True get_number_member [OF m(8)] get_number_member [OF m(9)]
      by (auto simp: IsDocumentValid_def HasExpiresIn_def ParseExpiresIn_def)
    moreover obtain x y z where "read_c_str document ''refreshToken'' = Some x" "read_c_str document ''userId'' = Some y"
      "read_c_str document ''scope'' = Some z" using read_string_member [OF m(5)] read_string_member [OF m(6)] read_string_member [OF m(7)] by blast
    ultimately show ?thesis using b True by (auto simp: SignInResultImpl_new_def Let_def)
  qed
qed


text \<open>A request of a sign-in: its header is signed with the credentials for the address that the server sees.\<close>

definition sign_in_url :: "AuthenticationSettings \<Rightarrow> sign_in_call \<Rightarrow> string" where
  "sign_in_url config c =
     (if ck_endpoint_url (sc_credentials c) \<noteq> [] then ck_endpoint_url (sc_credentials c)
      else set_token_endpoint_url config @ sc_endpoint c)"

definition signed_request :: "'d auth_env \<Rightarrow> string \<Rightarrow> sign_in_call \<Rightarrow> auth_request \<Rightarrow> bool" where
  "signed_request E url c r \<longleftrightarrow>
     (\<exists>timestamp nonce. r = auth_post (sc_base c) (sc_endpoint c)
        (GenerateAuthorizationHeader E (sc_credentials c) url timestamp nonce) (sc_body c) (sc_content_type c))"

lemma no_document_result:
  "\<exists>r. SignInResultImpl_new J now status msg None = Some r" "\<exists>r. SignInUserResultImpl_new J now status msg None = Some r"
  by (simp_all add: SignInUserResultImpl_new_def SignInResultImpl_new_def BaseResult_new_def Let_def)


lemma sign_in_defined:
  assumes "auth_defined E config" and "answered_text E text"
  shows "\<exists>r. SignInResultImpl_new (ae_json E) now status msg (parse_document (ae_json E) text) = Some r"
  using auth_defined_typed [OF assms] typed_sign_in no_document_result(1) by (cases "parse_document (ae_json E) text") auto

lemma time_defined:
  assumes "auth_defined E config" and "answered_text E text"
  shows "\<exists>x. ParseTimeResponse (ae_json E) text = Some x"
  using auth_defined_typed [OF assms]
  by (auto simp: ParseTimeResponse_def typed_answer_def split: option.split JsonModels.json.split)


lemma ParseAuthResponse_step:
  assumes "auth_defined E config" and "answered_text E text" and "tokens_ok s"
  shows "runs (ParseAuthResponse E status text s) (\<lambda>s' r. step P 0 s s')"
proof -
  obtain s1 now where l: "look (ae_system E) s = (s1, now)" by fastforce
  obtain r where "SignInResultImpl_new (ae_json E) now status (HttpErrorToString status) (parse_document (ae_json E) text) = Some r"
    using sign_in_defined [OF assms(1,2)] by blast
  with look_step [OF assms(3) l] show ?thesis by (simp add: ParseAuthResponse_def l)
qed

lemma call_auth_api_answered: "call_auth_api E r s = (s', a) \<Longrightarrow> answered_text E (hr_body a)"
  by (auto simp: call_auth_api_def answered_text_def)


lemma TokenEndpoint_CallAuth_answered: "TokenEndpoint_CallAuth E config credentials body t s = (s', a) \<Longrightarrow> answered_text E (hr_body a)"
  by (auto simp: TokenEndpoint_CallAuth_def case_prod_beta dest: call_auth_api_answered)

lemma signed_auth_post:
  "signed_request E url c (auth_post (sc_base c) (sc_endpoint c) (GenerateAuthorizationHeader E (sc_credentials c) url t nonce)
     (sc_body c) (sc_content_type c))"
  by (auto simp: signed_request_def)

lemma call_auth_api_step:
  "tokens_ok s \<Longrightarrow> P r \<Longrightarrow> call_auth_api E r s = (s', a) \<Longrightarrow> step P (Suc 0) s s'"
  by (auto simp: call_auth_api_def step_def sent_def tokens_ok_def)


lemma runs_step_then: "step P 0 s s1 \<Longrightarrow> runs m (\<lambda>s' r. step P n s1 s') \<Longrightarrow> runs m (\<lambda>s' r. step P n s s')"
  by (erule runs_mono) (rule step_then)

lemma runs_step_Suc: "step P (Suc 0) s s1 \<Longrightarrow> runs m (\<lambda>s' r. step P n s1 s') \<Longrightarrow> runs m (\<lambda>s' r. step P (Suc n) s s')"
  by (erule runs_mono) (rule step_Suc)


lemma RetryDelay_step:
  assumes "auth_defined E config" and "tokens_ok s"
  shows "\<exists>s'. RetryDelay (set_retry config) retry s = Some s' \<and> step P 0 s s'"
  using assms by (auto simp: RetryDelay_def auth_defined_def step_def sent_def tokens_ok_def)

lemma RequestTimer_server_step: "tokens_ok s \<Longrightarrow> RequestTimer_server E t s = (s', timer) \<Longrightarrow> step P 0 s s'"
  unfolding RequestTimer_server_def by (rule look_step)

text \<open>What follows an answer in all three loops: another attempt after a wait, another with the time of the server, or the end.\<close>

lemma attempt_tail_step:
  assumes d: "auth_defined E config" and s3: "step P (Suc 0) s s3"
    and again: "\<And>retry timer s. tokens_ok s \<Longrightarrow> runs (again retry timer s) (\<lambda>s' r. step P n s s')"
    and finish: "runs finish (\<lambda>s' r. step P (Suc 0) s s')"
  shows "runs (if retry_wanted (set_retry config) a then RetryDelay (set_retry config) retry s3 \<bind> again (retry + 1) timer
      else case t of Some t \<Rightarrow> (case RequestTimer_server E t s3 of (s, timer) \<Rightarrow> again (retry + 1) timer s) | None \<Rightarrow> finish)
    (\<lambda>s' r. step P (Suc n) s s')"
proof (cases "retry_wanted (set_retry config) a")
  case True
  obtain s4 where s4: "RetryDelay (set_retry config) retry s3 = Some s4" "step P 0 s3 s4"
    using RetryDelay_step [OF d step_tokens [OF s3]] by blast
  have "step P (Suc 0) s s4" using step_trans [OF s3 s4(2)] by simp
  from runs_step_Suc [OF this again [OF step_tokens [OF s4(2)]]] True s4(1) show ?thesis by simp
next
  case False
  show ?thesis
  proof (cases t)
    case None
    have "runs finish (\<lambda>s' r. step P (Suc n) s s')" using finish by (rule runs_mono) (erule step_mono, simp)
    with None False show ?thesis by simp
  next
    case (Some t)
    obtain s4 tm where s4: "RequestTimer_server E t s3 = (s4, tm)" by fastforce
    have st: "step P 0 s3 s4" by (rule RequestTimer_server_step [OF step_tokens [OF s3] s4])
    have "step P (Suc 0) s s4" using step_trans [OF s3 st] by simp
    from runs_step_Suc [OF this again [OF step_tokens [OF st]]] Some False s4 show ?thesis by simp
  qed
qed

lemma runs_Suc_then:
  assumes "step P (Suc 0) s s2" and "runs m (\<lambda>s' r. step P 0 s2 s')"
  shows "runs m (\<lambda>s' r. step P (Suc 0) s s')"
  using runs_step_Suc [OF assms(1), of m 0] assms(2) by simp



text \<open>The requests of the token endpoint are those of a sign-in without an address in the credentials.\<close>

definition token_call :: "AuthenticationSettings \<Rightarrow> AuthenticationCredentials \<Rightarrow> string option \<Rightarrow> sign_in_call" where
  "token_call config credentials body =
     \<lparr>sc_base = set_token_endpoint_url config, sc_endpoint = kOauthEndpoint, sc_credentials = credentials, sc_body = body,
      sc_content_type = kApplicationJson\<rparr>"

lemma TokenEndpoint_CallAuth_step:
  assumes "tokens_ok s" and "TokenEndpoint_CallAuth E config credentials body t s = (s', a)"
  shows "step (signed_request E (set_token_endpoint_url config @ kOauthEndpoint) (token_call config credentials body)) (Suc 0) s s'"
proof -
  let ?c = "token_call config credentials body" and ?url = "set_token_endpoint_url config @ kOauthEndpoint"
  let ?P = "signed_request E ?url ?c"
  obtain s2 nonce where n: "look (ae_uid E) s = (s2, nonce)" by fastforce
  have s2: "step ?P 0 s s2" by (rule look_step [OF assms(1) n])
  have "call_auth_api E (auth_post (sc_base ?c) (sc_endpoint ?c) (GenerateAuthorizationHeader E (sc_credentials ?c) ?url t nonce)
      (sc_body ?c) (sc_content_type ?c)) s2 = (s', a)"
    using assms(2) by (simp add: TokenEndpoint_CallAuth_def token_call_def n)
  from call_auth_api_step [where P = ?P, OF step_tokens [OF s2] signed_auth_post this] show ?thesis by (rule step_then [OF s2])
qed

lemma token_loop_step:
  assumes d: "auth_defined E config"
  shows "tokens_ok s \<Longrightarrow>
     runs (token_loop E config credentials body n retry timer response s)
       (\<lambda>s' r. step (signed_request E (set_token_endpoint_url config @ kOauthEndpoint) (token_call config credentials body)) n s s')"
proof (induction n arbitrary: retry timer response s)
  case 0
  then show ?case by (simp add: step_refl)
next
  case (Suc n)
  let ?P = "signed_request E (set_token_endpoint_url config @ kOauthEndpoint) (token_call config credentials body)"
  obtain s1 b where l: "look (ae_cancelled E) s = (s1, b)" by fastforce
  have s1: "step ?P 0 s s1" by (rule look_step [OF Suc.prems l])
  obtain s1' t where t: "GetRequestTime E timer s1 = (s1', t)" by fastforce
  have s1': "step ?P 0 s s1'"
    using t unfolding GetRequestTime_def by (intro step_then [OF s1] look_step [OF step_tokens [OF s1]])
  obtain s2 a where call: "TokenEndpoint_CallAuth E config credentials body t s1' = (s2, a)" by fastforce
  have s2: "step ?P (Suc 0) s s2"
    using step_trans [OF s1' TokenEndpoint_CallAuth_step [OF step_tokens [OF s1'] call]] by simp
  obtain s5 b' where l5: "(if hr_status a \<noteq> kErrTimeout then look (ae_cancelled E) s2 else (s2, False)) = (s5, b')" by fastforce
  have "step ?P 0 s2 s5" using l5 look_step [OF step_tokens [OF s2]] step_refl [OF step_tokens [OF s2]] by (auto split: if_splits)
  then have failed: "step ?P (Suc n) s s5" using step_mono [OF step_trans [OF s2]] by simp
  have get: "runs (ParseAuthResponse E (hr_status a) (hr_body a) s2) (\<lambda>s' r. step ?P (Suc 0) s s')"
    by (rule runs_Suc_then [OF s2 ParseAuthResponse_step [OF d TokenEndpoint_CallAuth_answered [OF call] step_tokens [OF s2]]])
  have tail: "runs (if hr_status a = 200 then Some (s3, Inr response)
      else if retry_wanted (set_retry config) a then RetryDelay (set_retry config) retry s3 \<bind>
        token_loop E config credentials body n (retry + 1) timer response
      else case server_time_of E response a of
        Some t \<Rightarrow> (case RequestTimer_server E t s3 of (s, timer) \<Rightarrow> token_loop E config credentials body n (retry + 1) timer response s)
      | None \<Rightarrow> Some (s3, Inr response)) (\<lambda>s' r. step ?P (Suc n) s s')" if s3: "step ?P (Suc 0) s s3" for s3 response
  proof (cases "hr_status a = 200")
    case True
    with step_mono [OF s3] show ?thesis by simp
  next
    case False
    from s3 show ?thesis
      unfolding if_not_P [OF False] by (intro attempt_tail_step [OF d s3 Suc.IH]) simp_all
  qed
  have answered: "runs (ParseAuthResponse E (hr_status a) (hr_body a) s2 \<bind> (\<lambda>(s3, response).
      if hr_status a = 200 then Some (s3, Inr response)
      else if retry_wanted (set_retry config) a then RetryDelay (set_retry config) retry s3 \<bind>
        token_loop E config credentials body n (retry + 1) timer response
      else case server_time_of E response a of
        Some t \<Rightarrow> (case RequestTimer_server E t s3 of (s, timer) \<Rightarrow> token_loop E config credentials body n (retry + 1) timer response s)
      | None \<Rightarrow> Some (s3, Inr response))) (\<lambda>s' r. step ?P (Suc n) s s')"
    by (rule runs_bind, rule runs_mono [OF get], unfold prod.case) (rule tail)
  show ?case
  proof (cases b)
    case True
    moreover have "step ?P (Suc n) s s1" by (rule step_mono [OF s1]) simp
    ultimately show ?thesis by (simp add: l)
  next
    case False
    show ?thesis
      unfolding token_loop.simps l t call l5 Let_def prod.case if_not_P [OF False]
      using failed answered by (simp only: runs_Some split: if_split) simp
  qed
qed

text \<open>What a task may send: at most one question for the time, and none with the time of the system, then at most so many
  requests of a kind.\<close>

definition within_attempts ::
  "AuthenticationSettings \<Rightarrow> string \<Rightarrow> (auth_request \<Rightarrow> bool) \<Rightarrow> auth_state \<Rightarrow> auth_state \<Rightarrow> bool" where
  "within_attempts config base P s s' \<longleftrightarrow> tokens_ok s' \<and>
     (\<exists>time_requests requests.
        as_requests s' = as_requests s @ time_requests @ requests
        \<and> (time_requests = [] \<or> \<not> set_use_system_time config \<and> time_requests = [auth_get base ''/timestamp''])
        \<and> length requests \<le> nat (max_attempts (set_retry config)) \<and> (\<forall>r \<in> set requests. P r))"

lemma CreateRequestTimer_step:
  assumes d: "auth_defined E config" and ok: "tokens_ok s"
  shows "runs (CreateRequestTimer E config base s) (\<lambda>s' r. tokens_ok s' \<and>
    (\<exists>t. as_requests s' = as_requests s @ t \<and> (t = [] \<or> \<not> set_use_system_time config \<and> t = [auth_get base ''/timestamp''])))"
proof (cases "set_use_system_time config")
  case True
  then show ?thesis using ok
    by (simp add: CreateRequestTimer_def RequestTimer_system_def look_def tokens_ok_def)
next
  case False
  obtain s1 a where call: "call_auth_api E (auth_get base ''/timestamp'') s = (s1, a)" by fastforce
  have s1: "tokens_ok s1" "as_requests s1 = as_requests s @ [auth_get base ''/timestamp'']"
    using call ok by (auto simp: call_auth_api_def tokens_ok_def)
  obtain x where x: "ParseTimeResponse (ae_json E) (hr_body a) = Some x" using time_defined [OF d call_auth_api_answered [OF call]] by blast
  show ?thesis
    using False s1 x
    by (auto simp: CreateRequestTimer_def GetTimeFromServer_def call Let_def RequestTimer_system_def RequestTimer_server_def look_def
        tokens_ok_def split: sum.split)
qed

lemma guarded_within:
  assumes d: "auth_defined E config" and ok: "tokens_ok s"
    and loop: "\<And>timer s. tokens_ok s \<Longrightarrow> runs (loop timer s) (\<lambda>s' r. step P (nat (max_attempts (set_retry config))) s s')"
  shows "runs (guarded E config (\<lambda>s. CreateRequestTimer E config base s \<bind> (\<lambda>(s, timer). loop timer s)) s)
    (\<lambda>s' r. within_attempts config base P s s')"
proof -
  obtain s1 b where l: "look (ae_cancelled E) s = (s1, b)" by fastforce
  have s1: "tokens_ok s1" "as_requests s1 = as_requests s" using l ok by (auto simp: look_def tokens_ok_def)
  have stop: "within_attempts config base P s s" "within_attempts config base P s s1"
    using ok s1 by (auto simp: within_attempts_def)
  have "runs (CreateRequestTimer E config base s1 \<bind> (\<lambda>(s, timer). loop timer s)) (\<lambda>s' r. within_attempts config base P s s')"
  proof (rule runs_bind, rule runs_mono [OF CreateRequestTimer_step [OF d s1(1)]], elim conjE exE, unfold prod.case)
    fix s2 timer t
    assume s2: "tokens_ok s2" and t: "as_requests s2 = as_requests s1 @ t"
      "t = [] \<or> \<not> set_use_system_time config \<and> t = [auth_get base ''/timestamp'']"
    show "runs (loop timer s2) (\<lambda>s' r. within_attempts config base P s s')"
    proof (rule runs_mono [OF loop [OF s2]])
      fix s' r
      assume st: "step P (nat (max_attempts (set_retry config))) s2 s'"
      then obtain rs where "as_requests s' = as_requests s2 @ rs" "length rs \<le> nat (max_attempts (set_retry config))" "\<forall>r \<in> set rs. P r"
        by (auto simp: step_def sent_def)
      with t s1(2) step_tokens [OF st] show "within_attempts config base P s s'"
        unfolding within_attempts_def by (intro conjI exI [where x = t] exI [where x = rs]) auto
    qed
  qed
  with stop show ?thesis by (simp add: guarded_def l)
qed


section \<open>A wrong local clock\<close>

text \<open>An account service that checks the time of a request: within a tolerance of its own clock it grants a token, otherwise it
  refuses with the error 401204 and the time of its clock as a date.\<close>

definition auth_answer :: "int \<Rightarrow> string \<Rightarrow> (string \<times> string) list \<Rightarrow> api_response" where
  "auth_answer status body headers =
     \<lparr>hr_status = status, hr_body = body, hr_uploaded = 0, hr_downloaded = 0, ar_headers = headers, ar_chunks = []\<rparr>"

lemma auth_answer_simps [simp]:
  "hr_status (auth_answer st b h) = st" "hr_body (auth_answer st b h) = b" "ar_headers (auth_answer st b h) = h"
  by (simp_all add: auth_answer_def)

definition account_server :: "int \<Rightarrow> time_t \<Rightarrow> string \<Rightarrow> string \<Rightarrow> string \<Rightarrow> auth_request \<Rightarrow> api_response" where
  "account_server tolerance server_time date grant refusal r =
     (case Option.bind (map_of (rq_headers r) kAuthorizationHeader) (\<lambda>h. Option.bind (map_of (header_params h) ''oauth_timestamp'') stoll) of
        Some t \<Rightarrow>
          if \<bar>t - server_time\<bar> \<le> tolerance then auth_answer 200 grant []
          else auth_answer 401 refusal [(''Date'', date)]
      | None \<Rightarrow> auth_answer 400 refusal [])"

lemma account_server_answer:
  assumes "- (2 ^ 63) \<le> t" "t \<le> time_max"
  shows "account_server tolerance server_time date grant refusal
      (auth_post base endpoint (GenerateAuthorizationHeader E credentials url t nonce) body content_type) =
     (if \<bar>t - server_time\<bar> \<le> tolerance then auth_answer 200 grant [] else auth_answer 401 refusal [(''Date'', date)])"
  using stoll_to_string_int [OF assms] by (simp add: account_server_def auth_post_def header_params_read)

text \<open>The surroundings of such a sign-in: the service, no cancellation, clocks in range, and an exchange that takes less time than
  the tolerance.\<close>

definition skewed :: "'d auth_env \<Rightarrow> AuthenticationSettings \<Rightarrow> int \<Rightarrow> time_t \<Rightarrow> string \<Rightarrow> u64 \<Rightarrow> bool" where
  "skewed E config tolerance server_time token expires_in \<longleftrightarrow>
     set_network config \<and> set_use_system_time config \<and> retry_condition (set_retry config) = DefaultRetryCondition
     \<and> (\<forall>n. \<not> ae_cancelled E n) \<and> (\<forall>n. 0 \<le> ae_system E n \<and> ae_system E n < 2 ^ 61) \<and> 0 \<le> server_time \<and> server_time < 2 ^ 61
     \<and> 0 \<le> sint expires_in \<and> 0 \<le> tolerance \<and> tolerance < 2 ^ 61 \<and> (\<forall>m n. ae_steady E m - ae_steady E n \<le> seconds tolerance)
     \<and> (\<exists>date grant refusal.
          (\<forall>h r. ae_net E h r = account_server tolerance server_time date grant refusal r)
          \<and> ParseRfc1123GmtNoExceptions (ae_calendar E) date = server_time
          \<and> aj_parse (ae_json E) grant = Some (JsonModels.JObject [(''accessToken'', JsonModels.JString token),
               (''tokenType'', JsonModels.JString ''bearer''), (''expiresIn'', JsonModels.JInt64 expires_in)])
          \<and> aj_parse (ae_json E) refusal = Some (JsonModels.JObject [(''errorCode'', JsonModels.JInt64 401204)]))"

lemma granted_result:
  assumes "aj_parse J grant = Some (JsonModels.JObject [(''accessToken'', JsonModels.JString token),
      (''tokenType'', JsonModels.JString ''bearer''), (''expiresIn'', JsonModels.JInt64 expires_in)])" and "0 \<le> sint expires_in"
  shows "\<exists>r. SignInResultImpl_new J now 200 msg (parse_document J grant) = Some r \<and> br_status r = 200
    \<and> si_access_token r = c_string token \<and> si_expires_in r = sint expires_in \<and> \<not> HasWrongTimestamp r"
  by (simp add: parse_document_def assms(1) SignInResultImpl_new_def BaseResult_new_def HasError_def IsDocumentValid_def HasAccessToken_def
      HasTokenType_def HasExpiresIn_def contains_key_def sign_in_of_def ParseAccessToken_def ParseTokenType_def ParseExpiresIn_def
      get_c_str_def get_uint64_def to_number_uint64_def assms(2) read_c_str_def HasWrongTimestamp_def)

lemma refused_result:
  assumes "aj_parse J refusal = Some (JsonModels.JObject [(''errorCode'', JsonModels.JInt64 401204)])"
  shows "\<exists>r. SignInResultImpl_new J now 401 msg (parse_document J refusal) = Some r \<and> HasWrongTimestamp r"
  by (simp add: parse_document_def assms SignInResultImpl_new_def BaseResult_new_def HasError_def contains_key_def sign_in_of_def
      get_uint64_def to_number_uint64_def read_c_str_def HasWrongTimestamp_def)

lemma no_default_retry: "\<not> DefaultRetryCondition (HttpResponse.truncate (auth_answer 200 b h))"
  "\<not> DefaultRetryCondition (HttpResponse.truncate (auth_answer 401 b h))"
  by (simp_all add: DefaultRetryCondition_def HttpResponse.truncate_def auth_answer_def error_codes)

lemma date_header: "GetTimestampFromHeaders B [(''Date'', date)] =
   (let t = ParseRfc1123GmtNoExceptions B date in if t \<noteq> - 1 then Some t else None)"
proof -
  have "NetworkUtils_CaseInsensitiveCompare ''Date'' ''date'' 0" by code_simp
  then show ?thesis by (simp add: GetTimestampFromHeaders_def)
qed

text \<open>One attempt whose time is known.\<close>

lemma attempt_at:
  assumes k: "skewed E config tolerance server_time token expires_in" and ok: "tokens_ok s"
    and t: "t = rt_time timer + (ae_steady E (as_looks s + 1) - rt_timer_start timer) div 1000000000" "- (2 ^ 63) \<le> t" "t \<le> time_max"
  shows "\<bar>t - server_time\<bar> \<le> tolerance \<Longrightarrow>
      \<exists>s' r. sign_in_loop E config c (Suc n) retry timer response s = Some (s', Inr r) \<and> br_status r = 200
        \<and> si_access_token r = c_string token \<and> length (as_requests s') = length (as_requests s) + 1"
    and "\<not> \<bar>t - server_time\<bar> \<le> tolerance \<Longrightarrow>
      \<exists>s' m response'. sign_in_loop E config c (Suc n) retry timer response s
          = sign_in_loop E config c n (retry + 1) \<lparr>rt_timer_start = ae_steady E m, rt_time = server_time\<rparr> response' s'
        \<and> tokens_ok s' \<and> length (as_requests s') = length (as_requests s) + 1"
proof -
  obtain date grant refusal where net: "\<And>h r. ae_net E h r = account_server tolerance server_time date grant refusal r"
    and date: "ParseRfc1123GmtNoExceptions (ae_calendar E) date = server_time"
    and grant: "aj_parse (ae_json E) grant = Some (JsonModels.JObject [(''accessToken'', JsonModels.JString token),
               (''tokenType'', JsonModels.JString ''bearer''), (''expiresIn'', JsonModels.JInt64 expires_in)])"
    and refusal: "aj_parse (ae_json E) refusal = Some (JsonModels.JObject [(''errorCode'', JsonModels.JInt64 401204)])"
    using k unfolding skewed_def by (elim conjE exE) metis
  have nc: "\<not> ae_cancelled E n" and cond: "retry_condition (set_retry config) = DefaultRetryCondition" and "0 \<le> server_time" and lifetime: "0 \<le> sint expires_in" for n
    using k by (auto simp: skewed_def)
  then have srv: "server_time \<noteq> - 1" by simp
  define s2 where "s2 = s\<lparr>as_looks := as_looks s + 3,
    as_requests := as_requests s @ [auth_post (sc_base c) (sc_endpoint c)
      (GenerateAuthorizationHeader E (sc_credentials c) (sign_in_url config c) t (ae_uid E (as_looks s + 2))) (sc_body c) (sc_content_type c)]\<rparr>"
  have l: "look (ae_cancelled E) s = (s\<lparr>as_looks := as_looks s + 1\<rparr>, False)" by (simp add: look_def nc)
  have time: "GetRequestTime E timer (s\<lparr>as_looks := as_looks s + 1\<rparr>) = (s\<lparr>as_looks := as_looks s + 2\<rparr>, t)"
    by (simp add: GetRequestTime_def look_def t(1))
  have call: "call_sign_in E config c timer (s\<lparr>as_looks := as_looks s + 1\<rparr>)
      = (s2, if \<bar>t - server_time\<bar> \<le> tolerance then auth_answer 200 grant [] else auth_answer 401 refusal [(''Date'', date)])"
    unfolding call_sign_in_def time prod.case
    by (simp add: CallAuth_def look_def call_auth_api_def net sign_in_url_def s2_def Let_def account_server_answer [OF t(2,3)]
        eval_nat_numeral)
  have s2: "tokens_ok s2" "length (as_requests s2) = length (as_requests s) + 1" using ok by (auto simp: s2_def tokens_ok_def)
  define s3 where "s3 = s2\<lparr>as_looks := as_looks s2 + 1\<rparr>"
  have s3: "tokens_ok s3" "length (as_requests s3) = length (as_requests s) + 1" using s2 by (auto simp: s3_def tokens_ok_def)
  {
    assume "\<bar>t - server_time\<bar> \<le> tolerance"
    with call have call: "call_sign_in E config c timer (s\<lparr>as_looks := as_looks s + 1\<rparr>) = (s2, auth_answer 200 grant [])" by simp
    obtain r where r: "SignInResultImpl_new (ae_json E) (ae_system E (as_looks s2)) 200 (HttpErrorToString 200) (parse_document (ae_json E) grant) = Some r"
      "br_status r = 200" "si_access_token r = c_string token" "\<not> HasWrongTimestamp r"
      using granted_result [OF grant lifetime] by blast
    have get: "ParseAuthResponse E 200 grant s2 = Some (s3, r)" by (simp add: ParseAuthResponse_def look_def r(1) s3_def)
    obtain s4 where s4: "StoreInCache (ck_key (sc_credentials c)) r s3 = Some s4" "step (\<lambda>r. False) 0 s3 s4"
      using StoreInCache_step [OF s3(1)] by blast
    have "sign_in_loop E config c (Suc n) retry timer response s = Some (s4, Inr r)"
      unfolding sign_in_loop.simps l call Let_def prod.case
      by (simp add: get retry_wanted_def cond no_default_retry server_time_of_def result_of_def r(4) s4(1))
    moreover have "length (as_requests s4) = length (as_requests s) + 1" using s4(2) s3(2) by (auto simp: step_def sent_def)
    ultimately show "\<exists>s' r. sign_in_loop E config c (Suc n) retry timer response s = Some (s', Inr r) \<and> br_status r = 200
        \<and> si_access_token r = c_string token \<and> length (as_requests s') = length (as_requests s) + 1"
      using r by blast
  next
    assume "\<not> \<bar>t - server_time\<bar> \<le> tolerance"
    with call have call: "call_sign_in E config c timer (s\<lparr>as_looks := as_looks s + 1\<rparr>) = (s2, auth_answer 401 refusal [(''Date'', date)])"
      by simp
    obtain r where r: "SignInResultImpl_new (ae_json E) (ae_system E (as_looks s2)) 401 (HttpErrorToString 401) (parse_document (ae_json E) refusal) = Some r"
      "HasWrongTimestamp r"
      using refused_result [OF refusal] by blast
    have get: "ParseAuthResponse E 401 refusal s2 = Some (s3, r)" by (simp add: ParseAuthResponse_def look_def r(1) s3_def)
    have time: "server_time_of E r (auth_answer 401 refusal [(''Date'', date)]) = Some server_time"
      using srv by (simp add: server_time_of_def r(2) date_header date)
    have "sign_in_loop E config c (Suc n) retry timer response s
        = sign_in_loop E config c n (retry + 1) \<lparr>rt_timer_start = ae_steady E (as_looks s3), rt_time = server_time\<rparr> (Inr r)
            (s3\<lparr>as_looks := as_looks s3 + 1\<rparr>)"
      unfolding sign_in_loop.simps l call Let_def prod.case
      by (simp add: get retry_wanted_def cond no_default_retry result_of_def time RequestTimer_server_def look_def)
    moreover have "tokens_ok (s3\<lparr>as_looks := as_looks s3 + 1\<rparr>)" using s3(1) by (simp add: tokens_ok_def)
    ultimately show "\<exists>s' m response'. sign_in_loop E config c (Suc n) retry timer response s
          = sign_in_loop E config c n (retry + 1) \<lparr>rt_timer_start = ae_steady E m, rt_time = server_time\<rparr> response' s'
        \<and> tokens_ok s' \<and> length (as_requests s') = length (as_requests s) + 1"
      using s3(2) by (intro exI [where x = "s3\<lparr>as_looks := as_looks s3 + 1\<rparr>"] exI [where x = "as_looks s3"] exI [where x = "Inr r"]) simp
  }
qed

lemma skewed_elapsed:
  assumes "skewed E config tolerance server_time token expires_in"
  shows "\<bar>(ae_steady E m - ae_steady E n) div 1000000000\<bar> \<le> tolerance"
proof -
  have "ae_steady E m - ae_steady E n \<le> tolerance * 1000000000" "ae_steady E n - ae_steady E m \<le> tolerance * 1000000000"
    using assms by (auto simp: skewed_def seconds_def)
  then show ?thesis by linarith
qed

text \<open>C26. With two attempts a sign-in succeeds against a service that checks the time, however wrong the local clock is: the
  first refusal brings the time of the service, with which the second request is signed. It takes at most two requests. The
  client takes the time of the system and the default condition for retries, is not cancelled, and the exchange takes less
  time than the tolerance of the service; the token is granted with a lifetime in seconds, a number that the JSON library
  gives as a signed one of 64 bits (\<open>skewed\<close>).\<close>

theorem clock_skew_recovered:
  assumes k: "skewed E config tolerance server_time token expires_in" and ok: "tokens_ok s"
    and attempts: "2 \<le> max_attempts (set_retry config)"
  shows "\<exists>s' r. SignInClient E config credentials properties s = Some (s', Inr r) \<and> br_status r = 200
    \<and> si_access_token r = c_string token \<and> length (as_requests s') \<le> length (as_requests s) + 2"
proof -
  let ?c = "sign_in_call_of E config credentials properties"
  define s1 where "s1 = s\<lparr>as_looks := as_looks s + 2\<rparr>"
  define timer where "timer = \<lparr>rt_timer_start = ae_steady E (as_looks s + 1), rt_time = ae_system E (as_looks s + 1)\<rparr>"
  have s1: "tokens_ok s1" "as_requests s1 = as_requests s" using ok by (simp_all add: s1_def tokens_ok_def)
  have n: "nat (max_attempts (set_retry config)) = Suc (Suc (nat (max_attempts (set_retry config) - 2)))"
    using attempts by linarith
  have start: "SignInClient E config credentials properties s
      = sign_in_loop E config ?c (nat (max_attempts (set_retry config))) 0 timer (Inl (ApiError_code Unknown)) s1"
    using k by (simp add: SignInClient_def guarded_def look_def CreateRequestTimer_def RequestTimer_system_def Let_def skewed_def
        s1_def timer_def eval_nat_numeral)
  have bounds: "0 \<le> server_time" "server_time < 2 ^ 61" "0 \<le> tolerance" "tolerance < 2 ^ 61" "0 \<le> ae_system E i" "ae_system E i < 2 ^ 61" for i
    using k by (auto simp: skewed_def)
  have range: "- (2 ^ 63) \<le> x + (ae_steady E i - ae_steady E j) div 1000000000" "x + (ae_steady E i - ae_steady E j) div 1000000000 \<le> time_max"
    if "0 \<le> x" "x < 2 ^ 61" for x i j
    using skewed_elapsed [OF k, of i j] that bounds(4) by (auto simp: time_max_def)
  let ?t = "rt_time timer + (ae_steady E (as_looks s1 + 1) - rt_timer_start timer) div 1000000000"
  have t: "- (2 ^ 63) \<le> ?t" "?t \<le> time_max"
    unfolding timer_def RequestTimer.simps by (rule range; use bounds in simp)+
  note first = attempt_at [OF k s1(1) refl t, where c = ?c and retry = 0 and response = "Inl (ApiError_code Unknown)"
      and n = "Suc (nat (max_attempts (set_retry config) - 2))"]
  show ?thesis
  proof (cases "\<bar>?t - server_time\<bar> \<le> tolerance")
    case True
    from first(1) [OF this] s1(2) show ?thesis unfolding start n by auto
  next
    case False
    from first(2) [OF this] obtain s2 m response where again:
      "sign_in_loop E config ?c (nat (max_attempts (set_retry config))) 0 timer (Inl (ApiError_code Unknown)) s1
        = sign_in_loop E config ?c (Suc (nat (max_attempts (set_retry config) - 2))) 1
            \<lparr>rt_timer_start = ae_steady E m, rt_time = server_time\<rparr> response s2"
      "tokens_ok s2" "length (as_requests s2) = length (as_requests s) + 1"
      unfolding n using s1(2) by auto
    let ?timer = "\<lparr>rt_timer_start = ae_steady E m, rt_time = server_time\<rparr>"
    let ?u = "rt_time ?timer + (ae_steady E (as_looks s2 + 1) - rt_timer_start ?timer) div 1000000000"
    have u: "- (2 ^ 63) \<le> ?u" "?u \<le> time_max" unfolding RequestTimer.simps by (rule range; use bounds in simp)+
    have "\<bar>?u - server_time\<bar> \<le> tolerance" using skewed_elapsed [OF k] by simp
    from attempt_at(1) [OF k again(2) refl u this, where c = ?c] again show ?thesis unfolding start again(1) by fastforce
  qed
qed

definition skewed_env :: "unit auth_env" where
  "skewed_env =
     \<lparr>ae_json = \<lparr>aj_parse = (\<lambda>text. if text = ''granted''
          then Some (JsonModels.JObject [(''accessToken'', JsonModels.JString ''secret''), (''tokenType'', JsonModels.JString ''bearer''),
            (''expiresIn'', JsonModels.JInt64 3599)])
          else Some (JsonModels.JObject [(''errorCode'', JsonModels.JInt64 401204)])), aj_text = (\<lambda>_. []), aj_uint64 = (\<lambda>_. None)\<rparr>,
      ae_net = (\<lambda>_. account_server 300 3600 ''Thu, 01 Jan 1970 01:00:00 GMT'' ''granted'' ''refused''),
      ae_system = (\<lambda>_. 0), ae_steady = (\<lambda>_. 0), ae_cancelled = (\<lambda>_. False), ae_uid = (\<lambda>_. ''id''), ae_base64 = (\<lambda>_. ''sig''),
      ae_calendar = gregorian_calendar\<rparr>"

definition plain_settings :: "int \<Rightarrow> AuthenticationSettings" where
  "plain_settings attempts =
     \<lparr>set_network = True, set_token_endpoint_url = ''https://h'', set_token_cache_limit = 100, set_use_system_time = True,
      set_retry = \<lparr>max_attempts = attempts, retry_timeout = 60, initial_backdown_period = 200,
        backdown_strategy = Some (\<lambda>_ _. 1), retry_condition = DefaultRetryCondition\<rparr>\<rparr>"

lemma tokens_ok_new: "tokens_ok (AuthenticationClientImpl_new config)"
  by (auto simp: tokens_ok_def AuthenticationClientImpl_new_def lru_inv_def intro: exI [where x = "[]"])

lemma skewed_skewed_env: "skewed skewed_env (plain_settings 3) 300 3600 ''secret'' 3599"
proof -
  have "ParseRfc1123GmtNoExceptions gregorian_calendar ''Thu, 01 Jan 1970 01:00:00 GMT'' = 3600" by code_simp
  then show ?thesis
    unfolding skewed_def
    by (intro conjI exI [where x = "''Thu, 01 Jan 1970 01:00:00 GMT''"] exI [where x = "''granted''"] exI [where x = "''refused''"])
      (simp_all add: skewed_env_def plain_settings_def seconds_def)
qed

lemma clock_skew_recovered_witness:
  "\<exists>s' r. SignInClient skewed_env (plain_settings 3) \<lparr>ck_key = ''k'', ck_secret = ''s'', ck_endpoint_url = []\<rparr>
      \<lparr>sp_scope = None, sp_device_id = None, sp_expires_in = 0, sp_custom_body = None\<rparr> (AuthenticationClientImpl_new (plain_settings 3))
      = Some (s', Inr r) \<and> br_status r = 200 \<and> si_access_token r = c_string ''secret''
    \<and> length (as_requests s') \<le> length (as_requests (AuthenticationClientImpl_new (plain_settings 3))) + 2"
  by (rule clock_skew_recovered [OF skewed_skewed_env tokens_ok_new]) (simp add: plain_settings_def)

section \<open>Tokens that refresh themselves\<close>

text \<open>A number of calls of a provider, with the look at the clock that ends each call and its response.\<close>

fun provider_calls ::
  "'d auth_env \<Rightarrow> token_provider \<Rightarrow> nat \<Rightarrow> auth_state \<times> refreshing_token
    \<Rightarrow> ((auth_state \<times> refreshing_token) \<times> (nat \<times> (ApiError + TokenResult)) list) option" where
  "provider_calls E p 0 st = Some (st, [])"
| "provider_calls E p (Suc n) st = do {
     (st, response) \<leftarrow> GetResponse E p st;
     (st', responses) \<leftarrow> provider_calls E p n st;
     Some (st', (as_looks (fst st) - 1, response) # responses) }"

text \<open>The time of the next refresh is in the past or leaves the minimum validity.\<close>

definition refresh_inv :: "'d auth_env \<Rightarrow> (TokenResult \<Rightarrow> int) \<Rightarrow> int \<Rightarrow> auth_state \<times> refreshing_token \<Rightarrow> bool" where
  "refresh_inv E valid_until minimum_validity st \<longleftrightarrow> tokens_ok (fst st) \<and>
     (\<forall>token. at_current_token (snd st) = Inr token \<longrightarrow>
        (\<exists>m < as_looks (fst st). at_refresh_time (snd st) \<le> ae_steady E m)
        \<or> at_refresh_time (snd st) \<le> valid_until token - seconds minimum_validity)"

lemma RequestToken_context_runs:
  assumes d: "auth_defined E (ConvertSettings endpoint)" and ok: "tokens_ok s"
  shows "runs (RequestToken_context E endpoint expires_in s) (\<lambda>s' r. tokens_ok s')"
proof -
  have "auth_defined E (ConvertSettings endpoint) \<Longrightarrow> tokens_ok s \<Longrightarrow>
      runs (TokenEndpoint_SignInClient E endpoint expires_in s) (\<lambda>s' r. tokens_ok s')"
    unfolding TokenEndpoint_SignInClient_def Let_def
    by (rule runs_mono, rule guarded_within, assumption, assumption, rule token_loop_step, assumption, assumption)
      (simp add: within_attempts_def)
  from this [OF d ok] show ?thesis
    unfolding RequestToken_context_def
    by (intro runs_map) (erule runs_mono, auto simp: token_of_def look_def tokens_ok_def split: sum.split)
qed

lemma GetResponse_step:
  assumes d: "auth_defined E (ConvertSettings (tp_settings p))" and mono: "\<And>m n. m \<le> n \<Longrightarrow> ae_steady E m \<le> ae_steady E n"
    and grants: "\<And>s s' token. RequestToken_context E (tp_settings p) 0 s = Some (s', Inr token) \<Longrightarrow>
      ae_steady E (as_looks s') + seconds (tr_expires_in token) \<le> valid_until token"
    and inv: "refresh_inv E valid_until (tp_minimum_validity p) st"
  shows "runs (GetResponse E p st) (\<lambda>st' r. refresh_inv E valid_until (tp_minimum_validity p) st'
    \<and> (\<forall>token. r = Inr token \<longrightarrow> ae_steady E (as_looks (fst st') - 1)
         + min (seconds (tp_minimum_validity p)) (seconds (tr_expires_in token)) \<le> valid_until token))"
proof -
  let ?mv = "tp_minimum_validity p"
  obtain s t where st: "st = (s, t)" by fastforce
  define s1 where "s1 = s\<lparr>as_looks := as_looks s + 1\<rparr>"
  have l: "look (ae_steady E) s = (s1, ae_steady E (as_looks s))" by (simp add: look_def s1_def)
  have s1: "tokens_ok s1" using inv by (simp add: refresh_inv_def st s1_def tokens_ok_def)
  show ?thesis
  proof (cases "ShouldRefreshNow (ae_steady E (as_looks s)) ?mv t")
    case False
    have "\<not> (\<exists>m < as_looks s. at_refresh_time t \<le> ae_steady E m)"
    proof
      assume "\<exists>m < as_looks s. at_refresh_time t \<le> ae_steady E m"
      then obtain m where "m < as_looks s" "at_refresh_time t \<le> ae_steady E m" by blast
      with mono [of m "as_looks s"] False show False by (simp add: ShouldRefreshNow_def)
    qed
    then have "at_refresh_time t \<le> valid_until token - seconds ?mv" if "at_current_token t = Inr token" for token
      using inv that by (auto simp: refresh_inv_def st)
    with False s1 show ?thesis
      by (force simp: GetResponse_def GetToken_def st l refresh_inv_def ShouldRefreshNow_def s1_def)
  next
    case True
    obtain s2 r where r: "RequestToken_context E (tp_settings p) 0 s1 = Some (s2, r)" "tokens_ok s2"
      using RequestToken_context_runs [OF d s1, of 0] by (auto simp: runs_def split: option.splits)
    define t' where "t' = \<lparr>at_current_token = r, at_refresh_time = ComputeRefreshTime (ae_steady E (as_looks s2)) r ?mv\<rparr>"
    have res: "GetResponse E p st = Some ((s2\<lparr>as_looks := as_looks s2 + 1\<rparr>, t'), r)"
      unfolding GetResponse_def GetToken_def st Let_def prod.case l
      by (simp add: True TryRefreshCurrentToken_def r(1) look_def t'_def)
    have v: "ae_steady E (as_looks s2) + seconds (tr_expires_in token) \<le> valid_until token" if "r = Inr token" for token
      using grants r(1) that by blast
    have "refresh_inv E valid_until ?mv (s2\<lparr>as_looks := as_looks s2 + 1\<rparr>, t')"
      unfolding refresh_inv_def
    proof (intro conjI allI impI)
      show "tokens_ok (fst (s2\<lparr>as_looks := as_looks s2 + 1\<rparr>, t'))" using r(2) by (simp add: tokens_ok_def)
      fix token
      assume "at_current_token (snd (s2\<lparr>as_looks := as_looks s2 + 1\<rparr>, t')) = Inr token"
      then have "r = Inr token" by (simp add: t'_def)
      with v show "(\<exists>m < as_looks (fst (s2\<lparr>as_looks := as_looks s2 + 1\<rparr>, t')). at_refresh_time (snd (s2\<lparr>as_looks := as_looks s2 + 1\<rparr>, t')) \<le> ae_steady E m)
          \<or> at_refresh_time (snd (s2\<lparr>as_looks := as_looks s2 + 1\<rparr>, t')) \<le> valid_until token - seconds ?mv"
        by (auto simp: t'_def ComputeRefreshTime_def Let_def)
    qed
    with v show ?thesis by (force simp: res)
  qed
qed

lemma provider_calls_valid:
  assumes d: "auth_defined E (ConvertSettings (tp_settings p))" and mono: "\<And>m n. m \<le> n \<Longrightarrow> ae_steady E m \<le> ae_steady E n"
    and grants: "\<And>s s' token. RequestToken_context E (tp_settings p) 0 s = Some (s', Inr token) \<Longrightarrow>
      ae_steady E (as_looks s') + seconds (tr_expires_in token) \<le> valid_until token"
  shows "refresh_inv E valid_until (tp_minimum_validity p) st \<Longrightarrow>
    runs (provider_calls E p n st) (\<lambda>st' responses. \<forall>(i, r) \<in> set responses. \<forall>token. r = Inr token \<longrightarrow>
      ae_steady E i + min (seconds (tp_minimum_validity p)) (seconds (tr_expires_in token)) \<le> valid_until token)"
proof (induction n arbitrary: st)
  case (Suc n)
  have got: "runs (GetResponse E p st) (\<lambda>st' r. refresh_inv E valid_until (tp_minimum_validity p) st'
    \<and> (\<forall>token. r = Inr token \<longrightarrow> ae_steady E (as_looks (fst st') - 1)
         + min (seconds (tp_minimum_validity p)) (seconds (tr_expires_in token)) \<le> valid_until token))"
    by (rule GetResponse_step [OF d _ _ Suc.prems]) (erule mono, erule grants)
  show ?case
    unfolding provider_calls.simps
  proof (rule runs_bind, rule runs_mono [OF got], elim conjE, unfold prod.case)
    fix st1 :: "auth_state \<times> refreshing_token" and r :: "ApiError + TokenResult"
    assume inv: "refresh_inv E valid_until (tp_minimum_validity p) st1"
      and r: "\<forall>token. r = Inr token \<longrightarrow> ae_steady E (as_looks (fst st1) - 1)
         + min (seconds (tp_minimum_validity p)) (seconds (tr_expires_in token)) \<le> valid_until token"
    show "runs (provider_calls E p n st1 \<bind> (\<lambda>(st', responses). Some (st', (as_looks (fst st1) - 1, r) # responses)))
      (\<lambda>st' responses. \<forall>(i, r) \<in> set responses. \<forall>token. r = Inr token \<longrightarrow>
        ae_steady E i + min (seconds (tp_minimum_validity p)) (seconds (tr_expires_in token)) \<le> valid_until token)"
      by (rule runs_bind, rule runs_mono [OF Suc.IH [OF inv]]) (use r in auto)
  qed
qed simp

text \<open>C27. However many calls a provider answers, and however much time passes between them on a clock that does not go back: a
  token that it returns, if every token is granted for its lifetime from when it was received, is still valid for the minimum
  validity of the provider, or for the whole of a shorter lifetime. The members of the documents that the service answers with
  have their types (\<open>auth_defined\<close>); its answers may be any other texts, statuses and errors.\<close>

theorem provided_token_is_valid:
  assumes "auth_defined E (ConvertSettings (tp_settings p))" and "\<And>m n. m \<le> n \<Longrightarrow> ae_steady E m \<le> ae_steady E n"
    and "\<And>s s' token. RequestToken_context E (tp_settings p) 0 s = Some (s', Inr token) \<Longrightarrow>
      ae_steady E (as_looks s') + seconds (tr_expires_in token) \<le> valid_until token"
    and "tokens_ok s"
  shows "runs (provider_calls E p n (s, AutoRefreshingToken_new))
    (\<lambda>st' responses. \<forall>(i, r) \<in> set responses. \<forall>token. r = Inr token \<longrightarrow>
      ae_steady E i + min (seconds (tp_minimum_validity p)) (seconds (tr_expires_in token)) \<le> valid_until token)"
  by (rule provider_calls_valid [OF assms(1)], erule assms(2), erule assms(3)) (simp add: refresh_inv_def AutoRefreshingToken_new_def assms(4))

section \<open>Witnesses\<close>

definition sample_credentials :: AuthenticationCredentials where
  "sample_credentials = \<lparr>ck_key = ''k'', ck_secret = ''s'', ck_endpoint_url = []\<rparr>"

definition sample_endpoint :: Settings where
  "sample_endpoint =
     \<lparr>ts_credentials = sample_credentials, ts_network = True, ts_token_endpoint_url = ''https://h/oauth2/token'', ts_use_system_time = True,
      ts_retry = set_retry (plain_settings 3), ts_scope = None\<rparr>"

lemma oauth_signature_rfc5849_witness:
  "let params = oauth_params sample_credentials (to_string_int 77) ''n-1'' in
     mset (header_params (GenerateAuthorizationHeader skewed_env sample_credentials ''https://h/oauth2/token'' 77 ''n-1'')) =
     mset (params @ [(''oauth_signature'', Base64Encode skewed_env (ComputeHmacSha256 (rfc_key (ck_secret sample_credentials) [])
       (rfc_base_string ''POST'' ''https://h/oauth2/token'' params)))])"
proof (rule oauth_signature_rfc5849)
  show "plain_url ''https://h/oauth2/token''"
    unfolding plain_url_def
    by (intro exI [of _ "''https''"] exI [of _ "''h''"] exI [of _ "[]"] exI [of _ "''oauth2/token''"]) (simp add: host_char_def)
qed (simp_all add: sample_credentials_def unreserved_def byte_def)

lemma parsed_skewed: "parse_document (ae_json skewed_env) t =
   Some (if t = ''granted''
     then [(''accessToken'', JsonModels.JString ''secret''), (''tokenType'', JsonModels.JString ''bearer''), (''expiresIn'', JsonModels.JInt64 3599)]
     else [(''errorCode'', JsonModels.JInt64 401204)])"
  by (simp add: parse_document_def skewed_env_def)

lemmas result_defs = SignInUserResultImpl_new_def SignInResultImpl_new_def BaseResult_new_def HasError_def IsDocumentValid_def
  HasAccessToken_def HasTokenType_def HasExpiresIn_def contains_key_def sign_in_of_def ParseAccessToken_def ParseTokenType_def
  ParseExpiresIn_def get_c_str_def get_uint64_def to_number_uint64_def read_c_str_def

lemma auth_defined_skewed_env: "backdown_strategy (set_retry config) \<noteq> None \<Longrightarrow> auth_defined skewed_env config"
  unfolding auth_defined_def parsed_skewed
  by (auto simp: typed_answer_def string_member_def number_member_def to_number_uint64_def split: if_splits)

lemma auth_defined_sample: "auth_defined skewed_env (plain_settings 3)" "auth_defined skewed_env (ConvertSettings sample_endpoint)"
  by (rule auth_defined_skewed_env; simp add: plain_settings_def sample_endpoint_def ConvertSettings_def)+


lemma provided_token_is_valid_witness:
  "runs (provider_calls skewed_env \<lparr>tp_settings = sample_endpoint, tp_minimum_validity = 300\<rparr> 2
      (AuthenticationClientImpl_new (plain_settings 3), AutoRefreshingToken_new))
    (\<lambda>st' responses. list_all (\<lambda>(i, r). case r of Inl e \<Rightarrow> True | Inr token \<Rightarrow>
      ae_steady skewed_env i + min (seconds 300) (seconds (tr_expires_in token)) \<le> seconds (tr_expires_in token)) responses)"
proof -
  have "runs (provider_calls skewed_env \<lparr>tp_settings = sample_endpoint, tp_minimum_validity = 300\<rparr> 2
      (AuthenticationClientImpl_new (plain_settings 3), AutoRefreshingToken_new))
    (\<lambda>st' responses. \<forall>(i, r) \<in> set responses. \<forall>token. r = Inr token \<longrightarrow>
      ae_steady skewed_env i + min (seconds (tp_minimum_validity \<lparr>tp_settings = sample_endpoint, tp_minimum_validity = 300\<rparr>))
        (seconds (tr_expires_in token)) \<le> seconds (tr_expires_in token))"
    by (rule provided_token_is_valid [where valid_until = "\<lambda>token. seconds (tr_expires_in token)"])
      (simp_all add: auth_defined_sample tokens_ok_new, simp_all add: skewed_env_def)
  then show ?thesis by (rule runs_mono) (auto simp: list_all_iff split: sum.split)
qed

section \<open>What the model shows besides\<close>

text \<open>A client without retries sends at most one request for a call.\<close>

lemma call_without_retries_sends_once:
  assumes "max_attempts (retry_settings c) = 0"
  shows "cr_sends (CallApi c env path verb query_params extra_headers post_body content_type cancelled) \<le> 1"
proof -
  have "retry_loop (retry_settings c) e 1 b w r st cc sl = \<lparr>cr_response = add_statistics r st, cr_sends = 1, cr_slept = sl\<rparr>"
    for e b w r st cc sl using assms by (subst retry_loop.simps) (simp add: Let_def)
  then show ?thesis by (auto simp: CallApi_def send_with_retries_def Let_def split: sum.split prod.split)
qed

text \<open>The two parts of an address are the address.\<close>

lemma split_scheme_append: "split_scheme s = Some (a, b) \<Longrightarrow> a @ b = s"
proof (induction s arbitrary: a b)
  case (Cons c s)
  then show ?case by (cases "c # s" rule: has_scheme.cases) (auto split: option.splits if_splits prod.splits)
qed simp

lemma ParseHostAndRest_append:
  assumes "ParseHostAndRest url = Some (host, rest)"
  shows "host @ rest = url"
proof -
  obtain scheme s where s: "split_scheme url = Some (scheme, s)" "host = scheme @ fst (split_host s)" "rest = snd (split_host s)"
    using assms by (auto simp: ParseHostAndRest_def split_host_def split: if_splits option.splits prod.splits)
  have "fst (split_port t) @ snd (split_port t) = t" for t by (cases t) (auto simp: split_port_def)
  then have "fst (split_host s) @ snd (split_host s) = s" by (simp add: split_host_def case_prod_beta)
  with split_scheme_append [OF s(1)] s show ?thesis by auto
qed

text \<open>An address in the query of an address is taken for the host.\<close>

lemma host_of_query_address: "ParseHostAndRest ''https://a.b/token?r=http://c.d/e'' = Some (''https://a.b/token?r=http://c.d'', ''/e'')"
  by code_simp

text \<open>\<open>GetBasePath\<close> removes the first \<open>/oauth2/token\<close> wherever it stands.\<close>

lemma base_path_inside: "GetBasePath ''https://h/oauth2/token-v2/x'' = ''https://h-v2/x''"
  by code_simp

text \<open>The code signs the address of the request as it is given: the default port, the upper case of the host and the query are
neither removed nor folded in as RFC 5849 demands.\<close>

lemma untreated_address_signature:
  "signature_base url key nonce timestamp = ''POST&'' @ Encode url @ ''&'' @ Encode (oauth_query key nonce timestamp)"
  "rfc_base_uri ''https://h:443/t'' = ''https://h/t''" "rfc_base_uri ''https://H/t'' = ''https://h/t''"
  "rfc_query ''https://h/t?a=b'' = [(''a'', ''b'')]"
  by (rule signature_base_def) code_simp+

text \<open>A key with a reserved character is encoded once in the base string, where RFC 5849 encodes it twice.\<close>

lemma reserved_key_signature:
  "signature_base ''u'' ''a+b'' ''n'' ''1'' \<noteq>
   rfc_base_string ''POST'' ''u'' (oauth_params \<lparr>ck_key = ''a+b'', ck_secret = [], ck_endpoint_url = []\<rparr> ''1'' ''n'')"
  by code_simp

text \<open>Without attempts nothing is sent, and the error says nothing.\<close>

lemma no_attempts_no_request:
  assumes "max_attempts (set_retry config) \<le> 0" and "set_network config" and "set_use_system_time config" and "\<And>n. \<not> ae_cancelled E n"
  shows "\<exists>s'. SignInClient E config credentials properties s = Some (s', Inl (ApiError_code Unknown)) \<and> as_requests s' = as_requests s"
  using assms by (simp add: SignInClient_def guarded_def look_def CreateRequestTimer_def RequestTimer_system_def Let_def)

text \<open>The message of an error with fields is lost when it has no full stop.\<close>

lemma error_message_lost: "CHR ''.'' \<notin> set message \<Longrightarrow> first_sentence message = []"
  by (simp add: first_sentence_def)

text \<open>A member of another type is skipped, but a string is made from a null pointer.\<close>

lemma null_string_member:
  "GetIntrospectAppResult [(''name'', JsonModels.JNull)] = None"
  "GetIntrospectAppResult [(''dobRequired'', JsonModels.JNull)] = Some IntrospectAppResult_default"
  by code_simp+

text \<open>The contract of an authorization request is not sent.\<close>

lemma contract_not_sent: "GenerateAuthorizeBody J (r\<lparr>zr_contract_id := c\<rparr>) = GenerateAuthorizeBody J r"
  by (simp add: GenerateAuthorizeBody_def)

text \<open>A negative time of the server is an exception in the task.\<close>

lemma negative_server_time:
  assumes "aj_parse J payload = Some (JsonModels.JObject [(''timestamp'', JsonModels.JInt64 (- 1))])"
  shows "ParseTimeResponse J payload = None"
  using assms by (simp add: ParseTimeResponse_def parse_document_def)

text \<open>A call that asks for more validity than the last refresh is given the current token all the same.\<close>

lemma longer_validity_ignored:
  assumes "0 < minimum_validity" and "ae_steady E (as_looks s) < at_refresh_time t"
  shows "GetToken E request minimum_validity (s, t) = Some ((s\<lparr>as_looks := as_looks s + 1\<rparr>, t), at_current_token t)"
  using assms by (simp add: GetToken_def look_def ShouldRefreshNow_def)

text \<open>A token from the cache of the client, returned because a request failed, begins its lifetime again.\<close>

lemma cached_token_lives_again:
  assumes fail: "\<And>h q. hr_status (ae_net E h q) = kErrInvalidUrl" and cond: "retry_condition (ts_retry endpoint) = DefaultRetryCondition"
    and n: "0 < max_attempts (ts_retry endpoint)" "ts_network endpoint" "ts_use_system_time endpoint" "\<And>n. \<not> ae_cancelled E n"
    and ok: "tokens_ok s" and cached: "lru_lookup (as_client_tokens s) (ck_key (ts_credentials endpoint)) = Some r"
    and r: "si_access_token r \<noteq> []" "br_status r = 200"
  shows "\<exists>s' i token. RequestToken E endpoint expires_in s = Some (s', Inr token) \<and> tr_access_token token = si_access_token r
    \<and> tr_expiry_time token = sint (word_of_int (ae_system E i) + word_of_int (si_expires_in r) :: u64)"
proof -
  define config where "config = ConvertSettings endpoint"
  obtain m where m: "nat (max_attempts (set_retry config)) = Suc m"
    using n(1) by (cases "nat (max_attempts (set_retry config))") (auto simp: config_def ConvertSettings_def)
  have attempt: "\<exists>s'. sign_in_loop E config c (Suc m) 0 timer resp s = Some (s', Inr r)"
    if start: "tokens_ok s" "lru_lookup (as_client_tokens s) (ck_key (sc_credentials c)) = Some r" for c timer resp s
  proof -
    obtain s2 a where call: "call_sign_in E config c timer (s\<lparr>as_looks := as_looks s + 1\<rparr>) = (s2, a)" by fastforce
    have a: "hr_status a = kErrInvalidUrl" "as_client_tokens s2 = as_client_tokens s" "as_user_tokens s2 = as_user_tokens s"
      using call fail by (auto simp: call_sign_in_def CallAuth_def GetRequestTime_def look_def call_auth_api_def Let_def)
    have ok2: "tokens_ok (s2\<lparr>as_looks := as_looks s2 + 1\<rparr>)" using a start(1) by (simp add: tokens_ok_def)
    obtain s3 where s3: "FindInCache (ck_key (sc_credentials c)) (s2\<lparr>as_looks := as_looks s2 + 1\<rparr>) = Some (s3, Some r)"
      using FindInCache_step [where P = "\<lambda>_. False", OF ok2, of "ck_key (sc_credentials c)"] start(2) a by (auto simp: runs_def split: option.splits)
    have l: "look (ae_cancelled E) s = (s\<lparr>as_looks := as_looks s + 1\<rparr>, False)" for s by (simp add: look_def n(4))
    have w: "\<not> retry_wanted (set_retry config) a"
      using cond a(1) by (simp add: retry_wanted_def config_def ConvertSettings_def DefaultRetryCondition_def HttpResponse.truncate_def error_codes)
    have neg: "kErrInvalidUrl < 0" "kErrInvalidUrl \<noteq> kErrTimeout" "kErrInvalidUrl \<noteq> 200" by (simp_all add: error_codes)
    have get: "GetSignInResponse E (FindInCache (ck_key (sc_credentials c))) kErrInvalidUrl s2 = Some (s3, Inr r)"
      using neg(2) s3 unfolding GetSignInResponse_def l by simp
    have "server_time_of E r a = None" using r(2) by (simp add: server_time_of_def HasWrongTimestamp_def)
    then have "sign_in_loop E config c (Suc m) 0 timer resp s = Some (s3, Inr r)"
      unfolding sign_in_loop.simps l call Let_def prod.case by (simp add: a(1) neg get w result_of_def)
    then show ?thesis by blast
  qed
  let ?p = "\<lparr>sp_scope = ts_scope endpoint, sp_device_id = None, sp_expires_in = expires_in, sp_custom_body = None\<rparr>"
  let ?c = "sign_in_call_of E config (ts_credentials endpoint) ?p"
  have k: "sc_credentials ?c = ts_credentials endpoint" by (simp add: sign_in_call_of_def case_prod_beta)
  define s1 where "s1 = s\<lparr>as_looks := as_looks s + 2\<rparr>"
  have s1: "tokens_ok s1" "as_client_tokens s1 = as_client_tokens s" using ok by (simp_all add: s1_def tokens_ok_def)
  obtain timer where start: "SignInClient E config (ts_credentials endpoint) ?p s
      = sign_in_loop E config ?c (Suc m) 0 timer (Inl (ApiError_code Unknown)) s1"
    using n(2-4) m by (simp add: SignInClient_def guarded_def look_def CreateRequestTimer_def RequestTimer_system_def Let_def config_def
        ConvertSettings_def s1_def eval_nat_numeral)
  obtain s' where "SignInClient E config (ts_credentials endpoint) ?p s = Some (s', Inr r)"
    using attempt [OF s1(1)] cached s1(2) k unfolding start by metis
  then show ?thesis
    using r(1) by (simp add: RequestToken_def config_def [symmetric] token_of_def look_def TokenResult_new_def) blast
qed

text \<open>An answer with the status 200 that is no document counts as granted: the result, without a token and with the status 503,
  takes the place of the token in the cache.\<close>

lemma unreadable_grant_is_stored:
  assumes "parse_document (ae_json E) body = None"
  shows "\<exists>s' r. ParseAuthResponse E 200 body s = Some (s', r) \<and> br_status r = 503 \<and> si_access_token r = []"
  using assms by (simp add: ParseAuthResponse_def look_def SignInResultImpl_new_def BaseResult_new_def HasError_def sign_in_of_def)

section \<open>Credentials\<close>

definition property_line :: "string \<Rightarrow> string \<Rightarrow> string" where
  "property_line name val = name @ '' = '' @ val @ [CHR 0x0A]"

lemma line_tokens_property:
  assumes "\<forall>c \<in> set name. \<not> is_space c \<and> c \<noteq> CHR ''=''" and "\<forall>c \<in> set val. \<not> is_space c \<and> c \<noteq> CHR ''=''" and "val \<noteq> []"
  shows "line_tokens (name @ '' = '' @ val) = [name, val]"
proof -
  have "filter (\<lambda>c. \<not> is_space c) (name @ '' = '' @ val) = name @ CHR ''='' # val"
    using assms by (auto simp: is_space_def filter_id_conv)
  moreover have "CHR ''='' \<notin> set name" "CHR ''='' \<notin> set val" using assms by auto
  ultimately show ?thesis using assms(3) by (simp add: line_tokens_def split_at_sep split_at_none)
qed

text \<open>A file of properties with a key, a secret and an address without blanks and equality signs gives these credentials.\<close>

lemma credentials_read:
  assumes "\<forall>v \<in> {ck_key k, ck_secret k, ck_endpoint_url k}. v \<noteq> [] \<and> (\<forall>c \<in> set v. \<not> is_space c \<and> c \<noteq> CHR ''='')"
  shows "ReadFromStream (property_line ''here.access.key.id'' (ck_key k) @ property_line ''here.access.key.secret'' (ck_secret k)
     @ property_line ''here.token.endpoint.url'' (ck_endpoint_url k)) = Some k"
proof -
  have nl: "CHR 0x0A \<notin> set (name @ '' = '' @ v)" if "CHR 0x0A \<notin> set name" "v \<in> {ck_key k, ck_secret k, ck_endpoint_url k}" for name v
  proof -
    have "is_space (CHR 0x0A)" by code_simp
    moreover have "\<forall>c \<in> set v. \<not> is_space c" using assms that(2) by blast
    ultimately have "CHR 0x0A \<notin> set v" by blast
    with that(1) show ?thesis by simp
  qed
  have lines: "stream_lines (property_line ''here.access.key.id'' (ck_key k) @ property_line ''here.access.key.secret'' (ck_secret k)
     @ property_line ''here.token.endpoint.url'' (ck_endpoint_url k)) =
     [''here.access.key.id'' @ '' = '' @ ck_key k, ''here.access.key.secret'' @ '' = '' @ ck_secret k,
      ''here.token.endpoint.url'' @ '' = '' @ ck_endpoint_url k]"
    using split_at_sep [OF nl, of "''here.access.key.id''" "ck_key k"] split_at_sep [OF nl, of "''here.access.key.secret''" "ck_secret k"]
      split_at_sep [OF nl, of "''here.token.endpoint.url''" "ck_endpoint_url k"]
    by (simp add: stream_lines_def property_line_def)
  have n: "\<forall>c \<in> set ''here.access.key.id''. \<not> is_space c \<and> c \<noteq> CHR ''=''" "\<forall>c \<in> set ''here.access.key.secret''. \<not> is_space c \<and> c \<noteq> CHR ''=''"
    "\<forall>c \<in> set ''here.token.endpoint.url''. \<not> is_space c \<and> c \<noteq> CHR ''=''" by code_simp+
  have "line_tokens (''here.access.key.id'' @ '' = '' @ ck_key k) = [''here.access.key.id'', ck_key k]"
    "line_tokens (''here.access.key.secret'' @ '' = '' @ ck_secret k) = [''here.access.key.secret'', ck_secret k]"
    "line_tokens (''here.token.endpoint.url'' @ '' = '' @ ck_endpoint_url k) = [''here.token.endpoint.url'', ck_endpoint_url k]"
    by (rule line_tokens_property [OF n(1)] line_tokens_property [OF n(2)] line_tokens_property [OF n(3)]; use assms in simp)+
  then show ?thesis using assms unfolding ReadFromStream_def lines by (simp add: read_line_def)
qed

text \<open>An equality sign at the end of a secret is cut off, and a line with one inside is ignored.\<close>

lemma secret_with_equality_sign:
  "read_line ''here.access.key.secret=abc='' k = k\<lparr>ck_secret := ''abc''\<rparr>"
  "read_line ''here.access.key.secret=a=c'' k = k"
proof -
  have "line_tokens ''here.access.key.secret=abc='' = [''here.access.key.secret'', ''abc'']"
    "line_tokens ''here.access.key.secret=a=c'' = [''here.access.key.secret'', ''a'', ''c'']" by code_simp+
  then show "read_line ''here.access.key.secret=abc='' k = k\<lparr>ck_secret := ''abc''\<rparr>" "read_line ''here.access.key.secret=a=c'' k = k"
    by (simp_all add: read_line_def)
qed

end
