(* ===== verification/WriteModels.thy ===== *)
theory WriteModels
  imports JsonModels
begin

text \<open>
  The models of the write service as JSON: the requests, publications, partitions and index entries of
  olp-cpp-sdk-dataservice-write/include/olp/dataservice/write and src/generated/model with their parsers and serializers in
  src/generated/parser and src/generated/serializer. The generic parsers and serializers are those of \<open>JsonModels\<close>: the
  headers of the write service are copies. Models that the read service also has keep their records.
\<close>

section \<open>Requests\<close>

text \<open>The bytes of the data are characters; no data is a null pointer.\<close>

record PublishDataRequest =
  pd_data :: "string option"
  pd_layer_id :: string
  pd_trace_id :: "string option"
  pd_billing_tag :: "string option"
  pd_checksum :: "string option"

definition PublishDataRequest_new :: PublishDataRequest where
  "PublishDataRequest_new = \<lparr>pd_data = None, pd_layer_id = [], pd_trace_id = None, pd_billing_tag = None, pd_checksum = None\<rparr>"

text \<open>A member that is written only when it is set.\<close>

definition emplace_opt :: "string \<Rightarrow> ('a \<Rightarrow> 'd json) \<Rightarrow> 'a option \<Rightarrow> (string \<times> 'd json) list \<Rightarrow> (string \<times> 'd json) list" where
  "emplace_opt key f x ms = (case x of None \<Rightarrow> ms | Some y \<Rightarrow> emplace key (f y) ms)"

definition to_json_PublishDataRequest :: "PublishDataRequest \<Rightarrow> 'd json" where
  "to_json_PublishDataRequest x =
     (let ms = emplace_opt ''data'' JString (pd_data x) [];
          ms = emplace ''layerId'' (JString (pd_layer_id x)) ms;
          ms = emplace_opt ''traceId'' JString (pd_trace_id x) ms;
          ms = emplace_opt ''billingTag'' JString (pd_billing_tag x) ms in
      JObject (emplace_opt ''checksum'' JString (pd_checksum x) ms))"

text \<open>\<open>std::shared_ptr<std::vector<unsigned char>>\<close>.\<close>

definition from_json_data :: "'d json \<Rightarrow> string option option" where
  "from_json_data v = map_option Some (from_json_string v)"

definition from_json_PublishDataRequest :: "'d json \<Rightarrow> PublishDataRequest option" where
  "from_json_PublishDataRequest value = do {
     data \<leftarrow> parse_field None from_json_data value ''data'';
     layer \<leftarrow> parse_field [] from_json_string value ''layerId'';
     trace \<leftarrow> parse_field [] from_json_string value ''traceId'';
     billing \<leftarrow> parse_field [] from_json_string value ''billingTag'';
     checksum \<leftarrow> parse_field [] from_json_string value ''checksum'';
     Some \<lparr>pd_data = data, pd_layer_id = layer, pd_trace_id = Some trace, pd_billing_tag = Some billing,
       pd_checksum = Some checksum\<rparr> }"

record PublishSdiiRequest =
  sdii_message_list :: "string option"
  sdii_layer_id :: string
  sdii_trace_id :: "string option"
  sdii_billing_tag :: "string option"
  sdii_checksum :: "string option"

record PublishPartitionDataRequest =
  ppd_data :: "string option"
  ppd_layer_id :: string
  ppd_partition_id :: "string option"
  ppd_billing_tag :: "string option"
  ppd_checksum :: "string option"

record StartBatchRequest =
  sb_layers :: "string list option"
  sb_version_dependencies :: "VersionDependency list option"
  sb_billing_tag :: "string option"

record CheckDataExistsRequest =
  cde_layer_id :: string
  cde_data_handle :: string

section \<open>Publications\<close>

record Details =
  det_state :: string
  det_message :: string
  det_started :: u64
  det_modified :: u64
  det_expires :: u64

definition Details_new :: Details where
  "Details_new = \<lparr>det_state = [], det_message = [], det_started = 0, det_modified = 0, det_expires = 0\<rparr>"

record Publication =
  pub_id :: "string option"
  pub_details :: "Details option"
  pub_layer_ids :: "string list option"
  pub_catalog_version :: "u64 option"
  pub_version_dependencies :: "VersionDependency list option"

definition Publication_new :: Publication where
  "Publication_new = \<lparr>pub_id = None, pub_details = None, pub_layer_ids = None, pub_catalog_version = None,
     pub_version_dependencies = None\<rparr>"

definition to_json_Details :: "Details \<Rightarrow> 'd json" where
  "to_json_Details x = JObject
     [(''state'', JString (det_state x)), (''message'', JString (det_message x)), (''started'', JInt64 (det_started x)),
      (''modified'', JInt64 (det_modified x)), (''expires'', JInt64 (det_expires x))]"

definition write_to_json_VersionDependency :: "VersionDependency \<Rightarrow> 'd json" where
  "write_to_json_VersionDependency x = JObject
     [(''direct'', JBool (vd_direct x)), (''hrn'', JString (vd_hrn x)), (''version'', JInt64 (vd_version x))]"

definition to_json_Publication :: "Publication \<Rightarrow> 'd json" where
  "to_json_Publication x =
     (let ms = emplace_opt ''id'' JString (pub_id x) [];
          ms = emplace_opt ''details'' to_json_Details (pub_details x) ms;
          ms = emplace_opt ''layerIds'' (\<lambda>ids. JArray (map JString ids)) (pub_layer_ids x) ms;
          ms = emplace_opt ''catalogVersion'' JInt64 (pub_catalog_version x) ms in
      JObject (emplace_opt ''versionDependencies'' (\<lambda>ds. JArray (map write_to_json_VersionDependency ds))
        (pub_version_dependencies x) ms))"

definition from_json_Details :: "'d numbers \<Rightarrow> 'd json \<Rightarrow> Details option" where
  "from_json_Details N value = do {
     x1 \<leftarrow> parse_field [] from_json_string value ''state'';
     x2 \<leftarrow> parse_field [] from_json_string value ''message'';
     x3 \<leftarrow> parse_field 0 (from_json_int64 N) value ''started'';
     x4 \<leftarrow> parse_field 0 (from_json_int64 N) value ''modified'';
     x5 \<leftarrow> parse_field 0 (from_json_int64 N) value ''expires'';
     Some \<lparr>det_state = x1, det_message = x2, det_started = x3, det_modified = x4, det_expires = x5\<rparr> }"

definition write_from_json_VersionDependency :: "'d numbers \<Rightarrow> 'd json \<Rightarrow> VersionDependency option" where
  "write_from_json_VersionDependency N value = do {
     direct \<leftarrow> parse_field False from_json_bool value ''direct'';
     hrn \<leftarrow> parse_field [] from_json_string value ''hrn'';
     version \<leftarrow> parse_field 0 (from_json_int64 N) value ''version'';
     Some \<lparr>vd_hrn = hrn, vd_version = version, vd_direct = direct\<rparr> }"

text \<open>Every member is set, also when it is missing in the document.\<close>

definition from_json_Publication :: "'d numbers \<Rightarrow> 'd json \<Rightarrow> Publication option" where
  "from_json_Publication N value = do {
     x1 \<leftarrow> parse_field [] from_json_string value ''id'';
     x2 \<leftarrow> parse_field Details_new (from_json_Details N) value ''details'';
     x3 \<leftarrow> parse_field [] (from_json_vector from_json_string) value ''layerIds'';
     x4 \<leftarrow> parse_field 0 (from_json_int64 N) value ''catalogVersion'';
     x5 \<leftarrow> parse_field [] (from_json_vector (write_from_json_VersionDependency N)) value ''versionDependencies'';
     Some \<lparr>pub_id = Some x1, pub_details = Some x2, pub_layer_ids = Some x3, pub_catalog_version = Some x4,
       pub_version_dependencies = Some x5\<rparr> }"

record PublishPartition =
  pp_partition :: "string option"
  pp_checksum :: "string option"
  pp_compressed_data_size :: "u64 option"
  pp_data_size :: "u64 option"
  pp_data :: "string option"
  pp_data_handle :: "string option"
  pp_timestamp :: "u64 option"

definition PublishPartition_new :: PublishPartition where
  "PublishPartition_new = \<lparr>pp_partition = None, pp_checksum = None, pp_compressed_data_size = None, pp_data_size = None,
     pp_data = None, pp_data_handle = None, pp_timestamp = None\<rparr>"

definition to_json_PublishPartition :: "PublishPartition \<Rightarrow> 'd json" where
  "to_json_PublishPartition x =
     (let ms = emplace_opt ''partition'' JString (pp_partition x) [];
          ms = emplace_opt ''checksum'' JString (pp_checksum x) ms;
          ms = emplace_opt ''compressedDataSize'' JInt64 (pp_compressed_data_size x) ms;
          ms = emplace_opt ''dataSize'' JInt64 (pp_data_size x) ms;
          ms = emplace_opt ''data'' JString (pp_data x) ms;
          ms = emplace_opt ''dataHandle'' JString (pp_data_handle x) ms in
      JObject (emplace_opt ''timestamp'' JInt64 (pp_timestamp x) ms))"

text \<open>\<open>PublishPartitions\<close> is its list of partitions, none when it is not set.\<close>

definition to_json_PublishPartitions :: "PublishPartition list option \<Rightarrow> 'd json" where
  "to_json_PublishPartitions x = JObject (emplace_opt ''partitions'' (\<lambda>ps. JArray (map to_json_PublishPartition ps)) x [])"

definition from_json_PublishPartition :: "'d numbers \<Rightarrow> 'd json \<Rightarrow> PublishPartition option" where
  "from_json_PublishPartition N value = do {
     x1 \<leftarrow> parse_field [] from_json_string value ''partition'';
     x2 \<leftarrow> parse_field [] from_json_string value ''checksum'';
     x3 \<leftarrow> parse_field 0 (from_json_int64 N) value ''compressedDataSize'';
     x4 \<leftarrow> parse_field 0 (from_json_int64 N) value ''dataSize'';
     x5 \<leftarrow> parse_field None from_json_data value ''data'';
     x6 \<leftarrow> parse_field [] from_json_string value ''dataHandle'';
     x7 \<leftarrow> parse_field 0 (from_json_int64 N) value ''timestamp'';
     Some \<lparr>pp_partition = Some x1, pp_checksum = Some x2, pp_compressed_data_size = Some x3, pp_data_size = Some x4,
       pp_data = x5, pp_data_handle = Some x6, pp_timestamp = Some x7\<rparr> }"

definition from_json_PublishPartitions :: "'d numbers \<Rightarrow> 'd json \<Rightarrow> PublishPartition list option option" where
  "from_json_PublishPartitions N value =
     map_option Some (parse_field [] (from_json_vector (from_json_PublishPartition N)) value ''partitions'')"

section \<open>Answers\<close>

record TraceID =
  tid_parent :: string
  tid_generated :: "string list"

definition TraceID_new :: TraceID where
  "TraceID_new = \<lparr>tid_parent = [], tid_generated = []\<rparr>"

definition from_json_TraceID :: "'d json \<Rightarrow> TraceID option" where
  "from_json_TraceID value = do {
     x1 \<leftarrow> parse_field [] from_json_string value ''ParentID'';
     x2 \<leftarrow> parse_field [] (from_json_vector from_json_string) value ''GeneratedIDs'';
     Some \<lparr>tid_parent = x1, tid_generated = x2\<rparr> }"

text \<open>\<open>ResponseOk\<close> is its trace, \<open>ResponseOkSingle\<close> is its identifier.\<close>

definition from_json_ResponseOk :: "'d json \<Rightarrow> TraceID option" where
  "from_json_ResponseOk value = parse_field TraceID_new from_json_TraceID value ''TraceID''"

definition from_json_ResponseOkSingle :: "'d json \<Rightarrow> string option" where
  "from_json_ResponseOkSingle value = parse_field [] from_json_string value ''TraceID''"

record WritePartition =
  wp_checksum :: "string option"
  wp_compressed_data_size :: "u64 option"
  wp_data_handle :: string
  wp_data_size :: "u64 option"
  wp_partition :: string
  wp_version :: "u64 option"

definition from_json_WritePartition :: "'d numbers \<Rightarrow> 'd json \<Rightarrow> WritePartition option" where
  "from_json_WritePartition N value = do {
     x1 \<leftarrow> parse_field None (from_json_optional from_json_string) value ''checksum'';
     x2 \<leftarrow> parse_field None (from_json_optional (from_json_int64 N)) value ''compressedDataSize'';
     x3 \<leftarrow> parse_field [] from_json_string value ''dataHandle'';
     x4 \<leftarrow> parse_field None (from_json_optional (from_json_int64 N)) value ''dataSize'';
     x5 \<leftarrow> parse_field [] from_json_string value ''partition'';
     x6 \<leftarrow> parse_field None (from_json_optional (from_json_int64 N)) value ''version'';
     Some \<lparr>wp_checksum = x1, wp_compressed_data_size = x2, wp_data_handle = x3, wp_data_size = x4, wp_partition = x5,
       wp_version = x6\<rparr> }"

definition from_json_WritePartitions :: "'d numbers \<Rightarrow> 'd json \<Rightarrow> WritePartition list option" where
  "from_json_WritePartitions N value = parse_field [] (from_json_vector (from_json_WritePartition N)) value ''partitions''"

section \<open>Catalogs\<close>

text \<open>The parts of a catalog are parsed and printed as in the read service; the time to live of a layer is always set.\<close>

definition write_from_json_Layer :: "'d numbers \<Rightarrow> 'd json \<Rightarrow> Layer option" where
  "write_from_json_Layer N value = do {
     x1 \<leftarrow> parse_field [] from_json_string value ''id'';
     x2 \<leftarrow> parse_field [] from_json_string value ''name'';
     x3 \<leftarrow> parse_field [] from_json_string value ''summary'';
     x4 \<leftarrow> parse_field [] from_json_string value ''description'';
     x5 \<leftarrow> parse_field Owner_new (from_json_Owner N) value ''owner'';
     x6 \<leftarrow> parse_field Coverage_new (from_json_Coverage N) value ''coverage'';
     x7 \<leftarrow> parse_field Schema_new (from_json_Schema N) value ''schema'';
     x8 \<leftarrow> parse_field [] from_json_string value ''contentType'';
     x9 \<leftarrow> parse_field [] from_json_string value ''contentEncoding'';
     x10 \<leftarrow> parse_field Partitioning_new (from_json_Partitioning N) value ''partitioning'';
     x11 \<leftarrow> parse_field [] from_json_string value ''layerType'';
     x12 \<leftarrow> parse_field [] from_json_string value ''digest'';
     x13 \<leftarrow> parse_field [] (from_json_vector from_json_string) value ''tags'';
     x14 \<leftarrow> parse_field [] (from_json_vector from_json_string) value ''billingTags'';
     x15 \<leftarrow> parse_field 0 (from_json_int64 N) value ''ttl'';
     x16 \<leftarrow> parse_field IndexProperties_new (from_json_IndexProperties N) value ''indexProperties'';
     x17 \<leftarrow> parse_field StreamProperties_new (from_json_StreamProperties N) value ''streamProperties'';
     x18 \<leftarrow> parse_field Volume_new (from_json_Volume N) value ''volume'';
     Some \<lparr>layer_id = x1, layer_name = x2, layer_summary = x3, layer_description = x4, layer_owner = x5,
       layer_coverage = x6, layer_schema = x7, layer_content_type = x8, layer_content_encoding = x9,
       layer_partitioning = x10, layer_layer_type = x11, layer_digest = x12, layer_tags = x13,
       layer_billing_tags = x14, layer_ttl = Some x15, layer_index_properties = x16,
       layer_stream_properties = x17, layer_volume = x18\<rparr> }"

definition write_from_json_Catalog :: "'d numbers \<Rightarrow> 'd json \<Rightarrow> Catalog option" where
  "write_from_json_Catalog N value = do {
     x1 \<leftarrow> parse_field [] from_json_string value ''id'';
     x2 \<leftarrow> parse_field [] from_json_string value ''hrn'';
     x3 \<leftarrow> parse_field [] from_json_string value ''name'';
     x4 \<leftarrow> parse_field [] from_json_string value ''summary'';
     x5 \<leftarrow> parse_field [] from_json_string value ''description'';
     x6 \<leftarrow> parse_field Coverage_new (from_json_Coverage N) value ''coverage'';
     x7 \<leftarrow> parse_field Owner_new (from_json_Owner N) value ''owner'';
     x8 \<leftarrow> parse_field [] (from_json_vector from_json_string) value ''tags'';
     x9 \<leftarrow> parse_field [] (from_json_vector from_json_string) value ''billingTags'';
     x10 \<leftarrow> parse_field [] from_json_string value ''created'';
     x11 \<leftarrow> parse_field [] (from_json_vector (write_from_json_Layer N)) value ''layers'';
     x12 \<leftarrow> parse_field 0 (from_json_int64 N) value ''version'';
     x13 \<leftarrow> parse_field Notifications_new (from_json_Notifications N) value ''notifications'';
     Some \<lparr>cat_id = x1, cat_hrn = x2, cat_name = x3, cat_summary = x4, cat_description = x5,
       cat_coverage = x6, cat_owner = x7, cat_tags = x8, cat_billing_tags = x9, cat_created = x10,
       cat_layers = x11, cat_version = x12, cat_notifications = x13\<rparr> }"

section \<open>Entries of an index layer\<close>

datatype index_value =
    StringIndexValue string | IntIndexValue u64 | BooleanIndexValue bool | HereTileIndexValue u64 | TimeWindowIndexValue u64
  | EmptyIndexValue | UnsupportedIndexValue

record write_index =
  wi_checksum :: "string option"
  wi_metadata :: "(string, string) omap option"
  wi_size :: "u64 option"
  wi_id :: string
  wi_index_fields :: "(string, index_value) omap"

record UpdateIndexRequest =
  ui_layer_id :: string
  ui_billing_tag :: "string option"
  ui_checksum :: "string option"
  ui_index_additions :: "write_index list"
  ui_index_removals :: "string list"

record PublishIndexRequest =
  pir_data :: "string option"
  pir_layer_id :: string
  pir_billing_tag :: "string option"
  pir_checksum :: "string option"
  pir_index :: write_index

text \<open>The loop over the fields; a value of another type is left out.\<close>

definition emplace_index_value :: "string \<times> index_value \<Rightarrow> (string \<times> 'd json) list \<Rightarrow> (string \<times> 'd json) list" where
  "emplace_index_value kv ms =
     (case snd kv of
        StringIndexValue s \<Rightarrow> emplace (fst kv) (JString s) ms
      | IntIndexValue n \<Rightarrow> emplace (fst kv) (JInt64 n) ms
      | BooleanIndexValue b \<Rightarrow> emplace (fst kv) (JBool b) ms
      | HereTileIndexValue n \<Rightarrow> emplace (fst kv) (JInt64 n) ms
      | TimeWindowIndexValue n \<Rightarrow> emplace (fst kv) (JInt64 n) ms
      | _ \<Rightarrow> ms)"

definition index_fields :: "write_index \<Rightarrow> (string \<times> 'd json) list" where
  "index_fields x = fold emplace_index_value (wi_index_fields x) []"

definition emplace_metadata :: "(string, string) omap option \<Rightarrow> (string \<times> 'd json) list \<Rightarrow> (string \<times> 'd json) list" where
  "emplace_metadata m ms = (case m of None \<Rightarrow> ms | Some kvs \<Rightarrow> fold (\<lambda>(k, v). emplace k (JString v)) kvs ms)"

text \<open>The metadata is added to the object of the fields after its members were copied or moved to the document; what is
added there is not used.\<close>

definition to_json_index_entry :: "write_index \<Rightarrow> 'd json" where
  "to_json_index_entry x =
     (let json_value = emplace ''id'' (JString (wi_id x)) [];
          fields = index_fields x;
          json_value = emplace ''fields'' (JObject fields) json_value;
          fields = emplace_metadata (wi_metadata x) fields;
          json_value = emplace_opt ''checksum'' JString (wi_checksum x) json_value in
      JObject (emplace_opt ''size'' JInt64 (wi_size x) json_value))"

definition to_json_IndexInfo :: "write_index \<Rightarrow> 'd json" where
  "to_json_IndexInfo x = JArray [to_json_index_entry x]"

definition to_json_UpdateIndexRequest :: "UpdateIndexRequest \<Rightarrow> 'd json" where
  "to_json_UpdateIndexRequest x =
     (let ms = emplace ''additions'' (JArray (map to_json_index_entry (ui_index_additions x))) [] in
      JObject (emplace ''removals'' (JArray (map JString (ui_index_removals x))) ms))"

section \<open>What the documents lose and add\<close>

text \<open>The metadata of an index is not sent.\<close>

lemma metadata_is_lost:
  "to_json_IndexInfo (x\<lparr>wi_metadata := m\<rparr>) = to_json_IndexInfo x"
  by (simp add: to_json_IndexInfo_def to_json_index_entry_def index_fields_def Let_def)

text \<open>A publication that was parsed has an id, an empty one when the document has none.\<close>

lemma publication_has_id:
  "from_json_Publication N value = Some p \<Longrightarrow> pub_id p \<noteq> None"
  "from_json_Publication N (JObject []) = Some p \<Longrightarrow> pub_id p = Some []"
  by (auto simp: from_json_Publication_def parse_field_def bind_eq_Some_conv)

end
