(* ===== verification/WriteApi.thy ===== *)
theory WriteApi
  imports WriteModels DefaultCache ReadApi Hrn
begin

text \<open>
  How the write service reaches the network: the lookup of service addresses (\<open>ApiClientLookup\<close>), the settings of the
  layers (\<open>CatalogSettings\<close>) and the requests of olp-cpp-sdk-dataservice-write/src/generated. A client is its base URL; the
  network answers a request, given all requests before it, and its answer includes the cancellation of a call. The cache is
  a record of operations at a moment; random identifiers and looks at the cancellation context are numbered.
\<close>

section \<open>The surroundings and the state\<close>

datatype write_value = WString string | WRequest PublishDataRequest | WCatalog Catalog | WUndefined

record 's write_kv =
  wk_Put :: "string \<Rightarrow> write_value \<Rightarrow> string \<Rightarrow> time_t \<Rightarrow> 's \<Rightarrow> ('s \<times> bool) option"
  wk_Get :: "string \<Rightarrow> (string \<Rightarrow> write_value) \<Rightarrow> 's \<Rightarrow> ('s \<times> write_value cached option) option"
  wk_Contains :: "string \<Rightarrow> 's \<Rightarrow> bool option"
  wk_Remove :: "string \<Rightarrow> 's \<Rightarrow> ('s \<times> bool) option"

definition default_write_kv :: "'db ldb_ops \<Rightarrow> time_t \<Rightarrow> (write_value, 'db) default_cache write_kv" where
  "default_write_kv L now =
     \<lparr>wk_Put = \<lambda>key value encoded expiry. DefaultCache_Put_any L now key (Some value) encoded expiry,
      wk_Get = \<lambda>key decoder. DefaultCache_Get_any L now key (\<lambda>text. Some (decoder text)),
      wk_Contains = DefaultCache_Contains L now,
      wk_Remove = DefaultCache_Remove L\<rparr>"

record write_request = api_request +
  rq_content_type :: string

text \<open>\<open>we_cache\<close> tells whether the settings of the client have a cache. When they have none, the settings of the catalog
make one for themselves; the state holds the cache that there is.\<close>

record ('s, 'd) write_env =
  we_kv :: "'s write_kv"
  we_json :: "'d json_lib"
  we_net :: "write_request list \<Rightarrow> write_request \<Rightarrow> api_response"
  we_catalog :: hrn
  we_cache :: bool
  we_uuid :: "nat \<Rightarrow> string"
  we_cancelled :: "nat \<Rightarrow> bool"
  we_default_expiration :: time_t
  we_maximum_requests :: nat

record 's write_state =
  ws_cache :: 's
  ws_requests :: "write_request list"
  ws_uuids :: nat
  ws_looks :: nat

definition on_cache :: "('s \<Rightarrow> ('s \<times> 'r) option) \<Rightarrow> 's write_state \<Rightarrow> ('s write_state \<times> 'r) option" where
  "on_cache f s = map_option (\<lambda>(c, r). (s\<lparr>ws_cache := c\<rparr>, r)) (f (ws_cache s))"

definition call_write :: "('s, 'd) write_env \<Rightarrow> write_request \<Rightarrow> 's write_state \<Rightarrow> 's write_state \<times> api_response" where
  "call_write E r s = (s\<lparr>ws_requests := ws_requests s @ [r]\<rparr>, we_net E (ws_requests s) r)"

definition GenerateUuid :: "('s, 'd) write_env \<Rightarrow> 's write_state \<Rightarrow> 's write_state \<times> string" where
  "GenerateUuid E s = (s\<lparr>ws_uuids := ws_uuids s + 1\<rparr>, we_uuid E (ws_uuids s))"

definition look_cancelled :: "('s, 'd) write_env \<Rightarrow> 's write_state \<Rightarrow> 's write_state \<times> bool" where
  "look_cancelled E s = (s\<lparr>ws_looks := ws_looks s + 1\<rparr>, we_cancelled E (ws_looks s))"

definition WithoutExpiry :: time_t where
  "WithoutExpiry = time_max"

text \<open>\<open>any_cast<std::string>\<close> of what \<open>Get\<close> returned: an empty value is none, a value of another type throws.\<close>

definition Get_string :: "('s, 'd) write_env \<Rightarrow> string \<Rightarrow> 's write_state \<Rightarrow> ('s write_state \<times> string option) option" where
  "Get_string E key s = do {
     (s, r) \<leftarrow> on_cache (wk_Get (we_kv E) key WString) s;
     case r of
       None \<Rightarrow> Some (s, None)
     | Some (Object (WString x)) \<Rightarrow> Some (s, Some x)
     | _ \<Rightarrow> None }"

section \<open>Requests\<close>

definition write_request :: "string \<Rightarrow> string \<Rightarrow> string \<Rightarrow> (string \<times> string) list \<Rightarrow> (string \<times> string) list \<Rightarrow> string option \<Rightarrow> string \<Rightarrow> write_request" where
  "write_request client path verb query headers body content_type =
     \<lparr>rq_base = client, rq_path = path, rq_verb = verb, rq_query = query, rq_headers = headers, rq_body = body,
      rq_content_type = content_type\<rparr>"

definition accept_json :: "(string \<times> string) list" where
  "accept_json = [(''Accept'', ''application/json'')]"

definition billing :: "string option \<Rightarrow> (string \<times> string) list" where
  "billing billing_tag = mm_emplace_opt ''billingTag'' billing_tag []"

text \<open>The result of a response whose text is a document, and of one without content.\<close>

definition write_result :: "('s, 'd) write_env \<Rightarrow> ('d JsonModels.json \<Rightarrow> 'a option) \<Rightarrow> api_response \<Rightarrow> (ApiError + 'a) option" where
  "write_result E p response =
     (if hr_status response \<noteq> 200 then Some (Inl (ApiError_status (hr_status response)))
      else map_option (case_sum (\<lambda>_. Inl (ApiError_code Unknown)) Inr) (parse_result (lib_parse (we_json E)) p (hr_body response)))"

definition no_result :: "(int \<Rightarrow> bool) \<Rightarrow> api_response \<Rightarrow> ApiError + unit" where
  "no_result ok response =
     (if ok (hr_status response) then Inr () else Inl (ApiError_status (hr_status response)))"

definition write_PlatformApi_GetApis ::
  "('s, 'd) write_env \<Rightarrow> string \<Rightarrow> string \<Rightarrow> string \<Rightarrow> 's write_state \<Rightarrow> ('s write_state \<times> (ApiError + Api list)) option" where
  "write_PlatformApi_GetApis E client service service_version s =
     (let platform_url = ''/platform/apis/'' @ service @ ''/'' @ service_version;
          (s, response) = call_write E (write_request client platform_url ''GET'' [] accept_json None []) s in
      map_option (\<lambda>r. (s, r)) (write_result E (from_json_vector (from_json_Api (lib_numbers (we_json E)))) response))"

definition write_ResourcesApi_GetApis ::
  "('s, 'd) write_env \<Rightarrow> string \<Rightarrow> string \<Rightarrow> string \<Rightarrow> string \<Rightarrow> 's write_state \<Rightarrow> ('s write_state \<times> (ApiError + Api list)) option" where
  "write_ResourcesApi_GetApis E client hrn service service_version s =
     (let resource_url = ''/resources/'' @ hrn @ ''/apis/'' @ service @ ''/'' @ service_version;
          (s, response) = call_write E (write_request client resource_url ''GET'' [] accept_json None []) s in
      map_option (\<lambda>r. (s, r)) (write_result E (from_json_vector (from_json_Api (lib_numbers (we_json E)))) response))"

definition write_ConfigApi_GetCatalog ::
  "('s, 'd) write_env \<Rightarrow> string \<Rightarrow> string \<Rightarrow> string option \<Rightarrow> 's write_state \<Rightarrow> ('s write_state \<times> (ApiError + Catalog)) option" where
  "write_ConfigApi_GetCatalog E client catalog_hrn billing_tag s =
     (let (s, response) = call_write E (write_request client (''/catalogs/'' @ catalog_hrn) ''GET'' (billing billing_tag) accept_json None []) s in
      map_option (\<lambda>r. (s, r)) (write_result E (write_from_json_Catalog (lib_numbers (we_json E))) response))"

definition ingest_headers :: "string option \<Rightarrow> string option \<Rightarrow> (string \<times> string) list \<Rightarrow> (string \<times> string) list" where
  "ingest_headers trace_id sum_opt headers =
     mm_emplace_opt ''X-HERE-Checksum'' sum_opt (mm_emplace_opt ''X-HERE-TraceId'' trace_id headers)"

definition with_encoding :: "string \<Rightarrow> (string \<times> string) list \<Rightarrow> (string \<times> string) list" where
  "with_encoding content_encoding headers =
     (if content_encoding \<noteq> [] then mm_emplace ''Content-Encoding'' content_encoding headers else headers)"

definition IngestApi_IngestData ::
  "('s, 'd) write_env \<Rightarrow> string \<Rightarrow> string \<Rightarrow> string \<Rightarrow> string \<Rightarrow> string option \<Rightarrow> string option \<Rightarrow> string option \<Rightarrow> string option
    \<Rightarrow> 's write_state \<Rightarrow> ('s write_state \<times> (ApiError + string)) option" where
  "IngestApi_IngestData E client layer content_type content_encoding data trace_id billing_tag sum_opt s =
     (let headers = ingest_headers trace_id sum_opt (with_encoding content_encoding accept_json);
          r = write_request client (''/layers/'' @ layer) ''POST'' (billing billing_tag) headers data content_type;
          (s, response) = call_write E r s in
      map_option (\<lambda>r. (s, r)) (write_result E from_json_ResponseOkSingle response))"

definition IngestApi_IngestSdii ::
  "('s, 'd) write_env \<Rightarrow> string \<Rightarrow> string \<Rightarrow> string option \<Rightarrow> string option \<Rightarrow> string option \<Rightarrow> string option
    \<Rightarrow> 's write_state \<Rightarrow> ('s write_state \<times> (ApiError + TraceID)) option" where
  "IngestApi_IngestSdii E client layer sdii_list trace_id billing_tag sum_opt s =
     (let headers = ingest_headers trace_id sum_opt accept_json;
          r = write_request client (''/layers/'' @ layer @ ''/sdiiMessageList'') ''POST'' (billing billing_tag) headers sdii_list
            ''application/x-protobuf'';
          (s, response) = call_write E r s in
      map_option (\<lambda>r. (s, r)) (write_result E from_json_ResponseOk response))"

definition BlobApi_PutBlob ::
  "('s, 'd) write_env \<Rightarrow> string \<Rightarrow> string \<Rightarrow> string \<Rightarrow> string \<Rightarrow> string \<Rightarrow> string option \<Rightarrow> string option
    \<Rightarrow> 's write_state \<Rightarrow> 's write_state \<times> (ApiError + unit)" where
  "BlobApi_PutBlob E client layer content_type content_encoding handle data billing_tag s =
     (let r = write_request client (''/layers/'' @ layer @ ''/data/'' @ handle) ''PUT'' (billing billing_tag)
            (with_encoding content_encoding accept_json) data content_type;
          (s, response) = call_write E r s in
      (s, no_result (\<lambda>status. status = 200 \<or> status = 204) response))"

definition BlobApi_deleteBlob ::
  "('s, 'd) write_env \<Rightarrow> string \<Rightarrow> string \<Rightarrow> string \<Rightarrow> string option \<Rightarrow> 's write_state \<Rightarrow> 's write_state \<times> (ApiError + unit)" where
  "BlobApi_deleteBlob E client layer handle billing_tag s =
     (let r = write_request client (''/layers/'' @ layer @ ''/data/'' @ handle) ''DELETE'' (billing billing_tag) accept_json None [];
          (s, response) = call_write E r s in
      (s, no_result (\<lambda>status. status = 200 \<or> status = 202) response))"

definition BlobApi_checkBlobExists ::
  "('s, 'd) write_env \<Rightarrow> string \<Rightarrow> string \<Rightarrow> string \<Rightarrow> string option \<Rightarrow> 's write_state \<Rightarrow> 's write_state \<times> (ApiError + int)" where
  "BlobApi_checkBlobExists E client layer handle billing_tag s =
     (let r = write_request client (''/layers/'' @ layer @ ''/data/'' @ handle) ''HEAD'' (billing billing_tag) accept_json None [];
          (s, response) = call_write E r s in
      (s, if hr_status response = 200 \<or> hr_status response = 404 then Inr (hr_status response)
          else Inl (ApiError_status (hr_status response))))"

definition PublishApi_InitPublication ::
  "('s, 'd) write_env \<Rightarrow> string \<Rightarrow> Publication \<Rightarrow> string option \<Rightarrow> 's write_state \<Rightarrow> ('s write_state \<times> (ApiError + Publication)) option" where
  "PublishApi_InitPublication E client publication billing_tag s =
     (let r = write_request client ''/publications'' ''POST'' (billing billing_tag) accept_json
            (Some (lib_text (we_json E) (to_json_Publication publication))) ''application/json'';
          (s, response) = call_write E r s in
      map_option (\<lambda>r. (s, r)) (write_result E (from_json_Publication (lib_numbers (we_json E))) response))"

definition PublishApi_UploadPartitions ::
  "('s, 'd) write_env \<Rightarrow> string \<Rightarrow> PublishPartition list option \<Rightarrow> string \<Rightarrow> string \<Rightarrow> string option
    \<Rightarrow> 's write_state \<Rightarrow> 's write_state \<times> (ApiError + unit)" where
  "PublishApi_UploadPartitions E client publish_partitions publication_id layer billing_tag s =
     (let r = write_request client (''/layers/'' @ layer @ ''/publications/'' @ publication_id @ ''/partitions'') ''POST''
            (billing billing_tag) accept_json (Some (lib_text (we_json E) (to_json_PublishPartitions publish_partitions)))
            ''application/json'';
          (s, response) = call_write E r s in
      (s, no_result (\<lambda>status. status = 204) response))"

definition PublishApi_SubmitPublication ::
  "('s, 'd) write_env \<Rightarrow> string \<Rightarrow> string \<Rightarrow> string option \<Rightarrow> 's write_state \<Rightarrow> 's write_state \<times> (ApiError + unit)" where
  "PublishApi_SubmitPublication E client publication_id billing_tag s =
     (let r = write_request client (''/publications/'' @ publication_id) ''PUT'' (billing billing_tag) accept_json None ''application/json'';
          (s, response) = call_write E r s in
      (s, no_result (\<lambda>status. status = 204) response))"

definition PublishApi_GetPublication ::
  "('s, 'd) write_env \<Rightarrow> string \<Rightarrow> string \<Rightarrow> string option \<Rightarrow> 's write_state \<Rightarrow> ('s write_state \<times> (ApiError + Publication)) option" where
  "PublishApi_GetPublication E client publication_id billing_tag s =
     (let r = write_request client (''/publications/'' @ publication_id) ''GET'' (billing billing_tag) accept_json None ''application/json'';
          (s, response) = call_write E r s in
      map_option (\<lambda>r. (s, r)) (write_result E (from_json_Publication (lib_numbers (we_json E))) response))"

definition PublishApi_CancelPublication ::
  "('s, 'd) write_env \<Rightarrow> string \<Rightarrow> string \<Rightarrow> string option \<Rightarrow> 's write_state \<Rightarrow> 's write_state \<times> (ApiError + unit)" where
  "PublishApi_CancelPublication E client publication_id billing_tag s =
     (let r = write_request client (''/publications/'' @ publication_id) ''DELETE'' (billing billing_tag) accept_json None ''application/json'';
          (s, response) = call_write E r s in
      (s, no_result (\<lambda>status. status = 204) response))"

text \<open>Every status up to \<open>CREATED\<close> is a success, also the negative ones of a transfer that failed.\<close>

definition IndexApi_InsertIndexes ::
  "('s, 'd) write_env \<Rightarrow> string \<Rightarrow> write_index \<Rightarrow> string \<Rightarrow> string option \<Rightarrow> 's write_state \<Rightarrow> 's write_state \<times> (ApiError + unit)" where
  "IndexApi_InsertIndexes E client indexes layer billing_tag s =
     (let r = write_request client (''/layers/'' @ layer) ''POST'' (billing billing_tag) accept_json
            (Some (lib_text (we_json E) (to_json_IndexInfo indexes))) ''application/json'';
          (s, response) = call_write E r s in
      (s, no_result (\<lambda>status. \<not> 201 < status) response))"

definition IndexApi_performUpdate ::
  "('s, 'd) write_env \<Rightarrow> string \<Rightarrow> UpdateIndexRequest \<Rightarrow> string option \<Rightarrow> 's write_state \<Rightarrow> 's write_state \<times> (ApiError + unit)" where
  "IndexApi_performUpdate E client request billing_tag s =
     (let r = write_request client (''/layers/'' @ ui_layer_id request) ''PUT'' (billing billing_tag) accept_json
            (Some (lib_text (we_json E) (to_json_UpdateIndexRequest request))) ''application/json'';
          (s, response) = call_write E r s in
      (s, no_result (\<lambda>status. \<not> 201 < status) response))"

text \<open>\<open>concatStringArray\<close> of an empty vector is undefined.\<close>

definition concat_strings :: "string list \<Rightarrow> string \<Rightarrow> string option" where
  "concat_strings strings delimiter = (if strings = [] then None else Some (ConcatStringArray strings delimiter))"

definition write_QueryApi_GetPartitionsById ::
  "('s, 'd) write_env \<Rightarrow> string \<Rightarrow> string \<Rightarrow> string list \<Rightarrow> u64 option \<Rightarrow> string list option \<Rightarrow> string option
    \<Rightarrow> 's write_state \<Rightarrow> ('s write_state \<times> (ApiError + WritePartition list)) option" where
  "write_QueryApi_GetPartitionsById E client layer partition_ids version additional_fields billing_tag s = do {
     partitions \<leftarrow> concat_strings partition_ids ''&partition='';
     additional \<leftarrow> (case additional_fields of None \<Rightarrow> Some None | Some names \<Rightarrow> map_option Some (concat_strings names '',''));
     let query = mm_emplace_opt ''additionalFields'' additional [(''partition'', partitions)];
     let query = mm_emplace_opt ''billingTag'' billing_tag query;
     let query = mm_emplace_opt ''version'' (map_option to_string_int64 version) query;
     let (s, response) = call_write E (write_request client (''/layers/'' @ layer @ ''/partitions'') ''GET'' query accept_json None []) s;
     map_option (\<lambda>r. (s, r)) (write_result E (from_json_WritePartitions (lib_numbers (we_json E))) response) }"

definition write_MetadataApi_GetLatestCatalogVersion ::
  "('s, 'd) write_env \<Rightarrow> string \<Rightarrow> u64 \<Rightarrow> string option \<Rightarrow> 's write_state
    \<Rightarrow> ('s write_state \<times> api_response \<times> (ApiError + VersionResponse)) option" where
  "write_MetadataApi_GetLatestCatalogVersion E client startVersion billing_tag s =
     (let query = mm_emplace_opt ''billingTag'' billing_tag [(''startVersion'', to_string_int64 startVersion)];
          (s, response) = call_write E (write_request client ''/versions/latest'' ''GET'' query accept_json None []) s in
      map_option (\<lambda>r. (s, response, r)) (write_result E (from_json_VersionResponse (lib_numbers (we_json E))) response))"

section \<open>Addresses of services\<close>

definition GetDatastoreServerUrl :: "string \<Rightarrow> string" where
  "GetDatastoreServerUrl part =
     (case map_of [(''here'', ''data.api.platform.here.com''), (''here-dev'', ''data.api.platform.sit.here.com''),
                   (''here-cn'', ''data.api.platform.hereolp.cn''), (''here-cn-dev'', ''data.api.platform.in.hereolp.cn'')] part of
        Some server_url \<Rightarrow> ''https://api-lookup.'' @ server_url @ ''/lookup/v1''
      | None \<Rightarrow> [])"

definition CreateKeyForCache :: "string \<Rightarrow> string \<Rightarrow> string \<Rightarrow> string" where
  "CreateKeyForCache hrn service service_version = hrn @ ''::'' @ service @ ''::'' @ service_version @ ''::api''"

definition kExpiryTimeInSecs :: time_t where "kExpiryTimeInSecs = 3600"

definition lookup_apis ::
  "('s, 'd) write_env \<Rightarrow> string \<Rightarrow> string \<Rightarrow> string \<Rightarrow> 's write_state \<Rightarrow> ('s write_state \<times> (ApiError + Api list)) option" where
  "lookup_apis E found_url service service_version s =
     (if service = ''config'' then write_PlatformApi_GetApis E found_url service service_version s
      else write_ResourcesApi_GetApis E found_url (ToCatalogHRNString (we_catalog E)) service service_version s)"

text \<open>\<open>cached\<close> tells whether the settings that are given have a cache.\<close>

definition LookupApiClient ::
  "('s, 'd) write_env \<Rightarrow> bool \<Rightarrow> string \<Rightarrow> string \<Rightarrow> 's write_state \<Rightarrow> ('s write_state \<times> (ApiError + string)) option" where
  "LookupApiClient E cached service service_version s =
     (let cache_key = CreateKeyForCache (ToCatalogHRNString (we_catalog E)) service service_version in do {
        (s, url) \<leftarrow> (if cached then Get_string E cache_key s else Some (s, None));
        case url of
          Some found_url \<Rightarrow> Some (s, Inr found_url)
        | None \<Rightarrow>
            (let found_url = GetDatastoreServerUrl (hrn_partition (we_catalog E)) in
             if found_url = [] then Some (s, Inl (ApiError_code NotFound))
             else do {
               (s, api_response) \<leftarrow> lookup_apis E found_url service service_version s;
               case api_response of
                 Inl e \<Rightarrow> Some (s, Inl e)
               | Inr [] \<Rightarrow> Some (s, Inl (ApiError_code ServiceUnavailable))
               | Inr (api # apis) \<Rightarrow>
                   (let output_base_url = api_baseUrl api in
                    if cached then do {
                      (s, _) \<leftarrow> on_cache (wk_Put (we_kv E) cache_key (WString output_base_url) output_base_url kExpiryTimeInSecs) s;
                      Some (s, Inr output_base_url) }
                    else Some (s, Inr output_base_url)) }) })"

section \<open>CatalogSettings\<close>

record LayerSettings =
  ls_content_type :: string
  ls_content_encoding :: string

definition GetLayerSettingsFromModel :: "Catalog \<Rightarrow> string \<Rightarrow> ApiError + LayerSettings" where
  "GetLayerSettingsFromModel catalog layer =
     (case find (\<lambda>l. layer_id l = layer) (cat_layers catalog) of
        Some l \<Rightarrow> Inr \<lparr>ls_content_type = layer_content_type l, ls_content_encoding = layer_content_encoding l\<rparr>
      | None \<Rightarrow> Inl (ApiError_code InvalidArgument))"

definition write_parse_catalog :: "('s, 'd) write_env \<Rightarrow> string \<Rightarrow> write_value" where
  "write_parse_catalog E text =
     (case parse_text (lib_parse (we_json E)) Catalog_new (write_from_json_Catalog (lib_numbers (we_json E))) text of
        Some c \<Rightarrow> WCatalog c | None \<Rightarrow> WUndefined)"

definition GetLayerSettings ::
  "('s, 'd) write_env \<Rightarrow> string option \<Rightarrow> string \<Rightarrow> 's write_state \<Rightarrow> ('s write_state \<times> (ApiError + LayerSettings)) option" where
  "GetLayerSettings E billing_tag layer s =
     (let catalog_settings_key = ToString (we_catalog E) @ ''::catalog'' in do {
        contains \<leftarrow> wk_Contains (we_kv E) catalog_settings_key (ws_cache s);
        if \<not> contains then do {
          (s, lookup_response) \<leftarrow> LookupApiClient E True ''config'' ''v1'' s;
          case lookup_response of
            Inl e \<Rightarrow> Some (s, Inl e)
          | Inr client \<Rightarrow> do {
              (s, catalog_response) \<leftarrow> write_ConfigApi_GetCatalog E client (ToString (we_catalog E)) billing_tag s;
              case catalog_response of
                Inl e \<Rightarrow> Some (s, Inl e)
              | Inr catalog_model \<Rightarrow> do {
                  (s, _) \<leftarrow> on_cache (wk_Put (we_kv E) catalog_settings_key (WCatalog catalog_model)
                    (lib_text (we_json E) (to_json_Catalog catalog_model)) (we_default_expiration E)) s;
                  Some (s, GetLayerSettingsFromModel catalog_model layer) } } }
        else do {
          (s, cached_catalog) \<leftarrow> on_cache (wk_Get (we_kv E) catalog_settings_key (write_parse_catalog E)) s;
          case cached_catalog of
            None \<Rightarrow> Some (s, Inl (ApiError_code Unknown))
          | Some (Object (WCatalog catalog)) \<Rightarrow> Some (s, GetLayerSettingsFromModel catalog layer)
          | _ \<Rightarrow> None } })"

end
