(* ===== verification/StreamLayer.thy ===== *)
theory StreamLayer
  imports WriteApi
begin

text \<open>
  The client of a stream layer, olp-cpp-sdk-dataservice-write/src/StreamLayerClientImpl.cpp: the queue of requests that is
  kept in the cache, the flush, and the publication of data and of SDII messages. Operations on the queue run one after the
  other; the code holds the mutex of the cache in each of them, but lets go of it between the size check of \<open>Queue\<close> and its
  insertion. \<open>None\<close> is a run that is undefined (a null pointer, a bad cast) or does not return.
\<close>

section \<open>The queue\<close>

definition kTwentyMib :: int where "kTwentyMib = 20971520"

definition GetUuidListKey :: "('s, 'd) write_env \<Rightarrow> string" where
  "GetUuidListKey E = ToCatalogHRNString (we_catalog E) @ ''-stream-queue-cache''"

definition comma_count :: "string \<Rightarrow> nat" where
  "comma_count s = length (filter (\<lambda>c. c = CHR '','') s)"

text \<open>Without a cache \<open>QueueSize\<close> and \<open>PopFromQueue\<close> use a null pointer.\<close>

definition QueueSize :: "('s, 'd) write_env \<Rightarrow> 's write_state \<Rightarrow> ('s write_state \<times> nat) option" where
  "QueueSize E s =
     (if \<not> we_cache E then None
      else do {
        (s, uuid_list) \<leftarrow> Get_string E (GetUuidListKey E) s;
        Some (s, case uuid_list of Some l \<Rightarrow> comma_count l | None \<Rightarrow> 0) })"

datatype queue_error = NoCache | NoData | NoLayerId | QueueFull

definition Queue :: "('s, 'd) write_env \<Rightarrow> PublishDataRequest \<Rightarrow> 's write_state \<Rightarrow> ('s write_state \<times> queue_error option) option" where
  "Queue E request s =
     (if \<not> we_cache E then Some (s, Some NoCache)
      else if pd_data request = None then Some (s, Some NoData)
      else if pd_layer_id request = [] then Some (s, Some NoLayerId)
      else do {
        (s, queued) \<leftarrow> QueueSize E s;
        if \<not> queued < we_maximum_requests E then Some (s, Some QueueFull)
        else do {
          let (s, publish_data_key) = GenerateUuid E s;
          (s, _) \<leftarrow> on_cache (wk_Put (we_kv E) publish_data_key (WRequest request)
             (lib_text (we_json E) (to_json_PublishDataRequest request)) WithoutExpiry) s;
          (s, uuid_list_any) \<leftarrow> Get_string E (GetUuidListKey E) s;
          let uuid_list = (case uuid_list_any of Some l \<Rightarrow> l | None \<Rightarrow> []) @ publish_data_key @ '','';
          (s, _) \<leftarrow> on_cache (wk_Put (we_kv E) (GetUuidListKey E) (WString uuid_list) uuid_list WithoutExpiry) s;
          Some (s, None) } })"

definition parse_request :: "('s, 'd) write_env \<Rightarrow> string \<Rightarrow> write_value" where
  "parse_request E text =
     (case parse_text (lib_parse (we_json E)) PublishDataRequest_new from_json_PublishDataRequest text of
        Some r \<Rightarrow> WRequest r | None \<Rightarrow> WUndefined)"

definition PopFromQueue :: "('s, 'd) write_env \<Rightarrow> 's write_state \<Rightarrow> ('s write_state \<times> PublishDataRequest option) option" where
  "PopFromQueue E s =
     (if \<not> we_cache E then None
      else do {
        (s, uuid_list_any) \<leftarrow> Get_string E (GetUuidListKey E) s;
        case uuid_list_any of
          None \<Rightarrow> Some (s, None)
        | Some uuid_list \<Rightarrow>
            if CHR '','' \<notin> set uuid_list then Some (s, None)
            else do {
              let publish_data_key = takeWhile (\<lambda>c. c \<noteq> CHR '','') uuid_list;
              (s, publish_data_any) \<leftarrow> on_cache (wk_Get (we_kv E) publish_data_key (parse_request E)) s;
              (s, _) \<leftarrow> on_cache (wk_Remove (we_kv E) publish_data_key) s;
              let uuid_list = drop (length publish_data_key + 1) uuid_list;
              (s, _) \<leftarrow> on_cache (wk_Put (we_kv E) (GetUuidListKey E) (WString uuid_list) uuid_list WithoutExpiry) s;
              case publish_data_any of
                None \<Rightarrow> Some (s, None)
              | Some (Object (WRequest r)) \<Rightarrow> Some (s, Some r)
              | _ \<Rightarrow> None } })"

section \<open>Publication\<close>

definition layer_settings_of ::
  "('s, 'd) write_env \<Rightarrow> string option \<Rightarrow> string \<Rightarrow> 's write_state \<Rightarrow> ('s write_state \<times> (ApiError + LayerSettings)) option" where
  "layer_settings_of E billing_tag layer s = do {
     (s, layer_settings_result) \<leftarrow> GetLayerSettings E billing_tag layer s;
     case layer_settings_result of
       Inl e \<Rightarrow> Some (s, Inl e)
     | Inr layer_settings \<Rightarrow>
         if ls_content_type layer_settings = [] then Some (s, Inl (ApiError_code InvalidArgument))
         else Some (s, Inr layer_settings) }"

definition PublishDataLessThanTwentyMib ::
  "('s, 'd) write_env \<Rightarrow> PublishDataRequest \<Rightarrow> 's write_state \<Rightarrow> ('s write_state \<times> (ApiError + string)) option" where
  "PublishDataLessThanTwentyMib E request s = do {
     (s, layer_settings_result) \<leftarrow> layer_settings_of E (pd_billing_tag request) (pd_layer_id request) s;
     case layer_settings_result of
       Inl e \<Rightarrow> Some (s, Inl e)
     | Inr layer_settings \<Rightarrow> do {
         (s, ingest_api) \<leftarrow> LookupApiClient E (we_cache E) ''ingest'' ''v1'' s;
         case ingest_api of
           Inl e \<Rightarrow> Some (s, Inl e)
         | Inr ingest_api_client \<Rightarrow>
             IngestApi_IngestData E ingest_api_client (pd_layer_id request) (ls_content_type layer_settings)
               (ls_content_encoding layer_settings) (pd_data request) (pd_trace_id request) (pd_billing_tag request)
               (pd_checksum request) s } }"

text \<open>The four requests of a publication, after the addresses are known.\<close>

definition publish_steps ::
  "('s, 'd) write_env \<Rightarrow> PublishDataRequest \<Rightarrow> LayerSettings \<Rightarrow> string \<Rightarrow> string \<Rightarrow> 's write_state
    \<Rightarrow> ('s write_state \<times> (ApiError + string)) option" where
  "publish_steps E request layer_settings publish_client blob_client s = do {
     let publication = Publication_new\<lparr>pub_layer_ids := Some [pd_layer_id request]\<rparr>;
     (s, init_response) \<leftarrow> PublishApi_InitPublication E publish_client publication (pd_billing_tag request) s;
     case init_response of
       Inl e \<Rightarrow> Some (s, Inl e)
     | Inr pub \<Rightarrow>
         (case pub_id pub of
            None \<Rightarrow> Some (s, Inl (ApiError_code InvalidArgument))
          | Some publication_id \<Rightarrow>
              (let (s, handle) = GenerateUuid E s;
                   (s, put_blob_response) = BlobApi_PutBlob E blob_client (pd_layer_id request) (ls_content_type layer_settings)
                     (ls_content_encoding layer_settings) handle (pd_data request) (pd_billing_tag request) s in
               case put_blob_response of
                 Inl e \<Rightarrow> Some (s, Inl e)
               | Inr _ \<Rightarrow>
                   (let (s, partition_id) = (case pd_trace_id request of Some t \<Rightarrow> (s, t) | None \<Rightarrow> GenerateUuid E s);
                        publish_partition = PublishPartition_new\<lparr>pp_partition := Some partition_id, pp_data_handle := Some handle\<rparr>;
                        (s, upload_response) = PublishApi_UploadPartitions E publish_client (Some [publish_partition]) publication_id
                          (pd_layer_id request) (pd_billing_tag request) s in
                    case upload_response of
                      Inl e \<Rightarrow> Some (s, Inl e)
                    | Inr _ \<Rightarrow>
                        (let (s, submit_response) = PublishApi_SubmitPublication E publish_client publication_id (pd_billing_tag request) s in
                         case submit_response of
                           Inl e \<Rightarrow> Some (s, Inl e)
                         | Inr _ \<Rightarrow> Some (s, Inr partition_id))))) }"

definition PublishDataGreaterThanTwentyMib ::
  "('s, 'd) write_env \<Rightarrow> PublishDataRequest \<Rightarrow> 's write_state \<Rightarrow> ('s write_state \<times> (ApiError + string)) option" where
  "PublishDataGreaterThanTwentyMib E request s = do {
     (s, layer_settings_result) \<leftarrow> layer_settings_of E (pd_billing_tag request) (pd_layer_id request) s;
     case layer_settings_result of
       Inl e \<Rightarrow> Some (s, Inl e)
     | Inr layer_settings \<Rightarrow> do {
         (s, publish_client_response) \<leftarrow> LookupApiClient E (we_cache E) ''publish'' ''v2'' s;
         case publish_client_response of
           Inl e \<Rightarrow> Some (s, Inl e)
         | Inr publish_client \<Rightarrow> do {
             (s, blob_client_response) \<leftarrow> LookupApiClient E (we_cache E) ''blob'' ''v1'' s;
             case blob_client_response of
               Inl e \<Rightarrow> Some (s, Inl e)
             | Inr blob_client \<Rightarrow> publish_steps E request layer_settings publish_client blob_client s } } }"

text \<open>\<open>request.GetData()->size()\<close> of a request without data is undefined.\<close>

definition PublishDataTask ::
  "('s, 'd) write_env \<Rightarrow> PublishDataRequest \<Rightarrow> 's write_state \<Rightarrow> ('s write_state \<times> (ApiError + string)) option" where
  "PublishDataTask E request s =
     (case pd_data request of
        None \<Rightarrow> None
      | Some data \<Rightarrow>
          if int (length data) \<le> kTwentyMib then PublishDataLessThanTwentyMib E request s
          else PublishDataGreaterThanTwentyMib E request s)"

text \<open>A task is skipped when its context is cancelled before it runs.\<close>

definition run_task ::
  "('s, 'd) write_env \<Rightarrow> ('s write_state \<Rightarrow> ('s write_state \<times> (ApiError + 'r)) option) \<Rightarrow> 's write_state
    \<Rightarrow> ('s write_state \<times> (ApiError + 'r)) option" where
  "run_task E task s =
     (let (s, cancelled) = look_cancelled E s in
      if cancelled then Some (s, Inl (ApiError_code Cancelled)) else task s)"

definition PublishData ::
  "('s, 'd) write_env \<Rightarrow> PublishDataRequest \<Rightarrow> 's write_state \<Rightarrow> ('s write_state \<times> (ApiError + string)) option" where
  "PublishData E request s =
     (if pd_data request = None then Some (s, Inl (ApiError_code InvalidArgument)) else run_task E (PublishDataTask E request) s)"

definition IngestSdii ::
  "('s, 'd) write_env \<Rightarrow> PublishSdiiRequest \<Rightarrow> 's write_state \<Rightarrow> ('s write_state \<times> (ApiError + TraceID)) option" where
  "IngestSdii E request s = do {
     (s, api_response) \<leftarrow> LookupApiClient E (we_cache E) ''ingest'' ''v1'' s;
     case api_response of
       Inl e \<Rightarrow> Some (s, Inl e)
     | Inr client \<Rightarrow> IngestApi_IngestSdii E client (sdii_layer_id request) (sdii_message_list request) (sdii_trace_id request)
         (sdii_billing_tag request) (sdii_checksum request) s }"

definition PublishSdiiTask ::
  "('s, 'd) write_env \<Rightarrow> PublishSdiiRequest \<Rightarrow> 's write_state \<Rightarrow> ('s write_state \<times> (ApiError + TraceID)) option" where
  "PublishSdiiTask E request s =
     (if sdii_message_list request = None then Some (s, Inl (ApiError_code InvalidArgument))
      else if sdii_layer_id request = [] then Some (s, Inl (ApiError_code InvalidArgument))
      else IngestSdii E request s)"

definition PublishSdii ::
  "('s, 'd) write_env \<Rightarrow> PublishSdiiRequest \<Rightarrow> 's write_state \<Rightarrow> ('s write_state \<times> (ApiError + TraceID)) option" where
  "PublishSdii E request s = run_task E (PublishSdiiTask E request) s"

section \<open>Flush\<close>

text \<open>The loop of \<open>Flush\<close>. The counter is a mathematical integer.\<close>

partial_function (option) flush_loop ::
  "('s, 'd) write_env \<Rightarrow> int \<Rightarrow> int \<Rightarrow> (ApiError + string) list \<Rightarrow> 's write_state
    \<Rightarrow> ('s write_state \<times> (ApiError + string) list) option" where
  "flush_loop E maximum counter responses s =
     (if \<not> (maximum = 0 \<or> counter < maximum) then Some (s, responses)
      else do {
        (s, queued) \<leftarrow> QueueSize E s;
        if \<not> 0 < queued then Some (s, responses)
        else
          (let (s, cancelled) = look_cancelled E s in
           if cancelled then Some (s, responses)
           else do {
             (s, publish_request) \<leftarrow> PopFromQueue E s;
             case publish_request of
               None \<Rightarrow> flush_loop E maximum counter responses s
             | Some request \<Rightarrow> do {
                 (s, publish_response) \<leftarrow> PublishDataTask E request s;
                 let responses = responses @ [publish_response];
                 (let (s, cancelled) = look_cancelled E s in
                  if cancelled then do { (s, _) \<leftarrow> Queue E request s; Some (s, responses) }
                  else flush_loop E maximum (counter + 1) responses s) } }) })"

declare flush_loop.simps [code]

definition flush_execute ::
  "('s, 'd) write_env \<Rightarrow> int \<Rightarrow> 's write_state \<Rightarrow> ('s write_state \<times> (ApiError + string) list) option" where
  "flush_execute E maximum s = (if maximum < 0 then Some (s, []) else flush_loop E maximum 0 [] s)"

text \<open>The task of \<open>Flush\<close>: the arguments of the calls of the callback, by the execution and by the completion.\<close>

definition Flush ::
  "('s, 'd) write_env \<Rightarrow> int \<Rightarrow> 's write_state \<Rightarrow> ('s write_state \<times> (ApiError + string) list list) option" where
  "Flush E maximum s =
     (let (s, cancelled) = look_cancelled E s in do {
        (s, exec_started, calls) \<leftarrow>
          (if cancelled then Some (s, False, [])
           else map_option (\<lambda>(s, responses). (s, True, [responses])) (flush_execute E maximum s));
        Some (s, if exec_started then calls else calls @ [[]]) })"

end
