(* ===== verification/KeepingCache.thy ===== *)
theory KeepingCache
  imports WriteApi
begin

text \<open>
  What the write service may expect of its cache, as a contract, and that the default cache meets it when it has no disk
  cache and its memory cache has no limit (the greatest maximum size). Entries without an expiry time are kept, entries
  with one may be forgotten at any time, and nothing that was overwritten or removed comes back.
\<close>

section \<open>The contract\<close>

text \<open>\<open>holds s f X\<close>: everything the cache can return is in \<open>f\<close>, and the contents of the keys in \<open>X\<close> are exactly those
of \<open>f\<close>. A key that was stored with an expiry time leaves \<open>X\<close> for good: its registration can remove a later value.\<close>

locale keeping_cache =
  fixes K :: "time_t \<Rightarrow> 's write_kv"
    and holds :: "'s \<Rightarrow> (string \<Rightarrow> write_value option) \<Rightarrow> string set \<Rightarrow> bool"
    and now_ok :: "time_t \<Rightarrow> bool"
    and expiry_ok :: "time_t \<Rightarrow> time_t \<Rightarrow> bool"
  assumes get_law: "holds s f X \<Longrightarrow> now_ok now \<Longrightarrow>
      \<exists>s' r. wk_Get (K now) key decoder s = Some (s', r) \<and> holds s' f X
        \<and> (r = None \<or> r = map_option Object (f key)) \<and> (key \<in> X \<longrightarrow> r = map_option Object (f key))"
    and put_law: "holds s f X \<Longrightarrow> now_ok now \<Longrightarrow> expiry = WithoutExpiry \<or> expiry_ok now expiry \<Longrightarrow>
      \<exists>s'. wk_Put (K now) key v encoded expiry s = Some (s', True)
        \<and> holds s' (f(key \<mapsto> v)) (if expiry = WithoutExpiry then X else X - {key})"
    and contains_law: "holds s f X \<Longrightarrow> now_ok now \<Longrightarrow> \<exists>r. wk_Contains (K now) key s = Some r \<and> (r \<longrightarrow> f key \<noteq> None)"
    and remove_law: "holds s f X \<Longrightarrow> now_ok now \<Longrightarrow>
      \<exists>s' r. wk_Remove (K now) key s = Some (s', r) \<and> holds s' (f(key := None)) X"

section \<open>A memory cache without a limit\<close>

definition unlimited :: "'a in_memory_cache \<Rightarrow> bool" where
  "unlimited s \<longleftrightarrow> lru_max_size (item_tuples s) = - 1"

lemma not_over_limit [simp]: "\<not> (- 1 :: u64) < x"
  by (simp add: not_less)

lemma al_insert_unlimited: "al_insert f (- 1) k v l = (k, v) # om_delete k l"
  by (auto simp: al_insert_def om_delete_fresh al_evict.simps [of f "- 1"] split: option.split)

lemma unlimited_config: "same_config (item_tuples s) c \<Longrightarrow> lru_max_size c = lru_max_size (item_tuples s)"
  by (simp add: same_config_def)

lemma registered_item_tuples [simp]: "registered P (s\<lparr>item_tuples := c\<rparr>) = registered P s"
  by (simp add: registered_def keys_at_def)

lemma registered_subset:
  assumes "\<And>e. map_of (item_expiries s') e = None \<or> map_of (item_expiries s') e = map_of (item_expiries s) e"
  shows "registered P s' \<subseteq> registered P s"
proof -
  have "keys_at e s' \<subseteq> keys_at e s" for e using assms [of e] by (auto simp: keys_at_def)
  then show ?thesis by (auto simp: registered_def)
qed

lemma registered_register:
  "registered P (register_expiry t v s) \<subseteq> insert (tuple_key v) (registered P s)"
proof -
  have "keys_at e (register_expiry t v s) \<subseteq> insert (tuple_key v) (keys_at e s)" for e
    by (cases "map_of (item_expiries s) t") (auto simp: keys_at_def register_expiry_def expiries_at_def)
  then show ?thesis by (fastforce simp: registered_def)
qed

lemma map_of_filter_keep: "k \<notin> B \<Longrightarrow> map_of (filter (\<lambda>p. fst p \<notin> B) l) k = map_of l k"
  by (induction l) auto

text \<open>What a memory cache holds when it has no limit.\<close>

definition memory_kept :: "'a in_memory_cache \<Rightarrow> (string \<times> 'a item_tuple) list \<Rightarrow> string set \<Rightarrow> bool" where
  "memory_kept s l X \<longleftrightarrow> imc_rel s l \<and> unlimited s \<and> X \<inter> registered (\<lambda>_. True) s = {}
     \<and> (\<forall>k\<in>X. \<forall>t. map_of l k = Some t \<longrightarrow> tuple_expiry t = time_max)"

lemma registered_mono: "(\<And>e. P e \<Longrightarrow> Q e) \<Longrightarrow> registered P s \<subseteq> registered Q s"
  by (auto simp: registered_def)

lemma memory_kept_filter:
  assumes "memory_kept s l X" and "imc_rel s' (filter (\<lambda>p. fst p \<notin> registered P s) l)"
    and "\<And>e. map_of (item_expiries s') e = None \<or> map_of (item_expiries s') e = map_of (item_expiries s) e"
    and "same_config (item_tuples s) (item_tuples s')"
  shows "memory_kept s' (filter (\<lambda>p. fst p \<notin> registered P s) l) X
    \<and> (\<forall>k\<in>X. map_of (filter (\<lambda>p. fst p \<notin> registered P s) l) k = map_of l k)"
proof -
  have d: "X \<inter> registered (\<lambda>_. True) s = {}" using assms(1) by (simp add: memory_kept_def)
  have sub: "registered P s \<subseteq> registered (\<lambda>_. True) s" by (rule registered_mono) simp
  have k: "map_of (filter (\<lambda>p. fst p \<notin> registered P s) l) k = map_of l k" if "k \<in> X" for k
    by (rule map_of_filter_keep) (use that d sub in blast)
  have "X \<inter> registered (\<lambda>_. True) s' = {}"
    using d registered_subset [of s' s "\<lambda>_. True", OF assms(3)] by blast
  with k assms show ?thesis by (auto simp: memory_kept_def unlimited_def unlimited_config)
qed

lemma memory_kept_put:
  assumes k: "memory_kept s l X" and ok: "0 < e" "e \<noteq> time_max \<longrightarrow> time_add e now \<noteq> None"
  shows "\<exists>s' b l'. InMemoryCache_Put key v e sz now now s = Some (s', b)
    \<and> memory_kept s' l' (if e = time_max then X else X - {key})
    \<and> map_of l' \<subseteq>\<^sub>m (map_of l)(key \<mapsto> the_tuple key v e sz now)
    \<and> (\<forall>k\<in>X. map_of l' k = ((map_of l)(key \<mapsto> the_tuple key v e sz now)) k)"
proof -
  let ?l = "filter (\<lambda>p. fst p \<notin> registered (\<lambda>e. e < now) s) l" and ?t = "the_tuple key v e sz now"
  have r: "imc_rel s l" using k by (simp add: memory_kept_def)
  from PurgeExpired_rel [OF r, of now] obtain s1 r1
    where s1: "PurgeExpired now s = Some (s1, r1)" "imc_rel s1 ?l"
      "map_of (item_expiries s1) = (\<lambda>e. if e < now then None else map_of (item_expiries s) e)"
      "same_config (item_tuples s) (item_tuples s1)" by blast
  have k1: "memory_kept s1 ?l X" "\<And>x. x \<in> X \<Longrightarrow> map_of ?l x = map_of l x"
    using memory_kept_filter [OF k s1(2) _ s1(4)] s1(3) by auto
  let ?c = "item_tuples s1" and ?l' = "(key, ?t) # om_delete key ?l"
  from k1(1) have mx: "lru_max_size ?c = - 1" by (simp add: memory_kept_def unlimited_def)
  from s1(2) have rl: "lru_rel ?c ?l" and ok1: "om_ok (item_expiries s1)" by (auto simp: imc_rel_def)
  have nref: "\<not> refused ?c key ?t ?l" using mx by (simp add: refused_def)
  from InsertOrAssign_rel [OF rl, of key ?t] obtain c evs it ins
    where c: "InsertOrAssign key ?t ?c = Some (c, evs, it, ins)" "lru_rel c ?l'" "evs = []" "same_config ?c c"
    using nref by (auto simp: mx al_insert_unlimited evicted_def)
  let ?s = "s1\<lparr>item_tuples := c\<rparr>"
  let ?s' = "if ins \<and> HasExpiry e then register_expiry (tuple_expiry ?t) ?t ?s else ?s"
  have "InMemoryCache_Put key v e sz now now s = Some (?s', ins)"
  proof (cases "HasExpiry e")
    case True
    with ok have "time_add e now = Some (e + now)" by (auto simp: HasExpiry_def kExpiryMax_def)
    with True ok s1(1) c(1,3) show ?thesis
      by (simp add: InMemoryCache_Put_def the_tuple_def del: time_add_Some)
  next
    case noexp: False
    with s1(1) c(1,3) show ?thesis by (simp add: InMemoryCache_Put_def the_tuple_def)
  qed
  moreover have keys: "\<forall>(k, t) \<in> set ?l'. tuple_key t = k"
    using s1(2) by (auto simp: imc_rel_def the_tuple_def om_delete_def)
  moreover have "memory_kept ?s' ?l' (if e = time_max then X else X - {key})"
  proof -
    have "imc_rel ?s' ?l'" using c(2) keys ok1 by (auto simp: imc_rel_def)
    moreover have "unlimited ?s'" using unlimited_config [OF c(4)] mx by (simp add: unlimited_def)
    moreover have "(if e = time_max then X else X - {key}) \<inter> registered (\<lambda>_. True) ?s' = {}"
    proof -
      have d: "X \<inter> registered (\<lambda>_. True) s1 = {}" using k1(1) by (simp add: memory_kept_def)
      have "tuple_key ?t = key" by (simp add: the_tuple_def)
      with registered_register [of "\<lambda>_. True" "tuple_expiry ?t" ?t ?s] d show ?thesis
        by (auto simp: HasExpiry_def kExpiryMax_def)
    qed
    moreover have "tuple_expiry t = time_max"
      if "x \<in> (if e = time_max then X else X - {key})" "map_of ?l' x = Some t" for x t
    proof (cases "x = key")
      case True
      with that have "t = ?t" "e = time_max" by (simp_all split: if_splits)
      then show ?thesis by (simp add: the_tuple_def HasExpiry_def kExpiryMax_def)
    next
      case False
      with that have "map_of ?l x = Some t" "x \<in> X" by (simp_all add: keeps split: if_splits)
      with k1(1) show ?thesis by (simp add: memory_kept_def)
    qed
    ultimately show ?thesis by (auto simp: memory_kept_def)
  qed
  moreover have "map_of ?l' \<subseteq>\<^sub>m (map_of l)(key \<mapsto> ?t)"
    using map_of_filter_le [of "\<lambda>x. x \<notin> registered (\<lambda>e. e < now) s" l]
    by (auto simp: map_le_def keeps dom_def)
  moreover have "map_of ?l' x = ((map_of l)(key \<mapsto> ?t)) x" if "x \<in> X" for x
    using k1(2) [OF that] by (simp add: keeps)
  ultimately show ?thesis by blast
qed

lemma memory_kept_get:
  assumes k: "memory_kept s l X" and now: "now < time_max"
  shows "\<exists>s' l' r. InMemoryCache_Get key now s = Some (s', r) \<and> memory_kept s' l' X
    \<and> r = (case map_of l key of None \<Rightarrow> None | Some t \<Rightarrow> if tuple_expiry t < now then None else tuple_item t)
    \<and> map_of l' \<subseteq>\<^sub>m map_of l \<and> (\<forall>k\<in>X. map_of l' k = map_of l k)"
proof -
  have r: "imc_rel s l" using k by (simp add: memory_kept_def)
  then have rl: "lru_rel (item_tuples s) l" and ok: "om_ok (item_expiries s)" and keys: "\<forall>(k, t) \<in> set l. tuple_key t = k"
    by (simp_all add: imc_rel_def)
  from Find_rel [OF rl, of key] obtain c
    where c: "LruCache.Find key (item_tuples s) = Some (c, if map_of l key = None then None else Some key)"
      "lru_rel c (al_promote key l)" "same_config (item_tuples s) c" by blast
  let ?s = "s\<lparr>item_tuples := c\<rparr>" and ?l = "al_promote key l"
  have m: "map_of ?l = map_of l" by (auto simp: al_promote_def split: option.split)
  have "set ?l \<subseteq> set l" by (auto simp: al_promote_def om_delete_def dest: map_of_SomeD split: option.splits)
  with c(2) ok keys have s: "imc_rel ?s ?l" by (auto simp: imc_rel_def)
  with k c(3) have ks: "memory_kept ?s ?l X" by (simp add: memory_kept_def m unlimited_def unlimited_config)
  show ?thesis
  proof (cases "map_of l key")
    case None
    with c ks m show ?thesis by (auto simp: InMemoryCache_Get_def)
  next
    case (Some t)
    show ?thesis
    proof (cases "tuple_expiry t < now")
      case True
      let ?e = "tuple_expiry t"
      from PurgeExpired_at_rel [OF s, of ?e] obtain s1 r1 where p: "PurgeExpired_at ?e ?s = Some (s1, r1)"
        "imc_rel s1 (filter (\<lambda>p. fst p \<notin> registered (\<lambda>e. e = ?e) ?s) ?l)"
        "map_of (item_expiries s1) = (map_of (item_expiries ?s))(?e := None)" "same_config (item_tuples ?s) (item_tuples s1)" by blast
      have "memory_kept s1 (filter (\<lambda>p. fst p \<notin> registered (\<lambda>e. e = ?e) ?s) ?l) X
          \<and> (\<forall>k\<in>X. map_of (filter (\<lambda>p. fst p \<notin> registered (\<lambda>e. e = ?e) ?s) ?l) k = map_of ?l k)"
        using memory_kept_filter [OF ks p(2) _ p(4)] p(3) by auto
      moreover have "map_of (filter (\<lambda>p. fst p \<notin> registered (\<lambda>e. e = ?e) ?s) ?l) \<subseteq>\<^sub>m map_of l"
        unfolding m [symmetric] by (rule map_of_filter_le)
      moreover have "InMemoryCache_Get key now s = Some (s1, None)"
        using Some True c m p(1) by (simp add: InMemoryCache_Get_def)
      ultimately show ?thesis using Some True m by auto
    next
      case False
      then have "InMemoryCache_Get key now s = Some (?s, tuple_item t)" using Some c m by (simp add: InMemoryCache_Get_def)
      with False Some ks m show ?thesis by auto
    qed
  qed
qed

lemma memory_kept_remove:
  assumes "memory_kept s l X"
  shows "\<exists>s'. InMemoryCache_Remove key s = Some (s', map_of l key \<noteq> None) \<and> memory_kept s' (om_delete key l) X"
proof -
  have r: "lru_rel (item_tuples s) l" using assms by (simp add: memory_kept_def imc_rel_def)
  from Erase_rel [OF this, of key] obtain c where
    c: "Erase key (item_tuples s) = Some (c, map_of l key \<noteq> None)" "same_config (item_tuples s) c" "lru_rel c (om_delete key l)" by blast
  then have "InMemoryCache_Remove key s = Some (s\<lparr>item_tuples := c\<rparr>, map_of l key \<noteq> None)" by (simp add: InMemoryCache_Remove_def)
  moreover have "memory_kept (s\<lparr>item_tuples := c\<rparr>) (om_delete key l) X"
  proof -
    have "\<forall>(k, t) \<in> set (om_delete key l). tuple_key t = k"
      using assms by (auto simp: memory_kept_def imc_rel_def om_delete_def)
    with assms c unlimited_config [OF c(2)] show ?thesis
      by (auto simp: memory_kept_def imc_rel_def unlimited_def split: if_splits)
  qed
  ultimately show ?thesis by blast
qed

section \<open>The default cache without disk caches and without a limit\<close>

definition plain_memory :: "('a, 'db) default_cache \<Rightarrow> bool" where
  "plain_memory s \<longleftrightarrow> is_open s \<and> mutable_cache s = None \<and> mutable_cache_lru s = None \<and> protected_cache s = None
     \<and> (\<forall>k. \<not> IsProtected k (protected_keys s))"

definition kept :: "(write_value, 'db) default_cache \<Rightarrow> (string \<Rightarrow> write_value option) \<Rightarrow> string set \<Rightarrow> bool" where
  "kept s f X \<longleftrightarrow> plain_memory s \<and> (\<exists>mem l. memory_cache s = Some mem \<and> memory_kept mem l X
     \<and> (\<forall>k t. map_of l k = Some t \<longrightarrow> (\<exists>v. tuple_item t = Some (Object v) \<and> f k = Some v))
     \<and> (\<forall>k\<in>X. map_of l k = None \<longrightarrow> f k = None))"

definition clock_ok :: "time_t \<Rightarrow> bool" where
  "clock_ok now \<longleftrightarrow> now < time_max"

definition lifetime_ok :: "time_t \<Rightarrow> time_t \<Rightarrow> bool" where
  "lifetime_ok now e \<longleftrightarrow> 0 < e \<and> (e \<noteq> time_max \<longrightarrow> time_add e now \<noteq> None)"

lemma plain_memory_update [simp]: "plain_memory (s\<lparr>memory_cache := m\<rparr>) = plain_memory s"
  by (simp add: plain_memory_def)

lemma keptI:
  assumes "plain_memory s" and "memory_cache s = Some mem" and "memory_kept mem l X"
    and "\<And>k t. map_of l k = Some t \<Longrightarrow> \<exists>v. tuple_item t = Some (Object v) \<and> f k = Some v"
    and "\<And>k. k \<in> X \<Longrightarrow> map_of l k = None \<Longrightarrow> f k = None"
  shows "kept s f X"
  using assms unfolding kept_def by blast

lemma keptE:
  assumes "kept s f X"
  obtains mem l where "plain_memory s" "memory_cache s = Some mem" "memory_kept mem l X"
    "\<And>k t. map_of l k = Some t \<Longrightarrow> \<exists>v. tuple_item t = Some (Object v) \<and> f k = Some v"
    "\<And>k. k \<in> X \<Longrightarrow> map_of l k = None \<Longrightarrow> f k = None"
  using assms unfolding kept_def by blast

lemma time_max_pos [simp]: "0 < time_max"
  by (simp add: time_max_def)

lemma kept_get:
  assumes "kept s f X" and "clock_ok now"
  shows "\<exists>s' r. memory_get now key s = Some (s', r) \<and> kept s' f X
    \<and> (r = None \<or> r = map_option Object (f key)) \<and> (key \<in> X \<longrightarrow> r = map_option Object (f key))"
proof -
  from assms(1) obtain mem l where m: "plain_memory s" "memory_cache s = Some mem" "memory_kept mem l X"
    "\<And>k t. map_of l k = Some t \<Longrightarrow> \<exists>v. tuple_item t = Some (Object v) \<and> f k = Some v"
    "\<And>k. k \<in> X \<Longrightarrow> map_of l k = None \<Longrightarrow> f k = None" by (rule keptE) blast
  define r where "r = (case map_of l key of None \<Rightarrow> None | Some t \<Rightarrow> if tuple_expiry t < now then None else tuple_item t)"
  from memory_kept_get [OF m(3), of now key] assms(2) obtain mem' l' where g: "InMemoryCache_Get key now mem = Some (mem', r)"
    "memory_kept mem' l' X" "map_of l' \<subseteq>\<^sub>m map_of l" "\<forall>k\<in>X. map_of l' k = map_of l k" unfolding r_def clock_ok_def by blast
  let ?s = "s\<lparr>memory_cache := Some mem'\<rparr>"
  have "memory_get now key s = Some (?s, r)"
    using m(1,2) g(1) by (cases r) (simp_all add: memory_get_def plain_memory_def PromoteKeyLru_def Let_def)
  moreover have "kept ?s f X"
  proof (rule keptI)
    show "\<exists>v. tuple_item t = Some (Object v) \<and> f k = Some v" if "map_of l' k = Some t" for k t
      using m(4) [of k t] g(3) that by (force simp: map_le_def dom_def)
    show "f k = None" if "k \<in> X" "map_of l' k = None" for k using m(5) g(4) that by simp
  qed (use m(1) g(2) in simp_all)
  moreover have "r = None \<or> r = map_option Object (f key)"
    using m(4) [of key] by (auto simp: r_def split: option.splits)
  moreover have "r = map_option Object (f key)" if "key \<in> X"
  proof (cases "map_of l key")
    case None
    then show ?thesis using m(5) [OF that] by (simp add: r_def)
  next
    case (Some t)
    moreover have "tuple_expiry t = time_max" using m(3) that Some by (auto simp: memory_kept_def)
    ultimately show ?thesis using m(4) [of key t] assms(2) by (auto simp: r_def clock_ok_def)
  qed
  ultimately show ?thesis by blast
qed

lemma kept_put:
  assumes "kept s f X" and "lifetime_ok now e"
  shows "\<exists>s'. memory_put now key (Some (Object v)) e sz s = Some s'
    \<and> kept s' (f(key \<mapsto> v)) (if e = time_max then X else X - {key})"
proof -
  from assms(1) obtain mem l where m: "plain_memory s" "memory_cache s = Some mem" "memory_kept mem l X"
    "\<And>k t. map_of l k = Some t \<Longrightarrow> \<exists>v. tuple_item t = Some (Object v) \<and> f k = Some v"
    "\<And>k. k \<in> X \<Longrightarrow> map_of l k = None \<Longrightarrow> f k = None" by (rule keptE) blast
  let ?X = "if e = time_max then X else X - {key}" and ?t = "the_tuple key (Some (Object v)) e sz now"
  have e: "GetExpiryForMemoryCache key e s = e" using m(1) by (simp add: GetExpiryForMemoryCache_def plain_memory_def)
  have "0 < e" "e \<noteq> time_max \<longrightarrow> time_add e now \<noteq> None" using assms(2) by (auto simp: lifetime_ok_def)
  from memory_kept_put [OF m(3) this, of key "Some (Object v)" sz] obtain mem' b l' where
    p: "InMemoryCache_Put key (Some (Object v)) e sz now now mem = Some (mem', b)" "memory_kept mem' l' ?X"
      "map_of l' \<subseteq>\<^sub>m (map_of l)(key \<mapsto> ?t)" "\<forall>k\<in>X. map_of l' k = ((map_of l)(key \<mapsto> ?t)) k" by blast
  have "kept (s\<lparr>memory_cache := Some mem'\<rparr>) (f(key \<mapsto> v)) ?X"
  proof (rule keptI)
    show "\<exists>x. tuple_item t = Some (Object x) \<and> (f(key \<mapsto> v)) k = Some x" if "map_of l' k = Some t" for k t
    proof -
      have "((map_of l)(key \<mapsto> ?t)) k = Some t" using p(3) that by (force simp: map_le_def dom_def)
      then show ?thesis using m(4) [of k t] by (auto simp: the_tuple_def split: if_splits)
    qed
    show "(f(key \<mapsto> v)) k = None" if "k \<in> ?X" "map_of l' k = None" for k
    proof -
      have "k \<in> X" using that(1) by (auto split: if_splits)
      moreover from this have "((map_of l)(key \<mapsto> ?t)) k = None" using p(4) that(2) by simp
      ultimately show ?thesis using m(5) by (auto split: if_splits)
    qed
  qed (use m(1) p(2) in simp_all)
  then show ?thesis using m(2) p(1) e by (simp add: memory_put_def)
qed

lemma kept_remove:
  assumes "kept s f X"
  shows "\<exists>s' r. DefaultCache_Remove L key s = Some (s', r) \<and> kept s' (f(key := None)) X"
proof -
  from assms obtain mem l where m: "plain_memory s" "memory_cache s = Some mem" "memory_kept mem l X"
    "\<And>k t. map_of l k = Some t \<Longrightarrow> \<exists>v. tuple_item t = Some (Object v) \<and> f k = Some v"
    "\<And>k. k \<in> X \<Longrightarrow> map_of l k = None \<Longrightarrow> f k = None" by (rule keptE) blast
  from memory_kept_remove [OF m(3), of key] obtain mem' where
    r: "InMemoryCache_Remove key mem = Some (mem', map_of l key \<noteq> None)" "memory_kept mem' (om_delete key l) X" by blast
  let ?s = "s\<lparr>memory_cache := Some mem'\<rparr>"
  have "kept ?s (f(key := None)) X"
  proof (rule keptI)
    show "\<exists>x. tuple_item t = Some (Object x) \<and> (f(key := None)) k = Some x" if "map_of (om_delete key l) k = Some t" for k t
      using that m(4) [of k t] by (auto split: if_splits)
    show "(f(key := None)) k = None" if "k \<in> X" "map_of (om_delete key l) k = None" for k
      using that m(5) [of k] by (auto split: if_splits)
  qed (use m(1) r(2) in simp_all)
  moreover have "DefaultCache_Remove L key s = Some (?s, True)"
    using m(1,2) r(1) by (simp add: DefaultCache_Remove_def Delete_def plain_memory_def memory_remove_def RemoveKeyLru_def)
  ultimately show ?thesis by blast
qed

lemma kept_contains:
  assumes "kept s f X"
  shows "\<exists>r. DefaultCache_Contains L now key s = Some r \<and> (r \<longrightarrow> f key \<noteq> None)"
proof -
  from assms obtain mem l where m: "plain_memory s" "memory_cache s = Some mem" "memory_kept mem l X"
    "\<And>k t. map_of l k = Some t \<Longrightarrow> \<exists>v. tuple_item t = Some (Object v) \<and> f k = Some v" by (rule keptE) blast
  have "\<exists>r. InMemoryCache_Contains key now mem = Some r \<and> (r \<longrightarrow> map_of l key \<noteq> None)"
  proof -
    from m(3) have r: "lru_rel (item_tuples mem) l" by (simp add: memory_kept_def imc_rel_def)
    note FindNoPromote_rel [OF r, of key] it_value_rel [OF r, of key]
    then show ?thesis by (auto simp: InMemoryCache_Contains_def Let_def split: option.splits)
  qed
  then show ?thesis using m(1,2) m(4) [of key] by (auto simp: DefaultCache_Contains_def plain_memory_def)
qed

lemma kept_disk_miss: "kept s f X \<Longrightarrow> GetFromDiskCache L now key s = Some (s, Inl NotFound)"
  by (simp add: kept_def plain_memory_def GetFromDiskCache_def)

lemma kept_no_disk_put: "kept s f X \<Longrightarrow> PutMutableCache L now key v expiry s = Some (s, Inr ())"
  by (simp add: kept_def plain_memory_def PutMutableCache_def)

lemma kept_open: "kept s f X \<Longrightarrow> is_open s"
  by (simp add: kept_def plain_memory_def)

interpretation kept_memory: keeping_cache "default_write_kv L" kept clock_ok lifetime_ok
proof
  fix s :: "(write_value, 'a) default_cache" and f X and now :: time_t and key encoded :: string and v :: write_value
    and expiry :: time_t and decoder :: "string \<Rightarrow> write_value"
  assume h: "kept s f X" and now: "clock_ok now"
  from kept_get [OF h now, of key] obtain s1 r1 where get: "memory_get now key s = Some (s1, r1)" "kept s1 f X"
    "r1 = None \<or> r1 = map_option Object (f key)" "key \<in> X \<longrightarrow> r1 = map_option Object (f key)" by blast
  show "\<exists>s' r. wk_Get (default_write_kv L now) key decoder s = Some (s', r) \<and> kept s' f X
      \<and> (r = None \<or> r = map_option Object (f key)) \<and> (key \<in> X \<longrightarrow> r = map_option Object (f key))"
    using get kept_open [OF h] kept_disk_miss [OF get(2)]
    by (cases r1) (auto simp: default_write_kv_def DefaultCache_Get_any_def)
  show "\<exists>s'. wk_Put (default_write_kv L now) key v encoded expiry s = Some (s', True)
      \<and> kept s' (f(key \<mapsto> v)) (if expiry = WithoutExpiry then X else X - {key})"
    if "expiry = WithoutExpiry \<or> lifetime_ok now expiry"
  proof -
    have "lifetime_ok now expiry" using that by (auto simp: lifetime_ok_def WithoutExpiry_def)
    from kept_put [OF h this, of key v "len encoded"] obtain s' where
      "memory_put now key (Some (Object v)) expiry (len encoded) s = Some s'"
      "kept s' (f(key \<mapsto> v)) (if expiry = time_max then X else X - {key})" by blast
    then show ?thesis using kept_open [OF h] kept_no_disk_put
      by (fastforce simp: default_write_kv_def DefaultCache_Put_any_def WithoutExpiry_def)
  qed
  show "\<exists>r. wk_Contains (default_write_kv L now) key s = Some r \<and> (r \<longrightarrow> f key \<noteq> None)"
    using kept_contains [OF h] by (simp add: default_write_kv_def)
  show "\<exists>s' r. wk_Remove (default_write_kv L now) key s = Some (s', r) \<and> kept s' (f(key := None)) X"
    using kept_remove [OF h] by (simp add: default_write_kv_def)
qed

end
