(* ===== verification/StreamGuarantees.thy ===== *)
theory StreamGuarantees
  imports StreamLayer KeepingCache
begin

text \<open>
  What the client of a stream layer promises: its queue in the cache is a bounded first-in first-out queue, a flush
  publishes from its front in order, and a large publication is submitted only after its data and its partition were
  accepted. Everything about the queue is proved against the contract \<open>keeping_cache\<close> and applied to the default cache.
\<close>

section \<open>The queue in the cache\<close>

definition join_uuids :: "string list \<Rightarrow> string" where
  "join_uuids us = concat (map (\<lambda>u. u @ '','') us)"

text \<open>What is documented of random identifiers: hexadecimal digits and dashes, no two the same.\<close>

definition uuid_alphabet :: string where
  "uuid_alphabet = ''0123456789abcdef-''"

definition uuids_ok :: "('s, 'd) write_env \<Rightarrow> bool" where
  "uuids_ok E \<longleftrightarrow> inj (we_uuid E) \<and> (\<forall>n. set (we_uuid E n) \<subseteq> set uuid_alphabet)"

definition valid_request :: "PublishDataRequest \<Rightarrow> bool" where
  "valid_request r \<longleftrightarrow> pd_data r \<noteq> None \<and> pd_layer_id r \<noteq> []"

definition typed_values :: "('s, 'd) write_env \<Rightarrow> (string \<Rightarrow> write_value option) \<Rightarrow> bool" where
  "typed_values E f \<longleftrightarrow>
     (\<forall>service version v. f (CreateKeyForCache (ToCatalogHRNString (we_catalog E)) service version) = Some v \<longrightarrow> (\<exists>x. v = WString x))
     \<and> (\<forall>v. f (ToString (we_catalog E) @ ''::catalog'') = Some v \<longrightarrow> (\<exists>c. v = WCatalog c))"

text \<open>\<open>queue_view E f X n us q\<close>: in a cache with the contents \<open>f\<close>, exact on \<open>X\<close>, the queue \<open>q\<close> is stored under the
identifiers \<open>us\<close>, which are among the first \<open>n\<close>.\<close>

definition queue_view ::
  "('s, 'd) write_env \<Rightarrow> (string \<Rightarrow> write_value option) \<Rightarrow> string set \<Rightarrow> nat \<Rightarrow> string list \<Rightarrow> PublishDataRequest list \<Rightarrow> bool" where
  "queue_view E f X n us q \<longleftrightarrow>
     GetUuidListKey E \<in> X \<and> range (we_uuid E) \<subseteq> X \<and> typed_values E f \<and> distinct us \<and> set us \<subseteq> we_uuid E ` {..<n}
     \<and> (f (GetUuidListKey E) = Some (WString (join_uuids us)) \<or> (f (GetUuidListKey E) = None \<and> us = []))
     \<and> list_all2 (\<lambda>u r. f u = Some (WRequest r)) us q \<and> list_all valid_request q"

definition stream_queue ::
  "('s \<Rightarrow> (string \<Rightarrow> write_value option) \<Rightarrow> string set \<Rightarrow> bool) \<Rightarrow> ('s, 'd) write_env \<Rightarrow> 's write_state \<Rightarrow> PublishDataRequest list \<Rightarrow> bool" where
  "stream_queue holds E s q \<longleftrightarrow> (\<exists>f X us. holds (ws_cache s) f X \<and> queue_view E f X (ws_uuids s) us q)"

text \<open>A run that is defined and leaves the queue \<open>q\<close>, with a result in \<open>P\<close>.\<close>

definition leaves ::
  "('s \<Rightarrow> (string \<Rightarrow> write_value option) \<Rightarrow> string set \<Rightarrow> bool) \<Rightarrow> ('s, 'd) write_env \<Rightarrow> PublishDataRequest list
    \<Rightarrow> ('s write_state \<times> 'r) option \<Rightarrow> ('r \<Rightarrow> bool) \<Rightarrow> bool" where
  "leaves holds E q x P \<longleftrightarrow> (\<exists>s' r. x = Some (s', r) \<and> stream_queue holds E s' q \<and> P r)"

lemma leavesI: "stream_queue holds E s q \<Longrightarrow> P r \<Longrightarrow> leaves holds E q (Some (s, r)) P"
  by (simp add: leaves_def)

lemma leaves_bind:
  assumes "leaves holds E q x P" and "\<And>s r. stream_queue holds E s q \<Longrightarrow> P r \<Longrightarrow> leaves holds E q' (f (s, r)) Q"
  shows "leaves holds E q' (x \<bind> f) Q"
  using assms by (auto simp: leaves_def)

lemma leaves_conseq: "leaves holds E q x P \<Longrightarrow> (\<And>r. P r \<Longrightarrow> Q r) \<Longrightarrow> leaves holds E q x Q"
  by (auto simp: leaves_def)

lemma stream_queue_frame [simp]:
  "stream_queue holds E (s\<lparr>ws_requests := rs\<rparr>) q = stream_queue holds E s q"
  "stream_queue holds E (s\<lparr>ws_looks := n\<rparr>) q = stream_queue holds E s q"
  by (simp_all add: stream_queue_def)

lemma queue_view_mono: "queue_view E f X n us q \<Longrightarrow> n \<le> m \<Longrightarrow> queue_view E f X m us q"
  by (auto simp: queue_view_def)

lemma queue_view_Suc: "queue_view E f X n us q \<Longrightarrow> queue_view E f X (Suc n) us q"
  by (erule queue_view_mono) simp

lemma stream_queue_look: "stream_queue holds E s q \<Longrightarrow> stream_queue holds E (fst (look_cancelled E s)) q"
  by (simp add: look_cancelled_def)

lemma stream_queue_call: "stream_queue holds E s q \<Longrightarrow> stream_queue holds E (fst (call_write E r s)) q"
  by (simp add: call_write_def)

lemma stream_queue_uuid: "stream_queue holds E s q \<Longrightarrow> stream_queue holds E (fst (GenerateUuid E s)) q"
  by (auto simp: stream_queue_def GenerateUuid_def) (blast intro: queue_view_Suc)

section \<open>The keys are distinct\<close>

lemma uuid_commas: "CHR '','' \<notin> set uuid_alphabet"
  by (simp add: uuid_alphabet_def)

lemma uuid_no_comma: "uuids_ok E \<Longrightarrow> CHR '','' \<notin> set (we_uuid E n)"
  using uuid_commas by (auto simp: uuids_ok_def)

lemma uuid_chars: "uuids_ok E \<Longrightarrow> c \<notin> set uuid_alphabet \<Longrightarrow> c \<in> set x \<Longrightarrow> we_uuid E n \<noteq> x"
  by (auto simp: uuids_ok_def)

lemma uuid_keys:
  assumes "uuids_ok E"
  shows "we_uuid E n \<noteq> GetUuidListKey E" "we_uuid E n \<noteq> CreateKeyForCache h service version" "we_uuid E n \<noteq> t @ ''::catalog''"
proof -
  show "we_uuid E n \<noteq> GetUuidListKey E"
    by (rule uuid_chars [OF assms, of "CHR ''s''"]) (simp_all add: GetUuidListKey_def uuid_alphabet_def)
  show "we_uuid E n \<noteq> CreateKeyForCache h service version"
    by (rule uuid_chars [OF assms, of "CHR '':''"]) (simp_all add: CreateKeyForCache_def uuid_alphabet_def)
  show "we_uuid E n \<noteq> t @ ''::catalog''"
    by (rule uuid_chars [OF assms, of "CHR '':''"]) (simp_all add: uuid_alphabet_def)
qed

lemma last_ne: "last x \<noteq> last y \<Longrightarrow> x \<noteq> y"
  by auto

lemma list_keys:
  "GetUuidListKey E \<noteq> CreateKeyForCache h service version" "GetUuidListKey E \<noteq> t @ ''::catalog''"
  "CreateKeyForCache h service version \<noteq> t @ ''::catalog''"
  by (rule last_ne; simp add: GetUuidListKey_def CreateKeyForCache_def)+

lemma join_uuids_simps [simp]:
  "join_uuids [] = []" "join_uuids (u # us) = u @ CHR '','' # join_uuids us"
  "join_uuids (us @ vs) = join_uuids us @ join_uuids vs"
  by (simp_all add: join_uuids_def)

lemma comma_count_simps [simp]: "comma_count (x @ y) = comma_count x + comma_count y" "comma_count [] = 0"
  "comma_count (c # x) = (if c = CHR '','' then Suc (comma_count x) else comma_count x)"
  by (simp_all add: comma_count_def)

lemma comma_count_none: "CHR '','' \<notin> set x \<Longrightarrow> comma_count x = 0"
  by (induction x) auto

lemma comma_count_join: "\<forall>u\<in>set us. CHR '','' \<notin> set u \<Longrightarrow> comma_count (join_uuids us) = length us"
  by (induction us) (simp_all add: comma_count_none)

lemma view_no_comma:
  "uuids_ok E \<Longrightarrow> queue_view E f X n us q \<Longrightarrow> \<forall>u\<in>set us. CHR '','' \<notin> set u"
  by (auto simp: queue_view_def dest: uuid_no_comma)

section \<open>Operations of the queue\<close>

definition times_fit :: "(time_t \<Rightarrow> time_t \<Rightarrow> bool) \<Rightarrow> time_t \<Rightarrow> ('s, 'd) write_env \<Rightarrow> bool" where
  "times_fit expiry_ok now E \<longleftrightarrow> expiry_ok now kExpiryTimeInSecs
     \<and> (we_default_expiration E = WithoutExpiry \<or> expiry_ok now (we_default_expiration E))"

text \<open>Every answer of the network is a document whose members have the types the parsers expect, or no document.\<close>

definition answers_ok :: "('s, 'd) write_env \<Rightarrow> bool" where
  "answers_ok E \<longleftrightarrow> (\<forall>rs r. let body = hr_body (we_net E rs r); parse = lib_parse (we_json E); N = lib_numbers (we_json E) in
     parse_result parse (from_json_vector (from_json_Api N)) body \<noteq> None
     \<and> parse_result parse (write_from_json_Catalog N) body \<noteq> None
     \<and> parse_result parse from_json_ResponseOkSingle body \<noteq> None
     \<and> parse_result parse (from_json_Publication N) body \<noteq> None)"

lemma typed_update:
  assumes "typed_values E f" and "\<And>service version. key \<noteq> CreateKeyForCache (ToCatalogHRNString (we_catalog E)) service version"
    and "key \<noteq> ToString (we_catalog E) @ ''::catalog''"
  shows "typed_values E (f(key \<mapsto> v))"
  using assms(1) assms(2,3) [symmetric] unfolding typed_values_def by simp

lemma typed_uuid: "typed_values E f \<Longrightarrow> uuids_ok E \<Longrightarrow> typed_values E (f(we_uuid E n \<mapsto> v))"
  by (erule typed_update) (use uuid_keys(2,3) in blast)+

lemma typed_list: "typed_values E f \<Longrightarrow> typed_values E (f(GetUuidListKey E \<mapsto> v))"
  by (erule typed_update) (rule list_keys)+

lemma typed_remove: "typed_values E f \<Longrightarrow> typed_values E (f(key := None))"
  by (simp add: typed_values_def)

lemma stored_update:
  "k \<notin> set us \<Longrightarrow> list_all2 (\<lambda>u r. (f(k := v)) u = Some (WRequest r)) us q = list_all2 (\<lambda>u r. f u = Some (WRequest r)) us q"
  by (induction us q rule: list_induct2') auto

text \<open>The three changes of the contents: a request under a new identifier, the list with it, the removal of the first.\<close>

lemma view_list_fresh:
  assumes "uuids_ok E" and "queue_view E f X n us q"
  shows "GetUuidListKey E \<notin> set us"
proof
  assume "GetUuidListKey E \<in> set us"
  moreover have "set us \<subseteq> we_uuid E ` {..<n}" using assms(2) unfolding queue_view_def by blast
  ultimately obtain m where "GetUuidListKey E = we_uuid E m" by blast
  with uuid_keys(1) [OF assms(1), of m] show False by simp
qed

lemma view_fresh:
  assumes "uuids_ok E" and "queue_view E f X n us q"
  shows "we_uuid E n \<notin> set us"
proof
  assume "we_uuid E n \<in> set us"
  then have "we_uuid E n \<in> we_uuid E ` {..<n}" using assms(2) unfolding queue_view_def by blast
  then obtain m where "m < n" "we_uuid E n = we_uuid E m" by blast
  moreover have "inj (we_uuid E)" using assms(1) unfolding uuids_ok_def by blast
  ultimately show False by (metis injD less_irrefl)
qed

lemma view_store:
  assumes u: "uuids_ok E" and v: "queue_view E f X n us q"
  shows "queue_view E (f(we_uuid E n \<mapsto> v)) X (Suc n) us q"
proof -
  have "GetUuidListKey E \<noteq> we_uuid E n" using uuid_keys(1) [OF u] by (rule not_sym)
  moreover have "typed_values E (f(we_uuid E n \<mapsto> v))" using v by (intro typed_uuid [OF _ u]) (simp add: queue_view_def)
  ultimately show ?thesis using queue_view_Suc [OF v] stored_update [OF view_fresh [OF u v]]
    unfolding queue_view_def by simp
qed

lemma view_append:
  assumes u: "uuids_ok E" and v: "queue_view E f X (Suc n) us q" and fresh: "we_uuid E n \<notin> set us"
    and f: "f (we_uuid E n) = Some (WRequest r)" and r: "valid_request r" and l: "l = join_uuids (us @ [we_uuid E n])"
  shows "queue_view E (f(GetUuidListKey E \<mapsto> WString l)) X (Suc n) (us @ [we_uuid E n]) (q @ [r])"
proof -
  have k: "GetUuidListKey E \<notin> set (us @ [we_uuid E n])"
    using view_list_fresh [OF u v] uuid_keys(1) [OF u, of n] by simp
  have "list_all2 (\<lambda>u r. f u = Some (WRequest r)) (us @ [we_uuid E n]) (q @ [r])"
    using v f by (intro list_all2_appendI) (simp_all add: queue_view_def)
  moreover have "typed_values E (f(GetUuidListKey E \<mapsto> WString l))" using v by (intro typed_list) (simp add: queue_view_def)
  moreover have "distinct (us @ [we_uuid E n])" using v fresh by (simp add: queue_view_def)
  moreover have "set (us @ [we_uuid E n]) \<subseteq> we_uuid E ` {..<Suc n}" using v by (simp add: queue_view_def)
  ultimately show ?thesis using v r stored_update [OF k, of f "Some (WString l)"] l unfolding queue_view_def by simp
qed

lemma view_pop:
  assumes u: "uuids_ok E" and v: "queue_view E f X n (x # us) (r # q)" and l: "l = join_uuids us"
  shows "queue_view E (f(x := None, GetUuidListKey E \<mapsto> WString l)) X n us q"
proof -
  have k: "GetUuidListKey E \<notin> set us" using view_list_fresh [OF u v] by simp
  have x: "x \<notin> set us" using v by (simp add: queue_view_def)
  have "typed_values E (f(x := None, GetUuidListKey E \<mapsto> WString l))"
    using v by (intro typed_list typed_remove) (simp add: queue_view_def)
  then show ?thesis using v stored_update [OF k, of "f(x := None)" "Some (WString l)"] stored_update [OF x, of f None] l
    unfolding queue_view_def by simp
qed

text \<open>The surroundings of the client at a moment, with the cache \<open>K now\<close>.\<close>

definition sound_env ::
  "(time_t \<Rightarrow> 's write_kv) \<Rightarrow> (time_t \<Rightarrow> bool) \<Rightarrow> (time_t \<Rightarrow> time_t \<Rightarrow> bool) \<Rightarrow> time_t \<Rightarrow> ('s, 'd) write_env \<Rightarrow> bool" where
  "sound_env K now_ok expiry_ok now E \<longleftrightarrow>
     we_kv E = K now \<and> now_ok now \<and> we_cache E \<and> uuids_ok E \<and> times_fit expiry_ok now E \<and> answers_ok E"

lemma sound_envD:
  assumes "sound_env K now_ok expiry_ok now E"
  shows "we_kv E = K now" "now_ok now" "we_cache E" "uuids_ok E" "times_fit expiry_ok now E" "answers_ok E"
  using assms by (simp_all add: sound_env_def)

context keeping_cache
begin

lemma queue_cacheE:
  assumes "stream_queue holds E s q"
  obtains f X us where "holds (ws_cache s) f X" "queue_view E f X (ws_uuids s) us q"
  using assms by (auto simp: stream_queue_def)

lemma stream_queueI: "holds (ws_cache s) f X \<Longrightarrow> queue_view E f X (ws_uuids s) us q \<Longrightarrow> stream_queue holds E s q"
  by (auto simp: stream_queue_def)

lemma get_list:
  assumes h: "holds (ws_cache s) f X" and v: "queue_view E f X n us q" and E: "we_kv E = K now" "now_ok now"
  shows "\<exists>c r. Get_string E (GetUuidListKey E) s = Some (s\<lparr>ws_cache := c\<rparr>, r) \<and> holds c f X
    \<and> (r = Some (join_uuids us) \<or> (r = None \<and> us = []))"
proof -
  from get_law [OF h E(2), of "GetUuidListKey E" WString] obtain c r where
    c: "wk_Get (K now) (GetUuidListKey E) WString (ws_cache s) = Some (c, r)" "holds c f X"
      "GetUuidListKey E \<in> X \<longrightarrow> r = map_option Object (f (GetUuidListKey E))" by blast
  with v have r: "r = map_option Object (f (GetUuidListKey E))" by (simp add: queue_view_def)
  from v have "f (GetUuidListKey E) = Some (WString (join_uuids us)) \<or> (f (GetUuidListKey E) = None \<and> us = [])"
    by (simp add: queue_view_def)
  then show ?thesis using c(1,2) r E(1) by (auto simp: Get_string_def on_cache_def)
qed

lemma QueueSize_ok:
  assumes "stream_queue holds E s q" and "we_kv E = K now" "now_ok now" and "uuids_ok E" and "we_cache E"
  shows "\<exists>c. QueueSize E s = Some (s\<lparr>ws_cache := c\<rparr>, length q) \<and> stream_queue holds E (s\<lparr>ws_cache := c\<rparr>) q"
proof -
  from assms(1) obtain f X us where h: "holds (ws_cache s) f X" "queue_view E f X (ws_uuids s) us q" by (rule queue_cacheE)
  from get_list [OF h assms(2,3)] obtain c r where
    c: "Get_string E (GetUuidListKey E) s = Some (s\<lparr>ws_cache := c\<rparr>, r)" "holds c f X"
      "r = Some (join_uuids us) \<or> (r = None \<and> us = [])" by blast
  have "length us = length q" using h(2) by (auto simp: queue_view_def dest: list_all2_lengthD)
  moreover have "comma_count (join_uuids us) = length us" using view_no_comma [OF assms(4) h(2)] by (rule comma_count_join)
  moreover have "stream_queue holds E (s\<lparr>ws_cache := c\<rparr>) q" using c(2) h(2) by (auto simp: stream_queue_def)
  ultimately show ?thesis using c assms(5) by (auto simp: QueueSize_def)
qed

lemma put_list:
  assumes "holds (ws_cache s) f X" and "we_kv E = K now" "now_ok now" and "GetUuidListKey E \<in> X"
  shows "\<exists>c. on_cache (wk_Put (we_kv E) key v encoded WithoutExpiry) s = Some (s\<lparr>ws_cache := c\<rparr>, True) \<and> holds c (f(key \<mapsto> v)) X"
proof -
  from put_law [OF assms(1,3), of WithoutExpiry key v encoded] obtain c where
    "wk_Put (K now) key v encoded WithoutExpiry (ws_cache s) = Some (c, True)" "holds c (f(key \<mapsto> v)) X" by auto
  then show ?thesis using assms(2) by (auto simp: on_cache_def)
qed

lemma Queue_ok:
  assumes q: "stream_queue holds E s q" and E: "we_kv E = K now" "now_ok now" and u: "uuids_ok E" and "we_cache E"
    and r: "valid_request request"
  shows "\<exists>s'. Queue E request s = Some (s', if length q < we_maximum_requests E then None else Some QueueFull)
    \<and> stream_queue holds E s' (if length q < we_maximum_requests E then q @ [request] else q)
    \<and> ws_requests s' = ws_requests s \<and> ws_looks s' = ws_looks s"
proof -
  from QueueSize_ok [OF q E u assms(5)] obtain c0 where
    c0: "QueueSize E s = Some (s\<lparr>ws_cache := c0\<rparr>, length q)" "stream_queue holds E (s\<lparr>ws_cache := c0\<rparr>) q" by blast
  show ?thesis
  proof (cases "length q < we_maximum_requests E")
    case False
    then show ?thesis using c0 r assms(5) by (auto simp: Queue_def valid_request_def)
  next
    case True
    let ?n = "ws_uuids s" and ?s1 = "s\<lparr>ws_cache := c0, ws_uuids := ws_uuids s + 1\<rparr>"
    let ?u = "we_uuid E ?n"
    from c0(2) obtain f X us where h: "holds (ws_cache ?s1) f X" "queue_view E f X ?n us q"
      by (auto simp: stream_queue_def)
    have lk: "GetUuidListKey E \<in> X" using h(2) by (simp add: queue_view_def)
    from put_list [OF h(1) E lk, of ?u "WRequest request" "lib_text (we_json E) (to_json_PublishDataRequest request)"]
    obtain c1 where c1: "on_cache (wk_Put (we_kv E) ?u (WRequest request)
        (lib_text (we_json E) (to_json_PublishDataRequest request)) WithoutExpiry) ?s1 = Some (?s1\<lparr>ws_cache := c1\<rparr>, True)"
      "holds c1 (f(?u \<mapsto> WRequest request)) X" by blast
    have fresh: "?u \<notin> set us" by (rule view_fresh [OF u h(2)])
    have v1: "queue_view E (f(?u \<mapsto> WRequest request)) X (Suc ?n) us q" by (rule view_store [OF u h(2)])
    have h1: "holds (ws_cache (?s1\<lparr>ws_cache := c1\<rparr>)) (f(?u \<mapsto> WRequest request)) X" using c1(2) by simp
    from get_list [OF h1 v1 E] obtain c2 r2 where
      c2: "Get_string E (GetUuidListKey E) (?s1\<lparr>ws_cache := c1\<rparr>) = Some (?s1\<lparr>ws_cache := c2\<rparr>, r2)"
        "holds c2 (f(?u \<mapsto> WRequest request)) X" "r2 = Some (join_uuids us) \<or> (r2 = None \<and> us = [])" by auto
    let ?l = "(case r2 of Some l \<Rightarrow> l | None \<Rightarrow> []) @ ?u @ '',''"
    have l: "?l = join_uuids (us @ [?u])" using c2(3) by auto
    have h2: "holds (ws_cache (?s1\<lparr>ws_cache := c2\<rparr>)) (f(?u \<mapsto> WRequest request)) X" using c2(2) by simp
    from put_list [OF h2 E lk, of "GetUuidListKey E" "WString ?l" ?l]
    obtain c3 where c3: "on_cache (wk_Put (we_kv E) (GetUuidListKey E) (WString ?l) ?l WithoutExpiry) (?s1\<lparr>ws_cache := c2\<rparr>)
        = Some (?s1\<lparr>ws_cache := c3\<rparr>, True)"
      "holds c3 ((f(?u \<mapsto> WRequest request))(GetUuidListKey E \<mapsto> WString ?l)) X" by auto
    have "queue_view E ((f(?u \<mapsto> WRequest request))(GetUuidListKey E \<mapsto> WString ?l)) X (Suc ?n) (us @ [?u]) (q @ [request])"
      by (rule view_append [OF u v1 fresh _ r l]) simp
    then have "stream_queue holds E (?s1\<lparr>ws_cache := c3\<rparr>) (q @ [request])"
      using c3(2) by (auto simp: stream_queue_def)
    moreover have "Queue E request s = Some (?s1\<lparr>ws_cache := c3\<rparr>, None)"
      using c0(1) c1(1) c2(1) c3(1) True r assms(5) by (simp add: Queue_def valid_request_def GenerateUuid_def)
    ultimately show ?thesis using True by auto
  qed
qed

lemma Queue_refused:
  assumes "\<not> valid_request request"
  shows "\<exists>e. e \<noteq> QueueFull \<and> Queue E request s = Some (s, Some e)"
  using assms by (auto simp: Queue_def valid_request_def)

lemma takeWhile_uuid: "CHR '','' \<notin> set u \<Longrightarrow> takeWhile (\<lambda>c. c \<noteq> CHR '','') (u @ CHR '','' # x) = u"
  by (induction u) auto

lemma get_exact:
  assumes "holds (ws_cache s) f X" and "we_kv E = K now" "now_ok now" and "key \<in> X"
  shows "\<exists>c. on_cache (wk_Get (we_kv E) key decoder) s = Some (s\<lparr>ws_cache := c\<rparr>, map_option Object (f key)) \<and> holds c f X"
proof -
  from get_law [OF assms(1,3), of key decoder] obtain c r where
    "wk_Get (K now) key decoder (ws_cache s) = Some (c, r)" "holds c f X" "key \<in> X \<longrightarrow> r = map_option Object (f key)" by blast
  then show ?thesis using assms(2,4) by (auto simp: on_cache_def)
qed

lemma remove_key:
  assumes "holds (ws_cache s) f X" and "we_kv E = K now" "now_ok now"
  shows "\<exists>c r. on_cache (wk_Remove (we_kv E) key) s = Some (s\<lparr>ws_cache := c\<rparr>, r) \<and> holds c (f(key := None)) X"
proof -
  from remove_law [OF assms(1,3), of key] obtain c r where
    "wk_Remove (K now) key (ws_cache s) = Some (c, r)" "holds c (f(key := None)) X" by blast
  then show ?thesis using assms(2) by (auto simp: on_cache_def)
qed

lemma Pop_empty:
  assumes q: "stream_queue holds E s []" and E: "sound_env K now_ok expiry_ok now E"
  shows "\<exists>c. PopFromQueue E s = Some (s\<lparr>ws_cache := c\<rparr>, None) \<and> stream_queue holds E (s\<lparr>ws_cache := c\<rparr>) []"
proof -
  from q obtain f X us where h: "holds (ws_cache s) f X" "queue_view E f X (ws_uuids s) us []" by (rule queue_cacheE)
  then have us: "us = []" by (simp add: queue_view_def)
  from get_list [OF h sound_envD(1,2) [OF E]] obtain c r where
    c: "Get_string E (GetUuidListKey E) s = Some (s\<lparr>ws_cache := c\<rparr>, r)" "holds c f X"
      "r = Some (join_uuids us) \<or> (r = None \<and> us = [])" by blast
  then have "stream_queue holds E (s\<lparr>ws_cache := c\<rparr>) []" using h(2) by (auto simp: stream_queue_def)
  then show ?thesis using c us sound_envD(3) [OF E] by (auto simp: PopFromQueue_def)
qed

lemma Pop_first:
  assumes q: "stream_queue holds E s (r # q)" and E: "sound_env K now_ok expiry_ok now E"
  shows "\<exists>c. PopFromQueue E s = Some (s\<lparr>ws_cache := c\<rparr>, Some r) \<and> stream_queue holds E (s\<lparr>ws_cache := c\<rparr>) q"
proof -
  note e = sound_envD(1,2) [OF E] and u = sound_envD(4) [OF E]
  from q obtain f X xs where h: "holds (ws_cache s) f X" "queue_view E f X (ws_uuids s) xs (r # q)" by (rule queue_cacheE)
  then have "list_all2 (\<lambda>u r. f u = Some (WRequest r)) xs (r # q)" by (simp add: queue_view_def)
  then obtain x us where x: "xs = x # us" "f x = Some (WRequest r)" by (cases xs) auto
  note v = h(2) [unfolded x(1)]
  have mem: "x \<in> X" "GetUuidListKey E \<in> X" using v by (auto simp: queue_view_def)
  have nc: "CHR '','' \<notin> set x" using view_no_comma [OF u v] by simp
  from get_list [OF h e] x(1) obtain c1 where
    c1: "Get_string E (GetUuidListKey E) s = Some (s\<lparr>ws_cache := c1\<rparr>, Some (x @ CHR '','' # join_uuids us))" "holds c1 f X" by auto
  have h1: "holds (ws_cache (s\<lparr>ws_cache := c1\<rparr>)) f X" using c1(2) by simp
  from get_exact [OF h1 e mem(1), of "parse_request E"] x(2) obtain c2 where
    c2: "on_cache (wk_Get (we_kv E) x (parse_request E)) (s\<lparr>ws_cache := c1\<rparr>) = Some (s\<lparr>ws_cache := c2\<rparr>, Some (Object (WRequest r)))"
      "holds c2 f X" by auto
  have h2: "holds (ws_cache (s\<lparr>ws_cache := c2\<rparr>)) f X" using c2(2) by simp
  from remove_key [OF h2 e, of x] obtain c3 b where
    c3: "on_cache (wk_Remove (we_kv E) x) (s\<lparr>ws_cache := c2\<rparr>) = Some (s\<lparr>ws_cache := c3\<rparr>, b)" "holds c3 (f(x := None)) X" by auto
  have h3: "holds (ws_cache (s\<lparr>ws_cache := c3\<rparr>)) (f(x := None)) X" using c3(2) by simp
  from put_list [OF h3 e mem(2), of "GetUuidListKey E" "WString (join_uuids us)" "join_uuids us"] obtain c4 where
    c4: "on_cache (wk_Put (we_kv E) (GetUuidListKey E) (WString (join_uuids us)) (join_uuids us) WithoutExpiry) (s\<lparr>ws_cache := c3\<rparr>)
        = Some (s\<lparr>ws_cache := c4\<rparr>, True)" "holds c4 (f(x := None, GetUuidListKey E \<mapsto> WString (join_uuids us))) X" by auto
  have "stream_queue holds E (s\<lparr>ws_cache := c4\<rparr>) q"
    by (rule stream_queueI [OF _ view_pop [OF u _ refl]]) (use c4(2) v in simp_all)
  moreover have "PopFromQueue E s = Some (s\<lparr>ws_cache := c4\<rparr>, Some r)"
    using c1(1) c2(1) c3(1) c4(1) sound_envD(3) [OF E] by (simp add: PopFromQueue_def takeWhile_uuid [OF nc])
  ultimately show ?thesis by blast
qed

end

section \<open>Publishing leaves the queue alone\<close>

lemma view_other:
  assumes v: "queue_view E f X n us q" and "key \<notin> range (we_uuid E)" and "GetUuidListKey E \<noteq> key"
    and "typed_values E (f(key \<mapsto> w))"
  shows "queue_view E (f(key \<mapsto> w)) (X - {key}) n us q" and "queue_view E (f(key \<mapsto> w)) X n us q"
proof -
  have "set us \<subseteq> range (we_uuid E)" using v unfolding queue_view_def by blast
  then have "key \<notin> set us" using assms(2) by blast
  then have "list_all2 (\<lambda>u r. (f(key \<mapsto> w)) u = Some (WRequest r)) us q"
    using stored_update [of key us f "Some w" q] v by (simp add: queue_view_def)
  moreover have "range (we_uuid E) \<subseteq> X - {key}" "GetUuidListKey E \<in> X - {key}"
    using v assms(2,3) unfolding queue_view_def by blast+
  ultimately show "queue_view E (f(key \<mapsto> w)) (X - {key}) n us q" "queue_view E (f(key \<mapsto> w)) X n us q"
    using v assms(3,4) unfolding queue_view_def by simp_all
qed

lemma typed_api: "typed_values E f \<Longrightarrow> typed_values E (f(CreateKeyForCache h service version \<mapsto> WString x))"
  using list_keys(3) [THEN not_sym] unfolding typed_values_def by simp

lemma typed_catalog: "typed_values E f \<Longrightarrow> typed_values E (f(t @ ''::catalog'' \<mapsto> WCatalog c))"
  using list_keys(3) unfolding typed_values_def by simp

lemma view_api:
  assumes v: "queue_view E f X n us q" and u: "uuids_ok E"
  shows "queue_view E (f(CreateKeyForCache h service version \<mapsto> WString x)) (X - {CreateKeyForCache h service version}) n us q"
proof (rule view_other(1) [OF v])
  show "CreateKeyForCache h service version \<notin> range (we_uuid E)" using uuid_keys(2) [OF u] by (metis rangeE)
  show "typed_values E (f(CreateKeyForCache h service version \<mapsto> WString x))"
    using v by (intro typed_api) (simp add: queue_view_def)
qed (rule list_keys)

lemma view_catalog:
  assumes v: "queue_view E f X n us q" and u: "uuids_ok E"
  shows "queue_view E (f(t @ ''::catalog'' \<mapsto> WCatalog c)) (X - {t @ ''::catalog''}) n us q"
    and "queue_view E (f(t @ ''::catalog'' \<mapsto> WCatalog c)) X n us q"
proof -
  have k: "t @ ''::catalog'' \<notin> range (we_uuid E)" using uuid_keys(3) [OF u] by (metis rangeE)
  have ty: "typed_values E (f(t @ ''::catalog'' \<mapsto> WCatalog c))"
    using v by (intro typed_catalog) (simp add: queue_view_def)
  show "queue_view E (f(t @ ''::catalog'' \<mapsto> WCatalog c)) (X - {t @ ''::catalog''}) n us q"
    "queue_view E (f(t @ ''::catalog'' \<mapsto> WCatalog c)) X n us q"
    by (rule view_other [OF v k list_keys(2) ty])+
qed

lemma write_result_defined:
  assumes "answers_ok E"
  shows "\<exists>r. write_result E (from_json_vector (from_json_Api (lib_numbers (we_json E)))) (we_net E rs q) = Some r"
    "\<exists>r. write_result E (write_from_json_Catalog (lib_numbers (we_json E))) (we_net E rs q) = Some r"
    "\<exists>r. write_result E from_json_ResponseOkSingle (we_net E rs q) = Some r"
    "\<exists>r. write_result E (from_json_Publication (lib_numbers (we_json E))) (we_net E rs q) = Some r"
  using assms by (auto simp: answers_ok_def write_result_def Let_def)

context keeping_cache
begin

lemma lookup_apis_leaves:
  "stream_queue holds E s q \<Longrightarrow> answers_ok E \<Longrightarrow> leaves holds E q (lookup_apis E base service version s) (\<lambda>_. True)"
  using write_result_defined(1) [of E "ws_requests s"]
  by (auto simp: leaves_def lookup_apis_def write_PlatformApi_GetApis_def write_ResourcesApi_GetApis_def call_write_def Let_def)

lemma LookupApiClient_leaves:
  assumes q: "stream_queue holds E s q" and E: "sound_env K now_ok expiry_ok now E"
  shows "leaves holds E q (LookupApiClient E cached service version s) (\<lambda>_. True)"
proof -
  note e = sound_envD(1,2) [OF E] and u = sound_envD(4) [OF E]
  let ?key = "CreateKeyForCache (ToCatalogHRNString (we_catalog E)) service version"
  have get: "leaves holds E q (if cached then Get_string E ?key s else Some (s, None)) (\<lambda>_. True)"
  proof (cases cached)
    case True
    from q obtain f X us where h: "holds (ws_cache s) f X" "queue_view E f X (ws_uuids s) us q" by (rule queue_cacheE)
    from get_law [OF h(1) e(2), of ?key WString] obtain c r where
      c: "wk_Get (K now) ?key WString (ws_cache s) = Some (c, r)" "holds c f X" "r = None \<or> r = map_option Object (f ?key)" by blast
    have "f ?key = None \<or> (\<exists>x. f ?key = Some (WString x))"
      using h(2) unfolding queue_view_def typed_values_def by (metis option.exhaust)
    moreover have "stream_queue holds E (s\<lparr>ws_cache := c\<rparr>) q" using c(2) h(2) by (auto simp: stream_queue_def)
    ultimately show ?thesis using c(1,3) e(1) True by (auto simp: leaves_def Get_string_def on_cache_def)
  qed (use q in \<open>simp add: leaves_def\<close>)
  have put: "leaves holds E q (on_cache (wk_Put (we_kv E) ?key (WString x) x kExpiryTimeInSecs) s) (\<lambda>_. True)"
    if "stream_queue holds E s q" for s x
  proof -
    from that obtain f X us where h: "holds (ws_cache s) f X" "queue_view E f X (ws_uuids s) us q" by (rule queue_cacheE)
    have "kExpiryTimeInSecs \<noteq> WithoutExpiry" by (simp add: kExpiryTimeInSecs_def WithoutExpiry_def time_max_def)
    moreover have "expiry_ok now kExpiryTimeInSecs" using sound_envD(5) [OF E] by (simp add: times_fit_def)
    ultimately obtain c where "wk_Put (K now) ?key (WString x) x kExpiryTimeInSecs (ws_cache s) = Some (c, True)"
      "holds c (f(?key \<mapsto> WString x)) (X - {?key})" using put_law [OF h(1) e(2), of kExpiryTimeInSecs ?key "WString x" x] by auto
    moreover have "queue_view E (f(?key \<mapsto> WString x)) (X - {?key}) (ws_uuids s) us q" by (rule view_api [OF h(2) u])
    ultimately show ?thesis using e(1) by (auto simp: leaves_def on_cache_def stream_queue_def)
  qed
  show ?thesis unfolding LookupApiClient_def Let_def
  proof (rule leaves_bind [OF get], simp only: prod.case)
    fix s url assume s: "stream_queue holds E s q"
    show "leaves holds E q (case url of Some found_url \<Rightarrow> Some (s, Inr found_url)
        | None \<Rightarrow> if GetDatastoreServerUrl (hrn_partition (we_catalog E)) = [] then Some (s, Inl (ApiError_code NotFound))
            else lookup_apis E (GetDatastoreServerUrl (hrn_partition (we_catalog E))) service version s \<bind>
              (\<lambda>(s, api_response). case api_response of
                 Inl e \<Rightarrow> Some (s, Inl e)
               | Inr [] \<Rightarrow> Some (s, Inl (ApiError_code ServiceUnavailable))
               | Inr (api # apis) \<Rightarrow>
                   if cached then on_cache (wk_Put (we_kv E) ?key (WString (api_baseUrl api)) (api_baseUrl api) kExpiryTimeInSecs) s \<bind>
                     (\<lambda>(s, _). Some (s, Inr (api_baseUrl api)))
                   else Some (s, Inr (api_baseUrl api)))) (\<lambda>_. True)"
      using s by (auto intro!: leavesI leaves_bind [OF lookup_apis_leaves [OF s sound_envD(6) [OF E]]] leaves_bind [OF put]
          split: option.split sum.split list.split)
  qed
qed

lemma settings_key_leaves:
  assumes q: "stream_queue holds E s q" and E: "sound_env K now_ok expiry_ok now E"
  shows "\<exists>b. wk_Contains (we_kv E) (t @ ''::catalog'') (ws_cache s) = Some b"
    and "leaves holds E q (on_cache (wk_Put (we_kv E) (t @ ''::catalog'') (WCatalog c) x (we_default_expiration E)) s) (\<lambda>_. True)"
    and "t = ToString (we_catalog E) \<Longrightarrow> leaves holds E q (on_cache (wk_Get (we_kv E) (t @ ''::catalog'') decoder) s)
      (\<lambda>r. r = None \<or> (\<exists>c. r = Some (Object (WCatalog c))))"
proof -
  note e = sound_envD(1,2) [OF E] and u = sound_envD(4) [OF E]
  from q obtain f X us where h: "holds (ws_cache s) f X" "queue_view E f X (ws_uuids s) us q" by (rule queue_cacheE)
  from contains_law [OF h(1) e(2), of "t @ ''::catalog''"] e(1)
  show "\<exists>b. wk_Contains (we_kv E) (t @ ''::catalog'') (ws_cache s) = Some b" by auto
  let ?k = "t @ ''::catalog''" and ?e = "we_default_expiration E"
  have "?e = WithoutExpiry \<or> expiry_ok now ?e" using sound_envD(5) [OF E] by (simp add: times_fit_def)
  from put_law [OF h(1) e(2) this, of ?k "WCatalog c" x] obtain d where
    d: "wk_Put (K now) ?k (WCatalog c) x ?e (ws_cache s) = Some (d, True)"
      "holds d (f(?k \<mapsto> WCatalog c)) (if ?e = WithoutExpiry then X else X - {?k})" by blast
  have "stream_queue holds E (s\<lparr>ws_cache := d\<rparr>) q"
    using d(2) view_catalog [OF h(2) u, of t c] unfolding stream_queue_def by (cases "?e = WithoutExpiry") auto
  then show "leaves holds E q (on_cache (wk_Put (we_kv E) ?k (WCatalog c) x ?e) s) (\<lambda>_. True)"
    using d(1) e(1) by (auto simp: leaves_def on_cache_def intro: exI [of _ True])
  show "leaves holds E q (on_cache (wk_Get (we_kv E) ?k decoder) s) (\<lambda>r. r = None \<or> (\<exists>c. r = Some (Object (WCatalog c))))"
    if "t = ToString (we_catalog E)"
  proof -
    from get_law [OF h(1) e(2), of ?k decoder] obtain g r where
      g: "wk_Get (K now) ?k decoder (ws_cache s) = Some (g, r)" "holds g f X" "r = None \<or> r = map_option Object (f ?k)" by blast
    have "f ?k = None \<or> (\<exists>c. f ?k = Some (WCatalog c))"
      using h(2) that unfolding queue_view_def typed_values_def by (cases "f ?k") auto
    moreover have "stream_queue holds E (s\<lparr>ws_cache := g\<rparr>) q" using g(2) h(2) by (auto simp: stream_queue_def)
    ultimately show ?thesis using g(1,3) e(1) by (auto simp: leaves_def on_cache_def)
  qed
qed

lemma GetCatalog_leaves:
  "stream_queue holds E s q \<Longrightarrow> answers_ok E \<Longrightarrow> leaves holds E q (write_ConfigApi_GetCatalog E client hrn tag s) (\<lambda>_. True)"
  using write_result_defined(2) [of E "ws_requests s"]
  by (auto simp: leaves_def write_ConfigApi_GetCatalog_def call_write_def Let_def)

lemma GetLayerSettings_leaves:
  assumes q: "stream_queue holds E s q" and E: "sound_env K now_ok expiry_ok now E"
  shows "leaves holds E q (GetLayerSettings E tag layer s) (\<lambda>_. True)"
proof -
  let ?t = "ToString (we_catalog E)"
  from settings_key_leaves(1) [OF q E, of ?t] obtain b where
    b: "wk_Contains (we_kv E) (?t @ ''::catalog'') (ws_cache s) = Some b" by blast
  note ok = sound_envD(6) [OF E]
  show ?thesis
  proof (cases b)
    case False
    then show ?thesis using b unfolding GetLayerSettings_def Let_def
      by (auto intro!: leavesI leaves_bind [OF LookupApiClient_leaves [OF _ E]] leaves_bind [OF GetCatalog_leaves [OF _ ok]]
          leaves_bind [OF settings_key_leaves(2) [OF _ E]] q split: sum.split)
  next
    case True
    then show ?thesis using b unfolding GetLayerSettings_def Let_def
      by (auto intro!: leavesI leaves_bind [OF settings_key_leaves(3) [OF q E refl]])
  qed
qed

lemma layer_settings_of_leaves:
  assumes "stream_queue holds E s q" and E: "sound_env K now_ok expiry_ok now E"
  shows "leaves holds E q (layer_settings_of E tag layer s) (\<lambda>_. True)"
  unfolding layer_settings_of_def
  by (auto intro!: leavesI leaves_bind [OF GetLayerSettings_leaves [OF assms]] split: sum.split)

lemma IngestData_leaves:
  "stream_queue holds E s q \<Longrightarrow> answers_ok E \<Longrightarrow>
    leaves holds E q (IngestApi_IngestData E client layer ct ce data trace tag sum_opt s) (\<lambda>_. True)"
  using write_result_defined(3) [of E "ws_requests s"]
  by (auto simp: leaves_def IngestApi_IngestData_def call_write_def Let_def)

lemma InitPublication_leaves:
  "stream_queue holds E s q \<Longrightarrow> answers_ok E \<Longrightarrow> leaves holds E q (PublishApi_InitPublication E client p tag s) (\<lambda>_. True)"
  using write_result_defined(4) [of E "ws_requests s"]
  by (auto simp: leaves_def PublishApi_InitPublication_def call_write_def Let_def)

lemma publish_calls_leave:
  assumes "stream_queue holds E s q"
  shows "stream_queue holds E (fst (BlobApi_PutBlob E client layer ct ce handle data tag s)) q"
    "stream_queue holds E (fst (PublishApi_UploadPartitions E client ps p layer tag s)) q"
    "stream_queue holds E (fst (PublishApi_SubmitPublication E client p tag s)) q"
  using assms by (simp_all add: BlobApi_PutBlob_def PublishApi_UploadPartitions_def PublishApi_SubmitPublication_def call_write_def Let_def)

lemma leaves_call:
  "stream_queue holds E (fst x) q \<Longrightarrow> (\<And>s r. stream_queue holds E s q \<Longrightarrow> leaves holds E q (f s r) P)
    \<Longrightarrow> leaves holds E q (case x of (s, r) \<Rightarrow> f s r) P"
  by (cases x) simp

lemma publish_steps_leaves:
  assumes q: "stream_queue holds E s q" and ok: "answers_ok E"
  shows "leaves holds E q (publish_steps E request ls pc bc s) (\<lambda>_. True)"
  unfolding publish_steps_def Let_def
  by (auto intro!: leavesI leaves_bind [OF InitPublication_leaves [OF q ok]] leaves_call publish_calls_leave stream_queue_uuid
      split: sum.split option.split)

lemma PublishDataTask_leaves:
  assumes q: "stream_queue holds E s q" and E: "sound_env K now_ok expiry_ok now E" and "pd_data request \<noteq> None"
  shows "leaves holds E q (PublishDataTask E request s) (\<lambda>_. True)"
proof -
  note ok = sound_envD(6) [OF E]
  have "leaves holds E q (PublishDataLessThanTwentyMib E request s) (\<lambda>_. True)"
    unfolding PublishDataLessThanTwentyMib_def
    by (auto intro!: leavesI leaves_bind [OF layer_settings_of_leaves [OF q E]] leaves_bind [OF LookupApiClient_leaves [OF _ E]]
        IngestData_leaves [OF _ ok] split: sum.split)
  moreover have "leaves holds E q (PublishDataGreaterThanTwentyMib E request s) (\<lambda>_. True)"
    unfolding PublishDataGreaterThanTwentyMib_def
    by (auto intro!: leavesI leaves_bind [OF layer_settings_of_leaves [OF q E]] leaves_bind [OF LookupApiClient_leaves [OF _ E]]
        publish_steps_leaves [OF _ ok] split: sum.split)
  ultimately show ?thesis using assms(3) by (auto simp: PublishDataTask_def)
qed

end

section \<open>Flush\<close>

text \<open>Nothing in a publication looks at the cancellation.\<close>

definition looks_kept :: "'s write_state \<Rightarrow> ('s write_state \<times> 'r) option \<Rightarrow> bool" where
  "looks_kept s m \<longleftrightarrow> (\<forall>t r. m = Some (t, r) \<longrightarrow> ws_looks t = ws_looks s)"

lemma looksI [intro!]: "ws_looks t = ws_looks s \<Longrightarrow> looks_kept s (Some (t, r))" "looks_kept s None"
  by (simp_all add: looks_kept_def)

lemma looks_bind: "looks_kept s m \<Longrightarrow> (\<And>t r. ws_looks t = ws_looks s \<Longrightarrow> looks_kept s (f (t, r))) \<Longrightarrow> looks_kept s (m \<bind> f)"
  unfolding looks_kept_def bind_eq_Some_conv split_paired_Ex by blast

lemma on_cache_looks: "ws_looks t = ws_looks s \<Longrightarrow> looks_kept s (on_cache f t)"
  by (auto simp: looks_kept_def on_cache_def)

lemma Get_string_looks: "ws_looks t = ws_looks s \<Longrightarrow> looks_kept s (Get_string E key t)"
  unfolding Get_string_def by (auto intro!: looks_bind on_cache_looks split: option.split cached.split write_value.split)

lemma call_looks:
  "ws_looks t = ws_looks s \<Longrightarrow> looks_kept s (write_PlatformApi_GetApis E client service version t)"
  "ws_looks t = ws_looks s \<Longrightarrow> looks_kept s (write_ResourcesApi_GetApis E client hrn service version t)"
  "ws_looks t = ws_looks s \<Longrightarrow> looks_kept s (write_ConfigApi_GetCatalog E client hrn tag t)"
  "ws_looks t = ws_looks s \<Longrightarrow> looks_kept s (IngestApi_IngestData E client layer ct ce data trace tag sum_opt t)"
  "ws_looks t = ws_looks s \<Longrightarrow> looks_kept s (PublishApi_InitPublication E client p tag t)"
  by (auto simp: looks_kept_def write_PlatformApi_GetApis_def write_ResourcesApi_GetApis_def write_ConfigApi_GetCatalog_def
      IngestApi_IngestData_def PublishApi_InitPublication_def Let_def call_write_def)

lemma step_looks:
  "ws_looks (fst (BlobApi_PutBlob E client layer ct ce handle data tag t)) = ws_looks t"
  "ws_looks (fst (PublishApi_UploadPartitions E client ps p layer tag t)) = ws_looks t"
  "ws_looks (fst (PublishApi_SubmitPublication E client p tag t)) = ws_looks t"
  "ws_looks (fst (GenerateUuid E t)) = ws_looks t"
  by (simp_all add: BlobApi_PutBlob_def PublishApi_UploadPartitions_def PublishApi_SubmitPublication_def GenerateUuid_def call_write_def Let_def)

lemma looks_call:
  fixes s :: "'s write_state" and x :: "'s write_state \<times> 'q"
  shows "ws_looks (fst x) = ws_looks s \<Longrightarrow> (\<And>t r. ws_looks t = ws_looks s \<Longrightarrow> looks_kept s (f t r))
    \<Longrightarrow> looks_kept s (case x of (t, r) \<Rightarrow> f t r)"
  by (cases x) simp

lemma LookupApiClient_looks: "ws_looks t = ws_looks s \<Longrightarrow> looks_kept s (LookupApiClient E cached service version t)"
  unfolding LookupApiClient_def Let_def lookup_apis_def
  by (auto intro!: looks_bind [OF Get_string_looks] looks_bind [OF call_looks(1)] looks_bind [OF call_looks(2)] looks_bind [OF on_cache_looks]
      split: option.split sum.split list.split)

lemma layer_settings_of_looks: "ws_looks t = ws_looks s \<Longrightarrow> looks_kept s (layer_settings_of E tag layer t)"
proof -
  have "looks_kept s (GetLayerSettings E tag layer t)" if "ws_looks t = ws_looks s" for t
    using that unfolding GetLayerSettings_def Let_def
    by (cases "wk_Contains (we_kv E) (ToString (we_catalog E) @ ''::catalog'') (ws_cache t)")
      (auto intro!: looks_bind [OF LookupApiClient_looks] looks_bind [OF call_looks(3)] looks_bind [OF on_cache_looks]
        split: option.split sum.split cached.split write_value.split)
  then show "ws_looks t = ws_looks s \<Longrightarrow> looks_kept s (layer_settings_of E tag layer t)"
    unfolding layer_settings_of_def by (auto intro!: looks_bind split: sum.split)
qed

lemma publish_steps_looks: "ws_looks t = ws_looks s \<Longrightarrow> looks_kept s (publish_steps E request ls pc bc t)"
  unfolding publish_steps_def Let_def
  by (auto intro!: looks_bind [OF call_looks(5)] looks_call simp: step_looks split: sum.split option.split)

lemma PublishDataTask_looks: "looks_kept s (PublishDataTask E request s)"
  unfolding PublishDataTask_def PublishDataLessThanTwentyMib_def PublishDataGreaterThanTwentyMib_def
  by (auto intro!: looks_bind [OF layer_settings_of_looks] looks_bind [OF LookupApiClient_looks] call_looks(4) publish_steps_looks
      split: option.split sum.split)

definition flush_limit :: "int \<Rightarrow> int \<Rightarrow> nat \<Rightarrow> nat" where
  "flush_limit maximum counter n = (if maximum = 0 then n else min (nat (maximum - counter)) n)"

text \<open>What a flush of at most \<open>l\<close> requests does to a queue, after the requests \<open>h\<close> to the network and \<open>n\<close> looks at the
cancellation: the responses, the queue that is left, and the requests and looks made by then. It takes the requests from the
front, looks at the cancellation before each is taken and after it is published, and stops at the first look that is
cancelled; after a publication it then queues the request again when there is room. A publication starts with a client whose
cache holds the rest of the queue (\<open>I\<close>).\<close>

inductive flushed ::
  "('s, 'd) write_env \<Rightarrow> ('s write_state \<Rightarrow> PublishDataRequest list \<Rightarrow> bool) \<Rightarrow> nat \<Rightarrow> PublishDataRequest list
    \<Rightarrow> write_request list \<Rightarrow> nat \<Rightarrow> (ApiError + string) list \<Rightarrow> PublishDataRequest list \<Rightarrow> write_request list \<Rightarrow> nat \<Rightarrow> bool"
  for E :: "('s, 'd) write_env" and I :: "'s write_state \<Rightarrow> PublishDataRequest list \<Rightarrow> bool" where
  flushed_done: "flushed E I 0 q h n [] q h n"
| flushed_stopped: "flushed E I (Suc l) (r # q) h n [] (r # q) h (n + 1)"
    if "we_cancelled E n"
| flushed_requeued: "flushed E I (Suc l) (r # q) h n [x] (if length q < we_maximum_requests E then q @ [r] else q) (ws_requests s') (n + 2)"
    if "\<not> we_cancelled E n" "I s q" "ws_requests s = h" "PublishDataTask E r s = Some (s', x)" "we_cancelled E (n + 1)"
| flushed_next: "flushed E I (Suc l) (r # q) h n (x # xs) q' h' n'"
    if "\<not> we_cancelled E n" "I s q" "ws_requests s = h" "PublishDataTask E r s = Some (s', x)" "\<not> we_cancelled E (n + 1)"
      "flushed E I l q (ws_requests s') (n + 2) xs q' h' n'"

lemma flushed_looks: "flushed E I l q h n xs q' h' n' \<Longrightarrow> n \<le> n'"
  by (induction rule: flushed.induct) simp_all

text \<open>Without a cancelled look, as many requests are published as the limit allows.\<close>

lemma flushed_complete:
  "flushed E I l q h n xs q' h' n' \<Longrightarrow> \<forall>i. n \<le> i \<and> i < n' \<longrightarrow> \<not> we_cancelled E i \<Longrightarrow> length xs = l \<and> q' = drop l q"
proof (induction rule: flushed.induct)
  case (flushed_stopped n l r q h)
  then show ?case by (metis le_refl less_add_one)
next
  case (flushed_requeued n s q h r s' x l)
  then show ?case by (metis add_2_eq_Suc' le_add1 lessI Suc_eq_plus1)
next
  case (flushed_next n s q h r s' x l xs q' h' n')
  then show ?case by simp
qed simp

lemma look_eq: "look_cancelled E s = (s\<lparr>ws_looks := ws_looks s + 1\<rparr>, we_cancelled E (ws_looks s))"
  by (simp add: look_cancelled_def)

lemma stream_queue_valid: "stream_queue holds E s q \<Longrightarrow> list_all valid_request q"
  by (auto simp: stream_queue_def queue_view_def)

context keeping_cache
begin

lemma flush_loop_ok:
  assumes E: "sound_env K now_ok expiry_ok now E"
  shows "stream_queue holds E s q \<Longrightarrow> \<exists>s' rs q'. flush_loop E m cnt acc s = Some (s', acc @ rs) \<and> stream_queue holds E s' q'
    \<and> flushed E (stream_queue holds E) (flush_limit m cnt (length q)) q (ws_requests s) (ws_looks s) rs q' (ws_requests s') (ws_looks s')"
proof (induction q arbitrary: s cnt acc)
  case Nil
  from QueueSize_ok [OF Nil sound_envD(1,2,4,3) [OF E]] obtain c where
    "QueueSize E s = Some (s\<lparr>ws_cache := c\<rparr>, 0)" "stream_queue holds E (s\<lparr>ws_cache := c\<rparr>) []" by auto
  then have "flush_loop E m cnt acc s = Some (if m = 0 \<or> cnt < m then s\<lparr>ws_cache := c\<rparr> else s, acc @ [])"
    by (subst flush_loop.simps) simp
  moreover have "stream_queue holds E (if m = 0 \<or> cnt < m then s\<lparr>ws_cache := c\<rparr> else s) []"
    using Nil \<open>stream_queue holds E (s\<lparr>ws_cache := c\<rparr>) []\<close> by simp
  moreover have "flush_limit m cnt (length ([] :: PublishDataRequest list)) = 0" by (simp add: flush_limit_def)
  ultimately show ?case using flushed_done [of E "stream_queue holds E" "[]" "ws_requests s" "ws_looks s"]
    by (intro exI [of _ "if m = 0 \<or> cnt < m then s\<lparr>ws_cache := c\<rparr> else s"] exI [of _ "[]"]) simp
next
  case (Cons r q)
  show ?case
  proof (cases "m = 0 \<or> cnt < m")
    case False
    then have "flush_loop E m cnt acc s = Some (s, acc @ [])" by (subst flush_loop.simps) simp
    moreover have "flush_limit m cnt (length (r # q)) = 0" using False by (simp add: flush_limit_def)
    ultimately show ?thesis using Cons.prems flushed_done by metis
  next
    case True
    from QueueSize_ok [OF Cons.prems sound_envD(1,2,4,3) [OF E]] obtain c where
      c: "QueueSize E s = Some (s\<lparr>ws_cache := c\<rparr>, length (r # q))" "stream_queue holds E (s\<lparr>ws_cache := c\<rparr>) (r # q)" by blast
    let ?s = "s\<lparr>ws_cache := c, ws_looks := ws_looks s + 1\<rparr>"
    have s: "stream_queue holds E ?s (r # q)" using stream_queue_look [OF c(2)] by (simp add: look_eq)
    have lim: "flush_limit m cnt (length (r # q)) = Suc (flush_limit m (cnt + 1) (length q))"
      using True by (auto simp: flush_limit_def)
    show ?thesis
    proof (cases "we_cancelled E (ws_looks s)")
      case can: True
      then have "flush_loop E m cnt acc s = Some (?s, acc @ [])"
        using c(1) True by (subst flush_loop.simps) (simp add: look_eq)
      then show ?thesis unfolding lim using s flushed_stopped [of E "ws_looks s" _ "flush_limit m (cnt + 1) (length q)" r q "ws_requests s"] can
        by (intro exI [of _ ?s] exI [of _ "[]"] exI [of _ "r # q"]) simp
    next
      case go: False
      from Pop_first [OF s E] obtain d where
        d: "PopFromQueue E ?s = Some (?s\<lparr>ws_cache := d\<rparr>, Some r)" "stream_queue holds E (?s\<lparr>ws_cache := d\<rparr>) q" by blast
      let ?t = "?s\<lparr>ws_cache := d\<rparr>"
      have r: "valid_request r" using stream_queue_valid [OF Cons.prems] by simp
      then have "pd_data r \<noteq> None" by (simp add: valid_request_def)
      from PublishDataTask_leaves [OF d(2) E this] obtain s2 x where
        p: "PublishDataTask E r ?t = Some (s2, x)" "stream_queue holds E s2 q" by (auto simp: leaves_def)
      have h: "ws_requests ?t = ws_requests s" by simp
      have n: "ws_looks s2 = ws_looks s + 1" using PublishDataTask_looks [of ?t E r] p(1) by (simp add: looks_kept_def)
      let ?u = "s2\<lparr>ws_looks := ws_looks s + 2\<rparr>"
      have u: "stream_queue holds E ?u q" using p(2) by simp
      have step: "flush_loop E m cnt acc s = (if we_cancelled E (ws_looks s + 1) then Queue E r ?u \<bind> (\<lambda>(s, _). Some (s, acc @ [x]))
          else flush_loop E m (cnt + 1) (acc @ [x]) ?u)"
        using c(1) d(1) p(1) True go n by (subst flush_loop.simps) (simp add: look_eq)
      show ?thesis
      proof (cases "we_cancelled E (ws_looks s + 1)")
        case can: True
        from Queue_ok [OF u sound_envD(1,2,4,3) [OF E] r] obtain v where
          v: "Queue E r ?u = Some (v, if length q < we_maximum_requests E then None else Some QueueFull)"
            "stream_queue holds E v (if length q < we_maximum_requests E then q @ [r] else q)" "ws_requests v = ws_requests ?u"
            "ws_looks v = ws_looks ?u" by blast
        have "flush_loop E m cnt acc s = Some (v, acc @ [x])" using step can v(1) by simp
        with flushed_requeued [of E "ws_looks s" "stream_queue holds E" ?t q, OF go d(2) h p(1) can] v(2-4) show ?thesis
          unfolding lim by auto
      next
        case no: False
        from Cons.IH [OF u, of "cnt + 1" "acc @ [x]"] obtain w rs q' where
          w: "flush_loop E m (cnt + 1) (acc @ [x]) ?u = Some (w, (acc @ [x]) @ rs)" "stream_queue holds E w q'"
            "flushed E (stream_queue holds E) (flush_limit m (cnt + 1) (length q)) q (ws_requests ?u) (ws_looks ?u) rs q' (ws_requests w) (ws_looks w)"
          by blast
        have "flushed E (stream_queue holds E) (flush_limit m (cnt + 1) (length q)) q (ws_requests s2) (ws_looks s + 2) rs q' (ws_requests w) (ws_looks w)"
          using w(3) by simp
        from flushed_next [of E "ws_looks s" "stream_queue holds E" ?t q, OF go d(2) h p(1) no this] show ?thesis
          unfolding lim using step no w(1,2) by (intro exI [of _ w] exI [of _ "x # rs"] exI [of _ q']) simp
      qed
    qed
  qed
qed

lemma flush_execute_ok:
  assumes "sound_env K now_ok expiry_ok now E" and "stream_queue holds E s q"
  shows "\<exists>s' rs q'. flush_execute E m s = Some (s', rs) \<and> stream_queue holds E s' q'
    \<and> flushed E (stream_queue holds E) (if m < 0 then 0 else flush_limit m 0 (length q)) q (ws_requests s) (ws_looks s)
        rs q' (ws_requests s') (ws_looks s')"
proof (cases "m < 0")
  case True
  then show ?thesis using assms(2) flushed_done [of E "stream_queue holds E" q "ws_requests s" "ws_looks s"]
    by (auto simp: flush_execute_def)
next
  case False
  then show ?thesis using flush_loop_ok [OF assms, of m 0 "[]"] by (auto simp: flush_execute_def)
qed

end

section \<open>Runs of a client\<close>

text \<open>Operations of a client, each at its time: the cache is the default cache at that time.\<close>

datatype stream_op = SQueue PublishDataRequest | SPop | SSize | SPublish PublishDataRequest

datatype stream_result = RQueued "queue_error option" | RPopped "PublishDataRequest option" | RSize nat | RPublished

fun stream_step :: "('s, 'd) write_env \<Rightarrow> stream_op \<Rightarrow> 's write_state \<Rightarrow> ('s write_state \<times> stream_result) option" where
  "stream_step E (SQueue r) s = map_option (\<lambda>(s, e). (s, RQueued e)) (Queue E r s)"
| "stream_step E SPop s = map_option (\<lambda>(s, r). (s, RPopped r)) (PopFromQueue E s)"
| "stream_step E SSize s = map_option (\<lambda>(s, n). (s, RSize n)) (QueueSize E s)"
| "stream_step E (SPublish r) s = map_option (\<lambda>(s, _). (s, RPublished)) (PublishData E r s)"

fun stream_run ::
  "(time_t \<Rightarrow> ('s, 'd) write_env) \<Rightarrow> (time_t \<times> stream_op) list \<Rightarrow> 's write_state \<Rightarrow> ('s write_state \<times> stream_result list) option" where
  "stream_run E [] s = Some (s, [])"
| "stream_run E ((now, op) # ops) s = do {
     (s, r) \<leftarrow> stream_step (E now) op s;
     (s, rs) \<leftarrow> stream_run E ops s;
     Some (s, r # rs) }"

text \<open>The specification: a bounded first-in first-out queue.\<close>

fun fifo_step :: "nat \<Rightarrow> stream_op \<Rightarrow> PublishDataRequest list \<Rightarrow> PublishDataRequest list \<times> stream_result" where
  "fifo_step maximum (SQueue r) q =
     (if pd_data r = None then (q, RQueued (Some NoData))
      else if pd_layer_id r = [] then (q, RQueued (Some NoLayerId))
      else if length q < maximum then (q @ [r], RQueued None) else (q, RQueued (Some QueueFull)))"
| "fifo_step maximum SPop q = (tl q, RPopped (case q of [] \<Rightarrow> None | r # _ \<Rightarrow> Some r))"
| "fifo_step maximum SSize q = (q, RSize (length q))"
| "fifo_step maximum (SPublish r) q = (q, RPublished)"

fun fifo_run :: "nat \<Rightarrow> stream_op list \<Rightarrow> PublishDataRequest list \<Rightarrow> PublishDataRequest list \<times> stream_result list" where
  "fifo_run maximum [] q = (q, [])"
| "fifo_run maximum (op # ops) q =
     (let (q, r) = fifo_step maximum op q; (q, rs) = fifo_run maximum ops q in (q, r # rs))"

definition at_time :: "(time_t \<Rightarrow> 's write_kv) \<Rightarrow> ('s, 'd) write_env \<Rightarrow> time_t \<Rightarrow> ('s, 'd) write_env" where
  "at_time K E now = E\<lparr>we_kv := K now\<rparr>"

lemma stream_queue_at_time [simp]: "stream_queue holds (at_time K E now) s q = stream_queue holds E s q"
  by (simp add: stream_queue_def queue_view_def at_time_def GetUuidListKey_def typed_values_def)

lemma at_time_maximum [simp]: "we_maximum_requests (at_time K E now) = we_maximum_requests E"
  by (simp add: at_time_def)

context keeping_cache
begin

lemma PublishData_leaves:
  assumes q: "stream_queue holds E s q" and E: "sound_env K now_ok expiry_ok now E"
  shows "leaves holds E q (PublishData E r s) (\<lambda>_. True)"
  using stream_queue_look [OF q] PublishDataTask_leaves [OF stream_queue_look [OF q] E, of r] q
  by (auto simp: PublishData_def run_task_def look_eq intro: leavesI)

lemma stream_step_ok:
  assumes q: "stream_queue holds E s q" and E: "sound_env K now_ok expiry_ok now E"
  shows "\<exists>s'. stream_step E op s = Some (s', snd (fifo_step (we_maximum_requests E) op q))
    \<and> stream_queue holds E s' (fst (fifo_step (we_maximum_requests E) op q))"
proof (cases op)
  case (SQueue r)
  show ?thesis
  proof (cases "valid_request r")
    case True
    then show ?thesis using SQueue Queue_ok [OF q sound_envD(1,2,4,3) [OF E] True] by (auto simp: valid_request_def)
  next
    case False
    then show ?thesis using SQueue q sound_envD(3) [OF E] by (auto simp: valid_request_def Queue_def)
  qed
next
  case SPop
  then show ?thesis using Pop_empty [OF _ E, of s] Pop_first [OF _ E, of s] q by (cases q) auto
next
  case SSize
  then show ?thesis using QueueSize_ok [OF q sound_envD(1,2,4,3) [OF E]] by auto
next
  case (SPublish r)
  then show ?thesis using PublishData_leaves [OF q E, of r] by (auto simp: leaves_def)
qed

lemma stream_run_ok:
  "stream_queue holds E s q \<Longrightarrow> \<forall>(now, op) \<in> set ops. sound_env K now_ok expiry_ok now (at_time K E now) \<Longrightarrow>
    \<exists>s'. stream_run (at_time K E) ops s = Some (s', snd (fifo_run (we_maximum_requests E) (map snd ops) q))
      \<and> stream_queue holds E s' (fst (fifo_run (we_maximum_requests E) (map snd ops) q))"
proof (induction ops arbitrary: s q)
  case (Cons a ops)
  obtain now op where a: "a = (now, op)" by (cases a)
  have q: "stream_queue holds (at_time K E now) s q" using Cons.prems(1) by simp
  have e: "sound_env K now_ok expiry_ok now (at_time K E now)" using Cons.prems(2) a by simp
  from stream_step_ok [OF q e, of op] obtain s1 where
    s1: "stream_step (at_time K E now) op s = Some (s1, snd (fifo_step (we_maximum_requests E) op q))"
      "stream_queue holds E s1 (fst (fifo_step (we_maximum_requests E) op q))" by auto
  from Cons.IH [OF s1(2)] Cons.prems(2) obtain s2 where
    "stream_run (at_time K E) ops s1 = Some (s2, snd (fifo_run (we_maximum_requests E) (map snd ops) (fst (fifo_step (we_maximum_requests E) op q))))"
    "stream_queue holds E s2 (fst (fifo_run (we_maximum_requests E) (map snd ops) (fst (fifo_step (we_maximum_requests E) op q))))" by auto
  then show ?case using s1(1) a by (auto simp: Let_def case_prod_beta)
qed simp

end

lemma empty_queue: "kept (ws_cache s) Map.empty UNIV \<Longrightarrow> stream_queue kept E s []"
  unfolding stream_queue_def
  by (rule exI [of _ Map.empty], rule exI [of _ UNIV], rule exI [of _ "[]"]) (simp add: queue_view_def typed_values_def)

text \<open>A cache in memory without a limit, and a service that refuses every request.\<close>

definition unlimited_store :: "(write_value, (string, string) omap) default_cache" where
  "unlimited_store = (DefaultCacheImpl_new \<lparr>disk_path_mutable = None, disk_path_protected = None, max_disk_storage = 0,
      max_memory_cache_size = - 1, cs_enforce_immediate_flush = False, eviction_policy = kLeastRecentlyUsed, openOptions = 0\<rparr>)
    \<lparr>is_open := True, memory_cache := Some (InMemoryCache_new (- 1) DefaultCacheCost)\<rparr>"

definition sample_write_env :: "(string \<Rightarrow> nat JsonModels.json option) \<Rightarrow> (write_request list \<Rightarrow> write_request \<Rightarrow> api_response)
    \<Rightarrow> ((write_value, (string, string) omap) default_cache, nat) write_env" where
  "sample_write_env parse net =
     \<lparr>we_kv = default_write_kv mem_ldb 0,
      we_json = \<lparr>lib_parse = parse, lib_text = \<lambda>_. [],
        lib_numbers = \<lparr>exact_int64 = \<lambda>d. Some (of_nat d), trunc_int64 = \<lambda>d. Some (of_nat d), of_int64 = unat, of_uint64 = unat\<rparr>\<rparr>,
      we_net = net, we_catalog = sample_hrn, we_cache = True, we_uuid = \<lambda>n. replicate n (CHR ''0''), we_cancelled = \<lambda>_. False,
      we_default_expiration = 100, we_maximum_requests = 2\<rparr>"

definition plain_answer :: "int \<Rightarrow> string \<Rightarrow> api_response" where
  "plain_answer status body = \<lparr>hr_status = status, hr_body = body, hr_uploaded = 0, hr_downloaded = 0, ar_headers = [], ar_chunks = []\<rparr>"

definition refusing_env :: "((write_value, (string, string) omap) default_cache, nat) write_env" where
  "refusing_env = sample_write_env (\<lambda>_. None) (\<lambda>_ _. plain_answer 500 [])"

definition sample_write_state :: "(write_value, (string, string) omap) default_cache write_state" where
  "sample_write_state = \<lparr>ws_cache = unlimited_store, ws_requests = [], ws_uuids = 0, ws_looks = 0\<rparr>"

definition sample_request :: "string \<Rightarrow> PublishDataRequest" where
  "sample_request data = PublishDataRequest_new\<lparr>pd_data := Some data, pd_layer_id := ''l''\<rparr>"

lemma unlimited_store_empty: "kept unlimited_store Map.empty UNIV"
proof -
  have "memory_kept (InMemoryCache_new (- 1) DefaultCacheCost) [] UNIV"
    by (simp add: memory_kept_def unlimited_def InMemoryCache_new_def SetEvictionCallback_def LruCache_new_def registered_def keys_at_def
        imc_rel_def lru_rel_def)
  then show ?thesis unfolding kept_def
    by (intro conjI exI [of _ "InMemoryCache_new (- 1) DefaultCacheCost"] exI [of _ "[]"])
      (simp_all add: unlimited_store_def plain_memory_def DefaultCacheImpl_new_def ProtectedKeyList_new_def IsProtected_def)
qed

lemma refusing_env_sound:
  assumes "- 1000 \<le> now" and "now \<le> 1000"
  shows "sound_env (default_write_kv mem_ldb) clock_ok lifetime_ok now (at_time (default_write_kv mem_ldb) refusing_env now)"
proof -
  have "inj (\<lambda>n. replicate n (CHR ''0''))" by (rule injI) (metis length_replicate)
  then have "uuids_ok refusing_env"
    by (simp add: uuids_ok_def refusing_env_def sample_write_env_def uuid_alphabet_def set_replicate_conv_if)
  moreover have "times_fit lifetime_ok now refusing_env"
    using assms by (simp add: times_fit_def lifetime_ok_def kExpiryTimeInSecs_def refusing_env_def sample_write_env_def time_max_def)
  moreover have "answers_ok refusing_env"
    by (simp add: answers_ok_def Let_def refusing_env_def sample_write_env_def parse_result_def)
  ultimately show ?thesis using assms
    by (simp add: sound_env_def at_time_def clock_ok_def time_max_def uuids_ok_def times_fit_def answers_ok_def)
      (simp add: refusing_env_def sample_write_env_def)
qed

text \<open>C25. The queue of a stream layer client is a bounded first-in first-out queue. The cache is a default cache in memory, with
no limit but that of a 64-bit size, and without a disk; it starts empty. The operations of one thread, each at its own time,
follow one another; identifiers are fresh, times fit and the answers of the network can be decoded (\<open>sound_env\<close>). Then every
sequence of queueing, taking, counting and publishing is defined and answers as the queue of requests would: a request
without data or layer is refused, one beyond the maximum is refused, and requests are taken in the order they were queued,
each once. Publishing, which stores addresses and the catalog in the same cache, does not disturb the queue. A cache with a
limit can lose requests, see \<open>limited_cache_loses_requests\<close>.\<close>

theorem stream_queue_refines:
  assumes "kept (ws_cache s) Map.empty UNIV"
    and "\<forall>(now, op) \<in> set ops. sound_env (default_write_kv L) clock_ok lifetime_ok now (at_time (default_write_kv L) E now)"
  shows "\<exists>s'. stream_run (at_time (default_write_kv L) E) ops s
      = Some (s', snd (fifo_run (we_maximum_requests E) (map snd ops) []))"
  using kept_memory.stream_run_ok [OF empty_queue [OF assms(1)] assms(2)] by blast

theorem stream_queue_refines_witness:
  "\<exists>s'. stream_run (at_time (default_write_kv mem_ldb) refusing_env)
      [(0, SQueue (sample_request ''a'')), (1, SPublish (sample_request ''x'')), (2, SQueue (sample_request ''b'')),
       (3, SQueue (sample_request ''c'')), (4, SPop), (5, SSize), (6, SPop), (7, SPop)] sample_write_state
    = Some (s', [RQueued None, RPublished, RQueued None, RQueued (Some QueueFull), RPopped (Some (sample_request ''a'')), RSize 1,
       RPopped (Some (sample_request ''b'')), RPopped None])"
proof -
  let ?ops = "[(0, SQueue (sample_request ''a'')), (1, SPublish (sample_request ''x'')), (2, SQueue (sample_request ''b'')),
       (3, SQueue (sample_request ''c'')), (4, SPop), (5, SSize), (6, SPop), (7, SPop)] :: (time_t \<times> stream_op) list"
  have k: "kept (ws_cache sample_write_state) Map.empty UNIV" by (simp add: sample_write_state_def unlimited_store_empty)
  have e: "\<forall>(now, op) \<in> set ?ops. sound_env (default_write_kv mem_ldb) clock_ok lifetime_ok now (at_time (default_write_kv mem_ldb) refusing_env now)"
    by (simp add: refusing_env_sound)
  have m: "we_maximum_requests refusing_env = 2" by (simp add: refusing_env_def sample_write_env_def)
  have "snd (fifo_run 2 (map snd ?ops) []) = [RQueued None, RPublished, RQueued None, RQueued (Some QueueFull),
      RPopped (Some (sample_request ''a'')), RSize 1, RPopped (Some (sample_request ''b'')), RPopped None]"
    by (simp add: sample_request_def)
  with stream_queue_refines [OF k e] show ?thesis unfolding m by simp
qed

text \<open>C34. A flush publishes from the front of the queue, in order, over a default cache in memory without a limit and without a
disk, with fresh identifiers, times that fit and answers that can be decoded (\<open>sound_env\<close>), and no other thread at the queue.
It always returns. It publishes requests one after the other, the first ones of the queue, up to its limit (all when it is
zero, none when it is negative), and the rest stays queued; it stops early only at a look at the cancellation that it made
and that was cancelled: before taking a request, which then stays queued, or after publishing one, which is then queued again
behind the others, if there is room, although it may have been published. When none of the looks it made was cancelled, as
many requests were published as the limit and the queue allow.\<close>

theorem flush_publishes_in_order:
  assumes "sound_env (default_write_kv L) clock_ok lifetime_ok now E" and "stream_queue kept E s q"
  shows "\<exists>s' responses rest limit. limit = (if maximum < 0 then 0 else if maximum = 0 then length q else min (nat maximum) (length q))
    \<and> flush_execute E maximum s = Some (s', responses) \<and> stream_queue kept E s' rest
    \<and> flushed E (stream_queue kept E) limit q (ws_requests s) (ws_looks s) responses rest (ws_requests s') (ws_looks s')
    \<and> ((\<forall>i. ws_looks s \<le> i \<and> i < ws_looks s' \<longrightarrow> \<not> we_cancelled E i) \<longrightarrow> length responses = limit \<and> rest = drop limit q)"
proof -
  have "(if maximum < 0 then 0 else flush_limit maximum 0 (length q))
      = (if maximum < 0 then 0 else if maximum = 0 then length q else min (nat maximum) (length q))" by (simp add: flush_limit_def)
  with kept_memory.flush_execute_ok [OF assms, of maximum] obtain s' rs rest where
    f: "flush_execute E maximum s = Some (s', rs)" "stream_queue kept E s' rest"
      "flushed E (stream_queue kept E) (if maximum < 0 then 0 else if maximum = 0 then length q else min (nat maximum) (length q)) q
        (ws_requests s) (ws_looks s) rs rest (ws_requests s') (ws_looks s')" by auto
  from flushed_complete [OF f(3)] f show ?thesis by blast
qed

theorem flush_publishes_in_order_witness:
  "\<exists>s s' x. stream_run (at_time (default_write_kv mem_ldb) refusing_env)
      [(0, SQueue (sample_request ''a'')), (0, SQueue (sample_request ''b''))] sample_write_state = Some (s, [RQueued None, RQueued None])
    \<and> flush_execute (at_time (default_write_kv mem_ldb) refusing_env 0) 1 s = Some (s', [x])
    \<and> stream_queue kept refusing_env s' [sample_request ''b'']"
proof -
  let ?ops = "[(0, SQueue (sample_request ''a'')), (0, SQueue (sample_request ''b''))] :: (time_t \<times> stream_op) list"
  let ?E = "at_time (default_write_kv mem_ldb) refusing_env 0"
  have k: "kept (ws_cache sample_write_state) Map.empty UNIV" by (simp add: sample_write_state_def unlimited_store_empty)
  have e: "sound_env (default_write_kv mem_ldb) clock_ok lifetime_ok 0 ?E" by (rule refusing_env_sound) simp_all
  then have "\<forall>(now, op) \<in> set ?ops. sound_env (default_write_kv mem_ldb) clock_ok lifetime_ok now (at_time (default_write_kv mem_ldb) refusing_env now)"
    by simp
  from kept_memory.stream_run_ok [OF empty_queue [OF k] this] obtain s where
    s: "stream_run (at_time (default_write_kv mem_ldb) refusing_env) ?ops sample_write_state = Some (s, [RQueued None, RQueued None])"
      "stream_queue kept refusing_env s [sample_request ''a'', sample_request ''b'']"
    by (auto simp: sample_request_def refusing_env_def sample_write_env_def)
  have q: "stream_queue kept ?E s [sample_request ''a'', sample_request ''b'']" using s(2) by simp
  from flush_publishes_in_order [OF e q, of 1] obtain s' rs rest where
    f: "flush_execute ?E 1 s = Some (s', rs)" "stream_queue kept ?E s' rest"
      "(\<forall>i. ws_looks s \<le> i \<and> i < ws_looks s' \<longrightarrow> \<not> we_cancelled ?E i) \<longrightarrow> length rs = 1 \<and> rest = [sample_request ''b'']"
    by auto
  have "\<not> we_cancelled ?E n" for n by (simp add: at_time_def refusing_env_def sample_write_env_def)
  then have s': "stream_queue kept refusing_env s' [sample_request ''b'']" and "length rs = 1" using f(2,3) by auto
  then obtain x where "rs = [x]" by (auto simp: length_Suc_conv)
  with s(1) f(1) s' show ?thesis by blast
qed

section \<open>The order of a publication\<close>

definition publication_requests ::
  "('s, 'd) write_env \<Rightarrow> PublishDataRequest \<Rightarrow> LayerSettings \<Rightarrow> string \<Rightarrow> string \<Rightarrow> string \<Rightarrow> string \<Rightarrow> string \<Rightarrow> write_request list" where
  "publication_requests E request ls publish_client blob_client publication handle part =
     [write_request publish_client ''/publications'' ''POST'' (billing (pd_billing_tag request)) accept_json
        (Some (lib_text (we_json E) (to_json_Publication (Publication_new\<lparr>pub_layer_ids := Some [pd_layer_id request]\<rparr>)))) ''application/json'',
      write_request blob_client (''/layers/'' @ pd_layer_id request @ ''/data/'' @ handle) ''PUT'' (billing (pd_billing_tag request))
        (with_encoding (ls_content_encoding ls) accept_json) (pd_data request) (ls_content_type ls),
      write_request publish_client (''/layers/'' @ pd_layer_id request @ ''/publications/'' @ publication @ ''/partitions'') ''POST''
        (billing (pd_billing_tag request)) accept_json
        (Some (lib_text (we_json E) (to_json_PublishPartitions (Some [PublishPartition_new\<lparr>pp_partition := Some part, pp_data_handle := Some handle\<rparr>]))))
        ''application/json'',
      write_request publish_client (''/publications/'' @ publication) ''PUT'' (billing (pd_billing_tag request)) accept_json None ''application/json'']"

definition accepted_status :: "nat \<Rightarrow> int \<Rightarrow> bool" where
  "accepted_status i status \<longleftrightarrow> (if i = 0 then status = 200 else if i = 1 then status = 200 \<or> status = 204 else status = 204)"

text \<open>The \<open>i\<close>-th of the requests \<open>rs\<close>, sent after the history \<open>h\<close> and those before it, is accepted.\<close>

definition accepted :: "('s, 'd) write_env \<Rightarrow> write_request list \<Rightarrow> write_request list \<Rightarrow> nat \<Rightarrow> bool" where
  "accepted E h rs i \<longleftrightarrow> accepted_status i (hr_status (we_net E (h @ take i rs) (rs ! i)))"

definition publication_outcome ::
  "('s, 'd) write_env \<Rightarrow> PublishDataRequest \<Rightarrow> write_request list \<Rightarrow> write_request list \<Rightarrow> ApiError + string \<Rightarrow> bool" where
  "publication_outcome E request h sent x \<longleftrightarrow>
     (\<exists>ls publish_client blob_client publication handle part n.
        let rs = publication_requests E request ls publish_client blob_client publication handle part in
        n \<le> 4 \<and> sent = take n rs \<and> (\<forall>i. i + 1 < n \<longrightarrow> accepted E h rs i)
        \<and> (1 < n \<longrightarrow> (\<exists>p. write_result E (from_json_Publication (lib_numbers (we_json E))) (we_net E h (hd rs)) = Some (Inr p)
              \<and> pub_id p = Some publication))
        \<and> (\<forall>t. x = Inr t \<longleftrightarrow> n = 4 \<and> accepted E h rs 3 \<and> t = part)
        \<and> (pd_trace_id request \<noteq> None \<longrightarrow> pd_trace_id request = Some part))"

definition only_gets :: "'s write_state \<Rightarrow> 's write_state \<Rightarrow> bool" where
  "only_gets s s' \<longleftrightarrow> (\<exists>gets. ws_requests s' = ws_requests s @ gets \<and> list_all (\<lambda>r. rq_verb r = ''GET'') gets)"

lemma only_gets_refl [simp]: "only_gets s s"
  by (simp add: only_gets_def)

text \<open>A computation that asks the network for nothing but resources.\<close>

definition asks_only :: "'s write_state \<Rightarrow> ('s write_state \<times> 'r) option \<Rightarrow> bool" where
  "asks_only s m \<longleftrightarrow> (\<forall>t r. m = Some (t, r) \<longrightarrow> only_gets s t)"

lemma asksI [intro!]: "only_gets s t \<Longrightarrow> asks_only s (Some (t, r))" "asks_only s None"
  by (simp_all add: asks_only_def)

lemma asks_bind: "asks_only s m \<Longrightarrow> (\<And>t r. only_gets s t \<Longrightarrow> asks_only s (f (t, r))) \<Longrightarrow> asks_only s (m \<bind> f)"
  unfolding asks_only_def bind_eq_Some_conv split_paired_Ex by blast

lemma on_cache_asks: "only_gets s t \<Longrightarrow> asks_only s (on_cache f t)"
  by (auto simp: asks_only_def on_cache_def only_gets_def)

lemma Get_string_asks: "only_gets s t \<Longrightarrow> asks_only s (Get_string E key t)"
  unfolding Get_string_def by (auto intro!: asks_bind on_cache_asks split: option.split cached.split write_value.split)

lemma get_asks:
  "only_gets s t \<Longrightarrow> asks_only s (write_PlatformApi_GetApis E client service version t)"
  "only_gets s t \<Longrightarrow> asks_only s (write_ResourcesApi_GetApis E client hrn service version t)"
  "only_gets s t \<Longrightarrow> asks_only s (write_ConfigApi_GetCatalog E client hrn tag t)"
  by (auto simp: asks_only_def write_PlatformApi_GetApis_def write_ResourcesApi_GetApis_def write_ConfigApi_GetCatalog_def Let_def
      call_write_def write_request_def only_gets_def)

lemma LookupApiClient_asks: "only_gets s t \<Longrightarrow> asks_only s (LookupApiClient E cached service version t)"
  unfolding LookupApiClient_def Let_def lookup_apis_def
  by (auto intro!: asks_bind [OF Get_string_asks] asks_bind [OF get_asks(1)] asks_bind [OF get_asks(2)] asks_bind [OF on_cache_asks]
      split: option.split sum.split list.split)

lemma GetLayerSettings_asks: "only_gets s t \<Longrightarrow> asks_only s (GetLayerSettings E tag layer t)"
  unfolding GetLayerSettings_def Let_def
  by (cases "wk_Contains (we_kv E) (ToString (we_catalog E) @ ''::catalog'') (ws_cache t)")
    (auto intro!: asks_bind [OF LookupApiClient_asks] asks_bind [OF get_asks(3)] asks_bind [OF on_cache_asks]
      split: option.split sum.split cached.split write_value.split)

lemma layer_settings_of_asks: "only_gets s t \<Longrightarrow> asks_only s (layer_settings_of E tag layer t)"
  unfolding layer_settings_of_def by (auto intro!: asks_bind [OF GetLayerSettings_asks] split: sum.split)

lemma write_result_ok: "write_result E p response = Some (Inr x) \<Longrightarrow> hr_status response = 200"
  by (simp add: write_result_def split: if_split_asm)

lemma publication_outcomeI:
  assumes "rs = publication_requests E request ls publish_client blob_client publication handle part" and "0 < n" and "n \<le> 4"
    and "sent = take n rs" and "\<forall>i < n - 1. accepted E h rs i"
    and "1 < n \<Longrightarrow> \<exists>p. write_result E (from_json_Publication (lib_numbers (we_json E))) (we_net E h (hd rs)) = Some (Inr p)
      \<and> pub_id p = Some publication"
    and "case x of Inl _ \<Rightarrow> n < 4 \<or> \<not> accepted E h rs 3 | Inr t \<Rightarrow> n = 4 \<and> accepted E h rs 3 \<and> t = part"
    and "pd_trace_id request = None \<or> pd_trace_id request = Some part"
  shows "publication_outcome E request h sent x"
  unfolding publication_outcome_def Let_def
  by (rule exI [of _ ls], rule exI [of _ publish_client], rule exI [of _ blob_client], rule exI [of _ publication],
      rule exI [of _ handle], rule exI [of _ part], rule exI [of _ n])
    (use assms in \<open>auto split: sum.splits\<close>)

lemma publish_steps_outcome:
  assumes "publish_steps E request ls publish_client blob_client s = Some (s', x)"
  shows "\<exists>sent. ws_requests s' = ws_requests s @ sent \<and> publication_outcome E request (ws_requests s) sent x"
proof -
  let ?h = "ws_requests s" and ?handle = "we_uuid E (ws_uuids s)"
  let ?part = "case pd_trace_id request of Some t \<Rightarrow> t | None \<Rightarrow> we_uuid E (ws_uuids s + 1)"
  define rs where "rs p = publication_requests E request ls publish_client blob_client p ?handle ?part" for p
  define w where "w = write_result E (from_json_Publication (lib_numbers (we_json E))) (we_net E ?h (hd (rs [])))"
  define status where "status p i = hr_status (we_net E (?h @ take i (rs p)) (rs p ! i))" for p and i :: nat
  note defs = publish_steps_def PublishApi_InitPublication_def BlobApi_PutBlob_def PublishApi_UploadPartitions_def
        PublishApi_SubmitPublication_def call_write_def GenerateUuid_def Let_def bind_eq_Some_conv
  have hd: "hd (rs p) = hd (rs [])" for p by (simp add: rs_def publication_requests_def)
  have part: "pd_trace_id request = None \<or> pd_trace_id request = Some ?part" by (simp split: option.split)
  have result: "\<exists>n q. 0 < n \<and> n \<le> 4 \<and> ws_requests s' = ?h @ take n (rs q) \<and> (\<forall>i < n - 1. accepted_status i (status q i))
      \<and> (1 < n \<longrightarrow> (\<exists>p. w = Some (Inr p) \<and> pub_id p = Some q))
      \<and> (case x of Inl _ \<Rightarrow> n < 4 \<or> \<not> accepted_status 3 (status q 3) | Inr t \<Rightarrow> n = 4 \<and> accepted_status 3 (status q 3) \<and> t = ?part)"
  proof (cases w)
    case None
    then show ?thesis using assms by (simp add: w_def defs rs_def publication_requests_def)
  next
    case (Some r)
    show ?thesis
    proof (cases "\<exists>p q. r = Inr p \<and> pub_id p = Some q")
      case False
      then have "ws_requests s' = ?h @ take 1 (rs [])" "\<exists>e. x = Inl e" using Some assms
        by (auto simp: w_def defs rs_def publication_requests_def split: sum.split_asm option.split_asm)
      then show ?thesis by (intro exI [of _ 1] exI [of _ "[]"]) auto
    next
      case True
      then obtain p q where r: "r = Inr p" and q: "pub_id p = Some q" by blast
      have "status q 0 = 200" using Some r write_result_ok [of E _ _ p]
        by (simp add: status_def w_def rs_def publication_requests_def)
      then have zero: "accepted_status 0 (status q 0)" by (simp add: accepted_status_def)
      have "\<exists>n. 2 \<le> n \<and> n \<le> 4 \<and> ws_requests s' = ?h @ take n (rs q)
        \<and> (2 < n \<longrightarrow> accepted_status 1 (status q 1)) \<and> (3 < n \<longrightarrow> accepted_status 2 (status q 2))
        \<and> (case x of Inl _ \<Rightarrow> n < 4 \<or> \<not> accepted_status 3 (status q 3) | Inr t \<Rightarrow> n = 4 \<and> accepted_status 3 (status q 3) \<and> t = ?part)"
      proof (cases "accepted_status 1 (status q 1)")
        case False
        then show ?thesis using Some assms r q
          by (intro exI [of _ 2])
            (auto simp: w_def defs rs_def publication_requests_def status_def accepted_status_def no_result_def split: option.splits)
      next
        case one: True
        show ?thesis
        proof (cases "accepted_status 2 (status q 2)")
          case False
          then show ?thesis using one Some assms r q
            by (intro exI [of _ 3])
              (simp add: w_def defs rs_def publication_requests_def status_def accepted_status_def no_result_def split: option.split_asm; force)
        next
          case True
          then show ?thesis using one Some assms r q
            by (intro exI [of _ 4])
              (auto simp: w_def defs rs_def publication_requests_def status_def accepted_status_def no_result_def split: option.splits if_splits)
        qed
      qed
      then obtain n where n: "2 \<le> n" "n \<le> 4" "ws_requests s' = ?h @ take n (rs q)" "2 < n \<Longrightarrow> accepted_status 1 (status q 1)"
        "3 < n \<Longrightarrow> accepted_status 2 (status q 2)"
        "case x of Inl _ \<Rightarrow> n < 4 \<or> \<not> accepted_status 3 (status q 3) | Inr t \<Rightarrow> n = 4 \<and> accepted_status 3 (status q 3) \<and> t = ?part"
        by blast
      have "accepted_status i (status q i)" if "i < n - 1" for i
      proof -
        have "i < 3" using that n(2) by linarith
        then consider "i = 0" | "i = 1" | "i = 2" by linarith
        then show ?thesis using that zero n(4,5) by cases simp_all
      qed
      then show ?thesis using n(1,2,3,6) Some r q by (intro exI [of _ n] exI [of _ q] conjI impI allI) simp_all
    qed
  qed
  then obtain n q where "0 < n" "n \<le> 4" "ws_requests s' = ?h @ take n (rs q)" "\<forall>i < n - 1. accepted_status i (status q i)"
    "1 < n \<Longrightarrow> \<exists>p. w = Some (Inr p) \<and> pub_id p = Some q"
    "case x of Inl _ \<Rightarrow> n < 4 \<or> \<not> accepted_status 3 (status q 3) | Inr t \<Rightarrow> n = 4 \<and> accepted_status 3 (status q 3) \<and> t = ?part"
    by blast
  moreover from this have "publication_outcome E request ?h (take n (rs q)) x"
    using hd [of q] part
    by (intro publication_outcomeI [where n = n, OF rs_def [of q]])
      (simp_all add: accepted_def status_def w_def split: sum.splits)
  ultimately show ?thesis by blast
qed

lemma no_publication: "publication_outcome E request h [] (Inl e)"
proof -
  obtain part where "pd_trace_id request = None \<or> pd_trace_id request = Some part" by (cases "pd_trace_id request") auto
  then show ?thesis
    unfolding publication_outcome_def Let_def
    by - (rule exI [of _ undefined], rule exI [of _ undefined], rule exI [of _ undefined], rule exI [of _ undefined],
        rule exI [of _ undefined], rule exI [of _ part], rule exI [of _ 0], auto)
qed

text \<open>C35. A publication is submitted last. Publishing data that is too large for a single message first asks for nothing but
resources, and then sends, one after the other and each only after the one before was accepted: the request for a new
publication, the data, the entry of the partition with the handle of the data, and the submission. It returns the identifier of
the partition exactly when the submission was accepted, and an error otherwise.\<close>

theorem publication_submitted_last:
  assumes "PublishDataGreaterThanTwentyMib E request s = Some (s', x)"
  shows "\<exists>gets sent. ws_requests s' = ws_requests s @ gets @ sent \<and> list_all (\<lambda>r. rq_verb r = ''GET'') gets
    \<and> publication_outcome E request (ws_requests s @ gets) sent x"
proof -
  have gets: ?thesis if got: "only_gets s s'" and e: "x = Inl e" for e
  proof -
    from got obtain gets where "ws_requests s' = ws_requests s @ gets" "list_all (\<lambda>r. rq_verb r = ''GET'') gets"
      by (auto simp: only_gets_def)
    then show ?thesis unfolding e by (intro exI [of _ gets] exI [of _ "[]"]) (simp add: no_publication)
  qed
  from assms obtain s1 r1 where 1: "layer_settings_of E (pd_billing_tag request) (pd_layer_id request) s = Some (s1, r1)"
    by (auto simp: PublishDataGreaterThanTwentyMib_def bind_eq_Some_conv)
  then have g1: "only_gets s s1" using layer_settings_of_asks [OF only_gets_refl] unfolding asks_only_def by blast
  show ?thesis
  proof (cases r1)
    case (Inl e)
    then show ?thesis using assms 1 g1 by (intro gets [of e]) (auto simp: PublishDataGreaterThanTwentyMib_def)
  next
    case i1: (Inr ls)
    with assms 1 obtain s2 r2 where 2: "LookupApiClient E (we_cache E) ''publish'' ''v2'' s1 = Some (s2, r2)"
      by (auto simp: PublishDataGreaterThanTwentyMib_def bind_eq_Some_conv)
    then have g2: "only_gets s s2" using LookupApiClient_asks [OF g1] unfolding asks_only_def by blast
    show ?thesis
    proof (cases r2)
      case (Inl e)
      then show ?thesis using assms 1 i1 2 g2 by (intro gets [of e]) (auto simp: PublishDataGreaterThanTwentyMib_def)
    next
      case i2: (Inr pc)
      with assms 1 2 i1 obtain s3 r3 where 3: "LookupApiClient E (we_cache E) ''blob'' ''v1'' s2 = Some (s3, r3)"
        by (auto simp: PublishDataGreaterThanTwentyMib_def bind_eq_Some_conv)
      then have g3: "only_gets s s3" using LookupApiClient_asks [OF g2] unfolding asks_only_def by blast
      show ?thesis
      proof (cases r3)
        case (Inl e)
        then show ?thesis using assms 1 i1 2 i2 3 g3 by (intro gets [of e]) (auto simp: PublishDataGreaterThanTwentyMib_def)
      next
        case (Inr bc)
        then have "publish_steps E request ls pc bc s3 = Some (s', x)"
          using assms 1 i1 2 i2 3 by (simp add: PublishDataGreaterThanTwentyMib_def)
        from publish_steps_outcome [OF this] g3 show ?thesis unfolding only_gets_def by (metis append.assoc)
      qed
    qed
  qed
qed

definition sample_documents :: "string \<Rightarrow> nat JsonModels.json option" where
  "sample_documents text = map_of
     [(''A'', JsonModels.JArray [JsonModels.JObject [(''baseURL'', JsonModels.JString ''u'')]]),
      (''C'', JsonModels.JObject [(''layers'', JsonModels.JArray [JsonModels.JObject [(''id'', JsonModels.JString ''l''), (''contentType'', JsonModels.JString ''t'')]])]),
      (''P'', JsonModels.JObject [(''id'', JsonModels.JString ''p'')])] text"

definition sample_service :: "write_request list \<Rightarrow> write_request \<Rightarrow> api_response" where
  "sample_service h r =
     (if rq_verb r = ''GET'' then plain_answer 200 (if rq_base r = ''u'' then ''C'' else ''A'')
      else if rq_path r = ''/publications'' then plain_answer 200 ''P''
      else plain_answer 204 [])"

theorem publication_submitted_last_witness:
  "\<exists>s' gets sent. PublishDataGreaterThanTwentyMib (sample_write_env sample_documents sample_service) (sample_request ''data'') sample_write_state
      = Some (s', Inr ''0'')
    \<and> ws_requests s' = gets @ sent \<and> list_all (\<lambda>r. rq_verb r = ''GET'') gets
    \<and> publication_outcome (sample_write_env sample_documents sample_service) (sample_request ''data'') gets sent (Inr ''0'')"
proof -
  have "map_option snd (PublishDataGreaterThanTwentyMib (sample_write_env sample_documents sample_service) (sample_request ''data'') sample_write_state)
    = Some (Inr ''0'')" by code_simp
  then obtain s' where "PublishDataGreaterThanTwentyMib (sample_write_env sample_documents sample_service) (sample_request ''data'') sample_write_state
      = Some (s', Inr ''0'')" by (auto simp: map_option_case split: option.split_asm)
  with publication_submitted_last [OF this] show ?thesis by (auto simp: sample_write_state_def)
qed

section \<open>Requests on a disk\<close>

definition or_empty :: "string option \<Rightarrow> string option" where
  "or_empty x = Some (case x of Some t \<Rightarrow> t | None \<Rightarrow> [])"

lemma map_of_emplace [simp]: "map_of (emplace k v ms) k' = (if k' = k \<and> map_of ms k = None then Some v else map_of ms k')"
  by (simp add: emplace_def map_add_def split: option.split)

lemma map_of_emplace_opt [simp]:
  "map_of (emplace_opt k f x ms) k' = (if k' = k \<and> map_of ms k = None then map_option f x else map_of ms k')"
  by (cases x) (auto simp: emplace_opt_def)

lemma from_json_to_json_PublishDataRequest:
  assumes "pd_data r \<noteq> None"
  shows "from_json_PublishDataRequest (to_json_PublishDataRequest r)
    = Some (r\<lparr>pd_trace_id := or_empty (pd_trace_id r), pd_billing_tag := or_empty (pd_billing_tag r), pd_checksum := or_empty (pd_checksum r)\<rparr>)"
proof -
  obtain d where d: "pd_data r = Some d" using assms by blast
  have str: "from_json_string (JsonModels.JString t) = Some t" for t by (simp add: from_json_string_def)
  have opt: "(case x of None \<Rightarrow> Some [] | Some w \<Rightarrow> (from_json_string \<circ> JsonModels.JString) w)
    = Some (case x of Some t \<Rightarrow> t | None \<Rightarrow> [])" for x
    by (simp add: from_json_string_def split: option.split)
  show ?thesis
    by (cases r) (use d in \<open>simp add: from_json_PublishDataRequest_def to_json_PublishDataRequest_def parse_field_def opt or_empty_def
        from_json_data_def str Let_def\<close>)
qed

text \<open>C36. A queued request comes back from its text. The text that a request is kept as on a disk, if it is the text of its
document, is read back as the same request, in which the optional members that were not set are empty strings. A text that is no
document is read as a request without data, and publishing that one is undefined.\<close>

theorem queued_request_roundtrip:
  fixes E :: "('s, 'd) write_env"
  assumes "pd_data r \<noteq> None" and "lib_parse (we_json E) torn = None"
    and "lib_parse (we_json E) (lib_text (we_json E) (to_json_PublishDataRequest r)) = Some (to_json_PublishDataRequest r)"
  shows "parse_request E (lib_text (we_json E) (to_json_PublishDataRequest r))
      = WRequest (r\<lparr>pd_trace_id := or_empty (pd_trace_id r), pd_billing_tag := or_empty (pd_billing_tag r), pd_checksum := or_empty (pd_checksum r)\<rparr>)
    \<and> (\<exists>lost. parse_request E torn = WRequest lost \<and> PublishDataTask E lost s = None)"
proof -
  obtain ms where doc: "to_json_PublishDataRequest r = (JsonModels.JObject ms :: 'd JsonModels.json)"
    by (simp add: to_json_PublishDataRequest_def Let_def)
  have "from_json_PublishDataRequest (to_json_PublishDataRequest r :: 'd JsonModels.json)
    = Some (r\<lparr>pd_trace_id := or_empty (pd_trace_id r), pd_billing_tag := or_empty (pd_billing_tag r), pd_checksum := or_empty (pd_checksum r)\<rparr>)"
    by (rule from_json_to_json_PublishDataRequest [OF assms(1)])
  then show ?thesis
    using assms(2,3) unfolding doc by (simp add: parse_request_def parse_text_def PublishDataTask_def PublishDataRequest_new_def)
qed

definition one_document :: "nat JsonModels.json \<Rightarrow> ((write_value, (string, string) omap) default_cache, nat) write_env" where
  "one_document doc = sample_write_env (\<lambda>text. if text = [] then Some doc else None) sample_service"

theorem queued_request_roundtrip_witness:
  "parse_request (one_document (to_json_PublishDataRequest (sample_request ''data''))) []
      = WRequest ((sample_request ''data'')\<lparr>pd_trace_id := Some [], pd_billing_tag := Some [], pd_checksum := Some []\<rparr>)
    \<and> (\<exists>lost. parse_request (one_document (to_json_PublishDataRequest (sample_request ''data''))) ''{'' = WRequest lost
        \<and> PublishDataTask (one_document (to_json_PublishDataRequest (sample_request ''data''))) lost sample_write_state = None)"
  using queued_request_roundtrip [where r = "sample_request ''data''" and E = "one_document (to_json_PublishDataRequest (sample_request ''data''))"
      and torn = "''{''" and s = sample_write_state]
  by (simp add: one_document_def sample_write_env_def or_empty_def) (simp add: sample_request_def PublishDataRequest_new_def)

text \<open>A cache with a limit loses requests: storing the list of the queue evicts the requests themselves, which were reported as
queued and are still counted, but cannot be taken any more. \<open>Queue\<close> does not look at the results of the cache either.\<close>

definition limited_state :: "(write_value, (string, string) omap) default_cache write_state" where
  "limited_state = sample_write_state\<lparr>ws_cache := unlimited_store\<lparr>memory_cache := Some (InMemoryCache_new 3 DefaultCacheCost)\<rparr>\<rparr>"

lemma limited_cache_loses_requests:
  "map_option snd (stream_run (at_time (default_write_kv mem_ldb) refusing_env)
      [(0, SQueue (sample_request ''a'')), (1, SQueue (sample_request ''b'')), (2, SSize), (3, SPop), (4, SPop)] limited_state)
    = Some [RQueued None, RQueued None, RSize 2, RPopped None, RPopped None]"
  by code_simp

end
