(* ===== verification/Spec2Isabelle.thy ===== *)
theory Spec2Isabelle
  imports CacheGuarantees QuadTree TileSlices Crypto Hrn OlpClient TaskContext JsonModels TaskScheduler NamedMutex Rfc1123 RepositoryGuarantees ReadGuarantees AuthGuarantees StreamGuarantees
begin

text \<open>
  A model of the core of the HERE Data SDK for C++ and the theorems that make it correct. All paths
  are under src/; a file named without its library is in olp-cpp-sdk-core. A definition has the name of the function it
  models wherever Isabelle allows it; a suffix or prefix tells overloads and methods of the same name apart.

  The parts and how they interact. A client of the SDK reads and writes a key-value cache
  (\<open>DefaultCacheImpl\<close>), which keeps recent values in memory (\<open>InMemoryCache\<close>, over the generic
  \<open>LruCache\<close>), all values on disk (\<open>DiskCache\<close>, over LevelDB), and a list of keys that must not be
  evicted (\<open>ProtectedKeyList\<close>). What is not cached is requested from the service: \<open>TaskContext\<close>
  runs the request as a task with one callback, the \<open>ThreadPoolTaskScheduler\<close> gives tasks to threads, and \<open>OlpClient\<close>
  builds the HTTP request from resource names (\<open>HRN\<close>) and URLs, retries it, and merges identical requests
  (\<open>PendingUrlRequests\<close>). The read service answers from the cache or from the network: its repositories store catalogs,
  versions, partitions, quad trees and data under the keys of \<open>KeyGenerator\<close>, look up the addresses of services, and merge
  equal requests with a \<open>NamedMutex\<close>. Partitions arrive as one document or as a stream of parser events
  (\<open>PartitionsSaxHandler\<close>). Map tiles are addressed by \<open>TileKey\<close>; the index of a quad tree of tiles is cached as one block
  of bytes (\<open>QuadTreeIndex\<close>), and a prefetch is cut into slices of such trees. Requests carry tokens of the authentication
  client, which signs its own requests (\<open>Crypto\<close>), caches what it signed in with (\<open>LruCache\<close>) and corrects the clock by
  the dates of the server (\<open>Rfc1123Helper\<close>). The write service (\<open>StreamLayer\<close>) keeps
  the requests of a stream layer in a queue in the cache and publishes them over the network; the settings of a layer come
  from the catalog, through the cache.

  The theories.
  \<^item> \<open>Prelude\<close>: word types, ordered maps (\<open>std::map\<close> as sorted association lists), checked time
    arithmetic, strings and numbers, the locales \<open>map_contract\<close> and \<open>cache_contract\<close>.
  \<^item> \<open>LruCache\<close>: include/olp/core/utils/LruCache.h at the level of its linked
    buckets. The pointer structure refines an abstract list in order of use (\<open>lru_run_refines\<close>).
  \<^item> \<open>InMemoryCache\<close>: src/cache/InMemoryCache.cpp, with expiry times and the eviction callback.
  \<^item> \<open>ProtectedKeyList\<close>: src/cache/ProtectedKeyList.cpp, the ordered set of keys and prefixes, exact
    with respect to the set of covered keys, and its serialisation.
  \<^item> \<open>DiskCache\<close>: src/cache/DiskCache.cpp. LevelDB is a record of operations with documented laws
    (\<open>ldb_laws\<close>); an in-memory instance shows that they can hold.
  \<^item> \<open>DefaultCache\<close>, \<open>CacheGuarantees\<close>: src/cache/DefaultCacheImpl.cpp, every operation with eviction
    and the bookkeeping of sizes, and what the whole cache promises over runs of operations.
  \<^item> \<open>TileKey\<close>: src/geo/tiling/TileKey.cpp and include/olp/core/geo/tiling/TileKey.h on 32-bit and
    64-bit words.
  \<^item> \<open>QuadTree\<close>, \<open>TileSlices\<close>: olp-cpp-sdk-dataservice-read/src/repositories/QuadTreeIndex.cpp with the blob reader
    and writer, byte by byte, and the slices and filters of PrefetchTilesRepository.cpp.
  \<^item> \<open>Crypto\<close>, \<open>Rfc1123\<close>: olp-cpp-sdk-authentication/src/Crypto.cpp against the FIPS definitions of SHA-256 and
    HMAC, and Rfc1123Helper.cpp against the Gregorian calendar.
  \<^item> \<open>Hrn\<close>, \<open>Url\<close>: src/client/HRN.cpp with Tokenizer.h, and src/utils/Url.cpp.
  \<^item> \<open>PendingUrl\<close>, \<open>OlpClient\<close>: src/client/PendingUrlRequests.cpp and src/client/OlpClient.cpp, both
    forms of the call, with the retry settings and the classification of status codes.
  \<^item> \<open>TaskContext\<close>, \<open>TaskScheduler\<close>, \<open>NamedMutex\<close>: include/olp/core/client/TaskContext.h, the pool of threads with its priority
    queue (src/thread), and repositories/NamedMutex.cpp of the read service, as steps of any number of threads.
  \<^item> \<open>PartitionsSax\<close>, \<open>JsonModels\<close>: PartitionsSaxHandler.cpp as a state machine over parser events, and the models, parsers
    and serializers of the read service over values of Boost.JSON.
  \<^item> \<open>KeyGenerator\<close>, \<open>CacheRepositories\<close>, \<open>RepositoryGuarantees\<close>: src/cache/KeyGenerator.cpp, the repositories of the read
    service over a cache, and that what they return is what was stored.
  \<^item> \<open>ReadApi\<close>, \<open>ReadRepositories\<close>, \<open>ReadGuarantees\<close>: the lookup of addresses (src/client/ApiLookupClientImpl.cpp), the requests
    of olp-cpp-sdk-dataservice-read/src/generated/api, and CatalogRepository.cpp, PartitionsRepository.cpp and
    DataRepository.cpp over cache and network, with what they promise about fetch options and data.
  \<^item> \<open>AuthResults\<close>, \<open>Authentication\<close>, \<open>AuthGuarantees\<close>: the results, requests, retries, token endpoint and refreshing tokens of
    olp-cpp-sdk-authentication/src, the signature of RFC 5849 and the bounds of the retry loops.
  \<^item> \<open>WriteModels\<close>, \<open>WriteApi\<close>: the models of olp-cpp-sdk-dataservice-write with their parsers and serializers, the lookup of
    addresses (ApiClientLookup.cpp), the settings of layers (CatalogSettings.cpp) and the requests (src/generated/*Api.cpp).
  \<^item> \<open>StreamLayer\<close>, \<open>StreamGuarantees\<close>: StreamLayerClientImpl.cpp, the queue in the cache, the flush and the publication.
    \<open>KeepingCache\<close> states what the queue expects of its cache and proves it for the default cache.

  The lemmas. Each theory, or the one named after it, defines the state and the operations, then an invariant and its
  preservation, then the behaviour of every operation against an abstract view (a map, a list, a
  set), and ends with its properties. A property is marked by a claim number; some state what the
  code gets wrong. The interfaces between components are locales, each interpreted on the models: \<open>map_contract\<close> for the
  ordered maps, \<open>cache_contract\<close> for the LRU cache, \<open>eviction_method\<close> for the two eviction loops of the default cache,
  \<open>strict_weak_order\<close> and \<open>sync_container\<close> for the order and the containers of the task queue, \<open>lossy_cache\<close> (a cache that may forget but never
  invents) and \<open>keeping_cache\<close> (one that keeps what never expires) for the default cache.

  Bounds and termination. No fuel is used: a loop is structural, has a measure, or is a partial function into options whose
  value is proved to be defined where it returns; \<open>AddedSubkey_loop\<close> of \<open>TileKey\<close> does not end for some arguments, and its
  value is then \<open>None\<close>. Integers keep their width where the code can overflow: sizes of the
  caches, tile keys, quad keys, hash words, offsets and versions are words; times are 64-bit with checked
  addition; waiting times and the steady clock are mathematical integers.

  Scope. The guarantees of \<open>CacheGuarantees\<close> are about the cache with a disk. Those of the repositories, of the data that is
  read and of the queue of a stream layer are about a default cache in memory (the queue: without a limit), because a disk
  with its eviction and protection, and a limit, make them false or another statement; each text says so, and lemmas show
  where they fail. The guarantees of the authentication client hold for documents whose members have their types, and the
  signature is that of RFC 5849 for addresses that the standard leaves as they are.

  Parameters. LevelDB; the network (its answer to every attempt, or to a request given all requests before it); the
  token providers; clocks, cancellation and random identifiers, by the number of the look; the text of JSON documents with the
  conversions of doubles, and of a quad tree index; the calendar of Boost.Date_Time; Base64. What the theorems
  need of them is a named hypothesis.

  Not modelled: the network backends and the context of the process, which are glue to platform interfaces; the
  directories and environments of LevelDB, which are file system calls; logging, error messages and the
  statistics of transfers, which no other part depends on; geometry in double precision, for which the libraries have no
  theory; back-ported library types; Base64, which is iterators of the Boost library; the clients of the read layers, which
  wrap the repositories in tasks, and their stream layer and streamed partitions; of the write service, the clients of versioned, volatile and index layers, which chain callbacks over the requests that are
  modelled, and the timers of \<open>AutoFlushController\<close>, which start threads that sleep. The component list has a note for each.
\<close>

end
